(* ===== verification/Prelude.thy ===== *)
theory Prelude imports Main "HOL-Library.Word" begin

text \<open>
  What the components share: the machine types of the code, C arrays with undefined
  behaviour made explicit, the three-way comparison contract of the code's sort
  functions, and the generic lemmas on lists, maps and words that the component
  theories use.

  An access outside an allocated block has no meaning in C.  The array primitives
  below return \<open>None\<close> for it, so a function of the model that returns \<open>Some\<close> has
  made no such access.
\<close>

unbundle bit_operations_syntax

section \<open>Types and hint collections\<close>

type_synonym u8 = "8 word"
type_synonym u16 = "16 word"
type_synonym u32 = "32 word"
type_synonym u64 = "64 word"
type_synonym bytes = "8 word list"

named_theorems arr_simps \<open>reads and writes of allocated blocks\<close>

section \<open>C arrays\<close>

text \<open>A block of slots; a slot is \<open>None\<close> when it holds a null or was never written.\<close>

type_synonym 'a block = "'a option list"

definition arr_read :: "'a block \<Rightarrow> int \<Rightarrow> 'a option" where
  "arr_read b i = (if 0 \<le> i \<and> i < int (length b) then b ! nat i else None)"

definition arr_write :: "'a block \<Rightarrow> int \<Rightarrow> 'a option \<Rightarrow> 'a block option" where
  "arr_write b i v = (if 0 \<le> i \<and> i < int (length b) then Some (b[nat i := v]) else None)"

text \<open>\<open>memmove (b + dst, b + src, n * sizeof slot)\<close>.\<close>

definition arr_move :: "'a block \<Rightarrow> int \<Rightarrow> int \<Rightarrow> int \<Rightarrow> 'a block option" where
  "arr_move b dst src n =
     (if 0 \<le> n \<and> 0 \<le> dst \<and> 0 \<le> src \<and> dst + n \<le> int (length b) \<and> src + n \<le> int (length b)
      then Some (take (nat dst) b @ take (nat n) (drop (nat src) b) @ drop (nat (dst + n)) b)
      else None)"

text \<open>\<open>realloc\<close>: the old slots up to the new size, then uninitialised ones.\<close>

definition arr_realloc :: "'a block \<Rightarrow> int \<Rightarrow> 'a block" where
  "arr_realloc b n = take (nat n) b @ replicate (nat n - length b) None"

lemma length_arr_realloc [simp]: "length (arr_realloc b n) = nat n"
  by (simp add: arr_realloc_def)

lemma arr_read_nat [arr_simps]: "n < length b \<Longrightarrow> arr_read b (int n) = b ! n"
  by (simp add: arr_read_def)

lemma arr_write_nat [arr_simps]: "n < length b \<Longrightarrow> arr_write b (int n) v = Some (b[n := v])"
  by (simp add: arr_write_def)

lemma arr_move_nat [arr_simps]:
  "d + n \<le> length b \<Longrightarrow> s + n \<le> length b \<Longrightarrow>
   arr_move b (int d) (int s) (int n) =
     Some (take d b @ take n (drop s b) @ drop (d + n) b)"
  by (simp add: arr_move_def nat_int_add)

lemma take_arr_realloc [simp]: "n \<le> length b \<Longrightarrow> int n \<le> m \<Longrightarrow> take n (arr_realloc b m) = take n b"
  by (simp add: arr_realloc_def)

text \<open>The characters of a C string: those before the first zero byte.\<close>

definition c_str :: "bytes \<Rightarrow> bytes" where
  "c_str s = takeWhile (\<lambda>c. c \<noteq> 0) s"

section \<open>Lists\<close>

lemma take_map_Some_nth:
  "take n b = map Some xs \<Longrightarrow> i < length xs \<Longrightarrow> b ! i = Some (xs ! i)"
  by (metis length_map length_take min.strict_boundedE nth_map nth_take)

lemma take_list_update_same: "n \<le> i \<Longrightarrow> take n (xs[i := v]) = take n xs"
  by (simp add: take_update_swap list_update_beyond)

lemma block_insert:
  assumes "i \<le> n" "n < length b"
  shows "(take (i + 1) b @ take (n - i) (drop i b) @ drop (n + 1) b)[i := v] =
     take i b @ v # take (n - i) (drop i b) @ drop (n + 1) b"
proof -
  have "take (i + 1) b = take i b @ [b ! i]" using assms by (simp add: take_Suc_conv_app_nth)
  then show ?thesis using assms by (simp add: list_update_append)
qed

lemma block_parts:
  assumes "take n b = map Some xs" and "length xs = n" and "i \<le> n"
  shows "take i b = map Some (take i xs)" and "take (n - i) (drop i b) = map Some (drop i xs)"
proof -
  show "take i b = map Some (take i xs)"
    using assms(1,3) by (metis min.absorb1 take_map take_take)
  show "take (n - i) (drop i b) = map Some (drop i xs)"
    using assms(1) by (metis drop_map take_drop add_diff_cancel_left' assms(3) drop_take)
qed

section \<open>Sort functions\<close>

text \<open>
  The contract the code asks of a sort function (\<open>FSortFunc\<close>): a three-way comparison
  whose sign is a total preorder.  Providers interpret it on their own comparison.
\<close>

locale sort_order =
  fixes cmp :: "'a \<Rightarrow> 'a \<Rightarrow> int"
  assumes cmp_refl: "cmp a a = 0"
    and cmp_flip: "cmp a b < 0 \<longleftrightarrow> cmp b a > 0"
    and cmp_trans: "cmp a b \<le> 0 \<Longrightarrow> cmp b c \<le> 0 \<Longrightarrow> cmp a c \<le> 0"
begin

lemma cmp_total: "cmp a b \<le> 0 \<or> cmp b a \<le> 0"
  using cmp_flip [of b a] by linarith

lemma cmp_less_trans: "cmp a b < 0 \<Longrightarrow> cmp b c \<le> 0 \<Longrightarrow> cmp a c < 0"
proof (rule ccontr)
  assume ab: "cmp a b < 0" and bc: "cmp b c \<le> 0" and "\<not> cmp a c < 0"
  then have "cmp c a \<le> 0" using cmp_flip [of c a] cmp_flip [of a c] by linarith
  with bc have "cmp b a \<le> 0" using cmp_trans by blast
  with ab show False using cmp_flip [of a b] by linarith
qed

lemma cmp_less_trans2: "cmp a b \<le> 0 \<Longrightarrow> cmp b c < 0 \<Longrightarrow> cmp a c < 0"
proof (rule ccontr)
  assume ab: "cmp a b \<le> 0" and bc: "cmp b c < 0" and "\<not> cmp a c < 0"
  then have "cmp c a \<le> 0" using cmp_flip [of c a] cmp_flip [of a c] by linarith
  with ab have "cmp c b \<le> 0" using cmp_trans by blast
  with bc show False using cmp_flip [of b c] by linarith
qed

lemma cmp_eq_sym: "cmp a b = 0 \<longleftrightarrow> cmp b a = 0"
  using cmp_flip [of a b] cmp_flip [of b a] by linarith

end

text \<open>Comparing a key read from the two objects gives such an order.\<close>

definition key_cmp :: "('a \<Rightarrow> 'k::linorder) \<Rightarrow> 'a \<Rightarrow> 'a \<Rightarrow> int" where
  "key_cmp key a b = (if key a = key b then 0 else if key a < key b then -1 else 1)"

interpretation by_key: sort_order "key_cmp key"
  by unfold_locales (auto simp: key_cmp_def split: if_splits)

section \<open>What a fallible operation does to the state\<close>

text \<open>
  Operations return \<open>Some\<close> new state, with or without a value, or \<open>None\<close> where the code has
  no meaning.  \<open>keeps R s r\<close>: the result \<open>r\<close> of an operation started in \<open>s\<close> is related to
  \<open>s\<close> by \<open>R\<close>.  When \<open>R\<close> is reflexive and transitive this composes along the code.
\<close>

definition keeps :: "('s \<Rightarrow> 's \<Rightarrow> bool) \<Rightarrow> 's \<Rightarrow> 's option \<Rightarrow> bool" where
  "keeps R s r \<longleftrightarrow> (\<forall>s'. r = Some s' \<longrightarrow> R s s')"

definition keeps_with :: "('s \<Rightarrow> 's \<Rightarrow> bool) \<Rightarrow> 's \<Rightarrow> ('a \<times> 's) option \<Rightarrow> bool" where
  "keeps_with R s r \<longleftrightarrow> (\<forall>x s'. r = Some (x, s') \<longrightarrow> R s s')"

lemma keeps_bind_any:
  "(\<And>x. r = Some x \<Longrightarrow> keeps R s (f x)) \<Longrightarrow> keeps R s (Option.bind r f)"
  "(\<And>x. r = Some x \<Longrightarrow> keeps_with R s (g x)) \<Longrightarrow> keeps_with R s (Option.bind r g)"
  by (cases r; simp add: keeps_def keeps_with_def)+

lemma keeps_snd: "keeps_with R s r \<Longrightarrow> keeps R s (map_option snd r)"
  unfolding keeps_def keeps_with_def by auto

lemma keeps_Pair: "keeps R s r \<Longrightarrow> keeps_with R s (map_option (Pair x) r)"
  unfolding keeps_def keeps_with_def by auto

lemma keeps_one: "R s t \<Longrightarrow> keeps R s (Some t)" "R s t \<Longrightarrow> keeps_with R s (Some (x, t))"
  by (simp_all add: keeps_def keeps_with_def)

lemma keepsD: "keeps R s r \<Longrightarrow> r = Some t \<Longrightarrow> R s t"
  by (simp add: keeps_def)

lemma keeps_withD: "keeps_with R s r \<Longrightarrow> r = Some (x, t) \<Longrightarrow> R s t"
  by (simp add: keeps_with_def)

locale step_relation =
  fixes R :: "'s \<Rightarrow> 's \<Rightarrow> bool"
  assumes R_refl: "R s s"
    and R_trans: "R s t \<Longrightarrow> R t u \<Longrightarrow> R s u"
begin

lemma keeps_Some: "keeps R s (Some s)" "keeps R s None" "keeps_with R s (Some (x, s))" "keeps_with R s None"
  by (simp_all add: keeps_def keeps_with_def R_refl)

lemma keeps_after:
  "R s t \<Longrightarrow> keeps R t r \<Longrightarrow> keeps R s r" "R s t \<Longrightarrow> keeps_with R t q \<Longrightarrow> keeps_with R s q"
  using R_trans unfolding keeps_def keeps_with_def by blast+

lemma keeps_bind:
  "keeps R s r \<Longrightarrow> (\<And>t. R s t \<Longrightarrow> keeps R s (f t)) \<Longrightarrow> keeps R s (Option.bind r f)"
  "keeps R s r \<Longrightarrow> (\<And>t. R s t \<Longrightarrow> keeps_with R s (g t)) \<Longrightarrow> keeps_with R s (Option.bind r g)"
  unfolding keeps_def keeps_with_def by (cases r; simp)+

lemma keeps_bind_with:
  "keeps_with R s q \<Longrightarrow> (\<And>x t. R s t \<Longrightarrow> keeps R s (f (x, t))) \<Longrightarrow> keeps R s (Option.bind q f)"
  "keeps_with R s q \<Longrightarrow> (\<And>x t. R s t \<Longrightarrow> keeps_with R s (g (x, t))) \<Longrightarrow>
     keeps_with R s (Option.bind q g)"
  unfolding keeps_def keeps_with_def by (cases q; force)+

lemma keeps_later:
  "keeps R t r \<Longrightarrow> R s t \<Longrightarrow> keeps R s r" "keeps_with R t q \<Longrightarrow> R s t \<Longrightarrow> keeps_with R s q"
  using keeps_after by blast+

end

text \<open>A projection of the state that stays the same is such a relation.\<close>

definition same :: "('s \<Rightarrow> 'v) \<Rightarrow> 's \<Rightarrow> 's \<Rightarrow> bool" where
  "same f s t \<longleftrightarrow> f t = f s"

interpretation same: step_relation "same f"
  by unfold_locales (auto simp: same_def)

end
