(* ===== verification/SortedList.thy ===== *)
theory SortedList imports Prelude "HOL-Library.Multiset" begin

text \<open>
  The sorted pointer list of \<open>src/mir_core/src/lists.cpp\<close> (\<open>SortedList\<close>, and the template
  \<open>LIST\<close> of \<open>include/m_system.h\<close> over it), which the hook table, the service table, the
  contact cache and the settings cache are built on.

  Counters and indices have any size here; \<open>SortedListInt\<close> has the operations in the C type
  \<open>int\<close> and the lists on which the two agree.

  The list owns a block of \<open>limit\<close> slots of which the first \<open>realCount\<close> are in use.  The
  operations below work on that block slot by slot and return \<open>None\<close> where the code would
  touch memory outside it.  The lemmas after them relate the block to the list of the
  values stored in it (\<open>contents\<close>): binary search finds an equal element if there is one
  and the insertion point otherwise, insertion keeps the list sorted, removal drops
  exactly one element, and none of them leaves the block.
\<close>

section \<open>The list\<close>

text \<open>
  \<open>sortFunc\<close> is a function pointer or one of three small integers cast to it, which select
  a comparison of the key stored first in the objects or of the pointers themselves.
  Each sort function of the model carries the way to read that key.
\<close>

datatype 'a sort_func =
    NoSort
  | NumericKeySortT "'a \<Rightarrow> u32"
  | HandleKeySortT "'a \<Rightarrow> u64"
  | PtrKeySortT "'a \<Rightarrow> nat"
  | SortFn "'a \<Rightarrow> 'a \<Rightarrow> int"

record 'a slist =
  items :: "'a block"
  realCount :: int
  limit :: int
  increment :: int
  sortFunc :: "'a sort_func"

definition List_Create :: "int \<Rightarrow> int \<Rightarrow> 'a slist" where
  "List_Create p_limit p_increment =
     \<lparr>items = [], realCount = 0, limit = p_limit, increment = p_increment, sortFunc = NoSort\<rparr>"

text \<open>The constructor of \<open>LIST\<close>: everything zero, then the increment and the sort function.\<close>

definition LIST_new :: "int \<Rightarrow> 'a sort_func \<Rightarrow> 'a slist" where
  "LIST_new aincr afunc =
     \<lparr>items = [], realCount = 0, limit = 0, increment = aincr, sortFunc = afunc\<rparr>"

definition List_Destroy :: "'a slist \<Rightarrow> 'a slist" where
  "List_Destroy l = l\<lparr>items := [], realCount := 0, limit := 0\<rparr>"

section \<open>Binary search\<close>

text \<open>
  The three-way comparison of a stored element \<open>x\<close> with the value \<open>v\<close> searched for, in each
  case of the \<open>switch\<close>.
\<close>

fun sort_cmp :: "'a sort_func \<Rightarrow> 'a \<Rightarrow> 'a \<Rightarrow> int" where
  "sort_cmp NoSort x v = 0"
| "sort_cmp (NumericKeySortT key) x v =
     (if key x = key v then 0 else if key x < key v then -1 else 1)"
| "sort_cmp (HandleKeySortT key) x v =
     (if key x = key v then 0 else if key x < key v then -1 else 1)"
| "sort_cmp (PtrKeySortT addr) x v =
     (if addr x = addr v then 0 else if addr x < addr v then -1 else 1)"
| "sort_cmp (SortFn f) x v = f x v"

text \<open>
  The loop of each case: \<open>Some (True, i)\<close> when slot \<open>i\<close> compares equal, \<open>Some (False, low)\<close>
  when the interval is empty, \<open>None\<close> when it reads a slot that holds no object.
\<close>

function search_loop :: "('a \<Rightarrow> int) \<Rightarrow> 'a block \<Rightarrow> int \<Rightarrow> int \<Rightarrow> (bool \<times> int) option" where
  "search_loop cmpv its low high =
     (if low \<le> high then
        (let i = (low + high) div 2 in
         case arr_read its i of
           None \<Rightarrow> None
         | Some x \<Rightarrow>
             if cmpv x = 0 then Some (True, i)
             else if cmpv x < 0 then search_loop cmpv its (i + 1) high
             else search_loop cmpv its low (i - 1))
      else Some (False, low))"
  by pat_completeness auto
termination
  by (relation "measure (\<lambda>(c, b, low, high). nat (high - low + 1))") auto

declare search_loop.simps [simp del]

definition List_GetIndex :: "'a slist \<Rightarrow> 'a option \<Rightarrow> (bool \<times> int) option" where
  "List_GetIndex l p_value =
     (case p_value of
        None \<Rightarrow> Some (False, -1)
      | Some v \<Rightarrow>
          (case sortFunc l of
             NoSort \<Rightarrow> Some (False, -1)
           | sf \<Rightarrow> search_loop (\<lambda>x. sort_cmp sf x v) (items l) 0 (realCount l - 1)))"

definition List_Find :: "'a slist \<Rightarrow> 'a option \<Rightarrow> 'a option option" where
  "List_Find l p_value =
     (case List_GetIndex l p_value of
        None \<Rightarrow> None
      | Some (found, idx) \<Rightarrow>
          if \<not> found then Some None
          else (case arr_read (items l) idx of None \<Rightarrow> None | Some x \<Rightarrow> Some (Some x)))"

text \<open>\<open>LIST::getIndex\<close> and \<open>LIST::operator[]\<close>, the checked accessors of the template.\<close>

definition LIST_getIndex :: "'a slist \<Rightarrow> 'a option \<Rightarrow> int option" where
  "LIST_getIndex l p =
     (case List_GetIndex l p of None \<Rightarrow> None | Some (found, idx) \<Rightarrow> Some (if found then idx else -1))"

definition LIST_at :: "'a slist \<Rightarrow> int \<Rightarrow> 'a option" where
  "LIST_at l idx = (if 0 \<le> idx \<and> idx < realCount l then arr_read (items l) idx else None)"

fun indexOf_loop :: "'a block \<Rightarrow> 'a \<Rightarrow> nat \<Rightarrow> int \<Rightarrow> int" where
  "indexOf_loop its v 0 i = -1"
| "indexOf_loop its v (Suc n) i =
     (if arr_read its i = Some v then i else indexOf_loop its v n (i + 1))"

text \<open>Pointers are compared here; the model compares the objects, which are distinct.\<close>

definition List_IndexOf :: "'a slist \<Rightarrow> 'a option \<Rightarrow> int" where
  "List_IndexOf l p_value =
     (case p_value of None \<Rightarrow> -1
      | Some v \<Rightarrow> indexOf_loop (items l) v (nat (realCount l)) 0)"

section \<open>Insertion and removal\<close>

definition List_Insert :: "'a slist \<Rightarrow> 'a option \<Rightarrow> int \<Rightarrow> (int \<times> 'a slist) option" where
  "List_Insert l p_value p_index =
     (if p_value = None \<or> p_index > realCount l then Some (0, l)
      else
        let l1 = (if realCount l = limit l
                  then l\<lparr>items := arr_realloc (items l) (realCount l + increment l),
                         limit := limit l + increment l\<rparr>
                  else l) in
        case (if p_index < realCount l1
              then arr_move (items l1) (p_index + 1) p_index (realCount l1 - p_index)
              else Some (items l1)) of
          None \<Rightarrow> None
        | Some its \<Rightarrow>
            (case arr_write its p_index p_value of
               None \<Rightarrow> None
             | Some its' \<Rightarrow> Some (1, l1\<lparr>items := its', realCount := realCount l1 + 1\<rparr>)))"

definition List_InsertPtr :: "'a slist \<Rightarrow> 'a option \<Rightarrow> (int \<times> 'a slist) option" where
  "List_InsertPtr l p =
     (if p = None then Some (-1, l)
      else case (case sortFunc l of
                   NoSort \<Rightarrow> Some (realCount l)
                 | _ \<Rightarrow> map_option snd (List_GetIndex l p)) of
             None \<Rightarrow> None
           | Some idx \<Rightarrow> List_Insert l p idx)"

definition List_Remove :: "'a slist \<Rightarrow> int \<Rightarrow> (int \<times> 'a slist) option" where
  "List_Remove l index =
     (if index < 0 \<or> index > realCount l then Some (0, l)
      else
        let n = realCount l - 1 in
        case (if n > index then arr_move (items l) index (index + 1) (n - index)
              else Some (items l)) of
          None \<Rightarrow> None
        | Some its \<Rightarrow>
            (case arr_write its n None of
               None \<Rightarrow> None
             | Some its' \<Rightarrow> Some (1, l\<lparr>items := its', realCount := n\<rparr>)))"

definition List_RemovePtr :: "'a slist \<Rightarrow> 'a option \<Rightarrow> (int \<times> 'a slist) option" where
  "List_RemovePtr l p =
     (case List_GetIndex l p of
        None \<Rightarrow> None
      | Some (found, idx) \<Rightarrow>
          if \<not> found then Some (-1, l)
          else (case List_Remove l idx of None \<Rightarrow> None | Some (_, l') \<Rightarrow> Some (idx, l')))"

text \<open>
  \<open>List_Copy\<close> gives the copy the capacity field of the original but a block of \<open>realCount\<close>
  slots, and leaves the sort function of the destination as it is.
\<close>

definition List_Copy :: "'a slist \<Rightarrow> 'a slist \<Rightarrow> 'a slist" where
  "List_Copy s d =
     d\<lparr>increment := increment s, limit := limit s, realCount := realCount s,
       items := take (nat (realCount s)) (items s)\<rparr>"

fun objcopy_loop :: "'a block \<Rightarrow> nat \<Rightarrow> int \<Rightarrow> 'a slist \<Rightarrow> 'a slist option" where
  "objcopy_loop its 0 i d = Some d"
| "objcopy_loop its (Suc n) i d =
     (case arr_read its i of
        None \<Rightarrow> None
      | Some x \<Rightarrow>
          (case List_Insert d (Some x) i of
             None \<Rightarrow> None
           | Some (_, d') \<Rightarrow> objcopy_loop its n (i + 1) d'))"

definition List_ObjCopy :: "'a slist \<Rightarrow> 'a slist \<Rightarrow> 'a slist option" where
  "List_ObjCopy s d =
     objcopy_loop (items s) (nat (realCount s)) 0
       (d\<lparr>increment := increment s, sortFunc := sortFunc s\<rparr>)"

section \<open>The block and the list it stores\<close>

text \<open>\<open>slist_rep l xs\<close>: the block of \<open>l\<close> holds exactly the objects \<open>xs\<close> and has the capacity it says.\<close>

definition slist_rep :: "'a slist \<Rightarrow> 'a list \<Rightarrow> bool" where
  "slist_rep l xs \<longleftrightarrow>
     realCount l = int (length xs) \<and> length xs \<le> length (items l) \<and>
     limit l = int (length (items l)) \<and> 0 < increment l \<and>
     take (length xs) (items l) = map Some xs"

definition contents :: "'a slist \<Rightarrow> 'a list" where
  "contents l = map the (take (nat (realCount l)) (items l))"

lemma contents_rep: "slist_rep l xs \<Longrightarrow> contents l = xs"
  by (simp add: slist_rep_def contents_def comp_def)

lemma slist_rep_new: "0 < aincr \<Longrightarrow> slist_rep (LIST_new aincr f) []"
  by (simp add: slist_rep_def LIST_new_def)

lemma rep_read:
  "slist_rep l xs \<Longrightarrow> 0 \<le> i \<Longrightarrow> i < int (length xs) \<Longrightarrow> arr_read (items l) i = Some (xs ! nat i)"
  by (auto simp: slist_rep_def arr_read_def intro: take_map_Some_nth)

lemma LIST_at_rep:
  "slist_rep l xs \<Longrightarrow>
   LIST_at l i = (if 0 \<le> i \<and> i < int (length xs) then Some (xs ! nat i) else None)"
  by (auto simp: LIST_at_def rep_read) (auto simp: slist_rep_def)

lemma List_Insert_rep:
  assumes rep: "slist_rep l xs" and i: "i \<le> length xs"
  obtains l' where "List_Insert l (Some v) (int i) = Some (1, l')"
    and "slist_rep l' (take i xs @ v # drop i xs)" and "sortFunc l' = sortFunc l"
proof -
  define l1 where "l1 = (if realCount l = limit l
                  then l\<lparr>items := arr_realloc (items l) (realCount l + increment l),
                         limit := limit l + increment l\<rparr> else l)"
  let ?n = "length xs" and ?b = "items l1"
  from rep have r1: "slist_rep l1 xs" and room: "?n < length ?b"
    by (auto simp: slist_rep_def l1_def)
  then have tk: "take ?n ?b = map Some xs" and rc: "realCount l1 = int ?n"
    by (auto simp: slist_rep_def)
  define mv where "mv = take (i + 1) ?b @ take (?n - i) (drop i ?b) @ drop (?n + 1) ?b"
  have move: "(if int i < realCount l1
              then arr_move ?b (int i + 1) (int i) (realCount l1 - int i)
              else Some ?b) = Some mv"
    using arr_move_nat [of "i + 1" "?n - i" ?b i] room i rc
    by (cases "i < ?n") (auto simp: mv_def nat_int_add of_nat_diff add.commute simp flip: take_add)
  have len: "length mv = length ?b" using room i by (simp add: mv_def)
  have wr: "arr_write mv (int i) (Some v) = Some (mv[i := Some v])"
    using len room i by (simp add: arr_write_nat)
  have ins: "List_Insert l (Some v) (int i) =
      Some (1, l1\<lparr>items := mv[i := Some v], realCount := realCount l1 + 1\<rparr>)"
    unfolding List_Insert_def Let_def l1_def [symmetric] move option.case wr
    using i rep by (simp add: slist_rep_def)
  have "mv[i := Some v] = take i ?b @ Some v # take (?n - i) (drop i ?b) @ drop (?n + 1) ?b"
    unfolding mv_def using i room by (rule block_insert)
  also have "\<dots> = map Some (take i xs @ v # drop i xs) @ drop (?n + 1) ?b"
    using block_parts [OF tk refl i] by simp
  finally have "take (?n + 1) (mv[i := Some v]) = map Some (take i xs @ v # drop i xs)"
    using i by (simp add: Suc_diff_le)
  then have "slist_rep (l1\<lparr>items := mv[i := Some v], realCount := realCount l1 + 1\<rparr>)
      (take i xs @ v # drop i xs)"
    using r1 room i len by (simp add: slist_rep_def)
  then show ?thesis using ins that by (simp add: l1_def)
qed

lemma List_Remove_rep:
  assumes rep: "slist_rep l xs" and i: "i < length xs"
  obtains l' where "List_Remove l (int i) = Some (1, l')"
    and "slist_rep l' (take i xs @ drop (i + 1) xs)" and "sortFunc l' = sortFunc l"
proof -
  let ?n = "length xs" and ?b = "items l"
  from rep have tk: "take ?n ?b = map Some xs" and rc: "realCount l = int ?n"
    and room: "?n \<le> length ?b" by (auto simp: slist_rep_def)
  define mv where "mv = take i ?b @ take (?n - 1 - i) (drop (i + 1) ?b) @ drop (?n - 1) ?b"
  have move: "(if realCount l - 1 > int i
              then arr_move ?b (int i) (int i + 1) (realCount l - 1 - int i)
              else Some ?b) = Some mv"
  proof (cases "i < ?n - 1")
    case True
    have "arr_move ?b (int i) (int (i + 1)) (int (?n - 1 - i)) = Some mv"
      using True room by (subst arr_move_nat) (auto simp: mv_def)
    moreover have "int (i + 1) = int i + 1" "int (?n - 1 - i) = realCount l - 1 - int i"
      using True rc by auto
    ultimately have "arr_move ?b (int i) (int i + 1) (realCount l - 1 - int i) = Some mv" by metis
    moreover have "realCount l - 1 > int i" using True rc by linarith
    ultimately show ?thesis by simp
  next
    case False
    then have "?n = Suc i" using i by simp
    then show ?thesis using rc by (simp add: mv_def)
  qed
  have len: "length mv = length ?b" using room i by (simp add: mv_def)
  have wr: "arr_write mv (realCount l - 1) None = Some (mv[?n - 1 := None])"
    using arr_write_nat [of "?n - 1" mv None] len room i rc by (simp add: of_nat_diff)
  have rem: "List_Remove l (int i) =
      Some (1, l\<lparr>items := mv[?n - 1 := None], realCount := realCount l - 1\<rparr>)"
    unfolding List_Remove_def Let_def move option.case wr
    using i rep by (simp add: slist_rep_def)
  have "take (?n - 1) (mv[?n - 1 := None]) = take i ?b @ take (?n - 1 - i) (drop (i + 1) ?b)"
    using i room by (simp add: mv_def take_list_update_same)
  also have "\<dots> = map Some (take i xs @ drop (i + 1) xs)"
    using block_parts [OF tk refl, of i] block_parts [OF tk refl, of "i + 1"] i by simp
  finally have "slist_rep (l\<lparr>items := mv[?n - 1 := None], realCount := realCount l - 1\<rparr>)
      (take i xs @ drop (i + 1) xs)"
    using rep i len room by (auto simp: slist_rep_def of_nat_diff)
  then show ?thesis using rem that by simp
qed

section \<open>Binary search on a sorted list\<close>

definition sorted_by :: "('a \<Rightarrow> 'a \<Rightarrow> int) \<Rightarrow> 'a list \<Rightarrow> bool" where
  "sorted_by cmp xs \<longleftrightarrow> sorted_wrt (\<lambda>a b. cmp a b \<le> 0) xs"

text \<open>
  \<open>search_inv\<close>: everything left of \<open>low\<close> is smaller than \<open>v\<close>, everything right of \<open>high\<close>
  is larger.  \<open>split_at\<close>: position \<open>i\<close> separates the smaller from the larger elements.
\<close>

definition search_inv :: "('a \<Rightarrow> 'a \<Rightarrow> int) \<Rightarrow> 'a list \<Rightarrow> 'a \<Rightarrow> int \<Rightarrow> int \<Rightarrow> bool" where
  "search_inv cmp xs v low high \<longleftrightarrow>
     0 \<le> low \<and> low \<le> high + 1 \<and> high < int (length xs) \<and>
     (\<forall>x \<in> set (take (nat low) xs). cmp x v < 0) \<and>
     (\<forall>x \<in> set (drop (nat (high + 1)) xs). cmp x v > 0)"

definition search_result :: "('a \<Rightarrow> 'a \<Rightarrow> int) \<Rightarrow> 'a list \<Rightarrow> 'a \<Rightarrow> bool \<times> int \<Rightarrow> bool" where
  "search_result cmp xs v r \<longleftrightarrow>
     (if fst r then 0 \<le> snd r \<and> snd r < int (length xs) \<and> cmp (xs ! nat (snd r)) v = 0
      else search_inv cmp xs v (snd r) (snd r - 1))"

context sort_order begin

lemma sorted_by_nth:
  "sorted_by cmp xs \<Longrightarrow> i \<le> j \<Longrightarrow> j < length xs \<Longrightarrow> cmp (xs ! i) (xs ! j) \<le> 0"
  unfolding sorted_by_def by (cases "i = j") (auto simp: cmp_refl sorted_wrt_iff_nth_less)

lemma left_le:
  assumes "sorted_by cmp xs" "k < length xs" "x \<in> set (take (Suc k) xs)"
  shows "cmp x (xs ! k) \<le> 0"
proof -
  obtain j where "j \<le> k" "x = xs ! j"
    using assms(2,3) by (auto simp: in_set_conv_nth less_Suc_eq_le)
  then show ?thesis using sorted_by_nth [OF assms(1), of j k] assms(2) by blast
qed

lemma right_le:
  assumes "sorted_by cmp xs" "k < length xs" "x \<in> set (drop k xs)"
  shows "cmp (xs ! k) x \<le> 0"
proof -
  obtain j where "j < length xs - k" "x = drop k xs ! j"
    using assms(3) by (auto simp: in_set_conv_nth)
  then show ?thesis using sorted_by_nth [OF assms(1), of k "k + j"] assms(2) by simp
qed

lemma smaller_left:
  "sorted_by cmp xs \<Longrightarrow> k < length xs \<Longrightarrow> cmp (xs ! k) v < 0 \<Longrightarrow> x \<in> set (take (Suc k) xs) \<Longrightarrow>
   cmp x v < 0"
  using left_le cmp_less_trans2 by blast

lemma larger_right:
  "sorted_by cmp xs \<Longrightarrow> k < length xs \<Longrightarrow> cmp (xs ! k) v > 0 \<Longrightarrow> x \<in> set (drop k xs) \<Longrightarrow>
   cmp x v > 0"
  using right_le cmp_less_trans cmp_flip by blast

lemma search_step_right:
  assumes "sorted_by cmp xs" "search_inv cmp xs v low high" "low \<le> i" "i \<le> high"
    and "cmp (xs ! nat i) v < 0"
  shows "search_inv cmp xs v (i + 1) high"
  using assms smaller_left [of xs "nat i" v]
  by (auto simp: search_inv_def nat_add_distrib)

lemma search_step_left:
  assumes "sorted_by cmp xs" "search_inv cmp xs v low high" "low \<le> i" "i \<le> high"
    and "cmp (xs ! nat i) v > 0"
  shows "search_inv cmp xs v low (i - 1)"
  using assms larger_right [of xs "nat i" v] by (auto simp: search_inv_def)

lemma search_loop_correct:
  assumes "\<And>i. 0 \<le> i \<Longrightarrow> i < int (length xs) \<Longrightarrow> arr_read its i = Some (xs ! nat i)"
    and "sorted_by cmp xs" and "search_inv cmp xs v low high"
  shows "\<exists>r. search_loop (\<lambda>x. cmp x v) its low high = Some r \<and> search_result cmp xs v r"
  using assms(3)
proof (induction "nat (high - low + 1)" arbitrary: low high rule: less_induct)
  case less
  show ?case
  proof (cases "low \<le> high")
    case False
    then have "high = low - 1" using less.prems by (simp add: search_inv_def)
    moreover have "search_loop (\<lambda>x. cmp x v) its low high = Some (False, low)"
      using False by (simp add: search_loop.simps [of _ its low high])
    ultimately show ?thesis using less.prems by (auto simp: search_result_def)
  next
    case True
    let ?i = "(low + high) div 2"
    have i: "low \<le> ?i" "?i \<le> high" using True by auto
    have rd: "arr_read its ?i = Some (xs ! nat ?i)"
      using assms(1) less.prems i by (simp add: search_inv_def)
    note unf = search_loop.simps [of _ its low high]
    consider "cmp (xs ! nat ?i) v = 0" | "cmp (xs ! nat ?i) v < 0" | "cmp (xs ! nat ?i) v > 0"
      by linarith
    then show ?thesis
    proof cases
      case 1
      then show ?thesis using True rd i less.prems
        by (simp add: unf Let_def search_result_def search_inv_def)
    next
      case 2
      have "\<exists>r. search_loop (\<lambda>x. cmp x v) its (?i + 1) high = Some r \<and> search_result cmp xs v r"
        using search_step_right [OF assms(2) less.prems i 2] i True
        by (intro less.hyps) auto
      then show ?thesis using True rd 2 by (simp add: unf Let_def)
    next
      case 3
      have "\<exists>r. search_loop (\<lambda>x. cmp x v) its low (?i - 1) = Some r \<and> search_result cmp xs v r"
        using search_step_left [OF assms(2) less.prems i 3] i True
        by (intro less.hyps) auto
      then show ?thesis using True rd 3 by (simp add: unf Let_def)
    qed
  qed
qed

end

section \<open>A list with a sort function\<close>

text \<open>
  The interface the clients of a sorted \<open>LIST\<close> use: its sort function is one of the four
  comparing ones and its comparison is a total preorder.
\<close>

locale sorted_table = sort_order "sort_cmp sf" for sf :: "'a sort_func" +
  assumes has_order: "sf \<noteq> NoSort"

definition table_rep :: "'a sort_func \<Rightarrow> 'a slist \<Rightarrow> 'a list \<Rightarrow> bool" where
  "table_rep sf l xs \<longleftrightarrow> slist_rep l xs \<and> sortFunc l = sf \<and> sorted_by (sort_cmp sf) xs"

lemma table_rep_new: "0 < aincr \<Longrightarrow> table_rep sf (LIST_new aincr sf) []"
  by (simp add: table_rep_def slist_rep_new sorted_by_def) (simp add: LIST_new_def)

lemma table_rep_at:
  "table_rep sf l xs \<Longrightarrow>
   LIST_at l i = (if 0 \<le> i \<and> i < int (length xs) then Some (xs ! nat i) else None)"
  by (simp add: table_rep_def LIST_at_rep)

lemma search_inv_start: "search_inv cmp xs v 0 (int (length xs) - 1)"
  by (simp add: search_inv_def)

context sorted_table begin

lemma GetIndex_spec:
  assumes "table_rep sf l xs"
  shows "\<exists>r. List_GetIndex l (Some v) = Some r \<and> search_result (sort_cmp sf) xs v r"
proof -
  have "\<exists>r. search_loop (\<lambda>x. sort_cmp sf x v) (items l) 0 (int (length xs) - 1) = Some r \<and>
            search_result (sort_cmp sf) xs v r"
    using assms search_inv_start
    by (intro search_loop_correct) (auto simp: table_rep_def rep_read)
  then show ?thesis using assms has_order
    by (cases sf) (auto simp: List_GetIndex_def table_rep_def slist_rep_def)
qed

lemma absent_iff_split:
  "search_inv (sort_cmp sf) xs v i (i - 1) \<Longrightarrow> x \<in> set xs \<Longrightarrow> sort_cmp sf x v \<noteq> 0"
proof -
  assume inv: "search_inv (sort_cmp sf) xs v i (i - 1)" and x: "x \<in> set xs"
  have "x \<in> set (take (nat i) xs) \<or> x \<in> set (drop (nat i) xs)"
    using x by (metis Un_iff append_take_drop_id set_append)
  then show ?thesis using inv by (auto simp: search_inv_def)
qed

lemma getIndex_absent:
  assumes "table_rep sf l xs"
  shows "LIST_getIndex l (Some v) = Some (-1) \<longleftrightarrow> (\<forall>x \<in> set xs. sort_cmp sf x v \<noteq> 0)"
proof -
  obtain f i where r: "List_GetIndex l (Some v) = Some (f, i)"
    and res: "search_result (sort_cmp sf) xs v (f, i)"
    using GetIndex_spec [OF assms] by force
  show ?thesis
    using r res absent_iff_split [of xs v i] nth_mem [of "nat i" xs]
    by (cases f) (auto simp: LIST_getIndex_def search_result_def)
qed

lemma getIndex_present:
  assumes "table_rep sf l xs" and "LIST_getIndex l (Some v) = Some i" and "i \<noteq> -1"
  shows "0 \<le> i \<and> i < int (length xs) \<and> sort_cmp sf (xs ! nat i) v = 0"
  using GetIndex_spec [OF assms(1), of v] assms(2,3)
  by (auto simp: LIST_getIndex_def search_result_def split: option.splits if_splits)

lemma getIndex_total:
  assumes "table_rep sf l xs"
  obtains i where "LIST_getIndex l (Some v) = Some i"
  using GetIndex_spec [OF assms, of v] by (auto simp: LIST_getIndex_def)

lemma sorted_insert_at:
  assumes "sorted_by (sort_cmp sf) xs" "i \<le> length xs"
    "\<forall>x \<in> set (take i xs). sort_cmp sf x v \<le> 0" "\<forall>x \<in> set (drop i xs). sort_cmp sf v x \<le> 0"
  shows "sorted_by (sort_cmp sf) (take i xs @ v # drop i xs)"
proof -
  have "sorted_wrt (\<lambda>a b. sort_cmp sf a b \<le> 0) (take i xs @ drop i xs)"
    using assms(1) by (simp add: sorted_by_def)
  then show ?thesis using assms(3,4) cmp_trans
    by (auto simp: sorted_by_def sorted_wrt_append)
qed

text \<open>
  Insertion returns 1, keeps the table sorted and adds exactly the new element; an element
  equal to existing ones lands next to one of them.
\<close>

lemma InsertPtr_spec:
  assumes rep: "table_rep sf l xs"
  obtains l' i where "List_InsertPtr l (Some v) = Some (1, l')" and "i \<le> length xs"
    and "table_rep sf l' (take i xs @ v # drop i xs)"
proof -
  obtain f i where r: "List_GetIndex l (Some v) = Some (f, i)"
    and res: "search_result (sort_cmp sf) xs v (f, i)"
    using GetIndex_spec [OF rep, of v] by force
  have bnd: "0 \<le> i" "nat i \<le> length xs"
    using res by (auto simp: search_result_def search_inv_def split: if_splits)
  have srt: "sorted_by (sort_cmp sf) xs" using rep by (simp add: table_rep_def)
  have sides: "(\<forall>x \<in> set (take (nat i) xs). sort_cmp sf x v \<le> 0) \<and>
      (\<forall>x \<in> set (drop (nat i) xs). sort_cmp sf v x \<le> 0)"
  proof (cases f)
    case True
    then have eq: "nat i < length xs" "sort_cmp sf (xs ! nat i) v = 0" "sort_cmp sf v (xs ! nat i) = 0"
      using res cmp_eq_sym by (auto simp: search_result_def)
    have "sort_cmp sf x v \<le> 0" if "x \<in> set (take (nat i) xs)" for x
    proof -
      have "x \<in> set (take (Suc (nat i)) xs)"
        using that set_take_subset_set_take [of "nat i" "Suc (nat i)" xs] by auto
      then have "sort_cmp sf x (xs ! nat i) \<le> 0" by (rule left_le [OF srt eq(1)])
      then show ?thesis using eq(2) cmp_trans [of x "xs ! nat i" v] by simp
    qed
    moreover have "sort_cmp sf v x \<le> 0" if "x \<in> set (drop (nat i) xs)" for x
      using right_le [OF srt eq(1) that] eq(3) cmp_trans [of v "xs ! nat i" x] by simp
    ultimately show ?thesis by blast
  next
    case False
    then have inv: "search_inv (sort_cmp sf) xs v i (i - 1)" using res by (simp add: search_result_def)
    have "sort_cmp sf v x \<le> 0" if "x \<in> set (drop (nat i) xs)" for x
    proof -
      have "sort_cmp sf x v > 0" using inv that by (simp add: search_inv_def)
      then have "sort_cmp sf v x < 0" using cmp_flip by blast
      then show ?thesis by simp
    qed
    then show ?thesis using inv by (auto simp: search_inv_def intro: less_imp_le)
  qed
  obtain l' where l': "List_Insert l (Some v) (int (nat i)) = Some (1, l')"
    "slist_rep l' (take (nat i) xs @ v # drop (nat i) xs)" "sortFunc l' = sortFunc l"
    by (rule List_Insert_rep [of l xs "nat i" v]) (use rep bnd in \<open>auto simp: table_rep_def\<close>)
  have "List_InsertPtr l (Some v) = Some (1, l')"
  proof -
    have "sortFunc l \<noteq> NoSort" using rep has_order by (simp add: table_rep_def)
    then have "(case sortFunc l of NoSort \<Rightarrow> Some (realCount l)
                 | _ \<Rightarrow> map_option snd (List_GetIndex l (Some v))) = Some i"
      using r by (cases "sortFunc l") auto
    then show ?thesis using l'(1) bnd(1) by (simp add: List_InsertPtr_def)
  qed
  moreover have "table_rep sf l' (take (nat i) xs @ v # drop (nat i) xs)"
    using l' rep sides sorted_insert_at [OF srt bnd(2)] by (simp add: table_rep_def)
  ultimately show ?thesis using that bnd by blast
qed

lemma Remove_spec:
  assumes rep: "table_rep sf l xs" and "0 \<le> i" "i < int (length xs)"
  obtains l' where "List_Remove l i = Some (1, l')"
    and "table_rep sf l' (take (nat i) xs @ drop (Suc (nat i)) xs)"
proof -
  obtain l' where l': "List_Remove l i = Some (1, l')"
    "slist_rep l' (take (nat i) xs @ drop (Suc (nat i)) xs)" "sortFunc l' = sortFunc l"
    by (rule List_Remove_rep [of l xs "nat i"]) (use assms in \<open>auto simp: table_rep_def\<close>)
  have "sorted_wrt (\<lambda>a b. sort_cmp sf a b \<le> 0) (take (nat i) xs @ xs ! nat i # drop (Suc (nat i)) xs)"
    using rep assms by (simp add: table_rep_def sorted_by_def id_take_nth_drop [symmetric])
  then have "sorted_by (sort_cmp sf) (take (nat i) xs @ drop (Suc (nat i)) xs)"
    by (auto simp: sorted_by_def sorted_wrt_append)
  then show ?thesis using l' rep that by (simp add: table_rep_def)
qed

lemma RemovePtr_spec:
  assumes rep: "table_rep sf l xs" and "\<exists>x \<in> set xs. sort_cmp sf x v = 0"
  obtains l' i where "List_RemovePtr l (Some v) = Some (int i, l')" and "i < length xs"
    and "sort_cmp sf (xs ! i) v = 0" and "table_rep sf l' (take i xs @ drop (Suc i) xs)"
proof -
  obtain f i where r: "List_GetIndex l (Some v) = Some (f, i)"
    and res: "search_result (sort_cmp sf) xs v (f, i)"
    using GetIndex_spec [OF rep, of v] by force
  have f: f using res assms(2) absent_iff_split [of xs v i] by (auto simp: search_result_def split: if_splits)
  then have i: "0 \<le> i" "i < int (length xs)" "sort_cmp sf (xs ! nat i) v = 0"
    using res by (auto simp: search_result_def)
  obtain l' where "List_Remove l i = Some (1, l')"
    "table_rep sf l' (take (nat i) xs @ drop (Suc (nat i)) xs)"
    using Remove_spec [OF rep i(1,2)] .
  then show ?thesis using that [of "nat i" l'] r f i by (simp add: List_RemovePtr_def)
qed

lemma RemovePtr_absent:
  assumes rep: "table_rep sf l xs" and "\<forall>x \<in> set xs. sort_cmp sf x v \<noteq> 0"
  shows "List_RemovePtr l (Some v) = Some (-1, l)"
proof -
  obtain f i where r: "List_GetIndex l (Some v) = Some (f, i)"
    and res: "search_result (sort_cmp sf) xs v (f, i)"
    using GetIndex_spec [OF rep, of v] by force
  have "\<not> f" using res assms(2) by (auto simp: search_result_def)
  then show ?thesis using r by (simp add: List_RemovePtr_def)
qed

end

interpretation numeric_table: sorted_table "NumericKeySortT key"
  by unfold_locales (auto split: if_splits)

interpretation handle_table: sorted_table "HandleKeySortT key"
  by unfold_locales (auto split: if_splits)

interpretation ptr_table: sorted_table "PtrKeySortT addr"
  by unfold_locales (auto split: if_splits)

interpretation fn_table: sorted_table "SortFn (key_cmp key)"
  by unfold_locales (auto simp: key_cmp_def split: if_splits)

section \<open>Properties\<close>

text \<open>The sort functions the operations are made for.\<close>

definition sort_ok :: "'a sort_func \<Rightarrow> bool" where
  "sort_ok sf =
     (case sf of
        NoSort \<Rightarrow> False
      | SortFn f \<Rightarrow>
          (\<forall>a. f a a = 0) \<and> (\<forall>a b. f a b < 0 \<longleftrightarrow> f b a > 0) \<and>
          (\<forall>a b c. f a b \<le> 0 \<longrightarrow> f b c \<le> 0 \<longrightarrow> f a c \<le> 0)
      | _ \<Rightarrow> True)"

lemma sort_ok_table: "sort_ok sf \<Longrightarrow> sorted_table sf"
  by (cases sf)
    (auto simp: sort_ok_def numeric_table.sorted_table_axioms handle_table.sorted_table_axioms
      ptr_table.sorted_table_axioms sorted_table_def sorted_table_axioms_def sort_order_def)

definition u32_table :: "u32 sort_func" where
  "u32_table = NumericKeySortT (\<lambda>x. x)"

definition three_keys :: "u32 slist" where
  "three_keys = \<lparr>items = [Some 2, Some 5, Some 9, None], realCount = 3, limit = 4, increment = 4,
     sortFunc = u32_table\<rparr>"

lemma three_keys_rep: "sort_ok u32_table" "table_rep u32_table three_keys [2, 5, 9]"
  by (simp_all add: sort_ok_def u32_table_def table_rep_def three_keys_def slist_rep_def sorted_by_def)

text \<open>
  the copy that \<open>List_Copy\<close> makes of a list with spare capacity takes over the capacity
  field but only the slots in use, so appending to the copy writes past the end of its block.
\<close>

theorem copy_then_append_overruns:
  assumes "slist_rep l xs" and "int (length xs) < limit l"
  shows "List_Insert (List_Copy l d) (Some v) (int (length xs)) = None"
  using assms by (auto simp: List_Insert_def List_Copy_def slist_rep_def arr_write_def)

theorem copy_then_append_overruns_witness:
  "List_Insert (List_Copy three_keys (LIST_new 4 u32_table)) (Some 1) (int (length [2::u32, 5, 9])) = None"
  by (rule copy_then_append_overruns) (simp_all add: three_keys_def slist_rep_def)

text \<open>
  \<open>List_Remove\<close> accepts the index one past the last element; it then reports success,
  and what it drops is the last element.
\<close>

theorem remove_past_end:
  assumes "slist_rep l xs" and "xs \<noteq> []"
  shows "\<exists>l'. List_Remove l (int (length xs)) = Some (1, l') \<and> slist_rep l' (butlast xs)"
proof -
  let ?b = "items l" and ?n = "length xs"
  have wr: "arr_write ?b (int ?n - 1) None = Some (?b[?n - 1 := None])"
  proof -
    have "1 \<le> ?n" "?n - 1 < length ?b"
      using assms by (cases xs; auto simp: slist_rep_def Suc_le_eq)+
    then show ?thesis using arr_write_nat [of "?n - 1" ?b None] of_nat_diff [of 1 ?n, where 'a = int]
      by (metis of_nat_1)
  qed
  have "take (?n - 1) ?b = map Some (take (?n - 1) xs)"
    using assms(1) block_parts(1) [of ?n ?b xs "?n - 1"] by (simp add: slist_rep_def)
  then have "take (?n - 1) (?b[?n - 1 := None]) = map Some (butlast xs)"
    by (simp add: take_list_update_same butlast_conv_take)
  then show ?thesis
    using assms wr by (auto simp: List_Remove_def slist_rep_def of_nat_diff Suc_le_eq)
qed

theorem remove_past_end_witness:
  "\<exists>l'. List_Remove three_keys (int (length [2::u32, 5, 9])) = Some (1, l') \<and>
     slist_rep l' (butlast [2::u32, 5, 9])"
  by (rule remove_past_end) (simp_all add: three_keys_def slist_rep_def)

end
