(* ===== verification/SortedListInt.thy ===== *)
theory SortedListInt imports SortedList "HOL-Library.Monad_Syntax" begin

text \<open>
  The operations of \<open>src/mir_core/src/lists.cpp\<close> in the C type \<open>int\<close>.

  The theory \<open>SortedList\<close>, which the clients of the list import, computes with counters and
  indices of any size.  Here every sum and difference the code forms is an \<open>int\<close> of 32 bits,
  and an operation that would overflow one is undefined, as in C.  The two agree on lists of
  at most \<open>2 ^ 30\<close> elements, the largest for which \<open>(low + high) / 2\<close> cannot overflow, so
  the guarantees of the list are stated for the operations of this theory.
\<close>

section \<open>The operations\<close>

text \<open>The result of an operation on \<open>int\<close>, undefined when it does not fit.\<close>

definition c_int :: "int \<Rightarrow> int option" where
  "c_int z = (if - (2 ^ 31) \<le> z \<and> z < 2 ^ 31 then Some z else None)"

lemma c_int_fits: "- (2 ^ 31) \<le> z \<Longrightarrow> z < 2 ^ 31 \<Longrightarrow> c_int z = Some z"
  by (simp add: c_int_def)

text \<open>\<open>low\<close> and \<open>high\<close> are not negative inside the loop, so \<open>div\<close> divides as C does.\<close>

function search_loop_int :: "('a \<Rightarrow> int) \<Rightarrow> 'a block \<Rightarrow> int \<Rightarrow> int \<Rightarrow> (bool \<times> int) option" where
  "search_loop_int cmpv its low high =
     (if low \<le> high then
        (case c_int (low + high) of
           None \<Rightarrow> None
         | Some s \<Rightarrow>
             (let i = (low + high) div 2 in
              case arr_read its i of
                None \<Rightarrow> None
              | Some x \<Rightarrow>
                  if cmpv x = 0 then Some (True, i)
                  else if cmpv x < 0
                  then (case c_int (i + 1) of
                          None \<Rightarrow> None | Some low' \<Rightarrow> search_loop_int cmpv its (i + 1) high)
                  else (case c_int (i - 1) of
                          None \<Rightarrow> None | Some high' \<Rightarrow> search_loop_int cmpv its low (i - 1))))
      else Some (False, low))"
  by pat_completeness auto
termination
  by (relation "measure (\<lambda>(c, b, low, high). nat (high - low + 1))") auto

declare search_loop_int.simps [simp del]

definition List_GetIndex_int :: "'a slist \<Rightarrow> 'a option \<Rightarrow> (bool \<times> int) option" where
  "List_GetIndex_int l p_value =
     (case p_value of
        None \<Rightarrow> Some (False, -1)
      | Some v \<Rightarrow>
          (case sortFunc l of
             NoSort \<Rightarrow> Some (False, -1)
           | sf \<Rightarrow>
               do { high \<leftarrow> c_int (realCount l - 1);
                    search_loop_int (\<lambda>x. sort_cmp sf x v) (items l) 0 high }))"

definition LIST_getIndex_int :: "'a slist \<Rightarrow> 'a option \<Rightarrow> int option" where
  "LIST_getIndex_int l p =
     (case List_GetIndex_int l p of
        None \<Rightarrow> None | Some (found, idx) \<Rightarrow> Some (if found then idx else -1))"

definition List_Insert_int :: "'a slist \<Rightarrow> 'a option \<Rightarrow> int \<Rightarrow> (int \<times> 'a slist) option" where
  "List_Insert_int l p_value p_index =
     (if p_value = None \<or> p_index > realCount l then Some (0, l)
      else do {
        l1 \<leftarrow> (if realCount l = limit l
               then do { slots \<leftarrow> c_int (realCount l + increment l);
                         lim \<leftarrow> c_int (limit l + increment l);
                         Some (l\<lparr>items := arr_realloc (items l) slots, limit := lim\<rparr>) }
               else Some l);
        its \<leftarrow> (if p_index < realCount l1
                then do { n \<leftarrow> c_int (realCount l1 - p_index);
                          arr_move (items l1) (p_index + 1) p_index n }
                else Some (items l1));
        count \<leftarrow> c_int (realCount l1 + 1);
        its' \<leftarrow> arr_write its p_index p_value;
        Some (1, l1\<lparr>items := its', realCount := count\<rparr>) })"

definition List_InsertPtr_int :: "'a slist \<Rightarrow> 'a option \<Rightarrow> (int \<times> 'a slist) option" where
  "List_InsertPtr_int l p =
     (if p = None then Some (-1, l)
      else do {
        idx \<leftarrow> (case sortFunc l of
                  NoSort \<Rightarrow> Some (realCount l)
                | _ \<Rightarrow> map_option snd (List_GetIndex_int l p));
        List_Insert_int l p idx })"

definition List_Remove_int :: "'a slist \<Rightarrow> int \<Rightarrow> (int \<times> 'a slist) option" where
  "List_Remove_int l index =
     (if index < 0 \<or> index > realCount l then Some (0, l)
      else do {
        count \<leftarrow> c_int (realCount l - 1);
        its \<leftarrow> (if count > index
                then do { n \<leftarrow> c_int (count - index); arr_move (items l) index (index + 1) n }
                else Some (items l));
        its' \<leftarrow> arr_write its count None;
        Some (1, l\<lparr>items := its', realCount := count\<rparr>) })"

definition List_RemovePtr_int :: "'a slist \<Rightarrow> 'a option \<Rightarrow> (int \<times> 'a slist) option" where
  "List_RemovePtr_int l p =
     do { (found, idx) \<leftarrow> List_GetIndex_int l p;
          if \<not> found then Some (-1, l)
          else do { (r, l') \<leftarrow> List_Remove_int l idx; Some (idx, l') } }"

section \<open>No overflow on lists of up to \<open>2 ^ 30\<close> elements\<close>

lemma search_loop_int_eq:
  "0 \<le> low \<Longrightarrow> high < 2 ^ 30 \<Longrightarrow> search_loop_int cmpv its low high = search_loop cmpv its low high"
proof (induction cmpv its low high rule: search_loop.induct)
  case (1 cmpv its low high)
  show ?case
  proof (cases "low \<le> high")
    case True
    let ?i = "(low + high) div 2"
    have i: "0 \<le> ?i" "?i \<le> high" "low \<le> ?i" using True 1 by auto
    have fits: "c_int (low + high) = Some (low + high)" "c_int (?i + 1) = Some (?i + 1)"
      "c_int (?i - 1) = Some (?i - 1)"
      using True 1 i by (auto intro!: c_int_fits)
    show ?thesis
      using True 1 i by (simp add: search_loop_int.simps [of _ _ low high]
        search_loop.simps [of _ _ low high] fits Let_def split: option.split)
  qed (simp add: search_loop_int.simps [of _ _ low high] search_loop.simps [of _ _ low high])
qed

definition in_bounds :: "'a slist \<Rightarrow> bool" where
  "in_bounds l \<longleftrightarrow> 0 \<le> realCount l \<and> realCount l \<le> 2 ^ 30 \<and> 0 < increment l \<and> increment l < 2 ^ 30"

lemma rep_in_bounds:
  "table_rep sf l xs \<Longrightarrow> length xs \<le> 2 ^ 30 \<Longrightarrow> increment l < 2 ^ 30 \<Longrightarrow> in_bounds l"
  by (simp add: in_bounds_def table_rep_def slist_rep_def)

lemma List_GetIndex_int_eq:
  "- 1 \<le> realCount l \<Longrightarrow> realCount l \<le> 2 ^ 30 \<Longrightarrow> List_GetIndex_int l p = List_GetIndex l p"
  by (simp add: List_GetIndex_int_def List_GetIndex_def c_int_fits search_loop_int_eq
    split: option.split sort_func.split)

lemma List_Insert_int_eq:
  "in_bounds l \<Longrightarrow> 0 \<le> i \<Longrightarrow> List_Insert_int l v i = List_Insert l v i"
  by (auto simp: in_bounds_def List_Insert_int_def List_Insert_def c_int_fits Let_def
    split: option.split bind_splits)

lemma List_Remove_int_eq:
  "in_bounds l \<Longrightarrow> List_Remove_int l i = List_Remove l i"
  by (auto simp: in_bounds_def List_Remove_int_def List_Remove_def c_int_fits Let_def
    split: option.split bind_splits)

lemma List_RemovePtr_int_eq:
  "in_bounds l \<Longrightarrow> List_RemovePtr_int l v = List_RemovePtr l v"
  by (auto simp: in_bounds_def List_RemovePtr_int_def List_RemovePtr_def List_Remove_int_eq
    List_GetIndex_int_eq split: option.split bind_splits)

lemma search_loop_nonneg:
  "0 \<le> low \<Longrightarrow> search_loop cmpv its low high = Some (f, i) \<Longrightarrow> 0 \<le> i"
proof (induction cmpv its low high rule: search_loop.induct)
  case (1 cmpv its low high)
  show ?case
  proof (cases "low \<le> high")
    case True
    then have "0 \<le> (low + high) div 2" using 1(3) by auto
    then show ?thesis using True 1
      by (auto simp: search_loop.simps [of _ _ low high] Let_def split: option.splits if_splits)
  next
    case False
    then show ?thesis using 1(3,4) by (simp add: search_loop.simps [of _ _ low high])
  qed
qed

lemma List_InsertPtr_int_eq:
  assumes "in_bounds l"
  shows "List_InsertPtr_int l v = List_InsertPtr l v"
proof -
  have "0 \<le> i" if "List_GetIndex l v = Some (f, i)" "sortFunc l \<noteq> NoSort" "v \<noteq> None" for f i
    using that search_loop_nonneg [of 0 _ "items l" "realCount l - 1" f i]
    by (auto simp: List_GetIndex_def simp del: sort_cmp.simps split: option.splits sort_func.splits)
  then show ?thesis
    using assms by (auto simp: in_bounds_def List_InsertPtr_int_def List_InsertPtr_def
      List_GetIndex_int_eq List_Insert_int_eq split: sort_func.split option.split bind_splits)
qed

section \<open>Properties\<close>

lemma three_keys_bound: "length [2::u32, 5, 9] \<le> 2 ^ 30"
  by simp

text \<open>
  C30: for a sort function that is a total preorder (\<open>sort_ok\<close>; the three numeric ones are)
  and a list of at most \<open>2 ^ 30\<close> elements that is sorted by it, binary search overflows no
  \<open>int\<close>, never leaves the list, and its answer is exact: an index at which the element
  compares equal to the value, or -1, and -1 only when no element of the list compares equal
  to it.
\<close>

theorem sorted_list_search:
  assumes "sort_ok sf" and "table_rep sf l xs" and "length xs \<le> 2 ^ 30"
  shows "\<exists>i. LIST_getIndex_int l (Some v) = Some i \<and>
           (if i = -1 then \<forall>x \<in> set xs. sort_cmp sf x v \<noteq> 0
            else 0 \<le> i \<and> i < int (length xs) \<and> sort_cmp sf (xs ! nat i) v = 0)"
proof -
  note t = sort_ok_table [OF assms(1)]
  have "realCount l = int (length xs)" using assms(2) by (simp add: table_rep_def slist_rep_def)
  then have eq: "LIST_getIndex_int l (Some v) = LIST_getIndex l (Some v)"
    using assms(3) by (simp add: LIST_getIndex_int_def LIST_getIndex_def List_GetIndex_int_eq)
  obtain i where "LIST_getIndex l (Some v) = Some i"
    using sorted_table.getIndex_total [OF t assms(2)] .
  then show ?thesis
    using sorted_table.getIndex_absent [OF t assms(2), of v] sorted_table.getIndex_present [OF t assms(2), of v i]
    by (auto simp: eq)
qed

theorem sorted_list_search_witness:
  "\<exists>i. LIST_getIndex_int three_keys (Some 5) = Some i \<and>
     (if i = -1 then \<forall>x \<in> set [2, 5, 9]. sort_cmp u32_table x 5 \<noteq> 0
      else 0 \<le> i \<and> i < int (length [2::u32, 5, 9]) \<and> sort_cmp u32_table ([2, 5, 9] ! nat i) 5 = 0)"
  by (rule sorted_list_search [OF three_keys_rep three_keys_bound])

text \<open>A history of insertions and removals.\<close>

datatype 'a table_op = Ins 'a | Del 'a

primrec table_step :: "'a table_op \<Rightarrow> 'a slist \<Rightarrow> 'a slist option" where
  "table_step (Ins v) l = map_option snd (List_InsertPtr_int l (Some v))"
| "table_step (Del v) l = map_option snd (List_RemovePtr_int l (Some v))"

primrec table_run :: "'a table_op list \<Rightarrow> 'a slist \<Rightarrow> 'a slist option" where
  "table_run [] l = Some l"
| "table_run (op # ops) l =
     (case table_step op l of None \<Rightarrow> None | Some l' \<Rightarrow> table_run ops l')"

text \<open>
  How many elements that compare equal to \<open>v\<close> a history leaves, of \<open>n\<close> before it: an insertion
  of such an element adds one, a removal takes one away when there is one.
\<close>

primrec copies :: "'a sort_func \<Rightarrow> 'a \<Rightarrow> 'a table_op list \<Rightarrow> nat \<Rightarrow> nat" where
  "copies sf v [] n = n"
| "copies sf v (op # ops) n =
     copies sf v ops
       (case op of
          Ins x \<Rightarrow> if sort_cmp sf x v = 0 then n + 1 else n
        | Del x \<Rightarrow> if sort_cmp sf x v = 0 then n - 1 else n)"

definition copies_in :: "'a sort_func \<Rightarrow> 'a \<Rightarrow> 'a list \<Rightarrow> nat" where
  "copies_in sf v xs = length (filter (\<lambda>x. sort_cmp sf x v = 0) xs)"

lemma copies_in_insert:
  "copies_in sf v (take i xs @ x # drop i xs) = copies_in sf v xs + (if sort_cmp sf x v = 0 then 1 else 0)"
proof -
  have "copies_in sf v xs = copies_in sf v (take i xs @ drop i xs)" by simp
  then show ?thesis by (simp add: copies_in_def del: append_take_drop_id)
qed

lemma copies_in_remove:
  assumes "i < length xs"
  shows "copies_in sf v xs =
    copies_in sf v (take i xs @ drop (Suc i) xs) + (if sort_cmp sf (xs ! i) v = 0 then 1 else 0)"
proof -
  have "copies_in sf v xs = copies_in sf v (take i xs @ xs ! i # drop (Suc i) xs)"
    using assms by (simp add: id_take_nth_drop [symmetric])
  then show ?thesis by (simp add: copies_in_def)
qed

lemma steps_keep_increment:
  "List_InsertPtr l v = Some (r, l') \<Longrightarrow> increment l' = increment l"
  "List_RemovePtr l v = Some (i, l') \<Longrightarrow> increment l' = increment l"
  by (auto simp: List_InsertPtr_def List_Insert_def List_RemovePtr_def List_Remove_def Let_def
    split: if_splits option.splits sort_func.splits)

context sorted_table begin

lemma same_class:
  assumes "sort_cmp sf x y = 0"
  shows "sort_cmp sf x v = 0 \<longleftrightarrow> sort_cmp sf y v = 0"
proof -
  have trans: "sort_cmp sf a c = 0" if "sort_cmp sf a b = 0" "sort_cmp sf b c = 0" for a b c
  proof -
    have "sort_cmp sf a c \<le> 0" using cmp_trans [of a b c] that by simp
    moreover have "sort_cmp sf c a \<le> 0"
      using cmp_trans [of c b a] that cmp_eq_sym [of a b] cmp_eq_sym [of b c] by simp
    ultimately show ?thesis using cmp_flip [of a c] cmp_flip [of c a] by linarith
  qed
  show ?thesis using trans [of x y v] trans [of y x v] assms cmp_eq_sym [of x y] by blast
qed

lemma step_Ins:
  assumes rep: "table_rep sf l xs" and "in_bounds l"
  obtains l' xs' where "table_step (Ins v) l = Some l'" and "table_rep sf l' xs'"
    and "increment l' = increment l" and "length xs' \<le> Suc (length xs)"
    and "set xs' \<subseteq> insert v (set xs)"
    and "\<And>u. copies_in sf u xs' = copies_in sf u xs + (if sort_cmp sf v u = 0 then 1 else 0)"
proof -
  obtain l' i where l': "List_InsertPtr l (Some v) = Some (1, l')" "i \<le> length xs"
    "table_rep sf l' (take i xs @ v # drop i xs)"
    using InsertPtr_spec [OF rep] .
  show ?thesis
  proof (rule that [OF _ l'(3)])
    show "table_step (Ins v) l = Some l'" using l'(1) assms(2) by (simp add: List_InsertPtr_int_eq)
    show "increment l' = increment l" using l'(1) by (rule steps_keep_increment)
    show "length (take i xs @ v # drop i xs) \<le> Suc (length xs)" using l'(2) by simp
    show "set (take i xs @ v # drop i xs) \<subseteq> insert v (set xs)"
      using set_take_subset [of i xs] set_drop_subset [of i xs] by auto
  qed (rule copies_in_insert)
qed

lemma step_Del:
  assumes rep: "table_rep sf l xs" and "in_bounds l"
  obtains l' xs' where "table_step (Del v) l = Some l'" and "table_rep sf l' xs'"
    and "increment l' = increment l" and "length xs' \<le> length xs" and "set xs' \<subseteq> set xs"
    and "\<And>u. copies_in sf u xs' = copies_in sf u xs - (if sort_cmp sf v u = 0 then 1 else 0)"
proof (cases "\<exists>x \<in> set xs. sort_cmp sf x v = 0")
  case True
  obtain l' i where l': "List_RemovePtr l (Some v) = Some (int i, l')" "i < length xs"
    "sort_cmp sf (xs ! i) v = 0" "table_rep sf l' (take i xs @ drop (Suc i) xs)"
    using RemovePtr_spec [OF rep True] .
  show ?thesis
  proof (rule that [OF _ l'(4)])
    show "table_step (Del v) l = Some l'" using l'(1) assms(2) by (simp add: List_RemovePtr_int_eq)
    show "increment l' = increment l" using l'(1) by (rule steps_keep_increment)
    show "length (take i xs @ drop (Suc i) xs) \<le> length xs" by simp
    show "set (take i xs @ drop (Suc i) xs) \<subseteq> set xs"
      using set_take_subset [of i xs] set_drop_subset [of "Suc i" xs] by auto
    show "copies_in sf u (take i xs @ drop (Suc i) xs) =
        copies_in sf u xs - (if sort_cmp sf v u = 0 then 1 else 0)" for u
      using copies_in_remove [OF l'(2), of sf u] same_class [OF l'(3), of u] by auto
  qed
next
  case False
  then have "List_RemovePtr l (Some v) = Some (-1, l)"
    by (intro RemovePtr_absent [OF rep]) auto
  then have "table_step (Del v) l = Some l" using assms(2) by (simp add: List_RemovePtr_int_eq)
  moreover have "copies_in sf u xs = copies_in sf u xs - (if sort_cmp sf v u = 0 then 1 else 0)" for u
  proof (cases "sort_cmp sf v u = 0")
    case True
    have "sort_cmp sf x u \<noteq> 0" if "x \<in> set xs" for x
      using that False same_class [OF True] cmp_eq_sym same_class [of x u v] True by blast
    then show ?thesis by (simp add: copies_in_def filter_False)
  qed simp
  ultimately show ?thesis using that [of l xs] rep by blast
qed

lemma run_spec:
  assumes "table_rep sf l xs" and "increment l < 2 ^ 30" and "length xs + length ops \<le> 2 ^ 30"
  shows "\<exists>l' xs'. table_run ops l = Some l' \<and> table_rep sf l' xs' \<and>
    set xs' \<subseteq> set xs \<union> {v. Ins v \<in> set ops} \<and>
    (\<forall>v. copies_in sf v xs' = copies sf v ops (copies_in sf v xs))"
  using assms
proof (induction ops arbitrary: l xs)
  case (Cons op ops)
  have b: "in_bounds l" using Cons.prems by (intro rep_in_bounds) auto
  show ?case
  proof (cases op)
    case (Ins v)
    obtain l' xs' where s: "table_step (Ins v) l = Some l'" "table_rep sf l' xs'"
      "increment l' = increment l" "length xs' \<le> Suc (length xs)" "set xs' \<subseteq> insert v (set xs)"
      "\<And>u. copies_in sf u xs' = copies_in sf u xs + (if sort_cmp sf v u = 0 then 1 else 0)"
      using step_Ins [OF Cons.prems(1) b, of v] by metis
    obtain l2 xs2 where "table_run ops l' = Some l2" "table_rep sf l2 xs2"
      "set xs2 \<subseteq> set xs' \<union> {v. Ins v \<in> set ops}"
      "\<And>u. copies_in sf u xs2 = copies sf u ops (copies_in sf u xs')"
      using Cons.IH [of l' xs'] s(2-4) Cons.prems by auto
    then show ?thesis using s Ins by (intro exI [of _ l2] exI [of _ xs2]) auto
  next
    case (Del v)
    obtain l' xs' where s: "table_step (Del v) l = Some l'" "table_rep sf l' xs'"
      "increment l' = increment l" "length xs' \<le> length xs" "set xs' \<subseteq> set xs"
      "\<And>u. copies_in sf u xs' = copies_in sf u xs - (if sort_cmp sf v u = 0 then 1 else 0)"
      using step_Del [OF Cons.prems(1) b, of v] by metis
    obtain l2 xs2 where "table_run ops l' = Some l2" "table_rep sf l2 xs2"
      "set xs2 \<subseteq> set xs' \<union> {v. Ins v \<in> set ops}"
      "\<And>u. copies_in sf u xs2 = copies sf u ops (copies_in sf u xs')"
      using Cons.IH [of l' xs'] s(2-4) Cons.prems by auto
    then show ?thesis using s Del by (intro exI [of _ l2] exI [of _ xs2]) auto
  qed
qed auto

end

text \<open>
  C12: a list created empty with a sort function that is a total preorder and an increment
  below \<open>2 ^ 30\<close>, and then changed by any sequence of at most \<open>2 ^ 30\<close> calls of
  \<open>List_InsertPtr\<close> and \<open>List_RemovePtr\<close>: no call overflows an \<open>int\<close> or touches memory outside
  the block, and the list is sorted, holds only elements that were inserted, and holds of the
  elements that compare equal to any value as many as were inserted and not removed since.
\<close>

theorem sorted_list_history:
  assumes "sort_ok sf" and "0 < aincr" and "aincr < 2 ^ 30" and "length ops \<le> 2 ^ 30"
  shows "\<exists>l. table_run ops (LIST_new aincr sf) = Some l \<and>
           sorted_by (sort_cmp sf) (contents l) \<and> set (contents l) \<subseteq> {v. Ins v \<in> set ops} \<and>
           (\<forall>v. copies_in sf v (contents l) = copies sf v ops 0)"
proof -
  have "increment (LIST_new aincr sf) < 2 ^ 30" using assms(3) by (simp add: LIST_new_def)
  then obtain l xs where l: "table_run ops (LIST_new aincr sf) = Some l" "table_rep sf l xs"
    "set xs \<subseteq> {v. Ins v \<in> set ops}" "\<And>v. copies_in sf v xs = copies sf v ops 0"
    using sorted_table.run_spec [OF sort_ok_table [OF assms(1)] table_rep_new [OF assms(2)], of ops]
      assms(4) by (auto simp: copies_in_def)
  moreover have "contents l = xs" using l(2) contents_rep [of l xs] by (simp add: table_rep_def)
  ultimately show ?thesis by (auto simp: table_rep_def)
qed

theorem sorted_list_history_witness:
  "\<exists>l. table_run [Ins 7, Ins 3, Ins 7, Del 7] (LIST_new 1 u32_table) = Some l \<and>
     sorted_by (sort_cmp u32_table) (contents l) \<and>
     set (contents l) \<subseteq> {v. Ins v \<in> set [Ins 7, Ins 3, Ins 7, Del 7]} \<and>
     (\<forall>v. copies_in u32_table v (contents l) = copies u32_table v [Ins 7, Ins 3, Ins 7, Del 7] 0)"
  by (rule sorted_list_history [OF three_keys_rep(1)]) simp_all

section \<open>One element more\<close>

text \<open>
  The bound is sharp: a search in a list of more than \<open>2 ^ 30\<close> elements for a value above all
  of them comes to compare the last element, for which \<open>low + high\<close> does not fit an \<open>int\<close>.
\<close>

lemma search_loop_overflows:
  assumes "2 ^ 30 \<le> high"
    and "\<And>i. 0 \<le> i \<Longrightarrow> i \<le> high \<Longrightarrow> \<exists>x. arr_read its i = Some x \<and> cmpv x < 0"
  shows "0 \<le> low \<Longrightarrow> low \<le> high \<Longrightarrow> search_loop_int cmpv its low high = None"
  using assms
proof (induction cmpv its low high rule: search_loop.induct)
  case (1 cmpv its low high)
  let ?i = "(low + high) div 2"
  show ?case
  proof (cases "c_int (low + high)")
    case None
    then show ?thesis by (simp add: search_loop_int.simps [of _ _ low high] 1(3,4))
  next
    case (Some s)
    then have "?i < high" "low \<le> ?i" using 1(3,4,5) by (auto simp: c_int_def split: if_splits)
    moreover obtain x where x: "arr_read its ?i = Some x" "cmpv x < 0"
      using 1(6) [of ?i] 1(3,4) by force
    ultimately have "search_loop_int cmpv its (?i + 1) high = None"
      using 1(1) [OF 1(4) refl x(1)] 1(3,5,6) by auto
    then show ?thesis using Some x
      by (simp add: search_loop_int.simps [of _ _ low high] 1(4) Let_def split: option.split)
  qed
qed

text \<open>
  C36: binary search in a sorted list of more than \<open>2 ^ 30\<close> elements (and fewer than
  \<open>2 ^ 31\<close>) for a value above all of them overflows the \<open>int\<close> sum of its bounds: the
  behaviour of the code is undefined there.
\<close>

theorem search_overflows:
  assumes "table_rep sf l xs" and "sf \<noteq> NoSort" and "2 ^ 30 < length xs" and "length xs < 2 ^ 31"
    and "\<forall>x \<in> set xs. sort_cmp sf x v < 0"
  shows "List_GetIndex_int l (Some v) = None"
proof -
  have "\<exists>x. arr_read (items l) i = Some x \<and> sort_cmp sf x v < 0"
    if "0 \<le> i" "i \<le> int (length xs) - 1" for i
    using that assms(1,5) rep_read [of l xs i] by (auto simp: table_rep_def)
  then have "search_loop_int (\<lambda>x. sort_cmp sf x v) (items l) 0 (int (length xs) - 1) = None"
    using assms(3) by (intro search_loop_overflows) auto
  then show ?thesis
    using assms(1,2,4) by (cases sf)
      (auto simp: List_GetIndex_int_def table_rep_def slist_rep_def c_int_fits)
qed

definition full_count :: nat where
  "full_count = 2 ^ 30 + 1"

definition full_table :: "u32 slist" where
  "full_table = \<lparr>items = replicate full_count (Some 0), realCount = int full_count,
     limit = int full_count, increment = 1, sortFunc = u32_table\<rparr>"

theorem search_overflows_witness: "List_GetIndex_int full_table (Some 1) = None"
proof (rule search_overflows)
  show "table_rep u32_table full_table (replicate full_count 0)"
    by (auto simp: table_rep_def slist_rep_def full_table_def sorted_by_def u32_table_def
      sorted_wrt_iff_nth_less)
  show "\<forall>x \<in> set (replicate full_count 0). sort_cmp u32_table x 1 < 0"
    by (simp add: u32_table_def)
qed (simp_all add: full_count_def u32_table_def)

end
