(* ===== verification/MwBuffer.thy ===== *)
theory MwBuffer imports Prelude begin

text \<open>
  The byte buffers of the Sametime protocol engine
  (\<open>protocols/Sametime/src/meanwhile/src/common.c\<close>, first half): the growing buffer
  messages are written to, the bounded buffer they are read from, and the basic types
  that every message is made of.

  A write past the end of a buffer's block would lengthen the list that models the block,
  so the invariants \<open>pb_wf\<close> and \<open>gb_wf\<close>, which tie the length of the list to the length
  field, say that no operation overruns it.  Sizes are natural numbers; \<open>grow_len64\<close> is the
  growth loop on the 64-bit \<open>gsize\<close> of the code, and agrees below half its range.
\<close>

section \<open>The buffer to write to\<close>

record putbuf =
  pb_buf :: "u8 block"
  pb_len :: nat
  pb_ptr :: nat
  pb_rem :: nat

definition BUFFER_USED :: "putbuf \<Rightarrow> nat" where
  "BUFFER_USED b = pb_len b - pb_rem b"

definition mwPutBuffer_new :: putbuf where
  "mwPutBuffer_new = \<lparr>pb_buf = [], pb_len = 0, pb_ptr = 0, pb_rem = 0\<rparr>"

text \<open>\<open>while ((len - use) < needed) len = len << 1\<close>; it is entered with \<open>len\<close> not zero.\<close>

function grow_len :: "nat \<Rightarrow> nat \<Rightarrow> nat \<Rightarrow> nat" where
  "grow_len len use needed =
     (if 0 < len \<and> len - use < needed then grow_len (2 * len) use needed else len)"
  by pat_completeness auto
termination
  by (relation "measure (\<lambda>(len, use, needed). use + needed - len)") auto

declare grow_len.simps [simp del]

partial_function (option) grow_len64 :: "u64 \<Rightarrow> u64 \<Rightarrow> u64 \<Rightarrow> u64 option" where
  "grow_len64 len use needed =
     (if len - use < needed then grow_len64 (push_bit 1 len) use needed else Some len)"

definition ensure_buffer :: "putbuf \<Rightarrow> nat \<Rightarrow> putbuf" where
  "ensure_buffer b needed =
     (if pb_rem b < needed then
        (let use = BUFFER_USED b;
             len = grow_len (if pb_len b = 0 then 1024 else pb_len b) use needed;
             fresh = replicate len None in
         \<lparr>pb_buf = take use (pb_buf b) @ drop use fresh, pb_len = len, pb_ptr = use,
          pb_rem = len - use\<rparr>)
      else b)"

text \<open>\<open>memcpy (b->ptr, data, len)\<close>, then the pointer and the count move on.\<close>

definition pb_copy :: "putbuf \<Rightarrow> bytes \<Rightarrow> putbuf" where
  "pb_copy b data =
     b\<lparr>pb_buf := take (pb_ptr b) (pb_buf b) @ map Some data @
                   drop (pb_ptr b + length data) (pb_buf b),
       pb_ptr := pb_ptr b + length data,
       pb_rem := pb_rem b - length data\<rparr>"

definition mwPutBuffer_write :: "putbuf \<Rightarrow> bytes \<Rightarrow> putbuf" where
  "mwPutBuffer_write b data =
     (if length data = 0 then b else pb_copy (ensure_buffer b (length data)) data)"

text \<open>The bytes written so far, which \<open>mwPutBuffer_finalize\<close> hands over as an opaque.\<close>

definition mwPutBuffer_finalize :: "putbuf \<Rightarrow> bytes" where
  "mwPutBuffer_finalize b = map the (take (BUFFER_USED b) (pb_buf b))"

definition pb_wf :: "putbuf \<Rightarrow> bool" where
  "pb_wf b \<longleftrightarrow>
     pb_len b = length (pb_buf b) \<and> pb_ptr b + pb_rem b = pb_len b \<and>
     None \<notin> set (take (pb_ptr b) (pb_buf b))"

section \<open>The buffer to read from\<close>

record getbuf =
  gb_buf :: bytes
  gb_len :: nat
  gb_ptr :: nat
  gb_rem :: nat
  gb_wrap :: bool
  gb_error :: bool

text \<open>An opaque of length zero leaves the fields zero; \<open>new\<close> copies the data, \<open>wrap\<close> shares it.\<close>

definition mwGetBuffer_new :: "bytes option \<Rightarrow> getbuf" where
  "mwGetBuffer_new o1 =
     (case o1 of
        Some d \<Rightarrow> \<lparr>gb_buf = d, gb_len = length d, gb_ptr = 0, gb_rem = length d,
                   gb_wrap = False, gb_error = False\<rparr>
      | None \<Rightarrow> \<lparr>gb_buf = [], gb_len = 0, gb_ptr = 0, gb_rem = 0,
                gb_wrap = False, gb_error = False\<rparr>)"

definition mwGetBuffer_wrap :: "bytes option \<Rightarrow> getbuf" where
  "mwGetBuffer_wrap o1 = (mwGetBuffer_new o1)\<lparr>gb_wrap := True\<rparr>"

definition check_buffer :: "getbuf \<Rightarrow> nat \<Rightarrow> bool \<times> getbuf" where
  "check_buffer b needed =
     (let b' = (if gb_error b then b else b\<lparr>gb_error := gb_rem b < needed\<rparr>)
      in (\<not> gb_error b', b'))"

definition gb_skip :: "getbuf \<Rightarrow> nat \<Rightarrow> getbuf" where
  "gb_skip b n = b\<lparr>gb_ptr := gb_ptr b + n, gb_rem := gb_rem b - n\<rparr>"

definition mwGetBuffer_read :: "getbuf \<Rightarrow> nat \<Rightarrow> bytes \<times> getbuf" where
  "mwGetBuffer_read b len =
     (if gb_error b \<or> len = 0 then ([], b)
      else let n = (if gb_rem b < len then gb_rem b else len)
           in (take n (drop (gb_ptr b) (gb_buf b)), gb_skip b n))"

definition mwGetBuffer_advance :: "getbuf \<Rightarrow> nat \<Rightarrow> nat \<times> getbuf" where
  "mwGetBuffer_advance b len =
     (if gb_error b \<or> len = 0 then (0, b)
      else let n = (if gb_rem b < len then gb_rem b else len) in (n, gb_skip b n))"

definition mwGetBuffer_reset :: "getbuf \<Rightarrow> getbuf" where
  "mwGetBuffer_reset b = b\<lparr>gb_rem := gb_len b, gb_ptr := 0, gb_error := False\<rparr>"

definition mwGetBuffer_remaining :: "getbuf \<Rightarrow> nat" where
  "mwGetBuffer_remaining b = gb_rem b"

definition gb_wf :: "getbuf \<Rightarrow> bool" where
  "gb_wf b \<longleftrightarrow> gb_len b = length (gb_buf b) \<and> gb_ptr b + gb_rem b = gb_len b"

text \<open>What is left to read.\<close>

definition unread :: "getbuf \<Rightarrow> bytes" where
  "unread b = drop (gb_ptr b) (gb_buf b)"

section \<open>Basic types\<close>

text \<open>\<open>MW16_PUT\<close> and \<open>MW32_PUT\<close>: the bytes of a value, high byte first.\<close>

definition be16 :: "u16 \<Rightarrow> bytes" where
  "be16 val = [ucast (drop_bit 8 val AND 0xff), ucast (val AND 0xff)]"

definition be32 :: "u32 \<Rightarrow> bytes" where
  "be32 val =
     [ucast (drop_bit 24 val AND 0xff), ucast (drop_bit 16 val AND 0xff),
      ucast (drop_bit 8 val AND 0xff), ucast (val AND 0xff)]"

text \<open>\<open>MW16_GET\<close> and \<open>MW32_GET\<close>, from the bytes at a position of the block.\<close>

definition MW16_GET :: "bytes \<Rightarrow> nat \<Rightarrow> u16" where
  "MW16_GET b p = push_bit 8 (ucast (b ! p) AND 0xff) OR (ucast (b ! (p + 1)) AND 0xff)"

definition MW32_GET :: "bytes \<Rightarrow> nat \<Rightarrow> u32" where
  "MW32_GET b p =
     push_bit 24 (ucast (b ! p) AND 0xff) OR push_bit 16 (ucast (b ! (p + 1)) AND 0xff) OR
     push_bit 8 (ucast (b ! (p + 2)) AND 0xff) OR (ucast (b ! (p + 3)) AND 0xff)"

definition guint16_put :: "putbuf \<Rightarrow> u16 \<Rightarrow> putbuf" where
  "guint16_put b val = pb_copy (ensure_buffer b 2) (be16 val)"

text \<open>The second argument of a \<open>_get\<close> is the value of its out parameter before the call.\<close>

definition guint16_get :: "getbuf \<Rightarrow> u16 \<Rightarrow> u16 \<times> getbuf" where
  "guint16_get b val =
     (if gb_error b then (val, b)
      else let (ok, b1) = check_buffer b 2 in
           if \<not> ok then (val, b1) else (MW16_GET (gb_buf b1) (gb_ptr b1), gb_skip b1 2))"

definition guint16_peek :: "getbuf \<Rightarrow> u16" where
  "guint16_peek b = (if gb_rem b \<ge> 2 then MW16_GET (gb_buf b) 0 else 0)"

definition guint32_put :: "putbuf \<Rightarrow> u32 \<Rightarrow> putbuf" where
  "guint32_put b val = pb_copy (ensure_buffer b 4) (be32 val)"

definition guint32_get :: "getbuf \<Rightarrow> u32 \<Rightarrow> u32 \<times> getbuf" where
  "guint32_get b val =
     (if gb_error b then (val, b)
      else let (ok, b1) = check_buffer b 4 in
           if \<not> ok then (val, b1) else (MW32_GET (gb_buf b1) (gb_ptr b1), gb_skip b1 4))"

definition guint32_peek :: "getbuf \<Rightarrow> u32" where
  "guint32_peek b = (if gb_rem b \<ge> 4 then MW32_GET (gb_buf b) 0 else 0)"

definition gboolean_put :: "putbuf \<Rightarrow> bool \<Rightarrow> putbuf" where
  "gboolean_put b val = pb_copy (ensure_buffer b 1) [if val then 1 else 0]"

definition gboolean_get :: "getbuf \<Rightarrow> bool \<Rightarrow> bool \<times> getbuf" where
  "gboolean_get b val =
     (if gb_error b then (val, b)
      else let (ok, b1) = check_buffer b 1 in
           if \<not> ok then (val, b1) else (gb_buf b1 ! gb_ptr b1 \<noteq> 0, gb_skip b1 1))"

definition gboolean_peek :: "getbuf \<Rightarrow> bool" where
  "gboolean_peek b = (if gb_rem b \<ge> 1 then gb_buf b ! gb_ptr b \<noteq> 0 else False)"

text \<open>
  A string is a null pointer or the bytes of its block before the terminator the allocation
  adds; \<open>strlen\<close> stops at the first zero byte among them.
\<close>

type_synonym mwstring = "bytes option"

definition mw_streq :: "mwstring \<Rightarrow> mwstring \<Rightarrow> bool" where
  "mw_streq a b = (case (a, b) of (None, None) \<Rightarrow> True | (Some x, Some y) \<Rightarrow> c_str x = c_str y | _ \<Rightarrow> False)"

definition g_strdup :: "mwstring \<Rightarrow> mwstring" where
  "g_strdup s = map_option c_str s"

definition mwString_put :: "putbuf \<Rightarrow> mwstring \<Rightarrow> putbuf" where
  "mwString_put b val =
     (let s = (case val of None \<Rightarrow> [] | Some v \<Rightarrow> c_str v);
          len = length s;
          b1 = guint16_put b (of_nat len) in
      if len \<noteq> 0 then pb_copy (ensure_buffer b1 len) s else b1)"

definition mwString_get :: "getbuf \<Rightarrow> mwstring \<Rightarrow> mwstring \<times> getbuf" where
  "mwString_get b val =
     (if gb_error b then (None, b)
      else
        let (len16, b1) = guint16_get b 0; len = unat len16; (ok, b2) = check_buffer b1 len in
        if \<not> ok then (None, b2)
        else if len \<noteq> 0
          then (Some (take len (drop (gb_ptr b2) (gb_buf b2))), gb_skip b2 len)
          else (None, b2))"

text \<open>\<open>mwOpaque_put\<close> takes a pointer to an opaque, which may be null.\<close>

definition mwOpaque_put :: "putbuf \<Rightarrow> bytes option \<Rightarrow> putbuf" where
  "mwOpaque_put b o1 =
     (case o1 of
        None \<Rightarrow> guint32_put b 0
      | Some d \<Rightarrow>
          (let len = length d; b1 = guint32_put b (of_nat len) in
           if len \<noteq> 0 then pb_copy (ensure_buffer b1 len) d else b1))"

definition mwOpaque_get :: "getbuf \<Rightarrow> bytes \<Rightarrow> bytes \<times> getbuf" where
  "mwOpaque_get b o1 =
     (if gb_error b then ([], b)
      else
        let (tmp, b1) = guint32_get b 0; len = unat tmp; (ok, b2) = check_buffer b1 len in
        if \<not> ok then ([], b2)
        else if len > 0
          then (take len (drop (gb_ptr b2) (gb_buf b2)), gb_skip b2 len)
          else ([], b2))"

definition mwOpaque_clone :: "bytes option \<Rightarrow> bytes" where
  "mwOpaque_clone from1 = (case from1 of None \<Rightarrow> [] | Some d \<Rightarrow> d)"

definition mwOpaque_clear :: "bytes \<Rightarrow> bytes" where
  "mwOpaque_clear o1 = []"

section \<open>The growing buffer never overruns its block\<close>

lemma grow_len_room:
  assumes "0 < len"
  shows "len \<le> grow_len len use needed" and "needed \<le> grow_len len use needed - use"
  using assms
proof (induction len use needed rule: grow_len.induct)
  case (1 len use needed)
  { case 1
    show ?case using "1.IH"(1) 1 by (subst grow_len.simps) (auto intro: order_trans)
  next
    case 2
    show ?case using "1.IH"(2) 2 by (subst grow_len.simps) auto
  }
qed

lemma grow_len64_agrees:
  assumes "0 < unat len" and "unat use \<le> unat len"
    and "unat use + unat needed \<le> 2 ^ 63"
  shows "\<exists>l. grow_len64 len use needed = Some l \<and>
             unat l = grow_len (unat len) (unat use) (unat needed)"
  using assms
proof (induction "unat use + unat needed - unat len" arbitrary: len rule: less_induct)
  case less
  show ?case
  proof (cases "len - use < needed")
    case False
    then show ?thesis
      using less.prems by (subst grow_len64.simps, subst grow_len.simps)
        (auto simp: word_less_nat_alt unat_sub word_le_nat_alt)
  next
    case True
    have lt: "unat len - unat use < unat needed"
      using True less.prems by (simp add: word_less_nat_alt unat_sub word_le_nat_alt)
    have small: "unat len < 2 ^ 63" using lt less.prems by linarith
    have dbl: "unat (push_bit 1 len) = 2 * unat len"
    proof -
      have "unat (push_bit 1 len) = (2 * unat len) mod 2 ^ 64"
        by (simp add: push_bit_eq_mult unat_word_ariths mult.commute)
      also have "\<dots> = 2 * unat len" using small by simp
      finally show ?thesis .
    qed
    have "\<exists>l. grow_len64 (push_bit 1 len) use needed = Some l \<and>
             unat l = grow_len (unat (push_bit 1 len)) (unat use) (unat needed)"
      by (rule less.hyps) (use less.prems lt small dbl in auto)
    then show ?thesis
      using True lt less.prems dbl by (subst grow_len64.simps, subst grow_len.simps) auto
  qed
qed

lemma pb_wf_new [simp]: "pb_wf mwPutBuffer_new"
  and finalize_new [simp]: "mwPutBuffer_finalize mwPutBuffer_new = []"
  by (simp_all add: pb_wf_def mwPutBuffer_new_def mwPutBuffer_finalize_def)

lemma BUFFER_USED_ptr: "pb_wf b \<Longrightarrow> BUFFER_USED b = pb_ptr b"
  by (auto simp: pb_wf_def BUFFER_USED_def)

lemma ensure_buffer_spec:
  assumes "pb_wf b"
  shows "pb_wf (ensure_buffer b n)" and "n \<le> pb_rem (ensure_buffer b n)"
    and "mwPutBuffer_finalize (ensure_buffer b n) = mwPutBuffer_finalize b"
proof -
  define l0 where "l0 = (if pb_len b = 0 then 1024 else pb_len b)"
  define l where "l = grow_len l0 (pb_ptr b) n"
  have l0: "0 < l0" "pb_len b \<le> l0" by (auto simp: l0_def)
  have l: "l0 \<le> l" "n \<le> l - pb_ptr b"
    using grow_len_room [OF l0(1)] by (auto simp: l_def)
  have le: "pb_ptr b \<le> l" "pb_ptr b \<le> length (pb_buf b)"
    using assms l(1) l0(2) by (auto simp: pb_wf_def)
  have eq: "ensure_buffer b n =
      (if pb_rem b < n
       then \<lparr>pb_buf = take (pb_ptr b) (pb_buf b) @ drop (pb_ptr b) (replicate l None),
             pb_len = l, pb_ptr = pb_ptr b, pb_rem = l - pb_ptr b\<rparr>
       else b)"
    using assms by (auto simp: ensure_buffer_def Let_def BUFFER_USED_ptr l_def l0_def)
  show wf: "pb_wf (ensure_buffer b n)"
    using assms le by (auto simp: eq pb_wf_def)
  show "n \<le> pb_rem (ensure_buffer b n)"
    using l by (auto simp: eq)
  show "mwPutBuffer_finalize (ensure_buffer b n) = mwPutBuffer_finalize b"
  proof -
    have "mwPutBuffer_finalize c = map the (take (pb_ptr c) (pb_buf c))" if "pb_wf c" for c
      using that by (simp add: mwPutBuffer_finalize_def BUFFER_USED_ptr)
    then show ?thesis using assms wf le by (auto simp: eq)
  qed
qed

lemma pb_copy_spec:
  assumes "pb_wf b" and "length data \<le> pb_rem b"
  shows "pb_wf (pb_copy b data)"
    and "mwPutBuffer_finalize (pb_copy b data) = mwPutBuffer_finalize b @ data"
proof -
  have le: "pb_ptr b \<le> length (pb_buf b)" "pb_ptr b + length data \<le> length (pb_buf b)"
    using assms by (auto simp: pb_wf_def)
  show wf: "pb_wf (pb_copy b data)"
    using assms le by (auto simp: pb_wf_def pb_copy_def)
  show "mwPutBuffer_finalize (pb_copy b data) = mwPutBuffer_finalize b @ data"
    using le assms(1)
    by (simp add: mwPutBuffer_finalize_def BUFFER_USED_ptr [OF wf] BUFFER_USED_ptr)
      (simp add: pb_copy_def comp_def)
qed

lemma pb_put:
  assumes "pb_wf b" and "length data = n"
  shows "pb_wf (pb_copy (ensure_buffer b n) data)"
    and "mwPutBuffer_finalize (pb_copy (ensure_buffer b n) data) = mwPutBuffer_finalize b @ data"
  using ensure_buffer_spec [OF assms(1), of n] assms(2) pb_copy_spec by auto

lemma mwPutBuffer_write_spec:
  assumes "pb_wf b"
  shows "pb_wf (mwPutBuffer_write b data)"
    and "mwPutBuffer_finalize (mwPutBuffer_write b data) = mwPutBuffer_finalize b @ data"
  using pb_put [OF assms] assms by (auto simp: mwPutBuffer_write_def)

section \<open>Reading never leaves the block\<close>

lemma gb_wf_new [simp]: "gb_wf (mwGetBuffer_new d)" "gb_wf (mwGetBuffer_wrap d)"
  by (auto simp: gb_wf_def mwGetBuffer_new_def mwGetBuffer_wrap_def split: option.split)

lemma gb_wf_skip: "gb_wf g \<Longrightarrow> n \<le> gb_rem g \<Longrightarrow> gb_wf (gb_skip g n)"
  by (auto simp: gb_wf_def gb_skip_def)

lemma gb_skip_simps [simp]:
  "gb_error (gb_skip g n) = gb_error g" "gb_buf (gb_skip g n) = gb_buf g"
  "gb_ptr (gb_skip g n) = gb_ptr g + n" "gb_rem (gb_skip g n) = gb_rem g - n"
  "gb_skip (gb_skip g n) m = gb_skip g (n + m)" "gb_skip g 0 = g"
  by (auto simp: gb_skip_def)

lemma unread_skip: "unread (gb_skip g n) = drop n (unread g)"
  by (simp add: unread_def add.commute)

lemma length_unread: "gb_wf g \<Longrightarrow> length (unread g) = gb_rem g"
  by (auto simp: gb_wf_def unread_def)

lemma check_buffer_cases:
  "\<not> gb_error g \<Longrightarrow> check_buffer g n =
     (if n \<le> gb_rem g then (True, g) else (False, g\<lparr>gb_error := True\<rparr>))"
  by (auto simp: check_buffer_def)

lemma check_buffer_error: "gb_error g \<Longrightarrow> check_buffer g n = (False, g)"
  by (simp add: check_buffer_def)

lemma gb_wf_error [simp]: "gb_wf (g\<lparr>gb_error := e\<rparr>) = gb_wf g"
  by (simp add: gb_wf_def)

lemma unread_error [simp]: "unread (g\<lparr>gb_error := e\<rparr>) = unread g"
  by (simp add: unread_def)

lemma mwGetBuffer_read_spec:
  assumes "gb_wf g"
  shows "gb_wf (snd (mwGetBuffer_read g n))"
    and "\<not> gb_error g \<Longrightarrow> fst (mwGetBuffer_read g n) @ unread (snd (mwGetBuffer_read g n)) = unread g"
  using assms length_unread [OF assms]
  by (auto simp: mwGetBuffer_read_def Let_def unread_skip intro: gb_wf_skip)
    (simp_all add: unread_def add.commute flip: drop_drop)

lemma gb_wf_advance: "gb_wf g \<Longrightarrow> gb_wf (snd (mwGetBuffer_advance g n))"
  by (auto simp: mwGetBuffer_advance_def Let_def intro: gb_wf_skip)

lemma gb_wf_reset: "gb_wf g \<Longrightarrow> gb_wf (mwGetBuffer_reset g)"
  by (auto simp: gb_wf_def mwGetBuffer_reset_def)

end
