(* ===== verification/MwCodec.thy ===== *)
theory MwCodec imports MwBuffer begin

text \<open>
  The contract of a pair of \<open>_put\<close> and \<open>_get\<close> functions of the Sametime engine, and the
  proof that the basic types of \<open>common.c\<close> keep it.

  A put appends the encoding of the value.  A get that finds the encoding takes it off the
  buffer and yields the value, up to the fields it leaves alone; a get that finds only a
  proper prefix sets the error flag; on a buffer in error nothing moves; and on any bytes
  at all the reader stays within its block.
\<close>

section \<open>What a reader finds\<close>

definition feeds :: "getbuf \<Rightarrow> bytes \<Rightarrow> bytes \<Rightarrow> bool" where
  "feeds g e rest \<longleftrightarrow> gb_wf g \<and> \<not> gb_error g \<and> unread g = e @ rest"

definition starved :: "getbuf \<Rightarrow> bytes \<Rightarrow> bool" where
  "starved g e \<longleftrightarrow> gb_wf g \<and> (gb_error g \<or> (\<exists>q. q \<noteq> [] \<and> e = unread g @ q))"

lemma feeds_new: "feeds (mwGetBuffer_new (Some (e @ rest))) e rest"
  and feeds_wrap: "feeds (mwGetBuffer_wrap (Some (e @ rest))) e rest"
  by (auto simp: feeds_def mwGetBuffer_new_def mwGetBuffer_wrap_def unread_def gb_wf_def)

lemma starved_wrap: "n < length e \<Longrightarrow> starved (mwGetBuffer_wrap (Some (take n e))) e"
  unfolding starved_def
  by (auto simp: mwGetBuffer_new_def mwGetBuffer_wrap_def unread_def gb_wf_def
      intro!: exI [of _ "drop n e"])

lemma feeds_not_error: "feeds g e rest \<Longrightarrow> \<not> gb_error g"
  by (simp add: feeds_def)

lemma starved_Nil: "starved g [] \<Longrightarrow> gb_error g"
  by (auto simp: starved_def)

lemma starved_stuck: "gb_wf g \<Longrightarrow> gb_error g \<Longrightarrow> starved g e"
  by (simp add: starved_def)

lemma starved_wf: "starved g e \<Longrightarrow> gb_wf g"
  by (simp add: starved_def)

lemma feeds_skip: "feeds g (x @ e) rest \<Longrightarrow> length x = n \<Longrightarrow> feeds (gb_skip g n) e rest"
  using gb_wf_skip [of g n] length_unread [of g] by (auto simp: feeds_def unread_skip)

lemma feeds_rem: "feeds g (x @ e) rest \<Longrightarrow> length x \<le> gb_rem g"
  using length_unread [of g] by (auto simp: feeds_def)

lemma feeds_read:
  "feeds g (x @ e) rest \<Longrightarrow> length x = n \<Longrightarrow> take n (drop (gb_ptr g) (gb_buf g)) = x"
  by (auto simp: feeds_def unread_def)

lemma starved_skip:
  assumes "starved g (x @ e)" and "\<not> gb_error g" and "length x \<le> gb_rem g"
  shows "starved (gb_skip g (length x)) e"
proof -
  from assms obtain q where wf: "gb_wf g" and q: "q \<noteq> []" "x @ e = unread g @ q"
    by (auto simp: starved_def)
  have "length x \<le> length (unread g)" using assms(3) length_unread [OF wf] by simp
  then have "e = drop (length x) (unread g) @ q"
    using arg_cong [OF q(2), of "drop (length x)"] by simp
  then show ?thesis using q(1) gb_wf_skip [OF wf assms(3)] by (auto simp: starved_def unread_skip)
qed

lemma starved_head:
  "starved g (x @ e) \<Longrightarrow> \<not> gb_error g \<Longrightarrow> length x \<le> gb_rem g \<Longrightarrow>
   feeds g x (drop (length x) (unread g))"
  using length_unread [of g]
  by (auto simp: starved_def feeds_def append_eq_append_conv2) (metis append_eq_conv_conj)

text \<open>
  What a call of a reader does, as predicates on its result, so that a sequence of calls is
  proved one rule per call.
\<close>

definition gives :: "bytes \<Rightarrow> bytes \<Rightarrow> 'a \<Rightarrow> 'a \<times> getbuf \<Rightarrow> bool" where
  "gives e rest v x \<longleftrightarrow> fst x = v \<and> feeds (snd x) e rest"

definition dries :: "bytes \<Rightarrow> 'a \<times> getbuf \<Rightarrow> bool" where
  "dries e x \<longleftrightarrow> starved (snd x) e"

definition fails :: "'a \<times> getbuf \<Rightarrow> bool" where
  "fails x \<longleftrightarrow> gb_error (snd x) \<and> gb_wf (snd x)"

definition stays_wf :: "'a \<times> getbuf \<Rightarrow> bool" where
  "stays_wf x \<longleftrightarrow> gb_wf (snd x)"

definition stays :: "getbuf \<Rightarrow> 'a \<times> getbuf \<Rightarrow> bool" where
  "stays g x \<longleftrightarrow> snd x = g"

lemma reader_result [simp]:
  "gives e rest v (w, g) \<longleftrightarrow> w = v \<and> feeds g e rest"
  "dries e (w, g) \<longleftrightarrow> starved g e" "fails (w, g) \<longleftrightarrow> gb_error g \<and> gb_wf g"
  "stays_wf (w, g) \<longleftrightarrow> gb_wf g" "stays g' (w, g) \<longleftrightarrow> g = g'"
  by (auto simp: gives_def dries_def fails_def stays_wf_def stays_def)

named_theorems fed_steps \<open>reading an encoding that is there\<close>
named_theorems dry_steps \<open>reading an encoding that is cut short\<close>
named_theorems wf_steps \<open>reading any bytes\<close>
named_theorems stuck_steps \<open>reading a buffer in error\<close>
named_theorems put_steps \<open>writing\<close>

section \<open>The contract\<close>

locale writer =
  fixes put :: "putbuf \<Rightarrow> 'a \<Rightarrow> putbuf"
    and enc :: "'a \<Rightarrow> bytes"
    and ok :: "'a \<Rightarrow> bool"
  assumes put_wf [put_steps]: "pb_wf b \<Longrightarrow> ok v \<Longrightarrow> pb_wf (put b v)"
    and put_out [put_steps]: "pb_wf b \<Longrightarrow> ok v \<Longrightarrow>
          mwPutBuffer_finalize (put b v) = mwPutBuffer_finalize b @ enc v"
begin

lemma put_new: "ok v \<Longrightarrow> mwPutBuffer_finalize (put mwPutBuffer_new v) = enc v"
  using put_out [OF pb_wf_new] by simp

end

locale reader =
  fixes get :: "getbuf \<Rightarrow> 'a \<Rightarrow> 'a \<times> getbuf"
    and enc :: "'a \<Rightarrow> bytes"
    and ok :: "'a \<Rightarrow> bool"
    and res :: "'a \<Rightarrow> 'a \<Rightarrow> 'a"
  assumes get_fed [fed_steps]: "feeds g (enc v @ e) rest \<Longrightarrow> ok v \<Longrightarrow> gives e rest (res old v) (get g old)"
    and get_short: "starved g (enc v @ e) \<Longrightarrow> ok v \<Longrightarrow> \<not> gb_error g \<Longrightarrow> dries e (get g old)"
    and get_wf [wf_steps]: "gb_wf g \<Longrightarrow> stays_wf (get g old)"
    and get_stuck [stuck_steps]: "gb_error g \<Longrightarrow> stays g (get g old)"
begin

lemma fed_step [fed_steps]:
  "feeds g (enc v @ e) rest \<Longrightarrow> ok v \<Longrightarrow>
   (\<And>g'. feeds g' e rest \<Longrightarrow> gives e' rest' x (f (res old v) g')) \<Longrightarrow>
   gives e' rest' x (case get g old of (w, g') \<Rightarrow> f w g')"
  using get_fed [of g v e rest old] by (auto simp: gives_def split: prod.split)

lemma wf_step [wf_steps]:
  "gb_wf g \<Longrightarrow> (\<And>w g'. gb_wf g' \<Longrightarrow> stays_wf (f w g')) \<Longrightarrow>
   stays_wf (case get g old of (w, g') \<Rightarrow> f w g')"
  using get_wf [of g old] by (auto simp: stays_wf_def split: prod.split)

lemma stuck_step [stuck_steps]:
  "gb_error g \<Longrightarrow> (\<And>w. stays g0 (f w g)) \<Longrightarrow> stays g0 (case get g old of (w, g') \<Rightarrow> f w g')"
  "gb_error g \<Longrightarrow> gb_wf g \<Longrightarrow> (\<And>w. fails (f w g)) \<Longrightarrow> fails (case get g old of (w, g') \<Rightarrow> f w g')"
  using get_stuck [of g old] by (auto simp: stays_def fails_def split: prod.split)

lemma get_fails [stuck_steps]: "gb_error g \<Longrightarrow> gb_wf g \<Longrightarrow> fails (get g old)"
  using get_stuck [of g old] by (simp add: stays_def fails_def)

lemma get_starved [dry_steps]: "starved g (enc v @ e) \<Longrightarrow> ok v \<Longrightarrow> dries e (get g old)"
  using get_short [of g v e old] get_stuck [of g old]
  by (cases "gb_error g") (auto simp: stays_def dries_def starved_def)

lemma starved_cases:
  assumes "starved g (enc v @ e)" and "ok v"
  shows "fst (get g old) = res old v \<and> starved (snd (get g old)) e \<or>
     gb_error (snd (get g old)) \<and> gb_wf (snd (get g old))"
proof (cases "gb_error g \<or> gb_rem g < length (enc v)")
  case True
  have "starved g (enc v @ [])"
  proof (cases "gb_error g")
    case False
    then obtain q where q: "enc v @ e = unread g @ q" "gb_wf g"
      using assms(1) by (auto simp: starved_def)
    have lt: "length (unread g) < length (enc v)"
      using True False length_unread [OF q(2)] by simp
    then have "enc v = unread g @ take (length (enc v) - length (unread g)) q"
      using arg_cong [OF q(1), of "take (length (enc v))"] by simp
    moreover have "take (length (enc v) - length (unread g)) q \<noteq> []"
      using lt arg_cong [OF q(1), of length] by auto
    ultimately have "\<exists>p. p \<noteq> [] \<and> enc v = unread g @ p" by blast
    then show ?thesis using q(2) unfolding starved_def by simp
  qed (use assms(1) in \<open>simp add: starved_def\<close>)
  from get_starved [OF this assms(2)] show ?thesis
    by (auto simp: dries_def starved_def)
next
  case False
  then have "feeds g (enc v @ []) (drop (length (enc v)) (unread g))"
    using starved_head [OF assms(1)] by simp
  from get_fed [OF this assms(2)] show ?thesis
    using get_starved [OF assms] by (auto simp: gives_def dries_def)
qed

lemma starved_step [dry_steps]:
  "starved g (enc v @ e) \<Longrightarrow> ok v \<Longrightarrow>
   (\<And>g'. starved g' e \<Longrightarrow> dries e' (f (res old v) g')) \<Longrightarrow>
   (\<And>w g'. gb_error g' \<Longrightarrow> gb_wf g' \<Longrightarrow> fails (f w g')) \<Longrightarrow>
   dries e' (case get g old of (w, g') \<Rightarrow> f w g')"
  using starved_cases [of g v e old]
  by (auto simp: dries_def fails_def starved_stuck split: prod.split) 

lemma truncated:
  assumes "ok v" and "n < length (enc v)"
  shows "gb_error (snd (get (mwGetBuffer_wrap (Some (take n (enc v)))) old))"
  using get_starved [of _ v "[]", OF _ assms(1)] starved_wrap [OF assms(2)]
  by (auto simp: dries_def dest: starved_Nil)

end

locale codec = writer put enc ok + reader get enc ok res for put get enc ok res
begin

lemma roundtrip:
  assumes "ok v"
  shows "\<exists>g'. get (mwGetBuffer_wrap (Some (mwPutBuffer_finalize (put mwPutBuffer_new v) @ rest))) old
            = (res old v, g') \<and> \<not> gb_error g' \<and> unread g' = rest"
proof -
  have "gives [] rest (res old v) (get (mwGetBuffer_wrap (Some (enc v @ rest))) old)"
    using get_fed [of _ v "[]", OF _ assms] feeds_wrap by simp
  then show ?thesis
    by (cases "get (mwGetBuffer_wrap (Some (enc v @ rest))) old")
      (auto simp: put_new [OF assms] feeds_def)
qed

end

section \<open>The basic types\<close>

text \<open>A reader of a fixed number of bytes.\<close>

definition take_bytes :: "getbuf \<Rightarrow> nat \<Rightarrow> 'a \<Rightarrow> (getbuf \<Rightarrow> 'a) \<Rightarrow> 'a \<times> getbuf" where
  "take_bytes g n old f =
     (if gb_error g then (old, g)
      else if n \<le> gb_rem g then (f g, gb_skip g n) else (old, g\<lparr>gb_error := True\<rparr>))"

lemma take_bytes_fed:
  assumes "feeds g (x @ e) rest" and "length x = n" and "f g = v"
  shows "gives e rest v (take_bytes g n old f)"
  using assms feeds_rem [OF assms(1)] feeds_skip [OF assms(1,2)]
  by (auto simp: take_bytes_def feeds_def)

lemma take_bytes_starved:
  assumes "starved g (x @ e)" and "length x = n"
  shows "dries e (take_bytes g n old f)"
  using assms starved_skip [OF assms(1)] by (auto simp: take_bytes_def starved_def)

lemma take_bytes_wf [wf_steps]: "gb_wf g \<Longrightarrow> stays_wf (take_bytes g n old f)"
  by (auto simp: take_bytes_def intro: gb_wf_skip)

lemma take_bytes_stuck [stuck_steps]:
  "gb_error g \<Longrightarrow> stays g (take_bytes g n old f)"
  "gb_error g \<Longrightarrow> gb_wf g \<Longrightarrow> fails (take_bytes g n old f)"
  by (auto simp: take_bytes_def)

lemma guint16_get_eq:
  "guint16_get g old = take_bytes g 2 old (\<lambda>g. MW16_GET (gb_buf g) (gb_ptr g))"
  by (simp add: guint16_get_def take_bytes_def check_buffer_cases)

lemma guint32_get_eq:
  "guint32_get g old = take_bytes g 4 old (\<lambda>g. MW32_GET (gb_buf g) (gb_ptr g))"
  by (simp add: guint32_get_def take_bytes_def check_buffer_cases)

lemma gboolean_get_eq:
  "gboolean_get g old = take_bytes g 1 old (\<lambda>g. gb_buf g ! gb_ptr g \<noteq> 0)"
  by (simp add: gboolean_get_def take_bytes_def check_buffer_cases)

lemma unread_nth: "feeds g (x @ e) rest \<Longrightarrow> i < length x \<Longrightarrow> gb_buf g ! (gb_ptr g + i) = x ! i"
proof -
  assume a: "feeds g (x @ e) rest" and i: "i < length x"
  have "unread g ! i = x ! i" using a i by (simp add: feeds_def nth_append)
  moreover have "gb_ptr g \<le> length (gb_buf g)" using a by (auto simp: feeds_def gb_wf_def)
  ultimately show ?thesis by (simp add: unread_def)
qed

lemma byte_mask: "(0xff :: 'a::len word) = mask 8"
  by (simp add: mask_eq_exp_minus_1)

lemma be16_bits:
  "push_bit 8 (ucast (ucast (drop_bit 8 v AND 0xff) :: u8) AND 0xff) OR
     (ucast (ucast (v AND 0xff) :: u8) AND 0xff) = (v :: u16)"
  unfolding byte_mask by (rule bit_word_eqI) (auto simp: bit_simps)

lemma byte_trip: "(ucast (ucast (x AND 0xff) :: u8) :: u32) AND 0xff = x AND 0xff"
  unfolding byte_mask by (rule bit_word_eqI) (auto simp: bit_simps)

lemma be32_bits:
  "push_bit 24 (ucast (ucast (drop_bit 24 v AND 0xff) :: u8) AND 0xff) OR
     push_bit 16 (ucast (ucast (drop_bit 16 v AND 0xff) :: u8) AND 0xff) OR
     push_bit 8 (ucast (ucast (drop_bit 8 v AND 0xff) :: u8) AND 0xff) OR
     (ucast (ucast (v AND 0xff) :: u8) AND 0xff) = (v :: u32)"
  unfolding byte_trip unfolding byte_mask
proof (rule bit_word_eqI)
  fix n :: nat
  consider "n < 8" | "8 \<le> n" "n < 16" | "16 \<le> n" "n < 24" | "24 \<le> n" by linarith
  then show "n < LENGTH(32) \<Longrightarrow>
      bit (push_bit 24 (drop_bit 24 v AND mask 8) OR push_bit 16 (drop_bit 16 v AND mask 8) OR
        push_bit 8 (drop_bit 8 v AND mask 8) OR v AND mask 8) n = bit v n"
    by cases (simp_all add: bit_simps, (linarith | auto)+)
qed

lemma length_be [simp]: "length (be16 v) = 2" "length (be32 u) = 4"
  by (simp_all add: be16_def be32_def)

lemma MW16_GET_be16: "feeds g (be16 v @ e) rest \<Longrightarrow> MW16_GET (gb_buf g) (gb_ptr g) = v"
  using unread_nth [of g "be16 v" e rest 0] unread_nth [of g "be16 v" e rest 1]
  unfolding MW16_GET_def by (subst (3) be16_bits [symmetric]) (simp add: be16_def)

lemma MW32_GET_be32: "feeds g (be32 v @ e) rest \<Longrightarrow> MW32_GET (gb_buf g) (gb_ptr g) = v"
  using unread_nth [of g "be32 v" e rest 0] unread_nth [of g "be32 v" e rest 1]
    unread_nth [of g "be32 v" e rest 2] unread_nth [of g "be32 v" e rest 3]
  unfolding MW32_GET_def by (subst (5) be32_bits [symmetric]) (simp add: be32_def)

abbreviation (input) always :: "'a \<Rightarrow> bool" where "always v \<equiv> True"
abbreviation (input) replaced :: "'a \<Rightarrow> 'a \<Rightarrow> 'a" where "replaced old v \<equiv> v"

interpretation u16: codec guint16_put guint16_get be16 always replaced
  by unfold_locales (auto simp: guint16_put_def guint16_get_eq pb_put MW16_GET_be16
    intro: take_bytes_fed take_bytes_starved wf_steps stuck_steps)

interpretation u32: codec guint32_put guint32_get be32 always replaced
  by unfold_locales (auto simp: guint32_put_def guint32_get_eq pb_put MW32_GET_be32
    intro: take_bytes_fed take_bytes_starved wf_steps stuck_steps)

definition enc_bool :: "bool \<Rightarrow> bytes" where
  "enc_bool v = [if v then 1 else 0]"

lemma gboolean_value: "feeds g (enc_bool v @ e) rest \<Longrightarrow> (gb_buf g ! gb_ptr g \<noteq> 0) = v"
  using unread_nth [of g "enc_bool v" e rest 0] by (auto simp: enc_bool_def)

interpretation boolean: codec gboolean_put gboolean_get enc_bool always replaced
proof
  fix b v assume "pb_wf b"
  then show "mwPutBuffer_finalize (gboolean_put b v) = mwPutBuffer_finalize b @ enc_bool v"
    "pb_wf (gboolean_put b v)"
    using pb_put [of b "enc_bool v" 1] by (auto simp: gboolean_put_def enc_bool_def)
next
  fix g v e rest old assume f: "feeds g (enc_bool v @ e) rest"
  show "gives e rest v (gboolean_get g old)"
    unfolding gboolean_get_eq
    by (rule take_bytes_fed [OF f]) (use gboolean_value [OF f] in \<open>simp_all add: enc_bool_def\<close>)
next
  fix g v e old assume "starved g (enc_bool v @ e)"
  then show "dries e (gboolean_get g old)"
    unfolding gboolean_get_eq by (rule take_bytes_starved) (simp add: enc_bool_def)
qed (simp_all add: gboolean_get_eq wf_steps stuck_steps)

section \<open>Strings and opaques\<close>

text \<open>
  A null string, an empty string and a string whose first byte is zero are all sent as a
  zero length, and all come back as a null.
\<close>

definition str_chars :: "mwstring \<Rightarrow> bytes" where
  "str_chars v = (case v of None \<Rightarrow> [] | Some s \<Rightarrow> c_str s)"

definition str_norm :: "mwstring \<Rightarrow> mwstring" where
  "str_norm v = (if str_chars v = [] then None else Some (str_chars v))"

definition str_fits :: "mwstring \<Rightarrow> bool" where
  "str_fits v \<longleftrightarrow> length (str_chars v) < 65536"

definition enc_str :: "mwstring \<Rightarrow> bytes" where
  "enc_str v = be16 (of_nat (length (str_chars v))) @ str_chars v"

definition enc_opaque :: "bytes \<Rightarrow> bytes" where
  "enc_opaque v = be32 (of_nat (length v)) @ v"

definition opaque_fits :: "bytes \<Rightarrow> bool" where
  "opaque_fits v \<longleftrightarrow> length v < 2 ^ 32"

lemma mwString_get_eq:
  "mwString_get g old =
     (if gb_error g then (None, g)
      else let (n, g1) = guint16_get g 0 in
           take_bytes g1 (unat n) None
             (\<lambda>g. if n = 0 then None else Some (take (unat n) (drop (gb_ptr g) (gb_buf g)))))"
  by (auto simp: mwString_get_def take_bytes_def check_buffer_error check_buffer_cases
      unat_eq_0 Let_def split: prod.split)

lemma mwOpaque_get_eq:
  "mwOpaque_get g old =
     (if gb_error g then ([], g)
      else let (n, g1) = guint32_get g 0 in
           take_bytes g1 (unat n) [] (\<lambda>g. take (unat n) (drop (gb_ptr g) (gb_buf g))))"
  by (auto simp: mwOpaque_get_def take_bytes_def check_buffer_error check_buffer_cases
      unat_gt_0 Let_def split: prod.split)

lemma mwString_put_eq:
  "mwString_put b v =
     (let b1 = guint16_put b (of_nat (length (str_chars v))) in
      if str_chars v = [] then b1
      else pb_copy (ensure_buffer b1 (length (str_chars v))) (str_chars v))"
  by (simp add: mwString_put_def str_chars_def Let_def split: option.split)

text \<open>
  Both are a length of fixed width followed by that many bytes, read by the same steps.
\<close>

locale length_prefix =
  len: reader getn encn "\<lambda>n. True" "\<lambda>old n. n"
  for getn :: "getbuf \<Rightarrow> 'l::len word \<Rightarrow> 'l word \<times> getbuf"
    and encn :: "'l word \<Rightarrow> bytes" +
  fixes width :: nat and value1 :: "getbuf \<Rightarrow> 'l word"
  assumes length_encn: "length (encn n) = width"
    and getn_eq: "getn g old = take_bytes g width old value1"
begin

definition get_prefixed :: "getbuf \<Rightarrow> 'a \<Rightarrow> (nat \<Rightarrow> bytes \<Rightarrow> 'a) \<Rightarrow> 'a \<times> getbuf" where
  "get_prefixed g z f =
     (if gb_error g then (z, g)
      else let (n, g1) = getn g 0 in
           take_bytes g1 (unat n) z (\<lambda>g. f (unat n) (take (unat n) (drop (gb_ptr g) (gb_buf g)))))"

lemma prefixed_fed:
  assumes fd: "feeds g (encn (of_nat (length s)) @ s @ e) rest" and ok: "length s < 2 ^ LENGTH('l)"
  shows "gives e rest (f (length s) s) (get_prefixed g z f)"
proof -
  have un: "unat (of_nat (length s) :: 'l word) = length s" using ok by (simp add: unat_of_nat)
  have "gives e rest (f (length s) s)
      (let (n, g1) = getn g 0 in
       take_bytes g1 (unat n) z (\<lambda>g. f (unat n) (take (unat n) (drop (gb_ptr g) (gb_buf g)))))"
    unfolding Let_def
    by (rule len.fed_step [OF fd], simp)
      (auto simp: un intro!: take_bytes_fed arg_cong2 [where f=f] feeds_read)
  then show ?thesis using fd by (simp add: get_prefixed_def feeds_def)
qed

lemma prefixed_wf: "gb_wf g \<Longrightarrow> stays_wf (get_prefixed g z f)"
  by (simp add: get_prefixed_def Let_def wf_steps len.wf_step)

lemma prefixed_stuck: "gb_error g \<Longrightarrow> stays g (get_prefixed g z f)"
  by (simp add: get_prefixed_def)

lemma prefixed_starved:
  assumes st: "starved g (encn (of_nat (length s)) @ s @ e)" and ok: "length s < 2 ^ LENGTH('l)"
  shows "dries e (get_prefixed g z f)"
proof -
  have un: "unat (of_nat (length s) :: 'l word) = length s" using ok by (simp add: unat_of_nat)
  have "dries e
      (let (n, g1) = getn g 0 in
       take_bytes g1 (unat n) z (\<lambda>g. f (unat n) (take (unat n) (drop (gb_ptr g) (gb_buf g)))))"
    unfolding Let_def
    by (rule len.starved_step [OF st], simp)
      (auto simp: un intro: take_bytes_starved stuck_steps)
  then show ?thesis using st by (auto simp: get_prefixed_def starved_def)
qed

end

interpretation u16p: length_prefix guint16_get be16 2
    "\<lambda>g. MW16_GET (gb_buf g) (gb_ptr g)"
  by unfold_locales (simp_all add: guint16_get_eq)

interpretation u32p: length_prefix guint32_get be32 4
    "\<lambda>g. MW32_GET (gb_buf g) (gb_ptr g)"
  by unfold_locales (simp_all add: guint32_get_eq)

lemma mwString_get_prefixed:
  "mwString_get g old = u16p.get_prefixed g None (\<lambda>n s. if n = 0 then None else Some s)"
  by (simp add: mwString_get_eq u16p.get_prefixed_def unat_eq_0)

lemma mwOpaque_get_prefixed: "mwOpaque_get g old = u32p.get_prefixed g [] (\<lambda>n s. s)"
  by (simp add: mwOpaque_get_eq u32p.get_prefixed_def)

interpretation str: codec mwString_put mwString_get enc_str str_fits "\<lambda>old. str_norm"
proof
  fix b :: putbuf and v
  assume b: "pb_wf b"
  show "pb_wf (mwString_put b v)"
    "mwPutBuffer_finalize (mwString_put b v) = mwPutBuffer_finalize b @ enc_str v"
    using b pb_put [OF u16.put_wf [OF b TrueI] refl, of _ "str_chars v"]
    by (auto simp: mwString_put_eq Let_def enc_str_def u16.put_wf u16.put_out)
next
  fix g v e rest old assume "feeds g (enc_str v @ e) rest" "str_fits v"
  then show "gives e rest (str_norm v) (mwString_get g old)"
    using u16p.prefixed_fed [of g "str_chars v" e rest "\<lambda>n s. if n = 0 then None else Some s"]
    by (simp add: mwString_get_prefixed enc_str_def str_fits_def str_norm_def)
qed (auto simp: mwString_get_prefixed enc_str_def str_fits_def
    intro: u16p.prefixed_starved u16p.prefixed_wf u16p.prefixed_stuck)

interpretation opq: codec "\<lambda>b v. mwOpaque_put b (Some v)" mwOpaque_get enc_opaque opaque_fits replaced
proof
  fix b :: putbuf and v
  assume b: "pb_wf b"
  show "pb_wf (mwOpaque_put b (Some v))"
    "mwPutBuffer_finalize (mwOpaque_put b (Some v)) = mwPutBuffer_finalize b @ enc_opaque v"
    using b pb_put [OF u32.put_wf [OF b TrueI] refl, of _ v]
    by (auto simp: mwOpaque_put_def Let_def enc_opaque_def u32.put_wf u32.put_out)
qed (auto simp: mwOpaque_get_prefixed enc_opaque_def opaque_fits_def
    intro: u32p.prefixed_fed u32p.prefixed_starved u32p.prefixed_wf u32p.prefixed_stuck)

end
