(* ===== verification/MwTypes.thy ===== *)
theory MwTypes imports MwCodec begin

text \<open>
  The common structures of the Sametime protocol (\<open>mw_common.h\<close> and the second half of
  \<open>common.c\<close>): login info, user items, privacy lists, user status, id blocks, encryption
  items, awareness ids and snapshots, each with the functions that write, read, clear,
  clone and compare it.

  A get takes the old contents of the structure as its last argument, because the code
  leaves some fields of it alone.  A null pointer passed for the structure itself is refused
  by \<open>g_return_if_fail\<close> and is not modelled.
\<close>

section \<open>Login info\<close>

record mwLoginInfo =
  li_login_id :: mwstring
  li_type :: u16
  li_user_id :: mwstring
  li_user_name :: mwstring
  li_community :: mwstring
  li_full :: bool
  li_desc :: mwstring
  li_ip_addr :: u32
  li_server_id :: mwstring

definition mwLoginInfo_zero :: mwLoginInfo where
  "mwLoginInfo_zero = \<lparr>li_login_id = None, li_type = 0, li_user_id = None, li_user_name = None,
     li_community = None, li_full = False, li_desc = None, li_ip_addr = 0, li_server_id = None\<rparr>"

definition mwLoginInfo_put :: "putbuf \<Rightarrow> mwLoginInfo \<Rightarrow> putbuf" where
  "mwLoginInfo_put b login =
     (let b = mwString_put b (li_login_id login);
          b = guint16_put b (li_type login);
          b = mwString_put b (li_user_id login);
          b = mwString_put b (li_user_name login);
          b = mwString_put b (li_community login);
          b = gboolean_put b (li_full login) in
      if li_full login then
        (let b = mwString_put b (li_desc login);
             b = guint32_put b (li_ip_addr login) in
         mwString_put b (li_server_id login))
      else b)"

definition mwLoginInfo_get :: "getbuf \<Rightarrow> mwLoginInfo \<Rightarrow> mwLoginInfo \<times> getbuf" where
  "mwLoginInfo_get b login =
     (if gb_error b then (login, b)
      else
        let (s1, b) = mwString_get b (li_login_id login);
            (ty, b) = guint16_get b (li_type login);
            (s2, b) = mwString_get b (li_user_id login);
            (s3, b) = mwString_get b (li_user_name login);
            (s4, b) = mwString_get b (li_community login);
            (fu, b) = gboolean_get b (li_full login);
            login = login\<lparr>li_login_id := s1, li_type := ty, li_user_id := s2, li_user_name := s3,
                     li_community := s4, li_full := fu\<rparr> in
        if fu then
          (let (s5, b) = mwString_get b (li_desc login);
               (ip, b) = guint32_get b (li_ip_addr login);
               (s6, b) = mwString_get b (li_server_id login) in
           (login\<lparr>li_desc := s5, li_ip_addr := ip, li_server_id := s6\<rparr>, b))
        else (login, b))"

definition mwLoginInfo_clear :: "mwLoginInfo \<Rightarrow> mwLoginInfo" where
  "mwLoginInfo_clear login = mwLoginInfo_zero"

text \<open>\<open>to\<close> keeps its own description, address and server when \<open>from\<close> is not full.\<close>

definition mwLoginInfo_clone :: "mwLoginInfo \<Rightarrow> mwLoginInfo \<Rightarrow> mwLoginInfo" where
  "mwLoginInfo_clone to from1 =
     (let to = to\<lparr>li_login_id := g_strdup (li_login_id from1), li_type := li_type from1,
                 li_user_id := g_strdup (li_user_id from1),
                 li_user_name := g_strdup (li_user_name from1),
                 li_community := g_strdup (li_community from1), li_full := li_full from1\<rparr> in
      if li_full from1
      then to\<lparr>li_desc := g_strdup (li_desc from1), li_ip_addr := li_ip_addr from1,
              li_server_id := g_strdup (li_server_id from1)\<rparr>
      else to)"

definition enc_login :: "mwLoginInfo \<Rightarrow> bytes" where
  "enc_login v =
     enc_str (li_login_id v) @ be16 (li_type v) @ enc_str (li_user_id v) @
     enc_str (li_user_name v) @ enc_str (li_community v) @ enc_bool (li_full v) @
     (if li_full v
      then enc_str (li_desc v) @ be32 (li_ip_addr v) @ enc_str (li_server_id v) else [])"

definition login_fits :: "mwLoginInfo \<Rightarrow> bool" where
  "login_fits v \<longleftrightarrow>
     str_fits (li_login_id v) \<and> str_fits (li_user_id v) \<and> str_fits (li_user_name v) \<and>
     str_fits (li_community v) \<and>
     (li_full v \<longrightarrow> str_fits (li_desc v) \<and> str_fits (li_server_id v))"

definition login_res :: "mwLoginInfo \<Rightarrow> mwLoginInfo \<Rightarrow> mwLoginInfo" where
  "login_res old v =
     \<lparr>li_login_id = str_norm (li_login_id v), li_type = li_type v,
      li_user_id = str_norm (li_user_id v), li_user_name = str_norm (li_user_name v),
      li_community = str_norm (li_community v), li_full = li_full v,
      li_desc = (if li_full v then str_norm (li_desc v) else li_desc old),
      li_ip_addr = (if li_full v then li_ip_addr v else li_ip_addr old),
      li_server_id = (if li_full v then str_norm (li_server_id v) else li_server_id old)\<rparr>"

interpretation login: codec mwLoginInfo_put mwLoginInfo_get enc_login login_fits login_res
  by unfold_locales (auto simp: mwLoginInfo_put_def mwLoginInfo_get_def enc_login_def
    login_fits_def login_res_def Let_def put_steps feeds_not_error
    intro!: fed_steps dry_steps wf_steps stuck_steps)

section \<open>Privacy info\<close>

record mwUserItem =
  ui_full :: bool
  ui_id :: mwstring
  ui_community :: mwstring
  ui_name :: mwstring

definition mwUserItem_zero :: mwUserItem where
  "mwUserItem_zero = \<lparr>ui_full = False, ui_id = None, ui_community = None, ui_name = None\<rparr>"

definition mwUserItem_put :: "putbuf \<Rightarrow> mwUserItem \<Rightarrow> putbuf" where
  "mwUserItem_put b user =
     (let b = gboolean_put b (ui_full user);
          b = mwString_put b (ui_id user);
          b = mwString_put b (ui_community user) in
      if ui_full user then mwString_put b (ui_name user) else b)"

definition mwUserItem_get :: "getbuf \<Rightarrow> mwUserItem \<Rightarrow> mwUserItem \<times> getbuf" where
  "mwUserItem_get b user =
     (if gb_error b then (user, b)
      else
        let (fu, b) = gboolean_get b (ui_full user);
            (s1, b) = mwString_get b (ui_id user);
            (s2, b) = mwString_get b (ui_community user);
            user = user\<lparr>ui_full := fu, ui_id := s1, ui_community := s2\<rparr> in
        if fu then (let (s3, b) = mwString_get b (ui_name user) in (user\<lparr>ui_name := s3\<rparr>, b))
        else (user, b))"

definition mwUserItem_clear :: "mwUserItem \<Rightarrow> mwUserItem" where
  "mwUserItem_clear user = mwUserItem_zero"

definition mwUserItem_clone :: "mwUserItem \<Rightarrow> mwUserItem" where
  "mwUserItem_clone from1 =
     \<lparr>ui_full = ui_full from1, ui_id = g_strdup (ui_id from1),
      ui_community = g_strdup (ui_community from1),
      ui_name = (if ui_full from1 then g_strdup (ui_name from1) else None)\<rparr>"

definition enc_user :: "mwUserItem \<Rightarrow> bytes" where
  "enc_user v =
     enc_bool (ui_full v) @ enc_str (ui_id v) @ enc_str (ui_community v) @
     (if ui_full v then enc_str (ui_name v) else [])"

definition user_fits :: "mwUserItem \<Rightarrow> bool" where
  "user_fits v \<longleftrightarrow>
     str_fits (ui_id v) \<and> str_fits (ui_community v) \<and> (ui_full v \<longrightarrow> str_fits (ui_name v))"

definition user_res :: "mwUserItem \<Rightarrow> mwUserItem \<Rightarrow> mwUserItem" where
  "user_res old v =
     \<lparr>ui_full = ui_full v, ui_id = str_norm (ui_id v), ui_community = str_norm (ui_community v),
      ui_name = (if ui_full v then str_norm (ui_name v) else ui_name old)\<rparr>"

interpretation user: codec mwUserItem_put mwUserItem_get enc_user user_fits user_res
  by unfold_locales (auto simp: mwUserItem_put_def mwUserItem_get_def enc_user_def
    user_fits_def user_res_def Let_def put_steps feeds_not_error
    intro!: fed_steps dry_steps wf_steps stuck_steps)

text \<open>
  The users are written from the last to the first, and read into the array the same way.
  \<open>pi_count\<close> is the length of the array \<open>pi_users\<close>.
\<close>

record mwPrivacyInfo =
  pi_deny :: bool
  pi_count :: u32
  pi_users :: "mwUserItem list"

fun put_users :: "putbuf \<Rightarrow> mwUserItem list \<Rightarrow> nat \<Rightarrow> putbuf" where
  "put_users b users 0 = b"
| "put_users b users (Suc c) = put_users (mwUserItem_put b (users ! c)) users c"

definition mwPrivacyInfo_put :: "putbuf \<Rightarrow> mwPrivacyInfo \<Rightarrow> putbuf" where
  "mwPrivacyInfo_put b info =
     (let b = gboolean_put b (pi_deny info);
          b = guint32_put b (pi_count info) in
      put_users b (pi_users info) (unat (pi_count info)))"

fun get_users :: "getbuf \<Rightarrow> mwUserItem list \<Rightarrow> nat \<Rightarrow> mwUserItem list \<times> getbuf" where
  "get_users b users 0 = (users, b)"
| "get_users b users (Suc c) =
     (let (u, b) = mwUserItem_get b (users ! c) in get_users b (users[c := u]) c)"

definition mwPrivacyInfo_get :: "getbuf \<Rightarrow> mwPrivacyInfo \<Rightarrow> mwPrivacyInfo \<times> getbuf" where
  "mwPrivacyInfo_get b info =
     (if gb_error b then (info, b)
      else
        let (d, b) = gboolean_get b (pi_deny info);
            (c, b) = guint32_get b (pi_count info);
            info = info\<lparr>pi_deny := d, pi_count := c\<rparr> in
        if c \<noteq> 0 then
          (let (us, b) = get_users b (replicate (unat c) mwUserItem_zero) (unat c) in
           (info\<lparr>pi_users := us\<rparr>, b))
        else (info, b))"

definition mwPrivacyInfo_clone :: "mwPrivacyInfo \<Rightarrow> mwPrivacyInfo" where
  "mwPrivacyInfo_clone from1 =
     \<lparr>pi_deny = pi_deny from1, pi_count = pi_count from1,
      pi_users = map (\<lambda>c. mwUserItem_clone (pi_users from1 ! c)) [0..<unat (pi_count from1)]\<rparr>"

text \<open>The users are cleared from the last to the first, then their array is freed.\<close>

fun clear_users :: "mwUserItem list \<Rightarrow> nat \<Rightarrow> mwUserItem list" where
  "clear_users u 0 = u"
| "clear_users u (Suc c) = clear_users (u[c := mwUserItem_clear (u ! c)]) c"

definition free_users :: "mwUserItem list \<Rightarrow> mwUserItem list" where
  "free_users u = []"

definition mwPrivacyInfo_clear :: "mwPrivacyInfo \<Rightarrow> mwPrivacyInfo" where
  "mwPrivacyInfo_clear info =
     (let u = clear_users (pi_users info) (unat (pi_count info)) in
      info\<lparr>pi_count := 0, pi_users := free_users u\<rparr>)"

definition enc_users :: "mwUserItem list \<Rightarrow> bytes" where
  "enc_users us = concat (map enc_user (rev us))"

definition enc_privacy :: "mwPrivacyInfo \<Rightarrow> bytes" where
  "enc_privacy v = enc_bool (pi_deny v) @ be32 (pi_count v) @ enc_users (pi_users v)"

definition privacy_fits :: "mwPrivacyInfo \<Rightarrow> bool" where
  "privacy_fits v \<longleftrightarrow> length (pi_users v) = unat (pi_count v) \<and> list_all user_fits (pi_users v)"

definition privacy_res :: "mwPrivacyInfo \<Rightarrow> mwPrivacyInfo \<Rightarrow> mwPrivacyInfo" where
  "privacy_res old v =
     \<lparr>pi_deny = pi_deny v, pi_count = pi_count v,
      pi_users = (if pi_count v = 0 then pi_users old
                  else map (user_res mwUserItem_zero) (pi_users v))\<rparr>"

lemma put_users:
  assumes "pb_wf b" and "list_all user_fits us" and "c \<le> length us"
  shows "pb_wf (put_users b us c) \<and>
    mwPutBuffer_finalize (put_users b us c) = mwPutBuffer_finalize b @ enc_users (take c us)"
  using assms
proof (induction c arbitrary: b)
  case 0
  then show ?case by (simp add: enc_users_def)
next
  case (Suc c)
  have "user_fits (us ! c)" using Suc.prems by (simp add: list_all_length)
  then show ?case
    using Suc.IH [OF user.put_wf [OF Suc.prems(1), of "us ! c"]] Suc.prems user.put_out
    by (simp add: enc_users_def take_Suc_conv_app_nth)
qed

lemma get_users_fed:
  assumes "feeds g (enc_users (take c us) @ e) rest" and "list_all user_fits us"
    and "c \<le> length us" and "length acc = length us" and "\<forall>i<c. acc ! i = mwUserItem_zero"
  shows "gives e rest (map (user_res mwUserItem_zero) (take c us) @ drop c acc) (get_users g acc c)"
  using assms
proof (induction c arbitrary: g acc)
  case 0
  then show ?case by (simp add: enc_users_def)
next
  case (Suc c)
  let ?u = "user_res mwUserItem_zero (us ! c)"
  have eq: "map (user_res mwUserItem_zero) (take (Suc c) us) @ drop (Suc c) acc =
      map (user_res mwUserItem_zero) (take c us) @ drop c (acc[c := ?u])"
  proof -
    have "drop c (acc[c := ?u]) = ?u # drop (Suc c) acc"
      using Suc.prems by (simp add: Cons_nth_drop_Suc [symmetric])
    then show ?thesis using Suc.prems by (simp add: take_Suc_conv_app_nth)
  qed
  have f: "feeds g (enc_user (us ! c) @ enc_users (take c us) @ e) rest"
    using Suc.prems by (simp add: enc_users_def take_Suc_conv_app_nth)
  have ok: "user_fits (us ! c)" using Suc.prems by (simp add: list_all_length)
  show ?case
    unfolding eq get_users.simps Let_def
    by (rule user.fed_step [OF f ok]) (use Suc.prems in \<open>auto intro!: Suc.IH\<close>)
qed

lemma get_users_fails [stuck_steps]:
  "gb_error g \<Longrightarrow> gb_wf g \<Longrightarrow> fails (get_users g acc c)"
  by (induction c arbitrary: acc) (auto intro!: stuck_steps)

lemma get_users_wf [wf_steps]: "gb_wf g \<Longrightarrow> stays_wf (get_users g acc c)"
  by (induction c arbitrary: g acc) (auto intro!: wf_steps)

lemma get_users_dries:
  assumes "starved g (enc_users (take c us) @ e)" and "list_all user_fits us" and "c \<le> length us"
  shows "dries e (get_users g acc c)"
  using assms
proof (induction c arbitrary: g acc)
  case 0
  then show ?case by (simp add: enc_users_def)
next
  case (Suc c)
  have f: "starved g (enc_user (us ! c) @ enc_users (take c us) @ e)"
    using Suc.prems by (simp add: enc_users_def take_Suc_conv_app_nth)
  have ok: "user_fits (us ! c)" using Suc.prems by (simp add: list_all_length)
  show ?case
    unfolding get_users.simps Let_def
    by (rule user.starved_step [OF f ok])
      (use Suc.prems in \<open>auto intro!: Suc.IH get_users_fails\<close>)
qed

lemma get_users_fed_step [fed_steps]:
  assumes "feeds g (enc_users us @ e) rest" and "list_all user_fits us" and "length us = unat c"
    and "\<And>g'. feeds g' e rest \<Longrightarrow> gives e' rest' x (f (map (user_res mwUserItem_zero) us) g')"
  shows "gives e' rest' x
    (case get_users g (replicate (unat c) mwUserItem_zero) (unat c) of (w, g') \<Rightarrow> f w g')"
  using get_users_fed [of g "length us" us e rest "replicate (unat c) mwUserItem_zero"] assms
  by (auto simp: gives_def split: prod.split)

lemma get_users_dry_step [dry_steps]:
  assumes "starved g (enc_users us @ e)" and "list_all user_fits us" and "length us = unat c"
    and "\<And>w g'. starved g' e \<Longrightarrow> dries e' (f w g')"
  shows "dries e'
    (case get_users g (replicate (unat c) mwUserItem_zero) (unat c) of (w, g') \<Rightarrow> f w g')"
  using get_users_dries [of g "length us" us e "replicate (unat c) mwUserItem_zero"] assms
  by (auto simp: dries_def split: prod.split)

lemma get_users_steps [stuck_steps, wf_steps]:
  "gb_error g \<Longrightarrow> gb_wf g \<Longrightarrow> (\<And>w g'. gb_error g' \<Longrightarrow> gb_wf g' \<Longrightarrow> fails (f w g')) \<Longrightarrow>
   fails (case get_users g acc c of (w, g') \<Rightarrow> f w g')"
  "gb_wf g \<Longrightarrow> (\<And>w g'. gb_wf g' \<Longrightarrow> stays_wf (f w g')) \<Longrightarrow>
   stays_wf (case get_users g acc c of (w, g') \<Rightarrow> f w g')"
  using get_users_fails [of g acc c] get_users_wf [of g acc c]
  by (auto simp: fails_def stays_wf_def split: prod.split)

lemma enc_users_Nil [simp]: "enc_users [] = []"
  by (simp add: enc_users_def)

interpretation privacy: codec mwPrivacyInfo_put mwPrivacyInfo_get enc_privacy privacy_fits privacy_res
proof
  fix b :: putbuf and v
  assume a: "pb_wf b" "privacy_fits v"
  let ?b = "guint32_put (gboolean_put b (pi_deny v)) (pi_count v)"
  have "pb_wf ?b" using a by (simp add: put_steps)
  from put_users [OF this, of "pi_users v" "unat (pi_count v)"] a
  show "pb_wf (mwPrivacyInfo_put b v)"
    "mwPutBuffer_finalize (mwPrivacyInfo_put b v) = mwPutBuffer_finalize b @ enc_privacy v"
    by (auto simp: mwPrivacyInfo_put_def privacy_fits_def enc_privacy_def Let_def put_steps)
qed (auto simp: mwPrivacyInfo_get_def enc_privacy_def privacy_fits_def privacy_res_def Let_def
    feeds_not_error intro!: fed_steps dry_steps wf_steps stuck_steps)

section \<open>User status\<close>

record mwUserStatus =
  us_status :: u16
  us_time :: u32
  us_desc :: mwstring

definition mwUserStatus_zero :: mwUserStatus where
  "mwUserStatus_zero = \<lparr>us_status = 0, us_time = 0, us_desc = None\<rparr>"

definition mwUserStatus_put :: "putbuf \<Rightarrow> mwUserStatus \<Rightarrow> putbuf" where
  "mwUserStatus_put b stat =
     (let b = guint16_put b (us_status stat);
          b = guint32_put b (us_time stat) in
      mwString_put b (us_desc stat))"

text \<open>The time that was sent is read and then dropped: \<open>stat->time = 0\<close>.\<close>

definition mwUserStatus_get :: "getbuf \<Rightarrow> mwUserStatus \<Rightarrow> mwUserStatus \<times> getbuf" where
  "mwUserStatus_get b stat =
     (if gb_error b then (stat, b)
      else
        let (st, b) = guint16_get b (us_status stat);
            (ti, b) = guint32_get b (us_time stat);
            (de, b) = mwString_get b (us_desc stat);
            stat = stat\<lparr>us_status := st, us_time := ti, us_desc := de\<rparr> in
        (stat\<lparr>us_time := 0\<rparr>, b))"

definition mwUserStatus_clear :: "mwUserStatus \<Rightarrow> mwUserStatus" where
  "mwUserStatus_clear stat = mwUserStatus_zero"

definition mwUserStatus_clone :: "mwUserStatus \<Rightarrow> mwUserStatus" where
  "mwUserStatus_clone from1 =
     \<lparr>us_status = us_status from1, us_time = us_time from1, us_desc = g_strdup (us_desc from1)\<rparr>"

definition enc_status :: "mwUserStatus \<Rightarrow> bytes" where
  "enc_status v = be16 (us_status v) @ be32 (us_time v) @ enc_str (us_desc v)"

definition status_fits :: "mwUserStatus \<Rightarrow> bool" where
  "status_fits v \<longleftrightarrow> str_fits (us_desc v)"

definition status_res :: "mwUserStatus \<Rightarrow> mwUserStatus \<Rightarrow> mwUserStatus" where
  "status_res old v = \<lparr>us_status = us_status v, us_time = 0, us_desc = str_norm (us_desc v)\<rparr>"

interpretation status: codec mwUserStatus_put mwUserStatus_get enc_status status_fits status_res
  by unfold_locales (auto simp: mwUserStatus_put_def mwUserStatus_get_def enc_status_def
    status_fits_def status_res_def Let_def put_steps feeds_not_error
    intro!: fed_steps dry_steps wf_steps stuck_steps)

section \<open>Id blocks\<close>

record mwIdBlock =
  id_user :: mwstring
  id_community :: mwstring

definition mwIdBlock_put :: "putbuf \<Rightarrow> mwIdBlock \<Rightarrow> putbuf" where
  "mwIdBlock_put b id1 = (let b = mwString_put b (id_user id1) in mwString_put b (id_community id1))"

definition mwIdBlock_get :: "getbuf \<Rightarrow> mwIdBlock \<Rightarrow> mwIdBlock \<times> getbuf" where
  "mwIdBlock_get b id1 =
     (if gb_error b then (id1, b)
      else
        let (s1, b) = mwString_get b (id_user id1);
            (s2, b) = mwString_get b (id_community id1) in
        (id1\<lparr>id_user := s1, id_community := s2\<rparr>, b))"

definition mwIdBlock_clear :: "mwIdBlock \<Rightarrow> mwIdBlock" where
  "mwIdBlock_clear id1 = id1\<lparr>id_user := None, id_community := None\<rparr>"

definition mwIdBlock_clone :: "mwIdBlock \<Rightarrow> mwIdBlock" where
  "mwIdBlock_clone from1 =
     \<lparr>id_user = g_strdup (id_user from1), id_community = g_strdup (id_community from1)\<rparr>"

definition mwIdBlock_equal :: "mwIdBlock \<Rightarrow> mwIdBlock \<Rightarrow> bool" where
  "mwIdBlock_equal a b \<longleftrightarrow>
     mw_streq (id_user a) (id_user b) \<and> mw_streq (id_community a) (id_community b)"

definition enc_id :: "mwIdBlock \<Rightarrow> bytes" where
  "enc_id v = enc_str (id_user v) @ enc_str (id_community v)"

definition id_fits :: "mwIdBlock \<Rightarrow> bool" where
  "id_fits v \<longleftrightarrow> str_fits (id_user v) \<and> str_fits (id_community v)"

definition id_res :: "mwIdBlock \<Rightarrow> mwIdBlock \<Rightarrow> mwIdBlock" where
  "id_res old v = \<lparr>id_user = str_norm (id_user v), id_community = str_norm (id_community v)\<rparr>"

interpretation idb: codec mwIdBlock_put mwIdBlock_get enc_id id_fits id_res
  by unfold_locales (auto simp: mwIdBlock_put_def mwIdBlock_get_def enc_id_def
    id_fits_def id_res_def Let_def put_steps feeds_not_error
    intro!: fed_steps dry_steps wf_steps stuck_steps)

section \<open>Encryption items\<close>

record mwEncryptItem =
  ei_id :: u16
  ei_info :: bytes

definition mwEncryptItem_put :: "putbuf \<Rightarrow> mwEncryptItem \<Rightarrow> putbuf" where
  "mwEncryptItem_put b ei = (let b = guint16_put b (ei_id ei) in mwOpaque_put b (Some (ei_info ei)))"

definition mwEncryptItem_get :: "getbuf \<Rightarrow> mwEncryptItem \<Rightarrow> mwEncryptItem \<times> getbuf" where
  "mwEncryptItem_get b ei =
     (if gb_error b then (ei, b)
      else
        let (i, b) = guint16_get b (ei_id ei);
            (inf, b) = mwOpaque_get b (ei_info ei) in
        (ei\<lparr>ei_id := i, ei_info := inf\<rparr>, b))"

definition mwEncryptItem_clear :: "mwEncryptItem \<Rightarrow> mwEncryptItem" where
  "mwEncryptItem_clear ei = ei\<lparr>ei_id := 0, ei_info := mwOpaque_clear (ei_info ei)\<rparr>"

definition enc_item :: "mwEncryptItem \<Rightarrow> bytes" where
  "enc_item v = be16 (ei_id v) @ enc_opaque (ei_info v)"

definition item_fits :: "mwEncryptItem \<Rightarrow> bool" where
  "item_fits v \<longleftrightarrow> opaque_fits (ei_info v)"

definition item_res :: "mwEncryptItem \<Rightarrow> mwEncryptItem \<Rightarrow> mwEncryptItem" where
  "item_res old v = v"

interpretation item: codec mwEncryptItem_put mwEncryptItem_get enc_item item_fits item_res
  by unfold_locales (auto simp: mwEncryptItem_put_def mwEncryptItem_get_def enc_item_def
    item_fits_def item_res_def Let_def put_steps feeds_not_error
    intro!: fed_steps dry_steps wf_steps stuck_steps)

section \<open>Awareness ids and snapshots\<close>

record mwAwareIdBlock =
  ai_type :: u16
  ai_user :: mwstring
  ai_community :: mwstring

definition mwAwareIdBlock_zero :: mwAwareIdBlock where
  "mwAwareIdBlock_zero = \<lparr>ai_type = 0, ai_user = None, ai_community = None\<rparr>"

definition mwAwareIdBlock_put :: "putbuf \<Rightarrow> mwAwareIdBlock \<Rightarrow> putbuf" where
  "mwAwareIdBlock_put b idb =
     (let b = guint16_put b (ai_type idb);
          b = mwString_put b (ai_user idb) in
      mwString_put b (ai_community idb))"

definition mwAwareIdBlock_get :: "getbuf \<Rightarrow> mwAwareIdBlock \<Rightarrow> mwAwareIdBlock \<times> getbuf" where
  "mwAwareIdBlock_get b idb =
     (if gb_error b then (idb, b)
      else
        let (t, b) = guint16_get b (ai_type idb);
            (s1, b) = mwString_get b (ai_user idb);
            (s2, b) = mwString_get b (ai_community idb) in
        (idb\<lparr>ai_type := t, ai_user := s1, ai_community := s2\<rparr>, b))"

definition mwAwareIdBlock_clone :: "mwAwareIdBlock \<Rightarrow> mwAwareIdBlock" where
  "mwAwareIdBlock_clone from1 =
     \<lparr>ai_type = ai_type from1, ai_user = g_strdup (ai_user from1),
      ai_community = g_strdup (ai_community from1)\<rparr>"

definition mwAwareIdBlock_clear :: "mwAwareIdBlock \<Rightarrow> mwAwareIdBlock" where
  "mwAwareIdBlock_clear idb = mwAwareIdBlock_zero"

definition mwAwareIdBlock_equal :: "mwAwareIdBlock \<Rightarrow> mwAwareIdBlock \<Rightarrow> bool" where
  "mwAwareIdBlock_equal a b \<longleftrightarrow>
     ai_type a = ai_type b \<and> mw_streq (ai_user a) (ai_user b) \<and>
     mw_streq (ai_community a) (ai_community b)"

definition enc_aware :: "mwAwareIdBlock \<Rightarrow> bytes" where
  "enc_aware v = be16 (ai_type v) @ enc_str (ai_user v) @ enc_str (ai_community v)"

definition aware_fits :: "mwAwareIdBlock \<Rightarrow> bool" where
  "aware_fits v \<longleftrightarrow> str_fits (ai_user v) \<and> str_fits (ai_community v)"

definition aware_res :: "mwAwareIdBlock \<Rightarrow> mwAwareIdBlock \<Rightarrow> mwAwareIdBlock" where
  "aware_res old v =
     \<lparr>ai_type = ai_type v, ai_user = str_norm (ai_user v), ai_community = str_norm (ai_community v)\<rparr>"

interpretation aware: codec mwAwareIdBlock_put mwAwareIdBlock_get enc_aware aware_fits aware_res
  by unfold_locales (auto simp: mwAwareIdBlock_put_def mwAwareIdBlock_get_def enc_aware_def
    aware_fits_def aware_res_def Let_def put_steps feeds_not_error
    intro!: fed_steps dry_steps wf_steps stuck_steps)

record mwAwareSnapshot =
  sn_id :: mwAwareIdBlock
  sn_group :: mwstring
  sn_online :: bool
  sn_alt_id :: mwstring
  sn_status :: mwUserStatus
  sn_name :: mwstring

definition mwAwareSnapshot_zero :: mwAwareSnapshot where
  "mwAwareSnapshot_zero = \<lparr>sn_id = mwAwareIdBlock_zero, sn_group = None, sn_online = False,
     sn_alt_id = None, sn_status = mwUserStatus_zero, sn_name = None\<rparr>"

text \<open>
  \<open>end0\<close> is what the uninitialised local \<open>end_of_block\<close> holds.  The end of the block is an
  offset from the head of the buffer; what is left of the block before it is skipped.
\<close>

definition mwAwareSnapshot_get ::
    "u32 \<Rightarrow> getbuf \<Rightarrow> mwAwareSnapshot \<Rightarrow> mwAwareSnapshot \<times> getbuf" where
  "mwAwareSnapshot_get end0 b idb =
     (let (end_of_block, b) = guint32_get b end0;
          (i, b) = mwAwareIdBlock_get b (sn_id idb);
          (gr, b) = mwString_get b (sn_group idb);
          (onl, b) = gboolean_get b (sn_online idb);
          idb = idb\<lparr>sn_id := i, sn_group := gr, sn_online := onl\<rparr>;
          (idb, b) =
            (if onl then
               (let (alt, b) = mwString_get b (sn_alt_id idb);
                    (st, b) = mwUserStatus_get b (sn_status idb);
                    (nm, b) = mwString_get b (sn_name idb) in
                (idb\<lparr>sn_alt_id := alt, sn_status := st, sn_name := nm\<rparr>, b))
             else (idb, b)) in
      if gb_ptr b < unat end_of_block
      then (idb, snd (mwGetBuffer_advance b (unat end_of_block - gb_ptr b)))
      else (idb, b))"

definition mwAwareSnapshot_clone :: "mwAwareSnapshot \<Rightarrow> mwAwareSnapshot \<Rightarrow> mwAwareSnapshot" where
  "mwAwareSnapshot_clone to from1 =
     (let to = to\<lparr>sn_id := mwAwareIdBlock_clone (sn_id from1), sn_online := sn_online from1\<rparr> in
      if sn_online from1
      then to\<lparr>sn_alt_id := g_strdup (sn_alt_id from1),
              sn_status := mwUserStatus_clone (sn_status from1),
              sn_name := g_strdup (sn_name from1), sn_group := g_strdup (sn_group from1)\<rparr>
      else to)"

definition mwAwareSnapshot_clear :: "mwAwareSnapshot \<Rightarrow> mwAwareSnapshot" where
  "mwAwareSnapshot_clear idb = mwAwareSnapshot_zero"

text \<open>Whatever the bytes are, the read stays in the block and leaves a well-formed reader.\<close>

lemma case_of_case:
  "(case (case x of (a, b) \<Rightarrow> f a b) of (c, d) \<Rightarrow> h c d) = (case x of (a, b) \<Rightarrow> case f a b of (c, d) \<Rightarrow> h c d)"
  by (simp split: prod.split)

lemma mwAwareSnapshot_get_wf: "gb_wf g \<Longrightarrow> stays_wf (mwAwareSnapshot_get end0 g old)"
  by (auto simp: mwAwareSnapshot_get_def Let_def case_of_case gb_wf_advance intro!: wf_steps)

lemma mwAwareSnapshot_get_stuck: "gb_error g \<Longrightarrow> stays g (mwAwareSnapshot_get end0 g old)"
  by (auto simp: mwAwareSnapshot_get_def Let_def case_of_case mwGetBuffer_advance_def
      intro!: stuck_steps)

section \<open>Comparing and cloning\<close>

lemma c_str_idem [simp]: "c_str (c_str s) = c_str s"
  by (simp add: c_str_def takeWhile_idem)

lemma mw_streq_iff: "mw_streq a b \<longleftrightarrow> g_strdup a = g_strdup b"
  by (auto simp: mw_streq_def g_strdup_def split: option.splits)

lemma g_strdup_idem [simp]: "g_strdup (g_strdup s) = g_strdup s"
  by (cases s) (simp_all add: g_strdup_def)

lemma mwIdBlock_equal_iff: "mwIdBlock_equal a b \<longleftrightarrow> mwIdBlock_clone a = mwIdBlock_clone b"
  by (auto simp: mwIdBlock_equal_def mwIdBlock_clone_def mw_streq_iff)

lemma mwAwareIdBlock_equal_iff:
  "mwAwareIdBlock_equal a b \<longleftrightarrow> mwAwareIdBlock_clone a = mwAwareIdBlock_clone b"
  by (auto simp: mwAwareIdBlock_equal_def mwAwareIdBlock_clone_def mw_streq_iff)

lemma str_chars_strdup [simp]: "str_chars (g_strdup s) = str_chars s"
  by (cases s) (simp_all add: str_chars_def g_strdup_def)

lemma enc_str_strdup [simp]: "enc_str (g_strdup s) = enc_str s"
  by (simp add: enc_str_def)

lemma str_norm_strdup [simp]: "str_norm (g_strdup s) = str_norm s"
  by (simp add: str_norm_def)

lemma str_fits_strdup [simp]: "str_fits (g_strdup s) = str_fits s"
  by (simp add: str_fits_def)

text \<open>A clone is written as the same bytes.\<close>

lemma enc_clone:
  "enc_login (mwLoginInfo_clone to v) = enc_login v"
  "enc_user (mwUserItem_clone u) = enc_user u"
  "enc_status (mwUserStatus_clone st) = enc_status st"
  "enc_id (mwIdBlock_clone i) = enc_id i"
  "enc_aware (mwAwareIdBlock_clone a) = enc_aware a"
  by (simp_all add: enc_login_def mwLoginInfo_clone_def enc_user_def mwUserItem_clone_def
      enc_status_def mwUserStatus_clone_def enc_id_def mwIdBlock_clone_def enc_aware_def
      mwAwareIdBlock_clone_def Let_def)

lemma enc_privacy_clone:
  assumes "length (pi_users v) = unat (pi_count v)"
  shows "enc_privacy (mwPrivacyInfo_clone v) = enc_privacy v"
proof -
  have "map (\<lambda>c. mwUserItem_clone (pi_users v ! c)) [0..<unat (pi_count v)] =
      map mwUserItem_clone (pi_users v)"
    using assms by (intro nth_equalityI) auto
  then show ?thesis
    by (simp add: enc_privacy_def mwPrivacyInfo_clone_def enc_users_def rev_map comp_def enc_clone)
qed

end
