(* ===== verification/MwMessage.thy ===== *)
theory MwMessage imports MwTypes begin

text \<open>
  The messages of the Sametime protocol (\<open>message.c\<close>, \<open>mw_message.h\<close>): the header, the
  bodies of the fifteen types, and the functions that write, read and free a whole message.

  A body is a value of the datatype \<open>mwBody\<close>, whose constructor stands for the structure the
  code casts the message to.  The argument \<open>junk\<close> is what an uninitialised local variable
  holds; the code reads one only on a buffer in error, except in \<open>ANNOUNCE_get\<close>.
\<close>

section \<open>The message header\<close>

record mwMessageHead =
  mh_type :: u16
  mh_options :: u16
  mh_channel :: u32
  mh_attribs :: bytes

definition mwMessageOption_ENCRYPT :: u16 where "mwMessageOption_ENCRYPT = 0x4000"
definition mwMessageOption_HAS_ATTRIBS :: u16 where "mwMessageOption_HAS_ATTRIBS = 0x8000"

definition has_attribs :: "u16 \<Rightarrow> bool" where
  "has_attribs options \<longleftrightarrow> options AND mwMessageOption_HAS_ATTRIBS \<noteq> 0"

definition mwMessageHead_put :: "putbuf \<Rightarrow> mwMessageHead \<Rightarrow> putbuf" where
  "mwMessageHead_put b msg =
     (let b = guint16_put b (mh_type msg);
          b = guint16_put b (mh_options msg);
          b = guint32_put b (mh_channel msg) in
      if has_attribs (mh_options msg) then mwOpaque_put b (Some (mh_attribs msg)) else b)"

definition mwMessageHead_get :: "getbuf \<Rightarrow> mwMessageHead \<Rightarrow> mwMessageHead \<times> getbuf" where
  "mwMessageHead_get b msg =
     (if gb_error b then (msg, b)
      else
        let (t, b) = guint16_get b (mh_type msg);
            (opt, b) = guint16_get b (mh_options msg);
            (ch, b) = guint32_get b (mh_channel msg);
            msg = msg\<lparr>mh_type := t, mh_options := opt, mh_channel := ch\<rparr> in
        if has_attribs opt
        then (let (a, b) = mwOpaque_get b (mh_attribs msg) in (msg\<lparr>mh_attribs := a\<rparr>, b))
        else (msg, b))"

definition mwMessageHead_clone :: "mwMessageHead \<Rightarrow> mwMessageHead" where
  "mwMessageHead_clone from1 =
     \<lparr>mh_type = mh_type from1, mh_options = mh_options from1, mh_channel = mh_channel from1,
      mh_attribs = mwOpaque_clone (Some (mh_attribs from1))\<rparr>"

definition mwMessageHead_clear :: "mwMessageHead \<Rightarrow> mwMessageHead" where
  "mwMessageHead_clear msg = msg\<lparr>mh_attribs := mwOpaque_clear (mh_attribs msg)\<rparr>"

definition enc_head :: "mwMessageHead \<Rightarrow> bytes" where
  "enc_head v = be16 (mh_type v) @ be16 (mh_options v) @ be32 (mh_channel v) @
     (if has_attribs (mh_options v) then enc_opaque (mh_attribs v) else [])"

definition head_fits :: "mwMessageHead \<Rightarrow> bool" where
  "head_fits v \<longleftrightarrow> opaque_fits (mh_attribs v)"

definition head_res :: "mwMessageHead \<Rightarrow> mwMessageHead \<Rightarrow> mwMessageHead" where
  "head_res old v =
     v\<lparr>mh_attribs := (if has_attribs (mh_options v) then mh_attribs v else mh_attribs old)\<rparr>"

interpretation head: codec mwMessageHead_put mwMessageHead_get enc_head head_fits head_res
  by unfold_locales (auto simp: mwMessageHead_put_def mwMessageHead_get_def enc_head_def
    head_fits_def head_res_def Let_def put_steps feeds_not_error
    intro!: fed_steps dry_steps wf_steps stuck_steps)

section \<open>Handshake\<close>

text \<open>The handshake carries the channel of its header, so its functions take it as well.\<close>

record mwMsgHandshake =
  hs_major :: u16
  hs_minor :: u16
  hs_srvrcalc_addr :: u32
  hs_login_type :: u16
  hs_loclcalc_addr :: u32
  hs_unknown_a :: u16
  hs_unknown_b :: u32
  hs_local_host :: mwstring

definition hs_zero :: mwMsgHandshake where
  "hs_zero = \<lparr>hs_major = 0, hs_minor = 0, hs_srvrcalc_addr = 0, hs_login_type = 0,
     hs_loclcalc_addr = 0, hs_unknown_a = 0, hs_unknown_b = 0, hs_local_host = None\<rparr>"

definition HANDSHAKE_put :: "putbuf \<Rightarrow> u32 \<times> mwMsgHandshake \<Rightarrow> putbuf" where
  "HANDSHAKE_put b cm =
     (let channel = fst cm; msg = snd cm;
          b = guint16_put b (hs_major msg);
          b = guint16_put b (hs_minor msg);
          b = guint32_put b channel;
          b = guint32_put b (hs_srvrcalc_addr msg);
          b = guint16_put b (hs_login_type msg);
          b = guint32_put b (hs_loclcalc_addr msg) in
      if hs_major msg \<ge> 0x1e \<and> hs_minor msg \<ge> 0x1d
      then (let b = guint16_put b (hs_unknown_a msg);
                b = guint32_put b (hs_unknown_b msg) in
            mwString_put b (hs_local_host msg))
      else b)"

definition HANDSHAKE_get :: "getbuf \<Rightarrow> u32 \<times> mwMsgHandshake \<Rightarrow> (u32 \<times> mwMsgHandshake) \<times> getbuf" where
  "HANDSHAKE_get b cm =
     (if gb_error b then (cm, b)
      else
        let channel = fst cm; msg = snd cm;
            (ma, b) = guint16_get b (hs_major msg);
            (mi, b) = guint16_get b (hs_minor msg);
            (ch, b) = guint32_get b channel;
            (sa, b) = guint32_get b (hs_srvrcalc_addr msg);
            (lt, b) = guint16_get b (hs_login_type msg);
            (la, b) = guint32_get b (hs_loclcalc_addr msg);
            msg = msg\<lparr>hs_major := ma, hs_minor := mi, hs_srvrcalc_addr := sa,
                      hs_login_type := lt, hs_loclcalc_addr := la\<rparr> in
        if ma \<ge> 0x1e \<and> mi \<ge> 0x1d
        then (let (ua, b) = guint16_get b (hs_unknown_a msg);
                  (ub, b) = guint32_get b (hs_unknown_b msg);
                  (lh, b) = mwString_get b (hs_local_host msg) in
              ((ch, msg\<lparr>hs_unknown_a := ua, hs_unknown_b := ub, hs_local_host := lh\<rparr>), b))
        else ((ch, msg), b))"

definition HANDSHAKE_clear :: "mwMsgHandshake \<Rightarrow> mwMsgHandshake" where
  "HANDSHAKE_clear msg = msg"

definition hs_more :: "mwMsgHandshake \<Rightarrow> bool" where
  "hs_more v \<longleftrightarrow> hs_major v \<ge> 0x1e \<and> hs_minor v \<ge> 0x1d"

definition enc_handshake :: "u32 \<times> mwMsgHandshake \<Rightarrow> bytes" where
  "enc_handshake cv =
     (let c = fst cv; v = snd cv in
      be16 (hs_major v) @ be16 (hs_minor v) @ be32 c @ be32 (hs_srvrcalc_addr v) @
      be16 (hs_login_type v) @ be32 (hs_loclcalc_addr v) @
      (if hs_more v
       then be16 (hs_unknown_a v) @ be32 (hs_unknown_b v) @ enc_str (hs_local_host v) else []))"

definition handshake_fits :: "u32 \<times> mwMsgHandshake \<Rightarrow> bool" where
  "handshake_fits cv \<longleftrightarrow> str_fits (hs_local_host (snd cv))"

definition handshake_res ::
    "u32 \<times> mwMsgHandshake \<Rightarrow> u32 \<times> mwMsgHandshake \<Rightarrow> u32 \<times> mwMsgHandshake" where
  "handshake_res old cv =
     (let c = fst cv; v = snd cv in
      (c, if hs_more v then v\<lparr>hs_local_host := str_norm (hs_local_host v)\<rparr>
          else v\<lparr>hs_unknown_a := hs_unknown_a (snd old), hs_unknown_b := hs_unknown_b (snd old),
                 hs_local_host := hs_local_host (snd old)\<rparr>))"

interpretation handshake: codec HANDSHAKE_put HANDSHAKE_get enc_handshake handshake_fits handshake_res
  by unfold_locales (auto simp: HANDSHAKE_put_def HANDSHAKE_get_def enc_handshake_def hs_more_def
    handshake_fits_def handshake_res_def Let_def put_steps feeds_not_error
    intro!: fed_steps dry_steps wf_steps stuck_steps)

record mwMsgHandshakeAck =
  ha_major :: u16
  ha_minor :: u16
  ha_srvrcalc_addr :: u32
  ha_magic :: u32
  ha_data :: bytes

definition ha_zero :: mwMsgHandshakeAck where
  "ha_zero = \<lparr>ha_major = 0, ha_minor = 0, ha_srvrcalc_addr = 0, ha_magic = 0, ha_data = []\<rparr>"

definition HANDSHAKE_ACK_get :: "getbuf \<Rightarrow> mwMsgHandshakeAck \<Rightarrow> mwMsgHandshakeAck \<times> getbuf" where
  "HANDSHAKE_ACK_get b msg =
     (if gb_error b then (msg, b)
      else
        let (ma, b) = guint16_get b (ha_major msg);
            (mi, b) = guint16_get b (ha_minor msg);
            (sa, b) = guint32_get b (ha_srvrcalc_addr msg);
            msg = msg\<lparr>ha_major := ma, ha_minor := mi, ha_srvrcalc_addr := sa\<rparr> in
        if ma \<ge> 0x1e \<and> mi > 0x18
        then (let (mg, b) = guint32_get b (ha_magic msg);
                  (da, b) = mwOpaque_get b (ha_data msg) in
              (msg\<lparr>ha_magic := mg, ha_data := da\<rparr>, b))
        else (msg, b))"

definition HANDSHAKE_ACK_put :: "putbuf \<Rightarrow> mwMsgHandshakeAck \<Rightarrow> putbuf" where
  "HANDSHAKE_ACK_put b msg =
     (let b = guint16_put b (ha_major msg);
          b = guint16_put b (ha_minor msg);
          b = guint32_put b (ha_srvrcalc_addr msg) in
      if ha_major msg \<ge> 0x1e \<and> ha_minor msg > 0x18
      then (let b = guint32_put b (ha_magic msg) in mwOpaque_put b (Some (ha_data msg)))
      else b)"

definition HANDSHAKE_ACK_clear :: "mwMsgHandshakeAck \<Rightarrow> mwMsgHandshakeAck" where
  "HANDSHAKE_ACK_clear msg = msg\<lparr>ha_data := mwOpaque_clear (ha_data msg)\<rparr>"

definition ha_more :: "mwMsgHandshakeAck \<Rightarrow> bool" where
  "ha_more v \<longleftrightarrow> ha_major v \<ge> 0x1e \<and> ha_minor v > 0x18"

definition enc_handshake_ack :: "mwMsgHandshakeAck \<Rightarrow> bytes" where
  "enc_handshake_ack v = be16 (ha_major v) @ be16 (ha_minor v) @ be32 (ha_srvrcalc_addr v) @
     (if ha_more v then be32 (ha_magic v) @ enc_opaque (ha_data v) else [])"

definition handshake_ack_fits :: "mwMsgHandshakeAck \<Rightarrow> bool" where
  "handshake_ack_fits v \<longleftrightarrow> opaque_fits (ha_data v)"

definition handshake_ack_res :: "mwMsgHandshakeAck \<Rightarrow> mwMsgHandshakeAck \<Rightarrow> mwMsgHandshakeAck" where
  "handshake_ack_res old v =
     (if ha_more v then v else v\<lparr>ha_magic := ha_magic old, ha_data := ha_data old\<rparr>)"

interpretation handshake_ack: codec HANDSHAKE_ACK_put HANDSHAKE_ACK_get enc_handshake_ack
    handshake_ack_fits handshake_ack_res
  by unfold_locales (auto simp: HANDSHAKE_ACK_put_def HANDSHAKE_ACK_get_def enc_handshake_ack_def
    ha_more_def handshake_ack_fits_def handshake_ack_res_def Let_def put_steps feeds_not_error
    intro!: fed_steps dry_steps wf_steps stuck_steps)

section \<open>Login\<close>

record mwMsgLogin =
  lg_login_type :: u16
  lg_name :: mwstring
  lg_auth_type :: u16
  lg_auth_data :: bytes

definition lg_zero :: mwMsgLogin where
  "lg_zero = \<lparr>lg_login_type = 0, lg_name = None, lg_auth_type = 0, lg_auth_data = []\<rparr>"

definition LOGIN_put :: "putbuf \<Rightarrow> mwMsgLogin \<Rightarrow> putbuf" where
  "LOGIN_put b msg =
     (let b = guint16_put b (lg_login_type msg);
          b = mwString_put b (lg_name msg);
          b = mwOpaque_put b (Some (lg_auth_data msg));
          b = guint16_put b (lg_auth_type msg) in
      guint16_put b 0)"

definition LOGIN_get :: "getbuf \<Rightarrow> mwMsgLogin \<Rightarrow> mwMsgLogin \<times> getbuf" where
  "LOGIN_get b msg =
     (if gb_error b then (msg, b)
      else
        let (lt, b) = guint16_get b (lg_login_type msg);
            (nm, b) = mwString_get b (lg_name msg);
            (ad, b) = mwOpaque_get b (lg_auth_data msg);
            (au, b) = guint16_get b (lg_auth_type msg) in
        (msg\<lparr>lg_login_type := lt, lg_name := nm, lg_auth_data := ad, lg_auth_type := au\<rparr>, b))"

definition LOGIN_clear :: "mwMsgLogin \<Rightarrow> mwMsgLogin" where
  "LOGIN_clear msg = msg\<lparr>lg_name := None, lg_auth_data := mwOpaque_clear (lg_auth_data msg)\<rparr>"

definition enc_lg :: "mwMsgLogin \<Rightarrow> bytes" where
  "enc_lg v = be16 (lg_login_type v) @ enc_str (lg_name v) @ enc_opaque (lg_auth_data v) @
     be16 (lg_auth_type v)"

definition lg_fits :: "mwMsgLogin \<Rightarrow> bool" where
  "lg_fits v \<longleftrightarrow> str_fits (lg_name v) \<and> opaque_fits (lg_auth_data v)"

definition lg_res :: "mwMsgLogin \<Rightarrow> mwMsgLogin \<Rightarrow> mwMsgLogin" where
  "lg_res old v = v\<lparr>lg_name := str_norm (lg_name v)\<rparr>"

text \<open>The writer adds two bytes, which the reader leaves in the buffer.\<close>

interpretation lg: writer LOGIN_put "\<lambda>v. enc_lg v @ be16 0" lg_fits
  by unfold_locales (auto simp: LOGIN_put_def enc_lg_def lg_fits_def Let_def put_steps)

interpretation lg: reader LOGIN_get enc_lg lg_fits lg_res
  by unfold_locales (auto simp: LOGIN_get_def enc_lg_def
    lg_fits_def lg_res_def Let_def feeds_not_error
    intro!: fed_steps dry_steps wf_steps stuck_steps)

record mwMsgLoginAck =
  la_login :: mwLoginInfo
  la_privacy :: mwPrivacyInfo
  la_status :: mwUserStatus

definition mwPrivacyInfo_zero :: mwPrivacyInfo where
  "mwPrivacyInfo_zero = \<lparr>pi_deny = False, pi_count = 0, pi_users = []\<rparr>"

definition la_zero :: mwMsgLoginAck where
  "la_zero = \<lparr>la_login = mwLoginInfo_zero, la_privacy = mwPrivacyInfo_zero,
     la_status = mwUserStatus_zero\<rparr>"

text \<open>The two bytes read into \<open>junk\<close> are dropped.\<close>

definition LOGIN_ACK_get :: "getbuf \<Rightarrow> mwMsgLoginAck \<Rightarrow> mwMsgLoginAck \<times> getbuf" where
  "LOGIN_ACK_get b msg =
     (if gb_error b then (msg, b)
      else
        let (lo, b) = mwLoginInfo_get b (la_login msg);
            (junk, b) = guint16_get b 0;
            (pr, b) = mwPrivacyInfo_get b (la_privacy msg);
            (st, b) = mwUserStatus_get b (la_status msg) in
        (msg\<lparr>la_login := lo, la_privacy := pr, la_status := st\<rparr>, b))"

definition LOGIN_ACK_clear :: "mwMsgLoginAck \<Rightarrow> mwMsgLoginAck" where
  "LOGIN_ACK_clear msg =
     msg\<lparr>la_login := mwLoginInfo_clear (la_login msg),
         la_privacy := mwPrivacyInfo_clear (la_privacy msg),
         la_status := mwUserStatus_clear (la_status msg)\<rparr>"

text \<open>The code has no writer for it: what a server sends, with \<open>u\<close> in the dropped field.\<close>

definition enc_la :: "u16 \<Rightarrow> mwMsgLoginAck \<Rightarrow> bytes" where
  "enc_la u v = enc_login (la_login v) @ be16 u @ enc_privacy (la_privacy v) @ enc_status (la_status v)"

definition la_fits :: "mwMsgLoginAck \<Rightarrow> bool" where
  "la_fits v \<longleftrightarrow> login_fits (la_login v) \<and> privacy_fits (la_privacy v) \<and> status_fits (la_status v)"

definition la_res :: "mwMsgLoginAck \<Rightarrow> mwMsgLoginAck \<Rightarrow> mwMsgLoginAck" where
  "la_res old v =
     \<lparr>la_login = login_res (la_login old) (la_login v),
      la_privacy = privacy_res (la_privacy old) (la_privacy v),
      la_status = status_res (la_status old) (la_status v)\<rparr>"

interpretation la: reader LOGIN_ACK_get "enc_la u" la_fits la_res
  by unfold_locales (auto simp: LOGIN_ACK_get_def enc_la_def
    la_fits_def la_res_def Let_def feeds_not_error
    intro!: fed_steps dry_steps wf_steps stuck_steps)

text \<open>The login continue message is a header and nothing else.\<close>

definition LOGIN_CONTINUE_put :: "putbuf \<Rightarrow> unit \<Rightarrow> putbuf" where
  "LOGIN_CONTINUE_put b msg = b"

definition LOGIN_CONTINUE_get :: "getbuf \<Rightarrow> unit \<Rightarrow> unit \<times> getbuf" where
  "LOGIN_CONTINUE_get b msg = (msg, b)"

interpretation lc: codec LOGIN_CONTINUE_put LOGIN_CONTINUE_get "\<lambda>v. []" always replaced
  by unfold_locales (auto simp: LOGIN_CONTINUE_put_def LOGIN_CONTINUE_get_def)

record mwMsgLoginRedirect =
  lr_host :: mwstring
  lr_server_id :: mwstring

definition lr_zero :: mwMsgLoginRedirect where
  "lr_zero = \<lparr>lr_host = None, lr_server_id = None\<rparr>"

definition LOGIN_REDIRECT_get :: "getbuf \<Rightarrow> mwMsgLoginRedirect \<Rightarrow> mwMsgLoginRedirect \<times> getbuf" where
  "LOGIN_REDIRECT_get b msg =
     (if gb_error b then (msg, b)
      else
        let (h, b) = mwString_get b (lr_host msg);
            (s, b) = mwString_get b (lr_server_id msg) in
        (msg\<lparr>lr_host := h, lr_server_id := s\<rparr>, b))"

definition LOGIN_REDIRECT_put :: "putbuf \<Rightarrow> mwMsgLoginRedirect \<Rightarrow> putbuf" where
  "LOGIN_REDIRECT_put b msg =
     (let b = mwString_put b (lr_host msg) in mwString_put b (lr_server_id msg))"

definition LOGIN_REDIRECT_clear :: "mwMsgLoginRedirect \<Rightarrow> mwMsgLoginRedirect" where
  "LOGIN_REDIRECT_clear msg = msg\<lparr>lr_host := None, lr_server_id := None\<rparr>"

definition enc_lr :: "mwMsgLoginRedirect \<Rightarrow> bytes" where
  "enc_lr v = enc_str (lr_host v) @ enc_str (lr_server_id v)"

definition lr_fits :: "mwMsgLoginRedirect \<Rightarrow> bool" where
  "lr_fits v \<longleftrightarrow> str_fits (lr_host v) \<and> str_fits (lr_server_id v)"

definition lr_res :: "mwMsgLoginRedirect \<Rightarrow> mwMsgLoginRedirect \<Rightarrow> mwMsgLoginRedirect" where
  "lr_res old v = \<lparr>lr_host = str_norm (lr_host v), lr_server_id = str_norm (lr_server_id v)\<rparr>"

interpretation lr: codec LOGIN_REDIRECT_put LOGIN_REDIRECT_get enc_lr lr_fits lr_res
  by unfold_locales (auto simp: LOGIN_REDIRECT_put_def LOGIN_REDIRECT_get_def enc_lr_def
    lr_fits_def lr_res_def Let_def put_steps feeds_not_error
    intro!: fed_steps dry_steps wf_steps stuck_steps)

section \<open>Channel creation\<close>

record mwEncryptOffer =
  eo_mode :: u16
  eo_items :: "mwEncryptItem list"
  eo_extra :: u16
  eo_flag :: bool

definition eo_zero :: mwEncryptOffer where
  "eo_zero = \<lparr>eo_mode = 0, eo_items = [], eo_extra = 0, eo_flag = False\<rparr>"

fun put_items :: "putbuf \<Rightarrow> mwEncryptItem list \<Rightarrow> putbuf" where
  "put_items p [] = p"
| "put_items p (ei # eis) = put_items (mwEncryptItem_put p ei) eis"

definition enc_offer_put :: "putbuf \<Rightarrow> mwEncryptOffer \<Rightarrow> putbuf" where
  "enc_offer_put b enc =
     (let b = guint16_put b (eo_mode enc) in
      if eo_items enc \<noteq> [] then
        (let count = of_nat (length (eo_items enc));
             p = mwPutBuffer_new;
             p = guint32_put p count;
             p = put_items p (eo_items enc);
             p = guint16_put p (eo_extra enc);
             p = gboolean_put p (eo_flag enc);
             o1 = mwPutBuffer_finalize p in
         mwOpaque_put b (Some o1))
      else b)"

text \<open>\<open>while (count-- && ! mwGetBuffer_error (b))\<close>.\<close>

definition ei_zero :: mwEncryptItem where
  "ei_zero = \<lparr>ei_id = 0, ei_info = []\<rparr>"

fun get_items :: "getbuf \<Rightarrow> mwEncryptItem list \<Rightarrow> nat \<Rightarrow> mwEncryptItem list \<times> getbuf" where
  "get_items b items 0 = (items, b)"
| "get_items b items (Suc count) =
     (if gb_error b then (items, b)
      else let (ei, b) = mwEncryptItem_get b ei_zero in get_items b (items @ [ei]) count)"

definition enc_offer_get :: "u32 \<Rightarrow> getbuf \<Rightarrow> mwEncryptOffer \<Rightarrow> mwEncryptOffer \<times> getbuf" where
  "enc_offer_get junk b enc =
     (if gb_error b then (enc, b)
      else
        let (m, b) = guint16_get b (eo_mode enc);
            (skip, b) = guint32_get b junk;
            enc = enc\<lparr>eo_mode := m\<rparr> in
        if skip \<ge> 7 then
          (let (count, b) = guint32_get b junk;
               (items, b) = get_items b (eo_items enc) (unat count);
               (ex, b) = guint16_get b (eo_extra enc);
               (fl, b) = gboolean_get b (eo_flag enc) in
           (enc\<lparr>eo_items := items, eo_extra := ex, eo_flag := fl\<rparr>, b))
        else (enc, b))"

definition enc_items :: "mwEncryptItem list \<Rightarrow> bytes" where
  "enc_items eis = concat (map enc_item eis)"

definition offer_block :: "mwEncryptOffer \<Rightarrow> bytes" where
  "offer_block v = be32 (of_nat (length (eo_items v))) @ enc_items (eo_items v) @
     be16 (eo_extra v) @ enc_bool (eo_flag v)"

definition offer_fits :: "mwEncryptOffer \<Rightarrow> bool" where
  "offer_fits v \<longleftrightarrow> length (eo_items v) < 2 ^ 32 \<and> list_all item_fits (eo_items v) \<and>
     opaque_fits (offer_block v)"

text \<open>
  With nothing to offer the writer sends the mode alone; the reader takes the next four
  bytes for the size of the block, so it needs them to be zero.
\<close>

definition enc_offer_out :: "mwEncryptOffer \<Rightarrow> bytes" where
  "enc_offer_out v = be16 (eo_mode v) @ (if eo_items v \<noteq> [] then enc_opaque (offer_block v) else [])"

definition enc_offer_in :: "mwEncryptOffer \<Rightarrow> bytes" where
  "enc_offer_in v = be16 (eo_mode v) @
     (if eo_items v \<noteq> [] then be32 (of_nat (length (offer_block v))) @ offer_block v else be32 0)"

definition offer_res :: "mwEncryptOffer \<Rightarrow> mwEncryptOffer \<Rightarrow> mwEncryptOffer" where
  "offer_res old v =
     \<lparr>eo_mode = eo_mode v, eo_items = eo_items old @ eo_items v,
      eo_extra = (if eo_items v \<noteq> [] then eo_extra v else eo_extra old),
      eo_flag = (if eo_items v \<noteq> [] then eo_flag v else eo_flag old)\<rparr>"

lemma put_items_steps [put_steps]:
  "pb_wf p \<Longrightarrow> list_all item_fits eis \<Longrightarrow> pb_wf (put_items p eis)"
  "pb_wf p \<Longrightarrow> list_all item_fits eis \<Longrightarrow>
   mwPutBuffer_finalize (put_items p eis) = mwPutBuffer_finalize p @ enc_items eis"
  by (induction eis arbitrary: p) (simp_all add: put_steps enc_items_def)

lemma get_items_fed:
  "feeds g (enc_items eis @ e) rest \<Longrightarrow> list_all item_fits eis \<Longrightarrow>
   gives e rest (acc @ eis) (get_items g acc (length eis))"
proof (induction eis arbitrary: g acc)
  case (Cons v eis)
  then show ?case
    by (auto simp: enc_items_def Let_def feeds_not_error item_res_def
        intro!: item.fed_step [of g v "enc_items eis @ e"])
       (fastforce simp: enc_items_def dest: Cons.IH [where acc = "acc @ [v]", rotated])
qed (simp add: enc_items_def)

lemma get_items_stuck: "gb_error g \<Longrightarrow> get_items g acc n = (acc, g)"
  by (cases n) simp_all

lemma get_items_wf: "gb_wf g \<Longrightarrow> stays_wf (get_items g acc n)"
  by (induction n arbitrary: g acc) (auto simp: Let_def intro!: item.wf_step)

lemma get_items_dries:
  "starved g (enc_items eis @ e) \<Longrightarrow> list_all item_fits eis \<Longrightarrow>
   dries e (get_items g acc (length eis))"
proof (induction eis arbitrary: g acc)
  case (Cons v eis)
  have "starved g (enc_item v @ enc_items eis @ e)" using Cons.prems by (simp add: enc_items_def)
  then have "dries e (case mwEncryptItem_get g ei_zero of
      (ei, b) \<Rightarrow> get_items b (acc @ [ei]) (length eis))"
    by (rule item.starved_step) (use Cons in \<open>auto simp: get_items_stuck\<close>)
  then show ?case using starved_wf [OF Cons.prems(1)] by (auto simp: Let_def starved_stuck)
qed (simp add: enc_items_def)

lemma get_items_fed_step [fed_steps]:
  assumes "feeds g (enc_items eis @ e) rest" and "list_all item_fits eis" and "n = length eis"
    and "\<And>g'. feeds g' e rest \<Longrightarrow> gives e' rest' x (f (acc @ eis) g')"
  shows "gives e' rest' x (case get_items g acc n of (w, g') \<Rightarrow> f w g')"
  using get_items_fed [of g eis e rest acc] assms by (auto simp: gives_def split: prod.split)

lemma get_items_dry_step [dry_steps]:
  assumes "starved g (enc_items eis @ e)" and "list_all item_fits eis" and "n = length eis"
    and "\<And>w g'. starved g' e \<Longrightarrow> dries e' (f w g')"
  shows "dries e' (case get_items g acc n of (w, g') \<Rightarrow> f w g')"
  using get_items_dries [of g eis e acc] assms by (auto simp: dries_def split: prod.split)

lemma get_items_wf_step [wf_steps]:
  "gb_wf g \<Longrightarrow> (\<And>w g'. gb_wf g' \<Longrightarrow> stays_wf (f w g')) \<Longrightarrow>
   stays_wf (case get_items g acc n of (w, g') \<Rightarrow> f w g')"
  using get_items_wf [of g acc n] by (auto simp: stays_wf_def split: prod.split)

lemma offer_block_size: "7 \<le> length (offer_block v)"
  by (simp add: offer_block_def enc_bool_def)

lemma offer_skip:
  assumes "offer_fits v"
  shows "(7 :: u32) \<le> of_nat (length (offer_block v))"
proof -
  have "unat (of_nat (length (offer_block v)) :: u32) = length (offer_block v)"
    using assms by (simp add: offer_fits_def opaque_fits_def unat_of_nat)
  then show ?thesis using offer_block_size [of v] by (simp add: word_le_nat_alt)
qed

lemma offer_count: "offer_fits v \<Longrightarrow> unat (of_nat (length (eo_items v)) :: u32) = length (eo_items v)"
  by (simp add: offer_fits_def unat_of_nat)

interpretation offer: writer enc_offer_put enc_offer_out offer_fits
proof
  fix b :: putbuf and v
  assume a: "pb_wf b" "offer_fits v"
  define p where "p = gboolean_put (guint16_put (put_items (guint32_put mwPutBuffer_new
      (of_nat (length (eo_items v)))) (eo_items v)) (eo_extra v)) (eo_flag v)"
  have "mwPutBuffer_finalize p = offer_block v"
    using a by (simp add: p_def offer_block_def offer_fits_def put_steps)
  then have eq: "enc_offer_put b v = (let b = guint16_put b (eo_mode v) in
      if eo_items v \<noteq> [] then mwOpaque_put b (Some (offer_block v)) else b)"
    by (simp add: enc_offer_put_def Let_def p_def)
  show "pb_wf (enc_offer_put b v)"
    "mwPutBuffer_finalize (enc_offer_put b v) = mwPutBuffer_finalize b @ enc_offer_out v"
    using a by (auto simp: eq Let_def enc_offer_out_def offer_fits_def put_steps)
qed

lemma enc_offer_in_parts:
  assumes "offer_fits v"
  obtains n c where "enc_offer_in v = be16 (eo_mode v) @
      (if eo_items v \<noteq> []
       then be32 n @ be32 c @ enc_items (eo_items v) @ be16 (eo_extra v) @ enc_bool (eo_flag v)
       else be32 0)"
    and "7 \<le> n" and "unat c = length (eo_items v)" and "list_all item_fits (eo_items v)"
  by (rule that [of "of_nat (length (offer_block v))" "of_nat (length (eo_items v))"])
    (use assms offer_skip [OF assms] offer_count [OF assms] in
      \<open>auto simp: enc_offer_in_def offer_block_def [of v] offer_fits_def\<close>)

interpretation offer: reader "enc_offer_get junk" enc_offer_in offer_fits offer_res
proof
  fix g v e rest old
  assume f: "feeds g (enc_offer_in v @ e) rest" and ok: "offer_fits v"
  from ok obtain n c where "enc_offer_in v = be16 (eo_mode v) @
      (if eo_items v \<noteq> []
       then be32 n @ be32 c @ enc_items (eo_items v) @ be16 (eo_extra v) @ enc_bool (eo_flag v)
       else be32 0)"
    and "7 \<le> n" and "unat c = length (eo_items v)" and "list_all item_fits (eo_items v)"
    by (rule enc_offer_in_parts)
  then show "gives e rest (offer_res old v) (enc_offer_get junk g old)"
    using f by (auto simp: enc_offer_get_def offer_res_def Let_def feeds_not_error intro!: fed_steps)
next
  fix g v e old
  assume f: "starved g (enc_offer_in v @ e)" and ok: "offer_fits v" and ne: "\<not> gb_error g"
  from ok obtain n c where "enc_offer_in v = be16 (eo_mode v) @
      (if eo_items v \<noteq> []
       then be32 n @ be32 c @ enc_items (eo_items v) @ be16 (eo_extra v) @ enc_bool (eo_flag v)
       else be32 0)"
    and "7 \<le> n" and "unat c = length (eo_items v)" and "list_all item_fits (eo_items v)"
    by (rule enc_offer_in_parts)
  then show "dries e (enc_offer_get junk g old)"
    using f ne by (cases "eo_items v = []")
      (auto simp: enc_offer_get_def Let_def get_items_stuck intro!: dry_steps stuck_steps)
qed (auto simp: enc_offer_get_def Let_def intro!: wf_steps)

record mwMsgChannelCreate =
  cc_reserved :: u32
  cc_channel :: u32
  cc_target :: mwIdBlock
  cc_service :: u32
  cc_proto_type :: u32
  cc_proto_ver :: u32
  cc_options :: u32
  cc_addtl :: bytes
  cc_creator_flag :: bool
  cc_creator :: mwLoginInfo
  cc_encrypt :: mwEncryptOffer

definition mwIdBlock_zero :: mwIdBlock where
  "mwIdBlock_zero = \<lparr>id_user = None, id_community = None\<rparr>"

definition cc_zero :: mwMsgChannelCreate where
  "cc_zero = \<lparr>cc_reserved = 0, cc_channel = 0, cc_target = mwIdBlock_zero, cc_service = 0,
     cc_proto_type = 0, cc_proto_ver = 0, cc_options = 0, cc_addtl = [], cc_creator_flag = False,
     cc_creator = mwLoginInfo_zero, cc_encrypt = eo_zero\<rparr>"

definition CHANNEL_CREATE_put :: "putbuf \<Rightarrow> mwMsgChannelCreate \<Rightarrow> putbuf" where
  "CHANNEL_CREATE_put b msg =
     (let b = guint32_put b (cc_reserved msg);
          b = guint32_put b (cc_channel msg);
          b = mwIdBlock_put b (cc_target msg);
          b = guint32_put b (cc_service msg);
          b = guint32_put b (cc_proto_type msg);
          b = guint32_put b (cc_proto_ver msg);
          b = guint32_put b (cc_options msg);
          b = mwOpaque_put b (Some (cc_addtl msg));
          b = gboolean_put b (cc_creator_flag msg);
          b = (if cc_creator_flag msg then mwLoginInfo_put b (cc_creator msg) else b);
          b = enc_offer_put b (cc_encrypt msg);
          b = guint32_put b 0;
          b = guint32_put b 0 in
      guint16_put b 7)"

definition CHANNEL_CREATE_get ::
    "u32 \<Rightarrow> getbuf \<Rightarrow> mwMsgChannelCreate \<Rightarrow> mwMsgChannelCreate \<times> getbuf" where
  "CHANNEL_CREATE_get junk b msg =
     (if gb_error b then (msg, b)
      else
        let (re, b) = guint32_get b (cc_reserved msg);
            (ch, b) = guint32_get b (cc_channel msg);
            (ta, b) = mwIdBlock_get b (cc_target msg);
            (se, b) = guint32_get b (cc_service msg);
            (pt, b) = guint32_get b (cc_proto_type msg);
            (pv, b) = guint32_get b (cc_proto_ver msg);
            (opt, b) = guint32_get b (cc_options msg);
            (ad, b) = mwOpaque_get b (cc_addtl msg);
            (cf, b) = gboolean_get b (cc_creator_flag msg);
            (cr, b) = (if cf then mwLoginInfo_get b (cc_creator msg) else (cc_creator msg, b));
            (en, b) = enc_offer_get junk b (cc_encrypt msg) in
        (\<lparr>cc_reserved = re, cc_channel = ch, cc_target = ta, cc_service = se, cc_proto_type = pt,
          cc_proto_ver = pv, cc_options = opt, cc_addtl = ad, cc_creator_flag = cf,
          cc_creator = cr, cc_encrypt = en\<rparr>, b))"

text \<open>The offered items are cleared and freed one by one.\<close>

definition CHANNEL_CREATE_clear :: "mwMsgChannelCreate \<Rightarrow> mwMsgChannelCreate" where
  "CHANNEL_CREATE_clear msg =
     msg\<lparr>cc_target := mwIdBlock_clear (cc_target msg),
         cc_addtl := mwOpaque_clear (cc_addtl msg),
         cc_creator := mwLoginInfo_clear (cc_creator msg),
         cc_encrypt := (cc_encrypt msg)\<lparr>eo_items := []\<rparr>\<rparr>"

definition enc_cc :: "mwMsgChannelCreate \<Rightarrow> bytes" where
  "enc_cc v = be32 (cc_reserved v) @ be32 (cc_channel v) @ enc_id (cc_target v) @
     be32 (cc_service v) @ be32 (cc_proto_type v) @ be32 (cc_proto_ver v) @ be32 (cc_options v) @
     enc_opaque (cc_addtl v) @ enc_bool (cc_creator_flag v) @
     (if cc_creator_flag v then enc_login (cc_creator v) else [])"

text \<open>What follows the encoding the reader takes.\<close>

definition offer_tail :: "bool \<Rightarrow> bytes" where
  "offer_tail items = (if items then be32 0 @ be32 0 @ be16 7 else be32 0 @ be16 7)"

definition cc_fits :: "mwMsgChannelCreate \<Rightarrow> bool" where
  "cc_fits v \<longleftrightarrow> id_fits (cc_target v) \<and> opaque_fits (cc_addtl v) \<and>
     (cc_creator_flag v \<longrightarrow> login_fits (cc_creator v)) \<and> offer_fits (cc_encrypt v)"

definition cc_res :: "mwMsgChannelCreate \<Rightarrow> mwMsgChannelCreate \<Rightarrow> mwMsgChannelCreate" where
  "cc_res old v =
     v\<lparr>cc_target := id_res (cc_target old) (cc_target v),
       cc_creator := (if cc_creator_flag v then login_res (cc_creator old) (cc_creator v)
                      else cc_creator old),
       cc_encrypt := offer_res (cc_encrypt old) (cc_encrypt v)\<rparr>"

interpretation cc: writer CHANNEL_CREATE_put
    "\<lambda>v. enc_cc v @ enc_offer_in (cc_encrypt v) @ offer_tail (eo_items (cc_encrypt v) \<noteq> [])" cc_fits
  by unfold_locales (auto simp: CHANNEL_CREATE_put_def enc_cc_def cc_fits_def offer_tail_def
    enc_offer_in_def enc_offer_out_def enc_opaque_def Let_def put_steps)

interpretation cc: reader "CHANNEL_CREATE_get junk"
    "\<lambda>v. enc_cc v @ enc_offer_in (cc_encrypt v)" cc_fits cc_res
proof
  fix g v e rest old
  assume "feeds g ((enc_cc v @ enc_offer_in (cc_encrypt v)) @ e) rest" "cc_fits v"
  then show "gives e rest (cc_res old v) (CHANNEL_CREATE_get junk g old)"
    by (cases "cc_creator_flag v")
      (auto simp: CHANNEL_CREATE_get_def enc_cc_def cc_fits_def cc_res_def Let_def feeds_not_error
        intro!: fed_steps)
next
  fix g v e old
  assume "starved g ((enc_cc v @ enc_offer_in (cc_encrypt v)) @ e)" "cc_fits v" "\<not> gb_error g"
  then show "dries e (CHANNEL_CREATE_get junk g old)"
    by (cases "cc_creator_flag v")
      (auto simp: CHANNEL_CREATE_get_def enc_cc_def cc_fits_def Let_def
        intro!: dry_steps stuck_steps)
qed (auto simp: CHANNEL_CREATE_get_def Let_def intro!: wf_steps)

section \<open>Accepting a channel\<close>

record mwEncryptAccept =
  ea_mode :: u16
  ea_item :: "mwEncryptItem option"
  ea_extra :: u16
  ea_flag :: bool

definition ea_zero :: mwEncryptAccept where
  "ea_zero = \<lparr>ea_mode = 0, ea_item = None, ea_extra = 0, ea_flag = False\<rparr>"

definition enc_accept_put :: "putbuf \<Rightarrow> mwEncryptAccept \<Rightarrow> putbuf" where
  "enc_accept_put b enc =
     (let b = guint16_put b (ea_mode enc) in
      case ea_item enc of
        Some item \<Rightarrow>
          (let p = mwPutBuffer_new;
               p = mwEncryptItem_put p item;
               p = guint16_put p (ea_extra enc);
               p = gboolean_put p (ea_flag enc);
               o1 = mwPutBuffer_finalize p in
           mwOpaque_put b (Some o1))
      | None \<Rightarrow> b)"

definition enc_accept_get :: "u32 \<Rightarrow> getbuf \<Rightarrow> mwEncryptAccept \<Rightarrow> mwEncryptAccept \<times> getbuf" where
  "enc_accept_get junk b enc =
     (if gb_error b then (enc, b)
      else
        let (m, b) = guint16_get b (ea_mode enc);
            (skip, b) = guint32_get b junk;
            (item, b) =
              (if skip \<ge> 6 then (let (ei, b) = mwEncryptItem_get b ei_zero in (Some ei, b))
               else (ea_item enc, b));
            enc = enc\<lparr>ea_mode := m, ea_item := item\<rparr> in
        if skip \<ge> 9 then
          (let (ex, b) = guint16_get b (ea_extra enc);
               (fl, b) = gboolean_get b (ea_flag enc) in
           (enc\<lparr>ea_extra := ex, ea_flag := fl\<rparr>, b))
        else (enc, b))"

definition accept_block :: "mwEncryptItem \<Rightarrow> mwEncryptAccept \<Rightarrow> bytes" where
  "accept_block ei v = enc_item ei @ be16 (ea_extra v) @ enc_bool (ea_flag v)"

definition accept_fits :: "mwEncryptAccept \<Rightarrow> bool" where
  "accept_fits v \<longleftrightarrow>
     (case ea_item v of None \<Rightarrow> True
      | Some ei \<Rightarrow> item_fits ei \<and> opaque_fits (accept_block ei v))"

definition enc_accept_out :: "mwEncryptAccept \<Rightarrow> bytes" where
  "enc_accept_out v = be16 (ea_mode v) @
     (case ea_item v of None \<Rightarrow> [] | Some ei \<Rightarrow> enc_opaque (accept_block ei v))"

definition enc_accept_in :: "mwEncryptAccept \<Rightarrow> bytes" where
  "enc_accept_in v = be16 (ea_mode v) @
     (case ea_item v of None \<Rightarrow> be32 0 | Some ei \<Rightarrow> enc_opaque (accept_block ei v))"

definition accept_res :: "mwEncryptAccept \<Rightarrow> mwEncryptAccept \<Rightarrow> mwEncryptAccept" where
  "accept_res old v =
     (case ea_item v of
        None \<Rightarrow> old\<lparr>ea_mode := ea_mode v\<rparr>
      | Some ei \<Rightarrow> v)"

interpretation accept: writer enc_accept_put enc_accept_out accept_fits
proof
  fix b :: putbuf and v
  assume a: "pb_wf b" "accept_fits v"
  have "mwPutBuffer_finalize (gboolean_put (guint16_put (mwEncryptItem_put mwPutBuffer_new ei)
      (ea_extra v)) (ea_flag v)) = accept_block ei v" if "ea_item v = Some ei" for ei
    using a that by (simp add: accept_block_def accept_fits_def put_steps)
  then show "pb_wf (enc_accept_put b v)"
    "mwPutBuffer_finalize (enc_accept_put b v) = mwPutBuffer_finalize b @ enc_accept_out v"
    using a by (auto simp: enc_accept_put_def Let_def enc_accept_out_def accept_fits_def put_steps
        split: option.splits)
qed

lemma enc_accept_in_parts:
  assumes "accept_fits v" and "ea_item v = Some ei"
  obtains n where "enc_accept_in v =
      be16 (ea_mode v) @ be32 n @ enc_item ei @ be16 (ea_extra v) @ enc_bool (ea_flag v)"
    and "9 \<le> n" and "6 \<le> n" and "item_fits ei"
proof (rule that)
  let ?n = "of_nat (length (accept_block ei v)) :: u32"
  have "unat ?n = length (accept_block ei v)"
    using assms by (simp add: accept_fits_def opaque_fits_def unat_of_nat)
  moreover have "9 \<le> length (accept_block ei v)"
    by (simp add: accept_block_def enc_item_def enc_opaque_def enc_bool_def)
  ultimately show "9 \<le> ?n" "6 \<le> ?n" by (simp_all add: word_le_nat_alt)
  show "enc_accept_in v =
      be16 (ea_mode v) @ be32 ?n @ enc_item ei @ be16 (ea_extra v) @ enc_bool (ea_flag v)"
    using assms by (simp add: enc_accept_in_def enc_opaque_def accept_block_def [of ei])
qed (use assms in \<open>simp add: accept_fits_def\<close>)

interpretation accept: reader "enc_accept_get junk" enc_accept_in accept_fits accept_res
proof
  fix g v e rest old
  assume f: "feeds g (enc_accept_in v @ e) rest" and ok: "accept_fits v"
  show "gives e rest (accept_res old v) (enc_accept_get junk g old)"
  proof (cases "ea_item v")
    case None
    then show ?thesis using f by (auto simp: enc_accept_get_def enc_accept_in_def accept_res_def
          Let_def feeds_not_error intro!: fed_steps)
  next
    case (Some ei)
    obtain n where "enc_accept_in v =
        be16 (ea_mode v) @ be32 n @ enc_item ei @ be16 (ea_extra v) @ enc_bool (ea_flag v)"
      and "9 \<le> n" and "6 \<le> n" and "item_fits ei"
      using ok Some by (rule enc_accept_in_parts)
    then show ?thesis using f Some by (auto simp: enc_accept_get_def accept_res_def item_res_def
          Let_def feeds_not_error case_of_case intro!: fed_steps)
  qed
next
  fix g v e old
  assume f: "starved g (enc_accept_in v @ e)" and ok: "accept_fits v" and ne: "\<not> gb_error g"
  show "dries e (enc_accept_get junk g old)"
  proof (cases "ea_item v")
    case None
    then show ?thesis using f ne by (auto simp: enc_accept_get_def enc_accept_in_def
          Let_def case_of_case intro!: dry_steps stuck_steps)
  next
    case (Some ei)
    obtain n where "enc_accept_in v =
        be16 (ea_mode v) @ be32 n @ enc_item ei @ be16 (ea_extra v) @ enc_bool (ea_flag v)"
      and "9 \<le> n" and "6 \<le> n" and "item_fits ei"
      using ok Some by (rule enc_accept_in_parts)
    then show ?thesis using f ne Some by (auto simp: enc_accept_get_def
          Let_def case_of_case intro!: dry_steps stuck_steps)
  qed
qed (auto simp: enc_accept_get_def Let_def case_of_case intro!: wf_steps)

record mwMsgChannelAccept =
  ca_service :: u32
  ca_proto_type :: u32
  ca_proto_ver :: u32
  ca_addtl :: bytes
  ca_acceptor_flag :: bool
  ca_acceptor :: mwLoginInfo
  ca_encrypt :: mwEncryptAccept

definition ca_zero :: mwMsgChannelAccept where
  "ca_zero = \<lparr>ca_service = 0, ca_proto_type = 0, ca_proto_ver = 0, ca_addtl = [],
     ca_acceptor_flag = False, ca_acceptor = mwLoginInfo_zero, ca_encrypt = ea_zero\<rparr>"

definition CHANNEL_ACCEPT_put :: "putbuf \<Rightarrow> mwMsgChannelAccept \<Rightarrow> putbuf" where
  "CHANNEL_ACCEPT_put b msg =
     (let b = guint32_put b (ca_service msg);
          b = guint32_put b (ca_proto_type msg);
          b = guint32_put b (ca_proto_ver msg);
          b = mwOpaque_put b (Some (ca_addtl msg));
          b = gboolean_put b (ca_acceptor_flag msg);
          b = (if ca_acceptor_flag msg then mwLoginInfo_put b (ca_acceptor msg) else b);
          b = enc_accept_put b (ca_encrypt msg);
          b = guint32_put b 0;
          b = guint32_put b 0 in
      guint16_put b 7)"

definition CHANNEL_ACCEPT_get ::
    "u32 \<Rightarrow> getbuf \<Rightarrow> mwMsgChannelAccept \<Rightarrow> mwMsgChannelAccept \<times> getbuf" where
  "CHANNEL_ACCEPT_get junk b msg =
     (if gb_error b then (msg, b)
      else
        let (se, b) = guint32_get b (ca_service msg);
            (pt, b) = guint32_get b (ca_proto_type msg);
            (pv, b) = guint32_get b (ca_proto_ver msg);
            (ad, b) = mwOpaque_get b (ca_addtl msg);
            (af, b) = gboolean_get b (ca_acceptor_flag msg);
            (ac, b) = (if af then mwLoginInfo_get b (ca_acceptor msg) else (ca_acceptor msg, b));
            (en, b) = enc_accept_get junk b (ca_encrypt msg) in
        (\<lparr>ca_service = se, ca_proto_type = pt, ca_proto_ver = pv, ca_addtl = ad,
          ca_acceptor_flag = af, ca_acceptor = ac, ca_encrypt = en\<rparr>, b))"

definition CHANNEL_ACCEPT_clear :: "mwMsgChannelAccept \<Rightarrow> mwMsgChannelAccept" where
  "CHANNEL_ACCEPT_clear msg =
     msg\<lparr>ca_addtl := mwOpaque_clear (ca_addtl msg),
         ca_acceptor := mwLoginInfo_clear (ca_acceptor msg),
         ca_encrypt := (ca_encrypt msg)\<lparr>ea_item := None\<rparr>\<rparr>"

definition enc_ca :: "mwMsgChannelAccept \<Rightarrow> bytes" where
  "enc_ca v = be32 (ca_service v) @ be32 (ca_proto_type v) @ be32 (ca_proto_ver v) @
     enc_opaque (ca_addtl v) @ enc_bool (ca_acceptor_flag v) @
     (if ca_acceptor_flag v then enc_login (ca_acceptor v) else [])"

definition ca_fits :: "mwMsgChannelAccept \<Rightarrow> bool" where
  "ca_fits v \<longleftrightarrow> opaque_fits (ca_addtl v) \<and>
     (ca_acceptor_flag v \<longrightarrow> login_fits (ca_acceptor v)) \<and> accept_fits (ca_encrypt v)"

definition ca_res :: "mwMsgChannelAccept \<Rightarrow> mwMsgChannelAccept \<Rightarrow> mwMsgChannelAccept" where
  "ca_res old v =
     v\<lparr>ca_acceptor := (if ca_acceptor_flag v then login_res (ca_acceptor old) (ca_acceptor v)
                       else ca_acceptor old),
       ca_encrypt := accept_res (ca_encrypt old) (ca_encrypt v)\<rparr>"

interpretation ca: writer CHANNEL_ACCEPT_put
    "\<lambda>v. enc_ca v @ enc_accept_in (ca_encrypt v) @ offer_tail (ea_item (ca_encrypt v) \<noteq> None)" ca_fits
  by unfold_locales (auto simp: CHANNEL_ACCEPT_put_def enc_ca_def ca_fits_def offer_tail_def
    enc_accept_in_def enc_accept_out_def Let_def put_steps split: option.split)

interpretation ca: reader "CHANNEL_ACCEPT_get junk"
    "\<lambda>v. enc_ca v @ enc_accept_in (ca_encrypt v)" ca_fits ca_res
proof
  fix g v e rest old
  assume "feeds g ((enc_ca v @ enc_accept_in (ca_encrypt v)) @ e) rest" "ca_fits v"
  then show "gives e rest (ca_res old v) (CHANNEL_ACCEPT_get junk g old)"
    by (cases "ca_acceptor_flag v")
      (auto simp: CHANNEL_ACCEPT_get_def enc_ca_def ca_fits_def ca_res_def Let_def feeds_not_error
        intro!: fed_steps)
next
  fix g v e old
  assume "starved g ((enc_ca v @ enc_accept_in (ca_encrypt v)) @ e)" "ca_fits v" "\<not> gb_error g"
  then show "dries e (CHANNEL_ACCEPT_get junk g old)"
    by (cases "ca_acceptor_flag v")
      (auto simp: CHANNEL_ACCEPT_get_def enc_ca_def ca_fits_def Let_def
        intro!: dry_steps stuck_steps)
qed (auto simp: CHANNEL_ACCEPT_get_def Let_def intro!: wf_steps)

section \<open>The short messages\<close>

record mwMsgChannelSend =
  cs_type :: u16
  cs_data :: bytes

definition cs_zero :: mwMsgChannelSend where
  "cs_zero = \<lparr>cs_type = 0, cs_data = []\<rparr>"

definition CHANNEL_SEND_put :: "putbuf \<Rightarrow> mwMsgChannelSend \<Rightarrow> putbuf" where
  "CHANNEL_SEND_put b msg = (let b = guint16_put b (cs_type msg) in mwOpaque_put b (Some (cs_data msg)))"

definition CHANNEL_SEND_get :: "getbuf \<Rightarrow> mwMsgChannelSend \<Rightarrow> mwMsgChannelSend \<times> getbuf" where
  "CHANNEL_SEND_get b msg =
     (if gb_error b then (msg, b)
      else
        let (t, b) = guint16_get b (cs_type msg);
            (d, b) = mwOpaque_get b (cs_data msg) in
        (msg\<lparr>cs_type := t, cs_data := d\<rparr>, b))"

definition CHANNEL_SEND_clear :: "mwMsgChannelSend \<Rightarrow> mwMsgChannelSend" where
  "CHANNEL_SEND_clear msg = msg\<lparr>cs_data := mwOpaque_clear (cs_data msg)\<rparr>"

definition enc_cs :: "mwMsgChannelSend \<Rightarrow> bytes" where
  "enc_cs v = be16 (cs_type v) @ enc_opaque (cs_data v)"

definition cs_fits :: "mwMsgChannelSend \<Rightarrow> bool" where
  "cs_fits v \<longleftrightarrow> opaque_fits (cs_data v)"

interpretation cs: codec CHANNEL_SEND_put CHANNEL_SEND_get enc_cs cs_fits replaced
  by unfold_locales (auto simp: CHANNEL_SEND_put_def CHANNEL_SEND_get_def enc_cs_def
    cs_fits_def Let_def put_steps feeds_not_error
    intro!: fed_steps dry_steps wf_steps stuck_steps)

record mwMsgChannelDestroy =
  cd_reason :: u32
  cd_data :: bytes

definition cd_zero :: mwMsgChannelDestroy where
  "cd_zero = \<lparr>cd_reason = 0, cd_data = []\<rparr>"

definition CHANNEL_DESTROY_put :: "putbuf \<Rightarrow> mwMsgChannelDestroy \<Rightarrow> putbuf" where
  "CHANNEL_DESTROY_put b msg =
     (let b = guint32_put b (cd_reason msg) in mwOpaque_put b (Some (cd_data msg)))"

definition CHANNEL_DESTROY_get :: "getbuf \<Rightarrow> mwMsgChannelDestroy \<Rightarrow> mwMsgChannelDestroy \<times> getbuf" where
  "CHANNEL_DESTROY_get b msg =
     (if gb_error b then (msg, b)
      else
        let (r, b) = guint32_get b (cd_reason msg);
            (d, b) = mwOpaque_get b (cd_data msg) in
        (msg\<lparr>cd_reason := r, cd_data := d\<rparr>, b))"

definition CHANNEL_DESTROY_clear :: "mwMsgChannelDestroy \<Rightarrow> mwMsgChannelDestroy" where
  "CHANNEL_DESTROY_clear msg = msg\<lparr>cd_data := mwOpaque_clear (cd_data msg)\<rparr>"

definition enc_cd :: "mwMsgChannelDestroy \<Rightarrow> bytes" where
  "enc_cd v = be32 (cd_reason v) @ enc_opaque (cd_data v)"

definition cd_fits :: "mwMsgChannelDestroy \<Rightarrow> bool" where
  "cd_fits v \<longleftrightarrow> opaque_fits (cd_data v)"

interpretation cd: codec CHANNEL_DESTROY_put CHANNEL_DESTROY_get enc_cd cd_fits replaced
  by unfold_locales (auto simp: CHANNEL_DESTROY_put_def CHANNEL_DESTROY_get_def enc_cd_def
    cd_fits_def Let_def put_steps feeds_not_error
    intro!: fed_steps dry_steps wf_steps stuck_steps)

text \<open>Messages of one part are that part.\<close>

definition SET_USER_STATUS_put :: "putbuf \<Rightarrow> mwUserStatus \<Rightarrow> putbuf" where
  "SET_USER_STATUS_put b msg = mwUserStatus_put b msg"

definition SET_USER_STATUS_get :: "getbuf \<Rightarrow> mwUserStatus \<Rightarrow> mwUserStatus \<times> getbuf" where
  "SET_USER_STATUS_get b msg = (if gb_error b then (msg, b) else mwUserStatus_get b msg)"

definition SET_USER_STATUS_clear :: "mwUserStatus \<Rightarrow> mwUserStatus" where
  "SET_USER_STATUS_clear msg = mwUserStatus_clear msg"

interpretation su: codec SET_USER_STATUS_put SET_USER_STATUS_get enc_status status_fits status_res
  by unfold_locales (auto simp: SET_USER_STATUS_put_def SET_USER_STATUS_get_def put_steps
    feeds_not_error intro: fed_steps dry_steps wf_steps stuck_steps)

definition SET_PRIVACY_LIST_put :: "putbuf \<Rightarrow> mwPrivacyInfo \<Rightarrow> putbuf" where
  "SET_PRIVACY_LIST_put b msg = mwPrivacyInfo_put b msg"

definition SET_PRIVACY_LIST_get :: "getbuf \<Rightarrow> mwPrivacyInfo \<Rightarrow> mwPrivacyInfo \<times> getbuf" where
  "SET_PRIVACY_LIST_get b msg = (if gb_error b then (msg, b) else mwPrivacyInfo_get b msg)"

definition SET_PRIVACY_LIST_clear :: "mwPrivacyInfo \<Rightarrow> mwPrivacyInfo" where
  "SET_PRIVACY_LIST_clear msg = mwPrivacyInfo_clear msg"

interpretation sp: codec SET_PRIVACY_LIST_put SET_PRIVACY_LIST_get enc_privacy privacy_fits privacy_res
  by unfold_locales (auto simp: SET_PRIVACY_LIST_put_def SET_PRIVACY_LIST_get_def put_steps
    feeds_not_error intro: fed_steps dry_steps wf_steps stuck_steps)

definition SENSE_SERVICE_put :: "putbuf \<Rightarrow> u32 \<Rightarrow> putbuf" where
  "SENSE_SERVICE_put b service = guint32_put b service"

definition SENSE_SERVICE_get :: "getbuf \<Rightarrow> u32 \<Rightarrow> u32 \<times> getbuf" where
  "SENSE_SERVICE_get b service = (if gb_error b then (service, b) else guint32_get b service)"

interpretation ss: codec SENSE_SERVICE_put SENSE_SERVICE_get be32 always replaced
  by unfold_locales (auto simp: SENSE_SERVICE_put_def SENSE_SERVICE_get_def put_steps
    feeds_not_error intro: fed_steps dry_steps wf_steps stuck_steps)

definition ADMIN_get :: "getbuf \<Rightarrow> mwstring \<Rightarrow> mwstring \<times> getbuf" where
  "ADMIN_get b txt = mwString_get b txt"

definition ADMIN_clear :: "mwstring \<Rightarrow> mwstring" where
  "ADMIN_clear txt = None"

interpretation ad: reader ADMIN_get enc_str str_fits "\<lambda>old. str_norm"
  by unfold_locales (auto simp: ADMIN_get_def intro: fed_steps dry_steps wf_steps stuck_steps)

section \<open>Announcements\<close>

record mwMsgAnnounce =
  an_sender_present :: bool
  an_sender :: mwLoginInfo
  an_unknown_a :: u16
  an_may_reply :: bool
  an_text :: mwstring
  an_recipients :: "mwstring list"

definition an_zero :: mwMsgAnnounce where
  "an_zero = \<lparr>an_sender_present = False, an_sender = mwLoginInfo_zero, an_unknown_a = 0,
     an_may_reply = False, an_text = None, an_recipients = []\<rparr>"

text \<open>\<open>while (count--)\<close>: each recipient goes to the front of the list.\<close>

fun get_recipients :: "getbuf \<Rightarrow> mwstring list \<Rightarrow> nat \<Rightarrow> mwstring list \<times> getbuf" where
  "get_recipients b rs 0 = (rs, b)"
| "get_recipients b rs (Suc count) =
     (let (r, b) = mwString_get b None in get_recipients b (r # rs) count)"

text \<open>The block with the text is read through a buffer of its own.\<close>

definition ANNOUNCE_get_block :: "bytes \<Rightarrow> bool \<Rightarrow> mwstring \<Rightarrow> bool \<times> mwstring" where
  "ANNOUNCE_get_block o1 may_reply txt =
     (let gb = mwGetBuffer_wrap (Some o1);
          (mr, gb) = gboolean_get gb may_reply;
          (tx, gb) = mwString_get gb txt in
      (mr, tx))"

definition ANNOUNCE_get :: "u32 \<Rightarrow> getbuf \<Rightarrow> mwMsgAnnounce \<Rightarrow> mwMsgAnnounce \<times> getbuf" where
  "ANNOUNCE_get junk b msg =
     (let (sp, b) = gboolean_get b (an_sender_present msg);
          (se, b) = (if sp then mwLoginInfo_get b (an_sender msg) else (an_sender msg, b));
          (ua, b) = guint16_get b (an_unknown_a msg);
          (o1, b) = mwOpaque_get b [];
          blk = ANNOUNCE_get_block o1 (an_may_reply msg) (an_text msg);
          (count, b) = guint32_get b junk;
          (rs, b) = get_recipients b (an_recipients msg) (unat count) in
      (\<lparr>an_sender_present = sp, an_sender = se, an_unknown_a = ua, an_may_reply = fst blk,
        an_text = snd blk, an_recipients = rs\<rparr>, b))"

fun put_recipients :: "putbuf \<Rightarrow> mwstring list \<Rightarrow> putbuf" where
  "put_recipients b [] = b"
| "put_recipients b (r # rs) = put_recipients (mwString_put b r) rs"

definition ANNOUNCE_put :: "putbuf \<Rightarrow> mwMsgAnnounce \<Rightarrow> putbuf" where
  "ANNOUNCE_put b msg =
     (let b = gboolean_put b (an_sender_present msg);
          b = (if an_sender_present msg then mwLoginInfo_put b (an_sender msg) else b);
          b = guint16_put b (an_unknown_a msg);
          pb = mwPutBuffer_new;
          pb = gboolean_put pb (an_may_reply msg);
          pb = mwString_put pb (an_text msg);
          o1 = mwPutBuffer_finalize pb;
          b = mwOpaque_put b (Some o1);
          b = guint32_put b (of_nat (length (an_recipients msg))) in
      put_recipients b (an_recipients msg))"

definition ANNOUNCE_clear :: "mwMsgAnnounce \<Rightarrow> mwMsgAnnounce" where
  "ANNOUNCE_clear msg =
     msg\<lparr>an_sender := mwLoginInfo_clear (an_sender msg), an_text := None, an_recipients := []\<rparr>"

definition enc_strs :: "mwstring list \<Rightarrow> bytes" where
  "enc_strs rs = concat (map enc_str rs)"

definition announce_block :: "mwMsgAnnounce \<Rightarrow> bytes" where
  "announce_block v = enc_bool (an_may_reply v) @ enc_str (an_text v)"

definition enc_an :: "mwMsgAnnounce \<Rightarrow> bytes" where
  "enc_an v = enc_bool (an_sender_present v) @
     (if an_sender_present v then enc_login (an_sender v) else []) @ be16 (an_unknown_a v) @
     enc_opaque (announce_block v) @ be32 (of_nat (length (an_recipients v))) @
     enc_strs (an_recipients v)"

definition an_fits :: "mwMsgAnnounce \<Rightarrow> bool" where
  "an_fits v \<longleftrightarrow> (an_sender_present v \<longrightarrow> login_fits (an_sender v)) \<and> str_fits (an_text v) \<and>
     list_all str_fits (an_recipients v) \<and> length (an_recipients v) < 2 ^ 32"

text \<open>The recipients come back in the opposite order.\<close>

definition an_res :: "mwMsgAnnounce \<Rightarrow> mwMsgAnnounce \<Rightarrow> mwMsgAnnounce" where
  "an_res old v =
     v\<lparr>an_sender := (if an_sender_present v then login_res (an_sender old) (an_sender v)
                     else an_sender old),
       an_text := str_norm (an_text v),
       an_recipients := rev (map str_norm (an_recipients v)) @ an_recipients old\<rparr>"

lemma put_recipients_steps [put_steps]:
  "pb_wf b \<Longrightarrow> list_all str_fits rs \<Longrightarrow> pb_wf (put_recipients b rs)"
  "pb_wf b \<Longrightarrow> list_all str_fits rs \<Longrightarrow>
   mwPutBuffer_finalize (put_recipients b rs) = mwPutBuffer_finalize b @ enc_strs rs"
  by (induction rs arbitrary: b) (simp_all add: put_steps enc_strs_def)

lemma announce_block_fits: "str_fits (an_text v) \<Longrightarrow> opaque_fits (announce_block v)"
  by (simp add: str_fits_def opaque_fits_def announce_block_def enc_str_def enc_bool_def)

lemma announce_block_put:
  "str_fits t \<Longrightarrow> mwPutBuffer_finalize (mwString_put (gboolean_put mwPutBuffer_new r) t) =
     enc_bool r @ enc_str t"
  by (simp add: put_steps)

interpretation an: writer ANNOUNCE_put enc_an an_fits
proof
  fix b :: putbuf and v
  assume a: "pb_wf b" "an_fits v"
  then have o: "opaque_fits (enc_bool (an_may_reply v) @ enc_str (an_text v))"
    using announce_block_fits [of v] by (simp add: announce_block_def an_fits_def)
  from a show "pb_wf (ANNOUNCE_put b v)"
    "mwPutBuffer_finalize (ANNOUNCE_put b v) = mwPutBuffer_finalize b @ enc_an v"
    by (auto simp: ANNOUNCE_put_def enc_an_def an_fits_def Let_def o announce_block_put
        announce_block_def put_steps)
qed

lemma get_recipients_fed:
  "feeds g (enc_strs rs @ e) rest \<Longrightarrow> list_all str_fits rs \<Longrightarrow>
   gives e rest (rev (map str_norm rs) @ acc) (get_recipients g acc (length rs))"
proof (induction rs arbitrary: g acc)
  case (Cons v rs)
  have "feeds g (enc_str v @ enc_strs rs @ e) rest" using Cons.prems by (simp add: enc_strs_def)
  then have "gives e rest (rev (map str_norm rs) @ str_norm v # acc)
      (case mwString_get g None of (r, b) \<Rightarrow> get_recipients b (r # acc) (length rs))"
    by (rule str.fed_step) (use Cons in auto)
  then show ?case by (simp add: Let_def)
qed (simp add: enc_strs_def)

lemma get_recipients_fails [stuck_steps]:
  "gb_error g \<Longrightarrow> gb_wf g \<Longrightarrow> fails (get_recipients g acc n)"
  "gb_error g \<Longrightarrow> stays g (get_recipients g acc n)"
  by (induction n arbitrary: acc) (auto simp: Let_def intro!: str.stuck_step)

lemma get_recipients_wf [wf_steps]: "gb_wf g \<Longrightarrow> stays_wf (get_recipients g acc n)"
  by (induction n arbitrary: g acc) (auto simp: Let_def intro!: str.wf_step)

lemma get_recipients_dries:
  "starved g (enc_strs rs @ e) \<Longrightarrow> list_all str_fits rs \<Longrightarrow>
   dries e (get_recipients g acc (length rs))"
proof (induction rs arbitrary: g acc)
  case (Cons v rs)
  have "starved g (enc_str v @ enc_strs rs @ e)" using Cons.prems by (simp add: enc_strs_def)
  then have "dries e (case mwString_get g None of (r, b) \<Rightarrow> get_recipients b (r # acc) (length rs))"
    by (rule str.starved_step) (use Cons in \<open>auto intro: get_recipients_fails\<close>)
  then show ?case by (simp add: Let_def)
qed (simp add: enc_strs_def)

lemma get_recipients_step [fed_steps, dry_steps, stuck_steps, wf_steps]:
  "feeds g (enc_strs rs @ e) rest \<Longrightarrow> list_all str_fits rs \<Longrightarrow> n = length rs \<Longrightarrow>
   (\<And>g'. feeds g' e rest \<Longrightarrow> gives e' rest' x (f (rev (map str_norm rs) @ acc) g')) \<Longrightarrow>
   gives e' rest' x (case get_recipients g acc n of (w, g') \<Rightarrow> f w g')"
  "starved g (enc_strs rs @ e) \<Longrightarrow> list_all str_fits rs \<Longrightarrow> n = length rs \<Longrightarrow>
   (\<And>w g'. starved g' e \<Longrightarrow> dries e' (f w g')) \<Longrightarrow>
   dries e' (case get_recipients g acc n of (w, g') \<Rightarrow> f w g')"
  "gb_error g \<Longrightarrow> gb_wf g \<Longrightarrow> (\<And>w. fails (f w g)) \<Longrightarrow>
   fails (case get_recipients g acc n of (w, g') \<Rightarrow> f w g')"
  "gb_error g \<Longrightarrow> (\<And>w. stays g0 (f w g)) \<Longrightarrow>
   stays g0 (case get_recipients g acc n of (w, g') \<Rightarrow> f w g')"
  "gb_wf g \<Longrightarrow> (\<And>w g'. gb_wf g' \<Longrightarrow> stays_wf (f w g')) \<Longrightarrow>
   stays_wf (case get_recipients g acc n of (w, g') \<Rightarrow> f w g')"
  using get_recipients_fed [of g rs e rest acc] get_recipients_dries [of g rs e acc]
    get_recipients_fails [of g acc n] get_recipients_wf [of g acc n]
  by (auto simp: gives_def dries_def fails_def stays_def stays_wf_def split: prod.split)

lemma ANNOUNCE_get_block_value:
  assumes "str_fits (an_text v)"
  shows "ANNOUNCE_get_block (announce_block v) mr tx = (an_may_reply v, str_norm (an_text v))"
proof -
  have "feeds (mwGetBuffer_wrap (Some (announce_block v)))
      (enc_bool (an_may_reply v) @ enc_str (an_text v) @ []) []"
    using feeds_wrap [of "announce_block v" "[]"] by (simp add: announce_block_def)
  then have "gives [] [] (an_may_reply v, str_norm (an_text v))
      (let gb = mwGetBuffer_wrap (Some (announce_block v));
          (m, gb) = gboolean_get gb mr; (t, gb) = mwString_get gb tx in ((m, t), gb))"
    using assms unfolding Let_def by (auto intro!: fed_steps)
  then show ?thesis
    by (simp add: ANNOUNCE_get_block_def gives_def Let_def split: prod.splits)
qed

lemma an_fits_unfold:
  assumes "an_fits v"
  shows "opaque_fits (announce_block v)" and "str_fits (an_text v)"
    and "list_all str_fits (an_recipients v)"
    and "unat (of_nat (length (an_recipients v)) :: u32) = length (an_recipients v)"
    and "an_sender_present v \<Longrightarrow> login_fits (an_sender v)"
  using assms by (auto simp: an_fits_def announce_block_fits unat_of_nat)

interpretation an: reader "ANNOUNCE_get junk" enc_an an_fits an_res
proof
  fix g v e rest old
  assume "feeds g (enc_an v @ e) rest" "an_fits v"
  then show "gives e rest (an_res old v) (ANNOUNCE_get junk g old)"
    by (cases "an_sender_present v")
      (auto simp: ANNOUNCE_get_def enc_an_def an_res_def Let_def feeds_not_error an_fits_unfold
        ANNOUNCE_get_block_value intro!: fed_steps)
next
  fix g v e old
  assume "starved g (enc_an v @ e)" "an_fits v" "\<not> gb_error g"
  then show "dries e (ANNOUNCE_get junk g old)"
    by (cases "an_sender_present v")
      (auto simp: ANNOUNCE_get_def enc_an_def Let_def an_fits_unfold intro!: dry_steps stuck_steps)
qed (auto simp: ANNOUNCE_get_def Let_def intro!: wf_steps stuck_steps)

section \<open>Whole messages\<close>

datatype mwBody =
    Handshake mwMsgHandshake
  | HandshakeAck mwMsgHandshakeAck
  | Login mwMsgLogin
  | LoginAck mwMsgLoginAck
  | LoginContinue
  | LoginRedirect mwMsgLoginRedirect
  | ChannelCreate mwMsgChannelCreate
  | ChannelAccept mwMsgChannelAccept
  | ChannelSend mwMsgChannelSend
  | ChannelDestroy mwMsgChannelDestroy
  | SetUserStatus mwUserStatus
  | SetPrivacyList mwPrivacyInfo
  | SenseService u32
  | Admin mwstring
  | Announce mwMsgAnnounce

record mwMessage =
  msg_head :: mwMessageHead
  msg_body :: mwBody

text \<open>The types of messages (\<open>enum mwMessageType\<close>).\<close>

definition mwMessage_HANDSHAKE :: u16 where "mwMessage_HANDSHAKE = 0x0000"
definition mwMessage_HANDSHAKE_ACK :: u16 where "mwMessage_HANDSHAKE_ACK = 0x8000"
definition mwMessage_LOGIN :: u16 where "mwMessage_LOGIN = 0x0001"
definition mwMessage_LOGIN_REDIRECT :: u16 where "mwMessage_LOGIN_REDIRECT = 0x0018"
definition mwMessage_LOGIN_CONTINUE :: u16 where "mwMessage_LOGIN_CONTINUE = 0x0016"
definition mwMessage_LOGIN_ACK :: u16 where "mwMessage_LOGIN_ACK = 0x8001"
definition mwMessage_CHANNEL_CREATE :: u16 where "mwMessage_CHANNEL_CREATE = 0x0002"
definition mwMessage_CHANNEL_DESTROY :: u16 where "mwMessage_CHANNEL_DESTROY = 0x0003"
definition mwMessage_CHANNEL_SEND :: u16 where "mwMessage_CHANNEL_SEND = 0x0004"
definition mwMessage_CHANNEL_ACCEPT :: u16 where "mwMessage_CHANNEL_ACCEPT = 0x0006"
definition mwMessage_SET_USER_STATUS :: u16 where "mwMessage_SET_USER_STATUS = 0x0009"
definition mwMessage_SET_PRIVACY_LIST :: u16 where "mwMessage_SET_PRIVACY_LIST = 0x000b"
definition mwMessage_SENSE_SERVICE :: u16 where "mwMessage_SENSE_SERVICE = 0x0011"
definition mwMessage_ADMIN :: u16 where "mwMessage_ADMIN = 0x0019"
definition mwMessage_ANNOUNCE :: u16 where "mwMessage_ANNOUNCE = 0x0022"

lemmas message_types [simp] =
  mwMessage_HANDSHAKE_def mwMessage_HANDSHAKE_ACK_def mwMessage_LOGIN_def
  mwMessage_LOGIN_REDIRECT_def mwMessage_LOGIN_CONTINUE_def mwMessage_LOGIN_ACK_def
  mwMessage_CHANNEL_CREATE_def mwMessage_CHANNEL_DESTROY_def mwMessage_CHANNEL_SEND_def
  mwMessage_CHANNEL_ACCEPT_def mwMessage_SET_USER_STATUS_def mwMessage_SET_PRIVACY_LIST_def
  mwMessage_SENSE_SERVICE_def mwMessage_ADMIN_def mwMessage_ANNOUNCE_def

text \<open>The type of the messages a structure is for.\<close>

primrec body_type :: "mwBody \<Rightarrow> u16" where
  "body_type (Handshake m) = mwMessage_HANDSHAKE"
| "body_type (HandshakeAck m) = mwMessage_HANDSHAKE_ACK"
| "body_type (Login m) = mwMessage_LOGIN"
| "body_type (LoginAck m) = mwMessage_LOGIN_ACK"
| "body_type LoginContinue = mwMessage_LOGIN_CONTINUE"
| "body_type (LoginRedirect m) = mwMessage_LOGIN_REDIRECT"
| "body_type (ChannelCreate m) = mwMessage_CHANNEL_CREATE"
| "body_type (ChannelAccept m) = mwMessage_CHANNEL_ACCEPT"
| "body_type (ChannelSend m) = mwMessage_CHANNEL_SEND"
| "body_type (ChannelDestroy m) = mwMessage_CHANNEL_DESTROY"
| "body_type (SetUserStatus m) = mwMessage_SET_USER_STATUS"
| "body_type (SetPrivacyList m) = mwMessage_SET_PRIVACY_LIST"
| "body_type (SenseService m) = mwMessage_SENSE_SERVICE"
| "body_type (Admin m) = mwMessage_ADMIN"
| "body_type (Announce m) = mwMessage_ANNOUNCE"

text \<open>
  The \<open>switch\<close> of \<open>mwMessage_new\<close> and of \<open>mwMessage_get\<close>: the zeroed structure \<open>g_new0\<close>
  allocates for a type; \<open>None\<close> for an unknown type.
\<close>

definition body_new :: "u16 \<Rightarrow> mwBody option" where
  "body_new type =
     (if type = mwMessage_HANDSHAKE then Some (Handshake hs_zero)
      else if type = mwMessage_HANDSHAKE_ACK then Some (HandshakeAck ha_zero)
      else if type = mwMessage_LOGIN then Some (Login lg_zero)
      else if type = mwMessage_LOGIN_REDIRECT then Some (LoginRedirect lr_zero)
      else if type = mwMessage_LOGIN_CONTINUE then Some LoginContinue
      else if type = mwMessage_LOGIN_ACK then Some (LoginAck la_zero)
      else if type = mwMessage_CHANNEL_CREATE then Some (ChannelCreate cc_zero)
      else if type = mwMessage_CHANNEL_DESTROY then Some (ChannelDestroy cd_zero)
      else if type = mwMessage_CHANNEL_SEND then Some (ChannelSend cs_zero)
      else if type = mwMessage_CHANNEL_ACCEPT then Some (ChannelAccept ca_zero)
      else if type = mwMessage_SET_USER_STATUS then Some (SetUserStatus mwUserStatus_zero)
      else if type = mwMessage_SET_PRIVACY_LIST then Some (SetPrivacyList mwPrivacyInfo_zero)
      else if type = mwMessage_SENSE_SERVICE then Some (SenseService 0)
      else if type = mwMessage_ADMIN then Some (Admin None)
      else if type = mwMessage_ANNOUNCE then Some (Announce an_zero)
      else None)"

definition mwMessageHead_zero :: mwMessageHead where
  "mwMessageHead_zero = \<lparr>mh_type = 0, mh_options = 0, mh_channel = 0, mh_attribs = []\<rparr>"

definition mwMessage_new :: "u16 \<Rightarrow> mwMessage option" where
  "mwMessage_new type =
     (case body_new type of
        None \<Rightarrow> None
      | Some m \<Rightarrow> Some \<lparr>msg_head = mwMessageHead_zero\<lparr>mh_type := type\<rparr>, msg_body = m\<rparr>)"

text \<open>The \<open>switch\<close> of \<open>mwMessage_get\<close>, entered with the zeroed structure of the type.\<close>

definition get_body :: "u32 \<Rightarrow> getbuf \<Rightarrow> mwMessage \<Rightarrow> mwMessage \<times> getbuf" where
  "get_body junk b msg =
     (case msg_body msg of
        Handshake m \<Rightarrow>
          (let (cm, b) = HANDSHAKE_get b (mh_channel (msg_head msg), m) in
           (msg\<lparr>msg_head := (msg_head msg)\<lparr>mh_channel := fst cm\<rparr>, msg_body := Handshake (snd cm)\<rparr>, b))
      | HandshakeAck m \<Rightarrow> (let (m, b) = HANDSHAKE_ACK_get b m in (msg\<lparr>msg_body := HandshakeAck m\<rparr>, b))
      | Login m \<Rightarrow> (let (m, b) = LOGIN_get b m in (msg\<lparr>msg_body := Login m\<rparr>, b))
      | LoginAck m \<Rightarrow> (let (m, b) = LOGIN_ACK_get b m in (msg\<lparr>msg_body := LoginAck m\<rparr>, b))
      | LoginContinue \<Rightarrow> (let (u, b) = LOGIN_CONTINUE_get b () in (msg, b))
      | LoginRedirect m \<Rightarrow> (let (m, b) = LOGIN_REDIRECT_get b m in (msg\<lparr>msg_body := LoginRedirect m\<rparr>, b))
      | ChannelCreate m \<Rightarrow>
          (let (m, b) = CHANNEL_CREATE_get junk b m in (msg\<lparr>msg_body := ChannelCreate m\<rparr>, b))
      | ChannelAccept m \<Rightarrow>
          (let (m, b) = CHANNEL_ACCEPT_get junk b m in (msg\<lparr>msg_body := ChannelAccept m\<rparr>, b))
      | ChannelSend m \<Rightarrow> (let (m, b) = CHANNEL_SEND_get b m in (msg\<lparr>msg_body := ChannelSend m\<rparr>, b))
      | ChannelDestroy m \<Rightarrow>
          (let (m, b) = CHANNEL_DESTROY_get b m in (msg\<lparr>msg_body := ChannelDestroy m\<rparr>, b))
      | SetUserStatus m \<Rightarrow>
          (let (m, b) = SET_USER_STATUS_get b m in (msg\<lparr>msg_body := SetUserStatus m\<rparr>, b))
      | SetPrivacyList m \<Rightarrow>
          (let (m, b) = SET_PRIVACY_LIST_get b m in (msg\<lparr>msg_body := SetPrivacyList m\<rparr>, b))
      | SenseService m \<Rightarrow> (let (m, b) = SENSE_SERVICE_get b m in (msg\<lparr>msg_body := SenseService m\<rparr>, b))
      | Admin m \<Rightarrow> (let (m, b) = ADMIN_get b m in (msg\<lparr>msg_body := Admin m\<rparr>, b))
      | Announce m \<Rightarrow> (let (m, b) = ANNOUNCE_get junk b m in (msg\<lparr>msg_body := Announce m\<rparr>, b)))"

text \<open>\<open>head0\<close> is the uninitialised header on the stack, whose attributes alone are zeroed.\<close>

definition mwMessage_get ::
    "mwMessageHead \<Rightarrow> u32 \<Rightarrow> getbuf \<Rightarrow> mwMessage option \<times> getbuf" where
  "mwMessage_get head0 junk b =
     (let (head, b) = mwMessageHead_get b (head0\<lparr>mh_attribs := []\<rparr>) in
      if gb_error b then (None, b)
      else
        case body_new (mh_type head) of
          None \<Rightarrow> (None, b)
        | Some m \<Rightarrow>
            (let (msg, b) = get_body junk b \<lparr>msg_head = mwMessageHead_clone head, msg_body = m\<rparr> in
             (Some msg, b)))"

text \<open>Acknowledged logins and admin messages are received only: \<open>mwMessage_put\<close> has no case.\<close>

definition mwMessage_put :: "putbuf \<Rightarrow> mwMessage \<Rightarrow> putbuf" where
  "mwMessage_put b msg =
     (let b = mwMessageHead_put b (msg_head msg) in
      case msg_body msg of
        Handshake m \<Rightarrow> HANDSHAKE_put b (mh_channel (msg_head msg), m)
      | HandshakeAck m \<Rightarrow> HANDSHAKE_ACK_put b m
      | Login m \<Rightarrow> LOGIN_put b m
      | LoginAck m \<Rightarrow> b
      | LoginContinue \<Rightarrow> LOGIN_CONTINUE_put b ()
      | LoginRedirect m \<Rightarrow> LOGIN_REDIRECT_put b m
      | ChannelCreate m \<Rightarrow> CHANNEL_CREATE_put b m
      | ChannelAccept m \<Rightarrow> CHANNEL_ACCEPT_put b m
      | ChannelSend m \<Rightarrow> CHANNEL_SEND_put b m
      | ChannelDestroy m \<Rightarrow> CHANNEL_DESTROY_put b m
      | SetUserStatus m \<Rightarrow> SET_USER_STATUS_put b m
      | SetPrivacyList m \<Rightarrow> SET_PRIVACY_LIST_put b m
      | SenseService m \<Rightarrow> SENSE_SERVICE_put b m
      | Admin m \<Rightarrow> b
      | Announce m \<Rightarrow> ANNOUNCE_put b m)"

primrec clear_body :: "mwBody \<Rightarrow> mwBody" where
  "clear_body (Handshake m) = Handshake (HANDSHAKE_clear m)"
| "clear_body (HandshakeAck m) = HandshakeAck (HANDSHAKE_ACK_clear m)"
| "clear_body (Login m) = Login (LOGIN_clear m)"
| "clear_body (LoginAck m) = LoginAck (LOGIN_ACK_clear m)"
| "clear_body LoginContinue = LoginContinue"
| "clear_body (LoginRedirect m) = LoginRedirect (LOGIN_REDIRECT_clear m)"
| "clear_body (ChannelCreate m) = ChannelCreate (CHANNEL_CREATE_clear m)"
| "clear_body (ChannelAccept m) = ChannelAccept (CHANNEL_ACCEPT_clear m)"
| "clear_body (ChannelSend m) = ChannelSend (CHANNEL_SEND_clear m)"
| "clear_body (ChannelDestroy m) = ChannelDestroy (CHANNEL_DESTROY_clear m)"
| "clear_body (SetUserStatus m) = SetUserStatus (SET_USER_STATUS_clear m)"
| "clear_body (SetPrivacyList m) = SetPrivacyList (SET_PRIVACY_LIST_clear m)"
| "clear_body (SenseService m) = SenseService m"
| "clear_body (Admin m) = Admin (ADMIN_clear m)"
| "clear_body (Announce m) = Announce (ANNOUNCE_clear m)"

text \<open>What \<open>mwMessage_free\<close> leaves in the structure when it hands its block back.\<close>

definition mwMessage_free :: "mwMessage \<Rightarrow> mwMessage" where
  "mwMessage_free msg =
     \<lparr>msg_head = mwMessageHead_clear (msg_head msg), msg_body = clear_body (msg_body msg)\<rparr>"

section \<open>What is sent and what is received\<close>

text \<open>
  \<open>enc_body u msg\<close> are the bytes of the body that the reader takes (\<open>u\<close> is the field of the
  acknowledged login it drops), \<open>body_tail\<close> the bytes the writer adds after them.
\<close>

definition enc_body :: "u16 \<Rightarrow> mwMessage \<Rightarrow> bytes" where
  "enc_body u msg =
     (case msg_body msg of
        Handshake m \<Rightarrow> enc_handshake (mh_channel (msg_head msg), m)
      | HandshakeAck m \<Rightarrow> enc_handshake_ack m
      | Login m \<Rightarrow> enc_lg m
      | LoginAck m \<Rightarrow> enc_la u m
      | LoginContinue \<Rightarrow> []
      | LoginRedirect m \<Rightarrow> enc_lr m
      | ChannelCreate m \<Rightarrow> enc_cc m @ enc_offer_in (cc_encrypt m)
      | ChannelAccept m \<Rightarrow> enc_ca m @ enc_accept_in (ca_encrypt m)
      | ChannelSend m \<Rightarrow> enc_cs m
      | ChannelDestroy m \<Rightarrow> enc_cd m
      | SetUserStatus m \<Rightarrow> enc_status m
      | SetPrivacyList m \<Rightarrow> enc_privacy m
      | SenseService m \<Rightarrow> be32 m
      | Admin m \<Rightarrow> enc_str m
      | Announce m \<Rightarrow> enc_an m)"

primrec body_tail :: "mwBody \<Rightarrow> bytes" where
  "body_tail (Handshake m) = []"
| "body_tail (HandshakeAck m) = []"
| "body_tail (Login m) = be16 0"
| "body_tail (LoginAck m) = []"
| "body_tail LoginContinue = []"
| "body_tail (LoginRedirect m) = []"
| "body_tail (ChannelCreate m) = offer_tail (eo_items (cc_encrypt m) \<noteq> [])"
| "body_tail (ChannelAccept m) = offer_tail (ea_item (ca_encrypt m) \<noteq> None)"
| "body_tail (ChannelSend m) = []"
| "body_tail (ChannelDestroy m) = []"
| "body_tail (SetUserStatus m) = []"
| "body_tail (SetPrivacyList m) = []"
| "body_tail (SenseService m) = []"
| "body_tail (Admin m) = []"
| "body_tail (Announce m) = []"

definition body_fits :: "mwBody \<Rightarrow> bool" where
  "body_fits body =
     (case body of
        Handshake m \<Rightarrow> handshake_fits (0, m)
      | HandshakeAck m \<Rightarrow> handshake_ack_fits m
      | Login m \<Rightarrow> lg_fits m
      | LoginAck m \<Rightarrow> la_fits m
      | LoginContinue \<Rightarrow> True
      | LoginRedirect m \<Rightarrow> lr_fits m
      | ChannelCreate m \<Rightarrow> cc_fits m
      | ChannelAccept m \<Rightarrow> ca_fits m
      | ChannelSend m \<Rightarrow> cs_fits m
      | ChannelDestroy m \<Rightarrow> cd_fits m
      | SetUserStatus m \<Rightarrow> status_fits m
      | SetPrivacyList m \<Rightarrow> privacy_fits m
      | SenseService m \<Rightarrow> True
      | Admin m \<Rightarrow> str_fits m
      | Announce m \<Rightarrow> an_fits m)"

text \<open>What a reader that starts from the zeroed structure makes of a body.\<close>

primrec body_res :: "mwBody \<Rightarrow> mwBody" where
  "body_res (Handshake m) = Handshake (snd (handshake_res (0, hs_zero) (0, m)))"
| "body_res (HandshakeAck m) = HandshakeAck (handshake_ack_res ha_zero m)"
| "body_res (Login m) = Login (lg_res lg_zero m)"
| "body_res (LoginAck m) = LoginAck (la_res la_zero m)"
| "body_res LoginContinue = LoginContinue"
| "body_res (LoginRedirect m) = LoginRedirect (lr_res lr_zero m)"
| "body_res (ChannelCreate m) = ChannelCreate (cc_res cc_zero m)"
| "body_res (ChannelAccept m) = ChannelAccept (ca_res ca_zero m)"
| "body_res (ChannelSend m) = ChannelSend m"
| "body_res (ChannelDestroy m) = ChannelDestroy m"
| "body_res (SetUserStatus m) = SetUserStatus (status_res mwUserStatus_zero m)"
| "body_res (SetPrivacyList m) = SetPrivacyList (privacy_res mwPrivacyInfo_zero m)"
| "body_res (SenseService m) = SenseService m"
| "body_res (Admin m) = Admin (str_norm m)"
| "body_res (Announce m) = Announce (an_res an_zero m)"

definition enc_msg :: "u16 \<Rightarrow> mwMessage \<Rightarrow> bytes" where
  "enc_msg u msg = enc_head (msg_head msg) @ enc_body u msg"

definition msg_fits :: "mwMessage \<Rightarrow> bool" where
  "msg_fits msg \<longleftrightarrow> head_fits (msg_head msg) \<and> body_fits (msg_body msg) \<and>
     mh_type (msg_head msg) = body_type (msg_body msg)"

definition msg_res :: "mwMessage \<Rightarrow> mwMessage" where
  "msg_res msg =
     \<lparr>msg_head = head_res mwMessageHead_zero (msg_head msg), msg_body = body_res (msg_body msg)\<rparr>"

primrec sendable :: "mwBody \<Rightarrow> bool" where
  "sendable (Handshake m) = True"
| "sendable (HandshakeAck m) = True"
| "sendable (Login m) = True"
| "sendable (LoginAck m) = False"
| "sendable LoginContinue = True"
| "sendable (LoginRedirect m) = True"
| "sendable (ChannelCreate m) = True"
| "sendable (ChannelAccept m) = True"
| "sendable (ChannelSend m) = True"
| "sendable (ChannelDestroy m) = True"
| "sendable (SetUserStatus m) = True"
| "sendable (SetPrivacyList m) = True"
| "sendable (SenseService m) = True"
| "sendable (Admin m) = False"
| "sendable (Announce m) = True"

lemmas body_zero_simps = body_new_def

lemma mwMessage_put_spec:
  assumes "pb_wf b" and "msg_fits msg" and "sendable (msg_body msg)"
  shows "pb_wf (mwMessage_put b msg)"
    and "mwPutBuffer_finalize (mwMessage_put b msg) =
      mwPutBuffer_finalize b @ enc_msg u msg @ body_tail (msg_body msg)"
proof -
  have h: "pb_wf (mwMessageHead_put b (msg_head msg))"
    "mwPutBuffer_finalize (mwMessageHead_put b (msg_head msg)) =
      mwPutBuffer_finalize b @ enc_head (msg_head msg)"
    using assms by (simp_all add: msg_fits_def put_steps)
  have "body_fits (msg_body msg)" using assms by (simp add: msg_fits_def)
  with h assms(3) show "pb_wf (mwMessage_put b msg)"
    "mwPutBuffer_finalize (mwMessage_put b msg) =
      mwPutBuffer_finalize b @ enc_msg u msg @ body_tail (msg_body msg)"
    unfolding mwMessage_put_def enc_msg_def enc_body_def body_fits_def Let_def
    by (cases "msg_body msg"; simp add: handshake_fits_def put_steps)+
qed

lemma get_body_fed:
  assumes "feeds g (enc_body u msg @ e) rest" and "body_fits (msg_body msg)"
    and "body_new (body_type (msg_body msg)) = Some m0"
  shows "gives e rest (msg\<lparr>msg_body := body_res (msg_body msg)\<rparr>) (get_body junk g (msg\<lparr>msg_body := m0\<rparr>))"
  using assms
  by (cases "msg_body msg")
    (auto simp: get_body_def enc_body_def body_fits_def Let_def body_zero_simps
      handshake_fits_def handshake_res_def intro!: fed_steps)


lemma get_body_wf: "gb_wf g \<Longrightarrow> stays_wf (get_body junk g msg)"
  by (cases "msg_body msg") (auto simp: get_body_def Let_def intro!: wf_steps)

lemma body_new_some: "\<exists>m0. body_new (body_type m) = Some m0"
  by (cases m) (simp_all add: body_zero_simps)

lemma enc_body_head:
  "mh_channel (msg_head msg') = mh_channel (msg_head msg) \<Longrightarrow> msg_body msg' = msg_body msg \<Longrightarrow>
   enc_body u msg' = enc_body u msg"
  by (cases "msg_body msg") (simp_all add: enc_body_def)

lemma clone_head [simp]: "mwMessageHead_clone h = h"
  by (simp add: mwMessageHead_clone_def mwOpaque_clone_def)

lemma head_res_simps [simp]:
  "head_res (h0\<lparr>mh_attribs := []\<rparr>) h = head_res mwMessageHead_zero h"
  "mh_type (head_res h0 h) = mh_type h" "mh_channel (head_res h0 h) = mh_channel h"
  by (simp_all add: head_res_def mwMessageHead_zero_def)

lemma mwMessage_get_fed:
  assumes "feeds g (enc_msg u msg @ e) rest" and "msg_fits msg"
  shows "gives e rest (Some (msg_res msg)) (mwMessage_get head0 junk g)"
proof -
  let ?msg = "\<lparr>msg_head = head_res mwMessageHead_zero (msg_head msg), msg_body = msg_body msg\<rparr>"
  have ok: "head_fits (msg_head msg)" "body_fits (msg_body msg)"
    "mh_type (msg_head msg) = body_type (msg_body msg)"
    using assms(2) by (auto simp: msg_fits_def)
  obtain m0 where m0: "body_new (body_type (msg_body msg)) = Some m0" using body_new_some by blast
  have eb: "enc_body u ?msg = enc_body u msg" by (rule enc_body_head) simp_all
  have f: "feeds g (enc_head (msg_head msg) @ enc_body u ?msg @ e) rest"
    using assms(1) by (simp add: enc_msg_def eb)
  show ?thesis
    unfolding mwMessage_get_def Let_def
  proof (rule head.fed_step [OF f ok(1)])
    fix g' assume g': "feeds g' (enc_body u ?msg @ e) rest"
    have "gives e rest (?msg\<lparr>msg_body := body_res (msg_body msg)\<rparr>)
        (get_body junk g' (?msg\<lparr>msg_body := m0\<rparr>))"
      using get_body_fed [OF g', of m0] ok(2) m0 by simp
    then show "gives e rest (Some (msg_res msg))
       (if gb_error g' then (None, g')
        else case body_new (mh_type (head_res (head0\<lparr>mh_attribs := []\<rparr>) (msg_head msg))) of
          None \<Rightarrow> (None, g')
        | Some m \<Rightarrow>
            case get_body junk g'
              \<lparr>msg_head = mwMessageHead_clone (head_res (head0\<lparr>mh_attribs := []\<rparr>) (msg_head msg)),
               msg_body = m\<rparr> of
              (msg, b) \<Rightarrow> (Some msg, b))"
      using g' ok(3) m0
      by (auto simp: feeds_not_error gives_def msg_res_def split: prod.split)
  qed
qed


lemma mwMessage_get_wf:
  assumes "gb_wf g"
  shows "stays_wf (mwMessage_get head0 junk g)"
proof -
  have body: "stays_wf (case get_body junk g' m of (msg, b) \<Rightarrow> (Some msg, b))" if "gb_wf g'" for g' m
    using get_body_wf [OF that, of junk m] by (cases "get_body junk g' m") simp
  show ?thesis
    unfolding mwMessage_get_def Let_def
    by (rule head.wf_step [OF assms]) (auto simp: body split: option.split)
qed

section \<open>An announcement that ends before its recipients\<close>

lemma get_recipients_length: "length (fst (get_recipients g rs n)) = length rs + n"
  by (induction n arbitrary: g rs) (auto simp: Let_def split: prod.split)

lemma ANNOUNCE_get_no_data:
  assumes "gb_rem g = 0" and "\<not> gb_error g" and "\<not> an_sender_present m"
  shows "length (an_recipients (fst (ANNOUNCE_get junk g m))) = length (an_recipients m) + unat junk"
proof -
  let ?g = "g\<lparr>gb_error := True\<rparr>"
  have "gboolean_get g (an_sender_present m) = (an_sender_present m, ?g)"
    using assms by (simp add: gboolean_get_eq take_bytes_def)
  moreover have "guint16_get ?g x = (x, ?g)" "guint32_get ?g y = (y, ?g)" "mwOpaque_get ?g z = ([], ?g)"
    for x y z by (simp_all add: guint16_get_def guint32_get_def mwOpaque_get_def)
  ultimately show ?thesis
    using assms(3) get_recipients_length [of ?g "an_recipients m" "unat junk"]
    by (simp add: ANNOUNCE_get_def Let_def split_beta)
qed

section \<open>Properties\<close>

definition redirect_message :: mwMessage where
  "redirect_message =
     \<lparr>msg_head = mwMessageHead_zero\<lparr>mh_type := 0x0018\<rparr>,
      msg_body = LoginRedirect \<lparr>lr_host = Some [0x68, 0x31], lr_server_id = None\<rparr>\<rparr>"

text \<open>
  The strings and messages the format has room for: it cannot tell an empty string from none,
  a string ends at its terminator, a field that a flag or version suppresses is not sent, and
  the reader of a status drops the time it read.
\<close>

definition exact_str :: "mwstring \<Rightarrow> bool" where
  "exact_str v = (case v of None \<Rightarrow> True | Some s \<Rightarrow> s \<noteq> [] \<and> 0 \<notin> set s)"

definition exact_login :: "mwLoginInfo \<Rightarrow> bool" where
  "exact_login v \<longleftrightarrow>
     list_all exact_str [li_login_id v, li_user_id v, li_user_name v, li_community v, li_desc v,
       li_server_id v] \<and>
     (li_full v \<or> li_desc v = None \<and> li_ip_addr v = 0 \<and> li_server_id v = None)"

definition exact_user :: "mwUserItem \<Rightarrow> bool" where
  "exact_user v \<longleftrightarrow> list_all exact_str [ui_id v, ui_community v, ui_name v] \<and>
     (ui_full v \<or> ui_name v = None)"

definition exact_status :: "mwUserStatus \<Rightarrow> bool" where
  "exact_status v \<longleftrightarrow> exact_str (us_desc v) \<and> us_time v = 0"

definition exact_offer :: "mwEncryptOffer \<Rightarrow> bool" where
  "exact_offer v \<longleftrightarrow> eo_items v \<noteq> [] \<or> eo_extra v = 0 \<and> \<not> eo_flag v"

definition exact_accept :: "mwEncryptAccept \<Rightarrow> bool" where
  "exact_accept v \<longleftrightarrow> ea_item v \<noteq> None \<or> ea_extra v = 0 \<and> \<not> ea_flag v"

definition exact_body :: "mwBody \<Rightarrow> bool" where
  "exact_body body =
     (case body of
        Handshake m \<Rightarrow> exact_str (hs_local_host m) \<and>
          (hs_major m \<ge> 0x1e \<and> hs_minor m \<ge> 0x1d \<or>
           hs_unknown_a m = 0 \<and> hs_unknown_b m = 0 \<and> hs_local_host m = None)
      | HandshakeAck m \<Rightarrow>
          ha_major m \<ge> 0x1e \<and> ha_minor m > 0x18 \<or> ha_magic m = 0 \<and> ha_data m = []
      | Login m \<Rightarrow> exact_str (lg_name m)
      | LoginAck m \<Rightarrow> exact_login (la_login m) \<and> list_all exact_user (pi_users (la_privacy m)) \<and>
          exact_status (la_status m)
      | LoginContinue \<Rightarrow> True
      | LoginRedirect m \<Rightarrow> exact_str (lr_host m) \<and> exact_str (lr_server_id m)
      | ChannelCreate m \<Rightarrow> exact_str (id_user (cc_target m)) \<and> exact_str (id_community (cc_target m)) \<and>
          (if cc_creator_flag m then exact_login (cc_creator m) else cc_creator m = mwLoginInfo_zero) \<and>
          exact_offer (cc_encrypt m)
      | ChannelAccept m \<Rightarrow>
          (if ca_acceptor_flag m then exact_login (ca_acceptor m) else ca_acceptor m = mwLoginInfo_zero) \<and>
          exact_accept (ca_encrypt m)
      | ChannelSend m \<Rightarrow> True
      | ChannelDestroy m \<Rightarrow> True
      | SetUserStatus m \<Rightarrow> exact_status m
      | SetPrivacyList m \<Rightarrow> list_all exact_user (pi_users m)
      | SenseService m \<Rightarrow> True
      | Admin m \<Rightarrow> exact_str m
      | Announce m \<Rightarrow> exact_str (an_text m) \<and> list_all exact_str (an_recipients m) \<and>
          (if an_sender_present m then exact_login (an_sender m) else an_sender m = mwLoginInfo_zero))"

definition exact_msg :: "mwMessage \<Rightarrow> bool" where
  "exact_msg msg \<longleftrightarrow>
     exact_body (msg_body msg) \<and>
     (has_attribs (mh_options (msg_head msg)) \<or> mh_attribs (msg_head msg) = [])"

text \<open>The message as the other side has it: the reader prepends each recipient of an announcement.\<close>

definition as_received :: "mwMessage \<Rightarrow> mwMessage" where
  "as_received msg =
     (case msg_body msg of
        Announce m \<Rightarrow> msg\<lparr>msg_body := Announce (m\<lparr>an_recipients := rev (an_recipients m)\<rparr>)\<rparr>
      | _ \<Rightarrow> msg)"

lemma exact_str_norm:
  assumes "exact_str v"
  shows "str_norm v = v"
proof (cases v)
  case (Some s)
  then have "c_str s = s" using assms by (auto simp: exact_str_def c_str_def takeWhile_eq_all_conv)
  then show ?thesis using assms Some by (simp add: exact_str_def str_norm_def str_chars_def)
qed (simp add: str_norm_def str_chars_def)

lemma exact_strs: "list_all exact_str vs \<Longrightarrow> map str_norm vs = vs"
  by (induction vs) (simp_all add: exact_str_norm)

lemma exact_login_res: "exact_login v \<Longrightarrow> login_res mwLoginInfo_zero v = v"
  by (auto simp: exact_login_def login_res_def exact_str_norm mwLoginInfo_zero_def)

lemma exact_users_res: "list_all exact_user us \<Longrightarrow> map (user_res mwUserItem_zero) us = us"
  by (induction us) (auto simp: exact_user_def user_res_def exact_str_norm mwUserItem_zero_def)

lemma exact_privacy_res:
  "list_all exact_user (pi_users v) \<Longrightarrow> privacy_fits v \<Longrightarrow> privacy_res mwPrivacyInfo_zero v = v"
  by (auto simp: privacy_res_def privacy_fits_def mwPrivacyInfo_zero_def exact_users_res)

lemma exact_status_res: "exact_status v \<Longrightarrow> status_res mwUserStatus_zero v = v"
  by (simp add: exact_status_def status_res_def exact_str_norm)

lemma exact_offer_res: "exact_offer v \<Longrightarrow> offer_res eo_zero v = v"
  by (auto simp: exact_offer_def offer_res_def eo_zero_def)

lemma exact_accept_res: "exact_accept v \<Longrightarrow> accept_res ea_zero v = v"
  by (auto simp: exact_accept_def accept_res_def ea_zero_def split: option.split)

lemmas exact_res = exact_str_norm exact_strs exact_login_res exact_privacy_res exact_status_res
  exact_offer_res exact_accept_res

lemma exact_body_res:
  "exact_body body \<Longrightarrow> body_fits body \<Longrightarrow>
   body_res body = msg_body (as_received \<lparr>msg_head = h, msg_body = body\<rparr>)"
  by (cases body)
    (auto simp: exact_body_def body_fits_def as_received_def exact_res handshake_res_def hs_more_def
      handshake_ack_res_def ha_more_def lg_res_def la_res_def la_fits_def lr_res_def cc_res_def
      ca_res_def an_res_def id_res_def hs_zero_def ha_zero_def la_zero_def cc_zero_def ca_zero_def
      an_zero_def)

lemma exact_msg_res:
  assumes "exact_msg msg" and "msg_fits msg"
  shows "msg_res msg = as_received msg"
proof -
  have "body_res (msg_body msg) = msg_body (as_received msg)"
    using exact_body_res [of "msg_body msg" "msg_head msg"] assms
    by (cases msg) (simp add: exact_msg_def msg_fits_def)
  moreover have "head_res mwMessageHead_zero (msg_head msg) = msg_head (as_received msg)"
    using assms by (auto simp: exact_msg_def head_res_def mwMessageHead_zero_def as_received_def
        split: mwBody.split)
  ultimately show ?thesis by (simp add: msg_res_def)
qed

lemma redirect_message_exact: "exact_msg redirect_message" "as_received redirect_message = redirect_message"
  by (simp_all add: redirect_message_def exact_msg_def exact_body_def exact_str_def
      mwMessageHead_zero_def as_received_def)

lemma redirect_message_fits: "msg_fits redirect_message" "sendable (msg_body redirect_message)"
  by (simp_all add: redirect_message_def msg_fits_def head_fits_def body_fits_def lr_fits_def
      mwMessageHead_zero_def opaque_fits_def str_fits_def str_chars_def c_str_def)

text \<open>
  C1: a message of one of the thirteen types \<open>mwMessage_put\<close> knows, whose strings are shorter
  than 65536 bytes and whose blocks and lists are shorter than \<open>2 ^ 32\<close> (\<open>msg_fits\<close>), is read by
  \<open>mwMessage_get\<close> from the bytes \<open>mwMessage_put\<close> made of it, without an error.  If it has only
  what the format can carry (\<open>exact_msg\<close>: no empty strings, the fields that a flag or version
  suppresses zero, and no time in a status) the message read is the message written, but for
  the recipients of an announcement, which come back in the opposite order; of any other
  message it is what \<open>msg_res\<close> gives.  The reader stops where the message ends, except for the
  trailing field it is documented not to read (\<open>body_tail\<close>), and leaves any bytes after it
  untouched.
\<close>

theorem mwMessage_roundtrip:
  assumes "msg_fits msg" and "sendable (msg_body msg)"
  shows "\<exists>m g. mwMessage_get head0 junk (mwGetBuffer_wrap
             (Some (mwPutBuffer_finalize (mwMessage_put mwPutBuffer_new msg) @ rest))) =
           (Some m, g) \<and>
         (exact_msg msg \<longrightarrow> m = as_received msg) \<and> m = msg_res msg \<and>
         \<not> gb_error g \<and> unread g = body_tail (msg_body msg) @ rest"
proof -
  have out: "mwPutBuffer_finalize (mwMessage_put mwPutBuffer_new msg) =
      enc_msg 0 msg @ body_tail (msg_body msg)"
    using mwMessage_put_spec(2) [OF pb_wf_new assms, of 0] by simp
  have "feeds (mwGetBuffer_wrap (Some (enc_msg 0 msg @ body_tail (msg_body msg) @ rest)))
      (enc_msg 0 msg @ []) (body_tail (msg_body msg) @ rest)"
    using feeds_wrap [of "enc_msg 0 msg"] by simp
  from mwMessage_get_fed [OF this assms(1), of head0 junk] show ?thesis
    using exact_msg_res [OF _ assms(1)] by (auto simp: out gives_def feeds_def prod_eq_iff)
qed

theorem mwMessage_roundtrip_witness:
  "\<exists>g. mwMessage_get mwMessageHead_zero 0 (mwGetBuffer_wrap
     (Some (mwPutBuffer_finalize (mwMessage_put mwPutBuffer_new redirect_message) @ [1, 2]))) =
       (Some redirect_message, g) \<and>
     \<not> gb_error g \<and> unread g = body_tail (msg_body redirect_message) @ [1, 2]"
  using mwMessage_roundtrip [OF redirect_message_fits, of mwMessageHead_zero 0 "[1, 2]"]
    redirect_message_exact by auto



text \<open>
  C33: whatever bytes arrive, reading a message from them keeps the read position inside the
  buffer and consistent with the count of bytes remaining, so no read is out of bounds.
\<close>

theorem mwMessage_get_any_bytes:
  "gb_wf (snd (mwMessage_get head0 junk (mwGetBuffer_wrap d)))"
  using mwMessage_get_wf [of "mwGetBuffer_wrap d" head0 junk] by (simp add: stays_wf_def)

text \<open>
  an announcement that ends right after the head of its message is read with the number
  of recipients an uninitialised variable happens to hold: that many recipients are
  allocated although the buffer has no byte left.
\<close>

theorem announce_uninitialised_count:
  assumes "head_fits h" and "mh_type h = body_type (Announce an_zero)"
  shows "\<exists>m g. mwMessage_get head0 junk (mwGetBuffer_wrap (Some (enc_head h))) =
             (Some \<lparr>msg_head = head_res mwMessageHead_zero h, msg_body = Announce m\<rparr>, g) \<and>
           length (an_recipients m) = unat junk"
proof -
  have f: "feeds (mwGetBuffer_wrap (Some (enc_head h))) (enc_head h @ []) []"
    using feeds_wrap [of "enc_head h" "[]"] by simp
  obtain g where g: "mwMessageHead_get (mwGetBuffer_wrap (Some (enc_head h))) (head0\<lparr>mh_attribs := []\<rparr>) =
      (head_res mwMessageHead_zero h, g)" and "feeds g [] []"
    using head.get_fed [OF f assms(1), of "head0\<lparr>mh_attribs := []\<rparr>"]
    by (cases "mwMessageHead_get (mwGetBuffer_wrap (Some (enc_head h))) (head0\<lparr>mh_attribs := []\<rparr>)") auto
  then have e: "gb_rem g = 0" "\<not> gb_error g"
    using length_unread [of g] by (auto simp: feeds_def)
  have "body_new (mh_type h) = Some (Announce an_zero)"
    using assms(2) by (simp add: body_zero_simps)
  moreover have "\<exists>m g'. ANNOUNCE_get junk g an_zero = (m, g') \<and> length (an_recipients m) = unat junk"
    using ANNOUNCE_get_no_data [OF e, of an_zero junk]
    by (cases "ANNOUNCE_get junk g an_zero") (simp add: an_zero_def)
  ultimately show ?thesis
    using g e by (auto simp: mwMessage_get_def get_body_def)
qed

definition announce_head :: mwMessageHead where
  "announce_head = mwMessageHead_zero\<lparr>mh_type := body_type (Announce an_zero)\<rparr>"

theorem announce_uninitialised_count_witness:
  "\<exists>m g. mwMessage_get mwMessageHead_zero 1000000 (mwGetBuffer_wrap (Some (enc_head announce_head))) =
       (Some \<lparr>msg_head = head_res mwMessageHead_zero announce_head, msg_body = Announce m\<rparr>, g) \<and>
     length (an_recipients m) = unat (1000000 :: u32)"
  by (rule announce_uninitialised_count)
    (simp_all add: announce_head_def head_fits_def mwMessageHead_zero_def opaque_fits_def)

end
