(* ===== verification/MwStream.thy ===== *)
theory MwStream imports MwMessage begin

text \<open>
  How a Sametime session cuts its input into messages (\<open>session_recv\<close> and its parts in
  \<open>protocols/Sametime/src/meanwhile/src/session.c\<close>): the network hands over chunks of bytes
  of any size, a message is four bytes of length and that many bytes, and between messages
  bytes of 0x80 and above are ignored.

  The functions return the payloads handed to \<open>session_process\<close>, in order.  While one is
  processed the session may be stopped, which frees the input buffer; the buffer is empty at
  that moment in any case, so the payloads do not depend on it.  Sizes are naturals: the
  addition \<open>x + 4\<close> of the code does not wrap on a 64-bit \<open>gsize\<close>.
\<close>

section \<open>The buffer of a session\<close>

record inbuf =
  ib_buf :: bytes
  ib_len :: nat
  ib_used :: nat

definition session_buf_free :: "inbuf \<Rightarrow> inbuf" where
  "session_buf_free s = \<lparr>ib_buf = [], ib_len = 0, ib_used = 0\<rparr>"

text \<open>\<open>memcpy (s->buf + s->buf_used, b, n)\<close>; past the end it would lengthen the block.\<close>

definition buf_copy :: "bytes \<Rightarrow> nat \<Rightarrow> bytes \<Rightarrow> bytes" where
  "buf_copy buf p d = take p buf @ d @ drop (p + length d) buf"

text \<open>\<open>g_malloc (x)\<close>: the contents do not matter; zeros stand for them.\<close>

definition fresh_buf :: "nat \<Rightarrow> bytes" where
  "fresh_buf x = replicate x 0"

text \<open>\<open>guint32_peek\<close> through a wrapped buffer.\<close>

definition peek_length :: "bytes \<Rightarrow> nat" where
  "peek_length b = unat (guint32_peek (mwGetBuffer_wrap (Some b)))"

text \<open>A zero-length message is not processed.\<close>

definition session_process_list :: "bytes \<Rightarrow> bytes list" where
  "session_process_list buf = (if buf = [] then [] else [buf])"

text \<open>Each step returns the payloads, the bytes of the chunk that are left, and the buffer.\<close>

definition session_recv_cont :: "inbuf \<Rightarrow> bytes \<Rightarrow> bytes list \<times> bytes \<times> inbuf" where
  "session_recv_cont s b =
     (let n = length b; x = ib_len s - ib_used s in
      if n < x then
        ([], [], s\<lparr>ib_buf := buf_copy (ib_buf s) (ib_used s) b, ib_used := ib_used s + n\<rparr>)
      else
        let s = s\<lparr>ib_buf := buf_copy (ib_buf s) (ib_used s) (take x b)\<rparr>;
            b = drop x b; n = n - x in
        if ib_len s = 4 then
          (let x = peek_length (take 4 (ib_buf s)) in
           if n < x then
             (let x = x + 4;
                  t = buf_copy (buf_copy (fresh_buf x) 0 (take 4 (ib_buf s))) 4 b in
              ([], [], \<lparr>ib_buf = t, ib_len = x, ib_used = n + 4\<rparr>))
           else
             (session_process_list (take x b), drop x b, session_buf_free s))
        else
          (session_process_list (take (ib_len s - 4) (drop 4 (ib_buf s))), b, session_buf_free s))"

definition session_recv_empty :: "inbuf \<Rightarrow> bytes \<Rightarrow> bytes list \<times> bytes \<times> inbuf" where
  "session_recv_empty s b =
     (let n = length b in
      if n < 4 then
        ([], [], s\<lparr>ib_buf := buf_copy (fresh_buf 4) 0 b, ib_len := 4, ib_used := n\<rparr>)
      else
        let x = peek_length b in
        if x = 0 then ([], drop 4 b, s)
        else if n < x + 4 then
          (let x = x + 4 in
           ([], [], s\<lparr>ib_buf := buf_copy (fresh_buf x) 0 b, ib_len := x, ib_used := n\<rparr>))
        else
          (let b = drop 4 b in (session_process_list (take x b), drop x b, s)))"

text \<open>Keep-alive and series bytes are dropped while nothing is buffered.\<close>

definition is_mark :: "u8 \<Rightarrow> bool" where
  "is_mark c \<longleftrightarrow> c AND 0x80 \<noteq> 0"

definition session_recv :: "inbuf \<Rightarrow> bytes \<Rightarrow> bytes list \<times> bytes \<times> inbuf" where
  "session_recv s b =
     (let b = (if ib_len s = 0 then dropWhile is_mark b else b) in
      if b = [] then ([], [], s)
      else if ib_len s > 0 then session_recv_cont s b
      else session_recv_empty s b)"

lemma session_recv_progress:
  assumes "b \<noteq> []" and "(ms, b', s') = session_recv s b"
  shows "length b' \<le> length b \<and> (length b' < length b \<or> ib_len s' < ib_len s)"
proof (cases "ib_len s = 0")
  case True
  have "length (dropWhile is_mark b) \<le> length b" by (simp add: length_dropWhile_le)
  then show ?thesis
    using assms(1) assms(2) [symmetric] True
    by (auto simp: session_recv_def session_recv_empty_def Let_def split: if_splits)
next
  case False
  then show ?thesis
    using assms(1) assms(2) [symmetric]
    by (auto simp: session_recv_def session_recv_cont_def Let_def session_buf_free_def
        split: if_splits)
qed

text \<open>\<open>while (n > 0)\<close>: every round takes bytes, or empties the buffer.\<close>

function mwSession_recv :: "inbuf \<Rightarrow> bytes \<Rightarrow> bytes list \<times> inbuf" where
  "mwSession_recv s b =
     (if b = [] then ([], s)
      else
        let (ms, b', s') = session_recv s b; (ms', s'') = mwSession_recv s' b' in
        (ms @ ms', s''))"
  by pat_completeness auto
termination
  by (relation "inv_image (less_than <*lex*> less_than) (\<lambda>(s, b). (length b, ib_len s))")
    (auto simp: less_le dest: session_recv_progress)

declare mwSession_recv.simps [simp del]

definition inbuf_new :: inbuf where
  "inbuf_new = \<lparr>ib_buf = [], ib_len = 0, ib_used = 0\<rparr>"

section \<open>The messages of a stream\<close>

text \<open>What a stream is: the payloads of its complete messages, and the bytes left over.\<close>

function frames :: "bytes \<Rightarrow> bytes list \<times> bytes" where
  "frames b =
     (let b = dropWhile is_mark b in
      if length b < 4 then ([], b)
      else
        let x = peek_length b in
        if length b < x + 4 then ([], b)
        else
          let (ms, rest) = frames (drop (x + 4) b) in
          (session_process_list (take x (drop 4 b)) @ ms, rest))"
  by pat_completeness auto
termination
proof (relation "measure length")
  fix b ba x :: bytes
  fix n :: nat
  assume "ba = dropWhile is_mark b" and "\<not> length ba < 4"
  then have "length ba \<le> length b" "4 \<le> length ba" by (auto simp: length_dropWhile_le)
  then show "(drop (n + 4) ba, b) \<in> measure length" by auto
qed auto

declare frames.simps [simp del]

text \<open>The invariant of the buffer: what it holds is the beginning of a message.\<close>

definition ib_wf :: "inbuf \<Rightarrow> bool" where
  "ib_wf s \<longleftrightarrow>
     (if ib_len s = 0 then s = inbuf_new
      else
        length (ib_buf s) = ib_len s \<and> 0 < ib_used s \<and> ib_used s < ib_len s \<and> 4 \<le> ib_len s \<and>
        \<not> is_mark (hd (ib_buf s)) \<and>
        (4 < ib_len s \<longrightarrow> 4 \<le> ib_used s \<and> ib_len s = peek_length (ib_buf s) + 4))"

text \<open>The bytes received and not yet processed.\<close>

definition pending :: "inbuf \<Rightarrow> bytes" where
  "pending s = take (ib_used s) (ib_buf s)"

lemma peek_length_prefix: "4 \<le> length b \<Longrightarrow> peek_length (b @ c) = peek_length b"
  by (cases "b = []") (simp_all add: peek_length_def guint32_peek_def mwGetBuffer_wrap_def
      mwGetBuffer_new_def MW32_GET_def nth_append)

lemma peek_length_take: "4 \<le> n \<Longrightarrow> 4 \<le> length b \<Longrightarrow> peek_length (take n b) = peek_length b"
  using peek_length_prefix [of "take n b" "drop n b"] by simp

lemma frames_marks: "frames (dropWhile is_mark b) = frames b"
proof -
  have "dropWhile is_mark (dropWhile is_mark b) = dropWhile is_mark b" by (simp add: dropWhile_idem)
  then show ?thesis by (subst (1 2) frames.simps) simp
qed

lemma frames_short:
  "b = [] \<or> \<not> is_mark (hd b) \<Longrightarrow> length b < 4 \<or> length b < peek_length b + 4 \<Longrightarrow> frames b = ([], b)"
  by (subst frames.simps) (cases b; auto simp: Let_def)

lemma frames_whole:
  "\<not> is_mark (hd b) \<Longrightarrow> 4 \<le> length b \<Longrightarrow> peek_length b = x \<Longrightarrow> x + 4 \<le> length b \<Longrightarrow>
   frames b = (session_process_list (take x (drop 4 b)) @ fst (frames (drop (x + 4) b)),
               snd (frames (drop (x + 4) b)))"
  by (subst frames.simps) (cases b; auto simp: Let_def split: prod.split)

lemma frames_head: "snd (frames b) = [] \<or> \<not> is_mark (hd (snd (frames b)))"
proof (induction "length b" arbitrary: b rule: less_induct)
  case less
  let ?b = "dropWhile is_mark b"
  have le: "length ?b \<le> length b" by (simp add: length_dropWhile_le)
  have hd: "?b = [] \<or> \<not> is_mark (hd ?b)" using hd_dropWhile [of is_mark b] by auto
  show ?case
  proof (cases "length ?b < 4 \<or> length ?b < peek_length ?b + 4")
    case True
    then show ?thesis using frames_short [OF hd] hd frames_marks [of b] by auto
  next
    case False
    then have "0 < length ?b" by linarith
    then have "?b \<noteq> []" by simp
    then have "snd (frames b) = snd (frames (drop (peek_length ?b + 4) ?b))"
      using frames_whole [of ?b "peek_length ?b"] False hd frames_marks [of b] by auto
    moreover have "length (drop (peek_length ?b + 4) ?b) < length b"
      using False le by (simp only: length_drop) linarith
    ultimately show ?thesis using less [of "drop (peek_length ?b + 4) ?b"] by simp
  qed
qed

text \<open>Cutting a stream in two does not change it.\<close>

lemma frames_append:
  "frames (a @ c) = (fst (frames a) @ fst (frames (snd (frames a) @ c)), snd (frames (snd (frames a) @ c)))"
proof (induction "length a" arbitrary: a rule: less_induct)
  case less
  let ?a = "dropWhile is_mark a"
  show ?case
  proof (cases "?a = []")
    case True
    then have "\<forall>x \<in> set a. is_mark x" by (simp add: dropWhile_eq_Nil_conv)
    then have "frames (a @ c) = frames c"
      using frames_marks [of "a @ c"] frames_marks [of c] by (simp add: dropWhile_append2)
    moreover have "frames a = ([], [])" using frames_marks [of a] frames_short [of "[]"] True by simp
    ultimately show ?thesis by simp
  next
    case False
    then have hd: "\<not> is_mark (hd ?a)" using hd_dropWhile by blast
    have mark: "\<exists>x \<in> set a. \<not> is_mark x" using False by (auto simp: dropWhile_eq_Nil_conv)
    then have da: "dropWhile is_mark (a @ c) = ?a @ c" by (auto simp: dropWhile_append1)
    have eq: "frames (a @ c) = frames (?a @ c)" "frames a = frames ?a"
      using frames_marks [of "a @ c"] frames_marks [of a] da by simp_all
    show ?thesis
    proof (cases "length ?a < 4 \<or> length ?a < peek_length ?a + 4")
      case True
      then show ?thesis using frames_short [of ?a] hd by (simp add: eq)
    next
      case F: False
      then have len: "4 \<le> length ?a" "peek_length ?a + 4 \<le> length ?a" by auto
      note w = frames_whole [OF hd len(1) refl len(2)]
      have hd': "\<not> is_mark (hd (?a @ c))" using hd False by simp
      have w': "frames (?a @ c) =
          (session_process_list (take (peek_length ?a) (drop 4 ?a)) @
             fst (frames (drop (peek_length ?a + 4) ?a @ c)),
           snd (frames (drop (peek_length ?a + 4) ?a @ c)))"
        using frames_whole [OF hd' _ peek_length_prefix [OF len(1)]] len by simp
      have ih: "frames (drop (peek_length ?a + 4) ?a @ c) =
          (fst (frames (drop (peek_length ?a + 4) ?a)) @
             fst (frames (snd (frames (drop (peek_length ?a + 4) ?a)) @ c)),
           snd (frames (snd (frames (drop (peek_length ?a + 4) ?a)) @ c)))"
        using less [of "drop (peek_length ?a + 4) ?a"] len length_dropWhile_le [of is_mark a] by simp
      show ?thesis unfolding eq w w' ih by simp
    qed
  qed
qed

section \<open>The session cuts the stream into its messages\<close>

lemma take_buf_copy: "p \<le> length buf \<Longrightarrow> take (p + length d) (buf_copy buf p d) = take p buf @ d"
  by (simp add: buf_copy_def)

lemma length_buf_copy: "p + length d \<le> length buf \<Longrightarrow> length (buf_copy buf p d) = length buf"
  by (simp add: buf_copy_def)

lemma peek_of_take: "4 \<le> length a \<Longrightarrow> take k b = a \<Longrightarrow> peek_length b = peek_length a"
  by (metis append_take_drop_id peek_length_prefix)

lemma hd_of_take: "a \<noteq> [] \<Longrightarrow> take k b = a \<Longrightarrow> hd b = hd a"
  by (metis append_take_drop_id hd_append2)

lemma pending_new [simp]: "pending inbuf_new = []"
  by (simp add: pending_def inbuf_new_def)

lemma ib_len_new [simp]: "ib_len inbuf_new = 0"
  by (simp add: inbuf_new_def)

lemma ib_wf_new [simp]: "ib_wf inbuf_new"
  by (simp add: ib_wf_def inbuf_new_def)

text \<open>A buffer that holds the beginning \<open>p\<close> of a message.\<close>

lemma ib_wf_holds:
  assumes "length buf = n" and "take k buf = p" and "length p = k" and "0 < k" and "k < n" and "4 \<le> n"
    and "\<not> is_mark (hd p)" and "4 < n \<Longrightarrow> 4 \<le> k \<and> n = peek_length p + 4"
  shows "ib_wf \<lparr>ib_buf = buf, ib_len = n, ib_used = k\<rparr>"
    and "pending \<lparr>ib_buf = buf, ib_len = n, ib_used = k\<rparr> = p"
proof -
  have "p \<noteq> []" using assms(3,4) by auto
  then have "hd buf = hd p" using hd_of_take [OF _ assms(2)] by simp
  moreover have "4 < n \<Longrightarrow> peek_length buf = peek_length p"
    using peek_of_take [OF _ assms(2)] assms(3,8) by simp
  ultimately show "ib_wf \<lparr>ib_buf = buf, ib_len = n, ib_used = k\<rparr>"
    using assms by (auto simp: ib_wf_def)
  show "pending \<lparr>ib_buf = buf, ib_len = n, ib_used = k\<rparr> = p"
    using assms by (simp add: pending_def)
qed

lemma pending_short:
  assumes "ib_wf s"
  shows "frames (pending s) = ([], pending s)"
proof (cases "ib_len s = 0")
  case True
  then show ?thesis using assms frames_short [of "[]"] by (simp add: ib_wf_def inbuf_new_def pending_def)
next
  case False
  have len: "length (pending s) = ib_used s" and ne: "pending s \<noteq> []"
    using assms False by (auto simp: ib_wf_def pending_def)
  have hd: "\<not> is_mark (hd (pending s))"
    using assms False ne by (auto simp: ib_wf_def pending_def)
  show ?thesis
  proof (rule frames_short)
    show "pending s = [] \<or> \<not> is_mark (hd (pending s))" using hd by simp
    show "length (pending s) < 4 \<or> length (pending s) < peek_length (pending s) + 4"
    proof (cases "4 < ib_len s")
      case True
      then have "peek_length (pending s) = peek_length (ib_buf s)"
        using assms by (auto simp: ib_wf_def pending_def peek_length_take)
      then show ?thesis using True assms by (simp add: len ib_wf_def)
    next
      case False
      then show ?thesis using assms \<open>ib_len s \<noteq> 0\<close> by (simp add: len ib_wf_def)
    qed
  qed
qed

text \<open>One round, when nothing is buffered.\<close>

lemma session_recv_empty_frames:
  assumes "b \<noteq> []" and "\<not> is_mark (hd b)" and "session_recv_empty inbuf_new b = (ms, b', s')"
  shows "ib_wf s'" and "frames b = (ms @ fst (frames (pending s' @ b')), snd (frames (pending s' @ b')))"
proof -
  note e = assms(3) [symmetric, unfolded session_recv_empty_def Let_def]
  let ?x = "peek_length b"
  have "ib_wf s' \<and> frames b = (ms @ fst (frames (pending s' @ b')), snd (frames (pending s' @ b')))"
  proof (cases "length b < 4")
    case True
    have t: "take (length b) (buf_copy (fresh_buf 4) 0 b) = b"
      "length (buf_copy (fresh_buf 4) 0 b) = 4"
      using True by (simp_all add: buf_copy_def fresh_buf_def)
    from ib_wf_holds [OF t(2,1) refl] assms(1,2) True
    show ?thesis using e by (simp add: inbuf_new_def frames_short)
  next
    case F: False
    show ?thesis
    proof (cases "?x = 0 \<or> \<not> length b < ?x + 4")
      case True
      have w: "frames b = (session_process_list (take ?x (drop 4 b)) @ fst (frames (drop (?x + 4) b)),
          snd (frames (drop (?x + 4) b)))"
        using frames_whole [OF assms(2) _ refl] F True by auto
      have r: "(ms, b', s') = (session_process_list (take ?x (drop 4 b)), drop (?x + 4) b, inbuf_new)"
        using e F True by (auto simp: session_process_list_def add.commute)
      show ?thesis using w r by (simp add: ib_wf_def inbuf_new_def pending_def)
    next
      case False
      then have lt: "length b < ?x + 4" "4 < ?x + 4" by auto
      have t: "take (length b) (buf_copy (fresh_buf (?x + 4)) 0 b) = b"
        "length (buf_copy (fresh_buf (?x + 4)) 0 b) = ?x + 4"
        using lt by (simp_all add: buf_copy_def fresh_buf_def)
      have r: "(ms, b', s') = ([], [],
          \<lparr>ib_buf = buf_copy (fresh_buf (?x + 4)) 0 b, ib_len = ?x + 4, ib_used = length b\<rparr>)"
        using e F False lt by (simp add: inbuf_new_def)
      from ib_wf_holds [OF t(2,1) refl] assms(1,2) lt F r
      show ?thesis by (simp add: frames_short)
    qed
  qed
  then show "ib_wf s'"
    "frames b = (ms @ fst (frames (pending s' @ b')), snd (frames (pending s' @ b')))" by auto
qed

text \<open>One round, when the beginning of a message is buffered.\<close>

lemma session_recv_cont_frames:
  assumes wf: "ib_wf s" and len: "0 < ib_len s" and e: "session_recv_cont s b = (ms, b', s')"
  shows "ib_wf s' \<and> frames (pending s @ b) =
    (ms @ fst (frames (pending s' @ b')), snd (frames (pending s' @ b')))"
proof -
  let ?p = "pending s" and ?u = "ib_used s" and ?n = "ib_len s" and ?buf = "ib_buf s"
  have s: "length ?buf = ?n" "0 < ?u" "?u < ?n" "4 \<le> ?n" "\<not> is_mark (hd ?buf)"
    "4 < ?n \<Longrightarrow> 4 \<le> ?u \<and> ?n = peek_length ?buf + 4"
    using wf len by (auto simp: ib_wf_def)
  have p: "length ?p = ?u" "take ?u ?buf = ?p" "?p \<noteq> []" using s by (auto simp: pending_def)
  have hp: "\<not> is_mark (hd ?p)" "\<not> is_mark (hd (?p @ c))" for c
    using s(5) p(3) hd_of_take [OF p(3,2)] by simp_all
  have peek: "4 < ?n \<Longrightarrow> peek_length ?p = peek_length ?buf"
    using peek_of_take [OF _ p(2)] p(1) s(6) by simp
  note e' = e [symmetric, unfolded session_recv_cont_def Let_def]
  show ?thesis
  proof (cases "length b < ?n - ?u")
    case True
    have t: "take (?u + length b) (buf_copy ?buf ?u b) = ?p @ b"
      "length (buf_copy ?buf ?u b) = ?n"
      using s True p take_buf_copy [of ?u ?buf b] by (simp_all add: length_buf_copy)
    have pk: "4 < ?n \<Longrightarrow> ?n = peek_length (?p @ b) + 4"
      using peek s(6) peek_length_prefix [of ?p b] p(1) by simp
    have r: "ms = []" "b' = []" "s' = \<lparr>ib_buf = buf_copy ?buf ?u b, ib_len = ?n, ib_used = ?u + length b\<rparr>"
      using e' True by (cases s; simp)+
    have "?u + length b < ?n" "4 < ?n \<Longrightarrow> 4 \<le> ?u + length b"
      using True s(6) by linarith+
    then have h: "ib_wf s' \<and> pending s' = ?p @ b"
      using ib_wf_holds [OF t(2,1)] s hp(2) p(1) pk unfolding r by simp
    then show ?thesis using pending_short [of s'] r by simp
  next
    case F: False
    define x where "x = ?n - ?u"
    have x: "x \<le> length b" "?u + x = ?n" using F s by (simp_all add: x_def)
    have full: "buf_copy ?buf ?u (take x b) = ?p @ take x b"
      using s x p by (simp add: buf_copy_def)
    have "\<not> length b < x" using F by (simp add: x_def)
    then have cont: "session_recv_cont s b =
        (if ?n = 4 then
           (if length b - x < peek_length (take 4 (?p @ take x b)) then
              ([], [],
               \<lparr>ib_buf = buf_copy (buf_copy (fresh_buf (peek_length (take 4 (?p @ take x b)) + 4)) 0
                   (take 4 (?p @ take x b))) 4 (drop x b),
                ib_len = peek_length (take 4 (?p @ take x b)) + 4, ib_used = length b - x + 4\<rparr>)
            else
              (session_process_list (take (peek_length (take 4 (?p @ take x b))) (drop x b)),
               drop (peek_length (take 4 (?p @ take x b))) (drop x b), inbuf_new))
         else (session_process_list (take (?n - 4) (drop 4 (?p @ take x b))), drop x b, inbuf_new))"
      unfolding session_recv_cont_def Let_def x_def [symmetric]
      by (simp add: full session_buf_free_def inbuf_new_def)
    have split: "?p @ b = (?p @ take x b) @ drop x b" by simp
    show ?thesis
    proof (cases "?n = 4")
      case True
      define y where "y = peek_length (?p @ take x b)"
      have l4: "length (?p @ take x b) = 4" using x p(1) True by simp
      have t4: "take 4 (?p @ take x b) = ?p @ take x b" by (rule take_all) (simp only: l4)
      have c4: "session_recv_cont s b =
          (if length b - x < y then
             ([], [], \<lparr>ib_buf = buf_copy (buf_copy (fresh_buf (y + 4)) 0 (?p @ take x b)) 4 (drop x b),
                       ib_len = y + 4, ib_used = length b - x + 4\<rparr>)
           else (session_process_list (take y (drop x b)), drop y (drop x b), inbuf_new))"
        using cont \<open>?n = 4\<close> unfolding t4 y_def [symmetric] by simp
      have py: "peek_length (?p @ b) = y"
        using peek_length_prefix [of "?p @ take x b" "drop x b"] l4 by (simp add: y_def)
      have d4: "drop 4 (?p @ b) = drop x b" "take 4 (?p @ b) = ?p @ take x b"
      proof -
        have "(?p @ take x b) @ drop x b = ?p @ b" by simp
        then have "?p @ take x b = take 4 (?p @ b) \<and> drop x b = drop 4 (?p @ b)"
          unfolding append_eq_conv_conj l4 .
        then show "drop 4 (?p @ b) = drop x b" "take 4 (?p @ b) = ?p @ take x b" by simp_all
      qed
      show ?thesis
      proof (cases "length b - x < y")
        case True
        have r: "ms = []" "b' = []"
          "s' = \<lparr>ib_buf = buf_copy (buf_copy (fresh_buf (y + 4)) 0 (?p @ take x b)) 4 (drop x b),
                 ib_len = y + 4, ib_used = length b - x + 4\<rparr>"
          using e True by (simp_all add: c4)
        have t: "buf_copy (fresh_buf (y + 4)) 0 (?p @ take x b) = ?p @ take x b @ replicate y 0"
          using l4 by (simp add: buf_copy_def fresh_buf_def)
        have t': "take (length b - x + 4) (buf_copy (?p @ take x b @ replicate y 0) 4 (drop x b)) = ?p @ b"
          "length (buf_copy (?p @ take x b @ replicate y 0) 4 (drop x b)) = y + 4"
          using l4 True x p(1) \<open>?n = 4\<close> by (simp_all add: buf_copy_def x_def)
        have "ib_wf s' \<and> pending s' = ?p @ b"
          using ib_wf_holds [OF t'(2,1)] True hp(2) p x l4 py \<open>?n = 4\<close> unfolding r t by auto
        then show ?thesis using pending_short [of s'] r by simp
      next
        case F2: False
        have r: "ms = session_process_list (take y (drop x b))" "b' = drop y (drop x b)" "s' = inbuf_new"
          using e F2 by (simp_all add: c4)
        have d: "drop (y + 4) (?p @ b) = drop y (drop x b)"
          using d4(1) by (metis drop_drop)
        have "frames (?p @ b) = (session_process_list (take y (drop 4 (?p @ b))) @
            fst (frames (drop (y + 4) (?p @ b))), snd (frames (drop (y + 4) (?p @ b))))"
          by (rule frames_whole [OF hp(2) _ py]) (use F2 x l4 p(1) True in auto)
        then show ?thesis unfolding d d4(1) r by simp
      qed
    next
      case False
      then have n: "4 < ?n" using s by simp
      have r: "ms = session_process_list (take (?n - 4) (drop 4 (?p @ take x b)))" "b' = drop x b"
        "s' = inbuf_new"
        using e False by (simp_all add: cont)
      have py: "peek_length (?p @ b) = ?n - 4"
        using n peek s(6) peek_length_prefix [of ?p b] p(1) by simp
      have "frames (?p @ b) = (session_process_list (take (?n - 4) (drop 4 (?p @ b))) @
          fst (frames (drop (?n - 4 + 4) (?p @ b))), snd (frames (drop (?n - 4 + 4) (?p @ b))))"
        by (rule frames_whole [OF hp(2) _ py]) (use n x p(1) in auto)
      moreover have "drop (?n - 4 + 4) (?p @ b) = drop x b"
        using n x p(1) by (simp add: x_def)
      moreover have "take (?n - 4) (drop 4 (?p @ b)) = take (?n - 4) (drop 4 (?p @ take x b))"
        using n x p(1) s(6) by simp
      ultimately show ?thesis using r by simp
    qed
  qed
qed

lemma session_recv_frames:
  assumes wf: "ib_wf s" and "b \<noteq> []" and e: "session_recv s b = (ms, b', s')"
  shows "ib_wf s' \<and> frames (pending s @ b) =
    (ms @ fst (frames (pending s' @ b')), snd (frames (pending s' @ b')))"
proof (cases "ib_len s = 0")
  case True
  then have s: "s = inbuf_new" using wf by (simp add: ib_wf_def)
  show ?thesis
  proof (cases "dropWhile is_mark b = []")
    case True
    then have "frames b = ([], [])" using frames_marks [of b, unfolded True] frames_short [of "[]"] by simp
    moreover have "ms = []" "b' = []" "s' = inbuf_new"
      using e [symmetric] True s by (simp_all add: session_recv_def inbuf_new_def)
    ultimately show ?thesis using s frames_short [of "[]"] by simp
  next
    case False
    then have "\<not> is_mark (hd (dropWhile is_mark b))" using hd_dropWhile by blast
    moreover have "session_recv s b = session_recv_empty inbuf_new (dropWhile is_mark b)"
      using False unfolding session_recv_def s Let_def by (simp only: ib_len_new refl if_True if_False less_irrefl)
    ultimately show ?thesis
      using session_recv_empty_frames [OF False, of ms b' s'] e s by (simp add: frames_marks)
  qed
next
  case False
  then show ?thesis using session_recv_cont_frames [OF wf, of b ms b' s'] e assms(2)
    by (simp add: session_recv_def)
qed

lemma mwSession_recv_frames:
  assumes "ib_wf s"
  shows "ib_wf (snd (mwSession_recv s b)) \<and>
    frames (pending s @ b) = (fst (mwSession_recv s b), pending (snd (mwSession_recv s b)))"
  using assms
proof (induction s b rule: mwSession_recv.induct)
  case (1 s b)
  show ?case
  proof (cases "b = []")
    case True
    then show ?thesis using pending_short [OF 1(2)] 1(2) by (simp add: mwSession_recv.simps)
  next
    case False
    obtain ms b' s' where e: "session_recv s b = (ms, b', s')" by (metis prod_cases3)
    from session_recv_frames [OF 1(2) False e] have wf: "ib_wf s'" and
      f: "frames (pending s @ b) = (ms @ fst (frames (pending s' @ b')), snd (frames (pending s' @ b')))"
      by auto
    have "mwSession_recv s b = (ms @ fst (mwSession_recv s' b'), snd (mwSession_recv s' b'))"
      using False e by (subst mwSession_recv.simps) (simp split: prod.split)
    then show ?thesis using 1(1) [OF False e [symmetric] refl refl wf] f by simp
  qed
qed

text \<open>All the chunks of a connection, in the order they arrive.\<close>

primrec recv_chunks :: "inbuf \<Rightarrow> bytes list \<Rightarrow> bytes list \<times> inbuf" where
  "recv_chunks s [] = ([], s)"
| "recv_chunks s (c # cs) =
     (let (ms, s') = mwSession_recv s c; (ms', s'') = recv_chunks s' cs in (ms @ ms', s''))"

lemma recv_chunks_frames:
  "ib_wf s \<Longrightarrow> ib_wf (snd (recv_chunks s cs)) \<and>
   frames (pending s @ concat cs) = (fst (recv_chunks s cs), pending (snd (recv_chunks s cs)))"
proof (induction cs arbitrary: s)
  case Nil
  then show ?case by (simp add: pending_short)
next
  case (Cons c cs)
  obtain ms s' where e: "mwSession_recv s c = (ms, s')" by force
  have "ib_wf s'" and f: "frames (pending s @ c) = (ms, pending s')"
    using mwSession_recv_frames [OF Cons.prems, of c] by (simp_all add: e)
  with Cons.IH [of s'] frames_append [of "pending s @ c" "concat cs"] show ?case
    by (cases "recv_chunks s' cs") (simp add: e)
qed

section \<open>What is sent is what is received\<close>

text \<open>\<open>mwSession_send\<close> writes a message as an opaque inside an opaque.\<close>

definition send_bytes :: "mwMessage \<Rightarrow> bytes" where
  "send_bytes msg =
     (let b = mwPutBuffer_new;
          b = mwMessage_put b msg;
          o1 = mwPutBuffer_finalize b;
          b = mwPutBuffer_new;
          b = mwOpaque_put b (Some o1) in
      mwPutBuffer_finalize b)"

lemma send_bytes_eq:
  assumes "opaque_fits (mwPutBuffer_finalize (mwMessage_put mwPutBuffer_new msg))"
  shows "send_bytes msg = be32 (of_nat (length (mwPutBuffer_finalize (mwMessage_put mwPutBuffer_new msg)))) @
    mwPutBuffer_finalize (mwMessage_put mwPutBuffer_new msg)"
  using opq.put_new [OF assms] by (simp add: send_bytes_def Let_def enc_opaque_def)

lemma peek_be32: "peek_length (be32 v @ c) = unat v"
  using be32_bits [of v]
  by (simp add: peek_length_def guint32_peek_def mwGetBuffer_wrap_def mwGetBuffer_new_def
      MW32_GET_def be32_def)

lemma bit_0x80: "bit (0x80 :: u8) k \<longleftrightarrow> k = 7"
proof -
  have e: "(0x80 :: u8) = 2 ^ 7" by simp
  show ?thesis unfolding e bit_exp_iff by (auto simp: possible_bit_word)
qed

lemma be32_mark:
  assumes "n < 2 ^ 31"
  shows "\<not> is_mark (hd (be32 (of_nat n) @ c))"
proof -
  have "\<not> bit (of_nat n :: u32) 31"
  proof -
    have "bit (of_nat n :: u32) 31 \<longleftrightarrow> bit n 31" by (simp add: bit_simps)
    then show ?thesis using assms by (simp add: bit_iff_odd)
  qed
  then have n: "\<not> bit n 31" by (simp add: bit_simps)
  have "bit (ucast (drop_bit 24 (of_nat n :: u32) AND mask 8) AND (0x80 :: u8)) k = bit (0 :: u8) k" for k
    unfolding bit_and_iff bit_0x80 using n by (auto simp: bit_simps)
  then have "ucast (drop_bit 24 (of_nat n :: u32) AND 0xff) AND (0x80 :: u8) = 0"
    unfolding byte_mask by (intro bit_word_eqI) blast
  then show ?thesis by (simp add: is_mark_def be32_def)
qed

lemma frames_message:
  assumes "length d < 2 ^ 31"
  shows "frames (be32 (of_nat (length d)) @ d @ c) = (session_process_list d @ fst (frames c), snd (frames c))"
proof -
  let ?b = "be32 (of_nat (length d)) @ d @ c"
  have x: "peek_length ?b = length d" using assms by (simp add: peek_be32 unat_of_nat)
  show ?thesis
    using frames_whole [OF be32_mark [OF assms] _ x] by simp
qed

lemma frames_messages:
  "\<forall>d \<in> set ds. d \<noteq> [] \<and> length d < 2 ^ 31 \<Longrightarrow>
   frames (concat (map (\<lambda>d. be32 (of_nat (length d)) @ d) ds)) = (ds, [])"
proof (induction ds)
  case Nil
  then show ?case by (simp add: frames_short)
next
  case (Cons d ds)
  then show ?case using frames_message [of d "concat (map (\<lambda>d. be32 (of_nat (length d)) @ d) ds)"]
    by (simp add: session_process_list_def)
qed

text \<open>A message as its receiver reads it (\<open>mwMessage_get\<close> on the payload).\<close>

definition read_message :: "mwMessageHead \<Rightarrow> u32 \<Rightarrow> bytes \<Rightarrow> mwMessage option" where
  "read_message head0 junk payload = fst (mwMessage_get head0 junk (mwGetBuffer_wrap (Some payload)))"

definition transmissible :: "mwMessage \<Rightarrow> bool" where
  "transmissible msg \<longleftrightarrow> msg_fits msg \<and> sendable (msg_body msg) \<and>
     length (enc_msg 0 msg @ body_tail (msg_body msg)) < 2 ^ 31"

lemma transmissible_payload:
  assumes "transmissible msg"
  shows "mwPutBuffer_finalize (mwMessage_put mwPutBuffer_new msg) = enc_msg 0 msg @ body_tail (msg_body msg)"
    and "send_bytes msg = be32 (of_nat (length (enc_msg 0 msg @ body_tail (msg_body msg)))) @
           enc_msg 0 msg @ body_tail (msg_body msg)"
    and "read_message head0 junk (enc_msg 0 msg @ body_tail (msg_body msg)) = Some (msg_res msg)"
    and "enc_msg 0 msg @ body_tail (msg_body msg) \<noteq> []"
proof -
  have ok: "msg_fits msg" "sendable (msg_body msg)" using assms by (auto simp: transmissible_def)
  show p: "mwPutBuffer_finalize (mwMessage_put mwPutBuffer_new msg) = enc_msg 0 msg @ body_tail (msg_body msg)"
    using mwMessage_put_spec(2) [OF pb_wf_new ok, of 0] by simp
  show "send_bytes msg = be32 (of_nat (length (enc_msg 0 msg @ body_tail (msg_body msg)))) @
      enc_msg 0 msg @ body_tail (msg_body msg)"
    using send_bytes_eq [of msg] assms by (simp add: p transmissible_def opaque_fits_def)
  have "feeds (mwGetBuffer_wrap (Some (enc_msg 0 msg @ body_tail (msg_body msg)))) (enc_msg 0 msg @ [])
      (body_tail (msg_body msg))"
    using feeds_wrap [of "enc_msg 0 msg"] by simp
  from mwMessage_get_fed [OF this ok(1), of head0 junk]
  show "read_message head0 junk (enc_msg 0 msg @ body_tail (msg_body msg)) = Some (msg_res msg)"
    by (simp add: read_message_def gives_def)
  show "enc_msg 0 msg @ body_tail (msg_body msg) \<noteq> []"
    by (simp add: enc_msg_def enc_head_def be16_def)
qed

section \<open>Properties\<close>

text \<open>
  C8: however the network cuts the input of a session into chunks, the messages processed
  are those of the whole stream, in order, and what is kept in the buffer is the beginning
  of the next message; the buffer is never overrun.
\<close>

theorem chunks_do_not_matter:
  "fst (recv_chunks inbuf_new cs) = fst (frames (concat cs)) \<and>
   pending (snd (recv_chunks inbuf_new cs)) = snd (frames (concat cs)) \<and>
   ib_wf (snd (recv_chunks inbuf_new cs))"
  using recv_chunks_frames [of inbuf_new cs] by simp

text \<open>
  C18: what one session sends with \<open>mwSession_send\<close>, the other reads: the messages come out of
  \<open>mwSession_recv\<close> and \<open>mwMessage_get\<close> in order and complete, whatever the chunks are, and
  nothing is left over.
\<close>

theorem sent_messages_arrive:
  assumes "\<forall>m \<in> set msgs. transmissible m" and "concat cs = concat (map send_bytes msgs)"
  shows "map (read_message head0 junk) (fst (recv_chunks inbuf_new cs)) = map (\<lambda>m. Some (msg_res m)) msgs \<and>
         pending (snd (recv_chunks inbuf_new cs)) = []"
proof -
  let ?p = "\<lambda>m. enc_msg 0 m @ body_tail (msg_body m)"
  have "map send_bytes msgs = map (\<lambda>d. be32 (of_nat (length d)) @ d) (map ?p msgs)"
    using assms(1) transmissible_payload(2) by simp
  then have c: "concat (map send_bytes msgs) =
      concat (map (\<lambda>d. be32 (of_nat (length d)) @ d) (map ?p msgs))" by (rule arg_cong)
  have "\<forall>d \<in> set (map ?p msgs). d \<noteq> [] \<and> length d < 2 ^ 31"
  proof
    fix d assume "d \<in> set (map ?p msgs)"
    then obtain m where "m \<in> set msgs" "d = ?p m" by auto
    then show "d \<noteq> [] \<and> length d < 2 ^ 31"
      using assms(1) transmissible_payload(4) [of m] unfolding transmissible_def by blast
  qed
  then have "frames (concat cs) = (map ?p msgs, [])"
    unfolding assms(2) c by (rule frames_messages)
  then have "fst (recv_chunks inbuf_new cs) = map ?p msgs" "pending (snd (recv_chunks inbuf_new cs)) = []"
    using recv_chunks_frames [of inbuf_new cs] by simp_all
  moreover have "map (read_message head0 junk) (map ?p msgs) = map (\<lambda>m. Some (msg_res m)) msgs"
    using assms(1) transmissible_payload(3) by simp
  ultimately show ?thesis by simp
qed

definition sense_message :: mwMessage where
  "sense_message =
     \<lparr>msg_head = mwMessageHead_zero\<lparr>mh_type := 0x0011\<rparr>, msg_body = SenseService 0x11\<rparr>"

theorem sent_messages_arrive_witness:
  "map (read_message mwMessageHead_zero 7)
     (fst (recv_chunks inbuf_new [take 3 (send_bytes sense_message), drop 3 (send_bytes sense_message)])) =
   map (\<lambda>m. Some (msg_res m)) [sense_message] \<and>
   pending (snd (recv_chunks inbuf_new
     [take 3 (send_bytes sense_message), drop 3 (send_bytes sense_message)])) = []"
  by (rule sent_messages_arrive)
    (auto simp: transmissible_def sense_message_def msg_fits_def head_fits_def body_fits_def
      mwMessageHead_zero_def opaque_fits_def enc_msg_def enc_head_def enc_body_def has_attribs_def)

end
