(* ===== verification/MwCipher.thy ===== *)
theory MwCipher imports MwTypes begin

text \<open>
  The ciphers of Sametime channels (\<open>protocols/Sametime/src/meanwhile/src/cipher.c\<close>): the
  RC2 block cipher, its chaining over a message, and the two kinds of cipher instance, one
  keyed by login ids and one by a Diffie-Hellman exchange.

  The code computes in \<open>int\<close>, 32 bits wide, without masking the intermediate values to
  the 16 bits that RC2 works on; \<open>rc2_encrypt\<close> and \<open>rc2_decrypt\<close> are the cipher on 16-bit
  words.  A read outside a block is \<open>None\<close>.  The big-number library is taken by what it
  computes: numbers are naturals and modular exponentiation is a parameter.
\<close>

section \<open>Key expansion\<close>

definition PT :: bytes where
  "PT =
     [0xD9, 0x78, 0xF9, 0xC4, 0x19, 0xDD, 0xB5, 0xED, 0x28, 0xE9, 0xFD, 0x79,
      0x4A, 0xA0, 0xD8, 0x9D, 0xC6, 0x7E, 0x37, 0x83, 0x2B, 0x76, 0x53, 0x8E,
      0x62, 0x4C, 0x64, 0x88, 0x44, 0x8B, 0xFB, 0xA2, 0x17, 0x9A, 0x59, 0xF5,
      0x87, 0xB3, 0x4F, 0x13, 0x61, 0x45, 0x6D, 0x8D, 0x09, 0x81, 0x7D, 0x32,
      0xBD, 0x8F, 0x40, 0xEB, 0x86, 0xB7, 0x7B, 0x0B, 0xF0, 0x95, 0x21, 0x22,
      0x5C, 0x6B, 0x4E, 0x82, 0x54, 0xD6, 0x65, 0x93, 0xCE, 0x60, 0xB2, 0x1C,
      0x73, 0x56, 0xC0, 0x14, 0xA7, 0x8C, 0xF1, 0xDC, 0x12, 0x75, 0xCA, 0x1F,
      0x3B, 0xBE, 0xE4, 0xD1, 0x42, 0x3D, 0xD4, 0x30, 0xA3, 0x3C, 0xB6, 0x26,
      0x6F, 0xBF, 0x0E, 0xDA, 0x46, 0x69, 0x07, 0x57, 0x27, 0xF2, 0x1D, 0x9B,
      0xBC, 0x94, 0x43, 0x03, 0xF8, 0x11, 0xC7, 0xF6, 0x90, 0xEF, 0x3E, 0xE7,
      0x06, 0xC3, 0xD5, 0x2F, 0xC8, 0x66, 0x1E, 0xD7, 0x08, 0xE8, 0xEA, 0xDE,
      0x80, 0x52, 0xEE, 0xF7, 0x84, 0xAA, 0x72, 0xAC, 0x35, 0x4D, 0x6A, 0x2A,
      0x96, 0x1A, 0xD2, 0x71, 0x5A, 0x15, 0x49, 0x74, 0x4B, 0x9F, 0xD0, 0x5E,
      0x04, 0x18, 0xA4, 0xEC, 0xC2, 0xE0, 0x41, 0x6E, 0x0F, 0x51, 0xCB, 0xCC,
      0x24, 0x91, 0xAF, 0x50, 0xA1, 0xF4, 0x70, 0x39, 0x99, 0x7C, 0x3A, 0x85,
      0x23, 0xB8, 0xB4, 0x7A, 0xFC, 0x02, 0x36, 0x5B, 0x25, 0x55, 0x97, 0x31,
      0x2D, 0x5D, 0xFA, 0x98, 0xE3, 0x8A, 0x92, 0xAE, 0x05, 0xDF, 0x29, 0x10,
      0x67, 0x6C, 0xBA, 0xC9, 0xD3, 0x00, 0xE6, 0xCF, 0xE1, 0x9E, 0xA8, 0x2C,
      0x63, 0x16, 0x01, 0x3F, 0x58, 0xE2, 0x89, 0xA9, 0x0D, 0x38, 0x34, 0x1B,
      0xAB, 0x33, 0xFF, 0xB0, 0xBB, 0x48, 0x0C, 0x5F, 0xB9, 0xB1, 0xCD, 0x2E,
      0xC5, 0xF3, 0xDB, 0x47, 0xE5, 0xA5, 0x9C, 0x77, 0x0A, 0xA6, 0x20, 0x68,
      0xFE, 0x7F, 0xC1, 0xAD]"

text \<open>\<open>for (i = 0; keylen < 128; i++)\<close>: the bytes of \<open>tmp\<close> up to \<open>keylen\<close>.\<close>

function expand_loop :: "bytes \<Rightarrow> nat \<Rightarrow> bytes" where
  "expand_loop tmp i =
     (if length tmp < 128
      then expand_loop
             (tmp @ [PT ! unat ((ucast (tmp ! (length tmp - 1)) + ucast (tmp ! i) :: u32) AND 0xff)])
             (i + 1)
      else tmp)"
  by pat_completeness auto
termination
  by (relation "measure (\<lambda>(tmp, i). 128 - length tmp)") auto

declare expand_loop.simps [simp del]

definition mwKeyExpand :: "bytes \<Rightarrow> u32 list option" where
  "mwKeyExpand key =
     (if key = [] then None
      else
        let tmp = expand_loop (take 128 key) 0;
            tmp = tmp[0 := PT ! unat (tmp ! 0)] in
        Some (map (\<lambda>i. (ucast (tmp ! (2 * i)) AND 0xff) OR push_bit 8 (ucast (tmp ! (2 * i + 1))))
               [0..<64]))"

definition mwIV_init :: bytes where
  "mwIV_init = [0x01, 0x23, 0x45, 0x67, 0x89, 0xab, 0xcd, 0xef]"

section \<open>One block\<close>

type_synonym quad32 = "u32 \<times> u32 \<times> u32 \<times> u32"
type_synonym quad16 = "u16 \<times> u16 \<times> u16 \<times> u16"

text \<open>The words \<open>a\<close>, \<open>b\<close>, \<open>c\<close>, \<open>d\<close> of the eight bytes of a block, and back.\<close>

definition load_word :: "bytes \<Rightarrow> nat \<Rightarrow> u32" where
  "load_word out i = push_bit 8 (ucast (out ! (i + 1))) OR (ucast (out ! i) AND 0xff)"

definition load_block :: "bytes \<Rightarrow> quad32" where
  "load_block out = (load_word out 6, load_word out 4, load_word out 2, load_word out 0)"

definition store_word :: "u32 \<Rightarrow> bytes" where
  "store_word w = [ucast (w AND 0xff), ucast (signed_drop_bit 8 w AND 0xff)]"

definition store_block :: "quad32 \<Rightarrow> bytes" where
  "store_block s = (let (a, b, c, d) = s in store_word d @ store_word c @ store_word b @ store_word a)"

definition enc_round :: "u32 list \<Rightarrow> nat \<Rightarrow> quad32 \<Rightarrow> quad32" where
  "enc_round ekey i s =
     (let (a, b, c, d) = s;
          j = i * 4;
          d = d + ((c AND (a XOR 0xffff)) + (b AND a) + ekey ! j);
          d = push_bit 1 d OR (signed_drop_bit 15 d AND 0x0001);
          c = c + ((b AND (d XOR 0xffff)) + (a AND d) + ekey ! (j + 1));
          c = push_bit 2 c OR (signed_drop_bit 14 c AND 0x0003);
          b = b + ((a AND (c XOR 0xffff)) + (d AND c) + ekey ! (j + 2));
          b = push_bit 3 b OR (signed_drop_bit 13 b AND 0x0007);
          a = a + ((d AND (b XOR 0xffff)) + (c AND b) + ekey ! (j + 3));
          a = push_bit 5 a OR (signed_drop_bit 11 a AND 0x001f) in
      if i = 4 \<or> i = 10 then
        (let d = d + ekey ! unat (a AND 0x003f);
             c = c + ekey ! unat (d AND 0x003f);
             b = b + ekey ! unat (c AND 0x003f);
             a = a + ekey ! unat (b AND 0x003f) in
         (a, b, c, d))
      else (a, b, c, d))"

definition mwEncryptBlock :: "u32 list \<Rightarrow> bytes \<Rightarrow> bytes" where
  "mwEncryptBlock ekey out = store_block (fold (enc_round ekey) [0..<16] (load_block out))"

definition dec_round :: "u32 list \<Rightarrow> nat \<Rightarrow> quad32 \<Rightarrow> quad32" where
  "dec_round ekey i s =
     (let (a, b, c, d) = s;
          j = i * 4 + 3;
          a = push_bit 11 a OR (signed_drop_bit 5 a AND 0x07ff);
          a = a - ((d AND (b XOR 0xffff)) + (c AND b) + ekey ! j);
          b = push_bit 13 b OR (signed_drop_bit 3 b AND 0x1fff);
          b = b - ((a AND (c XOR 0xffff)) + (d AND c) + ekey ! (j - 1));
          c = push_bit 14 c OR (signed_drop_bit 2 c AND 0x3fff);
          c = c - ((b AND (d XOR 0xffff)) + (a AND d) + ekey ! (j - 2));
          d = push_bit 15 d OR (signed_drop_bit 1 d AND 0x7fff);
          d = d - ((c AND (a XOR 0xffff)) + (b AND a) + ekey ! (j - 3)) in
      if i = 5 \<or> i = 11 then
        (let a = a - ekey ! unat (b AND 0x003f);
             b = b - ekey ! unat (c AND 0x003f);
             c = c - ekey ! unat (d AND 0x003f);
             d = d - ekey ! unat (a AND 0x003f) in
         (a, b, c, d))
      else (a, b, c, d))"

definition mwDecryptBlock :: "u32 list \<Rightarrow> bytes \<Rightarrow> bytes" where
  "mwDecryptBlock ekey out = store_block (fold (dec_round ekey) (rev [0..<16]) (load_block out))"

section \<open>A message\<close>

definition xor_bytes :: "bytes \<Rightarrow> bytes \<Rightarrow> bytes" where
  "xor_bytes o1 iv = map2 (\<lambda>x y. x XOR y) o1 iv"

function encrypt_blocks :: "u32 list \<Rightarrow> bytes \<Rightarrow> bytes \<Rightarrow> bytes \<times> bytes" where
  "encrypt_blocks ekey iv o1 =
     (if o1 = [] then ([], iv)
      else
        let blk = mwEncryptBlock ekey (xor_bytes (take 8 o1) iv);
            (rest, iv') = encrypt_blocks ekey blk (drop 8 o1) in
        (blk @ rest, iv'))"
  by pat_completeness auto
termination
  by (relation "measure (\<lambda>(ekey, iv, o1). length o1)") auto

declare encrypt_blocks.simps [simp del]

text \<open>The result is the encrypted data and the vector for the next message.\<close>

definition mwEncryptExpanded :: "u32 list \<Rightarrow> bytes \<Rightarrow> bytes \<Rightarrow> bytes \<times> bytes" where
  "mwEncryptExpanded ekey iv in_data =
     (let i_len = length in_data;
          o_len = i_len + (8 - i_len mod 8);
          y = o_len - i_len in
      encrypt_blocks ekey iv (in_data @ replicate y (of_nat y)))"

definition mwEncrypt :: "bytes \<Rightarrow> bytes \<Rightarrow> bytes \<Rightarrow> (bytes \<times> bytes) option" where
  "mwEncrypt key iv in_data =
     (case mwKeyExpand key of None \<Rightarrow> None | Some ekey \<Rightarrow> Some (mwEncryptExpanded ekey iv in_data))"

function decrypt_blocks :: "u32 list \<Rightarrow> bytes \<Rightarrow> bytes \<Rightarrow> (bytes \<times> bytes) option" where
  "decrypt_blocks ekey iv i =
     (if i = [] then Some ([], iv)
      else if length i < 8 then None
      else
        (case decrypt_blocks ekey (take 8 i) (drop 8 i) of
           None \<Rightarrow> None
         | Some (rest, iv') \<Rightarrow> Some (xor_bytes (mwDecryptBlock ekey (take 8 i)) iv @ rest, iv')))"
  by pat_completeness auto
termination
  by (relation "measure (\<lambda>(ekey, iv, i). length i)") auto

declare decrypt_blocks.simps [simp del]

text \<open>
  The decrypted block with the length the code gives it, \<open>out_data->len -= *(o - 1)\<close> on a
  64-bit \<open>gsize\<close>, and the vector for the next message; \<open>None\<close> when the data is not whole
  blocks, or is empty, and the code reads outside its block.

  The loops count in \<open>int x\<close>, set from the \<open>gsize\<close> length of the data.  When that conversion
  changes the value the copying loop starts below zero, and leaves the block, or stops early,
  and what is decrypted or subtracted has not been copied; both are \<open>None\<close> as well.
\<close>

definition int_of_gsize :: "nat \<Rightarrow> int" where
  "int_of_gsize n = sint (of_nat n :: 32 word)"

lemma int_of_gsize_fits: "n < 2 ^ 31 \<Longrightarrow> int_of_gsize n = int n"
  by (simp add: int_of_gsize_def signed_of_nat signed_take_bit_int_eq_self)

definition mwDecryptExpanded :: "u32 list \<Rightarrow> bytes \<Rightarrow> bytes \<Rightarrow> ((bytes \<times> u64) \<times> bytes) option" where
  "mwDecryptExpanded ekey iv in_data =
     (if int_of_gsize (length in_data) \<noteq> int (length in_data) then None
      else case decrypt_blocks ekey iv in_data of
        None \<Rightarrow> None
      | Some (o1, iv') \<Rightarrow>
          if o1 = [] then None else Some ((o1, of_nat (length o1) - ucast (last o1)), iv'))"

text \<open>The opaque that stands for, when its length does not exceed its block.\<close>

definition opaque_of :: "bytes \<times> u64 \<Rightarrow> bytes option" where
  "opaque_of d = (if unat (snd d) \<le> length (fst d) then Some (take (unat (snd d)) (fst d)) else None)"

definition mwDecrypt :: "bytes \<Rightarrow> bytes \<Rightarrow> bytes \<Rightarrow> ((bytes \<times> u64) \<times> bytes) option" where
  "mwDecrypt key iv in_data =
     (case mwKeyExpand key of None \<Rightarrow> None | Some ekey \<Rightarrow> mwDecryptExpanded ekey iv in_data)"

section \<open>RC2 on 16-bit words\<close>

definition rc2_mix :: "(nat \<Rightarrow> u16) \<Rightarrow> nat \<Rightarrow> quad16 \<Rightarrow> quad16" where
  "rc2_mix K i s =
     (let (a, b, c, d) = s;
          d = word_rotl 1 (d + (c AND NOT a) + (b AND a) + K (4 * i));
          c = word_rotl 2 (c + (b AND NOT d) + (a AND d) + K (4 * i + 1));
          b = word_rotl 3 (b + (a AND NOT c) + (d AND c) + K (4 * i + 2));
          a = word_rotl 5 (a + (d AND NOT b) + (c AND b) + K (4 * i + 3)) in
      (a, b, c, d))"

definition rc2_mash :: "(nat \<Rightarrow> u16) \<Rightarrow> quad16 \<Rightarrow> quad16" where
  "rc2_mash K s =
     (let (a, b, c, d) = s;
          d = d + K (unat (a AND 63));
          c = c + K (unat (d AND 63));
          b = b + K (unat (c AND 63));
          a = a + K (unat (b AND 63)) in
      (a, b, c, d))"

definition rc2_unmix :: "(nat \<Rightarrow> u16) \<Rightarrow> nat \<Rightarrow> quad16 \<Rightarrow> quad16" where
  "rc2_unmix K i s =
     (let (a, b, c, d) = s;
          a = word_rotr 5 a - ((d AND NOT b) + (c AND b) + K (4 * i + 3));
          b = word_rotr 3 b - ((a AND NOT c) + (d AND c) + K (4 * i + 2));
          c = word_rotr 2 c - ((b AND NOT d) + (a AND d) + K (4 * i + 1));
          d = word_rotr 1 d - ((c AND NOT a) + (b AND a) + K (4 * i)) in
      (a, b, c, d))"

definition rc2_unmash :: "(nat \<Rightarrow> u16) \<Rightarrow> quad16 \<Rightarrow> quad16" where
  "rc2_unmash K s =
     (let (a, b, c, d) = s;
          a = a - K (unat (b AND 63));
          b = b - K (unat (c AND 63));
          c = c - K (unat (d AND 63));
          d = d - K (unat (a AND 63)) in
      (a, b, c, d))"

text \<open>Five rounds, a mash, six rounds, a mash, five rounds.\<close>

definition rc2_encrypt :: "(nat \<Rightarrow> u16) \<Rightarrow> quad16 \<Rightarrow> quad16" where
  "rc2_encrypt K s =
     fold (rc2_mix K) [11..<16] (rc2_mash K
       (fold (rc2_mix K) [5..<11] (rc2_mash K (fold (rc2_mix K) [0..<5] s))))"

definition rc2_decrypt :: "(nat \<Rightarrow> u16) \<Rightarrow> quad16 \<Rightarrow> quad16" where
  "rc2_decrypt K s =
     fold (rc2_unmix K) (rev [0..<5]) (rc2_unmash K
       (fold (rc2_unmix K) (rev [5..<11]) (rc2_unmash K (fold (rc2_unmix K) (rev [11..<16]) s))))"

lemma rotr_rotl: "word_rotr n (word_rotl n w) = (w :: u16)"
  by simp

lemma rc2_unmix_mix [simp]: "rc2_unmix K i (rc2_mix K i s) = s"
  by (cases s) (simp add: rc2_mix_def rc2_unmix_def Let_def algebra_simps)

lemma rc2_unmash_mash [simp]: "rc2_unmash K (rc2_mash K s) = s"
  by (cases s) (simp add: rc2_mash_def rc2_unmash_def Let_def)

lemma fold_undo:
  assumes "\<And>i s. g i (f i s) = s"
  shows "fold g (rev xs) (fold f xs s) = s"
  using assms by (induction xs arbitrary: s) auto

lemma rc2_decrypt_encrypt [simp]: "rc2_decrypt K (rc2_encrypt K s) = s"
  by (simp add: rc2_decrypt_def rc2_encrypt_def fold_undo)

section \<open>The code computes RC2\<close>

definition low :: "u32 \<Rightarrow> u16" where
  "low w = ucast w"

definition lows :: "quad32 \<Rightarrow> quad16" where
  "lows s = (let (a, b, c, d) = s in (low a, low b, low c, low d))"

definition low_keys :: "u32 list \<Rightarrow> nat \<Rightarrow> u16" where
  "low_keys ekey i = low (ekey ! i)"

lemma low_wi: "low (word_of_int k) = word_of_int k"
  unfolding low_def by (rule ucast_down_wi) (simp add: is_down)

lemma low_arith [simp]:
  "low (x + y) = low x + low y" "low (x - y) = low x - low y"
  using low_wi [of "uint x + uint y"] low_wi [of "uint x - uint y"]
    low_wi [of "uint x"] low_wi [of "uint y"]
  by (simp_all add: wi_hom_syms(1,2) [symmetric])

lemma mask_numerals:
  "(0xffff :: u32) = mask 16" "(0x3f :: 'a::len word) = mask 6" "(1 :: 'a word) = mask 1"
  "(3 :: 'a word) = mask 2" "(7 :: 'a word) = mask 3" "(0x1f :: 'a word) = mask 5"
  "(0x7ff :: 'a word) = mask 11" "(0x1fff :: 'a word) = mask 13" "(0x3fff :: 'a word) = mask 14"
  "(0x7fff :: 'a word) = mask 15"
  by (simp_all add: mask_eq_exp_minus_1)

lemma low_bits [simp]:
  "low (x AND y) = low x AND low y" "low (x XOR 0xffff) = NOT (low x)"
  unfolding low_def mask_numerals by (rule bit_word_eqI; auto simp: bit_simps)+

lemma unat_ucast_wide: "unat (ucast (w :: u16) :: u32) = unat w"
  using unsigned_less [of w, where ?'a = nat]
  by (simp add: unsigned_ucast_eq take_bit_nat_eq_self_iff)

lemma low_index: "unat (x AND 0x3f) = unat (low x AND 0x3f)"
proof -
  have "x AND 0x3f = ucast (low x AND 0x3f)"
    unfolding low_def mask_numerals by (rule bit_word_eqI) (auto simp: bit_simps)
  from arg_cong [OF this, of unat] show ?thesis by (simp only: unat_ucast_wide)
qed

lemma low_rotl:
  assumes "0 < n" and "n < 16"
  shows "low (push_bit n x OR (signed_drop_bit (16 - n) x AND mask n)) = word_rotl n (low x)"
  unfolding low_def
proof (rule bit_word_eqI)
  fix m assume "m < LENGTH(16)"
  then show "bit (ucast (push_bit n x OR (signed_drop_bit (16 - n) x AND mask n)) :: u16) m =
      bit (word_rotl n (ucast x :: u16)) m"
    using assms by (cases "n \<le> m") (auto simp: bit_simps mod_if, (metis add.commute)+)
qed

lemma low_rotr:
  assumes "0 < n" and "n < 16"
  shows "low (push_bit (16 - n) x OR (signed_drop_bit n x AND mask (16 - n))) = word_rotr n (low x)"
proof -
  have "word_rotr n (low x) = word_rotl (16 - n) (low x)"
    using assms by (intro bit_word_eqI) (auto simp: bit_simps mod_if)
  then show ?thesis using low_rotl [of "16 - n" x] assms by simp
qed

lemma low_rots:
  "low (push_bit 1 x OR (signed_drop_bit 15 x AND 0x0001)) = word_rotl 1 (low x)"
  "low (push_bit 2 x OR (signed_drop_bit 14 x AND 0x0003)) = word_rotl 2 (low x)"
  "low (push_bit 3 x OR (signed_drop_bit 13 x AND 0x0007)) = word_rotl 3 (low x)"
  "low (push_bit 5 x OR (signed_drop_bit 11 x AND 0x001f)) = word_rotl 5 (low x)"
  "low (push_bit 11 x OR (signed_drop_bit 5 x AND 0x07ff)) = word_rotr 5 (low x)"
  "low (push_bit 13 x OR (signed_drop_bit 3 x AND 0x1fff)) = word_rotr 3 (low x)"
  "low (push_bit 14 x OR (signed_drop_bit 2 x AND 0x3fff)) = word_rotr 2 (low x)"
  "low (push_bit 15 x OR (signed_drop_bit 1 x AND 0x7fff)) = word_rotr 1 (low x)"
  using low_rotl [of 1 x] low_rotl [of 2 x] low_rotl [of 3 x] low_rotl [of 5 x]
    low_rotr [of 5 x] low_rotr [of 3 x] low_rotr [of 2 x] low_rotr [of 1 x]
  by (simp_all add: mask_eq_exp_minus_1)

definition rc2_step :: "(nat \<Rightarrow> u16) \<Rightarrow> nat \<Rightarrow> quad16 \<Rightarrow> quad16" where
  "rc2_step K i s = (let s = rc2_mix K i s in if i = 4 \<or> i = 10 then rc2_mash K s else s)"

definition rc2_unstep :: "(nat \<Rightarrow> u16) \<Rightarrow> nat \<Rightarrow> quad16 \<Rightarrow> quad16" where
  "rc2_unstep K i s = (let s = rc2_unmix K i s in if i = 5 \<or> i = 11 then rc2_unmash K s else s)"

lemma low_enc_round: "lows (enc_round ekey i s) = rc2_step (low_keys ekey) i (lows s)"
proof -
  obtain a b c d where s: "s = (a, b, c, d)" by (cases s) auto
  have comm: "i * 4 = 4 * i" by simp
  show ?thesis
    unfolding s enc_round_def rc2_step_def rc2_mix_def rc2_mash_def lows_def low_keys_def Let_def
      prod.case comm
    by (simp add: low_rots low_index del: One_nat_def) (simp add: algebra_simps)
qed

lemma low_dec_round: "lows (dec_round ekey i s) = rc2_unstep (low_keys ekey) i (lows s)"
proof -
  obtain a b c d where s: "s = (a, b, c, d)" by (cases s) auto
  have comm: "i * 4 + 3 - 1 = 4 * i + 2" "i * 4 + 3 - 2 = 4 * i + 1" "i * 4 + 3 - 3 = 4 * i"
    "i * 4 + 3 = 4 * i + 3" by simp_all
  show ?thesis
    unfolding s dec_round_def rc2_unstep_def rc2_unmix_def rc2_unmash_def lows_def low_keys_def Let_def
      prod.case comm
    by (simp add: low_rots low_index del: One_nat_def) simp
qed

lemma fold_lows:
  assumes "\<And>i s. lows (f i s) = g i (lows s)"
  shows "lows (fold f xs s) = fold g xs (lows s)"
  using assms by (induction xs arbitrary: s) auto

lemma rc2_encrypt_steps: "rc2_encrypt K s = fold (rc2_step K) [0..<16] s"
  by (simp add: rc2_encrypt_def rc2_step_def upt_rec [of _ "numeral k" for k] Let_def eval_nat_numeral)

lemma rc2_decrypt_steps: "rc2_decrypt K s = fold (rc2_unstep K) (rev [0..<16]) s"
  by (simp add: rc2_decrypt_def rc2_unstep_def upt_rec [of _ "numeral k" for k] Let_def eval_nat_numeral)

text \<open>A block of eight bytes is the low halves of the four words.\<close>

lemma byte_word:
  "ucast ((push_bit 8 (ucast (y :: u8)) OR (ucast (x :: u8) AND 0xff) :: u32) AND 0xff) = x"
  "ucast (signed_drop_bit 8 (push_bit 8 (ucast (y :: u8)) OR (ucast (x :: u8) AND 0xff) :: u32) AND 0xff) = y"
  by (rule bit_word_eqI; auto simp: bit_simps mask_numerals byte_mask)+

lemma low_byte: "low u = low v \<Longrightarrow> store_word u = store_word v"
proof -
  have "(ucast (w AND 0xff) :: u8) = ucast (low w)"
    "(ucast (signed_drop_bit 8 w AND 0xff) :: u8) = ucast (drop_bit 8 (low w))" for w
    unfolding low_def byte_mask by (rule bit_word_eqI; auto simp: bit_simps)+
  then show "low u = low v \<Longrightarrow> store_word u = store_word v" by (simp add: store_word_def)
qed

lemma store_block_low: "lows s = lows t \<Longrightarrow> store_block s = store_block t"
  by (cases s; cases t) (simp add: store_block_def lows_def, metis low_byte)

definition store16 :: "quad16 \<Rightarrow> bytes" where
  "store16 s = (let (a, b, c, d) = s in store_block (ucast a, ucast b, ucast c, ucast d))"

definition load16 :: "bytes \<Rightarrow> quad16" where
  "load16 blk = lows (load_block blk)"

lemma low_ucast [simp]: "low (ucast (w :: u16)) = w"
  unfolding low_def by (rule bit_word_eqI) (auto simp: bit_simps)

lemma store_block_16: "store_block s = store16 (lows s)"
  by (cases s) (auto simp: store16_def lows_def Let_def intro!: store_block_low)

lemma length_store [simp]: "length (store_block s) = 8"
  by (cases s) (simp add: store_block_def store_word_def)

lemma length_store16 [simp]: "length (store16 s) = 8"
  by (cases s) (simp add: store16_def)

lemma load_store_word:
  "low (push_bit 8 (ucast (ucast (signed_drop_bit 8 w AND 0xff) :: u8)) OR
     (ucast (ucast (w AND 0xff) :: u8) AND 0xff)) = low (w :: u32)"
  unfolding low_def byte_mask by (rule bit_word_eqI) (auto simp: bit_simps)

lemma load_store [simp]: "load16 (store16 s) = s"
proof (cases s)
  case (fields a b c d)
  have *: "low (load_word (store_block (ucast a, ucast b, ucast c, ucast d)) i) =
      (if i = 0 then d else if i = 2 then c else if i = 4 then b else a)"
    if "i \<in> {0, 2, 4, 6}" for i
    using that load_store_word [of "ucast a"] load_store_word [of "ucast b"]
      load_store_word [of "ucast c"] load_store_word [of "ucast d"]
    by (auto simp: load_word_def store_block_def store_word_def)
  show ?thesis
    by (simp add: fields load16_def store16_def load_block_def lows_def *)
qed

lemma store_load [simp]:
  assumes "length blk = 8"
  shows "store16 (load16 blk) = blk"
proof -
  from assms obtain p q r s t u v w where blk: "blk = [p, q, r, s, t, u, v, w]"
    by (auto simp: numeral_eq_Suc length_Suc_conv)
  have "store16 (load16 blk) = store_block (load_block blk)"
    by (simp add: store_block_16 load16_def)
  then show ?thesis
    by (simp add: blk load_block_def load_word_def store_block_def store_word_def byte_word)
qed

lemma mwEncryptBlock_rc2: "mwEncryptBlock ekey blk = store16 (rc2_encrypt (low_keys ekey) (load16 blk))"
  by (simp add: mwEncryptBlock_def store_block_16 fold_lows [where f = "enc_round ekey", OF low_enc_round] rc2_encrypt_steps load16_def)

lemma mwDecryptBlock_rc2: "mwDecryptBlock ekey blk = store16 (rc2_decrypt (low_keys ekey) (load16 blk))"
  by (simp add: mwDecryptBlock_def store_block_16 fold_lows [where f = "dec_round ekey", OF low_dec_round] rc2_decrypt_steps load16_def)

lemma decrypt_encrypt_block:
  "length blk = 8 \<Longrightarrow> mwDecryptBlock ekey (mwEncryptBlock ekey blk) = blk"
  by (simp add: mwEncryptBlock_rc2 mwDecryptBlock_rc2)

lemma length_encrypt_block [simp]: "length (mwEncryptBlock ekey blk) = 8"
  by (simp add: mwEncryptBlock_rc2)

section \<open>Messages\<close>

lemma xor_twice: "length x = length v \<Longrightarrow> xor_bytes (xor_bytes x v) v = x"
  by (induction x v rule: list_induct2) (simp_all add: xor_bytes_def xor.assoc)

lemma length_xor [simp]: "length (xor_bytes x v) = min (length x) (length v)"
  by (simp add: xor_bytes_def)

lemma decrypt_encrypt_blocks:
  assumes "length x mod 8 = 0" and "length iv = 8" and "encrypt_blocks ekey iv x = (y, iv')"
  shows "decrypt_blocks ekey iv y = Some (x, iv') \<and> length y = length x \<and> length iv' = 8"
  using assms
proof (induction "length x" arbitrary: x iv y rule: less_induct)
  case less
  show ?case
  proof (cases "x = []")
    case True
    then show ?thesis using less.prems
      by (simp add: encrypt_blocks.simps [of _ _ "[]"] decrypt_blocks.simps [of _ _ "[]"])
  next
    case False
    define p where "p = xor_bytes (take 8 x) iv"
    define blk where "blk = mwEncryptBlock ekey p"
    obtain rest where e: "encrypt_blocks ekey blk (drop 8 x) = (rest, iv')" and y: "y = blk @ rest"
      using less.prems(3) False by (auto simp: encrypt_blocks.simps [of _ _ x] Let_def p_def blk_def
          split: prod.splits)
    have len: "8 \<le> length x" using less.prems(1) False
      by (metis length_0_conv mod_less not_le)
    then have lb: "length blk = 8" "length p = 8" using less.prems(2) by (simp_all add: blk_def p_def)
    have ih: "decrypt_blocks ekey blk rest = Some (drop 8 x, iv') \<and>
        length rest = length (drop 8 x) \<and> length iv' = 8"
      by (rule less.hyps [OF _ _ lb(1) e]) (use less.prems(1) len in \<open>auto simp: le_mod_geq\<close>)
    have "xor_bytes (mwDecryptBlock ekey blk) iv = take 8 x"
      using lb less.prems(2) len by (simp add: blk_def decrypt_encrypt_block p_def xor_twice)
    moreover have "blk \<noteq> []" using lb by auto
    ultimately show ?thesis
      using ih lb len by (simp add: y decrypt_blocks.simps [of _ _ "blk @ rest"])
  qed
qed

lemma length_encrypt_blocks:
  "length x mod 8 = 0 \<Longrightarrow> length iv = 8 \<Longrightarrow> length (fst (encrypt_blocks ekey iv x)) = length x"
  using decrypt_encrypt_blocks [of x iv ekey] by (metis prod.collapse)

lemma pad_whole: "(n + (8 - n mod 8)) mod 8 = (0 :: nat)"
  by presburger

text \<open>
  A message decrypts to itself, and both sides are left with the same vector.  With its
  padding it must be shorter than \<open>2 ^ 31\<close> bytes, as the receiver counts in \<open>int\<close>.
\<close>

lemma decrypt_encrypt:
  assumes "length iv = 8" and "length x < 2 ^ 31 - 8" and "mwEncryptExpanded ekey iv x = (y, iv')"
  shows "\<exists>d. mwDecryptExpanded ekey iv y = Some (d, iv') \<and> opaque_of d = Some x \<and> length iv' = 8"
proof -
  define n where "n = 8 - length x mod 8"
  have n: "0 < n" "n \<le> 8" by (auto simp: n_def)
  define z where "z = x @ replicate n (of_nat n :: u8)"
  have e: "encrypt_blocks ekey iv z = (y, iv')"
    using assms(3) by (simp add: mwEncryptExpanded_def Let_def z_def n_def)
  have whole: "length z mod 8 = 0" using pad_whole by (simp add: z_def n_def)
  from decrypt_encrypt_blocks [OF whole assms(1) e]
  have d: "decrypt_blocks ekey iv y = Some (z, iv')" and iv': "length iv' = 8" by auto
  have z: "z \<noteq> []" "last z = of_nat n" using n by (auto simp: z_def last_replicate)
  have pad: "(ucast (of_nat n :: u8) :: u64) = of_nat n"
  proof -
    have "n \<in> {1, 2, 3, 4, 5, 6, 7, 8}" using n by auto
    then show ?thesis by auto
  qed
  have "(of_nat (length z) :: u64) - ucast (last z) = of_nat (length x)"
    by (simp add: z(2) pad) (simp add: z_def)
  moreover have "unat (of_nat (length x) :: u64) = length x"
    using assms(2) by (simp add: unat_of_nat)
  moreover have "int_of_gsize (length y) = int (length y)"
  proof (rule int_of_gsize_fits)
    have "length y = length x + n"
      using length_encrypt_blocks [OF whole assms(1), of ekey] e by (simp add: z_def)
    moreover have "n \<le> 8 - length x mod 8" by (simp add: n_def)
    ultimately show "length y < 2 ^ 31" using assms(2) by linarith
  qed
  ultimately have "mwDecryptExpanded ekey iv y = Some ((z, of_nat (length x)), iv')"
    and "opaque_of (z, of_nat (length x)) = Some x"
    using d z by (simp_all add: mwDecryptExpanded_def opaque_of_def) (simp add: z_def)
  then show ?thesis using iv' by blast
qed

section \<open>Cipher instances\<close>

text \<open>
  What the sending end \<open>s\<close> and the receiving end \<open>r\<close> of a channel promise: as long as they
  are in step, a message encrypted at one end decrypts at the other, and they stay in step.
\<close>

locale cipher_pair =
  fixes encrypt :: "'s \<Rightarrow> bytes \<Rightarrow> bytes \<times> 's"
    and decrypt :: "'r \<Rightarrow> bytes \<Rightarrow> ((bytes \<times> u64) \<times> 'r) option"
    and in_step :: "'s \<Rightarrow> 'r \<Rightarrow> bool"
  assumes passes: "in_step s r \<Longrightarrow> length x < 2 ^ 31 - 8 \<Longrightarrow> encrypt s x = (y, s') \<Longrightarrow>
      \<exists>d r'. decrypt r y = Some (d, r') \<and> opaque_of d = Some x \<and> in_step s' r'"
begin

primrec encrypt_all :: "'s \<Rightarrow> bytes list \<Rightarrow> bytes list" where
  "encrypt_all s [] = []"
| "encrypt_all s (x # xs) = (let (y, s') = encrypt s x in y # encrypt_all s' xs)"

primrec decrypt_all :: "'r \<Rightarrow> bytes list \<Rightarrow> bytes list option" where
  "decrypt_all r [] = Some []"
| "decrypt_all r (y # ys) =
     (case decrypt r y of
        None \<Rightarrow> None
      | Some (d, r') \<Rightarrow>
          (case (opaque_of d, decrypt_all r' ys) of (Some x, Some xs) \<Rightarrow> Some (x # xs) | _ \<Rightarrow> None))"

lemma stream:
  "in_step s r \<Longrightarrow> \<forall>x \<in> set xs. length x < 2 ^ 31 - 8 \<Longrightarrow> decrypt_all r (encrypt_all s xs) = Some xs"
proof (induction xs arbitrary: s r)
  case (Cons x xs)
  obtain y s' where y: "encrypt s x = (y, s')" by force
  from passes [OF Cons.prems(1) _ y] Cons.prems(2)
  obtain d r' where "decrypt r y = Some (d, r')" "opaque_of d = Some x" "in_step s' r'" by auto
  then show ?case using Cons y by simp
qed simp

end

text \<open>
  Numbers of the big-number library (\<open>mpi/mpi.c\<close>) as naturals: reading big-endian bytes, and
  writing them without leading zeros.
\<close>

definition mw_mp_read_unsigned_bin :: "bytes \<Rightarrow> nat" where
  "mw_mp_read_unsigned_bin str = foldl (\<lambda>mp d. mp * 256 + unat d) 0 str"

fun bin_digits :: "nat \<Rightarrow> bytes" where
  "bin_digits n = (if n = 0 then [] else bin_digits (n div 256) @ [of_nat (n mod 256)])"

declare bin_digits.simps [simp del]

definition mw_mp_to_unsigned_bin :: "nat \<Rightarrow> bytes" where
  "mw_mp_to_unsigned_bin mp = (if mp = 0 then [0] else bin_digits mp)"

definition dh_prime :: bytes where
  "dh_prime =
     [0xCF, 0x84, 0xAF, 0xCE, 0x86, 0xDD, 0xFA, 0x52, 0x7F, 0x13, 0x6D, 0x10,
      0x35, 0x75, 0x28, 0xEE, 0xFB, 0xA0, 0xAF, 0xEF, 0x80, 0x8F, 0x29, 0x17,
      0x4E, 0x3B, 0x6A, 0x9E, 0x97, 0x00, 0x01, 0x71, 0x7C, 0x8F, 0x10, 0x6C,
      0x41, 0xC1, 0x61, 0xA6, 0xCE, 0x91, 0x05, 0x7B, 0x34, 0xDA, 0x62, 0xCB,
      0xB8, 0x7B, 0xFD, 0xC1, 0xB3, 0x5C, 0x1B, 0x91, 0x0F, 0xEA, 0x72, 0x24,
      0x9D, 0x56, 0x6B, 0x9F]"

definition mwInitDHPrime :: nat where
  "mwInitDHPrime = mw_mp_read_unsigned_bin dh_prime"

definition mwDHImportKey :: "bytes \<Rightarrow> nat" where
  "mwDHImportKey o1 = mw_mp_read_unsigned_bin o1"

definition mwDHExportKey :: "nat \<Rightarrow> bytes" where
  "mwDHExportKey key = mw_mp_to_unsigned_bin key"

text \<open>\<open>expt base power modulus\<close> is \<open>mw_mp_exptmod\<close>.\<close>

type_synonym exptmod = "nat \<Rightarrow> nat \<Rightarrow> nat \<Rightarrow> nat"

definition mwDHPublicKey :: "exptmod \<Rightarrow> nat \<Rightarrow> nat" where
  "mwDHPublicKey expt private_key = expt 3 private_key mwInitDHPrime"

definition mwDHCalculateShared :: "exptmod \<Rightarrow> nat \<Rightarrow> nat \<Rightarrow> nat" where
  "mwDHCalculateShared expt remote_key private_key = expt remote_key private_key mwInitDHPrime"

record mwCipher_RC2_40 =
  c40_session_key :: "u32 list"
  c40_ready :: bool

record mwCipher_RC2_128 =
  c128_private_key :: nat
  c128_public_key :: bytes

record mwCipherInstance_RC2_40 =
  i40_incoming_key :: "u32 list"
  i40_outgoing_iv :: bytes
  i40_incoming_iv :: bytes

record mwCipherInstance_RC2_128 =
  i128_shared :: "u32 list"
  i128_outgoing_iv :: bytes
  i128_incoming_iv :: bytes

datatype mwCipher = C40 mwCipher_RC2_40 | C128 mwCipher_RC2_128
datatype mwCipherInstance = I40 mwCipherInstance_RC2_40 | I128 mwCipherInstance_RC2_128

definition mwCipher_RC2_40_id :: u16 where "mwCipher_RC2_40_id = 0x0000"
definition mwCipher_RC2_128_id :: u16 where "mwCipher_RC2_128_id = 0x0001"

primrec mwCipher_getType :: "mwCipher \<Rightarrow> u16" where
  "mwCipher_getType (C40 c) = mwCipher_RC2_40_id"
| "mwCipher_getType (C128 c) = mwCipher_RC2_128_id"

primrec instance_type :: "mwCipherInstance \<Rightarrow> u16" where
  "instance_type (I40 c) = mwCipher_RC2_40_id"
| "instance_type (I128 c) = mwCipher_RC2_128_id"

text \<open>The ciphers a session starts with; the random private key is an argument.\<close>

definition mwCipher_new_RC2_40 :: mwCipher where
  "mwCipher_new_RC2_40 = C40 \<lparr>c40_session_key = replicate 64 0, c40_ready = False\<rparr>"

definition mwCipher_new_RC2_128 :: "exptmod \<Rightarrow> nat \<Rightarrow> mwCipher" where
  "mwCipher_new_RC2_128 expt private_key =
     C128 \<lparr>c128_private_key = private_key,
           c128_public_key = mwDHExportKey (mwDHPublicKey expt private_key)\<rparr>"

text \<open>
  \<open>mwKeyExpand (key, (guchar *) login_id, 5)\<close>: five bytes from a string whose block ends
  after its terminator; a null string leaves the key as it was.
\<close>

definition expand_login :: "u32 list \<Rightarrow> mwstring \<Rightarrow> u32 list option" where
  "expand_login key login_id =
     (case login_id of
        None \<Rightarrow> Some key
      | Some s \<Rightarrow> if 5 \<le> length (s @ [0]) then mwKeyExpand (take 5 (s @ [0])) else None)"

definition new_instance_RC2_40 ::
    "mwCipher_RC2_40 \<Rightarrow> mwstring \<Rightarrow> (mwCipher_RC2_40 \<times> mwCipherInstance_RC2_40) option" where
  "new_instance_RC2_40 cr login_id =
     (let cir = \<lparr>i40_incoming_key = replicate 64 0, i40_outgoing_iv = mwIV_init,
                 i40_incoming_iv = mwIV_init\<rparr> in
      if \<not> c40_ready cr then
        (case expand_login (c40_session_key cr) login_id of
           None \<Rightarrow> None
         | Some k \<Rightarrow> Some (cr\<lparr>c40_session_key := k, c40_ready := True\<rparr>, cir))
      else Some (cr, cir))"

definition accepted_RC2_40 :: "mwCipherInstance_RC2_40 \<Rightarrow> mwstring \<Rightarrow> mwCipherInstance_RC2_40 option" where
  "accepted_RC2_40 cir login_id =
     (case expand_login (i40_incoming_key cir) login_id of
        None \<Rightarrow> None | Some k \<Rightarrow> Some (cir\<lparr>i40_incoming_key := k\<rparr>))"

definition encrypt_RC2_40 ::
    "mwCipher_RC2_40 \<Rightarrow> mwCipherInstance_RC2_40 \<Rightarrow> bytes \<Rightarrow> bytes \<times> mwCipherInstance_RC2_40" where
  "encrypt_RC2_40 cr cir data =
     (let (o1, iv) = mwEncryptExpanded (c40_session_key cr) (i40_outgoing_iv cir) data in
      (o1, cir\<lparr>i40_outgoing_iv := iv\<rparr>))"

definition decrypt_RC2_40 ::
    "mwCipherInstance_RC2_40 \<Rightarrow> bytes \<Rightarrow> ((bytes \<times> u64) \<times> mwCipherInstance_RC2_40) option" where
  "decrypt_RC2_40 cir data =
     (case mwDecryptExpanded (i40_incoming_key cir) (i40_incoming_iv cir) data of
        None \<Rightarrow> None
      | Some (o1, iv) \<Rightarrow> Some (o1, cir\<lparr>i40_incoming_iv := iv\<rparr>))"

definition new_instance_RC2_128 :: mwCipherInstance_RC2_128 where
  "new_instance_RC2_128 =
     \<lparr>i128_shared = replicate 64 0, i128_outgoing_iv = mwIV_init, i128_incoming_iv = mwIV_init\<rparr>"

text \<open>\<open>mwKeyExpand (cir->shared, sho.data + (sho.len - 16), 16)\<close>.\<close>

definition offered_RC2_128 ::
    "exptmod \<Rightarrow> mwCipher_RC2_128 \<Rightarrow> mwCipherInstance_RC2_128 \<Rightarrow> mwEncryptItem
      \<Rightarrow> mwCipherInstance_RC2_128 option" where
  "offered_RC2_128 expt cr cir item =
     (let remote_key = mwDHImportKey (ei_info item);
          shared = mwDHCalculateShared expt remote_key (c128_private_key cr);
          sho = mwDHExportKey shared in
      if length sho < 16 then None
      else
        (case mwKeyExpand (drop (length sho - 16) sho) of
           None \<Rightarrow> None | Some k \<Rightarrow> Some (cir\<lparr>i128_shared := k\<rparr>)))"

definition encrypt_RC2_128 ::
    "mwCipherInstance_RC2_128 \<Rightarrow> bytes \<Rightarrow> bytes \<times> mwCipherInstance_RC2_128" where
  "encrypt_RC2_128 cir data =
     (let (o1, iv) = mwEncryptExpanded (i128_shared cir) (i128_outgoing_iv cir) data in
      (o1, cir\<lparr>i128_outgoing_iv := iv\<rparr>))"

definition decrypt_RC2_128 ::
    "mwCipherInstance_RC2_128 \<Rightarrow> bytes \<Rightarrow> ((bytes \<times> u64) \<times> mwCipherInstance_RC2_128) option" where
  "decrypt_RC2_128 cir data =
     (case mwDecryptExpanded (i128_shared cir) (i128_incoming_iv cir) data of
        None \<Rightarrow> None
      | Some (o1, iv) \<Rightarrow> Some (o1, cir\<lparr>i128_incoming_iv := iv\<rparr>))"

text \<open>
  The calls through the table of functions.  \<open>session_id\<close> is the login id of the session,
  \<open>user_id\<close> that of the user of the channel; a cipher and its instance are of one kind.
\<close>

definition mwCipher_newInstance ::
    "mwCipher \<Rightarrow> mwstring \<Rightarrow> (mwCipher \<times> mwCipherInstance) option" where
  "mwCipher_newInstance cipher session_id =
     (case cipher of
        C40 cr \<Rightarrow>
          (case new_instance_RC2_40 cr session_id of
             None \<Rightarrow> None | Some (cr, cir) \<Rightarrow> Some (C40 cr, I40 cir))
      | C128 cr \<Rightarrow> Some (C128 cr, I128 new_instance_RC2_128))"

definition mwCipherInstance_offered ::
    "exptmod \<Rightarrow> mwCipher \<Rightarrow> mwCipherInstance \<Rightarrow> mwEncryptItem \<Rightarrow> mwCipherInstance option" where
  "mwCipherInstance_offered expt cipher ci item =
     (case (cipher, ci) of
        (C128 cr, I128 cir) \<Rightarrow> map_option I128 (offered_RC2_128 expt cr cir item)
      | _ \<Rightarrow> Some ci)"

definition mwCipherInstance_offer :: "mwCipher \<Rightarrow> mwEncryptItem" where
  "mwCipherInstance_offer cipher =
     (case cipher of
        C40 cr \<Rightarrow> \<lparr>ei_id = mwCipher_RC2_40_id, ei_info = []\<rparr>
      | C128 cr \<Rightarrow> \<lparr>ei_id = mwCipher_RC2_128_id, ei_info = c128_public_key cr\<rparr>)"

definition mwCipherInstance_accepted ::
    "exptmod \<Rightarrow> mwCipher \<Rightarrow> mwCipherInstance \<Rightarrow> mwstring \<Rightarrow> mwEncryptItem
      \<Rightarrow> mwCipherInstance option" where
  "mwCipherInstance_accepted expt cipher ci user_id item =
     (case (cipher, ci) of
        (C40 cr, I40 cir) \<Rightarrow> map_option I40 (accepted_RC2_40 cir user_id)
      | (C128 cr, I128 cir) \<Rightarrow> map_option I128 (offered_RC2_128 expt cr cir item)
      | _ \<Rightarrow> Some ci)"

definition mwCipherInstance_accept ::
    "mwCipher \<Rightarrow> mwCipherInstance \<Rightarrow> mwstring \<Rightarrow> (mwEncryptItem \<times> mwCipherInstance) option" where
  "mwCipherInstance_accept cipher ci user_id =
     (case (cipher, ci) of
        (C40 cr, I40 cir) \<Rightarrow>
          (case accepted_RC2_40 cir user_id of
             None \<Rightarrow> None | Some cir \<Rightarrow> Some (mwCipherInstance_offer cipher, I40 cir))
      | _ \<Rightarrow> Some (mwCipherInstance_offer cipher, ci))"

definition mwCipherInstance_encrypt ::
    "mwCipher \<Rightarrow> mwCipherInstance \<Rightarrow> bytes \<Rightarrow> bytes \<times> mwCipherInstance" where
  "mwCipherInstance_encrypt cipher ci data =
     (case (cipher, ci) of
        (C40 cr, I40 cir) \<Rightarrow> (let (o1, cir) = encrypt_RC2_40 cr cir data in (o1, I40 cir))
      | (C128 cr, I128 cir) \<Rightarrow> (let (o1, cir) = encrypt_RC2_128 cir data in (o1, I128 cir))
      | _ \<Rightarrow> (data, ci))"

definition mwCipherInstance_decrypt ::
    "mwCipher \<Rightarrow> mwCipherInstance \<Rightarrow> bytes \<Rightarrow> ((bytes \<times> u64) \<times> mwCipherInstance) option" where
  "mwCipherInstance_decrypt cipher ci data =
     (case (cipher, ci) of
        (C40 cr, I40 cir) \<Rightarrow> map_option (map_prod id I40) (decrypt_RC2_40 cir data)
      | (C128 cr, I128 cir) \<Rightarrow> map_option (map_prod id I128) (decrypt_RC2_128 cir data)
      | _ \<Rightarrow> Some ((data, of_nat (length data)), ci))"

section \<open>Two ends of a channel\<close>

definition ends_in_step :: "mwCipher \<times> mwCipherInstance \<Rightarrow> mwCipher \<times> mwCipherInstance \<Rightarrow> bool" where
  "ends_in_step s r \<longleftrightarrow>
     (case (s, r) of
        ((C40 cr, I40 si), (C40 _, I40 ri)) \<Rightarrow>
          i40_incoming_key ri = c40_session_key cr \<and> i40_incoming_iv ri = i40_outgoing_iv si \<and>
          length (i40_outgoing_iv si) = 8
      | ((C128 _, I128 si), (C128 _, I128 ri)) \<Rightarrow>
          i128_shared ri = i128_shared si \<and> i128_incoming_iv ri = i128_outgoing_iv si \<and>
          length (i128_outgoing_iv si) = 8
      | _ \<Rightarrow> False)"

definition end_encrypt :: "mwCipher \<times> mwCipherInstance \<Rightarrow> bytes \<Rightarrow> bytes \<times> mwCipher \<times> mwCipherInstance" where
  "end_encrypt s x = (let (y, ci) = mwCipherInstance_encrypt (fst s) (snd s) x in (y, fst s, ci))"

definition end_decrypt ::
    "mwCipher \<times> mwCipherInstance \<Rightarrow> bytes \<Rightarrow> ((bytes \<times> u64) \<times> mwCipher \<times> mwCipherInstance) option" where
  "end_decrypt r y = map_option (\<lambda>(d, ci). (d, fst r, ci)) (mwCipherInstance_decrypt (fst r) (snd r) y)"

interpretation channel_cipher: cipher_pair end_encrypt end_decrypt ends_in_step
proof
  fix s r s' :: "mwCipher \<times> mwCipherInstance" and x y
  assume st: "ends_in_step s r" and len: "length x < 2 ^ 31 - 8" and e: "end_encrypt s x = (y, s')"
  from st consider cr si cr' ri where "s = (C40 cr, I40 si)" "r = (C40 cr', I40 ri)"
    | cr si cr' ri where "s = (C128 cr, I128 si)" "r = (C128 cr', I128 ri)"
    by (cases s; cases r; cases "fst s"; cases "snd s"; cases "fst r"; cases "snd r")
      (auto simp: ends_in_step_def)
  then show "\<exists>d r'. end_decrypt r y = Some (d, r') \<and> opaque_of d = Some x \<and> ends_in_step s' r'"
  proof cases
    case 1
    obtain iv' where "mwEncryptExpanded (c40_session_key cr) (i40_outgoing_iv si) x = (y, iv')"
      and "s' = (C40 cr, I40 (si\<lparr>i40_outgoing_iv := iv'\<rparr>))"
      using e 1 by (auto simp: end_encrypt_def mwCipherInstance_encrypt_def encrypt_RC2_40_def
          split: prod.splits)
    then show ?thesis
      using st 1 decrypt_encrypt [OF _ len, of "i40_outgoing_iv si" "c40_session_key cr" y iv']
      by (auto simp: ends_in_step_def end_decrypt_def mwCipherInstance_decrypt_def decrypt_RC2_40_def)
  next
    case 2
    obtain iv' where "mwEncryptExpanded (i128_shared si) (i128_outgoing_iv si) x = (y, iv')"
      and "s' = (C128 cr, I128 (si\<lparr>i128_outgoing_iv := iv'\<rparr>))"
      using e 2 by (auto simp: end_encrypt_def mwCipherInstance_encrypt_def encrypt_RC2_128_def
          split: prod.splits)
    then show ?thesis
      using st 2 decrypt_encrypt [OF _ len, of "i128_outgoing_iv si" "i128_shared si" y iv']
      by (auto simp: ends_in_step_def end_decrypt_def mwCipherInstance_decrypt_def decrypt_RC2_128_def)
  qed
qed

section \<open>The key exchange\<close>

lemma read_bin_digits: "mw_mp_read_unsigned_bin (bin_digits n) = n"
proof (induction n rule: less_induct)
  case (less n)
  show ?case
  proof (cases "n = 0")
    case False
    have d: "unat (of_nat (n mod 256) :: u8) = n mod 256" by (simp add: unat_of_nat)
    have "mw_mp_read_unsigned_bin (bin_digits n) =
        mw_mp_read_unsigned_bin (bin_digits (n div 256)) * 256 + unat (of_nat (n mod 256) :: u8)"
      using False by (subst bin_digits.simps) (simp add: mw_mp_read_unsigned_bin_def)
    also have "\<dots> = n" using less.IH [of "n div 256"] False unfolding d by simp
    finally show ?thesis .
  qed (simp add: bin_digits.simps mw_mp_read_unsigned_bin_def)
qed

lemma import_export [simp]: "mwDHImportKey (mwDHExportKey n) = n"
proof (cases "n = 0")
  case True
  then show ?thesis
    by (simp add: mwDHImportKey_def mwDHExportKey_def mw_mp_to_unsigned_bin_def
        mw_mp_read_unsigned_bin_def)
qed (simp add: mwDHImportKey_def mwDHExportKey_def mw_mp_to_unsigned_bin_def read_bin_digits)

lemma shared_agrees:
  assumes "\<forall>b e m. expt b e m = b ^ e mod m"
  shows "mwDHCalculateShared expt (mwDHPublicKey expt y) x = mwDHCalculateShared expt (mwDHPublicKey expt x) y"
proof -
  have "(3 ^ y mod p) ^ x mod p = (3 ^ x mod p) ^ y mod (p :: nat)" for p
    by (simp add: power_mod mult.commute flip: power_mult)
  then show ?thesis by (simp add: mwDHCalculateShared_def mwDHPublicKey_def assms)
qed

section \<open>Properties\<close>

text \<open>
  C17: the unmasked 32-bit arithmetic of \<open>mwEncryptBlock\<close> and \<open>mwDecryptBlock\<close> computes RC2 on
  16-bit words: five mixing rounds, a mash, six rounds, a mash and five rounds, and their
  inverse, for every key and every block.
\<close>

theorem block_cipher_is_rc2:
  "mwEncryptBlock ekey blk = store16 (rc2_encrypt (low_keys ekey) (load16 blk)) \<and>
   mwDecryptBlock ekey blk = store16 (rc2_decrypt (low_keys ekey) (load16 blk))"
  by (simp add: mwEncryptBlock_rc2 mwDecryptBlock_rc2)

text \<open>
  C29: a message of fewer than \<open>2 ^ 31 - 8\<close> bytes, that is, one whose padded length fits the
  \<open>int\<close> counters of the receiver, that \<open>mwEncryptExpanded\<close> pads and chains is given back by
  \<open>mwDecryptExpanded\<close> with its length, under every key and vector, and both calls leave the
  same vector for the next message.
\<close>

theorem message_decrypts:
  assumes "length iv = 8" and "length x < 2 ^ 31 - 8"
  shows "\<exists>y iv' d. mwEncryptExpanded ekey iv x = (y, iv') \<and>
           mwDecryptExpanded ekey iv y = Some (d, iv') \<and> opaque_of d = Some x"
  using decrypt_encrypt [OF assms, of ekey] by (cases "mwEncryptExpanded ekey iv x") auto

theorem message_decrypts_witness:
  "\<exists>y iv' d. mwEncryptExpanded (replicate 64 7) mwIV_init [1, 2, 3] = (y, iv') \<and>
     mwDecryptExpanded (replicate 64 7) mwIV_init y = Some (d, iv') \<and> opaque_of d = Some [1, 2, 3]"
  by (rule message_decrypts) (simp_all add: mwIV_init_def)

text \<open>
  C19: while the sending end and the receiving end of a channel are in step, any sequence of
  messages of fewer than \<open>2 ^ 31 - 8\<close> bytes each (the receiver counts in \<open>int\<close>) sent through \<open>mwCipherInstance_encrypt\<close> comes out of \<open>mwCipherInstance_decrypt\<close>
  unchanged and in order, for both kinds of cipher.
\<close>

theorem cipher_stream:
  assumes "ends_in_step s r" and "\<forall>x \<in> set xs. length x < 2 ^ 31 - 8"
  shows "channel_cipher.decrypt_all r (channel_cipher.encrypt_all s xs) = Some xs"
  by (rule channel_cipher.stream [OF assms])

theorem cipher_stream_witness:
  "channel_cipher.decrypt_all (mwCipher_new_RC2_40, I40 \<lparr>i40_incoming_key = replicate 64 0,
       i40_outgoing_iv = [], i40_incoming_iv = mwIV_init\<rparr>)
     (channel_cipher.encrypt_all (mwCipher_new_RC2_40, I40 \<lparr>i40_incoming_key = [],
       i40_outgoing_iv = mwIV_init, i40_incoming_iv = []\<rparr>) [[1, 2, 3], [], [4]]) =
   Some [[1, 2, 3], [], [4]]"
  by (rule cipher_stream) (simp_all add: ends_in_step_def mwCipher_new_RC2_40_def mwIV_init_def)

text \<open>
  C34: the two sides of the Diffie-Hellman exchange of the RC2/128 cipher end up with the same
  expanded key, when each processes the item the other offers (\<open>offered_RC2_128\<close>), provided
  \<open>mw_mp_exptmod\<close> is modular exponentiation.
\<close>

theorem key_exchange_agrees:
  assumes "\<forall>b e m. expt b e m = b ^ e mod m"
    and "mwCipher_new_RC2_128 expt x = C128 cx" and "mwCipher_new_RC2_128 expt y = C128 cy"
  shows "map_option i128_shared (offered_RC2_128 expt cx ix (mwCipherInstance_offer (C128 cy))) =
         map_option i128_shared (offered_RC2_128 expt cy iy (mwCipherInstance_offer (C128 cx)))"
  using assms(2,3) shared_agrees [OF assms(1), of y x]
  by (auto simp: offered_RC2_128_def mwCipher_new_RC2_128_def mwCipherInstance_offer_def Let_def
      split: option.split)

theorem key_exchange_agrees_witness:
  "map_option i128_shared
     (offered_RC2_128 (\<lambda>b e m. b ^ e mod m) \<lparr>c128_private_key = 5,
        c128_public_key = mwDHExportKey (mwDHPublicKey (\<lambda>b e m. b ^ e mod m) 5)\<rparr> new_instance_RC2_128
        (mwCipherInstance_offer (mwCipher_new_RC2_128 (\<lambda>b e m. b ^ e mod m) 7))) =
   map_option i128_shared
     (offered_RC2_128 (\<lambda>b e m. b ^ e mod m) \<lparr>c128_private_key = 7,
        c128_public_key = mwDHExportKey (mwDHPublicKey (\<lambda>b e m. b ^ e mod m) 7)\<rparr> new_instance_RC2_128
        (mwCipherInstance_offer (mwCipher_new_RC2_128 (\<lambda>b e m. b ^ e mod m) 5)))"
  unfolding mwCipher_new_RC2_128_def
  by (rule key_exchange_agrees [where x = 5 and y = 7]) (simp_all add: mwCipher_new_RC2_128_def)

text \<open>
  the length byte of the padding is not checked.  Whatever the key, there is a message of
  one block after whose decryption the length of the result exceeds its block: the last byte
  of the block is subtracted from a length of eight and wraps.
\<close>

theorem padding_underflow:
  assumes "length iv = 8" and "length p = 8" and "8 < unat (last p)"
  shows "\<exists>d iv'. mwDecryptExpanded ekey iv (mwEncryptBlock ekey (xor_bytes p iv)) = Some (d, iv') \<and>
           length (fst d) = 8 \<and> unat (snd d) = 2 ^ 64 + 8 - unat (last p)"
proof -
  let ?y = "mwEncryptBlock ekey (xor_bytes p iv)"
  have len: "length ?y = 8" by simp
  then have "?y \<noteq> []" by (metis list.size(3) zero_neq_numeral)
  then have d: "decrypt_blocks ekey iv ?y = Some (p, ?y)"
    using assms len by (simp add: decrypt_blocks.simps [of _ _ ?y] decrypt_blocks.simps [of _ _ "[]"]
        decrypt_encrypt_block xor_twice)
  have "p \<noteq> []" using assms(2) by auto
  moreover have "unat ((8 :: u64) - ucast (last p)) = 2 ^ 64 + 8 - unat (last p)"
  proof -
    have u: "unat (ucast (last p) :: u64) = unat (last p)"
      using unsigned_less [of "last p", where ?'a = nat]
      by (simp add: unsigned_ucast_eq take_bit_nat_eq_self_iff)
    show ?thesis using assms(3) unsigned_less [of "last p", where ?'a = nat] u
      by (simp add: unat_sub_if_size word_size word_le_nat_alt)
  qed
  moreover have "int_of_gsize (length ?y) = int (length ?y)"
    by (rule int_of_gsize_fits) (simp add: len)
  ultimately show ?thesis using d assms(2) by (simp add: mwDecryptExpanded_def)
qed

theorem padding_underflow_witness:
  "\<exists>d iv'. mwDecryptExpanded (replicate 64 7) mwIV_init
       (mwEncryptBlock (replicate 64 7) (xor_bytes (replicate 8 255) mwIV_init)) = Some (d, iv') \<and>
     length (fst d) = 8 \<and> unat (snd d) = 2 ^ 64 + 8 - unat (last (replicate 8 (255 :: u8)))"
  by (rule padding_underflow) (simp_all add: mwIV_init_def)

text \<open>
  a peer that offers the public key 1 makes \<open>offered_RC2_128\<close> read before its block,
  whatever our private key: the shared number is 1, one byte long, and the sixteen bytes
  before its end are taken.
\<close>

theorem small_public_key_overrun:
  assumes "\<forall>b e m. expt b e m = b ^ e mod m" and "ei_info item = [1]"
  shows "offered_RC2_128 expt cr cir item = None"
proof -
  have "mwDHCalculateShared expt (mwDHImportKey [1]) k = 1 mod mwInitDHPrime" for k
    by (simp add: mwDHCalculateShared_def assms(1) mwDHImportKey_def mw_mp_read_unsigned_bin_def)
  moreover have "length (mwDHExportKey (1 mod mwInitDHPrime)) < 16"
  proof -
    have "1 mod mwInitDHPrime \<le> 1" by (rule mod_less_eq_dividend)
    then have "1 mod mwInitDHPrime = 0 \<or> 1 mod mwInitDHPrime = 1" by linarith
    then show ?thesis
      by (auto simp: mwDHExportKey_def mw_mp_to_unsigned_bin_def bin_digits.simps [of "Suc 0"]
          bin_digits.simps [of 0])
  qed
  ultimately show ?thesis using assms(2) by (simp add: offered_RC2_128_def Let_def)
qed

theorem small_public_key_overrun_witness:
  "offered_RC2_128 (\<lambda>b e m. b ^ e mod m) \<lparr>c128_private_key = 12345, c128_public_key = []\<rparr>
     new_instance_RC2_128 \<lparr>ei_id = 1, ei_info = [1]\<rparr> = None"
  by (rule small_public_key_overrun) simp_all

end
