(* ===== verification/MwState.thy ===== *)
theory MwState imports MwStream MwCipher "HOL-Library.Monad_Syntax" "HOL-Library.AList" begin

text \<open>
  The state of a Sametime client: the session, its channels and its services
  (\<open>session.c\<close>, \<open>channel.c\<close>, \<open>service.c\<close> and their headers under
  \<open>protocols/Sametime/src/meanwhile/src\<close>), the parts of \<open>session.c\<close> that touch the outside,
  and the life of a service.

  Channels are objects in a heap (\<open>se_heap\<close>), reached by pointers; a freed channel is not in
  it, and a function that follows a pointer to one returns \<open>None\<close>.  Everything the library
  calls that is not its own code is one function, \<open>en_cb\<close>: the handler the client gave to the
  session and the handlers of its services.  It gets the call and the session and returns the
  session it leaves behind, so it may itself have used the library.
\<close>

section \<open>Small parts\<close>

text \<open>\<open>struct mw_datum\<close>: a client's pointer and whether a function to clear it is set.\<close>

record mw_datum =
  dt_data :: nat
  dt_clear :: bool

definition mw_datum_new :: "nat \<Rightarrow> bool \<Rightarrow> mw_datum" where
  "mw_datum_new data clear = \<lparr>dt_data = data, dt_clear = clear\<rparr>"

datatype mwChannelState =
    mwChannel_NEW | mwChannel_INIT | mwChannel_WAIT | mwChannel_OPEN | mwChannel_DESTROY
  | mwChannel_ERROR | mwChannel_UNKNOWN

datatype mwSessionState =
    mwSession_STARTING | mwSession_HANDSHAKE | mwSession_HANDSHAKE_ACK | mwSession_LOGIN
  | mwSession_LOGIN_REDIR | mwSession_LOGIN_ACK | mwSession_STARTED | mwSession_STOPPING
  | mwSession_STOPPED | mwSession_UNKNOWN | mwSession_LOGIN_CONT

datatype mwServiceState =
    mwServiceState_STOPPED | mwServiceState_STOPPING | mwServiceState_STARTED
  | mwServiceState_STARTING | mwServiceState_ERROR | mwServiceState_UNKNOWN

definition mwEncrypt_NONE :: u16 where "mwEncrypt_NONE = 0x0000"
definition mwEncrypt_WHATEVER :: u16 where "mwEncrypt_WHATEVER = 0x0001"
definition mwEncrypt_RC2_40 :: u16 where "mwEncrypt_RC2_40 = 0x1000"
definition mwEncrypt_RC2_128 :: u16 where "mwEncrypt_RC2_128 = 0x2000"

definition ERR_FAILURE :: u32 where "ERR_FAILURE = 0x80000000"
definition ERR_REQUEST_INVALID :: u32 where "ERR_REQUEST_INVALID = 0x80000001"
definition ERR_SERVICE_NO_SUPPORT :: u32 where "ERR_SERVICE_NO_SUPPORT = 0x8000000d"
definition CONNECTION_BROKEN :: u32 where "CONNECTION_BROKEN = 0x80000221"

definition MW_MASTER_CHANNEL_ID :: u32 where "MW_MASTER_CHANNEL_ID = 0"

definition mwChannel_idIsOutgoing :: "u32 \<Rightarrow> bool" where
  "mwChannel_idIsOutgoing chan_id \<longleftrightarrow> 0x80000000 AND chan_id = 0"

definition mwChannel_idIsIncoming :: "u32 \<Rightarrow> bool" where
  "mwChannel_idIsIncoming chan_id \<longleftrightarrow> \<not> mwChannel_idIsOutgoing chan_id"

section \<open>Channels, services, sessions\<close>

text \<open>
  A cipher instance is kept with the cipher it was made from, which does not change any more
  once it has made an instance.  A table of instances is listed in the order the hash table
  iterates over it, which is taken to be the order of insertion; a destroyed table is \<open>None\<close>.
\<close>

type_synonym instance_ref = "mwCipher \<times> mwCipherInstance"
type_synonym send_msg = "mwMessageHead \<times> mwMsgChannelSend"

record mwChannel =
  ch_state :: mwChannelState
  ch_user :: mwLoginInfo
  ch_reserved :: u32
  ch_id :: u32
  ch_service :: u32
  ch_proto_type :: u32
  ch_proto_ver :: u32
  ch_options :: u32
  ch_addtl_create :: bytes
  ch_addtl_accept :: bytes
  ch_supported :: "(u16 \<times> instance_ref) list option"
  ch_offered_policy :: u16
  ch_policy :: u16
  ch_cipher :: "instance_ref option"
  ch_msg_recv :: u64
  ch_opened_at :: "nat option"
  ch_outgoing_queue :: "send_msg list"
  ch_incoming_queue :: "send_msg list"
  ch_srvc_data :: mw_datum

text \<open>A service by the functions it has set, and the pointer its client keeps with it.\<close>

record mwService =
  sv_state :: mwServiceState
  sv_start :: bool
  sv_stop :: bool
  sv_clear :: bool
  sv_recv_create :: bool
  sv_recv_accept :: bool
  sv_recv_destroy :: bool
  sv_recv :: bool
  sv_client_data :: nat
  sv_client_cleanup :: bool

text \<open>
  The pointer that goes with a state: none, a reason code cast to one, the host name inside a
  redirect message, or the same after the message was freed.
\<close>

datatype state_info = Info_null | Info_code u32 | Info_host mwstring | Info_freed

datatype attribute = Attr_num u32 | Attr_str bytes

text \<open>
  \<open>se_io\<close> are the results of the coming calls of \<open>io_write\<close> (0 when it runs out), \<open>se_out\<close>
  what was passed to it, \<open>se_closed\<close> how often the connection was closed; \<open>se_rand\<close> counts
  the random numbers used.  \<open>se_srv\<close> are the service objects by type and \<open>se_services\<close> the
  types registered with the session, in the order its table lists them.
\<close>

record mwSession =
  se_state :: mwSessionState
  se_state_info :: state_info
  se_in :: inbuf
  se_login :: mwLoginInfo
  se_status :: mwUserStatus
  se_privacy :: mwPrivacyInfo
  se_heap :: "nat \<Rightarrow> mwChannel option"
  se_next :: nat
  se_map :: "u32 \<Rightarrow> nat option"
  se_counter :: u32
  se_srv :: "u32 \<Rightarrow> mwService option"
  se_services :: "u32 list"
  se_ciphers :: "(u16 \<times> mwCipher) list"
  se_attributes :: "string \<Rightarrow> attribute option"
  se_client_data :: mw_datum
  se_io :: "int list"
  se_out :: "bytes list"
  se_closed :: nat
  se_rand :: nat

text \<open>The calls that leave the library.\<close>

datatype callback =
    On_stateChange mwSessionState state_info
  | On_setPrivacyInfo
  | On_setUserStatus
  | On_admin mwstring
  | On_announce mwLoginInfo bool mwstring
  | On_clear
  | Srvc_start u32
  | Srvc_stop u32
  | Srvc_clear u32
  | Srvc_recv_create u32 nat mwMsgChannelCreate
  | Srvc_recv_accept u32 nat mwMsgChannelAccept
  | Srvc_recv_destroy u32 nat mwMsgChannelDestroy
  | Srvc_recv u32 nat u16 bytes
  | Datum_clear nat

text \<open>
  The rest of the outside: modular exponentiation, the random numbers, the clock, and what
  uninitialised variables hold.
\<close>

record mwEnv =
  en_cb :: "callback \<Rightarrow> mwSession \<Rightarrow> mwSession option"
  en_expt :: exptmod
  en_key :: "nat \<Rightarrow> nat \<Rightarrow> bytes"
  en_private :: "nat \<Rightarrow> nat"
  en_time :: nat
  en_junk :: u32
  en_head :: mwMessageHead

section \<open>Calls to the outside\<close>

definition io_write :: "mwSession \<Rightarrow> bytes \<Rightarrow> int \<times> mwSession" where
  "io_write s buf =
     (case se_io s of
        [] \<Rightarrow> (0, s\<lparr>se_out := se_out s @ [buf]\<rparr>)
      | r # rs \<Rightarrow> (r, s\<lparr>se_io := rs, se_out := se_out s @ [buf]\<rparr>))"

definition io_close :: "mwSession \<Rightarrow> mwSession" where
  "io_close s = s\<lparr>se_closed := se_closed s + 1\<rparr>"

text \<open>\<open>state\<close> of \<open>session.c\<close>.\<close>

definition session_state ::
    "mwEnv \<Rightarrow> mwSession \<Rightarrow> mwSessionState \<Rightarrow> state_info \<Rightarrow> mwSession option" where
  "session_state E s st info =
     (if se_state s = st then Some s
      else en_cb E (On_stateChange st info) (s\<lparr>se_state := st, se_state_info := info\<rparr>))"

definition SET_USER_STATUS_recv :: "mwEnv \<Rightarrow> mwSession \<Rightarrow> mwUserStatus \<Rightarrow> mwSession option" where
  "SET_USER_STATUS_recv E s msg =
     en_cb E On_setUserStatus (s\<lparr>se_status := mwUserStatus_clone msg\<rparr>)"

text \<open>A freshly allocated message with its body filled in.\<close>

definition new_msg :: "mwBody \<Rightarrow> mwMessage" where
  "new_msg body = \<lparr>msg_head = mwMessageHead_zero\<lparr>mh_type := body_type body\<rparr>, msg_body = body\<rparr>"

definition on_channel :: "u32 \<Rightarrow> mwMessage \<Rightarrow> mwMessage" where
  "on_channel chan msg = msg\<lparr>msg_head := (msg_head msg)\<lparr>mh_channel := chan\<rparr>\<rparr>"

definition mwSession_send :: "mwEnv \<Rightarrow> mwSession \<Rightarrow> mwMessage \<Rightarrow> (int \<times> mwSession) option" where
  "mwSession_send E s msg =
     (let (ret, s) = io_write s (send_bytes msg) in
      if ret = 0 then
        (case msg_body msg of
           SetUserStatus m \<Rightarrow> map_option (Pair ret) (SET_USER_STATUS_recv E s m)
         | _ \<Rightarrow> Some (ret, s))
      else Some (ret, s))"

section \<open>Services\<close>

definition mwSession_getService :: "mwSession \<Rightarrow> u32 \<Rightarrow> u32 option" where
  "mwSession_getService s srv = (if srv \<in> set (se_services s) then Some srv else None)"

definition put_service :: "mwSession \<Rightarrow> u32 \<Rightarrow> mwService \<Rightarrow> mwSession" where
  "put_service s t v = s\<lparr>se_srv := (se_srv s)(t \<mapsto> v)\<rparr>"

definition service_dead :: "mwService \<Rightarrow> bool" where
  "service_dead v \<longleftrightarrow> sv_state v = mwServiceState_STOPPING \<or> sv_state v = mwServiceState_STOPPED"

definition mwService_init :: "mwService \<Rightarrow> mwService" where
  "mwService_init v = v\<lparr>sv_state := mwServiceState_STOPPED\<rparr>"

definition mwService_started :: "mwSession \<Rightarrow> u32 \<Rightarrow> mwSession option" where
  "mwService_started s t =
     do { v \<leftarrow> se_srv s t; Some (put_service s t (v\<lparr>sv_state := mwServiceState_STARTED\<rparr>)) }"

definition mwService_start :: "mwEnv \<Rightarrow> mwSession \<Rightarrow> u32 \<Rightarrow> mwSession option" where
  "mwService_start E s t =
     do {
       v \<leftarrow> se_srv s t;
       if sv_state v \<noteq> mwServiceState_STOPPED then Some s
       else
         (let s = put_service s t (v\<lparr>sv_state := mwServiceState_STARTING\<rparr>) in
          if sv_start v then en_cb E (Srvc_start t) s else mwService_started s t)
     }"

definition mwService_stopped :: "mwSession \<Rightarrow> u32 \<Rightarrow> mwSession option" where
  "mwService_stopped s t =
     do {
       v \<leftarrow> se_srv s t;
       Some (if sv_state v \<noteq> mwServiceState_STOPPED
             then put_service s t (v\<lparr>sv_state := mwServiceState_STOPPED\<rparr>) else s)
     }"

definition mwService_error :: "mwEnv \<Rightarrow> mwSession \<Rightarrow> u32 \<Rightarrow> mwSession option" where
  "mwService_error E s t =
     do {
       v \<leftarrow> se_srv s t;
       if service_dead v then Some s
       else
         (let s = put_service s t (v\<lparr>sv_state := mwServiceState_ERROR\<rparr>) in
          if sv_stop v then en_cb E (Srvc_stop t) s else mwService_stopped s t)
     }"

definition mwService_stop :: "mwEnv \<Rightarrow> mwSession \<Rightarrow> u32 \<Rightarrow> mwSession option" where
  "mwService_stop E s t =
     do {
       v \<leftarrow> se_srv s t;
       if service_dead v then Some s
       else
         (let s = put_service s t (v\<lparr>sv_state := mwServiceState_STOPPING\<rparr>) in
          if sv_stop v then en_cb E (Srvc_stop t) s else mwService_stopped s t)
     }"

definition mwService_free :: "mwEnv \<Rightarrow> mwSession \<Rightarrow> u32 \<Rightarrow> mwSession option" where
  "mwService_free E s t =
     do {
       s \<leftarrow> mwService_stop E s t;
       v \<leftarrow> se_srv s t;
       s \<leftarrow> (if sv_clear v then en_cb E (Srvc_clear t) s else Some s);
       v \<leftarrow> se_srv s t;
       s \<leftarrow> (if sv_client_cleanup v then en_cb E (Datum_clear (sv_client_data v)) s else Some s);
       Some (s\<lparr>se_srv := (se_srv s)(t := None)\<rparr>)
     }"

definition mwService_setClientData :: "mwSession \<Rightarrow> u32 \<Rightarrow> nat \<Rightarrow> bool \<Rightarrow> mwSession option" where
  "mwService_setClientData s t data cleanup =
     do { v \<leftarrow> se_srv s t;
          Some (put_service s t (v\<lparr>sv_client_data := data, sv_client_cleanup := cleanup\<rparr>)) }"

definition mwService_removeClientData :: "mwEnv \<Rightarrow> mwSession \<Rightarrow> u32 \<Rightarrow> mwSession option" where
  "mwService_removeClientData E s t =
     do {
       v \<leftarrow> se_srv s t;
       s \<leftarrow> (if sv_client_cleanup v then
               do { s \<leftarrow> en_cb E (Datum_clear (sv_client_data v)) s;
                    v \<leftarrow> se_srv s t;
                    Some (put_service s t (v\<lparr>sv_client_cleanup := False\<rparr>)) }
             else Some s);
       v \<leftarrow> se_srv s t;
       Some (put_service s t (v\<lparr>sv_client_data := 0\<rparr>))
     }"

text \<open>\<open>mwService_recv\<close> and the like; the service pointer may be null.\<close>

definition mwService_recv ::
    "mwEnv \<Rightarrow> mwSession \<Rightarrow> u32 option \<Rightarrow> nat \<Rightarrow> u16 \<Rightarrow> bytes \<Rightarrow> mwSession option" where
  "mwService_recv E s srvc p msg_type data =
     (case srvc of
        None \<Rightarrow> Some s
      | Some t \<Rightarrow>
          do { v \<leftarrow> se_srv s t;
               if sv_recv v then en_cb E (Srvc_recv t p msg_type data) s else Some s })"

definition mwService_recvAccept ::
    "mwEnv \<Rightarrow> mwSession \<Rightarrow> u32 \<Rightarrow> nat \<Rightarrow> mwMsgChannelAccept \<Rightarrow> mwSession option" where
  "mwService_recvAccept E s t p msg =
     do { v \<leftarrow> se_srv s t;
          if sv_recv_accept v then en_cb E (Srvc_recv_accept t p msg) s else Some s }"

definition mwService_recvDestroy ::
    "mwEnv \<Rightarrow> mwSession \<Rightarrow> u32 \<Rightarrow> nat \<Rightarrow> mwMsgChannelDestroy \<Rightarrow> mwSession option" where
  "mwService_recvDestroy E s t p msg =
     do { v \<leftarrow> se_srv s t;
          if sv_recv_destroy v then en_cb E (Srvc_recv_destroy t p msg) s else Some s }"

end
