(* ===== verification/MwChannel.thy ===== *)
theory MwChannel imports MwState begin

text \<open>
  Channels (\<open>protocols/Sametime/src/meanwhile/src/channel.c\<close>): how they are allocated,
  offered, accepted, opened and destroyed, how their ciphers are negotiated, and the queues
  that hold the messages sent and received before a channel is open.

  A channel is reached by its pointer, a key of \<open>se_heap\<close>.  Every function that follows the
  pointer returns \<open>None\<close> when the channel has been freed, which callbacks of services may
  have done.
\<close>

section \<open>Access\<close>

definition put_chan :: "mwSession \<Rightarrow> nat \<Rightarrow> mwChannel \<Rightarrow> mwSession" where
  "put_chan s p c = s\<lparr>se_heap := (se_heap s)(p \<mapsto> c)\<rparr>"

definition channel_state :: "mwSession \<Rightarrow> nat \<Rightarrow> mwChannelState \<Rightarrow> mwSession option" where
  "channel_state s p st = do { c \<leftarrow> se_heap s p; Some (put_chan s p (c\<lparr>ch_state := st\<rparr>)) }"

definition channel_free :: "mwSession \<Rightarrow> nat \<Rightarrow> mwSession option" where
  "channel_free s p = do { c \<leftarrow> se_heap s p; Some (s\<lparr>se_heap := (se_heap s)(p := None)\<rparr>) }"

definition get_supported :: "mwChannel \<Rightarrow> u16 \<Rightarrow> instance_ref option" where
  "get_supported c cid = (case ch_supported c of None \<Rightarrow> None | Some t \<Rightarrow> map_of t cid)"

definition put_supported :: "mwChannel \<Rightarrow> instance_ref \<Rightarrow> mwChannel" where
  "put_supported c ci =
     c\<lparr>ch_supported := map_option (AList.update (mwCipher_getType (fst ci)) ci) (ch_supported c)\<rparr>"

definition mwChannel_getSupportedCipherInstances :: "mwChannel \<Rightarrow> instance_ref list" where
  "mwChannel_getSupportedCipherInstances c =
     (case ch_supported c of None \<Rightarrow> [] | Some t \<Rightarrow> map snd t)"

definition mwChannel_find :: "mwSession \<Rightarrow> u32 \<Rightarrow> nat option" where
  "mwChannel_find s chan = se_map s chan"

definition mwChannel_getService :: "mwSession \<Rightarrow> mwChannel \<Rightarrow> u32 option" where
  "mwChannel_getService s c = mwSession_getService s (ch_service c)"

text \<open>The fields of a channel being prepared.\<close>

definition set_init :: "(mwChannel \<Rightarrow> mwChannel) \<Rightarrow> mwSession \<Rightarrow> nat \<Rightarrow> mwSession option" where
  "set_init f s p =
     do { c \<leftarrow> se_heap s p; Some (if ch_state c = mwChannel_INIT then put_chan s p (f c) else s) }"

definition mwChannel_setService :: "mwSession \<Rightarrow> nat \<Rightarrow> u32 \<Rightarrow> mwSession option" where
  "mwChannel_setService s p t = set_init (ch_service_update (\<lambda>_. t)) s p"

definition mwChannel_setProtoType :: "mwSession \<Rightarrow> nat \<Rightarrow> u32 \<Rightarrow> mwSession option" where
  "mwChannel_setProtoType s p v = set_init (ch_proto_type_update (\<lambda>_. v)) s p"

definition mwChannel_setProtoVer :: "mwSession \<Rightarrow> nat \<Rightarrow> u32 \<Rightarrow> mwSession option" where
  "mwChannel_setProtoVer s p v = set_init (ch_proto_ver_update (\<lambda>_. v)) s p"

definition mwChannel_setOptions :: "mwSession \<Rightarrow> nat \<Rightarrow> u32 \<Rightarrow> mwSession option" where
  "mwChannel_setOptions s p v = set_init (ch_options_update (\<lambda>_. v)) s p"

definition mwChannel_setServiceData :: "mwSession \<Rightarrow> nat \<Rightarrow> nat \<Rightarrow> bool \<Rightarrow> mwSession option" where
  "mwChannel_setServiceData s p data clear =
     do { c \<leftarrow> se_heap s p; Some (put_chan s p (c\<lparr>ch_srvc_data := mw_datum_new data clear\<rparr>)) }"

text \<open>What the pointers of \<open>mwChannel_getUser\<close> and its like let a client write.\<close>

definition write_user :: "mwSession \<Rightarrow> nat \<Rightarrow> mwLoginInfo \<Rightarrow> mwSession option" where
  "write_user s p u = do { c \<leftarrow> se_heap s p; Some (put_chan s p (c\<lparr>ch_user := u\<rparr>)) }"

definition write_addtl ::
    "mwSession \<Rightarrow> nat \<Rightarrow> bytes \<Rightarrow> bytes \<Rightarrow> mwSession option" where
  "write_addtl s p create accept =
     do { c \<leftarrow> se_heap s p;
          Some (put_chan s p (c\<lparr>ch_addtl_create := create, ch_addtl_accept := accept\<rparr>)) }"

section \<open>Allocation\<close>

definition new_channel :: "u32 \<Rightarrow> mwChannel" where
  "new_channel chan =
     \<lparr>ch_state = mwChannel_WAIT, ch_user = mwLoginInfo_zero, ch_reserved = 0, ch_id = chan,
      ch_service = 0, ch_proto_type = 0, ch_proto_ver = 0, ch_options = 0,
      ch_addtl_create = [], ch_addtl_accept = [], ch_supported = Some [],
      ch_offered_policy = 0, ch_policy = 0, ch_cipher = None, ch_msg_recv = 0,
      ch_opened_at = None, ch_outgoing_queue = [], ch_incoming_queue = [],
      ch_srvc_data = mw_datum_new 0 False\<rparr>"

text \<open>\<open>g_hash_table_insert\<close> frees the channel the table had for the id.\<close>

definition mwChannel_newIncoming :: "mwSession \<Rightarrow> u32 \<Rightarrow> (nat \<times> mwSession) option" where
  "mwChannel_newIncoming s chan =
     do {
       s \<leftarrow> (case se_map s chan of None \<Rightarrow> Some s | Some old \<Rightarrow> channel_free s old);
       let p = se_next s;
       Some (p, s\<lparr>se_next := p + 1, se_heap := (se_heap s)(p \<mapsto> new_channel chan),
                 se_map := (se_map s)(chan \<mapsto> p)\<rparr>)
     }"

text \<open>\<open>do id = ++cs->counter while (...)\<close>; the loop ends if some id is free.\<close>

partial_function (option) next_id :: "(u32 \<Rightarrow> nat option) \<Rightarrow> u32 \<Rightarrow> u32 option" where
  "next_id m counter =
     (if m (counter + 1) = None then Some (counter + 1) else next_id m (counter + 1))"

definition mwChannel_newOutgoing :: "mwSession \<Rightarrow> (nat \<times> mwSession) option" where
  "mwChannel_newOutgoing s =
     do {
       chan \<leftarrow> next_id (se_map s) (se_counter s);
       (p, s) \<leftarrow> mwChannel_newIncoming (s\<lparr>se_counter := chan\<rparr>) chan;
       s \<leftarrow> channel_state s p mwChannel_INIT;
       Some (p, s)
     }"

section \<open>Ciphers of a channel\<close>

definition mwChannel_addSupportedCipherInstance ::
    "mwSession \<Rightarrow> nat \<Rightarrow> instance_ref \<Rightarrow> mwSession option" where
  "mwChannel_addSupportedCipherInstance s p ci =
     do { c \<leftarrow> se_heap s p; Some (put_chan s p (put_supported c ci)) }"

text \<open>
  \<open>mwCipher_newInstance\<close> on a cipher of the session: the cipher it leaves behind goes back
  into the session's table.
\<close>

definition session_newInstance :: "mwSession \<Rightarrow> mwCipher \<Rightarrow> (instance_ref \<times> mwSession) option" where
  "session_newInstance s cipher =
     do {
       (cipher, ci) \<leftarrow> mwCipher_newInstance cipher (li_login_id (se_login s));
       Some ((cipher, ci),
             s\<lparr>se_ciphers := AList.update (mwCipher_getType cipher) cipher (se_ciphers s)\<rparr>)
     }"

fun populate :: "mwSession \<Rightarrow> nat \<Rightarrow> mwCipher list \<Rightarrow> mwSession option" where
  "populate s p [] = Some s"
| "populate s p (cipher # cs) =
     do {
       (ci, s) \<leftarrow> session_newInstance s cipher;
       s \<leftarrow> mwChannel_addSupportedCipherInstance s p ci;
       populate s p cs
     }"

definition mwChannel_populateSupportedCipherInstances :: "mwSession \<Rightarrow> nat \<Rightarrow> mwSession option" where
  "mwChannel_populateSupportedCipherInstances s p =
     do { c \<leftarrow> se_heap s p; populate s p (map snd (se_ciphers s)) }"

definition cipher_policy :: "u16 \<Rightarrow> u16" where
  "cipher_policy cid =
     (if cid = mwCipher_RC2_40_id then mwEncrypt_RC2_40
      else if cid = mwCipher_RC2_128_id then mwEncrypt_RC2_128 else mwEncrypt_WHATEVER)"

definition mwChannel_selectCipherInstance ::
    "mwSession \<Rightarrow> nat \<Rightarrow> instance_ref option \<Rightarrow> mwSession option" where
  "mwChannel_selectCipherInstance s p ci =
     do {
       c \<leftarrow> se_heap s p;
       Some (if ch_supported c = None then s
             else put_chan s p
               (c\<lparr>ch_cipher := ci,
                  ch_policy := (case ci of None \<Rightarrow> mwEncrypt_NONE
                                | Some (cipher, _) \<Rightarrow> cipher_policy (mwCipher_getType cipher)),
                  ch_supported := None\<rparr>))
     }"

section \<open>Receiving and sending\<close>

definition encrypted :: "mwMessageHead \<Rightarrow> bool" where
  "encrypted h \<longleftrightarrow> mh_options h AND mwMessageOption_ENCRYPT \<noteq> 0"

text \<open>
  \<open>mwCipherInstance_decrypt\<close> on the cipher of a channel; without one the data stays as it is.
  Data whose length after decryption exceeds its block has no meaning.
\<close>

definition decrypt_data :: "mwChannel \<Rightarrow> bytes \<Rightarrow> (bytes \<times> mwChannel) option" where
  "decrypt_data c data =
     (case ch_cipher c of
        None \<Rightarrow> Some (data, c)
      | Some (cipher, ci) \<Rightarrow>
          do {
            (r, ci) \<leftarrow> mwCipherInstance_decrypt cipher ci data;
            d \<leftarrow> opaque_of r;
            Some (d, c\<lparr>ch_cipher := Some (cipher, ci)\<rparr>)
          })"

definition channel_recv :: "mwEnv \<Rightarrow> mwSession \<Rightarrow> nat \<Rightarrow> send_msg \<Rightarrow> mwSession option" where
  "channel_recv E s p msg =
     do {
       c \<leftarrow> se_heap s p;
       let srvc = mwChannel_getService s c;
       let c = c\<lparr>ch_msg_recv := ch_msg_recv c + 1\<rparr>;
       if encrypted (fst msg) then
         do {
           (data, c) \<leftarrow> decrypt_data c (cs_data (snd msg));
           mwService_recv E (put_chan s p c) srvc p (cs_type (snd msg)) data
         }
       else mwService_recv E (put_chan s p c) srvc p (cs_type (snd msg)) (cs_data (snd msg))
     }"

text \<open>
  The loop over the incoming queue keeps a pointer into the list while a service handles
  each message, so the channel that owns the list must still be there afterwards.
\<close>

fun flush_incoming :: "mwEnv \<Rightarrow> mwSession \<Rightarrow> nat \<Rightarrow> send_msg list \<Rightarrow> mwSession option" where
  "flush_incoming E s p [] = Some s"
| "flush_incoming E s p (msg # msgs) =
     do {
       s \<leftarrow> channel_recv E s p msg;
       c \<leftarrow> se_heap s p;
       flush_incoming E s p msgs
     }"

definition send_message :: "send_msg \<Rightarrow> mwMessage" where
  "send_message m = \<lparr>msg_head = fst m, msg_body = ChannelSend (snd m)\<rparr>"

fun flush_outgoing :: "mwEnv \<Rightarrow> mwSession \<Rightarrow> send_msg list \<Rightarrow> mwSession option" where
  "flush_outgoing E s [] = Some s"
| "flush_outgoing E s (msg # msgs) =
     do { (ret, s) \<leftarrow> mwSession_send E s (send_message msg); flush_outgoing E s msgs }"

definition flush_channel :: "mwEnv \<Rightarrow> mwSession \<Rightarrow> nat \<Rightarrow> mwSession option" where
  "flush_channel E s p =
     do {
       c \<leftarrow> se_heap s p;
       s \<leftarrow> flush_incoming E s p (ch_incoming_queue c);
       c \<leftarrow> se_heap s p;
       let s = put_chan s p (c\<lparr>ch_incoming_queue := []\<rparr>);
       s \<leftarrow> flush_outgoing E s (ch_outgoing_queue c);
       c \<leftarrow> se_heap s p;
       Some (put_chan s p (c\<lparr>ch_outgoing_queue := []\<rparr>))
     }"

definition channel_open :: "mwEnv \<Rightarrow> mwSession \<Rightarrow> nat \<Rightarrow> mwSession option" where
  "channel_open E s p =
     do {
       s \<leftarrow> channel_state s p mwChannel_OPEN;
       c \<leftarrow> se_heap s p;
       flush_channel E (put_chan s p (c\<lparr>ch_opened_at := Some (en_time E)\<rparr>)) p
     }"

definition queue_outgoing :: "mwSession \<Rightarrow> nat \<Rightarrow> send_msg \<Rightarrow> mwSession option" where
  "queue_outgoing s p msg =
     do { c \<leftarrow> se_heap s p;
          Some (put_chan s p (c\<lparr>ch_outgoing_queue := ch_outgoing_queue c @ [msg]\<rparr>)) }"

definition channel_send :: "mwEnv \<Rightarrow> mwSession \<Rightarrow> nat \<Rightarrow> send_msg \<Rightarrow> (int \<times> mwSession) option" where
  "channel_send E s p msg =
     do {
       c \<leftarrow> se_heap s p;
       if ch_state c = mwChannel_OPEN then mwSession_send E s (send_message msg)
       else map_option (Pair 0) (queue_outgoing s p msg)
     }"

text \<open>The message \<open>mwChannel_sendEncrypted\<close> builds, with the channel it leaves.\<close>

definition make_send :: "mwChannel \<Rightarrow> u16 \<Rightarrow> bytes \<Rightarrow> bool \<Rightarrow> send_msg \<times> mwChannel" where
  "make_send c type data encrypt =
     (let h = mwMessageHead_zero\<lparr>mh_type := 0x0004, mh_channel := ch_id c\<rparr> in
      case (if encrypt then ch_cipher c else None) of
        None \<Rightarrow> ((h, \<lparr>cs_type = type, cs_data = data\<rparr>), c)
      | Some (cipher, ci) \<Rightarrow>
          (let (y, ci) = mwCipherInstance_encrypt cipher ci data in
           ((h\<lparr>mh_options := mwMessageOption_ENCRYPT\<rparr>, \<lparr>cs_type = type, cs_data = y\<rparr>),
            c\<lparr>ch_cipher := Some (cipher, ci)\<rparr>)))"

definition mwChannel_sendEncrypted ::
    "mwEnv \<Rightarrow> mwSession \<Rightarrow> nat \<Rightarrow> u32 \<Rightarrow> bytes \<Rightarrow> bool \<Rightarrow> (int \<times> mwSession) option" where
  "mwChannel_sendEncrypted E s p type data encrypt =
     do {
       c \<leftarrow> se_heap s p;
       let (msg, c) = make_send c (ucast type) data encrypt;
       channel_send E (put_chan s p c) p msg
     }"

definition mwChannel_send ::
    "mwEnv \<Rightarrow> mwSession \<Rightarrow> nat \<Rightarrow> u32 \<Rightarrow> bytes \<Rightarrow> (int \<times> mwSession) option" where
  "mwChannel_send E s p type data = mwChannel_sendEncrypted E s p type data True"

definition queue_incoming :: "mwSession \<Rightarrow> nat \<Rightarrow> send_msg \<Rightarrow> mwSession option" where
  "queue_incoming s p msg =
     do { c \<leftarrow> se_heap s p;
          Some (put_chan s p (c\<lparr>ch_incoming_queue := ch_incoming_queue c @ [msg]\<rparr>)) }"

definition mwChannel_recv :: "mwEnv \<Rightarrow> mwSession \<Rightarrow> nat \<Rightarrow> send_msg \<Rightarrow> mwSession option" where
  "mwChannel_recv E s p msg =
     do {
       c \<leftarrow> se_heap s p;
       if ch_state c = mwChannel_OPEN then channel_recv E s p msg else queue_incoming s p msg
     }"

section \<open>Creating, accepting, destroying\<close>

definition mwChannel_create :: "mwEnv \<Rightarrow> mwSession \<Rightarrow> nat \<Rightarrow> (int \<times> mwSession) option" where
  "mwChannel_create E s p =
     do {
       c \<leftarrow> se_heap s p;
       if ch_state c \<noteq> mwChannel_INIT then Some (-1, s)
       else if \<not> mwChannel_idIsOutgoing (ch_id c) then Some (-1, s)
       else
         do {
           let items = map (\<lambda>(cipher, ci). mwCipherInstance_offer cipher)
             (mwChannel_getSupportedCipherInstances c);
           let policy = (if items \<noteq> [] then mwEncrypt_WHATEVER else mwEncrypt_NONE);
           let msg = cc_zero\<lparr>cc_channel := ch_id c,
             cc_target := \<lparr>id_user = g_strdup (li_user_id (ch_user c)),
                           id_community = g_strdup (li_community (ch_user c))\<rparr>,
             cc_service := ch_service c, cc_proto_type := ch_proto_type c,
             cc_proto_ver := ch_proto_ver c, cc_options := ch_options c,
             cc_addtl := ch_addtl_create c,
             cc_encrypt := eo_zero\<lparr>eo_mode := policy, eo_items := items, eo_extra := policy\<rparr>\<rparr>;
           let s = put_chan s p (c\<lparr>ch_offered_policy := policy\<rparr>);
           (ret, s) \<leftarrow> mwSession_send E s (new_msg (ChannelCreate msg));
           s \<leftarrow> channel_state s p (if ret \<noteq> 0 then mwChannel_ERROR else mwChannel_WAIT);
           Some (ret, s)
         }
     }"

text \<open>The cipher \<open>mwChannel_accept\<close> picks when none has been selected.\<close>

definition auto_cipher :: "mwChannel \<Rightarrow> instance_ref option" where
  "auto_cipher c =
     (if ch_offered_policy c = mwEncrypt_NONE then None
      else if ch_offered_policy c = mwEncrypt_RC2_40 then get_supported c mwCipher_RC2_40_id
      else if ch_offered_policy c = mwEncrypt_RC2_128 then get_supported c mwCipher_RC2_128_id
      else
        (let l = mwChannel_getSupportedCipherInstances c in
         if l \<noteq> [] then Some (last l) else None))"

definition mwChannel_accept :: "mwEnv \<Rightarrow> mwSession \<Rightarrow> nat \<Rightarrow> (int \<times> mwSession) option" where
  "mwChannel_accept E s p =
     do {
       c \<leftarrow> se_heap s p;
       if \<not> mwChannel_idIsIncoming (ch_id c) then Some (-1, s)
       else if ch_state c \<noteq> mwChannel_WAIT then Some (-1, s)
       else
         do {
           s \<leftarrow> (if ch_cipher c = None then mwChannel_selectCipherInstance s p (auto_cipher c)
                 else Some s);
           c \<leftarrow> se_heap s p;
           (item, c) \<leftarrow>
             (case ch_cipher c of
                None \<Rightarrow> Some (None, c)
              | Some (cipher, ci) \<Rightarrow>
                  do {
                    (ei, ci) \<leftarrow> mwCipherInstance_accept cipher ci (li_login_id (ch_user c));
                    Some (Some ei, c\<lparr>ch_cipher := Some (cipher, ci)\<rparr>)
                  });
           let s = put_chan s p c;
           let msg = ca_zero\<lparr>ca_service := ch_service c, ca_proto_type := ch_proto_type c,
             ca_proto_ver := ch_proto_ver c, ca_addtl := ch_addtl_accept c,
             ca_encrypt := ea_zero\<lparr>ea_mode := ch_policy c, ea_item := item,
                                   ea_extra := ch_offered_policy c\<rparr>\<rparr>;
           (ret, s) \<leftarrow> mwSession_send E s (on_channel (ch_id c) (new_msg (ChannelAccept msg)));
           s \<leftarrow> (if ret \<noteq> 0 then channel_state s p mwChannel_ERROR else channel_open E s p);
           Some (ret, s)
         }
     }"

text \<open>\<open>g_hash_table_remove\<close> frees the channel the table has for the id.\<close>

definition map_remove :: "mwSession \<Rightarrow> u32 \<Rightarrow> mwSession option" where
  "map_remove s chan =
     (case se_map s chan of
        None \<Rightarrow> Some s
      | Some p \<Rightarrow> channel_free (s\<lparr>se_map := (se_map s)(chan := None)\<rparr>) p)"

definition mwChannel_destroy ::
    "mwEnv \<Rightarrow> mwSession \<Rightarrow> nat \<Rightarrow> u32 \<Rightarrow> bytes \<Rightarrow> (int \<times> mwSession) option" where
  "mwChannel_destroy E s p reason info =
     do {
       s \<leftarrow> channel_state s p (if reason \<noteq> 0 then mwChannel_ERROR else mwChannel_DESTROY);
       c \<leftarrow> se_heap s p;
       s \<leftarrow> map_remove s (ch_id c);
       mwSession_send E s (on_channel (ch_id c)
         (new_msg (ChannelDestroy \<lparr>cd_reason = reason, cd_data = info\<rparr>)))
     }"

section \<open>Messages about channels\<close>

definition mwService_recvCreate ::
    "mwEnv \<Rightarrow> mwSession \<Rightarrow> u32 \<Rightarrow> nat \<Rightarrow> mwMsgChannelCreate \<Rightarrow> mwSession option" where
  "mwService_recvCreate E s t p msg =
     do {
       v \<leftarrow> se_srv s t;
       c \<leftarrow> se_heap s p;
       if ch_id c \<noteq> cc_channel msg then Some s
       else if sv_recv_create v then en_cb E (Srvc_recv_create t p msg) s
       else map_option snd (mwChannel_destroy E s p ERR_FAILURE [])
     }"

fun offer_ciphers :: "mwEnv \<Rightarrow> mwSession \<Rightarrow> nat \<Rightarrow> mwEncryptItem list \<Rightarrow> mwSession option" where
  "offer_ciphers E s p [] = Some s"
| "offer_ciphers E s p (ei # eis) =
     (case map_of (se_ciphers s) (ei_id ei) of
        None \<Rightarrow> offer_ciphers E s p eis
      | Some cipher \<Rightarrow>
          do {
            ((cipher, ci), s) \<leftarrow> session_newInstance s cipher;
            ci \<leftarrow> mwCipherInstance_offered (en_expt E) cipher ci ei;
            s \<leftarrow> mwChannel_addSupportedCipherInstance s p (cipher, ci);
            offer_ciphers E s p eis
          })"

definition mwChannel_recvCreate ::
    "mwEnv \<Rightarrow> mwSession \<Rightarrow> nat \<Rightarrow> mwMsgChannelCreate \<Rightarrow> mwSession option" where
  "mwChannel_recvCreate E s p msg =
     do {
       c \<leftarrow> se_heap s p;
       if ch_id c \<noteq> cc_channel msg then Some s
       else if mwChannel_idIsOutgoing (ch_id c) then
         map_option snd (mwChannel_destroy E s p ERR_REQUEST_INVALID [])
       else
         do {
           let s = put_chan s p (c\<lparr>ch_offered_policy := eo_mode (cc_encrypt msg)\<rparr>);
           s \<leftarrow> offer_ciphers E s p (eo_items (cc_encrypt msg));
           c \<leftarrow> se_heap s p;
           let s = put_chan s p
             (c\<lparr>ch_user := mwLoginInfo_clone (ch_user c) (cc_creator msg),
                ch_service := cc_service msg, ch_proto_type := cc_proto_type msg,
                ch_proto_ver := cc_proto_ver msg\<rparr>);
           case mwSession_getService s (cc_service msg) of
             Some t \<Rightarrow> mwService_recvCreate E s t p msg
           | None \<Rightarrow> map_option snd (mwChannel_destroy E s p ERR_SERVICE_NO_SUPPORT [])
         }
     }"

definition mwChannel_recvAccept ::
    "mwEnv \<Rightarrow> mwSession \<Rightarrow> nat \<Rightarrow> mwMessageHead \<Rightarrow> mwMsgChannelAccept \<Rightarrow> mwSession option" where
  "mwChannel_recvAccept E s p head msg =
     do {
       c \<leftarrow> se_heap s p;
       if ch_id c \<noteq> mh_channel head then Some s
       else if mwChannel_idIsIncoming (ch_id c) \<or> ch_state c \<noteq> mwChannel_WAIT then
         map_option snd (mwChannel_destroy E s p ERR_REQUEST_INVALID [])
       else
         do {
           let c = c\<lparr>ch_user := mwLoginInfo_clone (ch_user c) (ca_acceptor msg)\<rparr>;
           let s = put_chan s p c;
           case mwChannel_getService s c of
             None \<Rightarrow> map_option snd (mwChannel_destroy E s p ERR_SERVICE_NO_SUPPORT [])
           | Some t \<Rightarrow>
               do {
                 let c = c\<lparr>ch_policy := ea_mode (ca_encrypt msg)\<rparr>;
                 let s = put_chan s p c;
                 let opened = (\<lambda>s. do {
                   s \<leftarrow> channel_state s p mwChannel_OPEN;
                   s \<leftarrow> mwService_recvAccept E s t p msg;
                   c \<leftarrow> se_heap s p;
                   if ch_state c = mwChannel_OPEN then channel_open E s p else Some s });
                 case (if ea_mode (ca_encrypt msg) = 0 then None else ea_item (ca_encrypt msg)) of
                   None \<Rightarrow> do { s \<leftarrow> mwChannel_selectCipherInstance s p None; opened s }
                 | Some item \<Rightarrow>
                     (case get_supported c (ei_id item) of
                        None \<Rightarrow> map_option snd (mwChannel_destroy E s p ERR_REQUEST_INVALID [])
                      | Some (cipher, ci) \<Rightarrow>
                          do {
                            ci \<leftarrow> mwCipherInstance_accepted (en_expt E) cipher ci
                              (li_login_id (ch_user c)) item;
                            s \<leftarrow> mwChannel_selectCipherInstance s p (Some (cipher, ci));
                            opened s
                          })
               }
         }
     }"

definition mwChannel_recvDestroy ::
    "mwEnv \<Rightarrow> mwSession \<Rightarrow> nat \<Rightarrow> mwMessageHead \<Rightarrow> mwMsgChannelDestroy \<Rightarrow> mwSession option" where
  "mwChannel_recvDestroy E s p head msg =
     do {
       c \<leftarrow> se_heap s p;
       if ch_id c \<noteq> mh_channel head then Some s
       else
         do {
           s \<leftarrow> channel_state s p (if cd_reason msg \<noteq> 0 then mwChannel_ERROR else mwChannel_DESTROY);
           s \<leftarrow> (case mwChannel_getService s c of
                  None \<Rightarrow> Some s | Some t \<Rightarrow> mwService_recvDestroy E s t p msg);
           c \<leftarrow> se_heap s p;
           map_remove s (ch_id c)
         }
     }"

end
