(* ===== verification/MwSession.thy ===== *)
theory MwSession imports MwChannel begin

text \<open>
  The session (\<open>protocols/Sametime/src/meanwhile/src/session.c\<close>): its properties, the login
  sequence, what it does with each message from the server, and the calls a client makes.
\<close>

section \<open>A new session\<close>

definition property_set :: "mwSession \<Rightarrow> string \<Rightarrow> attribute \<Rightarrow> mwSession" where
  "property_set s key val = s\<lparr>se_attributes := (se_attributes s)(key \<mapsto> val)\<rparr>"

definition property_get :: "mwSession \<Rightarrow> string \<Rightarrow> attribute option" where
  "property_get s key = se_attributes s key"

definition property_del :: "mwSession \<Rightarrow> string \<Rightarrow> mwSession" where
  "property_del s key = s\<lparr>se_attributes := (se_attributes s)(key := None)\<rparr>"

text \<open>\<open>GUINT (property_get (s, key))\<close>, and the property as a string.\<close>

definition property_num :: "mwSession \<Rightarrow> string \<Rightarrow> u32" where
  "property_num s key = (case property_get s key of Some (Attr_num n) \<Rightarrow> n | _ \<Rightarrow> 0)"

definition property_str :: "mwSession \<Rightarrow> string \<Rightarrow> mwstring" where
  "property_str s key = (case property_get s key of Some (Attr_str b) \<Rightarrow> Some b | _ \<Rightarrow> None)"

definition mwSession_AUTH_USER_ID :: string where "mwSession_AUTH_USER_ID = ''session.auth.user''"
definition mwSession_AUTH_PASSWORD :: string where "mwSession_AUTH_PASSWORD = ''session.auth.password''"
definition mwSession_CLIENT_HOST :: string where "mwSession_CLIENT_HOST = ''client.host''"
definition mwSession_CLIENT_IP :: string where "mwSession_CLIENT_IP = ''client.ip''"
definition mwSession_CLIENT_VER_MAJOR :: string where "mwSession_CLIENT_VER_MAJOR = ''client.version.major''"
definition mwSession_CLIENT_VER_MINOR :: string where "mwSession_CLIENT_VER_MINOR = ''client.version.minor''"
definition mwSession_CLIENT_TYPE_ID :: string where "mwSession_CLIENT_TYPE_ID = ''client.id''"
definition mwSession_SERVER_VER_MAJOR :: string where "mwSession_SERVER_VER_MAJOR = ''server.version.major''"
definition mwSession_SERVER_VER_MINOR :: string where "mwSession_SERVER_VER_MINOR = ''server.version.minor''"

definition session_defaults :: "mwSession \<Rightarrow> mwSession" where
  "session_defaults s =
     (let s = property_set s mwSession_CLIENT_VER_MAJOR (Attr_num 0x001e);
          s = property_set s mwSession_CLIENT_VER_MINOR (Attr_num 0x001d) in
      property_set s mwSession_CLIENT_TYPE_ID (Attr_num 0x1700))"

text \<open>
  \<open>mwSession_new\<close>, with the results its connection will give (\<open>io\<close>); the channel set is that
  of \<open>mwChannelSet_new\<close>.
\<close>

definition mwSession_new :: "int list \<Rightarrow> mwSession" where
  "mwSession_new io =
     session_defaults
       \<lparr>se_state = mwSession_STOPPED, se_state_info = Info_null, se_in = inbuf_new,
        se_login = mwLoginInfo_zero, se_status = mwUserStatus_zero, se_privacy = mwPrivacyInfo_zero,
        se_heap = (\<lambda>_. None), se_next = 0, se_map = (\<lambda>_. None), se_counter = 0,
        se_srv = (\<lambda>_. None), se_services = [], se_ciphers = [], se_attributes = (\<lambda>_. None),
        se_client_data = mw_datum_new 0 False, se_io = io, se_out = [], se_closed = 0, se_rand = 0\<rparr>"

definition session_isStarting :: "mwSession \<Rightarrow> bool" where
  "session_isStarting s \<longleftrightarrow>
     se_state s = mwSession_STARTING \<or> se_state s = mwSession_HANDSHAKE \<or>
     se_state s = mwSession_HANDSHAKE_ACK \<or> se_state s = mwSession_LOGIN \<or>
     se_state s = mwSession_LOGIN_ACK \<or> se_state s = mwSession_LOGIN_REDIR \<or>
     se_state s = mwSession_LOGIN_CONT"

section \<open>Stopping and starting\<close>

fun stop_services :: "mwEnv \<Rightarrow> mwSession \<Rightarrow> u32 list \<Rightarrow> mwSession option" where
  "stop_services E s [] = Some s"
| "stop_services E s (t # ts) = do { s \<leftarrow> mwService_stop E s t; stop_services E s ts }"

definition mwSession_stop :: "mwEnv \<Rightarrow> mwSession \<Rightarrow> u32 \<Rightarrow> mwSession option" where
  "mwSession_stop E s reason =
     (if se_state s = mwSession_STOPPED \<or> se_state s = mwSession_STOPPING then Some s
      else
        do {
          s \<leftarrow> session_state E s mwSession_STOPPING (Info_code reason);
          s \<leftarrow> stop_services E s (se_services s);
          (ret, s) \<leftarrow> mwSession_send E s (on_channel MW_MASTER_CHANNEL_ID
            (new_msg (ChannelDestroy \<lparr>cd_reason = reason, cd_data = []\<rparr>)));
          let s = io_close (s\<lparr>se_in := session_buf_free (se_in s)\<rparr>);
          session_state E s mwSession_STOPPED (Info_code reason)
        })"

definition handshake_msg :: "mwSession \<Rightarrow> mwMsgHandshake" where
  "handshake_msg s =
     (let major = (ucast (property_num s mwSession_CLIENT_VER_MAJOR) :: u16);
          minor = (ucast (property_num s mwSession_CLIENT_VER_MINOR) :: u16);
          msg = hs_zero\<lparr>hs_major := major, hs_minor := minor,
            hs_login_type := ucast (property_num s mwSession_CLIENT_TYPE_ID),
            hs_loclcalc_addr := property_num s mwSession_CLIENT_IP\<rparr> in
      if major \<ge> 0x001e \<and> minor \<ge> 0x001d
      then msg\<lparr>hs_unknown_a := 0x0100, hs_local_host := property_str s mwSession_CLIENT_HOST\<rparr>
      else msg)"

definition mwSession_start :: "mwEnv \<Rightarrow> mwSession \<Rightarrow> mwSession option" where
  "mwSession_start E s =
     (if se_state s \<noteq> mwSession_STOPPED then Some s
      else
        do {
          s \<leftarrow> session_state E s mwSession_STARTING Info_null;
          (ret, s) \<leftarrow> mwSession_send E s (new_msg (Handshake (handshake_msg s)));
          if ret \<noteq> 0 then mwSession_stop E s CONNECTION_BROKEN
          else session_state E s mwSession_HANDSHAKE Info_null
        })"

section \<open>The login\<close>

definition mwAuthType_RC2_40 :: u16 where "mwAuthType_RC2_40 = 0x0002"
definition mwAuthType_RC2_128 :: u16 where "mwAuthType_RC2_128 = 0x0004"

text \<open>\<open>strlen\<close> of a null password has no meaning; \<open>key\<close> are the random bytes.\<close>

definition compose_auth_rc2_40 :: "bytes \<Rightarrow> mwstring \<Rightarrow> bytes option" where
  "compose_auth_rc2_40 key pass =
     do {
       pw \<leftarrow> pass;
       (b, iv) \<leftarrow> mwEncrypt key mwIV_init (c_str pw);
       let p = mwOpaque_put mwPutBuffer_new (Some key);
       Some (mwPutBuffer_finalize (mwOpaque_put p (Some b)))
     }"

text \<open>The shared key is taken from sixteen bytes before its end; a shorter one has none.\<close>

definition compose_auth_rc2_128 ::
    "exptmod \<Rightarrow> nat \<Rightarrow> mwstring \<Rightarrow> u32 \<Rightarrow> bytes \<Rightarrow> bytes option" where
  "compose_auth_rc2_128 expt private pass magic rkey =
     (let remote = mwDHImportKey rkey;
          a = mwPutBuffer_finalize (mwString_put (guint32_put mwPutBuffer_new magic) pass);
          b = mwDHExportKey (mwDHCalculateShared expt remote private) in
      if length b < 16 then None
      else
        do {
          (c, iv) \<leftarrow> mwEncrypt (take 16 (drop (length b - 16) b)) mwIV_init a;
          let p = guint16_put mwPutBuffer_new 0x0001;
          let p = mwOpaque_put p (Some (mwDHExportKey (mwDHPublicKey expt private)));
          Some (mwPutBuffer_finalize (mwOpaque_put p (Some c)))
        })"

definition compose_auth :: "mwEnv \<Rightarrow> mwSession \<Rightarrow> mwMsgHandshakeAck \<Rightarrow> (u16 \<times> bytes) option" where
  "compose_auth E s msg =
     (let pw = property_str s mwSession_AUTH_PASSWORD in
      if length (ha_data msg) \<ge> 64 then
        map_option (Pair mwAuthType_RC2_128)
          (compose_auth_rc2_128 (en_expt E) (en_private E (se_rand s)) pw (ha_magic msg) (ha_data msg))
      else
        map_option (Pair mwAuthType_RC2_40) (compose_auth_rc2_40 (en_key E (se_rand s) 5) pw))"

definition HANDSHAKE_ACK_recv :: "mwEnv \<Rightarrow> mwSession \<Rightarrow> mwMsgHandshakeAck \<Rightarrow> mwSession option" where
  "HANDSHAKE_ACK_recv E s msg =
     (if se_state s \<noteq> mwSession_HANDSHAKE \<and> se_state s \<noteq> mwSession_LOGIN_CONT then Some s
      else if se_state s = mwSession_LOGIN_CONT then
        do {
          s \<leftarrow> session_state E s mwSession_HANDSHAKE_ACK Info_null;
          session_state E s mwSession_LOGIN Info_null
        }
      else
        do {
          s \<leftarrow> session_state E s mwSession_HANDSHAKE_ACK Info_null;
          let s = property_set s mwSession_SERVER_VER_MAJOR (Attr_num (ucast (ha_major msg)));
          let s = property_set s mwSession_SERVER_VER_MINOR (Attr_num (ucast (ha_minor msg)));
          (auth_type, auth) \<leftarrow> compose_auth E s msg;
          let s = s\<lparr>se_rand := se_rand s + 1\<rparr>;
          let log = lg_zero\<lparr>lg_login_type := ucast (property_num s mwSession_CLIENT_TYPE_ID),
            lg_name := g_strdup (property_str s mwSession_AUTH_USER_ID),
            lg_auth_type := auth_type, lg_auth_data := auth\<rparr>;
          (ret, s) \<leftarrow> mwSession_send E s (new_msg (Login log));
          if ret = 0 then session_state E s mwSession_LOGIN Info_null else Some s
        })"

fun start_services :: "mwEnv \<Rightarrow> mwSession \<Rightarrow> u32 list \<Rightarrow> mwSession option" where
  "start_services E s [] = Some s"
| "start_services E s (t # ts) = do { s \<leftarrow> mwService_start E s t; start_services E s ts }"

definition LOGIN_ACK_recv :: "mwEnv \<Rightarrow> mwSession \<Rightarrow> mwMsgLoginAck \<Rightarrow> mwSession option" where
  "LOGIN_ACK_recv E s msg =
     (if se_state s \<noteq> mwSession_LOGIN then Some s
      else
        do {
          let s = s\<lparr>se_login := mwLoginInfo_clone (mwLoginInfo_clear (se_login s)) (la_login msg)\<rparr>;
          s \<leftarrow> session_state E s mwSession_LOGIN_ACK Info_null;
          s \<leftarrow> start_services E s (se_services s);
          session_state E s mwSession_STARTED Info_null
        })"

definition LOGIN_REDIRECT_recv :: "mwEnv \<Rightarrow> mwSession \<Rightarrow> mwMsgLoginRedirect \<Rightarrow> mwSession option" where
  "LOGIN_REDIRECT_recv E s msg = session_state E s mwSession_LOGIN_REDIR (Info_host (lr_host msg))"

definition mwSession_forceLogin :: "mwEnv \<Rightarrow> mwSession \<Rightarrow> (int \<times> mwSession) option" where
  "mwSession_forceLogin E s =
     (if se_state s \<noteq> mwSession_LOGIN_REDIR then Some (-1, s)
      else
        do {
          s \<leftarrow> session_state E s mwSession_LOGIN_CONT Info_null;
          mwSession_send E s (new_msg LoginContinue)
        })"

section \<open>Messages from the server\<close>

definition CHANNEL_CREATE_recv :: "mwEnv \<Rightarrow> mwSession \<Rightarrow> mwMsgChannelCreate \<Rightarrow> mwSession option" where
  "CHANNEL_CREATE_recv E s msg =
     do { (p, s) \<leftarrow> mwChannel_newIncoming s (cc_channel msg); mwChannel_recvCreate E s p msg }"

definition CHANNEL_ACCEPT_recv ::
    "mwEnv \<Rightarrow> mwSession \<Rightarrow> mwMessageHead \<Rightarrow> mwMsgChannelAccept \<Rightarrow> mwSession option" where
  "CHANNEL_ACCEPT_recv E s head msg =
     (case mwChannel_find s (mh_channel head) of
        None \<Rightarrow> Some s | Some p \<Rightarrow> mwChannel_recvAccept E s p head msg)"

definition CHANNEL_DESTROY_recv ::
    "mwEnv \<Rightarrow> mwSession \<Rightarrow> mwMessageHead \<Rightarrow> mwMsgChannelDestroy \<Rightarrow> mwSession option" where
  "CHANNEL_DESTROY_recv E s head msg =
     (if mh_channel head = MW_MASTER_CHANNEL_ID then mwSession_stop E s (cd_reason msg)
      else
        (case mwChannel_find s (mh_channel head) of
           None \<Rightarrow> Some s | Some p \<Rightarrow> mwChannel_recvDestroy E s p head msg))"

definition CHANNEL_SEND_recv ::
    "mwEnv \<Rightarrow> mwSession \<Rightarrow> mwMessageHead \<Rightarrow> mwMsgChannelSend \<Rightarrow> mwSession option" where
  "CHANNEL_SEND_recv E s head msg =
     (case mwChannel_find s (mh_channel head) of
        None \<Rightarrow> Some s | Some p \<Rightarrow> mwChannel_recv E s p (head, msg))"

definition SET_PRIVACY_LIST_recv :: "mwEnv \<Rightarrow> mwSession \<Rightarrow> mwPrivacyInfo \<Rightarrow> mwSession option" where
  "SET_PRIVACY_LIST_recv E s msg =
     en_cb E On_setPrivacyInfo (s\<lparr>se_privacy := mwPrivacyInfo_clone msg\<rparr>)"

definition SENSE_SERVICE_recv :: "mwEnv \<Rightarrow> mwSession \<Rightarrow> u32 \<Rightarrow> mwSession option" where
  "SENSE_SERVICE_recv E s msg =
     (case mwSession_getService s msg of None \<Rightarrow> Some s | Some t \<Rightarrow> mwService_start E s t)"

definition ADMIN_recv :: "mwEnv \<Rightarrow> mwSession \<Rightarrow> mwstring \<Rightarrow> mwSession option" where
  "ADMIN_recv E s msg = en_cb E (On_admin msg) s"

definition ANNOUNCE_recv :: "mwEnv \<Rightarrow> mwSession \<Rightarrow> mwMsgAnnounce \<Rightarrow> mwSession option" where
  "ANNOUNCE_recv E s msg = en_cb E (On_announce (an_sender msg) (an_may_reply msg) (an_text msg)) s"

text \<open>The \<open>switch\<close> of \<open>session_process\<close>; messages only a server reads have no handler.\<close>

definition process_message :: "mwEnv \<Rightarrow> mwSession \<Rightarrow> mwMessage \<Rightarrow> mwSession option" where
  "process_message E s msg =
     (case msg_body msg of
        HandshakeAck m \<Rightarrow> HANDSHAKE_ACK_recv E s m
      | LoginRedirect m \<Rightarrow> LOGIN_REDIRECT_recv E s m
      | LoginAck m \<Rightarrow> LOGIN_ACK_recv E s m
      | ChannelCreate m \<Rightarrow> CHANNEL_CREATE_recv E s m
      | ChannelDestroy m \<Rightarrow> CHANNEL_DESTROY_recv E s (msg_head msg) m
      | ChannelSend m \<Rightarrow> CHANNEL_SEND_recv E s (msg_head msg) m
      | ChannelAccept m \<Rightarrow> CHANNEL_ACCEPT_recv E s (msg_head msg) m
      | SetPrivacyList m \<Rightarrow> SET_PRIVACY_LIST_recv E s m
      | SetUserStatus m \<Rightarrow> SET_USER_STATUS_recv E s m
      | SenseService m \<Rightarrow> SENSE_SERVICE_recv E s m
      | Admin m \<Rightarrow> ADMIN_recv E s m
      | Announce m \<Rightarrow> ANNOUNCE_recv E s m
      | _ \<Rightarrow> Some s)"

text \<open>\<open>mwMessage_free\<close> frees the host name a redirect may have left in the state.\<close>

definition free_host :: "mwSession \<Rightarrow> mwSession" where
  "free_host s =
     (case se_state_info s of Info_host (Some h) \<Rightarrow> s\<lparr>se_state_info := Info_freed\<rparr> | _ \<Rightarrow> s)"

text \<open>
  A message in which the buffer ran out is reported and still processed; one without a head
  or of an unknown type is not.
\<close>

definition session_process :: "mwEnv \<Rightarrow> mwSession \<Rightarrow> bytes \<Rightarrow> mwSession option" where
  "session_process E s buf =
     (if buf = [] then Some s
      else
        (case fst (mwMessage_get (en_head E) (en_junk E) (mwGetBuffer_wrap (Some buf))) of
           None \<Rightarrow> Some s
         | Some msg \<Rightarrow> map_option free_host (process_message E s msg)))"

fun process_all :: "mwEnv \<Rightarrow> mwSession \<Rightarrow> bytes list \<Rightarrow> mwSession option" where
  "process_all E s [] = Some s"
| "process_all E s (m # ms) = do { s \<leftarrow> session_process E s m; process_all E s ms }"

text \<open>Input from the network: its messages are processed and the rest is kept.\<close>

definition session_input :: "mwEnv \<Rightarrow> mwSession \<Rightarrow> bytes \<Rightarrow> mwSession option" where
  "session_input E s buf =
     (let (ms, ib) = mwSession_recv (se_in s) buf in
      do {
        s \<leftarrow> process_all E (s\<lparr>se_in := inbuf_new\<rparr>) ms;
        Some (s\<lparr>se_in := ib\<rparr>)
      })"

section \<open>Calls of the client\<close>

definition mwSession_sendKeepalive :: "mwSession \<Rightarrow> int \<times> mwSession" where
  "mwSession_sendKeepalive s = io_write s [0x80]"

definition mwSession_sendAnnounce ::
    "mwEnv \<Rightarrow> mwSession \<Rightarrow> bool \<Rightarrow> mwstring \<Rightarrow> mwstring list \<Rightarrow> (int \<times> mwSession) option" where
  "mwSession_sendAnnounce E s may_reply txt recipients =
     (if se_state s \<noteq> mwSession_STARTED then Some (-1, s)
      else mwSession_send E s (new_msg (Announce (an_zero\<lparr>an_recipients := recipients,
        an_may_reply := may_reply, an_text := g_strdup txt\<rparr>))))"

definition mwSession_setPrivacyInfo ::
    "mwEnv \<Rightarrow> mwSession \<Rightarrow> mwPrivacyInfo \<Rightarrow> (int \<times> mwSession) option" where
  "mwSession_setPrivacyInfo E s privacy =
     mwSession_send E s (new_msg (SetPrivacyList (mwPrivacyInfo_clone privacy)))"

definition mwSession_setUserStatus ::
    "mwEnv \<Rightarrow> mwSession \<Rightarrow> mwUserStatus \<Rightarrow> (int \<times> mwSession) option" where
  "mwSession_setUserStatus E s stat =
     mwSession_send E s (new_msg (SetUserStatus (mwUserStatus_clone stat)))"

definition mwSession_senseService :: "mwEnv \<Rightarrow> mwSession \<Rightarrow> u32 \<Rightarrow> mwSession option" where
  "mwSession_senseService E s srvc =
     (if srvc = 0 \<or> se_state s \<noteq> mwSession_STARTED then Some s
      else map_option snd (mwSession_send E s (new_msg (SenseService srvc))))"

definition mwSession_addService ::
    "mwEnv \<Rightarrow> mwSession \<Rightarrow> u32 \<Rightarrow> mwService \<Rightarrow> (bool \<times> mwSession) option" where
  "mwSession_addService E s t srv =
     (if t \<in> set (se_services s) then Some (False, s)
      else
        do {
          let s = put_service (s\<lparr>se_services := se_services s @ [t]\<rparr>) t srv;
          s \<leftarrow> (if se_state s = mwSession_STARTED then mwSession_senseService E s t else Some s);
          Some (True, s)
        })"

definition mwSession_removeService :: "mwSession \<Rightarrow> u32 \<Rightarrow> u32 option \<times> mwSession" where
  "mwSession_removeService s t =
     (mwSession_getService s t, s\<lparr>se_services := filter (\<lambda>x. x \<noteq> t) (se_services s)\<rparr>)"

definition mwSession_getCipher :: "mwSession \<Rightarrow> u16 \<Rightarrow> mwCipher option" where
  "mwSession_getCipher s c = map_of (se_ciphers s) c"

definition mwSession_addCipher :: "mwSession \<Rightarrow> mwCipher \<Rightarrow> bool \<times> mwSession" where
  "mwSession_addCipher s c =
     (if mwSession_getCipher s (mwCipher_getType c) \<noteq> None then (False, s)
      else (True, s\<lparr>se_ciphers := se_ciphers s @ [(mwCipher_getType c, c)]\<rparr>))"

definition mwSession_removeCipher :: "mwSession \<Rightarrow> u16 \<Rightarrow> mwCipher option \<times> mwSession" where
  "mwSession_removeCipher s c =
     (mwSession_getCipher s c, s\<lparr>se_ciphers := AList.delete c (se_ciphers s)\<rparr>)"

definition mw_datum_clear :: "mwEnv \<Rightarrow> mwSession \<Rightarrow> mw_datum \<Rightarrow> (mw_datum \<times> mwSession) option" where
  "mw_datum_clear E s d =
     do {
       s \<leftarrow> (if dt_clear d then en_cb E (Datum_clear (dt_data d)) s else Some s);
       Some (mw_datum_new 0 False, s)
     }"

definition mwSession_setClientData :: "mwSession \<Rightarrow> nat \<Rightarrow> bool \<Rightarrow> mwSession" where
  "mwSession_setClientData s data clear = s\<lparr>se_client_data := mw_datum_new data clear\<rparr>"

definition mwSession_removeClientData :: "mwEnv \<Rightarrow> mwSession \<Rightarrow> mwSession option" where
  "mwSession_removeClientData E s =
     do { (d, s) \<leftarrow> mw_datum_clear E s (se_client_data s); Some (s\<lparr>se_client_data := d\<rparr>) }"

definition mwChannel_removeServiceData :: "mwEnv \<Rightarrow> mwSession \<Rightarrow> nat \<Rightarrow> mwSession option" where
  "mwChannel_removeServiceData E s p =
     do {
       c \<leftarrow> se_heap s p;
       (d, s) \<leftarrow> mw_datum_clear E s (ch_srvc_data c);
       c \<leftarrow> se_heap s p;
       Some (put_chan s p (c\<lparr>ch_srvc_data := d\<rparr>))
     }"

text \<open>\<open>mwChannelSet_free\<close> frees what is in the table.\<close>

definition mwChannelSet_free :: "mwSession \<Rightarrow> mwSession" where
  "mwChannelSet_free s =
     s\<lparr>se_heap := (\<lambda>p. if p \<in> ran (se_map s) then None else se_heap s p), se_map := (\<lambda>_. None)\<rparr>"

definition mwSession_free :: "mwEnv \<Rightarrow> mwSession \<Rightarrow> mwSession option" where
  "mwSession_free E s =
     do {
       s \<leftarrow> en_cb E On_clear s;
       let s = mwChannelSet_free (s\<lparr>se_in := session_buf_free (se_in s)\<rparr>);
       Some (s\<lparr>se_services := [], se_ciphers := [], se_attributes := (\<lambda>_. None),
               se_login := mwLoginInfo_clear (se_login s), se_status := mwUserStatus_clear (se_status s),
               se_privacy := mwPrivacyInfo_clear (se_privacy s)\<rparr>)
     }"

end
