(* ===== verification/MwSafety.thy ===== *)
theory MwSafety imports MwSession begin

text \<open>
  The table of channels and the heap.  In every state the library can reach, a pointer of the
  table leads to an allocated channel with the id it is filed under, and every allocated
  channel is in the table, so nothing is lost and nothing is freed twice.  The client is a
  parameter: its handlers may call any function of the library again, nested to any depth.
\<close>

text \<open>
  How an operation relates the state after it to the state before is proved once for every
  relation that allows the few things operations do: write a channel that is there, change
  what is not the table, free or file a channel, and call the client.
\<close>

named_theorems lib_steps \<open>operations and how their results relate to the state before\<close>

lemmas [lib_steps] = keeps_snd keeps_Pair

lemma heap_put [simp]:
  "se_heap (put_chan s p c) = (se_heap s)(p \<mapsto> c)" "se_map (put_chan s p c) = se_map s"
  "se_next (put_chan s p c) = se_next s"
  by (simp_all add: put_chan_def)

lemma heap_put_service [simp]:
  "se_heap (put_service s t v) = se_heap s" "se_map (put_service s t v) = se_map s"
  "se_next (put_service s t v) = se_next s"
  by (simp_all add: put_service_def)

lemma heap_property [simp]:
  "se_heap (property_set s k v) = se_heap s" "se_map (property_set s k v) = se_map s"
  "se_next (property_set s k v) = se_next s" "se_heap (property_del s k) = se_heap s"
  "se_map (property_del s k) = se_map s" "se_next (property_del s k) = se_next s"
  by (simp_all add: property_set_def property_del_def)

lemma heap_io [simp]:
  "se_heap (snd (io_write s b)) = se_heap s" "se_map (snd (io_write s b)) = se_map s"
  "se_next (snd (io_write s b)) = se_next s" "se_state (snd (io_write s b)) = se_state s"
  "se_heap (io_close s) = se_heap s" "se_map (io_close s) = se_map s"
  "se_next (io_close s) = se_next s" "se_state (io_close s) = se_state s"
  "se_in (snd (io_write s b)) = se_in s" "se_in (io_close s) = se_in s"
  "se_closed (snd (io_write s b)) = se_closed s"
  by (auto simp: io_write_def io_close_def split: list.split)

lemma heap_free_host [simp]:
  "se_heap (free_host s) = se_heap s" "se_map (free_host s) = se_map s"
  "se_next (free_host s) = se_next s" "se_state (free_host s) = se_state s"
  "se_in (free_host s) = se_in s"
  by (auto simp: free_host_def split: state_info.split option.split)

lemma se_state_put [simp]:
  "se_state (put_service s t v) = se_state s" "se_state (put_chan s p c) = se_state s"
  "se_state (property_set s k a) = se_state s" "se_state (property_del s k) = se_state s"
  "se_in (put_service s t v) = se_in s" "se_in (put_chan s p c) = se_in s"
  "se_in (property_set s k a) = se_in s" "se_in (property_del s k) = se_in s"
  "se_closed (put_service s t v) = se_closed s" "se_closed (put_chan s p c) = se_closed s"
  by (simp_all add: put_service_def put_chan_def property_set_def property_del_def)

section \<open>Operations on channels and services\<close>

locale channel_relation = step_relation R for R :: "mwSession \<Rightarrow> mwSession \<Rightarrow> bool" +
  fixes E :: mwEnv
  assumes R_put: "se_heap s p \<noteq> None \<Longrightarrow> ch_id c = ch_id (the (se_heap s p)) \<Longrightarrow> R s (put_chan s p c)"
    and R_frame: "se_heap t = se_heap s \<Longrightarrow> se_map t = se_map s \<Longrightarrow> se_next t = se_next s \<Longrightarrow>
      se_state t = se_state s \<Longrightarrow> se_in t = se_in s \<Longrightarrow> se_closed t = se_closed s \<Longrightarrow> R s t"
    and R_remove: "keeps R s (map_remove s chan)"
    and R_new: "keeps_with R s (mwChannel_newIncoming s chan)"
    and R_cb: "keeps R s (en_cb E call s)"
begin

lemmas remove_keeps [lib_steps] = R_remove [THEN keeps_later(1)]
lemmas new_keeps [lib_steps] = R_new [THEN keeps_later(2)]
lemmas cb_keeps [lib_steps] = R_cb [THEN keeps_later(1)]

lemma R_self [simp]: "R s s"
  by (rule R_refl)

lemma R_puts [simp]:
  "se_heap t p \<noteq> None \<Longrightarrow> ch_id c = ch_id (the (se_heap t p)) \<Longrightarrow> R s t \<Longrightarrow> R s (put_chan t p c)"
  using R_put R_trans by blast

lemma R_frames:
  "R s t \<Longrightarrow> se_heap u = se_heap t \<Longrightarrow> se_map u = se_map t \<Longrightarrow> se_next u = se_next t \<Longrightarrow>
   se_state u = se_state t \<Longrightarrow> se_in u = se_in t \<Longrightarrow> se_closed u = se_closed t \<Longrightarrow> R s u"
  using R_frame R_trans by blast

lemma R_service [simp]: "R s t \<Longrightarrow> R s (put_service t x v)"
  by (erule R_frames) simp_all

lemma R_one [lib_steps]: "R s t \<Longrightarrow> keeps R s (Some t)" "R s t \<Longrightarrow> keeps_with R s (Some (x, t))"
  "keeps R s None" "keeps_with R s None"
  by (simp_all add: keeps_def keeps_with_def)

lemma lookup_keeps [lib_steps]:
  "(\<And>c. se_heap t p = Some c \<Longrightarrow> keeps R s (f c)) \<Longrightarrow> keeps R s (Option.bind (se_heap t p) f)"
  "(\<And>c. se_heap t p = Some c \<Longrightarrow> keeps_with R s (g c)) \<Longrightarrow> keeps_with R s (Option.bind (se_heap t p) g)"
  "(\<And>v. se_srv t x = Some v \<Longrightarrow> keeps R s (h v)) \<Longrightarrow> keeps R s (Option.bind (se_srv t x) h)"
  by (rule keeps_bind_any; assumption)+

lemma R_io_write: "R s (snd (io_write s b))"
  by (rule R_frame) simp_all

lemma channel_state_keeps [THEN keeps_later(1), lib_steps]: "keeps R s (channel_state s p st)"
  unfolding channel_state_def by (auto intro!: lib_steps)

lemma set_init_keeps:
  "(\<And>c. ch_id (f c) = ch_id c) \<Longrightarrow> keeps R s (set_init f s p)"
  unfolding set_init_def by (auto intro!: lib_steps)

lemma setters_keeps [THEN keeps_later(1), lib_steps]:
  "keeps R s (mwChannel_setService s p t)" "keeps R s (mwChannel_setProtoType s p v)"
  "keeps R s (mwChannel_setProtoVer s p v)" "keeps R s (mwChannel_setOptions s p v)"
  unfolding mwChannel_setService_def mwChannel_setProtoType_def mwChannel_setProtoVer_def
    mwChannel_setOptions_def
  by (rule set_init_keeps; simp)+

lemma writers_keeps [THEN keeps_later(1), lib_steps]:
  "keeps R s (mwChannel_setServiceData s p d b)" "keeps R s (write_user s p u)"
  "keeps R s (write_addtl s p x y)" "keeps R s (queue_outgoing s p msg)"
  "keeps R s (queue_incoming s p msg)" "keeps R s (mwChannel_selectCipherInstance s p ci)"
  unfolding mwChannel_setServiceData_def write_user_def write_addtl_def queue_outgoing_def
    queue_incoming_def mwChannel_selectCipherInstance_def
  by (auto intro!: lib_steps)+

lemma add_supported_keeps [THEN keeps_later(1), lib_steps]:
  "keeps R s (mwChannel_addSupportedCipherInstance s p ci)"
  unfolding mwChannel_addSupportedCipherInstance_def put_supported_def
  by (auto intro!: lib_steps)

lemma session_newInstance_keeps [THEN keeps_later(2), lib_steps]:
  "keeps_with R s (session_newInstance s cipher)"
  unfolding session_newInstance_def
  by (rule keeps_bind_any) (auto intro!: lib_steps R_frame)

lemma populate_keeps [THEN keeps_later(1), lib_steps]: "keeps R s (populate s p cs)"
proof (induction cs arbitrary: s)
  case (Cons cipher cs)
  note [lib_steps] = Cons.IH [THEN keeps_later(1)]
  show ?case by (auto intro!: keeps_bind keeps_bind_with lib_steps)
qed (simp add: keeps_Some)

lemma mwChannel_populate_keeps [THEN keeps_later(1), lib_steps]:
  "keeps R s (mwChannel_populateSupportedCipherInstances s p)"
  unfolding mwChannel_populateSupportedCipherInstances_def
  by (auto intro!: lib_steps)

lemma newOutgoing_keeps [THEN keeps_later(2), lib_steps]: "keeps_with R s (mwChannel_newOutgoing s)"
  unfolding mwChannel_newOutgoing_def
  by (rule keeps_bind_any) (auto intro!: keeps_bind keeps_bind_with lib_steps R_frame)

lemma set_status_keeps [THEN keeps_later(1), lib_steps]: "keeps R s (SET_USER_STATUS_recv E s m)"
  unfolding SET_USER_STATUS_recv_def by (auto intro!: lib_steps R_frame)

lemma send_keeps [THEN keeps_later(2), lib_steps]: "keeps_with R s (mwSession_send E s msg)"
  using R_io_write [of s "send_bytes msg"]
  unfolding mwSession_send_def
  by (cases "io_write s (send_bytes msg)") (auto intro!: lib_steps split: mwBody.split)

lemma service_simple_keeps [THEN keeps_later(1), lib_steps]:
  "keeps R s (mwService_started s t)" "keeps R s (mwService_stopped s t)"
  unfolding mwService_started_def mwService_stopped_def
  by (auto intro!: lib_steps R_frame)

lemma service_keeps [THEN keeps_later(1), lib_steps]:
  "keeps R s (mwService_start E s t)" "keeps R s (mwService_stop E s t)"
  "keeps R s (mwService_error E s t)"
  unfolding mwService_start_def mwService_stop_def mwService_error_def Let_def
  by (auto intro!: lib_steps R_frame)

lemma mwService_free_keeps [THEN keeps_later(1), lib_steps]: "keeps R s (mwService_free E s t)"
  unfolding mwService_free_def
  by (auto intro!: keeps_bind keeps_bind_with lib_steps intro: R_frames)

lemma service_data_keeps [THEN keeps_later(1), lib_steps]:
  "keeps R s (mwService_setClientData s t d b)" "keeps R s (mwService_removeClientData E s t)"
  unfolding mwService_setClientData_def mwService_removeClientData_def
  by (auto intro!: keeps_bind keeps_bind_with lib_steps intro: R_frames R_frame)

lemma service_recv_keeps [THEN keeps_later(1), lib_steps]:
  "keeps R s (mwService_recv E s srvc p ty data)" "keeps R s (mwService_recvAccept E s t p ma)"
  "keeps R s (mwService_recvDestroy E s t p md)"
  unfolding mwService_recv_def mwService_recvAccept_def mwService_recvDestroy_def
  by (auto intro!: lib_steps split: option.split)

lemma decrypt_data_id: "decrypt_data c data = Some (d, c') \<Longrightarrow> ch_id c' = ch_id c"
  by (auto simp: decrypt_data_def split: option.splits bind_splits)

lemma channel_recv_keeps [THEN keeps_later(1), lib_steps]: "keeps R s (channel_recv E s p msg)"
  unfolding channel_recv_def Let_def
  by (auto intro!: lib_steps keeps_bind_any(1) [of "decrypt_data x y" for x y]
      dest!: decrypt_data_id)

lemma flush_in_keeps [THEN keeps_later(1), lib_steps]: "keeps R s (flush_incoming E s p msgs)"
proof (induction msgs arbitrary: s)
  case (Cons m msgs)
  note [lib_steps] = Cons.IH [THEN keeps_later(1)]
  show ?case by (auto intro!: keeps_bind(1) lib_steps)
qed (simp add: keeps_Some)

lemma flush_out_keeps [THEN keeps_later(1), lib_steps]: "keeps R s (flush_outgoing E s msgs)"
proof (induction msgs arbitrary: s)
  case (Cons m msgs)
  note [lib_steps] = Cons.IH [THEN keeps_later(1)]
  show ?case by (auto intro!: keeps_bind keeps_bind_with lib_steps)
qed (simp add: keeps_Some)

lemma flush_channel_keeps [THEN keeps_later(1), lib_steps]: "keeps R s (flush_channel E s p)"
  unfolding flush_channel_def Let_def
  by (auto intro!: keeps_bind(1) lib_steps)

lemma channel_open_keeps [THEN keeps_later(1), lib_steps]: "keeps R s (channel_open E s p)"
  unfolding channel_open_def
  by (auto intro!: keeps_bind(1) lib_steps)

lemma make_send_id: "make_send c ty data enc = (msg, c') \<Longrightarrow> ch_id c' = ch_id c"
  by (auto simp: make_send_def Let_def split: option.splits prod.splits if_splits)

lemma channel_send_keeps [THEN keeps_later(2), lib_steps]: "keeps_with R s (channel_send E s p msg)"
  unfolding channel_send_def by (auto intro!: lib_steps)

lemma sendEncrypted_keeps [THEN keeps_later(2), lib_steps]:
  "keeps_with R s (mwChannel_sendEncrypted E s p ty data enc)"
  unfolding mwChannel_sendEncrypted_def Let_def
  by (auto intro!: lib_steps dest!: make_send_id split: prod.split)

lemma mwChannel_recv_keeps [THEN keeps_later(1), lib_steps]: "keeps R s (mwChannel_recv E s p msg)"
  unfolding mwChannel_recv_def by (auto intro!: lib_steps)

lemma mwChannel_create_keeps [THEN keeps_later(2), lib_steps]: "keeps_with R s (mwChannel_create E s p)"
  unfolding mwChannel_create_def Let_def
  by (auto intro!: keeps_bind keeps_bind_with lib_steps)

lemma mwChannel_destroy_keeps [THEN keeps_later(2), lib_steps]:
  "keeps_with R s (mwChannel_destroy E s p reason info)"
  unfolding mwChannel_destroy_def
  by (auto intro!: keeps_bind(2) lib_steps)

lemma accept_item_id:
  assumes "(case ch_cipher c of None \<Rightarrow> Some (None, c)
      | Some (cipher, ci) \<Rightarrow>
          Option.bind (mwCipherInstance_accept cipher ci (li_login_id (ch_user c)))
            (\<lambda>(ei, ci). Some (Some ei, c\<lparr>ch_cipher := Some (cipher, ci)\<rparr>))) = Some (i, c')"
  shows "ch_id c' = ch_id c"
  using assms by (auto split: option.splits bind_splits prod.splits)

lemma mwChannel_accept_keeps [THEN keeps_later(2), lib_steps]: "keeps_with R s (mwChannel_accept E s p)"
  unfolding mwChannel_accept_def Let_def
  by (auto intro!: keeps_bind keeps_bind_with lib_steps keeps_bind_any(2) [of "case ch_cipher c of None \<Rightarrow> Some (None, c)
      | Some (cipher, ci) \<Rightarrow>
          Option.bind (mwCipherInstance_accept cipher ci (li_login_id (ch_user c)))
            (\<lambda>(ei, ci). Some (Some ei, c\<lparr>ch_cipher := Some (cipher, ci)\<rparr>))" for c]
      dest!: accept_item_id)

lemma mwService_recvCreate_keeps [THEN keeps_later(1), lib_steps]:
  "keeps R s (mwService_recvCreate E s t p msg)"
  unfolding mwService_recvCreate_def by (auto intro!: lib_steps)

lemma offer_ciphers_keeps [THEN keeps_later(1), lib_steps]: "keeps R s (offer_ciphers E s p eis)"
proof (induction eis arbitrary: s)
  case (Cons ei eis)
  note [lib_steps] = Cons.IH [THEN keeps_later(1)]
  show ?case
    by (auto intro!: keeps_bind keeps_bind_with lib_steps keeps_bind_any(1) [of "mwCipherInstance_offered e x y z" for e x y z]
        split: option.split)
qed (simp add: keeps_Some)

lemma mwChannel_recvCreate_keeps [THEN keeps_later(1), lib_steps]:
  "keeps R s (mwChannel_recvCreate E s p msg)"
  unfolding mwChannel_recvCreate_def Let_def
  by (auto intro!: keeps_bind(1) lib_steps split: option.split)

lemma recvAccept_opened [THEN keeps_later(1), lib_steps]:
  "keeps R s (Option.bind (channel_state s p mwChannel_OPEN) (\<lambda>s.
     Option.bind (mwService_recvAccept E s t p msg) (\<lambda>s.
     Option.bind (se_heap s p) (\<lambda>c.
     if ch_state c = mwChannel_OPEN then channel_open E s p else Some s))))"
  by (auto intro!: keeps_bind(1) lib_steps)

lemma mwChannel_recvAccept_keeps [THEN keeps_later(1), lib_steps]:
  "keeps R s (mwChannel_recvAccept E s p head msg)"
  unfolding mwChannel_recvAccept_def Let_def
  by (auto intro!: keeps_bind(1) lib_steps keeps_bind_any(1) [of "mwCipherInstance_accepted e x y z w" for e x y z w]
      split: option.split)

lemma mwChannel_recvDestroy_keeps [THEN keeps_later(1), lib_steps]:
  "keeps R s (mwChannel_recvDestroy E s p head msg)"
  unfolding mwChannel_recvDestroy_def
  by (auto intro!: keeps_bind(1) lib_steps split: option.split)

lemma services_keeps [THEN keeps_later(1), lib_steps]:
  "keeps R s (stop_services E s ts)" "keeps R s (start_services E s ts)"
proof (induction ts arbitrary: s)
  case (Cons t ts)
  note [lib_steps] = Cons.IH [THEN keeps_later(1)]
  { case 1 show ?case by (auto intro!: keeps_bind(1) lib_steps) }
  { case 2 show ?case by (auto intro!: keeps_bind(1) lib_steps) }
qed (simp_all add: keeps_Some)

end

section \<open>Operations on the session\<close>

locale session_relation = channel_relation +
  assumes R_same: "se_heap t = se_heap s \<Longrightarrow> se_map t = se_map s \<Longrightarrow> se_next t = se_next s \<Longrightarrow>
      se_in t = se_in s \<or> se_in t = inbuf_new \<Longrightarrow> R s t"
begin

lemma R_sames:
  "R s t \<Longrightarrow> se_heap u = se_heap t \<Longrightarrow> se_map u = se_map t \<Longrightarrow> se_next u = se_next t \<Longrightarrow>
   se_in u = se_in t \<or> se_in u = inbuf_new \<Longrightarrow> R s u"
  using R_same R_trans by blast

lemma buf_free_new [simp]: "session_buf_free b = inbuf_new"
  by (simp add: session_buf_free_def inbuf_new_def)

lemma session_state_keeps [THEN keeps_later(1), lib_steps]: "keeps R s (session_state E s st info)"
  unfolding session_state_def by (auto intro!: lib_steps R_same)

lemma mwSession_stop_keeps [THEN keeps_later(1), lib_steps]: "keeps R s (mwSession_stop E s reason)"
  unfolding mwSession_stop_def Let_def
  by (auto intro!: keeps_bind keeps_bind_with lib_steps intro: R_sames)

lemma mwSession_start_keeps [THEN keeps_later(1), lib_steps]: "keeps R s (mwSession_start E s)"
  unfolding mwSession_start_def by (auto intro!: keeps_bind keeps_bind_with lib_steps)

lemma HANDSHAKE_ACK_keeps [THEN keeps_later(1), lib_steps]: "keeps R s (HANDSHAKE_ACK_recv E s msg)"
  unfolding HANDSHAKE_ACK_recv_def Let_def
  by (auto intro!: keeps_bind keeps_bind_with lib_steps keeps_bind_any(1) [of "compose_auth e x y" for e x y]
      intro: R_sames)

lemma LOGIN_keeps [THEN keeps_later(1), lib_steps]:
  "keeps R s (LOGIN_ACK_recv E s ma)" "keeps R s (LOGIN_REDIRECT_recv E s mr)"
  unfolding LOGIN_ACK_recv_def LOGIN_REDIRECT_recv_def Let_def
  by (auto intro!: keeps_bind(1) lib_steps R_same)

lemma forceLogin_keeps [THEN keeps_later(2), lib_steps]: "keeps_with R s (mwSession_forceLogin E s)"
  unfolding mwSession_forceLogin_def by (auto intro!: keeps_bind(2) lib_steps)

lemma process_message_keeps [THEN keeps_later(1), lib_steps]: "keeps R s (process_message E s msg)"
  unfolding process_message_def CHANNEL_CREATE_recv_def CHANNEL_ACCEPT_recv_def
    CHANNEL_DESTROY_recv_def CHANNEL_SEND_recv_def SET_PRIVACY_LIST_recv_def
    SENSE_SERVICE_recv_def ADMIN_recv_def ANNOUNCE_recv_def
  by (auto intro!: keeps_bind keeps_bind_with lib_steps R_same split: mwBody.split option.split)

lemma session_process_keeps [THEN keeps_later(1), lib_steps]: "keeps R s (session_process E s buf)"
proof -
  have "keeps R s (map_option free_host r)" if "keeps R s r" for r
    using that by (auto simp: keeps_def intro: R_sames)
  note [lib_steps] = this
  show ?thesis
    unfolding session_process_def by (auto intro!: lib_steps split: option.split)
qed

lemma process_all_keeps [THEN keeps_later(1), lib_steps]: "keeps R s (process_all E s ms)"
proof (induction ms arbitrary: s)
  case (Cons m ms)
  note [lib_steps] = Cons.IH [THEN keeps_later(1)]
  show ?case by (auto intro!: keeps_bind(1) lib_steps)
qed (simp add: keeps_Some)

lemma client_sends_keep [THEN keeps_later(2), lib_steps]:
  "keeps_with R s (mwSession_sendAnnounce E s b x rs)"
  "keeps_with R s (mwSession_setPrivacyInfo E s pv)"
  "keeps_with R s (mwSession_setUserStatus E s us)"
  unfolding mwSession_sendAnnounce_def mwSession_setPrivacyInfo_def mwSession_setUserStatus_def
  by (auto intro!: lib_steps)

lemma senseService_keeps [THEN keeps_later(1), lib_steps]: "keeps R s (mwSession_senseService E s t)"
  unfolding mwSession_senseService_def by (auto intro!: lib_steps)

lemma addService_keeps [THEN keeps_later(2), lib_steps]: "keeps_with R s (mwSession_addService E s t v)"
  unfolding mwSession_addService_def Let_def
  by (auto intro!: keeps_bind(2) lib_steps R_same)

lemma mw_datum_clear_keeps [THEN keeps_later(2), lib_steps]: "keeps_with R s (mw_datum_clear E s d)"
  unfolding mw_datum_clear_def by (auto intro!: keeps_bind(2) lib_steps)

lemma data_keeps [THEN keeps_later(1), lib_steps]:
  "keeps R s (mwSession_removeClientData E s)" "keeps R s (mwChannel_removeServiceData E s p)"
  unfolding mwSession_removeClientData_def mwChannel_removeServiceData_def
  by (auto intro!: keeps_bind_with(1) lib_steps intro: R_sames)

end

section \<open>Clients\<close>

text \<open>The calls a client or a service can make.\<close>

datatype client_call =
    Call_start | Call_stop u32 | Call_forceLogin | Call_sendKeepalive
  | Call_sendAnnounce bool mwstring "mwstring list"
  | Call_setPrivacyInfo mwPrivacyInfo | Call_setUserStatus mwUserStatus
  | Call_addService u32 mwService | Call_removeService u32 | Call_senseService u32
  | Call_addCipher mwCipher | Call_removeCipher u16
  | Call_setProperty string attribute | Call_removeProperty string
  | Call_setClientData nat bool | Call_removeClientData
  | Call_service_start u32 | Call_service_started u32 | Call_service_stop u32
  | Call_service_stopped u32 | Call_service_error u32 | Call_service_free u32
  | Call_service_setClientData u32 nat bool | Call_service_removeClientData u32
  | Call_newOutgoing
  | Call_setService nat u32 | Call_setProtoType nat u32 | Call_setProtoVer nat u32
  | Call_setOptions nat u32 | Call_setServiceData nat nat bool | Call_removeServiceData nat
  | Call_write_user nat mwLoginInfo | Call_write_addtl nat bytes bytes
  | Call_populate nat | Call_addSupported nat instance_ref | Call_select nat "instance_ref option"
  | Call_create nat | Call_accept nat | Call_destroy nat u32 bytes
  | Call_send nat u32 bytes bool

primrec do_call :: "mwEnv \<Rightarrow> client_call \<Rightarrow> mwSession \<Rightarrow> mwSession option" where
  "do_call E Call_start s = mwSession_start E s"
| "do_call E (Call_stop r) s = mwSession_stop E s r"
| "do_call E Call_forceLogin s = map_option snd (mwSession_forceLogin E s)"
| "do_call E Call_sendKeepalive s = Some (snd (mwSession_sendKeepalive s))"
| "do_call E (Call_sendAnnounce b x rs) s = map_option snd (mwSession_sendAnnounce E s b x rs)"
| "do_call E (Call_setPrivacyInfo pv) s = map_option snd (mwSession_setPrivacyInfo E s pv)"
| "do_call E (Call_setUserStatus us) s = map_option snd (mwSession_setUserStatus E s us)"
| "do_call E (Call_addService t v) s = map_option snd (mwSession_addService E s t v)"
| "do_call E (Call_removeService t) s = Some (snd (mwSession_removeService s t))"
| "do_call E (Call_senseService t) s = mwSession_senseService E s t"
| "do_call E (Call_addCipher c) s = Some (snd (mwSession_addCipher s c))"
| "do_call E (Call_removeCipher c) s = Some (snd (mwSession_removeCipher s c))"
| "do_call E (Call_setProperty k v) s = Some (property_set s k v)"
| "do_call E (Call_removeProperty k) s = Some (property_del s k)"
| "do_call E (Call_setClientData d b) s = Some (mwSession_setClientData s d b)"
| "do_call E Call_removeClientData s = mwSession_removeClientData E s"
| "do_call E (Call_service_start t) s = mwService_start E s t"
| "do_call E (Call_service_started t) s = mwService_started s t"
| "do_call E (Call_service_stop t) s = mwService_stop E s t"
| "do_call E (Call_service_stopped t) s = mwService_stopped s t"
| "do_call E (Call_service_error t) s = mwService_error E s t"
| "do_call E (Call_service_free t) s = mwService_free E s t"
| "do_call E (Call_service_setClientData t d b) s = mwService_setClientData s t d b"
| "do_call E (Call_service_removeClientData t) s = mwService_removeClientData E s t"
| "do_call E Call_newOutgoing s = map_option snd (mwChannel_newOutgoing s)"
| "do_call E (Call_setService p t) s = mwChannel_setService s p t"
| "do_call E (Call_setProtoType p v) s = mwChannel_setProtoType s p v"
| "do_call E (Call_setProtoVer p v) s = mwChannel_setProtoVer s p v"
| "do_call E (Call_setOptions p v) s = mwChannel_setOptions s p v"
| "do_call E (Call_setServiceData p d b) s = mwChannel_setServiceData s p d b"
| "do_call E (Call_removeServiceData p) s = mwChannel_removeServiceData E s p"
| "do_call E (Call_write_user p u) s = write_user s p u"
| "do_call E (Call_write_addtl p x y) s = write_addtl s p x y"
| "do_call E (Call_populate p) s = mwChannel_populateSupportedCipherInstances s p"
| "do_call E (Call_addSupported p ci) s = mwChannel_addSupportedCipherInstance s p ci"
| "do_call E (Call_select p ci) s = mwChannel_selectCipherInstance s p ci"
| "do_call E (Call_create p) s = map_option snd (mwChannel_create E s p)"
| "do_call E (Call_accept p) s = map_option snd (mwChannel_accept E s p)"
| "do_call E (Call_destroy p r i) s = map_option snd (mwChannel_destroy E s p r i)"
| "do_call E (Call_send p ty d b) s = map_option snd (mwChannel_sendEncrypted E s p ty d b)"

primrec do_calls :: "mwEnv \<Rightarrow> client_call list \<Rightarrow> mwSession \<Rightarrow> mwSession option" where
  "do_calls E [] s = Some s"
| "do_calls E (c # cs) s = Option.bind (do_call E c s) (do_calls E cs)"

text \<open>
  A client whose handlers make the calls \<open>script\<close> says, given what they were called with and
  the session they find; handlers nested more than \<open>n\<close> deep do nothing.
\<close>

primrec client_env :: "mwEnv \<Rightarrow> (callback \<Rightarrow> mwSession \<Rightarrow> client_call list) \<Rightarrow> nat \<Rightarrow> mwEnv" where
  "client_env E script 0 = E\<lparr>en_cb := \<lambda>c s. Some s\<rparr>"
| "client_env E script (Suc n) = E\<lparr>en_cb := \<lambda>c s. do_calls (client_env E script n) (script c s) s\<rparr>"

text \<open>A run of the client: input from the network and calls of its own.\<close>

datatype client_event = Input bytes | Calls "client_call list"

primrec do_event :: "mwEnv \<Rightarrow> client_event \<Rightarrow> mwSession \<Rightarrow> mwSession option" where
  "do_event E (Input b) s = session_input E s b"
| "do_event E (Calls cs) s = do_calls E cs s"

primrec do_events :: "mwEnv \<Rightarrow> client_event list \<Rightarrow> mwSession \<Rightarrow> mwSession option" where
  "do_events E [] s = Some s"
| "do_events E (e # es) s = Option.bind (do_event E e s) (do_events E es)"

context session_relation begin

lemma do_call_keeps [THEN keeps_later(1), lib_steps]: "keeps R s (do_call E c s)"
proof -
  have "keeps R s (Some (snd (mwSession_sendKeepalive s)))"
    using R_io_write by (simp add: mwSession_sendKeepalive_def keeps_def)
  moreover have "keeps R s (Some (snd (mwSession_removeService s t)))"
    "keeps R s (Some (snd (mwSession_addCipher s ci)))"
    "keeps R s (Some (snd (mwSession_removeCipher s i)))"
    "keeps R s (Some (mwSession_setClientData s d b))" for t ci i d b
    by (auto intro!: lib_steps R_same simp: mwSession_removeService_def
        mwSession_addCipher_def mwSession_removeCipher_def mwSession_setClientData_def)
  ultimately show ?thesis
    by (cases c) (auto intro!: lib_steps intro: R_same)
qed

lemma do_calls_keeps [THEN keeps_later(1), lib_steps]: "keeps R s (do_calls E cs s)"
proof (induction cs arbitrary: s)
  case (Cons c cs)
  note [lib_steps] = Cons.IH [THEN keeps_later(1)]
  show ?case by (auto intro!: keeps_bind(1) lib_steps)
qed (simp add: keeps_Some)

end

section \<open>The table and the heap\<close>

definition heap_ok :: "mwSession \<Rightarrow> bool" where
  "heap_ok s \<longleftrightarrow>
     (\<forall>chan p. se_map s chan = Some p \<longrightarrow> (\<exists>c. se_heap s p = Some c \<and> ch_id c = chan)) \<and>
     (\<forall>p c. se_heap s p = Some c \<longrightarrow> se_map s (ch_id c) = Some p \<and> p < se_next s)"

text \<open>A pointer once freed stays dangling, and a channel keeps its id.\<close>

definition evolves :: "mwSession \<Rightarrow> mwSession \<Rightarrow> bool" where
  "evolves s s' \<longleftrightarrow> se_next s \<le> se_next s' \<and>
     (\<forall>p c'. p < se_next s \<longrightarrow> se_heap s' p = Some c' \<longrightarrow> (\<exists>c. se_heap s p = Some c \<and> ch_id c = ch_id c'))"

lemma evolves_refl: "evolves s s"
  by (simp add: evolves_def)

lemma evolves_trans:
  assumes "evolves s t" and "evolves t u"
  shows "evolves s u"
  unfolding evolves_def
proof (intro conjI allI impI)
  show "se_next s \<le> se_next u" using assms by (auto simp: evolves_def)
  fix p c'
  assume "p < se_next s" "se_heap u p = Some c'"
  moreover from this obtain c where "se_heap t p = Some c" "ch_id c = ch_id c'"
    using assms unfolding evolves_def by (meson order.strict_trans2)
  ultimately show "\<exists>c. se_heap s p = Some c \<and> ch_id c = ch_id c'"
    using assms(1) unfolding evolves_def by metis
qed

definition grows :: "mwSession \<Rightarrow> mwSession \<Rightarrow> bool" where
  "grows s t \<longleftrightarrow> heap_ok s \<longrightarrow> heap_ok t \<and> evolves s t"

interpretation grow: step_relation grows
  by unfold_locales (auto simp: grows_def evolves_refl intro: evolves_trans)

text \<open>Writing a channel that is there, and touching other fields.\<close>

lemma put_chan_grows:
  assumes "se_heap s p = Some c0" and "ch_id c = ch_id c0"
  shows "grows s (put_chan s p c)"
  unfolding grows_def
proof
  assume ok: "heap_ok s"
  then have p: "se_map s (ch_id c0) = Some p" "p < se_next s" using assms(1) by (auto simp: heap_ok_def)
  have "se_map s chan = Some p \<Longrightarrow> ch_id c = chan" for chan
    using ok assms by (fastforce simp: heap_ok_def)
  then have "heap_ok (put_chan s p c)"
    using ok p assms by (auto simp: heap_ok_def put_chan_def)
  then show "heap_ok (put_chan s p c) \<and> evolves s (put_chan s p c)"
    using assms by (auto simp: evolves_def put_chan_def)
qed

lemma same_heap_grows:
  "se_heap t = se_heap s \<Longrightarrow> se_map t = se_map s \<Longrightarrow> se_next t = se_next s \<Longrightarrow> grows s t"
  by (simp add: grows_def heap_ok_def evolves_def)

text \<open>Freeing what the table has for an id, and filing a new channel under it.\<close>

lemma map_remove_ok:
  assumes "heap_ok s" and "map_remove s chan = Some t"
  shows "heap_ok t" and "evolves s t" and "se_next t = se_next s"
    and "se_heap t = (case se_map s chan of None \<Rightarrow> se_heap s | Some q \<Rightarrow> (se_heap s)(q := None))"
    and "se_map t = (se_map s)(chan := None)"
proof -
  have *: "se_next t = se_next s \<and> se_map t = (se_map s)(chan := None) \<and>
      se_heap t = (case se_map s chan of None \<Rightarrow> se_heap s | Some q \<Rightarrow> (se_heap s)(q := None))"
    using assms(2) by (auto simp: map_remove_def channel_free_def fun_upd_idem split: option.splits bind_splits)
  then show "se_next t = se_next s" "se_map t = (se_map s)(chan := None)"
    "se_heap t = (case se_map s chan of None \<Rightarrow> se_heap s | Some q \<Rightarrow> (se_heap s)(q := None))"
    by simp_all
  show "evolves s t" using * by (auto simp: evolves_def split: option.splits if_splits)
  show "heap_ok t"
  proof (cases "se_map s chan")
    case None
    then have "(se_map s)(chan := None) = se_map s" by (simp add: fun_upd_idem)
    then show ?thesis using * assms(1) None by (simp add: heap_ok_def)
  next
    case (Some q)
    have inj: "se_map s i = Some q \<Longrightarrow> i = chan" "se_heap s p = Some c \<Longrightarrow> ch_id c = chan \<Longrightarrow> p = q"
      for i p c using assms(1) Some unfolding heap_ok_def by (metis option.inject)+
    have t: "se_map t i = Some p \<longleftrightarrow> i \<noteq> chan \<and> se_map s i = Some p"
      "se_heap t p = Some c \<longleftrightarrow> p \<noteq> q \<and> se_heap s p = Some c" for i p c
      using * Some by auto
    show ?thesis
      unfolding heap_ok_def t * [THEN conjunct1]
      using assms(1) inj unfolding heap_ok_def by blast
  qed
qed

lemma map_remove_total: "heap_ok s \<Longrightarrow> \<exists>t. map_remove s chan = Some t"
  by (cases "se_map s chan") (force simp: map_remove_def channel_free_def heap_ok_def)+

lemma map_remove_keeps_grows: "keeps grows s (map_remove s chan)"
  using map_remove_ok(1,2) unfolding keeps_def grows_def by blast

lemma newIncoming_eq:
  "mwChannel_newIncoming s chan =
     map_option (\<lambda>t. (se_next s, t\<lparr>se_next := se_next s + 1,
       se_heap := (se_heap t)(se_next s \<mapsto> new_channel chan), se_map := (se_map t)(chan \<mapsto> se_next s)\<rparr>))
       (map_remove s chan)"
  by (auto simp: mwChannel_newIncoming_def map_remove_def channel_free_def Let_def
      split: option.splits bind_splits)

lemma newIncoming_ok:
  assumes "heap_ok s" and "mwChannel_newIncoming s chan = Some (p, t)"
  shows "heap_ok t" and "evolves s t" and "p = se_next s"
    and "se_map t = (se_map s)(chan \<mapsto> p)"
    and "se_heap t = (case se_map s chan of None \<Rightarrow> se_heap s | Some q \<Rightarrow> (se_heap s)(q := None))
           (p \<mapsto> new_channel chan)"
proof -
  obtain u where u: "map_remove s chan = Some u" and p: "p = se_next s"
    and t: "t = u\<lparr>se_next := se_next s + 1, se_heap := (se_heap u)(se_next s \<mapsto> new_channel chan),
              se_map := (se_map u)(chan \<mapsto> se_next s)\<rparr>"
    using assms(2) by (auto simp: newIncoming_eq)
  note r = map_remove_ok [OF assms(1) u]
  have id: "ch_id (new_channel chan) = chan" by (simp add: new_channel_def)
  have fresh: "se_heap u q = Some c \<Longrightarrow> q < se_next s" "se_map u i = Some q \<Longrightarrow> q < se_next s" for q c i
    using r(1,3) unfolding heap_ok_def by metis+
  have "se_map u chan = None" using r(5) by simp
  then show "heap_ok t"
    using r(1,3) fresh id unfolding t heap_ok_def by (auto; fastforce)
  show "evolves s t" using r(2) unfolding t evolves_def by auto
  show "p = se_next s" by (rule p)
  show "se_map t = (se_map s)(chan \<mapsto> p)" "se_heap t = (case se_map s chan of None \<Rightarrow> se_heap s | Some q \<Rightarrow> (se_heap s)(q := None))
           (p \<mapsto> new_channel chan)"
    using r(4,5) by (simp_all add: t p)
qed

lemma newIncoming_keeps_grows: "keeps_with grows s (mwChannel_newIncoming s chan)"
  using newIncoming_ok(1,2) unfolding keeps_with_def grows_def by blast

section \<open>The invariant under every client\<close>

text \<open>What the library asks of the code it calls: to keep the invariant.\<close>

locale library_client =
  fixes E :: mwEnv
  assumes cb_grows: "keeps grows s (en_cb E c s)"

lemma client_relation: "library_client E \<Longrightarrow> session_relation grows E"
  by unfold_locales
    (auto intro: put_chan_grows same_heap_grows map_remove_keeps_grows newIncoming_keeps_grows
      library_client.cb_grows)

sublocale library_client \<subseteq> lib: session_relation grows E
  by (rule client_relation) unfold_locales

context library_client begin

lemma session_input_grows: "keeps grows s (session_input E s buf)"
proof -
  obtain ms ib where r: "mwSession_recv (se_in s) buf = (ms, ib)" by force
  have "keeps grows s (process_all E (s\<lparr>se_in := inbuf_new\<rparr>) ms)"
    by (rule lib.process_all_keeps) (rule same_heap_grows; simp)
  then show ?thesis
    unfolding session_input_def r Let_def prod.case
    by (rule grow.keeps_bind(1)) (simp add: keeps_def grows_def heap_ok_def evolves_def)
qed

lemma do_events_grows: "keeps grows s (do_events E es s)"
proof (induction es arbitrary: s)
  case (Cons e es)
  have "keeps grows s (do_event E e s)"
    by (cases e) (simp_all add: session_input_grows lib.do_calls_keeps)
  then show ?case
    unfolding do_events.simps
    by (rule grow.keeps_bind(1)) (rule grow.keeps_later(1) [OF Cons.IH])
qed (simp add: grow.keeps_Some)

end

lemma client_env_keeps: "library_client (client_env E script n)"
proof (induction n)
  case 0
  show ?case by unfold_locales (simp add: grow.keeps_Some)
next
  case (Suc n)
  show ?case
    by unfold_locales (simp add: session_relation.do_calls_keeps [OF client_relation [OF Suc.IH]] grow.R_refl)
qed

text \<open>Every such client is one: its handlers only use the library.\<close>

interpretation client: library_client "client_env E script n"
  by (rule client_env_keeps)

lemma heap_ok_new: "heap_ok (mwSession_new io)"
  by (simp add: heap_ok_def mwSession_new_def session_defaults_def property_set_def Let_def)

end
