(* ===== verification/MwSessionProps.thy ===== *)
theory MwSessionProps imports MwSafety begin

text \<open>
  What the session and its channels guarantee: the table of channels under every client, ids
  of new channels, the order of queued messages, the login sequence, and the cases in which
  the code does not do what it means to.
\<close>

section \<open>Ids of outgoing channels\<close>

lemma next_id_free: "next_id m c = Some i \<Longrightarrow> m i = None"
proof (erule next_id.raw_induct [rotated])
  fix f :: "(u32 \<Rightarrow> nat option) \<Rightarrow> u32 \<Rightarrow> u32 option" and m :: "u32 \<Rightarrow> nat option" and c i
  assume "\<And>m c i. f m c = Some i \<Longrightarrow> m i = None"
    and "(if m (c + 1) = None then Some (c + 1) else f m (c + 1)) = Some i"
  then show "m i = None" by (auto split: if_splits)
qed

lemma next_id_total:
  assumes "m i = None"
  shows "\<exists>j. next_id m c = Some j"
proof (induction "unat (i - (c + 1))" arbitrary: c rule: less_induct)
  case less
  show ?case
  proof (cases "m (c + 1) = None")
    case True
    then show ?thesis by (simp add: next_id.simps [of m c])
  next
    case False
    then have ne: "i - (c + 1) \<noteq> 0" using assms by auto
    have e: "i - (c + 1 + 1) = (i - (c + 1)) - 1" by (simp add: algebra_simps)
    have "0 < unat (i - (c + 1))" using ne by (simp add: unat_gt_0)
    then have "unat (i - (c + 1 + 1)) < unat (i - (c + 1))"
      unfolding e unat_minus_one [OF ne] by linarith
    then show ?thesis using less [of "c + 1"] False by (simp add: next_id.simps [of m c])
  qed
qed

section \<open>The queue of a channel\<close>

text \<open>Messages sent one after the other on a channel.\<close>

fun sends :: "mwEnv \<Rightarrow> mwSession \<Rightarrow> nat \<Rightarrow> (u32 \<times> bytes) list \<Rightarrow> mwSession option" where
  "sends E s p [] = Some s"
| "sends E s p ((ty, d) # xs) = do { (ret, s) \<leftarrow> mwChannel_send E s p ty d; sends E s p xs }"

definition plain_send :: "u32 \<Rightarrow> u32 \<times> bytes \<Rightarrow> send_msg" where
  "plain_send chan x =
     (mwMessageHead_zero\<lparr>mh_type := 0x0004, mh_channel := chan\<rparr>,
      \<lparr>cs_type = ucast (fst x), cs_data = snd x\<rparr>)"

lemma sends_queue:
  assumes "se_heap s p = Some c" and "ch_state c \<noteq> mwChannel_OPEN" and "ch_cipher c = None"
  shows "sends E s p xs =
    Some (put_chan s p (c\<lparr>ch_outgoing_queue := ch_outgoing_queue c @ map (plain_send (ch_id c)) xs\<rparr>))"
  using assms
proof (induction xs arbitrary: s c)
  case Nil
  then show ?case by (simp add: put_chan_def fun_upd_idem)
next
  case (Cons x xs)
  obtain ty d where x: "x = (ty, d)" by force
  let ?c = "c\<lparr>ch_outgoing_queue := ch_outgoing_queue c @ [plain_send (ch_id c) x]\<rparr>"
  have "mwChannel_send E s p ty d = Some (0, put_chan s p ?c)"
    using Cons.prems
    by (simp add: mwChannel_send_def mwChannel_sendEncrypted_def make_send_def channel_send_def
        queue_outgoing_def plain_send_def x Let_def put_chan_def)
  then show ?case
    using Cons.IH [of "put_chan s p ?c" ?c] Cons.prems by (simp add: x put_chan_def)
qed

lemma send_ChannelSend:
  "mwSession_send E s (send_message m) = Some (io_write s (send_bytes (send_message m)))"
  by (simp add: mwSession_send_def send_message_def split: prod.split)

lemma io_write_out: "snd (io_write s b) = s\<lparr>se_io := tl (se_io s), se_out := se_out s @ [b]\<rparr>"
  by (cases "se_io s") (simp_all add: io_write_def)

lemma flush_outgoing_eq:
  "flush_outgoing E s msgs =
     Some (s\<lparr>se_io := drop (length msgs) (se_io s),
             se_out := se_out s @ map (send_bytes \<circ> send_message) msgs\<rparr>)"
proof (induction msgs arbitrary: s)
  case (Cons m msgs)
  have "snd (io_write s (send_bytes (send_message m))) =
      s\<lparr>se_io := tl (se_io s), se_out := se_out s @ [send_bytes (send_message m)]\<rparr>"
    by (rule io_write_out)
  then show ?case
    using Cons by (cases "io_write s (send_bytes (send_message m))")
      (simp add: send_ChannelSend drop_Suc)
qed simp

lemma channel_open_eq:
  assumes "se_heap s p = Some c" and "ch_incoming_queue c = []"
  shows "\<exists>t. channel_open E s p = Some t \<and>
    se_out t = se_out s @ map (send_bytes \<circ> send_message) (ch_outgoing_queue c) \<and>
    se_heap t p = Some (c\<lparr>ch_state := mwChannel_OPEN, ch_opened_at := Some (en_time E),
      ch_outgoing_queue := []\<rparr>)"
  using assms
  by (simp add: channel_open_def channel_state_def flush_channel_def flush_outgoing_eq put_chan_def)

section \<open>The login sequence\<close>

text \<open>Handlers that leave the state of the session alone, and handlers that do nothing.\<close>

definition leaves_state :: "mwEnv \<Rightarrow> bool" where
  "leaves_state E \<longleftrightarrow> (\<forall>call s. keeps (same se_state) s (en_cb E call s))"

definition idle :: "mwEnv \<Rightarrow> bool" where
  "idle E \<longleftrightarrow> (\<forall>call s. en_cb E call s = Some s)"

lemma session_state_idle:
  "idle E \<Longrightarrow> session_state E s st info =
     Some (if se_state s = st then s else s\<lparr>se_state := st, se_state_info := info\<rparr>)"
  by (simp add: session_state_def idle_def)

lemma session_state_result:
  "leaves_state E \<Longrightarrow> session_state E s st info = Some t \<Longrightarrow> se_state t = st"
  unfolding session_state_def leaves_state_def keeps_def same_def
  by (auto split: if_splits)

lemma map_remove_state: "keeps (same se_state) s (map_remove s chan)"
  by (auto simp: keeps_def same_def map_remove_def channel_free_def split: option.splits bind_splits)

lemma state_relation: "leaves_state E \<Longrightarrow> channel_relation (same se_state) E"
proof (unfold_locales, goal_cases)
  case (4 s chan)
  show "keeps_with (same se_state) s (mwChannel_newIncoming s chan)"
    using map_remove_state [of s chan] by (auto simp: newIncoming_eq keeps_with_def keeps_def same_def)
qed (simp_all add: leaves_state_def map_remove_state, simp_all add: same_def)

text \<open>The steps of the session, by the message and the channel it is about.\<close>

inductive login_step :: "mwSessionState \<Rightarrow> u32 \<Rightarrow> mwBody \<Rightarrow> mwSessionState \<Rightarrow> bool" where
  handshaken: "login_step mwSession_HANDSHAKE chan (HandshakeAck m) mwSession_LOGIN"
| login_not_sent: "login_step mwSession_HANDSHAKE chan (HandshakeAck m) mwSession_HANDSHAKE_ACK"
| continued: "login_step mwSession_LOGIN_CONT chan (HandshakeAck m) mwSession_LOGIN"
| logged_in: "login_step mwSession_LOGIN chan (LoginAck m) mwSession_STARTED"
| redirected: "login_step st chan (LoginRedirect m) mwSession_LOGIN_REDIR"
| closed: "st \<noteq> mwSession_STOPPED \<Longrightarrow> st \<noteq> mwSession_STOPPING \<Longrightarrow>
    login_step st MW_MASTER_CHANNEL_ID (ChannelDestroy m) mwSession_STOPPED"
| ignored_ack: "st \<noteq> mwSession_HANDSHAKE \<Longrightarrow> st \<noteq> mwSession_LOGIN_CONT \<Longrightarrow>
    login_step st chan (HandshakeAck m) st"
| ignored_login: "st \<noteq> mwSession_LOGIN \<Longrightarrow> login_step st chan (LoginAck m) st"
| ignored_close: "chan \<noteq> MW_MASTER_CHANNEL_ID \<or> st = mwSession_STOPPED \<or> st = mwSession_STOPPING \<Longrightarrow>
    login_step st chan (ChannelDestroy m) st"
| other: "body_type b \<notin> {0x8000, 0x8001, 0x0018, 0x0003} \<Longrightarrow> login_step st chan b st"

inductive_cases starts: "login_step st chan b mwSession_STARTED"
inductive_cases logs_in: "login_step st chan b mwSession_LOGIN"

lemma send_state:
  assumes "leaves_state E" and "mwSession_send E s msg = Some (ret, t)"
  shows "se_state t = se_state s"
  using channel_relation.send_keeps [OF state_relation [OF assms(1)]] assms(2)
  by (force simp: keeps_with_def same_def)

lemma HANDSHAKE_ACK_step:
  assumes "leaves_state E" and "HANDSHAKE_ACK_recv E s m = Some t"
  shows "login_step (se_state s) chan (HandshakeAck m) (se_state t)"
proof -
  consider "se_state s = mwSession_HANDSHAKE" | "se_state s = mwSession_LOGIN_CONT"
    | "se_state s \<noteq> mwSession_HANDSHAKE" "se_state s \<noteq> mwSession_LOGIN_CONT" by blast
  then show ?thesis
  proof cases
    case 1
    then show ?thesis using assms(2)
      by (auto simp: HANDSHAKE_ACK_recv_def Let_def split: bind_splits if_splits
          dest!: session_state_result [OF assms(1)] send_state [OF assms(1)]
          intro!: login_step.handshaken login_step.login_not_sent)
  next
    case 2
    then show ?thesis using assms(2)
      by (auto simp: HANDSHAKE_ACK_recv_def split: bind_splits
          dest!: session_state_result [OF assms(1)] intro: login_step.intros)
  next
    case 3
    then show ?thesis using assms(2) by (auto simp: HANDSHAKE_ACK_recv_def intro: login_step.intros)
  qed
qed

lemma LOGIN_ACK_step:
  assumes "leaves_state E" and "LOGIN_ACK_recv E s m = Some t"
  shows "login_step (se_state s) chan (LoginAck m) (se_state t)"
  using assms(2) by (cases "se_state s = mwSession_LOGIN")
    (auto simp: LOGIN_ACK_recv_def Let_def split: bind_splits
      dest!: session_state_result [OF assms(1)] intro: login_step.intros)

lemma stop_state:
  assumes "leaves_state E" and "mwSession_stop E s reason = Some t"
  shows "se_state t = (if se_state s = mwSession_STOPPING then mwSession_STOPPING else mwSession_STOPPED)"
  using assms(2) by (auto simp: mwSession_stop_def Let_def split: bind_splits if_splits
      dest!: session_state_result [OF assms(1)])

lemma CHANNEL_DESTROY_step:
  assumes "leaves_state E" and "CHANNEL_DESTROY_recv E s head m = Some t"
  shows "login_step (se_state s) (mh_channel head) (ChannelDestroy m) (se_state t)"
proof (cases "mh_channel head = MW_MASTER_CHANNEL_ID")
  case True
  then have "mwSession_stop E s (cd_reason m) = Some t" using assms(2) by (simp add: CHANNEL_DESTROY_recv_def)
  from stop_state [OF assms(1) this] show ?thesis
    using login_step.closed [of "se_state s" m] login_step.ignored_close [of "mh_channel head" "se_state s" m] True
    by (cases "se_state s = mwSession_STOPPED"; cases "se_state s = mwSession_STOPPING") auto
next
  case False
  note rel = state_relation [OF assms(1)]
  have "se_state t = se_state s"
    using False assms(2) channel_relation.mwChannel_recvDestroy_keeps [OF rel]
    by (force simp: CHANNEL_DESTROY_recv_def keeps_def same_def split: option.splits)
  then show ?thesis using False by (auto intro: login_step.ignored_close)
qed

lemma create_state:
  assumes "leaves_state E" and "CHANNEL_CREATE_recv E s m = Some t"
  shows "se_state t = se_state s"
  using channel_relation.new_keeps [OF state_relation [OF assms(1)], of s s "cc_channel m"]
    channel_relation.mwChannel_recvCreate_keeps [OF state_relation [OF assms(1)]] assms(2)
  by (fastforce simp: CHANNEL_CREATE_recv_def keeps_def keeps_with_def same_def split: bind_splits)

lemma process_message_other:
  assumes "leaves_state E" and "process_message E s msg = Some t"
    and "body_type (msg_body msg) \<notin> {0x8000, 0x8001, 0x0018, 0x0003}"
  shows "se_state t = se_state s"
proof -
  note rel = state_relation [OF assms(1)]
  have cb: "en_cb E call u = Some t \<Longrightarrow> se_state t = se_state u" for call u
    using assms(1) by (simp add: leaves_state_def keeps_def same_def)
  have more: "mwService_start E s x = Some t \<Longrightarrow> se_state t = se_state s"
    "mwChannel_recvAccept E s p head ma = Some t \<Longrightarrow> se_state t = se_state s"
    "mwChannel_recv E s p ms = Some t \<Longrightarrow> se_state t = se_state s" for x p head ma ms
    using channel_relation.service_keeps(1) [OF rel] channel_relation.mwChannel_recvAccept_keeps [OF rel]
      channel_relation.mwChannel_recv_keeps [OF rel]
    unfolding keeps_def same_def by blast+
  show ?thesis
    using assms(2,3) create_state [OF assms(1)]
    by (cases "msg_body msg")
      (auto simp: process_message_def CHANNEL_ACCEPT_recv_def CHANNEL_SEND_recv_def
        SET_PRIVACY_LIST_recv_def SET_USER_STATUS_recv_def SENSE_SERVICE_recv_def ADMIN_recv_def
        ANNOUNCE_recv_def split: option.splits dest: cb more)
qed

lemma process_message_step:
  assumes "leaves_state E" and "process_message E s msg = Some t"
  shows "login_step (se_state s) (mh_channel (msg_head msg)) (msg_body msg) (se_state t)"
proof (cases "body_type (msg_body msg) \<in> {0x8000, 0x8001, 0x0018, 0x0003}")
  case False
  then show ?thesis using process_message_other [OF assms] by (simp add: login_step.other)
next
  case True
  then consider (ack) m where "msg_body msg = HandshakeAck m" | (login) m where "msg_body msg = LoginAck m"
    | (redirect) m where "msg_body msg = LoginRedirect m" | (destroy) m where "msg_body msg = ChannelDestroy m"
    by (cases "msg_body msg") auto
  then show ?thesis
  proof cases
    case ack
    then show ?thesis using assms HANDSHAKE_ACK_step by (simp add: process_message_def)
  next
    case login
    then show ?thesis using assms LOGIN_ACK_step by (simp add: process_message_def)
  next
    case redirect
    then have "se_state t = mwSession_LOGIN_REDIR"
      using assms session_state_result by (simp add: process_message_def LOGIN_REDIRECT_recv_def)
    then show ?thesis by (simp add: redirect login_step.redirected)
  next
    case destroy
    then show ?thesis using assms CHANNEL_DESTROY_step by (simp add: process_message_def)
  qed
qed

section \<open>The session and its input\<close>

text \<open>Handlers that leave the input buffer alone; processing a message then does too.\<close>

definition leaves_input :: "mwEnv \<Rightarrow> bool" where
  "leaves_input E \<longleftrightarrow> (\<forall>call s t. en_cb E call s = Some t \<longrightarrow> se_in s = inbuf_new \<longrightarrow> se_in t = inbuf_new)"

definition stays_empty :: "mwSession \<Rightarrow> mwSession \<Rightarrow> bool" where
  "stays_empty s t \<longleftrightarrow> (se_in s = inbuf_new \<longrightarrow> se_in t = inbuf_new)"

lemma map_remove_in: "keeps (same se_in) s (map_remove s chan)"
  by (auto simp: keeps_def same_def map_remove_def channel_free_def split: option.splits bind_splits)

lemma input_relation: "leaves_input E \<Longrightarrow> session_relation stays_empty E"
proof (unfold_locales, goal_cases)
  case (6 s chan)
  then show ?case
    using map_remove_in [of s chan] by (auto simp: newIncoming_eq keeps_with_def keeps_def same_def stays_empty_def)
qed (insert map_remove_in, auto simp: leaves_input_def stays_empty_def keeps_def same_def)

fun session_inputs :: "mwEnv \<Rightarrow> mwSession \<Rightarrow> bytes list \<Rightarrow> mwSession option" where
  "session_inputs E s [] = Some s"
| "session_inputs E s (c # cs) = do { s \<leftarrow> session_input E s c; session_inputs E s cs }"

lemma process_all_append:
  "process_all E s (xs @ ys) = Option.bind (process_all E s xs) (\<lambda>s. process_all E s ys)"
  by (induction xs arbitrary: s) (auto simp: Option.bind_assoc)

lemma process_all_in:
  assumes "leaves_input E" and "process_all E s ms = Some t" and "se_in s = inbuf_new"
  shows "se_in t = inbuf_new"
  using session_relation.process_all_keeps [OF input_relation [OF assms(1)], of s ms] assms(2,3)
  by (simp add: keeps_def stays_empty_def)

lemma session_inputs_eq:
  assumes "leaves_input E"
  shows "session_inputs E s cs =
    (let (ms, ib) = recv_chunks (se_in s) cs in
     case process_all E (s\<lparr>se_in := inbuf_new\<rparr>) ms of
       None \<Rightarrow> None | Some t \<Rightarrow> Some (t\<lparr>se_in := ib\<rparr>))"
proof (induction cs arbitrary: s)
  case Nil
  then show ?case by simp
next
  case (Cons c cs)
  obtain ms ib where r: "mwSession_recv (se_in s) c = (ms, ib)" by force
  obtain ms' ib' where r': "recv_chunks ib cs = (ms', ib')" by force
  show ?case
  proof (cases "process_all E (s\<lparr>se_in := inbuf_new\<rparr>) ms")
    case None
    then show ?thesis by (simp add: r r' session_input_def process_all_append)
  next
    case (Some t)
    then have "se_in t = inbuf_new" using process_all_in [OF assms Some] by simp
    then have "t\<lparr>se_in := inbuf_new\<rparr> = t" by simp
    then show ?thesis by (simp add: r r' Some session_input_def process_all_append Cons.IH)
  qed
qed

end
