(* ===== verification/MwGuarantees.thy ===== *)
theory MwGuarantees imports MwSessionProps begin

text \<open>
  What the session and its channels guarantee, as properties of the whole: the table of
  channels under every client, the ids of new channels, the queue of a channel, the login,
  stopping, input in chunks; and where the code does not do what it means to.
\<close>

section \<open>The table of channels\<close>

definition quiet_env :: mwEnv where
  "quiet_env =
     \<lparr>en_cb = \<lambda>call s. Some s, en_expt = \<lambda>b e m. 0, en_key = \<lambda>n k. replicate k 0, en_private = \<lambda>n. 1,
      en_time = 0, en_junk = 0, en_head = mwMessageHead_zero\<rparr>"

text \<open>
  C2: whatever a client's handlers and the client itself do with the library, and whatever
  arrives from the network, the table of channels and the allocated channels are the same:
  an id is filed with a pointer exactly when that pointer is an allocated channel of this id.
  So no channel is lost, none is freed twice, and no entry of the table dangles.
\<close>

theorem channels_never_lost:
  assumes "do_events (client_env E script n) es (mwSession_new io) = Some s"
  shows "se_map s chan = Some p \<longleftrightarrow> (\<exists>c. se_heap s p = Some c \<and> ch_id c = chan)"
proof -
  have "heap_ok s"
    using client.do_events_grows [of "mwSession_new io" E script n es] assms heap_ok_new [of io]
    by (auto simp: keeps_def grows_def)
  then show ?thesis by (auto simp: heap_ok_def)
qed

lemma new_channel_run:
  "do_events (client_env E script n) [Calls [Call_newOutgoing]] (mwSession_new io) =
   Some ((mwSession_new io)\<lparr>se_counter := 1, se_next := 1,
     se_heap := [0 \<mapsto> (new_channel 1)\<lparr>ch_state := mwChannel_INIT\<rparr>], se_map := [1 \<mapsto> 0]\<rparr>)"
  by (simp add: mwChannel_newOutgoing_def next_id.simps [of "\<lambda>_. None"] mwChannel_newIncoming_def Let_def
      channel_state_def put_chan_def mwSession_new_def session_defaults_def property_set_def)

theorem channels_never_lost_witness:
  "se_map (the (do_events (client_env quiet_env (\<lambda>_ _. [Call_newOutgoing]) 3)
     [Calls [Call_newOutgoing]] (mwSession_new []))) 1 = Some 0 \<longleftrightarrow>
   (\<exists>c. se_heap (the (do_events (client_env quiet_env (\<lambda>_ _. [Call_newOutgoing]) 3)
     [Calls [Call_newOutgoing]] (mwSession_new []))) 0 = Some c \<and> ch_id c = 1)"
  by (rule channels_never_lost [of quiet_env "\<lambda>_ _. [Call_newOutgoing]" 3 "[Calls [Call_newOutgoing]]" "[]"])
    (simp only: new_channel_run option.sel)

text \<open>
  C35: freeing the session after any such run frees every channel.
\<close>

theorem freed_session_has_no_channels:
  assumes "do_events (client_env E script n) es (mwSession_new io) = Some s"
    and "mwSession_free (client_env E script n) s = Some t"
  shows "se_heap t p = None"
proof -
  have "heap_ok s"
    using client.do_events_grows [of "mwSession_new io" E script n es] assms(1) heap_ok_new [of io]
    by (auto simp: keeps_def grows_def)
  moreover obtain u where u: "en_cb (client_env E script n) On_clear s = Some u"
    and t: "se_heap t p = (if p \<in> ran (se_map u) then None else se_heap u p)"
    using assms(2) by (auto simp: mwSession_free_def mwChannelSet_free_def Let_def split: bind_splits)
  ultimately have "heap_ok u"
    using client.cb_grows [of s E script n On_clear] by (auto simp: keeps_def grows_def)
  then have "se_heap u p = Some c \<Longrightarrow> p \<in> ran (se_map u)" for c
    unfolding heap_ok_def by (blast intro: ranI)
  then show ?thesis unfolding t by (cases "se_heap u p") auto
qed

theorem freed_session_has_no_channels_witness:
  "se_heap (the (mwSession_free (client_env quiet_env (\<lambda>_ _. []) 3)
     (the (do_events (client_env quiet_env (\<lambda>_ _. []) 3) [Calls [Call_newOutgoing]] (mwSession_new []))))) 0 = None"
proof -
  let ?E = "client_env quiet_env (\<lambda>_ _. []) 3"
  have f: "en_cb ?E On_clear s = Some s" for s by (simp add: numeral_eq_Suc)
  show ?thesis
    by (rule freed_session_has_no_channels [of quiet_env "\<lambda>_ _. []" 3 "[Calls [Call_newOutgoing]]" "[]"])
      (simp_all only: new_channel_run option.sel mwSession_free_def f Let_def bind.bind_lunit)
qed

section \<open>Ids of new channels\<close>

lemma shift: "c + 1 + of_nat (Suc k) = (c + 1 + 1 + of_nat k :: u32)"
  by (simp only: of_nat_Suc ac_simps)

lemma next_id_first:
  "next_id m c = Some i \<longleftrightarrow>
     (\<exists>k. i = c + 1 + of_nat k \<and> m i = None \<and> (\<forall>j < k. m (c + 1 + of_nat j) \<noteq> None))"
proof
  assume "next_id m c = Some i"
  then show "\<exists>k. i = c + 1 + of_nat k \<and> m i = None \<and> (\<forall>j < k. m (c + 1 + of_nat j) \<noteq> None)"
  proof (rule next_id.raw_induct [rotated])
    fix f :: "(u32 \<Rightarrow> nat option) \<Rightarrow> u32 \<Rightarrow> u32 option" and m :: "u32 \<Rightarrow> nat option" and c i
    assume IH: "\<And>m c i. f m c = Some i \<Longrightarrow>
        \<exists>k. i = c + 1 + of_nat k \<and> m i = None \<and> (\<forall>j < k. m (c + 1 + of_nat j) \<noteq> None)"
      and r: "(if m (c + 1) = None then Some (c + 1) else f m (c + 1)) = Some i"
    show "\<exists>k. i = c + 1 + of_nat k \<and> m i = None \<and> (\<forall>j < k. m (c + 1 + of_nat j) \<noteq> None)"
    proof (cases "m (c + 1) = None")
      case True
      then show ?thesis using r by (intro exI [of _ 0]) simp
    next
      case False
      with r IH [of m "c + 1" i] obtain k where k: "i = c + 1 + 1 + of_nat k" "m i = None"
        "\<forall>j < k. m (c + 1 + 1 + of_nat j) \<noteq> None" by auto
      have "m (c + 1 + of_nat j) \<noteq> None" if "j < Suc k" for j
        using that k(3) False by (cases j) (simp_all only: shift, auto)
      then show ?thesis using k(1,2) by (intro exI [of _ "Suc k"]) (simp add: shift del: of_nat_Suc)
    qed
  qed
next
  assume "\<exists>k. i = c + 1 + of_nat k \<and> m i = None \<and> (\<forall>j < k. m (c + 1 + of_nat j) \<noteq> None)"
  then obtain k where "i = c + 1 + of_nat k" "m i = None" "\<forall>j < k. m (c + 1 + of_nat j) \<noteq> None" by blast
  then show "next_id m c = Some i"
  proof (induction k arbitrary: c)
    case 0
    then show ?case by (simp add: next_id.simps [of m c])
  next
    case (Suc k)
    have "m (c + 1) \<noteq> None" using Suc.prems(3) [rule_format, of 0] by simp
    moreover have "next_id m (c + 1) = Some i"
    proof (rule Suc.IH)
      show "i = c + 1 + 1 + of_nat k" using Suc.prems(1) by (simp only: shift)
      show "m i = None" by (rule Suc.prems(2))
      show "\<forall>j < k. m (c + 1 + 1 + of_nat j) \<noteq> None"
        unfolding shift [symmetric] using Suc.prems(3) by blast
    qed
    ultimately show ?case by (subst next_id.simps) auto
  qed
qed

text \<open>
  C28: \<open>mwChannel_newOutgoing\<close> returns exactly when some id is free (otherwise its loop never
  ends); the new channel then has the first id after the counter, counting modulo 2^32, that
  no channel has, and is filed under it.
\<close>

theorem new_channel_id:
  "case mwChannel_newOutgoing s of
     None \<Rightarrow> \<forall>i. se_map s i \<noteq> None
   | Some (p, t) \<Rightarrow>
       \<exists>k i. i = se_counter s + 1 + of_nat k \<and> se_map s i = None \<and>
         (\<forall>j < k. se_map s (se_counter s + 1 + of_nat j) \<noteq> None) \<and>
         se_map t = (se_map s)(i \<mapsto> p) \<and> se_counter t = i \<and>
         se_heap t = (se_heap s)(p \<mapsto> (new_channel i)\<lparr>ch_state := mwChannel_INIT\<rparr>)"
proof (cases "next_id (se_map s) (se_counter s)")
  case None
  then show ?thesis using next_id_total [of "se_map s" _ "se_counter s"]
    by (auto simp: mwChannel_newOutgoing_def)
next
  case (Some i)
  note i = next_id_first [of "se_map s" "se_counter s" i, THEN iffD1, OF Some]
  then have "se_map s i = None" by blast
  then have "mwChannel_newOutgoing s = Some (se_next s,
      s\<lparr>se_counter := i, se_next := se_next s + 1,
        se_heap := (se_heap s)(se_next s \<mapsto> (new_channel i)\<lparr>ch_state := mwChannel_INIT\<rparr>),
        se_map := (se_map s)(i \<mapsto> se_next s)\<rparr>)"
    by (simp add: mwChannel_newOutgoing_def Some mwChannel_newIncoming_def Let_def channel_state_def
        put_chan_def)
  then show ?thesis using i by auto
qed

theorem new_channel_id_witness:
  "\<exists>p t. mwChannel_newOutgoing (mwSession_new []) = Some (p, t) \<and>
     (\<exists>k i. i = 0 + 1 + of_nat k \<and> se_map (mwSession_new []) i = None \<and>
        (\<forall>j < k. se_map (mwSession_new []) (0 + 1 + of_nat j) \<noteq> None) \<and>
        se_map t = (se_map (mwSession_new []))(i \<mapsto> p) \<and> se_counter t = i \<and>
        se_heap t = (se_heap (mwSession_new []))(p \<mapsto> (new_channel i)\<lparr>ch_state := mwChannel_INIT\<rparr>))"
proof -
  have new: "se_map (mwSession_new []) i = None" "se_counter (mwSession_new []) = 0" for i
    by (simp_all add: mwSession_new_def session_defaults_def property_set_def Let_def)
  show ?thesis
    using new_channel_id [of "mwSession_new []"] unfolding new(2)
    by (cases "mwChannel_newOutgoing (mwSession_new [])") (auto simp: new(1))
qed

section \<open>The queue of a channel\<close>

text \<open>
  C37: what a client sends on a channel that is not open yet is written, once the channel opens,
  complete and in order; but it is written as it was given to \<open>mwChannel_send\<close>, in plain text,
  also when the two sides have agreed on a cipher in between.
\<close>

theorem queued_in_plain:
  assumes "se_heap s p = Some c" and "ch_state c \<noteq> mwChannel_OPEN" and "ch_cipher c = None"
    and "ch_outgoing_queue c = []" and "ch_incoming_queue c = []" and "ch_supported c = Some tab"
  shows "\<exists>t u v. sends E s p xs = Some t \<and>
    mwChannel_selectCipherInstance t p (Some ci) = Some u \<and>
    map_option ch_cipher (se_heap u p) = Some (Some ci) \<and>
    channel_open E u p = Some v \<and>
    se_out v = se_out s @ map (\<lambda>x. send_bytes (send_message (plain_send (ch_id c) x))) xs \<and>
    map_option ch_outgoing_queue (se_heap v p) = Some []"
proof -
  let ?c = "c\<lparr>ch_outgoing_queue := map (plain_send (ch_id c)) xs\<rparr>"
  have t: "sends E s p xs = Some (put_chan s p ?c)"
    using sends_queue [OF assms(1-3), of E xs] assms(4) by simp
  obtain d where u: "mwChannel_selectCipherInstance (put_chan s p ?c) p (Some ci) = Some (put_chan (put_chan s p ?c) p d)"
    and d: "ch_cipher d = Some ci" "ch_incoming_queue d = []" "ch_outgoing_queue d = map (plain_send (ch_id c)) xs"
    using assms(5,6) by (auto simp: mwChannel_selectCipherInstance_def put_chan_def)
  let ?u = "put_chan (put_chan s p ?c) p d"
  have out: "se_out ?u = se_out s" by (simp add: put_chan_def)
  from channel_open_eq [of ?u p d E] d(2) obtain v where v: "channel_open E ?u p = Some v"
    "se_out v = se_out ?u @ map (send_bytes \<circ> send_message) (ch_outgoing_queue d)"
    "se_heap v p = Some (d\<lparr>ch_state := mwChannel_OPEN, ch_opened_at := Some (en_time E), ch_outgoing_queue := []\<rparr>)"
    by auto
  show ?thesis
    by (intro exI [of _ "put_chan s p ?c"] exI [of _ ?u] exI [of _ v])
      (simp add: t u v out d comp_def)
qed

text \<open>A session with one channel that waits for the other side to accept it.\<close>

definition waiting_channel :: mwChannel where
  "waiting_channel = (new_channel 1)\<lparr>ch_service := 0x11\<rparr>"

definition waiting_session :: mwSession where
  "waiting_session = (mwSession_new [])\<lparr>se_heap := [0 \<mapsto> waiting_channel], se_next := 1,
     se_map := [1 \<mapsto> 0], se_counter := 1\<rparr>"

definition chosen_cipher :: instance_ref where
  "chosen_cipher = (mwCipher_new_RC2_40,
     I40 \<lparr>i40_incoming_key = replicate 64 0, i40_outgoing_iv = mwIV_init, i40_incoming_iv = mwIV_init\<rparr>)"

theorem queued_in_plain_witness:
  "\<exists>t u v. sends quiet_env waiting_session 0 [(7, [1, 2, 3])] = Some t \<and>
    mwChannel_selectCipherInstance t 0 (Some chosen_cipher) = Some u \<and>
    map_option ch_cipher (se_heap u 0) = Some (Some chosen_cipher) \<and>
    channel_open quiet_env u 0 = Some v \<and>
    se_out v = se_out waiting_session @
      map (\<lambda>x. send_bytes (send_message (plain_send (ch_id waiting_channel) x))) [(7, [1, 2, 3])] \<and>
    map_option ch_outgoing_queue (se_heap v 0) = Some []"
  by (rule queued_in_plain) (simp_all add: waiting_session_def waiting_channel_def new_channel_def)

section \<open>Creating a channel twice\<close>

text \<open>
  a message of the server that creates a channel with an id in use frees the channel that
  had the id, whatever the handlers do; its service is not asked, and every pointer it keeps to
  the channel dangles for good.
\<close>

theorem create_replaces:
  assumes "library_client E" and "heap_ok s" and "se_map s (cc_channel m) = Some q"
    and "process_message E s \<lparr>msg_head = h, msg_body = ChannelCreate m\<rparr> = Some t"
  shows "se_heap t q = None"
proof -
  obtain p u where u: "mwChannel_newIncoming s (cc_channel m) = Some (p, u)"
    and r: "mwChannel_recvCreate E u p m = Some t"
    using assms(4) by (auto simp: process_message_def CHANNEL_CREATE_recv_def split: bind_splits)
  note n = newIncoming_ok [OF assms(2) u]
  obtain c where q: "se_heap s q = Some c" using assms(2,3) unfolding heap_ok_def by blast
  then have "q < se_next s" using assms(2) by (auto simp: heap_ok_def)
  then have "se_heap u q = None" "q < se_next u"
    using n(2,3,5) assms(3) by (auto simp: evolves_def)
  moreover have "keeps grows u (mwChannel_recvCreate E u p m)"
    by (rule session_relation.axioms(1) [OF client_relation [OF assms(1)], THEN
        channel_relation.mwChannel_recvCreate_keeps])
  then have "evolves u t" using r n(1) by (simp add: keeps_def grows_def)
  ultimately show ?thesis unfolding evolves_def by (cases "se_heap t q") auto
qed

definition create_again :: mwMsgChannelCreate where
  "create_again = cc_zero\<lparr>cc_channel := 1\<rparr>"

theorem create_replaces_witness:
  "se_heap (the (process_message quiet_env waiting_session
     \<lparr>msg_head = mwMessageHead_zero, msg_body = ChannelCreate create_again\<rparr>)) 0 = None"
proof (rule create_replaces)
  show "library_client quiet_env"
    by unfold_locales (simp add: quiet_env_def grow.keeps_Some)
  show "heap_ok waiting_session"
    by (simp add: heap_ok_def waiting_session_def waiting_channel_def new_channel_def)
  show "se_map waiting_session (cc_channel create_again) = Some 0"
    by (simp add: waiting_session_def create_again_def)
  show "process_message quiet_env waiting_session \<lparr>msg_head = mwMessageHead_zero, msg_body = ChannelCreate create_again\<rparr> =
    Some (the (process_message quiet_env waiting_session \<lparr>msg_head = mwMessageHead_zero, msg_body = ChannelCreate create_again\<rparr>))"
    by (simp add: process_message_def CHANNEL_CREATE_recv_def newIncoming_eq map_remove_def channel_free_def
        waiting_session_def create_again_def mwChannel_recvCreate_def new_channel_def mwChannel_idIsOutgoing_def
        mwChannel_destroy_def channel_state_def put_chan_def mwSession_send_def new_msg_def on_channel_def
        cc_zero_def split: prod.split)
qed

section \<open>Services that close a channel when it is accepted\<close>

lemma destroy_frees:
  assumes "se_heap s p = Some c" and "se_map s (ch_id c) = Some p"
    and "mwChannel_destroy E s p reason info = Some (ret, t)"
  shows "se_heap t p = None"
  using assms
  by (auto simp: mwChannel_destroy_def channel_state_def put_chan_def map_remove_def channel_free_def
      mwSession_send_def new_msg_def on_channel_def io_write_def split: prod.splits list.splits if_splits)

text \<open>
  a service that destroys a channel in its \<open>recv_accept\<close> (several of the services of the
  library do) takes it away under \<open>mwChannel_recvAccept\<close>, which then reads the freed channel.
\<close>

theorem recvAccept_after_free:
  assumes "heap_ok s" and "se_map s (mh_channel head) = Some p" and "se_heap s p = Some c"
    and "mwChannel_idIsOutgoing (ch_id c)" and "ch_state c = mwChannel_WAIT"
    and "mwSession_getService s (ch_service c) = Some t" and "se_srv s t = Some v" and "sv_recv_accept v"
    and "ea_mode (ca_encrypt m) = 0" and "ch_supported c = Some tab"
    and "\<And>u. script (Srvc_recv_accept t p m) u = [Call_destroy p reason info]"
  shows "process_message (client_env E script (Suc n)) s
    \<lparr>msg_head = head, msg_body = ChannelAccept m\<rparr> = None"
proof -
  let ?E = "client_env E script (Suc n)" and ?id = "ch_id c"
  have id: "mh_channel head = ?id" using assms(1-3) by (force simp: heap_ok_def)
  have cb: "en_cb ?E (Srvc_recv_accept t p m) u = map_option snd (mwChannel_destroy (client_env E script n) u p reason info)" for u
    by (cases "mwChannel_destroy (client_env E script n) u p reason info") (simp_all add: assms(11))
  have gone: "Option.bind (mwService_recvAccept ?E u t p m) (\<lambda>u. Option.bind (se_heap u p) (f u)) = None"
    if "se_heap u p \<noteq> None" "ch_id (the (se_heap u p)) = ?id" "se_map u ?id = Some p" "se_srv u t = Some v" for u f
  proof -
    have d: "se_heap u p = Some (the (se_heap u p))" "se_map u (ch_id (the (se_heap u p))) = Some p"
      using that by simp_all
    show ?thesis using that(4) assms(8)
      by (auto simp: mwService_recvAccept_def cb simp del: client_env.simps split: bind_splits
          dest!: destroy_frees [OF d])
  qed
  have t: "t = ch_service c" using assms(6) by (simp add: mwSession_getService_def split: if_splits)
  show ?thesis
    using assms id
    by (auto simp: process_message_def CHANNEL_ACCEPT_recv_def mwChannel_find_def mwChannel_recvAccept_def
        mwChannel_idIsIncoming_def mwChannel_getService_def mwSession_getService_def Let_def
        mwChannel_selectCipherInstance_def channel_state_def gone [unfolded t] put_chan_def simp del: client_env.simps)
qed

definition closing_service :: mwService where
  "closing_service = \<lparr>sv_state = mwServiceState_STARTED, sv_start = False, sv_stop = False, sv_clear = False,
     sv_recv_create = True, sv_recv_accept = True, sv_recv_destroy = True, sv_recv = True,
     sv_client_data = 0, sv_client_cleanup = False\<rparr>"

fun close_on_accept :: "callback \<Rightarrow> mwSession \<Rightarrow> client_call list" where
  "close_on_accept (Srvc_recv_accept t p m) s = [Call_destroy p ERR_FAILURE []]"
| "close_on_accept _ s = []"

theorem recvAccept_after_free_witness:
  "process_message (client_env quiet_env close_on_accept (Suc 0))
     (waiting_session\<lparr>se_services := [0x11], se_srv := [0x11 \<mapsto> closing_service]\<rparr>)
     \<lparr>msg_head = mwMessageHead_zero\<lparr>mh_channel := 1\<rparr>, msg_body = ChannelAccept ca_zero\<rparr> = None"
  by (rule recvAccept_after_free [where p = 0 and c = waiting_channel and t = "0x11" and v = closing_service
        and reason = ERR_FAILURE and info = "[]" and tab = "[]"])
    (simp_all add: heap_ok_def waiting_session_def waiting_channel_def new_channel_def
      mwChannel_idIsOutgoing_def mwSession_getService_def closing_service_def ca_zero_def ea_zero_def)

section \<open>The login\<close>

text \<open>
  C20: with handlers that leave the state of the session alone, every message moves the session
  along the login sequence, and nothing else does: a handshake is acknowledged and answered by
  the login, the login is acknowledged and starts the session, and other messages leave the
  state as it is.  A redirect alone is followed in every state.
\<close>

theorem login_machine:
  assumes "leaves_state E" and "process_message E s msg = Some t"
  shows "login_step (se_state s) (mh_channel (msg_head msg)) (msg_body msg) (se_state t)"
  using assms by (rule process_message_step)

theorem login_machine_witness:
  "login_step mwSession_STOPPED 0 (LoginRedirect lr_zero) mwSession_LOGIN_REDIR"
  using login_machine [of quiet_env "mwSession_new []" "\<lparr>msg_head = mwMessageHead_zero, msg_body = LoginRedirect lr_zero\<rparr>"]
  by (simp add: leaves_state_def quiet_env_def same.keeps_Some process_message_def LOGIN_REDIRECT_recv_def
      session_state_def mwSession_new_def session_defaults_def property_set_def mwMessageHead_zero_def)

text \<open>The type of the message a payload holds.\<close>

definition payload_type :: "mwEnv \<Rightarrow> bytes \<Rightarrow> u16 option" where
  "payload_type E b = map_option (\<lambda>m. body_type (msg_body m)) (read_message (en_head E) (en_junk E) b)"

lemma free_host_state: "se_state (free_host s) = se_state s"
  by simp

subsection \<open>Both acknowledgements\<close>

text \<open>
  What a client can call may take the session out of the states after the handshake, start it
  again or continue a redirected login (\<open>mwSession_forceLogin\<close>), but it never takes it into
  one of these states: only messages from the server do.
\<close>

definition logged_on :: "mwSession \<Rightarrow> bool" where
  "logged_on s \<longleftrightarrow> se_state s \<in> {mwSession_LOGIN, mwSession_LOGIN_ACK, mwSession_STARTED}"

definition logs_nobody_on :: "mwSession \<Rightarrow> mwSession \<Rightarrow> bool" where
  "logs_nobody_on s t \<longleftrightarrow> (logged_on t \<longrightarrow> se_state t = se_state s)"

lemma logs_nobody_on_same: "se_state t = se_state s \<Longrightarrow> logs_nobody_on s t"
  by (simp add: logs_nobody_on_def)

locale login_callers = channel_relation logs_nobody_on E for E
begin

lemma off_keeps: "\<not> logged_on t \<Longrightarrow> logs_nobody_on s t"
  by (auto simp: logs_nobody_on_def)

lemma state_keeps [THEN keeps_later(1), lib_steps]:
  "\<not> logged_on (s\<lparr>se_state := st\<rparr>) \<Longrightarrow> keeps logs_nobody_on s (session_state E s st info)"
  unfolding session_state_def by (auto intro!: lib_steps off_keeps simp: logged_on_def)

lemma off_states [simp]:
  "st \<notin> {mwSession_LOGIN, mwSession_LOGIN_ACK, mwSession_STARTED} \<Longrightarrow> \<not> logged_on (s\<lparr>se_state := st\<rparr>)"
  by (simp add: logged_on_def)

lemma same_state: "logs_nobody_on s t \<Longrightarrow> se_state u = se_state t \<Longrightarrow> logs_nobody_on s u"
  by (simp add: logs_nobody_on_def logged_on_def)

lemma closed_keeps [simp]:
  "logs_nobody_on s t \<Longrightarrow> logs_nobody_on s (io_close (t\<lparr>se_in := b\<rparr>))"
  "logs_nobody_on s (snd (io_write s d))"
  by (rule same_state, assumption, simp) (rule R_io_write)

lemma stop_keeps [THEN keeps_later(1), lib_steps]: "keeps logs_nobody_on s (mwSession_stop E s reason)"
  unfolding mwSession_stop_def Let_def by (auto intro!: keeps_bind keeps_bind_with lib_steps)

lemma start_keeps [lib_steps]: "keeps logs_nobody_on s (mwSession_start E s)"
  unfolding mwSession_start_def by (auto intro!: keeps_bind keeps_bind_with lib_steps)

lemma forceLogin_keeps [lib_steps]: "keeps_with logs_nobody_on s (mwSession_forceLogin E s)"
  unfolding mwSession_forceLogin_def by (auto intro!: keeps_bind(2) lib_steps)

lemma do_call_keeps: "keeps logs_nobody_on s (do_call E c s)"
proof -
  have sends: "keeps logs_nobody_on s (map_option snd (mwSession_setPrivacyInfo E s pv))"
    "keeps logs_nobody_on s (map_option snd (mwSession_setUserStatus E s us))"
    "keeps logs_nobody_on s (map_option snd (mwSession_sendAnnounce E s b x rs))"
    "keeps logs_nobody_on s (mwSession_senseService E s t)"
    "keeps logs_nobody_on s (Some (snd (mwSession_sendKeepalive s)))" for pv us b x rs t
    unfolding mwSession_setPrivacyInfo_def mwSession_setUserStatus_def mwSession_sendKeepalive_def
      mwSession_sendAnnounce_def mwSession_senseService_def
    by (auto intro!: lib_steps intro: same_state)
  have datum: "keeps_with logs_nobody_on t (mw_datum_clear E t d)" for t d
    unfolding mw_datum_clear_def by (auto intro!: keeps_bind(2) lib_steps)
  have data: "keeps logs_nobody_on s (mwSession_removeClientData E s)"
    "keeps logs_nobody_on s (mwChannel_removeServiceData E s p)" for p
    unfolding mwSession_removeClientData_def mwChannel_removeServiceData_def
    by (auto intro!: keeps_bind_with(1) lib_steps datum intro: same_state)
  have sense: "keeps logs_nobody_on t (mwSession_senseService E t x)" for t x
    unfolding mwSession_senseService_def by (auto intro!: lib_steps)
  have simple: "keeps logs_nobody_on s (map_option snd (mwSession_addService E s t v))"
    "keeps logs_nobody_on s (Some (snd (mwSession_removeService s t)))"
    "keeps logs_nobody_on s (Some (snd (mwSession_addCipher s ci)))"
    "keeps logs_nobody_on s (Some (snd (mwSession_removeCipher s i)))"
    "keeps logs_nobody_on s (Some (mwSession_setClientData s d b))"
    "keeps logs_nobody_on s (Some (property_set s k a))" "keeps logs_nobody_on s (Some (property_del s k))"
    for t v ci i d b k a
    by (auto intro!: keeps_bind(2) lib_steps keeps_later(1) [OF sense] logs_nobody_on_same
        simp: mwSession_removeService_def mwSession_addService_def mwSession_addCipher_def
        mwSession_removeCipher_def mwSession_setClientData_def put_service_def Let_def)
  show ?thesis by (cases c) (auto intro!: lib_steps sends data simple)
qed

lemma do_calls_keeps: "keeps logs_nobody_on s (do_calls E cs s)"
proof (induction cs arbitrary: s)
  case (Cons c cs)
  show ?case
    unfolding do_calls.simps
    by (rule keeps_bind(1) [OF do_call_keeps]) (rule keeps_later(1) [OF Cons.IH])
qed (simp add: keeps_Some)

end

lemma login_relation:
  assumes "\<And>call s. keeps logs_nobody_on s (en_cb E call s)"
  shows "login_callers E"
proof (unfold_locales, goal_cases)
  case (2 s t u)
  then show ?case by (auto simp: logs_nobody_on_def logged_on_def)
next
  case (5 s chan)
  show ?case using map_remove_state [of s chan] by (auto simp: keeps_def same_def intro: logs_nobody_on_same)
next
  case (6 s chan)
  show ?case using map_remove_state [of s chan]
    by (auto simp: newIncoming_eq keeps_with_def keeps_def same_def intro!: logs_nobody_on_same)
qed (auto simp: assms intro: logs_nobody_on_same)

lemma client_logs_in: "login_callers (client_env E script n)"
proof (induction n)
  case 0
  show ?case by (rule login_relation) (simp add: keeps_def logs_nobody_on_def)
next
  case (Suc n)
  show ?case by (rule login_relation) (simp add: login_callers.do_calls_keeps [OF Suc.IH])
qed

interpretation client_login: login_callers "client_env E script n"
  by (rule client_logs_in)

text \<open>So a message changes the state to one of them only by the two acknowledgements.\<close>

context login_callers begin

lemma state_after: "session_state E s st info = Some t \<Longrightarrow> logged_on t \<Longrightarrow> se_state t = st"
  using R_cb [of "s\<lparr>se_state := st, se_state_info := info\<rparr>" "On_stateChange st info"]
  by (auto simp: session_state_def keeps_def logs_nobody_on_def split: if_splits)

lemma ack_logs_on:
  assumes "HANDSHAKE_ACK_recv E s m = Some t" and "logged_on t"
  shows "se_state t = se_state s \<or> se_state t = mwSession_LOGIN"
proof -
  consider "se_state s \<noteq> mwSession_HANDSHAKE" "se_state s \<noteq> mwSession_LOGIN_CONT"
    | "se_state s = mwSession_LOGIN_CONT" | (ack) "se_state s = mwSession_HANDSHAKE" by blast
  then show ?thesis
  proof cases
    case ack
    obtain u where u: "session_state E s mwSession_HANDSHAKE_ACK Info_null = Some u"
      using assms(1) ack by (cases "session_state E s mwSession_HANDSHAKE_ACK Info_null")
        (simp_all add: HANDSHAKE_ACK_recv_def)
    let ?p = "property_set (property_set u mwSession_SERVER_VER_MAJOR (Attr_num (ucast (ha_major m))))
        mwSession_SERVER_VER_MINOR (Attr_num (ucast (ha_minor m)))"
    let ?v = "?p\<lparr>se_rand := se_rand ?p + 1\<rparr>"
    obtain ty d where a: "compose_auth E ?p m = Some (ty, d)"
      using assms(1) ack u by (cases "compose_auth E ?p m") (auto simp: HANDSHAKE_ACK_recv_def Let_def)
    obtain log r w where w: "mwSession_send E ?v (new_msg (Login log)) = Some (r, w)"
      and t: "(if r = 0 then session_state E w mwSession_LOGIN Info_null else Some w) = Some t"
      using assms(1) by (simp add: HANDSHAKE_ACK_recv_def ack u Let_def a split: bind_splits prod.splits)
    have "keeps logs_nobody_on s (session_state E s mwSession_HANDSHAKE_ACK Info_null)"
      by (auto intro!: lib_steps)
    then have "logs_nobody_on s u" using u by (simp add: keeps_def)
    then have "logs_nobody_on s ?v" by (rule same_state) simp
    from send_keeps [OF this] w have "logs_nobody_on s w" by (force simp: keeps_with_def)
    then show ?thesis
      using t assms(2) state_after [of w mwSession_LOGIN Info_null t]
      by (cases "r = 0") (auto simp: logs_nobody_on_def)
  qed (use assms state_after [OF _ assms(2)] in \<open>auto simp: HANDSHAKE_ACK_recv_def split: bind_splits\<close>)
qed

lemma login_logs_on:
  assumes "LOGIN_ACK_recv E s m = Some t" and "logged_on t"
  shows "se_state t = se_state s \<or> se_state t = mwSession_STARTED \<and> se_state s = mwSession_LOGIN"
  using assms state_after [OF _ assms(2)]
  by (auto simp: LOGIN_ACK_recv_def Let_def split: if_splits bind_splits)

lemma other_messages:
  assumes "\<And>m. msg_body msg \<noteq> HandshakeAck m" and "\<And>m. msg_body msg \<noteq> LoginAck m"
  shows "keeps logs_nobody_on s (process_message E s msg)"
proof -
  have redirect: "keeps logs_nobody_on s (LOGIN_REDIRECT_recv E s m)" for m
    unfolding LOGIN_REDIRECT_recv_def by (auto intro!: lib_steps)
  have privacy: "keeps logs_nobody_on s (SET_PRIVACY_LIST_recv E s m)" for m
    unfolding SET_PRIVACY_LIST_recv_def by (auto intro!: lib_steps R_frame)
  have more: "keeps logs_nobody_on s (CHANNEL_CREATE_recv E s mc)"
    "keeps logs_nobody_on s (CHANNEL_ACCEPT_recv E s h ma)" "keeps logs_nobody_on s (CHANNEL_DESTROY_recv E s h md)"
    "keeps logs_nobody_on s (CHANNEL_SEND_recv E s h ms)" "keeps logs_nobody_on s (SENSE_SERVICE_recv E s x)"
    "keeps logs_nobody_on s (ADMIN_recv E s y)" "keeps logs_nobody_on s (ANNOUNCE_recv E s z)"
    for mc ma md ms h x y z
    unfolding CHANNEL_CREATE_recv_def CHANNEL_ACCEPT_recv_def CHANNEL_DESTROY_recv_def CHANNEL_SEND_recv_def
      SENSE_SERVICE_recv_def ADMIN_recv_def ANNOUNCE_recv_def
    by (auto intro!: keeps_bind keeps_bind_with lib_steps split: option.split)
  show ?thesis
    using assms by (cases "msg_body msg")
      (auto simp: process_message_def intro!: redirect privacy more lib_steps)
qed

lemma message_logs_on:
  assumes "process_message E s msg = Some t" and "logged_on t"
  shows "se_state t = se_state s \<or> se_state t = mwSession_LOGIN \<and> body_type (msg_body msg) = 0x8000 \<or>
    se_state t = mwSession_STARTED \<and> se_state s = mwSession_LOGIN \<and> body_type (msg_body msg) = 0x8001"
proof -
  consider (ack) m where "msg_body msg = HandshakeAck m" | (login) m where "msg_body msg = LoginAck m"
    | (other) "\<And>m. msg_body msg \<noteq> HandshakeAck m" "\<And>m. msg_body msg \<noteq> LoginAck m" by blast
  then show ?thesis
  proof cases
    case ack
    then show ?thesis using assms ack_logs_on [of s m t] by (simp add: process_message_def)
  next
    case login
    then show ?thesis using assms login_logs_on [of s m t] by (simp add: process_message_def)
  next
    case other
    from other_messages [OF other, of s] show ?thesis
      using assms by (simp add: keeps_def logs_nobody_on_def)
  qed
qed

lemma process_logs_on:
  assumes "session_process E s b = Some t" and "logged_on t"
  shows "se_state t = se_state s \<or> se_state t = mwSession_LOGIN \<and> payload_type E b = Some 0x8000 \<or>
    se_state t = mwSession_STARTED \<and> se_state s = mwSession_LOGIN \<and> payload_type E b = Some 0x8001"
proof (cases "b = [] \<or> read_message (en_head E) (en_junk E) b = None")
  case True
  then show ?thesis using assms(1) by (auto simp: session_process_def read_message_def split: option.splits)
next
  case False
  then obtain msg u where m: "read_message (en_head E) (en_junk E) b = Some msg"
    and u: "process_message E s msg = Some u" "t = free_host u"
    using assms(1) by (auto simp: session_process_def read_message_def)
  have "logged_on u" using assms(2) u(2) by (simp add: logged_on_def)
  from message_logs_on [OF u(1) this] show ?thesis by (simp add: payload_type_def m u(2))
qed

lemma process_all_logs_on:
  assumes "process_all E s ms = Some t" and "se_state t = mwSession_STARTED"
  shows "(\<not> logged_on s \<longrightarrow> (\<exists>xs a ys l zs. ms = xs @ a # ys @ l # zs \<and>
      payload_type E a = Some 0x8000 \<and> payload_type E l = Some 0x8001)) \<and>
    (se_state s = mwSession_LOGIN \<longrightarrow> (\<exists>xs l zs. ms = xs @ l # zs \<and> payload_type E l = Some 0x8001))"
  using assms(1)
proof (induction ms arbitrary: s)
  case Nil
  then show ?case using assms(2) by (auto simp: logged_on_def)
next
  case (Cons b ms)
  then obtain u where u: "session_process E s b = Some u" "process_all E u ms = Some t"
    by (auto split: bind_splits)
  note ih = Cons.IH [OF u(2)]
  have later: "\<exists>xs a ys l zs. b # ms = xs @ a # ys @ l # zs \<and> payload_type E a = Some 0x8000 \<and>
      payload_type E l = Some 0x8001" if "\<not> logged_on u"
    using ih that by (metis append_Cons)
  then have login: "\<exists>xs l zs. b # ms = xs @ l # zs \<and> payload_type E l = Some 0x8001" if "\<not> logged_on u"
    using that by (metis append_Cons append_assoc)
  show ?case
  proof (cases "logged_on u")
    case False
    then show ?thesis using later login by blast
  next
    case True
    note step = process_logs_on [OF u(1) True]
    show ?thesis
    proof (intro conjI impI)
      assume "\<not> logged_on s"
      then have "se_state u = mwSession_LOGIN" "payload_type E b = Some 0x8000"
        using step True by (auto simp: logged_on_def)
      then show "\<exists>xs a ys l zs. b # ms = xs @ a # ys @ l # zs \<and> payload_type E a = Some 0x8000 \<and>
          payload_type E l = Some 0x8001" using ih by (metis append_Nil)
    next
      assume "se_state s = mwSession_LOGIN"
      then consider "se_state u = mwSession_LOGIN" | "payload_type E b = Some 0x8001" using step by auto
      then show "\<exists>xs l zs. b # ms = xs @ l # zs \<and> payload_type E l = Some 0x8001"
        using ih by cases (metis append_Cons, metis append_Nil)
    qed
  qed
qed

end

text \<open>
  C27: a session is started by input from the server only if that contains a handshake
  acknowledgement and, later, a login acknowledgement, unless it had its login acknowledged
  or was waiting for that already.  This holds for every client: its handlers may call any
  function of the library, as Miranda's, which continue a redirected login, do.
\<close>

theorem started_after_both_acks:
  assumes "process_all (client_env E script n) s ms = Some t" and "se_state t = mwSession_STARTED"
    and "se_state s \<notin> {mwSession_LOGIN, mwSession_LOGIN_ACK, mwSession_STARTED}"
  shows "\<exists>xs a ys l zs. ms = xs @ a # ys @ l # zs \<and>
    payload_type (client_env E script n) a = Some 0x8000 \<and>
    payload_type (client_env E script n) l = Some 0x8001"
  using client_login.process_all_logs_on [OF assms(1,2)] assms(3) by (simp add: logged_on_def)

subsection \<open>The login ends\<close>

text \<open>
  What a login expects of the handlers it calls, those of the changes of state up to
  \<open>mwSession_STARTED\<close> and those that start a service: that they return, let the session go on
  (\<open>undisturbed\<close>), break no connection, and that the handler of a service changes no other
  service.  They may write and use channels, and a start handler may declare its service
  started, at once (\<open>declares_started\<close>) or later.
\<close>

definition undisturbed :: "mwSession \<Rightarrow> mwSession \<Rightarrow> bool" where
  "undisturbed s t \<longleftrightarrow>
     se_login t = se_login s \<and> se_attributes t = se_attributes s \<and> se_services t = se_services s \<and>
     (se_io s = [] \<longrightarrow> se_io t = []) \<and> (\<exists>b. se_out t = se_out s @ b)"






lemma undisturbed_frame:
  "se_login t = se_login s \<Longrightarrow> se_attributes t = se_attributes s \<Longrightarrow> se_services t = se_services s \<Longrightarrow>
   se_io t = se_io s \<Longrightarrow> se_out t = se_out s \<Longrightarrow> undisturbed s t"
  by (simp add: undisturbed_def)












lemma free_host_same [simp]:
  "se_services (free_host s) = se_services s" "se_srv (free_host s) = se_srv s"
  "se_login (free_host s) = se_login s" "se_out (free_host s) = se_out s"
  by (auto simp: free_host_def split: state_info.split option.split)



text \<open>A server that acknowledges everything, and a client with a password and a service.\<close>

definition ack_payload :: "mwMessage" where
  "ack_payload = \<lparr>msg_head = mwMessageHead_zero\<lparr>mh_type := 0x8000\<rparr>, msg_body = HandshakeAck ha_zero\<rparr>"

definition login_payload :: "mwMessage" where
  "login_payload = \<lparr>msg_head = mwMessageHead_zero\<lparr>mh_type := 0x8001\<rparr>, msg_body = LoginAck la_zero\<rparr>"


lemma read_enc:
  assumes "msg_fits msg"
  shows "read_message head0 junk (enc_msg 0 msg) = Some (msg_res msg)"
proof -
  have "feeds (mwGetBuffer_wrap (Some (enc_msg 0 msg))) (enc_msg 0 msg @ []) []"
    using feeds_wrap [of "enc_msg 0 msg" "[]"] by simp
  from mwMessage_get_fed [OF this assms, of head0 junk] show ?thesis by (simp add: read_message_def gives_def)
qed

lemma ack_payloads:
  shows acks_fit: "msg_fits ack_payload" "msg_fits login_payload"
    and acks_short: "length (enc_msg 0 ack_payload) < 2 ^ 31" "length (enc_msg 0 login_payload) < 2 ^ 31"
proof -
  note simps = ack_payload_def login_payload_def mwMessageHead_zero_def ha_zero_def la_zero_def
    mwLoginInfo_zero_def mwPrivacyInfo_zero_def mwUserStatus_zero_def
  show "msg_fits ack_payload" "msg_fits login_payload"
    by (simp_all add: simps msg_fits_def head_fits_def body_fits_def opaque_fits_def handshake_ack_fits_def
        la_fits_def login_fits_def privacy_fits_def status_fits_def str_fits_def str_chars_def)
  show "length (enc_msg 0 ack_payload) < 2 ^ 31" "length (enc_msg 0 login_payload) < 2 ^ 31"
    by (simp_all add: simps enc_msg_def enc_head_def enc_body_def enc_handshake_ack_def enc_la_def
        enc_login_def enc_privacy_def enc_status_def enc_str_def str_chars_def be16_def be32_def enc_bool_def
        has_attribs_def ha_more_def)
qed

lemma acks_read:
  "read_message head0 junk (enc_msg 0 ack_payload) = Some \<lparr>msg_head = head_res mwMessageHead_zero (msg_head ack_payload),
     msg_body = HandshakeAck (handshake_ack_res ha_zero ha_zero)\<rparr>"
  "read_message head0 junk (enc_msg 0 login_payload) = Some \<lparr>msg_head = head_res mwMessageHead_zero (msg_head login_payload),
     msg_body = LoginAck (la_res la_zero la_zero)\<rparr>"
  using read_enc [OF acks_fit(1)] read_enc [OF acks_fit(2)]
  by (simp_all add: msg_res_def ack_payload_def login_payload_def)

lemma payload_not_empty: "enc_msg u msg \<noteq> []"
  by (simp add: enc_msg_def enc_head_def be16_def)






section \<open>Input in chunks\<close>

text \<open>
  C21: how the network cuts the input into chunks makes no difference to the session: with
  handlers that do not feed it input themselves, the same bytes lead to the same session, or
  to undefined behaviour, and leave the same bytes waiting for the rest of their message.
\<close>

theorem session_chunks:
  assumes "leaves_input E" and "ib_wf (se_in s)" and "concat cs = concat ds"
  shows "map_option (\<lambda>u. (u\<lparr>se_in := inbuf_new\<rparr>, pending (se_in u))) (session_inputs E s cs) =
         map_option (\<lambda>u. (u\<lparr>se_in := inbuf_new\<rparr>, pending (se_in u))) (session_inputs E s ds)"
proof -
  have "fst (recv_chunks (se_in s) cs) = fst (recv_chunks (se_in s) ds)"
    "pending (snd (recv_chunks (se_in s) cs)) = pending (snd (recv_chunks (se_in s) ds))"
    using recv_chunks_frames [OF assms(2), of cs] recv_chunks_frames [OF assms(2), of ds] assms(3)
    by (metis prod.inject)+
  then show ?thesis
    unfolding session_inputs_eq [OF assms(1)]
    by (cases "recv_chunks (se_in s) cs"; cases "recv_chunks (se_in s) ds") (simp split: option.split)
qed

theorem session_chunks_witness:
  "map_option (\<lambda>u. (u\<lparr>se_in := inbuf_new\<rparr>, pending (se_in u)))
     (session_inputs quiet_env (mwSession_new []) [[0, 0], [0, 1, 7]]) =
   map_option (\<lambda>u. (u\<lparr>se_in := inbuf_new\<rparr>, pending (se_in u)))
     (session_inputs quiet_env (mwSession_new []) [[0, 0, 0, 1, 7]])"
  by (rule session_chunks)
    (simp_all add: leaves_input_def quiet_env_def mwSession_new_def session_defaults_def property_set_def Let_def)

section \<open>Redirects\<close>

text \<open>
  a redirect is followed in every state, also when the session has been stopped and its
  connection closed, as by an earlier message of the same chunk.  The session then counts as
  being started and cannot be started again, and its state info points to the host name of a
  message that has been freed.
\<close>

theorem redirect_revives:
  assumes "idle E" and "se_state s = mwSession_STOPPED" and "b \<noteq> []"
    and "read_message (en_head E) (en_junk E) b = Some \<lparr>msg_head = h, msg_body = LoginRedirect m\<rparr>"
    and "lr_host m = Some host"
  shows "\<exists>t. session_process E s b = Some t \<and> se_state t = mwSession_LOGIN_REDIR \<and>
    se_state_info t = Info_freed \<and> mwSession_start E t = Some t"
  using assms
  by (simp add: session_process_def read_message_def process_message_def LOGIN_REDIRECT_recv_def
      session_state_idle free_host_def mwSession_start_def)

definition redirect_payload :: "mwMessage" where
  "redirect_payload = \<lparr>msg_head = mwMessageHead_zero\<lparr>mh_type := 0x0018\<rparr>,
     msg_body = LoginRedirect (lr_zero\<lparr>lr_host := Some [0x68]\<rparr>)\<rparr>"

theorem redirect_revives_witness:
  "\<exists>t. session_process quiet_env (mwSession_new []) (enc_msg 0 redirect_payload) = Some t \<and>
    se_state t = mwSession_LOGIN_REDIR \<and> se_state_info t = Info_freed \<and> mwSession_start quiet_env t = Some t"
proof (rule redirect_revives)
  have "msg_fits redirect_payload"
    by (simp add: redirect_payload_def msg_fits_def head_fits_def body_fits_def opaque_fits_def lr_fits_def
        mwMessageHead_zero_def lr_zero_def str_fits_def str_chars_def c_str_def)
  from read_enc [OF this] show "read_message (en_head quiet_env) (en_junk quiet_env) (enc_msg 0 redirect_payload) =
      Some \<lparr>msg_head = head_res mwMessageHead_zero (msg_head redirect_payload),
        msg_body = LoginRedirect (lr_res lr_zero (lr_zero\<lparr>lr_host := Some [0x68]\<rparr>))\<rparr>"
    by (simp add: msg_res_def redirect_payload_def)
  show "lr_host (lr_res lr_zero (lr_zero\<lparr>lr_host := Some [0x68]\<rparr>)) = Some [0x68]"
    by (simp add: lr_res_def lr_zero_def str_norm_def str_chars_def c_str_def)
qed (simp_all add: idle_def quiet_env_def mwSession_new_def session_defaults_def property_set_def Let_def
    enc_msg_def enc_head_def be16_def)

text \<open>A client that follows a redirect as Miranda does, and a login through one.\<close>

fun force_login :: "callback \<Rightarrow> mwSession \<Rightarrow> client_call list" where
  "force_login (On_stateChange mwSession_LOGIN_REDIR info) s = [Call_forceLogin]"
| "force_login _ s = []"

lemma redirected_login:
  "\<exists>t. process_all (client_env quiet_env force_login 2) ((mwSession_new [])\<lparr>se_state := mwSession_HANDSHAKE\<rparr>)
     [enc_msg 0 redirect_payload, enc_msg 0 ack_payload, enc_msg 0 login_payload] = Some t \<and>
   se_state t = mwSession_STARTED"
proof -
  have r: "msg_fits redirect_payload"
    by (simp add: redirect_payload_def msg_fits_def head_fits_def body_fits_def opaque_fits_def lr_fits_def
        mwMessageHead_zero_def lr_zero_def str_fits_def str_chars_def c_str_def)
  have redirect: "read_message head0 junk (enc_msg 0 redirect_payload) =
      Some \<lparr>msg_head = head_res mwMessageHead_zero (msg_head redirect_payload),
        msg_body = LoginRedirect (lr_res lr_zero (lr_zero\<lparr>lr_host := Some [0x68]\<rparr>))\<rparr>" for head0 junk
    using read_enc [OF r] by (simp add: msg_res_def redirect_payload_def)
  have process: "session_process E s (enc_msg 0 m) =
      map_option free_host (process_message E s (the (read_message (en_head E) (en_junk E) (enc_msg 0 m))))"
    if "read_message (en_head E) (en_junk E) (enc_msg 0 m) = Some y" for E s m y
    using that payload_not_empty [of 0 m] by (simp add: session_process_def read_message_def)
  show ?thesis
    by (simp add: process [OF redirect] process [OF acks_read(1)] process [OF acks_read(2)] redirect acks_read
      process_message_def LOGIN_REDIRECT_recv_def HANDSHAKE_ACK_recv_def LOGIN_ACK_recv_def session_state_def
      numeral_2_eq_2 mwSession_forceLogin_def mwSession_send_def io_write_def new_msg_def free_host_def
      mwSession_new_def session_defaults_def property_set_def Let_def)
qed

theorem started_after_both_acks_witness:
  "\<exists>xs a ys l zs. [enc_msg 0 redirect_payload, enc_msg 0 ack_payload, enc_msg 0 login_payload] = xs @ a # ys @ l # zs \<and>
    payload_type (client_env quiet_env force_login 2) a = Some 0x8000 \<and>
    payload_type (client_env quiet_env force_login 2) l = Some 0x8001"
proof -
  obtain t where t: "process_all (client_env quiet_env force_login 2) ((mwSession_new [])\<lparr>se_state := mwSession_HANDSHAKE\<rparr>)
     [enc_msg 0 redirect_payload, enc_msg 0 ack_payload, enc_msg 0 login_payload] = Some t" "se_state t = mwSession_STARTED"
    using redirected_login by blast
  show ?thesis by (rule started_after_both_acks [OF t]) simp
qed


section \<open>Stopping\<close>

text \<open>While a session stops, nothing a client can call stops it again or starts it.\<close>

definition stays_stopping :: "mwSession \<Rightarrow> mwSession \<Rightarrow> bool" where
  "stays_stopping s t \<longleftrightarrow>
     (se_state s = mwSession_STOPPING \<longrightarrow> se_state t = mwSession_STOPPING \<and> se_closed t = se_closed s)"

locale stopping_client = channel_relation stays_stopping E for E
begin

lemma other_state: "se_state s \<noteq> mwSession_STOPPING \<Longrightarrow> keeps stays_stopping s r"
  by (auto simp: keeps_def stays_stopping_def)

lemma same_state: "se_state t = se_state s \<Longrightarrow> se_closed t = se_closed s \<Longrightarrow> stays_stopping s t"
  by (simp add: stays_stopping_def)

lemma snd_keeps [lib_steps]: "keeps_with stays_stopping s r \<Longrightarrow> keeps stays_stopping s (map_option snd r)"
  by (rule keeps_snd)

lemma do_call_stopping: "keeps stays_stopping s (do_call E c s)"
proof (cases "se_state s = mwSession_STOPPING")
  case True
  have sends: "keeps stays_stopping s (map_option snd (mwSession_setPrivacyInfo E s pv))"
    "keeps stays_stopping s (map_option snd (mwSession_setUserStatus E s us))"
    "keeps stays_stopping s (Some (snd (mwSession_sendKeepalive s)))" for pv us
    unfolding mwSession_setPrivacyInfo_def mwSession_setUserStatus_def mwSession_sendKeepalive_def
    by (auto intro!: lib_steps same_state)
  have datum: "keeps_with stays_stopping t (mw_datum_clear E t d)" for t d
    unfolding mw_datum_clear_def by (auto intro!: keeps_bind(2) lib_steps)
  have data: "keeps stays_stopping s (mwSession_removeClientData E s)"
    "keeps stays_stopping s (mwChannel_removeServiceData E s p)" for p
    unfolding mwSession_removeClientData_def mwChannel_removeServiceData_def
    by (auto intro!: keeps_bind_with(1) lib_steps datum simp: stays_stopping_def)
  have simple: "keeps stays_stopping s (map_option snd (mwSession_addService E s t v))"
    "keeps stays_stopping s (Some (snd (mwSession_removeService s t)))"
    "keeps stays_stopping s (Some (snd (mwSession_addCipher s ci)))"
    "keeps stays_stopping s (Some (snd (mwSession_removeCipher s i)))"
    "keeps stays_stopping s (Some (mwSession_setClientData s d b))"
    "keeps stays_stopping s (Some (property_set s k a))" "keeps stays_stopping s (Some (property_del s k))"
    for t v ci i d b k a
    using True by (auto intro!: lib_steps same_state simp: mwSession_removeService_def mwSession_addService_def
        mwSession_addCipher_def mwSession_removeCipher_def mwSession_setClientData_def property_set_def
        property_del_def put_service_def Let_def)
  show ?thesis
    using True by (cases c) (auto intro!: lib_steps sends data simple
        simp: mwSession_start_def mwSession_stop_def mwSession_forceLogin_def mwSession_sendAnnounce_def
          mwSession_senseService_def)
qed (rule other_state)

lemma do_calls_stopping: "keeps stays_stopping s (do_calls E cs s)"
proof (induction cs arbitrary: s)
  case (Cons c cs)
  show ?case
    unfolding do_calls.simps
    by (rule keeps_bind(1) [OF do_call_stopping]) (rule keeps_later(1) [OF Cons.IH])
qed (simp add: keeps_Some)

end

lemma stopping_relation:
  assumes "\<And>call s. keeps stays_stopping s (en_cb E call s)"
  shows "stopping_client E"
proof (unfold_locales, goal_cases)
  case (5 s chan)
  show ?case by (auto simp: keeps_def stays_stopping_def map_remove_def channel_free_def split: option.splits bind_splits)
next
  case (6 s chan)
  show ?case by (auto simp: newIncoming_eq keeps_with_def stays_stopping_def map_remove_def channel_free_def
        split: option.splits bind_splits)
qed (auto simp: stays_stopping_def assms)

lemma client_stopping: "stopping_client (client_env E script n)"
proof (induction n)
  case 0
  show ?case by (rule stopping_relation) (simp add: keeps_def stays_stopping_def)
next
  case (Suc n)
  show ?case by (rule stopping_relation) (simp add: stopping_client.do_calls_stopping [OF Suc.IH])
qed

interpretation client_stops: stopping_client "client_env E script n"
  by (rule client_stopping)

text \<open>
  C16: stopping a session closes its connection exactly once and empties its input buffer
  before the session is told to be stopped, whatever the handlers that are called on the way
  do with the library, calling \<open>mwSession_stop\<close> or \<open>mwSession_start\<close> again included.
\<close>

theorem stop_closes_once:
  assumes "se_state s \<noteq> mwSession_STOPPED" and "se_state s \<noteq> mwSession_STOPPING"
    and "mwSession_stop (client_env E script n) s reason = Some t"
  shows "\<exists>u. session_state (client_env E script n) u mwSession_STOPPED (Info_code reason) = Some t \<and>
    se_state u = mwSession_STOPPING \<and> se_closed u = se_closed s + 1 \<and> se_in u = inbuf_new"
proof -
  let ?E = "client_env E script n"
  let ?s = "s\<lparr>se_state := mwSession_STOPPING, se_state_info := Info_code reason\<rparr>"
  obtain a b r c where a: "en_cb ?E (On_stateChange mwSession_STOPPING (Info_code reason)) ?s = Some a"
    and b: "stop_services ?E a (se_services a) = Some b"
    and c: "mwSession_send ?E b (on_channel MW_MASTER_CHANNEL_ID
      (new_msg (ChannelDestroy \<lparr>cd_reason = reason, cd_data = []\<rparr>))) = Some (r, c)"
    and t: "session_state ?E (io_close (c\<lparr>se_in := session_buf_free (se_in c)\<rparr>)) mwSession_STOPPED (Info_code reason) = Some t"
    using assms by (auto simp: mwSession_stop_def session_state_def Let_def split: bind_splits)
  have "keeps stays_stopping ?s (en_cb ?E (On_stateChange mwSession_STOPPING (Info_code reason)) ?s)"
    by (rule client_stops.R_cb)
  then have 1: "stays_stopping ?s a" using a by (simp add: keeps_def)
  have "keeps stays_stopping a (stop_services ?E a (se_services a))"
    by (rule client_stops.services_keeps) (rule client_stops.R_refl)
  then have 2: "stays_stopping a b" using b by (simp add: keeps_def)
  have 3: "stays_stopping b c"
    using client_stops.send_keeps [OF client_stops.R_refl] c by (fastforce simp: keeps_with_def)
  have "se_state c = mwSession_STOPPING \<and> se_closed c = se_closed s"
    using 1 2 3 by (simp add: stays_stopping_def)
  then show ?thesis
    using t by (intro exI [of _ "io_close (c\<lparr>se_in := session_buf_free (se_in c)\<rparr>)"])
      (simp add: io_close_def session_buf_free_def inbuf_new_def)
qed

fun stop_again :: "callback \<Rightarrow> mwSession \<Rightarrow> client_call list" where
  "stop_again (On_stateChange mwSession_STOPPING info) s = [Call_stop 0, Call_start]"
| "stop_again _ s = []"

definition running_session :: mwSession where
  "running_session = (mwSession_new [])\<lparr>se_state := mwSession_STARTED\<rparr>"

theorem stop_closes_once_witness:
  "\<exists>u. session_state (client_env quiet_env stop_again 2) u mwSession_STOPPED (Info_code 5) =
      Some (the (mwSession_stop (client_env quiet_env stop_again 2) running_session 5)) \<and>
    se_state u = mwSession_STOPPING \<and> se_closed u = se_closed running_session + 1 \<and> se_in u = inbuf_new"
  by (rule stop_closes_once)
    (simp_all add: running_session_def mwSession_new_def session_defaults_def property_set_def Let_def
      mwSession_stop_def mwSession_start_def session_state_def numeral_2_eq_2 mwSession_send_def io_write_def
      new_msg_def on_channel_def io_close_def session_buf_free_def)

end
