(* ===== verification/MirModules.thy ===== *)
theory MirModules imports SortedList "HOL-Library.Monad_Syntax" begin

text \<open>
  The modular engine of Miranda (\<open>src/mir_core/src/modules.cpp\<close>): hookable events with their
  subscribers, and services.  Every plugin talks to the program and to the other plugins
  through it.

  Event objects (\<open>THook\<close>) live in a heap and are listed by name in a sorted list; services are
  kept in a list sorted by the hash of their name.  An access to a destroyed event is \<open>None\<close>.
  The procedures the engine calls are one function of the environment, \<open>me_call\<close>: it gets the
  call and the state of the engine and returns its result and the state it leaves, so that a
  procedure may itself use the engine.
\<close>

section \<open>Names and hashes\<close>

definition char_at :: "bytes \<Rightarrow> u8" where
  "char_at s = (case s of [] \<Rightarrow> 0 | c # _ \<Rightarrow> c)"

function strcmp :: "bytes \<Rightarrow> bytes \<Rightarrow> int" where
  "strcmp a b =
     (if char_at a \<noteq> char_at b then uint (char_at a) - uint (char_at b)
      else if char_at a = 0 then 0 else strcmp (tl a) (tl b))"
  by pat_completeness auto
termination
  by (relation "measure (\<lambda>(a, b). length a)") (auto simp: char_at_def split: list.splits)

declare strcmp.simps [simp del]

text \<open>\<open>mir_hash\<close> (MurmurHash2), on bytes read in little-endian groups of four.\<close>

definition hash_m :: u32 where "hash_m = 0x5bd1e995"

definition load32 :: "u8 \<Rightarrow> u8 \<Rightarrow> u8 \<Rightarrow> u8 \<Rightarrow> u32" where
  "load32 a b c d = ucast a OR push_bit 8 (ucast b) OR push_bit 16 (ucast c) OR push_bit 24 (ucast d)"

fun hash_loop :: "u32 \<Rightarrow> bytes \<Rightarrow> u32 \<times> bytes" where
  "hash_loop h (a # b # c # d # data) =
     (let k = load32 a b c d * hash_m;
          k = k XOR drop_bit 24 k;
          k = k * hash_m;
          h = h * hash_m in
      hash_loop (h XOR k) data)"
| "hash_loop h data = (h, data)"

definition hash_tail :: "u32 \<Rightarrow> bytes \<Rightarrow> u32" where
  "hash_tail h data =
     (let h = (if length data \<ge> 3 then h XOR push_bit 16 (ucast (data ! 2)) else h);
          h = (if length data \<ge> 2 then h XOR push_bit 8 (ucast (data ! 1)) else h) in
      if length data \<ge> 1 then (h XOR ucast (data ! 0)) * hash_m else h)"

definition mir_hash :: "bytes \<Rightarrow> u32" where
  "mir_hash data =
     (let (h, rest) = hash_loop (of_nat (length data)) data;
          h = hash_tail h rest;
          h = h XOR drop_bit 13 h;
          h = h * hash_m in
      h XOR drop_bit 15 h)"

definition mir_hashstr :: "bytes \<Rightarrow> u32" where
  "mir_hashstr key = mir_hash (c_str key)"

section \<open>The engine\<close>

text \<open>A function pointer, an object, a window and a module are numbers; 0 is null.\<close>

record THookSubscriber =
  hs_hOwner :: nat
  hs_type :: nat
  hs_pfnHook :: nat
  hs_object :: nat
  hs_lParam :: u64
  hs_hwnd :: nat
  hs_message :: u32

record THook =
  th_name :: bytes
  th_id :: u32
  th_subscriberCount :: nat
  th_subscriber :: "THookSubscriber block"
  th_pfnHook :: nat
  th_secretSignature :: u32

definition HOOK_SECRET_SIGNATURE :: u32 where "HOOK_SECRET_SIGNATURE = 0xDEADBABA"
definition MAXMODULELABELLENGTH :: nat where "MAXMODULELABELLENGTH = 64"
definition CALLSERVICE_NOTFOUND :: u64 where "CALLSERVICE_NOTFOUND = 0x8000000000000000"

record TService =
  sv_nameHash :: u32
  sv_hOwner :: nat
  sv_pfnService :: nat
  sv_flags :: nat
  sv_lParam :: u64
  sv_object :: nat
  sv_name :: bytes

text \<open>What the engine calls, and what waits to be called in the main thread.\<close>

datatype proc_call =
    Proc nat u64 u64
  | ProcParam nat u64 u64 u64
  | ProcObj nat nat u64 u64
  | ProcObjParam nat nat u64 u64 u64
  | Send_message nat u32 u64 u64
  | Func nat u64

datatype apc =
    HookToMain nat u64 u64
  | ServiceToMain bytes u64 u64
  | FuncToMain nat u64

text \<open>
  The list of hooks holds pointers; its sort function reads the names of the objects, which
  never change, so each entry of the model carries the name with the pointer.
\<close>

type_synonym hook_entry = "bytes \<times> nat"

definition compareHooks :: "hook_entry \<Rightarrow> hook_entry \<Rightarrow> int" where
  "compareHooks p1 p2 = strcmp (fst p1) (fst p2)"

record mengine =
  mm_hooks :: "hook_entry slist"
  mm_heap :: "nat \<Rightarrow> THook option"
  mm_next :: nat
  mm_hookId :: u32
  mm_services :: "TService slist"
  mm_apc :: "apc list"

definition engine_new :: mengine where
  "engine_new =
     \<lparr>mm_hooks = LIST_new 50 (SortFn compareHooks), mm_heap = (\<lambda>_. None), mm_next = 1, mm_hookId = 1,
      mm_services = LIST_new 100 (NumericKeySortT sv_nameHash), mm_apc = []\<rparr>"

text \<open>
  The outside: the procedures, the module an address belongs to (\<open>GetInstByAddress\<close>), and
  what the fields of a subscriber that the code leaves unwritten hold.
\<close>

record menv =
  me_call :: "proc_call \<Rightarrow> mengine \<Rightarrow> (u64 \<times> mengine) option"
  me_inst :: "nat \<Rightarrow> nat"
  me_junk_owner :: nat
  me_overlay :: "u32 \<Rightarrow> nat"
  me_junk_lParam :: u64

section \<open>Events\<close>

text \<open>\<open>hooks.getIndex ((THook * ) name)\<close>.\<close>

definition hook_index :: "mengine \<Rightarrow> bytes \<Rightarrow> int option" where
  "hook_index s name = LIST_getIndex (mm_hooks s) (Some (name, 0))"

definition put_hook :: "mengine \<Rightarrow> nat \<Rightarrow> THook \<Rightarrow> mengine" where
  "put_hook s p h = s\<lparr>mm_heap := (mm_heap s)(p \<mapsto> h)\<rparr>"

definition EventExists :: "mengine \<Rightarrow> bytes option \<Rightarrow> bool option" where
  "EventExists s name =
     (case name of
        None \<Rightarrow> Some False
      | Some nm \<Rightarrow> do { idx \<leftarrow> hook_index s nm; Some (idx \<noteq> -1) })"

definition new_hook :: "bytes \<Rightarrow> u32 \<Rightarrow> THook" where
  "new_hook name hookid =
     \<lparr>th_name = take (MAXMODULELABELLENGTH - 1) (c_str name), th_id = hookid, th_subscriberCount = 0,
      th_subscriber = [], th_pfnHook = 0, th_secretSignature = HOOK_SECRET_SIGNATURE\<rparr>"

definition CreateHookableEvent :: "mengine \<Rightarrow> bytes option \<Rightarrow> (nat \<times> mengine) option" where
  "CreateHookableEvent s name =
     (case name of
        None \<Rightarrow> Some (0, s)
      | Some nm \<Rightarrow>
          do {
            idx \<leftarrow> hook_index s nm;
            if idx \<noteq> -1 then do { e \<leftarrow> LIST_at (mm_hooks s) idx; Some (snd e, s) }
            else
              do {
                let p = mm_next s;
                let h = new_hook nm (mm_hookId s);
                (r, l) \<leftarrow> List_InsertPtr (mm_hooks s) (Some (th_name h, p));
                Some (p, put_hook (s\<lparr>mm_hooks := l, mm_next := p + 1, mm_hookId := mm_hookId s + 1\<rparr>) p h)
              }
          })"

definition DestroyHookableEvent :: "mengine \<Rightarrow> nat \<Rightarrow> (u32 \<times> mengine) option" where
  "DestroyHookableEvent s hEvent =
     (if hEvent = 0 then Some (1, s)
      else
        do {
          h \<leftarrow> mm_heap s hEvent;
          idx \<leftarrow> hook_index s (th_name h);
          if idx = -1 then Some (1, s)
          else
            do {
              e \<leftarrow> LIST_at (mm_hooks s) idx;
              (r, l) \<leftarrow> List_Remove (mm_hooks s) idx;
              Some (0, s\<lparr>mm_hooks := l, mm_heap := (mm_heap s)(snd e := None)\<rparr>)
            }
        })"

definition SetHookDefaultForHookableEvent :: "mengine \<Rightarrow> nat \<Rightarrow> nat \<Rightarrow> (u32 \<times> mengine) option" where
  "SetHookDefaultForHookableEvent s hEvent pfnHook =
     (if hEvent = 0 then Some (0, s)
      else
        do {
          p \<leftarrow> mm_heap s hEvent;
          idx \<leftarrow> hook_index s (th_name p);
          Some (0, if idx \<noteq> -1 then put_hook s hEvent (p\<lparr>th_pfnHook := pfnHook\<rparr>) else s)
        })"

section \<open>Calling the subscribers of an event\<close>

text \<open>The call made for a subscriber, \<open>None\<close> for one that was unhooked.\<close>

definition subscriber_call :: "THookSubscriber \<Rightarrow> u64 \<Rightarrow> u64 \<Rightarrow> proc_call option" where
  "subscriber_call u wParam lParam =
     (if hs_type u = 1 then Some (Proc (hs_pfnHook u) wParam lParam)
      else if hs_type u = 2 then Some (ProcParam (hs_pfnHook u) wParam lParam (hs_lParam u))
      else if hs_type u = 3 then Some (ProcObj (hs_pfnHook u) (hs_object u) wParam lParam)
      else if hs_type u = 4 then Some (ProcObjParam (hs_pfnHook u) (hs_object u) wParam lParam (hs_lParam u))
      else if hs_type u = 5 then Some (Send_message (hs_hwnd u) (hs_message u) wParam lParam)
      else None)"

text \<open>
  The loop over the subscribers, from index \<open>i\<close>, of those that \<open>sel\<close> selects.  The number of
  subscribers is read again in every round; a procedure may have changed it.  The result is
  the value returned early, if any.
\<close>

partial_function (option) call_loop ::
    "menv \<Rightarrow> (THookSubscriber \<Rightarrow> proc_call option) \<Rightarrow> nat \<Rightarrow> nat \<Rightarrow> mengine \<Rightarrow> (u32 option \<times> mengine) option" where
  "call_loop E sel p i s =
     do {
       h \<leftarrow> mm_heap s p;
       if i < th_subscriberCount h then
         do {
           u \<leftarrow> arr_read (th_subscriber h) (int i);
           case sel u of
             None \<Rightarrow> call_loop E sel p (i + 1) s
           | Some c \<Rightarrow>
               do {
                 (v, s) \<leftarrow> me_call E c s;
                 if (ucast v :: u32) \<noteq> 0 then Some (Some (ucast v), s)
                 else call_loop E sel p (i + 1) s
               }
         }
       else Some (None, s)
     }"

declare call_loop.simps [code]

definition call_default :: "menv \<Rightarrow> mengine \<Rightarrow> nat \<Rightarrow> u64 \<Rightarrow> u64 \<Rightarrow> (u32 \<times> mengine) option" where
  "call_default E s pfn wParam lParam =
     (if pfn \<noteq> 0 then do { (v, s) \<leftarrow> me_call E (Proc pfn wParam lParam) s; Some (ucast v, s) }
      else Some (0, s))"

definition CallHookSubscribers :: "menv \<Rightarrow> mengine \<Rightarrow> nat \<Rightarrow> u64 \<Rightarrow> u64 \<Rightarrow> (u32 \<times> mengine) option" where
  "CallHookSubscribers E s p wParam lParam =
     (if p = 0 then Some (-1, s)
      else
        do {
          (r, s) \<leftarrow> call_loop E (\<lambda>u. subscriber_call u wParam lParam) p 0 s;
          case r of
            Some v \<Rightarrow> Some (v, s)
          | None \<Rightarrow> do { h \<leftarrow> mm_heap s p; call_default E s (th_pfnHook h) wParam lParam }
        })"

definition CallPluginEventHook ::
    "menv \<Rightarrow> mengine \<Rightarrow> nat \<Rightarrow> bytes \<Rightarrow> u64 \<Rightarrow> u64 \<Rightarrow> (u32 \<times> mengine) option" where
  "CallPluginEventHook E s hInst pszEvent wParam lParam =
     do {
       idx \<leftarrow> hook_index s pszEvent;
       if idx = -1 then Some (-1, s)
       else
         do {
           e \<leftarrow> LIST_at (mm_hooks s) idx;
           if hInst = 0 then Some (-1, s)
           else
             do {
               (r, s) \<leftarrow> call_loop E
                 (\<lambda>u. if hs_hOwner u \<noteq> hInst then None else subscriber_call u wParam lParam) (snd e) 0 s;
               case r of
                 Some v \<Rightarrow> Some (v, s)
               | None \<Rightarrow>
                   do {
                     h \<leftarrow> mm_heap s (snd e);
                     if th_subscriberCount h = 0 then call_default E s (th_pfnHook h) wParam lParam
                     else Some (0, s)
                   }
             }
         }
     }"

definition CallObjectEventHook ::
    "menv \<Rightarrow> mengine \<Rightarrow> nat \<Rightarrow> nat \<Rightarrow> u64 \<Rightarrow> u64 \<Rightarrow> (u32 \<times> mengine) option" where
  "CallObjectEventHook E s pObject hEvent wParam lParam =
     (if hEvent = 0 \<or> pObject = 0 then Some (-1, s)
      else
        do {
          (r, s) \<leftarrow> call_loop E
            (\<lambda>u. if hs_object u \<noteq> pObject \<or> hs_type u \<notin> {3, 4} then None
                 else subscriber_call u wParam lParam) hEvent 0 s;
          case r of
            Some v \<Rightarrow> Some (v, s)
          | None \<Rightarrow>
              do {
                h \<leftarrow> mm_heap s hEvent;
                if th_subscriberCount h = 0 then call_default E s (th_pfnHook h) wParam lParam
                else Some (0, s)
              }
        })"

text \<open>
  \<open>checkHook\<close> guards its accesses, so that a destroyed event is only invalid; its memory is
  taken not to be in use for another event.
\<close>

datatype hook_check = hookOk | hookEmpty | hookInvalid

definition checkHook :: "mengine \<Rightarrow> nat \<Rightarrow> hook_check" where
  "checkHook s p =
     (if p = 0 then hookInvalid
      else
        (case mm_heap s p of
           None \<Rightarrow> hookInvalid
         | Some h \<Rightarrow>
             if th_secretSignature h \<noteq> HOOK_SECRET_SIGNATURE then hookInvalid
             else if th_subscriberCount h = 0 \<and> th_pfnHook h = 0 then hookEmpty
             else hookOk))"

text \<open>
  Outside the main thread the call is queued for it, and the caller waits: the result is then
  that of \<open>run_apc\<close> below.  \<open>None\<close> as the value means the caller has to wait.
\<close>

definition NotifyEventHooks ::
    "menv \<Rightarrow> bool \<Rightarrow> mengine \<Rightarrow> nat \<Rightarrow> u64 \<Rightarrow> u64 \<Rightarrow> (u32 option \<times> mengine) option" where
  "NotifyEventHooks E in_main s hEvent wParam lParam =
     (case checkHook s hEvent of
        hookInvalid \<Rightarrow> Some (Some (-1), s)
      | hookEmpty \<Rightarrow> Some (Some 0, s)
      | hookOk \<Rightarrow>
          if in_main then map_option (\<lambda>(v, s). (Some v, s)) (CallHookSubscribers E s hEvent wParam lParam)
          else Some (None, s\<lparr>mm_apc := mm_apc s @ [HookToMain hEvent wParam lParam]\<rparr>))"

definition NotifyFastHook :: "menv \<Rightarrow> mengine \<Rightarrow> nat \<Rightarrow> u64 \<Rightarrow> u64 \<Rightarrow> (u32 \<times> mengine) option" where
  "NotifyFastHook E s hEvent wParam lParam =
     (case checkHook s hEvent of
        hookInvalid \<Rightarrow> Some (-1, s)
      | hookEmpty \<Rightarrow> Some (0, s)
      | hookOk \<Rightarrow> CallHookSubscribers E s hEvent wParam lParam)"

definition GetSubscribersCount :: "mengine \<Rightarrow> nat \<Rightarrow> nat" where
  "GetSubscribersCount s p =
     (case checkHook s p of hookOk \<Rightarrow> th_subscriberCount (the (mm_heap s p)) | _ \<Rightarrow> 0)"

section \<open>Hooking and unhooking\<close>

text \<open>\<open>(HANDLE)((id << 16) | n)\<close>: 32-bit arithmetic, then the sign extended.\<close>

definition hook_handle :: "u32 \<Rightarrow> nat \<Rightarrow> u64" where
  "hook_handle hookid n = scast (push_bit 16 hookid OR of_nat n)"

definition hook_handle_add :: "u32 \<Rightarrow> nat \<Rightarrow> u64" where
  "hook_handle_add hookid n = scast (push_bit 16 hookid + of_nat n)"

text \<open>
  The common part of the hooking functions: the block of subscribers is reallocated to one more
  than there are and the next slot filled by \<open>f\<close>, given what it holds.
\<close>

definition add_subscriber ::
    "mengine \<Rightarrow> bytes \<Rightarrow> (THookSubscriber option \<Rightarrow> THookSubscriber) \<Rightarrow> (u64 option \<times> mengine) option" where
  "add_subscriber s name f =
     do {
       idx \<leftarrow> hook_index s name;
       if idx = -1 then Some (None, s)
       else
         do {
           e \<leftarrow> LIST_at (mm_hooks s) idx;
           h \<leftarrow> mm_heap s (snd e);
           let n = th_subscriberCount h;
           let b = arr_realloc (th_subscriber h) (int n + 1);
           b \<leftarrow> arr_write b (int n) (Some (f (arr_read b (int n))));
           Some (Some (hook_handle (th_id h) (n + 1)),
                 put_hook s (snd e) (h\<lparr>th_subscriber := b, th_subscriberCount := n + 1\<rparr>))
         }
     }"

definition HookEventInt ::
    "menv \<Rightarrow> mengine \<Rightarrow> nat \<Rightarrow> bytes \<Rightarrow> nat \<Rightarrow> nat \<Rightarrow> u64 \<Rightarrow> (u64 option \<times> mengine) option" where
  "HookEventInt E s type name hookProc object lParam =
     add_subscriber s name
       (\<lambda>_. \<lparr>hs_hOwner = me_inst E hookProc, hs_type = type, hs_pfnHook = hookProc, hs_object = object,
            hs_lParam = lParam, hs_hwnd = hookProc, hs_message = of_nat object\<rparr>)"

definition HookEvent :: "menv \<Rightarrow> mengine \<Rightarrow> bytes \<Rightarrow> nat \<Rightarrow> (u64 option \<times> mengine) option" where
  "HookEvent E s name hookProc = HookEventInt E s 1 name hookProc 0 0"

definition HookEventParam :: "menv \<Rightarrow> mengine \<Rightarrow> bytes \<Rightarrow> nat \<Rightarrow> u64 \<Rightarrow> (u64 option \<times> mengine) option" where
  "HookEventParam E s name hookProc lParam = HookEventInt E s 2 name hookProc 0 lParam"

definition HookEventObj :: "menv \<Rightarrow> mengine \<Rightarrow> bytes \<Rightarrow> nat \<Rightarrow> nat \<Rightarrow> (u64 option \<times> mengine) option" where
  "HookEventObj E s name hookProc object = HookEventInt E s 3 name hookProc object 0"

definition HookEventObjParam ::
    "menv \<Rightarrow> mengine \<Rightarrow> bytes \<Rightarrow> nat \<Rightarrow> nat \<Rightarrow> u64 \<Rightarrow> (u64 option \<times> mengine) option" where
  "HookEventObjParam E s name hookProc object lParam = HookEventInt E s 4 name hookProc object lParam"

text \<open>The procedure is called at once when there is no such event; the null handle is returned.\<close>

definition HookTemporaryEvent :: "menv \<Rightarrow> mengine \<Rightarrow> bytes \<Rightarrow> nat \<Rightarrow> (u64 option \<times> mengine) option" where
  "HookTemporaryEvent E s name hookProc =
     do {
       idx \<leftarrow> hook_index s name;
       if idx = -1 then do { (v, s) \<leftarrow> me_call E (Proc hookProc 0 0) s; Some (None, s) }
       else
         add_subscriber s name
           (\<lambda>_. \<lparr>hs_hOwner = me_inst E hookProc, hs_type = 1, hs_pfnHook = hookProc, hs_object = 0,
                hs_lParam = 0, hs_hwnd = hookProc, hs_message = 0\<rparr>)
     }"

text \<open>
  \<open>HookEventMessage\<close> writes the type, the window and the message, which overlay the procedure
  and the object; the owner stays what the slot held.
\<close>

definition HookEventMessage :: "menv \<Rightarrow> mengine \<Rightarrow> bytes \<Rightarrow> nat \<Rightarrow> u32 \<Rightarrow> (u64 option \<times> mengine) option" where
  "HookEventMessage E s name hwnd message =
     add_subscriber s name
       (\<lambda>old. \<lparr>hs_hOwner = (case old of None \<Rightarrow> me_junk_owner E | Some u \<Rightarrow> hs_hOwner u),
              hs_type = 5, hs_pfnHook = hwnd, hs_object = me_overlay E message,
              hs_lParam = (case old of None \<Rightarrow> me_junk_lParam E | Some u \<Rightarrow> hs_lParam u),
              hs_hwnd = hwnd, hs_message = message\<rparr>)"

text \<open>The event with an id: the first of the list that has it.\<close>

fun find_hook :: "mengine \<Rightarrow> u32 \<Rightarrow> nat \<Rightarrow> int \<Rightarrow> nat option option" where
  "find_hook s hookId 0 i = Some None"
| "find_hook s hookId (Suc n) i =
     do {
       e \<leftarrow> arr_read (items (mm_hooks s)) i;
       h \<leftarrow> mm_heap s (snd e);
       if th_id h = hookId then Some (Some (snd e)) else find_hook s hookId n (i + 1)
     }"

text \<open>\<open>while (subscriberCount && subscriber[subscriberCount - 1].type == 0) subscriberCount--\<close>.\<close>

fun trim_count :: "THookSubscriber block \<Rightarrow> nat \<Rightarrow> nat option" where
  "trim_count b 0 = Some 0"
| "trim_count b (Suc n) =
     do { u \<leftarrow> arr_read b (int n); if hs_type u = 0 then trim_count b n else Some (Suc n) }"

definition unhook_slot :: "mengine \<Rightarrow> nat \<Rightarrow> int \<Rightarrow> (u32 \<times> mengine) option" where
  "unhook_slot s p subscriberId =
     do {
       h \<leftarrow> mm_heap s p;
       if subscriberId \<ge> int (th_subscriberCount h) \<or> subscriberId < 0 then Some (1, s)
       else
         do {
           u \<leftarrow> arr_read (th_subscriber h) subscriberId;
           b \<leftarrow> arr_write (th_subscriber h) subscriberId
             (Some (u\<lparr>hs_type := 0, hs_pfnHook := 0, hs_hwnd := 0, hs_hOwner := 0\<rparr>));
           n \<leftarrow> trim_count b (th_subscriberCount h);
           Some (0, put_hook s p (h\<lparr>th_subscriberCount := n, th_subscriber := if n = 0 then [] else b\<rparr>))
         }
     }"

definition UnhookEvent :: "mengine \<Rightarrow> u64 \<Rightarrow> (u32 \<times> mengine) option" where
  "UnhookEvent s hHook =
     (if hHook = 0 then Some (0, s)
      else
        do {
          p \<leftarrow> find_hook s (ucast (signed_drop_bit 16 hHook)) (nat (realCount (mm_hooks s))) 0;
          case p of
            None \<Rightarrow> Some (1, s)
          | Some p \<Rightarrow> unhook_slot s p (uint (hHook AND 0xFFFF) - 1)
        })"

text \<open>
  \<open>KillModuleEventHooks\<close> and \<open>KillObjectEventHooks\<close>: over all events from the last to the
  first, over the subscribers from the last to the first, those that \<open>sel\<close> selects.
\<close>

fun kill_subscribers :: "(THookSubscriber \<Rightarrow> bool) \<Rightarrow> mengine \<Rightarrow> nat \<Rightarrow> nat \<Rightarrow> mengine option" where
  "kill_subscribers sel s p 0 = Some s"
| "kill_subscribers sel s p (Suc j) =
     do {
       h \<leftarrow> mm_heap s p;
       u \<leftarrow> arr_read (th_subscriber h) (int j);
       if sel u then
         do {
           (r, s) \<leftarrow> UnhookEvent s (hook_handle_add (th_id h) (j + 1));
           h \<leftarrow> mm_heap s p;
           if th_subscriberCount h = 0 then Some s else kill_subscribers sel s p j
         }
       else kill_subscribers sel s p j
     }"

fun kill_hooks :: "(THookSubscriber \<Rightarrow> bool) \<Rightarrow> mengine \<Rightarrow> nat \<Rightarrow> mengine option" where
  "kill_hooks sel s 0 = Some s"
| "kill_hooks sel s (Suc i) =
     do {
       e \<leftarrow> arr_read (items (mm_hooks s)) (int i);
       h \<leftarrow> mm_heap s (snd e);
       s \<leftarrow> kill_subscribers sel s (snd e) (th_subscriberCount h);
       kill_hooks sel s i
     }"

definition KillModuleEventHooks :: "mengine \<Rightarrow> nat \<Rightarrow> mengine option" where
  "KillModuleEventHooks s hInst = kill_hooks (\<lambda>u. hs_hOwner u = hInst) s (nat (realCount (mm_hooks s)))"

definition KillObjectEventHooks :: "mengine \<Rightarrow> nat \<Rightarrow> mengine option" where
  "KillObjectEventHooks s pObject = kill_hooks (\<lambda>u. hs_object u = pObject) s (nat (realCount (mm_hooks s)))"

section \<open>Services\<close>

text \<open>A service that is only a hash, as the code makes one to search for.\<close>

definition service_key :: "u32 \<Rightarrow> TService" where
  "service_key hash =
     \<lparr>sv_nameHash = hash, sv_hOwner = 0, sv_pfnService = 0, sv_flags = 0, sv_lParam = 0, sv_object = 0, sv_name = []\<rparr>"

definition FindServiceByName :: "mengine \<Rightarrow> bytes \<Rightarrow> TService option option" where
  "FindServiceByName s name = List_Find (mm_services s) (Some (service_key (mir_hashstr name)))"

definition CreateServiceInt ::
    "menv \<Rightarrow> mengine \<Rightarrow> nat \<Rightarrow> bytes option \<Rightarrow> nat \<Rightarrow> nat \<Rightarrow> u64 \<Rightarrow> (u64 \<times> mengine) option" where
  "CreateServiceInt E s type name serviceProc object lParam =
     (case name of
        None \<Rightarrow> Some (0, s)
      | Some nm \<Rightarrow>
          do {
            let hash = mir_hashstr nm;
            idx \<leftarrow> LIST_getIndex (mm_services s) (Some (service_key hash));
            if idx \<noteq> -1 then Some (0, s)
            else
              do {
                (r, l) \<leftarrow> List_InsertPtr (mm_services s) (Some
                  \<lparr>sv_nameHash = hash, sv_hOwner = me_inst E serviceProc, sv_pfnService = serviceProc,
                   sv_flags = type, sv_lParam = lParam, sv_object = object, sv_name = c_str nm\<rparr>);
                Some (ucast hash, s\<lparr>mm_services := l\<rparr>)
              }
          })"

definition CreateServiceFunction :: "menv \<Rightarrow> mengine \<Rightarrow> bytes option \<Rightarrow> nat \<Rightarrow> (u64 \<times> mengine) option" where
  "CreateServiceFunction E s name serviceProc = CreateServiceInt E s 0 name serviceProc 0 0"

definition CreateServiceFunctionParam ::
    "menv \<Rightarrow> mengine \<Rightarrow> bytes option \<Rightarrow> nat \<Rightarrow> u64 \<Rightarrow> (u64 \<times> mengine) option" where
  "CreateServiceFunctionParam E s name serviceProc lParam = CreateServiceInt E s 1 name serviceProc 0 lParam"

definition CreateServiceFunctionObj ::
    "menv \<Rightarrow> mengine \<Rightarrow> bytes option \<Rightarrow> nat \<Rightarrow> nat \<Rightarrow> (u64 \<times> mengine) option" where
  "CreateServiceFunctionObj E s name serviceProc object = CreateServiceInt E s 2 name serviceProc object 0"

definition CreateServiceFunctionObjParam ::
    "menv \<Rightarrow> mengine \<Rightarrow> bytes option \<Rightarrow> nat \<Rightarrow> nat \<Rightarrow> u64 \<Rightarrow> (u64 \<times> mengine) option" where
  "CreateServiceFunctionObjParam E s name serviceProc object lParam =
     CreateServiceInt E s 3 name serviceProc object lParam"

text \<open>The name is cut to a buffer of 128 characters.\<close>

definition CreateProtoServiceFunction ::
    "menv \<Rightarrow> mengine \<Rightarrow> bytes \<Rightarrow> bytes \<Rightarrow> nat \<Rightarrow> (u64 \<times> mengine) option" where
  "CreateProtoServiceFunction E s szModule szService serviceProc =
     (let n = MAXMODULELABELLENGTH * 2 - 1;
          str = take n (c_str szModule);
          str = take n (str @ c_str szService) in
      CreateServiceFunction E s (Some str) serviceProc)"

text \<open>The handle is read as the hash it holds.\<close>

definition DestroyServiceFunction :: "mengine \<Rightarrow> u64 \<Rightarrow> mengine option" where
  "DestroyServiceFunction s hService =
     do {
       idx \<leftarrow> LIST_getIndex (mm_services s) (Some (service_key (ucast hService)));
       if idx \<noteq> -1 then do { (r, l) \<leftarrow> List_Remove (mm_services s) idx; Some (s\<lparr>mm_services := l\<rparr>) }
       else Some s
     }"

definition ServiceExists :: "mengine \<Rightarrow> bytes option \<Rightarrow> bool option" where
  "ServiceExists s name =
     (case name of
        None \<Rightarrow> Some False
      | Some nm \<Rightarrow> do { p \<leftarrow> FindServiceByName s nm; Some (p \<noteq> None) })"

definition service_call :: "TService \<Rightarrow> u64 \<Rightarrow> u64 \<Rightarrow> proc_call" where
  "service_call v wParam lParam =
     (if sv_flags v = 1 then ProcParam (sv_pfnService v) wParam lParam (sv_lParam v)
      else if sv_flags v = 2 then ProcObj (sv_pfnService v) (sv_object v) wParam lParam
      else if sv_flags v = 3 then ProcObjParam (sv_pfnService v) (sv_object v) wParam lParam (sv_lParam v)
      else Proc (sv_pfnService v) wParam lParam)"

definition CallService :: "menv \<Rightarrow> mengine \<Rightarrow> bytes option \<Rightarrow> u64 \<Rightarrow> u64 \<Rightarrow> (u64 \<times> mengine) option" where
  "CallService E s name wParam lParam =
     (case name of
        None \<Rightarrow> Some (CALLSERVICE_NOTFOUND, s)
      | Some nm \<Rightarrow>
          do {
            p \<leftarrow> FindServiceByName s nm;
            case p of
              None \<Rightarrow> Some (CALLSERVICE_NOTFOUND, s)
            | Some v \<Rightarrow> me_call E (service_call v wParam lParam) s
          })"

definition CallServiceSync ::
    "menv \<Rightarrow> bool \<Rightarrow> mengine \<Rightarrow> bytes option \<Rightarrow> u64 \<Rightarrow> u64 \<Rightarrow> (u64 option \<times> mengine) option" where
  "CallServiceSync E in_main s name wParam lParam =
     (case name of
        None \<Rightarrow> Some (Some CALLSERVICE_NOTFOUND, s)
      | Some nm \<Rightarrow>
          if in_main then map_option (\<lambda>(v, s). (Some v, s)) (CallService E s name wParam lParam)
          else Some (None, s\<lparr>mm_apc := mm_apc s @ [ServiceToMain nm wParam lParam]\<rparr>))"

fun kill_services :: "(TService \<Rightarrow> bool) \<Rightarrow> mengine \<Rightarrow> nat \<Rightarrow> mengine option" where
  "kill_services sel s 0 = Some s"
| "kill_services sel s (Suc i) =
     do {
       v \<leftarrow> arr_read (items (mm_services s)) (int i);
       s \<leftarrow> (if sel v then DestroyServiceFunction s (ucast (sv_nameHash v)) else Some s);
       kill_services sel s i
     }"

definition KillModuleServices :: "mengine \<Rightarrow> nat \<Rightarrow> mengine option" where
  "KillModuleServices s hInst = kill_services (\<lambda>v. sv_hOwner v = hInst) s (nat (realCount (mm_services s)))"

definition KillObjectServices :: "mengine \<Rightarrow> nat \<Rightarrow> mengine option" where
  "KillObjectServices s pObject = kill_services (\<lambda>v. sv_object v = pObject) s (nat (realCount (mm_services s)))"

section \<open>The queue of the main thread\<close>

definition CallFunctionAsync :: "menv \<Rightarrow> bool \<Rightarrow> mengine \<Rightarrow> nat \<Rightarrow> u64 \<Rightarrow> mengine option" where
  "CallFunctionAsync E in_main s func arg =
     (if in_main then map_option snd (me_call E (Func func arg) s)
      else Some (s\<lparr>mm_apc := mm_apc s @ [FuncToMain func arg]\<rparr>))"

definition CallFunctionSync :: "menv \<Rightarrow> bool \<Rightarrow> mengine \<Rightarrow> nat \<Rightarrow> u64 \<Rightarrow> (u64 option \<times> mengine) option" where
  "CallFunctionSync E in_main s func arg =
     (if in_main then map_option (\<lambda>(v, s). (Some v, s)) (me_call E (Func func arg) s)
      else Some (None, s\<lparr>mm_apc := mm_apc s @ [FuncToMain func arg]\<rparr>))"

text \<open>
  One message of the queue: the result goes to the thread that waits for it.  The results of
  hooks and services are kept in an \<open>int\<close>.
\<close>

definition apc_call :: "menv \<Rightarrow> apc \<Rightarrow> mengine \<Rightarrow> (u64 \<times> mengine) option" where
  "apc_call E a s =
     (case a of
        HookToMain p wParam lParam \<Rightarrow>
          map_option (\<lambda>(v, s). (scast v, s)) (CallHookSubscribers E s p wParam lParam)
      | ServiceToMain name wParam lParam \<Rightarrow>
          map_option (\<lambda>(v, s). (scast (ucast v :: u32), s)) (CallService E s (Some name) wParam lParam)
      | FuncToMain func arg \<Rightarrow> me_call E (Func func arg) s)"

definition run_apc :: "menv \<Rightarrow> mengine \<Rightarrow> (u64 option \<times> mengine) option" where
  "run_apc E s =
     (case mm_apc s of
        [] \<Rightarrow> Some (None, s)
      | a # as \<Rightarrow> map_option (\<lambda>(v, s). (Some v, s)) (apc_call E a (s\<lparr>mm_apc := as\<rparr>)))"

text \<open>\<open>DestroyModularEngine\<close>.\<close>

definition DestroyHooks :: "mengine \<Rightarrow> mengine" where
  "DestroyHooks s = s\<lparr>mm_heap := (\<lambda>p. if p \<in> snd ` set (contents (mm_hooks s)) then None else mm_heap s p)\<rparr>"

end
