(* ===== verification/MirModulesProps.thy ===== *)
theory MirModulesProps imports MirModules begin

text \<open>
  What the modular engine guarantees: its tables under every plugin, the order in which the
  subscribers of an event are called, handles, services, and the queue of the main thread.
\<close>

section \<open>The order of names\<close>

lemma strcmp_Nil: "strcmp [] b = - uint (char_at b)" "strcmp a [] = uint (char_at a)"
  by (simp_all add: strcmp.simps [of "[]"] strcmp.simps [of _ "[]"] char_at_def)

lemma strcmp_refl [simp]: "strcmp a a = 0"
proof (induction a)
  case (Cons x a)
  then show ?case by (subst strcmp.simps) (simp add: char_at_def)
qed (simp add: strcmp.simps char_at_def)

lemma strcmp_Cons:
  "strcmp (x # a) (y # b) = (if x \<noteq> y then uint x - uint y else if x = 0 then 0 else strcmp a b)"
  by (subst strcmp.simps) (simp add: char_at_def)

lemma uint_same: "uint x = uint y \<longleftrightarrow> (x :: u8) = y"
  by (simp only: word_uint_eq_iff)

lemma strcmp_flip: "strcmp b a = - strcmp a b"
proof (induction a b rule: strcmp.induct)
  case (1 a b)
  show ?case
    by (cases a; cases b) (use 1 in \<open>auto simp: strcmp_Nil strcmp_Cons char_at_def\<close>)
qed

lemma strcmp_trans: "strcmp a b \<le> 0 \<Longrightarrow> strcmp b c \<le> 0 \<Longrightarrow> strcmp a c \<le> 0"
proof (induction a b arbitrary: c rule: strcmp.induct)
  case (1 a b)
  show ?case
  proof (cases "char_at a = char_at b \<and> char_at a \<noteq> 0")
    case True
    then have ab: "strcmp (tl a) (tl b) \<le> 0" using 1(2) by (subst (asm) strcmp.simps) auto
    show ?thesis
    proof (cases "char_at b = char_at c")
      case eq: True
      then have "strcmp (tl b) (tl c) \<le> 0" using 1(3) True by (subst (asm) strcmp.simps) auto
      then have "strcmp (tl a) (tl c) \<le> 0" using 1(1) [OF _ _ ab] True by auto
      then show ?thesis using True eq by (subst strcmp.simps) simp
    next
      case False
      then have "uint (char_at b) < uint (char_at c)"
        using 1(3) by (subst (asm) strcmp.simps) (simp add: less_le uint_same)
      then show ?thesis using True by (subst strcmp.simps) auto
    qed
  next
    case False
    show ?thesis
    proof (cases "char_at a = char_at b")
      case True
      then have z: "char_at a = 0" "char_at b = 0" using False by auto
      show ?thesis by (subst strcmp.simps) (simp add: z)
    next
      case ne: False
      then have lt: "uint (char_at a) < uint (char_at b)"
        using 1(2) by (subst (asm) strcmp.simps) (simp add: less_le uint_same)
      have "uint (char_at b) \<le> uint (char_at c)"
        using 1(3) by (subst (asm) strcmp.simps) (auto split: if_splits)
      then show ?thesis using lt by (subst strcmp.simps) auto
    qed
  qed
qed

lemma strcmp_eq: "strcmp a b = 0 \<longleftrightarrow> c_str a = c_str b"
proof (induction a b rule: strcmp.induct)
  case (1 a b)
  show ?case
    by (cases a; cases b) (use 1 in \<open>auto simp: strcmp_Nil strcmp_Cons char_at_def c_str_def uint_same uint_0_iff\<close>)
qed

interpretation hook_table: sorted_table "SortFn compareHooks"
proof
  fix a b c :: hook_entry
  show "sort_cmp (SortFn compareHooks) a a = 0" by (simp add: compareHooks_def)
  show "sort_cmp (SortFn compareHooks) a b < 0 \<longleftrightarrow> sort_cmp (SortFn compareHooks) b a > 0"
    using strcmp_flip [of "fst a" "fst b"] by (simp add: compareHooks_def)
  show "sort_cmp (SortFn compareHooks) a b \<le> 0 \<Longrightarrow> sort_cmp (SortFn compareHooks) b c \<le> 0 \<Longrightarrow>
      sort_cmp (SortFn compareHooks) a c \<le> 0"
    using strcmp_trans by (simp add: compareHooks_def)
qed simp

section \<open>The tables\<close>

text \<open>
  An event object: its name fits the field, the slots in use of its block are written and the
  last of them is not an unhooked one.
\<close>

definition hook_ok :: "THook \<Rightarrow> bool" where
  "hook_ok h \<longleftrightarrow>
     c_str (th_name h) = th_name h \<and> length (th_name h) < MAXMODULELABELLENGTH \<and>
     th_secretSignature h = HOOK_SECRET_SIGNATURE \<and>
     (\<exists>us. take (th_subscriberCount h) (th_subscriber h) = map Some us \<and> length us = th_subscriberCount h \<and>
       (us \<noteq> [] \<longrightarrow> hs_type (last us) \<noteq> 0))"

text \<open>
  The two tables: the events in the heap are those in the list, each once, under their names,
  and have their number as id; the services have different hashes.
\<close>

definition hooks_rep :: "mengine \<Rightarrow> hook_entry list \<Rightarrow> bool" where
  "hooks_rep s xs \<longleftrightarrow>
     table_rep (SortFn compareHooks) (mm_hooks s) xs \<and> distinct (map snd xs) \<and>
     (\<forall>n p. (n, p) \<in> set xs \<longleftrightarrow> (\<exists>h. mm_heap s p = Some h \<and> th_name h = n))"

definition heap_hooks_ok :: "mengine \<Rightarrow> bool" where
  "heap_hooks_ok s \<longleftrightarrow>
     (\<forall>p h. mm_heap s p = Some h \<longrightarrow> hook_ok h \<and> th_id h = of_nat p \<and> 0 < p \<and> p < mm_next s)"

definition hooks_ok :: "mengine \<Rightarrow> bool" where
  "hooks_ok s \<longleftrightarrow>
     (\<exists>xs. hooks_rep s xs) \<and> heap_hooks_ok s \<and>
     mm_hookId s = of_nat (mm_next s) \<and> 0 < mm_next s"

definition services_ok :: "mengine \<Rightarrow> bool" where
  "services_ok s \<longleftrightarrow>
     (\<exists>vs. table_rep (NumericKeySortT sv_nameHash) (mm_services s) vs \<and> distinct (map sv_nameHash vs) \<and>
       (\<forall>v \<in> set vs. sv_nameHash v = mir_hashstr (sv_name v)))"

definition engine_ok :: "mengine \<Rightarrow> bool" where
  "engine_ok s \<longleftrightarrow> hooks_ok s \<and> services_ok s"

lemma engine_ok_new: "engine_ok engine_new"
proof -
  have "table_rep (SortFn compareHooks) (mm_hooks engine_new) []"
    "table_rep (NumericKeySortT sv_nameHash) (mm_services engine_new) []"
    by (simp_all add: engine_new_def table_rep_new)
  then show ?thesis
    unfolding engine_ok_def hooks_ok_def heap_hooks_ok_def hooks_rep_def services_ok_def
    by (auto simp: engine_new_def intro!: exI [of _ "[]"])
qed

text \<open>What an operation that returns does to the engine: if its tables were in order, they are.\<close>

definition orderly :: "mengine \<Rightarrow> mengine \<Rightarrow> bool" where
  "orderly s t \<longleftrightarrow> (engine_ok s \<longrightarrow> engine_ok t)"

interpretation tables: step_relation orderly
  by unfold_locales (auto simp: orderly_def)

text \<open>Looking an event up by name.\<close>

lemma hook_index_total: "hooks_ok s \<Longrightarrow> \<exists>idx. hook_index s name = Some idx"
  unfolding hooks_ok_def hooks_rep_def hook_index_def using hook_table.getIndex_total by metis

lemma hook_name_ok: "hooks_ok s \<Longrightarrow> mm_heap s p = Some h \<Longrightarrow> c_str (th_name h) = th_name h"
  by (simp add: hooks_ok_def heap_hooks_ok_def hook_ok_def)

lemma hook_index_at:
  assumes "hooks_ok s" and "hooks_rep s xs" and "hook_index s name = Some idx" and "idx \<noteq> -1"
  shows "\<exists>p h. 0 \<le> idx \<and> idx < int (length xs) \<and> xs ! nat idx = (c_str name, p) \<and>
    LIST_at (mm_hooks s) idx = Some (c_str name, p) \<and> mm_heap s p = Some h \<and> th_name h = c_str name"
proof -
  have rep: "table_rep (SortFn compareHooks) (mm_hooks s) xs"
    and mem: "\<And>n p. (n, p) \<in> set xs \<longleftrightarrow> (\<exists>h. mm_heap s p = Some h \<and> th_name h = n)"
    using assms(2) by (auto simp: hooks_rep_def)
  have i: "0 \<le> idx" "idx < int (length xs)" "strcmp (fst (xs ! nat idx)) name = 0"
    using hook_table.getIndex_present [OF rep] assms(3,4) by (auto simp: hook_index_def compareHooks_def)
  obtain n p where e: "xs ! nat idx = (n, p)" by force
  have "(n, p) \<in> set xs" using i(1,2) e by (metis nat_less_iff nth_mem)
  then obtain h where h: "mm_heap s p = Some h" "th_name h = n" using mem by auto
  then have "n = c_str name" using i(3) e strcmp_eq hook_name_ok [OF assms(1) h(1)] by simp
  then show ?thesis using h e i(1,2) table_rep_at [OF rep, of idx] by simp
qed

lemma hook_index_found:
  assumes "hooks_ok s" and "hook_index s name = Some idx" and "idx \<noteq> -1"
  shows "\<exists>p h. LIST_at (mm_hooks s) idx = Some (c_str name, p) \<and> mm_heap s p = Some h \<and> th_name h = c_str name"
proof -
  obtain xs where "hooks_rep s xs" using assms(1) by (auto simp: hooks_ok_def)
  from hook_index_at [OF assms(1) this assms(2,3)] show ?thesis by blast
qed

lemma hook_index_missing:
  assumes "hooks_ok s"
  shows "hook_index s name = Some (-1) \<longleftrightarrow> (\<forall>p h. mm_heap s p = Some h \<longrightarrow> th_name h \<noteq> c_str name)"
proof -
  obtain xs where xs: "table_rep (SortFn compareHooks) (mm_hooks s) xs"
    "\<And>n p. (n, p) \<in> set xs \<longleftrightarrow> (\<exists>h. mm_heap s p = Some h \<and> th_name h = n)"
    using assms by (auto simp: hooks_ok_def hooks_rep_def)
  have "hook_index s name = Some (-1) \<longleftrightarrow> (\<forall>(n, p) \<in> set xs. c_str n \<noteq> c_str name)"
    using hook_table.getIndex_absent [OF xs(1), of "(name, 0)"]
    by (simp add: hook_index_def compareHooks_def strcmp_eq split_beta)
  also have "\<dots> \<longleftrightarrow> (\<forall>p h. mm_heap s p = Some h \<longrightarrow> c_str (th_name h) \<noteq> c_str name)"
  proof (intro iffI allI impI ballI)
    fix p h
    assume "\<forall>(n, p) \<in> set xs. c_str n \<noteq> c_str name" and "mm_heap s p = Some h"
    moreover have "(th_name h, p) \<in> set xs" using calculation(2) xs(2) by blast
    ultimately show "c_str (th_name h) \<noteq> c_str name" by auto
  qed (auto simp: xs(2))
  finally show ?thesis using hook_name_ok [OF assms] by metis
qed

text \<open>Writing an event that is there.\<close>

lemma put_hook_orderly:
  assumes "mm_heap s p = Some h" and "th_name h' = th_name h" and "th_id h' = th_id h"
    and "hook_ok h \<Longrightarrow> hook_ok h'"
  shows "orderly s (put_hook s p h')"
  unfolding orderly_def
proof
  assume ok: "engine_ok s"
  then obtain xs where xs: "hooks_rep s xs" by (auto simp: engine_ok_def hooks_ok_def)
  have "(\<exists>g. ((mm_heap s)(p \<mapsto> h')) q = Some g \<and> th_name g = n) \<longleftrightarrow> (\<exists>g. mm_heap s q = Some g \<and> th_name g = n)" for q n
    using assms(1,2) by auto
  then have "hooks_rep (put_hook s p h') xs" using xs by (simp add: hooks_rep_def put_hook_def)
  moreover have "heap_hooks_ok (put_hook s p h')"
    unfolding heap_hooks_ok_def
  proof (intro allI impI)
    fix q g
    assume "mm_heap (put_hook s p h') q = Some g"
    then show "hook_ok g \<and> th_id g = of_nat q \<and> 0 < q \<and> q < mm_next (put_hook s p h')"
      using ok assms by (cases "q = p") (auto simp: engine_ok_def hooks_ok_def heap_hooks_ok_def put_hook_def)
  qed
  ultimately show "engine_ok (put_hook s p h')"
    using ok by (auto simp: engine_ok_def hooks_ok_def services_ok_def put_hook_def)
qed

lemma other_orderly:
  "mm_hooks t = mm_hooks s \<Longrightarrow> mm_heap t = mm_heap s \<Longrightarrow> mm_next t = mm_next s \<Longrightarrow>
   mm_hookId t = mm_hookId s \<Longrightarrow> mm_services t = mm_services s \<Longrightarrow> orderly s t"
  by (simp add: orderly_def engine_ok_def hooks_ok_def heap_hooks_ok_def hooks_rep_def services_ok_def)

lemma c_str_take: "c_str (take n (c_str a)) = take n (c_str a)"
  by (auto simp: c_str_def takeWhile_eq_all_conv dest: in_set_takeD set_takeWhileD)

lemma new_hook_ok: "hook_ok (new_hook name i)"
  by (simp add: hook_ok_def new_hook_def c_str_take MAXMODULELABELLENGTH_def)

lemma create_new_orderly:
  assumes ok: "hooks_ok s" and "h = new_hook name (mm_hookId s)"
  obtains l where "List_InsertPtr (mm_hooks s) (Some (th_name h, mm_next s)) = Some (1, l)"
    and "hooks_ok (put_hook (s\<lparr>mm_hooks := l, mm_next := mm_next s + 1, mm_hookId := mm_hookId s + 1\<rparr>) (mm_next s) h)"
proof -
  let ?p = "mm_next s"
  obtain xs where xs: "table_rep (SortFn compareHooks) (mm_hooks s) xs" "distinct (map snd xs)"
    and mem: "\<And>n p. (n, p) \<in> set xs \<longleftrightarrow> (\<exists>h. mm_heap s p = Some h \<and> th_name h = n)"
    using ok by (auto simp: hooks_ok_def hooks_rep_def)
  obtain l i where l: "List_InsertPtr (mm_hooks s) (Some (th_name h, ?p)) = Some (1, l)" "i \<le> length xs"
    "table_rep (SortFn compareHooks) l (take i xs @ (th_name h, ?p) # drop i xs)"
    using hook_table.InsertPtr_spec [OF xs(1)] .
  let ?xs = "take i xs @ (th_name h, ?p) # drop i xs"
  have heap: "mm_heap s q = Some g \<Longrightarrow> hook_ok g \<and> th_id g = of_nat q \<and> 0 < q \<and> q < ?p" for q g
    using ok by (simp add: hooks_ok_def heap_hooks_ok_def)
  have new: "mm_heap s ?p = None" using heap by (cases "mm_heap s ?p") auto
  have set: "set ?xs = insert (th_name h, ?p) (set xs)"
    by simp (metis append_take_drop_id set_append)
  have "?p \<notin> snd ` set xs" using mem new by force
  moreover have "distinct (take i (map snd xs) @ drop i (map snd xs))" using xs(2) by simp
  moreover have "set (map snd xs) = set (take i (map snd xs)) \<union> set (drop i (map snd xs))"
    by (metis append_take_drop_id set_append)
  ultimately have dist: "distinct (map snd ?xs)"
    by (simp add: take_map drop_map)
  let ?t = "put_hook (s\<lparr>mm_hooks := l, mm_next := ?p + 1, mm_hookId := mm_hookId s + 1\<rparr>) ?p h"
  have "(n, q) \<in> set ?xs \<longleftrightarrow> (\<exists>g. mm_heap ?t q = Some g \<and> th_name g = n)" for n q
    unfolding set using mem new by (auto simp: put_hook_def)
  then have "hooks_rep ?t ?xs" using l(3) dist by (simp add: hooks_rep_def put_hook_def)
  moreover have "heap_hooks_ok ?t"
    unfolding heap_hooks_ok_def
  proof (intro allI impI)
    fix q g
    assume "mm_heap ?t q = Some g"
    then show "hook_ok g \<and> th_id g = of_nat q \<and> 0 < q \<and> q < mm_next ?t"
      using heap [of q g] ok assms(2) new_hook_ok
      by (cases "q = ?p") (auto simp: put_hook_def hooks_ok_def new_hook_def)
  qed
  ultimately have "hooks_ok ?t" using ok by (auto simp: hooks_ok_def put_hook_def add.commute)
  then show ?thesis using that l(1) by blast
qed

lemma services_ok_same: "mm_services t = mm_services s \<Longrightarrow> services_ok t \<longleftrightarrow> services_ok s"
  by (simp add: services_ok_def)

lemma CreateHookableEvent_orderly: "keeps_with orderly s (CreateHookableEvent s name)"
  unfolding keeps_with_def orderly_def
proof (intro allI impI)
  fix p t
  assume t: "CreateHookableEvent s name = Some (p, t)" and "engine_ok s"
  then have ok: "hooks_ok s" "services_ok s" by (auto simp: engine_ok_def)
  show "engine_ok t"
  proof (cases name)
    case None
    then show ?thesis using t \<open>engine_ok s\<close> by (simp add: CreateHookableEvent_def)
  next
    case (Some nm)
    obtain l where "List_InsertPtr (mm_hooks s) (Some (th_name (new_hook nm (mm_hookId s)), mm_next s)) = Some (1, l)"
      "hooks_ok (put_hook (s\<lparr>mm_hooks := l, mm_next := mm_next s + 1, mm_hookId := mm_hookId s + 1\<rparr>) (mm_next s)
        (new_hook nm (mm_hookId s)))"
      using create_new_orderly [OF ok(1) refl] .
    then show ?thesis
      using t ok services_ok_same [of t s] \<open>engine_ok s\<close>
      by (auto simp: CreateHookableEvent_def Some Let_def engine_ok_def put_hook_def split: bind_splits if_splits)
  qed
qed

lemma DestroyHookableEvent_orderly: "keeps_with orderly s (DestroyHookableEvent s h)"
  unfolding keeps_with_def orderly_def
proof (intro allI impI)
  fix r t
  assume t: "DestroyHookableEvent s h = Some (r, t)" and "engine_ok s"
  then have ok: "hooks_ok s" "services_ok s" by (auto simp: engine_ok_def)
  obtain xs where xs: "hooks_rep s xs" using ok(1) by (auto simp: hooks_ok_def)
  show "engine_ok t"
  proof (cases "t = s")
    case True
    then show ?thesis using \<open>engine_ok s\<close> by simp
  next
    case False
    with t obtain g idx e q l where g: "mm_heap s h = Some g" "hook_index s (th_name g) = Some idx" "idx \<noteq> -1"
      and e: "LIST_at (mm_hooks s) idx = Some e" and l: "List_Remove (mm_hooks s) idx = Some (q, l)"
      and t: "t = s\<lparr>mm_hooks := l, mm_heap := (mm_heap s)(snd e := None)\<rparr>"
      by (auto simp: DestroyHookableEvent_def split: bind_splits if_splits)
    from hook_index_at [OF ok(1) xs g(2,3)] obtain p f where i: "0 \<le> idx" "idx < int (length xs)"
      "xs ! nat idx = e" "e = (c_str (th_name g), p)" "mm_heap s p = Some f"
      using e by auto
    have rep: "table_rep (SortFn compareHooks) (mm_hooks s) xs" "distinct (map snd xs)"
      "\<And>n p. (n, p) \<in> set xs \<longleftrightarrow> (\<exists>h. mm_heap s p = Some h \<and> th_name h = n)"
      using xs by (auto simp: hooks_rep_def)
    let ?xs = "take (nat idx) xs @ drop (Suc (nat idx)) xs"
    have l': "table_rep (SortFn compareHooks) l ?xs"
      using hook_table.Remove_spec [OF rep(1) i(1,2)] l by auto
    have split: "xs = take (nat idx) xs @ (c_str (th_name g), p) # drop (Suc (nat idx)) xs"
      using id_take_nth_drop [of "nat idx" xs] i by simp
    have d: "distinct (map snd (take (nat idx) xs @ (c_str (th_name g), p) # drop (Suc (nat idx)) xs))"
      using rep(2) split by simp
    have set: "set xs = set (take (nat idx) xs @ (c_str (th_name g), p) # drop (Suc (nat idx)) xs)"
      using split by simp
    have "(n, q) \<in> set ?xs \<longleftrightarrow> (\<exists>h. mm_heap t q = Some h \<and> th_name h = n)" for n q
    proof -
      have "(n, q) \<in> set ?xs \<longleftrightarrow> (n, q) \<in> set xs \<and> q \<noteq> p"
        unfolding set using d rep(3) by (auto simp: image_iff dest: in_set_takeD in_set_dropD; force)
      then show ?thesis using rep(3) i(4) by (auto simp: t)
    qed
    then have "hooks_rep t ?xs" using l' d by (simp add: hooks_rep_def t)
    moreover have "heap_hooks_ok t"
      using ok(1) by (simp add: hooks_ok_def heap_hooks_ok_def t)
    ultimately show ?thesis
      using ok services_ok_same [of t s] by (auto simp: engine_ok_def hooks_ok_def t)
  qed
qed

lemma hook_ok_add:
  assumes "hook_ok h" and "arr_write (arr_realloc (th_subscriber h) (int (th_subscriberCount h) + 1))
      (int (th_subscriberCount h)) (Some u) = Some b" and "hs_type u \<noteq> 0"
  shows "hook_ok (h\<lparr>th_subscriber := b, th_subscriberCount := th_subscriberCount h + 1\<rparr>)"
proof -
  let ?n = "th_subscriberCount h" and ?b = "arr_realloc (th_subscriber h) (int (th_subscriberCount h) + 1)"
  obtain us where us: "take ?n (th_subscriber h) = map Some us" "length us = ?n"
    using assms(1) by (auto simp: hook_ok_def)
  have len: "?n \<le> length (th_subscriber h)" using us by (metis length_map length_take min.cobounded1)
  have b: "b = ?b[?n := Some u]" using assms(2) arr_write_nat [of ?n ?b] by (simp add: nat_add_distrib)
  have "take (?n + 1) b = take ?n ?b @ [Some u]"
    unfolding b by (simp add: nat_add_distrib upd_conv_take_nth_drop)
  also have "take ?n ?b = map Some us" using us len by simp
  finally have "take (?n + 1) b = map Some (us @ [u])" by simp
  then show ?thesis
    using assms(1,3) us(2) unfolding hook_ok_def
    by (auto intro!: exI [of _ "us @ [u]"])
qed

lemma add_orderly:
  assumes "mm_heap s p = Some h" and "arr_write (arr_realloc (th_subscriber h) (int (th_subscriberCount h) + 1))
      (int (th_subscriberCount h)) (Some u) = Some b" and "hs_type u \<noteq> 0"
  shows "orderly s (put_hook s p (h\<lparr>th_subscriber := b, th_subscriberCount := th_subscriberCount h + 1\<rparr>))"
  by (rule put_hook_orderly [OF assms(1)]) (use hook_ok_add assms(2,3) in auto)

lemma add_subscriber_orderly:
  assumes "\<And>old. hs_type (f old) \<noteq> 0"
  shows "keeps_with orderly s (add_subscriber s name f)"
  unfolding add_subscriber_def Let_def
  by (auto simp del: add_Suc_right One_nat_def
      intro!: keeps_bind_any(2) keeps_one tables.R_refl add_orderly [OF _ _ assms])

lemma trim_count_le: "trim_count b n = Some m \<Longrightarrow> m \<le> n"
  by (induction n) (auto split: bind_splits if_splits)

lemma trim_count_last:
  assumes "trim_count b n = Some m" and "take n b = map Some us" and "length us = n" and "m \<noteq> 0"
  shows "hs_type (us ! (m - 1)) \<noteq> 0"
  using assms
proof (induction n arbitrary: us)
  case (Suc n)
  have n: "n < length b" using Suc.prems(2,3) by (metis length_map length_take lessI min_less_iff_conj)
  have r: "arr_read b (int n) = Some (us ! n)"
    using Suc.prems(2,3) take_map_Some_nth [of "Suc n" b us n] n by (simp add: arr_read_nat)
  show ?case
  proof (cases "hs_type (us ! n) = 0")
    case True
    have "take n b = map Some (take n us)" using Suc.prems(2,3) block_parts(1) [of "Suc n" b us n] by simp
    moreover have "trim_count b n = Some m" using Suc.prems(1) r True by simp
    ultimately show ?thesis
      using Suc.IH [of "take n us"] Suc.prems(3,4) trim_count_le [of b n m] by simp
  next
    case False
    then show ?thesis using Suc.prems(1) r by auto
  qed
qed simp

lemma hook_ok_remove:
  assumes "hook_ok h" and "0 \<le> i" and "i < int (th_subscriberCount h)"
    and "arr_read (th_subscriber h) i = Some u"
    and "arr_write (th_subscriber h) i (Some u') = Some b" and "trim_count b (th_subscriberCount h) = Some n"
  shows "hook_ok (h\<lparr>th_subscriberCount := n, th_subscriber := if n = 0 then [] else b\<rparr>)"
proof -
  let ?n = "th_subscriberCount h"
  obtain us where us: "take ?n (th_subscriber h) = map Some us" "length us = ?n"
    using assms(1) by (auto simp: hook_ok_def)
  have b: "b = (th_subscriber h)[nat i := Some u']"
    using assms(5) by (auto simp: arr_write_def split: if_splits)
  have t: "take ?n b = map Some (us[nat i := u'])"
    unfolding b using us(1) by (simp add: take_update_swap map_update)
  have le: "n \<le> ?n" by (rule trim_count_le [OF assms(6)])
  have tn: "take n b = map Some (take n (us[nat i := u']))"
    using block_parts(1) [OF t] us(2) le by simp
  show ?thesis
  proof (cases "n = 0")
    case True
    then show ?thesis using assms(1) by (simp add: hook_ok_def)
  next
    case False
    have "hs_type (us[nat i := u'] ! (n - 1)) \<noteq> 0"
      using trim_count_last [OF assms(6) t _ False] us(2) by simp
    then have "hs_type (last (take n (us[nat i := u']))) \<noteq> 0"
      using False le us(2) by (subst last_conv_nth) auto
    then show ?thesis
      using assms(1) tn False le us(2) unfolding hook_ok_def
      by (auto intro!: exI [of _ "take n (us[nat i := u'])"])
  qed
qed

lemma remove_orderly:
  assumes "mm_heap s p = Some h" and "\<not> (i \<ge> int (th_subscriberCount h) \<or> i < 0)"
    and "arr_read (th_subscriber h) i = Some u"
    and "arr_write (th_subscriber h) i (Some u') = Some b" and "trim_count b (th_subscriberCount h) = Some n"
  shows "orderly s (put_hook s p (h\<lparr>th_subscriberCount := n, th_subscriber := if n = 0 then [] else b\<rparr>))"
  by (rule put_hook_orderly [OF assms(1)]) (use hook_ok_remove [OF _ _ _ assms(3-5)] assms(2) in auto)

lemma unhook_slot_orderly: "keeps_with orderly s (unhook_slot s p i)"
proof -
  have "keeps_with orderly s
    (if i \<ge> int (th_subscriberCount h) \<or> i < 0 then Some (1, s)
     else
       do {
         u \<leftarrow> arr_read (th_subscriber h) i;
         b \<leftarrow> arr_write (th_subscriber h) i (Some (f u));
         n \<leftarrow> trim_count b (th_subscriberCount h);
         Some (0, put_hook s p (h\<lparr>th_subscriberCount := n, th_subscriber := if n = 0 then [] else b\<rparr>))
       })" if "mm_heap s p = Some h" for h f
  proof (cases "i \<ge> int (th_subscriberCount h) \<or> i < 0")
    case False
    then show ?thesis
      by (simp only: if_False) (auto intro!: keeps_bind_any(2) keeps_one remove_orderly [OF that False])
  qed (simp add: tables.keeps_Some)
  then show ?thesis unfolding unhook_slot_def by (rule keeps_bind_any(2))
qed

lemma UnhookEvent_orderly: "keeps_with orderly s (UnhookEvent s hh)"
  unfolding UnhookEvent_def
  by (auto split: option.split intro!: keeps_bind_any(2) tables.keeps_Some unhook_slot_orderly)

text \<open>What a plugin can do with the engine outside of calls, and the services.\<close>

lemma kill_subscribers_orderly: "keeps orderly s (kill_subscribers sel s p j)"
proof (induction j arbitrary: s)
  case (Suc j)
  show ?case
    by (auto intro!: keeps_bind_any(1) tables.keeps_bind_with(1) [OF UnhookEvent_orderly]
        keeps_one tables.keeps_later(1) [OF Suc.IH] tables.R_refl)
qed (simp add: tables.keeps_Some)

lemma kill_hooks_orderly: "keeps orderly s (kill_hooks sel s i)"
proof (induction i arbitrary: s)
  case (Suc i)
  show ?case
    by (auto intro!: keeps_bind_any(1) tables.keeps_bind(1) [OF kill_subscribers_orderly]
        tables.keeps_later(1) [OF Suc.IH])
qed (simp add: tables.keeps_Some)

lemma hooks_ok_same:
  "mm_hooks t = mm_hooks s \<Longrightarrow> mm_heap t = mm_heap s \<Longrightarrow> mm_next t = mm_next s \<Longrightarrow> mm_hookId t = mm_hookId s \<Longrightarrow>
   hooks_ok t \<longleftrightarrow> hooks_ok s"
  by (simp add: hooks_ok_def hooks_rep_def heap_hooks_ok_def)

lemma service_index:
  assumes "services_ok s"
  obtains i vs where "table_rep (NumericKeySortT sv_nameHash) (mm_services s) vs"
    and "distinct (map sv_nameHash vs)" and "\<forall>v \<in> set vs. sv_nameHash v = mir_hashstr (sv_name v)"
    and "LIST_getIndex (mm_services s) (Some (service_key hash)) = Some i"
    and "i = -1 \<and> hash \<notin> sv_nameHash ` set vs \<or>
         0 \<le> i \<and> i < int (length vs) \<and> sv_nameHash (vs ! nat i) = hash"
proof -
  obtain vs where vs: "table_rep (NumericKeySortT sv_nameHash) (mm_services s) vs"
    "distinct (map sv_nameHash vs)" "\<forall>v \<in> set vs. sv_nameHash v = mir_hashstr (sv_name v)"
    using assms by (auto simp: services_ok_def)
  obtain i where i: "LIST_getIndex (mm_services s) (Some (service_key hash)) = Some i"
    using numeric_table.getIndex_total [OF vs(1)] .
  have "i = -1 \<longleftrightarrow> (\<forall>v \<in> set vs. sv_nameHash v \<noteq> hash)"
    using numeric_table.getIndex_absent [OF vs(1), of "service_key hash"] i by (simp add: service_key_def)
  moreover have "i \<noteq> -1 \<Longrightarrow> 0 \<le> i \<and> i < int (length vs) \<and> sv_nameHash (vs ! nat i) = hash"
    using numeric_table.getIndex_present [OF vs(1) i] by (auto simp: service_key_def split: if_splits)
  ultimately show ?thesis using that [OF vs i] by (auto simp: image_iff)
qed

lemma CreateServiceInt_orderly: "keeps_with orderly s (CreateServiceInt E s ty name pr ob lp)"
  unfolding keeps_with_def orderly_def
proof (intro allI impI)
  fix x t
  assume t: "CreateServiceInt E s ty name pr ob lp = Some (x, t)" and "engine_ok s"
  then have ok: "hooks_ok s" "services_ok s" by (auto simp: engine_ok_def)
  show "engine_ok t"
  proof (cases name)
    case None
    then show ?thesis using t \<open>engine_ok s\<close> by (simp add: CreateServiceInt_def)
  next
    case (Some nm)
    obtain i vs where vs: "table_rep (NumericKeySortT sv_nameHash) (mm_services s) vs"
      "distinct (map sv_nameHash vs)" "\<forall>v \<in> set vs. sv_nameHash v = mir_hashstr (sv_name v)"
      and i: "LIST_getIndex (mm_services s) (Some (service_key (mir_hashstr nm))) = Some i"
        "i = -1 \<and> mir_hashstr nm \<notin> sv_nameHash ` set vs \<or>
         0 \<le> i \<and> i < int (length vs) \<and> sv_nameHash (vs ! nat i) = mir_hashstr nm"
      using service_index [OF ok(2)] .
    let ?v = "\<lparr>sv_nameHash = mir_hashstr nm, sv_hOwner = me_inst E pr, sv_pfnService = pr,
      sv_flags = ty, sv_lParam = lp, sv_object = ob, sv_name = c_str nm\<rparr>"
    obtain l k where l: "List_InsertPtr (mm_services s) (Some ?v) = Some (1, l)"
      "table_rep (NumericKeySortT sv_nameHash) l (take k vs @ ?v # drop k vs)"
      using numeric_table.InsertPtr_spec [OF vs(1)] .
    show ?thesis
    proof (cases "i = -1")
      case False
      then show ?thesis using t i \<open>engine_ok s\<close> by (simp add: CreateServiceInt_def Some Let_def)
    next
      case True
      then have new: "mir_hashstr nm \<notin> sv_nameHash ` set vs" using i(2) by auto
      have set: "set vs = set (take k vs) \<union> set (drop k vs)"
        by (metis append_take_drop_id set_append)
      have "distinct (take k (map sv_nameHash vs) @ drop k (map sv_nameHash vs))" using vs(2) by simp
      then have "distinct (map sv_nameHash (take k vs @ ?v # drop k vs))"
        using new by (simp add: take_map drop_map set image_Un)
      moreover have "mir_hashstr nm = mir_hashstr (c_str nm)" by (simp add: mir_hashstr_def c_str_def)
      ultimately have "services_ok (s\<lparr>mm_services := l\<rparr>)"
        unfolding services_ok_def using l(2) vs(3) set by (intro exI [of _ "take k vs @ ?v # drop k vs"]) auto
      moreover have "t = s\<lparr>mm_services := l\<rparr>"
        using t i(1) True l(1) by (simp add: CreateServiceInt_def Some Let_def)
      ultimately show ?thesis using ok hooks_ok_same [of t s] by (simp add: engine_ok_def)
    qed
  qed
qed

lemma DestroyServiceFunction_orderly: "keeps orderly s (DestroyServiceFunction s h)"
  unfolding keeps_def orderly_def
proof (intro allI impI)
  fix t
  assume t: "DestroyServiceFunction s h = Some t" and "engine_ok s"
  then have ok: "hooks_ok s" "services_ok s" by (auto simp: engine_ok_def)
  obtain i vs where vs: "table_rep (NumericKeySortT sv_nameHash) (mm_services s) vs"
    "distinct (map sv_nameHash vs)" "\<forall>v \<in> set vs. sv_nameHash v = mir_hashstr (sv_name v)"
    and i: "LIST_getIndex (mm_services s) (Some (service_key (ucast h))) = Some i"
      "i = -1 \<and> ucast h \<notin> sv_nameHash ` set vs \<or>
       0 \<le> i \<and> i < int (length vs) \<and> sv_nameHash (vs ! nat i) = ucast h"
    using service_index [OF ok(2)] .
  show "engine_ok t"
  proof (cases "i = -1")
    case True
    then show ?thesis using t i \<open>engine_ok s\<close> by (simp add: DestroyServiceFunction_def)
  next
    case False
    then have b: "0 \<le> i" "i < int (length vs)" using i(2) by auto
    obtain l where l: "List_Remove (mm_services s) i = Some (1, l)"
      "table_rep (NumericKeySortT sv_nameHash) l (take (nat i) vs @ drop (Suc (nat i)) vs)"
      using numeric_table.Remove_spec [OF vs(1) b] .
    have "distinct (map sv_nameHash (take (nat i) vs @ vs ! nat i # drop (Suc (nat i)) vs))"
      using vs(2) b by (simp flip: id_take_nth_drop)
    then have "services_ok (s\<lparr>mm_services := l\<rparr>)"
      unfolding services_ok_def using l(2) vs(3)
      by (intro exI [of _ "take (nat i) vs @ drop (Suc (nat i)) vs"]) (auto dest: in_set_takeD in_set_dropD)
    moreover have "t = s\<lparr>mm_services := l\<rparr>"
      using t i(1) False l(1) by (simp add: DestroyServiceFunction_def)
    ultimately show ?thesis using ok hooks_ok_same [of t s] by (simp add: engine_ok_def)
  qed
qed

lemma kill_services_orderly: "keeps orderly s (kill_services sel s i)"
proof (induction i arbitrary: s)
  case (Suc i)
  show ?case
    unfolding kill_services.simps
    by (rule keeps_bind_any(1), rule tables.keeps_bind(1))
      (auto simp: DestroyServiceFunction_orderly tables.keeps_Some intro: tables.keeps_later(1) [OF Suc.IH])
qed (simp add: tables.keeps_Some)

section \<open>Plugins\<close>

text \<open>The calls a plugin can make, from the main thread or, where it makes a difference, not.\<close>

datatype plugin_call =
    P_Create "bytes option" | P_Destroy nat | P_SetDefault nat nat
  | P_CallPlugin nat bytes u64 u64 | P_CallObject nat nat u64 u64
  | P_Notify bool nat u64 u64 | P_NotifyFast nat u64 u64
  | P_Hook bytes nat | P_HookParam bytes nat u64 | P_HookObj bytes nat nat | P_HookObjParam bytes nat nat u64
  | P_HookTemporary bytes nat | P_HookMessage bytes nat u32 | P_Unhook u64
  | P_KillModuleHooks nat | P_KillObjectHooks nat
  | P_Service nat "bytes option" nat nat u64 | P_ProtoService bytes bytes nat | P_DestroyService u64
  | P_Call "bytes option" u64 u64 | P_CallSync bool "bytes option" u64 u64
  | P_KillModuleServices nat | P_KillObjectServices nat
  | P_Async bool nat u64 | P_Sync bool nat u64 | P_RunQueue

primrec do_plugin :: "menv \<Rightarrow> plugin_call \<Rightarrow> mengine \<Rightarrow> mengine option" where
  "do_plugin E (P_Create n) s = map_option snd (CreateHookableEvent s n)"
| "do_plugin E (P_Destroy h) s = map_option snd (DestroyHookableEvent s h)"
| "do_plugin E (P_SetDefault h f) s = map_option snd (SetHookDefaultForHookableEvent s h f)"
| "do_plugin E (P_CallPlugin i n w l) s = map_option snd (CallPluginEventHook E s i n w l)"
| "do_plugin E (P_CallObject ob h w l) s = map_option snd (CallObjectEventHook E s ob h w l)"
| "do_plugin E (P_Notify m h w l) s = map_option snd (NotifyEventHooks E m s h w l)"
| "do_plugin E (P_NotifyFast h w l) s = map_option snd (NotifyFastHook E s h w l)"
| "do_plugin E (P_Hook n f) s = map_option snd (HookEvent E s n f)"
| "do_plugin E (P_HookParam n f p) s = map_option snd (HookEventParam E s n f p)"
| "do_plugin E (P_HookObj n f ob) s = map_option snd (HookEventObj E s n f ob)"
| "do_plugin E (P_HookObjParam n f ob p) s = map_option snd (HookEventObjParam E s n f ob p)"
| "do_plugin E (P_HookTemporary n f) s = map_option snd (HookTemporaryEvent E s n f)"
| "do_plugin E (P_HookMessage n w m) s = map_option snd (HookEventMessage E s n w m)"
| "do_plugin E (P_Unhook h) s = map_option snd (UnhookEvent s h)"
| "do_plugin E (P_KillModuleHooks i) s = KillModuleEventHooks s i"
| "do_plugin E (P_KillObjectHooks ob) s = KillObjectEventHooks s ob"
| "do_plugin E (P_Service ty n f ob p) s = map_option snd (CreateServiceInt E s ty n f ob p)"
| "do_plugin E (P_ProtoService m n f) s = map_option snd (CreateProtoServiceFunction E s m n f)"
| "do_plugin E (P_DestroyService h) s = DestroyServiceFunction s h"
| "do_plugin E (P_Call n w l) s = map_option snd (CallService E s n w l)"
| "do_plugin E (P_CallSync m n w l) s = map_option snd (CallServiceSync E m s n w l)"
| "do_plugin E (P_KillModuleServices i) s = KillModuleServices s i"
| "do_plugin E (P_KillObjectServices ob) s = KillObjectServices s ob"
| "do_plugin E (P_Async m f a) s = CallFunctionAsync E m s f a"
| "do_plugin E (P_Sync m f a) s = map_option snd (CallFunctionSync E m s f a)"
| "do_plugin E P_RunQueue s = map_option snd (run_apc E s)"

primrec do_plugins :: "menv \<Rightarrow> plugin_call list \<Rightarrow> mengine \<Rightarrow> mengine option" where
  "do_plugins E [] s = Some s"
| "do_plugins E (c # cs) s = Option.bind (do_plugin E c s) (do_plugins E cs)"

text \<open>
  Procedures that make the calls \<open>script\<close> says and return the value \<open>ret\<close> says; calls nested
  more than \<open>n\<close> deep only return.
\<close>

primrec plugin_env ::
    "menv \<Rightarrow> (proc_call \<Rightarrow> mengine \<Rightarrow> plugin_call list) \<Rightarrow> (proc_call \<Rightarrow> mengine \<Rightarrow> u64) \<Rightarrow> nat \<Rightarrow> menv" where
  "plugin_env E script ret 0 = E\<lparr>me_call := \<lambda>c s. Some (ret c s, s)\<rparr>"
| "plugin_env E script ret (Suc n) =
     E\<lparr>me_call := \<lambda>c s. map_option (Pair (ret c s)) (do_plugins (plugin_env E script ret n) (script c s) s)\<rparr>"

text \<open>What the engine asks of the procedures it calls: to leave the tables in order.\<close>

locale engine_client =
  fixes E :: menv
  assumes call_orderly: "keeps_with orderly s (me_call E c s)"

lemma call_loop_orderly:
  assumes "call_loop E sel p i s = Some y"
  shows "engine_client E \<longrightarrow> orderly s (snd y)"
  using assms
proof (rule call_loop.raw_induct [where P = "\<lambda>E sel p i s y. engine_client E \<longrightarrow> orderly s (snd y)", rotated], intro impI)
  fix f E' sel p i s y
  assume IH: "\<And>E sel p i s y. f E sel p i s = Some y \<Longrightarrow> engine_client E \<longrightarrow> orderly s (snd y)"
    and r: "do { h \<leftarrow> mm_heap s p;
      if i < th_subscriberCount h then
        do { u \<leftarrow> arr_read (th_subscriber h) (int i);
             case sel u of None \<Rightarrow> f E' sel p (i + 1) s
             | Some c \<Rightarrow> do { (v, s) \<leftarrow> me_call E' c s;
                 if (ucast v :: u32) \<noteq> 0 then Some (Some (ucast v), s) else f E' sel p (i + 1) s } }
      else Some (None, s) } = Some y"
    and E': "engine_client E'"
  obtain h where h: "mm_heap s p = Some h" using r by (auto split: bind_splits)
  show "orderly s (snd y)"
  proof (cases "i < th_subscriberCount h")
    case False
    then have "snd y = s" using r h by auto
    then show ?thesis by (simp add: tables.R_refl)
  next
    case True
    obtain u where u: "arr_read (th_subscriber h) (int i) = Some u"
      using r h True by (auto split: bind_splits)
    show ?thesis
    proof (cases "sel u")
      case None
      then show ?thesis using IH E' r h True u by simp
    next
      case (Some c)
      obtain v t where t: "me_call E' c s = Some (v, t)"
        using r h True u Some by (auto split: bind_splits)
      then have "orderly s t"
        using engine_client.call_orderly [OF E', of s c] by (simp add: keeps_with_def)
      moreover have "y = (Some (ucast v), t) \<or> orderly t (snd y)"
        using IH E' r h True u Some t by (auto split: if_splits)
      ultimately show ?thesis using tables.R_trans by auto
    qed
  qed
qed

context engine_client begin

lemma loop_orderly: "keeps_with orderly s (call_loop E sel p i s)"
  using call_loop_orderly engine_client_axioms by (force simp: keeps_with_def)

lemma default_orderly: "keeps_with orderly s (call_default E s f w l)"
  unfolding call_default_def
  by (auto intro!: tables.keeps_bind_with(2) [OF call_orderly] keeps_one tables.R_refl)

lemma after_loop:
  assumes "\<And>t. keeps_with orderly t (f t)"
  shows "keeps_with orderly s (do { (r, s) \<leftarrow> call_loop E sel p i s; case r of Some v \<Rightarrow> Some (v, s) | None \<Rightarrow> f s })"
  by (rule tables.keeps_bind_with(2) [OF loop_orderly])
    (auto split: option.split intro: keeps_one tables.keeps_later(2) [OF assms])

lemma calls_orderly:
  "keeps_with orderly s (CallHookSubscribers E s p w l)"
  "keeps_with orderly s (CallPluginEventHook E s i n w l)"
  "keeps_with orderly s (CallObjectEventHook E s ob p w l)"
  unfolding CallHookSubscribers_def CallPluginEventHook_def CallObjectEventHook_def
  by (auto intro!: keeps_bind_any(2) after_loop keeps_one tables.R_refl default_orderly)

lemma notify_orderly:
  "keeps_with orderly s (NotifyEventHooks E m s h w l)" "keeps_with orderly s (NotifyFastHook E s h w l)"
proof -
  have "keeps_with orderly s (map_option (\<lambda>(v, s). (g v, s)) r)" if "keeps_with orderly s r" for g and r :: "(u32 \<times> mengine) option"
    using that by (auto simp: keeps_with_def)
  then show "keeps_with orderly s (NotifyEventHooks E m s h w l)"
    unfolding NotifyEventHooks_def
    by (auto split: hook_check.split intro!: keeps_one tables.R_refl other_orderly calls_orderly)
  show "keeps_with orderly s (NotifyFastHook E s h w l)"
    unfolding NotifyFastHook_def
    by (auto split: hook_check.split intro!: keeps_one tables.R_refl calls_orderly)
qed

lemma map_val: "keeps_with orderly s r \<Longrightarrow> keeps_with orderly s (map_option (\<lambda>(v, s). (g v, s)) r)"
  by (auto simp: keeps_with_def)

lemma service_orderly:
  "keeps_with orderly s (CallService E s n w l)"
  "keeps_with orderly s (CallServiceSync E m s n w l)"
  "keeps orderly s (CallFunctionAsync E m s f a)"
  "keeps_with orderly s (CallFunctionSync E m s f a)"
proof -
  show 1: "keeps_with orderly s (CallService E s n w l)" for n
    unfolding CallService_def
    by (auto split: option.split intro!: keeps_bind_any(2) keeps_one tables.R_refl call_orderly)
  show "keeps_with orderly s (CallServiceSync E m s n w l)"
    unfolding CallServiceSync_def
    by (auto split: option.split intro!: keeps_one tables.R_refl map_val 1 other_orderly)
  show "keeps orderly s (CallFunctionAsync E m s f a)"
    unfolding CallFunctionAsync_def by (auto intro!: keeps_one other_orderly keeps_snd call_orderly)
  show "keeps_with orderly s (CallFunctionSync E m s f a)"
    unfolding CallFunctionSync_def by (auto intro!: keeps_one other_orderly map_val call_orderly)
qed

lemma run_apc_orderly: "keeps_with orderly s (run_apc E s)"
proof (cases "mm_apc s")
  case (Cons a as)
  have "orderly s (s\<lparr>mm_apc := as\<rparr>)" by (rule other_orderly) simp_all
  moreover have "keeps_with orderly t (apc_call E a t)" for t
    unfolding apc_call_def by (auto split: apc.split intro!: map_val calls_orderly service_orderly call_orderly)
  ultimately show ?thesis
    by (simp add: run_apc_def Cons) (rule map_val, rule tables.keeps_later(2))
qed (simp add: run_apc_def tables.keeps_Some)

lemma temporary_orderly: "keeps_with orderly s (HookTemporaryEvent E s n f)"
  unfolding HookTemporaryEvent_def
  by (auto intro!: keeps_bind_any(2) tables.keeps_bind_with(2) [OF call_orderly] keeps_one
      add_subscriber_orderly)

lemma do_plugin_orderly: "keeps orderly s (do_plugin E c s)"
proof -
  have default: "keeps_with orderly s (SetHookDefaultForHookableEvent s h f)" for h f
    unfolding SetHookDefaultForHookableEvent_def
    by (auto intro!: keeps_bind_any(2) keeps_one tables.R_refl put_hook_orderly simp: hook_ok_def)
  have hooks: "keeps_with orderly s (HookEvent E s n f)" "keeps_with orderly s (HookEventParam E s n f q)"
    "keeps_with orderly s (HookEventObj E s n f ob)" "keeps_with orderly s (HookEventObjParam E s n f ob q)"
    "keeps_with orderly s (HookEventMessage E s n f m)" for n f q ob m
    unfolding HookEvent_def HookEventParam_def HookEventObj_def HookEventObjParam_def HookEventMessage_def
      HookEventInt_def
    by (rule add_subscriber_orderly; simp)+
  show ?thesis
    by (cases c) (auto intro!: keeps_snd CreateHookableEvent_orderly DestroyHookableEvent_orderly default
        calls_orderly notify_orderly hooks temporary_orderly UnhookEvent_orderly kill_hooks_orderly
        CreateServiceInt_orderly DestroyServiceFunction_orderly service_orderly kill_services_orderly
        run_apc_orderly
        simp: KillModuleEventHooks_def KillObjectEventHooks_def CreateProtoServiceFunction_def
          CreateServiceFunction_def KillModuleServices_def KillObjectServices_def Let_def)
qed

lemma do_plugins_orderly: "keeps orderly s (do_plugins E cs s)"
proof (induction cs arbitrary: s)
  case (Cons c cs)
  show ?case
    unfolding do_plugins.simps
    by (rule tables.keeps_bind(1) [OF do_plugin_orderly]) (rule tables.keeps_later(1) [OF Cons.IH])
qed (simp add: tables.keeps_Some)

end

lemma plugin_env_orderly: "engine_client (plugin_env E script ret n)"
proof (induction n)
  case 0
  show ?case by unfold_locales (simp add: tables.keeps_Some)
next
  case (Suc n)
  have "keeps_with orderly s (map_option (Pair v) (do_plugins (plugin_env E script ret n) cs s))" for v cs s
    by (rule keeps_Pair) (rule engine_client.do_plugins_orderly [OF Suc.IH])
  then show ?case by unfold_locales simp
qed

interpretation plugins: engine_client "plugin_env E script ret n"
  by (rule plugin_env_orderly)

end
