(* ===== verification/MirEngine.thy ===== *)
theory MirEngine imports MirModulesProps begin

text \<open>
  The properties of the modular engine: its tables under every plugin, the order in which an
  event calls its subscribers, the handles of hooks, services and their hashes, and calls from
  other threads through the queue of the main thread.
\<close>

section \<open>Looking services up\<close>

lemma FindService_spec:
  assumes "services_ok s"
  obtains r where "FindServiceByName s name = Some r"
    and "r = None \<longleftrightarrow> mir_hashstr name \<notin> sv_nameHash ` set (contents (mm_services s))"
    and "\<And>v. r = Some v \<Longrightarrow> v \<in> set (contents (mm_services s)) \<and> sv_nameHash v = mir_hashstr name"
proof -
  obtain i vs where vs: "table_rep (NumericKeySortT sv_nameHash) (mm_services s) vs"
    and i: "LIST_getIndex (mm_services s) (Some (service_key (mir_hashstr name))) = Some i"
      "i = -1 \<and> mir_hashstr name \<notin> sv_nameHash ` set vs \<or>
       0 \<le> i \<and> i < int (length vs) \<and> sv_nameHash (vs ! nat i) = mir_hashstr name"
    using service_index [OF assms] by metis
  have rep: "slist_rep (mm_services s) vs" using vs by (simp add: table_rep_def)
  obtain f j where j: "List_GetIndex (mm_services s) (Some (service_key (mir_hashstr name))) = Some (f, j)"
    "i = (if f then j else -1)"
    using i(1) by (auto simp: LIST_getIndex_def split: option.splits)
  show ?thesis
  proof (cases "i = -1")
    case True
    then have "\<not> f"
      using j numeric_table.GetIndex_spec [OF vs, of "service_key (mir_hashstr name)"]
      by (auto simp: search_result_def)
    then show ?thesis
      using that [of None] i True j by (simp add: FindServiceByName_def List_Find_def contents_rep [OF rep])
  next
    case False
    then have b: "0 \<le> i" "i < int (length vs)" "sv_nameHash (vs ! nat i) = mir_hashstr name" using i(2) by auto
    then have "mir_hashstr name \<in> sv_nameHash ` set vs" "vs ! nat i \<in> set vs"
      by (metis image_eqI nat_less_iff nth_mem)+
    moreover have "FindServiceByName s name = Some (Some (vs ! nat i))"
      using j b False rep_read [OF rep b(1,2)]
      by (auto simp: FindServiceByName_def List_Find_def split: if_splits)
    ultimately show ?thesis
      using that [of "Some (vs ! nat i)"] b(3) by (simp add: contents_rep [OF rep])
  qed
qed

lemma services_distinct: "services_ok s \<Longrightarrow> distinct (map sv_nameHash (contents (mm_services s)))"
  by (auto simp: services_ok_def table_rep_def contents_rep)

section \<open>The tables under every plugin\<close>

lemma plugins_ok:
  assumes "do_plugins (plugin_env E script ret n) cs engine_new = Some s"
  shows "hooks_ok s" and "services_ok s"
  using plugins.do_plugins_orderly [of engine_new E script ret n cs] assms engine_ok_new
  by (auto simp: keeps_def orderly_def engine_ok_def)

definition quiet_engine :: menv where
  "quiet_engine =
     \<lparr>me_call = \<lambda>c s. Some (0, s), me_inst = \<lambda>_. 1, me_junk_owner = 0, me_overlay = \<lambda>_. 0, me_junk_lParam = 0\<rparr>"

text \<open>
  C5: whatever plugins do with the engine, from procedures the engine calls as well, its two
  tables stay in order: looking up an event or a service never leaves the tables, an event is
  found exactly if there is one of that name, and a service exactly if the hash of the name is
  the hash of one of the services, which are all different.
\<close>

theorem engine_tables:
  assumes "do_plugins (plugin_env E script ret n) cs engine_new = Some s"
  shows "EventExists s (Some name) = Some (\<exists>p h. mm_heap s p = Some h \<and> th_name h = c_str name) \<and>
    ServiceExists s (Some name) = Some (mir_hashstr name \<in> sv_nameHash ` set (contents (mm_services s))) \<and>
    distinct (map sv_nameHash (contents (mm_services s)))"
proof -
  note ok = plugins_ok [OF assms]
  obtain idx where idx: "hook_index s name = Some idx" using hook_index_total [OF ok(1)] by blast
  then have "EventExists s (Some name) = Some (\<exists>p h. mm_heap s p = Some h \<and> th_name h = c_str name)"
    using hook_index_missing [OF ok(1), of name] by (auto simp: EventExists_def)
  moreover obtain r where r: "FindServiceByName s name = Some r"
    "r = None \<longleftrightarrow> mir_hashstr name \<notin> sv_nameHash ` set (contents (mm_services s))"
    using FindService_spec [OF ok(2)] by metis
  ultimately show ?thesis using services_distinct [OF ok(2)] by (cases r) (simp_all add: ServiceExists_def)
qed


definition demo_script :: "proc_call \<Rightarrow> mengine \<Rightarrow> plugin_call list" where
  "demo_script c s = (case c of Proc f w l \<Rightarrow> if f = 7 then [P_Create (Some [66]), P_Unhook 65537] else [] | _ \<Rightarrow> [])"

definition demo_calls :: "plugin_call list" where
  "demo_calls =
     [P_Create (Some [65]), P_Hook [65] 7, P_Hook [65] 8, P_Service 0 (Some [83]) 9 0 0, P_Notify True 1 0 0]"

definition demo_engine :: "mengine option" where
  "demo_engine = do_plugins (plugin_env quiet_engine demo_script (\<lambda>_ _. 0) 1) demo_calls engine_new"

theorem engine_tables_witness:
  "\<exists>s. demo_engine = Some s \<and>
    (\<exists>p h. mm_heap s p = Some h \<and> th_name h = c_str [66]) \<and> EventExists s (Some [66]) = Some True \<and>
    mir_hashstr [83] \<in> sv_nameHash ` set (contents (mm_services s)) \<and>
    distinct (map sv_nameHash (contents (mm_services s)))"
proof -
  have 1: "(case demo_engine of None \<Rightarrow> False | Some s \<Rightarrow> EventExists s (Some [66]) = Some True \<and>
      ServiceExists s (Some [83]) = Some True)"
    by code_simp
  then obtain s where s: "demo_engine = Some s" "EventExists s (Some [66]) = Some True"
    "ServiceExists s (Some [83]) = Some True"
    by (auto split: option.splits)
  then show ?thesis
    using engine_tables [OF s(1) [unfolded demo_engine_def], of "[66]"]
      engine_tables [OF s(1) [unfolded demo_engine_def], of "[83]"]
    by (intro exI [of _ s]) (simp add: s)
qed

section \<open>The subscribers of an event\<close>

definition subscribers :: "THook \<Rightarrow> THookSubscriber list" where
  "subscribers h = map the (take (th_subscriberCount h) (th_subscriber h))"

lemma subscribers_block:
  assumes "hook_ok h"
  shows "take (th_subscriberCount h) (th_subscriber h) = map Some (subscribers h)"
    and "length (subscribers h) = th_subscriberCount h"
    and "i < th_subscriberCount h \<Longrightarrow> arr_read (th_subscriber h) (int i) = Some (subscribers h ! i)"
    and "subscribers h \<noteq> [] \<Longrightarrow> hs_type (last (subscribers h)) \<noteq> 0"
proof -
  obtain us where us: "take (th_subscriberCount h) (th_subscriber h) = map Some us" "length us = th_subscriberCount h"
    "us \<noteq> [] \<longrightarrow> hs_type (last us) \<noteq> 0"
    using assms by (auto simp: hook_ok_def)
  then have eq: "subscribers h = us" by (simp add: subscribers_def comp_def)
  show "take (th_subscriberCount h) (th_subscriber h) = map Some (subscribers h)"
    "length (subscribers h) = th_subscriberCount h"
    "subscribers h \<noteq> [] \<Longrightarrow> hs_type (last (subscribers h)) \<noteq> 0"
    using us eq by simp_all
  have "th_subscriberCount h \<le> length (th_subscriber h)"
    using us by (metis length_map length_take min.cobounded1)
  then show "i < th_subscriberCount h \<Longrightarrow> arr_read (th_subscriber h) (int i) = Some (subscribers h ! i)"
    using take_map_Some_nth [OF us(1), of i] us(2) eq by (simp add: arr_read_nat)
qed

text \<open>The calls made until one returns something other than zero, and the value returned.\<close>

fun calls_until :: "(proc_call \<Rightarrow> u64) \<Rightarrow> proc_call list \<Rightarrow> proc_call list" where
  "calls_until f [] = []"
| "calls_until f (c # cs) = c # (if (ucast (f c) :: u32) \<noteq> 0 then [] else calls_until f cs)"

fun answer :: "(proc_call \<Rightarrow> u64) \<Rightarrow> proc_call list \<Rightarrow> u32" where
  "answer f [] = 0"
| "answer f (c # cs) = (if (ucast (f c) :: u32) \<noteq> 0 then ucast (f c) else answer f cs)"

text \<open>
  What the loop does with procedures that leave the event alone: they return \<open>f\<close> and do \<open>log\<close>
  to the engine.
\<close>

lemma call_loop_calls:
  assumes "hook_ok h"
    and "\<And>c s. me_call E c s = Some (f c, log c s)" and "\<And>c s. mm_heap (log c s) p = mm_heap s p"
    and "mm_heap s p = Some h" and "i \<le> th_subscriberCount h"
  shows "let cs = List.map_filter sel (drop i (subscribers h)) in call_loop E sel p i s =
    Some (if answer f cs = 0 then None else Some (answer f cs), fold log (calls_until f cs) s)"
  using assms(4,5) unfolding Let_def
proof (induction "th_subscriberCount h - i" arbitrary: i s)
  case 0
  then have "i = th_subscriberCount h" by simp
  then show ?case
    using 0 subscribers_block(2) [OF assms(1)]
    by (subst call_loop.simps) (simp add: map_filter_simps)
next
  case (Suc n)
  then have i: "i < th_subscriberCount h" by simp
  then have d: "drop i (subscribers h) = subscribers h ! i # drop (Suc i) (subscribers h)"
    using subscribers_block(2) [OF assms(1)] by (simp add: Cons_nth_drop_Suc)
  have IH: "mm_heap t p = Some h \<Longrightarrow> call_loop E sel p (Suc i) t =
      Some (if answer f (List.map_filter sel (drop (Suc i) (subscribers h))) = 0 then None
        else Some (answer f (List.map_filter sel (drop (Suc i) (subscribers h)))),
        fold log (calls_until f (List.map_filter sel (drop (Suc i) (subscribers h)))) t)" for t
    using Suc i by simp
  show ?case
  proof (cases "sel (subscribers h ! i)")
    case None
    then show ?thesis
      using IH [OF Suc.prems(1)] Suc.prems(1) i subscribers_block(3) [OF assms(1) i]
      by (subst call_loop.simps) (simp add: d map_filter_simps)
  next
    case (Some c)
    have t: "mm_heap (log c s) p = Some h" using assms(3) Suc.prems(1) by simp
    show ?thesis
      using IH [OF t] Suc.prems(1) i subscribers_block(3) [OF assms(1) i] Some assms(2)
      by (subst call_loop.simps) (simp add: d map_filter_simps)
  qed
qed

lemma calls_append:
  "calls_until f (cs @ ds) = (if answer f cs = 0 then calls_until f cs @ calls_until f ds else calls_until f cs)"
  "answer f (cs @ ds) = (if answer f cs = 0 then answer f ds else answer f cs)"
  by (induction cs) auto

text \<open>The calls of an event: its subscribers in the order they hooked it, then its default.\<close>

definition event_calls :: "THook \<Rightarrow> u64 \<Rightarrow> u64 \<Rightarrow> proc_call list" where
  "event_calls h wParam lParam =
     List.map_filter (\<lambda>u. subscriber_call u wParam lParam) (subscribers h) @
     (if th_pfnHook h \<noteq> 0 then [Proc (th_pfnHook h) wParam lParam] else [])"

lemma fold_log_heap:
  "(\<And>c s. mm_heap (log c s) p = mm_heap s p) \<Longrightarrow> mm_heap (fold log cs s) p = mm_heap s p"
  by (induction cs arbitrary: s) auto

lemma event_calls_empty:
  "hook_ok h \<Longrightarrow> th_subscriberCount h = 0 \<Longrightarrow> th_pfnHook h = 0 \<Longrightarrow> event_calls h w l = []"
  by (simp add: event_calls_def subscribers_def map_filter_simps)

lemma CallHookSubscribers_calls:
  assumes "hook_ok h"
    and "\<And>c s. me_call E c s = Some (f c, log c s)" and "\<And>c s. mm_heap (log c s) p = mm_heap s p"
    and "mm_heap s p = Some h" and "p \<noteq> 0"
  shows "CallHookSubscribers E s p w l =
    Some (answer f (event_calls h w l), fold log (calls_until f (event_calls h w l)) s)"
  using call_loop_calls [OF assms(1-4), of 0 "\<lambda>u. subscriber_call u w l"] assms(2-5)
    fold_log_heap [of log p, OF assms(3)]
  by (simp add: Let_def CallHookSubscribers_def event_calls_def calls_append call_default_def)

definition three_hooks :: "mengine option" where
  "three_hooks = do_plugins (plugin_env quiet_engine demo_script (\<lambda>_ _. 0) 0)
     [P_Create (Some [65]), P_Hook [65] 7, P_Hook [65] 8, P_Hook [65] 9, P_SetDefault 1 10] engine_new"

section \<open>Handles\<close>

lemma not_bit_small: "n < 2 ^ 16 \<Longrightarrow> 16 \<le> k \<Longrightarrow> \<not> bit (n :: nat) k"
  by (metis bit_take_bit_iff linorder_not_le take_bit_nat_eq_self_iff)

lemma handle_id:
  assumes "n < 2 ^ 16"
  shows "(ucast (signed_drop_bit 16 (hook_handle hid n)) :: u32) = scast (ucast hid :: u16)"
proof (rule bit_word_eqI)
  fix k
  assume "k < LENGTH(32)"
  moreover have "min 31 (16 + k) - 16 = min 15 k" by simp
  ultimately show "bit (ucast (signed_drop_bit 16 (hook_handle hid n)) :: u32) k =
      bit (scast (ucast hid :: u16) :: u32) k"
    using not_bit_small [OF assms] by (auto simp: hook_handle_def bit_simps)
qed

lemma handle_number:
  assumes "n < 2 ^ 16"
  shows "hook_handle hid n AND 0xFFFF = of_nat n"
proof -
  have "hook_handle hid n AND 0xFFFF = take_bit 16 (hook_handle hid n)"
    by (simp add: take_bit_eq_mask mask_eq_exp_minus_1)
  also have "\<dots> = of_nat n"
  proof (rule bit_word_eqI)
    fix k
    assume "k < LENGTH(64)"
    moreover have "k < 16 \<Longrightarrow> min 31 k = k" by simp
    ultimately show "bit (take_bit 16 (hook_handle hid n)) k = bit (of_nat n :: u64) k"
      using not_bit_small [OF assms, of k] by (cases "k < 16") (auto simp: hook_handle_def bit_simps)
  qed
  finally show ?thesis .
qed

lemma small_id:
  assumes "p < 2 ^ 15"
  shows "(scast (ucast (of_nat p :: u32) :: u16) :: u32) = of_nat p"
proof (rule bit_word_eqI)
  fix k
  have "15 \<le> j \<Longrightarrow> \<not> bit p j" for j
    using assms by (metis bit_take_bit_iff linorder_not_le take_bit_nat_eq_self_iff)
  moreover assume "k < LENGTH(32)"
  ultimately show "bit (scast (ucast (of_nat p :: u32) :: u16) :: u32) k = bit (of_nat p :: u32) k"
    by (cases "k < 15") (auto simp: bit_simps)
qed

lemma large_id:
  assumes "2 ^ 15 \<le> p" and "p < 2 ^ 16" and "q < 2 ^ 16"
  shows "(scast (ucast (of_nat p :: u32) :: u16) :: u32) \<noteq> of_nat q"
proof
  assume eq: "(scast (ucast (of_nat p :: u32) :: u16) :: u32) = of_nat q"
  have "p div 2 ^ 15 = 1" by (rule div_nat_eqI) (use assms(1,2) in simp_all)
  then have "bit p 15" by (simp add: bit_iff_odd)
  then have "bit (scast (ucast (of_nat p :: u32) :: u16) :: u32) 16"
    by (auto simp: bit_simps)
  moreover have "\<not> bit (of_nat q :: u32) 16"
    using not_bit_small [OF assms(3), of 16] by (auto simp: bit_simps)
  ultimately show False using eq by simp
qed

text \<open>The event an id belongs to.\<close>

lemma find_hook_none:
  assumes "hooks_rep s xs" and "heap_hooks_ok s" and "i + n = length xs"
    and "\<And>p h. mm_heap s p = Some h \<Longrightarrow> of_nat p \<noteq> hid"
  shows "find_hook s hid n (int i) = Some None"
  using assms(3)
proof (induction n arbitrary: i)
  case (Suc n)
  obtain m p where e: "xs ! i = (m, p)" by force
  have "(m, p) \<in> set xs" using e Suc.prems nth_mem [of i xs] by simp
  then obtain h where h: "mm_heap s p = Some h" using assms(1) by (auto simp: hooks_rep_def)
  have "arr_read (items (mm_hooks s)) (int i) = Some (m, p)"
    using rep_read [of "mm_hooks s" xs "int i"] assms(1) Suc.prems e by (simp add: hooks_rep_def table_rep_def)
  moreover have "th_id h \<noteq> hid" using assms(2,4) h by (simp add: heap_hooks_ok_def)
  ultimately show ?case using Suc.IH [of "Suc i"] Suc.prems h by (simp add: add.commute)
qed simp

lemma find_hook_some:
  assumes "hooks_rep s xs" and "heap_hooks_ok s" and "i + n = length xs"
    and "mm_next s \<le> 2 ^ 32" and "p \<in> snd ` set (drop i xs)"
  shows "find_hook s (of_nat p) n (int i) = Some (Some p)"
  using assms(3,5)
proof (induction n arbitrary: i)
  case (Suc n)
  obtain m q where e: "xs ! i = (m, q)" by force
  have "(m, q) \<in> set xs" using e Suc.prems(1) nth_mem [of i xs] by simp
  then obtain h where h: "mm_heap s q = Some h" using assms(1) by (auto simp: hooks_rep_def)
  have r: "arr_read (items (mm_hooks s)) (int i) = Some (m, q)"
    using rep_read [of "mm_hooks s" xs "int i"] assms(1) Suc.prems(1) e by (simp add: hooks_rep_def table_rep_def)
  have q: "th_id h = of_nat q" "q < 2 ^ 32" using assms(2,4) h by (force simp: heap_hooks_ok_def)+
  have d: "drop i xs = (m, q) # drop (Suc i) xs"
    using e Suc.prems(1) by (simp add: Cons_nth_drop_Suc [symmetric])
  have "p \<in> snd ` set xs" using Suc.prems(2) by (auto dest: in_set_dropD)
  then have "p < 2 ^ 32" using assms(1,2,4) by (force simp: hooks_rep_def heap_hooks_ok_def)
  then have same: "th_id h = of_nat p \<longleftrightarrow> q = p"
    using q by (auto simp: word_unat_eq_iff unat_of_nat)
  show ?case
  proof (cases "q = p")
    case True
    then show ?thesis using r h same by simp
  next
    case False
    then have "p \<in> snd ` set (drop (Suc i) xs)" using Suc.prems(2) d by auto
    then show ?thesis using Suc.IH [of "Suc i"] Suc.prems(1) r h same False by (simp add: add.commute)
  qed
qed simp

lemma find_hook_spec:
  assumes "hooks_ok s"
  shows "mm_next s \<le> 2 ^ 32 \<Longrightarrow> mm_heap s p = Some h \<Longrightarrow>
      find_hook s (of_nat p) (nat (realCount (mm_hooks s))) 0 = Some (Some p)"
    and "(\<And>p h. mm_heap s p = Some h \<Longrightarrow> of_nat p \<noteq> hid) \<Longrightarrow>
      find_hook s hid (nat (realCount (mm_hooks s))) 0 = Some None"
proof -
  obtain xs where xs: "hooks_rep s xs" using assms by (auto simp: hooks_ok_def)
  have heap: "heap_hooks_ok s" using assms by (simp add: hooks_ok_def)
  have n: "nat (realCount (mm_hooks s)) = length xs"
    using xs by (simp add: hooks_rep_def table_rep_def slist_rep_def)
  show "(\<And>p h. mm_heap s p = Some h \<Longrightarrow> of_nat p \<noteq> hid) \<Longrightarrow>
      find_hook s hid (nat (realCount (mm_hooks s))) 0 = Some None"
    unfolding n using find_hook_none [OF xs heap, of 0] by simp
  assume "mm_next s \<le> 2 ^ 32" and "mm_heap s p = Some h"
  moreover have "(th_name h, p) \<in> set xs" using xs calculation(2) by (auto simp: hooks_rep_def)
  then have "p \<in> snd ` set xs" by force
  ultimately show "find_hook s (of_nat p) (nat (realCount (mm_hooks s))) 0 = Some (Some p)"
    unfolding n using find_hook_some [OF xs heap, of 0 "length xs" p] by simp
qed

text \<open>What hooking does.\<close>

lemma hook_spec:
  assumes "hooks_ok s" and "HookEventInt E s type name f ob lp = Some (Some hh, t)"
  obtains p h b u where "mm_heap s p = Some h" and "th_name h = c_str name"
    and "hh = hook_handle (of_nat p) (th_subscriberCount h + 1)"
    and "u = \<lparr>hs_hOwner = me_inst E f, hs_type = type, hs_pfnHook = f, hs_object = ob,
            hs_lParam = lp, hs_hwnd = f, hs_message = of_nat ob\<rparr>"
    and "arr_write (arr_realloc (th_subscriber h) (int (th_subscriberCount h) + 1))
      (int (th_subscriberCount h)) (Some u) = Some b"
    and "t = put_hook s p (h\<lparr>th_subscriber := b, th_subscriberCount := th_subscriberCount h + 1\<rparr>)"
proof -
  obtain idx where idx: "hook_index s name = Some idx" "idx \<noteq> -1"
    using assms(2) by (auto simp: HookEventInt_def add_subscriber_def split: bind_splits if_splits)
  obtain p h where p: "LIST_at (mm_hooks s) idx = Some (c_str name, p)" "mm_heap s p = Some h" "th_name h = c_str name"
    using hook_index_found [OF assms(1) idx] by blast
  have "th_id h = of_nat p" using assms(1) p(2) by (simp add: hooks_ok_def heap_hooks_ok_def)
  then show ?thesis
    using assms(2) idx p that [OF p(2,3) _ refl]
    by (auto simp: HookEventInt_def add_subscriber_def Let_def split: bind_splits)
qed

lemma added_subscribers:
  assumes "hook_ok h" and "arr_write (arr_realloc (th_subscriber h) (int (th_subscriberCount h) + 1))
      (int (th_subscriberCount h)) (Some u) = Some b"
  shows "take (th_subscriberCount h + 1) b = map Some (subscribers h @ [u])"
    and "length b = th_subscriberCount h + 1"
proof -
  let ?n = "th_subscriberCount h" and ?b = "arr_realloc (th_subscriber h) (int (th_subscriberCount h) + 1)"
  have us: "take ?n (th_subscriber h) = map Some (subscribers h)" "length (subscribers h) = ?n"
    using subscribers_block [OF assms(1)] by auto
  have len: "?n \<le> length (th_subscriber h)" using us by (metis length_map length_take min.cobounded1)
  have b: "b = ?b[?n := Some u]" using assms(2) arr_write_nat [of ?n ?b] by (simp add: nat_add_distrib)
  show "length b = ?n + 1" unfolding b by (simp add: nat_add_distrib)
  have "take (?n + 1) b = take ?n ?b @ [Some u]"
    unfolding b by (simp add: nat_add_distrib upd_conv_take_nth_drop)
  also have "take ?n ?b = map Some (subscribers h)" using us len by simp
  finally show "take (?n + 1) b = map Some (subscribers h @ [u])" by simp
qed

lemma subscribers_eq: "take (th_subscriberCount h) (th_subscriber h) = map Some us \<Longrightarrow> subscribers h = us"
  by (simp add: subscribers_def comp_def)

text \<open>Unhooking the last subscriber.\<close>

lemma trim_full:
  assumes "take n b = map Some us" and "length us = n" and "us \<noteq> [] \<longrightarrow> hs_type (last us) \<noteq> 0"
  shows "trim_count b n = Some n"
proof (cases n)
  case (Suc m)
  have "m < length b" using assms(1,2) Suc by (metis length_map length_take lessI min_less_iff_conj)
  moreover have "last us = us ! m" using assms(2) Suc by (subst last_conv_nth) auto
  ultimately have "arr_read b (int m) = Some (last us)"
    using take_map_Some_nth [OF assms(1), of m] assms(2) Suc by (simp add: arr_read_nat)
  then show ?thesis using assms(2,3) Suc by auto
qed simp

lemma unhook_last:
  assumes "mm_heap t p = Some g" and "take (th_subscriberCount g) (th_subscriber g) = map Some (us @ [u])"
    and "th_subscriberCount g = length us + 1" and "us \<noteq> [] \<longrightarrow> hs_type (last us) \<noteq> 0"
  obtains g' where "unhook_slot t p (int (length us)) = Some (0, put_hook t p g')"
    and "subscribers g' = us" and "th_subscriberCount g' = length us" and "th_name g' = th_name g"
    and "th_id g' = th_id g" and "th_pfnHook g' = th_pfnHook g"
    and "th_secretSignature g' = th_secretSignature g"
proof -
  let ?n = "length us" and ?u = "u\<lparr>hs_type := 0, hs_pfnHook := 0, hs_hwnd := 0, hs_hOwner := 0\<rparr>"
  have len: "?n < length (th_subscriber g)"
    using assms(2,3) by (metis length_append_singleton length_map length_take less_add_one min.cobounded1
        order_less_le_trans Suc_eq_plus1)
  have r: "arr_read (th_subscriber g) (int ?n) = Some u"
    using take_map_Some_nth [OF assms(2), of ?n] len by (simp add: arr_read_nat)
  let ?b = "(th_subscriber g)[?n := Some ?u]"
  have w: "arr_write (th_subscriber g) (int ?n) (Some ?u) = Some ?b" using len by (simp add: arr_write_nat)
  have tb: "take ?n ?b = map Some us"
    using block_parts(1) [OF assms(2), of ?n] assms(3) by (simp add: take_list_update_same)
  have "arr_read ?b (int ?n) = Some ?u" using len by (simp add: arr_read_nat)
  then have trim: "trim_count ?b (th_subscriberCount g) = Some ?n"
    using trim_full [OF tb refl assms(4)] assms(3) by simp
  let ?g = "g\<lparr>th_subscriberCount := ?n, th_subscriber := if ?n = 0 then [] else ?b\<rparr>"
  have "unhook_slot t p (int ?n) = Some (0, put_hook t p ?g)"
    using assms(1,3) r w trim
    by (simp add: unhook_slot_def del: trim_count.simps split del: if_split)
  moreover have "subscribers ?g = us"
    using tb by (intro subscribers_eq) auto
  ultimately show ?thesis using that [of ?g] by simp
qed

text \<open>
  The numbers of the events and of their subscribers fit into handles.
\<close>

definition handles_fit :: "mengine \<Rightarrow> bool" where
  "handles_fit s \<longleftrightarrow> int (mm_next s) \<le> 32768 \<and>
     (\<forall>e \<in> set (contents (mm_hooks s)).
        case mm_heap s (snd e) of None \<Rightarrow> True | Some h \<Rightarrow> int (th_subscriberCount h) < 65535)"

lemma hooks_contents: "hooks_ok s \<Longrightarrow> mm_heap s p = Some h \<Longrightarrow> (th_name h, p) \<in> set (contents (mm_hooks s))"
  by (auto simp: hooks_ok_def hooks_rep_def table_rep_def contents_rep)

lemma handles_fitD:
  "hooks_ok s \<Longrightarrow> handles_fit s \<Longrightarrow> mm_heap s p = Some h \<Longrightarrow> p < 2 ^ 15 \<and> th_subscriberCount h + 1 < 2 ^ 16"
  using hooks_contents [of s p h] by (force simp: handles_fit_def hooks_ok_def heap_hooks_ok_def)

lemma word_number: "n < 2 ^ 16 \<Longrightarrow> uint (of_nat n :: u64) = int n"
  by (simp add: unsigned_of_nat take_bit_nat_eq_self)

text \<open>
  Both together: unhooking with the handle of a subscriber that was just added, for an event
  whose number fits the handle.
\<close>

lemma hook_then_unhook:
  assumes "engine_ok s" and "handles_fit s"
    and "HookEventInt E s type name f ob lp = Some (Some hh, t)" and "type \<noteq> 0"
  obtains u p h g where "UnhookEvent t hh = Some (0, u)" and "mm_heap s p = Some h"
    and "th_name h = c_str name" and "hh = hook_handle (of_nat p) (th_subscriberCount h + 1)"
    and "u = put_hook s p g" and "subscribers g = subscribers h" and "g = h\<lparr>th_subscriber := th_subscriber g\<rparr>"
    and "engine_ok u"
proof -
  have ok: "hooks_ok s" using assms(1) by (simp add: engine_ok_def)
  obtain p h b v where h: "mm_heap s p = Some h" "th_name h = c_str name"
    and hh: "hh = hook_handle (of_nat p) (th_subscriberCount h + 1)"
    and v: "v = \<lparr>hs_hOwner = me_inst E f, hs_type = type, hs_pfnHook = f, hs_object = ob,
            hs_lParam = lp, hs_hwnd = f, hs_message = of_nat ob\<rparr>"
    and b: "arr_write (arr_realloc (th_subscriber h) (int (th_subscriberCount h) + 1))
      (int (th_subscriberCount h)) (Some v) = Some b"
    and t: "t = put_hook s p (h\<lparr>th_subscriber := b, th_subscriberCount := th_subscriberCount h + 1\<rparr>)"
    using hook_spec [OF ok assms(3)] .
  let ?n = "th_subscriberCount h" and ?h = "h\<lparr>th_subscriber := b, th_subscriberCount := th_subscriberCount h + 1\<rparr>"
  have hok: "hook_ok h" using ok h(1) by (simp add: hooks_ok_def heap_hooks_ok_def)
  have p: "p < 2 ^ 15" and n: "?n + 1 < 2 ^ 16" using handles_fitD [OF ok assms(2) h(1)] by auto
  have tok: "engine_ok t"
    using add_orderly [OF h(1) b] assms(1,4) v t by (simp add: orderly_def)
  have tp: "mm_heap t p = Some ?h" "mm_next t \<le> 2 ^ 32" "th_subscriberCount ?h = length (subscribers h) + 1"
    using assms(2) subscribers_block(2) [OF hok] by (simp_all add: handles_fit_def t put_hook_def)
  have tb: "take (th_subscriberCount ?h) (th_subscriber ?h) = map Some (subscribers h @ [v])"
    using added_subscribers(1) [OF hok b] by simp
  obtain g' where g': "unhook_slot t p (int (length (subscribers h))) = Some (0, put_hook t p g')"
    "subscribers g' = subscribers h" "th_subscriberCount g' = length (subscribers h)" "th_name g' = th_name h"
    "th_id g' = th_id h" "th_pfnHook g' = th_pfnHook h" "th_secretSignature g' = th_secretSignature h"
    using unhook_last [OF tp(1) tb tp(3)] subscribers_block(4) [OF hok] by auto
  have num: "uint (hh AND 0xFFFF) = int ?n + 1"
    unfolding hh handle_number [OF n] word_number [OF n] by simp
  then have nz: "hh \<noteq> 0" by auto
  have "UnhookEvent t hh = Some (0, put_hook t p g')"
    using nz num find_hook_spec(1) [of t p ?h] tok tp(1,2) g'(1) handle_id [OF n, of "of_nat p"]
      small_id [OF p] subscribers_block(2) [OF hok]
    by (simp add: UnhookEvent_def engine_ok_def hh)
  moreover have "put_hook t p g' = put_hook s p g'" by (simp add: t put_hook_def)
  moreover have "g' = h\<lparr>th_subscriber := th_subscriber g'\<rparr>"
    using g'(3-7) subscribers_block(2) [OF hok] by (intro THook.equality) simp_all
  moreover have "engine_ok (put_hook t p g')"
    using UnhookEvent_orderly [of t hh] calculation(1) tok by (simp add: keeps_with_def orderly_def)
  ultimately show ?thesis using that [of "put_hook t p g'" p h g'] h hh g'(2) by simp
qed

lemma plugins_engine_ok: "do_plugins (plugin_env E script ret n) cs engine_new = Some s \<Longrightarrow> engine_ok s"
  using plugins_ok by (simp add: engine_ok_def)

text \<open>
  C22: hooking an event and unhooking it with the handle leaves the engine as it was: no other
  event has changed, and the event has the subscribers, in their order, that it had.  So it is
  in an engine in which fewer than 32768 events were created, and for the first 65534
  subscribers of an event.
\<close>

theorem hook_unhook:
  assumes "do_plugins (plugin_env E script ret n) cs engine_new = Some s" and "handles_fit s"
    and "HookEvent E' s name f = Some (Some hh, t)"
  shows "\<exists>u. UnhookEvent t hh = Some (0, u) \<and> u\<lparr>mm_heap := mm_heap s\<rparr> = s \<and>
    (\<forall>p. map_option (\<lambda>h. (h\<lparr>th_subscriber := []\<rparr>, subscribers h)) (mm_heap u p) =
         map_option (\<lambda>h. (h\<lparr>th_subscriber := []\<rparr>, subscribers h)) (mm_heap s p))"
proof -
  obtain u p h g where u: "UnhookEvent t hh = Some (0, u)" "mm_heap s p = Some h" "u = put_hook s p g"
    "subscribers g = subscribers h" "g = h\<lparr>th_subscriber := th_subscriber g\<rparr>"
    by (rule hook_then_unhook [OF plugins_engine_ok [OF assms(1)] assms(2) assms(3) [unfolded HookEvent_def] one_neq_zero])
  have "g\<lparr>th_subscriber := []\<rparr> = h\<lparr>th_subscriber := []\<rparr>"
    by (subst u(5)) simp
  then show ?thesis using u(1-4) by (auto simp: put_hook_def)
qed

theorem hook_unhook_witness:
  "\<exists>s hh t u. three_hooks = Some s \<and> HookEvent quiet_engine s [65] 11 = Some (Some hh, t) \<and>
    UnhookEvent t hh = Some (0, u) \<and> u\<lparr>mm_heap := mm_heap s\<rparr> = s"
proof -
  have 1: "(case three_hooks of None \<Rightarrow> False | Some s \<Rightarrow> handles_fit s \<and>
      (case HookEvent quiet_engine s [65] 11 of Some (Some hh, t) \<Rightarrow> True | _ \<Rightarrow> False))"
    by code_simp
  then obtain s hh t where s: "three_hooks = Some s" "handles_fit s"
    "HookEvent quiet_engine s [65] 11 = Some (Some hh, t)"
    by (auto split: option.splits)
  show ?thesis
    using hook_unhook [OF s(1) [unfolded three_hooks_def] s(2,3)] s by blast
qed

subsection \<open>Notifying an event\<close>

text \<open>The ways to hook an event with a procedure, and the call that is made for each.\<close>

datatype hooking = Hook nat | Hook_param nat u64 | Hook_obj nat nat | Hook_obj_param nat nat u64

primrec do_hooking :: "menv \<Rightarrow> mengine \<Rightarrow> bytes \<Rightarrow> hooking \<Rightarrow> (u64 option \<times> mengine) option" where
  "do_hooking E s name (Hook f) = HookEvent E s name f"
| "do_hooking E s name (Hook_param f x) = HookEventParam E s name f x"
| "do_hooking E s name (Hook_obj f ob) = HookEventObj E s name f ob"
| "do_hooking E s name (Hook_obj_param f ob x) = HookEventObjParam E s name f ob x"

fun hook_all :: "menv \<Rightarrow> mengine \<Rightarrow> bytes \<Rightarrow> hooking list \<Rightarrow> mengine option" where
  "hook_all E s name [] = Some s"
| "hook_all E s name (k # ks) = do { (r, s) \<leftarrow> do_hooking E s name k; hook_all E s name ks }"

primrec hooking_call :: "u64 \<Rightarrow> u64 \<Rightarrow> hooking \<Rightarrow> proc_call" where
  "hooking_call w l (Hook f) = Proc f w l"
| "hooking_call w l (Hook_param f x) = ProcParam f w l x"
| "hooking_call w l (Hook_obj f ob) = ProcObj f ob w l"
| "hooking_call w l (Hook_obj_param f ob x) = ProcObjParam f ob w l x"

definition only_event :: "mengine \<Rightarrow> nat \<Rightarrow> THook \<Rightarrow> bool" where
  "only_event s p h \<longleftrightarrow> mm_heap s p = Some h \<and>
     (\<forall>q g. mm_heap s q = Some g \<longrightarrow> th_name g = th_name h \<longrightarrow> q = p)"

lemma hooks_one:
  assumes "engine_ok s" and "only_event s p h"
  obtains r t g u where "do_hooking E s (th_name h) k = Some (r, t)" and "engine_ok t" and "only_event t p g"
    and "th_name g = th_name h" and "th_pfnHook g = th_pfnHook h" and "subscribers g = subscribers h @ [u]"
    and "\<And>w l. subscriber_call u w l = Some (hooking_call w l k)"
proof -
  have ok: "hooks_ok s" and h: "mm_heap s p = Some h" and hok: "hook_ok h"
    using assms by (auto simp: engine_ok_def only_event_def hooks_ok_def heap_hooks_ok_def)
  have name: "c_str (th_name h) = th_name h" using hook_name_ok [OF ok h] .
  obtain idx where idx: "hook_index s (th_name h) = Some idx" using hook_index_total [OF ok] by blast
  moreover have "hook_index s (th_name h) \<noteq> Some (-1)"
    using hook_index_missing [OF ok] h name by metis
  ultimately have ne: "idx \<noteq> -1" by auto
  obtain q g where "LIST_at (mm_hooks s) idx = Some (th_name h, q)" "mm_heap s q = Some g" "th_name g = th_name h"
    using hook_index_found [OF ok idx ne] name by auto
  then have at: "LIST_at (mm_hooks s) idx = Some (th_name h, p)"
    using assms(2) by (auto simp: only_event_def)
  obtain ty f ob x where k: "do_hooking E s (th_name h) k = HookEventInt E s ty (th_name h) f ob x" "ty \<noteq> 0"
    and c: "\<And>w l. subscriber_call \<lparr>hs_hOwner = me_inst E f, hs_type = ty, hs_pfnHook = f, hs_object = ob,
            hs_lParam = x, hs_hwnd = f, hs_message = of_nat ob\<rparr> w l = Some (hooking_call w l k)"
    by (cases k) (simp_all add: HookEvent_def HookEventParam_def HookEventObj_def HookEventObjParam_def
      subscriber_call_def that)
  let ?u = "\<lparr>hs_hOwner = me_inst E f, hs_type = ty, hs_pfnHook = f, hs_object = ob,
            hs_lParam = x, hs_hwnd = f, hs_message = of_nat ob\<rparr>"
  let ?n = "th_subscriberCount h" and ?b = "arr_realloc (th_subscriber h) (int (th_subscriberCount h) + 1)"
  obtain b where b: "arr_write ?b (int ?n) (Some ?u) = Some b"
    using arr_write_nat [of ?n ?b "Some ?u"] by (simp add: nat_add_distrib)
  let ?g = "h\<lparr>th_subscriber := b, th_subscriberCount := ?n + 1\<rparr>"
  have run: "do_hooking E s (th_name h) k = Some (Some (hook_handle (th_id h) (?n + 1)), put_hook s p ?g)"
    using idx ne at h b by (simp add: k(1) HookEventInt_def add_subscriber_def Let_def)
  show ?thesis
  proof (rule that [OF run])
    show "engine_ok (put_hook s p ?g)"
      using add_orderly [OF h b] k(2) assms(1) by (simp add: orderly_def)
    show "only_event (put_hook s p ?g) p ?g"
      using assms(2) by (auto simp: only_event_def put_hook_def)
    show "subscribers ?g = subscribers h @ [?u]"
      using added_subscribers(1) [OF hok b] by (intro subscribers_eq) simp
  qed (simp_all add: c)
qed

lemma hooks_in_order:
  assumes "engine_ok s" and "only_event s p h"
  shows "\<exists>t g us. hook_all E s (th_name h) ks = Some t \<and> engine_ok t \<and> mm_heap t p = Some g \<and>
    th_pfnHook g = th_pfnHook h \<and> subscribers g = subscribers h @ us \<and>
    (\<forall>w l. map (\<lambda>u. subscriber_call u w l) us = map (Some \<circ> hooking_call w l) ks)"
  using assms
proof (induction ks arbitrary: s h)
  case Nil
  then show ?case by (auto simp: only_event_def)
next
  case (Cons k ks)
  obtain r t g u where t: "do_hooking E s (th_name h) k = Some (r, t)" "engine_ok t" "only_event t p g"
    "th_name g = th_name h" "th_pfnHook g = th_pfnHook h" "subscribers g = subscribers h @ [u]"
    "\<And>w l. subscriber_call u w l = Some (hooking_call w l k)"
    using hooks_one [OF Cons.prems, of E k] by metis
  from Cons.IH [OF t(2,3)] obtain v g' us where "hook_all E t (th_name g) ks = Some v" "engine_ok v"
    "mm_heap v p = Some g'" "th_pfnHook g' = th_pfnHook g" "subscribers g' = subscribers g @ us"
    "\<forall>w l. map (\<lambda>u. subscriber_call u w l) us = map (Some \<circ> hooking_call w l) ks" by blast
  then show ?case
    using t(1,4-7) by (intro exI [of _ v] exI [of _ g'] exI [of _ "u # us"]) simp
qed

lemma map_filter_Somes: "map f us = map (Some \<circ> g) ks \<Longrightarrow> List.map_filter f us = map g ks"
  by (induction us arbitrary: ks) (auto simp: map_filter_simps)

lemma map_filter_both: "List.map_filter f (us @ vs) = List.map_filter f us @ List.map_filter f vs"
  by (simp add: List.map_filter_def)

text \<open>
  C9: an event calls those who hook it in the order in which they do: after any history, when an
  event is hooked by \<open>HookEvent\<close> and its variants (\<open>hook_all\<close>) and then notified, the calls are
  those of the subscribers it had, those of the hooks in the order they were made, each with its
  own parameters, and that of the default procedure, up to the first that returns a value
  whose low 32 bits are not zero, which is the result; zero if none does.  The procedures may
  do anything to the engine but change the event itself, and the event must be the only one
  of its name (names are cut to 63 bytes).
\<close>

theorem notify_in_order:
  assumes "do_plugins (plugin_env E0 script ret n) cs engine_new = Some s"
    and "mm_heap s p = Some h" and "\<And>q g. mm_heap s q = Some g \<Longrightarrow> th_name g = th_name h \<Longrightarrow> q = p"
    and "\<And>c s. me_call E c s = Some (f c, log c s)" and "\<And>c s. mm_heap (log c s) p = mm_heap s p"
  shows "\<exists>t. hook_all E s (th_name h) ks = Some t \<and>
    (let calls = List.map_filter (\<lambda>u. subscriber_call u w l) (subscribers h) @ map (hooking_call w l) ks @
           (if th_pfnHook h \<noteq> 0 then [Proc (th_pfnHook h) w l] else []) in
     NotifyEventHooks E True t p w l = Some (Some (answer f calls), fold log (calls_until f calls) t))"
proof -
  have only: "only_event s p h" unfolding only_event_def using assms(2,3) by blast
  obtain t g us where t: "hook_all E s (th_name h) ks = Some t" "engine_ok t" "mm_heap t p = Some g"
    "th_pfnHook g = th_pfnHook h" "subscribers g = subscribers h @ us"
    "\<forall>w l. map (\<lambda>u. subscriber_call u w l) us = map (Some \<circ> hooking_call w l) ks"
    using hooks_in_order [OF plugins_engine_ok [OF assms(1)] only] by blast
  have us: "List.map_filter (\<lambda>u. subscriber_call u w l) us = map (hooking_call w l) ks"
    using t(6) by (intro map_filter_Somes) blast
  have calls: "event_calls g w l = List.map_filter (\<lambda>u. subscriber_call u w l) (subscribers h) @
      map (hooking_call w l) ks @ (if th_pfnHook h \<noteq> 0 then [Proc (th_pfnHook h) w l] else [])"
    by (simp only: event_calls_def t(4,5) map_filter_both us append_assoc)
  have h: "hook_ok g" "p \<noteq> 0"
    using t(2,3) by (auto simp: engine_ok_def hooks_ok_def heap_hooks_ok_def)
  have "checkHook t p = (if th_subscriberCount g = 0 \<and> th_pfnHook g = 0 then hookEmpty else hookOk)"
    using h t(3) by (simp add: checkHook_def hook_ok_def)
  then have "NotifyEventHooks E True t p w l =
      Some (Some (answer f (event_calls g w l)), fold log (calls_until f (event_calls g w l)) t)"
    using CallHookSubscribers_calls [OF h(1) assms(4,5) t(3) h(2)] event_calls_empty [OF h(1)]
    by (simp add: NotifyEventHooks_def)
  then show ?thesis unfolding calls Let_def using t(1) by blast
qed

definition log_call :: "proc_call \<Rightarrow> mengine \<Rightarrow> mengine" where
  "log_call c s = s\<lparr>mm_apc := mm_apc s @ [case c of Proc f w l \<Rightarrow> FuncToMain f w | _ \<Rightarrow> FuncToMain 0 0]\<rparr>"

definition logging_engine :: menv where
  "logging_engine = quiet_engine\<lparr>me_call := \<lambda>c s. Some (if c = Proc 11 5 0 then 3 else 0, log_call c s)\<rparr>"

theorem notify_in_order_witness:
  "\<exists>s t u. three_hooks = Some s \<and> hook_all logging_engine s [65] [Hook 12, Hook 11, Hook 13] = Some t \<and>
    NotifyEventHooks logging_engine True t 1 5 0 = Some (Some 3, u) \<and>
    u = fold log_call [Proc 7 5 0, Proc 8 5 0, Proc 9 5 0, Proc 12 5 0, Proc 11 5 0] t"
proof -
  have 1: "(case three_hooks of None \<Rightarrow> False | Some s \<Rightarrow> mm_next s = 2 \<and>
      (case mm_heap s 1 of None \<Rightarrow> False
       | Some h \<Rightarrow> th_name h = [65] \<and> th_pfnHook h = 10 \<and>
           List.map_filter (\<lambda>u. subscriber_call u 5 0) (subscribers h) = [Proc 7 5 0, Proc 8 5 0, Proc 9 5 0]))"
    by code_simp
  then obtain s h where s: "three_hooks = Some s" "mm_next s = 2" "mm_heap s 1 = Some h" "th_name h = [65]"
    "th_pfnHook h = 10"
    "List.map_filter (\<lambda>u. subscriber_call u 5 0) (subscribers h) = [Proc 7 5 0, Proc 8 5 0, Proc 9 5 0]"
    by (auto split: option.splits)
  have ok: "heap_hooks_ok s"
    using plugins_engine_ok [OF s(1) [unfolded three_hooks_def]] by (simp add: engine_ok_def hooks_ok_def)
  have only: "q = 1" if "mm_heap s q = Some g" "th_name g = th_name h" for q g
    using ok that(1) s(2) unfolding heap_hooks_ok_def by fastforce
  have E: "\<And>c s. me_call logging_engine c s = Some (if c = Proc 11 5 0 then 3 else 0, log_call c s)"
    "\<And>c s. mm_heap (log_call c s) 1 = mm_heap s 1"
    by (simp_all add: logging_engine_def log_call_def)
  show ?thesis
    using notify_in_order [OF s(1) [unfolded three_hooks_def] s(3) only E, where ks = "[Hook 12, Hook 11, Hook 13]" and w = 5 and l = 0] s
    by (auto simp: Let_def)
qed

text \<open>
  a handle is given out again.  After a subscriber was unhooked, the next one to hook the
  event gets the same handle, so that a second unhooking with the old handle succeeds and
  removes the subscriber of another.
\<close>

theorem handle_given_again:
  assumes "do_plugins (plugin_env E script ret n) cs engine_new = Some s" and "handles_fit s"
    and "distinct (map fst (contents (mm_hooks s)))"
    and "HookEvent E' s name f = Some (Some hh, t)" and "UnhookEvent t hh = Some (r, u)"
    and "HookEvent E' u name f' = Some (Some hh', v)"
  shows "hh' = hh \<and> (\<exists>w. UnhookEvent v hh = Some (0, w))"
proof -
  have ok: "engine_ok s" by (rule plugins_engine_ok [OF assms(1)])
  then have hok: "hooks_ok s" by (simp add: engine_ok_def)
  obtain u' p h g where "UnhookEvent t hh = Some (0, u')" and u: "mm_heap s p = Some h" "th_name h = c_str name"
    "hh = hook_handle (of_nat p) (th_subscriberCount h + 1)" "u' = put_hook s p g"
    "g = h\<lparr>th_subscriber := th_subscriber g\<rparr>" "engine_ok u'"
    by (rule hook_then_unhook [OF ok assms(2) assms(4) [unfolded HookEvent_def] one_neq_zero])
  then have u': "u' = u" using assms(5) by simp
  note u = u [unfolded u']
  have g: "th_name g = th_name h" "th_subscriberCount g = th_subscriberCount h"
    by (subst u(5), simp)+
  have "q = p" if "mm_heap s q = Some k" "th_name k = c_str name" for q k
    using hooks_contents [OF hok that(1)] hooks_contents [OF hok u(1)] that(2) u(2)
      eq_key_imp_eq_value [OF assms(3)] by metis
  then have only: "q = p \<and> k = g" if "mm_heap u q = Some k" "th_name k = c_str name" for q k
    using that u(4) by (cases "q = p") (auto simp: put_hook_def)
  have "handles_fit u"
    using assms(2) u(1,4) g by (auto simp: handles_fit_def put_hook_def split: option.splits)
  from hook_then_unhook [OF u(6) this assms(6) [unfolded HookEvent_def] one_neq_zero]
  obtain w q k where w: "UnhookEvent v hh' = Some (0, w)" "mm_heap u q = Some k" "th_name k = c_str name"
    "hh' = hook_handle (of_nat q) (th_subscriberCount k + 1)"
    by metis
  then have "hh' = hh" using only [OF w(2,3)] g u(3) by simp
  then show ?thesis using w(1) by simp
qed

definition hook_again :: "(mengine \<times> u64 \<times> mengine \<times> mengine \<times> u64 \<times> mengine) option" where
  "hook_again =
     do {
       s \<leftarrow> three_hooks;
       (hh, t) \<leftarrow> HookEvent quiet_engine s [65] 11;
       hh \<leftarrow> hh;
       (r, u) \<leftarrow> UnhookEvent t hh;
       (hh', v) \<leftarrow> HookEvent quiet_engine u [65] 12;
       hh' \<leftarrow> hh';
       if r = 0 then Some (s, hh, t, u, hh', v) else None
     }"

theorem handle_given_again_witness:
  "\<exists>s hh t u v w. three_hooks = Some s \<and> HookEvent quiet_engine s [65] 11 = Some (Some hh, t) \<and>
    UnhookEvent t hh = Some (0, u) \<and> HookEvent quiet_engine u [65] 12 = Some (Some hh, v) \<and>
    UnhookEvent v hh = Some (0, w)"
proof -
  have "(case hook_again of None \<Rightarrow> False
      | Some (s, r) \<Rightarrow> handles_fit s \<and> distinct (map fst (contents (mm_hooks s))))"
    by code_simp
  then obtain s hh t u hh' v where again: "hook_again = Some (s, hh, t, u, hh', v)"
    and s: "handles_fit s" "distinct (map fst (contents (mm_hooks s)))"
    by (auto split: option.splits)
  have r: "three_hooks = Some s" "HookEvent quiet_engine s [65] 11 = Some (Some hh, t)"
    "UnhookEvent t hh = Some (0, u)" "HookEvent quiet_engine u [65] 12 = Some (Some hh', v)"
    using again by (auto simp: hook_again_def split: bind_splits if_splits)
  show ?thesis
    using handle_given_again [OF r(1) [unfolded three_hooks_def] s r(2-4)] r by blast
qed

text \<open>Only the low 16 bits of the number of an event are in a handle.\<close>

lemma handle_mod: "hook_handle (of_nat (p + 65536)) n = hook_handle (of_nat p) n"
proof -
  have "push_bit 16 (of_nat (p + 65536) :: u32) = push_bit 16 (of_nat p)"
    by (simp add: push_bit_eq_mult distrib_right)
  then show ?thesis by (simp add: hook_handle_def)
qed

text \<open>
  C40: the number of an event does not always fit the handle.  For an event with a number from
  32768 to 65535 the handle is sign extended and unhooking reports that there is no such hook;
  the event 65536 later has the same handles.
\<close>

theorem handle_overflow:
  assumes "engine_ok s" and "mm_next s \<le> 2 ^ 16"
    and "HookEvent E s name f = Some (Some hh, t)"
    and "\<And>p h. mm_heap s p = Some h \<Longrightarrow> th_name h = c_str name \<Longrightarrow>
      2 ^ 15 \<le> p \<and> th_subscriberCount h + 1 < 2 ^ 16"
  shows "UnhookEvent t hh = Some (1, t) \<and>
    (\<exists>p n. hh = hook_handle (of_nat p) n \<and> hh = hook_handle (of_nat (p + 65536)) n)"
proof -
  have ok: "hooks_ok s" using assms(1) by (simp add: engine_ok_def)
  obtain p h b v where h: "mm_heap s p = Some h" "th_name h = c_str name"
    and hh: "hh = hook_handle (of_nat p) (th_subscriberCount h + 1)"
    and v: "v = \<lparr>hs_hOwner = me_inst E f, hs_type = 1, hs_pfnHook = f, hs_object = 0,
            hs_lParam = 0, hs_hwnd = f, hs_message = of_nat 0\<rparr>"
    and b: "arr_write (arr_realloc (th_subscriber h) (int (th_subscriberCount h) + 1))
      (int (th_subscriberCount h)) (Some v) = Some b"
    and t: "t = put_hook s p (h\<lparr>th_subscriber := b, th_subscriberCount := th_subscriberCount h + 1\<rparr>)"
    by (rule hook_spec [OF ok assms(3) [unfolded HookEvent_def]]) simp
  have tok: "hooks_ok t"
    using add_orderly [OF h(1) b] assms(1) v t by (simp add: orderly_def engine_ok_def)
  have n: "th_subscriberCount h + 1 < 2 ^ 16" and p: "2 ^ 15 \<le> p" using assms(4) [OF h] by auto
  have nxt: "mm_next t \<le> 2 ^ 16" using assms(2) t by (simp add: put_hook_def)
  have lt: "q < 2 ^ 16" if "mm_heap t q = Some g" for q g
  proof -
    have "q < mm_next t" using tok that by (simp add: hooks_ok_def heap_hooks_ok_def)
    then show ?thesis using nxt by (rule less_le_trans)
  qed
  have "of_nat q \<noteq> (scast (ucast (of_nat p :: u32) :: u16) :: u32)" if "mm_heap t q = Some g" for q g
    using large_id [OF p _ lt [OF that]] lt [of p] t by (auto simp: put_hook_def)
  then have "find_hook t (scast (ucast (of_nat p :: u32) :: u16)) (nat (realCount (mm_hooks t))) 0 = Some None"
    by (rule find_hook_spec(2) [OF tok])
  moreover have "hh \<noteq> 0"
    using handle_number [OF n, of "of_nat p"] word_number [OF n] hh by auto
  ultimately have "UnhookEvent t hh = Some (1, t)"
    using handle_id [OF n, of "of_nat p"] by (simp add: UnhookEvent_def hh)
  moreover have "hh = hook_handle (of_nat (p + 65536)) (th_subscriberCount h + 1)"
    unfolding hh by (rule handle_mod [symmetric])
  ultimately show ?thesis using hh by blast
qed

theorem handle_overflow_witness:
  "\<exists>s hh t. HookEvent quiet_engine s [65] 7 = Some (Some hh, t) \<and> UnhookEvent t hh = Some (1, t)"
proof -
  let ?s = "engine_new\<lparr>mm_next := 40000, mm_hookId := 40000\<rparr>"
  have ok0: "engine_ok ?s"
    using engine_ok_new by (simp add: engine_ok_def hooks_ok_def heap_hooks_ok_def hooks_rep_def services_ok_def engine_new_def)
  then have hok0: "hooks_ok ?s" by (simp add: engine_ok_def)
  have none: "mm_heap ?s p = None" "mm_next ?s = 40000" for p by (simp_all add: engine_new_def)
  obtain l where l: "List_InsertPtr (mm_hooks ?s) (Some (th_name (new_hook [65] (mm_hookId ?s)), mm_next ?s)) = Some (1, l)"
    using create_new_orderly [OF hok0 refl] by metis
  have "hook_index ?s [65] = Some (-1)" using hook_index_missing [OF hok0] none by simp
  then have c: "CreateHookableEvent ?s (Some [65]) =
      Some (40000, put_hook (?s\<lparr>mm_hooks := l, mm_next := 40001, mm_hookId := 40001\<rparr>) 40000 (new_hook [65] 40000))"
    (is "_ = Some (_, ?u)") using l by (simp add: CreateHookableEvent_def Let_def)
  have ok: "engine_ok ?u"
    using CreateHookableEvent_orderly [of ?s "Some [65]"] ok0 c by (simp add: keeps_with_def orderly_def)
  then have hok: "hooks_ok ?u" by (simp add: engine_ok_def)
  have heap: "mm_heap ?u p = (if p = 40000 then Some (new_hook [65] 40000) else None)" for p
    by (simp add: put_hook_def engine_new_def)
  have new: "th_name (new_hook [65] 40000) = c_str [65]" "th_subscriberCount (new_hook [65] 40000) = 0"
    "th_subscriber (new_hook [65] 40000) = []"
    by (simp_all add: new_hook_def c_str_def MAXMODULELABELLENGTH_def)
  obtain idx where idx: "hook_index ?u [65] = Some idx" using hook_index_total [OF hok] by blast
  have "idx \<noteq> -1" using hook_index_missing [OF hok, of "[65]"] idx heap new by auto
  then obtain e where e: "LIST_at (mm_hooks ?u) idx = Some e" "snd e = 40000"
    using hook_index_found [OF hok idx] heap by (auto split: if_splits)
  obtain hh t where t: "HookEvent quiet_engine ?u [65] 7 = Some (Some hh, t)"
    using idx \<open>idx \<noteq> -1\<close> e heap [of 40000] new
    by (simp add: HookEvent_def HookEventInt_def add_subscriber_def Let_def arr_realloc_def arr_write_def)
  have small: "mm_next ?u \<le> 2 ^ 16" by (simp add: put_hook_def)
  have "UnhookEvent t hh = Some (1, t)"
    by (rule handle_overflow [OF ok small t, THEN conjunct1]) (use heap new in \<open>auto split: if_splits\<close>)
  then show ?thesis using t by blast
qed

section \<open>Services\<close>

lemma remove_by_key:
  assumes "distinct (map key xs)" and "j < length xs" and "key (xs ! j) = k"
  shows "take j xs @ drop (Suc j) xs = filter (\<lambda>x. key x \<noteq> k) xs"
proof -
  have split: "xs = take j xs @ xs ! j # drop (Suc j) xs" using assms(2) by (simp add: id_take_nth_drop)
  then have d: "distinct (map key (take j xs @ xs ! j # drop (Suc j) xs))" using assms(1) by simp
  have "\<forall>x \<in> set (take j xs) \<union> set (drop (Suc j) xs). key x \<noteq> k"
    using d unfolding map_append list.map distinct_append distinct.simps assms(3) by auto
  then have "filter (\<lambda>x. key x \<noteq> k) (take j xs @ xs ! j # drop (Suc j) xs) = take j xs @ drop (Suc j) xs"
    using assms(3) by (simp add: filter_True)
  then show ?thesis using split by simp
qed

lemma create_service:
  assumes "services_ok s" and "mir_hashstr nm \<notin> sv_nameHash ` set (contents (mm_services s))"
    and "v = \<lparr>sv_nameHash = mir_hashstr nm, sv_hOwner = me_inst E pr, sv_pfnService = pr,
      sv_flags = type, sv_lParam = lp, sv_object = ob, sv_name = c_str nm\<rparr>"
  obtains l k where "CreateServiceInt E s type (Some nm) pr ob lp = Some (ucast (mir_hashstr nm), s\<lparr>mm_services := l\<rparr>)"
    and "contents l = take k (contents (mm_services s)) @ v # drop k (contents (mm_services s))"
proof -
  obtain i vs where vs: "table_rep (NumericKeySortT sv_nameHash) (mm_services s) vs"
    and i: "LIST_getIndex (mm_services s) (Some (service_key (mir_hashstr nm))) = Some i"
      "i = -1 \<and> mir_hashstr nm \<notin> sv_nameHash ` set vs \<or>
       0 \<le> i \<and> i < int (length vs) \<and> sv_nameHash (vs ! nat i) = mir_hashstr nm"
    using service_index [OF assms(1)] by metis
  have c: "contents (mm_services s) = vs" using vs by (simp add: table_rep_def contents_rep)
  have "i = -1" using i(2) assms(2) c by (metis image_eqI nat_less_iff nth_mem)
  moreover obtain l k where l: "List_InsertPtr (mm_services s) (Some v) = Some (1, l)"
    "table_rep (NumericKeySortT sv_nameHash) l (take k vs @ v # drop k vs)"
    using numeric_table.InsertPtr_spec [OF vs] .
  ultimately have "CreateServiceInt E s type (Some nm) pr ob lp =
      Some (ucast (mir_hashstr nm), s\<lparr>mm_services := l\<rparr>)"
    using i(1) assms(3) by (simp add: CreateServiceInt_def Let_def)
  then show ?thesis using that [of l k] l(2) c by (simp add: table_rep_def contents_rep)
qed

lemma destroy_service:
  assumes "services_ok s"
  obtains l where "DestroyServiceFunction s hs = Some (s\<lparr>mm_services := l\<rparr>)"
    and "contents l = filter (\<lambda>v. sv_nameHash v \<noteq> ucast hs) (contents (mm_services s))"
proof -
  obtain i vs where vs: "table_rep (NumericKeySortT sv_nameHash) (mm_services s) vs" "distinct (map sv_nameHash vs)"
    and i: "LIST_getIndex (mm_services s) (Some (service_key (ucast hs))) = Some i"
      "i = -1 \<and> ucast hs \<notin> sv_nameHash ` set vs \<or>
       0 \<le> i \<and> i < int (length vs) \<and> sv_nameHash (vs ! nat i) = ucast hs"
    using service_index [OF assms] by metis
  have c: "contents (mm_services s) = vs" using vs by (simp add: table_rep_def contents_rep)
  show ?thesis
  proof (cases "i = -1")
    case True
    then have "filter (\<lambda>v. sv_nameHash v \<noteq> ucast hs) vs = vs"
      using i(2) by (auto simp: filter_id_conv image_iff)
    then show ?thesis using that [of "mm_services s"] i(1) True c by (simp add: DestroyServiceFunction_def)
  next
    case False
    then have b: "0 \<le> i" "i < int (length vs)" "sv_nameHash (vs ! nat i) = ucast hs" using i(2) by auto
    obtain l where l: "List_Remove (mm_services s) i = Some (1, l)"
      "table_rep (NumericKeySortT sv_nameHash) l (take (nat i) vs @ drop (Suc (nat i)) vs)"
      using numeric_table.Remove_spec [OF vs(1) b(1,2)] .
    then show ?thesis
      using that [of l] i(1) False c remove_by_key [OF vs(2) _ b(3)] b
      by (simp add: DestroyServiceFunction_def table_rep_def contents_rep)
  qed
qed

lemma CallService_by_hash:
  assumes "services_ok s" and "v \<in> set (contents (mm_services s))" and "sv_nameHash v = mir_hashstr name"
  shows "CallService E s (Some name) w l = me_call E (service_call v w l) s"
proof -
  obtain r where r: "FindServiceByName s name = Some r"
    "r = None \<longleftrightarrow> mir_hashstr name \<notin> sv_nameHash ` set (contents (mm_services s))"
    "\<And>u. r = Some u \<Longrightarrow> u \<in> set (contents (mm_services s)) \<and> sv_nameHash u = mir_hashstr name"
    using FindService_spec [OF assms(1)] by metis
  have "mir_hashstr name \<in> sv_nameHash ` set (contents (mm_services s))" using assms(2,3) by force
  then obtain u where u: "r = Some u" using r(2) by blast
  then have "u = v"
    using r(3) [OF u] assms(2,3) services_distinct [OF assms(1)] by (auto simp: distinct_map inj_on_def)
  then show ?thesis using r(1) u by (simp add: CallService_def)
qed

lemma CallService_missing:
  assumes "services_ok s" and "mir_hashstr name \<notin> sv_nameHash ` set (contents (mm_services s))"
  shows "CallService E s (Some name) w l = Some (CALLSERVICE_NOTFOUND, s)"
proof -
  obtain r where "FindServiceByName s name = Some r"
    "r = None \<longleftrightarrow> mir_hashstr name \<notin> sv_nameHash ` set (contents (mm_services s))"
    using FindService_spec [OF assms(1)] by metis
  then show ?thesis using assms(2) by (simp add: CallService_def)
qed

text \<open>
  C26: a service that is created under a name whose hash is free is called, with its kind, its
  object and its parameter, by every name of that hash, until it is destroyed; then the table
  is what it was and calls are not found.
\<close>

theorem service_lifecycle:
  assumes "do_plugins (plugin_env E script ret n) cs engine_new = Some s"
    and "mir_hashstr nm \<notin> sv_nameHash ` set (contents (mm_services s))"
  shows "\<exists>t u. CreateServiceInt E' s type (Some nm) pr ob lp = Some (ucast (mir_hashstr nm), t) \<and>
    (\<forall>name. mir_hashstr name = mir_hashstr nm \<longrightarrow> CallService E' t (Some name) w l =
       me_call E' (service_call \<lparr>sv_nameHash = mir_hashstr nm, sv_hOwner = me_inst E' pr, sv_pfnService = pr,
         sv_flags = type, sv_lParam = lp, sv_object = ob, sv_name = c_str nm\<rparr> w l) t) \<and>
    DestroyServiceFunction t (ucast (mir_hashstr nm)) = Some u \<and>
    contents (mm_services u) = contents (mm_services s) \<and>
    CallService E' u (Some nm) w l = Some (CALLSERVICE_NOTFOUND, u)"
proof -
  let ?v = "\<lparr>sv_nameHash = mir_hashstr nm, sv_hOwner = me_inst E' pr, sv_pfnService = pr,
         sv_flags = type, sv_lParam = lp, sv_object = ob, sv_name = c_str nm\<rparr>"
  let ?vs = "contents (mm_services s)" and ?hs = "ucast (mir_hashstr nm) :: u64"
  have ok: "engine_ok s" "services_ok s" using plugins_engine_ok [OF assms(1)] by (simp_all add: engine_ok_def)
  obtain l k where l: "CreateServiceInt E' s type (Some nm) pr ob lp = Some (?hs, s\<lparr>mm_services := l\<rparr>)"
    "contents l = take k ?vs @ ?v # drop k ?vs"
    using create_service [OF ok(2) assms(2) refl] .
  let ?t = "s\<lparr>mm_services := l\<rparr>"
  have "keeps_with orderly s (CreateServiceInt E' s type (Some nm) pr ob lp)" by (rule CreateServiceInt_orderly)
  then have t: "engine_ok ?t" "services_ok ?t" using ok l(1) by (auto simp: keeps_with_def orderly_def engine_ok_def)
  have call: "CallService E' ?t (Some name) w l' = me_call E' (service_call ?v w l') ?t"
    if "mir_hashstr name = mir_hashstr nm" for name l'
    by (rule CallService_by_hash [OF t(2)]) (simp_all add: l(2) that)
  have hs: "ucast ?hs = mir_hashstr nm" by (rule bit_word_eqI) (simp add: bit_simps)
  obtain m where m: "DestroyServiceFunction ?t ?hs = Some (?t\<lparr>mm_services := m\<rparr>)"
    "contents m = filter (\<lambda>v. sv_nameHash v \<noteq> mir_hashstr nm) (contents l)"
    using destroy_service [OF t(2), of ?hs] hs by auto
  have other: "\<forall>v \<in> set ?vs. sv_nameHash v \<noteq> mir_hashstr nm" using assms(2) by (auto simp: image_iff)
  then have "\<forall>v \<in> set (take k ?vs) \<union> set (drop k ?vs). sv_nameHash v \<noteq> mir_hashstr nm"
    by (auto dest: in_set_takeD in_set_dropD)
  then have "contents m = take k ?vs @ drop k ?vs"
    unfolding m(2) l(2) by (simp add: filter_True)
  then have same: "contents m = ?vs" by simp
  have "services_ok (?t\<lparr>mm_services := m\<rparr>)"
    using DestroyServiceFunction_orderly [of ?t ?hs] m(1) t(1)
    by (simp add: keeps_def orderly_def engine_ok_def)
  then have "CallService E' (?t\<lparr>mm_services := m\<rparr>) (Some nm) w l' = Some (CALLSERVICE_NOTFOUND, ?t\<lparr>mm_services := m\<rparr>)" for l'
    by (rule CallService_missing) (simp add: same assms(2))
  then show ?thesis using l(1) call m(1) same by auto
qed

theorem service_lifecycle_witness:
  "\<exists>s t u. demo_engine = Some s \<and>
    CreateServiceInt quiet_engine s 2 (Some [65, 47]) 21 33 0 = Some (ucast (mir_hashstr [65, 47]), t) \<and>
    DestroyServiceFunction t (ucast (mir_hashstr [65, 47])) = Some u \<and>
    contents (mm_services u) = contents (mm_services s)"
proof -
  have 1: "(case demo_engine of None \<Rightarrow> False | Some s \<Rightarrow> mir_hashstr [65, 47] \<notin> sv_nameHash ` set (contents (mm_services s)))"
    by code_simp
  then obtain s where s: "demo_engine = Some s" "mir_hashstr [65, 47] \<notin> sv_nameHash ` set (contents (mm_services s))"
    by (auto split: option.splits)
  show ?thesis
    using service_lifecycle [OF s(1) [unfolded demo_engine_def] s(2), of quiet_engine 2 21 33 0] s(1) by metis
qed

text \<open>
  C39: services are known by the hash of their name only.  While there is a service, another
  whose name has the same hash exists already for the engine: it cannot be created, and calls
  to it reach the first.
\<close>

theorem service_clash:
  assumes "do_plugins (plugin_env E script ret n) cs engine_new = Some s"
    and "v \<in> set (contents (mm_services s))" and "mir_hashstr name = mir_hashstr (sv_name v)"
  shows "ServiceExists s (Some name) = Some True \<and>
    CreateServiceInt E' s type (Some name) pr ob lp = Some (0, s) \<and>
    CallService E' s (Some name) w l = me_call E' (service_call v w l) s"
proof -
  have ok: "services_ok s" by (rule plugins_ok(2) [OF assms(1)])
  then have v: "sv_nameHash v = mir_hashstr name"
    using assms(2,3) by (auto simp: services_ok_def table_rep_def contents_rep)
  then have there: "mir_hashstr name \<in> sv_nameHash ` set (contents (mm_services s))" using assms(2) by force
  obtain r where r: "FindServiceByName s name = Some r" "r \<noteq> None"
    using FindService_spec [OF ok] there by metis
  obtain i vs where i: "table_rep (NumericKeySortT sv_nameHash) (mm_services s) vs"
    "LIST_getIndex (mm_services s) (Some (service_key (mir_hashstr name))) = Some i"
      "i = -1 \<and> mir_hashstr name \<notin> sv_nameHash ` set vs \<or>
       0 \<le> i \<and> i < int (length vs) \<and> sv_nameHash (vs ! nat i) = mir_hashstr name"
    using service_index [OF ok] by metis
  have "i \<noteq> -1" using i(1,3) there by (auto simp: table_rep_def contents_rep)
  then show ?thesis
    using CallService_by_hash [OF ok assms(2) v] r i(2)
    by (simp add: ServiceExists_def CreateServiceInt_def Let_def)
qed

text \<open>The names \<open>IRC_9/Menu\<close> and \<open>VK_635/dcc\<close>.\<close>

definition IRC_9_Menu :: bytes where "IRC_9_Menu = [0x49, 0x52, 0x43, 0x5F, 0x39, 0x2F, 0x4D, 0x65, 0x6E, 0x75]"
definition VK_635_dcc :: bytes where "VK_635_dcc = [0x56, 0x4B, 0x5F, 0x36, 0x33, 0x35, 0x2F, 0x64, 0x63, 0x63]"

theorem service_clash_witness:
  "\<exists>s. do_plugins (plugin_env quiet_engine demo_script (\<lambda>_ _. 0) 0) [P_Service 0 (Some IRC_9_Menu) 9 0 0] engine_new = Some s \<and>
    CreateServiceInt quiet_engine s 0 (Some VK_635_dcc) 10 0 0 = Some (0, s) \<and>
    CallService quiet_engine s (Some VK_635_dcc) 1 2 = me_call quiet_engine (Proc 9 1 2) s"
proof -
  let ?r = "do_plugins (plugin_env quiet_engine demo_script (\<lambda>_ _. 0) 0) [P_Service 0 (Some IRC_9_Menu) 9 0 0] engine_new"
  have hash: "mir_hashstr VK_635_dcc = mir_hashstr IRC_9_Menu" by code_simp
  have "(case ?r of None \<Rightarrow> False | Some s \<Rightarrow>
      (case contents (mm_services s) of [v] \<Rightarrow>
        sv_name v = IRC_9_Menu \<and> sv_flags v = 0 \<and> sv_pfnService v = 9 | _ \<Rightarrow> False))"
    by code_simp
  then obtain s v where s: "?r = Some s" "contents (mm_services s) = [v]"
    "sv_name v = IRC_9_Menu" "sv_flags v = 0" "sv_pfnService v = 9"
    by (auto split: option.splits list.splits)
  then show ?thesis
    using service_clash [OF s(1), of v VK_635_dcc quiet_engine 0 10 0 0 1 2] hash
    by (auto simp: service_call_def)
qed

section \<open>The queue of the main thread\<close>

text \<open>
  the result of a service called with \<open>CallServiceSync\<close> from another thread is cut to 32 bits
  and its sign extended; the value that says there is no such service is then 0.
\<close>

theorem sync_service_truncated:
  assumes "do_plugins (plugin_env E script ret n) cs engine_new = Some s" and "mm_apc s = []"
  shows "CallServiceSync E' True s (Some nm) w l = map_option (\<lambda>(v, t). (Some v, t)) (CallService E' s (Some nm) w l) \<and>
    (\<exists>t. CallServiceSync E' False s (Some nm) w l = Some (None, t) \<and>
       run_apc E' t = map_option (\<lambda>(v, t). (Some (scast (ucast v :: u32)), t)) (CallService E' s (Some nm) w l) \<and>
       (mir_hashstr nm \<notin> sv_nameHash ` set (contents (mm_services s)) \<longrightarrow>
          CallService E' s (Some nm) w l = Some (CALLSERVICE_NOTFOUND, s) \<and> run_apc E' t = Some (Some 0, s)))"
proof -
  have ok: "services_ok s" by (rule plugins_ok(2) [OF assms(1)])
  let ?t = "s\<lparr>mm_apc := [ServiceToMain nm w l]\<rparr>"
  have s: "?t\<lparr>mm_apc := []\<rparr> = s" using assms(2) by simp
  have 1: "CallServiceSync E' False s (Some nm) w l = Some (None, ?t)"
    using assms(2) by (simp add: CallServiceSync_def)
  have 2: "run_apc E' ?t = map_option (\<lambda>(v, t). (Some (scast (ucast v :: u32)), t)) (CallService E' s (Some nm) w l)"
    using s 
    by (cases "CallService E' s (Some nm) w l") (auto simp: run_apc_def apc_call_def)
  have zero: "scast (ucast CALLSERVICE_NOTFOUND :: u32) = (0 :: u64)" by (simp add: CALLSERVICE_NOTFOUND_def)
  show ?thesis
    using 1 2 zero CallService_missing [OF ok] by (auto simp: CallServiceSync_def)
qed

theorem sync_service_truncated_witness:
  "\<exists>t. CallServiceSync quiet_engine True engine_new (Some [88]) 0 0 = Some (Some CALLSERVICE_NOTFOUND, engine_new) \<and>
    CallServiceSync quiet_engine False engine_new (Some [88]) 0 0 = Some (None, t) \<and>
    run_apc quiet_engine t = Some (Some 0, engine_new)"
proof -
  have s: "do_plugins (plugin_env quiet_engine demo_script (\<lambda>_ _. 0) 0) [] engine_new = Some engine_new"
    "mm_apc engine_new = []" "contents (mm_services engine_new) = []"
    by (simp_all add: engine_new_def LIST_new_def contents_def)
  show ?thesis using sync_service_truncated [OF s(1,2), of quiet_engine "[88]" 0 0] s(3) by auto
qed

text \<open>
  an event notified from another thread is queued by its address.  If it is destroyed before
  the main thread gets to the call, the main thread uses the destroyed event.
\<close>

theorem queued_hook_destroyed:
  assumes "do_plugins (plugin_env E script ret n) cs engine_new = Some s" and "mm_apc s = []"
    and "distinct (map fst (contents (mm_hooks s)))" and "checkHook s p = hookOk"
  shows "\<exists>t u. NotifyEventHooks E' False s p w l = Some (None, t) \<and>
    DestroyHookableEvent t p = Some (0, u) \<and> run_apc E' u = None"
proof -
  have ok: "hooks_ok s" by (rule plugins_ok(1) [OF assms(1)])
  obtain h where h: "mm_heap s p = Some h" "p \<noteq> 0"
    using assms(4) by (auto simp: checkHook_def split: option.splits if_splits)
  let ?t = "s\<lparr>mm_apc := [HookToMain p w l]\<rparr>"
  have n: "NotifyEventHooks E' False s p w l = Some (None, ?t)"
    using assms(2,4) by (simp add: NotifyEventHooks_def)
  obtain xs where xs: "hooks_rep s xs" using ok by (auto simp: hooks_ok_def)
  obtain idx where idx: "hook_index s (th_name h) = Some idx" using hook_index_total [OF ok] by blast
  have name: "c_str (th_name h) = th_name h" by (rule hook_name_ok [OF ok h(1)])
  have found: "idx \<noteq> -1" using hook_index_missing [OF ok, of "th_name h"] idx h(1) name by auto
  obtain q g where q: "0 \<le> idx" "idx < int (length xs)" "LIST_at (mm_hooks s) idx = Some (th_name h, q)"
    "mm_heap s q = Some g" "th_name g = th_name h"
    using hook_index_at [OF ok xs idx found] name by auto
  have "q = p"
    using hooks_contents [OF ok q(4)] hooks_contents [OF ok h(1)] q(5) eq_key_imp_eq_value [OF assms(3)] by metis
  moreover have rep: "table_rep (SortFn compareHooks) (mm_hooks s) xs" using xs by (simp add: hooks_rep_def)
  moreover obtain l where "List_Remove (mm_hooks s) idx = Some (1, l)"
    using hook_table.Remove_spec [OF rep q(1,2)] by metis
  ultimately have d: "DestroyHookableEvent ?t p = Some (0, ?t\<lparr>mm_hooks := l, mm_heap := (mm_heap s)(p := None)\<rparr>)"
    using h idx found q(3) by (simp add: DestroyHookableEvent_def hook_index_def)
  have "run_apc E' (?t\<lparr>mm_hooks := l, mm_heap := (mm_heap s)(p := None)\<rparr>) = None"
    using h(2) by (simp add: run_apc_def apc_call_def CallHookSubscribers_def) (subst call_loop.simps, simp)
  then show ?thesis using n d by blast
qed

theorem queued_hook_destroyed_witness:
  "\<exists>s t u. three_hooks = Some s \<and> NotifyEventHooks quiet_engine False s 1 0 0 = Some (None, t) \<and>
    DestroyHookableEvent t 1 = Some (0, u) \<and> run_apc quiet_engine u = None"
proof -
  have "(case three_hooks of None \<Rightarrow> False | Some s \<Rightarrow> mm_apc s = [] \<and>
      distinct (map fst (contents (mm_hooks s))) \<and> checkHook s 1 = hookOk)"
    by code_simp
  then obtain s where s: "three_hooks = Some s" "mm_apc s = []"
    "distinct (map fst (contents (mm_hooks s)))" "checkHook s 1 = hookOk"
    by (auto split: option.splits)
  show ?thesis using queued_hook_destroyed [OF s(1) [unfolded three_hooks_def] s(2-4)] s(1) by blast
qed

text \<open>
  the name of an event is stored cut to 63 characters but looked up in full, so an event
  with a longer name is created but never found: hooking it fails, and creating it again makes
  another event.
\<close>

theorem long_event_name:
  assumes "do_plugins (plugin_env E script ret n) cs engine_new = Some s" and "64 \<le> length (c_str nm)"
  shows "\<exists>t. CreateHookableEvent s (Some nm) = Some (mm_next s, t) \<and> EventExists t (Some nm) = Some False \<and>
    HookEvent E' t nm f = Some (None, t) \<and>
    (\<exists>u. CreateHookableEvent t (Some nm) = Some (mm_next s + 1, u))"
proof -
  have never: "hook_index u nm = Some (-1)" if "hooks_ok u" for u
    unfolding hook_index_missing [OF that]
  proof (intro allI impI notI)
    fix p h
    assume "mm_heap u p = Some h" and "th_name h = c_str nm"
    moreover have "hook_ok h" using that calculation(1) by (simp add: hooks_ok_def heap_hooks_ok_def)
    ultimately show False using assms(2) by (simp add: hook_ok_def MAXMODULELABELLENGTH_def)
  qed
  have create: "\<exists>v. CreateHookableEvent u (Some nm) = Some (mm_next u, v) \<and> engine_ok v \<and> mm_next v = mm_next u + 1"
    if "engine_ok u" for u
  proof -
    have ok: "hooks_ok u" using that by (simp add: engine_ok_def)
    obtain l where "List_InsertPtr (mm_hooks u) (Some (th_name (new_hook nm (mm_hookId u)), mm_next u)) = Some (1, l)"
      using create_new_orderly [OF ok refl] by metis
    then obtain v where v: "CreateHookableEvent u (Some nm) = Some (mm_next u, v)" "mm_next v = mm_next u + 1"
      using never [OF ok] by (simp add: CreateHookableEvent_def Let_def put_hook_def)
    then show ?thesis
      using CreateHookableEvent_orderly [of u "Some nm"] that by (simp add: keeps_with_def orderly_def)
  qed
  obtain t where t: "CreateHookableEvent s (Some nm) = Some (mm_next s, t)" "engine_ok t" "mm_next t = mm_next s + 1"
    using create [OF plugins_engine_ok [OF assms(1)]] by blast
  then have "hook_index t nm = Some (-1)" using never by (simp add: engine_ok_def)
  then show ?thesis
    using t create [OF t(2)]
    by (auto simp: EventExists_def HookEvent_def HookEventInt_def add_subscriber_def)
qed

theorem long_event_name_witness:
  "\<exists>t. CreateHookableEvent engine_new (Some (replicate 64 65)) = Some (1, t) \<and>
    EventExists t (Some (replicate 64 65)) = Some False \<and>
    (\<exists>u. CreateHookableEvent t (Some (replicate 64 65)) = Some (2, u))"
proof -
  have s: "do_plugins (plugin_env quiet_engine demo_script (\<lambda>_ _. 0) 0) [] engine_new = Some engine_new"
    "64 \<le> length (c_str (replicate 64 65))" "mm_next engine_new = 1"
    by (simp_all add: engine_new_def c_str_def takeWhile_eq_all_conv)
  show ?thesis using long_event_name [OF s(1,2)] s(3) by (metis one_add_one)
qed

end
