(* ===== verification/DbBase.thy ===== *)
theory DbBase imports MirModulesProps begin

text \<open>
  The database driver \<open>plugins/Db3x_mmap\<close>: what is in its file and how space in it is allocated
  (\<open>dbintf.h\<close>, \<open>database.cpp\<close>, \<open>dbcache.cpp\<close>, \<open>dbheaders.cpp\<close>), the chain of module names
  (\<open>dbmodulechain.cpp\<close>), and the cache of contacts of the application
  (\<open>src/mir_app/src/mdatabasecache.cpp\<close>).

  The file is mapped into memory.  The model keeps it as a map from offsets to the objects the
  driver puts there; memory without an object is zero, since space is given out beyond what was
  written and cleared when it is taken back.  What the driver reads at an offset that another
  kind of object occupies is not modelled (\<open>None\<close>), apart from its signature.  Offsets are
  integers; an allocation that does not fit 32-bit offsets is \<open>None\<close>, and so is the program
  being ended by \<open>DatabaseCorruption\<close>.
\<close>

section \<open>Objects\<close>

record DBHeader =
  dh_ofsFileEnd :: int
  dh_slackSpace :: u32
  dh_contactCount :: u32
  dh_ofsFirstContact :: int
  dh_ofsUser :: int
  dh_ofsModuleNames :: int

record DBContact =
  dc_signature :: u32
  dc_ofsNext :: int
  dc_ofsFirstSettings :: int
  dc_eventCount :: u32
  dc_ofsFirstEvent :: int
  dc_ofsLastEvent :: int
  dc_ofsFirstUnread :: int
  dc_tsFirstUnread :: u32
  dc_dwContactID :: u32

record DBModuleName =
  mn_ofsNext :: int
  mn_cbName :: u8
  mn_name :: bytes

record DBContactSettings =
  st_ofsNext :: int
  st_ofsModuleName :: int
  st_blob :: bytes

record DBEvent =
  ev_signature :: u32
  ev_contactID :: u32
  ev_ofsPrev :: int
  ev_ofsNext :: int
  ev_ofsModuleName :: int
  ev_timestamp :: u32
  ev_flags :: u32
  ev_wEventType :: u16
  ev_blob :: bytes

datatype dbobj =
  ObjContact DBContact | ObjModule DBModuleName | ObjSettings DBContactSettings | ObjEvent DBEvent

definition DBCONTACT_SIGNATURE :: u32 where "DBCONTACT_SIGNATURE = 0x43DECADE"
definition DBMODULENAME_SIGNATURE :: u32 where "DBMODULENAME_SIGNATURE = 0x4DDECADE"
definition DBCONTACTSETTINGS_SIGNATURE :: u32 where "DBCONTACTSETTINGS_SIGNATURE = 0x53DECADE"
definition DBEVENT_SIGNATURE :: u32 where "DBEVENT_SIGNATURE = 0x45DECADE"

definition DBEF_TEMPORARY :: u32 where "DBEF_TEMPORARY = 0x0001"
definition DBEF_SENT :: u32 where "DBEF_SENT = 0x0002"
definition DBEF_READ :: u32 where "DBEF_READ = 0x0004"
definition DBEF_ENCRYPTED :: u32 where "DBEF_ENCRYPTED = 0x0020"
definition DBEF_MSEC :: u32 where "DBEF_MSEC = 0x0800"
definition MARKED_READ :: u32 where "MARKED_READ = DBEF_READ OR DBEF_SENT"

definition markedRead :: "DBEvent \<Rightarrow> bool" where
  "markedRead e \<longleftrightarrow> ev_flags e AND MARKED_READ \<noteq> 0"

text \<open>The sizes of the packed structures: whole ones, and up to the variable part.\<close>

definition size_header :: int where "size_header = 44"
definition size_contact :: int where "size_contact = 36"
definition size_module :: int where "size_module = 9"
definition size_settings :: int where "size_settings = 16"
definition size_event :: int where "size_event = 34"

text \<open>What zeroed memory reads as.\<close>

definition zero_contact :: DBContact where
  "zero_contact =
     \<lparr>dc_signature = 0, dc_ofsNext = 0, dc_ofsFirstSettings = 0, dc_eventCount = 0, dc_ofsFirstEvent = 0,
      dc_ofsLastEvent = 0, dc_ofsFirstUnread = 0, dc_tsFirstUnread = 0, dc_dwContactID = 0\<rparr>"

definition zero_event :: DBEvent where
  "zero_event =
     \<lparr>ev_signature = 0, ev_contactID = 0, ev_ofsPrev = 0, ev_ofsNext = 0, ev_ofsModuleName = 0,
      ev_timestamp = 0, ev_flags = 0, ev_wEventType = 0, ev_blob = []\<rparr>"

section \<open>The state of the driver\<close>

text \<open>
  A value of a setting.  The fields of the union are what the type selects: a number, of which
  \<open>bVal\<close> and \<open>wVal\<close> are the low bits; or a pointer, to nothing or to memory (\<open>pszVal\<close>, \<open>pbVal\<close>),
  with a length (\<open>cchVal\<close>, \<open>cpbVal\<close>).  The two lengths are different bytes of the union:
  \<open>cchVal\<close> of a blob is the low half of the address in \<open>pbVal\<close>, here \<open>dv_addr\<close>.
\<close>

record DBVARIANT =
  dv_type :: u8
  dv_val :: u32
  dv_mem :: "bytes option"
  dv_len :: u16
  dv_addr :: u16

definition DBVTF_VARIABLELENGTH :: u8 where "DBVTF_VARIABLELENGTH = 0x80"
definition DBVT_DELETED :: u8 where "DBVT_DELETED = 0"
definition DBVT_BYTE :: u8 where "DBVT_BYTE = 1"
definition DBVT_WORD :: u8 where "DBVT_WORD = 2"
definition DBVT_BYTE_HIDDEN :: u8 where "DBVT_BYTE_HIDDEN = 3"
definition DBVT_DWORD :: u8 where "DBVT_DWORD = 4"
definition DBVT_ENCRYPTED :: u8 where "DBVT_ENCRYPTED = 250"
definition DBVT_WCHAR :: u8 where "DBVT_WCHAR = 252"
definition DBVT_UTF8 :: u8 where "DBVT_UTF8 = 253"
definition DBVT_BLOB :: u8 where "DBVT_BLOB = 254"
definition DBVT_ASCIIZ :: u8 where "DBVT_ASCIIZ = 255"

text \<open>
  The cache of settings: the names that were used, as \<open>module/setting\<close>, each with the byte in
  front of it that marks settings that are not written to the file, and the values of the
  settings that belong to no contact.  There is one entry for a name, so that a pointer to it
  is modelled by the name.
\<close>

record CachedSetting =
  cs_name :: bytes
  cs_resident :: u8

record DBCachedGlobalValue =
  gv_name :: bytes
  gv_value :: DBVARIANT

text \<open>\<open>DBCachedContact\<close>: what the application keeps of a contact, its offset in the file, and the values of its settings.\<close>

record DBCachedContact =
  cc_contactID :: u32
  cc_nSubs :: int
  cc_pSubs :: "u32 list"
  cc_parentID :: u32
  cc_nDefault :: int
  cc_dwOfsContact :: int
  cc_values :: "(bytes \<times> DBVARIANT) list"

definition IsMeta :: "DBCachedContact \<Rightarrow> bool" where "IsMeta cc \<longleftrightarrow> cc_nSubs cc \<noteq> -1"
definition IsSub :: "DBCachedContact \<Rightarrow> bool" where "IsSub cc \<longleftrightarrow> cc_parentID cc \<noteq> 0"

record ModuleName =
  md_name :: bytes
  md_ofs :: int

record CDb3Mmap =
  m_dbHeader :: DBHeader
  m_objs :: "int \<Rightarrow> dbobj option"
  m_dwFileSize :: int
  m_ChunkSize :: int
  m_dwMaxContactId :: u32
  m_safetyMode :: bool
  m_bReadOnly :: bool
  m_bEncrypted :: bool
  m_bMetaEnabled :: bool
  m_lContacts :: "DBCachedContact slist"
  m_lMods :: "ModuleName slist"
  m_lOfs :: "ModuleName slist"
  m_lastmn :: "ModuleName option"
  m_hLastCachedContact :: u32
  m_lSettings :: "CachedSetting slist"
  m_lastSetting :: "bytes option"
  m_lGlobalSettings :: "DBCachedGlobalValue slist"
  m_lResidentSettings :: "bytes slist"

definition stringCompare :: "CachedSetting \<Rightarrow> CachedSetting \<Rightarrow> int" where
  "stringCompare p1 p2 = strcmp (cs_name p1) (cs_name p2)"

definition compareGlobals :: "DBCachedGlobalValue \<Rightarrow> DBCachedGlobalValue \<Rightarrow> int" where
  "compareGlobals p1 p2 = strcmp (gv_name p1) (gv_name p2)"

definition ModCompare :: "ModuleName \<Rightarrow> ModuleName \<Rightarrow> int" where
  "ModCompare mn1 mn2 = strcmp (md_name mn1) (md_name mn2)"

definition OfsCompare :: "ModuleName \<Rightarrow> ModuleName \<Rightarrow> int" where
  "OfsCompare mn1 mn2 = sint (of_int (md_ofs mn1) - of_int (md_ofs mn2) :: u32)"

section \<open>Reading and writing\<close>

text \<open>
  The first word at an offset: the header of the file begins with its name, and where no object
  begins the memory is zero.  That is so in free space; in the middle of an object, where the
  code would read what is there, the model does not say what it reads.
\<close>

definition signature_at :: "CDb3Mmap \<Rightarrow> int \<Rightarrow> u32" where
  "signature_at s ofs =
     (if ofs = 0 then 0x6172694D
      else case m_objs s ofs of
             None \<Rightarrow> 0
           | Some (ObjContact c) \<Rightarrow> dc_signature c
           | Some (ObjModule m) \<Rightarrow> DBMODULENAME_SIGNATURE
           | Some (ObjSettings g) \<Rightarrow> DBCONTACTSETTINGS_SIGNATURE
           | Some (ObjEvent e) \<Rightarrow> ev_signature e)"

definition DBRead_contact :: "CDb3Mmap \<Rightarrow> int \<Rightarrow> DBContact option" where
  "DBRead_contact s ofs =
     (if ofs = 0 then None
      else case m_objs s ofs of
             None \<Rightarrow> Some zero_contact
           | Some (ObjContact c) \<Rightarrow> Some c
           | Some _ \<Rightarrow> None)"

definition DBRead_event :: "CDb3Mmap \<Rightarrow> int \<Rightarrow> DBEvent option" where
  "DBRead_event s ofs =
     (if ofs = 0 then None
      else case m_objs s ofs of
             None \<Rightarrow> Some zero_event
           | Some (ObjEvent e) \<Rightarrow> Some e
           | Some _ \<Rightarrow> None)"

text \<open>
  \<open>CreateNewSpace\<close> maps as much of the file as it gives away, and all other writes replace an object
  where it is, so that \<open>DBWrite\<close> does not reach beyond the mapped file and never maps it again.
\<close>

definition DBWrite :: "CDb3Mmap \<Rightarrow> int \<Rightarrow> dbobj \<Rightarrow> CDb3Mmap" where
  "DBWrite s ofs x = s\<lparr>m_objs := (m_objs s)(ofs \<mapsto> x)\<rparr>"

definition ReMap :: "CDb3Mmap \<Rightarrow> int \<Rightarrow> CDb3Mmap option" where
  "ReMap s needed =
     (let ofsFileEnd = dh_ofsFileEnd (m_dbHeader s) in
      if needed = 0 then Some s
      else if needed > m_ChunkSize s then
        if needed + m_dwFileSize s > ofsFileEnd + m_ChunkSize s then None
        else Some (s\<lparr>m_dwFileSize := (ofsFileEnd div m_ChunkSize s + 1) * m_ChunkSize s\<rparr>)
      else Some (s\<lparr>m_dwFileSize := m_dwFileSize s + m_ChunkSize s\<rparr>))"

definition put_header :: "CDb3Mmap \<Rightarrow> (DBHeader \<Rightarrow> DBHeader) \<Rightarrow> CDb3Mmap" where
  "put_header s f = s\<lparr>m_dbHeader := f (m_dbHeader s)\<rparr>"

definition CreateNewSpace :: "CDb3Mmap \<Rightarrow> int \<Rightarrow> (int \<times> CDb3Mmap) option" where
  "CreateNewSpace s n =
     (let ofsNew = dh_ofsFileEnd (m_dbHeader s);
          s = put_header s (dh_ofsFileEnd_update (\<lambda>_. ofsNew + n)) in
      if ofsNew + n \<ge> 4294967296 then None
      else if ofsNew + n > m_dwFileSize s then map_option (Pair ofsNew) (ReMap s (ofsNew + n - m_dwFileSize s))
      else Some (ofsNew, s))"

definition DeleteSpace :: "CDb3Mmap \<Rightarrow> int \<Rightarrow> int \<Rightarrow> CDb3Mmap" where
  "DeleteSpace s ofs n =
     (let s = (if ofs + n = dh_ofsFileEnd (m_dbHeader s)
               then put_header s (dh_ofsFileEnd_update (\<lambda>_. ofs))
               else put_header s (dh_slackSpace_update (\<lambda>x. x + of_int n))) in
      s\<lparr>m_objs := (m_objs s)(ofs := None)\<rparr>)"

text \<open>An empty database: the header and the contact that stands for the user.\<close>

definition CreateDbHeaders :: "int \<Rightarrow> CDb3Mmap" where
  "CreateDbHeaders chunk =
     \<lparr>m_dbHeader = \<lparr>dh_ofsFileEnd = size_header + size_contact, dh_slackSpace = 0, dh_contactCount = 0,
                   dh_ofsFirstContact = 0, dh_ofsUser = size_header, dh_ofsModuleNames = 0\<rparr>,
      m_objs = [size_header \<mapsto> ObjContact (zero_contact\<lparr>dc_signature := DBCONTACT_SIGNATURE\<rparr>)],
      m_dwFileSize = chunk, m_ChunkSize = chunk, m_dwMaxContactId = 1, m_safetyMode = True,
      m_bReadOnly = False, m_bEncrypted = False, m_bMetaEnabled = True,
      m_lContacts = LIST_new 50 (NumericKeySortT cc_contactID),
      m_lMods = LIST_new 50 (SortFn ModCompare), m_lOfs = LIST_new 50 (SortFn OfsCompare),
      m_lastmn = None, m_hLastCachedContact = 0,
      m_lSettings = LIST_new 100 (SortFn stringCompare), m_lastSetting = None,
      m_lGlobalSettings = LIST_new 50 (SortFn compareGlobals), m_lResidentSettings = LIST_new 50 (SortFn strcmp)\<rparr>"

section \<open>Module names\<close>

definition AddToList :: "CDb3Mmap \<Rightarrow> bytes \<Rightarrow> int \<Rightarrow> CDb3Mmap option" where
  "AddToList s name ofs =
     (let mn = \<lparr>md_name = name, md_ofs = ofs\<rparr> in
      do {
        i \<leftarrow> LIST_getIndex (m_lMods s) (Some mn);
        if i \<noteq> -1 then None
        else
          do {
            (r, l) \<leftarrow> List_InsertPtr (m_lMods s) (Some mn);
            let s = s\<lparr>m_lMods := l\<rparr>;
            j \<leftarrow> LIST_getIndex (m_lOfs s) (Some mn);
            if j \<noteq> -1 then None
            else do { (r, l) \<leftarrow> List_InsertPtr (m_lOfs s) (Some mn); Some (s\<lparr>m_lOfs := l\<rparr>) }
          }
      })"

text \<open>Both lookups remember the entry they found.\<close>

definition FindExistingModuleNameOfs :: "CDb3Mmap \<Rightarrow> bytes \<Rightarrow> (int \<times> CDb3Mmap) option" where
  "FindExistingModuleNameOfs s szName =
     (if (case m_lastmn s of None \<Rightarrow> False | Some mn \<Rightarrow> strcmp szName (md_name mn) = 0)
      then Some (md_ofs (the (m_lastmn s)), s)
      else
        do {
          i \<leftarrow> LIST_getIndex (m_lMods s) (Some \<lparr>md_name = szName, md_ofs = 0\<rparr>);
          if i \<noteq> -1 then do { mn \<leftarrow> LIST_at (m_lMods s) i; Some (md_ofs mn, s\<lparr>m_lastmn := Some mn\<rparr>) }
          else Some (0, s)
        })"

definition GetModuleNameOfs :: "CDb3Mmap \<Rightarrow> bytes \<Rightarrow> (int \<times> CDb3Mmap) option" where
  "GetModuleNameOfs s szName =
     do {
       (ofsExisting, s) \<leftarrow> FindExistingModuleNameOfs s szName;
       if ofsExisting \<noteq> 0 then Some (ofsExisting, s)
       else if m_bReadOnly s then Some (0, s)
       else
         do {
           let name = c_str szName;
           (ofsNew, s) \<leftarrow> CreateNewSpace s (int (length name) + size_module);
           let s = DBWrite s ofsNew (ObjModule \<lparr>mn_ofsNext = dh_ofsModuleNames (m_dbHeader s),
             mn_cbName = of_nat (length name), mn_name = name\<rparr>);
           let s = put_header s (dh_ofsModuleNames_update (\<lambda>_. ofsNew));
           s \<leftarrow> AddToList s name ofsNew;
           Some (ofsNew, s)
         }
     }"

definition GetModuleNameByOfs :: "CDb3Mmap \<Rightarrow> int \<Rightarrow> (bytes \<times> CDb3Mmap) option" where
  "GetModuleNameByOfs s ofs =
     (if (case m_lastmn s of None \<Rightarrow> False | Some mn \<Rightarrow> md_ofs mn = ofs)
      then Some (md_name (the (m_lastmn s)), s)
      else
        do {
          i \<leftarrow> LIST_getIndex (m_lOfs s) (Some \<lparr>md_name = [], md_ofs = ofs\<rparr>);
          if i \<noteq> -1 then do { mn \<leftarrow> LIST_at (m_lOfs s) i; Some (md_name mn, s\<lparr>m_lastmn := Some mn\<rparr>) }
          else None
        })"

text \<open>The chain of names in the file, from \<open>ofsThis\<close>: of each name, as much as its length byte says.\<close>

partial_function (option) InitModuleNames :: "CDb3Mmap \<Rightarrow> int \<Rightarrow> CDb3Mmap option" where
  "InitModuleNames s ofsThis =
     (if ofsThis = 0 then Some s
      else case m_objs s ofsThis of
             Some (ObjModule m) \<Rightarrow>
               do { s \<leftarrow> AddToList s (take (unat (mn_cbName m)) (mn_name m)) ofsThis; InitModuleNames s (mn_ofsNext m) }
           | _ \<Rightarrow> None)"

section \<open>The cache of contacts\<close>

definition contact_key :: "u32 \<Rightarrow> DBCachedContact" where
  "contact_key contactID =
     \<lparr>cc_contactID = contactID, cc_nSubs = -1, cc_pSubs = [], cc_parentID = 0, cc_nDefault = 0, cc_dwOfsContact = 0,
      cc_values = []\<rparr>"

definition GetCachedContact :: "CDb3Mmap \<Rightarrow> u32 \<Rightarrow> DBCachedContact option option" where
  "GetCachedContact s contactID =
     do {
       i \<leftarrow> LIST_getIndex (m_lContacts s) (Some (contact_key contactID));
       if i = -1 then Some None else map_option Some (LIST_at (m_lContacts s) i)
     }"

definition AddContactToCache :: "CDb3Mmap \<Rightarrow> u32 \<Rightarrow> (DBCachedContact \<times> CDb3Mmap) option" where
  "AddContactToCache s contactID =
     do {
       i \<leftarrow> LIST_getIndex (m_lContacts s) (Some (contact_key contactID));
       if i \<noteq> -1 then do { cc \<leftarrow> LIST_at (m_lContacts s) i; Some (cc, s) }
       else
         do {
           let cc = contact_key contactID;
           (r, l) \<leftarrow> List_InsertPtr (m_lContacts s) (Some cc);
           Some (cc, s\<lparr>m_lContacts := l\<rparr>)
         }
     }"

definition GetFirstContact :: "CDb3Mmap \<Rightarrow> DBCachedContact option" where
  "GetFirstContact s = LIST_at (m_lContacts s) 0"

definition GetNextContact :: "CDb3Mmap \<Rightarrow> u32 \<Rightarrow> DBCachedContact option option" where
  "GetNextContact s contactID =
     do {
       i \<leftarrow> LIST_getIndex (m_lContacts s) (Some (contact_key contactID));
       if i = -1 then Some None else Some (LIST_at (m_lContacts s) (i + 1))
     }"

definition FreeCachedContact :: "CDb3Mmap \<Rightarrow> u32 \<Rightarrow> CDb3Mmap option" where
  "FreeCachedContact s contactID =
     do {
       i \<leftarrow> LIST_getIndex (m_lContacts s) (Some (contact_key contactID));
       if i = -1 then Some s
       else do { (r, l) \<leftarrow> List_Remove (m_lContacts s) i; Some (s\<lparr>m_lContacts := l\<rparr>) }
     }"

text \<open>Writing through a pointer to an entry of the cache.\<close>

definition put_cached :: "CDb3Mmap \<Rightarrow> u32 \<Rightarrow> (DBCachedContact \<Rightarrow> DBCachedContact) \<Rightarrow> CDb3Mmap option" where
  "put_cached s contactID f =
     do {
       i \<leftarrow> LIST_getIndex (m_lContacts s) (Some (contact_key contactID));
       cc \<leftarrow> LIST_at (m_lContacts s) i;
       its \<leftarrow> arr_write (items (m_lContacts s)) i (Some (f cc));
       Some (s\<lparr>m_lContacts := (m_lContacts s)\<lparr>items := its\<rparr>\<rparr>)
     }"

definition GetContactOffset :: "CDb3Mmap \<Rightarrow> u32 \<Rightarrow> (int \<times> DBCachedContact option) option" where
  "GetContactOffset s contactID =
     (if contactID = 0 then Some (dh_ofsUser (m_dbHeader s), None)
      else
        do {
          cc \<leftarrow> GetCachedContact s contactID;
          Some (case cc of None \<Rightarrow> 0 | Some cc \<Rightarrow> cc_dwOfsContact cc, cc)
        })"

section \<open>Metacontacts\<close>

text \<open>\<open>CheckMeta\<close> and \<open>Meta_GetContactNumber\<close> of \<open>meta_utils.cpp\<close>, \<open>db_mc_setDefault\<close> of \<open>meta_api.cpp\<close>.\<close>

definition CheckMeta :: "CDb3Mmap \<Rightarrow> u32 \<Rightarrow> DBCachedContact option option" where
  "CheckMeta s hMeta =
     (if \<not> m_bMetaEnabled s then Some None
      else
        do {
          cc \<leftarrow> GetCachedContact s hMeta;
          Some (case cc of None \<Rightarrow> None | Some c \<Rightarrow> if cc_nSubs c = -1 then None else Some c)
        })"

fun sub_number :: "u32 list \<Rightarrow> u32 \<Rightarrow> int \<Rightarrow> int" where
  "sub_number [] hContact i = -1"
| "sub_number (p # ps) hContact i = (if p = hContact then i else sub_number ps hContact (i + 1))"

definition Meta_GetContactNumber :: "CDb3Mmap \<Rightarrow> DBCachedContact \<Rightarrow> u32 \<Rightarrow> int" where
  "Meta_GetContactNumber s cc hContact =
     (if m_bMetaEnabled s then sub_number (take (nat (cc_nSubs cc)) (cc_pSubs cc)) hContact 0 else -1)"

end
