(* ===== verification/DbEvents.thy ===== *)
theory DbEvents imports DbBase begin

text \<open>
  Events of the database driver (\<open>plugins/Db3x_mmap/src/dbevents.cpp\<close>).  The events of a
  contact are a doubly linked chain in the file, sorted by time; the record of the contact has
  its ends, the number of events, and the first event that was not read.  A contact that
  belongs to a metacontact has its events in the chain of that.

  Handlers of the driver's notifications and the cipher are parameters; a handler gets the
  state of the driver and may change it, since the driver gives up its lock to call it.
\<close>

record DBEVENTINFO =
  di_szModule :: bytes
  di_iTimestamp :: u64
  di_flags :: u32
  di_eventType :: u32
  di_cbBlob :: int
  di_pBlob :: "bytes option"

definition getUnixtime :: "DBEVENTINFO \<Rightarrow> u32" where
  "getUnixtime di =
     ucast (if di_flags di AND DBEF_MSEC \<noteq> 0 then di_iTimestamp di div 1000 else di_iTimestamp di)"

datatype db_note =
    EventFiltered u32 DBEVENTINFO
  | EventAdded u32 int
  | EventDeleted u32 int
  | EventMarkedRead u32 int
  | DefaultChanged u32 u32
  | SettingChanged u32 bytes bytes DBVARIANT

text \<open>
  The cipher returns the block it allocated and, when it decodes, how much of it is data; with
  strings it returns what is data, and the low half of its address when it encodes.  \<open>de_crypto\<close> says if there is one.  \<open>de_account\<close> is the name of
  the account of a contact, which the protocols get from its settings,
  \<open>de_utf8\<close> the conversion of wide strings, and \<open>de_raw\<close> the bytes of the file at offsets that the model
  has no bytes for.
\<close>

record dbenv =
  de_notify :: "db_note \<Rightarrow> CDb3Mmap \<Rightarrow> (u32 \<times> CDb3Mmap) option"
  de_encode :: "bytes \<Rightarrow> bytes option"
  de_decode :: "bytes \<Rightarrow> (bytes \<times> nat) option"
  de_crypto :: bool
  de_encodeString :: "bytes \<Rightarrow> (bytes \<times> u16) option"
  de_decodeString :: "bytes \<Rightarrow> bytes option"
  de_raw :: "CDb3Mmap \<Rightarrow> int \<Rightarrow> u8"
  de_utf8 :: "bytes \<Rightarrow> bytes option"
  de_account :: "u32 \<Rightarrow> CDb3Mmap \<Rightarrow> (bytes option \<times> CDb3Mmap) option"

definition notify :: "dbenv \<Rightarrow> db_note \<Rightarrow> CDb3Mmap \<Rightarrow> CDb3Mmap option" where
  "notify E n s = map_option snd (de_notify E n s)"

definition db_mc_setDefault :: "dbenv \<Rightarrow> CDb3Mmap \<Rightarrow> u32 \<Rightarrow> u32 \<Rightarrow> (int \<times> CDb3Mmap) option" where
  "db_mc_setDefault E s hMetaContact hSub =
     do {
       cc \<leftarrow> CheckMeta s hMetaContact;
       case cc of
         None \<Rightarrow> Some (1, s)
       | Some cc \<Rightarrow>
           (let contact_number = Meta_GetContactNumber s cc hSub in
            if contact_number = -1 then Some (1, s)
            else if cc_nDefault cc \<noteq> contact_number then
              do {
                s \<leftarrow> put_cached s hMetaContact (cc_nDefault_update (\<lambda>_. contact_number));
                s \<leftarrow> notify E (DefaultChanged hMetaContact hSub) s;
                Some (0, s)
              }
            else Some (0, s))
     }"

definition GetEventCount :: "CDb3Mmap \<Rightarrow> u32 \<Rightarrow> int option" where
  "GetEventCount s contactID =
     do {
       (ofs, cc) \<leftarrow> GetContactOffset s contactID;
       if signature_at s ofs \<noteq> DBCONTACT_SIGNATURE then Some (-1)
       else do { dbc \<leftarrow> DBRead_contact s ofs; Some (sint (dc_eventCount dbc)) }
     }"

section \<open>Adding an event\<close>

text \<open>The loop from the last event back to one that is not later.\<close>

partial_function (option) find_place :: "CDb3Mmap \<Rightarrow> u32 \<Rightarrow> int \<Rightarrow> int option" where
  "find_place s ts ofsThis =
     do {
       e \<leftarrow> DBRead_event s ofsThis;
       if ts \<ge> ev_timestamp e then Some ofsThis else find_place s ts (ev_ofsPrev e)
     }"

declare find_place.simps [code]

text \<open>Puts \<open>ofsNew\<close> into the chain: its neighbours, the record of the contact, and the state.\<close>

definition link_event ::
    "CDb3Mmap \<Rightarrow> DBContact \<Rightarrow> u32 \<Rightarrow> int \<Rightarrow> (int \<times> int \<times> DBContact \<times> CDb3Mmap) option" where
  "link_event s dbc ts ofsNew =
     (if dc_eventCount dbc = 0
      then Some (0, 0, dbc\<lparr>dc_ofsFirstEvent := ofsNew, dc_ofsLastEvent := ofsNew\<rparr>, s)
      else
        do {
          dbeTest \<leftarrow> DBRead_event s (dc_ofsFirstEvent dbc);
          if ts < ev_timestamp dbeTest then
            Some (0, dc_ofsFirstEvent dbc, dbc\<lparr>dc_ofsFirstEvent := ofsNew\<rparr>,
              DBWrite s (dc_ofsFirstEvent dbc) (ObjEvent (dbeTest\<lparr>ev_ofsPrev := ofsNew\<rparr>)))
          else
            do {
              ofsThis \<leftarrow> find_place s ts (dc_ofsLastEvent dbc);
              dbeTest \<leftarrow> DBRead_event s ofsThis;
              let s = DBWrite s ofsThis (ObjEvent (dbeTest\<lparr>ev_ofsNext := ofsNew\<rparr>));
              let ofsNext = ev_ofsNext dbeTest;
              if ofsNext = 0 then Some (ofsThis, 0, dbc\<lparr>dc_ofsLastEvent := ofsNew\<rparr>, s)
              else
                do {
                  dbeTest \<leftarrow> DBRead_event s ofsNext;
                  Some (ofsThis, ofsNext, dbc, DBWrite s ofsNext (ObjEvent (dbeTest\<lparr>ev_ofsPrev := ofsNew\<rparr>)))
                }
            }
        })"

definition note_unread :: "DBContact \<Rightarrow> u32 \<Rightarrow> u32 \<Rightarrow> int \<Rightarrow> DBContact" where
  "note_unread dbc flags ts ofsNew =
     (if flags AND MARKED_READ = 0 \<and> (ts < dc_tsFirstUnread dbc \<or> dc_tsFirstUnread dbc = 0)
      then dbc\<lparr>dc_tsFirstUnread := ts, dc_ofsFirstUnread := ofsNew\<rparr> else dbc)"

text \<open>
  Whose chain an event of a contact goes to: that contact or its metacontact, who is notified,
  and the subcontact if it is one.  \<open>None\<close> if there is no such contact.
\<close>

definition event_target ::
    "dbenv \<Rightarrow> CDb3Mmap \<Rightarrow> u32 \<Rightarrow> DBEVENTINFO \<Rightarrow> ((u32 \<times> u32 \<times> u32 option) option \<times> CDb3Mmap) option" where
  "event_target E s contactID di =
     (if contactID = 0 then Some (Some (0, 0, None), s)
      else
        do {
          cc \<leftarrow> GetCachedContact s contactID;
          case cc of
            None \<Rightarrow> Some (None, s)
          | Some cc \<Rightarrow>
              if IsSub cc then
                do {
                  s \<leftarrow> (if di_flags di AND DBEF_SENT = 0
                        then map_option snd (db_mc_setDefault E s (cc_parentID cc) contactID) else Some s);
                  cc \<leftarrow> GetCachedContact s contactID;
                  cc \<leftarrow> cc;
                  Some (Some (cc_parentID cc, if m_bMetaEnabled s then cc_parentID cc else contactID, Some contactID), s)
                }
              else Some (Some (contactID, contactID, None), s)
        })"

definition event_blob :: "DBEVENTINFO \<Rightarrow> bytes option" where
  "event_blob di =
     (if di_cbBlob di = 0 then Some []
      else
        do {
          b \<leftarrow> di_pBlob di;
          if 0 \<le> di_cbBlob di \<and> nat (di_cbBlob di) \<le> length b then Some (take (nat (di_cbBlob di)) b) else None
        })"

definition encode_blob :: "dbenv \<Rightarrow> CDb3Mmap \<Rightarrow> bytes \<Rightarrow> u32 \<Rightarrow> bytes \<times> u32" where
  "encode_blob E s blob flags =
     (if m_bEncrypted s
      then (case de_encode E blob of None \<Rightarrow> (blob, flags) | Some b \<Rightarrow> (b, flags OR DBEF_ENCRYPTED))
      else (blob, flags))"

text \<open>The number of events of a subcontact, counted in its own record.\<close>

definition count_sub :: "CDb3Mmap \<Rightarrow> u32 option \<Rightarrow> CDb3Mmap option" where
  "count_sub s ccSub =
     (case ccSub of
        None \<Rightarrow> Some s
      | Some contactID \<Rightarrow>
          do {
            cc \<leftarrow> GetCachedContact s contactID;
            cc \<leftarrow> cc;
            pSub \<leftarrow> DBRead_contact s (cc_dwOfsContact cc);
            Some (DBWrite s (cc_dwOfsContact cc) (ObjContact (pSub\<lparr>dc_eventCount := dc_eventCount pSub + 1\<rparr>)))
          })"

text \<open>What happens with the lock held, for the contact at \<open>ofsContact\<close>.\<close>

definition store_event ::
    "dbenv \<Rightarrow> CDb3Mmap \<Rightarrow> int \<Rightarrow> DBContact \<Rightarrow> u32 \<Rightarrow> u32 option \<Rightarrow> DBEVENTINFO \<Rightarrow> bytes \<Rightarrow> u32 \<Rightarrow> (int \<times> CDb3Mmap) option" where
  "store_event E s ofsContact dbc contactID ccSub di blob flags =
     do {
       let ts = getUnixtime di;
       (ofsNew, s) \<leftarrow> CreateNewSpace s (size_event + int (length blob));
       (ofsModuleName, s) \<leftarrow> GetModuleNameOfs s (di_szModule di);
       (ofsPrev, ofsNext, dbc, s) \<leftarrow> link_event s dbc ts ofsNew;
       let dbc = dbc\<lparr>dc_eventCount := dc_eventCount dbc + 1\<rparr>;
       let dbc = note_unread dbc flags ts ofsNew;
       s \<leftarrow> count_sub s ccSub;
       let s = DBWrite s ofsContact (ObjContact dbc);
       Some (ofsNew, DBWrite s ofsNew (ObjEvent
         \<lparr>ev_signature = DBEVENT_SIGNATURE, ev_contactID = contactID, ev_ofsPrev = ofsPrev, ev_ofsNext = ofsNext,
          ev_ofsModuleName = ofsModuleName, ev_timestamp = ts, ev_flags = flags,
          ev_wEventType = ucast (di_eventType di), ev_blob = blob\<rparr>))
     }"

definition AddEvent :: "dbenv \<Rightarrow> CDb3Mmap \<Rightarrow> u32 \<Rightarrow> DBEVENTINFO option \<Rightarrow> (int \<times> CDb3Mmap) option" where
  "AddEvent E s contactID dbei =
     (case dbei of
        None \<Rightarrow> Some (0, s)
      | Some di \<Rightarrow>
          if getUnixtime di = 0 then Some (0, s)
          else
            do {
              (target, s) \<leftarrow> event_target E s contactID di;
              case target of
                None \<Rightarrow> Some (0, s)
              | Some (chainID, contactNotifyID, ccSub) \<Rightarrow>
                  do {
                    (r, s) \<leftarrow> de_notify E (EventFiltered contactNotifyID di) s;
                    if r \<noteq> 0 then Some (0, s)
                    else
                      do {
                        blob \<leftarrow> event_blob di;
                        let (blob, flags) = encode_blob E s blob (di_flags di);
                        (ofsContact, cc) \<leftarrow> GetContactOffset s chainID;
                        if signature_at s ofsContact \<noteq> DBCONTACT_SIGNATURE then Some (0, s)
                        else
                          do {
                            dbc \<leftarrow> DBRead_contact s ofsContact;
                            (ofsNew, s) \<leftarrow> store_event E s ofsContact dbc contactID ccSub di blob flags;
                            s \<leftarrow> (if flags AND MARKED_READ = 0 \<or> flags AND DBEF_TEMPORARY = 0 \<and> m_safetyMode s
                                 then notify E (EventAdded contactNotifyID ofsNew) s else Some s);
                            Some (ofsNew, s)
                          }
                      }
                  }
            })"

section \<open>Deleting an event and marking it as read\<close>

text \<open>The next event that was not read, and its time.\<close>

partial_function (option) next_unread :: "CDb3Mmap \<Rightarrow> DBEvent \<Rightarrow> (int \<times> u32) option" where
  "next_unread s e =
     (if ev_ofsNext e = 0 then Some (0, 0)
      else
        do {
          n \<leftarrow> DBRead_event s (ev_ofsNext e);
          if \<not> markedRead n then Some (ev_ofsNext e, ev_timestamp n) else next_unread s n
        })"

declare next_unread.simps [code]

definition unlink_event :: "CDb3Mmap \<Rightarrow> DBContact \<Rightarrow> DBEvent \<Rightarrow> (DBContact \<times> CDb3Mmap) option" where
  "unlink_event s dbc dbe =
     (if ev_ofsPrev dbe = 0 then
        if ev_ofsNext dbe = 0 then Some (dbc\<lparr>dc_ofsFirstEvent := 0, dc_ofsLastEvent := 0\<rparr>, s)
        else
          do {
            dbeNext \<leftarrow> DBRead_event s (ev_ofsNext dbe);
            Some (dbc\<lparr>dc_ofsFirstEvent := ev_ofsNext dbe\<rparr>,
                  DBWrite s (ev_ofsNext dbe) (ObjEvent (dbeNext\<lparr>ev_ofsPrev := 0\<rparr>)))
          }
      else if ev_ofsNext dbe = 0 then
        do {
          dbePrev \<leftarrow> DBRead_event s (ev_ofsPrev dbe);
          Some (dbc\<lparr>dc_ofsLastEvent := ev_ofsPrev dbe\<rparr>,
                DBWrite s (ev_ofsPrev dbe) (ObjEvent (dbePrev\<lparr>ev_ofsNext := 0\<rparr>)))
        }
      else
        do {
          dbePrev \<leftarrow> DBRead_event s (ev_ofsPrev dbe);
          let s = DBWrite s (ev_ofsPrev dbe) (ObjEvent (dbePrev\<lparr>ev_ofsNext := ev_ofsNext dbe\<rparr>));
          dbeNext \<leftarrow> DBRead_event s (ev_ofsNext dbe);
          Some (dbc, DBWrite s (ev_ofsNext dbe) (ObjEvent (dbeNext\<lparr>ev_ofsPrev := ev_ofsPrev dbe\<rparr>)))
        })"

text \<open>With the lock held again: the event at \<open>hDbEvent\<close> is taken out of the chain of the contact at \<open>ofsContact\<close>.\<close>

definition remove_event :: "CDb3Mmap \<Rightarrow> int \<Rightarrow> int \<Rightarrow> DBContact \<Rightarrow> DBEvent \<Rightarrow> CDb3Mmap option" where
  "remove_event s ofsContact hDbEvent dbc dbe =
     do {
       dbc \<leftarrow> (if dc_ofsFirstUnread dbc = hDbEvent
               then do { (ofs, ts) \<leftarrow> next_unread s dbe;
                         Some (dbc\<lparr>dc_ofsFirstUnread := ofs, dc_tsFirstUnread := ts\<rparr>) }
               else Some dbc);
       (dbc, s) \<leftarrow> unlink_event s dbc dbe;
       let s = DBWrite s ofsContact (ObjContact (dbc\<lparr>dc_eventCount := dc_eventCount dbc - 1\<rparr>));
       Some (DeleteSpace s hDbEvent (size_event + int (length (ev_blob dbe))))
     }"

definition uncount_sub :: "CDb3Mmap \<Rightarrow> u32 \<Rightarrow> CDb3Mmap option" where
  "uncount_sub s contactID =
     do {
       (ofs, cc) \<leftarrow> GetContactOffset s contactID;
       pSub \<leftarrow> DBRead_contact s ofs;
       Some (if dc_eventCount pSub > 0
             then DBWrite s ofs (ObjContact (pSub\<lparr>dc_eventCount := dc_eventCount pSub - 1\<rparr>)) else s)
     }"

text \<open>The contact whose chain has the events of \<open>contactID\<close>; an error code where the code returns one.\<close>

definition chain_owner :: "CDb3Mmap \<Rightarrow> u32 \<Rightarrow> (u32 + DBCachedContact option) option" where
  "chain_owner s contactID =
     (if contactID = 0 then Some (Inr None)
      else
        do {
          cc \<leftarrow> GetCachedContact s contactID;
          case cc of
            None \<Rightarrow> Some (Inl 2)
          | Some cc \<Rightarrow>
              if IsSub cc then
                do {
                  cc \<leftarrow> GetCachedContact s (cc_parentID cc);
                  Some (case cc of None \<Rightarrow> Inl 3 | Some cc \<Rightarrow> Inr (Some cc))
                }
              else Some (Inr (Some cc))
        })"

definition owner_offset :: "CDb3Mmap \<Rightarrow> DBCachedContact option \<Rightarrow> int" where
  "owner_offset s cc = (case cc of None \<Rightarrow> dh_ofsUser (m_dbHeader s) | Some cc \<Rightarrow> cc_dwOfsContact cc)"

definition DeleteEvent :: "dbenv \<Rightarrow> CDb3Mmap \<Rightarrow> int \<Rightarrow> (u32 \<times> CDb3Mmap) option" where
  "DeleteEvent E s hDbEvent =
     (if signature_at s hDbEvent \<noteq> DBEVENT_SIGNATURE then Some (1, s)
      else
        do {
          dbe \<leftarrow> DBRead_event s hDbEvent;
          owner \<leftarrow> chain_owner s (ev_contactID dbe);
          case owner of
            Inl err \<Rightarrow> Some (err, s)
          | Inr cc \<Rightarrow>
              (let ofsContact = owner_offset s cc in
               if signature_at s ofsContact \<noteq> DBCONTACT_SIGNATURE then Some (1, s)
               else
                 do {
                   s \<leftarrow> notify E (EventDeleted (ev_contactID dbe) hDbEvent) s;
                   dbc \<leftarrow> DBRead_contact s ofsContact;
                   dbe \<leftarrow> DBRead_event s hDbEvent;
                   s \<leftarrow> remove_event s ofsContact hDbEvent dbc dbe;
                   s \<leftarrow> (case cc of
                          None \<Rightarrow> Some s
                        | Some cc \<Rightarrow> if ev_contactID dbe \<noteq> cc_contactID cc then uncount_sub s (ev_contactID dbe) else Some s);
                   Some (0, s)
                 })
        })"

definition EditEvent :: "CDb3Mmap \<Rightarrow> int \<Rightarrow> DBEVENTINFO option \<Rightarrow> u32 \<times> CDb3Mmap" where
  "EditEvent s hDbEvent dbei = (1, s)"

definition MarkEventRead :: "dbenv \<Rightarrow> CDb3Mmap \<Rightarrow> u32 \<Rightarrow> int \<Rightarrow> (u32 \<times> CDb3Mmap) option" where
  "MarkEventRead E s contactID hDbEvent =
     do {
       owner \<leftarrow> chain_owner s contactID;
       case owner of
         Inl err \<Rightarrow> Some (-1, s)
       | Inr cc \<Rightarrow>
           (let ofsContact = owner_offset s cc in
            if signature_at s hDbEvent \<noteq> DBEVENT_SIGNATURE \<or> signature_at s ofsContact \<noteq> DBCONTACT_SIGNATURE
            then Some (-1, s)
            else
              do {
                dbc \<leftarrow> DBRead_contact s ofsContact;
                dbe \<leftarrow> DBRead_event s hDbEvent;
                if markedRead dbe then Some (ev_flags dbe, s)
                else
                  do {
                    let dbe = dbe\<lparr>ev_flags := ev_flags dbe OR DBEF_READ\<rparr>;
                    let s = DBWrite s hDbEvent (ObjEvent dbe);
                    dbc \<leftarrow> (if dc_ofsFirstUnread dbc = hDbEvent
                            then do { (ofs, ts) \<leftarrow> next_unread s dbe;
                                      Some (dbc\<lparr>dc_ofsFirstUnread := ofs, dc_tsFirstUnread := ts\<rparr>) }
                            else Some dbc);
                    let s = DBWrite s ofsContact (ObjContact dbc);
                    s \<leftarrow> notify E (EventMarkedRead contactID hDbEvent) s;
                    Some (ev_flags dbe, s)
                  }
              })
     }"

section \<open>Reading events\<close>

definition GetBlobSize :: "CDb3Mmap \<Rightarrow> int \<Rightarrow> int option" where
  "GetBlobSize s hDbEvent =
     (if signature_at s hDbEvent \<noteq> DBEVENT_SIGNATURE then Some (-1)
      else do { dbe \<leftarrow> DBRead_event s hDbEvent; Some (int (length (ev_blob dbe))) })"

text \<open>\<open>memcpy (pBlob, src, n)\<close> into the caller's buffer, then zeros up to \<open>n\<close> from \<open>m\<close> on.\<close>

definition copy_blob :: "bytes \<Rightarrow> bytes \<Rightarrow> nat \<Rightarrow> nat \<Rightarrow> bytes option" where
  "copy_blob dst src n m =
     (if n \<le> length dst \<and> n \<le> length src
      then Some (take (min m n) src @ replicate (n - m) 0 @ drop n dst) else None)"

definition GetEvent :: "dbenv \<Rightarrow> CDb3Mmap \<Rightarrow> int \<Rightarrow> DBEVENTINFO option \<Rightarrow> (u32 \<times> DBEVENTINFO option \<times> CDb3Mmap) option" where
  "GetEvent E s hDbEvent dbei =
     (case dbei of
        None \<Rightarrow> Some (1, None, s)
      | Some di \<Rightarrow>
          if di_cbBlob di > 0 \<and> di_pBlob di = None then Some (1, Some (di\<lparr>di_cbBlob := 0\<rparr>), s)
          else if signature_at s hDbEvent \<noteq> DBEVENT_SIGNATURE then Some (1, Some di, s)
          else
            do {
              dbe \<leftarrow> DBRead_event s hDbEvent;
              (szModule, s) \<leftarrow> GetModuleNameByOfs s (ev_ofsModuleName dbe);
              let cbBlob = length (ev_blob dbe);
              let bytesToCopy = (if di_cbBlob di \<ge> 0 \<and> nat (di_cbBlob di) < cbBlob then nat (di_cbBlob di) else cbBlob);
              let pBlob = (if di_cbBlob di = -1 then Some (replicate (cbBlob + 2) 0) else di_pBlob di);
              let di = di\<lparr>di_szModule := szModule, di_iTimestamp := ucast (ev_timestamp dbe), di_flags := ev_flags dbe,
                          di_eventType := ucast (ev_wEventType dbe), di_cbBlob := int cbBlob, di_pBlob := pBlob\<rparr>;
              case pBlob of
                None \<Rightarrow> Some (0, Some di, s)
              | Some p \<Rightarrow>
                  if bytesToCopy = 0 then Some (0, Some di, s)
                  else if ev_flags dbe AND DBEF_ENCRYPTED \<noteq> 0 then
                    (let di = di\<lparr>di_flags := di_flags di AND NOT DBEF_ENCRYPTED\<rparr> in
                     case de_decode E (ev_blob dbe) of
                       None \<Rightarrow> Some (1, Some di, s)
                     | Some (block, len) \<Rightarrow>
                         do { p \<leftarrow> copy_blob p block bytesToCopy len; Some (0, Some (di\<lparr>di_pBlob := Some p\<rparr>), s) })
                  else
                    do { p \<leftarrow> copy_blob p (ev_blob dbe) bytesToCopy bytesToCopy; Some (0, Some (di\<lparr>di_pBlob := Some p\<rparr>), s) }
            })"

definition INVALID_CONTACT_ID :: u32 where "INVALID_CONTACT_ID = 0xFFFFFFFF"

definition GetEventContact :: "CDb3Mmap \<Rightarrow> int \<Rightarrow> u32 option" where
  "GetEventContact s hDbEvent =
     (if signature_at s hDbEvent \<noteq> DBEVENT_SIGNATURE then Some INVALID_CONTACT_ID
      else do { dbe \<leftarrow> DBRead_event s hDbEvent; Some (ev_contactID dbe) })"

text \<open>
  From \<open>ofs\<close> on, along \<open>dir\<close>, the first event that \<open>sel\<close> selects; the end of the search if
  the chain is broken.
\<close>

partial_function (option) search_chain ::
    "CDb3Mmap \<Rightarrow> (DBEvent \<Rightarrow> int) \<Rightarrow> (DBEvent \<Rightarrow> bool) \<Rightarrow> int \<Rightarrow> int option" where
  "search_chain s dir sel ofs =
     (if ofs = 0 then Some 0
      else if signature_at s ofs \<noteq> DBEVENT_SIGNATURE then Some 0
      else
        do {
          dbe \<leftarrow> DBRead_event s ofs;
          if sel dbe then Some ofs else search_chain s dir sel (dir dbe)
        })"

declare search_chain.simps [code]

text \<open>
  The three searches that start at a contact: for a contact of its own the field of its record,
  for a subcontact a search in the chain of its metacontact.
\<close>

definition find_from_contact ::
    "CDb3Mmap \<Rightarrow> u32 \<Rightarrow> (DBContact \<Rightarrow> int) \<Rightarrow> (DBEvent \<Rightarrow> int) \<Rightarrow> (DBEvent \<Rightarrow> bool) \<Rightarrow> int option" where
  "find_from_contact s contactID field dir sel =
     do {
       (ofsContact, cc) \<leftarrow> GetContactOffset s contactID;
       if signature_at s ofsContact \<noteq> DBCONTACT_SIGNATURE then Some 0
       else
         do {
           dbc \<leftarrow> DBRead_contact s ofsContact;
           case cc of
             None \<Rightarrow> Some (field dbc)
           | Some cc \<Rightarrow>
               if \<not> IsSub cc then Some (field dbc)
               else
                 do {
                   cc \<leftarrow> GetCachedContact s (cc_parentID cc);
                   case cc of
                     None \<Rightarrow> Some 0
                   | Some cc \<Rightarrow>
                       if signature_at s (cc_dwOfsContact cc) \<noteq> DBCONTACT_SIGNATURE then Some 0
                       else do { dbc \<leftarrow> DBRead_contact s (cc_dwOfsContact cc); search_chain s dir sel (field dbc) }
                 }
         }
     }"

definition FindFirstEvent :: "CDb3Mmap \<Rightarrow> u32 \<Rightarrow> int option" where
  "FindFirstEvent s contactID =
     find_from_contact s contactID dc_ofsFirstEvent ev_ofsNext (\<lambda>e. ev_contactID e = contactID)"

definition FindFirstUnreadEvent :: "CDb3Mmap \<Rightarrow> u32 \<Rightarrow> int option" where
  "FindFirstUnreadEvent s contactID =
     find_from_contact s contactID dc_ofsFirstUnread ev_ofsNext (\<lambda>e. ev_contactID e = contactID \<and> \<not> markedRead e)"

definition FindLastEvent :: "CDb3Mmap \<Rightarrow> u32 \<Rightarrow> int option" where
  "FindLastEvent s contactID =
     find_from_contact s contactID dc_ofsLastEvent ev_ofsPrev (\<lambda>e. ev_contactID e = contactID)"

definition find_from_event ::
    "CDb3Mmap \<Rightarrow> u32 \<Rightarrow> int \<Rightarrow> (DBEvent \<Rightarrow> int) \<Rightarrow> int option" where
  "find_from_event s contactID hDbEvent dir =
     do {
       cc \<leftarrow> (if contactID = 0 then Some None else GetCachedContact s contactID);
       if signature_at s hDbEvent \<noteq> DBEVENT_SIGNATURE then Some 0
       else
         do {
           dbe \<leftarrow> DBRead_event s hDbEvent;
           case cc of
             None \<Rightarrow> Some (dir dbe)
           | Some cc \<Rightarrow>
               if \<not> IsSub cc then Some (dir dbe)
               else search_chain s dir (\<lambda>e. ev_contactID e = contactID) (dir dbe)
         }
     }"

definition FindNextEvent :: "CDb3Mmap \<Rightarrow> u32 \<Rightarrow> int \<Rightarrow> int option" where
  "FindNextEvent s contactID hDbEvent = find_from_event s contactID hDbEvent ev_ofsNext"

definition FindPrevEvent :: "CDb3Mmap \<Rightarrow> u32 \<Rightarrow> int \<Rightarrow> int option" where
  "FindPrevEvent s contactID hDbEvent = find_from_event s contactID hDbEvent ev_ofsPrev"

end
