(* ===== verification/DbContacts.thy ===== *)
theory DbContacts imports DbEvents begin

text \<open>
  Contacts of the database driver (\<open>plugins/Db3x_mmap/src/dbcontacts.cpp\<close>): the chain of
  contacts, deleting a contact with everything it has, and moving the events of a contact
  into the chain of a metacontact and back.
\<close>

definition GetContactCount :: "CDb3Mmap \<Rightarrow> u32" where
  "GetContactCount s = dh_contactCount (m_dbHeader s)"

definition AddContact :: "CDb3Mmap \<Rightarrow> (u32 \<times> CDb3Mmap) option" where
  "AddContact s =
     do {
       (ofsNew, s) \<leftarrow> CreateNewSpace s size_contact;
       let contactID = m_dwMaxContactId s;
       let dbc = zero_contact\<lparr>dc_signature := DBCONTACT_SIGNATURE,
                              dc_ofsNext := dh_ofsFirstContact (m_dbHeader s), dc_dwContactID := contactID\<rparr>;
       let s = s\<lparr>m_dwMaxContactId := contactID + 1\<rparr>;
       let s = put_header s (\<lambda>h. h\<lparr>dh_ofsFirstContact := ofsNew, dh_contactCount := dh_contactCount h + 1\<rparr>);
       let s = DBWrite s ofsNew (ObjContact dbc);
       (cc, s) \<leftarrow> AddContactToCache s contactID;
       s \<leftarrow> put_cached s contactID (cc_dwOfsContact_update (\<lambda>_. ofsNew));
       Some (contactID, s)
     }"

definition IsDbContact :: "CDb3Mmap \<Rightarrow> u32 \<Rightarrow> (bool \<times> CDb3Mmap) option" where
  "IsDbContact s contactID =
     do {
       cc \<leftarrow> GetCachedContact s contactID;
       case cc of
         None \<Rightarrow> Some (False, s)
       | Some cc \<Rightarrow>
           if signature_at s (cc_dwOfsContact cc) = DBCONTACT_SIGNATURE
           then do { (cc, s) \<leftarrow> AddContactToCache s contactID; Some (True, s) }
           else Some (False, s)
     }"

section \<open>Deleting a contact\<close>

partial_function (option) delete_settings :: "CDb3Mmap \<Rightarrow> int \<Rightarrow> CDb3Mmap option" where
  "delete_settings s ofs =
     (if ofs = 0 then Some s
      else
        (case m_objs s ofs of
           Some (ObjSettings g) \<Rightarrow>
             delete_settings (DeleteSpace s ofs (size_settings + int (length (st_blob g)))) (st_ofsNext g)
         | _ \<Rightarrow> None))"

partial_function (option) delete_events :: "CDb3Mmap \<Rightarrow> int \<Rightarrow> CDb3Mmap option" where
  "delete_events s ofs =
     (if ofs = 0 then Some s
      else
        do {
          dbe \<leftarrow> DBRead_event s ofs;
          delete_events (DeleteSpace s ofs (size_event + int (length (ev_blob dbe)))) (ev_ofsNext dbe)
        })"

text \<open>The contact before the one at \<open>ofsContact\<close> in the chain.\<close>

partial_function (option) contact_before :: "CDb3Mmap \<Rightarrow> int \<Rightarrow> int \<Rightarrow> int option" where
  "contact_before s ofsContact ofsThis =
     do {
       dbcPrev \<leftarrow> DBRead_contact s ofsThis;
       if dc_ofsNext dbcPrev = ofsContact then Some ofsThis
       else if dc_ofsNext dbcPrev = 0 then None
       else contact_before s ofsContact (dc_ofsNext dbcPrev)
     }"

declare delete_settings.simps [code] delete_events.simps [code] contact_before.simps [code]

definition unlink_contact :: "CDb3Mmap \<Rightarrow> int \<Rightarrow> CDb3Mmap option" where
  "unlink_contact s ofsContact =
     do {
       dbc \<leftarrow> DBRead_contact s ofsContact;
       if dh_ofsFirstContact (m_dbHeader s) = ofsContact
       then Some (put_header s (dh_ofsFirstContact_update (\<lambda>_. dc_ofsNext dbc)))
       else
         do {
           ofsThis \<leftarrow> contact_before s ofsContact (dh_ofsFirstContact (m_dbHeader s));
           dbcPrev \<leftarrow> DBRead_contact s ofsThis;
           Some (DBWrite s ofsThis (ObjContact (dbcPrev\<lparr>dc_ofsNext := dc_ofsNext dbc\<rparr>)))
         }
     }"

definition DeleteContact :: "CDb3Mmap \<Rightarrow> u32 \<Rightarrow> (u32 \<times> CDb3Mmap) option" where
  "DeleteContact s contactID =
     do {
       (ofsContact, cc) \<leftarrow> GetContactOffset s contactID;
       if signature_at s ofsContact \<noteq> DBCONTACT_SIGNATURE \<or> ofsContact = dh_ofsUser (m_dbHeader s) then Some (1, s)
       else
         do {
           dbc \<leftarrow> DBRead_contact s ofsContact;
           s \<leftarrow> delete_settings s (dc_ofsFirstSettings dbc);
           s \<leftarrow> delete_events s (dc_ofsFirstEvent dbc);
           s \<leftarrow> unlink_contact s ofsContact;
           let s = DeleteSpace s ofsContact size_contact;
           let s = put_header s (dh_contactCount_update (\<lambda>n. n - 1));
           s \<leftarrow> FreeCachedContact s contactID;
           Some (0, if contactID = m_hLastCachedContact s then s\<lparr>m_hLastCachedContact := 0\<rparr> else s)
         }
     }"

section \<open>Events of metacontacts\<close>

text \<open>An event in the list that sorts them: its offset and its time.\<close>

type_synonym event_entry = "int \<times> u32"

definition SortEvent :: "event_entry \<Rightarrow> event_entry \<Rightarrow> int" where
  "SortEvent p1 p2 = sint (snd p1 - snd p2)"

text \<open>The events of a chain into the list; an error if the chain is broken.\<close>

partial_function (option) collect_events ::
    "CDb3Mmap \<Rightarrow> event_entry slist \<Rightarrow> int \<Rightarrow> (u32 + event_entry slist) option" where
  "collect_events s arEvents ofs =
     (if ofs = 0 then Some (Inr arEvents)
      else if signature_at s ofs \<noteq> DBEVENT_SIGNATURE then Some (Inl 2)
      else
        do {
          pev \<leftarrow> DBRead_event s ofs;
          (r, arEvents) \<leftarrow> List_InsertPtr arEvents (Some (ofs, ev_timestamp pev));
          collect_events s arEvents (ev_ofsNext pev)
        })"

declare collect_events.simps [code]

definition put_event :: "CDb3Mmap \<Rightarrow> int \<Rightarrow> (DBEvent \<Rightarrow> DBEvent) \<Rightarrow> CDb3Mmap option" where
  "put_event s ofs f = do { e \<leftarrow> DBRead_event s ofs; Some (DBWrite s ofs (ObjEvent (f e))) }"

text \<open>The links between the events of the list, from the \<open>i\<close>-th on; \<open>unread\<close> is the first unread one so far.\<close>

fun relink_events :: "CDb3Mmap \<Rightarrow> event_entry slist \<Rightarrow> int \<Rightarrow> nat \<Rightarrow> int \<Rightarrow> (int \<times> CDb3Mmap) option" where
  "relink_events s arEvents unread 0 i = Some (unread, s)"
| "relink_events s arEvents unread (Suc n) i =
     do {
       pPrev \<leftarrow> LIST_at arEvents (i - 1);
       pNext \<leftarrow> LIST_at arEvents i;
       s \<leftarrow> put_event s (fst pPrev) (ev_ofsNext_update (\<lambda>_. fst pNext));
       s \<leftarrow> put_event s (fst pNext) (ev_ofsPrev_update (\<lambda>_. fst pPrev));
       e \<leftarrow> DBRead_event s (fst pNext);
       relink_events s arEvents (if unread = 0 \<and> \<not> markedRead e then fst pNext else unread) n (i + 1)
     }"

definition merge_events :: "CDb3Mmap \<Rightarrow> DBContact \<Rightarrow> event_entry slist \<Rightarrow> (DBContact \<times> CDb3Mmap) option" where
  "merge_events s dbMeta arEvents =
     do {
       let count = realCount arEvents;
       pFirst \<leftarrow> LIST_at arEvents 0;
       s \<leftarrow> put_event s (fst pFirst) (ev_ofsPrev_update (\<lambda>_. 0));
       e \<leftarrow> DBRead_event s (fst pFirst);
       pLast \<leftarrow> LIST_at arEvents (count - 1);
       s \<leftarrow> put_event s (fst pLast) (ev_ofsNext_update (\<lambda>_. 0));
       (unread, s) \<leftarrow> relink_events s arEvents (if markedRead e then 0 else fst pFirst) (nat (count - 1)) 1;
       Some (dbMeta\<lparr>dc_eventCount := of_int count, dc_ofsFirstEvent := fst pFirst, dc_ofsLastEvent := fst pLast,
                    dc_ofsFirstUnread := unread\<rparr>, s)
     }"

definition clear_history :: "DBContact \<Rightarrow> DBContact" where
  "clear_history dbc =
     dbc\<lparr>dc_ofsFirstEvent := 0, dc_ofsLastEvent := 0, dc_ofsFirstUnread := 0, dc_tsFirstUnread := 0\<rparr>"

text \<open>Both contacts are pointers into the file; they are written when they change.\<close>

definition MetaMergeHistory :: "CDb3Mmap \<Rightarrow> DBCachedContact \<Rightarrow> DBCachedContact \<Rightarrow> (u32 \<times> CDb3Mmap) option" where
  "MetaMergeHistory s ccMeta ccSub =
     (let ofsMeta = cc_dwOfsContact ccMeta; ofsSub = cc_dwOfsContact ccSub in
      if signature_at s ofsMeta \<noteq> DBCONTACT_SIGNATURE \<or> signature_at s ofsSub \<noteq> DBCONTACT_SIGNATURE then Some (1, s)
      else
        do {
          dbMeta \<leftarrow> DBRead_contact s ofsMeta;
          dbSub \<leftarrow> DBRead_contact s ofsSub;
          if dc_ofsFirstEvent dbSub = 0 then Some (0, s)
          else if dc_ofsFirstEvent dbMeta = 0 then
            (let dbMeta = dbMeta\<lparr>dc_eventCount := dc_eventCount dbSub, dc_ofsFirstEvent := dc_ofsFirstEvent dbSub,
                                 dc_ofsLastEvent := dc_ofsLastEvent dbSub, dc_ofsFirstUnread := dc_ofsFirstUnread dbSub,
                                 dc_tsFirstUnread := dc_tsFirstUnread dbSub\<rparr> in
             Some (0, DBWrite (DBWrite s ofsMeta (ObjContact dbMeta)) ofsSub (ObjContact (clear_history dbSub))))
          else
            do {
              r \<leftarrow> collect_events s (LIST_new 20000 (SortFn SortEvent)) (dc_ofsFirstEvent dbMeta);
              case r of
                Inl err \<Rightarrow> Some (err, s)
              | Inr arEvents \<Rightarrow>
                  do {
                    r \<leftarrow> collect_events s arEvents (dc_ofsFirstEvent dbSub);
                    case r of
                      Inl err \<Rightarrow> Some (err, s)
                    | Inr arEvents \<Rightarrow>
                        do {
                          (dbMeta, s) \<leftarrow> merge_events s dbMeta arEvents;
                          Some (0, DBWrite (DBWrite s ofsMeta (ObjContact dbMeta)) ofsSub (ObjContact (clear_history dbSub)))
                        }
                  }
            }
        })"

partial_function (option) wipe_events :: "CDb3Mmap \<Rightarrow> int \<Rightarrow> (bool \<times> CDb3Mmap) option" where
  "wipe_events s ofs =
     (if ofs = 0 then Some (True, s)
      else if signature_at s ofs \<noteq> DBEVENT_SIGNATURE then Some (False, s)
      else
        do {
          pev \<leftarrow> DBRead_event s ofs;
          wipe_events (DeleteSpace s ofs (size_event + int (length (ev_blob pev)))) (ev_ofsNext pev)
        })"

declare wipe_events.simps [code]

definition WipeContactHistory :: "CDb3Mmap \<Rightarrow> DBContact \<Rightarrow> (u32 \<times> DBContact \<times> CDb3Mmap) option" where
  "WipeContactHistory s dbc =
     do {
       (ok, s) \<leftarrow> wipe_events s (dc_ofsFirstEvent dbc);
       Some (if ok then (0, (clear_history dbc)\<lparr>dc_eventCount := 0\<rparr>, s) else (2, dbc, s))
     }"

text \<open>An event at the end of one of the two chains; \<open>evLast\<close> is the one before it or 0.\<close>

definition append_event :: "CDb3Mmap \<Rightarrow> DBContact \<Rightarrow> int \<Rightarrow> int \<Rightarrow> (DBContact \<times> CDb3Mmap) option" where
  "append_event s dbc evLast ofs =
     do {
       let dbc = dbc\<lparr>dc_eventCount := dc_eventCount dbc + 1\<rparr>;
       s \<leftarrow> (if evLast \<noteq> 0 then put_event s evLast (ev_ofsNext_update (\<lambda>_. ofs)) else Some s);
       s \<leftarrow> put_event s ofs (ev_ofsPrev_update (\<lambda>_. evLast));
       let dbc = (if evLast = 0 then dbc\<lparr>dc_ofsFirstEvent := ofs\<rparr> else dbc);
       evCurr \<leftarrow> DBRead_event s ofs;
       let dbc = (if dc_ofsFirstUnread dbc = 0 \<and> \<not> markedRead evCurr
                  then dbc\<lparr>dc_ofsFirstUnread := ofs, dc_tsFirstUnread := ev_timestamp evCurr\<rparr> else dbc);
       Some (dbc\<lparr>dc_ofsLastEvent := ofs\<rparr>, s)
     }"

partial_function (option) split_events ::
    "u32 \<Rightarrow> CDb3Mmap \<Rightarrow> DBContact \<Rightarrow> int \<Rightarrow> DBContact \<Rightarrow> int \<Rightarrow> int \<Rightarrow> (DBContact \<times> DBContact \<times> CDb3Mmap) option" where
  "split_events subID s dbMeta evMeta dbSub evSub ofs =
     (if ofs = 0 \<or> signature_at s ofs \<noteq> DBEVENT_SIGNATURE then Some (dbMeta, dbSub, s)
      else
        do {
          evCurr \<leftarrow> DBRead_event s ofs;
          let dwNext = ev_ofsNext evCurr;
          let s = DBWrite s ofs (ObjEvent (evCurr\<lparr>ev_ofsNext := 0\<rparr>));
          if ev_contactID evCurr = subID then
            do { (dbSub, s) \<leftarrow> append_event s dbSub evSub ofs; split_events subID s dbMeta evMeta dbSub ofs dwNext }
          else
            do { (dbMeta, s) \<leftarrow> append_event s dbMeta evMeta ofs; split_events subID s dbMeta ofs dbSub evSub dwNext }
        })"

declare split_events.simps [code]

definition MetaSplitHistory :: "CDb3Mmap \<Rightarrow> DBCachedContact \<Rightarrow> DBCachedContact \<Rightarrow> (u32 \<times> CDb3Mmap) option" where
  "MetaSplitHistory s ccMeta ccSub =
     (let ofsMeta = cc_dwOfsContact ccMeta; ofsSub = cc_dwOfsContact ccSub in
      if signature_at s ofsMeta \<noteq> DBCONTACT_SIGNATURE \<or> signature_at s ofsSub \<noteq> DBCONTACT_SIGNATURE then Some (1, s)
      else
        do {
          dbMeta \<leftarrow> DBRead_contact s ofsMeta;
          dbSub \<leftarrow> DBRead_contact s ofsSub;
          if dc_ofsFirstEvent dbMeta = 0 then Some (0, s)
          else
            do {
              (ret, dbSub, s) \<leftarrow> WipeContactHistory s dbSub;
              if ret \<noteq> 0 then Some (ret, s)
              else
                do {
                  let ofs = dc_ofsFirstEvent dbMeta;
                  let dbMeta = (clear_history dbMeta)\<lparr>dc_eventCount := 0\<rparr>;
                  (dbMeta, dbSub, s) \<leftarrow> split_events (cc_contactID ccSub) s dbMeta 0 dbSub 0 ofs;
                  Some (0, DBWrite (DBWrite s ofsSub (ObjContact dbSub)) ofsMeta (ObjContact dbMeta))
                }
            }
        })"

end
