(* ===== verification/DbChain.thy ===== *)
theory DbChain imports DbContacts begin

text \<open>
  The chain of events of a contact as a list: what it means that the file holds a list of
  events as a doubly linked chain, and what putting an event in and taking one out does to it.
\<close>

section \<open>Chains\<close>

text \<open>An event with its offset; the links of the event itself are left zero in the list.\<close>

type_synonym entry = "int \<times> DBEvent"

definition entry_ok :: "entry \<Rightarrow> bool" where
  "entry_ok x \<longleftrightarrow>
     0 < fst x \<and> ev_signature (snd x) = DBEVENT_SIGNATURE \<and> ev_timestamp (snd x) \<noteq> 0 \<and>
     ev_ofsPrev (snd x) = 0 \<and> ev_ofsNext (snd x) = 0"

definition with_links :: "DBEvent \<Rightarrow> int \<Rightarrow> int \<Rightarrow> DBEvent" where
  "with_links e p n = e\<lparr>ev_ofsPrev := p, ev_ofsNext := n\<rparr>"

lemma with_links_fields [simp]:
  "ev_ofsPrev (with_links e p n) = p" "ev_ofsNext (with_links e p n) = n"
  "ev_timestamp (with_links e p n) = ev_timestamp e" "ev_flags (with_links e p n) = ev_flags e"
  "ev_blob (with_links e p n) = ev_blob e" "ev_contactID (with_links e p n) = ev_contactID e"
  "ev_signature (with_links e p n) = ev_signature e" "markedRead (with_links e p n) = markedRead e"
  "(with_links e p n)\<lparr>ev_ofsPrev := p'\<rparr> = with_links e p' n"
  "(with_links e p n)\<lparr>ev_ofsNext := n'\<rparr> = with_links e p n'"
  "(with_links e p n)\<lparr>ev_flags := f\<rparr> = with_links (e\<lparr>ev_flags := f\<rparr>) p n"
  by (simp_all add: with_links_def markedRead_def)

text \<open>
  \<open>xs\<close> is in the file as a chain that comes from \<open>p\<close> and goes on to \<open>n\<close>.
\<close>

primrec chain :: "(int \<Rightarrow> dbobj option) \<Rightarrow> int \<Rightarrow> entry list \<Rightarrow> int \<Rightarrow> bool" where
  "chain h p [] n \<longleftrightarrow> True"
| "chain h p (x # xs) n \<longleftrightarrow>
     h (fst x) = Some (ObjEvent (with_links (snd x) p (hd (map fst xs @ [n])))) \<and> chain h (fst x) xs n"

lemma chain_append:
  "chain h p (xs @ ys) n \<longleftrightarrow>
     chain h p xs (hd (map fst ys @ [n])) \<and> chain h (last (p # map fst xs)) ys n"
  by (induction xs arbitrary: p) (auto simp: hd_append split: list.splits)

lemma chain_cong:
  "(\<And>x. x \<in> fst ` set xs \<Longrightarrow> h' x = h x) \<Longrightarrow> chain h' p xs n \<longleftrightarrow> chain h p xs n"
  by (induction xs arbitrary: p) auto

lemma chain_upd [simp]: "y \<notin> fst ` set xs \<Longrightarrow> chain (h(y := v)) p xs n \<longleftrightarrow> chain h p xs n"
  by (rule chain_cong) auto

lemma chain_object:
  "chain h p xs n \<Longrightarrow> x \<in> set xs \<Longrightarrow> \<exists>q m. h (fst x) = Some (ObjEvent (with_links (snd x) q m))"
  by (induction xs arbitrary: p) auto

lemma chain_last:
  "chain h p (xs @ [x]) n \<Longrightarrow> h (fst x) = Some (ObjEvent (with_links (snd x) (last (p # map fst xs)) n))"
  by (simp add: chain_append)

text \<open>Another successor of the last event, and another predecessor of the first.\<close>

lemma chain_set_next:
  assumes "chain h p (xs @ [x]) n" and "fst x \<notin> fst ` set xs"
  shows "chain (h(fst x \<mapsto> ObjEvent (with_links (snd x) (last (p # map fst xs)) m))) p (xs @ [x]) m"
  using assms by (simp add: chain_append)

lemma chain_set_prev:
  assumes "chain h p (x # xs) n" and "fst x \<notin> fst ` set xs"
  shows "chain (h(fst x \<mapsto> ObjEvent (with_links (snd x) q (hd (map fst xs @ [n]))))) q (x # xs) n"
  using assms by simp

lemma read_event [simp]:
  "m_objs s x = Some (ObjEvent e) \<Longrightarrow> 0 < x \<Longrightarrow> DBRead_event s x = Some e"
  by (simp add: DBRead_event_def)

lemma objs_write [simp]: "m_objs (DBWrite s x v) = (m_objs s)(x \<mapsto> v)"
  by (simp add: DBWrite_def)

section \<open>The place of a new event\<close>

abbreviation ts :: "entry \<Rightarrow> u32" where "ts x \<equiv> ev_timestamp (snd x)"

lemma find_place_chain:
  assumes "chain (m_objs s) 0 (as @ a # bs) n" and "\<forall>x \<in> set (as @ a # bs). entry_ok x"
    and "ts a \<le> t" and "\<forall>b \<in> set bs. t < ts b"
  shows "find_place s t (last (map fst (as @ a # bs))) = Some (fst a)"
  using assms
proof (induction bs arbitrary: n rule: rev_induct)
  case Nil
  then show ?case
    by (subst find_place.simps) (simp add: chain_append entry_ok_def)
next
  case (snoc b bs)
  have c: "chain (m_objs s) 0 ((as @ a # bs) @ [b]) n" using snoc.prems(1) by simp
  have b: "m_objs s (fst b) = Some (ObjEvent (with_links (snd b) (last (0 # map fst (as @ a # bs))) n))"
    by (rule chain_last [OF c])
  have "chain (m_objs s) 0 (as @ a # bs) (fst b)"
    using c chain_append [of "m_objs s" 0 "as @ a # bs" "[b]" n] by simp
  then have "find_place s t (last (map fst (as @ a # bs))) = Some (fst a)"
    using snoc.IH [of "fst b"] snoc.prems by simp
  moreover have "0 < fst b" "\<not> ts b \<le> t" using snoc.prems by (auto simp: entry_ok_def)
  ultimately show ?case
    using b by (subst find_place.simps) simp
qed

text \<open>The record of a contact whose events are \<open>xs\<close>.\<close>

definition ends_ok :: "DBContact \<Rightarrow> entry list \<Rightarrow> bool" where
  "ends_ok c xs \<longleftrightarrow>
     dc_ofsFirstEvent c = hd (map fst xs @ [0]) \<and> dc_ofsLastEvent c = last (0 # map fst xs)"

definition set_ends :: "DBContact \<Rightarrow> int \<Rightarrow> int \<Rightarrow> DBContact" where
  "set_ends c f l = c\<lparr>dc_ofsFirstEvent := f, dc_ofsLastEvent := l\<rparr>"

lemma set_ends_id: "ends_ok c xs \<Longrightarrow> c = set_ends c (hd (map fst xs @ [0])) (last (0 # map fst xs))"
  by (simp add: ends_ok_def set_ends_def)

lemma set_ends_simps [simp]:
  "(set_ends c f l)\<lparr>dc_ofsFirstEvent := f'\<rparr> = set_ends c f' l"
  "(set_ends c f l)\<lparr>dc_ofsLastEvent := l'\<rparr> = set_ends c f l'"
  "dc_ofsFirstEvent (set_ends c f l) = f" "dc_ofsLastEvent (set_ends c f l) = l"
  "dc_eventCount (set_ends c f l) = dc_eventCount c"
  by (simp_all add: set_ends_def)

text \<open>
  Linking an event between \<open>as\<close>, not later than it, and \<open>bs\<close>, later: the chain is cut there,
  both parts lead to and come from the new offset.
\<close>

lemma link_event_chain:
  assumes c: "chain (m_objs s) 0 (as @ bs) 0" and ok: "\<forall>x \<in> set (as @ bs). entry_ok x"
    and d: "distinct (map fst (as @ bs))" and ends: "ends_ok dbc (as @ bs)"
    and count: "dc_eventCount dbc = 0 \<longleftrightarrow> as @ bs = []"
    and before: "\<forall>a \<in> set as. ts a \<le> t" and after: "\<forall>b \<in> set bs. t < ts b"
  shows "\<exists>h. link_event s dbc t x =
      Some (last (0 # map fst as), hd (map fst bs @ [0]),
        set_ends dbc (hd (map fst as @ [x])) (last (x # map fst bs)), s\<lparr>m_objs := h\<rparr>) \<and>
    chain h 0 as x \<and> chain h x bs 0 \<and> (\<forall>y. y \<notin> fst ` set (as @ bs) \<longrightarrow> h y = m_objs s y)"
proof (cases as rule: rev_cases)
  case Nil
  show ?thesis
  proof (cases bs)
    case Nil2: Nil
    then show ?thesis
      using count Nil by (intro exI [of _ "m_objs s"]) (simp add: link_event_def set_ends_def)
  next
    case (Cons b bs')
    let ?h = "(m_objs s)(fst b \<mapsto> ObjEvent (with_links (snd b) x (hd (map fst bs' @ [0]))))"
    have "chain (m_objs s) 0 (b # bs') 0" "fst b \<notin> fst ` set bs'" using c d Nil Cons by auto
    then have h: "chain ?h x bs 0" unfolding Cons by (rule chain_set_prev)
    have b: "m_objs s (fst b) = Some (ObjEvent (with_links (snd b) 0 (hd (map fst bs' @ [0]))))" "0 < fst b"
      "t < ts b" using c ok after Nil Cons by (auto simp: entry_ok_def)
    have "link_event s dbc t x = Some (0, fst b, set_ends dbc x (last (x # map fst bs)), s\<lparr>m_objs := ?h\<rparr>)"
      using b count ends Nil Cons
      by (simp add: link_event_def ends_ok_def set_ends_def DBWrite_def)
    then show ?thesis using h Nil Cons by (intro exI [of _ ?h]) auto
  qed
next
  case (snoc as' a)
  have ne: "dc_eventCount dbc \<noteq> 0" using count snoc by simp
  have c': "chain (m_objs s) 0 (as' @ a # bs) 0" using c snoc by simp
  have place: "find_place s t (dc_ofsLastEvent dbc) = Some (fst a)"
    using find_place_chain [OF c', of t] ok before after ends snoc by (simp add: ends_ok_def)
  have first: "\<exists>e. DBRead_event s (dc_ofsFirstEvent dbc) = Some e \<and> \<not> t < ev_timestamp e"
    using c ok before ends snoc by (cases as') (auto simp: ends_ok_def entry_ok_def chain_append not_less)
  let ?n = "hd (map fst bs @ [0])" and ?p = "last (0 # map fst as')"
  have a: "m_objs s (fst a) = Some (ObjEvent (with_links (snd a) ?p ?n))" "0 < fst a"
    using c' ok snoc by (simp_all add: chain_append entry_ok_def)
  let ?h = "(m_objs s)(fst a \<mapsto> ObjEvent (with_links (snd a) ?p x))"
  have as: "chain ?h 0 as x"
    using chain_set_next [of "m_objs s" 0 as' a ?n x] c d snoc by (simp add: chain_append)
  have bs: "chain ?h (fst a) bs 0" using c' d snoc by (simp add: chain_append)
  show ?thesis
  proof (cases bs)
    case Nil
    have "link_event s dbc t x = Some (fst a, 0, dbc\<lparr>dc_ofsLastEvent := x\<rparr>, s\<lparr>m_objs := ?h\<rparr>)"
      using ne first place a Nil by (auto simp: link_event_def DBWrite_def Let_def)
    moreover have "dbc\<lparr>dc_ofsLastEvent := x\<rparr> = set_ends dbc (hd (map fst as @ [x])) x"
      using ends snoc Nil by (cases as') (simp_all add: ends_ok_def set_ends_def)
    ultimately show ?thesis
      using as snoc Nil by (intro exI [of _ ?h]) auto
  next
    case (Cons b bs')
    let ?g = "?h(fst b \<mapsto> ObjEvent (with_links (snd b) x (hd (map fst bs' @ [0]))))"
    have b: "?h (fst b) = Some (ObjEvent (with_links (snd b) (fst a) (hd (map fst bs' @ [0]))))" "0 < fst b"
      using bs ok Cons by (auto simp: entry_ok_def)
    have "fst b \<notin> fst ` set bs'" "fst b \<notin> fst ` set as" using d Cons by auto
    then have g: "chain ?g x bs 0" "chain ?g 0 as x"
      using chain_set_prev [of ?h "fst a" b bs' 0 x] bs as Cons by simp_all
    have r: "DBRead_event (s\<lparr>m_objs := ?h\<rparr>) (fst b) = Some (with_links (snd b) (fst a) (hd (map fst bs' @ [0])))"
      using b by simp
    have "link_event s dbc t x = Some (fst a, fst b, dbc, s\<lparr>m_objs := ?g\<rparr>)"
      using ne first place a(1) b(2) read_event [OF a] r Cons
      by (auto simp: link_event_def DBWrite_def Let_def)
    moreover have "dbc = set_ends dbc (hd (map fst as @ [x])) (last (x # map fst bs))"
      using ends snoc Cons by (cases as') (simp_all add: ends_ok_def set_ends_def)
    ultimately show ?thesis
      using g snoc Cons by (intro exI [of _ ?g]) auto
  qed
qed

section \<open>The first unread event\<close>

definition first_unread :: "entry list \<Rightarrow> int \<times> u32" where
  "first_unread xs =
     (case filter (\<lambda>x. \<not> markedRead (snd x)) xs of [] \<Rightarrow> (0, 0) | u # us \<Rightarrow> (fst u, ts u))"

lemma first_unread_simps [simp]:
  "first_unread [] = (0, 0)"
  "first_unread (x # xs) = (if markedRead (snd x) then first_unread xs else (fst x, ts x))"
  by (simp_all add: first_unread_def)

lemma first_unread_append:
  "first_unread (xs @ ys) = (if \<forall>x \<in> set xs. markedRead (snd x) then first_unread ys else first_unread xs)"
  by (induction xs) auto

lemma next_unread_chain:
  assumes "chain (m_objs s) x xs 0" and "\<forall>y \<in> set xs. entry_ok y" and "ev_ofsNext e = hd (map fst xs @ [0])"
  shows "next_unread s e = Some (first_unread xs)"
  using assms
proof (induction xs arbitrary: x e)
  case Nil
  then show ?case by (subst next_unread.simps) simp
next
  case (Cons y ys)
  have y: "m_objs s (fst y) = Some (ObjEvent (with_links (snd y) x (hd (map fst ys @ [0]))))" "0 < fst y"
    using Cons.prems by (auto simp: entry_ok_def)
  have "next_unread s (with_links (snd y) x (hd (map fst ys @ [0]))) = Some (first_unread ys)"
    using Cons.IH [of "fst y"] Cons.prems by simp
  then show ?case using y Cons.prems(3) by (subst next_unread.simps) simp
qed

section \<open>Taking an event out\<close>

lemma unlink_event_chain:
  assumes c: "chain (m_objs s) 0 (as @ x # bs) 0" and ok: "\<forall>y \<in> set (as @ x # bs). entry_ok y"
    and d: "distinct (map fst (as @ x # bs))" and ends: "ends_ok dbc (as @ x # bs)"
  shows "\<exists>h. unlink_event s dbc (with_links (snd x) (last (0 # map fst as)) (hd (map fst bs @ [0]))) =
      Some (set_ends dbc (hd (map fst (as @ bs) @ [0])) (last (0 # map fst (as @ bs))), s\<lparr>m_objs := h\<rparr>) \<and>
    chain h 0 (as @ bs) 0 \<and> (\<forall>y. y \<notin> fst ` set (as @ bs) \<longrightarrow> h y = m_objs s y)"
proof (cases as rule: rev_cases)
  case Nil
  show ?thesis
  proof (cases bs)
    case Nil2: Nil
    then show ?thesis
      using Nil by (intro exI [of _ "m_objs s"]) (simp add: unlink_event_def set_ends_def)
  next
    case (Cons b bs')
    let ?h = "(m_objs s)(fst b \<mapsto> ObjEvent (with_links (snd b) 0 (hd (map fst bs' @ [0]))))"
    have b: "m_objs s (fst b) = Some (ObjEvent (with_links (snd b) (fst x) (hd (map fst bs' @ [0]))))" "0 < fst b"
      using c ok Nil Cons by (auto simp: entry_ok_def)
    have "chain ?h 0 bs 0"
      using chain_set_prev [of "m_objs s" "fst x" b bs' 0 0] c d Nil Cons by simp
    moreover have "unlink_event s dbc (with_links (snd x) 0 (fst b)) =
        Some (set_ends dbc (fst b) (last (0 # map fst bs)), s\<lparr>m_objs := ?h\<rparr>)"
      using b ends Nil Cons by (simp add: unlink_event_def DBWrite_def ends_ok_def set_ends_def)
    ultimately show ?thesis using Nil Cons by (intro exI [of _ ?h]) auto
  qed
next
  case (snoc as' a)
  have c': "chain (m_objs s) 0 as (fst x)" "chain (m_objs s) (fst x) bs 0"
    using c chain_append [of "m_objs s" 0 as "x # bs" 0] by auto
  let ?p = "last (0 # map fst as')"
  have a: "m_objs s (fst a) = Some (ObjEvent (with_links (snd a) ?p (fst x)))" "0 < fst a"
    using c'(1) ok snoc by (simp_all add: chain_append entry_ok_def)
  let ?h = "(m_objs s)(fst a \<mapsto> ObjEvent (with_links (snd a) ?p (hd (map fst bs @ [0]))))"
  have as: "chain ?h 0 as (hd (map fst bs @ [0]))"
    using chain_set_next [of "m_objs s" 0 as' a "fst x"] c'(1) d snoc by simp
  show ?thesis
  proof (cases bs)
    case Nil
    have "unlink_event s dbc (with_links (snd x) (fst a) 0) = Some (dbc\<lparr>dc_ofsLastEvent := fst a\<rparr>, s\<lparr>m_objs := ?h\<rparr>)"
      using a Nil by (simp add: unlink_event_def DBWrite_def)
    moreover have "dbc\<lparr>dc_ofsLastEvent := fst a\<rparr> = set_ends dbc (hd (map fst as @ [0])) (fst a)"
      using ends snoc Nil by (cases as') (simp_all add: ends_ok_def set_ends_def)
    ultimately show ?thesis using as snoc Nil by (intro exI [of _ ?h]) auto
  next
    case (Cons b bs')
    let ?g = "?h(fst b \<mapsto> ObjEvent (with_links (snd b) (fst a) (hd (map fst bs' @ [0]))))"
    have nb: "fst b \<notin> fst ` set bs'" "fst b \<notin> fst ` set as" "fst b \<noteq> fst a" "fst a \<notin> fst ` set bs"
      using d Cons snoc by auto
    have bs: "chain ?h (fst x) bs 0" using c'(2) nb by simp
    then have b: "?h (fst b) = Some (ObjEvent (with_links (snd b) (fst x) (hd (map fst bs' @ [0]))))" "0 < fst b"
      using ok Cons by (auto simp: entry_ok_def)
    have "chain ?g (fst a) bs 0" "chain ?g 0 as (fst b)"
      using chain_set_prev [of ?h "fst x" b bs' 0 "fst a"] bs as nb Cons by simp_all
    then have g: "chain ?g 0 (as @ bs) 0" using snoc Cons by (simp add: chain_append)
    have r: "DBRead_event (s\<lparr>m_objs := ?h\<rparr>) (fst b) = Some (with_links (snd b) (fst x) (hd (map fst bs' @ [0])))"
      using b by simp
    have "unlink_event s dbc (with_links (snd x) (fst a) (fst b)) = Some (dbc, s\<lparr>m_objs := ?g\<rparr>)"
      using read_event [OF a] a(2) b(2) r Cons by (simp add: unlink_event_def DBWrite_def Let_def)
    moreover have "dbc = set_ends dbc (hd (map fst (as @ bs) @ [0])) (last (0 # map fst (as @ bs)))"
      using ends snoc Cons by (cases as') (simp_all add: ends_ok_def set_ends_def)
    ultimately show ?thesis using g snoc Cons by (intro exI [of _ ?g]) auto
  qed
qed

end
