(* ===== verification/DbHist.thy ===== *)
theory DbHist imports DbChain begin

text \<open>
  The invariant of the database: objects do not overlap and lie inside the file, every contact
  of the cache is in the file and in the chain of contacts, and its record describes its
  events.  Adding, deleting and marking events keep it, and do to the list of events of the
  contact what they should.
\<close>

section \<open>Space\<close>

primrec obj_size :: "dbobj \<Rightarrow> int" where
  "obj_size (ObjContact c) = size_contact"
| "obj_size (ObjModule m) = size_module + int (length (mn_name m))"
| "obj_size (ObjSettings g) = size_settings + int (length (st_blob g))"
| "obj_size (ObjEvent e) = size_event + int (length (ev_blob e))"

lemmas size_defs = size_contact_def size_module_def size_settings_def size_event_def size_header_def

lemma obj_size_pos: "0 < obj_size v"
  by (cases v) (simp_all add: size_defs)

definition space_ok :: "(int \<Rightarrow> dbobj option) \<Rightarrow> int \<Rightarrow> bool" where
  "space_ok h e \<longleftrightarrow>
     size_header \<le> e \<and> e < 4294967296 \<and>
     (\<forall>x v. h x = Some v \<longrightarrow> size_header \<le> x \<and> x + obj_size v \<le> e) \<and>
     (\<forall>x v y w. h x = Some v \<longrightarrow> h y = Some w \<longrightarrow> x < y \<longrightarrow> x + obj_size v \<le> y)"

definition free_at :: "(int \<Rightarrow> dbobj option) \<Rightarrow> int \<Rightarrow> int \<Rightarrow> bool" where
  "free_at h x n \<longleftrightarrow> (\<forall>y w. h y = Some w \<longrightarrow> y + obj_size w \<le> x \<or> x + n \<le> y)"

lemma space_inside: "space_ok h e \<Longrightarrow> h x = Some v \<Longrightarrow> 0 < x \<and> x < e"
  using obj_size_pos [of v] by (force simp: space_ok_def size_defs)

lemma space_cong:
  assumes "\<And>x. map_option obj_size (h' x) = map_option obj_size (h x)"
  shows "space_ok h' e \<longleftrightarrow> space_ok h e"
proof -
  have "space_ok g e" if sp: "space_ok f e" and sz: "\<And>x. map_option obj_size (g x) = map_option obj_size (f x)" for f g
    unfolding space_ok_def
  proof (intro conjI allI impI)
    show "size_header \<le> e" "e < 4294967296" using sp by (auto simp: space_ok_def)
  next
    fix x v
    assume "g x = Some v"
    then obtain w where w: "f x = Some w" "obj_size w = obj_size v" using sz [of x] by (cases "f x") auto
    then have "size_header \<le> x \<and> x + obj_size w \<le> e" using sp unfolding space_ok_def by blast
    then show "size_header \<le> x" "x + obj_size v \<le> e" using w(2) by simp_all
  next
    fix x v y w
    assume "g x = Some v" "g y = Some w" "x < y"
    moreover obtain v' w' where "f x = Some v'" "obj_size v' = obj_size v" "f y = Some w'"
      using sz [of x] sz [of y] calculation by (cases "f x"; cases "f y") auto
    ultimately show "x + obj_size v \<le> y" using sp by (force simp: space_ok_def)
  qed
  then show ?thesis using assms by metis
qed

lemma space_more: "space_ok h e \<Longrightarrow> e \<le> e' \<Longrightarrow> e' < 4294967296 \<Longrightarrow> space_ok h e'"
  by (force simp: space_ok_def)

lemma space_put:
  assumes "space_ok h e" and "free_at h x (obj_size v)" and "size_header \<le> x" and "x + obj_size v \<le> e"
  shows "space_ok (h(x \<mapsto> v)) e"
  unfolding space_ok_def
proof (intro conjI allI impI)
  show "size_header \<le> e" "e < 4294967296" using assms(1) by (auto simp: space_ok_def)
next
  fix y w
  assume "(h(x \<mapsto> v)) y = Some w"
  then show "size_header \<le> y" "y + obj_size w \<le> e"
    using assms by (auto simp: space_ok_def split: if_splits)
next
  fix y u z w
  assume "(h(x \<mapsto> v)) y = Some u" "(h(x \<mapsto> v)) z = Some w" "y < z"
  then show "y + obj_size u \<le> z"
    using assms obj_size_pos [of w] obj_size_pos [of u] by (force simp: space_ok_def free_at_def split: if_splits)
qed

lemma space_del: "space_ok h e \<Longrightarrow> space_ok (h(x := None)) e"
  by (auto simp: space_ok_def split: if_splits)

lemma space_shrink:
  assumes "space_ok h e" and "h x = Some v" and "x + obj_size v = e"
  shows "space_ok (h(x := None)) x"
  unfolding space_ok_def
proof (intro conjI allI impI)
  show "size_header \<le> x" using assms(1,2) by (auto simp: space_ok_def)
  have "e < 4294967296" using assms(1) by (auto simp: space_ok_def)
  then show "x < 4294967296" using assms(3) obj_size_pos [of v] by linarith
next
  fix y w
  assume y: "(h(x := None)) y = Some w"
  then show "size_header \<le> y" using assms(1) by (auto simp: space_ok_def split: if_splits)
  have w: "h y = Some w" "y \<noteq> x" using y by (auto split: if_splits)
  have "y + obj_size w \<le> e" "x < y \<longrightarrow> x + obj_size v \<le> y" "y < x \<longrightarrow> y + obj_size w \<le> x"
    using assms(1,2) w by (auto simp: space_ok_def)
  then show "y + obj_size w \<le> x" using w(2) assms(3) obj_size_pos [of w] by linarith
next
  fix y u z w
  assume "(h(x := None)) y = Some u" "(h(x := None)) z = Some w" "y < z"
  then show "y + obj_size u \<le> z" using assms(1) by (auto simp: space_ok_def split: if_splits)
qed

abbreviation file_end :: "CDb3Mmap \<Rightarrow> int" where "file_end s \<equiv> dh_ofsFileEnd (m_dbHeader s)"

abbreviation space :: "CDb3Mmap \<Rightarrow> bool" where "space s \<equiv> space_ok (m_objs s) (file_end s)"

lemma space_end_free: "space_ok h e \<Longrightarrow> h e = None" "space_ok h e \<Longrightarrow> e \<le> x \<Longrightarrow> free_at h x n"
  by (metis space_inside not_None_eq order_less_irrefl) (force simp: space_ok_def free_at_def)

text \<open>What allocation changes: the end of the file.\<close>

definition same_but_space :: "CDb3Mmap \<Rightarrow> CDb3Mmap \<Rightarrow> bool" where
  "same_but_space s t \<longleftrightarrow>
     (m_dbHeader t)\<lparr>dh_ofsFileEnd := 0, dh_slackSpace := 0, dh_ofsModuleNames := 0\<rparr> =
     (m_dbHeader s)\<lparr>dh_ofsFileEnd := 0, dh_slackSpace := 0, dh_ofsModuleNames := 0\<rparr> \<and>
     m_dwMaxContactId t = m_dwMaxContactId s \<and> m_safetyMode t = m_safetyMode s \<and> m_bReadOnly t = m_bReadOnly s \<and>
     m_bEncrypted t = m_bEncrypted s \<and> m_bMetaEnabled t = m_bMetaEnabled s \<and> m_lContacts t = m_lContacts s \<and>
     m_ChunkSize t = m_ChunkSize s \<and> m_lSettings t = m_lSettings s \<and> m_lastSetting t = m_lastSetting s \<and>
     m_lGlobalSettings t = m_lGlobalSettings s \<and> m_lResidentSettings t = m_lResidentSettings s"

interpretation space: step_relation same_but_space
  by unfold_locales (auto simp: same_but_space_def)

lemma header_fields:
  "same_but_space s t \<Longrightarrow> dh_ofsUser (m_dbHeader t) = dh_ofsUser (m_dbHeader s)"
  "same_but_space s t \<Longrightarrow> dh_ofsFirstContact (m_dbHeader t) = dh_ofsFirstContact (m_dbHeader s)"
  "same_but_space s t \<Longrightarrow> dh_contactCount (m_dbHeader t) = dh_contactCount (m_dbHeader s)"
  "same_but_space s t \<Longrightarrow> m_lContacts t = m_lContacts s"
  "same_but_space s t \<Longrightarrow> m_dwMaxContactId t = m_dwMaxContactId s"
  by (cases "m_dbHeader s"; cases "m_dbHeader t"; simp add: same_but_space_def)+

lemma same_objs: "same_but_space s (s\<lparr>m_objs := h\<rparr>)"
  by (simp add: same_but_space_def)

lemma ReMap_same: "ReMap s n = Some t \<Longrightarrow> same_but_space s t \<and> m_objs t = m_objs s \<and> m_dbHeader t = m_dbHeader s"
  by (auto simp: ReMap_def Let_def same_but_space_def split: if_splits)

lemma CreateNewSpace_spec:
  assumes "CreateNewSpace s n = Some (x, t)"
  shows "x = file_end s" and "file_end t = x + n" and "x + n < 4294967296" and "m_objs t = m_objs s"
    and "same_but_space s t"
proof -
  have "same_but_space s (put_header s (dh_ofsFileEnd_update (\<lambda>_. file_end s + n)))"
    by (simp add: same_but_space_def put_header_def)
  then show "x = file_end s" "file_end t = x + n" "x + n < 4294967296" "m_objs t = m_objs s" "same_but_space s t"
    using assms ReMap_same
    by (auto simp: CreateNewSpace_def Let_def put_header_def split: if_splits dest!: ReMap_same intro: space.R_trans)
qed

text \<open>The new space is inside the mapped file, so that no write into it maps the file again.\<close>

lemma CreateNewSpace_mapped:
  assumes "CreateNewSpace s n = Some (x, t)" and "0 < m_ChunkSize s"
  shows "x + n \<le> m_dwFileSize t"
proof -
  let ?k = "m_ChunkSize s" and ?e = "file_end s + n"
  have "?e \<le> (?e div ?k + 1) * ?k"
    using assms(2) mod_less_divisor by (metis add.commute distrib_right div_mult_mod_eq mult_1 less_imp_le add_left_mono pos_mod_bound)
  then show ?thesis
    using assms by (auto simp: CreateNewSpace_def ReMap_def Let_def put_header_def split: if_splits)
qed

lemma CreateNewSpace_total:
  assumes "0 < m_ChunkSize s" and "file_end s + n < 4294967296"
  obtains t where "CreateNewSpace s n = Some (file_end s, t)" and "m_lMods t = m_lMods s"
    and "m_lOfs t = m_lOfs s" and "m_lastmn t = m_lastmn s"
proof -
  let ?s = "put_header s (dh_ofsFileEnd_update (\<lambda>_. file_end s + n))"
  have sel: "m_dwFileSize ?s = m_dwFileSize s" "m_ChunkSize ?s = m_ChunkSize s" "file_end ?s = file_end s + n"
    "?s\<lparr>m_dwFileSize := m_dwFileSize s\<rparr> = ?s" by (simp_all add: put_header_def)
  obtain k where "(if file_end s + n > m_dwFileSize s then ReMap ?s (file_end s + n - m_dwFileSize s) else Some ?s) =
      Some (?s\<lparr>m_dwFileSize := k\<rparr>)"
  proof (cases "file_end s + n > m_dwFileSize s")
    case True
    then have "\<exists>k. ReMap ?s (file_end s + n - m_dwFileSize s) = Some (?s\<lparr>m_dwFileSize := k\<rparr>)"
      using assms(1) unfolding ReMap_def Let_def sel by auto
    then show ?thesis using that True by auto
  next
    case False
    then show ?thesis using that [of "m_dwFileSize s"] sel(4) by simp
  qed
  then show ?thesis
    using that [of "?s\<lparr>m_dwFileSize := k\<rparr>"] assms(2)
    by (auto simp: CreateNewSpace_def Let_def put_header_def split: if_splits)
qed

lemma DeleteSpace_spec:
  assumes "space s" and "m_objs s x = Some v" and "n = obj_size v"
  shows "space (DeleteSpace s x n)" and "m_objs (DeleteSpace s x n) = (m_objs s)(x := None)"
    and "same_but_space s (DeleteSpace s x n)"
  using space_del [OF assms(1), of x] space_shrink [OF assms(1,2)] assms(3)
  by (simp_all add: DeleteSpace_def Let_def put_header_def same_but_space_def)

text \<open>Looking up a module name only adds objects that are module names.\<close>

lemma AddToList_same:
  "AddToList s nm x = Some t \<Longrightarrow> same_but_space s t \<and> m_objs t = m_objs s \<and> m_dbHeader t = m_dbHeader s"
  by (auto simp: AddToList_def Let_def same_but_space_def split: bind_splits if_splits prod.splits)

lemma FindExistingModuleNameOfs_same:
  "FindExistingModuleNameOfs s nm = Some (x, t) \<Longrightarrow> same_but_space s t \<and> m_objs t = m_objs s \<and> m_dbHeader t = m_dbHeader s"
  by (auto simp: FindExistingModuleNameOfs_def same_but_space_def split: bind_splits if_splits)

lemma GetModuleNameOfs_spec:
  assumes "space s" and "GetModuleNameOfs s nm = Some (x, t)"
  shows "space t" and "file_end s \<le> file_end t" and "same_but_space s t"
    and "m_objs t = m_objs s \<or> (\<exists>m. m_objs t = (m_objs s)(file_end s \<mapsto> ObjModule m))"
proof -
  obtain x0 s0 where s0: "FindExistingModuleNameOfs s nm = Some (x0, s0)"
    using assms(2) by (auto simp: GetModuleNameOfs_def split: bind_splits)
  note f = FindExistingModuleNameOfs_same [OF s0]
  have "space t \<and> file_end s \<le> file_end t \<and> same_but_space s t \<and>
    (m_objs t = m_objs s \<or> (\<exists>m. m_objs t = (m_objs s)(file_end s \<mapsto> ObjModule m)))"
  proof (cases "x0 \<noteq> 0 \<or> m_bReadOnly s0")
    case True
    then have "t = s0" using assms(2) s0 by (auto simp: GetModuleNameOfs_def split: if_splits)
    then show ?thesis using f assms(1) by simp
  next
    case False
    let ?n = "c_str nm"
    obtain y s1 where s1: "CreateNewSpace s0 (int (length ?n) + size_module) = Some (y, s1)"
      using assms(2) s0 False by (auto simp: GetModuleNameOfs_def Let_def split: bind_splits)
    note c = CreateNewSpace_spec [OF s1]
    let ?m = "ObjModule \<lparr>mn_ofsNext = dh_ofsModuleNames (m_dbHeader s1), mn_cbName = of_nat (length ?n), mn_name = ?n\<rparr>"
    let ?s2 = "put_header (DBWrite s1 y ?m) (dh_ofsModuleNames_update (\<lambda>_. y))"
    have t: "AddToList ?s2 ?n y = Some t"
      using assms(2) s0 s1 False by (auto simp: GetModuleNameOfs_def Let_def split: bind_splits)
    have y: "y = file_end s" "file_end s0 = file_end s" using c(1) f by simp_all
    have "size_header \<le> y" using assms(1) y by (simp add: space_ok_def)
    then have "space_ok (m_objs s) (y + obj_size ?m)"
      using c(3) by (intro space_more [OF assms(1)]) (simp_all add: y size_defs add.commute)
    then have "space_ok ((m_objs s)(y \<mapsto> ?m)) (y + obj_size ?m)"
      using space_end_free(2) [OF assms(1), of y] \<open>size_header \<le> y\<close> by (intro space_put) (simp_all add: y)
    moreover have "m_objs t = (m_objs s)(y \<mapsto> ?m)" "file_end t = y + obj_size ?m"
      using AddToList_same [OF t] c(2,4) f by (simp_all add: put_header_def size_defs) (simp add: DBWrite_def)
    moreover have "same_but_space s1 ?s2"
      by (simp add: same_but_space_def put_header_def DBWrite_def)
    then have "same_but_space s t"
      using f c(5) AddToList_same [OF t] space.R_trans by blast
    moreover have "y \<le> y + obj_size ?m" using obj_size_pos [of ?m] by simp
    ultimately show ?thesis unfolding y by auto
  qed
  then show "space t" "file_end s \<le> file_end t" "same_but_space s t"
    "m_objs t = m_objs s \<or> (\<exists>m. m_objs t = (m_objs s)(file_end s \<mapsto> ObjModule m))" by auto
qed

section \<open>Histories\<close>

text \<open>The record of a contact: the chain it describes, and its number of events.\<close>

definition record_ok :: "DBContact \<Rightarrow> entry list \<Rightarrow> nat \<Rightarrow> bool" where
  "record_ok c xs n \<longleftrightarrow>
     dc_signature c = DBCONTACT_SIGNATURE \<and> ends_ok c xs \<and>
     dc_eventCount c = of_nat n \<and> (dc_ofsFirstUnread c, dc_tsFirstUnread c) = first_unread xs"

text \<open>Whose chain has the events of a contact: its own or that of its metacontact.\<close>

definition chain_of :: "(u32 \<Rightarrow> u32) \<Rightarrow> u32 \<Rightarrow> u32" where
  "chain_of P i = (if P i = 0 then i else P i)"

abbreviation cid :: "entry \<Rightarrow> u32" where "cid x \<equiv> ev_contactID (snd x)"

definition hist_ok :: "(u32 \<Rightarrow> u32) \<Rightarrow> (int \<Rightarrow> dbobj option) \<Rightarrow> u32 \<Rightarrow> entry list \<Rightarrow> bool" where
  "hist_ok P h i xs \<longleftrightarrow>
     chain h 0 xs 0 \<and> (\<forall>x \<in> set xs. entry_ok x \<and> chain_of P (cid x) = i) \<and> distinct (map fst xs) \<and>
     sorted (map ts xs)"

lemma hist_length:
  assumes "space_ok h e" and "hist_ok P h i xs"
  shows "length xs < 4294967296"
proof -
  have "set (map fst xs) \<subseteq> {0 <..< e}"
    using assms chain_object [of h 0 xs 0] space_inside [OF assms(1)] by (force simp: hist_ok_def)
  then have "card (set (map fst xs)) \<le> card {0 <..< e}" by (intro card_mono) auto
  moreover have "card (set (map fst xs)) = length xs"
    using assms(2) by (simp only: hist_ok_def distinct_card length_map)
  moreover have "0 < e" "e < 4294967296" using assms(1) by (auto simp: space_ok_def size_defs)
  ultimately show ?thesis by simp
qed

lemma count_zero: "length xs < 4294967296 \<Longrightarrow> (of_nat (length xs) :: u32) = 0 \<longleftrightarrow> xs = []"
  by (simp add: word_unat_eq_iff unat_of_nat)

text \<open>A later state that has the events as they are.\<close>

lemma hist_kept:
  assumes "hist_ok P h i xs" and "\<And>x. x \<in> fst ` set xs \<Longrightarrow> h' x = h x"
  shows "hist_ok P h' i xs"
  using assms by (simp add: hist_ok_def cong: chain_cong)

lemma hist_object:
  "hist_ok P h i xs \<Longrightarrow> x \<in> fst ` set xs \<Longrightarrow> \<exists>e. h x = Some (ObjEvent e) \<and> chain_of P (ev_contactID e) = i"
  using chain_object by (fastforce simp: hist_ok_def)

text \<open>Inserting by time, and what becomes of the first unread event.\<close>

definition insert_event :: "entry \<Rightarrow> entry list \<Rightarrow> entry list" where
  "insert_event x xs = takeWhile (\<lambda>y. ts y \<le> ts x) xs @ x # dropWhile (\<lambda>y. ts y \<le> ts x) xs"

definition remove_entry :: "int \<Rightarrow> entry list \<Rightarrow> entry list" where
  "remove_entry h xs = filter (\<lambda>x. fst x \<noteq> h) xs"

lemma sorted_parts:
  assumes "sorted (map ts xs)"
  shows "\<forall>a \<in> set (takeWhile (\<lambda>y. ts y \<le> t) xs). ts a \<le> t"
    and "\<forall>b \<in> set (dropWhile (\<lambda>y. ts y \<le> t) xs). t < ts b"
proof -
  show "\<forall>a \<in> set (takeWhile (\<lambda>y. ts y \<le> t) xs). ts a \<le> t" by (auto dest: set_takeWhileD)
  show "\<forall>b \<in> set (dropWhile (\<lambda>y. ts y \<le> t) xs). t < ts b"
    using assms by (induction xs) (auto simp: not_le intro: less_le_trans)
qed

lemma insert_event_sorted:
  assumes "sorted (map ts xs)"
  shows "sorted (map ts (insert_event x xs))"
proof -
  let ?as = "takeWhile (\<lambda>y. ts y \<le> ts x) xs" and ?bs = "dropWhile (\<lambda>y. ts y \<le> ts x) xs"
  have "sorted (map ts (?as @ ?bs))" using assms by simp
  then have "sorted (map ts ?as)" "sorted (map ts ?bs)" by (simp_all only: map_append sorted_append)
  then show ?thesis
    using sorted_parts [OF assms, of "ts x"] by (force simp: insert_event_def sorted_append)
qed

lemma first_unread_time: "first_unread xs = (f, t) \<Longrightarrow> t = 0 \<and> f = 0 \<or> (\<exists>x \<in> set xs. \<not> markedRead (snd x) \<and> f = fst x \<and> t = ts x)"
  by (induction xs) (auto split: if_splits)

lemma first_unread_some: "a \<in> set xs \<Longrightarrow> \<not> markedRead (snd a) \<Longrightarrow> \<exists>x \<in> set xs. snd (first_unread xs) = ts x"
  by (induction xs) auto

lemma first_unread_insert:
  assumes "sorted (map ts xs)" and "\<forall>y \<in> set xs. ts y \<noteq> 0"
  shows "first_unread (insert_event x xs) =
    (if \<not> markedRead (snd x) \<and> (ts x < snd (first_unread xs) \<or> snd (first_unread xs) = 0)
     then (fst x, ts x) else first_unread xs)"
proof -
  let ?as = "takeWhile (\<lambda>y. ts y \<le> ts x) xs" and ?bs = "dropWhile (\<lambda>y. ts y \<le> ts x) xs"
  have xs: "first_unread xs = first_unread (?as @ ?bs)" by simp
  note p = sorted_parts [OF assms(1), of "ts x"]
  show ?thesis
  proof (cases "\<forall>a \<in> set ?as. markedRead (snd a)")
    case True
    then have 1: "first_unread xs = first_unread ?bs"
      "first_unread (insert_event x xs) = (if markedRead (snd x) then first_unread ?bs else (fst x, ts x))"
      by (simp_all only: xs insert_event_def first_unread_append first_unread_simps) simp_all
    have "snd (first_unread ?bs) = 0 \<or> ts x < snd (first_unread ?bs)"
      using first_unread_time [of ?bs] p(2) by (cases "first_unread ?bs") auto
    then show ?thesis using 1 by auto
  next
    case False
    then have 1: "first_unread xs = first_unread ?as" "first_unread (insert_event x xs) = first_unread ?as"
      using xs unfolding first_unread_append [of ?as] insert_event_def if_not_P [OF False] by simp_all
    obtain a where a: "a \<in> set ?as" "snd (first_unread ?as) = ts a" using first_unread_some False by blast
    then have "ts a \<le> ts x" "ts a \<noteq> 0" using p(1) assms(2) by (auto dest: set_takeWhileD)
    then show ?thesis using 1 a(2) by auto
  qed
qed

end
