(* ===== verification/DbNames.thy ===== *)
theory DbNames imports DbHist begin

text \<open>
  The tables of module names: they hold exactly the names that are in the file, so a name is
  found when it is there and put into the file when it is not.
\<close>

section \<open>Lists sorted by a comparison that is an order only on what they hold\<close>

lemma search_loop_cong:
  assumes "\<And>i x. low \<le> i \<Longrightarrow> i \<le> high \<Longrightarrow> arr_read its i = Some x \<Longrightarrow> sgn (f x) = sgn (g x)"
  shows "search_loop f its low high = search_loop g its low high"
  using assms
proof (induction "nat (high - low + 1)" arbitrary: low high rule: less_induct)
  case less
  show ?case
  proof (cases "low \<le> high")
    case True
    define i where "i = (low + high) div 2"
    then have i: "low \<le> i" "i \<le> high" using True by auto
    have p: "sgn (f x) = sgn (g x)" if "low \<le> j \<and> j \<le> high" "arr_read its j = Some x" for j x
      using less.prems that by blast
    have "search_loop f its (i + 1) high = search_loop g its (i + 1) high"
      using i by (intro less.hyps p) auto
    moreover have "search_loop f its low (i - 1) = search_loop g its low (i - 1)"
      using i by (intro less.hyps p) auto
    moreover have "f x = 0 \<longleftrightarrow> g x = 0" "f x < 0 \<longleftrightarrow> g x < 0" if "arr_read its i = Some x" for x
      using less.prems [OF i that] by (auto simp: sgn_if split: if_splits)
    ultimately show ?thesis
      unfolding search_loop.simps [of f its low high] search_loop.simps [of g its low high]
      by (simp add: Let_def i_def split: option.split)
  qed (simp add: search_loop.simps [of _ its low high])
qed

lemma GetIndex_cong:
  assumes "slist_rep l xs" and "sortFunc l = SortFn f" and "\<And>x. x \<in> set xs \<Longrightarrow> sgn (f x v) = sgn (g x v)"
  shows "List_GetIndex l (Some v) = List_GetIndex (l\<lparr>sortFunc := SortFn g\<rparr>) (Some v)"
proof -
  have "realCount l = int (length xs)" using assms(1) by (simp add: slist_rep_def)
  then have "search_loop (\<lambda>x. f x v) (items l) 0 (realCount l - 1) =
      search_loop (\<lambda>x. g x v) (items l) 0 (realCount l - 1)"
    using rep_read [OF assms(1)] assms(3) by (intro search_loop_cong) (auto simp: nth_mem)
  then show ?thesis using assms(2) by (simp add: List_GetIndex_def)
qed

lemma Insert_sortFunc:
  "List_Insert (l\<lparr>sortFunc := g\<rparr>) p i = map_option (map_prod id (sortFunc_update (\<lambda>_. g))) (List_Insert l p i)"
  by (simp add: List_Insert_def Let_def split: option.split)

text \<open>Kept like a table of the order \<open>g\<close>, which agrees with \<open>f\<close> on what is compared.\<close>

definition table_as :: "('a \<Rightarrow> 'a \<Rightarrow> int) \<Rightarrow> ('a \<Rightarrow> 'a \<Rightarrow> int) \<Rightarrow> 'a slist \<Rightarrow> 'a list \<Rightarrow> bool" where
  "table_as f g l xs \<longleftrightarrow> slist_rep l xs \<and> sortFunc l = SortFn f \<and> sorted_by g xs"

lemma table_as_new: "0 < aincr \<Longrightarrow> table_as f g (LIST_new aincr (SortFn f)) []"
  by (simp add: table_as_def slist_rep_new sorted_by_def) (simp add: LIST_new_def)

lemma table_as_table: "table_as f g l xs \<Longrightarrow> table_rep (SortFn g) (l\<lparr>sortFunc := SortFn g\<rparr>) xs"
  by (auto simp: table_as_def table_rep_def slist_rep_def sorted_by_def)

lemma table_as_at:
  "table_as f g l xs \<Longrightarrow> LIST_at l i = (if 0 \<le> i \<and> i < int (length xs) then Some (xs ! nat i) else None)"
  by (simp add: table_as_def LIST_at_rep)

lemma table_as_index:
  assumes "table_as f g l xs" and "sorted_table (SortFn g)" and "\<And>x. x \<in> set xs \<Longrightarrow> sgn (f x v) = sgn (g x v)"
  obtains i where "LIST_getIndex l (Some v) = Some i"
    and "i = -1 \<and> (\<forall>x \<in> set xs. g x v \<noteq> 0) \<or> 0 \<le> i \<and> i < int (length xs) \<and> g (xs ! nat i) v = 0"
proof -
  let ?l = "l\<lparr>sortFunc := SortFn g\<rparr>"
  have "LIST_getIndex l (Some v) = LIST_getIndex ?l (Some v)"
    using assms(1,3) GetIndex_cong [of l xs f v g] by (simp add: LIST_getIndex_def table_as_def)
  moreover obtain i where "LIST_getIndex ?l (Some v) = Some i"
    using sorted_table.getIndex_total [OF assms(2) table_as_table [OF assms(1)]] .
  ultimately show ?thesis
    using that [of i] sorted_table.getIndex_absent [OF assms(2) table_as_table [OF assms(1)], of v]
      sorted_table.getIndex_present [OF assms(2) table_as_table [OF assms(1)], of v i] by auto
qed

lemma table_as_insert:
  assumes "table_as f g l xs" and "sorted_table (SortFn g)" and "\<And>x. x \<in> set xs \<Longrightarrow> sgn (f x v) = sgn (g x v)"
  obtains l' i where "List_InsertPtr l (Some v) = Some (1, l')" and "i \<le> length xs"
    and "table_as f g l' (take i xs @ v # drop i xs)"
proof -
  let ?l = "l\<lparr>sortFunc := SortFn g\<rparr>"
  obtain m i where m: "List_InsertPtr ?l (Some v) = Some (1, m)" "i \<le> length xs"
    "table_rep (SortFn g) m (take i xs @ v # drop i xs)"
    using sorted_table.InsertPtr_spec [OF assms(2) table_as_table [OF assms(1)]] .
  have "List_InsertPtr ?l (Some v) = map_option (map_prod id (sortFunc_update (\<lambda>_. SortFn g))) (List_InsertPtr l (Some v))"
    using assms(1,3) GetIndex_cong [of l xs f v g]
    by (simp add: List_InsertPtr_def table_as_def Insert_sortFunc split: option.split)
  then obtain l' where l': "List_InsertPtr l (Some v) = Some (1, l')" "m = l'\<lparr>sortFunc := SortFn g\<rparr>"
    using m(1) by (cases "List_InsertPtr l (Some v)") auto
  have "sortFunc l' = sortFunc l"
    using l'(1) assms(1) by (auto simp: List_InsertPtr_def List_Insert_def Let_def table_as_def split: option.splits if_splits)
  then show ?thesis
    using that [OF l'(1) m(2)] m(3) assms(1) unfolding l'(2) table_as_def table_rep_def slist_rep_def sorted_by_def
    by simp
qed

section \<open>The tables\<close>

interpretation mod_table: sorted_table "SortFn ModCompare"
proof
  fix a b c :: ModuleName
  show "sort_cmp (SortFn ModCompare) a a = 0" by (simp add: ModCompare_def)
  show "sort_cmp (SortFn ModCompare) a b < 0 \<longleftrightarrow> sort_cmp (SortFn ModCompare) b a > 0"
    using strcmp_flip [of "md_name a" "md_name b"] by (simp add: ModCompare_def)
  show "sort_cmp (SortFn ModCompare) a b \<le> 0 \<Longrightarrow> sort_cmp (SortFn ModCompare) b c \<le> 0 \<Longrightarrow>
      sort_cmp (SortFn ModCompare) a c \<le> 0"
    using strcmp_trans by (simp add: ModCompare_def)
qed simp

text \<open>Offsets are compared by their difference as an \<open>int\<close>, which is right below two gigabytes.\<close>

lemma sint_diff:
  assumes "0 \<le> x" "x < 2147483648" "0 \<le> y" "y < 2147483648"
  shows "sint (of_int x - of_int y :: u32) = x - y"
proof -
  have "sint (of_int (x - y) :: u32) = x - y"
    using assms by (subst signed_of_int) (simp add: signed_take_bit_int_eq_self)
  then show ?thesis by simp
qed

lemma OfsCompare_sgn:
  assumes "0 \<le> md_ofs a" "md_ofs a < 2147483648" "0 \<le> md_ofs b" "md_ofs b < 2147483648"
  shows "sgn (OfsCompare a b) = sgn (key_cmp md_ofs a b)"
  using sint_diff [OF assms] by (simp add: OfsCompare_def key_cmp_def)

definition names :: "(int \<Rightarrow> dbobj option) \<Rightarrow> ModuleName set" where
  "names h = {\<lparr>md_name = mn_name m, md_ofs = x\<rparr> |x m. h x = Some (ObjModule m)}"

definition mods_ok :: "CDb3Mmap \<Rightarrow> bool" where
  "mods_ok s \<longleftrightarrow>
     (\<exists>ms os. table_rep (SortFn ModCompare) (m_lMods s) ms \<and> table_as OfsCompare (key_cmp md_ofs) (m_lOfs s) os \<and>
        set ms = names (m_objs s) \<and> set os = names (m_objs s)) \<and>
     (\<forall>m \<in> names (m_objs s). 0 < md_ofs m \<and> md_ofs m < 2147483648 \<and> c_str (md_name m) = md_name m) \<and>
     inj_on md_name (names (m_objs s)) \<and>
     (\<forall>m. m_lastmn s = Some m \<longrightarrow> m \<in> names (m_objs s))"

lemma names_cong: "(\<And>x m. h' x = Some (ObjModule m) \<longleftrightarrow> h x = Some (ObjModule m)) \<Longrightarrow> names h' = names h"
  by (auto simp: names_def)

lemma mods_ok_cong:
  "names (m_objs t) = names (m_objs s) \<Longrightarrow> m_lMods t = m_lMods s \<Longrightarrow> m_lOfs t = m_lOfs s \<Longrightarrow>
   m_lastmn t = m_lastmn s \<Longrightarrow> mods_ok t = mods_ok s"
  by (simp add: mods_ok_def)

lemma FindExisting_spec:
  assumes "mods_ok s"
  obtains x l where "FindExistingModuleNameOfs s nm = Some (x, s\<lparr>m_lastmn := l\<rparr>)"
    and "mods_ok (s\<lparr>m_lastmn := l\<rparr>)"
    and "x = 0 \<and> (\<forall>m \<in> names (m_objs s). md_name m \<noteq> c_str nm) \<or>
         x \<noteq> 0 \<and> (\<exists>m. m_objs s x = Some (ObjModule m) \<and> mn_name m = c_str nm)"
proof -
  obtain ms where ms: "table_rep (SortFn ModCompare) (m_lMods s) ms" "set ms = names (m_objs s)"
    using assms by (auto simp: mods_ok_def)
  have nz: "md_ofs m \<noteq> 0" "c_str (md_name m) = md_name m"
    "\<exists>o'. m_objs s (md_ofs m) = Some (ObjModule o') \<and> mn_name o' = md_name m" if "m \<in> names (m_objs s)" for m
    using assms that unfolding mods_ok_def by fastforce (use assms that in \<open>auto simp: mods_ok_def\<close>, auto simp: names_def)
  show ?thesis
  proof (cases "case m_lastmn s of None \<Rightarrow> False | Some mn \<Rightarrow> strcmp nm (md_name mn) = 0")
    case True
    then obtain m where m: "m_lastmn s = Some m" "strcmp nm (md_name m) = 0" by (auto split: option.splits)
    then have n: "m \<in> names (m_objs s)" using assms by (simp add: mods_ok_def)
    have eq: "s\<lparr>m_lastmn := Some m\<rparr> = s" using m(1) by (cases s) simp
    have "mods_ok (s\<lparr>m_lastmn := Some m\<rparr>)" unfolding eq by (rule assms)
    then show ?thesis
      using m nz [OF n] by (intro that [of "md_ofs m" "Some m"]) (auto simp: FindExistingModuleNameOfs_def strcmp_eq)
  next
    case False
    let ?k = "\<lparr>md_name = nm, md_ofs = 0\<rparr>"
    obtain i where i: "LIST_getIndex (m_lMods s) (Some ?k) = Some i"
      using mod_table.getIndex_total [OF ms(1)] .
    show ?thesis
    proof (cases "i = -1")
      case True
      then have "\<forall>m \<in> names (m_objs s). md_name m \<noteq> c_str nm"
        using mod_table.getIndex_absent [OF ms(1), of ?k] i ms(2) nz
        by (auto simp: ModCompare_def strcmp_eq)
      then show ?thesis
        using that [of 0 "m_lastmn s"] False i True assms by (simp add: FindExistingModuleNameOfs_def)
    next
      case nm: False
      then have b: "0 \<le> i" "i < int (length ms)" "strcmp (md_name (ms ! nat i)) nm = 0"
        using mod_table.getIndex_present [OF ms(1) i] by (auto simp: ModCompare_def)
      let ?m = "ms ! nat i"
      have m: "?m \<in> names (m_objs s)" using b ms(2) by (simp flip: ms(2))
      have "FindExistingModuleNameOfs s nm = Some (md_ofs ?m, s\<lparr>m_lastmn := Some ?m\<rparr>)"
        using False i nm b table_rep_at [OF ms(1), of i] by (simp add: FindExistingModuleNameOfs_def)
      moreover have "mods_ok (s\<lparr>m_lastmn := Some ?m\<rparr>)" using assms m by (simp add: mods_ok_def)
      ultimately show ?thesis using that nz [OF m] b(3) by (auto simp: strcmp_eq)
    qed
  qed
qed

lemma names_put: "h x = None \<Longrightarrow> names (h(x \<mapsto> ObjModule m)) = insert \<lparr>md_name = mn_name m, md_ofs = x\<rparr> (names h)"
  by (rule set_eqI) (force simp: names_def)

lemma AddToList_spec:
  assumes "mods_ok s" and "\<forall>m \<in> names (m_objs s). md_name m \<noteq> nm" and "c_str nm = nm"
    and "m_objs s x = None" and "0 < x" "x < 2147483648"
  shows "\<exists>l l'. (\<forall>s' :: CDb3Mmap. m_lMods s' = m_lMods s \<longrightarrow> m_lOfs s' = m_lOfs s \<longrightarrow>
      AddToList s' nm x = Some (s'\<lparr>m_lMods := l, m_lOfs := l'\<rparr>)) \<and>
    (\<forall>(s' :: CDb3Mmap) k b. m_objs s' = (m_objs s)(x \<mapsto> ObjModule \<lparr>mn_ofsNext = k, mn_cbName = b, mn_name = nm\<rparr>) \<longrightarrow>
      m_lMods s' = l \<longrightarrow> m_lOfs s' = l' \<longrightarrow> m_lastmn s' = m_lastmn s \<longrightarrow> mods_ok s')"
proof -
  let ?v = "\<lparr>md_name = nm, md_ofs = x\<rparr>" and ?N = "names (m_objs s)"
  obtain ms os where ms: "table_rep (SortFn ModCompare) (m_lMods s) ms" "set ms = ?N"
    and os: "table_as OfsCompare (key_cmp md_ofs) (m_lOfs s) os" "set os = ?N"
    using assms(1) by (auto simp: mods_ok_def)
  have N: "0 < md_ofs m" "md_ofs m < 2147483648" "c_str (md_name m) = md_name m" "md_ofs m \<noteq> x" if "m \<in> ?N" for m
    using assms(1,4) that by (auto simp: mods_ok_def names_def)
  obtain i where "LIST_getIndex (m_lMods s) (Some ?v) = Some i"
    using mod_table.getIndex_total [OF ms(1)] .
  moreover have "LIST_getIndex (m_lMods s) (Some ?v) = Some (-1)"
    unfolding mod_table.getIndex_absent [OF ms(1)] ms(2) using assms(2,3) N(3) by (auto simp: ModCompare_def strcmp_eq)
  ultimately have i: "LIST_getIndex (m_lMods s) (Some ?v) = Some (-1)" by simp
  obtain l k where l: "List_InsertPtr (m_lMods s) (Some ?v) = Some (1, l)"
    "table_rep (SortFn ModCompare) l (take k ms @ ?v # drop k ms)"
    using mod_table.InsertPtr_spec [OF ms(1)] .
  have sg: "sgn (OfsCompare m ?v) = sgn (key_cmp md_ofs m ?v)" if "m \<in> set os" for m
    using N [of m] that os(2) assms(5,6) by (intro OfsCompare_sgn) auto
  obtain j where j: "LIST_getIndex (m_lOfs s) (Some ?v) = Some j"
    "j = -1 \<and> (\<forall>m \<in> set os. key_cmp md_ofs m ?v \<noteq> 0) \<or>
     0 \<le> j \<and> j < int (length os) \<and> key_cmp md_ofs (os ! nat j) ?v = 0"
    using table_as_index [OF os(1) fn_table.sorted_table_axioms sg] by blast
  have "key_cmp md_ofs m ?v \<noteq> 0" if "m \<in> set os" for m using N(4) that os(2) by (auto simp: key_cmp_def)
  then have j: "LIST_getIndex (m_lOfs s) (Some ?v) = Some (-1)" using j by auto
  obtain l' k' where l': "List_InsertPtr (m_lOfs s) (Some ?v) = Some (1, l')"
    "table_as OfsCompare (key_cmp md_ofs) l' (take k' os @ ?v # drop k' os)"
    using table_as_insert [OF os(1) fn_table.sorted_table_axioms sg] by blast
  have set: "set (take n xs @ ?v # drop n xs) = insert ?v (set xs)" for n xs
    by (metis append_take_drop_id set_append Un_insert_right list.simps(15))
  show ?thesis
  proof (rule exI [of _ l], rule exI [of _ l'], intro conjI allI impI)
    fix s' :: CDb3Mmap
    assume "m_lMods s' = m_lMods s" "m_lOfs s' = m_lOfs s"
    then show "AddToList s' nm x = Some (s'\<lparr>m_lMods := l, m_lOfs := l'\<rparr>)"
      using i l(1) j l'(1) by (simp add: AddToList_def)
  next
    fix s' :: CDb3Mmap and ofsNext cb
    assume h: "m_objs s' = (m_objs s)(x \<mapsto> ObjModule \<lparr>mn_ofsNext = ofsNext, mn_cbName = cb, mn_name = nm\<rparr>)"
      and eq: "m_lMods s' = l" "m_lOfs s' = l'" "m_lastmn s' = m_lastmn s"
    have n: "names (m_objs s') = insert ?v ?N" using names_put [of "m_objs s" x] assms(4) h by simp
    have "table_rep (SortFn ModCompare) (m_lMods s') (take k ms @ ?v # drop k ms)"
      "set (take k ms @ ?v # drop k ms) = names (m_objs s')"
      using l(2) eq(1) set ms(2) n by simp_all
    moreover have "table_as OfsCompare (key_cmp md_ofs) (m_lOfs s') (take k' os @ ?v # drop k' os)"
      "set (take k' os @ ?v # drop k' os) = names (m_objs s')"
      using l'(2) eq(2) set os(2) n by simp_all
    moreover have "\<forall>m. m_lastmn s' = Some m \<longrightarrow> m \<in> names (m_objs s')"
      using assms(1) eq(3) n by (simp add: mods_ok_def)
    moreover have "inj_on md_name (names (m_objs s'))"
      using assms(1,2) unfolding n by (auto simp: mods_ok_def)
    moreover have "0 < md_ofs m \<and> md_ofs m < 2147483648 \<and> c_str (md_name m) = md_name m" if "m \<in> names (m_objs s')" for m
      using that N [of m] assms(3,5,6) unfolding n by auto
    ultimately show "mods_ok s'" unfolding mods_ok_def by blast
  qed
qed

lemma c_str_c_str [simp]: "c_str (c_str a) = c_str a"
  by (induction a) (simp_all add: c_str_def del: takeWhile_eq_all_conv)

text \<open>The offset of a name: total while there is room below two gigabytes.\<close>

lemma GetModuleNameOfs_total:
  assumes "space s" and "mods_ok s" and "\<not> m_bReadOnly s" and "0 < m_ChunkSize s"
    and "file_end s + int (length nm) + size_module < 2147483648"
  obtains x t m where "GetModuleNameOfs s nm = Some (x, t)" and "mods_ok t"
    and "m_objs t x = Some (ObjModule m)" and "mn_name m = c_str nm"
    and "file_end t \<le> file_end s + int (length nm) + size_module"
proof -
  obtain x l where f: "FindExistingModuleNameOfs s nm = Some (x, s\<lparr>m_lastmn := l\<rparr>)"
    "mods_ok (s\<lparr>m_lastmn := l\<rparr>)"
    "x = 0 \<and> (\<forall>m \<in> names (m_objs s). md_name m \<noteq> c_str nm) \<or>
     x \<noteq> 0 \<and> (\<exists>m. m_objs s x = Some (ObjModule m) \<and> mn_name m = c_str nm)"
    using FindExisting_spec [OF assms(2)] .
  show ?thesis
  proof (cases "x = 0")
    case False
    then show ?thesis
      using that [of x "s\<lparr>m_lastmn := l\<rparr>"] f by (auto simp: GetModuleNameOfs_def size_defs)
  next
    case True
    let ?n = "c_str nm" and ?s = "s\<lparr>m_lastmn := l\<rparr>"
    have len: "length ?n \<le> length nm" by (simp add: c_str_def length_takeWhile_le)
    have room: "file_end ?s + (int (length ?n) + size_module) < 4294967296" using assms(5) len by simp
    obtain y s1 where c: "CreateNewSpace ?s (int (length ?n) + size_module) = Some (y, s1)"
      and same: "m_lMods s1 = m_lMods ?s" "m_lOfs s1 = m_lOfs ?s" "m_lastmn s1 = m_lastmn ?s"
      by (rule CreateNewSpace_total [OF _ room]) (use assms(4) in auto)
    note sp = CreateNewSpace_spec [OF c]
    have y: "m_objs ?s y = None" "0 < y" "y < 2147483648"
      using sp(1) space_end_free(1) [OF assms(1)] assms(1,5) by (auto simp: space_ok_def size_defs)
    obtain l1 l2 where t: "\<And>s' :: CDb3Mmap. m_lMods s' = m_lMods ?s \<Longrightarrow> m_lOfs s' = m_lOfs ?s \<Longrightarrow>
        AddToList s' ?n y = Some (s'\<lparr>m_lMods := l1, m_lOfs := l2\<rparr>)"
      "\<And>(s' :: CDb3Mmap) k b. m_objs s' = (m_objs ?s)(y \<mapsto> ObjModule \<lparr>mn_ofsNext = k, mn_cbName = b, mn_name = ?n\<rparr>) \<Longrightarrow>
        m_lMods s' = l1 \<Longrightarrow> m_lOfs s' = l2 \<Longrightarrow> m_lastmn s' = m_lastmn ?s \<Longrightarrow> mods_ok s'"
    proof -
      have "\<forall>k \<in> names (m_objs ?s). md_name k \<noteq> ?n" using f(3) True by simp
      from AddToList_spec [OF f(2) this c_str_c_str y] that show thesis by blast
    qed
    let ?m = "\<lparr>mn_ofsNext = dh_ofsModuleNames (m_dbHeader s1), mn_cbName = of_nat (length ?n), mn_name = ?n\<rparr>"
    let ?s2 = "put_header (DBWrite s1 y (ObjModule ?m)) (dh_ofsModuleNames_update (\<lambda>_. y))"
    let ?t = "?s2\<lparr>m_lMods := l1, m_lOfs := l2\<rparr>"
    have "AddToList ?s2 ?n y = Some ?t"
      using same by (intro t(1)) (simp_all add: put_header_def DBWrite_def)
    then have "GetModuleNameOfs s nm = Some (y, ?t)"
      using f(1) True c assms(3) by (simp add: GetModuleNameOfs_def Let_def)
    moreover have "mods_ok ?t"
      by (rule t(2) [of _ "dh_ofsModuleNames (m_dbHeader s1)"])
        (simp_all add: put_header_def DBWrite_def same sp(4))
    moreover have "file_end ?t \<le> file_end s + int (length nm) + size_module"
      using sp(1,2) len by (simp add: put_header_def DBWrite_def)
    moreover have "m_objs ?t y = Some (ObjModule ?m)" by (simp add: put_header_def DBWrite_def)
    ultimately show ?thesis using that by simp
  qed
qed

lemma GetModuleNameByOfs_spec:
  assumes "mods_ok s" and "m_objs s x = Some (ObjModule m)"
  obtains l where "GetModuleNameByOfs s x = Some (mn_name m, s\<lparr>m_lastmn := l\<rparr>)" and "mods_ok (s\<lparr>m_lastmn := l\<rparr>)"
proof -
  obtain os where os: "table_as OfsCompare (key_cmp md_ofs) (m_lOfs s) os" "set os = names (m_objs s)"
    using assms(1) by (auto simp: mods_ok_def)
  have N: "0 < md_ofs k" "md_ofs k < 2147483648" "m_objs s (md_ofs k) = Some (ObjModule m) \<Longrightarrow> md_name k = mn_name m"
    if "k \<in> names (m_objs s)" for k
    using assms(1) that by (auto simp: mods_ok_def names_def)
  have mem: "\<lparr>md_name = mn_name m, md_ofs = x\<rparr> \<in> names (m_objs s)" using assms(2) by (auto simp: names_def)
  show ?thesis
  proof (cases "case m_lastmn s of None \<Rightarrow> False | Some mn \<Rightarrow> md_ofs mn = x")
    case True
    then obtain k where k: "m_lastmn s = Some k" "md_ofs k = x" by (auto split: option.splits)
    then have "k \<in> names (m_objs s)" using assms(1) by (simp add: mods_ok_def)
    then have nm: "md_name k = mn_name m" using N(3) [of k] assms(2) k(2) by simp
    have eq: "s\<lparr>m_lastmn := Some k\<rparr> = s" using k(1) by (cases s) simp
    have "mods_ok (s\<lparr>m_lastmn := Some k\<rparr>)" unfolding eq by (rule assms(1))
    then show ?thesis
      using k nm by (intro that [of "Some k"]) (auto simp: GetModuleNameByOfs_def)
  next
    case False
    let ?k = "\<lparr>md_name = [], md_ofs = x\<rparr>"
    have sg: "sgn (OfsCompare k ?k) = sgn (key_cmp md_ofs k ?k)" if "k \<in> set os" for k
      using N [of k] N [OF mem] that os(2) by (intro OfsCompare_sgn) auto
    obtain i where i: "LIST_getIndex (m_lOfs s) (Some ?k) = Some i"
      "i = -1 \<and> (\<forall>m \<in> set os. key_cmp md_ofs m ?k \<noteq> 0) \<or>
       0 \<le> i \<and> i < int (length os) \<and> key_cmp md_ofs (os ! nat i) ?k = 0"
      using table_as_index [OF os(1) fn_table.sorted_table_axioms sg] by blast
    have "\<not> (\<forall>m \<in> set os. key_cmp md_ofs m ?k \<noteq> 0)"
      using mem unfolding os(2) by (force simp: key_cmp_def)
    then have b: "0 \<le> i" "i < int (length os)" "md_ofs (os ! nat i) = x"
      using i(2) by (auto simp: key_cmp_def split: if_splits)
    let ?m = "os ! nat i"
    have m: "?m \<in> names (m_objs s)" using b by (simp flip: os(2))
    have "GetModuleNameByOfs s x = Some (md_name ?m, s\<lparr>m_lastmn := Some ?m\<rparr>)"
      using False i(1) b table_as_at [OF os(1), of i] by (simp add: GetModuleNameByOfs_def)
    moreover have "mods_ok (s\<lparr>m_lastmn := Some ?m\<rparr>)" using assms(1) m by (simp add: mods_ok_def)
    ultimately show ?thesis using that N(3) [OF m] b(3) assms(2) by simp
  qed
qed

end
