(* ===== verification/DbSettings.thy ===== *)
theory DbSettings imports DbContacts begin

text \<open>
  Settings: named values in modules, of a contact or of the user.  The file keeps them in one
  group per contact and module (\<open>plugins/Db3x_mmap/src/dbsettings.cpp\<close>, with
  \<open>dbmodulechain.cpp\<close>, \<open>dbcache.cpp\<close> and \<open>database.cpp\<close>): a blob of settings one after
  the other, each a length, a name, a type and a value, ended by a zero, with room to grow.

  A position in a blob is an index from its start.  The driver reads beyond the blob of a group
  in one place, when it closes the gap of a deleted setting; what it reads there is the
  parameter \<open>de_raw\<close>.
\<close>

section \<open>Settings in a blob\<close>

definition blob_at :: "bytes \<Rightarrow> nat \<Rightarrow> u8 option" where
  "blob_at b i = (if i < length b then Some (b ! i) else None)"

definition bytes_at :: "bytes \<Rightarrow> nat \<Rightarrow> nat \<Rightarrow> bytes option" where
  "bytes_at b i n = (if i + n \<le> length b then Some (take n (drop i b)) else None)"

definition word_at :: "bytes \<Rightarrow> nat \<Rightarrow> u16 option" where
  "word_at b i = do { x \<leftarrow> blob_at b i; y \<leftarrow> blob_at b (i + 1); Some (ucast x OR push_bit 8 (ucast y)) }"

definition dword_at :: "bytes \<Rightarrow> nat \<Rightarrow> u32 option" where
  "dword_at b i =
     do {
       x \<leftarrow> blob_at b i; y \<leftarrow> blob_at b (i + 1); z \<leftarrow> blob_at b (i + 2); w \<leftarrow> blob_at b (i + 3);
       Some (load32 x y z w)
     }"

definition word_bytes :: "u16 \<Rightarrow> bytes" where
  "word_bytes w = [ucast w, ucast (drop_bit 8 w)]"

definition dword_bytes :: "u32 \<Rightarrow> bytes" where
  "dword_bytes w = [ucast w, ucast (drop_bit 8 w), ucast (drop_bit 16 w), ucast (drop_bit 24 w)]"

definition GetSettingValueLength :: "bytes \<Rightarrow> nat \<Rightarrow> nat option" where
  "GetSettingValueLength b i =
     do {
       t \<leftarrow> blob_at b i;
       if t AND DBVTF_VARIABLELENGTH \<noteq> 0 then do { w \<leftarrow> word_at b (i + 1); Some (2 + unat w) }
       else Some (unat t)
     }"

text \<open>The position after the setting at \<open>i\<close>.\<close>

definition next_setting :: "bytes \<Rightarrow> nat \<Rightarrow> nat option" where
  "next_setting b i =
     do {
       n \<leftarrow> blob_at b i;
       len \<leftarrow> GetSettingValueLength b (i + 1 + unat n);
       Some (i + 1 + unat n + 1 + len)
     }"

lemma next_setting_bounds: "next_setting b i = Some j \<Longrightarrow> i < length b \<and> i < j"
  by (auto simp: next_setting_def blob_at_def split: if_splits bind_splits)

text \<open>The setting with the given name, or the end of the settings.\<close>

function find_setting :: "bytes \<Rightarrow> bytes \<Rightarrow> nat \<Rightarrow> nat option" where
  "find_setting b name i =
     (case blob_at b i of
        None \<Rightarrow> None
      | Some n \<Rightarrow>
          if n = 0 then Some i
          else if unat n = length name \<and> bytes_at b (i + 1) (length name) = None then None
          else if unat n = length name \<and> bytes_at b (i + 1) (length name) = Some name then Some i
          else (case next_setting b i of None \<Rightarrow> None | Some j \<Rightarrow> find_setting b name j))"
  by pat_completeness auto
termination
  by (relation "measure (\<lambda>(b, name, i). length b - i)") (auto dest: next_setting_bounds)

function settings_end :: "bytes \<Rightarrow> nat \<Rightarrow> nat option" where
  "settings_end b i =
     (case blob_at b i of
        None \<Rightarrow> None
      | Some n \<Rightarrow>
          if n = 0 then Some i
          else (case next_setting b i of None \<Rightarrow> None | Some j \<Rightarrow> settings_end b j))"
  by pat_completeness auto
termination
  by (relation "measure (\<lambda>(b, i). length b - i)") (auto dest: next_setting_bounds)

declare find_setting.simps [simp del] settings_end.simps [simp del]

section \<open>Groups of settings\<close>

definition DBRead_settings :: "CDb3Mmap \<Rightarrow> int \<Rightarrow> DBContactSettings option" where
  "DBRead_settings s ofs =
     (if ofs = 0 then None
      else case m_objs s ofs of Some (ObjSettings g) \<Rightarrow> Some g | _ \<Rightarrow> None)"

partial_function (option) GetSettingsGroupOfsByModuleNameOfs :: "CDb3Mmap \<Rightarrow> int \<Rightarrow> int \<Rightarrow> int option" where
  "GetSettingsGroupOfsByModuleNameOfs s ofsModuleName ofsThis =
     (if ofsThis = 0 then Some 0
      else
        do {
          dbcs \<leftarrow> DBRead_settings s ofsThis;
          if st_ofsModuleName dbcs = ofsModuleName then Some ofsThis
          else GetSettingsGroupOfsByModuleNameOfs s ofsModuleName (st_ofsNext dbcs)
        })"

text \<open>The group before the one at \<open>ofsGroup\<close>.\<close>

partial_function (option) group_before :: "CDb3Mmap \<Rightarrow> int \<Rightarrow> int \<Rightarrow> int option" where
  "group_before s ofsGroup ofsPrev =
     do {
       dbcsPrev \<leftarrow> DBRead_settings s ofsPrev;
       if st_ofsNext dbcsPrev = ofsGroup then Some ofsPrev
       else if st_ofsNext dbcsPrev = 0 then None
       else group_before s ofsGroup (st_ofsNext dbcsPrev)
     }"

declare GetSettingsGroupOfsByModuleNameOfs.simps [code] group_before.simps [code]

text \<open>Bytes written into the blob of a group, which may extend the mapping of the file.\<close>

definition DBWrite_blob :: "CDb3Mmap \<Rightarrow> int \<Rightarrow> nat \<Rightarrow> bytes \<Rightarrow> CDb3Mmap option" where
  "DBWrite_blob s ofsGroup i xs =
     do {
       g \<leftarrow> DBRead_settings s ofsGroup;
       let ofsEnd = ofsGroup + size_settings + int (i + length xs);
       if i + length xs > length (st_blob g) then None
       else
         do {
           s \<leftarrow> (if ofsEnd > m_dwFileSize s then ReMap s (ofsEnd - m_dwFileSize s) else Some s);
           Some (DBWrite s ofsGroup
             (ObjSettings (g\<lparr>st_blob := take i (st_blob g) @ xs @ drop (i + length xs) (st_blob g)\<rparr>)))
         }
     }"

fun write_parts :: "CDb3Mmap \<Rightarrow> int \<Rightarrow> nat \<Rightarrow> bytes list \<Rightarrow> CDb3Mmap option" where
  "write_parts s ofsGroup i [] = Some s"
| "write_parts s ofsGroup i (x # xs) =
     do { s \<leftarrow> DBWrite_blob s ofsGroup i x; write_parts s ofsGroup (i + length x) xs }"

text \<open>\<open>ReallocSpace\<close>, for the object at \<open>ofs\<close>: it stays there at the end of the file, and is moved elsewhere.\<close>

definition ReallocSpace :: "CDb3Mmap \<Rightarrow> int \<Rightarrow> int \<Rightarrow> int \<Rightarrow> (int \<times> CDb3Mmap) option" where
  "ReallocSpace s ofs oldSize newSize =
     (if oldSize \<ge> newSize then Some (ofs, s)
      else if ofs + oldSize = dh_ofsFileEnd (m_dbHeader s) then
        if ofs + newSize \<ge> 4294967296 then None
        else Some (ofs, put_header s (dh_ofsFileEnd_update (\<lambda>e. e + (newSize - oldSize))))
      else
        do {
          (ofsNew, s) \<leftarrow> CreateNewSpace s newSize;
          let s = s\<lparr>m_objs := (m_objs s)(ofsNew := m_objs s ofs)\<rparr>;
          Some (ofsNew, DeleteSpace s ofs oldSize)
        })"

section \<open>Writing a setting\<close>

definition DB_SETTINGS_RESIZE_GRANULARITY :: nat where "DB_SETTINGS_RESIZE_GRANULARITY = 128"

definition round_up :: "nat \<Rightarrow> nat" where
  "round_up n =
     n + (DB_SETTINGS_RESIZE_GRANULARITY - n mod DB_SETTINGS_RESIZE_GRANULARITY) mod DB_SETTINGS_RESIZE_GRANULARITY"

definition is_string :: "u8 \<Rightarrow> bool" where
  "is_string t \<longleftrightarrow> t = DBVT_ASCIIZ \<or> t = DBVT_UTF8"

definition is_binary :: "u8 \<Rightarrow> bool" where
  "is_binary t \<longleftrightarrow> t = DBVT_BLOB \<or> t = DBVT_ENCRYPTED"

definition value_size :: "DBVARIANT \<Rightarrow> nat" where
  "value_size v = (if is_string (dv_type v) \<or> is_binary (dv_type v) then unat (dv_len v) + 2 else unat (dv_type v))"

text \<open>The bytes that a value is written as, in the order of the writes.\<close>

definition value_parts :: "DBVARIANT \<Rightarrow> bytes list option" where
  "value_parts v =
     (if dv_type v = DBVT_BYTE then Some [[ucast (dv_val v)]]
      else if dv_type v = DBVT_WORD then Some [word_bytes (ucast (dv_val v))]
      else if dv_type v = DBVT_DWORD then Some [dword_bytes (dv_val v)]
      else if is_string (dv_type v) \<or> is_binary (dv_type v) then
        do { m \<leftarrow> dv_mem v; d \<leftarrow> bytes_at m 0 (unat (dv_len v)); Some [word_bytes (dv_len v), d] }
      else Some [])"

definition new_group :: "CDb3Mmap \<Rightarrow> int \<Rightarrow> DBContact \<Rightarrow> int \<Rightarrow> nat \<Rightarrow> (int \<times> DBContact \<times> CDb3Mmap) option" where
  "new_group s ofsContact dbc ofsModuleName bytesRequired =
     do {
       let n = round_up bytesRequired;
       (ofsSettingsGroup, s) \<leftarrow> CreateNewSpace s (int n + size_settings);
       let dbcs = \<lparr>st_ofsNext = dc_ofsFirstSettings dbc, st_ofsModuleName = ofsModuleName, st_blob = replicate n 0\<rparr>;
       let dbc = dbc\<lparr>dc_ofsFirstSettings := ofsSettingsGroup\<rparr>;
       let s = DBWrite s ofsContact (ObjContact dbc);
       Some (ofsSettingsGroup, dbc, DBWrite s ofsSettingsGroup (ObjSettings dbcs))
     }"

text \<open>The whole group at another place, with \<open>n\<close> bytes for its blob.\<close>

definition move_group :: "CDb3Mmap \<Rightarrow> int \<Rightarrow> DBContact \<Rightarrow> int \<Rightarrow> DBContactSettings \<Rightarrow> nat \<Rightarrow> (int \<times> CDb3Mmap) option" where
  "move_group s ofsContact dbc ofsSettingsGroup dbcs n =
     do {
       ofsDbcsPrev \<leftarrow> (if dc_ofsFirstSettings dbc = ofsSettingsGroup then Some 0
                      else group_before s ofsSettingsGroup (dc_ofsFirstSettings dbc));
       (ofsNew, s) \<leftarrow> ReallocSpace s ofsSettingsGroup (int (length (st_blob dbcs)) + size_settings) (int n + size_settings);
       let s = DBWrite s ofsNew
         (ObjSettings (dbcs\<lparr>st_blob := st_blob dbcs @ replicate (n - length (st_blob dbcs)) 0\<rparr>));
       if ofsDbcsPrev = 0 then Some (ofsNew, DBWrite s ofsContact (ObjContact (dbc\<lparr>dc_ofsFirstSettings := ofsNew\<rparr>)))
       else
         do {
           dbcsPrev \<leftarrow> DBRead_settings s ofsDbcsPrev;
           Some (ofsNew, DBWrite s ofsDbcsPrev (ObjSettings (dbcsPrev\<lparr>st_ofsNext := ofsNew\<rparr>)))
         }
     }"

text \<open>A setting at the end, where \<open>i\<close> is the position of the terminating zero.\<close>

definition append_setting ::
    "CDb3Mmap \<Rightarrow> int \<Rightarrow> DBContact \<Rightarrow> int \<Rightarrow> nat \<Rightarrow> bytes \<Rightarrow> DBVARIANT \<Rightarrow> CDb3Mmap option" where
  "append_setting s ofsContact dbc ofsSettingsGroup i name v =
     do {
       dbcs \<leftarrow> DBRead_settings s ofsSettingsGroup;
       let bytesRequired = value_size v + (2 + length name) + (i + 1);
       (ofsSettingsGroup, s) \<leftarrow> (if bytesRequired > length (st_blob dbcs)
         then move_group s ofsContact dbc ofsSettingsGroup dbcs (round_up bytesRequired)
         else Some (ofsSettingsGroup, s));
       parts \<leftarrow> value_parts v;
       write_parts s ofsSettingsGroup i ([[of_nat (length name)], name, [dv_type v]] @ parts @ [[0]])
     }"

text \<open>The setting of \<open>n\<close> bytes at \<open>at\<close> is taken out of the blob whose terminating zero is at \<open>eos\<close>.\<close>

definition cut_blob :: "(int \<Rightarrow> u8) \<Rightarrow> int \<Rightarrow> bytes \<Rightarrow> nat \<Rightarrow> nat \<Rightarrow> nat \<Rightarrow> bytes" where
  "cut_blob raw ofsGroup b at n eos =
     take at b @
     map (\<lambda>k. if k < length b then b ! k else raw (ofsGroup + size_settings + int k)) [at + n ..< eos + 1 + n] @
     drop (eos + 1) b"

definition cut_setting ::
    "dbenv \<Rightarrow> CDb3Mmap \<Rightarrow> int \<Rightarrow> nat \<Rightarrow> nat \<Rightarrow> (nat \<times> CDb3Mmap) option" where
  "cut_setting E s ofsGroup i settingNameLen =
     do {
       g \<leftarrow> DBRead_settings s ofsGroup;
       let nameLen = 1 + settingNameLen;
       v \<leftarrow> GetSettingValueLength (st_blob g) (i + nameLen);
       let valLen = 1 + v;
       eos \<leftarrow> settings_end (st_blob g) (i + nameLen + valLen);
       Some (eos - (nameLen + valLen),
             DBWrite s ofsGroup (ObjSettings (g\<lparr>st_blob :=
               cut_blob (de_raw E s) ofsGroup (st_blob g) i (nameLen + valLen) eos\<rparr>)))
     }"

text \<open>Whether the value at \<open>p\<close> has the type of the new one and its length.\<close>

definition fits_in_place :: "bytes \<Rightarrow> nat \<Rightarrow> DBVARIANT \<Rightarrow> bool option" where
  "fits_in_place b p v =
     do {
       t \<leftarrow> blob_at b p;
       if t \<noteq> dv_type v then Some False
       else if is_string t \<or> is_binary t then do { w \<leftarrow> word_at b (p + 1); Some (w = dv_len v) }
       else Some True
     }"

definition replace_value :: "CDb3Mmap \<Rightarrow> int \<Rightarrow> nat \<Rightarrow> DBVARIANT \<Rightarrow> CDb3Mmap option" where
  "replace_value s ofsGroup p v =
     do {
       parts \<leftarrow> value_parts v;
       if is_string (dv_type v) \<or> is_binary (dv_type v) then write_parts s ofsGroup (p + 3) (tl parts)
       else write_parts s ofsGroup (p + 1) parts
     }"

definition WriteContactSettingWorker ::
    "dbenv \<Rightarrow> CDb3Mmap \<Rightarrow> u32 \<Rightarrow> bytes \<Rightarrow> bytes \<Rightarrow> DBVARIANT \<Rightarrow> (u32 \<times> CDb3Mmap) option" where
  "WriteContactSettingWorker E s contactID szModule szSetting v =
     do {
       let name = c_str szSetting;
       (ofsContact, cc) \<leftarrow> GetContactOffset s contactID;
       if ofsContact = 0 then Some (2, s)
       else
         do {
           (ofsModuleName, s) \<leftarrow> GetModuleNameOfs s szModule;
           if signature_at s ofsContact \<noteq> DBCONTACT_SIGNATURE then Some (1, s)
           else
             do {
               dbc \<leftarrow> DBRead_contact s ofsContact;
               ofsGroup \<leftarrow> GetSettingsGroupOfsByModuleNameOfs s ofsModuleName (dc_ofsFirstSettings dbc);
               if ofsGroup = 0 then
                 do {
                   (ofsGroup, dbc, s) \<leftarrow> new_group s ofsContact dbc ofsModuleName (value_size v + (2 + length name));
                   s \<leftarrow> append_setting s ofsContact dbc ofsGroup 0 name v;
                   Some (0, s)
                 }
               else
                 do {
                   g \<leftarrow> DBRead_settings s ofsGroup;
                   i \<leftarrow> find_setting (st_blob g) name 0;
                   c \<leftarrow> blob_at (st_blob g) i;
                   if c = 0 then do { s \<leftarrow> append_setting s ofsContact dbc ofsGroup i name v; Some (0, s) }
                   else
                     do {
                       same \<leftarrow> fits_in_place (st_blob g) (i + 1 + length name) v;
                       if same then do { s \<leftarrow> replace_value s ofsGroup (i + 1 + length name) v; Some (0, s) }
                       else
                         do {
                           (i, s) \<leftarrow> cut_setting E s ofsGroup i (length name);
                           s \<leftarrow> append_setting s ofsContact dbc ofsGroup i name v;
                           Some (0, s)
                         }
                     }
                 }
             }
         }
     }"

end
