(* ===== verification/DbCache.thy ===== *)
theory DbCache imports DbSettings begin

text \<open>
  The cache of settings (\<open>src/mir_app/src/mdatabasecache.cpp\<close>) and the operations that go
  through it: reading, deleting and listing settings (\<open>dbsettings.cpp\<close>), and writing them
  (\<open>src/mir_app/src/MDatabaseCommon.cpp\<close>).

  A callback of \<open>EnumContactSettings\<close> has a state of its own and does not use the database.
\<close>

section \<open>Names\<close>

definition GetCachedSetting :: "CDb3Mmap \<Rightarrow> bytes option \<Rightarrow> bytes \<Rightarrow> (bytes \<times> CDb3Mmap) option" where
  "GetCachedSetting s szModuleName szSettingName =
     do {
       szKey \<leftarrow> (case szModuleName of
                  None \<Rightarrow> Some (c_str szSettingName)
                | Some m \<Rightarrow>
                    let full = c_str m @ 47 # c_str szSettingName in
                    if length full + 1 > 512 then None else Some full);
       if (case m_lastSetting s of None \<Rightarrow> False | Some l \<Rightarrow> strcmp szKey l = 0)
       then Some (the (m_lastSetting s), s)
       else
         do {
           index \<leftarrow> LIST_getIndex (m_lSettings s) (Some \<lparr>cs_name = szKey, cs_resident = 0\<rparr>);
           if index \<noteq> -1 then
             do {
               cs \<leftarrow> LIST_at (m_lSettings s) index;
               Some (cs_name cs, s\<lparr>m_lastSetting := Some (cs_name cs)\<rparr>)
             }
           else
             do {
               (r, l) \<leftarrow> List_InsertPtr (m_lSettings s) (Some \<lparr>cs_name = szKey, cs_resident = 0\<rparr>);
               Some (szKey, s\<lparr>m_lSettings := l, m_lastSetting := Some szKey\<rparr>)
             }
         }
     }"

text \<open>The byte in front of a name.\<close>

definition resident_flag :: "CDb3Mmap \<Rightarrow> bytes \<Rightarrow> u8 option" where
  "resident_flag s szSetting =
     do {
       index \<leftarrow> LIST_getIndex (m_lSettings s) (Some \<lparr>cs_name = szSetting, cs_resident = 0\<rparr>);
       cs \<leftarrow> LIST_at (m_lSettings s) index;
       Some (cs_resident cs)
     }"

definition set_resident_flag :: "CDb3Mmap \<Rightarrow> bytes \<Rightarrow> u8 \<Rightarrow> CDb3Mmap option" where
  "set_resident_flag s szSetting f =
     do {
       index \<leftarrow> LIST_getIndex (m_lSettings s) (Some \<lparr>cs_name = szSetting, cs_resident = 0\<rparr>);
       cs \<leftarrow> LIST_at (m_lSettings s) index;
       its \<leftarrow> arr_write (items (m_lSettings s)) index (Some (cs\<lparr>cs_resident := f\<rparr>));
       Some (s\<lparr>m_lSettings := (m_lSettings s)\<lparr>items := its\<rparr>\<rparr>)
     }"

definition SetSettingResident :: "CDb3Mmap \<Rightarrow> u32 \<Rightarrow> bytes \<Rightarrow> (u32 \<times> CDb3Mmap) option" where
  "SetSettingResident s bIsResident pszSettingName =
     do {
       (szSetting, s) \<leftarrow> GetCachedSetting s None pszSettingName;
       s \<leftarrow> set_resident_flag s szSetting (ucast bIsResident);
       idx \<leftarrow> LIST_getIndex (m_lResidentSettings s) (Some szSetting);
       if idx = -1 then
         if bIsResident \<noteq> 0 then
           do {
             (r, l) \<leftarrow> List_InsertPtr (m_lResidentSettings s) (Some szSetting);
             Some (0, s\<lparr>m_lResidentSettings := l\<rparr>)
           }
         else Some (0, s)
       else if bIsResident = 0 then
         do {
           (r, l) \<leftarrow> List_Remove (m_lResidentSettings s) idx;
           Some (0, s\<lparr>m_lResidentSettings := l\<rparr>)
         }
       else Some (0, s)
     }"

section \<open>Values\<close>

definition zero_variant :: DBVARIANT where
  "zero_variant = \<lparr>dv_type = 0, dv_val = 0, dv_mem = None, dv_len = 0, dv_addr = 0\<rparr>"

definition find_global :: "CDb3Mmap \<Rightarrow> bytes \<Rightarrow> int option" where
  "find_global s szSetting = LIST_getIndex (m_lGlobalSettings s) (Some \<lparr>gv_name = szSetting, gv_value = zero_variant\<rparr>)"

definition remove_value :: "bytes \<Rightarrow> (bytes \<times> DBVARIANT) list \<Rightarrow> (bytes \<times> DBVARIANT) list" where
  "remove_value name vs = takeWhile (\<lambda>v. fst v \<noteq> name) vs @ tl (dropWhile (\<lambda>v. fst v \<noteq> name) vs)"

text \<open>The three modes of \<open>bAllocate\<close>: look for a value (0), make one (1), delete it (-1).\<close>

definition GetCachedValuePtr :: "CDb3Mmap \<Rightarrow> u32 \<Rightarrow> bytes \<Rightarrow> int \<Rightarrow> (DBVARIANT option \<times> CDb3Mmap) option" where
  "GetCachedValuePtr s contactID szSetting bAllocate =
     (if contactID = 0 then
        do {
          index \<leftarrow> find_global s szSetting;
          if index \<noteq> -1 then
            do {
              V \<leftarrow> LIST_at (m_lGlobalSettings s) index;
              if bAllocate = -1 then
                do {
                  (r, l) \<leftarrow> List_Remove (m_lGlobalSettings s) index;
                  Some (Some zero_variant, s\<lparr>m_lGlobalSettings := l\<rparr>)
                }
              else Some (Some (gv_value V), s)
            }
          else if bAllocate \<noteq> 1 then Some (None, s)
          else
            do {
              (r, l) \<leftarrow> List_InsertPtr (m_lGlobalSettings s) (Some \<lparr>gv_name = szSetting, gv_value = zero_variant\<rparr>);
              Some (Some zero_variant, s\<lparr>m_lGlobalSettings := l\<rparr>)
            }
        }
      else
        do {
          cc \<leftarrow> GetCachedContact s contactID;
          case cc of
            None \<Rightarrow> Some (None, s)
          | Some cc \<Rightarrow>
              (case map_of (cc_values cc) szSetting of
                 None \<Rightarrow>
                   if bAllocate \<noteq> 1 then Some (None, s)
                   else
                     do {
                       s \<leftarrow> put_cached s contactID (cc_values_update (\<lambda>vs. vs @ [(szSetting, zero_variant)]));
                       Some (Some zero_variant, s)
                     }
               | Some V \<Rightarrow>
                   if bAllocate = -1 then
                     do {
                       s \<leftarrow> put_cached s contactID (cc_values_update (remove_value szSetting));
                       Some (Some zero_variant, s)
                     }
                   else Some (Some V, s))
        })"

text \<open>Writing through the pointer that \<open>GetCachedValuePtr\<close> returned.\<close>

definition put_value :: "CDb3Mmap \<Rightarrow> u32 \<Rightarrow> bytes \<Rightarrow> DBVARIANT \<Rightarrow> CDb3Mmap option" where
  "put_value s contactID szSetting v =
     (if contactID = 0 then
        do {
          index \<leftarrow> find_global s szSetting;
          V \<leftarrow> LIST_at (m_lGlobalSettings s) index;
          its \<leftarrow> arr_write (items (m_lGlobalSettings s)) index (Some (V\<lparr>gv_value := v\<rparr>));
          Some (s\<lparr>m_lGlobalSettings := (m_lGlobalSettings s)\<lparr>items := its\<rparr>\<rparr>)
        }
      else put_cached s contactID (cc_values_update (map (\<lambda>w. if fst w = szSetting then (szSetting, v) else w))))"

text \<open>What a cached value becomes: the value, with a copy of the memory it points to.\<close>

definition SetCachedVariant :: "DBVARIANT \<Rightarrow> DBVARIANT option" where
  "SetCachedVariant v =
     (if dv_type v AND DBVTF_VARIABLELENGTH = 0 then Some v
      else case dv_mem v of
             None \<Rightarrow> Some v
           | Some m \<Rightarrow>
               if is_string (dv_type v) then Some (v\<lparr>dv_mem := Some (c_str m @ [0])\<rparr>)
               else do { d \<leftarrow> bytes_at m 0 (unat (dv_len v)); Some (v\<lparr>dv_mem := Some d\<rparr>) })"

definition cache_value :: "CDb3Mmap \<Rightarrow> u32 \<Rightarrow> bytes \<Rightarrow> DBVARIANT \<Rightarrow> CDb3Mmap option" where
  "cache_value s contactID szSetting v =
     do {
       (p, s) \<leftarrow> GetCachedValuePtr s contactID szSetting 1;
       case p of None \<Rightarrow> Some s | Some d \<Rightarrow> do { v \<leftarrow> SetCachedVariant v; put_value s contactID szSetting v }
     }"

section \<open>Reading a setting\<close>

definition VLT :: "u8 \<Rightarrow> u8" where
  "VLT n = (if n = DBVT_UTF8 \<or> n = DBVT_ENCRYPTED then DBVT_ASCIIZ else n)"

definition META_PROTO :: bytes where "META_PROTO = [77, 101, 116, 97, 67, 111, 110, 116, 97, 99, 116, 115]"

definition IsSubcontact_name :: bytes where
  "IsSubcontact_name = [73, 115, 83, 117, 98, 99, 111, 110, 116, 97, 99, 116]"

definition ParentMetaID_name :: bytes where
  "ParentMetaID_name = [80, 97, 114, 101, 110, 116, 77, 101, 116, 97, 73, 68]"

definition Ignore_name :: bytes where "Ignore_name = [73, 103, 110, 111, 114, 101]"

definition ValidLookupName :: "bytes \<Rightarrow> bytes \<Rightarrow> bool" where
  "ValidLookupName szModule szSetting =
     (if strcmp szModule META_PROTO = 0
      then strcmp szSetting IsSubcontact_name \<noteq> 0 \<and> strcmp szSetting ParentMetaID_name \<noteq> 0
      else strcmp szModule Ignore_name \<noteq> 0)"

text \<open>\<open>db_mc_getDefault\<close> and \<open>Meta_GetContactHandle\<close>.\<close>

definition db_mc_getDefault :: "CDb3Mmap \<Rightarrow> u32 \<Rightarrow> u32 option" where
  "db_mc_getDefault s hMetaContact =
     do {
       cc \<leftarrow> CheckMeta s hMetaContact;
       case cc of
         None \<Rightarrow> Some 0
       | Some cc \<Rightarrow>
           if cc_nDefault cc = -1 \<or> cc_nDefault cc \<ge> cc_nSubs cc \<or> cc_nDefault cc < 0 \<or> \<not> m_bMetaEnabled s then Some 0
           else if nat (cc_nDefault cc) < length (cc_pSubs cc) then Some (cc_pSubs cc ! nat (cc_nDefault cc)) else None
     }"

text \<open>A copy of \<open>n\<close> bytes and a zero into the caller's buffer.\<close>

definition copy_string :: "bytes option \<Rightarrow> bytes \<Rightarrow> nat \<Rightarrow> bytes option" where
  "copy_string buf src n =
     do {
       buf \<leftarrow> buf;
       d \<leftarrow> bytes_at src 0 n;
       if n < length buf then Some (d @ 0 # drop (n + 1) buf) else None
     }"

definition get_string :: "bool \<Rightarrow> DBVARIANT \<Rightarrow> bytes \<Rightarrow> DBVARIANT option" where
  "get_string isStatic dbv d =
     (if isStatic then
        (let varLen = of_nat (length d) :: u16; room = dv_len dbv - 1 in
         do {
           m \<leftarrow> copy_string (dv_mem dbv) d (unat (if varLen < room then varLen else room));
           Some (dbv\<lparr>dv_mem := Some m, dv_len := varLen\<rparr>)
         })
      else Some (dbv\<lparr>dv_mem := Some (d @ [0])\<rparr>))"

definition get_binary :: "bool \<Rightarrow> DBVARIANT \<Rightarrow> bytes \<Rightarrow> DBVARIANT option" where
  "get_binary isStatic dbv d =
     (if isStatic then
        (let varLen = of_nat (length d) :: u16; n = unat (if varLen < dv_len dbv then varLen else dv_len dbv) in
         do {
           buf \<leftarrow> dv_mem dbv;
           m \<leftarrow> bytes_at d 0 n;
           if n \<le> length buf then Some (dbv\<lparr>dv_mem := Some (m @ drop n buf), dv_len := varLen\<rparr>) else None
         })
      else Some (dbv\<lparr>dv_mem := Some d, dv_len := of_nat (length d)\<rparr>))"

text \<open>The value at \<open>p\<close>, with the code that is returned for it.\<close>

definition read_value :: "dbenv \<Rightarrow> bool \<Rightarrow> DBVARIANT \<Rightarrow> bytes \<Rightarrow> nat \<Rightarrow> (u32 \<times> DBVARIANT) option" where
  "read_value E isStatic dbv b p =
     do {
       t \<leftarrow> blob_at b p;
       if isStatic \<and> t AND DBVTF_VARIABLELENGTH \<noteq> 0 \<and> VLT (dv_type dbv) \<noteq> VLT t then Some (1, dbv)
       else
         (let dbv = dbv\<lparr>dv_type := t\<rparr> in
          if t = DBVT_DELETED then Some (2, dbv)
          else if t = DBVT_BYTE then do { x \<leftarrow> blob_at b (p + 1); Some (0, dbv\<lparr>dv_val := ucast x\<rparr>) }
          else if t = DBVT_WORD then do { x \<leftarrow> word_at b (p + 1); Some (0, dbv\<lparr>dv_val := ucast x\<rparr>) }
          else if t = DBVT_DWORD then do { x \<leftarrow> dword_at b (p + 1); Some (0, dbv\<lparr>dv_val := x\<rparr>) }
          else if is_string t then
            do { n \<leftarrow> word_at b (p + 1); d \<leftarrow> bytes_at b (p + 3) (unat n); dbv \<leftarrow> get_string isStatic dbv d; Some (0, dbv) }
          else if t = DBVT_BLOB then
            do { n \<leftarrow> word_at b (p + 1); d \<leftarrow> bytes_at b (p + 3) (unat n); dbv \<leftarrow> get_binary isStatic dbv d; Some (0, dbv) }
          else if t = DBVT_ENCRYPTED then
            if \<not> de_crypto E then Some (1, dbv)
            else
              do {
                n \<leftarrow> word_at b (p + 1);
                d \<leftarrow> bytes_at b (p + 3) (unat n);
                case de_decodeString E d of
                  None \<Rightarrow> Some (1, dbv)
                | Some d \<Rightarrow>
                    do {
                      dbv \<leftarrow> get_string isStatic (dbv\<lparr>dv_type := DBVT_UTF8\<rparr>) (take (unat (of_nat (length d) :: u16)) d);
                      Some (0, dbv)
                    }
              }
          else Some (0, dbv))
     }"

text \<open>A value from the cache.\<close>

definition get_cached :: "bool \<Rightarrow> DBVARIANT \<Rightarrow> DBVARIANT \<Rightarrow> (u32 \<times> DBVARIANT) option" where
  "get_cached isStatic dbv V =
     do {
       r \<leftarrow> (if is_string (dv_type V) then
               do {
                 str \<leftarrow> map_option c_str (dv_mem V);
                 if isStatic then
                   (let cbLen = int (length str); room = int (unat (dv_len dbv)) - 1;
                        n = (if cbLen < room then cbLen else room) in
                    if n < 0 then None
                    else
                      do {
                        m \<leftarrow> copy_string (dv_mem dbv) str (nat n);
                        Some (V\<lparr>dv_mem := Some m, dv_len := of_int cbLen\<rparr>)
                      })
                 else Some (V\<lparr>dv_mem := Some (str @ [0])\<rparr>)
               }
             else Some V);
       Some (if dv_type V = DBVT_DELETED then 1 else 0, r)
     }"

text \<open>
  What the group of a contact has under a name: its blob and the position of the value.
  Nothing if there is no such group or setting.
\<close>

definition locate_setting :: "CDb3Mmap \<Rightarrow> DBContact \<Rightarrow> int \<Rightarrow> bytes \<Rightarrow> (bytes \<times> nat) option option" where
  "locate_setting s dbc ofsModuleName name =
     do {
       ofsGroup \<leftarrow> GetSettingsGroupOfsByModuleNameOfs s ofsModuleName (dc_ofsFirstSettings dbc);
       if ofsGroup = 0 then Some None
       else
         do {
           g \<leftarrow> DBRead_settings s ofsGroup;
           i \<leftarrow> find_setting (st_blob g) name 0;
           c \<leftarrow> blob_at (st_blob g) i;
           Some (if c = 0 then None else Some (st_blob g, i + 1 + length name))
         }
     }"

text \<open>The loop at \<open>LBL_Seek\<close>: a metacontact that lacks a setting takes it from its default subcontact.\<close>

partial_function (option) seek_setting ::
    "dbenv \<Rightarrow> bytes \<Rightarrow> bool \<Rightarrow> DBVARIANT \<Rightarrow> CDb3Mmap \<Rightarrow> u32 \<Rightarrow> bytes \<Rightarrow> (u32 \<times> DBVARIANT \<times> CDb3Mmap) option" where
  "seek_setting E szSetting isStatic dbv s contactID szModule =
     do {
       (szCached, s) \<leftarrow> GetCachedSetting s (Some szModule) szSetting;
       (p, s) \<leftarrow> GetCachedValuePtr s contactID szCached 0;
       case p of
         Some V \<Rightarrow> do { (r, v) \<leftarrow> get_cached isStatic dbv V; Some (r, v, s) }
       | None \<Rightarrow>
           do {
             resident \<leftarrow> resident_flag s szCached;
             if resident \<noteq> 0 then Some (1, dbv, s)
             else
               do {
                 (ofsContact, cc) \<leftarrow> GetContactOffset s contactID;
                 (ofsModuleName, s) \<leftarrow> GetModuleNameOfs s szModule;
                 if signature_at s ofsContact \<noteq> DBCONTACT_SIGNATURE then Some (1, dbv, s)
                 else
                   do {
                     dbc \<leftarrow> DBRead_contact s ofsContact;
                     found \<leftarrow> locate_setting s dbc ofsModuleName (c_str szSetting);
                     case found of
                       Some (b, p) \<Rightarrow>
                         do {
                           (r, v) \<leftarrow> read_value E isStatic dbv b p;
                           t \<leftarrow> blob_at b p;
                           s \<leftarrow> (if r = 0 \<and> t \<noteq> DBVT_BLOB \<and> t \<noteq> DBVT_ENCRYPTED then cache_value s contactID szCached v else Some s);
                           Some (r, v, s)
                         }
                     | None \<Rightarrow>
                         if (case cc of None \<Rightarrow> False | Some cc \<Rightarrow> IsMeta cc) \<and> ValidLookupName szModule szSetting then
                           do {
                             sub \<leftarrow> db_mc_getDefault s contactID;
                             if sub = 0 then Some (1, dbv, s)
                             else
                               do {
                                 (account, s) \<leftarrow> de_account E sub s;
                                 case account of
                                   None \<Rightarrow> Some (1, dbv, s)
                                 | Some szModule \<Rightarrow> seek_setting E szSetting isStatic dbv s sub szModule
                               }
                           }
                         else Some (1, dbv, s)
                   }
               }
           }
     }"

declare seek_setting.simps [code]

definition GetContactSettingWorker ::
    "dbenv \<Rightarrow> CDb3Mmap \<Rightarrow> u32 \<Rightarrow> bytes option \<Rightarrow> bytes option \<Rightarrow> DBVARIANT \<Rightarrow> bool \<Rightarrow> (u32 \<times> DBVARIANT \<times> CDb3Mmap) option" where
  "GetContactSettingWorker E s contactID szModule szSetting dbv isStatic =
     (case (szModule, szSetting) of
        (Some m, Some n) \<Rightarrow>
          if length (c_str n) > 0xFE \<or> length (c_str m) > 0xFE then Some (1, dbv, s)
          else seek_setting E n isStatic dbv s contactID m
      | _ \<Rightarrow> Some (1, dbv, s))"

section \<open>Writing a setting\<close>

definition lower :: "u8 \<Rightarrow> u8" where
  "lower c = (if 65 \<le> c \<and> c \<le> 90 then c + 32 else c)"

definition password_name :: bytes where "password_name = [112, 97, 115, 115, 119, 111, 114, 100]"

definition secret_names :: "bytes list" where
  "secret_names =
     [[78, 76, 80, 114, 111, 120, 121, 65, 117, 116, 104, 80, 97, 115, 115, 119, 111, 114, 100],
      [76, 78, 80, 97, 115, 115, 119, 111, 114, 100],
      [70, 105, 108, 101, 80, 114, 111, 120, 121, 80, 97, 115, 115, 119, 111, 114, 100],
      [84, 111, 107, 101, 110, 83, 101, 99, 114, 101, 116]]"

definition IsSettingEncrypted :: "bytes \<Rightarrow> bytes \<Rightarrow> bool" where
  "IsSettingEncrypted szModule szSetting \<longleftrightarrow>
     map lower (take 8 (c_str szSetting)) = password_name \<or>
     (\<exists>n \<in> set secret_names. strcmp szSetting n = 0) \<or>
     strcmp szModule [83, 101, 99, 117, 114, 101, 73, 77] = 0 \<and>
       (strcmp szSetting [112, 103, 112] = 0 \<or> strcmp szSetting [112, 103, 112, 80, 114, 105, 118, 75, 101, 121] = 0)"

text \<open>The value that is written for the caller's, and whether handlers are told; none if it has no memory or no valid type.\<close>

definition notif_value :: "dbenv \<Rightarrow> DBVARIANT \<Rightarrow> DBVARIANT option" where
  "notif_value E v =
     (if dv_type v = DBVT_WCHAR then
        do { m \<leftarrow> dv_mem v; u \<leftarrow> de_utf8 E m; Some (v\<lparr>dv_mem := Some u, dv_type := DBVT_UTF8\<rparr>) }
      else if dv_type v = DBVT_BYTE_HIDDEN then Some (v\<lparr>dv_type := DBVT_BYTE\<rparr>)
      else Some v)"

definition work_value :: "dbenv \<Rightarrow> CDb3Mmap \<Rightarrow> bytes \<Rightarrow> bytes \<Rightarrow> DBVARIANT \<Rightarrow> DBVARIANT option" where
  "work_value E s szModule szSetting v =
     (if dv_type v \<in> {DBVT_BYTE, DBVT_WORD, DBVT_DWORD} then Some v
      else if is_string (dv_type v) then
        do {
          m \<leftarrow> dv_mem v;
          let v = v\<lparr>dv_len := of_nat (length (c_str m))\<rparr>;
          Some (if (m_bEncrypted s \<or> IsSettingEncrypted szModule szSetting) \<and> de_crypto E then
                  (case de_encodeString E (c_str m) of
                     None \<Rightarrow> v
                   | Some (r, addr) \<Rightarrow> v\<lparr>dv_mem := Some r, dv_len := of_nat (length r), dv_addr := addr, dv_type := DBVT_ENCRYPTED\<rparr>)
                else v)
        }
      else if is_binary (dv_type v) then do { m \<leftarrow> dv_mem v; Some v }
      else None)"

text \<open>
  Whether the cached value is the new one.  For blobs the length is compared with \<open>cchVal\<close>, and
  the result of \<open>memcmp\<close> is taken as it is.
\<close>

definition is_identical :: "DBVARIANT \<Rightarrow> DBVARIANT \<Rightarrow> bool option" where
  "is_identical V v =
     (if dv_type V \<noteq> dv_type v then Some False
      else if dv_type v = DBVT_BYTE then Some (ucast (dv_val V) = (ucast (dv_val v) :: u8))
      else if dv_type v = DBVT_WORD then Some (ucast (dv_val V) = (ucast (dv_val v) :: u16))
      else if dv_type v = DBVT_DWORD then Some (dv_val V = dv_val v)
      else if is_string (dv_type v) then
        do { a \<leftarrow> dv_mem V; b \<leftarrow> dv_mem v; Some (strcmp a b = 0) }
      else if is_binary (dv_type v) then
        if dv_len V = dv_addr v then
          do {
            a \<leftarrow> dv_mem V; a \<leftarrow> bytes_at a 0 (unat (dv_addr v));
            b \<leftarrow> dv_mem v; b \<leftarrow> bytes_at b 0 (unat (dv_addr v));
            Some (a \<noteq> b)
          }
        else Some False
      else Some False)"

text \<open>With the lock held: the cache and the file.  \<open>None\<close> inside if nothing had to be written.\<close>

definition store_setting ::
    "dbenv \<Rightarrow> CDb3Mmap \<Rightarrow> u32 \<Rightarrow> bytes \<Rightarrow> bytes \<Rightarrow> DBVARIANT \<Rightarrow> (u32 option \<times> CDb3Mmap) option" where
  "store_setting E s contactID szModule szSetting v =
     do {
       (szCached, s) \<leftarrow> GetCachedSetting s (Some szModule) szSetting;
       (p, s) \<leftarrow> GetCachedValuePtr s contactID szCached 1;
       same \<leftarrow> (case p of None \<Rightarrow> Some False | Some V \<Rightarrow> is_identical V v);
       if same then Some (None, s)
       else
         do {
           s \<leftarrow> (case p of None \<Rightarrow> Some s | Some V \<Rightarrow> do { w \<leftarrow> SetCachedVariant v; put_value s contactID szCached w });
           resident \<leftarrow> resident_flag s szCached;
           if resident = 0 then
             do { (r, s) \<leftarrow> WriteContactSettingWorker E s contactID szModule szSetting v; Some (Some r, s) }
           else Some (Some 0, s)
         }
     }"

definition WriteContactSetting ::
    "dbenv \<Rightarrow> CDb3Mmap \<Rightarrow> u32 \<Rightarrow> bytes option \<Rightarrow> bytes option \<Rightarrow> DBVARIANT option \<Rightarrow> (u32 \<times> CDb3Mmap) option" where
  "WriteContactSetting E s contactID szModule szSetting dbv =
     (case (szModule, szSetting, dbv) of
        (Some m, Some n, Some v) \<Rightarrow>
          if contactID = INVALID_CONTACT_ID then Some (1, s)
          else
            (case notif_value E v of
               None \<Rightarrow> Some (1, s)
             | Some nv \<Rightarrow>
                 (case work_value E s m n nv of
                    None \<Rightarrow> Some (1, s)
                  | Some wv \<Rightarrow>
                      do {
                        (r, s) \<leftarrow> store_setting E s contactID m n wv;
                        case r of
                          None \<Rightarrow> Some (0, s)
                        | Some r \<Rightarrow>
                            if r \<noteq> 0 then Some (1, s)
                            else
                              do {
                                s \<leftarrow> (if dv_type v \<noteq> DBVT_BYTE_HIDDEN then notify E (SettingChanged contactID m n nv) s else Some s);
                                Some (0, s)
                              }
                      }))
      | _ \<Rightarrow> Some (1, s))"

section \<open>Deleting and listing settings\<close>

text \<open>With the lock held; the result is the code that is returned without a notification, if any.\<close>

definition erase_setting ::
    "dbenv \<Rightarrow> CDb3Mmap \<Rightarrow> u32 \<Rightarrow> bytes \<Rightarrow> bytes \<Rightarrow> (u32 option \<times> CDb3Mmap) option" where
  "erase_setting E s contactID szModule szSetting =
     do {
       let name = c_str szSetting;
       (szCached, s) \<leftarrow> GetCachedSetting s (Some szModule) szSetting;
       resident \<leftarrow> resident_flag s szCached;
       if resident = 0 then
         do {
           (ofsModuleName, s) \<leftarrow> GetModuleNameOfs s szModule;
           (ofsContact, cc) \<leftarrow> GetContactOffset s contactID;
           if signature_at s ofsContact \<noteq> DBCONTACT_SIGNATURE then Some (Some 1, s)
           else
             do {
               dbc \<leftarrow> DBRead_contact s ofsContact;
               ofsGroup \<leftarrow> GetSettingsGroupOfsByModuleNameOfs s ofsModuleName (dc_ofsFirstSettings dbc);
               if ofsGroup = 0 then Some (Some 1, s)
               else
                 do {
                   g \<leftarrow> DBRead_settings s ofsGroup;
                   i \<leftarrow> find_setting (st_blob g) name 0;
                   c \<leftarrow> blob_at (st_blob g) i;
                   if c = 0 then Some (Some 1, s)
                   else
                     do {
                       (eos, s) \<leftarrow> cut_setting E s ofsGroup i (length name);
                       (p, s) \<leftarrow> GetCachedValuePtr s contactID szCached (-1);
                       Some (None, s)
                     }
                 }
             }
         }
       else
         do {
           (p, s) \<leftarrow> GetCachedValuePtr s contactID szCached (-1);
           Some (if p = None then Some 1 else None, s)
         }
     }"

definition DeleteContactSetting ::
    "dbenv \<Rightarrow> CDb3Mmap \<Rightarrow> u32 \<Rightarrow> bytes option \<Rightarrow> bytes option \<Rightarrow> (u32 \<times> CDb3Mmap) option" where
  "DeleteContactSetting E s contactID szModule szSetting =
     (case (szModule, szSetting) of
        (Some m, Some n) \<Rightarrow>
          if length (c_str n) > 0xFE \<or> length (c_str m) > 0xFE then Some (1, s)
          else
            do {
              (r, s) \<leftarrow> erase_setting E s contactID m n;
              case r of
                Some r \<Rightarrow> Some (r, s)
              | None \<Rightarrow> do { s \<leftarrow> notify E (SettingChanged contactID m n zero_variant) s; Some (0, s) }
            }
      | _ \<Rightarrow> Some (1, s))"

text \<open>The callback for every setting from position \<open>i\<close> on; the result of the last call.\<close>

partial_function (option) enum_settings ::
    "bytes \<Rightarrow> (bytes \<Rightarrow> 'p \<Rightarrow> int \<times> 'p) \<Rightarrow> nat \<Rightarrow> int \<Rightarrow> 'p \<Rightarrow> (int \<times> 'p) option" where
  "enum_settings b f i result p =
     do {
       n \<leftarrow> blob_at b i;
       if n = 0 then Some (result, p)
       else
         do {
           name \<leftarrow> bytes_at b (i + 1) (unat n);
           j \<leftarrow> next_setting b i;
           case f (name @ [0]) p of (result, p) \<Rightarrow> enum_settings b f j result p
         }
     }"

declare enum_settings.simps [code]

text \<open>
  The record of the contact is read through a pointer into the mapped file that was taken before
  the lookup of the module name; when that remaps the file, the pointer is invalid (\<open>None\<close>).
\<close>

definition EnumContactSettings ::
    "CDb3Mmap \<Rightarrow> u32 \<Rightarrow> (bytes \<Rightarrow> 'p \<Rightarrow> int \<times> 'p) \<Rightarrow> bytes option \<Rightarrow> 'p \<Rightarrow> (int \<times> 'p \<times> CDb3Mmap) option" where
  "EnumContactSettings s contactID pfnEnumProc szModule param =
     (case szModule of
        None \<Rightarrow> Some (-1, param, s)
      | Some m \<Rightarrow>
          do {
            (ofsContact, cc) \<leftarrow> GetContactOffset s contactID;
            if ofsContact = 0 then Some (-1, param, s)
            else if signature_at s ofsContact \<noteq> DBCONTACT_SIGNATURE then Some (-1, param, s)
            else
              do {
                let size = m_dwFileSize s;
                (ofsModuleName, s) \<leftarrow> GetModuleNameOfs s m;
                if m_dwFileSize s \<noteq> size then None
                else
                  do {
                    dbc \<leftarrow> DBRead_contact s ofsContact;
                    ofsSettings \<leftarrow> GetSettingsGroupOfsByModuleNameOfs s ofsModuleName (dc_ofsFirstSettings dbc);
                    if ofsSettings = 0 then Some (-1, param, s)
                    else
                      do {
                        g \<leftarrow> DBRead_settings s ofsSettings;
                        c \<leftarrow> blob_at (st_blob g) 0;
                        if c = 0 then Some (-1, param, s)
                        else do { (r, p) \<leftarrow> enum_settings (st_blob g) pfnEnumProc 0 0 param; Some (r, p, s) }
                      }
                  }
              }
          })"

definition sttEnumVars :: "bytes \<Rightarrow> bytes list \<Rightarrow> int \<times> bytes list" where
  "sttEnumVars szVarName vars = (0, vars @ [c_str szVarName])"

fun delete_all :: "dbenv \<Rightarrow> CDb3Mmap \<Rightarrow> u32 \<Rightarrow> bytes \<Rightarrow> bytes list \<Rightarrow> CDb3Mmap option" where
  "delete_all E s hContact szModule [] = Some s"
| "delete_all E s hContact szModule (v # vars) =
     do { (r, s) \<leftarrow> DeleteContactSetting E s hContact (Some szModule) (Some v); delete_all E s hContact szModule vars }"

definition DeleteModule :: "dbenv \<Rightarrow> CDb3Mmap \<Rightarrow> u32 \<Rightarrow> bytes \<Rightarrow> (u32 \<times> CDb3Mmap) option" where
  "DeleteModule E s hContact szModule =
     do {
       (r, vars, s) \<leftarrow> EnumContactSettings s hContact sttEnumVars (Some szModule) [];
       s \<leftarrow> delete_all E s hContact szModule (rev vars);
       Some (0, s)
     }"

end
