(* ===== verification/DbBlob.thy ===== *)
theory DbBlob imports DbCache begin

text \<open>
  A blob holds a list of settings.  Looking for a name finds where it is in the list or where the
  list ends, closing a gap removes a setting, and writes at the end and in place do to the list
  what they should.
\<close>

section \<open>Settings and their bytes\<close>

text \<open>A setting: its name, its type, and the bytes of its value.\<close>

type_synonym setting = "bytes \<times> u8 \<times> bytes"

abbreviation variable :: "u8 \<Rightarrow> bool" where "variable t \<equiv> t AND DBVTF_VARIABLELENGTH \<noteq> 0"

definition value_bytes :: "u8 \<Rightarrow> bytes \<Rightarrow> bytes" where
  "value_bytes t d = (if variable t then word_bytes (of_nat (length d)) @ d else d)"

definition setting_bytes :: "setting \<Rightarrow> bytes" where
  "setting_bytes x = (case x of (n, t, d) \<Rightarrow> of_nat (length n) # n @ t # value_bytes t d)"

definition settings_bytes :: "setting list \<Rightarrow> bytes" where
  "settings_bytes xs = concat (map setting_bytes xs)"

definition setting_ok :: "setting \<Rightarrow> bool" where
  "setting_ok x = (case x of (n, t, d) \<Rightarrow>
     n \<noteq> [] \<and> length n < 256 \<and> 0 \<notin> set n \<and> (if variable t then length d < 65536 else length d = unat t))"

definition blob_rep :: "bytes \<Rightarrow> setting list \<Rightarrow> bool" where
  "blob_rep b xs \<longleftrightarrow>
     (\<exists>rest. b = settings_bytes xs @ 0 # rest) \<and> (\<forall>x \<in> set xs. setting_ok x) \<and> distinct (map fst xs)"

lemma settings_bytes_simps [simp]:
  "settings_bytes [] = []" "settings_bytes (x # xs) = setting_bytes x @ settings_bytes xs"
  "settings_bytes (xs @ ys) = settings_bytes xs @ settings_bytes ys"
  by (simp_all add: settings_bytes_def)

lemma length_word_bytes [simp]: "length (word_bytes w) = 2"
  by (simp add: word_bytes_def)

lemma length_setting_bytes: "length (setting_bytes (n, t, d)) = 2 + length n + length (value_bytes t d)"
  by (simp add: setting_bytes_def)

section \<open>Reading\<close>

lemma blob_at_here [simp]: "blob_at (as @ x # bs) (length as) = Some x"
  by (simp add: blob_at_def)

lemma blob_at_shift: "blob_at (as @ bs) (length as + k) = blob_at bs k"
  by (simp add: blob_at_def nth_append)

lemma bytes_at_shift: "bytes_at (as @ bs) (length as + k) n = bytes_at bs k n"
  by (simp add: bytes_at_def)

lemma bytes_at_here: "n = length xs \<Longrightarrow> bytes_at (xs @ bs) 0 n = Some xs"
  by (simp add: bytes_at_def)

lemma word_at_shift: "word_at (as @ bs) (length as + k) = word_at bs k"
  using blob_at_shift [of as bs k] blob_at_shift [of as bs "k + 1"] by (simp add: word_at_def add.assoc)

lemma word_of_bytes: "ucast (ucast w :: u8) OR push_bit 8 (ucast (ucast (drop_bit 8 w) :: u8)) = w" for w :: u16
  by (rule bit_word_eqI) (auto simp: bit_simps)

lemma word_at_bytes: "word_at (word_bytes w @ bs) 0 = Some w"
  by (simp add: word_at_def word_bytes_def blob_at_def word_of_bytes)

lemma dword_of_bytes:
  "load32 (ucast w) (ucast (drop_bit 8 w)) (ucast (drop_bit 16 w)) (ucast (drop_bit 24 w)) = w"
proof (rule bit_word_eqI)
  fix n
  assume "n < LENGTH(32)"
  then show "bit (load32 (ucast w) (ucast (drop_bit 8 w)) (ucast (drop_bit 16 w)) (ucast (drop_bit 24 w))) n = bit w n"
    by (cases "n < 8"; cases "n < 16"; cases "n < 24") (auto simp: load32_def bit_simps)
qed

lemma GetSettingValueLength_here:
  assumes "setting_ok (n, t, d)"
  shows "GetSettingValueLength (as @ t # value_bytes t d @ bs) (length as) = Some (length (value_bytes t d))"
proof (cases "variable t")
  case True
  have "word_at (as @ t # word_bytes (of_nat (length d)) @ d @ bs) (length as + 1) = Some (of_nat (length d))"
    using word_at_shift [of "as @ [t]" "word_bytes (of_nat (length d)) @ d @ bs" 0] word_at_bytes by simp
  then show ?thesis
    using True assms by (simp add: GetSettingValueLength_def value_bytes_def setting_ok_def unat_of_nat)
qed (use assms in \<open>simp add: GetSettingValueLength_def value_bytes_def setting_ok_def\<close>)

lemma next_setting_here:
  assumes "setting_ok x"
  shows "next_setting (as @ setting_bytes x @ bs) (length as) = Some (length as + length (setting_bytes x))"
proof -
  obtain n t d where x: "x = (n, t, d)" by (cases x)
  have n: "unat (of_nat (length n) :: u8) = length n" using assms x by (simp add: setting_ok_def unat_of_nat)
  have "GetSettingValueLength (as @ setting_bytes x @ bs) (length as + 1 + length n) = Some (length (value_bytes t d))"
    using GetSettingValueLength_here [of n t d "as @ of_nat (length n) # n" bs] assms x by (simp add: setting_bytes_def)
  then show ?thesis
    by (simp add: next_setting_def x setting_bytes_def n)
qed

text \<open>Looking for a name.\<close>

abbreviation upto_name :: "bytes \<Rightarrow> setting list \<Rightarrow> setting list" where
  "upto_name name xs \<equiv> takeWhile (\<lambda>x. fst x \<noteq> name) xs"

lemma find_setting_here:
  assumes "\<forall>x \<in> set xs. setting_ok x"
  shows "find_setting (as @ settings_bytes xs @ 0 # rest) name (length as) =
    Some (length as + length (settings_bytes (upto_name name xs)))"
  using assms
proof (induction xs arbitrary: as)
  case Nil
  show ?case by (simp add: find_setting.simps [of _ _ "length as"])
next
  case (Cons x xs)
  obtain n t d where x: "x = (n, t, d)" by (cases x)
  let ?b = "as @ setting_bytes x @ settings_bytes xs @ 0 # rest"
  have ok: "setting_ok x" using Cons.prems by simp
  then have n: "unat (of_nat (length n) :: u8) = length n" "(of_nat (length n) :: u8) \<noteq> 0"
    using x by (auto simp: setting_ok_def unat_of_nat word_unat_eq_iff)
  have at: "blob_at ?b (length as) = Some (of_nat (length n))" by (simp add: x setting_bytes_def)
  have nm: "bytes_at ?b (length as + 1) (length n) = Some n"
    using bytes_at_shift [of "as @ [of_nat (length n)]" "n @ t # value_bytes t d @ settings_bytes xs @ 0 # rest" 0]
    by (simp add: x setting_bytes_def bytes_at_here)
  show ?case
  proof (cases "n = name")
    case True
    then show ?thesis
      using at nm n by (simp add: find_setting.simps [of _ _ "length as"] x)
  next
    case False
    have "find_setting ?b name (length as) = find_setting ?b name (length as + length (setting_bytes x))"
      using at nm n False next_setting_here [OF ok, of as "settings_bytes xs @ 0 # rest"]
      by (cases "length n = length name") (simp_all add: find_setting.simps [of _ _ "length as"])
    also have "\<dots> = Some (length (as @ setting_bytes x) + length (settings_bytes (upto_name name xs)))"
      using Cons.IH [of "as @ setting_bytes x"] Cons.prems by simp
    finally show ?thesis using False x by simp
  qed
qed

lemma settings_end_here:
  assumes "\<forall>x \<in> set xs. setting_ok x"
  shows "settings_end (as @ settings_bytes xs @ 0 # rest) (length as) = Some (length as + length (settings_bytes xs))"
  using assms
proof (induction xs arbitrary: as)
  case Nil
  show ?case by (simp add: settings_end.simps [of _ "length as"])
next
  case (Cons x xs)
  let ?b = "as @ setting_bytes x @ settings_bytes xs @ 0 # rest"
  have ok: "setting_ok x" using Cons.prems by simp
  obtain n t d where x: "x = (n, t, d)" by (cases x)
  have "(of_nat (length n) :: u8) \<noteq> 0" using ok x by (auto simp: setting_ok_def unat_of_nat word_unat_eq_iff)
  then have "settings_end ?b (length as) = settings_end ?b (length as + length (setting_bytes x))"
    using next_setting_here [OF ok, of as "settings_bytes xs @ 0 # rest"]
    by (simp add: settings_end.simps [of _ "length as"]) (simp add: x setting_bytes_def)
  then show ?case using Cons.IH [of "as @ setting_bytes x"] Cons.prems by simp
qed

lemma upto_name_absent: "name \<notin> fst ` set xs \<Longrightarrow> upto_name name xs = xs"
  by (auto simp: takeWhile_eq_all_conv image_iff)

lemma upto_name_split: "name \<notin> fst ` set as \<Longrightarrow> fst x = name \<Longrightarrow> upto_name name (as @ x # bs) = as"
  by (induction as) (simp_all, metis)

text \<open>The settings of a blob, by whether there is one of a name.\<close>

lemma find_setting_cases:
  assumes "blob_rep b xs"
  obtains (absent) rest where "name \<notin> fst ` set xs" and "b = settings_bytes xs @ 0 # rest"
      and "find_setting b name 0 = Some (length (settings_bytes xs))"
      and "blob_at b (length (settings_bytes xs)) = Some 0"
  | (present) as t d bs rest where "xs = as @ (name, t, d) # bs" and "name \<notin> fst ` set (as @ bs)"
      and "b = settings_bytes as @ setting_bytes (name, t, d) @ settings_bytes bs @ 0 # rest"
      and "find_setting b name 0 = Some (length (settings_bytes as))"
      and "blob_at b (length (settings_bytes as)) = Some (of_nat (length name))"
      and "(of_nat (length name) :: u8) \<noteq> 0" and "setting_ok (name, t, d)"
proof -
  obtain rest where b: "b = settings_bytes xs @ 0 # rest" and ok: "\<forall>x \<in> set xs. setting_ok x" and d: "distinct (map fst xs)"
    using assms by (auto simp: blob_rep_def)
  have f: "find_setting b name 0 = Some (length (settings_bytes (upto_name name xs)))"
    using find_setting_here [OF ok, of "[]" rest name] b by simp
  show ?thesis
  proof (cases "name \<in> fst ` set xs")
    case True
    then obtain as x bs where x: "xs = as @ x # bs" "fst x = name" by (auto dest: split_list)
    then have n: "name \<notin> fst ` set (as @ bs)" using d by auto
    obtain t v where v: "x = (name, t, v)" using x(2) by (cases x) auto
    have o1: "setting_ok (name, t, v)" using ok x v by simp
    then have "(of_nat (length name) :: u8) \<noteq> 0" by (auto simp: setting_ok_def unat_of_nat word_unat_eq_iff)
    moreover have "upto_name name xs = as" using upto_name_split [of name as x bs] n x by auto
    ultimately show ?thesis
      using present [of as t v bs rest] x v n f b o1 by (simp add: setting_bytes_def)
  next
    case False
    then show ?thesis using absent [of rest] f b upto_name_absent [OF False] by simp
  qed
qed

section \<open>Taking a setting out\<close>

lemma cut_blob_length:
  assumes "at \<le> e" and "e < length b"
  shows "length (cut_blob raw ofs b at n e) = length b"
  using assms by (simp add: cut_blob_def)

lemma cut_blob_here:
  assumes "b = as @ x @ bs @ 0 # rest"
  obtains rest' where "cut_blob raw ofs b (length as) (length x) (length as + length x + length bs) = as @ bs @ 0 # rest'"
proof -
  let ?i = "length as" and ?n = "length x" and ?e = "length as + length x + length bs"
  define f where "f = (\<lambda>k. if k < length b then b ! k else raw (ofs + size_settings + int k))"
  have "map f [?i + ?n ..< ?e + 1] = bs @ [0]"
  proof (rule nth_equalityI)
    fix k
    assume "k < length (map f [?i + ?n ..< ?e + 1])"
    then have k: "k < length bs + 1" by simp
    then have "?i + ?n + k < length b" using assms by simp
    then have "f (?i + ?n + k) = (bs @ [0]) ! k"
      using k assms by (auto simp: f_def nth_append)
    moreover have "map f [?i + ?n ..< ?e + 1] ! k = f (?i + ?n + k)" using k by (subst nth_map) (simp_all del: upt_Suc)
    ultimately show "map f [?i + ?n ..< ?e + 1] ! k = (bs @ [0]) ! k" by simp
  qed simp
  moreover have "[?i + ?n ..< ?e + 1 + ?n] = [?i + ?n ..< ?e + 1] @ [?e + 1 ..< ?e + 1 + ?n]"
    using upt_add_eq_append [of "?i + ?n" "?e + 1" ?n] by simp
  ultimately have "map f [?i + ?n ..< ?e + 1 + ?n] = bs @ 0 # map f [?e + 1 ..< ?e + 1 + ?n]" by simp
  moreover have "take ?i b = as" using assms by simp
  ultimately show ?thesis
    using that [of "map f [?e + 1 ..< ?e + 1 + ?n] @ drop (?e + 1) b"] by (simp add: cut_blob_def f_def)
qed

section \<open>Values\<close>

definition value_type :: "u8 \<Rightarrow> bool" where
  "value_type t \<longleftrightarrow> t = DBVT_BYTE \<or> t = DBVT_WORD \<or> t = DBVT_DWORD \<or> is_string t \<or> is_binary t"

definition value_data :: "DBVARIANT \<Rightarrow> bytes option" where
  "value_data v =
     (if dv_type v = DBVT_BYTE then Some [ucast (dv_val v)]
      else if dv_type v = DBVT_WORD then Some (word_bytes (ucast (dv_val v)))
      else if dv_type v = DBVT_DWORD then Some (dword_bytes (dv_val v))
      else do { m \<leftarrow> dv_mem v; bytes_at m 0 (unat (dv_len v)) })"

lemmas type_defs = DBVT_DELETED_def DBVT_BYTE_def DBVT_WORD_def DBVT_DWORD_def DBVT_BYTE_HIDDEN_def
  DBVT_WCHAR_def DBVT_ASCIIZ_def DBVT_UTF8_def DBVT_BLOB_def DBVT_ENCRYPTED_def DBVTF_VARIABLELENGTH_def

lemma bytes_at_length: "bytes_at b i n = Some d \<Longrightarrow> length d = n"
  by (auto simp: bytes_at_def split: if_splits)

lemma variable_types: "value_type t \<Longrightarrow> variable t \<longleftrightarrow> is_string t \<or> is_binary t"
  by (auto simp: value_type_def is_string_def is_binary_def type_defs)

lemma value_data_ok:
  assumes "value_type (dv_type v)" and "value_data v = Some d"
  shows "if variable (dv_type v) then length d < 65536 else length d = unat (dv_type v)"
    and "length (value_bytes (dv_type v) d) = value_size v"
    and "\<exists>parts. value_parts v = Some parts \<and> concat parts = value_bytes (dv_type v) d"
    and "variable (dv_type v) \<Longrightarrow> value_parts v = Some [word_bytes (dv_len v), d] \<and> length d = unat (dv_len v)"
    and "\<not> variable (dv_type v) \<Longrightarrow> value_parts v = Some [d]"
proof -
  have len: "variable (dv_type v) \<Longrightarrow> length d = unat (dv_len v)"
    using assms by (auto simp: value_data_def value_type_def type_defs is_string_def is_binary_def split: bind_splits dest: bytes_at_length)
  have num: "\<not> variable (dv_type v) \<Longrightarrow> length d = unat (dv_type v)"
    using assms by (auto simp: value_data_def value_type_def type_defs is_string_def is_binary_def word_bytes_def dword_bytes_def)
  show "if variable (dv_type v) then length d < 65536 else length d = unat (dv_type v)"
    using len num unsigned_less [of "dv_len v", where ?'a = nat] by auto
  show p: "variable (dv_type v) \<Longrightarrow> value_parts v = Some [word_bytes (dv_len v), d] \<and> length d = unat (dv_len v)"
    using assms len by (auto simp: value_data_def value_parts_def value_type_def type_defs is_string_def is_binary_def split: bind_splits)
  show q: "\<not> variable (dv_type v) \<Longrightarrow> value_parts v = Some [d]"
    using assms by (auto simp: value_data_def value_parts_def value_type_def type_defs is_string_def is_binary_def)
  show "length (value_bytes (dv_type v) d) = value_size v"
    using len num variable_types [OF assms(1)] by (auto simp: value_bytes_def value_size_def)
  show "\<exists>parts. value_parts v = Some parts \<and> concat parts = value_bytes (dv_type v) d"
    using p q len by (cases "variable (dv_type v)") (auto simp: value_bytes_def)
qed

end
