(* ===== verification/DbGroups.thy ===== *)
theory DbGroups imports DbNames DbBlob begin

text \<open>
  The groups of settings of a contact: a chain in the file, of different modules, each group a
  blob of settings.  The chains of different contacts have no group in common.
\<close>

type_synonym group = "int \<times> DBContactSettings"

primrec settings_chain :: "(int \<Rightarrow> dbobj option) \<Rightarrow> int \<Rightarrow> group list \<Rightarrow> bool" where
  "settings_chain h f [] \<longleftrightarrow> f = 0"
| "settings_chain h f (x # xs) \<longleftrightarrow>
     f = fst x \<and> h (fst x) = Some (ObjSettings (snd x)) \<and> settings_chain h (st_ofsNext (snd x)) xs"

abbreviation module_of :: "group \<Rightarrow> int" where "module_of x \<equiv> st_ofsModuleName (snd x)"

definition groups_ok :: "(int \<Rightarrow> dbobj option) \<Rightarrow> group list \<Rightarrow> bool" where
  "groups_ok h gs \<longleftrightarrow>
     distinct (map fst gs) \<and> distinct (map module_of gs) \<and>
     (\<forall>g \<in> set gs. (\<exists>xs. blob_rep (st_blob (snd g)) xs) \<and> (\<exists>m. h (module_of g) = Some (ObjModule m)))"

text \<open>\<open>S\<close> has the groups of every contact in \<open>rts\<close>, a set of contacts with their offsets.\<close>

definition contact_settings :: "(int \<Rightarrow> dbobj option) \<Rightarrow> int \<Rightarrow> group list \<Rightarrow> bool" where
  "contact_settings h ofs gs \<longleftrightarrow>
     (\<exists>c. h ofs = Some (ObjContact c) \<and> settings_chain h (dc_ofsFirstSettings c) gs) \<and> groups_ok h gs"

definition settings_rep :: "(int \<Rightarrow> dbobj option) \<Rightarrow> (u32 \<times> int) set \<Rightarrow> (u32 \<Rightarrow> group list) \<Rightarrow> bool" where
  "settings_rep h rts S \<longleftrightarrow>
     (\<forall>(i, ofs) \<in> rts. contact_settings h ofs (S i)) \<and>
     (\<forall>i \<in> fst ` rts. \<forall>j \<in> fst ` rts. i \<noteq> j \<longrightarrow> fst ` set (S i) \<inter> fst ` set (S j) = {})"

lemma settings_chain_object:
  "settings_chain h f xs \<Longrightarrow> x \<in> set xs \<Longrightarrow> h (fst x) = Some (ObjSettings (snd x))"
  by (induction xs arbitrary: f) auto

lemma settings_chain_cong:
  "(\<And>x. x \<in> fst ` set xs \<Longrightarrow> h' x = h x) \<Longrightarrow> settings_chain h' f xs \<longleftrightarrow> settings_chain h f xs"
  by (induction xs arbitrary: f) auto

lemma settings_disjoint:
  "settings_rep h rts S \<Longrightarrow> i \<in> fst ` rts \<Longrightarrow> j \<in> fst ` rts \<Longrightarrow> i \<noteq> j \<Longrightarrow> fst ` set (S i) \<inter> fst ` set (S j) = {}"
  unfolding settings_rep_def by (elim conjE) (drule (1) bspec, drule (1) bspec, drule (1) mp)

lemma settings_rep_object:
  assumes "settings_rep h rts S" and "(i, ofs) \<in> rts" and "x \<in> set (S i)"
  shows "h (fst x) = Some (ObjSettings (snd x))"
  using assms settings_chain_object [of h _ "S i" x] by (fastforce simp: settings_rep_def contact_settings_def)

lemma contact_settingsE:
  assumes "contact_settings h ofs gs" and "h ofs = Some (ObjContact c)"
  shows "settings_chain h (dc_ofsFirstSettings c) gs" and "groups_ok h gs"
  using assms by (auto simp: contact_settings_def)

text \<open>Groups of settings, module names and the first group of every contact are all that counts.\<close>

definition settings_kept :: "(int \<Rightarrow> dbobj option) \<Rightarrow> (int \<Rightarrow> dbobj option) \<Rightarrow> int set \<Rightarrow> bool" where
  "settings_kept h h' ofss \<longleftrightarrow>
     (\<forall>x g. h x = Some (ObjSettings g) \<longrightarrow> h' x = h x) \<and>
     (\<forall>x m. h x = Some (ObjModule m) \<longrightarrow> h' x = h x) \<and>
     (\<forall>x \<in> ofss. \<forall>c. h x = Some (ObjContact c) \<longrightarrow>
        (\<exists>c'. h' x = Some (ObjContact c') \<and> dc_ofsFirstSettings c' = dc_ofsFirstSettings c))"

lemma settings_keptD:
  assumes "settings_kept h h' ofss"
  shows "h x = Some (ObjSettings g) \<Longrightarrow> h' x = h x" and "h x = Some (ObjModule m) \<Longrightarrow> h' x = h x"
    and "y \<in> ofss \<Longrightarrow> h y = Some (ObjContact c) \<Longrightarrow>
      \<exists>c'. h' y = Some (ObjContact c') \<and> dc_ofsFirstSettings c' = dc_ofsFirstSettings c"
  using assms unfolding settings_kept_def by simp_all

lemma settings_keptI:
  assumes "\<And>x g. h x = Some (ObjSettings g) \<Longrightarrow> h' x = h x" and "\<And>x m. h x = Some (ObjModule m) \<Longrightarrow> h' x = h x"
    and "\<And>x c. x \<in> ofss \<Longrightarrow> h x = Some (ObjContact c) \<Longrightarrow>
      \<exists>c'. h' x = Some (ObjContact c') \<and> dc_ofsFirstSettings c' = dc_ofsFirstSettings c"
  shows "settings_kept h h' ofss"
  using assms by (auto simp: settings_kept_def)

lemma contact_settings_cong:
  assumes "contact_settings h ofs gs"
    and "\<And>c. h ofs = Some (ObjContact c) \<Longrightarrow>
      \<exists>c'. h' ofs = Some (ObjContact c') \<and> dc_ofsFirstSettings c' = dc_ofsFirstSettings c"
    and "\<And>x g. x \<in> fst ` set gs \<Longrightarrow> h x = Some (ObjSettings g) \<Longrightarrow> h' x = h x"
    and "\<And>x m. h x = Some (ObjModule m) \<Longrightarrow> h' x = h x"
  shows "contact_settings h' ofs gs"
proof -
  obtain c where c: "h ofs = Some (ObjContact c)" "settings_chain h (dc_ofsFirstSettings c) gs" "groups_ok h gs"
    using assms(1) by (auto simp: contact_settings_def)
  obtain c' where c': "h' ofs = Some (ObjContact c')" "dc_ofsFirstSettings c' = dc_ofsFirstSettings c"
    using assms(2) [OF c(1)] by blast
  have "h' x = h x" if "x \<in> fst ` set gs" for x
    using that settings_chain_object [OF c(2)] assms(3) [OF that] by auto
  then have "settings_chain h' (dc_ofsFirstSettings c') gs" using c(2) unfolding c'(2) by (simp cong: settings_chain_cong)
  moreover have "groups_ok h' gs"
    using c(3) assms(4) unfolding groups_ok_def by metis
  ultimately show ?thesis using c'(1) by (auto simp: contact_settings_def)
qed

lemma contact_settings_kept:
  assumes "contact_settings h ofs gs" and "settings_kept h h' ofss" and "ofs \<in> ofss"
  shows "contact_settings h' ofs gs"
proof (rule contact_settings_cong [OF assms(1)])
  show "\<exists>c'. h' ofs = Some (ObjContact c') \<and> dc_ofsFirstSettings c' = dc_ofsFirstSettings c"
    if "h ofs = Some (ObjContact c)" for c using settings_keptD(3) [OF assms(2,3) that] .
  show "h' x = h x" if "h x = Some (ObjSettings g)" for x g using settings_keptD(1) [OF assms(2) that] .
  show "h' x = h x" if "h x = Some (ObjModule m)" for x m using settings_keptD(2) [OF assms(2) that] .
qed

lemma settings_rep_kept:
  assumes "settings_rep h rts S" and "settings_kept h h' (snd ` rts)"
  shows "settings_rep h' rts S"
  using assms contact_settings_kept [of h _ _ h' "snd ` rts"] unfolding settings_rep_def by force

lemma settings_rep_subset: "settings_rep h rts S \<Longrightarrow> rts' \<subseteq> rts \<Longrightarrow> settings_rep h rts' S"
  unfolding settings_rep_def by blast

lemma settings_rep_new:
  assumes "settings_rep h rts S" and "i \<notin> fst ` rts" and "contact_settings h ofs []"
  shows "settings_rep h (insert (i, ofs) rts) (S(i := []))"
  using assms unfolding settings_rep_def by force

text \<open>Without the contact \<open>i\<close> and its groups.\<close>

lemma settings_rep_remove:
  assumes "settings_rep h rts S" and "rts' \<subseteq> rts" and "i \<in> fst ` rts" and "i \<notin> fst ` rts'"
    and "\<And>x c. x \<in> snd ` rts' \<Longrightarrow> h x = Some (ObjContact c) \<Longrightarrow>
      \<exists>c'. h' x = Some (ObjContact c') \<and> dc_ofsFirstSettings c' = dc_ofsFirstSettings c"
    and "\<And>x g. x \<notin> fst ` set (S i) \<Longrightarrow> h x = Some (ObjSettings g) \<Longrightarrow> h' x = h x"
    and "\<And>x m. h x = Some (ObjModule m) \<Longrightarrow> h' x = h x"
  shows "settings_rep h' rts' S"
  unfolding settings_rep_def
proof (intro conjI ballI impI)
  fix p
  assume p: "p \<in> rts'"
  obtain j ofs where jo: "p = (j, ofs)" by force
  have j: "(j, ofs) \<in> rts" "j \<in> fst ` rts" "j \<noteq> i" "ofs \<in> snd ` rts'"
    using assms(2,4) p jo by force+
  then have cs: "contact_settings h ofs (S j)" and disj: "fst ` set (S j) \<inter> fst ` set (S i) = {}"
    using assms(1,3) unfolding settings_rep_def by blast+
  have "contact_settings h' ofs (S j)"
  proof (rule contact_settings_cong [OF cs])
    show "h' x = h x" if "x \<in> fst ` set (S j)" "h x = Some (ObjSettings g)" for x g
      using assms(6) that disj by blast
    show "h' x = h x" if "h x = Some (ObjModule m)" for x m using assms(7) [OF that] .
    show "\<exists>c'. h' ofs = Some (ObjContact c') \<and> dc_ofsFirstSettings c' = dc_ofsFirstSettings c"
      if "h ofs = Some (ObjContact c)" for c using assms(5) [OF j(4) that] .
  qed
  then show "case p of (j, ofs) \<Rightarrow> contact_settings h' ofs (S j)" using jo by simp
next
  fix a b
  assume ab: "a \<in> fst ` rts'" "b \<in> fst ` rts'" "a \<noteq> b"
  have "fst ` rts' \<subseteq> fst ` rts" using assms(2) by (rule image_mono)
  then have "a \<in> fst ` rts" "b \<in> fst ` rts" using ab by (simp_all only: subsetD)
  then show "fst ` set (S a) \<inter> fst ` set (S b) = {}" by (rule settings_disjoint [OF assms(1) _ _ ab(3)])
qed

section \<open>Deleting the groups of a contact\<close>

lemma delete_settings_chain:
  assumes "settings_chain (m_objs s) f xs" and "distinct (map fst xs)" and "space s"
  obtains t where "delete_settings s f = Some t" and "space t" and "same_but_space s t"
    and "\<And>y. m_objs t y = (if y \<in> fst ` set xs then None else m_objs s y)"
    and "m_lMods t = m_lMods s" and "m_lOfs t = m_lOfs s" and "m_lastmn t = m_lastmn s"
proof -
  have "\<exists>t. delete_settings s f = Some t \<and> space t \<and> same_but_space s t \<and>
      (\<forall>y. m_objs t y = (if y \<in> fst ` set xs then None else m_objs s y)) \<and>
      m_lMods t = m_lMods s \<and> m_lOfs t = m_lOfs s \<and> m_lastmn t = m_lastmn s"
    using assms
  proof (induction xs arbitrary: s f)
    case Nil
    then show ?case using space.R_refl by (auto simp: delete_settings.simps)
  next
    case (Cons x xs)
    have x: "f = fst x" "m_objs s (fst x) = Some (ObjSettings (snd x))" using Cons.prems(1) by auto
    have pos: "0 < fst x" using x(2) space_inside [OF Cons.prems(3)] by blast
    let ?t = "DeleteSpace s (fst x) (size_settings + int (length (st_blob (snd x))))"
    note d = DeleteSpace_spec [OF Cons.prems(3) x(2), of "size_settings + int (length (st_blob (snd x)))"]
    have other: "m_lMods ?t = m_lMods s" "m_lOfs ?t = m_lOfs s" "m_lastmn ?t = m_lastmn s"
      by (simp_all add: DeleteSpace_def Let_def put_header_def)
    have t: "space ?t" "m_objs ?t = (m_objs s)(fst x := None)" "same_but_space s ?t" using d by simp_all
    have "fst x \<notin> fst ` set xs" using Cons.prems(2) by (simp add: image_iff)
    then have "m_objs ?t y = m_objs s y" if "y \<in> fst ` set xs" for y using that unfolding t(2) by (cases "y = fst x") simp_all
    then have ch: "settings_chain (m_objs ?t) (st_ofsNext (snd x)) xs"
      using Cons.prems(1) settings_chain_cong [of xs "m_objs ?t" "m_objs s"] by simp
    have dist: "distinct (map fst xs)" using Cons.prems(2) by simp
    obtain u where u: "delete_settings ?t (st_ofsNext (snd x)) = Some u" "space u" "same_but_space ?t u"
      "\<And>y. m_objs u y = (if y \<in> fst ` set xs then None else m_objs ?t y)"
      "m_lMods u = m_lMods ?t" "m_lOfs u = m_lOfs ?t" "m_lastmn u = m_lastmn ?t"
      using Cons.IH [OF ch dist t(1)] by blast
    have "delete_settings s f = Some u"
      using x pos u(1) by (subst delete_settings.simps) simp
    moreover have "m_objs u y = (if y \<in> fst ` set (x # xs) then None else m_objs s y)" for y
      using u(4) [of y] unfolding t(2) by auto
    moreover have "same_but_space s u" using t(3) u(3) by (rule space.R_trans)
    ultimately show ?case using u(2,5-7) other by auto
  qed
  then show ?thesis using that by blast
qed

end
