(* ===== verification/DbRep.thy ===== *)
theory DbRep imports DbGroups begin

text \<open>
  The invariant of the database: objects do not overlap, every contact of the cache is in the
  file and in the chain of contacts, and the record of a contact describes its events: its own
  chain, or for a subcontact the events it has in the chain of its metacontact; and its groups of
  settings.
\<close>

section \<open>Contacts and their families\<close>

definition lookup :: "DBCachedContact list \<Rightarrow> u32 \<Rightarrow> DBCachedContact option" where
  "lookup ccs i = find (\<lambda>cc. cc_contactID cc = i) ccs"

definition parents :: "DBCachedContact list \<Rightarrow> u32 \<Rightarrow> u32" where
  "parents ccs i = (case lookup ccs i of None \<Rightarrow> 0 | Some cc \<Rightarrow> cc_parentID cc)"

definition own_events :: "(u32 \<Rightarrow> u32) \<Rightarrow> (u32 \<Rightarrow> entry list) \<Rightarrow> u32 \<Rightarrow> entry list" where
  "own_events P H i = (if P i = 0 then H i else [])"

definition events_of :: "(u32 \<Rightarrow> u32) \<Rightarrow> (u32 \<Rightarrow> entry list) \<Rightarrow> u32 \<Rightarrow> entry list" where
  "events_of P H i = (if P i = 0 then H i else filter (\<lambda>x. cid x = i) (H (P i)))"

lemma lookup_Some: "lookup ccs i = Some cc \<Longrightarrow> cc \<in> set ccs \<and> cc_contactID cc = i"
  by (auto simp: lookup_def find_Some_iff)

lemma lookup_None: "lookup ccs i = None \<longleftrightarrow> i \<notin> cc_contactID ` set ccs"
  by (auto simp: lookup_def find_None_iff)

lemma lookup_unique: "distinct (map cc_contactID ccs) \<Longrightarrow> cc \<in> set ccs \<Longrightarrow> lookup ccs (cc_contactID cc) = Some cc"
  by (induction ccs) (auto simp: lookup_def)

lemma parents_in: "distinct (map cc_contactID ccs) \<Longrightarrow> cc \<in> set ccs \<Longrightarrow> parents ccs (cc_contactID cc) = cc_parentID cc"
  by (simp add: parents_def lookup_unique)

lemma parents_out: "i \<notin> cc_contactID ` set ccs \<Longrightarrow> parents ccs i = 0"
  by (simp add: parents_def lookup_None [THEN iffD2])

definition roots :: "CDb3Mmap \<Rightarrow> DBCachedContact list \<Rightarrow> (u32 \<times> int) list" where
  "roots s ccs = (0, dh_ofsUser (m_dbHeader s)) # map (\<lambda>cc. (cc_contactID cc, cc_dwOfsContact cc)) ccs"

lemma lookup_root: "lookup ccs i = Some cc \<Longrightarrow> (i, cc_dwOfsContact cc) \<in> set (roots s ccs)"
  using lookup_Some [of ccs i cc] by (force simp: roots_def)

definition table_ok :: "CDb3Mmap \<Rightarrow> DBCachedContact list \<Rightarrow> bool" where
  "table_ok s ccs \<longleftrightarrow>
     table_rep (NumericKeySortT cc_contactID) (m_lContacts s) ccs \<and>
     distinct (map fst (roots s ccs)) \<and> distinct (map snd (roots s ccs)) \<and>
     (\<forall>cc \<in> set ccs. cc_contactID cc < m_dwMaxContactId s \<and>
        (IsSub cc \<longrightarrow> cc_parentID cc \<in> cc_contactID ` set ccs \<and> parents ccs (cc_parentID cc) = 0))"

lemma table_distinct:
  assumes "table_ok s ccs"
  shows "distinct (map cc_contactID ccs)" "0 \<notin> cc_contactID ` set ccs" "distinct (map cc_dwOfsContact ccs)"
    "dh_ofsUser (m_dbHeader s) \<notin> cc_dwOfsContact ` set ccs"
  using assms by (simp_all add: table_ok_def roots_def comp_def)

lemma GetCachedContact_rep:
  assumes "table_ok s ccs"
  shows "GetCachedContact s i = Some (lookup ccs i)"
proof -
  have rep: "table_rep (NumericKeySortT cc_contactID) (m_lContacts s) ccs" using assms by (simp add: table_ok_def)
  obtain k where k: "LIST_getIndex (m_lContacts s) (Some (contact_key i)) = Some k"
    using numeric_table.getIndex_total [OF rep] .
  have "k = -1 \<longleftrightarrow> i \<notin> cc_contactID ` set ccs"
    using numeric_table.getIndex_absent [OF rep, of "contact_key i"] k by (auto simp: contact_key_def)
  moreover have "k \<noteq> -1 \<Longrightarrow> 0 \<le> k \<and> k < int (length ccs) \<and> cc_contactID (ccs ! nat k) = i"
    using numeric_table.getIndex_present [OF rep k] by (auto simp: contact_key_def split: if_splits)
  ultimately show ?thesis
    using k table_rep_at [OF rep, of k] lookup_unique [OF table_distinct(1) [OF assms], of "ccs ! nat k"]
    by (auto simp: GetCachedContact_def lookup_None [THEN iffD2])
qed

lemma GetContactOffset_rep:
  assumes "table_ok s ccs" and "(i, ofs) \<in> set (roots s ccs)"
  shows "GetContactOffset s i = Some (ofs, if i = 0 then None else lookup ccs i)"
proof (cases "i = 0")
  case True
  then show ?thesis
    using assms table_distinct(2) [OF assms(1)] by (force simp: GetContactOffset_def roots_def)
next
  case False
  then obtain cc where "cc \<in> set ccs" "cc_contactID cc = i" "cc_dwOfsContact cc = ofs"
    using assms(2) by (auto simp: roots_def)
  then show ?thesis
    using False lookup_unique [OF table_distinct(1) [OF assms(1)]]
    by (auto simp: GetContactOffset_def GetCachedContact_rep [OF assms(1)])
qed

lemma root_unique:
  assumes "table_ok s ccs" and "(i, x) \<in> set (roots s ccs)" and "(j, y) \<in> set (roots s ccs)"
  shows "i = j \<longleftrightarrow> x = y"
  using assms eq_key_imp_eq_value [of "roots s ccs" i x y]
    eq_key_imp_eq_value [of "map prod.swap (roots s ccs)" x i j]
  by (force simp: table_ok_def comp_def)

section \<open>The invariant\<close>

abbreviation same_links :: "DBContact \<Rightarrow> DBContact \<Rightarrow> bool" where
  "same_links c' c \<equiv> dc_ofsNext c' = dc_ofsNext c \<and> dc_ofsFirstSettings c' = dc_ofsFirstSettings c"

primrec contact_chain :: "(int \<Rightarrow> dbobj option) \<Rightarrow> int \<Rightarrow> int list \<Rightarrow> bool" where
  "contact_chain h f [] \<longleftrightarrow> f = 0"
| "contact_chain h f (x # xs) \<longleftrightarrow> f = x \<and> (\<exists>c. h x = Some (ObjContact c) \<and> contact_chain h (dc_ofsNext c) xs)"

lemma contact_chain_kept:
  assumes "contact_chain h f xs"
    and "\<And>x c. x \<in> set xs \<Longrightarrow> h x = Some (ObjContact c) \<Longrightarrow> \<exists>c'. h' x = Some (ObjContact c') \<and> dc_ofsNext c' = dc_ofsNext c"
  shows "contact_chain h' f xs"
  using assms by (induction xs arbitrary: f) fastforce+

definition links_ok :: "CDb3Mmap \<Rightarrow> DBCachedContact list \<Rightarrow> bool" where
  "links_ok s ccs \<longleftrightarrow>
     (\<exists>xs. contact_chain (m_objs s) (dh_ofsFirstContact (m_dbHeader s)) xs \<and> distinct xs \<and>
        set xs = cc_dwOfsContact ` set ccs) \<and>
     dh_contactCount (m_dbHeader s) = of_nat (length ccs)"

definition root_ok :: "(u32 \<Rightarrow> u32) \<Rightarrow> (u32 \<Rightarrow> entry list) \<Rightarrow> (int \<Rightarrow> dbobj option) \<Rightarrow> u32 \<Rightarrow> int \<Rightarrow> bool" where
  "root_ok P H h i ofs \<longleftrightarrow>
     (\<exists>c. h ofs = Some (ObjContact c) \<and> record_ok c (own_events P H i) (length (events_of P H i)))"

definition hist_mods :: "(int \<Rightarrow> dbobj option) \<Rightarrow> entry list \<Rightarrow> bool" where
  "hist_mods h xs \<longleftrightarrow> (\<forall>x \<in> set xs. \<exists>m. h (ev_ofsModuleName (snd x)) = Some (ObjModule m))"

definition base_ok :: "CDb3Mmap \<Rightarrow> bool" where
  "base_ok s \<longleftrightarrow> space s \<and> mods_ok s \<and> 0 < m_ChunkSize s \<and> \<not> m_bReadOnly s"

definition db_rep :: "CDb3Mmap \<Rightarrow> DBCachedContact list \<Rightarrow> (u32 \<Rightarrow> entry list) \<Rightarrow> bool" where
  "db_rep s ccs H \<longleftrightarrow>
     base_ok s \<and> table_ok s ccs \<and> links_ok s ccs \<and>
     (\<forall>(i, ofs) \<in> set (roots s ccs).
        root_ok (parents ccs) H (m_objs s) i ofs \<and>
        (parents ccs i = 0 \<longrightarrow> hist_ok (parents ccs) (m_objs s) i (H i) \<and> hist_mods (m_objs s) (H i))) \<and>
     (\<exists>S. settings_rep (m_objs s) (set (roots s ccs)) S)"

lemma db_repD:
  assumes "db_rep s ccs H"
  shows "base_ok s" "space s" "mods_ok s" "0 < m_ChunkSize s" "\<not> m_bReadOnly s" "table_ok s ccs" "links_ok s ccs"
  using assms by (auto simp: db_rep_def base_ok_def)

lemma db_rep_settings:
  assumes "db_rep s ccs H"
  obtains S where "settings_rep (m_objs s) (set (roots s ccs)) S"
  using assms by (auto simp: db_rep_def)

lemma db_rep_root:
  assumes "db_rep s ccs H" and "(i, ofs) \<in> set (roots s ccs)"
  obtains c where "m_objs s ofs = Some (ObjContact c)"
    and "record_ok c (own_events (parents ccs) H i) (length (events_of (parents ccs) H i))"
  using assms by (fastforce simp: db_rep_def root_ok_def)

lemma db_rep_hist:
  assumes "db_rep s ccs H" and "(i, ofs) \<in> set (roots s ccs)" and "parents ccs i = 0"
  shows "hist_ok (parents ccs) (m_objs s) i (H i)" "hist_mods (m_objs s) (H i)"
  using assms by (fastforce simp: db_rep_def)+

text \<open>An event of a history is an event object that belongs to that history only.\<close>

lemma hist_event:
  assumes "db_rep s ccs H" and "(i, ofs) \<in> set (roots s ccs)" and "parents ccs i = 0" and "x \<in> fst ` set (H i)"
  obtains e where "m_objs s x = Some (ObjEvent e)" and "chain_of (parents ccs) (ev_contactID e) = i"
  using hist_object [OF db_rep_hist(1) [OF assms(1-3)] assms(4)] by blast

definition header_same :: "CDb3Mmap \<Rightarrow> CDb3Mmap \<Rightarrow> bool" where
  "header_same s t \<longleftrightarrow>
     dh_ofsUser (m_dbHeader t) = dh_ofsUser (m_dbHeader s) \<and>
     dh_ofsFirstContact (m_dbHeader t) = dh_ofsFirstContact (m_dbHeader s) \<and>
     dh_contactCount (m_dbHeader t) = dh_contactCount (m_dbHeader s) \<and>
     m_lContacts t = m_lContacts s \<and> m_dwMaxContactId t = m_dwMaxContactId s"

lemma same_header: "same_but_space s t \<Longrightarrow> header_same s t"
  using header_fields [of s t] by (simp add: header_same_def)

lemma header_same_roots: "header_same s t \<Longrightarrow> roots t ccs = roots s ccs"
  by (simp add: header_same_def roots_def)

lemma header_same_table: "header_same s t \<Longrightarrow> table_ok t ccs \<longleftrightarrow> table_ok s ccs"
  using header_same_roots [of s t ccs] by (simp add: header_same_def table_ok_def)

text \<open>
  A change of the history of \<open>i\<close>: its record and chain are as they should be, its subcontacts
  have the new counts, everything else is as it was.
\<close>

lemma db_rep_update:
  assumes rep: "db_rep s ccs H" and root: "(i, ofs) \<in> set (roots s ccs)" and own: "parents ccs i = 0"
    and base: "base_ok t" and hd: "header_same s t"
    and c: "m_objs s ofs = Some (ObjContact c)" "m_objs t ofs = Some (ObjContact c')" "dc_ofsNext c' = dc_ofsNext c"
      "dc_ofsFirstSettings c' = dc_ofsFirstSettings c" "record_ok c' xs (length xs)"
    and hist: "hist_ok (parents ccs) (m_objs t) i xs" "hist_mods (m_objs t) xs"
    and subs: "\<And>j y. (j, y) \<in> set (roots s ccs) \<Longrightarrow> parents ccs j \<noteq> 0 \<Longrightarrow> parents ccs j = i \<Longrightarrow>
      \<exists>c. m_objs s y = Some (ObjContact c) \<and>
          m_objs t y = Some (ObjContact (c\<lparr>dc_eventCount := of_nat (length (filter (\<lambda>x. cid x = j) xs))\<rparr>))"
    and rest: "\<And>y. m_objs s y \<noteq> None \<Longrightarrow> y \<noteq> ofs \<Longrightarrow> y \<notin> fst ` set (H i) \<Longrightarrow>
      (\<And>j. (j, y) \<in> set (roots s ccs) \<Longrightarrow> parents ccs j = 0 \<or> parents ccs j \<noteq> i) \<Longrightarrow> m_objs t y = m_objs s y"
  shows "db_rep t ccs (H(i := xs))"
proof -
  let ?P = "parents ccs" and ?H = "H(i := xs)"
  note tab = db_repD(6) [OF rep]
  have ev: "\<exists>e. m_objs s y = Some (ObjEvent e) \<and> chain_of ?P (ev_contactID e) = i" if "y \<in> fst ` set (H i)" for y
    using hist_event [OF rep root own that] by blast
  have events: "m_objs s y = Some (ObjContact c) \<Longrightarrow> y \<notin> fst ` set (H i)" for y c
    using ev [of y] by auto
  have rep_obj: "\<exists>c. m_objs s y = Some (ObjContact c)" if "(j, y) \<in> set (roots s ccs)" for j y
    using db_rep_root [OF rep that] by blast
  have root_same: "root_ok ?P ?H (m_objs t) j y \<and>
      (\<forall>c. m_objs s y = Some (ObjContact c) \<longrightarrow> (\<exists>c'. m_objs t y = Some (ObjContact c') \<and>
        dc_ofsNext c' = dc_ofsNext c \<and> dc_ofsFirstSettings c' = dc_ofsFirstSettings c))"
    if jy: "(j, y) \<in> set (roots s ccs)" for j y
  proof -
    obtain d where d: "m_objs s y = Some (ObjContact d)"
      "record_ok d (own_events ?P H j) (length (events_of ?P H j))"
      using db_rep_root [OF rep jy] .
    consider "j = i" | "j \<noteq> i" "?P j \<noteq> 0" "?P j = i" | "j \<noteq> i" "?P j = 0 \<or> ?P j \<noteq> i" by blast
    then show ?thesis
    proof cases
      case 1
      then have "y = ofs" using root_unique [OF tab jy root] by simp
      then show ?thesis using 1 c own by (simp add: root_ok_def own_events_def events_of_def)
    next
      case 2
      then show ?thesis
        using subs [OF jy 2(2,3)] d by (auto simp: root_ok_def own_events_def events_of_def record_ok_def ends_ok_def)
    next
      case 3
      then have "y \<noteq> ofs" using root_unique [OF tab jy root] by simp
      moreover have "?P k = 0 \<or> ?P k \<noteq> i" if "(k, y) \<in> set (roots s ccs)" for k
        using that root_unique [OF tab jy that] 3(2) by auto
      ultimately have "m_objs t y = m_objs s y" using d events [OF d(1)] by (intro rest) auto
      moreover have "own_events ?P ?H j = own_events ?P H j" "events_of ?P ?H j = events_of ?P H j"
        using 3 by (auto simp: own_events_def events_of_def)
      ultimately show ?thesis using d by (auto simp: root_ok_def)
    qed
  qed
  have other: "m_objs t y = m_objs s y"
    if y: "m_objs s y = Some v" "\<nexists>c. v = ObjContact c" "\<nexists>e. v = ObjEvent e" for y v
  proof -
    have "(j, y) \<notin> set (roots s ccs)" for j using y rep_obj [of j y] by auto
    moreover have "y \<notin> fst ` set (H i)" using y ev [of y] by auto
    ultimately show ?thesis using y c(1) by (intro rest) auto
  qed
  have mods_same: "hist_mods (m_objs t) ys" if "hist_mods (m_objs s) ys" for ys
    using that other by (fastforce simp: hist_mods_def)
  have "settings_kept (m_objs s) (m_objs t) (snd ` set (roots s ccs))"
    by (rule settings_keptI) (use other root_same in fastforce)+
  then have sets: "\<exists>S. settings_rep (m_objs t) (set (roots s ccs)) S"
    using settings_rep_kept db_rep_settings [OF rep] by metis
  have hist_same: "hist_ok ?P (m_objs t) j (?H j) \<and> hist_mods (m_objs t) (?H j)"
    if jy: "(j, y) \<in> set (roots s ccs)" "?P j = 0" for j y
  proof (cases "j = i")
    case False
    have "m_objs t z = m_objs s z" if z: "z \<in> fst ` set (H j)" for z
    proof -
      obtain e where e: "m_objs s z = Some (ObjEvent e)" "chain_of ?P (ev_contactID e) = j"
        using hist_event [OF rep jy z] .
      have "(k, z) \<notin> set (roots s ccs)" for k using e rep_obj [of k z] by auto
      moreover have "z \<notin> fst ` set (H i)" using e False ev [of z] by auto
      ultimately show ?thesis using e c(1) by (intro rest) auto
    qed
    then show ?thesis using hist_kept [OF db_rep_hist(1) [OF rep jy]] mods_same [OF db_rep_hist(2) [OF rep jy]] False
      by simp
  qed (use hist in simp)
  obtain cs where cs: "contact_chain (m_objs s) (dh_ofsFirstContact (m_dbHeader s)) cs" "distinct cs"
    "set cs = cc_dwOfsContact ` set ccs" "dh_contactCount (m_dbHeader s) = of_nat (length ccs)"
    using db_repD(7) [OF rep] by (auto simp: links_ok_def)
  have "contact_chain (m_objs t) (dh_ofsFirstContact (m_dbHeader s)) cs"
  proof (rule contact_chain_kept [OF cs(1)])
    fix x c
    assume x: "x \<in> set cs" "m_objs s x = Some (ObjContact c)"
    then obtain j where "(j, x) \<in> set (roots s ccs)" using cs(3) by (auto simp: roots_def)
    then show "\<exists>c'. m_objs t x = Some (ObjContact c') \<and> dc_ofsNext c' = dc_ofsNext c" using root_same x(2) by fast
  qed
  then have "links_ok t ccs" using cs hd by (auto simp: links_ok_def header_same_def)
  then show ?thesis
    using base tab root_same hist_same sets unfolding db_rep_def header_same_table [OF hd] header_same_roots [OF hd] by blast
qed

end
