(* ===== verification/DbStore.thy ===== *)
theory DbStore imports DbRep begin

text \<open>
  Adding an event with the lock held inserts it by its time into the history of its chain and
  keeps the database in order.
\<close>

section \<open>Objects of the same kind and size\<close>

primrec shape :: "dbobj \<Rightarrow> dbobj" where
  "shape (ObjContact c) = ObjContact zero_contact"
| "shape (ObjEvent e) = ObjEvent (zero_event\<lparr>ev_blob := ev_blob e\<rparr>)"
| "shape (ObjModule m) = ObjModule m"
| "shape (ObjSettings g) = ObjSettings g"

lemma obj_size_shape [simp]: "obj_size (shape v) = obj_size v"
  by (cases v) simp_all

lemma shape_module: "shape v = ObjModule m \<longleftrightarrow> v = ObjModule m"
  by (cases v) auto

definition same_shape :: "(int \<Rightarrow> dbobj option) \<Rightarrow> (int \<Rightarrow> dbobj option) \<Rightarrow> bool" where
  "same_shape h' h \<longleftrightarrow> (\<forall>x. map_option shape (h' x) = map_option shape (h x))"

lemma same_shape_space: "same_shape h' h \<Longrightarrow> space_ok h' e \<longleftrightarrow> space_ok h e"
proof -
  assume a: "same_shape h' h"
  have "map_option obj_size (h' x) = map_option obj_size (h x)" for x
    using arg_cong [OF a [unfolded same_shape_def, rule_format, of x], of "map_option obj_size"]
    by (simp add: option.map_comp comp_def)
  then show ?thesis by (rule space_cong)
qed

lemma same_shape_names: "same_shape h' h \<Longrightarrow> names h' = names h"
proof (rule names_cong)
  fix x m
  assume "same_shape h' h"
  then have eq: "map_option shape (h' x) = map_option shape (h x)" by (simp add: same_shape_def)
  have m: "map_option shape v = Some (ObjModule m) \<longleftrightarrow> v = Some (ObjModule m)" for v
    by (cases v) (simp_all add: shape_module)
  show "h' x = Some (ObjModule m) \<longleftrightarrow> h x = Some (ObjModule m)"
    using m [of "h' x"] m [of "h x"] eq by simp
qed

lemma same_shapeI:
  assumes "\<And>x. h' x = h x \<or>
      (\<exists>c d. h x = Some (ObjContact c) \<and> h' x = Some (ObjContact d)) \<or>
      (\<exists>e f. h x = Some (ObjEvent e) \<and> h' x = Some (ObjEvent f) \<and> ev_blob f = ev_blob e)"
  shows "same_shape h' h"
  unfolding same_shape_def
proof
  fix x
  show "map_option shape (h' x) = map_option shape (h x)" using assms [of x] by (elim disjE exE conjE) simp_all
qed

lemma same_shape_base:
  "base_ok s \<Longrightarrow> same_shape h (m_objs s) \<Longrightarrow> base_ok (s\<lparr>m_objs := h\<rparr>)"
  using same_shape_space [of h "m_objs s"] same_shape_names [of h "m_objs s"]
  by (simp add: base_ok_def mods_ok_def)

lemma chains_shape:
  assumes "chain h p xs n" and "chain h' p' xs n'" and "x \<in> fst ` set xs"
  shows "\<exists>e f. h x = Some (ObjEvent e) \<and> h' x = Some (ObjEvent f) \<and> ev_blob f = ev_blob e"
proof -
  obtain y where y: "y \<in> set xs" "x = fst y" using assms(3) by auto
  show ?thesis using chain_object [OF assms(1) y(1)] chain_object [OF assms(2) y(1)] y(2) by auto
qed

section \<open>Adding an event\<close>

lemma table_room:
  assumes "base_ok s" and "0 \<le> n" and "file_end s + n < 4294967296"
  obtains t where "CreateNewSpace s n = Some (file_end s, t)" and "base_ok t" and "same_but_space s t"
    and "m_objs t = m_objs s" and "file_end t = file_end s + n"
proof -
  have s: "space s" "mods_ok s" "0 < m_ChunkSize s" "\<not> m_bReadOnly s" using assms(1) by (auto simp: base_ok_def)
  obtain t where t: "CreateNewSpace s n = Some (file_end s, t)" "m_lMods t = m_lMods s" "m_lOfs t = m_lOfs s"
    "m_lastmn t = m_lastmn s"
    using CreateNewSpace_total [OF s(3) assms(3)] .
  note sp = CreateNewSpace_spec [OF t(1)]
  have "space t" using space_more [OF s(1), of "file_end t"] sp assms(2,3) by simp
  moreover have "mods_ok t" using s(2) mods_ok_cong [of t s] t sp(4) by simp
  moreover have "0 < m_ChunkSize t" "\<not> m_bReadOnly t" using s sp(5) by (simp_all add: same_but_space_def)
  ultimately show ?thesis using that t(1) sp by (simp add: base_ok_def)
qed

lemma module_room:
  assumes "base_ok s" and "file_end s + int (length nm) + size_module < 2147483648"
  obtains x t m where "GetModuleNameOfs s nm = Some (x, t)" and "base_ok t" and "same_but_space s t"
    and "m_objs t x = Some (ObjModule m)" and "mn_name m = c_str nm"
    and "file_end s \<le> file_end t" and "file_end t \<le> file_end s + int (length nm) + size_module"
    and "m_objs t = m_objs s \<or> (\<exists>m. m_objs t = (m_objs s)(file_end s \<mapsto> ObjModule m))"
proof -
  have s: "space s" "mods_ok s" "0 < m_ChunkSize s" "\<not> m_bReadOnly s" using assms(1) by (auto simp: base_ok_def)
  obtain x t m where t: "GetModuleNameOfs s nm = Some (x, t)" "mods_ok t" "m_objs t x = Some (ObjModule m)"
    "mn_name m = c_str nm" "file_end t \<le> file_end s + int (length nm) + size_module"
    using GetModuleNameOfs_total [OF s(1,2,4,3) assms(2)] .
  note sp = GetModuleNameOfs_spec [OF s(1) t(1)]
  have "base_ok t" using t(2) sp(1,3) s by (simp add: base_ok_def same_but_space_def)
  then show ?thesis using that t sp by blast
qed

text \<open>The contact that is the subcontact of an event, as \<open>event_target\<close> has it.\<close>

definition sub_of :: "(u32 \<Rightarrow> u32) \<Rightarrow> u32 \<Rightarrow> u32 option" where
  "sub_of P i = (if P i = 0 then None else Some i)"

definition new_event :: "u32 \<Rightarrow> int \<Rightarrow> DBEVENTINFO \<Rightarrow> bytes \<Rightarrow> u32 \<Rightarrow> DBEvent" where
  "new_event contactID ofsModule di blob flags =
     \<lparr>ev_signature = DBEVENT_SIGNATURE, ev_contactID = contactID, ev_ofsPrev = 0, ev_ofsNext = 0,
      ev_ofsModuleName = ofsModule, ev_timestamp = getUnixtime di, ev_flags = flags,
      ev_wEventType = ucast (di_eventType di), ev_blob = blob\<rparr>"

lemma new_event_fields [simp]:
  "ev_signature (new_event i m di b f) = DBEVENT_SIGNATURE" "ev_contactID (new_event i m di b f) = i"
  "ev_ofsPrev (new_event i m di b f) = 0" "ev_ofsNext (new_event i m di b f) = 0"
  "ev_ofsModuleName (new_event i m di b f) = m" "ev_timestamp (new_event i m di b f) = getUnixtime di"
  "ev_flags (new_event i m di b f) = f" "ev_blob (new_event i m di b f) = b"
  by (simp_all add: new_event_def)

lemma insert_event_length [simp]: "length (insert_event x xs) = Suc (length xs)"
  by (simp add: insert_event_def) (metis length_append takeWhile_dropWhile_id)

lemma insert_event_set [simp]: "set (insert_event x xs) = insert x (set xs)"
  by (simp add: insert_event_def) (metis set_append takeWhile_dropWhile_id)

lemma insert_event_filter:
  "length (filter f (insert_event x xs)) = length (filter f xs) + (if f x then 1 else 0)"
proof -
  have "length (filter f xs) = length (filter f (takeWhile (\<lambda>y. ts y \<le> ts x) xs)) + length (filter f (dropWhile (\<lambda>y. ts y \<le> ts x) xs))"
    by (metis filter_append length_append takeWhile_dropWhile_id)
  then show ?thesis by (simp add: insert_event_def)
qed

lemma insert_event_distinct:
  assumes "fst x \<notin> fst ` set xs" and "distinct (map fst xs)"
  shows "distinct (map fst (insert_event x xs))"
proof -
  let ?as = "takeWhile (\<lambda>y. ts y \<le> ts x) xs" and ?bs = "dropWhile (\<lambda>y. ts y \<le> ts x) xs"
  have "set xs = set ?as \<union> set ?bs" by (metis set_append takeWhile_dropWhile_id)
  then have "fst x \<notin> fst ` set ?as" "fst x \<notin> fst ` set ?bs" using assms(1) by (auto simp: image_Un)
  moreover have "distinct (map fst ?as @ map fst ?bs)" using assms(2) by (simp flip: map_append)
  ultimately show ?thesis by (auto simp: insert_event_def)
qed

lemma insert_event_ends:
  "hd (map fst (insert_event x xs) @ [0]) = hd (map fst (takeWhile (\<lambda>y. ts y \<le> ts x) xs) @ [fst x])"
  "last (0 # map fst (insert_event x xs)) = last (fst x # map fst (dropWhile (\<lambda>y. ts y \<le> ts x) xs))"
  by (simp_all add: insert_event_def hd_append)

lemma note_unread_fields [simp]:
  "dc_signature (note_unread c f t x) = dc_signature c" "dc_ofsNext (note_unread c f t x) = dc_ofsNext c"
  "dc_ofsFirstSettings (note_unread c f t x) = dc_ofsFirstSettings c"
  "dc_eventCount (note_unread c f t x) = dc_eventCount c"
  "dc_ofsFirstEvent (note_unread c f t x) = dc_ofsFirstEvent c" "dc_ofsLastEvent (note_unread c f t x) = dc_ofsLastEvent c"
  "dc_ofsFirstUnread (note_unread c f t x) =
     (if f AND MARKED_READ = 0 \<and> (t < dc_tsFirstUnread c \<or> dc_tsFirstUnread c = 0) then x else dc_ofsFirstUnread c)"
  "dc_tsFirstUnread (note_unread c f t x) =
     (if f AND MARKED_READ = 0 \<and> (t < dc_tsFirstUnread c \<or> dc_tsFirstUnread c = 0) then t else dc_tsFirstUnread c)"
  by (auto simp: note_unread_def)

lemma set_ends_fields [simp]:
  "dc_signature (set_ends c f l) = dc_signature c" "dc_ofsNext (set_ends c f l) = dc_ofsNext c"
  "dc_ofsFirstSettings (set_ends c f l) = dc_ofsFirstSettings c"
  "dc_ofsFirstUnread (set_ends c f l) = dc_ofsFirstUnread c" "dc_tsFirstUnread (set_ends c f l) = dc_tsFirstUnread c"
  by (simp_all add: set_ends_def)

lemma record_insert:
  assumes "record_ok c xs n" and "sorted (map ts xs)" and "\<forall>y \<in> set xs. entry_ok y"
    and c': "c' = note_unread ((set_ends c (hd (map fst (takeWhile (\<lambda>y. ts y \<le> ts x) xs) @ [fst x]))
      (last (fst x # map fst (dropWhile (\<lambda>y. ts y \<le> ts x) xs))))\<lparr>dc_eventCount := dc_eventCount c + 1\<rparr>)
      (ev_flags (snd x)) (ts x) (fst x)"
  shows "record_ok c' (insert_event x xs) (Suc n)" and "dc_ofsNext c' = dc_ofsNext c"
    and "dc_ofsFirstSettings c' = dc_ofsFirstSettings c"
proof -
  have nz: "\<forall>y \<in> set xs. ts y \<noteq> 0" using assms(3) by (auto simp: entry_ok_def)
  have u: "first_unread xs = (dc_ofsFirstUnread c, dc_tsFirstUnread c)" using assms(1) by (simp add: record_ok_def)
  have "(dc_ofsFirstUnread c', dc_tsFirstUnread c') = first_unread (insert_event x xs)"
    unfolding first_unread_insert [OF assms(2) nz] u c' by (auto simp: markedRead_def)
  moreover have "ends_ok c' (insert_event x xs)"
    unfolding ends_ok_def insert_event_ends c' by (simp only: note_unread_fields) simp
  moreover have "dc_signature c' = DBCONTACT_SIGNATURE" "dc_eventCount c' = of_nat (Suc n)"
    using assms(1) unfolding c' record_ok_def by simp_all
  ultimately show "record_ok c' (insert_event x xs) (Suc n)" by (simp add: record_ok_def)
  show "dc_ofsNext c' = dc_ofsNext c" "dc_ofsFirstSettings c' = dc_ofsFirstSettings c" unfolding c' by simp_all
qed

lemma count_sub_rep:
  assumes rep: "db_rep s ccs H" and j: "j \<in> fst ` set (roots s ccs)" and hd: "header_same s s3"
    and kept: "\<And>y c. m_objs s y = Some (ObjContact c) \<Longrightarrow> m_objs s3 y = Some (ObjContact c)"
  obtains h where "count_sub s3 (sub_of (parents ccs) j) = Some (s3\<lparr>m_objs := h\<rparr>)"
    and "\<And>y. (j, y) \<notin> set (roots s ccs) \<or> parents ccs j = 0 \<Longrightarrow> h y = m_objs s3 y"
    and "\<And>y. (j, y) \<in> set (roots s ccs) \<Longrightarrow> parents ccs j \<noteq> 0 \<Longrightarrow>
      \<exists>c. m_objs s y = Some (ObjContact c) \<and> h y = Some (ObjContact (c\<lparr>dc_eventCount := dc_eventCount c + 1\<rparr>))"
proof (cases "parents ccs j = 0")
  case True
  then show ?thesis using that [of "m_objs s3"] by (simp add: count_sub_def sub_of_def)
next
  case False
  note tab = db_repD(6) [OF rep]
  obtain cc where cc: "lookup ccs j = Some cc" using False by (auto simp: parents_def split: option.splits)
  let ?y = "cc_dwOfsContact cc"
  have y: "(j, ?y) \<in> set (roots s ccs)" by (rule lookup_root [OF cc])
  obtain c where c: "m_objs s ?y = Some (ObjContact c)" using db_rep_root [OF rep y] by blast
  have "table_ok s3 ccs" using tab header_same_table [OF hd] by simp
  then have "GetCachedContact s3 j = Some (Some cc)" using cc by (simp add: GetCachedContact_rep)
  moreover have "0 < ?y" using c space_inside [OF db_repD(2) [OF rep]] by blast
  then have "DBRead_contact s3 ?y = Some c" using kept [OF c] by (simp add: DBRead_contact_def)
  ultimately have "count_sub s3 (sub_of (parents ccs) j) =
      Some (s3\<lparr>m_objs := (m_objs s3)(?y \<mapsto> ObjContact (c\<lparr>dc_eventCount := dc_eventCount c + 1\<rparr>))\<rparr>)"
    using False by (simp add: count_sub_def sub_of_def DBWrite_def)
  then show ?thesis
    using that c y root_unique [OF tab y] False by fastforce
qed

lemma store_event_rep:
  assumes rep: "db_rep s ccs H" and root: "(i, ofs) \<in> set (roots s ccs)" and own: "parents ccs i = 0"
    and dbc: "m_objs s ofs = Some (ObjContact dbc)"
    and j: "j \<in> fst ` set (roots s ccs)" and ji: "chain_of (parents ccs) j = i"
    and tsd: "getUnixtime di \<noteq> 0"
    and room: "file_end s + size_event + int (length blob) + int (length (di_szModule di)) + size_module < 2147483648"
  obtains t m mn where "store_event E s ofs dbc j (sub_of (parents ccs) j) di blob flags = Some (file_end s, t)"
    and "db_rep t ccs (H(i := insert_event (file_end s, new_event j m di blob flags) (H i)))"
    and "m_objs t m = Some (ObjModule mn)" and "mn_name mn = c_str (di_szModule di)" and "same_but_space s t"
    and "file_end t \<le> file_end s + size_event + int (length blob) + int (length (di_szModule di)) + size_module"
    and "\<And>y e. m_objs t y = Some (ObjEvent e) \<Longrightarrow> y = file_end s \<or> (\<exists>e. m_objs s y = Some (ObjEvent e))"
proof -
  let ?P = "parents ccs" and ?x = "file_end s" and ?ts = "getUnixtime di"
  let ?as = "takeWhile (\<lambda>y. ts y \<le> ?ts) (H i)" and ?bs = "dropWhile (\<lambda>y. ts y \<le> ?ts) (H i)"
  note base = db_repD(1) [OF rep] and sp = db_repD(2) [OF rep] and tab = db_repD(6) [OF rep]
  have room1: "file_end s + (size_event + int (length blob)) < 4294967296" "0 \<le> size_event + int (length blob)"
    using room by (simp_all add: size_defs)
  obtain s1 where s1: "CreateNewSpace s (size_event + int (length blob)) = Some (?x, s1)" "base_ok s1"
    "same_but_space s s1" "m_objs s1 = m_objs s" "file_end s1 = ?x + (size_event + int (length blob))"
    using table_room [OF base room1(2,1)] .
  have room2: "file_end s1 + int (length (di_szModule di)) + size_module < 2147483648"
    using s1(5) room by simp
  obtain m s2 mn where s2: "GetModuleNameOfs s1 (di_szModule di) = Some (m, s2)" "base_ok s2" "same_but_space s1 s2"
    "m_objs s2 m = Some (ObjModule mn)" "mn_name mn = c_str (di_szModule di)" "file_end s1 \<le> file_end s2"
    "file_end s2 \<le> file_end s1 + int (length (di_szModule di)) + size_module"
    "m_objs s2 = m_objs s1 \<or> (\<exists>m. m_objs s2 = (m_objs s1)(file_end s1 \<mapsto> ObjModule m))"
    using module_room [OF s1(2) room2] .
  have same: "same_but_space s s2" using s1(3) s2(3) space.R_trans by blast
  have x: "0 < ?x" "?x < file_end s1" "m_objs s ?x = None" using space_end_free(1) [OF sp] sp s1(5)
    by (auto simp: space_ok_def size_defs)
  have free: "m_objs s (file_end s1) = None"
    using space_inside [OF sp, of "file_end s1"] x(2) by (cases "m_objs s (file_end s1)") auto
  have old: "m_objs s y = Some v \<Longrightarrow> m_objs s2 y = Some v" for y v
    using s2(8) s1(4) free by auto
  have new: "m_objs s2 ?x = None" using s2(8) s1(4) x by auto
  have hist: "hist_ok ?P (m_objs s) i (H i)" "hist_mods (m_objs s) (H i)" by (rule db_rep_hist [OF rep root own])+
  have ent: "\<forall>y \<in> set (H i). entry_ok y" and dist: "distinct (map fst (H i))" and sorted: "sorted (map ts (H i))"
    and ch: "chain (m_objs s) 0 (H i) 0" using hist(1) by (auto simp: hist_ok_def)
  have ev: "\<exists>e. m_objs s y = Some (ObjEvent e)" if "y \<in> fst ` set (H i)" for y
    using hist_event [OF rep root own that] by blast
  have split: "?as @ ?bs = H i" by simp
  have ch2: "chain (m_objs s2) 0 (?as @ ?bs) 0"
    unfolding split using ch by (subst chain_cong [of _ _ "m_objs s"]) (use ev old in fastforce)+
  have rec: "record_ok dbc (H i) (length (H i))"
    using db_rep_root [OF rep root] dbc own by (force simp: own_events_def events_of_def)
  have count: "dc_eventCount dbc = 0 \<longleftrightarrow> ?as @ ?bs = []"
    using rec count_zero [OF hist_length [OF sp hist(1)]] by (simp add: record_ok_def)
  have ends: "ends_ok dbc (?as @ ?bs)" using rec by (simp add: record_ok_def)
  obtain h where h: "link_event s2 dbc ?ts ?x = Some (last (0 # map fst ?as), hd (map fst ?bs @ [0]),
      set_ends dbc (hd (map fst ?as @ [?x])) (last (?x # map fst ?bs)), s2\<lparr>m_objs := h\<rparr>)"
    "chain h 0 ?as ?x" "chain h ?x ?bs 0" "\<And>y. y \<notin> fst ` set (H i) \<Longrightarrow> h y = m_objs s2 y"
    using link_event_chain [OF ch2 _ _ ends count, of ?ts ?x] ent dist sorted_parts [OF sorted, of ?ts] by auto
  let ?s3 = "s2\<lparr>m_objs := h\<rparr>"
  have hdr: "header_same s s2" by (rule same_header [OF same])
  have hdr3: "header_same s ?s3" using hdr by (simp add: header_same_def)
  have contact: "m_objs s y = Some (ObjContact c) \<Longrightarrow> y \<notin> fst ` set (H i) \<and> h y = Some (ObjContact c)" for y c
    using ev [of y] h(4) [of y] old [of y] by auto
  have rootc: "\<exists>c. m_objs s y = Some (ObjContact c)" if "(k, y) \<in> set (roots s ccs)" for k y
    using db_rep_root [OF rep that] by blast
  obtain h4 where h4: "count_sub ?s3 (sub_of ?P j) = Some (?s3\<lparr>m_objs := h4\<rparr>)"
    "\<And>y. (j, y) \<notin> set (roots s ccs) \<or> ?P j = 0 \<Longrightarrow> h4 y = h y"
    "\<And>y. (j, y) \<in> set (roots s ccs) \<Longrightarrow> ?P j \<noteq> 0 \<Longrightarrow>
      \<exists>c. m_objs s y = Some (ObjContact c) \<and> h4 y = Some (ObjContact (c\<lparr>dc_eventCount := dc_eventCount c + 1\<rparr>))"
    using count_sub_rep [OF rep j hdr3] contact by auto
  let ?n = "new_event j m di blob flags"
  let ?c = "note_unread ((set_ends dbc (hd (map fst ?as @ [?x])) (last (?x # map fst ?bs)))
    \<lparr>dc_eventCount := dc_eventCount dbc + 1\<rparr>) flags ?ts ?x"
  define e where "e = with_links ?n (last (0 # map fst ?as)) (hd (map fst ?bs @ [0]))"
  define g where "g = h4(ofs \<mapsto> ObjContact ?c, ?x \<mapsto> ObjEvent e)"
  let ?t = "s2\<lparr>m_objs := g\<rparr>"
  have st: "store_event E s ofs dbc j (sub_of ?P j) di blob flags = Some (?x, ?t)"
    using s1(1) s2(1) h(1) h4(1) by (simp add: store_event_def Let_def DBWrite_def new_event_def with_links_def g_def e_def)
  have ne: "?x \<noteq> ofs" "?x \<notin> fst ` set (H i)" "(k, ?x) \<notin> set (roots s ccs)" for k
    using x(3) dbc ev [of ?x] rootc [of k ?x] by auto
  have g_x: "g ?x = Some (ObjEvent e)" and g_ofs: "g ofs = Some (ObjContact ?c)"
    using ne(1) by (simp_all add: g_def)
  have g_ev: "g y = h y" if y: "y \<in> fst ` set (H i)" for y
  proof -
    have "y \<noteq> ?x" "y \<noteq> ofs" "(j, y) \<notin> set (roots s ccs)"
      using y ne(2) contact [OF dbc] contact [of y] rootc [of j y] by blast+
    then show ?thesis using h4(2) [of y] by (simp add: g_def)
  qed
  have g_rest: "g y = m_objs s2 y"
    if "y \<notin> fst ` set (H i)" "y \<noteq> ?x" "y \<noteq> ofs" "(j, y) \<notin> set (roots s ccs) \<or> ?P j = 0" for y
    using that h4(2) [of y] h(4) [of y] by (simp add: g_def)
  have g_sub: "\<exists>c. m_objs s y = Some (ObjContact c) \<and> g y = Some (ObjContact (c\<lparr>dc_eventCount := dc_eventCount c + 1\<rparr>))"
    if "(j, y) \<in> set (roots s ccs)" "?P j \<noteq> 0" for y
  proof -
    have "y \<noteq> ofs" "y \<noteq> ?x" using that own ne(3) root_unique [OF tab that(1) root] by auto
    then show ?thesis using h4(3) [OF that] by (simp add: g_def)
  qed
  have base_n: "base_ok (s2\<lparr>m_objs := (m_objs s2)(?x \<mapsto> ObjEvent ?n)\<rparr>)"
  proof -
    have "free_at (m_objs s2) ?x (obj_size (ObjEvent ?n))"
      unfolding free_at_def using s2(8) s1(4,5) space_end_free(2) [OF sp, of ?x] sp
      by (auto simp: free_at_def space_ok_def)
    then have "space_ok ((m_objs s2)(?x \<mapsto> ObjEvent ?n)) (file_end s2)"
      using s2(2,6) s1(5) sp by (intro space_put) (auto simp: base_ok_def space_ok_def)
    moreover have "names ((m_objs s2)(?x \<mapsto> ObjEvent ?n)) = names (m_objs s2)"
      using new by (intro names_cong) auto
    ultimately show ?thesis using s2(2) by (simp add: base_ok_def mods_ok_def)
  qed
  have shape: "same_shape g ((m_objs s2)(?x \<mapsto> ObjEvent ?n))"
  proof (rule same_shapeI)
    fix y
    let ?m = "(m_objs s2)(?x \<mapsto> ObjEvent ?n)"
    consider "y = ?x" | "y = ofs" | "(j, y) \<in> set (roots s ccs)" "?P j \<noteq> 0" | "y \<in> fst ` set (H i)"
      | "y \<notin> fst ` set (H i)" "y \<noteq> ?x" "y \<noteq> ofs" "(j, y) \<notin> set (roots s ccs) \<or> ?P j = 0" by blast
    then show "g y = ?m y \<or> (\<exists>c d. ?m y = Some (ObjContact c) \<and> g y = Some (ObjContact d)) \<or>
      (\<exists>e f. ?m y = Some (ObjEvent e) \<and> g y = Some (ObjEvent f) \<and> ev_blob f = ev_blob e)"
    proof cases
      case 1
      then show ?thesis using g_x by (simp add: e_def)
    next
      case 2
      then show ?thesis using ne(1) old [OF dbc] g_ofs by simp
    next
      case 3
      then show ?thesis using g_sub [OF 3] old [of y] ne(3) [of j] by auto
    next
      case 4
      then have "\<exists>e f. m_objs s2 y = Some (ObjEvent e) \<and> h y = Some (ObjEvent f) \<and> ev_blob f = ev_blob e"
      proof -
        have "y \<in> fst ` set ?as \<or> y \<in> fst ` set ?bs" using 4 by (metis Un_iff image_Un set_append split)
        moreover have "chain (m_objs s2) 0 ?as (hd (map fst ?bs @ [0]))"
          "chain (m_objs s2) (last (0 # map fst ?as)) ?bs 0" using ch2 by (simp_all only: chain_append)
        ultimately show ?thesis using chains_shape h(2,3) by blast
      qed
      moreover have "y \<noteq> ?x" using 4 ne(2) by blast
      ultimately show ?thesis using g_ev [OF 4] by simp
    next
      case 5
      then show ?thesis using g_rest [OF 5] by simp
    qed
  qed
  have base_t: "base_ok ?t" using same_shape_base [OF base_n, of g] shape by simp
  let ?X = "(?x, ?n)"
  have "hist_ok ?P g i (insert_event ?X (H i))"
  proof -
    have "chain g 0 ?as ?x" "chain g ?x ?bs 0"
      using h(2,3) chain_cong [of ?as g h 0 ?x] chain_cong [of ?bs g h ?x 0] g_ev
      by (metis (no_types, lifting) Un_iff image_Un set_append split)+
    moreover have "g ?x = Some (ObjEvent (with_links ?n (last (0 # map fst ?as)) (hd (map fst ?bs @ [0]))))"
      using g_x by (simp only: e_def)
    ultimately have "chain g 0 (insert_event ?X (H i)) 0"
      unfolding insert_event_def chain_append by (simp add: chain_append)
    moreover have "entry_ok ?X" using x(1) tsd by (simp add: entry_ok_def)
    moreover have "distinct (map fst (insert_event ?X (H i)))"
      using dist ne(2) by (intro insert_event_distinct) simp_all
    ultimately show ?thesis
      using hist(1) ji insert_event_sorted [OF sorted, of ?X] by (simp add: hist_ok_def)
  qed
  moreover have "hist_mods g (insert_event ?X (H i))"
  proof -
    have keep: "g z = Some (ObjModule k)" if z: "m_objs s2 z = Some (ObjModule k)" for z k
    proof -
      have "z \<noteq> ?x" "z \<noteq> ofs" using z new old [OF dbc] by auto
      moreover have "(j, z) \<notin> set (roots s ccs)" using z rootc [of j z] old [of z] by auto
      moreover have "z \<notin> fst ` set (H i)" using z ev [of z] old [of z] by auto
      ultimately show ?thesis using g_rest [of z] z by simp
    qed
    have "\<exists>k. m_objs s2 (ev_ofsModuleName (snd y)) = Some (ObjModule k)" if "y \<in> set (insert_event ?X (H i))" for y
      using that hist(2) old s2(4) by (fastforce simp: hist_mods_def)
    then show ?thesis using keep by (fastforce simp: hist_mods_def)
  qed
  moreover have "record_ok ?c (insert_event ?X (H i)) (length (insert_event ?X (H i)))" "dc_ofsNext ?c = dc_ofsNext dbc"
    "dc_ofsFirstSettings ?c = dc_ofsFirstSettings dbc"
    using record_insert [OF rec sorted ent, of ?c ?X] by simp_all
  ultimately have "db_rep ?t ccs (H(i := insert_event ?X (H i)))"
  proof (intro db_rep_update [OF rep root own base_t, where c = dbc and c' = ?c])
    show "header_same s ?t" using hdr by (simp add: header_same_def)
    show "m_objs s ofs = Some (ObjContact dbc)" "m_objs ?t ofs = Some (ObjContact ?c)" using dbc g_ofs by simp_all
  next
    fix k y
    assume k: "(k, y) \<in> set (roots s ccs)" "?P k \<noteq> 0" "?P k = i"
    obtain c where c: "m_objs s y = Some (ObjContact c)" "record_ok c (own_events ?P H k) (length (events_of ?P H k))"
      using db_rep_root [OF rep k(1)] .
    have n: "dc_eventCount c = of_nat (length (filter (\<lambda>x. cid x = k) (H i)))"
      using c(2) k(2,3) by (simp add: record_ok_def events_of_def)
    show "\<exists>c. m_objs s y = Some (ObjContact c) \<and>
      m_objs ?t y = Some (ObjContact (c\<lparr>dc_eventCount := of_nat (length (filter (\<lambda>x. cid x = k) (insert_event ?X (H i))))\<rparr>))"
    proof (cases "k = j")
      case True
      then show ?thesis using g_sub [of y] k c(1) n by (auto simp: insert_event_filter)
    next
      case False
      then have "y \<noteq> ofs" "(j, y) \<notin> set (roots s ccs)" "y \<noteq> ?x"
        using k root_unique [OF tab k(1) root] root_unique [OF tab k(1), of j y] own ne(3) [of k] by auto
      then have "g y = Some (ObjContact c)" using g_rest [of y] contact [OF c(1)] old [OF c(1)] by simp
      moreover have "c\<lparr>dc_eventCount := dc_eventCount c\<rparr> = c" by simp
      ultimately show ?thesis using c(1) False n by (simp add: insert_event_filter)
    qed
  next
    fix y
    assume y: "m_objs s y \<noteq> None" "y \<noteq> ofs" "y \<notin> fst ` set (H i)"
      "\<And>k. (k, y) \<in> set (roots s ccs) \<Longrightarrow> ?P k = 0 \<or> ?P k \<noteq> i"
    have "(j, y) \<notin> set (roots s ccs) \<or> ?P j = 0" using y(4) [of j] ji by (auto simp: chain_of_def split: if_splits)
    moreover have "y \<noteq> ?x" using y(1) x(3) by metis
    ultimately show "m_objs ?t y = m_objs s y" using y(1-3) g_rest [of y] old [of y] by auto
  qed simp_all
  moreover have "m_objs ?t m = Some (ObjModule mn)"
  proof -
    have "m \<noteq> ?x" "m \<noteq> ofs" using s2(4) new old [OF dbc] by auto
    moreover have "(j, m) \<notin> set (roots s ccs)" using s2(4) rootc [of j m] old [of m] by auto
    moreover have "m \<notin> fst ` set (H i)" using s2(4) ev [of m] old [of m] by auto
    ultimately show ?thesis using g_rest [of m] s2(4) by simp
  qed
  moreover have "same_but_space s ?t" using same by (simp add: same_but_space_def)
  moreover have "y = ?x \<or> (\<exists>e. m_objs s y = Some (ObjEvent e))" if "m_objs ?t y = Some (ObjEvent f)" for y f
  proof -
    have "y \<noteq> ofs" "(j, y) \<notin> set (roots s ccs) \<or> ?P j = 0" using that g_ofs g_sub [of y] by auto
    then have "y \<in> fst ` set (H i) \<or> m_objs s2 y = Some (ObjEvent f) \<or> y = ?x"
      using that g_rest [of y] by (cases "y \<in> fst ` set (H i)"; cases "y = ?x") simp_all
    then show ?thesis using ev [of y] s2(8) s1(4) by (auto split: if_splits)
  qed
  ultimately show ?thesis using that [OF st] s2(5,7) s1(5) by simp
qed

end
