(* ===== verification/DbRemove.thy ===== *)
theory DbRemove imports DbStore begin

text \<open>Deleting an event takes it out of the history of its contact; marking one as read sets its flag.\<close>

section \<open>Deleting an event\<close>

lemma first_unread_remove:
  assumes "distinct (map fst (as @ x # bs))" and "\<forall>y \<in> set (as @ x # bs). fst y \<noteq> 0"
  shows "first_unread (as @ bs) =
    (if fst (first_unread (as @ x # bs)) = fst x then first_unread bs else first_unread (as @ x # bs))"
proof (cases "\<forall>a \<in> set as. markedRead (snd a)")
  case True
  have "fst (first_unread bs) \<noteq> fst x"
    using first_unread_time [of bs] assms by (cases "first_unread bs") force
  then show ?thesis using True by (simp add: first_unread_append)
next
  case False
  have "fst (first_unread as) \<noteq> fst x"
    using first_unread_time [of as] assms by (cases "first_unread as") force
  then show ?thesis using False by (simp only: first_unread_append if_False)
qed

lemma remove_entry_split:
  assumes "distinct (map fst (as @ x # bs))"
  shows "remove_entry (fst x) (as @ x # bs) = as @ bs"
proof -
  have "remove_entry (fst x) as = as" "remove_entry (fst x) bs = bs"
    using assms by (auto simp: remove_entry_def filter_id_conv image_iff)
  then show ?thesis by (simp add: remove_entry_def)
qed

lemma record_remove:
  assumes "record_ok c (as @ x # bs) (Suc n)" and "distinct (map fst (as @ x # bs))"
    and "\<forall>y \<in> set (as @ x # bs). fst y \<noteq> 0"
    and c': "c' = (set_ends (if dc_ofsFirstUnread c = fst x
        then c\<lparr>dc_ofsFirstUnread := fst (first_unread bs), dc_tsFirstUnread := snd (first_unread bs)\<rparr> else c)
      (hd (map fst (as @ bs) @ [0])) (last (0 # map fst (as @ bs))))\<lparr>dc_eventCount := dc_eventCount c - 1\<rparr>"
  shows "record_ok c' (as @ bs) n" and "dc_ofsNext c' = dc_ofsNext c"
    and "dc_ofsFirstSettings c' = dc_ofsFirstSettings c"
proof -
  have u: "first_unread (as @ x # bs) = (dc_ofsFirstUnread c, dc_tsFirstUnread c)"
    using assms(1) by (simp add: record_ok_def)
  have "(dc_ofsFirstUnread c', dc_tsFirstUnread c') = first_unread (as @ bs)"
    unfolding first_unread_remove [OF assms(2,3)] u c' by simp
  moreover have "ends_ok c' (as @ bs)" unfolding ends_ok_def c' by simp
  moreover have "dc_signature c' = DBCONTACT_SIGNATURE" "dc_eventCount c' = of_nat n"
    using assms(1) unfolding c' record_ok_def by simp_all
  ultimately show "record_ok c' (as @ bs) n" by (simp add: record_ok_def)
  show "dc_ofsNext c' = dc_ofsNext c" "dc_ofsFirstSettings c' = dc_ofsFirstSettings c" unfolding c' by simp_all
qed

text \<open>What \<open>DeleteEvent\<close> does after the notification.\<close>

definition delete_rest ::
    "CDb3Mmap \<Rightarrow> DBCachedContact option \<Rightarrow> int \<Rightarrow> int \<Rightarrow> DBContact \<Rightarrow> DBEvent \<Rightarrow> CDb3Mmap option" where
  "delete_rest s cc ofsContact hDbEvent dbc dbe =
     do {
       s \<leftarrow> remove_event s ofsContact hDbEvent dbc dbe;
       case cc of
         None \<Rightarrow> Some s
       | Some cc \<Rightarrow> if ev_contactID dbe \<noteq> cc_contactID cc then uncount_sub s (ev_contactID dbe) else Some s
     }"

lemma remove_event_chain:
  assumes "chain (m_objs s) 0 (as @ x # bs) 0" and "\<forall>y \<in> set (as @ x # bs). entry_ok y"
    and d: "distinct (map fst (as @ x # bs))" and "ends_ok dbc (as @ x # bs)"
    and dbe: "m_objs s (fst x) = Some (ObjEvent dbe)" and sp: "space s"
    and ofs: "m_objs s ofs = Some (ObjContact dbc)"
  obtains g t where "remove_event s ofs (fst x) dbc dbe = Some t" and "same_but_space s t" and "space t"
    and "m_lMods t = m_lMods s" "m_lOfs t = m_lOfs s" "m_lastmn t = m_lastmn s"
    and "m_objs t = (g(ofs \<mapsto> ObjContact ((set_ends (if dc_ofsFirstUnread dbc = fst x
        then dbc\<lparr>dc_ofsFirstUnread := fst (first_unread bs), dc_tsFirstUnread := snd (first_unread bs)\<rparr> else dbc)
      (hd (map fst (as @ bs) @ [0])) (last (0 # map fst (as @ bs))))\<lparr>dc_eventCount := dc_eventCount dbc - 1\<rparr>),
      fst x := None))"
    and "chain g 0 (as @ bs) 0" and "\<And>y. y \<notin> fst ` set (as @ bs) \<Longrightarrow> g y = m_objs s y"
proof -
  let ?c1 = "if dc_ofsFirstUnread dbc = fst x
    then dbc\<lparr>dc_ofsFirstUnread := fst (first_unread bs), dc_tsFirstUnread := snd (first_unread bs)\<rparr> else dbc"
  have ch: "chain (m_objs s) 0 as (fst x)" "chain (m_objs s) (fst x) bs 0"
    using assms(1) by (simp_all add: chain_append)
  have e: "dbe = with_links (snd x) (last (0 # map fst as)) (hd (map fst bs @ [0]))"
    using assms(1) dbe by (simp add: chain_append)
  have unread: "next_unread s dbe = Some (first_unread bs)"
    using next_unread_chain [OF ch(2), of dbe] assms(2) e by simp
  have "ends_ok ?c1 (as @ x # bs)" using assms(4) by (simp add: ends_ok_def)
  then obtain g where g: "unlink_event s ?c1 dbe =
      Some (set_ends ?c1 (hd (map fst (as @ bs) @ [0])) (last (0 # map fst (as @ bs))), s\<lparr>m_objs := g\<rparr>)"
    "chain g 0 (as @ bs) 0" "\<And>y. y \<notin> fst ` set (as @ bs) \<Longrightarrow> g y = m_objs s y"
    using unlink_event_chain [OF assms(1,2) d] unfolding e by blast
  let ?c = "(set_ends ?c1 (hd (map fst (as @ bs) @ [0])) (last (0 # map fst (as @ bs))))
    \<lparr>dc_eventCount := dc_eventCount dbc - 1\<rparr>"
  let ?s = "s\<lparr>m_objs := g(ofs \<mapsto> ObjContact ?c)\<rparr>"
  obtain u v where uv: "first_unread bs = (u, v)" by force
  define f l where "f = hd (map fst (as @ bs) @ [0])" and "l = last (0 # map fst (as @ bs))"
  have r: "remove_event s ofs (fst x) dbc dbe = Some (DeleteSpace ?s (fst x) (obj_size (ObjEvent dbe)))"
    using unread g(1) unfolding uv f_def [symmetric] l_def [symmetric]
    by (cases "dc_ofsFirstUnread dbc = fst x") (simp_all add: remove_event_def Let_def DBWrite_def uv)
  have nx: "fst x \<notin> fst ` set (as @ bs)" "fst x \<noteq> ofs" using d dbe ofs by auto
  have shape: "same_shape (m_objs ?s) (m_objs s)"
  proof (rule same_shapeI)
    fix y
    have "\<exists>e f. m_objs s y = Some (ObjEvent e) \<and> g y = Some (ObjEvent f) \<and> ev_blob f = ev_blob e"
      if "y \<in> fst ` set (as @ bs)"
    proof -
      have c: "chain g 0 as (hd (map fst bs @ [0]))" "chain g (last (0 # map fst as)) bs 0"
        using g(2) by (simp_all add: chain_append)
      have "y \<in> fst ` set as \<or> y \<in> fst ` set bs" using that by (simp add: image_Un)
      then show ?thesis using chains_shape [OF ch(1) c(1), of y] chains_shape [OF ch(2) c(2), of y] by blast
    qed
    then show "m_objs ?s y = m_objs s y \<or> (\<exists>c d. m_objs s y = Some (ObjContact c) \<and> m_objs ?s y = Some (ObjContact d)) \<or>
      (\<exists>e f. m_objs s y = Some (ObjEvent e) \<and> m_objs ?s y = Some (ObjEvent f) \<and> ev_blob f = ev_blob e)"
      using g(3) [of y] ofs by (cases "y = ofs"; cases "y \<in> fst ` set (as @ bs)") auto
  qed
  have sp': "space ?s" using sp same_shape_space [OF shape] by simp
  have "m_objs ?s (fst x) = Some (ObjEvent dbe)" using nx g(3) [of "fst x"] dbe by simp
  note del = DeleteSpace_spec [OF sp' this refl]
  show ?thesis
    using that [OF r, of g] del g(2,3) by (simp add: same_but_space_def) (simp add: DeleteSpace_def Let_def put_header_def)
qed

lemma filter_remove_count:
  assumes "distinct (map fst (as @ x # bs))"
  shows "length (filter f (as @ x # bs)) = length (filter f (as @ bs)) + (if f x then 1 else 0)"
  by simp

lemma delete_rest_rep:
  assumes rep: "db_rep s ccs H" and root: "(i, ofs) \<in> set (roots s ccs)" and own: "parents ccs i = 0"
    and x: "x \<in> set (H i)" and dbe: "m_objs s (fst x) = Some (ObjEvent dbe)"
    and dbc: "m_objs s ofs = Some (ObjContact dbc)"
    and cc: "(if i = 0 then None else lookup ccs i) = cc"
  obtains t where "delete_rest s cc ofs (fst x) dbc dbe = Some t"
    and "db_rep t ccs (H(i := remove_entry (fst x) (H i)))" and "same_but_space s t"
    and "\<And>y e. m_objs t y = Some (ObjEvent e) \<Longrightarrow> y \<noteq> fst x \<and> (\<exists>e. m_objs s y = Some (ObjEvent e))"
proof -
  let ?P = "parents ccs"
  note base = db_repD(1) [OF rep] and sp = db_repD(2) [OF rep] and tab = db_repD(6) [OF rep]
  have hist: "hist_ok ?P (m_objs s) i (H i)" "hist_mods (m_objs s) (H i)" by (rule db_rep_hist [OF rep root own])+
  obtain as bs where xs: "H i = as @ x # bs" using x by (meson split_list)
  have ch: "chain (m_objs s) 0 (as @ x # bs) 0" and ent: "\<forall>y \<in> set (as @ x # bs). entry_ok y"
    and dist: "distinct (map fst (as @ x # bs))" and sorted: "sorted (map ts (as @ x # bs))"
    and cids: "\<forall>y \<in> set (as @ x # bs). chain_of ?P (cid y) = i"
    using hist(1) unfolding xs by (auto simp: hist_ok_def)
  have rec: "record_ok dbc (as @ x # bs) (Suc (length (as @ bs)))"
    using db_rep_root [OF rep root] dbc own xs by (force simp: own_events_def events_of_def)
  have "ends_ok dbc (as @ x # bs)" using rec by (simp add: record_ok_def)
  then obtain g t where t: "remove_event s ofs (fst x) dbc dbe = Some t" "same_but_space s t" "space t"
    "m_lMods t = m_lMods s" "m_lOfs t = m_lOfs s" "m_lastmn t = m_lastmn s"
    and h: "m_objs t = (g(ofs \<mapsto> ObjContact ((set_ends (if dc_ofsFirstUnread dbc = fst x
        then dbc\<lparr>dc_ofsFirstUnread := fst (first_unread bs), dc_tsFirstUnread := snd (first_unread bs)\<rparr> else dbc)
      (hd (map fst (as @ bs) @ [0])) (last (0 # map fst (as @ bs))))\<lparr>dc_eventCount := dc_eventCount dbc - 1\<rparr>),
      fst x := None))"
    and g: "chain g 0 (as @ bs) 0" "\<And>y. y \<notin> fst ` set (as @ bs) \<Longrightarrow> g y = m_objs s y"
    using remove_event_chain [OF ch ent dist _ dbe sp dbc] by blast
  let ?k = "ev_contactID dbe" and ?L = "as @ bs"
  define c' where "c' = (set_ends (if dc_ofsFirstUnread dbc = fst x
        then dbc\<lparr>dc_ofsFirstUnread := fst (first_unread bs), dc_tsFirstUnread := snd (first_unread bs)\<rparr> else dbc)
      (hd (map fst (as @ bs) @ [0])) (last (0 # map fst (as @ bs))))\<lparr>dc_eventCount := dc_eventCount dbc - 1\<rparr>"
  have nx: "fst x \<notin> fst ` set ?L" "fst x \<noteq> ofs" using dist dbe dbc by auto
  have t_ofs: "m_objs t ofs = Some (ObjContact c')" and t_x: "m_objs t (fst x) = None"
    using nx(2) unfolding h by (simp_all add: c'_def)
  have t_g: "m_objs t y = g y" if "y \<noteq> ofs" "y \<noteq> fst x" for y using that unfolding h by simp
  have e: "dbe = with_links (snd x) (last (0 # map fst as)) (hd (map fst bs @ [0]))"
    using ch dbe by (simp add: chain_append)
  have k: "?k = cid x" "chain_of ?P ?k = i" using cids by (auto simp: e)
  have hd: "header_same s t" by (rule same_header [OF t(2)])
  have ev: "\<exists>e. m_objs s y = Some (ObjEvent e)" if "y \<in> fst ` set ?L" for y
    using hist_event [OF rep root own, of y] that xs by auto
  have rootc: "\<exists>c. m_objs s y = Some (ObjContact c)" if "(j, y) \<in> set (roots s ccs)" for j y
    using db_rep_root [OF rep that] by blast
  have contact: "m_objs t y = Some (ObjContact c)" if "m_objs s y = Some (ObjContact c)" "y \<noteq> ofs" for y c
  proof -
    have "y \<noteq> fst x" "y \<notin> fst ` set ?L" using that dbe ev [of y] by auto
    then show ?thesis using that g(2) [of y] t_g [of y] by simp
  qed
  have len: "length (as @ x # bs) < 4294967296" using hist_length [OF sp hist(1)] unfolding xs .
  obtain h' where h': "delete_rest s cc ofs (fst x) dbc dbe = Some (t\<lparr>m_objs := h'\<rparr>)"
    "\<And>y. (?k, y) \<notin> set (roots s ccs) \<or> ?P ?k = 0 \<Longrightarrow> h' y = m_objs t y"
    "\<And>y. (?k, y) \<in> set (roots s ccs) \<Longrightarrow> ?P ?k \<noteq> 0 \<Longrightarrow>
      \<exists>c. m_objs s y = Some (ObjContact c) \<and> h' y = Some (ObjContact (c\<lparr>dc_eventCount := dc_eventCount c - 1\<rparr>))"
  proof (cases "?P ?k = 0")
    case True
    then have "cc = None \<or> (\<exists>c. cc = Some c \<and> cc_contactID c = ?k)"
      using k(2) cc lookup_Some [of ccs i] by (auto simp: chain_of_def split: if_splits)
    then have "delete_rest s cc ofs (fst x) dbc dbe = Some (t\<lparr>m_objs := m_objs t\<rparr>)"
      using t(1) by (auto simp: delete_rest_def)
    then show ?thesis using that [of "m_objs t"] True by blast
  next
    case False
    then have ki: "?P ?k = i" using k(2) by (simp add: chain_of_def)
    obtain kc where kc: "lookup ccs ?k = Some kc" using False by (auto simp: parents_def split: option.splits)
    let ?y = "cc_dwOfsContact kc"
    have y: "(?k, ?y) \<in> set (roots s ccs)" by (rule lookup_root [OF kc])
    obtain c where c: "m_objs s ?y = Some (ObjContact c)"
      "record_ok c (own_events ?P H ?k) (length (events_of ?P H ?k))" using db_rep_root [OF rep y] .
    have "dc_eventCount c = of_nat (Suc (length (filter (\<lambda>x. cid x = ?k) ?L)))"
      using c(2) False k(1) unfolding ki record_ok_def events_of_def xs by simp
    moreover have "Suc (length (filter (\<lambda>x. cid x = ?k) ?L)) < 4294967296"
      using len length_filter_le [of "\<lambda>x. cid x = ?k" ?L] by simp
    ultimately have pos: "0 < dc_eventCount c" using count_zero [of "replicate (Suc (length (filter (\<lambda>x. cid x = ?k) ?L))) x"]
      by (simp add: word_neq_0_conv [symmetric])
    have yo: "?y \<noteq> ofs" "?k \<noteq> i" using root_unique [OF tab y root] False own ki by auto
    have ty: "m_objs t ?y = Some (ObjContact c)" by (rule contact [OF c(1) yo(1)])
    have "0 < ?y" using c(1) space_inside [OF sp] by blast
    then have rd: "DBRead_contact t ?y = Some c" using ty by (simp add: DBRead_contact_def)
    have "GetContactOffset t ?k = Some (?y, if ?k = 0 then None else lookup ccs ?k)"
      using GetContactOffset_rep [of t ccs ?k ?y] tab y header_same_table [OF hd] header_same_roots [OF hd] by simp
    then have un: "uncount_sub t ?k = Some (t\<lparr>m_objs := (m_objs t)(?y \<mapsto> ObjContact (c\<lparr>dc_eventCount := dc_eventCount c - 1\<rparr>))\<rparr>)"
      using rd pos by (simp add: uncount_sub_def DBWrite_def)
    have "i \<noteq> 0" using False ki by simp
    then obtain ic where "cc = Some ic" "cc_contactID ic = i"
      using cc root lookup_None [of ccs i] lookup_Some [of ccs i] by (cases cc) (auto simp: roots_def)
    then have "delete_rest s cc ofs (fst x) dbc dbe =
        Some (t\<lparr>m_objs := (m_objs t)(?y \<mapsto> ObjContact (c\<lparr>dc_eventCount := dc_eventCount c - 1\<rparr>))\<rparr>)"
      using t(1) un yo(2) by (simp add: delete_rest_def)
    then show ?thesis using that y c(1) root_unique [OF tab y] False by fastforce
  qed
  let ?t = "t\<lparr>m_objs := h'\<rparr>"
  have k_not: "(?k, y) \<notin> set (roots s ccs) \<or> ?P ?k = 0" if "\<nexists>c. m_objs s y = Some (ObjContact c)" for y
    using that rootc [of ?k y] by blast
  have h_ofs: "h' ofs = Some (ObjContact c')"
    using h'(2) [of ofs] t_ofs root_unique [OF tab _ root, of ?k ofs] own by auto
  have h_x: "h' (fst x) = None" using h'(2) [OF k_not, of "fst x"] t_x dbe by simp
  have h_L: "h' y = g y" if "y \<in> fst ` set ?L" for y
  proof -
    have "y \<noteq> fst x" using nx(1) that by metis
    moreover have "y \<noteq> ofs" using ev [OF that] dbc by auto
    moreover have "\<nexists>c. m_objs s y = Some (ObjContact c)" using ev [OF that] by auto
    ultimately show ?thesis using h'(2) [OF k_not] t_g [of y] by simp
  qed
  have h_rest: "h' y = m_objs s y"
    if "y \<noteq> ofs" "y \<noteq> fst x" "y \<notin> fst ` set ?L" "(?k, y) \<notin> set (roots s ccs) \<or> ?P ?k = 0" for y
    using h'(2) [OF that(4)] t_g [OF that(1,2)] g(2) [OF that(3)] by simp
  have mods: "m_objs t y = Some (ObjModule m) \<longleftrightarrow> m_objs s y = Some (ObjModule m)" for y m
  proof (cases "y = ofs \<or> y = fst x")
    case True
    then show ?thesis using t_ofs t_x dbc dbe by auto
  next
    case False
    show ?thesis
    proof (cases "y \<in> fst ` set ?L")
      case True
      then show ?thesis using chain_object [OF g(1)] ev [OF True] t_g [of y] False by force
    qed (use False g(2) [of y] t_g [of y] in simp)
  qed
  have base_t: "base_ok t"
    using base t names_cong [of "m_objs t" "m_objs s", OF mods] mods_ok_cong [of t s] by (simp add: base_ok_def same_but_space_def)
  have shape: "same_shape h' (m_objs t)"
  proof (rule same_shapeI)
    fix y
    show "h' y = m_objs t y \<or> (\<exists>c d. m_objs t y = Some (ObjContact c) \<and> h' y = Some (ObjContact d)) \<or>
      (\<exists>e f. m_objs t y = Some (ObjEvent e) \<and> h' y = Some (ObjEvent f) \<and> ev_blob f = ev_blob e)"
      using h'(2,3) [of y] contact [of y] t_ofs by (cases "y = ofs") auto
  qed
  have base_t': "base_ok ?t" by (rule same_shape_base [OF base_t shape])
  have L: "remove_entry (fst x) (H i) = ?L" unfolding xs by (rule remove_entry_split [OF dist])
  have "hist_ok ?P h' i ?L"
  proof -
    have "chain h' 0 ?L 0" using g(1) h_L by (subst chain_cong [of _ _ g]) auto
    then show ?thesis using ent cids dist sorted by (auto simp: hist_ok_def sorted_append)
  qed
  moreover have "hist_mods h' ?L"
  proof -
    have "h' z = Some (ObjModule m)" if z: "m_objs s z = Some (ObjModule m)" for z m
      using mods [of z m] h'(2) [OF k_not, of z] z by simp
    then show ?thesis using hist(2) unfolding xs hist_mods_def by fastforce
  qed
  moreover have "record_ok c' ?L (length ?L)" "dc_ofsNext c' = dc_ofsNext dbc"
    "dc_ofsFirstSettings c' = dc_ofsFirstSettings dbc"
  proof -
    have nz: "\<forall>y \<in> set (as @ x # bs). fst y \<noteq> 0" using ent unfolding entry_ok_def by fastforce
    show "record_ok c' ?L (length ?L)" "dc_ofsNext c' = dc_ofsNext dbc"
      "dc_ofsFirstSettings c' = dc_ofsFirstSettings dbc"
      using record_remove [OF rec dist nz c'_def] by simp_all
  qed
  ultimately have "db_rep ?t ccs (H(i := ?L))"
  proof (intro db_rep_update [OF rep root own base_t', where c = dbc and c' = c'])
    show "header_same s ?t" using hd by (simp add: header_same_def)
  next
    fix j y
    assume j: "(j, y) \<in> set (roots s ccs)" "?P j \<noteq> 0" "?P j = i"
    obtain c where c: "m_objs s y = Some (ObjContact c)" "record_ok c (own_events ?P H j) (length (events_of ?P H j))"
      using db_rep_root [OF rep j(1)] .
    have n: "dc_eventCount c = of_nat (length (filter (\<lambda>x. cid x = j) (as @ x # bs)))"
      using c(2) j(2,3) unfolding xs [symmetric] by (simp add: record_ok_def events_of_def)
    show "\<exists>c. m_objs s y = Some (ObjContact c) \<and>
      m_objs ?t y = Some (ObjContact (c\<lparr>dc_eventCount := of_nat (length (filter (\<lambda>x. cid x = j) ?L))\<rparr>))"
    proof (cases "j = ?k")
      case True
      then show ?thesis using h'(3) [of y] j c(1) n k(1) by auto
    next
      case False
      then have "y \<noteq> ofs" "(?k, y) \<notin> set (roots s ccs)"
        using j root_unique [OF tab j(1) root] root_unique [OF tab j(1), of ?k y] own by auto
      then have "h' y = Some (ObjContact c)" using h'(2) [of y] contact [OF c(1)] by simp
      moreover have "c\<lparr>dc_eventCount := dc_eventCount c\<rparr> = c" by simp
      ultimately show ?thesis using c(1) False n k(1) by simp
    qed
  next
    fix y
    assume y: "m_objs s y \<noteq> None" "y \<noteq> ofs" "y \<notin> fst ` set (H i)"
      "\<And>j. (j, y) \<in> set (roots s ccs) \<Longrightarrow> ?P j = 0 \<or> ?P j \<noteq> i"
    have "(?k, y) \<notin> set (roots s ccs) \<or> ?P ?k = 0" using y(4) [of ?k] k(2) by (auto simp: chain_of_def split: if_splits)
    then show "m_objs ?t y = m_objs s y" using y(2,3) xs h_rest [of y] by simp
  qed (use dbc h_ofs in simp_all)
  moreover have "same_but_space s ?t" using t(2) by (simp add: same_but_space_def)
  moreover have "y \<noteq> fst x \<and> (\<exists>e. m_objs s y = Some (ObjEvent e))" if f: "m_objs ?t y = Some (ObjEvent f)" for y f
  proof -
    have "y \<noteq> fst x" "y \<noteq> ofs" using f h_x h_ofs by auto
    moreover have "(?k, y) \<notin> set (roots s ccs) \<or> ?P ?k = 0" using f h'(3) [of y] by auto
    then have "y \<in> fst ` set ?L \<or> m_objs s y = Some (ObjEvent f)"
      using f h_rest [OF \<open>y \<noteq> ofs\<close> \<open>y \<noteq> fst x\<close>] by (cases "y \<in> fst ` set ?L") simp_all
    ultimately show ?thesis using ev [of y] by auto
  qed
  ultimately show ?thesis using that [OF h'(1)] L by simp
qed

section \<open>Marking an event as read\<close>

definition read_event :: "DBEvent \<Rightarrow> DBEvent" where
  "read_event e = e\<lparr>ev_flags := ev_flags e OR DBEF_READ\<rparr>"

definition mark_entry :: "int \<Rightarrow> entry list \<Rightarrow> entry list" where
  "mark_entry h xs = map (\<lambda>x. if fst x = h then (fst x, read_event (snd x)) else x) xs"

lemma read_event_fields [simp]:
  "ev_signature (read_event e) = ev_signature e" "ev_contactID (read_event e) = ev_contactID e"
  "ev_ofsPrev (read_event e) = ev_ofsPrev e" "ev_ofsNext (read_event e) = ev_ofsNext e"
  "ev_ofsModuleName (read_event e) = ev_ofsModuleName e" "ev_timestamp (read_event e) = ev_timestamp e"
  "ev_blob (read_event e) = ev_blob e" "ev_flags (read_event e) = ev_flags e OR DBEF_READ"
  "read_event (with_links e p n) = with_links (read_event e) p n"
  by (simp_all add: read_event_def with_links_def)

lemma markedRead_read [simp]: "markedRead (read_event e)"
proof -
  have "(ev_flags e OR DBEF_READ) AND MARKED_READ \<noteq> 0"
  proof
    assume "(ev_flags e OR DBEF_READ) AND MARKED_READ = 0"
    then have "bit ((ev_flags e OR DBEF_READ) AND MARKED_READ) 2 = bit (0 :: u32) 2" by simp
    then show False by (simp add: bit_simps DBEF_READ_def MARKED_READ_def DBEF_SENT_def)
  qed
  then show ?thesis by (simp add: markedRead_def)
qed

lemma mark_entry_split:
  assumes "distinct (map fst (as @ x # bs))"
  shows "mark_entry (fst x) (as @ x # bs) = as @ (fst x, read_event (snd x)) # bs"
proof -
  have "mark_entry (fst x) ys = ys" if "fst x \<notin> fst ` set ys" for ys
    using that by (induction ys) (auto simp: mark_entry_def)
  then have "mark_entry (fst x) as = as" "mark_entry (fst x) bs = bs" using assms by auto
  then show ?thesis by (simp add: mark_entry_def)
qed

text \<open>What \<open>MarkEventRead\<close> does with an event that was not read.\<close>

definition mark_rest :: "CDb3Mmap \<Rightarrow> int \<Rightarrow> int \<Rightarrow> DBContact \<Rightarrow> DBEvent \<Rightarrow> CDb3Mmap option" where
  "mark_rest s ofsContact hDbEvent dbc dbe =
     (let s = DBWrite s hDbEvent (ObjEvent dbe) in
      do {
        dbc \<leftarrow> (if dc_ofsFirstUnread dbc = hDbEvent
                then do { (ofs, ts) \<leftarrow> next_unread s dbe;
                          Some (dbc\<lparr>dc_ofsFirstUnread := ofs, dc_tsFirstUnread := ts\<rparr>) }
                else Some dbc);
        Some (DBWrite s ofsContact (ObjContact dbc))
      })"

lemma mark_rest_rep:
  assumes rep: "db_rep s ccs H" and root: "(i, ofs) \<in> set (roots s ccs)" and own: "parents ccs i = 0"
    and x: "x \<in> set (H i)" and dbe: "m_objs s (fst x) = Some (ObjEvent dbe)"
    and dbc: "m_objs s ofs = Some (ObjContact dbc)"
  obtains t where "mark_rest s ofs (fst x) dbc (read_event dbe) = Some t"
    and "db_rep t ccs (H(i := mark_entry (fst x) (H i)))" and "same_but_space s t"
    and "\<And>y e. m_objs t y = Some (ObjEvent e) \<Longrightarrow> \<exists>e. m_objs s y = Some (ObjEvent e)"
proof -
  let ?P = "parents ccs"
  note base = db_repD(1) [OF rep] and tab = db_repD(6) [OF rep]
  have hist: "hist_ok ?P (m_objs s) i (H i)" "hist_mods (m_objs s) (H i)" by (rule db_rep_hist [OF rep root own])+
  obtain as bs where xs: "H i = as @ x # bs" using x by (meson split_list)
  have ch: "chain (m_objs s) 0 (as @ x # bs) 0" and ent: "\<forall>y \<in> set (as @ x # bs). entry_ok y"
    and dist: "distinct (map fst (as @ x # bs))" and sorted: "sorted (map ts (as @ x # bs))"
    and cids: "\<forall>y \<in> set (as @ x # bs). chain_of ?P (cid y) = i"
    using hist(1) unfolding xs by (auto simp: hist_ok_def)
  let ?x = "(fst x, read_event (snd x))"
  let ?L = "as @ ?x # bs"
  have L: "mark_entry (fst x) (H i) = ?L" unfolding xs by (rule mark_entry_split [OF dist])
  have rec: "record_ok dbc (as @ x # bs) (length ?L)"
    using db_rep_root [OF rep root] dbc own xs by (force simp: own_events_def events_of_def)
  have e: "dbe = with_links (snd x) (last (0 # map fst as)) (hd (map fst bs @ [0]))"
    using ch dbe by (simp add: chain_append)
  let ?h = "(m_objs s)(fst x \<mapsto> ObjEvent (read_event dbe))"
  have nx: "fst x \<notin> fst ` set as" "fst x \<notin> fst ` set bs" "fst x \<noteq> ofs" using dist dbe dbc by auto
  have ch': "chain ?h 0 ?L 0" using ch nx e by (simp add: chain_append)
  have "chain ?h (fst x) bs 0" using ch nx by (simp add: chain_append)
  then have unread: "next_unread (s\<lparr>m_objs := ?h\<rparr>) (read_event dbe) = Some (first_unread bs)"
    using next_unread_chain [of "s\<lparr>m_objs := ?h\<rparr>" "fst x" bs "read_event dbe"] ent e by simp
  define c' where "c' = (if dc_ofsFirstUnread dbc = fst x
    then dbc\<lparr>dc_ofsFirstUnread := fst (first_unread bs), dc_tsFirstUnread := snd (first_unread bs)\<rparr> else dbc)"
  let ?t = "s\<lparr>m_objs := ?h(ofs \<mapsto> ObjContact c')\<rparr>"
  have t: "mark_rest s ofs (fst x) dbc (read_event dbe) = Some ?t"
    using unread by (simp add: mark_rest_def Let_def DBWrite_def c'_def split: prod.split)
  have nz: "\<forall>y \<in> set (as @ x # bs). fst y \<noteq> 0" using ent unfolding entry_ok_def by fastforce
  have fu: "first_unread (as @ x # bs) = (dc_ofsFirstUnread dbc, dc_tsFirstUnread dbc)"
    using rec by (simp add: record_ok_def)
  have "first_unread ?L = first_unread (as @ bs)" by (simp add: first_unread_append)
  also have "\<dots> = (dc_ofsFirstUnread c', dc_tsFirstUnread c')"
    unfolding first_unread_remove [OF dist nz] fu c'_def by simp
  finally have rec': "record_ok c' ?L (length ?L)" "dc_ofsNext c' = dc_ofsNext dbc"
    "dc_ofsFirstSettings c' = dc_ofsFirstSettings dbc"
    using rec by (auto simp: record_ok_def ends_ok_def c'_def)
  have rootc: "\<exists>c. m_objs s y = Some (ObjContact c)" if "(j, y) \<in> set (roots s ccs)" for j y
    using db_rep_root [OF rep that] by blast
  have shape: "same_shape (m_objs ?t) (m_objs s)" by (rule same_shapeI) (use dbe dbc in auto)
  have base_t: "base_ok ?t" using same_shape_base [OF base shape] by simp
  have ofs_L: "ofs \<notin> fst ` set ?L" using hist_event [OF rep root own, of ofs] dbc xs by auto
  have "hist_ok ?P (m_objs ?t) i ?L"
    using ch' ofs_L ent cids dist sorted by (auto simp: hist_ok_def entry_ok_def)
  moreover have "hist_mods (m_objs ?t) ?L"
  proof -
    have "m_objs ?t z = Some (ObjModule m)" if "m_objs s z = Some (ObjModule m)" for z m
      using that dbe dbc by auto
    moreover have "\<exists>m. m_objs s (ev_ofsModuleName (snd y)) = Some (ObjModule m)" if "y \<in> set ?L" for y
      using that hist(2) unfolding xs hist_mods_def by auto
    ultimately show ?thesis unfolding hist_mods_def by blast
  qed
  ultimately have "db_rep ?t ccs (H(i := ?L))"
  proof (intro db_rep_update [OF rep root own base_t _ dbc _ rec'(2,3,1)])
    show "header_same s ?t" by (simp add: header_same_def)
    show "m_objs ?t ofs = Some (ObjContact c')" by simp
  next
    fix j y
    assume j: "(j, y) \<in> set (roots s ccs)" "?P j \<noteq> 0" "?P j = i"
    obtain c where c: "m_objs s y = Some (ObjContact c)" "record_ok c (own_events ?P H j) (length (events_of ?P H j))"
      using db_rep_root [OF rep j(1)] .
    have "dc_eventCount c = of_nat (length (filter (\<lambda>x. cid x = j) ?L))"
      using c(2) j(2,3) xs by (simp add: record_ok_def events_of_def)
    then have "c\<lparr>dc_eventCount := of_nat (length (filter (\<lambda>x. cid x = j) ?L))\<rparr> = c"
      by (metis DBContact.surjective DBContact.update_convs(4))
    moreover have "y \<noteq> ofs" "y \<noteq> fst x" using j root_unique [OF tab j(1) root] own c(1) dbe by auto
    ultimately show "\<exists>c. m_objs s y = Some (ObjContact c) \<and>
      m_objs ?t y = Some (ObjContact (c\<lparr>dc_eventCount := of_nat (length (filter (\<lambda>x. cid x = j) ?L))\<rparr>))"
      using c(1) by simp
  next
    fix y
    assume "m_objs s y \<noteq> None" "y \<noteq> ofs" "y \<notin> fst ` set (H i)"
    then show "m_objs ?t y = m_objs s y" using xs by auto
  qed
  moreover have "same_but_space s ?t" by (simp add: same_but_space_def)
  moreover have "\<exists>e. m_objs s y = Some (ObjEvent e)" if "m_objs ?t y = Some (ObjEvent f)" for y f
    using that dbe by (auto split: if_splits)
  ultimately show ?thesis using that [OF t] L by simp
qed

end
