(* ===== verification/DbTable.thy ===== *)
theory DbTable imports DbRemove begin

text \<open>
  Contacts: an empty database, adding and deleting a contact, and changing an entry of the
  cache keep the invariant.
\<close>

section \<open>Entries of the cache\<close>

lemma parent_known:
  assumes "table_ok s ccs" and "parents ccs j \<noteq> 0"
  shows "j \<in> cc_contactID ` set ccs" "parents ccs j \<in> cc_contactID ` set ccs" "parents ccs (parents ccs j) = 0"
proof -
  obtain cc where cc: "lookup ccs j = Some cc" using assms(2) by (auto simp: parents_def split: option.splits)
  then have p: "parents ccs j = cc_parentID cc" by (simp add: parents_def)
  have "cc \<in> set ccs" "cc_contactID cc = j" using lookup_Some [OF cc] by auto
  then show "j \<in> cc_contactID ` set ccs" by auto
  have "IsSub cc" using assms(2) p by (simp add: IsSub_def)
  then show "parents ccs j \<in> cc_contactID ` set ccs" "parents ccs (parents ccs j) = 0"
    using assms(1) \<open>cc \<in> set ccs\<close> unfolding p by (auto simp: table_ok_def)
qed

lemma numeric_sorted: "sorted_by (sort_cmp (NumericKeySortT key)) xs \<longleftrightarrow> sorted (map key xs)"
proof -
  have "(\<lambda>a b. sort_cmp (NumericKeySortT key) a b \<le> 0) = (\<lambda>a b. key a \<le> key b)"
    by (intro ext) (simp add: le_less)
  then show ?thesis by (simp add: sorted_by_def sorted_map)
qed

definition change_contact :: "u32 \<Rightarrow> (DBCachedContact \<Rightarrow> DBCachedContact) \<Rightarrow> DBCachedContact list \<Rightarrow> DBCachedContact list" where
  "change_contact i f ccs = map (\<lambda>cc. if cc_contactID cc = i then f cc else cc) ccs"

lemma change_contact_update:
  assumes "distinct (map cc_contactID ccs)" and "k < length ccs" and "cc_contactID (ccs ! k) = i"
  shows "change_contact i f ccs = ccs[k := f (ccs ! k)]"
proof (rule nth_equalityI)
  fix j
  assume "j < length (change_contact i f ccs)"
  then have j: "j < length ccs" by (simp add: change_contact_def)
  have "cc_contactID (ccs ! j) = i \<longleftrightarrow> j = k"
    using assms j nth_eq_iff_index_eq [OF assms(1), of j k] by auto
  then show "change_contact i f ccs ! j = ccs[k := f (ccs ! k)] ! j"
    using j by (simp add: change_contact_def nth_list_update)
qed (simp add: change_contact_def)

lemma put_cached_rep:
  assumes rep: "table_rep (NumericKeySortT cc_contactID) (m_lContacts s) ccs" and dist: "distinct (map cc_contactID ccs)"
    and i: "i \<in> cc_contactID ` set ccs" and f: "\<And>cc. cc_contactID (f cc) = cc_contactID cc"
  obtains l where "put_cached s i f = Some (s\<lparr>m_lContacts := l\<rparr>)"
    and "table_rep (NumericKeySortT cc_contactID) l (change_contact i f ccs)"
proof -
  let ?l = "m_lContacts s"
  obtain k where k: "LIST_getIndex ?l (Some (contact_key i)) = Some k"
    using numeric_table.getIndex_total [OF rep] .
  have "k \<noteq> -1"
    using numeric_table.getIndex_absent [OF rep, of "contact_key i"] k i by (auto simp: contact_key_def)
  then have b: "0 \<le> k" "k < int (length ccs)" "cc_contactID (ccs ! nat k) = i"
    using numeric_table.getIndex_present [OF rep k] by (auto simp: contact_key_def split: if_splits)
  define n where "n = nat k"
  then have n: "k = int n" "n < length ccs" "cc_contactID (ccs ! n) = i" using b by auto
  have sl: "slist_rep ?l ccs" using rep by (simp add: table_rep_def)
  then have room: "n < length (items ?l)" using n(2) by (simp add: slist_rep_def)
  let ?its = "(items ?l)[n := Some (f (ccs ! n))]"
  have w: "arr_write (items ?l) k (Some (f (ccs ! n))) = Some ?its"
    unfolding n(1) by (rule arr_write_nat [OF room])
  have at: "LIST_at ?l k = Some (ccs ! n)" using table_rep_at [OF rep, of k] n by simp
  have "take (length ccs) ?its = map Some (ccs[n := f (ccs ! n)])"
    using sl by (simp add: slist_rep_def take_update_swap map_update)
  then have "slist_rep (?l\<lparr>items := ?its\<rparr>) (ccs[n := f (ccs ! n)])" using sl by (simp add: slist_rep_def)
  moreover have "map cc_contactID (ccs[n := f (ccs ! n)]) = map cc_contactID ccs"
    using f n(2) by (simp add: map_update) (metis list_update_id nth_map)
  then have "sorted_by (sort_cmp (NumericKeySortT cc_contactID)) (ccs[n := f (ccs ! n)])"
    using rep by (simp only: numeric_sorted table_rep_def)
  ultimately have "table_rep (NumericKeySortT cc_contactID) (?l\<lparr>items := ?its\<rparr>) (change_contact i f ccs)"
    using rep change_contact_update [OF dist n(2,3), of f] by (simp add: table_rep_def)
  moreover have "put_cached s i f = Some (s\<lparr>m_lContacts := ?l\<lparr>items := ?its\<rparr>\<rparr>)"
    using k at w by (simp add: put_cached_def)
  ultimately show ?thesis using that by blast
qed

lemma succ_less: "i \<noteq> -1 \<Longrightarrow> j \<le> i \<Longrightarrow> j < i + 1" for i j :: u32
proof -
  assume i: "i \<noteq> -1" and j: "j \<le> i"
  have "i + 1 \<noteq> 0" using i by (simp add: eq_neg_iff_add_eq_0)
  then have "unat (i + 1) \<noteq> 0" by (simp add: unat_eq_0)
  then have "unat (i + 1) = unat i + 1"
    using unsigned_less [of i, where ?'a = nat] by (cases "unat i + 1 = 4294967296") (simp_all add: unat_word_ariths)
  then show "j < i + 1" using j by (simp add: word_less_nat_alt word_le_nat_alt)
qed

section \<open>An empty database\<close>

lemma created_rep: "0 < chunk \<Longrightarrow> db_rep (CreateDbHeaders chunk) [] (\<lambda>_. [])"
proof -
  assume "0 < chunk"
  have "space (CreateDbHeaders chunk)" by (auto simp: CreateDbHeaders_def space_ok_def size_defs split: if_splits)
  moreover have "mods_ok (CreateDbHeaders chunk)"
    by (auto simp: CreateDbHeaders_def mods_ok_def names_def table_rep_new table_as_new split: if_splits)
  moreover have "table_ok (CreateDbHeaders chunk) []"
    by (simp add: CreateDbHeaders_def table_ok_def roots_def table_rep_new)
  moreover have "links_ok (CreateDbHeaders chunk) []"
    by (auto simp: CreateDbHeaders_def links_ok_def)
  moreover have "root_ok (parents []) (\<lambda>_. []) (m_objs (CreateDbHeaders chunk)) 0 size_header"
    by (simp add: CreateDbHeaders_def root_ok_def record_ok_def own_events_def events_of_def ends_ok_def zero_contact_def)
  moreover have "settings_rep (m_objs (CreateDbHeaders chunk)) {(0, size_header)} (\<lambda>_. [])"
    by (simp add: settings_rep_def contact_settings_def groups_ok_def CreateDbHeaders_def zero_contact_def)
  ultimately show ?thesis
    using \<open>0 < chunk\<close>
    by (simp add: db_rep_def base_ok_def hist_ok_def hist_mods_def roots_def) (auto simp: CreateDbHeaders_def)
qed

section \<open>Adding a contact\<close>

lemma contact_key_id [simp]: "cc_contactID (contact_key i) = i"
  by (simp add: contact_key_def)

lemma roots_set:
  "set (roots s ccs) = insert (0, dh_ofsUser (m_dbHeader s)) ((\<lambda>cc. (cc_contactID cc, cc_dwOfsContact cc)) ` set ccs)"
  by (simp add: roots_def)

definition plain_contact :: "u32 \<Rightarrow> int \<Rightarrow> DBCachedContact" where
  "plain_contact i ofs = (contact_key i)\<lparr>cc_dwOfsContact := ofs\<rparr>"

lemma plain_contact_fields [simp]:
  "cc_contactID (plain_contact i x) = i" "cc_parentID (plain_contact i x) = 0" "cc_dwOfsContact (plain_contact i x) = x"
  "IsSub (plain_contact i x) \<longleftrightarrow> False" "IsMeta (plain_contact i x) \<longleftrightarrow> False"
  by (simp_all add: plain_contact_def contact_key_def IsSub_def IsMeta_def)

lemma lookup_cong:
  assumes "distinct (map cc_contactID ccs)" and "set ccs' = insert c (set ccs)" and "distinct (map cc_contactID ccs')"
    and "cc_contactID c \<noteq> i"
  shows "lookup ccs' i = lookup ccs i"
proof (cases "lookup ccs i")
  case None
  then have "i \<notin> cc_contactID ` set ccs'" using assms(2,4) by (auto simp: lookup_None)
  then show ?thesis using None by (metis lookup_None)
next
  case (Some cc)
  then have "cc \<in> set ccs'" "cc_contactID cc = i" using lookup_Some [OF Some] assms(2) by auto
  then show ?thesis using lookup_unique [OF assms(3)] Some by auto
qed

lemma AddContact_rep:
  assumes rep: "db_rep s ccs H" and room: "file_end s + size_contact < 4294967296"
    and id: "m_dwMaxContactId s \<noteq> 0" "m_dwMaxContactId s \<noteq> -1"
  obtains t ccs' where "AddContact s = Some (m_dwMaxContactId s, t)"
    and "db_rep t ccs' (H(m_dwMaxContactId s := []))"
    and "set ccs' = insert (plain_contact (m_dwMaxContactId s) (file_end s)) (set ccs)"
    and "m_dwMaxContactId s \<notin> cc_contactID ` set ccs" and "m_dwMaxContactId t = m_dwMaxContactId s + 1"
    and "file_end t = file_end s + size_contact"
    and "\<And>y e. m_objs t y = Some (ObjEvent e) \<Longrightarrow> \<exists>e. m_objs s y = Some (ObjEvent e)"
proof -
  let ?i = "m_dwMaxContactId s" and ?x = "file_end s" and ?P = "parents ccs"
  note base = db_repD(1) [OF rep] and sp = db_repD(2) [OF rep] and tab = db_repD(6) [OF rep]
  have pos: "0 \<le> size_contact" by (simp add: size_defs)
  obtain s1 where s1: "CreateNewSpace s size_contact = Some (?x, s1)" "base_ok s1" "same_but_space s s1"
    "m_objs s1 = m_objs s" "file_end s1 = ?x + size_contact"
    using table_room [OF base pos room] .
  note hd = header_fields [OF s1(3)]
  have new: "?i \<notin> cc_contactID ` set ccs" using tab by (auto simp: table_ok_def)
  have x: "m_objs s ?x = None" "0 < ?x" using space_end_free(1) [OF sp] sp by (auto simp: space_ok_def size_defs)
  have rep_l: "table_rep (NumericKeySortT cc_contactID) (m_lContacts s1) ccs" using tab hd by (simp add: table_ok_def)
  let ?dbc = "zero_contact\<lparr>dc_signature := DBCONTACT_SIGNATURE, dc_ofsNext := dh_ofsFirstContact (m_dbHeader s),
    dc_dwContactID := ?i\<rparr>"
  let ?g = "(m_objs s)(?x \<mapsto> ObjContact ?dbc)"
  let ?s2 = "DBWrite (put_header (s1\<lparr>m_dwMaxContactId := ?i + 1\<rparr>)
    (\<lambda>h. h\<lparr>dh_ofsFirstContact := ?x, dh_contactCount := dh_contactCount h + 1\<rparr>)) ?x (ObjContact ?dbc)"
  obtain k where k: "LIST_getIndex (m_lContacts s1) (Some (contact_key ?i)) = Some k"
    using numeric_table.getIndex_total [OF rep_l] .
  have k1: "k = -1"
    using numeric_table.getIndex_absent [OF rep_l, of "contact_key ?i"] k new by (auto simp: image_iff split: if_splits)
  obtain l n where l: "List_InsertPtr (m_lContacts s1) (Some (contact_key ?i)) = Some (1, l)" "n \<le> length ccs"
    "table_rep (NumericKeySortT cc_contactID) l (take n ccs @ contact_key ?i # drop n ccs)"
    using numeric_table.InsertPtr_spec [OF rep_l] .
  let ?ccs1 = "take n ccs @ contact_key ?i # drop n ccs"
  let ?ccs' = "take n ccs @ plain_contact ?i ?x # drop n ccs"
  have set: "set (take n ccs) \<union> set (drop n ccs) = set ccs" by (metis append_take_drop_id set_append)
  have d: "distinct (map cc_contactID (take n ccs) @ map cc_contactID (drop n ccs))"
    using table_distinct(1) [OF tab] by (simp flip: map_append)
  have new': "?i \<notin> cc_contactID ` set (take n ccs)" "?i \<notin> cc_contactID ` set (drop n ccs)"
    using new set by (auto simp: image_iff)
  have d1: "distinct (map cc_contactID ?ccs1)" "distinct (map cc_contactID ?ccs')"
    using d new' by auto
  have ch: "change_contact ?i (cc_dwOfsContact_update (\<lambda>_. ?x)) ?ccs1 = ?ccs'"
  proof -
    have "change_contact ?i f ys = ys" if "?i \<notin> cc_contactID ` set ys" for f ys
      using that by (auto simp: change_contact_def image_iff intro!: map_idI)
    then show ?thesis
      using new' by (simp add: change_contact_def plain_contact_def)
  qed
  obtain l' where l': "put_cached (?s2\<lparr>m_lContacts := l\<rparr>) ?i (cc_dwOfsContact_update (\<lambda>_. ?x)) =
      Some (?s2\<lparr>m_lContacts := l, m_lContacts := l'\<rparr>)"
    "table_rep (NumericKeySortT cc_contactID) l' ?ccs'"
    using put_cached_rep [of "?s2\<lparr>m_lContacts := l\<rparr>" ?ccs1 ?i "cc_dwOfsContact_update (\<lambda>_. ?x)"] l(3) d1(1) ch
    by auto
  let ?t = "?s2\<lparr>m_lContacts := l'\<rparr>"
  have add: "AddContact s = Some (?i, ?t)"
    using s1(1) k k1 l(1) l'(1) hd by (simp add: AddContact_def Let_def AddContactToCache_def put_header_def DBWrite_def)
  have set': "set ?ccs' = insert (plain_contact ?i ?x) (set ccs)" using set by auto
  have objs: "m_objs ?t = ?g" using s1(4) by (simp add: put_header_def DBWrite_def)
  have hdr: "dh_ofsUser (m_dbHeader ?t) = dh_ofsUser (m_dbHeader s)" "dh_ofsFirstContact (m_dbHeader ?t) = ?x"
    "dh_contactCount (m_dbHeader ?t) = dh_contactCount (m_dbHeader s) + 1" "file_end ?t = ?x + size_contact"
    "m_dwMaxContactId ?t = ?i + 1"
    using hd s1(5) by (simp_all add: put_header_def DBWrite_def)
  have look: "lookup ?ccs' j = lookup ccs j" if "j \<noteq> ?i" for j
    using lookup_cong [OF table_distinct(1) [OF tab] set' d1(2)] that by simp
  have P: "parents ?ccs' = ?P"
  proof
    fix j
    show "parents ?ccs' j = ?P j"
    proof (cases "j = ?i")
      case True
      have "lookup ?ccs' ?i = Some (plain_contact ?i ?x)"
        using lookup_unique [OF d1(2), of "plain_contact ?i ?x"] set' by simp
      then show ?thesis using parents_out [OF new] True by (simp add: parents_def)
    qed (simp add: parents_def look)
  qed
  have rts: "set (roots ?t ?ccs') = insert (?i, ?x) (set (roots s ccs))"
    unfolding roots_set hdr(1) set' by auto
  have rootc: "\<exists>c. m_objs s y = Some (ObjContact c)" if "(j, y) \<in> set (roots s ccs)" for j y
    using db_rep_root [OF rep that] by blast
  have xr: "(j, ?x) \<notin> set (roots s ccs)" for j using rootc [of j ?x] x(1) by auto
  have ir: "(?i, y) \<notin> set (roots s ccs)" for y using new id(1) by (auto simp: roots_def)
  have old: "?g y = m_objs s y" if "m_objs s y \<noteq> None" for y using that x(1) by auto
  have names: "names ?g = names (m_objs s)" using x(1) by (intro names_cong) auto
  have sp1: "space s1" using s1(2) by (simp add: base_ok_def)
  have "space_ok ?g (?x + size_contact)"
    using sp1 s1(4,5) sp space_end_free(2) [OF sp, of ?x size_contact] by (intro space_put) (auto simp: space_ok_def)
  then have "base_ok ?t"
    using s1(2,4) names hdr(4) objs unfolding base_ok_def mods_ok_def by (simp add: put_header_def DBWrite_def)
  moreover have "table_ok ?t ?ccs'"
    unfolding table_ok_def
  proof (intro conjI ballI impI)
    show "table_rep (NumericKeySortT cc_contactID) (m_lContacts ?t) ?ccs'" using l'(2) by simp
    show "distinct (map fst (roots ?t ?ccs'))"
      using d1(2) table_distinct(2) [OF tab] id(1) set by (auto simp: roots_def comp_def)
    show "distinct (map snd (roots ?t ?ccs'))"
    proof -
      have "distinct (map cc_dwOfsContact (take n ccs) @ map cc_dwOfsContact (drop n ccs))"
        using table_distinct(3) [OF tab] by (simp flip: map_append)
      moreover have "?x \<notin> cc_dwOfsContact ` set ccs" "?x \<noteq> dh_ofsUser (m_dbHeader s)"
        using xr by (auto simp: roots_def)
      ultimately show ?thesis
        using table_distinct(4) [OF tab] set hdr(1) by (auto simp: roots_def comp_def)
    qed
  next
    fix cc
    assume "cc \<in> set ?ccs'"
    then have cc: "cc = plain_contact ?i ?x \<or> cc \<in> set ccs" using set' by auto
    then show "cc_contactID cc < m_dwMaxContactId ?t"
      using tab succ_less [OF id(2)] unfolding hdr(5) by (auto simp: table_ok_def less_imp_le)
    assume "IsSub cc"
    then have "cc \<in> set ccs" using cc by auto
    then show "cc_parentID cc \<in> cc_contactID ` set ?ccs'" "parents ?ccs' (cc_parentID cc) = 0"
      using tab \<open>IsSub cc\<close> unfolding P set' by (auto simp: table_ok_def)
  qed
  moreover have "links_ok ?t ?ccs'"
  proof -
    obtain cs where cs: "contact_chain (m_objs s) (dh_ofsFirstContact (m_dbHeader s)) cs" "distinct cs"
      "set cs = cc_dwOfsContact ` set ccs" "dh_contactCount (m_dbHeader s) = of_nat (length ccs)"
      using db_repD(7) [OF rep] by (auto simp: links_ok_def)
    have "contact_chain ?g (dh_ofsFirstContact (m_dbHeader s)) cs"
      using old by (intro contact_chain_kept [OF cs(1)]) auto
    then have "contact_chain ?g ?x (?x # cs)" by simp
    moreover have "?x \<notin> set cs" using xr cs(3) by (auto simp: roots_def)
    moreover have "length ?ccs' = Suc (length ccs)" using l(2) by simp
    then have "(of_nat (length ?ccs') :: u32) = of_nat (length ccs) + 1" by (simp only: of_nat_Suc add.commute)
    ultimately show ?thesis
      unfolding links_ok_def objs hdr(2,3) using cs(2-4) unfolding set' by (intro conjI exI [of _ "?x # cs"]) auto
  qed
  moreover have "root_ok ?P (H(?i := [])) ?g j y \<and>
      (?P j = 0 \<longrightarrow> hist_ok ?P ?g j ((H(?i := [])) j) \<and> hist_mods ?g ((H(?i := [])) j))"
    if jy: "(j, y) \<in> insert (?i, ?x) (set (roots s ccs))" for j y
  proof (cases "j = ?i")
    case True
    then have "y = ?x" using jy ir by auto
    then show ?thesis
      using True parents_out [OF new]
      by (simp add: root_ok_def record_ok_def own_events_def events_of_def ends_ok_def zero_contact_def hist_ok_def hist_mods_def)
  next
    case False
    then have r: "(j, y) \<in> set (roots s ccs)" using jy by auto
    have "?P j \<noteq> ?i \<or> ?P j = 0"
      using parent_known(2) [OF tab, of j] new by metis
    then have same: "own_events ?P (H(?i := [])) j = own_events ?P H j" "events_of ?P (H(?i := [])) j = events_of ?P H j"
      using False by (auto simp: own_events_def events_of_def)
    obtain c where c: "m_objs s y = Some (ObjContact c)" "record_ok c (own_events ?P H j) (length (events_of ?P H j))"
      using db_rep_root [OF rep r] .
    have "hist_ok ?P ?g j (H j)" "hist_mods ?g (H j)" if "?P j = 0"
    proof -
      show "hist_ok ?P ?g j (H j)"
        using hist_kept [OF db_rep_hist(1) [OF rep r that]] hist_event [OF rep r that] x(1) by (metis fun_upd_apply option.distinct(1))
      show "hist_mods ?g (H j)" using db_rep_hist(2) [OF rep r that] old unfolding hist_mods_def by fastforce
    qed
    then show ?thesis using c old [of y] same False by (simp add: root_ok_def)
  qed
  moreover have "\<exists>S. settings_rep ?g (insert (?i, ?x) (set (roots s ccs))) S"
  proof -
    obtain S where "settings_rep (m_objs s) (set (roots s ccs)) S" using db_rep_settings [OF rep] .
    moreover have "settings_kept (m_objs s) ?g (snd ` set (roots s ccs))"
      by (rule settings_keptI) (simp_all add: old del: fun_upd_apply)
    ultimately have "settings_rep ?g (set (roots s ccs)) S" by (rule settings_rep_kept)
    moreover have "contact_settings ?g ?x []" by (simp add: contact_settings_def groups_ok_def zero_contact_def)
    moreover have "?i \<notin> fst ` set (roots s ccs)" using ir by force
    ultimately have "settings_rep ?g (insert (?i, ?x) (set (roots s ccs))) (S(?i := []))" by (intro settings_rep_new)
    then show ?thesis by (rule exI [of _ "S(?i := [])"])
  qed
  ultimately have "db_rep ?t ?ccs' (H(?i := []))"
    unfolding db_rep_def P rts objs by blast
  moreover have "\<exists>e. m_objs s y = Some (ObjEvent e)" if "m_objs ?t y = Some (ObjEvent f)" for y f
    using that unfolding objs by (auto split: if_splits)
  ultimately show ?thesis using that [OF add _ set' new hdr(5,4)] by blast
qed

end
