(* ===== verification/DbDelete.thy ===== *)
theory DbDelete imports DbTable begin

text \<open>
  Deleting a contact: its events, its place in the chain of contacts, its record and its entry
  of the cache go, the other contacts stay as they are.
\<close>

section \<open>Deleting the events\<close>

lemma DeleteSpace_tables [simp]:
  "m_lMods (DeleteSpace s x n) = m_lMods s" "m_lOfs (DeleteSpace s x n) = m_lOfs s"
  "m_lastmn (DeleteSpace s x n) = m_lastmn s"
  by (simp_all add: DeleteSpace_def Let_def put_header_def)

lemma delete_events_chain:
  assumes "chain (m_objs s) p xs 0" and "\<forall>x \<in> set xs. entry_ok x" and "distinct (map fst xs)" and "space s"
  shows "\<exists>t. delete_events s (hd (map fst xs @ [0])) = Some t \<and> space t \<and> same_but_space s t \<and>
    (\<forall>y. m_objs t y = (if y \<in> fst ` set xs then None else m_objs s y)) \<and>
    m_lMods t = m_lMods s \<and> m_lOfs t = m_lOfs s \<and> m_lastmn t = m_lastmn s"
  using assms
proof (induction xs arbitrary: s p)
  case Nil
  then show ?case by (intro exI [of _ s]) (simp add: space.R_refl delete_events.simps)
next
  case (Cons x xs)
  let ?e = "with_links (snd x) p (hd (map fst xs @ [0]))"
  have x: "m_objs s (fst x) = Some (ObjEvent ?e)" "0 < fst x" using Cons.prems by (auto simp: entry_ok_def)
  let ?s = "DeleteSpace s (fst x) (size_event + int (length (ev_blob ?e)))"
  have n: "size_event + int (length (ev_blob ?e)) = obj_size (ObjEvent ?e)" by simp
  note del = DeleteSpace_spec [OF Cons.prems(4) x(1) n]
  have "chain (m_objs ?s) (fst x) xs 0" using Cons.prems(1,3) del(2) by simp
  then obtain t where t: "delete_events ?s (hd (map fst xs @ [0])) = Some t" "space t" "same_but_space ?s t"
    "\<forall>y. m_objs t y = (if y \<in> fst ` set xs then None else m_objs ?s y)"
    "m_lMods t = m_lMods ?s" "m_lOfs t = m_lOfs ?s" "m_lastmn t = m_lastmn ?s"
    using Cons.IH [of ?s "fst x"] Cons.prems(2,3) del(1) by auto
  have "delete_events s (hd (map fst (x # xs) @ [0])) = Some t"
    using x t(1) by (subst delete_events.simps) simp
  moreover have "same_but_space s t" using del(3) t(3) space.R_trans by blast
  moreover have "\<forall>y. m_objs t y = (if y \<in> fst ` set (x # xs) then None else m_objs s y)" using t(4) del(2) by simp
  moreover have "m_lMods t = m_lMods s" "m_lOfs t = m_lOfs s" "m_lastmn t = m_lastmn s" using t(5-7) by simp_all
  ultimately show ?case using t(2) by blast
qed

section \<open>The chain of contacts\<close>

primrec contact_seg :: "(int \<Rightarrow> dbobj option) \<Rightarrow> int \<Rightarrow> int list \<Rightarrow> int \<Rightarrow> bool" where
  "contact_seg h f [] n \<longleftrightarrow> f = n"
| "contact_seg h f (x # xs) n \<longleftrightarrow> f = x \<and> (\<exists>c. h x = Some (ObjContact c) \<and> contact_seg h (dc_ofsNext c) xs n)"

lemma contact_chain_append: "contact_chain h f (as @ bs) \<longleftrightarrow> (\<exists>m. contact_seg h f as m \<and> contact_chain h m bs)"
  by (induction as arbitrary: f) auto

lemma contact_seg_upd: "contact_seg h f xs n \<Longrightarrow> x \<notin> set xs \<Longrightarrow> contact_seg (h(x := v)) f xs n"
  by (induction xs arbitrary: f) auto

lemma contact_chain_upd: "contact_chain h f xs \<Longrightarrow> x \<notin> set xs \<Longrightarrow> contact_chain (h(x := v)) f xs"
  by (induction xs arbitrary: f) auto

lemma contact_before_chain:
  assumes "contact_seg (m_objs s) f as a" and "m_objs s a = Some (ObjContact ca)" and "dc_ofsNext ca = x"
    and "distinct as" and "x \<notin> set as" and "a \<notin> set as" and "x \<noteq> a" and "\<forall>y \<in> set (a # as). 0 < y"
  shows "contact_before s x f = Some a"
  using assms
proof (induction as arbitrary: f)
  case Nil
  then show ?case by (subst contact_before.simps) (simp add: DBRead_contact_def)
next
  case (Cons y ys)
  then obtain c where c: "f = y" "m_objs s y = Some (ObjContact c)" "contact_seg (m_objs s) (dc_ofsNext c) ys a" by auto
  have "dc_ofsNext c \<in> set (a # ys)" using c(3) by (cases ys) auto
  then have "dc_ofsNext c \<noteq> x" "dc_ofsNext c \<noteq> 0" using Cons.prems by auto
  then show ?case using c Cons by (subst contact_before.simps) (simp add: DBRead_contact_def)
qed

definition header_but_first :: "CDb3Mmap \<Rightarrow> CDb3Mmap \<Rightarrow> bool" where
  "header_but_first s t \<longleftrightarrow> t = (put_header s (dh_ofsFirstContact_update (\<lambda>_. dh_ofsFirstContact (m_dbHeader t))))\<lparr>m_objs := m_objs t\<rparr>"

lemma unlink_contact_chain:
  assumes ch: "contact_chain (m_objs s) (dh_ofsFirstContact (m_dbHeader s)) cs" and "distinct cs" and pos: "\<forall>y \<in> set cs. 0 < y"
    and x: "x \<in> set cs"
  obtains t where "unlink_contact s x = Some t" and "header_but_first s t"
    and "contact_chain (m_objs t) (dh_ofsFirstContact (m_dbHeader t)) (remove1 x cs)"
    and "\<And>y. m_objs t y = m_objs s y \<or>
      (y \<noteq> x \<and> (\<exists>c n. m_objs s y = Some (ObjContact c) \<and> m_objs t y = Some (ObjContact (c\<lparr>dc_ofsNext := n\<rparr>))))"
proof -
  obtain as bs where cs: "cs = as @ x # bs" using x by (meson split_list)
  have nx: "x \<notin> set as" "x \<notin> set bs" and rem: "remove1 x cs = as @ bs" using assms(2) cs by (auto simp: remove1_append)
  let ?f = "dh_ofsFirstContact (m_dbHeader s)"
  obtain c where c: "contact_seg (m_objs s) ?f as x" "m_objs s x = Some (ObjContact c)"
    "contact_chain (m_objs s) (dc_ofsNext c) bs"
    using ch unfolding cs by (auto simp: contact_chain_append)
  have rd: "DBRead_contact s x = Some c" using c(2) pos x by (auto simp: DBRead_contact_def)
  show ?thesis
  proof (cases as rule: rev_cases)
    case Nil
    let ?t = "put_header s (dh_ofsFirstContact_update (\<lambda>_. dc_ofsNext c))"
    have "unlink_contact s x = Some ?t" using rd c(1) Nil by (simp add: unlink_contact_def)
    then show ?thesis
      using that c(3) Nil unfolding rem by (auto simp: put_header_def header_but_first_def)
  next
    case (snoc as' a)
    then obtain ca where ca: "contact_seg (m_objs s) ?f as' a" "m_objs s a = Some (ObjContact ca)" "dc_ofsNext ca = x"
      using ch unfolding cs by (auto simp: contact_chain_append)
    have d: "distinct as'" "x \<notin> set as'" "a \<notin> set as'" "x \<noteq> a" "a \<notin> set bs" "\<forall>y \<in> set (a # as'). 0 < y"
      using assms(2) pos cs snoc by auto
    have "?f \<in> set (a # as')" using ca(1) by (cases as') auto
    then have "?f \<noteq> x" using d by auto
    moreover have "contact_before s x ?f = Some a" by (rule contact_before_chain [OF ca d(1-4,6)])
    moreover have "DBRead_contact s a = Some ca" using ca(2) d(6) by (simp add: DBRead_contact_def)
    ultimately have "unlink_contact s x = Some (DBWrite s a (ObjContact (ca\<lparr>dc_ofsNext := dc_ofsNext c\<rparr>)))"
      using rd by (simp add: unlink_contact_def)
    moreover have "contact_chain ((m_objs s)(a \<mapsto> ObjContact (ca\<lparr>dc_ofsNext := dc_ofsNext c\<rparr>))) ?f (as' @ a # bs)"
      using contact_seg_upd [OF ca(1) d(3)] contact_chain_upd [OF c(3) d(5)] by (auto simp: contact_chain_append)
    ultimately show ?thesis
      using ca(2) d(4) snoc rem
      by (intro that [of "DBWrite s a (ObjContact (ca\<lparr>dc_ofsNext := dc_ofsNext c\<rparr>))"])
        (auto simp: DBWrite_def put_header_def header_but_first_def)
  qed
qed

section \<open>Deleting a contact\<close>

lemma FreeCachedContact_rep:
  assumes "table_ok s ccs" and "m_lContacts t = m_lContacts s" and "lookup ccs i = Some cc"
  obtains l ccs' where "FreeCachedContact t i = Some (t\<lparr>m_lContacts := l\<rparr>)"
    and "table_rep (NumericKeySortT cc_contactID) l ccs'" and "set ccs = insert cc (set ccs')"
    and "distinct (map cc_contactID ccs')" and "i \<notin> cc_contactID ` set ccs'" and "length ccs = Suc (length ccs')"
    and "distinct (map cc_dwOfsContact ccs')" and "cc_dwOfsContact cc \<notin> cc_dwOfsContact ` set ccs'"
proof -
  have rep: "table_rep (NumericKeySortT cc_contactID) (m_lContacts t) ccs" using assms(1,2) by (simp add: table_ok_def)
  note d = table_distinct [OF assms(1)]
  have cc: "cc \<in> set ccs" "cc_contactID cc = i" using lookup_Some [OF assms(3)] by auto
  obtain k where k: "LIST_getIndex (m_lContacts t) (Some (contact_key i)) = Some k"
    using numeric_table.getIndex_total [OF rep] .
  have k1: "k \<noteq> -1"
    using numeric_table.getIndex_absent [OF rep, of "contact_key i"] k cc by (auto split: if_splits)
  then have b: "0 \<le> k" "k < int (length ccs)" "cc_contactID (ccs ! nat k) = i"
    using numeric_table.getIndex_present [OF rep k] by (auto split: if_splits)
  then have at: "ccs ! nat k = cc" using lookup_unique [OF d(1), of "ccs ! nat k"] assms(3) by simp
  obtain l where l: "List_Remove (m_lContacts t) k = Some (1, l)"
    "table_rep (NumericKeySortT cc_contactID) l (take (nat k) ccs @ drop (Suc (nat k)) ccs)"
    using numeric_table.Remove_spec [OF rep b(1,2)] .
  define as bs where "as = take (nat k) ccs" and "bs = drop (Suc (nat k)) ccs"
  have split: "ccs = as @ cc # bs" using id_take_nth_drop [of "nat k" ccs] b at by (simp add: as_def bs_def)
  have "FreeCachedContact t i = Some (t\<lparr>m_lContacts := l\<rparr>)" using k k1 l(1) by (simp add: FreeCachedContact_def)
  moreover have "table_rep (NumericKeySortT cc_contactID) l (as @ bs)" using l(2) by (simp add: as_def bs_def)
  ultimately show ?thesis using d(1,3) cc(2) split by (intro that [of l "as @ bs"]) auto
qed

lemma record_ok_next: "record_ok (c\<lparr>dc_ofsNext := n\<rparr>) xs k \<longleftrightarrow> record_ok c xs k"
  by (simp add: record_ok_def ends_ok_def)

lemma header_but_first_fields:
  assumes "header_but_first s t"
  shows "file_end t = file_end s" "dh_ofsUser (m_dbHeader t) = dh_ofsUser (m_dbHeader s)"
    "dh_contactCount (m_dbHeader t) = dh_contactCount (m_dbHeader s)" "m_lContacts t = m_lContacts s"
    "m_dwMaxContactId t = m_dwMaxContactId s" "m_ChunkSize t = m_ChunkSize s" "m_bReadOnly t = m_bReadOnly s"
    "m_lMods t = m_lMods s" "m_lOfs t = m_lOfs s" "m_lastmn t = m_lastmn s"
  by (subst assms [unfolded header_but_first_def]; simp add: put_header_def)+

lemma DeleteContact_rep:
  assumes rep: "db_rep s ccs H" and cc: "lookup ccs i = Some cc" and own: "parents ccs i = 0"
    and nosub: "\<forall>j. parents ccs j \<noteq> i"
  obtains t ccs' where "DeleteContact s i = Some (0, t)" and "db_rep t ccs' (H(i := []))"
    and "set ccs = insert cc (set ccs')" and "i \<notin> cc_contactID ` set ccs'"
    and "\<And>y e. m_objs t y = Some (ObjEvent e) \<Longrightarrow> y \<notin> fst ` set (H i) \<and> (\<exists>e. m_objs s y = Some (ObjEvent e))"
proof -
  let ?P = "parents ccs" and ?x = "cc_dwOfsContact cc"
  note base = db_repD(1) [OF rep] and sp = db_repD(2) [OF rep] and tab = db_repD(6) [OF rep]
  have root: "(i, ?x) \<in> set (roots s ccs)" by (rule lookup_root [OF cc])
  have i0: "i \<noteq> 0" using table_distinct(2) [OF tab] lookup_Some [OF cc] by auto
  have ofs: "GetContactOffset s i = Some (?x, Some cc)" using GetContactOffset_rep [OF tab root] i0 cc by simp
  obtain c where c: "m_objs s ?x = Some (ObjContact c)" "record_ok c (H i) (length (H i))"
    using db_rep_root [OF rep root] own by (auto simp: own_events_def events_of_def)
  have x0: "0 < ?x" using c(1) space_inside [OF sp] by blast
  have rd: "DBRead_contact s ?x = Some c" using c(1) x0 by (simp add: DBRead_contact_def)
  have sig: "signature_at s ?x = DBCONTACT_SIGNATURE" using c x0 by (simp add: signature_at_def record_ok_def)
  have user: "?x \<noteq> dh_ofsUser (m_dbHeader s)" using table_distinct(4) [OF tab] lookup_Some [OF cc] by (metis imageI)
  note hist = db_rep_hist [OF rep root own]
  have h: "chain (m_objs s) 0 (H i) 0" "\<forall>y \<in> set (H i). entry_ok y" "distinct (map fst (H i))"
    using hist(1) by (auto simp: hist_ok_def)
  have ev: "\<exists>e. m_objs s y = Some (ObjEvent e)" if "y \<in> fst ` set (H i)" for y
    using hist_event [OF rep root own that] by blast
  obtain S where S: "settings_rep (m_objs s) (set (roots s ccs)) S" using db_rep_settings [OF rep] .
  have gs: "settings_chain (m_objs s) (dc_ofsFirstSettings c) (S i)" "distinct (map fst (S i))"
    using S root c(1) contact_settingsE [of "m_objs s" ?x "S i" c] by (auto simp: settings_rep_def groups_ok_def)
  have grp: "\<exists>g. m_objs s y = Some (ObjSettings g)" if "y \<in> fst ` set (S i)" for y
    using settings_chain_object [OF gs(1)] that by auto
  obtain t0 where t0: "delete_settings s (dc_ofsFirstSettings c) = Some t0" "space t0" "same_but_space s t0"
    "\<And>y. m_objs t0 y = (if y \<in> fst ` set (S i) then None else m_objs s y)"
    "m_lMods t0 = m_lMods s" "m_lOfs t0 = m_lOfs s" "m_lastmn t0 = m_lastmn s"
    using delete_settings_chain [OF gs sp] by blast
  have "m_objs t0 y = m_objs s y" if "y \<in> fst ` set (H i)" for y
  proof -
    have "y \<notin> fst ` set (S i)" using ev [OF that] grp by fastforce
    then show ?thesis using t0(4) by simp
  qed
  then have h0: "chain (m_objs t0) 0 (H i) 0" using h(1) by (simp cong: chain_cong)
  obtain t1 where t1: "delete_events t0 (dc_ofsFirstEvent c) = Some t1" "space t1" "same_but_space t0 t1"
    "\<And>y. m_objs t1 y = (if y \<in> fst ` set (H i) then None else m_objs t0 y)"
    "m_lMods t1 = m_lMods t0" "m_lOfs t1 = m_lOfs t0" "m_lastmn t1 = m_lastmn t0"
    using delete_events_chain [OF h0 h(2,3) t0(2)] c(2) by (auto simp: record_ok_def ends_ok_def)
  have same1: "same_but_space s t1" using t0(3) t1(3) by (rule space.R_trans)
  define gone where "gone = fst ` set (H i) \<union> fst ` set (S i)"
  have t1_objs: "m_objs t1 y = (if y \<in> gone then None else m_objs s y)" for y
    using t1(4) [of y] t0(4) [of y] by (simp add: gone_def)
  have gone: "(\<exists>e. m_objs s y = Some (ObjEvent e)) \<or> (\<exists>g. m_objs s y = Some (ObjSettings g))" if "y \<in> gone" for y
    using that ev [of y] grp [of y] unfolding gone_def by blast
  have con1: "m_objs t1 y = Some (ObjContact d) \<longleftrightarrow> m_objs s y = Some (ObjContact d)" for y d
    using t1_objs [of y] gone [of y] by auto
  note hd1 = header_fields [OF same1]
  obtain cs where cs: "contact_chain (m_objs s) (dh_ofsFirstContact (m_dbHeader s)) cs" "distinct cs"
    "set cs = cc_dwOfsContact ` set ccs" "dh_contactCount (m_dbHeader s) = of_nat (length ccs)"
    using db_repD(7) [OF rep] by (auto simp: links_ok_def)
  have rootc: "\<exists>c. m_objs s y = Some (ObjContact c)" if "(j, y) \<in> set (roots s ccs)" for j y
    using db_rep_root [OF rep that] by blast
  have "\<exists>j. (j, y) \<in> set (roots s ccs)" if "y \<in> set cs" for y using that cs(3) by (auto simp: roots_set)
  then have pos: "\<forall>y \<in> set cs. 0 < y" using rootc space_inside [OF sp] by blast
  have "contact_chain (m_objs t1) (dh_ofsFirstContact (m_dbHeader t1)) cs"
    unfolding hd1 using con1 by (intro contact_chain_kept [OF cs(1)]) auto
  moreover have "?x \<in> set cs" using cs(3) lookup_Some [OF cc] by auto
  ultimately obtain t2 where t2: "unlink_contact t1 ?x = Some t2" "header_but_first t1 t2"
    "contact_chain (m_objs t2) (dh_ofsFirstContact (m_dbHeader t2)) (remove1 ?x cs)"
    "\<And>y. m_objs t2 y = m_objs t1 y \<or>
      (y \<noteq> ?x \<and> (\<exists>c n. m_objs t1 y = Some (ObjContact c) \<and> m_objs t2 y = Some (ObjContact (c\<lparr>dc_ofsNext := n\<rparr>))))"
    using unlink_contact_chain [OF _ cs(2) pos] by blast
  note hd2 = header_but_first_fields [OF t2(2)]
  have shape: "same_shape (m_objs t2) (m_objs t1)" using t2(4) by (intro same_shapeI) blast
  have sp2: "space t2" using t1(2) same_shape_space [OF shape] hd2(1) by simp
  have x2: "m_objs t2 ?x = Some (ObjContact c)" using t2(4) [of ?x] con1 [of ?x c] c(1) by auto
  let ?t3 = "DeleteSpace t2 ?x size_contact"
  have n: "size_contact = obj_size (ObjContact c)" by simp
  note del = DeleteSpace_spec [OF sp2 x2 n]
  let ?t4 = "put_header ?t3 (dh_contactCount_update (\<lambda>n. n - 1))"
  have t4: "m_lContacts ?t4 = m_lContacts s" using header_fields(4) [OF del(3)] hd2(4) hd1(4) by (simp add: put_header_def)
  obtain l ccs' where l: "FreeCachedContact ?t4 i = Some (?t4\<lparr>m_lContacts := l\<rparr>)"
    "table_rep (NumericKeySortT cc_contactID) l ccs'" "set ccs = insert cc (set ccs')" "distinct (map cc_contactID ccs')"
    "i \<notin> cc_contactID ` set ccs'" "length ccs = Suc (length ccs')" "distinct (map cc_dwOfsContact ccs')"
    "?x \<notin> cc_dwOfsContact ` set ccs'"
    using FreeCachedContact_rep [OF tab t4 cc] .
  define tt where "tt = (if i = m_hLastCachedContact ?t4 then ?t4\<lparr>m_lContacts := l, m_hLastCachedContact := 0\<rparr> else ?t4\<lparr>m_lContacts := l\<rparr>)"
  have D: "DeleteContact s i = Some (0, tt)"
    using ofs sig user rd t0(1) t1(1) t2(1) l(1) by (simp add: DeleteContact_def Let_def tt_def)
  have obj: "m_objs tt = (m_objs t2)(?x := None)" using del(2) by (simp add: put_header_def tt_def)
  have x_t: "m_objs tt ?x = None" unfolding obj by simp
  have ev_t: "m_objs tt y = None" if "y \<in> gone" for y
    unfolding obj using that t2(4) [of y] t1_objs [of y] by auto
  have con_t: "\<exists>n. m_objs tt y = Some (ObjContact (d\<lparr>dc_ofsNext := n\<rparr>))"
    if "m_objs s y = Some (ObjContact d)" "y \<noteq> ?x" for y d
  proof -
    have "m_objs t1 y = Some (ObjContact d)" using con1 that(1) by simp
    moreover have "\<exists>n. d = d\<lparr>dc_ofsNext := n\<rparr>" by (rule exI [of _ "dc_ofsNext d"]) simp
    ultimately show ?thesis unfolding obj using t2(4) [of y] that(2) by auto
  qed
  have oth_t: "m_objs tt y = m_objs s y"
    if "y \<notin> gone" "\<nexists>d. m_objs s y = Some (ObjContact d)" for y
  proof -
    have "y \<noteq> ?x" using that(2) c(1) by auto
    moreover have "\<nexists>d. m_objs t1 y = Some (ObjContact d)" using con1 that(2) by auto
    ultimately show ?thesis unfolding obj using that(1) t2(4) [of y] t1_objs [of y] by auto
  qed
  have mods: "m_objs tt y = Some (ObjModule m) \<longleftrightarrow> m_objs s y = Some (ObjModule m)" for y m
  proof -
    consider "y \<in> gone" | d where "m_objs s y = Some (ObjContact d)"
      | "y \<notin> gone" "\<nexists>d. m_objs s y = Some (ObjContact d)" by blast
    then show ?thesis
    proof cases
      case 1
      then show ?thesis using gone [OF 1] ev_t [OF 1] by auto
    next
      case (2 d)
      then show ?thesis using con_t [OF 2] x_t by (cases "y = ?x") auto
    qed (use oth_t [of y] in simp)
  qed
  have hdr: "file_end tt = file_end ?t3" "dh_ofsUser (m_dbHeader tt) = dh_ofsUser (m_dbHeader s)"
    "dh_ofsFirstContact (m_dbHeader tt) = dh_ofsFirstContact (m_dbHeader t2)"
    "dh_contactCount (m_dbHeader tt) = dh_contactCount (m_dbHeader s) - 1"
    "m_lContacts tt = l" "m_dwMaxContactId tt = m_dwMaxContactId s" "m_lMods tt = m_lMods s" "m_lOfs tt = m_lOfs s"
    "m_lastmn tt = m_lastmn s"
    using header_fields [OF del(3)] hd2 hd1 t1(5-7) t0(5-7) by (simp_all add: put_header_def tt_def)
  have "m_ChunkSize tt = m_ChunkSize s" "m_bReadOnly tt = m_bReadOnly s"
    using del(3) hd2(6,7) same1 by (simp_all add: same_but_space_def put_header_def tt_def)
  then have "base_ok tt"
    using base del(1) hdr(1) mods_ok_cong [of tt s] hdr(7-9) names_cong [of "m_objs tt" "m_objs s", OF mods] del(2) obj
    by (simp add: base_ok_def)
  have dist: "distinct (map cc_contactID ccs)" by (rule table_distinct(1) [OF tab])
  have look: "lookup ccs' j = lookup ccs j" if "j \<noteq> i" for j
    using lookup_cong [OF l(4,3) dist] that lookup_Some [OF cc] by auto
  have P: "parents ccs' = ?P"
  proof
    fix j
    show "parents ccs' j = ?P j"
      using parents_out [OF l(5)] own look [of j] by (cases "j = i") (simp_all add: parents_def)
  qed
  have rts: "set (roots s ccs) = insert (i, ?x) (set (roots tt ccs'))"
    unfolding roots_set hdr(2) l(3) using lookup_Some [OF cc] by auto
  have ir: "(i, y) \<notin> set (roots tt ccs')" for y using l(5) i0 unfolding roots_set by auto
  have old: "(j, y) \<in> set (roots s ccs)" "y \<noteq> ?x" "j \<noteq> i" if "(j, y) \<in> set (roots tt ccs')" for j y
    using that rts ir [of y] root_unique [OF tab _ root, of j y] by blast+
  have "table_ok tt ccs'"
    unfolding table_ok_def
  proof (intro conjI ballI impI)
    show "table_rep (NumericKeySortT cc_contactID) (m_lContacts tt) ccs'" using l(2) hdr(5) by simp
    have sub: "set ccs' \<subseteq> set ccs" using l(3) by auto
    show "distinct (map fst (roots tt ccs'))"
      using l(4) table_distinct(2) [OF tab] sub by (auto simp: roots_def comp_def)
    have "dh_ofsUser (m_dbHeader s) \<notin> cc_dwOfsContact ` set ccs'" using table_distinct(4) [OF tab] sub by blast
    then show "distinct (map snd (roots tt ccs'))" unfolding roots_def hdr(2) using l(7) by (simp add: comp_def)
  next
    fix d
    assume d: "d \<in> set ccs'"
    then have "d \<in> set ccs" using l(3) by simp
    then show "cc_contactID d < m_dwMaxContactId tt" using tab unfolding hdr(6) by (simp add: table_ok_def)
    assume "IsSub d"
    then have p: "cc_parentID d \<in> cc_contactID ` set ccs" "?P (cc_parentID d) = 0"
      using tab \<open>d \<in> set ccs\<close> by (auto simp: table_ok_def)
    have "cc_parentID d \<noteq> i" using nosub parents_in [OF dist \<open>d \<in> set ccs\<close>] by metis
    then show "cc_parentID d \<in> cc_contactID ` set ccs'" using p(1) lookup_Some [OF cc] unfolding l(3) by auto
    show "parents ccs' (cc_parentID d) = 0" using p(2) P by simp
  qed
  moreover have "links_ok tt ccs'"
  proof -
    have "contact_chain (m_objs tt) (dh_ofsFirstContact (m_dbHeader t2)) (remove1 ?x cs)"
      unfolding obj using cs(2) by (intro contact_chain_upd [OF t2(3)]) simp
    moreover have "set (remove1 ?x cs) = cc_dwOfsContact ` set ccs'" using cs(2,3) l(3,8) by auto
    moreover have "(of_nat (length ccs') :: u32) = of_nat (length ccs) - 1" using l(6) by simp
    ultimately show ?thesis unfolding links_ok_def hdr(3,4) using cs(2,4) by auto
  qed
  moreover have "root_ok ?P (H(i := [])) (m_objs tt) j y \<and>
      (?P j = 0 \<longrightarrow> hist_ok ?P (m_objs tt) j ((H(i := [])) j) \<and> hist_mods (m_objs tt) ((H(i := [])) j))"
    if jy: "(j, y) \<in> set (roots tt ccs')" for j y
  proof -
    note o = old [OF jy]
    obtain d where d: "m_objs s y = Some (ObjContact d)" "record_ok d (own_events ?P H j) (length (events_of ?P H j))"
      using db_rep_root [OF rep o(1)] .
    have "own_events ?P (H(i := [])) j = own_events ?P H j" "events_of ?P (H(i := [])) j = events_of ?P H j"
      using o(3) nosub by (auto simp: own_events_def events_of_def)
    then have "root_ok ?P (H(i := [])) (m_objs tt) j y"
      using con_t [OF d(1) o(2)] d(2) by (auto simp: root_ok_def record_ok_next)
    moreover have "hist_ok ?P (m_objs tt) j (H j)" "hist_mods (m_objs tt) (H j)" if Pj: "?P j = 0"
    proof -
      have "m_objs tt z = m_objs s z" if z: "z \<in> fst ` set (H j)" for z
      proof -
        obtain e where e: "m_objs s z = Some (ObjEvent e)" "chain_of ?P (ev_contactID e) = j"
          using hist_event [OF rep o(1) Pj z] .
        have "z \<notin> fst ` set (H i)" using hist_event [OF rep root own, of z] e o(3) by (metis option.inject dbobj.inject(4))
        then have "z \<notin> gone" using e(1) grp [of z] unfolding gone_def by auto
        then show ?thesis using e(1) by (intro oth_t) auto
      qed
      then show "hist_ok ?P (m_objs tt) j (H j)" by (intro hist_kept [OF db_rep_hist(1) [OF rep o(1) Pj]]) auto
      show "hist_mods (m_objs tt) (H j)" using db_rep_hist(2) [OF rep o(1) Pj] unfolding hist_mods_def mods .
    qed
    ultimately show ?thesis using o(3) by simp
  qed
  moreover have "\<exists>S. settings_rep (m_objs tt) (set (roots tt ccs')) S"
  proof (rule exI, rule settings_rep_remove [OF S])
    show "set (roots tt ccs') \<subseteq> set (roots s ccs)" "i \<in> fst ` set (roots s ccs)" using rts by force+
    show "i \<notin> fst ` set (roots tt ccs')" using ir by force
    show "\<exists>c'. m_objs tt y = Some (ObjContact c') \<and> dc_ofsFirstSettings c' = dc_ofsFirstSettings d"
      if "y \<in> snd ` set (roots tt ccs')" "m_objs s y = Some (ObjContact d)" for y d
      using that con_t [OF that(2)] old(2) by force
    show "m_objs tt y = m_objs s y" if "y \<notin> fst ` set (S i)" "m_objs s y = Some (ObjSettings g)" for y g
      using that ev [of y] by (intro oth_t) (auto simp: gone_def)
    show "m_objs tt y = m_objs s y" if "m_objs s y = Some (ObjModule m)" for y m using mods [of y m] that by simp
  qed
  ultimately have "db_rep tt ccs' (H(i := []))" using \<open>base_ok tt\<close> unfolding db_rep_def P by blast
  moreover have "y \<notin> fst ` set (H i) \<and> (\<exists>e. m_objs s y = Some (ObjEvent e))"
    if f: "m_objs tt y = Some (ObjEvent f)" for y f
  proof -
    have "y \<noteq> ?x" "y \<notin> gone" using f x_t ev_t [of y] by auto
    moreover have "\<nexists>d. m_objs s y = Some (ObjContact d)" using con_t [of y] f \<open>y \<noteq> ?x\<close> by auto
    ultimately show ?thesis using oth_t [of y] f unfolding gone_def by (metis (no_types) UnI1)
  qed
  ultimately show ?thesis using that [OF D _ l(3,5)] by blast
qed

end
