(* ===== verification/DbOps.thy ===== *)
theory DbOps imports DbDelete begin

text \<open>
  The operations of the driver as a whole, with the handlers of its notifications: what they
  return and that they keep the invariant when the handlers do.
\<close>

section \<open>The database in order\<close>

definition cached :: "CDb3Mmap \<Rightarrow> DBCachedContact list" where
  "cached s = contents (m_lContacts s)"

lemma cached_table: "table_ok s ccs \<Longrightarrow> cached s = ccs"
  by (simp add: cached_def table_ok_def table_rep_def contents_rep)

text \<open>Every event in the file is in a history.\<close>

definition listed :: "CDb3Mmap \<Rightarrow> DBCachedContact list \<Rightarrow> (u32 \<Rightarrow> entry list) \<Rightarrow> bool" where
  "listed s ccs H \<longleftrightarrow>
     (\<forall>x e. m_objs s x = Some (ObjEvent e) \<longrightarrow>
        (\<exists>i \<in> fst ` set (roots s ccs). parents ccs i = 0 \<and> x \<in> fst ` set (H i)))"

definition db_state :: "CDb3Mmap \<Rightarrow> DBCachedContact list \<Rightarrow> (u32 \<Rightarrow> entry list) \<Rightarrow> bool" where
  "db_state s ccs H \<longleftrightarrow> db_rep s ccs H \<and> listed s ccs H"

definition db_ok :: "CDb3Mmap \<Rightarrow> bool" where
  "db_ok s \<longleftrightarrow> (\<exists>H. db_state s (cached s) H)"

lemma db_stateI: "db_rep s ccs H \<Longrightarrow> listed s ccs H \<Longrightarrow> db_ok s"
  using cached_table [of s ccs] db_repD(6) [of s ccs H] by (auto simp: db_ok_def db_state_def)

lemma db_okE:
  assumes "db_ok s"
  obtains H where "db_rep s (cached s) H" and "listed s (cached s) H"
  using assms by (auto simp: db_ok_def db_state_def)

lemma listed_update:
  assumes "listed s ccs H" and "roots t ccs = roots s ccs" and "(i, ofs) \<in> set (roots s ccs)" and "parents ccs i = 0"
    and "\<And>y e. m_objs t y = Some (ObjEvent e) \<Longrightarrow>
      y \<in> fst ` set xs \<or> y \<notin> fst ` set (H i) \<and> (\<exists>e. m_objs s y = Some (ObjEvent e))"
  shows "listed t ccs (H(i := xs))"
  unfolding listed_def
proof (intro allI impI)
  fix y e
  assume y: "m_objs t y = Some (ObjEvent e)"
  show "\<exists>j \<in> fst ` set (roots t ccs). parents ccs j = 0 \<and> y \<in> fst ` set ((H(i := xs)) j)"
  proof (cases "y \<in> fst ` set xs")
    case True
    then show ?thesis using assms(2-4) by (intro bexI [of _ i]) force+
  next
    case False
    then obtain f where "y \<notin> fst ` set (H i)" "m_objs s y = Some (ObjEvent f)" using assms(5) [OF y] by blast
    then obtain j where "j \<in> fst ` set (roots s ccs)" "parents ccs j = 0" "y \<in> fst ` set (H j)" "j \<noteq> i"
      using assms(1) unfolding listed_def by blast
    then show ?thesis using assms(2) by (intro bexI [of _ j]) simp_all
  qed
qed

lemma db_ok_created: "0 < chunk \<Longrightarrow> db_ok (CreateDbHeaders chunk)"
  by (intro db_stateI [OF created_rep]) (auto simp: listed_def CreateDbHeaders_def split: if_splits)

text \<open>Contacts that a state has, and its successor has as well.\<close>

definition contacts_kept :: "CDb3Mmap \<Rightarrow> CDb3Mmap \<Rightarrow> bool" where
  "contacts_kept s t \<longleftrightarrow>
     dh_ofsUser (m_dbHeader t) = dh_ofsUser (m_dbHeader s) \<and>
     (\<forall>i cc. lookup (cached s) i = Some cc \<longrightarrow>
        (\<exists>dd. lookup (cached t) i = Some dd \<and> cc_dwOfsContact dd = cc_dwOfsContact cc \<and> cc_parentID dd = cc_parentID cc))"

interpretation contacts: step_relation contacts_kept
proof
  fix s t u
  show "contacts_kept s s" by (simp add: contacts_kept_def)
  assume st: "contacts_kept s t" and tu: "contacts_kept t u"
  show "contacts_kept s u"
    unfolding contacts_kept_def
  proof (intro conjI allI impI)
    show "dh_ofsUser (m_dbHeader u) = dh_ofsUser (m_dbHeader s)" using st tu by (simp add: contacts_kept_def)
  next
    fix i cc
    assume "lookup (cached s) i = Some cc"
    then obtain dd where "lookup (cached t) i = Some dd" "cc_dwOfsContact dd = cc_dwOfsContact cc" "cc_parentID dd = cc_parentID cc"
      using st unfolding contacts_kept_def by blast
    then show "\<exists>dd. lookup (cached u) i = Some dd \<and> cc_dwOfsContact dd = cc_dwOfsContact cc \<and> cc_parentID dd = cc_parentID cc"
      using tu unfolding contacts_kept_def by metis
  qed
qed

lemma kept_parents:
  assumes "contacts_kept s t" and "i \<in> cc_contactID ` set (cached s)"
  shows "i \<in> cc_contactID ` set (cached t)" "parents (cached t) i = parents (cached s) i"
proof -
  obtain cc where cc: "lookup (cached s) i = Some cc" using assms(2) lookup_None [of "cached s" i] by auto
  then obtain dd where dd: "lookup (cached t) i = Some dd" "cc_parentID dd = cc_parentID cc"
    using assms(1) unfolding contacts_kept_def by blast
  show "i \<in> cc_contactID ` set (cached t)" using lookup_Some [OF dd(1)] by auto
  show "parents (cached t) i = parents (cached s) i" using cc dd by (simp add: parents_def)
qed

section \<open>Handlers\<close>

definition event_at :: "CDb3Mmap \<Rightarrow> int \<Rightarrow> u32 option" where
  "event_at s h = (case m_objs s h of Some (ObjEvent e) \<Rightarrow> Some (ev_contactID e) | _ \<Rightarrow> None)"

text \<open>
  What the driver needs of the handlers: they return, leave the database in order and its contacts
  where they are, do not delete the event whose deletion they are told of, and let the file
  grow by no more than \<open>grow\<close>.
\<close>

locale db_client =
  fixes E :: dbenv and grow :: int
  assumes returns: "db_ok s \<Longrightarrow> \<exists>r t. de_notify E n s = Some (r, t)"
    and keeps_ok: "db_ok s \<Longrightarrow> de_notify E n s = Some (r, t) \<Longrightarrow> db_ok t \<and> contacts_kept s t"
    and grows: "db_ok s \<Longrightarrow> de_notify E n s = Some (r, t) \<Longrightarrow> file_end t \<le> file_end s + grow"
    and grow: "0 \<le> grow"
    and deleting: "db_ok s \<Longrightarrow> de_notify E (EventDeleted i h) s = Some (r, t) \<Longrightarrow> event_at t h = event_at s h"
begin

lemma notify_ok:
  assumes "db_ok s"
  obtains t where "notify E n s = Some t" and "db_ok t" and "contacts_kept s t" and "file_end t \<le> file_end s + grow"
proof -
  obtain r t where "de_notify E n s = Some (r, t)" using returns [OF assms] by blast
  then show ?thesis using that keeps_ok [OF assms] grows [OF assms] by (simp add: notify_def)
qed

end

section \<open>The default subcontact\<close>

lemma change_contact_roots:
  assumes "\<And>cc. cc_contactID (f cc) = cc_contactID cc" "\<And>cc. cc_dwOfsContact (f cc) = cc_dwOfsContact cc"
    "\<And>cc. cc_parentID (f cc) = cc_parentID cc"
  shows "roots (s\<lparr>m_lContacts := l\<rparr>) (change_contact i f ccs) = roots s ccs"
    and "parents (change_contact i f ccs) = parents ccs"
    and "cc_contactID ` set (change_contact i f ccs) = cc_contactID ` set ccs"
    and "lookup (change_contact i f ccs) j = map_option (\<lambda>cc. if cc_contactID cc = i then f cc else cc) (lookup ccs j)"
proof -
  have map_id: "map cc_contactID (change_contact i f ccs) = map cc_contactID ccs"
    using assms(1) by (simp add: change_contact_def)
  show "roots (s\<lparr>m_lContacts := l\<rparr>) (change_contact i f ccs) = roots s ccs"
    using assms by (simp add: roots_def change_contact_def)
  show "cc_contactID ` set (change_contact i f ccs) = cc_contactID ` set ccs"
    using arg_cong [OF map_id, of set] by simp
  have look: "lookup (change_contact i f ccs) j = map_option (\<lambda>cc. if cc_contactID cc = i then f cc else cc) (lookup ccs j)" for j
    using assms by (induction ccs) (auto simp: lookup_def change_contact_def)
  then show "lookup (change_contact i f ccs) j = map_option (\<lambda>cc. if cc_contactID cc = i then f cc else cc) (lookup ccs j)" .
  show "parents (change_contact i f ccs) = parents ccs"
    using assms(3) by (intro ext) (auto simp: parents_def look split: option.split)
qed

lemma change_contact_rep:
  assumes f: "\<And>cc. cc_contactID (f cc) = cc_contactID cc" "\<And>cc. cc_dwOfsContact (f cc) = cc_dwOfsContact cc"
    "\<And>cc. cc_parentID (f cc) = cc_parentID cc"
    and rep: "db_rep s ccs H" and ls: "listed s ccs H"
    and l: "table_rep (NumericKeySortT cc_contactID) l (change_contact i f ccs)"
  shows "db_rep (s\<lparr>m_lContacts := l\<rparr>) (change_contact i f ccs) H" "listed (s\<lparr>m_lContacts := l\<rparr>) (change_contact i f ccs) H"
proof -
  note ch = change_contact_roots [where f = f, OF f]
  have "map cc_dwOfsContact (change_contact i f ccs) = map cc_dwOfsContact ccs" using f by (simp add: change_contact_def)
  from arg_cong [OF this, of set] have "cc_dwOfsContact ` set (change_contact i f ccs) = cc_dwOfsContact ` set ccs" by simp
  then have "links_ok (s\<lparr>m_lContacts := l\<rparr>) (change_contact i f ccs)"
    using db_repD(7) [OF rep] by (simp add: links_ok_def) (simp add: change_contact_def)
  moreover have "table_ok (s\<lparr>m_lContacts := l\<rparr>) (change_contact i f ccs)"
    using db_repD(6) [OF rep] l f(1,3) unfolding table_ok_def ch by (auto simp: change_contact_def IsSub_def)
  moreover have "base_ok (s\<lparr>m_lContacts := l\<rparr>)" using db_repD(1) [OF rep] by (simp add: base_ok_def mods_ok_def)
  ultimately show "db_rep (s\<lparr>m_lContacts := l\<rparr>) (change_contact i f ccs) H" using rep unfolding db_rep_def ch by simp
  show "listed (s\<lparr>m_lContacts := l\<rparr>) (change_contact i f ccs) H" using ls unfolding listed_def ch by simp
qed

lemma setDefault_cases:
  assumes rep: "db_rep s ccs H"
  obtains (same) r where "db_mc_setDefault E s m j = Some (r, s)"
  | (changed) l k where "db_mc_setDefault E s m j = map_option (Pair 0) (notify E (DefaultChanged m j) (s\<lparr>m_lContacts := l\<rparr>))"
    and "table_rep (NumericKeySortT cc_contactID) l (change_contact m (cc_nDefault_update (\<lambda>_. k)) ccs)"
proof -
  note tab = db_repD(6) [OF rep]
  consider "CheckMeta s m = Some None" | cc where "CheckMeta s m = Some (Some cc)" "lookup ccs m = Some cc"
  proof -
    have "CheckMeta s m = Some None \<or> (\<exists>cc. CheckMeta s m = Some (Some cc) \<and> lookup ccs m = Some cc)"
      by (auto simp: CheckMeta_def GetCachedContact_rep [OF tab] split: option.split)
    then show ?thesis using that by blast
  qed
  then show ?thesis
  proof cases
    case 1
    then show ?thesis by (intro same [of 1]) (simp add: db_mc_setDefault_def)
  next
    case (2 cc)
    let ?k = "Meta_GetContactNumber s cc j"
    have m: "m \<in> cc_contactID ` set ccs" using lookup_Some [OF 2(2)] by auto
    obtain l where l: "put_cached s m (cc_nDefault_update (\<lambda>_. ?k)) = Some (s\<lparr>m_lContacts := l\<rparr>)"
      "table_rep (NumericKeySortT cc_contactID) l (change_contact m (cc_nDefault_update (\<lambda>_. ?k)) ccs)"
      by (rule put_cached_rep [of s ccs m "cc_nDefault_update (\<lambda>_. ?k)"])
        (use m tab table_distinct(1) [OF tab] in \<open>auto simp: table_ok_def\<close>)
    show ?thesis
    proof (cases "?k = -1 \<or> cc_nDefault cc = ?k")
      case True
      then show ?thesis
        using 2(1) by (intro same [of "if ?k = -1 then 1 else 0"]) (auto simp: db_mc_setDefault_def Let_def)
    next
      case False
      then have "db_mc_setDefault E s m j = map_option (Pair 0) (notify E (DefaultChanged m j) (s\<lparr>m_lContacts := l\<rparr>))"
        using 2(1) l(1) by (simp add: db_mc_setDefault_def Let_def map_option_case bind_eq_Some_conv split: option.split Option.bind_split)
      then show ?thesis using changed l(2) by blast
    qed
  qed
qed

lemma default_changed:
  assumes "db_rep s ccs H" and "listed s ccs H"
    and l: "table_rep (NumericKeySortT cc_contactID) l (change_contact m (cc_nDefault_update (\<lambda>_. k)) ccs)"
  shows "db_rep (s\<lparr>m_lContacts := l\<rparr>) (change_contact m (cc_nDefault_update (\<lambda>_. k)) ccs) H"
    and "db_ok (s\<lparr>m_lContacts := l\<rparr>)" and "contacts_kept s (s\<lparr>m_lContacts := l\<rparr>)"
    and "parents (change_contact m (cc_nDefault_update (\<lambda>_. k)) ccs) = parents ccs"
proof -
  let ?f = "cc_nDefault_update (\<lambda>_. k)"
  show rep: "db_rep (s\<lparr>m_lContacts := l\<rparr>) (change_contact m ?f ccs) H"
    by (rule change_contact_rep(1) [OF _ _ _ assms]) simp_all
  show "db_ok (s\<lparr>m_lContacts := l\<rparr>)"
    by (rule db_stateI [OF rep], rule change_contact_rep(2) [OF _ _ _ assms]) simp_all
  have c: "cached (s\<lparr>m_lContacts := l\<rparr>) = change_contact m ?f ccs" "cached s = ccs"
    using cached_table db_repD(6) rep assms(1) by blast+
  have "lookup (change_contact m ?f ccs) i = map_option (\<lambda>cc. if cc_contactID cc = m then ?f cc else cc) (lookup ccs i)" for i
    by (rule change_contact_roots(4)) simp_all
  then show "contacts_kept s (s\<lparr>m_lContacts := l\<rparr>)" unfolding contacts_kept_def c by simp
  show "parents (change_contact m ?f ccs) = parents ccs" by (rule change_contact_roots(2)) simp_all
qed

section \<open>Adding an event\<close>

lemma event_target_cases:
  assumes rep: "db_rep s ccs H"
  obtains (known) "parents ccs j = 0" "j = 0 \<or> j \<in> cc_contactID ` set ccs"
      "event_target E s j di = Some (Some (j, j, None), s)"
  | (unknown) "j \<notin> cc_contactID ` set ccs" "j \<noteq> 0" "event_target E s j di = Some (None, s)"
  | (sub) "parents ccs j \<noteq> 0" "j \<noteq> 0" "j \<in> cc_contactID ` set ccs"
      "event_target E s j di =
        do {
          s \<leftarrow> (if di_flags di AND DBEF_SENT = 0
                then map_option snd (db_mc_setDefault E s (parents ccs j) j) else Some s);
          cc \<leftarrow> GetCachedContact s j;
          cc \<leftarrow> cc;
          Some (Some (cc_parentID cc, if m_bMetaEnabled s then cc_parentID cc else j, Some j), s)
        }"
proof -
  note tab = db_repD(6) [OF rep]
  show ?thesis
  proof (cases "j = 0")
    case True
    then show ?thesis using known parents_out [OF table_distinct(2) [OF tab]] by (simp add: event_target_def)
  next
    case False
    show ?thesis
    proof (cases "lookup ccs j")
      case None
      then show ?thesis
        using unknown False lookup_None [of ccs j] by (simp add: event_target_def GetCachedContact_rep [OF tab])
    next
      case (Some cc)
      have cc: "cc \<in> set ccs" "cc_contactID cc = j" "parents ccs j = cc_parentID cc"
        using lookup_Some [OF Some] Some by (auto simp: parents_def)
      show ?thesis
      proof (cases "IsSub cc")
        case True
        then show ?thesis
          using sub False Some cc by (auto simp: event_target_def GetCachedContact_rep [OF tab] IsSub_def)
      next
        case nosub: False
        then show ?thesis
          using known False Some cc by (auto simp: event_target_def GetCachedContact_rep [OF tab] IsSub_def)
      qed
    qed
  qed
qed


context db_client begin

lemma setDefault_ok:
  assumes "db_ok s"
  obtains r t where "db_mc_setDefault E s m j = Some (r, t)" and "db_ok t" and "contacts_kept s t"
    and "file_end t \<le> file_end s + grow"
proof -
  obtain H where H: "db_rep s (cached s) H" "listed s (cached s) H" using db_okE [OF assms] .
  show ?thesis
  proof (cases rule: setDefault_cases [OF H(1), of E m j])
    case (1 r)
    then show ?thesis using that assms contacts.R_refl grow by simp
  next
    case (2 l k)
    note d = default_changed [OF H 2(2)]
    obtain t where t: "notify E (DefaultChanged m j) (s\<lparr>m_lContacts := l\<rparr>) = Some t" "db_ok t"
      "contacts_kept (s\<lparr>m_lContacts := l\<rparr>) t" "file_end t \<le> file_end (s\<lparr>m_lContacts := l\<rparr>) + grow"
      using notify_ok [OF d(2)] .
    then show ?thesis using that 2(1) contacts.R_trans [OF d(3)] by simp
  qed
qed

lemma event_target_ok:
  assumes "db_ok s"
  obtains t where "event_target E s j di = Some (None, t)" and "db_ok t" and "contacts_kept s t"
      and "file_end t \<le> file_end s + grow" and "j \<noteq> 0" and "j \<notin> cc_contactID ` set (cached s)"
  | t n where "event_target E s j di = Some (Some (chain_of (parents (cached s)) j, n, sub_of (parents (cached s)) j), t)"
      and "db_ok t" and "contacts_kept s t" and "file_end t \<le> file_end s + grow"
      and "j = 0 \<or> j \<in> cc_contactID ` set (cached s)"
proof -
  obtain H where H: "db_rep s (cached s) H" "listed s (cached s) H" using db_okE [OF assms] .
  show ?thesis
  proof (cases rule: event_target_cases [OF H(1), of j E di])
    case 1
    then show ?thesis using that(2) [of j s] assms contacts.R_refl grow by (simp add: chain_of_def sub_of_def)
  next
    case 2
    then show ?thesis using that(1) [of s] assms contacts.R_refl grow by simp
  next
    case sub: 3
    obtain t where t: "(if di_flags di AND DBEF_SENT = 0
        then map_option snd (db_mc_setDefault E s (parents (cached s) j) j) else Some s) = Some t"
      "db_ok t" "contacts_kept s t" "file_end t \<le> file_end s + grow"
    proof (cases "di_flags di AND DBEF_SENT = 0")
      case True
      obtain r t where "db_mc_setDefault E s (parents (cached s) j) j = Some (r, t)" "db_ok t" "contacts_kept s t"
        "file_end t \<le> file_end s + grow"
        using setDefault_ok [OF assms] .
      then show ?thesis using that True by simp
    qed (use that assms contacts.R_refl grow in simp)
    obtain K where K: "db_rep t (cached t) K" using db_okE [OF t(2)] .
    obtain dd where dd: "lookup (cached t) j = Some dd" "cc_parentID dd = parents (cached s) j"
      using t(3) sub(3) lookup_None [of "cached s" j] unfolding contacts_kept_def parents_def by fastforce
    have "GetCachedContact t j = Some (Some dd)" using GetCachedContact_rep [OF db_repD(6) [OF K]] dd(1) by simp
    then show ?thesis
      using that(2) [of "if m_bMetaEnabled t then cc_parentID dd else j" t] t sub dd
      by (simp add: chain_of_def sub_of_def)
  qed
qed

end


section \<open>What the operations do with the lock held\<close>

lemma same_space_kept:
  assumes "same_but_space s t"
  shows "cached t = cached s" "contacts_kept s t"
  using header_fields [OF assms] by (auto simp: cached_def contacts_kept_def)

lemma root_known: "j \<in> fst ` set (roots s ccs) \<longleftrightarrow> j = 0 \<or> j \<in> cc_contactID ` set ccs"
  by (force simp: roots_def)

lemma chain_root:
  assumes rep: "db_rep s ccs H" and j: "j \<in> fst ` set (roots s ccs)"
  obtains ofs dbc where "(chain_of (parents ccs) j, ofs) \<in> set (roots s ccs)" and "parents ccs (chain_of (parents ccs) j) = 0"
    and "m_objs s ofs = Some (ObjContact dbc)" and "DBRead_contact s ofs = Some dbc"
    and "signature_at s ofs = DBCONTACT_SIGNATURE"
    and "GetContactOffset s (chain_of (parents ccs) j) =
      Some (ofs, if chain_of (parents ccs) j = 0 then None else lookup ccs (chain_of (parents ccs) j))"
proof -
  let ?i = "chain_of (parents ccs) j"
  note tab = db_repD(6) [OF rep] and sp = db_repD(2) [OF rep]
  have i: "?i \<in> fst ` set (roots s ccs)" "parents ccs ?i = 0"
    using j parent_known [OF tab, of j] unfolding root_known by (auto simp: chain_of_def)
  then obtain ofs where ofs: "(?i, ofs) \<in> set (roots s ccs)" by auto
  obtain dbc where dbc: "m_objs s ofs = Some (ObjContact dbc)" "dc_signature dbc = DBCONTACT_SIGNATURE"
    using db_rep_root [OF rep ofs] unfolding record_ok_def by blast
  have "ofs \<noteq> 0" using space_inside [OF sp dbc(1)] by simp
  then show ?thesis
    using that [OF ofs i(2) dbc(1)] dbc GetContactOffset_rep [OF tab ofs]
    by (simp add: DBRead_contact_def signature_at_def)
qed

lemma stored_listed:
  assumes ls: "listed s ccs H" and root: "(i, ofs) \<in> set (roots s ccs)" and own: "parents ccs i = 0"
    and same: "same_but_space s t"
    and origin: "\<And>y e. m_objs t y = Some (ObjEvent e) \<Longrightarrow> y = x \<or> (\<exists>e. m_objs s y = Some (ObjEvent e))"
  shows "listed t ccs (H(i := insert_event (x, e) (H i)))"
proof (rule listed_update [OF ls header_same_roots [OF same_header [OF same]] root own])
  fix y e'
  assume "m_objs t y = Some (ObjEvent e')"
  then consider "y = x" | e' where "m_objs s y = Some (ObjEvent e')" using origin by blast
  then show "y \<in> fst ` set (insert_event (x, e) (H i)) \<or> y \<notin> fst ` set (H i) \<and> (\<exists>e. m_objs s y = Some (ObjEvent e))"
    by cases auto
qed

lemma store_step:
  assumes rep: "db_rep s ccs H" and ls: "listed s ccs H" and j: "j \<in> fst ` set (roots s ccs)"
    and tsd: "getUnixtime di \<noteq> 0"
    and room: "file_end s + size_event + int (length blob) + int (length (di_szModule di)) + size_module < 2147483648"
  obtains ofs dbc cc t m mn where "GetContactOffset s (chain_of (parents ccs) j) = Some (ofs, cc)"
    and "signature_at s ofs = DBCONTACT_SIGNATURE" and "DBRead_contact s ofs = Some dbc"
    and "store_event E s ofs dbc j (sub_of (parents ccs) j) di blob flags = Some (file_end s, t)"
    and "db_rep t ccs (H(chain_of (parents ccs) j :=
      insert_event (file_end s, new_event j m di blob flags) (H (chain_of (parents ccs) j))))"
    and "listed t ccs (H(chain_of (parents ccs) j :=
      insert_event (file_end s, new_event j m di blob flags) (H (chain_of (parents ccs) j))))"
    and "m_objs t m = Some (ObjModule mn)" and "mn_name mn = c_str (di_szModule di)" and "same_but_space s t"
    and "file_end t \<le> file_end s + size_event + int (length blob) + int (length (di_szModule di)) + size_module"
proof -
  obtain ofs dbc where r: "(chain_of (parents ccs) j, ofs) \<in> set (roots s ccs)" "parents ccs (chain_of (parents ccs) j) = 0"
    "m_objs s ofs = Some (ObjContact dbc)" "DBRead_contact s ofs = Some dbc" "signature_at s ofs = DBCONTACT_SIGNATURE"
    "GetContactOffset s (chain_of (parents ccs) j) =
      Some (ofs, if chain_of (parents ccs) j = 0 then None else lookup ccs (chain_of (parents ccs) j))"
    using chain_root [OF rep j] .
  show ?thesis
    by (rule store_event_rep [OF rep r(1-3) j refl tsd room], rule that [OF r(6) r(5) r(4)], assumption+,
        rule stored_listed [OF ls r(1,2)], assumption+)
qed

context db_client begin

lemma AddEvent_ok:
  assumes ok: "db_ok s" and blob: "event_blob di = Some blob" "length blob \<le> n"
    and enc: "\<And>b. de_encode E blob = Some b \<Longrightarrow> length b \<le> n"
    and room: "file_end s + 2 * grow + size_event + int n + int (length (di_szModule di)) + size_module < 2147483648"
  shows "\<exists>h t. AddEvent E s j (Some di) = Some (h, t) \<and> db_ok t"
proof (cases "getUnixtime di = 0")
  case True
  then show ?thesis using ok by (simp add: AddEvent_def)
next
  case tsd: False
  let ?P = "parents (cached s)"
  show ?thesis
  proof (cases rule: event_target_ok [OF ok, of j di])
    case (1 t)
    then show ?thesis using tsd by (simp add: AddEvent_def)
  next
    case (2 t k)
    obtain r u where u: "de_notify E (EventFiltered k di) t = Some (r, u)" using returns [OF 2(2)] by blast
    have ok_u: "db_ok u" and tu: "contacts_kept t u" and end_u: "file_end u \<le> file_end t + grow"
      using keeps_ok [OF 2(2) u] grows [OF 2(2) u] by auto
    show ?thesis
    proof (cases "r = 0")
      case False
      then show ?thesis using tsd 2(1) u ok_u by (simp add: AddEvent_def)
    next
      case True
      obtain b f where bf: "encode_blob E u blob (di_flags di) = (b, f)" by force
      have "length b \<le> n" using bf blob(2) enc by (auto simp: encode_blob_def split: if_splits option.splits)
      then have room_u: "file_end u + size_event + int (length b) + int (length (di_szModule di)) + size_module < 2147483648"
        using room end_u 2(4) by simp
      obtain H where H: "db_rep u (cached u) H" "listed u (cached u) H" using db_okE [OF ok_u] .
      have su: "contacts_kept s u" using contacts.R_trans [OF 2(3) tu] .
      have j: "j \<in> fst ` set (roots u (cached u))" and P: "parents (cached u) j = ?P j"
        using 2(5) kept_parents [OF su] table_distinct(2) [OF db_repD(6) [OF H(1)]] ok
        unfolding root_known by (auto simp: parents_out) (metis db_okE db_repD(6) parents_out table_distinct(2))
      then have same_chain: "chain_of ?P j = chain_of (parents (cached u)) j" "sub_of ?P j = sub_of (parents (cached u)) j"
        by (simp_all add: chain_of_def sub_of_def)
      obtain ofs dbc cc v K where v: "GetContactOffset u (chain_of ?P j) = Some (ofs, cc)"
        "signature_at u ofs = DBCONTACT_SIGNATURE" "DBRead_contact u ofs = Some dbc"
        "store_event E u ofs dbc j (sub_of ?P j) di b f = Some (file_end u, v)"
        "db_rep v (cached u) K" "listed v (cached u) K"
        unfolding same_chain by (rule store_step [OF H j tsd room_u]) blast
      have "db_ok v" using db_stateI [OF v(5,6)] .
      then obtain w where "notify E (EventAdded k (file_end u)) v = Some w" "db_ok w" using notify_ok by blast
      then show ?thesis using tsd 2(1) u True blob(1) bf v \<open>db_ok v\<close> by (simp add: AddEvent_def)
    qed
  qed
qed

end

section \<open>Deleting an event\<close>

lemma chain_owner_rep:
  assumes rep: "db_rep s ccs H" and j: "j \<in> fst ` set (roots s ccs)"
  shows "chain_owner s j =
    Some (Inr (if chain_of (parents ccs) j = 0 then None else lookup ccs (chain_of (parents ccs) j)))"
proof (cases "j = 0")
  case True
  then show ?thesis
    using parents_out [OF table_distinct(2) [OF db_repD(6) [OF rep]]] by (simp add: chain_owner_def chain_of_def)
next
  case False
  note tab = db_repD(6) [OF rep]
  obtain cc where cc: "lookup ccs j = Some cc" using j False lookup_None [of ccs j] unfolding root_known by auto
  have P: "parents ccs j = cc_parentID cc" using cc by (simp add: parents_def)
  have "IsSub cc \<Longrightarrow> \<exists>dd. lookup ccs (cc_parentID cc) = Some dd"
    using parent_known(2) [OF tab, of j] lookup_None [of ccs "cc_parentID cc"] P by (auto simp: IsSub_def)
  then show ?thesis
    using False cc P by (auto simp: chain_owner_def chain_of_def GetCachedContact_rep [OF tab] IsSub_def)
qed

lemma owner_offset_rep:
  assumes "table_ok s ccs" and "(i, ofs) \<in> set (roots s ccs)"
  shows "owner_offset s (if i = 0 then None else lookup ccs i) = ofs"
proof (cases "i = 0")
  case True
  then show ?thesis using GetContactOffset_rep [OF assms] by (simp add: GetContactOffset_def owner_offset_def)
next
  case False
  then obtain cc where "lookup ccs i = Some cc"
    using assms(2) lookup_None [of ccs i] by (cases "lookup ccs i") (force simp: roots_def)+
  then show ?thesis
    using False GetContactOffset_rep [OF assms]
    by (simp add: GetContactOffset_def owner_offset_def GetCachedContact_rep [OF assms(1)])
qed

text \<open>An event of the file is in the history of the contact whose chain has it.\<close>

lemma event_root:
  assumes rep: "db_rep s ccs H" and ls: "listed s ccs H" and e: "m_objs s h = Some (ObjEvent e)"
  obtains x ofs dbc where "x \<in> set (H (chain_of (parents ccs) (ev_contactID e)))" and "fst x = h"
    and "snd x = with_links e 0 0" 
    and "ev_contactID e \<in> fst ` set (roots s ccs)"
    and "(chain_of (parents ccs) (ev_contactID e), ofs) \<in> set (roots s ccs)"
    and "parents ccs (chain_of (parents ccs) (ev_contactID e)) = 0"
    and "m_objs s ofs = Some (ObjContact dbc)" and "DBRead_contact s ofs = Some dbc"
    and "signature_at s ofs = DBCONTACT_SIGNATURE"
    and "DBRead_event s h = Some e" and "signature_at s h = DBEVENT_SIGNATURE"
proof -
  obtain i ofs where i: "(i, ofs) \<in> set (roots s ccs)" "parents ccs i = 0" "h \<in> fst ` set (H i)"
    using ls e unfolding listed_def by fastforce
  then obtain x where x: "x \<in> set (H i)" "fst x = h" by auto
  note hist = db_rep_hist(1) [OF rep i(1,2)]
  then obtain q m where eq: "e = with_links (snd x) q m" using chain_object [OF _ x(1)] e x(2) by (fastforce simp: hist_ok_def)
  have ok: "entry_ok x" and ci: "chain_of (parents ccs) (cid x) = i" using hist x(1) by (auto simp: hist_ok_def)
  have cid: "ev_contactID e = cid x" by (simp add: eq)
  have known: "cid x \<in> fst ` set (roots s ccs)"
    using ci i(1) parent_known(1) [OF db_repD(6) [OF rep], of "cid x"]
    by (cases "parents ccs (cid x) = 0") (force simp: chain_of_def roots_def)+
  obtain ofs' dbc where r: "(chain_of (parents ccs) (cid x), ofs') \<in> set (roots s ccs)"
    "m_objs s ofs' = Some (ObjContact dbc)" "DBRead_contact s ofs' = Some dbc" "signature_at s ofs' = DBCONTACT_SIGNATURE"
    using chain_root [OF rep known] by blast
  have "snd x = with_links e 0 0" using ok by (cases "snd x") (simp add: eq with_links_def entry_ok_def)
  moreover have "DBRead_event s h = Some e" "signature_at s h = DBEVENT_SIGNATURE"
    using e ok x(2) by (simp_all add: entry_ok_def DBRead_event_def signature_at_def eq)
  ultimately show ?thesis using that [of x ofs' dbc] x r known i(2) unfolding cid ci by blast
qed

lemma deleted_listed:
  assumes ls: "listed s ccs H" and root: "(i, ofs) \<in> set (roots s ccs)" and own: "parents ccs i = 0"
    and same: "same_but_space s t"
    and origin: "\<And>y e. m_objs t y = Some (ObjEvent e) \<Longrightarrow> y \<noteq> h \<and> (\<exists>e. m_objs s y = Some (ObjEvent e))"
  shows "listed t ccs (H(i := remove_entry h (H i)))"
proof (rule listed_update [OF ls header_same_roots [OF same_header [OF same]] root own])
  fix y e
  assume "m_objs t y = Some (ObjEvent e)"
  then have "y \<noteq> h" "\<exists>e. m_objs s y = Some (ObjEvent e)" using origin by blast+
  then show "y \<in> fst ` set (remove_entry h (H i)) \<or> y \<notin> fst ` set (H i) \<and> (\<exists>e. m_objs s y = Some (ObjEvent e))"
    by (force simp: remove_entry_def)
qed

lemma delete_step:
  assumes rep: "db_rep s ccs H" and ls: "listed s ccs H" and e: "m_objs s h = Some (ObjEvent e)"
    and i: "chain_of (parents ccs) (ev_contactID e) = i" and ofs: "(i, ofs) \<in> set (roots s ccs)"
    and cc: "case cc of None \<Rightarrow> i = 0 | Some cc \<Rightarrow> i \<noteq> 0 \<and> cc_contactID cc = i"
    and dbc: "DBRead_contact s ofs = Some dbc"
  obtains t where "delete_rest s cc ofs h dbc e = Some t"
    and "db_rep t ccs (H(i := remove_entry h (H i)))" and "listed t ccs (H(i := remove_entry h (H i)))"
    and "same_but_space s t"
proof -
  obtain x ofs' dbc' where r: "x \<in> set (H i)" "fst x = h" "(i, ofs') \<in> set (roots s ccs)" "parents ccs i = 0"
    "m_objs s ofs' = Some (ObjContact dbc')" "DBRead_contact s ofs' = Some dbc'"
    using event_root [OF rep ls e] unfolding i by blast
  have "ofs' = ofs" using root_unique [OF db_repD(6) [OF rep] r(3) ofs] by simp
  then have dbc': "m_objs s ofs = Some (ObjContact dbc)" using r(5,6) dbc by simp
  let ?dd = "if i = 0 then None else lookup ccs i"
  have "delete_rest s cc ofs h dbc e = delete_rest s ?dd ofs h dbc e"
  proof (cases cc)
    case (Some c)
    then obtain dd where "lookup ccs i = Some dd"
      using ofs cc lookup_None [of ccs i] by (cases "lookup ccs i") (force simp: roots_def)+
    then show ?thesis using Some cc lookup_Some [of ccs i dd] by (simp add: delete_rest_def)
  qed (use cc in simp)
  moreover obtain t where "delete_rest s ?dd ofs (fst x) dbc e = Some t"
    "db_rep t ccs (H(i := remove_entry (fst x) (H i)))" "same_but_space s t"
    "\<And>y e. m_objs t y = Some (ObjEvent e) \<Longrightarrow> y \<noteq> fst x \<and> (\<exists>e. m_objs s y = Some (ObjEvent e))"
    using delete_rest_rep [OF rep ofs r(4,1) _ dbc' refl] e r(2) by blast
  ultimately show ?thesis
    using that r(2) deleted_listed [OF ls ofs r(4), of t h] by simp
qed

lemma DeleteEvent_rest:
  assumes "signature_at s h = DBEVENT_SIGNATURE" and "DBRead_event s h = Some e"
    and "chain_owner s (ev_contactID e) = Some (Inr cc)" and "owner_offset s cc = ofs"
    and "signature_at s ofs = DBCONTACT_SIGNATURE"
    and "notify E (EventDeleted (ev_contactID e) h) s = Some t"
    and "DBRead_contact t ofs = Some dbc" and "DBRead_event t h = Some f"
    and "delete_rest t cc ofs h dbc f = Some u"
  shows "DeleteEvent E s h = Some (0, u)"
proof -
  obtain v where "remove_event t ofs h dbc f = Some v"
    "(case cc of None \<Rightarrow> Some v | Some cc \<Rightarrow> if ev_contactID f \<noteq> cc_contactID cc then uncount_sub v (ev_contactID f) else Some v) = Some u"
    using assms(9) by (auto simp: delete_rest_def bind_eq_Some_conv)
  then show ?thesis using assms(1-8) by (simp add: DeleteEvent_def Let_def)
qed

text \<open>No event at this offset: nothing is done.\<close>

lemma no_event:
  assumes "db_rep s ccs H" and "\<And>e. m_objs s h \<noteq> Some (ObjEvent e)" and "\<And>c. m_objs s h \<noteq> Some (ObjContact c)"
  shows "signature_at s h \<noteq> DBEVENT_SIGNATURE"
  using assms(2,3) by (auto simp: signature_at_def DBEVENT_SIGNATURE_def DBMODULENAME_SIGNATURE_def
      DBCONTACTSETTINGS_SIGNATURE_def split: option.split dbobj.split)

context db_client begin

lemma DeleteEvent_ok:
  assumes ok: "db_ok s" and h: "\<And>c. m_objs s h \<noteq> Some (ObjContact c)"
  shows "\<exists>r t. DeleteEvent E s h = Some (r, t) \<and> db_ok t"
proof -
  obtain H where H: "db_rep s (cached s) H" "listed s (cached s) H" using db_okE [OF ok] .
  note tab = db_repD(6) [OF H(1)]
  show ?thesis
  proof (cases "\<exists>e. m_objs s h = Some (ObjEvent e)")
    case False
    then have "signature_at s h \<noteq> DBEVENT_SIGNATURE" using no_event [OF H(1) _ h] by blast
    then show ?thesis using ok by (simp add: DeleteEvent_def)
  next
    case True
    then obtain e where e: "m_objs s h = Some (ObjEvent e)" by blast
    define i where "i = chain_of (parents (cached s)) (ev_contactID e)"
    obtain ofs where r: "ev_contactID e \<in> fst ` set (roots s (cached s))" "(i, ofs) \<in> set (roots s (cached s))"
      "signature_at s ofs = DBCONTACT_SIGNATURE" "DBRead_event s h = Some e" "signature_at s h = DBEVENT_SIGNATURE"
      using event_root [OF H e] unfolding i_def by blast
    define cc where "cc = (if i = 0 then None else lookup (cached s) i)"
    have owner: "chain_owner s (ev_contactID e) = Some (Inr cc)" "owner_offset s cc = ofs"
      using chain_owner_rep [OF H(1) r(1)] owner_offset_rep [OF tab r(2)] unfolding cc_def i_def by auto
    have cc: "case cc of None \<Rightarrow> i = 0 | Some cc \<Rightarrow> i \<noteq> 0 \<and> cc_contactID cc = i"
      using r(2) lookup_None [of "cached s" i] lookup_Some [of "cached s" i]
      by (cases "lookup (cached s) i") (force simp: cc_def roots_def)+
    obtain q t where t: "de_notify E (EventDeleted (ev_contactID e) h) s = Some (q, t)" using returns [OF ok] by blast
    have ok_t: "db_ok t" "contacts_kept s t" and same: "event_at t h = event_at s h"
      using keeps_ok [OF ok t] deleting [OF ok t] by auto
    obtain K where K: "db_rep t (cached t) K" "listed t (cached t) K" using db_okE [OF ok_t(1)] .
    obtain f where f: "m_objs t h = Some (ObjEvent f)" "ev_contactID f = ev_contactID e"
      using same e by (auto simp: event_at_def split: option.splits dbobj.splits)
    have it: "chain_of (parents (cached t)) (ev_contactID f) = i"
      using kept_parents(2) [OF ok_t(2), of "ev_contactID e"] r(1) table_distinct(2) [OF db_repD(6) [OF K(1)]]
        table_distinct(2) [OF tab] parents_out unfolding f(2) i_def root_known chain_of_def by metis
    have ofs_t: "(i, ofs) \<in> set (roots t (cached t))"
    proof (cases "i = 0")
      case True
      then show ?thesis using r(2) table_distinct(2) [OF tab] ok_t(2) by (force simp: roots_def contacts_kept_def)
    next
      case False
      then obtain c where c: "lookup (cached s) i = Some c" "cc_dwOfsContact c = ofs"
        using r(2) lookup_unique [OF table_distinct(1) [OF tab]] by (auto simp: roots_def)
      then obtain d where "lookup (cached t) i = Some d" "cc_dwOfsContact d = ofs"
        using ok_t(2) unfolding contacts_kept_def by metis
      then show ?thesis using lookup_root [of "cached t" i d t] by simp
    qed
    obtain ofs' dbc where d: "(i, ofs') \<in> set (roots t (cached t))" "DBRead_contact t ofs' = Some dbc" "DBRead_event t h = Some f"
      using event_root [OF K f(1)] unfolding it by blast
    have dbc: "DBRead_contact t ofs = Some dbc" using root_unique [OF db_repD(6) [OF K(1)] d(1) ofs_t] d(2) by simp
    obtain u where u: "delete_rest t cc ofs h dbc f = Some u" "db_rep u (cached t) (K(i := remove_entry h (K i)))"
      "listed u (cached t) (K(i := remove_entry h (K i)))"
      using delete_step [OF K f(1) it ofs_t cc dbc] .
    have "DeleteEvent E s h = Some (0, u)"
      using DeleteEvent_rest [OF r(5,4) owner r(3) _ dbc d(3) u(1)] t by (simp add: notify_def)
    then show ?thesis using db_stateI [OF u(2,3)] by blast
  qed
qed

end

section \<open>Marking an event as read\<close>

lemma marked_listed:
  assumes ls: "listed s ccs H" and root: "(i, ofs) \<in> set (roots s ccs)" and own: "parents ccs i = 0"
    and same: "same_but_space s t"
    and origin: "\<And>y e. m_objs t y = Some (ObjEvent e) \<Longrightarrow> \<exists>e. m_objs s y = Some (ObjEvent e)"
  shows "listed t ccs (H(i := mark_entry h (H i)))"
proof (rule listed_update [OF ls header_same_roots [OF same_header [OF same]] root own])
  fix y e
  assume "m_objs t y = Some (ObjEvent e)"
  then have "\<exists>e. m_objs s y = Some (ObjEvent e)" using origin by blast
  moreover have "fst ` set (mark_entry h (H i)) = fst ` set (H i)"
    unfolding mark_entry_def set_map image_image by (rule image_cong) auto
  ultimately show "y \<in> fst ` set (mark_entry h (H i)) \<or> y \<notin> fst ` set (H i) \<and> (\<exists>e. m_objs s y = Some (ObjEvent e))"
    by blast
qed

lemma mark_step:
  assumes rep: "db_rep s ccs H" and ls: "listed s ccs H" and e: "m_objs s h = Some (ObjEvent e)"
    and i: "chain_of (parents ccs) (ev_contactID e) = i" and ofs: "(i, ofs) \<in> set (roots s ccs)"
    and dbc: "DBRead_contact s ofs = Some dbc"
  obtains t where "mark_rest s ofs h dbc (read_event e) = Some t"
    and "db_rep t ccs (H(i := mark_entry h (H i)))" and "listed t ccs (H(i := mark_entry h (H i)))"
    and "same_but_space s t"
proof -
  obtain x ofs' dbc' where r: "x \<in> set (H i)" "fst x = h" "(i, ofs') \<in> set (roots s ccs)" "parents ccs i = 0"
    "m_objs s ofs' = Some (ObjContact dbc')" "DBRead_contact s ofs' = Some dbc'"
    using event_root [OF rep ls e] unfolding i by blast
  have "ofs' = ofs" using root_unique [OF db_repD(6) [OF rep] r(3) ofs] by simp
  then have dbc': "m_objs s ofs = Some (ObjContact dbc)" using r(5,6) dbc by simp
  obtain t where "mark_rest s ofs (fst x) dbc (read_event e) = Some t"
    "db_rep t ccs (H(i := mark_entry (fst x) (H i)))" "same_but_space s t"
    "\<And>y e. m_objs t y = Some (ObjEvent e) \<Longrightarrow> \<exists>e. m_objs s y = Some (ObjEvent e)"
    using mark_rest_rep [OF rep ofs r(4,1) _ dbc'] e r(2) by blast
  then show ?thesis using that r(2) marked_listed [OF ls ofs r(4), of t h] by simp
qed

lemma MarkEventRead_rest:
  assumes "signature_at s h = DBEVENT_SIGNATURE" and "DBRead_event s h = Some e"
    and "chain_owner s j = Some (Inr cc)" and "owner_offset s cc = ofs"
    and "signature_at s ofs = DBCONTACT_SIGNATURE" and "DBRead_contact s ofs = Some dbc"
    and "mark_rest s ofs h dbc (read_event e) = Some t"
  shows "MarkEventRead E s j h =
    (if markedRead e then Some (ev_flags e, s)
     else map_option (Pair (ev_flags e OR DBEF_READ)) (notify E (EventMarkedRead j h) t))"
proof -
  let ?s = "DBWrite s h (ObjEvent (read_event e))"
  obtain d where "(if dc_ofsFirstUnread dbc = h
      then do { (ofs, ts) \<leftarrow> next_unread ?s (read_event e); Some (dbc\<lparr>dc_ofsFirstUnread := ofs, dc_tsFirstUnread := ts\<rparr>) }
      else Some dbc) = Some d" "t = DBWrite ?s ofs (ObjContact d)"
    using assms(7) by (auto simp: mark_rest_def Let_def bind_eq_Some_conv)
  then show ?thesis
    using assms(1-6) by (cases "notify E (EventMarkedRead j h) t") (simp_all add: MarkEventRead_def Let_def flip: read_event_def)
qed

lemma chain_owner_known:
  assumes "db_rep s ccs H"
  shows "chain_owner s j = Some (Inl 2) \<and> j \<notin> fst ` set (roots s ccs) \<or> j \<in> fst ` set (roots s ccs)"
  using lookup_None [of ccs j] unfolding root_known
  by (auto simp: chain_owner_def GetCachedContact_rep [OF db_repD(6) [OF assms]])

context db_client begin

lemma MarkEventRead_ok:
  assumes ok: "db_ok s" and h: "\<And>c. m_objs s h \<noteq> Some (ObjContact c)"
    and own: "\<And>e. m_objs s h = Some (ObjEvent e) \<Longrightarrow>
      chain_of (parents (cached s)) (ev_contactID e) = chain_of (parents (cached s)) j"
  shows "\<exists>r t. MarkEventRead E s j h = Some (r, t) \<and> db_ok t"
proof -
  obtain H where H: "db_rep s (cached s) H" "listed s (cached s) H" using db_okE [OF ok] .
  note tab = db_repD(6) [OF H(1)]
  show ?thesis
  proof (cases "j \<in> fst ` set (roots s (cached s))")
    case False
    then show ?thesis using chain_owner_known [OF H(1), of j] ok by (auto simp: MarkEventRead_def)
  next
    case j: True
    show ?thesis
    proof (cases "\<exists>e. m_objs s h = Some (ObjEvent e)")
      case False
      then have "signature_at s h \<noteq> DBEVENT_SIGNATURE" using no_event [OF H(1) _ h] by blast
      then show ?thesis using ok chain_owner_rep [OF H(1) j] by (simp add: MarkEventRead_def Let_def)
    next
      case True
      then obtain e where e: "m_objs s h = Some (ObjEvent e)" by blast
      define i where "i = chain_of (parents (cached s)) (ev_contactID e)"
      obtain ofs dbc where r: "(i, ofs) \<in> set (roots s (cached s))" "DBRead_contact s ofs = Some dbc"
        "signature_at s ofs = DBCONTACT_SIGNATURE" "DBRead_event s h = Some e" "signature_at s h = DBEVENT_SIGNATURE"
        using event_root [OF H e] unfolding i_def by blast
      have owner: "chain_owner s j = Some (Inr (if i = 0 then None else lookup (cached s) i))"
        using chain_owner_rep [OF H(1) j] own [OF e] by (simp add: i_def)
      obtain t where t: "mark_rest s ofs h dbc (read_event e) = Some t"
        "db_rep t (cached s) (H(i := mark_entry h (H i)))" "listed t (cached s) (H(i := mark_entry h (H i)))"
        using mark_step [OF H e i_def [symmetric] r(1,2)] .
      obtain u where u: "notify E (EventMarkedRead j h) t = Some u" "db_ok u" using notify_ok [OF db_stateI [OF t(2,3)]] .
      show ?thesis
        using MarkEventRead_rest [OF r(5,4) owner owner_offset_rep [OF tab r(1)] r(3,2) t(1), of E] u ok by auto
    qed
  qed
qed

end

section \<open>Adding and deleting a contact\<close>

lemma AddContact_ok:
  assumes ok: "db_ok s" and room: "file_end s + size_contact < 4294967296"
    and id: "m_dwMaxContactId s \<noteq> 0" "m_dwMaxContactId s \<noteq> -1"
  shows "\<exists>t. AddContact s = Some (m_dwMaxContactId s, t) \<and> db_ok t"
proof -
  let ?i = "m_dwMaxContactId s"
  obtain H where H: "db_rep s (cached s) H" "listed s (cached s) H" using db_okE [OF ok] .
  obtain t ccs' where t: "AddContact s = Some (?i, t)" "db_rep t ccs' (H(?i := []))"
    "set ccs' = insert (plain_contact ?i (file_end s)) (set (cached s))" "?i \<notin> cc_contactID ` set (cached s)"
    "\<And>y e. m_objs t y = Some (ObjEvent e) \<Longrightarrow> \<exists>e. m_objs s y = Some (ObjEvent e)"
    using AddContact_rep [OF H(1) room id] by metis
  note tab = table_distinct [OF db_repD(6) [OF H(1)]] and tab' = table_distinct [OF db_repD(6) [OF t(2)]]
  have P: "parents ccs' j = parents (cached s) j" for j
  proof (cases "j = ?i")
    case True
    then show ?thesis using parents_out [OF t(4)] parents_in [OF tab'(1), of "plain_contact ?i (file_end s)"] t(3) by simp
  next
    case False
    then show ?thesis using lookup_cong [OF tab(1) t(3) tab'(1), of j] by (simp add: parents_def)
  qed
  have "listed t ccs' (H(?i := []))"
    unfolding listed_def
  proof (intro allI impI)
    fix y e
    assume "m_objs t y = Some (ObjEvent e)"
    then obtain f where "m_objs s y = Some (ObjEvent f)" using t(5) by blast
    then obtain j where j: "j \<in> fst ` set (roots s (cached s))" "parents (cached s) j = 0" "y \<in> fst ` set (H j)"
      using H(2) unfolding listed_def by blast
    then have "j \<noteq> ?i" using t(4) id(1) unfolding root_known by auto
    moreover have "j \<in> fst ` set (roots t ccs')" using j(1) unfolding root_known t(3) by auto
    ultimately show "\<exists>j \<in> fst ` set (roots t ccs'). parents ccs' j = 0 \<and> y \<in> fst ` set ((H(?i := [])) j)"
      using j(2,3) unfolding P by (intro bexI [of _ j]) simp_all
  qed
  then show ?thesis using t(1) db_stateI [OF t(2)] by blast
qed

lemma DeleteContact_ok:
  assumes ok: "db_ok s" and cc: "lookup (cached s) i = Some cc" and own: "parents (cached s) i = 0"
    and nosub: "\<forall>j. parents (cached s) j \<noteq> i"
  shows "\<exists>t. DeleteContact s i = Some (0, t) \<and> db_ok t"
proof -
  obtain H where H: "db_rep s (cached s) H" "listed s (cached s) H" using db_okE [OF ok] .
  obtain t ccs' where t: "DeleteContact s i = Some (0, t)" "db_rep t ccs' (H(i := []))"
    "set (cached s) = insert cc (set ccs')" "i \<notin> cc_contactID ` set ccs'"
    "\<And>y e. m_objs t y = Some (ObjEvent e) \<Longrightarrow> y \<notin> fst ` set (H i) \<and> (\<exists>e. m_objs s y = Some (ObjEvent e))"
    using DeleteContact_rep [OF H(1) cc own nosub] by metis
  note tab = table_distinct [OF db_repD(6) [OF H(1)]] and tab' = table_distinct [OF db_repD(6) [OF t(2)]]
  have i: "cc_contactID cc = i" using lookup_Some [OF cc] by simp
  have P: "parents ccs' j = parents (cached s) j" if "j \<noteq> i" for j
    using lookup_cong [OF tab'(1) t(3) tab(1), of j] that i by (simp add: parents_def)
  have "listed t ccs' (H(i := []))"
    unfolding listed_def
  proof (intro allI impI)
    fix y e
    assume y: "m_objs t y = Some (ObjEvent e)"
    then obtain f where "m_objs s y = Some (ObjEvent f)" "y \<notin> fst ` set (H i)" using t(5) by blast
    then obtain j where j: "j \<in> fst ` set (roots s (cached s))" "parents (cached s) j = 0" "y \<in> fst ` set (H j)" "j \<noteq> i"
      using H(2) unfolding listed_def by blast
    have "j \<in> fst ` set (roots t ccs')" using j(1,4) i unfolding root_known t(3) by auto
    then show "\<exists>j \<in> fst ` set (roots t ccs'). parents ccs' j = 0 \<and> y \<in> fst ` set ((H(i := [])) j)"
      using j(2-4) P [OF j(4)] by (intro bexI [of _ j]) simp_all
  qed
  then show ?thesis using t(1) db_stateI [OF t(2)] by blast
qed

end
