(* ===== verification/DbClient.thy ===== *)
theory DbClient imports DbOps begin

text \<open>
  Runs of the driver: whatever sequence of operations its callers make, and whatever its handlers
  do with it in between, the database stays in order and no operation fails to return.
\<close>

datatype db_op =
    DoAddEvent u32 DBEVENTINFO
  | DoDeleteEvent int
  | DoMarkRead u32 int
  | DoAddContact
  | DoDeleteContact u32

fun exec :: "dbenv \<Rightarrow> CDb3Mmap \<Rightarrow> db_op \<Rightarrow> CDb3Mmap option" where
  "exec E s (DoAddEvent i di) = map_option snd (AddEvent E s i (Some di))"
| "exec E s (DoDeleteEvent h) = map_option snd (DeleteEvent E s h)"
| "exec E s (DoMarkRead i h) = map_option snd (MarkEventRead E s i h)"
| "exec E s DoAddContact = map_option snd (AddContact s)"
| "exec E s (DoDeleteContact i) = map_option snd (DeleteContact s i)"

text \<open>
  What a caller owes: room in the file, handles that are not the offset of a contact, marking an
  event as read for the contact that has it, deleting contacts that are not part of a metacontact.
\<close>

definition allowed :: "dbenv \<Rightarrow> int \<Rightarrow> CDb3Mmap \<Rightarrow> db_op \<Rightarrow> bool" where
  "allowed E grow s x =
     (case x of
        DoAddEvent i di \<Rightarrow>
          (\<exists>blob n. event_blob di = Some blob \<and> length blob \<le> n \<and> (\<forall>b. de_encode E blob = Some b \<longrightarrow> length b \<le> n) \<and>
             file_end s + 2 * grow + size_event + int n + int (length (di_szModule di)) + size_module < 2147483648)
      | DoDeleteEvent h \<Rightarrow> (\<forall>c. m_objs s h \<noteq> Some (ObjContact c))
      | DoMarkRead i h \<Rightarrow>
          (\<forall>c. m_objs s h \<noteq> Some (ObjContact c)) \<and>
          (\<forall>e. m_objs s h = Some (ObjEvent e) \<longrightarrow>
             chain_of (parents (cached s)) (ev_contactID e) = chain_of (parents (cached s)) i)
      | DoAddContact \<Rightarrow> file_end s + size_contact < 4294967296 \<and> m_dwMaxContactId s \<noteq> 0 \<and> m_dwMaxContactId s \<noteq> -1
      | DoDeleteContact i \<Rightarrow>
          i \<in> cc_contactID ` set (cached s) \<and> parents (cached s) i = 0 \<and> (\<forall>j. parents (cached s) j \<noteq> i))"

inductive db_runs :: "dbenv \<Rightarrow> int \<Rightarrow> CDb3Mmap \<Rightarrow> CDb3Mmap \<Rightarrow> bool" for E grow s where
  start: "db_runs E grow s s"
| step: "db_runs E grow s t \<Longrightarrow> allowed E grow t x \<Longrightarrow> exec E t x = Some u \<Longrightarrow> db_runs E grow s u"

context db_client begin

lemma exec_ok:
  assumes "db_ok s" and "allowed E grow s x"
  shows "\<exists>t. exec E s x = Some t \<and> db_ok t"
proof (cases x)
  case (DoAddEvent i di)
  then obtain blob n where "event_blob di = Some blob" "length blob \<le> n" "\<And>b. de_encode E blob = Some b \<Longrightarrow> length b \<le> n"
    "file_end s + 2 * grow + size_event + int n + int (length (di_szModule di)) + size_module < 2147483648"
    using assms(2) by (auto simp: allowed_def)
  then show ?thesis using AddEvent_ok [OF assms(1), of di blob n i] DoAddEvent by auto
next
  case (DoDeleteEvent h)
  then show ?thesis using DeleteEvent_ok [OF assms(1), of h] assms(2) by (auto simp: allowed_def)
next
  case (DoMarkRead i h)
  then show ?thesis using MarkEventRead_ok [OF assms(1), of h i] assms(2) by (auto simp: allowed_def)
next
  case DoAddContact
  then show ?thesis using AddContact_ok [OF assms(1)] assms(2) by (auto simp: allowed_def)
next
  case (DoDeleteContact i)
  then obtain cc where "lookup (cached s) i = Some cc" using assms(2) lookup_None [of "cached s" i] by (auto simp: allowed_def)
  then show ?thesis using DeleteContact_ok [OF assms(1), of i cc] assms(2) DoDeleteContact by (auto simp: allowed_def)
qed

lemma runs_ok:
  assumes "db_runs E grow s t" and "db_ok s"
  shows "db_ok t"
  using assms by (induction rule: db_runs.induct) (use exec_ok in fastforce)+

end

section \<open>Handlers\<close>

text \<open>No handlers at all, and one that marks every event it is told of as read.\<close>

definition quiet :: "(bytes \<Rightarrow> bytes option) \<Rightarrow> (bytes \<Rightarrow> (bytes \<times> nat) option) \<Rightarrow> dbenv" where
  "quiet enc dec = \<lparr>de_notify = \<lambda>n s. Some (0, s), de_encode = enc, de_decode = dec, de_crypto = False, de_encodeString = (\<lambda>_. None),
     de_decodeString = (\<lambda>_. None), de_raw = (\<lambda>_ _. 0), de_utf8 = Some, de_account = (\<lambda>i s. Some (None, s))\<rparr>"

lemma quiet_notify [simp]: "de_notify (quiet enc dec) n s = Some (0, s)" "notify (quiet enc dec) n s = Some s"
  "de_encode (quiet enc dec) = enc" "de_decode (quiet enc dec) = dec"
  by (simp_all add: quiet_def notify_def)

interpretation quiet: db_client "quiet enc dec" 0 for enc dec
  by unfold_locales (auto intro: contacts.R_refl)

text \<open>Marking an event of the file as read, with no handlers.\<close>

lemma mark_quiet:
  assumes rep: "db_rep s (cached s) H" and ls: "listed s (cached s) H" and e: "m_objs s h = Some (ObjEvent e)"
    and j: "j \<in> fst ` set (roots s (cached s))" "chain_of (parents (cached s)) (ev_contactID e) = chain_of (parents (cached s)) j"
  obtains t where "MarkEventRead (quiet enc dec) s j h = Some (if markedRead e then ev_flags e else ev_flags e OR DBEF_READ, t)"
    and "db_rep t (cached s) (if markedRead e then H else
      H(chain_of (parents (cached s)) j := mark_entry h (H (chain_of (parents (cached s)) j))))"
    and "db_ok t" and "same_but_space s t" and "file_end t = file_end s"
proof -
  define i where "i = chain_of (parents (cached s)) (ev_contactID e)"
  obtain ofs dbc where r: "(i, ofs) \<in> set (roots s (cached s))" "DBRead_contact s ofs = Some dbc"
    "signature_at s ofs = DBCONTACT_SIGNATURE" "DBRead_event s h = Some e" "signature_at s h = DBEVENT_SIGNATURE"
    using event_root [OF rep ls e] unfolding i_def by blast
  have owner: "chain_owner s j = Some (Inr (if i = 0 then None else lookup (cached s) i))"
    using chain_owner_rep [OF rep j(1)] j(2) by (simp add: i_def)
  obtain t where t: "mark_rest s ofs h dbc (read_event e) = Some t"
    "db_rep t (cached s) (H(i := mark_entry h (H i)))" "listed t (cached s) (H(i := mark_entry h (H i)))" "same_but_space s t"
    using mark_step [OF rep ls e i_def [symmetric] r(1,2)] .
  have "file_end t = file_end s" using t(1) by (auto simp: mark_rest_def Let_def bind_eq_Some_conv DBWrite_def)
  moreover note run = MarkEventRead_rest [OF r(5,4) owner owner_offset_rep [OF db_repD(6) [OF rep] r(1)] r(3,2) t(1), of "quiet enc dec"]
  moreover have "db_ok t" using db_stateI [OF t(2,3)] .
  moreover have "db_ok s" using db_stateI [OF rep ls] .
  moreover have ij: "i = chain_of (parents (cached s)) j" using j(2) by (simp add: i_def)
  ultimately show ?thesis using that [of "if markedRead e then s else t"] rep t(2,4) space.R_refl by (simp add: ij)
qed

definition marking_env :: "(bytes \<Rightarrow> bytes option) \<Rightarrow> (bytes \<Rightarrow> (bytes \<times> nat) option) \<Rightarrow> dbenv" where
  "marking_env enc dec =
     (quiet enc dec)\<lparr>de_notify := \<lambda>n s.
        (case n of
           EventAdded i h \<Rightarrow> (case event_at s h of None \<Rightarrow> Some (0, s) | Some j \<Rightarrow> MarkEventRead (quiet enc dec) s j h)
         | _ \<Rightarrow> Some (0, s))\<rparr>"

lemma marking_added:
  assumes "db_ok s"
  obtains r t where "de_notify (marking_env enc dec) (EventAdded i h) s = Some (r, t)" and "db_ok t" and "contacts_kept s t"
    and "file_end t = file_end s"
proof (cases "event_at s h")
  case None
  then show ?thesis using that [of 0 s] assms contacts.R_refl by (simp add: marking_env_def)
next
  case (Some j)
  then obtain e where e: "m_objs s h = Some (ObjEvent e)" "ev_contactID e = j"
    by (auto simp: event_at_def split: option.splits dbobj.splits)
  obtain H where H: "db_rep s (cached s) H" "listed s (cached s) H" using db_okE [OF assms] .
  have j: "j \<in> fst ` set (roots s (cached s))" using event_root [OF H e(1)] e(2) by blast
  obtain t where "MarkEventRead (quiet enc dec) s j h = Some (if markedRead e then ev_flags e else ev_flags e OR DBEF_READ, t)"
    "db_ok t" "same_but_space s t" "file_end t = file_end s"
    using mark_quiet [OF H e(1) j] e(2) by metis
  then show ?thesis using that Some same_space_kept(2) by (simp add: marking_env_def)
qed

lemma marking_step:
  assumes ok: "db_ok s"
  shows "\<exists>r t. de_notify (marking_env enc dec) n s = Some (r, t) \<and> db_ok t \<and> contacts_kept s t \<and> file_end t = file_end s"
proof (cases "\<exists>i h. n = EventAdded i h")
  case True
  then show ?thesis using marking_added [OF ok] by blast
next
  case False
  then have "de_notify (marking_env enc dec) n s = Some (0, s)" by (cases n) (auto simp: marking_env_def)
  then show ?thesis using ok contacts.R_refl by blast
qed

interpretation marking_env: db_client "marking_env enc dec" 0 for enc dec
proof
  fix s n
  assume ok: "db_ok s"
  show "\<exists>r t. de_notify (marking_env enc dec) n s = Some (r, t)" using marking_step [OF ok] by blast
  fix r t
  assume "de_notify (marking_env enc dec) n s = Some (r, t)"
  then show "db_ok t \<and> contacts_kept s t" "file_end t \<le> file_end s + 0" using marking_step [OF ok, of enc dec n] by auto
next
  fix s i h r t
  assume "de_notify (marking_env enc dec) (EventDeleted i h) s = Some (r, t)"
  then show "event_at t h = event_at s h" by (simp add: marking_env_def)
qed simp

end
