(* ===== verification/DbHistory.thy ===== *)
theory DbHistory imports DbClient begin

text \<open>
  What a caller sees of the history of a contact: the searches of the driver enumerate its events,
  in both directions and for the unread ones, also those of a subcontact, whose events are in
  the chain of its metacontact.
\<close>

section \<open>Searches along a chain\<close>

definition next_of :: "int list \<Rightarrow> int" where "next_of xs = hd (xs @ [0])"
definition last_of :: "int list \<Rightarrow> int" where "last_of xs = last (0 # xs)"

lemma next_of_simps [simp]: "next_of [] = 0" "next_of (x # xs) = x"
  by (simp_all add: next_of_def)

lemma last_of_simps [simp]: "last_of [] = 0" "last_of (xs @ [x]) = x"
  by (simp_all add: last_of_def)

lemma search_forward:
  assumes "chain (m_objs s) p xs 0" and "\<forall>x \<in> set xs. entry_ok x" and sel: "\<And>e p n. sel (with_links e p n) = sel e"
  shows "search_chain s ev_ofsNext sel (next_of (map fst xs)) = Some (next_of (map fst (filter (\<lambda>x. sel (snd x)) xs)))"
  using assms(1,2)
proof (induction xs arbitrary: p)
  case Nil
  then show ?case by (subst search_chain.simps) simp
next
  case (Cons x xs)
  have x: "m_objs s (fst x) = Some (ObjEvent (with_links (snd x) p (next_of (map fst xs))))" "0 < fst x"
    "ev_signature (snd x) = DBEVENT_SIGNATURE"
    using Cons.prems by (simp_all add: next_of_def entry_ok_def)
  then have "DBRead_event s (fst x) = Some (with_links (snd x) p (next_of (map fst xs)))"
    "signature_at s (fst x) = DBEVENT_SIGNATURE" by (simp_all add: signature_at_def)
  moreover have "chain (m_objs s) (fst x) xs 0" "\<forall>x \<in> set xs. entry_ok x" using Cons.prems by simp_all
  ultimately show ?case using Cons.IH x(2) by (subst search_chain.simps) (simp add: sel)
qed

lemma search_backward:
  assumes "chain (m_objs s) 0 xs n" and "\<forall>x \<in> set xs. entry_ok x" and sel: "\<And>e p n. sel (with_links e p n) = sel e"
  shows "search_chain s ev_ofsPrev sel (last_of (map fst xs)) = Some (last_of (map fst (filter (\<lambda>x. sel (snd x)) xs)))"
  using assms(1,2)
proof (induction xs arbitrary: n rule: rev_induct)
  case Nil
  then show ?case by (subst search_chain.simps) simp
next
  case (snoc x xs)
  have x: "m_objs s (fst x) = Some (ObjEvent (with_links (snd x) (last_of (map fst xs)) n))" "0 < fst x"
    "ev_signature (snd x) = DBEVENT_SIGNATURE" "chain (m_objs s) 0 xs (fst x)"
    using snoc.prems by (simp_all add: chain_append last_of_def entry_ok_def)
  then have "DBRead_event s (fst x) = Some (with_links (snd x) (last_of (map fst xs)) n)"
    "signature_at s (fst x) = DBEVENT_SIGNATURE" by (simp_all add: signature_at_def)
  then show ?case using snoc x(2,4) by (subst search_chain.simps) (simp add: sel)
qed

section \<open>Enumeration\<close>

text \<open>The loop of a caller: from a handle on, as the given search leads.\<close>

partial_function (option) walk :: "(int \<Rightarrow> int option) \<Rightarrow> int \<Rightarrow> int list option" where
  "walk f h = (if h = 0 then Some [] else do { n \<leftarrow> f h; xs \<leftarrow> walk f n; Some (h # xs) })"

declare walk.simps [code]

definition events_forward :: "CDb3Mmap \<Rightarrow> u32 \<Rightarrow> int list option" where
  "events_forward s i = do { h \<leftarrow> FindFirstEvent s i; walk (FindNextEvent s i) h }"

definition events_backward :: "CDb3Mmap \<Rightarrow> u32 \<Rightarrow> int list option" where
  "events_backward s i = do { h \<leftarrow> FindLastEvent s i; walk (FindPrevEvent s i) h }"

lemma walk_list:
  assumes "\<And>as y bs. ys = as @ y # bs \<Longrightarrow> f y = Some (next_of bs)" and "0 \<notin> set ys"
  shows "walk f (next_of ys) = Some ys"
proof -
  have "walk f (next_of zs) = Some zs" if "ys = as @ zs" for as zs
    using that
  proof (induction zs arbitrary: as)
    case Nil
    then show ?case by (subst walk.simps) simp
  next
    case (Cons z zs)
    then have "walk f (next_of zs) = Some zs" "z \<noteq> 0" using Cons.IH [of "as @ [z]"] assms(2) by auto
    then show ?case using assms(1) [OF Cons.prems] by (subst walk.simps) simp
  qed
  then show ?thesis by simp
qed

text \<open>The events of a contact in the history of its chain.\<close>

definition mine :: "(u32 \<Rightarrow> u32) \<Rightarrow> u32 \<Rightarrow> entry \<Rightarrow> bool" where
  "mine P i x \<longleftrightarrow> P i = 0 \<or> cid x = i"

lemma events_of_mine: "events_of P H i = filter (mine P i) (H (chain_of P i))"
  by (cases "P i = 0") (simp_all add: events_of_def chain_of_def mine_def [abs_def])

lemma find_first_rep:
  assumes rep: "db_rep s ccs H" and i: "i \<in> fst ` set (roots s ccs)"
    and sel: "\<And>e p n. sel (with_links e p n) = sel e"
    and field: "\<And>dbc j. record_ok dbc (H j) (length (H j)) \<Longrightarrow> hist_ok (parents ccs) (m_objs s) j (H j) \<Longrightarrow>
      field dbc = F (H j) \<and> search_chain s dir sel (F (H j)) = Some (G (H j))"
  shows "find_from_contact s i field dir sel =
    Some (if parents ccs i = 0 then F (H i) else G (H (parents ccs i)))"
proof -
  let ?P = "parents ccs"
  note tab = db_repD(6) [OF rep]
  have root: "\<exists>ofs dbc. GetContactOffset s j = Some (ofs, if j = 0 then None else lookup ccs j) \<and>
      signature_at s ofs = DBCONTACT_SIGNATURE \<and> DBRead_contact s ofs = Some dbc \<and>
      (?P j = 0 \<longrightarrow> record_ok dbc (H j) (length (H j)) \<and> hist_ok ?P (m_objs s) j (H j)) \<and>
      (\<forall>cc. j \<noteq> 0 \<longrightarrow> lookup ccs j = Some cc \<longrightarrow> cc_dwOfsContact cc = ofs)" if j: "j \<in> fst ` set (roots s ccs)" for j
  proof -
    obtain ofs where ofs: "(j, ofs) \<in> set (roots s ccs)" using j by auto
    obtain dbc where dbc: "m_objs s ofs = Some (ObjContact dbc)"
      "record_ok dbc (own_events ?P H j) (length (events_of ?P H j))" using db_rep_root [OF rep ofs] .
    have "ofs \<noteq> 0" using space_inside [OF db_repD(2) [OF rep] dbc(1)] by simp
    moreover have "?P j = 0 \<longrightarrow> hist_ok ?P (m_objs s) j (H j)" using db_rep_hist(1) [OF rep ofs] by simp
    ultimately show ?thesis
      using dbc GetContactOffset_rep [OF tab ofs] GetContactOffset_def [of s j] GetCachedContact_rep [OF tab]
      by (auto simp: signature_at_def DBRead_contact_def record_ok_def own_events_def events_of_def)
  qed
  obtain ofs dbc where r: "GetContactOffset s i = Some (ofs, if i = 0 then None else lookup ccs i)"
    "signature_at s ofs = DBCONTACT_SIGNATURE" "DBRead_contact s ofs = Some dbc"
    "?P i = 0 \<Longrightarrow> record_ok dbc (H i) (length (H i)) \<and> hist_ok ?P (m_objs s) i (H i)" using root [OF i] by blast
  show ?thesis
  proof (cases "i = 0 \<or> ?P i = 0")
    case True
    then have "?P i = 0" using parents_out [OF table_distinct(2) [OF tab]] by auto
    moreover have "i \<noteq> 0 \<Longrightarrow> \<exists>cc. lookup ccs i = Some cc \<and> \<not> IsSub cc"
      using i \<open>?P i = 0\<close> lookup_None [of ccs i] unfolding root_known by (auto simp: parents_def IsSub_def)
    ultimately show ?thesis using r field [of dbc i] by (auto simp: find_from_contact_def)
  next
    case False
    then obtain cc where cc: "lookup ccs i = Some cc" "cc_parentID cc = ?P i" "IsSub cc"
      by (auto simp: parents_def IsSub_def split: option.splits)
    let ?j = "?P i"
    have j: "?j \<in> fst ` set (roots s ccs)" "?P ?j = 0" "?j \<in> cc_contactID ` set ccs"
      using parent_known [OF tab, of i] False unfolding root_known by auto
    obtain ofs' dbc' where r': "signature_at s ofs' = DBCONTACT_SIGNATURE" "DBRead_contact s ofs' = Some dbc'"
      "record_ok dbc' (H ?j) (length (H ?j))" "hist_ok ?P (m_objs s) ?j (H ?j)"
      "\<And>cc. ?j \<noteq> 0 \<Longrightarrow> lookup ccs ?j = Some cc \<Longrightarrow> cc_dwOfsContact cc = ofs'"
      using root [OF j(1)] j(2) by blast
    obtain dd where dd: "lookup ccs ?j = Some dd" using j(3) lookup_None [of ccs ?j] by auto
    then have "cc_dwOfsContact dd = ofs'" using r'(5) False by simp
    then show ?thesis
      using False r(1-3) cc dd r'(1,2) field [OF r'(3,4)] by (simp add: find_from_contact_def GetCachedContact_rep [OF tab])
  qed
qed

lemma hist_chain: "hist_ok P h i xs \<Longrightarrow> chain h 0 xs 0" "hist_ok P h i xs \<Longrightarrow> \<forall>x \<in> set xs. entry_ok x"
  by (auto simp: hist_ok_def)

lemma FindFirstEvent_rep:
  assumes rep: "db_rep s ccs H" and i: "i \<in> fst ` set (roots s ccs)"
  shows "FindFirstEvent s i = Some (next_of (map fst (events_of (parents ccs) H i)))"
proof -
  let ?sel = "\<lambda>e. ev_contactID e = i"
  have "find_from_contact s i dc_ofsFirstEvent ev_ofsNext ?sel = Some (if parents ccs i = 0 then next_of (map fst (H i))
      else next_of (map fst (filter (\<lambda>x. ?sel (snd x)) (H (parents ccs i)))))"
    by (rule find_first_rep [OF rep i], simp)
      (rule conjI, simp add: record_ok_def ends_ok_def next_of_def, rule search_forward [OF hist_chain], simp_all)
  then show ?thesis by (simp add: FindFirstEvent_def events_of_def)
qed

lemma FindLastEvent_rep:
  assumes rep: "db_rep s ccs H" and i: "i \<in> fst ` set (roots s ccs)"
  shows "FindLastEvent s i = Some (last_of (map fst (events_of (parents ccs) H i)))"
proof -
  let ?sel = "\<lambda>e. ev_contactID e = i"
  have "find_from_contact s i dc_ofsLastEvent ev_ofsPrev ?sel = Some (if parents ccs i = 0 then last_of (map fst (H i))
      else last_of (map fst (filter (\<lambda>x. ?sel (snd x)) (H (parents ccs i)))))"
    by (rule find_first_rep [OF rep i], simp)
      (rule conjI, simp only: record_ok_def ends_ok_def last_of_def, rule search_backward [OF hist_chain], simp_all)
  then show ?thesis by (simp add: FindLastEvent_def events_of_def)
qed

text \<open>The first unread event of a chain starts a part of it that has all its unread ones.\<close>

lemma search_unread:
  assumes "chain (m_objs s) p xs 0" and "\<forall>x \<in> set xs. entry_ok x"
    and sel: "\<And>e p n. sel (with_links e p n) = sel e" and unread: "\<And>e. sel e \<Longrightarrow> \<not> markedRead e"
  shows "search_chain s ev_ofsNext sel (fst (first_unread xs)) = Some (next_of (map fst (filter (\<lambda>x. sel (snd x)) xs)))"
  using assms(1,2)
proof (induction xs arbitrary: p)
  case Nil
  then show ?case by (subst search_chain.simps) simp
next
  case (Cons x xs)
  show ?case
  proof (cases "markedRead (snd x)")
    case True
    then have "\<not> sel (snd x)" using unread by blast
    moreover have "chain (m_objs s) (fst x) xs 0" "\<forall>x \<in> set xs. entry_ok x" using Cons.prems by simp_all
    ultimately show ?thesis using True Cons.IH by simp
  next
    case False
    then show ?thesis using search_forward [OF Cons.prems, of sel] sel by simp
  qed
qed

lemma FindFirstUnreadEvent_rep:
  assumes rep: "db_rep s ccs H" and i: "i \<in> fst ` set (roots s ccs)"
  shows "FindFirstUnreadEvent s i =
    Some (next_of (map fst (filter (\<lambda>x. \<not> markedRead (snd x)) (events_of (parents ccs) H i))))"
proof -
  have first: "fst (first_unread xs) = next_of (map fst (filter (\<lambda>x. \<not> markedRead (snd x)) xs))" for xs
    by (induction xs) auto
  let ?sel = "\<lambda>e. ev_contactID e = i \<and> \<not> markedRead e"
  have "find_from_contact s i dc_ofsFirstUnread ev_ofsNext ?sel = Some (if parents ccs i = 0 then fst (first_unread (H i))
      else next_of (map fst (filter (\<lambda>x. ?sel (snd x)) (H (parents ccs i)))))"
    by (rule find_first_rep [OF rep i], simp)
      (rule conjI, simp add: record_ok_def prod_eq_iff, rule search_unread [OF hist_chain], simp_all)
  then show ?thesis by (simp add: FindFirstUnreadEvent_def events_of_def first conj_commute)
qed

text \<open>From an event of a contact on, forward and back.\<close>

lemma find_next_rep:
  assumes rep: "db_rep s ccs H" and i: "i \<in> fst ` set (roots s ccs)" and x: "x \<in> set (events_of (parents ccs) H i)"
    and xs: "H (chain_of (parents ccs) i) = as @ x # bs"
    and dir: "\<And>p n. dir (with_links (snd x) p n) = d p n"
  shows "\<exists>p n. DBRead_event s (fst x) = Some (with_links (snd x) p n) \<and>
    p = last_of (map fst as) \<and> n = next_of (map fst bs) \<and>
    chain (m_objs s) 0 as (fst x) \<and> chain (m_objs s) (fst x) bs 0 \<and> (\<forall>y \<in> set as \<union> set bs. entry_ok y) \<and>
    find_from_event s i (fst x) dir =
      (if parents ccs i = 0 then Some (d p n) else search_chain s dir (\<lambda>e. ev_contactID e = i) (d p n))"
proof -
  note tab = db_repD(6) [OF rep]
  obtain ofs where ofs: "(chain_of (parents ccs) i, ofs) \<in> set (roots s ccs)" "parents ccs (chain_of (parents ccs) i) = 0"
    using chain_root [OF rep i] by blast
  note hist = db_rep_hist(1) [OF rep ofs]
  let ?p = "last_of (map fst as)" and ?n = "next_of (map fst bs)"
  have ch: "m_objs s (fst x) = Some (ObjEvent (with_links (snd x) ?p ?n))" "chain (m_objs s) 0 as (fst x)"
    "chain (m_objs s) (fst x) bs 0"
    using hist_chain(1) [OF hist] unfolding xs by (simp_all add: chain_append last_of_def next_of_def)
  have ent: "\<forall>y \<in> set (as @ x # bs). entry_ok y" using hist_chain(2) [OF hist] unfolding xs .
  then have "0 < fst x" "ev_signature (snd x) = DBEVENT_SIGNATURE" by (simp_all add: entry_ok_def)
  then have rd: "DBRead_event s (fst x) = Some (with_links (snd x) ?p ?n)" "signature_at s (fst x) = DBEVENT_SIGNATURE"
    using ch(1) by (simp_all add: DBRead_event_def signature_at_def)
  have "i = 0 \<Longrightarrow> parents ccs i = 0" using parents_out [OF table_distinct(2) [OF tab]] by simp
  then have "find_from_event s i (fst x) dir =
      (if parents ccs i = 0 then Some (d ?p ?n) else search_chain s dir (\<lambda>e. ev_contactID e = i) (d ?p ?n))"
    using rd by (cases "lookup ccs i")
      (auto simp: find_from_event_def GetCachedContact_rep [OF tab] dir parents_def IsSub_def)
  then show ?thesis using rd(1) ch(2,3) ent by auto
qed

lemma mine_split:
  assumes "events_of P H i = as @ x # bs"
  obtains as' bs' where "H (chain_of P i) = as' @ x # bs'" and "filter (mine P i) as' = as" and "filter (mine P i) bs' = bs"
proof -
  have "\<exists>as' bs'. L = as' @ x # bs' \<and> filter f as' = as \<and> filter f bs' = bs" if "filter f L = as @ x # bs" for f L
    using that
  proof (induction as arbitrary: L)
    case Nil
    then obtain us vs where "L = us @ x # vs" "\<forall>u \<in> set us. \<not> f u" "f x" "bs = filter f vs"
      using filter_eq_ConsD [of f L x bs] by auto
    then show ?case by (intro exI [of _ us] exI [of _ vs]) (simp add: filter_empty_conv)
  next
    case (Cons a as)
    then obtain us vs where "L = us @ a # vs" "\<forall>u \<in> set us. \<not> f u" "f a" "as @ x # bs = filter f vs"
      using filter_eq_ConsD [of f L a "as @ x # bs"] by auto
    moreover from this Cons.IH [of vs] obtain as' bs' where "vs = as' @ x # bs'" "filter f as' = as" "filter f bs' = bs" by metis
    ultimately show ?case by (intro exI [of _ "us @ a # as'"] exI [of _ bs']) (simp add: filter_empty_conv)
  qed
  then show ?thesis using assms that unfolding events_of_mine by blast
qed

lemma mine_own: "P i = 0 \<Longrightarrow> filter (mine P i) xs = xs" "P i \<noteq> 0 \<Longrightarrow> filter (mine P i) xs = filter (\<lambda>x. cid x = i) xs"
  by (simp_all add: mine_def [abs_def])

lemma FindNextEvent_rep:
  assumes rep: "db_rep s ccs H" and i: "i \<in> fst ` set (roots s ccs)" and ev: "events_of (parents ccs) H i = as @ x # bs"
  shows "FindNextEvent s i (fst x) = Some (next_of (map fst bs))"
proof -
  obtain as' bs' where sp: "H (chain_of (parents ccs) i) = as' @ x # bs'" "filter (mine (parents ccs) i) bs' = bs"
    using mine_split [OF ev] by blast
  note n = find_next_rep [OF rep i _ sp(1), of ev_ofsNext "\<lambda>p n. n"]
  show ?thesis
  proof (cases "parents ccs i = 0")
    case True
    then have "bs' = bs" using sp(2) mine_own(1) [of "parents ccs" i] True by simp
    then show ?thesis using n ev True by (auto simp: FindNextEvent_def)
  next
    case False
    have "filter (\<lambda>y. cid y = i) bs' = bs" using sp(2) mine_own(2) [of "parents ccs" i] False by simp
    then show ?thesis
      using n ev False search_forward [of s "fst x" bs' "\<lambda>e. ev_contactID e = i"] by (auto simp: FindNextEvent_def)
  qed
qed

lemma FindPrevEvent_rep:
  assumes rep: "db_rep s ccs H" and i: "i \<in> fst ` set (roots s ccs)" and ev: "events_of (parents ccs) H i = as @ x # bs"
  shows "FindPrevEvent s i (fst x) = Some (last_of (map fst as))"
proof -
  obtain as' bs' where sp: "H (chain_of (parents ccs) i) = as' @ x # bs'" "filter (mine (parents ccs) i) as' = as"
    using mine_split [OF ev] by blast
  note n = find_next_rep [OF rep i _ sp(1), of ev_ofsPrev "\<lambda>p n. p"]
  show ?thesis
  proof (cases "parents ccs i = 0")
    case True
    then have "as' = as" using sp(2) mine_own(1) [of "parents ccs" i] True by simp
    then show ?thesis using n ev True by (auto simp: FindPrevEvent_def)
  next
    case False
    have "filter (\<lambda>y. cid y = i) as' = as" using sp(2) mine_own(2) [of "parents ccs" i] False by simp
    then show ?thesis
      using n ev False search_backward [of s as' "fst x" "\<lambda>e. ev_contactID e = i"] by (auto simp: FindPrevEvent_def)
  qed
qed

lemma events_of_ok:
  assumes rep: "db_rep s ccs H" and i: "i \<in> fst ` set (roots s ccs)"
  shows "0 \<notin> fst ` set (events_of (parents ccs) H i)" "distinct (map fst (events_of (parents ccs) H i))"
    "sorted (map ts (events_of (parents ccs) H i))"
proof -
  obtain ofs where ofs: "(chain_of (parents ccs) i, ofs) \<in> set (roots s ccs)" "parents ccs (chain_of (parents ccs) i) = 0"
    using chain_root [OF rep i] by blast
  note hist = db_rep_hist(1) [OF rep ofs]
  show "0 \<notin> fst ` set (events_of (parents ccs) H i)"
    using hist_chain(2) [OF hist] by (force simp: events_of_mine entry_ok_def)
  show "distinct (map fst (events_of (parents ccs) H i))" "sorted (map ts (events_of (parents ccs) H i))"
    using hist unfolding events_of_mine hist_ok_def by (blast intro: distinct_map_filter sorted_filter)+
qed

lemma map_fst_split: "map fst xs = as @ y # bs \<Longrightarrow> \<exists>us x vs. xs = us @ x # vs \<and> map fst us = as \<and> fst x = y \<and> map fst vs = bs"
  by (fastforce simp: map_eq_append_conv map_eq_Cons_conv)

lemma events_forward_rep:
  assumes rep: "db_rep s ccs H" and i: "i \<in> fst ` set (roots s ccs)"
  shows "events_forward s i = Some (map fst (events_of (parents ccs) H i))"
proof -
  have "walk (FindNextEvent s i) (next_of (map fst (events_of (parents ccs) H i))) = Some (map fst (events_of (parents ccs) H i))"
  proof (rule walk_list)
    fix as y bs
    assume "map fst (events_of (parents ccs) H i) = as @ y # bs"
    from map_fst_split [OF this] show "FindNextEvent s i y = Some (next_of bs)" using FindNextEvent_rep [OF rep i] by blast
  qed (use events_of_ok(1) [OF rep i] in simp)
  then show ?thesis by (simp add: events_forward_def FindFirstEvent_rep [OF rep i])
qed

lemma rev_ends: "next_of (rev xs) = last_of xs"
  by (cases xs rule: rev_cases) simp_all

lemma events_backward_rep:
  assumes rep: "db_rep s ccs H" and i: "i \<in> fst ` set (roots s ccs)"
  shows "events_backward s i = Some (rev (map fst (events_of (parents ccs) H i)))"
proof -
  have "walk (FindPrevEvent s i) (next_of (rev (map fst (events_of (parents ccs) H i)))) =
      Some (rev (map fst (events_of (parents ccs) H i)))"
  proof (rule walk_list)
    fix as y bs
    assume "rev (map fst (events_of (parents ccs) H i)) = as @ y # bs"
    then have "map fst (events_of (parents ccs) H i) = rev bs @ y # rev as" by (simp add: rev_swap)
    from map_fst_split [OF this] show "FindPrevEvent s i y = Some (next_of bs)"
      using FindPrevEvent_rep [OF rep i] rev_ends [of "rev bs"] by fastforce
  qed (use events_of_ok(1) [OF rep i] in simp)
  then show ?thesis by (simp add: events_backward_def FindLastEvent_rep [OF rep i] rev_ends)
qed

lemma GetEventCount_rep:
  assumes rep: "db_rep s ccs H" and i: "i \<in> fst ` set (roots s ccs)"
  shows "GetEventCount s i = Some (sint (of_nat (length (events_of (parents ccs) H i)) :: u32))"
proof -
  obtain ofs where ofs: "(i, ofs) \<in> set (roots s ccs)" using i by auto
  obtain c where c: "m_objs s ofs = Some (ObjContact c)"
    "record_ok c (own_events (parents ccs) H i) (length (events_of (parents ccs) H i))" using db_rep_root [OF rep ofs] .
  have "ofs \<noteq> 0" using space_inside [OF db_repD(2) [OF rep] c(1)] by simp
  then show ?thesis
    using c GetContactOffset_rep [OF db_repD(6) [OF rep] ofs]
    by (simp add: GetEventCount_def signature_at_def DBRead_contact_def record_ok_def)
qed

end
