(* ===== verification/DbLaws.thy ===== *)
theory DbLaws imports DbHistory begin

text \<open>
  The operations of the driver against histories as lists of events: an event is put in by its time,
  is taken out, is marked, and comes back as it was stored.  No handler changes the database here.
\<close>

section \<open>Inserting by time\<close>

lemma insert_event_unique:
  assumes "\<forall>a \<in> set as. ts a \<le> ts x" and "\<forall>b \<in> set bs. ts x < ts b"
  shows "insert_event x (as @ bs) = as @ x # bs"
proof -
  have "takeWhile (\<lambda>y. ts y \<le> ts x) bs = []" "dropWhile (\<lambda>y. ts y \<le> ts x) bs = bs" using assms(2) by (cases bs; auto)+
  then show ?thesis
    using assms(1) unfolding insert_event_def by (simp add: takeWhile_append dropWhile_append)
qed

lemma insert_event_parts:
  assumes "sorted (map ts xs)"
  obtains as bs where "xs = as @ bs" and "insert_event x xs = as @ x # bs"
    and "\<forall>a \<in> set as. ts a \<le> ts x" and "\<forall>b \<in> set bs. ts x < ts b"
proof
  show "xs = takeWhile (\<lambda>y. ts y \<le> ts x) xs @ dropWhile (\<lambda>y. ts y \<le> ts x) xs" by simp
qed (use sorted_parts [OF assms, of "ts x"] in \<open>simp_all only: insert_event_def\<close>)

lemma filter_insert_event:
  assumes "sorted (map ts xs)"
  shows "filter f (insert_event x xs) = (if f x then insert_event x (filter f xs) else filter f xs)"
proof -
  obtain as bs where p: "xs = as @ bs" "insert_event x xs = as @ x # bs" "\<forall>a \<in> set as. ts a \<le> ts x" "\<forall>b \<in> set bs. ts x < ts b"
    using insert_event_parts [OF assms] .
  then have "insert_event x (filter f as @ filter f bs) = filter f as @ x # filter f bs"
    by (intro insert_event_unique) auto
  then show ?thesis using p(1,2) by simp
qed

lemma filter_remove_entry: "filter f (remove_entry h xs) = remove_entry h (filter f xs)"
  by (simp add: remove_entry_def conj_commute)

lemma fst_remove_entry: "map fst (remove_entry h xs) = filter (\<lambda>y. y \<noteq> h) (map fst xs)"
  by (induction xs) (auto simp: remove_entry_def)

lemma fst_mark_entry [simp]: "map fst (mark_entry h xs) = map fst xs"
  by (auto simp: mark_entry_def)

lemma cid_mark_entry: "filter (mine P i) (mark_entry h xs) = mark_entry h (filter (mine P i) xs)"
  by (induction xs) (auto simp: mark_entry_def mine_def)

section \<open>Adding an event\<close>

lemma event_target_quiet:
  assumes rep: "db_rep s ccs H" and ls: "listed s ccs H" and j: "j \<in> fst ` set (roots s ccs)"
  obtains n l ccs' where "event_target (quiet enc dec) s j di =
      Some (Some (chain_of (parents ccs) j, n, sub_of (parents ccs) j), s\<lparr>m_lContacts := l\<rparr>)"
    and "db_rep (s\<lparr>m_lContacts := l\<rparr>) ccs' H" and "listed (s\<lparr>m_lContacts := l\<rparr>) ccs' H" and "parents ccs' = parents ccs"
    and "cc_contactID ` set ccs' = cc_contactID ` set ccs"
proof -
  have known: "j = 0 \<or> j \<in> cc_contactID ` set ccs" using j unfolding root_known .
  have id: "s\<lparr>m_lContacts := m_lContacts s\<rparr> = s" by simp
  show ?thesis
  proof (cases rule: event_target_cases [OF rep, of j "quiet enc dec" di])
    case 1
    then show ?thesis using that [of j "m_lContacts s" ccs] rep ls by (simp add: id chain_of_def sub_of_def)
  next
    case 2
    then show ?thesis using known by simp
  next
    case 3
    let ?m = "parents ccs j"
    obtain l ccs' where set: "(if di_flags di AND DBEF_SENT = 0
        then map_option snd (db_mc_setDefault (quiet enc dec) s ?m j) else Some s) = Some (s\<lparr>m_lContacts := l\<rparr>)"
      "db_rep (s\<lparr>m_lContacts := l\<rparr>) ccs' H" "listed (s\<lparr>m_lContacts := l\<rparr>) ccs' H" "parents ccs' = parents ccs"
      "cc_contactID ` set ccs' = cc_contactID ` set ccs"
    proof (cases "di_flags di AND DBEF_SENT = 0")
      case False
      then show ?thesis using that [of "m_lContacts s" ccs] rep ls by (simp add: id)
    next
      case True
      show ?thesis
      proof (cases rule: setDefault_cases [OF rep, of "quiet enc dec" ?m j])
        case (1 r)
        then show ?thesis using that [of "m_lContacts s" ccs] rep ls True by (simp add: id)
      next
        case (2 l k)
        let ?f = "cc_nDefault_update (\<lambda>_. k)"
        have "db_rep (s\<lparr>m_lContacts := l\<rparr>) (change_contact ?m ?f ccs) H" "listed (s\<lparr>m_lContacts := l\<rparr>) (change_contact ?m ?f ccs) H"
          by (rule change_contact_rep [OF _ _ _ rep ls 2(2)]; simp)+
        moreover have "parents (change_contact ?m ?f ccs) = parents ccs"
          "cc_contactID ` set (change_contact ?m ?f ccs) = cc_contactID ` set ccs"
          by (rule change_contact_roots; simp)+
        ultimately show ?thesis using that 2(1) True by simp
      qed
    qed
    have P: "parents ccs' j = ?m" using set(4) by simp
    then obtain dd where "lookup ccs' j = Some dd" "cc_parentID dd = ?m"
      using 3(1) by (auto simp: parents_def [of ccs'] split: option.splits)
    then have "GetCachedContact (s\<lparr>m_lContacts := l\<rparr>) j = Some (Some dd)" "cc_parentID dd = ?m"
      using GetCachedContact_rep [OF db_repD(6) [OF set(2)]] by simp_all
    then have "event_target (quiet enc dec) s j di = Some (Some (?m, if m_bMetaEnabled s then ?m else j, Some j), s\<lparr>m_lContacts := l\<rparr>)"
      using 3(4) set(1) by simp
    then show ?thesis using that [OF _ set(2-5)] 3(1) by (simp add: chain_of_def sub_of_def)
  qed
qed

text \<open>\<open>AddEvent\<close> puts the new event into the history of the contact's chain.\<close>

lemma AddEvent_rep:
  assumes rep: "db_rep s ccs H" and ls: "listed s ccs H" and j: "j \<in> fst ` set (roots s ccs)"
    and tsd: "getUnixtime di \<noteq> 0" and blob: "event_blob di = Some blob"
    and enc: "encode_blob (quiet enc dec) s blob (di_flags di) = (b, f)"
    and room: "file_end s + size_event + int (length b) + int (length (di_szModule di)) + size_module < 2147483648"
  obtains t ccs' m mn where "AddEvent (quiet enc dec) s j (Some di) = Some (file_end s, t)"
    and "db_rep t ccs' (H(chain_of (parents ccs) j :=
      insert_event (file_end s, new_event j m di b f) (H (chain_of (parents ccs) j))))"
    and "listed t ccs' (H(chain_of (parents ccs) j :=
      insert_event (file_end s, new_event j m di b f) (H (chain_of (parents ccs) j))))"
    and "parents ccs' = parents ccs" and "cc_contactID ` set ccs' = cc_contactID ` set ccs"
    and "m_objs t m = Some (ObjModule mn)" and "mn_name mn = c_str (di_szModule di)"
proof -
  obtain n l ccs' where tg: "event_target (quiet enc dec) s j di =
      Some (Some (chain_of (parents ccs) j, n, sub_of (parents ccs) j), s\<lparr>m_lContacts := l\<rparr>)"
    "db_rep (s\<lparr>m_lContacts := l\<rparr>) ccs' H" "listed (s\<lparr>m_lContacts := l\<rparr>) ccs' H" "parents ccs' = parents ccs"
    "cc_contactID ` set ccs' = cc_contactID ` set ccs"
    using event_target_quiet [OF rep ls j] .
  let ?s = "s\<lparr>m_lContacts := l\<rparr>"
  have j': "j \<in> fst ` set (roots ?s ccs')" using j unfolding root_known tg(5) .
  have room': "file_end ?s + size_event + int (length b) + int (length (di_szModule di)) + size_module < 2147483648"
    using room by simp
  obtain ofs dbc cc t m mn where st: "GetContactOffset ?s (chain_of (parents ccs') j) = Some (ofs, cc)"
    "signature_at ?s ofs = DBCONTACT_SIGNATURE" "DBRead_contact ?s ofs = Some dbc"
    "store_event (quiet enc dec) ?s ofs dbc j (sub_of (parents ccs') j) di b f = Some (file_end ?s, t)"
    "db_rep t ccs' (H(chain_of (parents ccs') j :=
      insert_event (file_end ?s, new_event j m di b f) (H (chain_of (parents ccs') j))))"
    "listed t ccs' (H(chain_of (parents ccs') j :=
      insert_event (file_end ?s, new_event j m di b f) (H (chain_of (parents ccs') j))))"
    "m_objs t m = Some (ObjModule mn)" "mn_name mn = c_str (di_szModule di)"
    using store_step [OF tg(2,3) j' tsd room'] .
  have enc': "encode_blob (quiet enc dec) ?s blob (di_flags di) = (b, f)" using enc by (simp add: encode_blob_def)
  have "AddEvent (quiet enc dec) s j (Some di) = Some (file_end s, t)"
    using tsd tg(1) blob enc' st(1-4) unfolding tg(4) by (simp add: AddEvent_def Let_def)
  then show ?thesis using that [of t ccs' m mn] st(5-8) tg(4,5) by simp
qed

text \<open>\<open>DeleteEvent\<close> and \<open>MarkEventRead\<close> change the one event they are given.\<close>

lemma DeleteEvent_rep:
  assumes rep: "db_rep s (cached s) H" and ls: "listed s (cached s) H" and e: "m_objs s h = Some (ObjEvent e)"
  obtains t where "DeleteEvent (quiet enc dec) s h = Some (0, t)"
    and "db_rep t (cached s) (H(chain_of (parents (cached s)) (ev_contactID e) :=
      remove_entry h (H (chain_of (parents (cached s)) (ev_contactID e)))))"
    and "listed t (cached s) (H(chain_of (parents (cached s)) (ev_contactID e) :=
      remove_entry h (H (chain_of (parents (cached s)) (ev_contactID e)))))"
proof -
  define i where "i = chain_of (parents (cached s)) (ev_contactID e)"
  note tab = db_repD(6) [OF rep]
  obtain ofs dbc where r: "ev_contactID e \<in> fst ` set (roots s (cached s))" "(i, ofs) \<in> set (roots s (cached s))"
    "DBRead_contact s ofs = Some dbc"
    "signature_at s ofs = DBCONTACT_SIGNATURE" "DBRead_event s h = Some e" "signature_at s h = DBEVENT_SIGNATURE"
    using event_root [OF rep ls e] unfolding i_def by blast
  define cc where "cc = (if i = 0 then None else lookup (cached s) i)"
  have owner: "chain_owner s (ev_contactID e) = Some (Inr cc)" "owner_offset s cc = ofs"
    using chain_owner_rep [OF rep r(1)] owner_offset_rep [OF tab r(2)] unfolding cc_def i_def by auto
  have cc: "case cc of None \<Rightarrow> i = 0 | Some cc \<Rightarrow> i \<noteq> 0 \<and> cc_contactID cc = i"
    using r(2) lookup_None [of "cached s" i] lookup_Some [of "cached s" i]
    by (cases "lookup (cached s) i") (force simp: cc_def roots_def)+
  obtain u where u: "delete_rest s cc ofs h dbc e = Some u" "db_rep u (cached s) (H(i := remove_entry h (H i)))"
    "listed u (cached s) (H(i := remove_entry h (H i)))"
    using delete_step [OF rep ls e i_def [symmetric] r(2) cc r(3)] .
  show ?thesis
    using that DeleteEvent_rest [OF r(6,5) owner r(4) _ r(3,5) u(1), of "quiet enc dec"] u(2,3) by (simp add: i_def)
qed

section \<open>What callers see\<close>

definition event_time :: "CDb3Mmap \<Rightarrow> int \<Rightarrow> u32" where
  "event_time s h = (case m_objs s h of Some (ObjEvent e) \<Rightarrow> ev_timestamp e | _ \<Rightarrow> 0)"

definition unread_event :: "CDb3Mmap \<Rightarrow> int \<Rightarrow> bool" where
  "unread_event s h = (case m_objs s h of Some (ObjEvent e) \<Rightarrow> \<not> markedRead e | _ \<Rightarrow> False)"

definition known :: "CDb3Mmap \<Rightarrow> u32 \<Rightarrow> bool" where
  "known s i \<longleftrightarrow> i \<in> fst ` set (roots s (cached s))"

lemma events_object:
  assumes rep: "db_rep s ccs H" and i: "i \<in> fst ` set (roots s ccs)" and x: "x \<in> set (events_of (parents ccs) H i)"
  obtains p n where "m_objs s (fst x) = Some (ObjEvent (with_links (snd x) p n))"
    and "event_time s (fst x) = ts x" and "unread_event s (fst x) \<longleftrightarrow> \<not> markedRead (snd x)"
    and "0 < fst x" and "fst x < file_end s"
proof -
  obtain ofs where ofs: "(chain_of (parents ccs) i, ofs) \<in> set (roots s ccs)" "parents ccs (chain_of (parents ccs) i) = 0"
    using chain_root [OF rep i] by blast
  have "x \<in> set (H (chain_of (parents ccs) i))" using x unfolding events_of_mine by simp
  then obtain p n where obj: "m_objs s (fst x) = Some (ObjEvent (with_links (snd x) p n))"
    using chain_object [OF hist_chain(1) [OF db_rep_hist(1) [OF rep ofs]]] by blast
  then have "event_time s (fst x) = ts x" "unread_event s (fst x) \<longleftrightarrow> \<not> markedRead (snd x)"
    by (simp_all add: event_time_def unread_event_def)
  moreover have "0 < fst x" "fst x < file_end s" using space_inside [OF db_repD(2) [OF rep] obj] by simp_all
  ultimately show ?thesis by (rule that [OF obj])
qed

lemma events_length:
  assumes rep: "db_rep s ccs H" and i: "i \<in> fst ` set (roots s ccs)"
  shows "int (length (events_of (parents ccs) H i)) < file_end s"
proof -
  let ?xs = "map fst (events_of (parents ccs) H i)"
  have "0 < fst x \<and> fst x < file_end s" if "x \<in> set (events_of (parents ccs) H i)" for x
    using events_object [OF rep i that] by blast
  then have "set ?xs \<subseteq> {0 <..< file_end s}" by auto
  then have "card (set ?xs) \<le> card {0 <..< file_end s}" by (intro card_mono) auto
  moreover have "card (set ?xs) = length ?xs" using events_of_ok(2) [OF rep i] distinct_card by blast
  moreover have "0 < file_end s" using db_repD(2) [OF rep] by (auto simp: space_ok_def size_defs)
  ultimately show ?thesis by simp
qed

lemma events_update:
  "events_of P (H(c := ys)) i = (if chain_of P i = c then filter (mine P i) ys else events_of P H i)"
  by (simp add: events_of_mine)

lemma events_seen:
  assumes rep: "db_rep s ccs H" and i: "i \<in> fst ` set (roots s ccs)"
  shows "events_forward s i = Some (map fst (events_of (parents ccs) H i))"
    and "events_backward s i = Some (rev (map fst (events_of (parents ccs) H i)))"
    and "map (event_time s) (map fst (events_of (parents ccs) H i)) = map ts (events_of (parents ccs) H i)"
    and "filter (unread_event s) (map fst (events_of (parents ccs) H i)) =
      map fst (filter (\<lambda>x. \<not> markedRead (snd x)) (events_of (parents ccs) H i))"
proof -
  have ev: "event_time s (fst x) = ts x \<and> (unread_event s (fst x) \<longleftrightarrow> \<not> markedRead (snd x))"
    if "x \<in> set (events_of (parents ccs) H i)" for x using events_object [OF rep i that] by blast
  show "events_forward s i = Some (map fst (events_of (parents ccs) H i))" by (rule events_forward_rep [OF rep i])
  show "events_backward s i = Some (rev (map fst (events_of (parents ccs) H i)))" by (rule events_backward_rep [OF rep i])
  show "map (event_time s) (map fst (events_of (parents ccs) H i)) = map ts (events_of (parents ccs) H i)" using ev by simp
  show "filter (unread_event s) (map fst (events_of (parents ccs) H i)) =
      map fst (filter (\<lambda>x. \<not> markedRead (snd x)) (events_of (parents ccs) H i))"
    using ev by (simp add: filter_map comp_def cong: filter_cong)
qed

lemma known_cong:
  assumes "cc_contactID ` set (cached t) = cc_contactID ` set (cached s)"
  shows "known t i \<longleftrightarrow> known s i"
  unfolding known_def root_known assms ..

lemma forward_update:
  assumes rep: "db_rep s (cached s) H" and rep': "db_rep t (cached t) (H(c := ys))" and i: "known s i" "known t i"
    and P: "parents (cached t) = parents (cached s)"
  shows "events_forward t i =
    (if chain_of (parents (cached s)) i = c then Some (map fst (filter (mine (parents (cached s)) i) ys)) else events_forward s i)"
  using events_seen(1) [OF rep', of i] events_seen(1) [OF rep, of i] i
  unfolding known_def P events_update by simp

text \<open>
  C7: What a caller of the driver sees of a contact in a database that is in order: the loop of
  \<open>FindFirstEvent\<close> and \<open>FindNextEvent\<close> ends and gives its events in the order of their times, the one of
  \<open>FindLastEvent\<close> and \<open>FindPrevEvent\<close> gives them backwards, \<open>GetEventCount\<close> is their number, and
  \<open>FindFirstUnreadEvent\<close> is the first of them that was not read.  This holds for subcontacts too, whose
  events are in the chain of their metacontact.
\<close>

theorem history_enumerated:
  assumes ok: "db_ok s" and i: "known s i" and small: "file_end s < 2147483648"
  shows "\<exists>xs. events_forward s i = Some xs \<and> events_backward s i = Some (rev xs) \<and>
    GetEventCount s i = Some (int (length xs)) \<and> distinct xs \<and> sorted (map (event_time s) xs) \<and>
    FindFirstUnreadEvent s i = Some (hd (filter (unread_event s) xs @ [0]))"
proof -
  obtain H where rep: "db_rep s (cached s) H" using db_okE [OF ok] .
  let ?xs = "map fst (events_of (parents (cached s)) H i)"
  note i' = i [unfolded known_def] and seen = events_seen [OF rep i [unfolded known_def]]
  have "length ?xs < 2147483648" using events_length [OF rep i'] small by simp
  then have "sint (of_nat (length ?xs) :: u32) = int (length ?xs)"
    by (simp add: signed_of_nat signed_take_bit_int_eq_self)
  then have "GetEventCount s i = Some (int (length ?xs))" using GetEventCount_rep [OF rep i'] by simp
  moreover have "FindFirstUnreadEvent s i = Some (hd (filter (unread_event s) ?xs @ [0]))"
    using FindFirstUnreadEvent_rep [OF rep i'] unfolding seen(4) next_of_def .
  moreover have "sorted (map (event_time s) ?xs)" "distinct ?xs"
    using events_of_ok [OF rep i'] unfolding seen(3) by simp_all
  ultimately show ?thesis using seen(1,2) by blast
qed

text \<open>An event inserted by time into the chain of a contact, as the enumerations see it.\<close>

lemma seen_insert:
  assumes rep: "db_rep s (cached s) H" and rep_t: "db_rep t (cached t) (H(c := insert_event x (H c)))"
    and P: "parents (cached t) = parents (cached s)" and i: "known s i" "known t i" and j: "known s j"
    and c: "c = chain_of (parents (cached s)) j" and x: "cid x = j"
  shows "if i = j \<or> i = c
    then \<exists>as bs. events_forward s i = Some (as @ bs) \<and> events_forward t i = Some (as @ fst x # bs) \<and>
        (\<forall>y \<in> set as. event_time s y \<le> ts x) \<and> (\<forall>y \<in> set bs. ts x < event_time s y)
    else events_forward t i = events_forward s i"
proof -
  let ?P = "parents (cached s)"
  note root = i(1) [unfolded known_def] and jr = j [unfolded known_def]
  obtain ofs where ofs: "(c, ofs) \<in> set (roots s (cached s))" "?P c = 0" using chain_root [OF rep jr] unfolding c by blast
  have srt: "sorted (map ts (H c))" using db_rep_hist(1) [OF rep ofs] by (simp add: hist_ok_def)
  note fw = forward_update [OF rep rep_t i P]
  have mine: "mine ?P i x \<and> chain_of ?P i = c \<longleftrightarrow> i = j \<or> i = c"
    using ofs(2) c x by (auto simp: mine_def chain_of_def split: if_splits)
  show ?thesis
  proof (cases "i = j \<or> i = c")
    case True
    then have ev: "filter (mine ?P i) (insert_event x (H c)) = insert_event x (events_of ?P H i)" "chain_of ?P i = c"
      using mine filter_insert_event [OF srt, of "mine ?P i" x] by (simp_all add: events_of_mine)
    obtain as bs where sp: "events_of ?P H i = as @ bs" "insert_event x (events_of ?P H i) = as @ x # bs"
      "\<forall>a \<in> set as. ts a \<le> ts x" "\<forall>b \<in> set bs. ts x < ts b"
      using insert_event_parts [OF events_of_ok(3) [OF rep root]] .
    have "event_time s (fst y) = ts y" if "y \<in> set (as @ bs)" for y
      using events_object [OF rep root] that unfolding sp(1) by blast
    then have "events_forward s i = Some (map fst as @ map fst bs)" "events_forward t i = Some (map fst as @ fst x # map fst bs)"
      "\<forall>y \<in> set (map fst as). event_time s y \<le> ts x" "\<forall>y \<in> set (map fst bs). ts x < event_time s y"
      using fw ev sp events_seen(1) [OF rep root] by simp_all
    then show ?thesis unfolding if_P [OF True] by blast
  next
    case False
    then have "events_forward t i = events_forward s i"
      using fw mine filter_insert_event [OF srt, of "mine ?P i" x] events_seen(1) [OF rep root] by (auto simp: events_of_mine)
    then show ?thesis using False by simp
  qed
qed

text \<open>
  C10: \<open>AddEvent\<close> returns the offset of a new event that callers find in the history of its contact and
  in that of its metacontact, behind all events that are not later and before all that are; the
  histories of other contacts do not change.
\<close>

theorem AddEvent_by_time:
  assumes ok: "db_ok s" and j: "known s j" and tsd: "getUnixtime di \<noteq> 0" and blob: "event_blob di = Some blob"
    and room: "file_end s + size_event + int (length (fst (encode_blob (quiet enc dec) s blob (di_flags di)))) +
      int (length (di_szModule di)) + size_module < 2147483648"
  shows "\<exists>t. AddEvent (quiet enc dec) s j (Some di) = Some (file_end s, t) \<and> db_ok t \<and>
    (\<forall>i. known s i \<longrightarrow> known t i \<and>
      (if i = j \<or> i = chain_of (parents (cached s)) j
       then \<exists>as bs. events_forward s i = Some (as @ bs) \<and> events_forward t i = Some (as @ file_end s # bs) \<and>
          (\<forall>x \<in> set as. event_time s x \<le> getUnixtime di) \<and> (\<forall>x \<in> set bs. getUnixtime di < event_time s x)
       else events_forward t i = events_forward s i))"
proof -
  let ?P = "parents (cached s)" let ?h = "file_end s" let ?c = "chain_of ?P j"
  obtain H where rep: "db_rep s (cached s) H" and ls: "listed s (cached s) H" using db_okE [OF ok] .
  obtain b f where bf: "encode_blob (quiet enc dec) s blob (di_flags di) = (b, f)" by force
  then have room': "file_end s + size_event + int (length b) + int (length (di_szModule di)) + size_module < 2147483648"
    using room by simp
  obtain t ccs' m mn where t: "AddEvent (quiet enc dec) s j (Some di) = Some (?h, t)"
    "db_rep t ccs' (H(?c := insert_event (?h, new_event j m di b f) (H ?c)))"
    "listed t ccs' (H(?c := insert_event (?h, new_event j m di b f) (H ?c)))"
    "parents ccs' = ?P" "cc_contactID ` set ccs' = cc_contactID ` set (cached s)"
    using AddEvent_rep [OF rep ls j [unfolded known_def] tsd blob bf room'] .
  let ?x = "(?h, new_event j m di b f)"
  have cc: "cached t = ccs'" using cached_table db_repD(6) [OF t(2)] by blast
  note rep_t = t(2) [folded cc]
  have P: "parents (cached t) = ?P" and known_t: "known t i \<longleftrightarrow> known s i" for i
    using t(4,5) known_cong [of t s] unfolding cc by simp_all
  have "cid ?x = j" "ts ?x = getUnixtime di" by (simp_all add: new_event_def)
  note seen = seen_insert [OF rep rep_t P _ _ j refl this(1), unfolded this(2) fst_conv]
  have "db_ok t" using db_stateI [OF t(2,3)] .
  then show ?thesis using t(1) known_t seen by blast
qed

text \<open>An event taken out of its chain: it is gone, and the enumerations are without it.\<close>

lemma only_chain:
  assumes rep: "db_rep s (cached s) H" and e: "m_objs s h = Some (ObjEvent e)"
    and j: "j \<in> fst ` set (roots s (cached s))" "parents (cached s) j = 0"
    and ne: "j \<noteq> chain_of (parents (cached s)) (ev_contactID e)"
  shows "h \<notin> fst ` set (H j)"
proof -
  obtain y where "(j, y) \<in> set (roots s (cached s))" using j(1) by auto
  then show ?thesis using hist_event [OF rep _ j(2)] e ne by (metis dbobj.inject(4) option.inject)
qed

lemma removed_gone:
  assumes rep: "db_rep s (cached s) H" and e: "m_objs s h = Some (ObjEvent e)"
    and c: "c = chain_of (parents (cached s)) (ev_contactID e)" and cc: "cached t = cached s"
    and rep_t: "db_rep t (cached t) (H(c := remove_entry h (H c)))" and ls_t: "listed t (cached t) (H(c := remove_entry h (H c)))"
  shows "event_at t h = None"
proof (rule ccontr)
  let ?P = "parents (cached s)"
  assume "event_at t h \<noteq> None"
  then obtain f where f: "m_objs t h = Some (ObjEvent f)" by (auto simp: event_at_def split: option.splits dbobj.splits)
  let ?d = "chain_of ?P (ev_contactID f)"
  obtain x y where x: "x \<in> set ((H(c := remove_entry h (H c))) ?d)" "fst x = h" "(?d, y) \<in> set (roots t (cached t))" "?P ?d = 0"
    using event_root [OF rep_t ls_t f] unfolding cc by blast
  have "?d \<in> fst ` set (roots s (cached s))" using x(3) unfolding cc by (metis fst_conv image_eqI root_known)
  then show False
    using x only_chain [OF rep e _ x(4)] unfolding c by (cases "?d = c") (auto simp: remove_entry_def c)
qed

lemma removed_seen:
  assumes rep: "db_rep s (cached s) H" and e: "m_objs s h = Some (ObjEvent e)"
    and c: "c = chain_of (parents (cached s)) (ev_contactID e)" and cc: "cached t = cached s"
    and rep_t: "db_rep t (cached t) (H(c := remove_entry h (H c)))" and i: "known s i" "events_forward s i = Some xs"
  shows "known t i \<and> events_forward t i = Some (filter (\<lambda>x. x \<noteq> h) xs)"
proof -
  let ?P = "parents (cached s)"
  note ir = i(1) [unfolded known_def]
  have kt: "known t i" using i(1) unfolding known_def root_known cc .
  have fw: "events_forward t i = (if chain_of ?P i = c then Some (map fst (filter (mine ?P i) (remove_entry h (H c)))) else Some xs)"
    using forward_update [OF rep rep_t i(1) kt] i(2) by (simp add: cc)
  have xs: "xs = map fst (events_of ?P H i)" using i(2) events_seen(1) [OF rep ir] by simp
  show ?thesis
  proof (cases "chain_of ?P i = c")
    case True
    then show ?thesis using kt fw xs by (simp add: filter_remove_entry fst_remove_entry events_of_mine)
  next
    case False
    obtain y where "(chain_of ?P i, y) \<in> set (roots s (cached s))" "?P (chain_of ?P i) = 0"
      using chain_root [OF rep ir] by blast
    then have "h \<notin> fst ` set (H (chain_of ?P i))" using only_chain [OF rep e] False unfolding c by force
    then have "h \<notin> set xs" unfolding xs events_of_mine by auto
    then have "filter (\<lambda>x. x \<noteq> h) xs = xs" by (auto intro: filter_True)
    then show ?thesis using kt fw False by simp
  qed
qed

text \<open>
  The offsets after the header of the file that are not in the middle of an object: there the
  model knows every byte, namely those of the object that begins there, or zeros.  In the middle of
  an object the code reads whatever bytes the blob or the name holds.
\<close>

definition at_boundary :: "CDb3Mmap \<Rightarrow> int \<Rightarrow> bool" where
  "at_boundary s h \<longleftrightarrow>
     size_header \<le> h \<and> (\<forall>x v. m_objs s x = Some v \<longrightarrow> \<not> (x < h \<and> h < x + obj_size v))"

lemma object_boundary:
  assumes "db_ok s" and "m_objs s h = Some v"
  shows "at_boundary s h"
proof -
  obtain H where rep: "db_rep s (cached s) H" using db_okE [OF assms(1)] by metis
  show ?thesis using db_repD(2) [OF rep] assms(2) unfolding at_boundary_def space_ok_def by (meson not_le)
qed

text \<open>
  C14: At every offset that is not in the middle of an object and not that of a contact,
  \<open>DeleteEvent\<close> succeeds exactly if an event is there, and the event is gone from every history it
  was in, while everything else in all histories stays in its order.
\<close>

theorem DeleteEvent_removes:
  assumes ok: "db_ok s" and at: "at_boundary s h" and h: "\<And>c. m_objs s h \<noteq> Some (ObjContact c)"
  shows "\<exists>r t. DeleteEvent (quiet enc dec) s h = Some (r, t) \<and> db_ok t \<and> event_at t h = None \<and>
    (r = 0 \<longleftrightarrow> event_at s h \<noteq> None) \<and>
    (\<forall>i xs. known s i \<and> events_forward s i = Some xs \<longrightarrow>
       known t i \<and> events_forward t i = Some (filter (\<lambda>x. x \<noteq> h) xs))"
proof -
  let ?P = "parents (cached s)"
  obtain H where rep: "db_rep s (cached s) H" and ls: "listed s (cached s) H" using db_okE [OF ok] .
  show ?thesis
  proof (cases "\<exists>e. m_objs s h = Some (ObjEvent e)")
    case False
    then have "DeleteEvent (quiet enc dec) s h = Some (1, s)" "event_at s h = None"
      using no_event [OF rep _ h] by (auto simp: DeleteEvent_def event_at_def split: option.split dbobj.split)
    moreover have "filter (\<lambda>x. x \<noteq> h) xs = xs" if "known s i" "events_forward s i = Some xs" for i xs
    proof -
      have "h \<notin> set xs"
        using that(2) False events_object [OF rep that(1) [unfolded known_def]]
        unfolding events_seen(1) [OF rep that(1) [unfolded known_def]] by force
      then show ?thesis by (auto intro: filter_True)
    qed
    ultimately show ?thesis using ok by auto
  next
    case True
    then obtain e where e: "m_objs s h = Some (ObjEvent e)" by blast
    define c where "c = chain_of ?P (ev_contactID e)"
    obtain t where t: "DeleteEvent (quiet enc dec) s h = Some (0, t)"
      "db_rep t (cached s) (H(c := remove_entry h (H c)))" "listed t (cached s) (H(c := remove_entry h (H c)))"
      using DeleteEvent_rep [OF rep ls e] unfolding c_def .
    have cc: "cached t = cached s" using cached_table db_repD(6) [OF t(2)] by blast
    note rep_t = t(2) [folded cc] and ls_t = t(3) [folded cc]
    have "event_at t h = None" using removed_gone [OF rep e c_def cc rep_t ls_t] .
    moreover note removed_seen [OF rep e c_def cc rep_t]
    moreover have "event_at s h \<noteq> None" using e by (simp add: event_at_def)
    moreover have "db_ok t" using db_stateI [OF t(2,3)] .
    ultimately show ?thesis using t(1) by blast
  qed
qed

lemma unread_mark_entry:
  "map fst (filter (\<lambda>x. \<not> markedRead (snd x)) (mark_entry h xs)) =
   filter (\<lambda>y. y \<noteq> h) (map fst (filter (\<lambda>x. \<not> markedRead (snd x)) xs))"
  by (induction xs) (auto simp: mark_entry_def)

text \<open>An event marked as read, unless it is read already, in the chain of \<open>j\<close>.\<close>

lemma marked_seen:
  assumes rep: "db_rep s (cached s) H" and e: "m_objs s h = Some (ObjEvent e)"
    and c: "chain_of (parents (cached s)) (ev_contactID e) = c" and cc: "cached t = cached s"
    and K: "K = (if markedRead e then H else H(c := mark_entry h (H c)))" and rep_t: "db_rep t (cached s) K"
    and i: "known s i" "events_forward s i = Some xs"
  shows "known t i \<and> events_forward t i = Some xs \<and> filter (unread_event t) xs = filter (\<lambda>x. unread_event s x \<and> x \<noteq> h) xs"
proof -
  let ?P = "parents (cached s)"
  note ir = i(1) [unfolded known_def]
  have kt: "known t i" using i(1) unfolding known_def root_known cc .
  have ir_t: "i \<in> fst ` set (roots t (cached s))" using kt unfolding known_def cc .
  have xs: "xs = map fst (events_of ?P H i)" using i(2) events_seen(1) [OF rep ir] by simp
  have ev: "events_of ?P K i = (if markedRead e \<or> chain_of ?P i \<noteq> c then events_of ?P H i else mark_entry h (events_of ?P H i))"
    by (simp add: K events_update events_of_mine cid_mark_entry)
  then have fst_ev: "map fst (events_of ?P K i) = xs" using xs by simp
  have "filter (unread_event t) xs = map fst (filter (\<lambda>x. \<not> markedRead (snd x)) (events_of ?P K i))"
    using events_seen(4) [OF rep_t ir_t] unfolding fst_ev .
  also have "... = filter (\<lambda>y. y \<noteq> h) (filter (unread_event s) xs)"
  proof (cases "markedRead e \<or> chain_of ?P i \<noteq> c")
    case True
    have "x \<noteq> h" if x: "x \<in> set xs" "unread_event s x" for x
    proof
      assume "x = h"
      then have "chain_of ?P i \<noteq> c" using x(2) e True by (simp add: unread_event_def)
      moreover have "chain_of ?P i \<in> fst ` set (roots s (cached s))" "?P (chain_of ?P i) = 0"
        using chain_root [OF rep ir] by (metis fst_conv image_eqI)+
      ultimately have "h \<notin> fst ` set (H (chain_of ?P i))" using only_chain [OF rep e] c by blast
      then show False using x(1) \<open>x = h\<close> unfolding xs events_of_mine by auto
    qed
    then have "filter (\<lambda>y. y \<noteq> h) (filter (unread_event s) xs) = filter (unread_event s) xs" by (intro filter_True) auto
    then show ?thesis using ev True events_seen(4) [OF rep ir] xs by simp
  next
    case False
    then show ?thesis using ev unread_mark_entry [of h "events_of ?P H i"] events_seen(4) [OF rep ir] xs by simp
  qed
  also have "... = filter (\<lambda>x. unread_event s x \<and> x \<noteq> h) xs" by simp
  finally show ?thesis using kt events_seen(1) [OF rep_t ir_t] fst_ev by simp
qed

text \<open>
  C24: \<open>MarkEventRead\<close> makes exactly the given event a read one; no history loses or moves an event.
\<close>

theorem MarkEventRead_marks:
  assumes ok: "db_ok s" and j: "known s j" and h: "event_at s h = Some k"
    and own: "chain_of (parents (cached s)) k = chain_of (parents (cached s)) j"
  shows "\<exists>r t. MarkEventRead (quiet enc dec) s j h = Some (r, t) \<and> db_ok t \<and>
    (\<forall>i xs. known s i \<and> events_forward s i = Some xs \<longrightarrow>
       known t i \<and> events_forward t i = Some xs \<and>
       filter (unread_event t) xs = filter (\<lambda>x. unread_event s x \<and> x \<noteq> h) xs)"
proof -
  let ?P = "parents (cached s)" let ?c = "chain_of ?P j"
  obtain H where rep: "db_rep s (cached s) H" and ls: "listed s (cached s) H" using db_okE [OF ok] .
  obtain e where e: "m_objs s h = Some (ObjEvent e)" "chain_of ?P (ev_contactID e) = ?c"
    using h own by (auto simp: event_at_def split: option.splits dbobj.splits)
  define K where "K = (if markedRead e then H else H(?c := mark_entry h (H ?c)))"
  obtain r t where t: "MarkEventRead (quiet enc dec) s j h = Some (r, t)" "db_rep t (cached s) K" "db_ok t"
    using mark_quiet [OF rep ls e(1) j [unfolded known_def] e(2)] unfolding K_def by metis
  have cc: "cached t = cached s" using cached_table db_repD(6) [OF t(2)] by blast
  then show ?thesis using t(1,3) marked_seen [OF rep e cc K_def t(2)] by blast
qed

section \<open>What is stored comes back\<close>

lemma GetEvent_rep:
  assumes rep: "db_rep s ccs H" and x: "x \<in> set (H c)" and root: "(c, ofs) \<in> set (roots s ccs)" "parents ccs c = 0"
    and m: "m_objs s (ev_ofsModuleName (snd x)) = Some (ObjModule m)"
    and plain: "ev_flags (snd x) AND DBEF_ENCRYPTED = 0" and di: "di_cbBlob di = -1"
  obtains t where "GetEvent E s (fst x) (Some di) = Some (0, Some (di\<lparr>di_szModule := mn_name m,
      di_iTimestamp := ucast (ts x), di_flags := ev_flags (snd x), di_eventType := ucast (ev_wEventType (snd x)),
      di_cbBlob := int (length (ev_blob (snd x))), di_pBlob := Some (ev_blob (snd x) @ [0, 0])\<rparr>), t)"
proof -
  let ?b = "ev_blob (snd x)"
  obtain p n where obj: "m_objs s (fst x) = Some (ObjEvent (with_links (snd x) p n))"
    using chain_object [OF hist_chain(1) [OF db_rep_hist(1) [OF rep root]] x] by blast
  have ent: "entry_ok x" using hist_chain(2) [OF db_rep_hist(1) [OF rep root]] x by blast
  then have rd: "DBRead_event s (fst x) = Some (with_links (snd x) p n)" "signature_at s (fst x) = DBEVENT_SIGNATURE"
    using obj by (auto simp: entry_ok_def DBRead_event_def signature_at_def)
  obtain l where l: "GetModuleNameByOfs s (ev_ofsModuleName (snd x)) = Some (mn_name m, s\<lparr>m_lastmn := l\<rparr>)"
    using GetModuleNameByOfs_spec [OF db_repD(3) [OF rep] m] by blast
  have f: "ev_ofsModuleName (with_links (snd x) p n) = ev_ofsModuleName (snd x)"
    "ev_wEventType (with_links (snd x) p n) = ev_wEventType (snd x)" by (simp_all add: with_links_def)
  have copy: "copy_blob (replicate (length ?b + 2) 0) ?b (length ?b) (length ?b) = Some (?b @ [0, 0])"
    by (simp add: copy_blob_def drop_replicate numeral_2_eq_2 del: replicate_Suc) (simp add: numeral_2_eq_2)
  show ?thesis
  proof (cases "?b = []")
    case True
    then show ?thesis using that [of "s\<lparr>m_lastmn := l\<rparr>"] rd l di plain f by (simp add: GetEvent_def Let_def numeral_2_eq_2)
  next
    case False
    then show ?thesis using that [of "s\<lparr>m_lastmn := l\<rparr>"] rd l di plain f copy by (simp add: GetEvent_def Let_def)
  qed
qed

text \<open>
  C23: An event that was added without encryption comes back from \<open>GetEvent\<close> as it was stored: its module, time,
  flags, the low 16 bits of its type, and its data with two zero bytes behind it.
\<close>

theorem GetEvent_AddEvent:
  assumes ok: "db_ok s" and j: "known s j" and tsd: "getUnixtime di \<noteq> 0" and blob: "event_blob di = Some blob"
    and plain: "\<not> m_bEncrypted s" "di_flags di AND DBEF_ENCRYPTED = 0" and buf: "di_cbBlob buf = -1"
    and room: "file_end s + size_event + int (length blob) + int (length (di_szModule di)) + size_module < 2147483648"
  shows "\<exists>t u. AddEvent (quiet enc dec) s j (Some di) = Some (file_end s, t) \<and>
    GetEventContact t (file_end s) = Some j \<and> GetBlobSize t (file_end s) = Some (int (length blob)) \<and>
    GetEvent (quiet enc dec) t (file_end s) (Some buf) = Some (0, Some (buf\<lparr>di_szModule := c_str (di_szModule di),
      di_iTimestamp := ucast (getUnixtime di), di_flags := di_flags di, di_eventType := ucast (ucast (di_eventType di) :: u16),
      di_cbBlob := int (length blob), di_pBlob := Some (blob @ [0, 0])\<rparr>), u)"
proof -
  let ?P = "parents (cached s)" let ?c = "chain_of ?P j"
  obtain H where rep: "db_rep s (cached s) H" and ls: "listed s (cached s) H" using db_okE [OF ok] .
  have enc: "encode_blob (quiet enc dec) s blob (di_flags di) = (blob, di_flags di)" using plain(1) by (simp add: encode_blob_def)
  obtain t ccs' m mn where t: "AddEvent (quiet enc dec) s j (Some di) = Some (file_end s, t)"
    "db_rep t ccs' (H(?c := insert_event (file_end s, new_event j m di blob (di_flags di)) (H ?c)))"
    "parents ccs' = ?P" "cc_contactID ` set ccs' = cc_contactID ` set (cached s)"
    "m_objs t m = Some (ObjModule mn)" "mn_name mn = c_str (di_szModule di)"
    using AddEvent_rep [OF rep ls j [unfolded known_def] tsd blob enc room] by metis
  let ?x = "(file_end s, new_event j m di blob (di_flags di))"
  have "?c \<in> fst ` set (roots t ccs')" "?P ?c = 0"
    using chain_root [OF rep j [unfolded known_def]] unfolding root_known t(4) by (metis fst_conv image_eqI root_known)+
  then obtain ofs where root: "(?c, ofs) \<in> set (roots t ccs')" "parents ccs' ?c = 0" using t(3) by auto
  have x: "?x \<in> set ((H(?c := insert_event ?x (H ?c))) ?c)" by simp
  obtain p n where obj: "m_objs t (file_end s) = Some (ObjEvent (with_links (snd ?x) p n))"
    using chain_object [OF hist_chain(1) [OF db_rep_hist(1) [OF t(2) root]] x] by auto
  have "entry_ok ?x" using hist_chain(2) [OF db_rep_hist(1) [OF t(2) root]] x by blast
  then have "GetEventContact t (file_end s) = Some j" "GetBlobSize t (file_end s) = Some (int (length blob))"
    using obj by (auto simp: GetEventContact_def GetBlobSize_def DBRead_event_def signature_at_def entry_ok_def)
  moreover obtain u where "GetEvent (quiet enc dec) t (fst ?x) (Some buf) = Some (0, Some (buf\<lparr>di_szModule := mn_name mn,
      di_iTimestamp := ucast (ts ?x), di_flags := ev_flags (snd ?x), di_eventType := ucast (ev_wEventType (snd ?x)),
      di_cbBlob := int (length (ev_blob (snd ?x))), di_pBlob := Some (ev_blob (snd ?x) @ [0, 0])\<rparr>), u)"
    using GetEvent_rep [OF t(2) x root, of mn buf "quiet enc dec"] t(5) plain(2) buf by auto
  ultimately show ?thesis using t(1,6) by (auto simp: new_event_def)
qed

end
