(* ===== verification/DbMeta.thy ===== *)
theory DbMeta imports DbLaws begin

text \<open>
  Metacontacts: a contact that becomes part of one.
\<close>

section \<open>Making a contact part of a metacontact\<close>

text \<open>
  The parts of \<open>Meta_Assign\<close> (\<open>mir_app/src/meta_utils.cpp\<close>) that decide about a contact and that
  act on the cached contacts and the events.  \<open>assignable\<close> is what the protocol and the contact list
  answer about the contact: that it has an account and a unique id, and is on the list.  The
  settings of the metacontact and of the contact that \<open>Meta_Assign\<close> writes besides, the choice of
  the default contact and the copied nickname, status and avatar are not part of the model.
\<close>

definition MAX_CONTACTS :: int where "MAX_CONTACTS = 20"

definition assign_accepts :: "(u32 \<Rightarrow> bool) \<Rightarrow> CDb3Mmap \<Rightarrow> u32 \<Rightarrow> u32 \<Rightarrow> bool option" where
  "assign_accepts assignable s hSub hMeta =
     do {
       ccDest \<leftarrow> CheckMeta s hMeta;
       ccSub \<leftarrow> GetCachedContact s hSub;
       Some (case ccDest of
               None \<Rightarrow> False
             | Some ccDest \<Rightarrow> ccSub \<noteq> None \<and> assignable hSub \<and> cc_nSubs ccDest < MAX_CONTACTS)
     }"

text \<open>\<open>pSubs\<close> is resized to \<open>nSubs\<close> elements, and the contact becomes the last one.\<close>

definition with_sub :: "u32 \<Rightarrow> DBCachedContact \<Rightarrow> DBCachedContact" where
  "with_sub hSub cc =
     cc\<lparr>cc_nSubs := cc_nSubs cc + 1, cc_pSubs := take (nat (cc_nSubs cc)) (cc_pSubs cc) @ [hSub]\<rparr>"

definition attach_sub :: "CDb3Mmap \<Rightarrow> u32 \<Rightarrow> u32 \<Rightarrow> CDb3Mmap option" where
  "attach_sub s hSub hMeta =
     do {
       s \<leftarrow> put_cached s hMeta (with_sub hSub);
       put_cached s hSub (cc_parentID_update (\<lambda>_. hMeta))
     }"

definition assign_sub :: "(u32 \<Rightarrow> bool) \<Rightarrow> CDb3Mmap \<Rightarrow> u32 \<Rightarrow> u32 \<Rightarrow> (bool \<times> CDb3Mmap) option" where
  "assign_sub assignable s hSub hMeta =
     do {
       accepts \<leftarrow> assign_accepts assignable s hSub hMeta;
       if \<not> accepts then Some (False, s)
       else
         do {
           s \<leftarrow> attach_sub s hSub hMeta;
           ccDest \<leftarrow> GetCachedContact s hMeta;
           ccDest \<leftarrow> ccDest;
           ccSub \<leftarrow> GetCachedContact s hSub;
           ccSub \<leftarrow> ccSub;
           (r, s) \<leftarrow> MetaMergeHistory s ccDest ccSub;
           Some (True, s)
         }
     }"

text \<open>
  \<open>Meta_Convert\<close> (\<open>mir_app/src/meta_menu.cpp\<close>) makes the cached entry of a new contact that of a
  metacontact without subcontacts.
\<close>

definition make_meta :: "CDb3Mmap \<Rightarrow> u32 \<Rightarrow> CDb3Mmap option" where
  "make_meta s hMeta = put_cached s hMeta (cc_nSubs_update (\<lambda>_. 0))"

lemma with_sub_simps [simp]:
  "cc_contactID (with_sub j cc) = cc_contactID cc" "cc_dwOfsContact (with_sub j cc) = cc_dwOfsContact cc"
  "cc_parentID (with_sub j cc) = cc_parentID cc" "cc_nSubs (with_sub j cc) = cc_nSubs cc + 1"
  "cc_pSubs (with_sub j cc) = take (nat (cc_nSubs cc)) (cc_pSubs cc) @ [j]"
  by (simp_all add: with_sub_def)

lemma put_cached_table:
  assumes "table_ok s ccs" and "i \<in> cc_contactID ` set ccs" and "\<And>cc. cc_contactID (f cc) = cc_contactID cc"
  obtains l where "put_cached s i f = Some (s\<lparr>m_lContacts := l\<rparr>)"
    and "table_rep (NumericKeySortT cc_contactID) l (change_contact i f ccs)"
  using put_cached_rep [OF _ table_distinct(1) [OF assms(1)] assms(2,3)] assms(1) that unfolding table_ok_def by blast

lemma lookup_changed:
  assumes "\<And>cc. cc_contactID (f cc) = cc_contactID cc"
  shows "lookup (change_contact i f ccs) k = map_option (\<lambda>cc. if cc_contactID cc = i then f cc else cc) (lookup ccs k)"
  using assms by (induction ccs) (auto simp: lookup_def change_contact_def)

lemma make_meta_ok:
  assumes ok: "db_ok s" and m: "m \<in> cc_contactID ` set (cached s)"
  shows "\<exists>t. make_meta s m = Some t \<and> db_ok t"
proof -
  let ?f = "cc_nSubs_update (\<lambda>_. 0)"
  obtain H where rep: "db_rep s (cached s) H" and ls: "listed s (cached s) H" using db_okE [OF ok] .
  obtain l where l: "put_cached s m ?f = Some (s\<lparr>m_lContacts := l\<rparr>)"
    "table_rep (NumericKeySortT cc_contactID) l (change_contact m ?f (cached s))"
    by (rule put_cached_table [OF db_repD(6) [OF rep] m, of ?f]) simp_all
  have "db_ok (s\<lparr>m_lContacts := l\<rparr>)"
    by (rule db_stateI; rule change_contact_rep [OF _ _ _ rep ls l(2)]) simp_all
  then show ?thesis using l(1) by (simp add: make_meta_def)
qed

lemma root_record:
  assumes rep: "db_rep s ccs H" and i: "lookup ccs i = Some cc"
  obtains c where "signature_at s (cc_dwOfsContact cc) = DBCONTACT_SIGNATURE" and "DBRead_contact s (cc_dwOfsContact cc) = Some c"
    and "m_objs s (cc_dwOfsContact cc) = Some (ObjContact c)"
    and "record_ok c (own_events (parents ccs) H i) (length (events_of (parents ccs) H i))"
proof -
  obtain c where c: "m_objs s (cc_dwOfsContact cc) = Some (ObjContact c)"
    "record_ok c (own_events (parents ccs) H i) (length (events_of (parents ccs) H i))"
    using db_rep_root [OF rep lookup_root [OF i]] .
  moreover from this have "cc_dwOfsContact cc \<noteq> 0" using space_inside [OF db_repD(2) [OF rep]] by fastforce
  ultimately show ?thesis using that by (simp add: signature_at_def DBRead_contact_def record_ok_def)
qed

lemma attach_table:
  assumes tab: "table_ok s ccs" and j: "j \<in> cc_contactID ` set ccs" and m: "m \<in> cc_contactID ` set ccs"
    and own: "parents ccs m = 0" and ne: "m \<noteq> j" and nosub: "\<forall>k. parents ccs k \<noteq> j"
    and l: "table_rep (NumericKeySortT cc_contactID) l (change_contact j (cc_parentID_update (\<lambda>_. m)) ccs)"
  shows "table_ok (s\<lparr>m_lContacts := l\<rparr>) (change_contact j (cc_parentID_update (\<lambda>_. m)) ccs)"
    and "parents (change_contact j (cc_parentID_update (\<lambda>_. m)) ccs) = (parents ccs)(j := m)"
    and "roots (s\<lparr>m_lContacts := l\<rparr>) (change_contact j (cc_parentID_update (\<lambda>_. m)) ccs) = roots s ccs"
    and "cc_contactID ` set (change_contact j (cc_parentID_update (\<lambda>_. m)) ccs) = cc_contactID ` set ccs"
    and "cc_dwOfsContact ` set (change_contact j (cc_parentID_update (\<lambda>_. m)) ccs) = cc_dwOfsContact ` set ccs"
proof -
  let ?f = "cc_parentID_update (\<lambda>_. m)" let ?ccs = "change_contact j ?f ccs" let ?t = "s\<lparr>m_lContacts := l\<rparr>" let ?P = "parents ccs"
  have ids: "map cc_contactID ?ccs = map cc_contactID ccs" "map cc_dwOfsContact ?ccs = map cc_dwOfsContact ccs"
    by (simp_all add: change_contact_def)
  have rts: "roots ?t ?ccs = roots s ccs" by (simp add: roots_def change_contact_def)
  have sets: "cc_contactID ` set ?ccs = cc_contactID ` set ccs" "cc_dwOfsContact ` set ?ccs = cc_dwOfsContact ` set ccs"
    using arg_cong [OF ids(1), of set] arg_cong [OF ids(2), of set] by simp_all
  have "lookup ?ccs k = map_option (\<lambda>cc. if cc_contactID cc = j then ?f cc else cc) (lookup ccs k)" for k
    by (rule lookup_changed) simp
  moreover obtain cj where "lookup ccs j = Some cj" "cc_contactID cj = j"
    using j lookup_None [of ccs j] lookup_Some [of ccs j] by auto
  ultimately have P: "parents ?ccs = ?P(j := m)"
    by (intro ext) (auto simp: parents_def split: option.split dest: lookup_Some)
  then show "parents ?ccs = ?P(j := m)" .
  show "roots ?t ?ccs = roots s ccs" "cc_contactID ` set ?ccs = cc_contactID ` set ccs" by (fact rts sets(1))+
  show "cc_dwOfsContact ` set ?ccs = cc_dwOfsContact ` set ccs" by (fact sets(2))
  show "table_ok ?t ?ccs"
    unfolding table_ok_def rts P
  proof (intro conjI ballI)
    show "table_rep (NumericKeySortT cc_contactID) (m_lContacts ?t) ?ccs" using l by simp
    show "distinct (map fst (roots s ccs))" "distinct (map snd (roots s ccs))" using tab by (simp_all add: table_ok_def)
  next
    fix cc
    assume "cc \<in> set ?ccs"
    then obtain x where x: "x \<in> set ccs" "cc = (if cc_contactID x = j then ?f x else x)" by (auto simp: change_contact_def)
    have same: "cc_contactID cc = cc_contactID x" using x(2) by simp
    show "cc_contactID cc < m_dwMaxContactId ?t" using same x(1) tab by (auto simp: table_ok_def)
    show "IsSub cc \<longrightarrow> cc_parentID cc \<in> cc_contactID ` set ?ccs \<and> (?P(j := m)) (cc_parentID cc) = 0"
    proof
      assume sub: "IsSub cc"
      show "cc_parentID cc \<in> cc_contactID ` set ?ccs \<and> (?P(j := m)) (cc_parentID cc) = 0"
      proof (cases "cc_contactID cc = j")
        case True
        then have "cc_parentID cc = m" using x(2) same by simp
        then show ?thesis using m own ne unfolding sets by simp
      next
        case False
        then have "cc \<in> set ccs" using x same by simp
        moreover from this have "?P (cc_contactID cc) = cc_parentID cc" using parents_in [OF table_distinct(1) [OF tab]] by simp
        moreover have "cc_parentID cc \<in> cc_contactID ` set ccs" "?P (cc_parentID cc) = 0"
          using tab sub \<open>cc \<in> set ccs\<close> unfolding table_ok_def by blast+
        moreover have "cc_parentID cc \<noteq> j" using nosub calculation(2) by metis
        ultimately show ?thesis unfolding sets by simp
      qed
    qed
  qed
qed

end
