(* ===== verification/DbMerge.thy ===== *)
theory DbMerge imports DbMeta begin

text \<open>
  Merging the history of a contact into that of its metacontact: the list of events is sorted by
  time and becomes the chain of the metacontact.
\<close>

section \<open>Collecting the events\<close>

abbreviation event_pair :: "entry \<Rightarrow> event_entry" where
  "event_pair x \<equiv> (fst x, ts x)"

definition event_table :: "event_entry slist \<Rightarrow> event_entry list \<Rightarrow> bool" where
  "event_table l es \<longleftrightarrow>
     table_as SortEvent (key_cmp (\<lambda>e. uint (snd e))) l es \<and> (\<forall>e \<in> set es. uint (snd e) < 2147483648)"

lemma SortEvent_sgn:
  assumes "uint (snd a) < 2147483648" and "uint (snd b) < 2147483648"
  shows "sgn (SortEvent a b) = sgn (key_cmp (\<lambda>e. uint (snd e)) a b)"
  using sint_diff [OF _ assms(1) _ assms(2)] by (simp add: SortEvent_def key_cmp_def)

lemma event_table_insert:
  assumes "event_table l es" and "uint (snd e) < 2147483648"
  obtains l' es' where "List_InsertPtr l (Some e) = Some (1, l')" and "event_table l' es'" and "mset es' = add_mset e (mset es)"
proof -
  have "sorted_table (SortFn (key_cmp (\<lambda>e :: event_entry. uint (snd e))))" by (rule fn_table.sorted_table_axioms)
  then obtain l' i where i: "List_InsertPtr l (Some e) = Some (1, l')" "i \<le> length es"
    "table_as SortEvent (key_cmp (\<lambda>e. uint (snd e))) l' (take i es @ e # drop i es)"
    using table_as_insert [of SortEvent "key_cmp (\<lambda>e. uint (snd e))" l es e] assms SortEvent_sgn
    unfolding event_table_def by blast
  have "mset (take i es @ e # drop i es) = add_mset e (mset es)"
    using arg_cong [OF append_take_drop_id [of i es], of mset] by (simp del: append_take_drop_id)
  moreover from this have "set (take i es @ e # drop i es) = insert e (set es)"
    by (metis set_mset_add_mset_insert set_mset_mset)
  ultimately show ?thesis using that [OF i(1)] i(3) assms unfolding event_table_def by force
qed

lemma collect_chain:
  assumes "chain (m_objs s) p xs 0" and "\<forall>x \<in> set xs. entry_ok x \<and> uint (ts x) < 2147483648" and "event_table l es"
  shows "\<exists>l' es'. collect_events s l (next_of (map fst xs)) = Some (Inr l') \<and> event_table l' es' \<and>
    mset es' = mset es + mset (map event_pair xs)"
  using assms
proof (induction xs arbitrary: p l es)
  case Nil
  then show ?case by (subst collect_events.simps) auto
next
  case (Cons x xs)
  have x: "m_objs s (fst x) = Some (ObjEvent (with_links (snd x) p (next_of (map fst xs))))" "0 < fst x"
    "ev_signature (snd x) = DBEVENT_SIGNATURE" "uint (ts x) < 2147483648"
    using Cons.prems by (simp_all add: next_of_def entry_ok_def)
  then have rd: "DBRead_event s (fst x) = Some (with_links (snd x) p (next_of (map fst xs)))"
    "signature_at s (fst x) = DBEVENT_SIGNATURE" by (simp_all add: signature_at_def)
  obtain l1 es1 where l1: "List_InsertPtr l (Some (event_pair x)) = Some (1, l1)" "event_table l1 es1"
    "mset es1 = add_mset (event_pair x) (mset es)"
    using event_table_insert [OF Cons.prems(3), of "event_pair x"] x(4) by auto
  obtain l' es' where "collect_events s l1 (next_of (map fst xs)) = Some (Inr l')" "event_table l' es'"
    "mset es' = mset es1 + mset (map event_pair xs)"
    using Cons.IH [of "fst x" l1 es1] Cons.prems l1(2) by auto
  then show ?case
    using rd x(2) l1 by (intro exI [of _ l'] exI [of _ es'] conjI) (subst collect_events.simps, simp_all)
qed

section \<open>Linking them\<close>

lemma put_event_link:
  assumes "m_objs s x = Some (ObjEvent (with_links e p n))" and "0 < x"
  shows "put_event s x (ev_ofsNext_update (\<lambda>_. n')) = Some (DBWrite s x (ObjEvent (with_links e p n')))"
    and "put_event s x (ev_ofsPrev_update (\<lambda>_. p')) = Some (DBWrite s x (ObjEvent (with_links e p' n)))"
proof -
  have rd: "DBRead_event s x = Some (with_links e p n)" using assms by simp
  show "put_event s x (ev_ofsNext_update (\<lambda>_. n')) = Some (DBWrite s x (ObjEvent (with_links e p n')))"
    "put_event s x (ev_ofsPrev_update (\<lambda>_. p')) = Some (DBWrite s x (ObjEvent (with_links e p' n)))"
    by (simp_all only: put_event_def rd bind.bind_lunit with_links_fields)
qed

lemma relink_chain:
  assumes "\<forall>k < length (as @ y # bs). LIST_at ar (int k) = Some (event_pair ((as @ y # bs) ! k))"
    and "distinct (map fst (as @ y # bs))" and "\<forall>z \<in> set (as @ y # bs). 0 < fst z"
    and "chain (m_objs s) 0 as (fst y)" and "\<exists>n. m_objs s (fst y) = Some (ObjEvent (with_links (snd y) (last_of (map fst as)) n)) \<and> (bs = [] \<longrightarrow> n = 0)"
    and "\<forall>z \<in> set bs. \<exists>p n. m_objs s (fst z) = Some (ObjEvent (with_links (snd z) p n)) \<and> (z = last bs \<longrightarrow> n = 0)"
  shows "\<exists>h. relink_events s ar u (length bs) (int (length as) + 1) =
      Some (if u = 0 then fst (first_unread bs) else u, s\<lparr>m_objs := h\<rparr>) \<and>
    chain h 0 (as @ y # bs) 0 \<and> (\<forall>x. x \<notin> fst ` set (y # bs) \<longrightarrow> h x = m_objs s x)"
  using assms
proof (induction bs arbitrary: as y s u)
  case Nil
  then show ?case by (intro exI [of _ "m_objs s"]) (simp add: chain_append last_of_def)
next
  case (Cons z bs)
  obtain n where y: "m_objs s (fst y) = Some (ObjEvent (with_links (snd y) (last_of (map fst as)) n))" using Cons.prems(5) by blast
  obtain p m where z: "m_objs s (fst z) = Some (ObjEvent (with_links (snd z) p m))" "z = last (z # bs) \<longrightarrow> m = 0"
    using Cons.prems(6) by force
  have pos: "0 < fst y" "0 < fst z" and ne: "fst y \<noteq> fst z" using Cons.prems(2,3) by auto
  let ?s1 = "DBWrite s (fst y) (ObjEvent (with_links (snd y) (last_of (map fst as)) (fst z)))"
  let ?s2 = "DBWrite ?s1 (fst z) (ObjEvent (with_links (snd z) (fst y) m))"
  have at: "LIST_at ar (int (length as)) = Some (event_pair y)" "LIST_at ar (int (length as) + 1) = Some (event_pair z)"
    using Cons.prems(1) [rule_format, of "length as"] Cons.prems(1) [rule_format, of "Suc (length as)"]
    by (simp_all add: nth_append add.commute)
  have w1: "put_event s (fst y) (ev_ofsNext_update (\<lambda>_. fst z)) = Some ?s1" by (rule put_event_link [OF y pos(1)])
  have "m_objs ?s1 (fst z) = Some (ObjEvent (with_links (snd z) p m))" using z(1) ne by simp
  then have w2: "put_event ?s1 (fst z) (ev_ofsPrev_update (\<lambda>_. fst y)) = Some ?s2" by (rule put_event_link [OF _ pos(2)])
  have rd: "DBRead_event ?s2 (fst z) = Some (with_links (snd z) (fst y) m)" using pos(2) by simp
  have step: "relink_events s ar u (Suc (length bs)) (int (length as) + 1) =
      relink_events ?s2 ar (if u = 0 \<and> \<not> markedRead (snd z) then fst z else u) (length bs) (int (length as) + 1 + 1)"
    using at w1 w2 rd by simp
  have new: "m_objs ?s2 x = m_objs s x" if "x \<noteq> fst y" "x \<noteq> fst z" for x using that by simp
  have "\<exists>h. relink_events ?s2 ar (if u = 0 \<and> \<not> markedRead (snd z) then fst z else u) (length bs) (int (length (as @ [y])) + 1) =
      Some (if (if u = 0 \<and> \<not> markedRead (snd z) then fst z else u) = 0 then fst (first_unread bs)
            else (if u = 0 \<and> \<not> markedRead (snd z) then fst z else u), ?s2\<lparr>m_objs := h\<rparr>) \<and>
    chain h 0 ((as @ [y]) @ z # bs) 0 \<and> (\<forall>x. x \<notin> fst ` set (z # bs) \<longrightarrow> h x = m_objs ?s2 x)"
  proof (rule Cons.IH)
    show "\<forall>k < length ((as @ [y]) @ z # bs). LIST_at ar (int k) = Some (event_pair (((as @ [y]) @ z # bs) ! k))"
      using Cons.prems(1) by simp
    show "distinct (map fst ((as @ [y]) @ z # bs))" "\<forall>z \<in> set ((as @ [y]) @ z # bs). 0 < fst z"
      using Cons.prems(2,3) by simp_all
    have "chain (m_objs ?s2) 0 as (fst y)" using Cons.prems(2,4) by simp
    then show "chain (m_objs ?s2) 0 (as @ [y]) (fst z)" using ne by (simp add: chain_append last_of_def)
    show "\<exists>n. m_objs ?s2 (fst z) = Some (ObjEvent (with_links (snd z) (last_of (map fst (as @ [y]))) n)) \<and> (bs = [] \<longrightarrow> n = 0)"
      using z(2) by (intro exI [of _ m]) simp
    show "\<forall>w \<in> set bs. \<exists>p n. m_objs ?s2 (fst w) = Some (ObjEvent (with_links (snd w) p n)) \<and> (w = last bs \<longrightarrow> n = 0)"
    proof
      fix w
      assume w: "w \<in> set bs"
      then obtain p n where "m_objs s (fst w) = Some (ObjEvent (with_links (snd w) p n))" "w = last (z # bs) \<longrightarrow> n = 0"
        using Cons.prems(6) by fastforce
      moreover have "fst w \<in> fst ` set bs" "bs \<noteq> []" using w by auto
      moreover from this have "fst w \<noteq> fst y" "fst w \<noteq> fst z" using Cons.prems(2) by (simp_all, metis+)
      ultimately show "\<exists>p n. m_objs ?s2 (fst w) = Some (ObjEvent (with_links (snd w) p n)) \<and> (w = last bs \<longrightarrow> n = 0)"
        by (intro exI [of _ p] exI [of _ n]) simp
    qed
  qed
  then obtain h where "relink_events ?s2 ar (if u = 0 \<and> \<not> markedRead (snd z) then fst z else u) (length bs) (int (length (as @ [y])) + 1) =
      Some (if (if u = 0 \<and> \<not> markedRead (snd z) then fst z else u) = 0 then fst (first_unread bs)
            else (if u = 0 \<and> \<not> markedRead (snd z) then fst z else u), ?s2\<lparr>m_objs := h\<rparr>)"
    "chain h 0 ((as @ [y]) @ z # bs) 0" "\<forall>x. x \<notin> fst ` set (z # bs) \<longrightarrow> h x = m_objs ?s2 x" by blast
  then show ?case
    using step pos(2) new by (intro exI [of _ h]) (auto simp: DBWrite_def ac_simps)
qed

lemma merge_events_chain:
  assumes at: "\<forall>k < length (y # bs). LIST_at ar (int k) = Some (event_pair ((y # bs) ! k))"
    and count: "realCount ar = int (length (y # bs))" and dist: "distinct (map fst (y # bs))" and pos: "\<forall>z \<in> set (y # bs). 0 < fst z"
    and objs: "\<forall>z \<in> set (y # bs). \<exists>p n. m_objs s (fst z) = Some (ObjEvent (with_links (snd z) p n))"
  shows "\<exists>h. merge_events s c ar = Some (c\<lparr>dc_eventCount := of_nat (length (y # bs)), dc_ofsFirstEvent := fst y,
      dc_ofsLastEvent := last_of (map fst (y # bs)), dc_ofsFirstUnread := fst (first_unread (y # bs))\<rparr>, s\<lparr>m_objs := h\<rparr>) \<and>
    chain h 0 (y # bs) 0 \<and> (\<forall>x. x \<notin> fst ` set (y # bs) \<longrightarrow> h x = m_objs s x)"
proof -
  let ?l = "last (y # bs)"
  have l: "?l \<in> set (y # bs)" "0 < fst ?l" using pos last_in_set [of "y # bs"] by blast+
  have y: "0 < fst y" using pos by simp
  obtain p n where obj_y: "m_objs s (fst y) = Some (ObjEvent (with_links (snd y) p n))" using objs by auto
  let ?s1 = "DBWrite s (fst y) (ObjEvent (with_links (snd y) 0 n))"
  have w1: "put_event s (fst y) (ev_ofsPrev_update (\<lambda>_. 0)) = Some ?s1" by (rule put_event_link [OF obj_y y])
  have objs1: "\<exists>p n. m_objs ?s1 (fst z) = Some (ObjEvent (with_links (snd z) p n)) \<and> (z = y \<longrightarrow> p = 0)"
    if z: "z \<in> set (y # bs)" for z
  proof (cases "z = y")
    case False
    then have "fst z \<in> fst ` set bs" using z by simp
    then have "fst z \<noteq> fst y" using dist by (metis distinct.simps(2) list.map(2) list.set_map)
    then show ?thesis using objs z False by simp
  qed (simp, blast)
  obtain q m where obj_l: "m_objs ?s1 (fst ?l) = Some (ObjEvent (with_links (snd ?l) q m))" "?l = y \<longrightarrow> q = 0"
    using objs1 [OF l(1)] by blast
  define s2 where "s2 = DBWrite ?s1 (fst ?l) (ObjEvent (with_links (snd ?l) q 0))"
  have w2: "put_event ?s1 (fst ?l) (ev_ofsNext_update (\<lambda>_. 0)) = Some s2"
    unfolding s2_def by (rule put_event_link [OF obj_l(1) l(2)])
  have inj: "fst z = fst w \<longleftrightarrow> z = w" if "z \<in> set (y # bs)" "w \<in> set (y # bs)" for z w
    using dist that unfolding distinct_map by (meson inj_on_def)
  have objs2: "\<exists>p n. m_objs s2 (fst z) = Some (ObjEvent (with_links (snd z) p n)) \<and> (z = y \<longrightarrow> p = 0) \<and> (z = ?l \<longrightarrow> n = 0)"
    if z: "z \<in> set (y # bs)" for z
  proof (cases "z = ?l")
    case True
    then show ?thesis using obj_l(2) by (intro exI [of _ q] exI [of _ 0]) (simp add: s2_def del: last.simps)
  next
    case False
    then have "m_objs s2 (fst z) = m_objs ?s1 (fst z)" using inj [OF z l(1)] by (simp add: s2_def del: last.simps)
    then show ?thesis using objs1 [OF z] False by metis
  qed
  have rd: "DBRead_event ?s1 (fst y) = Some (with_links (snd y) 0 n)" using y by simp
  have first: "LIST_at ar 0 = Some (event_pair y)" using at [rule_format, of 0] by simp
  have last: "LIST_at ar (realCount ar - 1) = Some (event_pair ?l)"
    using at [rule_format, of "length bs"] count by (simp add: last_conv_nth)
  let ?u = "if markedRead (snd y) then 0 else fst y"
  have "\<exists>h. relink_events s2 ar ?u (length bs) (int (length ([] :: entry list)) + 1) =
      Some (if ?u = 0 then fst (first_unread bs) else ?u, s2\<lparr>m_objs := h\<rparr>) \<and>
    chain h 0 ([] @ y # bs) 0 \<and> (\<forall>x. x \<notin> fst ` set (y # bs) \<longrightarrow> h x = m_objs s2 x)"
  proof (rule relink_chain)
    show "\<forall>k < length ([] @ y # bs). LIST_at ar (int k) = Some (event_pair (([] @ y # bs) ! k))" using at by simp
    show "distinct (map fst ([] @ y # bs))" "\<forall>z \<in> set ([] @ y # bs). 0 < fst z" using dist pos by simp_all
    show "chain (m_objs s2) 0 [] (fst y)" by simp
    show "\<exists>n. m_objs s2 (fst y) = Some (ObjEvent (with_links (snd y) (last_of (map fst [])) n)) \<and> (bs = [] \<longrightarrow> n = 0)"
      using objs2 [of y] by (cases "bs = []") (simp_all, blast)
    show "\<forall>z \<in> set bs. \<exists>p n. m_objs s2 (fst z) = Some (ObjEvent (with_links (snd z) p n)) \<and> (z = last bs \<longrightarrow> n = 0)"
    proof
      fix z
      assume "z \<in> set bs"
      then show "\<exists>p n. m_objs s2 (fst z) = Some (ObjEvent (with_links (snd z) p n)) \<and> (z = last bs \<longrightarrow> n = 0)"
        using objs2 [of z] by (cases "bs = []") (simp_all, blast)
    qed
  qed
  then obtain h where h: "relink_events s2 ar ?u (length bs) 1 = Some (if ?u = 0 then fst (first_unread bs) else ?u, s2\<lparr>m_objs := h\<rparr>)"
    "chain h 0 (y # bs) 0" "\<forall>x. x \<notin> fst ` set (y # bs) \<longrightarrow> h x = m_objs s2 x" by auto
  have "fst (first_unread (y # bs)) = (if ?u = 0 then fst (first_unread bs) else ?u)" using y by simp
  moreover have "last_of (map fst (y # bs)) = fst ?l" by (simp add: last_of_def last_map)
  moreover have "nat (realCount ar - 1) = length bs" using count by simp
  ultimately have "merge_events s c ar = Some (c\<lparr>dc_eventCount := of_nat (length (y # bs)), dc_ofsFirstEvent := fst y,
      dc_ofsLastEvent := last_of (map fst (y # bs)), dc_ofsFirstUnread := fst (first_unread (y # bs))\<rparr>, s\<lparr>m_objs := h\<rparr>)"
    using w1 w2 rd first last h(1) count y
    by (cases "markedRead (snd y)")
      (simp_all add: merge_events_def Let_def del: last.simps, simp_all add: s2_def DBWrite_def del: last.simps)
  moreover have "h x = m_objs s x" if "x \<notin> fst ` set (y # bs)" for x
  proof -
    have "x \<noteq> fst y" "x \<noteq> fst ?l" using that l(1) by (auto simp del: last.simps)
    then show ?thesis using h(3) that by (simp add: s2_def del: last.simps)
  qed
  ultimately show ?thesis using h(2) by blast
qed

section \<open>The merged history\<close>

text \<open>A permutation of two histories that is sorted by time.\<close>

definition merged :: "entry list \<Rightarrow> entry list \<Rightarrow> entry list \<Rightarrow> bool" where
  "merged xs ys zs \<longleftrightarrow> mset zs = mset xs + mset ys \<and> sorted (map ts zs)"

lemma merged_simps:
  assumes "merged xs ys zs"
  shows "set zs = set xs \<union> set ys" "length zs = length xs + length ys"
    "distinct (map fst zs) \<longleftrightarrow> distinct (map fst (xs @ ys))"
    "length (filter f zs) = length (filter f xs) + length (filter f ys)"
proof -
  have m: "mset zs = mset (xs @ ys)" using assms by (simp add: merged_def)
  show "set zs = set xs \<union> set ys" using mset_eq_setD [OF m] by simp
  show "length zs = length xs + length ys" using mset_eq_length [OF m] by simp
  have "mset (map fst zs) = mset (map fst (xs @ ys))" using m by simp
  then show "distinct (map fst zs) \<longleftrightarrow> distinct (map fst (xs @ ys))" by (rule mset_eq_imp_distinct_iff)
  have "mset (filter f zs) = mset (filter f (xs @ ys))" using m by (simp add: mset_filter)
  from mset_eq_length [OF this] show "length (filter f zs) = length (filter f xs) + length (filter f ys)" by simp
qed

lemma key_sorted:
  assumes "sorted_by (key_cmp (\<lambda>e :: event_entry. uint (snd e))) es"
  shows "sorted (map snd es)"
  using assms unfolding sorted_by_def sorted_map
  by (rule sorted_wrt_mono_rel [rotated]) (auto simp: key_cmp_def word_le_def split: if_splits)

lemma pairs_of:
  assumes "mset es = mset (map event_pair zs)"
  obtains ys where "es = map event_pair ys" and "mset ys = mset zs"
proof -
  have "\<exists>ys. es = map event_pair ys \<and> mset ys = mset zs"
    using assms
  proof (induction es arbitrary: zs)
    case Nil
    then show ?case by (intro exI [of _ "[]"]) simp
  next
    case (Cons e es)
    then have "e \<in># mset (map event_pair zs)" by (metis list.set_intros(1) set_mset_mset)
    then obtain z where z: "z \<in> set zs" "e = event_pair z" by auto
    then obtain us vs where uv: "zs = us @ z # vs" by (meson split_list)
    then have "mset es = mset (map event_pair (us @ vs))" using Cons.prems z(2) by simp
    then obtain ys where "es = map event_pair ys" "mset ys = mset (us @ vs)" using Cons.IH by blast
    then show ?case using z(2) uv by (intro exI [of _ "z # ys"]) simp
  qed
  then show ?thesis using that by blast
qed

text \<open>The time of the first unread event is the least of theirs.\<close>

lemma first_unread_least:
  assumes "sorted (map ts xs)" and "\<forall>x \<in> set xs. ts x \<noteq> 0"
  shows "snd (first_unread xs) = 0 \<longleftrightarrow> (\<forall>x \<in> set xs. markedRead (snd x))"
    and "x \<in> set xs \<Longrightarrow> \<not> markedRead (snd x) \<Longrightarrow> snd (first_unread xs) \<le> ts x"
    and "snd (first_unread xs) \<noteq> 0 \<Longrightarrow> \<exists>x \<in> set xs. \<not> markedRead (snd x) \<and> ts x = snd (first_unread xs)"
  using assms by (induction xs) auto

lemma merged_unread:
  assumes m: "merged xs ys zs" and srt: "sorted (map ts xs)" "sorted (map ts ys)"
    and ent: "\<forall>x \<in> set (xs @ ys). ts x \<noteq> 0"
    and le: "snd (first_unread ys) = 0 \<or> snd (first_unread xs) \<noteq> 0 \<and> snd (first_unread xs) \<le> snd (first_unread ys)"
  shows "snd (first_unread zs) = snd (first_unread xs)"
proof -
  have sz: "sorted (map ts zs)" using m by (simp add: merged_def)
  have set: "set zs = set xs \<union> set ys" using merged_simps(1) [OF m] .
  have ne: "\<forall>x \<in> set xs. ts x \<noteq> 0" "\<forall>x \<in> set ys. ts x \<noteq> 0" "\<forall>x \<in> set zs. ts x \<noteq> 0" using ent set by auto
  note X = first_unread_least [OF srt(1) ne(1)] and Y = first_unread_least [OF srt(2) ne(2)] and Z = first_unread_least [OF sz ne(3)]
  show ?thesis
  proof (cases "snd (first_unread xs) = 0")
    case True
    then have "\<forall>x \<in> set zs. markedRead (snd x)" using le X(1) Y(1) set by auto
    then show ?thesis using Z(1) True by simp
  next
    case False
    then obtain x where x: "x \<in> set xs" "\<not> markedRead (snd x)" "ts x = snd (first_unread xs)" using X(3) by blast
    then have le_z: "snd (first_unread zs) \<le> snd (first_unread xs)" using Z(2) [of x] set by simp
    have "snd (first_unread zs) \<noteq> 0" using Z(1) x set by auto
    then obtain z where z: "z \<in> set zs" "\<not> markedRead (snd z)" "ts z = snd (first_unread zs)" using Z(3) by blast
    have "snd (first_unread xs) \<le> ts z"
    proof (cases "z \<in> set xs")
      case True
      then show ?thesis using X(2) z(2) by blast
    next
      case False
      then have "z \<in> set ys" using z(1) set by blast
      then have "snd (first_unread ys) \<le> ts z" "snd (first_unread ys) \<noteq> 0" using Y(1,2) z(2) by blast+
      then show ?thesis using le order_trans by blast
    qed
    then show ?thesis using le_z z(3) by simp
  qed
qed

lemma merge_history:
  assumes objs: "m_objs s ofsM = Some (ObjContact cm)" "m_objs s ofsJ = Some (ObjContact cj)"
    and pos: "0 < ofsM" "0 < ofsJ" "ofsM \<noteq> ofsJ"
    and cc: "cc_dwOfsContact ccm = ofsM" "cc_dwOfsContact ccj = ofsJ"
    and rec: "record_ok cm L (length L)" "record_ok cj K (length K)"
    and ch: "chain (m_objs s) 0 L 0" "chain (m_objs s) 0 K 0"
    and ent: "\<forall>x \<in> set (L @ K). entry_ok x \<and> uint (ts x) < 2147483648"
    and dist: "distinct (map fst (L @ K))" and srt: "sorted (map ts L)" "sorted (map ts K)"
    and unread: "snd (first_unread K) = 0 \<or> L = [] \<or>
      snd (first_unread L) \<noteq> 0 \<and> snd (first_unread L) \<le> snd (first_unread K)"
  obtains ys h cm' cj' where "MetaMergeHistory s ccm ccj = Some (0, s\<lparr>m_objs := h\<rparr>)" and "merged L K ys"
    and "chain h 0 ys 0" and "h ofsM = Some (ObjContact cm')" and "h ofsJ = Some (ObjContact cj')"
    and "record_ok cm' ys (length ys)" and "record_ok cj' [] (length K)"
    and "same_links cm' cm" and "same_links cj' cj"
    and "\<And>x. x \<noteq> ofsM \<Longrightarrow> x \<noteq> ofsJ \<Longrightarrow> x \<notin> fst ` set (L @ K) \<Longrightarrow> h x = m_objs s x"
proof -
  have rd: "DBRead_contact s ofsM = Some cm" "DBRead_contact s ofsJ = Some cj"
    "signature_at s ofsM = DBCONTACT_SIGNATURE" "signature_at s ofsJ = DBCONTACT_SIGNATURE"
    using objs pos rec by (simp_all add: DBRead_contact_def signature_at_def record_ok_def)
  have first: "dc_ofsFirstEvent cm = next_of (map fst L)" "dc_ofsFirstEvent cj = next_of (map fst K)"
    using rec by (simp_all add: record_ok_def ends_ok_def next_of_def)
  have empty: "dc_ofsFirstEvent cm = 0 \<longleftrightarrow> L = []" "dc_ofsFirstEvent cj = 0 \<longleftrightarrow> K = []"
    using first ent by (cases L; cases K; auto simp: entry_ok_def)+
  have no_contact: "y \<notin> fst ` set (L @ K)" if "m_objs s y = Some (ObjContact c)" for y c
    using that chain_object [OF ch(1)] chain_object [OF ch(2)] by fastforce
  show ?thesis
  proof (cases "K = [] \<or> L = []")
    case True
    show ?thesis
    proof (cases "K = []")
      case True
      have "MetaMergeHistory s ccm ccj = Some (0, s\<lparr>m_objs := m_objs s\<rparr>)"
        using rd cc empty(2) True by (simp add: MetaMergeHistory_def Let_def)
      moreover have "merged L K L" using True srt(1) by (simp add: merged_def)
      ultimately show ?thesis using that [OF _ _ ch(1) objs rec(1)] rec(2) True by simp
    next
      case False
      then have L: "L = []" using \<open>K = [] \<or> L = []\<close> by simp
      let ?cm = "cm\<lparr>dc_eventCount := dc_eventCount cj, dc_ofsFirstEvent := dc_ofsFirstEvent cj,
        dc_ofsLastEvent := dc_ofsLastEvent cj, dc_ofsFirstUnread := dc_ofsFirstUnread cj, dc_tsFirstUnread := dc_tsFirstUnread cj\<rparr>"
      let ?h = "(m_objs s)(ofsM \<mapsto> ObjContact ?cm, ofsJ \<mapsto> ObjContact (clear_history cj))"
      have "MetaMergeHistory s ccm ccj = Some (0, s\<lparr>m_objs := ?h\<rparr>)"
        using rd cc empty False L by (simp add: MetaMergeHistory_def Let_def DBWrite_def)
      moreover have "merged L K K" using L srt(2) by (simp add: merged_def)
      moreover have "chain ?h 0 K 0" using ch(2) no_contact [OF objs(1)] no_contact [OF objs(2)] L by simp
      moreover have "record_ok ?cm K (length K)" "record_ok (clear_history cj) [] (length K)"
        using rec by (simp_all add: record_ok_def ends_ok_def clear_history_def)
      ultimately show ?thesis using that [of ?h K ?cm "clear_history cj"] pos(3) by (simp add: clear_history_def)
    qed
  next
    case ne: False
    obtain l1 es1 where c1: "collect_events s (LIST_new 20000 (SortFn SortEvent)) (dc_ofsFirstEvent cm) = Some (Inr l1)"
      "event_table l1 es1" "mset es1 = mset (map event_pair L)"
    proof -
      have "event_table (LIST_new 20000 (SortFn SortEvent)) []" by (simp add: event_table_def table_as_new)
      moreover have "\<forall>x \<in> set L. entry_ok x \<and> uint (ts x) < 2147483648" using ent by simp
      ultimately show ?thesis using collect_chain [OF ch(1)] that unfolding first by fastforce
    qed
    obtain l2 es2 where c2: "collect_events s l1 (dc_ofsFirstEvent cj) = Some (Inr l2)"
      "event_table l2 es2" "mset es2 = mset es1 + mset (map event_pair K)"
      using collect_chain [OF ch(2) _ c1(2)] ent unfolding first by auto
    have "mset es2 = mset (map event_pair (L @ K))" using c1(3) c2(3) by simp
    then obtain ys where ys: "es2 = map event_pair ys" "mset ys = mset (L @ K)" by (rule pairs_of)
    have "sorted (map snd es2)" using c2(2) key_sorted unfolding event_table_def table_as_def by blast
    then have m: "merged L K ys" using ys by (simp add: merged_def comp_def)
    note ms = merged_simps [OF m]
    obtain y bs where yb: "ys = y # bs" using ne ms(1) by (cases ys) auto
    have rep: "slist_rep l2 es2" using c2(2) by (simp add: event_table_def table_as_def)
    obtain h where h: "merge_events s cm l2 = Some (cm\<lparr>dc_eventCount := of_nat (length ys), dc_ofsFirstEvent := fst y,
        dc_ofsLastEvent := last_of (map fst ys), dc_ofsFirstUnread := fst (first_unread ys)\<rparr>, s\<lparr>m_objs := h\<rparr>)"
      "chain h 0 ys 0" "\<forall>x. x \<notin> fst ` set ys \<longrightarrow> h x = m_objs s x"
    proof -
      have "\<forall>k < length ys. LIST_at l2 (int k) = Some (event_pair (ys ! k))"
        using LIST_at_rep [OF rep] ys(1) by simp
      moreover have "realCount l2 = int (length ys)" using rep ys(1) by (simp add: slist_rep_def)
      moreover have "distinct (map fst ys)" using ms(3) dist by simp
      moreover have "\<forall>z \<in> set ys. 0 < fst z" using ent ms(1) by (auto simp: entry_ok_def)
      moreover have "\<exists>p n. m_objs s (fst z) = Some (ObjEvent (with_links (snd z) p n))" if "z \<in> set ys" for z
        using that chain_object [OF ch(1)] chain_object [OF ch(2)] ms(1) by blast
      ultimately show ?thesis using merge_events_chain [of y bs l2 s cm] that unfolding yb by blast
    qed
    let ?cm = "cm\<lparr>dc_eventCount := of_nat (length ys), dc_ofsFirstEvent := fst y,
      dc_ofsLastEvent := last_of (map fst ys), dc_ofsFirstUnread := fst (first_unread ys)\<rparr>"
    let ?h = "h(ofsM \<mapsto> ObjContact ?cm, ofsJ \<mapsto> ObjContact (clear_history cj))"
    have "MetaMergeHistory s ccm ccj = Some (0, s\<lparr>m_objs := ?h\<rparr>)"
      using rd cc empty ne c1(1) c2(1) h(1) by (simp add: MetaMergeHistory_def Let_def DBWrite_def)
    moreover have "chain ?h 0 ys 0"
      using h(2) no_contact [OF objs(1)] no_contact [OF objs(2)] ms(1) by (simp add: image_Un)
    moreover have "record_ok (clear_history cj) [] (length K)"
      using rec(2) by (simp add: record_ok_def ends_ok_def clear_history_def)
    moreover have "record_ok ?cm ys (length ys)"
    proof -
      have "\<forall>x \<in> set (L @ K). ts x \<noteq> 0" using ent by (auto simp: entry_ok_def)
      then have "snd (first_unread ys) = snd (first_unread L)" using merged_unread [OF m srt] unread ne by blast
      moreover have "dc_tsFirstUnread cm = snd (first_unread L)" using rec(1) by (simp add: record_ok_def prod_eq_iff)
      ultimately show ?thesis using rec(1) by (simp add: record_ok_def ends_ok_def last_of_def yb prod_eq_iff)
    qed
    moreover have "?h x = m_objs s x" if "x \<noteq> ofsM" "x \<noteq> ofsJ" "x \<notin> fst ` set (L @ K)" for x
      using that h(3) ms(1) by (simp add: image_Un)
    ultimately show ?thesis using that [of ?h ys ?cm "clear_history cj"] m pos(3) by (simp add: clear_history_def)
  qed
qed

text \<open>Histories of different contacts have no event in common.\<close>

lemma histories_disjoint:
  assumes rep: "db_rep s ccs H" and "(i, x) \<in> set (roots s ccs)" "parents ccs i = 0"
    and "(j, y) \<in> set (roots s ccs)" "parents ccs j = 0" and "i \<noteq> j"
  shows "fst ` set (H i) \<inter> fst ` set (H j) = {}"
proof (rule ccontr)
  assume "fst ` set (H i) \<inter> fst ` set (H j) \<noteq> {}"
  then obtain z where z: "z \<in> fst ` set (H i)" "z \<in> fst ` set (H j)" by blast
  obtain e where "m_objs s z = Some (ObjEvent e)" "chain_of (parents ccs) (ev_contactID e) = i"
    using hist_event [OF rep assms(2,3) z(1)] .
  moreover obtain f where "m_objs s z = Some (ObjEvent f)" "chain_of (parents ccs) (ev_contactID f) = j"
    using hist_event [OF rep assms(4,5) z(2)] .
  ultimately show False using assms(6) by simp
qed

text \<open>
  The state after the histories of \<open>m\<close> and \<open>j\<close> were merged: \<open>ys\<close> is the new history of \<open>m\<close>.
\<close>

lemma merged_rep:
  assumes rep: "db_rep s ccs H" and jr: "(j, ofsJ) \<in> set (roots s ccs)" and mr: "(m, ofsM) \<in> set (roots s ccs)"
    and own: "parents ccs j = 0" "parents ccs m = 0" and ne: "m \<noteq> j" "j \<noteq> 0" "m \<noteq> 0" and nosub: "\<forall>k. parents ccs k \<noteq> j"
    and ys: "merged (H m) (H j) ys" "chain h 0 ys 0"
    and objs: "m_objs s ofsM = Some (ObjContact cm)" "m_objs s ofsJ = Some (ObjContact cj)"
    and objs': "h ofsM = Some (ObjContact cm')" "h ofsJ = Some (ObjContact cj')"
    and rec: "record_ok cm' ys (length ys)" "record_ok cj' [] (length (H j))"
    and nx: "same_links cm' cm" "same_links cj' cj"
    and rest: "\<And>x. x \<noteq> ofsM \<Longrightarrow> x \<noteq> ofsJ \<Longrightarrow> x \<notin> fst ` set (H m @ H j) \<Longrightarrow> h x = m_objs s x"
    and base: "base_ok t" and h: "m_objs t = h" and tab': "table_ok t ccs'" and P: "parents ccs' = (parents ccs)(j := m)"
    and rts: "roots t ccs' = roots s ccs" and sets: "cc_dwOfsContact ` set ccs' = cc_dwOfsContact ` set ccs"
    and len: "length ccs' = length ccs" and hd: "m_dbHeader t = m_dbHeader s"
  shows "db_rep t ccs' (H(m := ys, j := []))"
proof -
  let ?P = "parents ccs" let ?P' = "?P(j := m)" let ?H = "H(m := ys, j := [])"
  note tab = db_repD(6) [OF rep] and ms = merged_simps [OF ys(1)]
  have hist: "hist_ok ?P (m_objs s) m (H m)" "hist_ok ?P (m_objs s) j (H j)"
    by (rule db_rep_hist(1) [OF rep mr own(2)], rule db_rep_hist(1) [OF rep jr own(1)])
  have mods: "hist_mods (m_objs s) (H m)" "hist_mods (m_objs s) (H j)"
    by (rule db_rep_hist(2) [OF rep mr own(2)], rule db_rep_hist(2) [OF rep jr own(1)])
  have cidJ: "cid x = j" if "x \<in> set (H j)" for x
    using hist(2) that nosub by (auto simp: hist_ok_def chain_of_def split: if_splits)
  have cid_ne: "cid x \<noteq> j" if "x \<in> set (H i)" "(i, z) \<in> set (roots s ccs)" "?P i = 0" "i \<noteq> j" for x i z
    using db_rep_hist(1) [OF rep that(2,3)] that(1,4) own(1) by (auto simp: hist_ok_def chain_of_def)
  have ev: "\<exists>e. m_objs s y = Some (ObjEvent e)" if "y \<in> fst ` set (H m @ H j)" for y
  proof (cases "y \<in> fst ` set (H m)")
    case True
    then show ?thesis using hist_event [OF rep mr own(2) True] by blast
  next
    case False
    then have "y \<in> fst ` set (H j)" using that by (simp add: image_Un)
    then show ?thesis using hist_event [OF rep jr own(1), of y] by blast
  qed
  have same: "h y = m_objs s y" if "\<nexists>e. m_objs s y = Some (ObjEvent e)" "y \<noteq> ofsM" "y \<noteq> ofsJ" for y
    using rest [OF that(2,3)] ev that(1) by blast
  have mods_t: "hist_mods h zs" if "hist_mods (m_objs s) zs" for zs
    unfolding hist_mods_def
  proof
    fix x
    assume "x \<in> set zs"
    then obtain k where k: "m_objs s (ev_ofsModuleName (snd x)) = Some (ObjModule k)" using \<open>hist_mods (m_objs s) zs\<close> unfolding hist_mods_def by blast
    then have "ev_ofsModuleName (snd x) \<noteq> ofsM" "ev_ofsModuleName (snd x) \<noteq> ofsJ" using objs by auto
    then have "h (ev_ofsModuleName (snd x)) = Some (ObjModule k)" using same [of "ev_ofsModuleName (snd x)"] k by simp
    then show "\<exists>m. h (ev_ofsModuleName (snd x)) = Some (ObjModule m)" ..
  qed
  have root: "root_ok ?P' ?H h i ofs \<and> (?P' i = 0 \<longrightarrow> hist_ok ?P' h i (?H i) \<and> hist_mods h (?H i))"
    if i: "(i, ofs) \<in> set (roots s ccs)" for i ofs
  proof -
    consider "i = m" | "i = j" | "i \<noteq> m" "i \<noteq> j" by blast
    then show ?thesis
    proof cases
      case 1
      then have ofs: "ofs = ofsM" using root_unique [OF tab i mr] by simp
      have "hist_ok ?P' h m ys"
        unfolding hist_ok_def
      proof (intro conjI ballI)
        show "chain h 0 ys 0" by (fact ys(2))
        show "distinct (map fst ys)"
          using ms(3) hist histories_disjoint [OF rep mr own(2) jr own(1) ne(1)] by (auto simp: hist_ok_def)
        show "sorted (map ts ys)" using ys(1) by (simp add: merged_def)
      next
        fix x
        assume x: "x \<in> set ys"
        then have "x \<in> set (H m) \<or> x \<in> set (H j)" using ms(1) by blast
        then show "entry_ok x" using hist by (auto simp: hist_ok_def)
        show "chain_of ?P' (cid x) = m"
        proof (cases "x \<in> set (H j)")
          case True
          then show ?thesis using cidJ ne(3) by (simp add: chain_of_def)
        next
          case False
          then have "x \<in> set (H m)" using x ms(1) by blast
          then show ?thesis using hist(1) cid_ne [OF _ mr own(2) ne(1)] by (auto simp: hist_ok_def chain_of_def)
        qed
      qed
      moreover have "hist_mods h ys"
        using mods_t [OF mods(1)] mods_t [OF mods(2)] ms(1) by (auto simp: hist_mods_def)
      ultimately show ?thesis
        using 1 ofs objs'(1) rec(1) own(2) ne(1) by (simp add: root_ok_def own_events_def events_of_def)
    next
      case 2
      then have ofs: "ofs = ofsJ" using root_unique [OF tab i jr] by simp
      have "length (filter (\<lambda>x. cid x = j) ys) = length (H j)"
      proof -
        have "filter (\<lambda>x. cid x = j) (H m) = []" using cid_ne [OF _ mr own(2) ne(1)] by (simp add: filter_empty_conv)
        moreover have "filter (\<lambda>x. cid x = j) (H j) = H j" using cidJ by (intro filter_True) simp
        ultimately show ?thesis using ms(4) by simp
      qed
      then show ?thesis
        using 2 ofs objs'(2) rec(2) ne by (simp add: root_ok_def own_events_def events_of_def)
    next
      case 3
      have ne_ofs: "ofs \<noteq> ofsM" "ofs \<noteq> ofsJ" using 3 root_unique [OF tab i mr] root_unique [OF tab i jr] by auto
      obtain c where c: "m_objs s ofs = Some (ObjContact c)" "record_ok c (own_events ?P H i) (length (events_of ?P H i))"
        using db_rep_root [OF rep i] .
      have c': "h ofs = Some (ObjContact c)" using same [of ofs] c(1) ne_ofs by simp
      have "filter (\<lambda>x. cid x = i) (H j) = []" using cidJ 3(2) by (auto simp: filter_empty_conv)
      then have "own_events ?P' ?H i = own_events ?P H i" "length (events_of ?P' ?H i) = length (events_of ?P H i)"
        using 3 nosub ms(4) by (auto simp: own_events_def events_of_def)
      then have "root_ok ?P' ?H h i ofs" using c(2) c' by (simp add: root_ok_def)
      moreover have "hist_ok ?P' h i (H i) \<and> hist_mods h (H i)" if Pi: "?P i = 0"
      proof -
        have "h y = m_objs s y" if y: "y \<in> fst ` set (H i)" for y
        proof -
          obtain e where "m_objs s y = Some (ObjEvent e)" using hist_event [OF rep i Pi y] by blast
          then have "y \<noteq> ofsM" "y \<noteq> ofsJ" using objs by auto
          moreover have "y \<notin> fst ` set (H m @ H j)"
            using y histories_disjoint [OF rep i Pi mr own(2) 3(1)] histories_disjoint [OF rep i Pi jr own(1) 3(2)]
            by (auto simp: image_Un)
          ultimately show ?thesis by (rule rest)
        qed
        then have "hist_ok ?P h i (H i)" by (rule hist_kept [OF db_rep_hist(1) [OF rep i Pi]])
        moreover have "chain_of ?P' (cid x) = chain_of ?P (cid x)" if "x \<in> set (H i)" for x
          using cid_ne [OF that i Pi 3(2)] by (simp add: chain_of_def)
        ultimately show ?thesis using mods_t [OF db_rep_hist(2) [OF rep i Pi]] by (simp add: hist_ok_def)
      qed
      ultimately show ?thesis using 3 by simp
    qed
  qed
  obtain cs where cs: "contact_chain (m_objs s) (dh_ofsFirstContact (m_dbHeader s)) cs" "distinct cs"
    "set cs = cc_dwOfsContact ` set ccs" "dh_contactCount (m_dbHeader s) = of_nat (length ccs)"
    using db_repD(7) [OF rep] by (auto simp: links_ok_def)
  have "contact_chain h (dh_ofsFirstContact (m_dbHeader s)) cs"
  proof (rule contact_chain_kept [OF cs(1)])
    fix x c
    assume x: "x \<in> set cs" "m_objs s x = Some (ObjContact c)"
    show "\<exists>c'. h x = Some (ObjContact c') \<and> dc_ofsNext c' = dc_ofsNext c"
    proof (cases "x = ofsM \<or> x = ofsJ")
      case True
      then show ?thesis using x(2) objs objs' nx by auto
    next
      case False
      then show ?thesis using same [of x] x(2) by simp
    qed
  qed
  then have "links_ok t ccs'" using cs sets len hd h by (auto simp: links_ok_def)
  moreover have "settings_kept (m_objs s) h (snd ` set (roots s ccs))"
  proof (rule settings_keptI)
    show "h x = m_objs s x" if "m_objs s x = Some (ObjSettings g)" for x g
      using that objs by (intro same) auto
    show "h x = m_objs s x" if "m_objs s x = Some (ObjModule k)" for x k
      using that objs by (intro same) auto
    show "\<exists>c'. h x = Some (ObjContact c') \<and> dc_ofsFirstSettings c' = dc_ofsFirstSettings c"
      if "m_objs s x = Some (ObjContact c)" for x c
      using that objs objs' nx same [of x] by (cases "x = ofsM"; cases "x = ofsJ") auto
  qed
  then have "\<exists>S. settings_rep h (set (roots s ccs)) S" using settings_rep_kept db_rep_settings [OF rep] by metis
  ultimately show ?thesis using base tab' root unfolding db_rep_def P rts h by blast
qed

lemma assign_sub_rep:
  assumes rep: "db_rep s ccs H" and ls: "listed s ccs H" and j: "j \<in> cc_contactID ` set ccs" and m: "m \<in> cc_contactID ` set ccs"
    and ne: "m \<noteq> j" and own: "parents ccs j = 0" "parents ccs m = 0" and nosub: "\<forall>k. parents ccs k \<noteq> j"
    and small: "\<forall>x \<in> set (H m @ H j). uint (ts x) < 2147483648"
    and unread: "snd (first_unread (H j)) = 0 \<or> H m = [] \<or>
      snd (first_unread (H m)) \<noteq> 0 \<and> snd (first_unread (H m)) \<le> snd (first_unread (H j))"
    and acc: "assign_accepts assignable s j m = Some True" and cm0: "lookup ccs m = Some cm0"
  obtains t ccs' ys where "assign_sub assignable s j m = Some (True, t)" and "lookup ccs' m = Some (with_sub j cm0)" and "merged (H m) (H j) ys"
    and "db_rep t ccs' (H(m := ys, j := []))" and "listed t ccs' (H(m := ys, j := []))"
    and "parents ccs' = (parents ccs)(j := m)" and "cc_contactID ` set ccs' = cc_contactID ` set ccs"
    and "file_end t = file_end s"
proof -
  let ?fm = "with_sub j" let ?fj = "cc_parentID_update (\<lambda>_. m)"
  note tab = db_repD(6) [OF rep]
  have j0: "j \<noteq> 0" "m \<noteq> 0" using table_distinct(2) [OF tab] j m by auto
  obtain l where l: "put_cached s m ?fm = Some (s\<lparr>m_lContacts := l\<rparr>)"
    "table_rep (NumericKeySortT cc_contactID) l (change_contact m ?fm ccs)"
    by (rule put_cached_table [OF tab m, of ?fm]) simp_all
  define s1 where "s1 = s\<lparr>m_lContacts := l\<rparr>"
  define ccs1 where "ccs1 = change_contact m ?fm ccs"
  have rep1: "db_rep s1 ccs1 H" unfolding s1_def ccs1_def by (rule change_contact_rep(1) [OF _ _ _ rep ls l(2)]) simp_all
  have P1: "parents ccs1 = parents ccs" and ids1: "cc_contactID ` set ccs1 = cc_contactID ` set ccs"
    and rts1: "roots s1 ccs1 = roots s ccs"
    unfolding ccs1_def s1_def by (rule change_contact_roots; simp)+
  note tab1 = db_repD(6) [OF rep1]
  obtain k where k: "put_cached s1 j ?fj = Some (s1\<lparr>m_lContacts := k\<rparr>)"
    "table_rep (NumericKeySortT cc_contactID) k (change_contact j ?fj ccs1)"
    by (rule put_cached_table [OF tab1, of j ?fj]) (use j ids1 in simp_all)
  define s2 where "s2 = s1\<lparr>m_lContacts := k\<rparr>"
  define ccs2 where "ccs2 = change_contact j ?fj ccs1"
  have jm1: "j \<in> cc_contactID ` set ccs1" "m \<in> cc_contactID ` set ccs1" using j m unfolding ids1 .
  have tab2: "table_ok s2 ccs2" and P2: "parents ccs2 = (parents ccs)(j := m)" and rts2: "roots s2 ccs2 = roots s ccs"
    and ids2: "cc_contactID ` set ccs2 = cc_contactID ` set ccs" and ofs2: "cc_dwOfsContact ` set ccs2 = cc_dwOfsContact ` set ccs1"
    using attach_table [OF tab1 jm1 _ ne _ k(2)] own(2) nosub unfolding P1 ids1 rts1 s2_def ccs2_def by blast+
  have ofs1: "cc_dwOfsContact ` set ccs1 = cc_dwOfsContact ` set ccs"
    unfolding ccs1_def change_contact_def set_map image_image by (rule image_cong) simp_all
  have len: "length ccs2 = length ccs" by (simp add: ccs2_def ccs1_def change_contact_def)
  have s2: "m_objs s2 = m_objs s" "m_dbHeader s2 = m_dbHeader s" by (simp_all add: s2_def s1_def)
  obtain ccm ccj where c: "lookup ccs2 m = Some ccm" "lookup ccs2 j = Some ccj"
    using j m lookup_None [of ccs2 m] lookup_None [of ccs2 j] unfolding ids2 by blast
  have mr: "(m, cc_dwOfsContact ccm) \<in> set (roots s ccs)" and jr: "(j, cc_dwOfsContact ccj) \<in> set (roots s ccs)"
    using lookup_root [OF c(1), of s2] lookup_root [OF c(2), of s2] unfolding rts2 .
  obtain cm where cm: "m_objs s (cc_dwOfsContact ccm) = Some (ObjContact cm)" "record_ok cm (H m) (length (H m))"
    using db_rep_root [OF rep mr] own(2) by (auto simp: own_events_def events_of_def)
  obtain cj where cj: "m_objs s (cc_dwOfsContact ccj) = Some (ObjContact cj)" "record_ok cj (H j) (length (H j))"
    using db_rep_root [OF rep jr] own(1) by (auto simp: own_events_def events_of_def)
  have hist: "hist_ok (parents ccs) (m_objs s) m (H m)" "hist_ok (parents ccs) (m_objs s) j (H j)"
    by (rule db_rep_hist(1) [OF rep mr own(2)], rule db_rep_hist(1) [OF rep jr own(1)])
  have pos: "0 < cc_dwOfsContact ccm" "0 < cc_dwOfsContact ccj" "cc_dwOfsContact ccm \<noteq> cc_dwOfsContact ccj"
    using space_inside [OF db_repD(2) [OF rep]] cm(1) cj(1) root_unique [OF tab mr jr] ne by blast+
  have dist: "distinct (map fst (H m @ H j))"
    using hist histories_disjoint [OF rep mr own(2) jr own(1) ne] by (simp add: hist_ok_def)
  have ent: "\<forall>x \<in> set (H m @ H j). entry_ok x \<and> uint (ts x) < 2147483648" using hist small by (auto simp: hist_ok_def)
  have srt: "sorted (map ts (H m))" "sorted (map ts (H j))" using hist by (simp_all add: hist_ok_def)
  note ch = hist_chain(1) [OF hist(1)] hist_chain(1) [OF hist(2)]
  obtain ys h cm' cj' where r: "MetaMergeHistory s2 ccm ccj = Some (0, s2\<lparr>m_objs := h\<rparr>)" "merged (H m) (H j) ys" "chain h 0 ys 0"
    "h (cc_dwOfsContact ccm) = Some (ObjContact cm')" "h (cc_dwOfsContact ccj) = Some (ObjContact cj')"
    "record_ok cm' ys (length ys)" "record_ok cj' [] (length (H j))"
    "same_links cm' cm" "same_links cj' cj"
    "\<And>x. x \<noteq> cc_dwOfsContact ccm \<Longrightarrow> x \<noteq> cc_dwOfsContact ccj \<Longrightarrow> x \<notin> fst ` set (H m @ H j) \<Longrightarrow> h x = m_objs s2 x"
    by (rule merge_history [of s2 "cc_dwOfsContact ccm" cm "cc_dwOfsContact ccj" cj ccm ccj "H m" "H j"])
      (use cm cj pos ch ent dist srt unread in \<open>simp_all only: s2\<close>, blast+)
  have rest: "h x = m_objs s x"
    if "x \<noteq> cc_dwOfsContact ccm" "x \<noteq> cc_dwOfsContact ccj" "x \<notin> fst ` set (H m @ H j)" for x
    using r(10) [OF that] by (simp add: s2)
  let ?t = "s2\<lparr>m_objs := h\<rparr>"
  have set_ys: "set ys = set (H m @ H j)" using merged_simps(1) [OF r(2)] by simp
  have ev: "\<exists>e e'. m_objs s x = Some (ObjEvent e) \<and> h x = Some (ObjEvent e') \<and> ev_blob e' = ev_blob e"
    if "x \<in> fst ` set (H m @ H j)" for x
  proof -
    obtain y where y: "y \<in> set (H m @ H j)" "x = fst y" using \<open>x \<in> fst ` set (H m @ H j)\<close> by auto
    have "y \<in> set ys" using y(1) set_ys by simp
    obtain p n where "h (fst y) = Some (ObjEvent (with_links (snd y) p n))" using chain_object [OF r(3) \<open>y \<in> set ys\<close>] by blast
    moreover have "\<exists>p n. m_objs s (fst y) = Some (ObjEvent (with_links (snd y) p n))"
      using y(1) chain_object [OF ch(1), of y] chain_object [OF ch(2), of y] by auto
    ultimately show ?thesis using y(2) by auto
  qed
  have "base_ok s2" using db_repD(1) [OF rep] by (simp add: s2_def s1_def base_ok_def mods_ok_def)
  then have base: "base_ok ?t"
  proof (rule same_shape_base)
    show "same_shape h (m_objs s2)"
    proof (rule same_shapeI)
      fix x
      consider "x = cc_dwOfsContact ccm" | "x = cc_dwOfsContact ccj" | "x \<in> fst ` set (H m @ H j)"
        | "x \<noteq> cc_dwOfsContact ccm" "x \<noteq> cc_dwOfsContact ccj" "x \<notin> fst ` set (H m @ H j)" by blast
      then show "h x = m_objs s2 x \<or> (\<exists>c d. m_objs s2 x = Some (ObjContact c) \<and> h x = Some (ObjContact d)) \<or>
          (\<exists>e f. m_objs s2 x = Some (ObjEvent e) \<and> h x = Some (ObjEvent f) \<and> ev_blob f = ev_blob e)"
        unfolding s2(1) by cases (use cm(1) cj(1) r(4,5) rest ev in blast)+
    qed
  qed
  have "header_same s2 ?t" by (simp add: header_same_def)
  then have tab_t: "table_ok ?t ccs2" and rts_t: "roots ?t ccs2 = roots s ccs"
    using tab2 header_same_table [of s2 ?t ccs2] header_same_roots [of s2 ?t ccs2] rts2 by simp_all
  have rep_t: "db_rep ?t ccs2 (H(m := ys, j := []))"
    by (rule merged_rep [OF rep jr mr own ne j0 nosub r(2,3) cm(1) cj(1) r(4-9) rest base _ tab_t P2 rts_t])
      (simp_all add: ofs2 ofs1 len s2)
  have "listed ?t ccs2 (H(m := ys, j := []))"
    unfolding listed_def rts_t P2
  proof (intro allI impI)
    fix x e
    assume "m_objs ?t x = Some (ObjEvent e)"
    then have hx: "h x = Some (ObjEvent e)" by simp
    show "\<exists>i \<in> fst ` set (roots s ccs). ((parents ccs)(j := m)) i = 0 \<and> x \<in> fst ` set ((H(m := ys, j := [])) i)"
    proof (cases "x \<in> fst ` set (H m @ H j)")
      case True
      have "m \<in> fst ` set (roots s ccs)" using mr by force
      then show ?thesis using True own(2) ne set_ys by (intro bexI [of _ m]) simp_all
    next
      case False
      have "x \<noteq> cc_dwOfsContact ccm" "x \<noteq> cc_dwOfsContact ccj" using hx r(4,5) by auto
      then have "m_objs s x = Some (ObjEvent e)" using rest [OF _ _ False] hx by simp
      then obtain i where i: "i \<in> fst ` set (roots s ccs)" "parents ccs i = 0" "x \<in> fst ` set (H i)"
        using ls unfolding listed_def by blast
      then have "i \<noteq> m" "i \<noteq> j" using False by (auto simp: image_Un)
      then show ?thesis using i by (intro bexI [of _ i]) simp_all
    qed
  qed
  moreover have "assign_sub assignable s j m = Some (True, ?t)"
    using acc l(1) k(1) c r(1) GetCachedContact_rep [OF tab2, of m] GetCachedContact_rep [OF tab2, of j]
    by (simp add: assign_sub_def attach_sub_def flip: s1_def s2_def)
  moreover have "lookup ccs2 m = Some (with_sub j cm0)"
    using ne cm0 lookup_Some [OF cm0] unfolding ccs2_def ccs1_def by (simp add: lookup_changed)
  moreover have "file_end ?t = file_end s" by (simp add: s2)
  ultimately show ?thesis using that r(2) rep_t P2 ids2 by blast
qed

lemma first_unread_next: "fst (first_unread xs) = next_of (map fst (filter (\<lambda>x. \<not> markedRead (snd x)) xs))"
  by (induction xs) auto

lemma first_unread_seen:
  assumes rep: "db_rep s ccs H" and i: "i \<in> fst ` set (roots s ccs)" and own: "parents ccs i = 0"
    and u: "FindFirstUnreadEvent s i = Some u"
  shows "snd (first_unread (H i)) = (if u = 0 then 0 else event_time s u)" and "snd (first_unread (H i)) = 0 \<longleftrightarrow> u = 0"
proof -
  have ev: "events_of (parents ccs) H i = H i" using own by (simp add: events_of_def)
  have u': "u = fst (first_unread (H i))" using FindFirstUnreadEvent_rep [OF rep i] u unfolding ev first_unread_next by simp
  have ent: "\<forall>x \<in> set (H i). 0 < fst x \<and> ts x \<noteq> 0"
  proof -
    obtain ofs where "(i, ofs) \<in> set (roots s ccs)" using i by auto
    from hist_chain(2) [OF db_rep_hist(1) [OF rep this own]] show ?thesis by (simp add: entry_ok_def)
  qed
  have tm: "\<forall>x \<in> set (H i). event_time s (fst x) = ts x"
  proof
    fix x
    assume "x \<in> set (H i)"
    then show "event_time s (fst x) = ts x" using events_object [OF rep i, of x] unfolding ev by blast
  qed
  have "(snd (first_unread xs) = (if fst (first_unread xs) = 0 then 0 else event_time s (fst (first_unread xs)))) \<and>
      (snd (first_unread xs) = 0 \<longleftrightarrow> fst (first_unread xs) = 0)"
    if "\<forall>x \<in> set xs. 0 < fst x \<and> ts x \<noteq> 0" "\<forall>x \<in> set xs. event_time s (fst x) = ts x" for xs
    using that by (induction xs) auto
  note both = this [OF ent tm]
  show "snd (first_unread (H i)) = (if u = 0 then 0 else event_time s u)" unfolding u' by (rule conjunct1 [OF both])
  show "snd (first_unread (H i)) = 0 \<longleftrightarrow> u = 0" unfolding u' by (rule conjunct2 [OF both])
qed

text \<open>In the merged chain the events of the new subcontact are those it had.\<close>

lemma merged_part:
  assumes rep: "db_rep s (cached s) H" and j: "known s j" and m: "known s m" and ne: "m \<noteq> j"
    and own: "parents (cached s) j = 0" "parents (cached s) m = 0" and nosub: "\<forall>k. parents (cached s) k \<noteq> j"
    and zs: "set zs = set (H m) \<union> set (H j)"
  shows "filter (\<lambda>z. z \<in> fst ` set (H j)) (map fst zs) = map fst (filter (\<lambda>x. cid x = j) zs)"
proof -
  obtain ofsM ofsJ where ofs: "(m, ofsM) \<in> set (roots s (cached s))" "(j, ofsJ) \<in> set (roots s (cached s))"
    using j m unfolding known_def by auto
  note hist = db_rep_hist(1) [OF rep ofs(1) own(2)] db_rep_hist(1) [OF rep ofs(2) own(1)]
  have "cid z = j \<longleftrightarrow> fst z \<in> fst ` set (H j)" if "z \<in> set zs" for z
  proof (cases "z \<in> set (H j)")
    case True
    then show ?thesis using hist(2) nosub by (auto simp: hist_ok_def chain_of_def split: if_splits)
  next
    case False
    then have zm: "z \<in> set (H m)" using that zs by blast
    then have "cid z \<noteq> j" using hist(1) own(1) ne by (auto simp: hist_ok_def chain_of_def)
    moreover have "fst z \<notin> fst ` set (H j)" using zm histories_disjoint [OF rep ofs(1) own(2) ofs(2) own(1) ne] by auto
    ultimately show ?thesis by simp
  qed
  then show ?thesis by (simp add: filter_map comp_def cong: filter_cong)
qed

text \<open>What the merge needs of the two chains, from what the enumerations show of them.\<close>

lemma chains_mergeable:
  assumes rep: "db_rep s (cached s) H" and j: "known s j" and m: "known s m"
    and own: "parents (cached s) j = 0" "parents (cached s) m = 0"
    and xs: "events_forward s m = Some xs" and ys: "events_forward s j = Some ys"
    and unread: "FindFirstUnreadEvent s m = Some u" "FindFirstUnreadEvent s j = Some v"
      "v = 0 \<or> xs = [] \<or> u \<noteq> 0 \<and> event_time s u \<le> event_time s v"
  shows "xs = map fst (H m)" and "ys = map fst (H j)" and "x \<in> set (H m) \<or> x \<in> set (H j) \<Longrightarrow> event_time s (fst x) = ts x"
    and "snd (first_unread (H j)) = 0 \<or> H m = [] \<or>
      snd (first_unread (H m)) \<noteq> 0 \<and> snd (first_unread (H m)) \<le> snd (first_unread (H j))"
proof -
  let ?P = "parents (cached s)"
  note jr = j [unfolded known_def] and mr = m [unfolded known_def]
  have evs: "events_of ?P H m = H m" "events_of ?P H j = H j" using own by (simp_all add: events_of_def)
  show xs': "xs = map fst (H m)" "ys = map fst (H j)"
    using xs ys events_seen(1) [OF rep mr, unfolded evs] events_seen(1) [OF rep jr, unfolded evs] by simp_all
  show "x \<in> set (H m) \<or> x \<in> set (H j) \<Longrightarrow> event_time s (fst x) = ts x"
    using events_object [OF rep mr, of x] events_object [OF rep jr, of x] unfolding evs by blast
  note um = first_unread_seen [OF rep mr own(2) unread(1)] and uj = first_unread_seen [OF rep jr own(1) unread(2)]
  show "snd (first_unread (H j)) = 0 \<or> H m = [] \<or>
      snd (first_unread (H m)) \<noteq> 0 \<and> snd (first_unread (H m)) \<le> snd (first_unread (H j))"
    using unread(3) um uj xs' by (cases "v = 0") auto
qed

text \<open>
  C13: Making a contact part of a metacontact that is not full merges its history into that of the
  metacontact: both loops over the metacontact see the events of both in the order of their times,
  the loop over the contact sees its own, and other histories stay as they are; the contact is
  the last subcontact of the metacontact.  The first unread event of the contact must not be
  earlier than that of the metacontact, since the code does not set its time.
\<close>

theorem assign_sub_merges:
  assumes ok: "db_ok s" and j: "known s j" "j \<noteq> 0" and m: "known s m" "m \<noteq> 0" and ne: "m \<noteq> j"
    and meta: "CheckMeta s m = Some (Some cm)" "cc_nSubs cm = int (length (cc_pSubs cm))" "cc_nSubs cm < MAX_CONTACTS"
    and acc: "assignable j"
    and own: "parents (cached s) j = 0" "parents (cached s) m = 0" and nosub: "\<forall>k. parents (cached s) k \<noteq> j"
    and xs: "events_forward s m = Some xs" and ys: "events_forward s j = Some ys"
    and small: "\<forall>x \<in> set (xs @ ys). uint (event_time s x) < 2147483648"
    and unread: "FindFirstUnreadEvent s m = Some u" "FindFirstUnreadEvent s j = Some v"
      "v = 0 \<or> xs = [] \<or> u \<noteq> 0 \<and> event_time s u \<le> event_time s v"
  shows "\<exists>t zs cm'. assign_sub assignable s j m = Some (True, t) \<and> db_ok t \<and>
    parents (cached t) = (parents (cached s))(j := m) \<and>
    GetCachedContact t m = Some (Some cm') \<and> cc_nSubs cm' = cc_nSubs cm + 1 \<and> cc_pSubs cm' = cc_pSubs cm @ [j] \<and>
    events_forward t m = Some zs \<and> mset zs = mset xs + mset ys \<and> sorted (map (event_time s) zs) \<and>
    events_forward t j = Some (filter (\<lambda>z. z \<in> set ys) zs) \<and>
    (\<forall>i. known s i \<and> i \<noteq> j \<and> chain_of (parents (cached s)) i \<noteq> m \<longrightarrow> events_forward t i = events_forward s i)"
proof -
  let ?P = "parents (cached s)"
  obtain H where rep: "db_rep s (cached s) H" and ls: "listed s (cached s) H" using db_okE [OF ok] .
  note jr = j(1) [unfolded known_def] and mr = m(1) [unfolded known_def]
  have jm: "j \<in> cc_contactID ` set (cached s)" "m \<in> cc_contactID ` set (cached s)"
    using jr mr j(2) m(2) unfolding root_known by simp_all
  note h = chains_mergeable [OF rep j(1) m(1) own xs ys unread]
  have "uint (ts x) < 2147483648" if "x \<in> set (H m @ H j)" for x
    using bspec [OF small, of "fst x"] h(3) [of x] that unfolding h(1,2) by auto
  then have small': "\<forall>x \<in> set (H m @ H j). uint (ts x) < 2147483648" by blast
  note tab = db_repD(6) [OF rep]
  obtain cj where cj: "lookup (cached s) j = Some cj" using jm(1) lookup_None [of "cached s" j] by blast
  have cm: "lookup (cached s) m = Some cm" and ac: "assign_accepts assignable s j m = Some True"
    using meta acc cj GetCachedContact_rep [OF tab]
    by (auto simp: CheckMeta_def assign_accepts_def split: if_splits option.splits)
  obtain t ccs' zs where t: "assign_sub assignable s j m = Some (True, t)" "merged (H m) (H j) zs" "db_rep t ccs' (H(m := zs, j := []))"
    "listed t ccs' (H(m := zs, j := []))" "parents ccs' = ?P(j := m)" "cc_contactID ` set ccs' = cc_contactID ` set (cached s)"
    "lookup ccs' m = Some (with_sub j cm)"
    using assign_sub_rep [OF rep ls jm ne own nosub small' h(4) ac cm] by metis
  have cc: "cached t = ccs'" using cached_table db_repD(6) [OF t(3)] by blast
  have kt: "i \<in> fst ` set (roots t ccs')" if "known s i" for i using that t(6) unfolding known_def root_known by simp
  have ms: "mset zs = mset (H m) + mset (H j)" "sorted (map ts zs)" "set zs = set (H m) \<union> set (H j)"
    using t(2) merged_simps(1) [OF t(2)] by (simp_all add: merged_def)
  have "events_forward t m = Some (map fst zs)"
    using events_seen(1) [OF t(3) kt [OF m(1)]] own(2) ne unfolding t(5) by (simp add: events_of_def)
  moreover have "mset (map fst zs) = mset xs + mset ys" using ms(1) h(1,2) by simp
  moreover have "map (event_time s) (map fst zs) = map ts zs" using h(3) ms(3) by simp
  then have "sorted (map (event_time s) (map fst zs))" using ms(2) by (simp only:)
  moreover have "events_forward t j = Some (filter (\<lambda>z. z \<in> set ys) (map fst zs))"
    using events_seen(1) [OF t(3) kt [OF j(1)]] m(2) ne merged_part [OF rep j(1) m(1) ne own nosub ms(3)]
    unfolding t(5) h(2) by (simp add: events_of_def)
  moreover have "events_forward t i = events_forward s i" if i: "known s i" "i \<noteq> j" "chain_of ?P i \<noteq> m" for i
  proof -
    have "events_of (parents ccs') (H(m := zs, j := [])) i = events_of ?P H i"
      using i(2,3) nosub unfolding t(5) by (auto simp: events_of_def chain_of_def split: if_splits)
    then show ?thesis using events_seen(1) [OF t(3) kt [OF i(1)]] events_seen(1) [OF rep i(1) [unfolded known_def]] by simp
  qed
  moreover have "db_ok t" using db_stateI [OF t(3,4)] .
  moreover have "GetCachedContact t m = Some (Some (with_sub j cm))"
    using GetCachedContact_rep [OF db_repD(6) [OF t(3)]] t(7) by simp
  moreover have "cc_nSubs (with_sub j cm) = cc_nSubs cm + 1" "cc_pSubs (with_sub j cm) = cc_pSubs cm @ [j]"
    using meta(2) by simp_all
  ultimately show ?thesis using t(1,5) cc by blast
qed

end
