(* ===== verification/DbExamples.thy ===== *)
theory DbExamples imports DbMerge begin

text \<open>
  A database in which the laws of the driver are applied, and runs of the driver in which it does
  not do what it means to.
\<close>

section \<open>A database with events\<close>

definition no_handlers :: dbenv where "no_handlers = quiet (\<lambda>_. None) (\<lambda>_. None)"

definition message :: "u64 \<Rightarrow> u32 \<Rightarrow> DBEVENTINFO" where
  "message t flags =
     \<lparr>di_szModule = [73, 67, 81], di_iTimestamp = t, di_flags = flags, di_eventType = 0,
      di_cbBlob = 2, di_pBlob = Some [104, 105]\<rparr>"

text \<open>Additions of contacts and events for which there is room.\<close>

definition fits :: "CDb3Mmap \<Rightarrow> db_op \<Rightarrow> bool" where
  "fits s x =
     (case x of
        DoAddEvent i di \<Rightarrow>
          (case event_blob di of
             None \<Rightarrow> False
           | Some b \<Rightarrow> file_end s + size_event + int (length b) + int (length (di_szModule di)) + size_module < 2147483648)
      | DoAddContact \<Rightarrow> file_end s + size_contact < 4294967296 \<and> m_dwMaxContactId s \<noteq> 0 \<and> m_dwMaxContactId s \<noteq> -1
      | _ \<Rightarrow> False)"

fun run_fits :: "CDb3Mmap \<Rightarrow> db_op list \<Rightarrow> CDb3Mmap option" where
  "run_fits s [] = Some s"
| "run_fits s (x # xs) = (if fits s x then do { s \<leftarrow> exec no_handlers s x; run_fits s xs } else None)"

lemma run_fits_ok: "run_fits s xs = Some t \<Longrightarrow> db_ok s \<Longrightarrow> db_ok t"
proof (induction xs arbitrary: s)
  case (Cons x xs)
  then have "fits s x" by (simp split: if_splits)
  then have "allowed no_handlers 0 s x"
    by (cases x) (auto simp: fits_def allowed_def no_handlers_def split: option.splits)
  then obtain u where "exec no_handlers s x = Some u" "db_ok u"
    using quiet.exec_ok [OF Cons.prems(2)] unfolding no_handlers_def by blast
  then show ?case using Cons \<open>fits s x\<close> by simp
qed simp

text \<open>
  Two contacts; the first one has an event of the time 100 and one of the time 50, the second one of
  the time 70 that was read.
\<close>

definition demo_ops :: "db_op list" where
  "demo_ops =
     [DoAddContact, DoAddContact, DoAddEvent 1 (message 100 0), DoAddEvent 1 (message 50 0), DoAddEvent 2 (message 70 DBEF_READ)]"

definition demo_db :: CDb3Mmap where
  "demo_db = the (run_fits (CreateDbHeaders 65536) demo_ops)"

definition demo_view where
  "demo_view s =
     ((file_end s, m_bEncrypted s, map cc_contactID (cached s), map cc_parentID (cached s)),
      (events_forward s 1, events_forward s 2, map (event_time s) [200, 236, 152]),
      (FindFirstUnreadEvent s 1, FindFirstUnreadEvent s 2, event_at s 200))"

lemma demo_seen:
  "map_option demo_view (run_fits (CreateDbHeaders 65536) demo_ops) =
     Some ((272, False, [1, 2], [0, 0]), (Some [200, 152], Some [236], [50, 70, 100]), (Some 200, Some 0, Some 1))"
  by code_simp

lemma demo_run: "run_fits (CreateDbHeaders 65536) demo_ops = Some demo_db"
  using demo_seen by (cases "run_fits (CreateDbHeaders 65536) demo_ops") (simp_all add: demo_db_def)

lemma demo_facts:
  "file_end demo_db = 272" "\<not> m_bEncrypted demo_db" "map cc_contactID (cached demo_db) = [1, 2]"
  "map cc_parentID (cached demo_db) = [0, 0]"
  "events_forward demo_db 1 = Some [200, 152]" "events_forward demo_db 2 = Some [236]"
  "map (event_time demo_db) [200, 236, 152] = [50, 70, 100]"
  "FindFirstUnreadEvent demo_db 1 = Some 200" "FindFirstUnreadEvent demo_db 2 = Some 0"
  "event_at demo_db 200 = Some 1"
  using demo_seen unfolding demo_run by (simp_all add: demo_view_def)

lemma demo_ok: "db_ok demo_db"
  using run_fits_ok [OF demo_run] db_ok_created [of 65536] by simp

lemma demo_known: "known demo_db 1" "known demo_db 2"
proof -
  have "cc_contactID ` set (cached demo_db) = {1, 2}"
    using arg_cong [OF demo_facts(3), of set] by simp
  then show "known demo_db 1" "known demo_db 2" unfolding known_def root_known by simp_all
qed

lemma demo_parents: "parents (cached demo_db) i = 0"
proof -
  have "cc_parentID ` set (cached demo_db) = {0}" using arg_cong [OF demo_facts(4), of set] by simp
  then have "\<forall>cc \<in> set (cached demo_db). cc_parentID cc = 0" by blast
  then show ?thesis using lookup_Some [of "cached demo_db" i] by (auto simp: parents_def split: option.split)
qed

lemma demo_event: "m_objs demo_db 200 \<noteq> Some (ObjContact c)"
  using demo_facts(10) by (auto simp: event_at_def)

lemma demo_boundary: "at_boundary demo_db 200"
proof -
  obtain v where "m_objs demo_db 200 = Some v"
    using demo_facts(10) by (auto simp: event_at_def split: option.splits)
  then show ?thesis using object_boundary [OF demo_ok] by blast
qed

section \<open>The laws, applied\<close>

theorem history_enumerated_witness:
  "\<exists>xs. events_forward demo_db 1 = Some xs \<and> events_backward demo_db 1 = Some (rev xs) \<and>
    GetEventCount demo_db 1 = Some (int (length xs)) \<and> xs = [200, 152]"
  using history_enumerated [OF demo_ok demo_known(1)] demo_facts(1,5) by auto

theorem AddEvent_by_time_witness:
  "\<exists>t. AddEvent (quiet (\<lambda>_. None) (\<lambda>_. None)) demo_db 1 (Some (message 70 0)) = Some (272, t) \<and> db_ok t \<and>
    events_forward t 2 = Some [236]"
proof -
  have b: "event_blob (message 70 0) = Some [104, 105]" "getUnixtime (message 70 0) \<noteq> 0" by code_simp+
  have r: "file_end demo_db + size_event + int (length (fst (encode_blob (quiet (\<lambda>_. None) (\<lambda>_. None)) demo_db [104, 105] (di_flags (message 70 0))))) +
      int (length (di_szModule (message 70 0))) + size_module < 2147483648"
    using demo_facts(1,2) by (simp add: encode_blob_def message_def size_defs)
  show ?thesis
    using AddEvent_by_time [OF demo_ok demo_known(1) b(2,1) r] demo_known(2) demo_facts(1,6) demo_parents
    by (force simp: chain_of_def)
qed

theorem DeleteEvent_removes_witness:
  "\<exists>t. DeleteEvent (quiet (\<lambda>_. None) (\<lambda>_. None)) demo_db 200 = Some (0, t) \<and> events_forward t 1 = Some [152]"
proof -
  obtain r t where r: "DeleteEvent (quiet (\<lambda>_. None) (\<lambda>_. None)) demo_db 200 = Some (r, t)"
    "r = 0 \<longleftrightarrow> event_at demo_db 200 \<noteq> None"
    "\<forall>i xs. known demo_db i \<and> events_forward demo_db i = Some xs \<longrightarrow> known t i \<and> events_forward t i = Some (filter (\<lambda>x. x \<noteq> 200) xs)"
    using DeleteEvent_removes [OF demo_ok demo_boundary demo_event] by blast
  then have "r = 0" "events_forward t 1 = Some (filter (\<lambda>x. x \<noteq> 200) [200, 152])"
    using demo_facts(5,10) demo_known(1) by auto
  then show ?thesis using r(1) by simp
qed

theorem MarkEventRead_marks_witness:
  "\<exists>r t. MarkEventRead (quiet (\<lambda>_. None) (\<lambda>_. None)) demo_db 1 200 = Some (r, t) \<and> events_forward t 1 = Some [200, 152] \<and>
    200 \<notin> set (filter (unread_event t) [200, 152])"
proof -
  obtain r t where r: "MarkEventRead (quiet (\<lambda>_. None) (\<lambda>_. None)) demo_db 1 200 = Some (r, t)"
    "\<forall>i xs. known demo_db i \<and> events_forward demo_db i = Some xs \<longrightarrow> known t i \<and> events_forward t i = Some xs \<and>
       filter (unread_event t) xs = filter (\<lambda>x. unread_event demo_db x \<and> x \<noteq> 200) xs"
    using MarkEventRead_marks [OF demo_ok demo_known(1) demo_facts(10) refl] by blast
  then have "events_forward t 1 = Some [200, 152]"
    "filter (unread_event t) [200, 152] = filter (\<lambda>x. unread_event demo_db x \<and> x \<noteq> 200) [200, 152]"
    using demo_facts(5) demo_known(1) by blast+
  then show ?thesis using r(1) by auto
qed

theorem GetEvent_AddEvent_witness:
  "\<exists>t u di. AddEvent (quiet (\<lambda>_. None) (\<lambda>_. None)) demo_db 1 (Some (message 70 0)) = Some (272, t) \<and>
    GetEvent (quiet (\<lambda>_. None) (\<lambda>_. None)) t 272 (Some ((message 0 0)\<lparr>di_cbBlob := -1\<rparr>)) = Some (0, Some di, u) \<and>
    di_pBlob di = Some [104, 105, 0, 0] \<and> di_szModule di = [73, 67, 81]"
proof -
  have b: "event_blob (message 70 0) = Some [104, 105]" "getUnixtime (message 70 0) \<noteq> 0"
    "di_flags (message 70 0) AND DBEF_ENCRYPTED = 0" "c_str (di_szModule (message 70 0)) = [73, 67, 81]" by code_simp+
  have r: "file_end demo_db + size_event + int (length [104 :: 8 word, 105]) + int (length (di_szModule (message 70 0))) + size_module < 2147483648"
    using demo_facts(1) by (simp add: message_def size_defs)
  show ?thesis
    using GetEvent_AddEvent [OF demo_ok demo_known(1) b(2,1) demo_facts(2) b(3) _ r, of "(message 0 0)\<lparr>di_cbBlob := -1\<rparr>"]
    unfolding demo_facts(1) b(4) by fastforce
qed

text \<open>The first contact becomes a metacontact without subcontacts.\<close>

definition demo_meta :: CDb3Mmap where "demo_meta = the (make_meta demo_db 1)"

definition meta_view where
  "meta_view s = (demo_view s, map_option (map_option (\<lambda>cc. (cc_nSubs cc, cc_pSubs cc))) (CheckMeta s 1))"

lemma demo_meta_seen:
  "map_option meta_view (do { s \<leftarrow> run_fits (CreateDbHeaders 65536) demo_ops; make_meta s 1 }) =
     Some (((272, False, [1, 2], [0, 0]), (Some [200, 152], Some [236], [50, 70, 100]), (Some 200, Some 0, Some 1)),
       Some (Some (0, [])))"
  by code_simp

lemma demo_meta_facts: "meta_view demo_meta =
     (((272, False, [1, 2], [0, 0]), (Some [200, 152], Some [236], [50, 70, 100]), (Some 200, Some 0, Some 1)),
       Some (Some (0, [])))"
  using demo_meta_seen unfolding demo_run by (cases "make_meta demo_db 1") (simp_all add: demo_meta_def)

lemma demo_meta_ok: "db_ok demo_meta" "known demo_meta 1" "known demo_meta 2" "parents (cached demo_meta) i = 0"
proof -
  note f = demo_meta_facts [unfolded meta_view_def demo_view_def]
  have "map cc_contactID (cached demo_meta) = [1, 2]" "map cc_parentID (cached demo_meta) = [0, 0]" using f by simp_all
  from arg_cong [OF this(1), of set] arg_cong [OF this(2), of set]
  have ids: "cc_contactID ` set (cached demo_meta) = {1, 2}" and ps: "cc_parentID ` set (cached demo_meta) = {0}" by simp_all
  show "known demo_meta 1" "known demo_meta 2" unfolding known_def root_known ids by simp_all
  have "\<forall>cc \<in> set (cached demo_meta). cc_parentID cc = 0" using ps by blast
  then show "parents (cached demo_meta) i = 0"
    using lookup_Some [of "cached demo_meta" i] by (auto simp: parents_def split: option.split)
  have "1 \<in> cc_contactID ` set (cached demo_db)" using arg_cong [OF demo_facts(3), of set] by simp
  then obtain t where "make_meta demo_db 1 = Some t" "db_ok t" using make_meta_ok [OF demo_ok] by blast
  then show "db_ok demo_meta" by (simp add: demo_meta_def)
qed

theorem assign_sub_merges_witness:
  "\<exists>t zs cm. assign_sub (\<lambda>_. True) demo_meta 2 1 = Some (True, t) \<and> db_ok t \<and> events_forward t 1 = Some zs \<and>
    mset zs = {#200, 152, 236#} \<and> sorted (map (event_time demo_meta) zs) \<and>
    GetCachedContact t 1 = Some (Some cm) \<and> cc_nSubs cm = 1 \<and> cc_pSubs cm = [2]"
proof -
  note f = demo_meta_facts [unfolded meta_view_def demo_view_def]
  obtain cm where cm: "CheckMeta demo_meta 1 = Some (Some cm)" "cc_nSubs cm = 0" "cc_pSubs cm = []" using f by auto
  have ids: "\<forall>k. parents (cached demo_meta) k \<noteq> 2" by (simp add: demo_meta_ok)
  have ev: "events_forward demo_meta 1 = Some [200, 152]" "events_forward demo_meta 2 = Some [236]"
    and tm: "event_time demo_meta 200 = 50" "event_time demo_meta 236 = 70" "event_time demo_meta 152 = 100"
    and un: "FindFirstUnreadEvent demo_meta 1 = Some 200" "FindFirstUnreadEvent demo_meta 2 = Some 0"
    using f by simp_all
  have small: "\<forall>x \<in> set ([200, 152] @ [236]). uint (event_time demo_meta x) < 2147483648" by (simp add: tm)
  have ne: "(1 :: u32) \<noteq> 2" "(2 :: u32) \<noteq> 0" "(1 :: u32) \<noteq> 0" by simp_all
  have room: "cc_nSubs cm = int (length (cc_pSubs cm))" "cc_nSubs cm < MAX_CONTACTS" by (simp_all add: cm MAX_CONTACTS_def)
  show ?thesis
    using assign_sub_merges [OF demo_meta_ok(1,3) ne(2) demo_meta_ok(2) ne(3) ne(1) cm(1) room _ demo_meta_ok(4,4) ids
        ev small un, of "\<lambda>_. True"] unfolding cm(2,3) by auto
qed

section \<open>Runs with handlers\<close>

text \<open>
  C3: Whatever sequence of additions, deletions and markings the callers of the driver make within
  what they owe, and whatever well-behaved handlers do with the driver while it has given up its
  lock, the database stays in order and the next operation returns.
\<close>

theorem db_runs_in_order:
  assumes "db_client E grow" and "db_ok s" and "db_runs E grow s t"
  shows "db_ok t \<and> (\<forall>x. allowed E grow t x \<longrightarrow> (\<exists>u. exec E t x = Some u))"
  using db_client.runs_ok [OF assms(1,3,2)] db_client.exec_ok [OF assms(1)] by blast

theorem db_runs_in_order_witness:
  "\<exists>u. exec (marking_env (\<lambda>_. None) (\<lambda>_. None)) demo_db (DoDeleteEvent 200) = Some u \<and> db_ok demo_db"
proof -
  have "allowed (marking_env (\<lambda>_. None) (\<lambda>_. None)) 0 demo_db (DoDeleteEvent 200)" using demo_event by (simp add: allowed_def)
  then show ?thesis
    using db_runs_in_order [OF marking_env.db_client_axioms demo_ok db_runs.start] by blast
qed

section \<open>Where the driver does not do what it means to\<close>

text \<open>
  \<open>DeleteEvent\<close> gives up its lock for its notification and reads the event again afterwards, but does
  not look whether it is still one: if it was deleted meanwhile, the zeros read as the first
  and last event, and the whole history is lost.
\<close>

definition deleter :: dbenv where
  "deleter =
     no_handlers\<lparr>de_notify := \<lambda>n s. (case n of EventDeleted i h \<Rightarrow> DeleteEvent no_handlers s h | _ \<Rightarrow> Some (0, s))\<rparr>"

definition deleted_twice :: "(int \<times> int \<times> int list \<times> u32 \<times> int list \<times> u32 option) option" where
  "deleted_twice =
     do {
       (h, s) \<leftarrow> AddEvent no_handlers (CreateDbHeaders 65536) 0 (Some (message 100 0));
       (h', s) \<leftarrow> AddEvent no_handlers s 0 (Some (message 50 0));
       xs \<leftarrow> events_forward s 0;
       (r, t) \<leftarrow> DeleteEvent deleter s h';
       ys \<leftarrow> events_forward t 0;
       Some (h, h', xs, r, ys, event_at t h)
     }"

theorem deleted_twice_loses_history: "deleted_twice = Some (80, 128, [128, 80], 0, [], Some 0)"
  by code_simp

text \<open>
  \<open>MetaMergeHistory\<close> does not set the time of the first unread event, so that an unread event
  that is added later can hide an older one.
\<close>

lemma collect_error: "collect_events s l x = Some r \<Longrightarrow> r \<noteq> Inl 0"
proof (erule collect_events.raw_induct [where P = "\<lambda>s l x r. r \<noteq> Inl 0", rotated])
  fix f :: "CDb3Mmap \<Rightarrow> event_entry slist \<Rightarrow> int \<Rightarrow> (u32 + event_entry slist) option" and s l x r
  assume IH: "\<And>s l x r. f s l x = Some r \<Longrightarrow> r \<noteq> Inl 0"
    and "(if x = 0 then Some (Inr l) else if signature_at s x \<noteq> DBEVENT_SIGNATURE then Some (Inl 2)
      else do { pev \<leftarrow> DBRead_event s x; (r, l) \<leftarrow> List_InsertPtr l (Some (x, ev_timestamp pev)); f s l (ev_ofsNext pev) }) = Some r"
  then show "r \<noteq> Inl 0" using IH by (auto simp: bind_eq_Some_conv split: if_splits)
qed

theorem merge_keeps_unread_time:
  assumes "DBRead_contact s (cc_dwOfsContact ccMeta) = Some c" and "DBRead_contact s (cc_dwOfsContact ccSub) = Some d"
    and "signature_at s (cc_dwOfsContact ccMeta) = DBCONTACT_SIGNATURE" and "signature_at s (cc_dwOfsContact ccSub) = DBCONTACT_SIGNATURE"
    and "dc_ofsFirstEvent c \<noteq> 0" and "dc_ofsFirstEvent d \<noteq> 0" and "cc_dwOfsContact ccMeta \<noteq> cc_dwOfsContact ccSub"
    and "MetaMergeHistory s ccMeta ccSub = Some (0, t)"
  shows "\<exists>c'. m_objs t (cc_dwOfsContact ccMeta) = Some (ObjContact c') \<and> dc_tsFirstUnread c' = dc_tsFirstUnread c"
proof -
  let ?l = "LIST_new 20000 (SortFn SortEvent) :: event_entry slist"
  obtain l1 where l1: "collect_events s ?l (dc_ofsFirstEvent c) = Some (Inr l1)"
    using assms collect_error [of s ?l "dc_ofsFirstEvent c"]
    by (cases "collect_events s ?l (dc_ofsFirstEvent c)") (auto simp: MetaMergeHistory_def Let_def split: sum.splits)
  obtain l2 where l2: "collect_events s l1 (dc_ofsFirstEvent d) = Some (Inr l2)"
    using assms collect_error [of s l1 "dc_ofsFirstEvent d"] l1
    by (cases "collect_events s l1 (dc_ofsFirstEvent d)") (auto simp: MetaMergeHistory_def Let_def split: sum.splits)
  obtain c' u where m: "merge_events s c l2 = Some (c', u)"
    using assms l1 l2 by (cases "merge_events s c l2") (auto simp: MetaMergeHistory_def Let_def)
  then have "dc_tsFirstUnread c' = dc_tsFirstUnread c" by (auto simp: merge_events_def Let_def bind_eq_Some_conv)
  then show ?thesis using assms l1 l2 m by (auto simp: MetaMergeHistory_def Let_def)
qed

text \<open>
  The time of an event in milliseconds is stored in seconds with the flag that says milliseconds,
  so that a marking_env divides it again.
\<close>

definition stored_msec :: "(u32 \<times> u32) option" where
  "stored_msec =
     do {
       let di = message 1700000000123 DBEF_MSEC;
       (h, s) \<leftarrow> AddEvent no_handlers demo_db 1 (Some di);
       (r, di', s) \<leftarrow> GetEvent no_handlers s h (Some (message 0 0));
       di' \<leftarrow> di';
       Some (getUnixtime di, getUnixtime di')
     }"

theorem milliseconds_divided_twice: "stored_msec = Some (1700000000, 1700000)"
  by code_simp

text \<open>
  \<open>MarkEventRead\<close> takes the contact from its caller and not from the event; with another one the
  event is marked but stays the first unread event of its own contact.
\<close>

definition marked_for_other :: "(int option \<times> bool) option" where
  "marked_for_other =
     do {
       (r, s) \<leftarrow> MarkEventRead no_handlers demo_db 2 200;
       Some (FindFirstUnreadEvent s 1, unread_event s 200)
     }"

theorem marked_for_other_contact: "marked_for_other = Some (Some 200, False)"
  by code_simp

text \<open>
  A deleted subcontact leaves its events in the chain of its metacontact, and they cannot be
  deleted: \<open>DeleteEvent\<close> does not find the contact any more.
\<close>

definition deleted_sub :: "(u32 \<times> int \<times> int option \<times> u32) option" where
  "deleted_sub =
     do {
       (m, s) \<leftarrow> AddContact (CreateDbHeaders 65536);
       (j, s) \<leftarrow> AddContact s;
       s \<leftarrow> make_meta s m;
       (assigned, s) \<leftarrow> assign_sub (\<lambda>_. True) s j m;
       (h, s) \<leftarrow> AddEvent no_handlers s j (Some (message 70 0));
       (r, s) \<leftarrow> DeleteContact s j;
       (r', t) \<leftarrow> DeleteEvent no_handlers s h;
       Some (r, h, FindFirstEvent t m, r')
     }"

theorem deleted_sub_leaves_events: "deleted_sub = Some (0, 152, Some 152, 2)"
  by code_simp

text \<open>Offsets that are two gigabytes apart are compared the wrong way round.\<close>

theorem far_offsets_compare_wrong:
  "OfsCompare \<lparr>md_name = [], md_ofs = 100\<rparr> \<lparr>md_name = [], md_ofs = 2147483749\<rparr> > 0"
  by code_simp

end
