(* ===== verification/DbWrite.thy ===== *)
theory DbWrite imports DbOps begin

text \<open>
  The blob of a group read back as a list of settings, what writes do to it, and the chain of the
  groups of a contact when one of them moves.
\<close>

section \<open>The settings of a blob, read back\<close>

text \<open>The bytes of the value whose type is at \<open>p\<close> and which ends at \<open>j\<close>.\<close>

definition payload :: "bytes \<Rightarrow> nat \<Rightarrow> nat \<Rightarrow> bytes" where
  "payload b p j = (let q = p + 1 + (if variable (b ! p) then 2 else 0) in take (j - q) (drop q b))"

function decode_blob :: "bytes \<Rightarrow> nat \<Rightarrow> setting list" where
  "decode_blob b i =
     (case (blob_at b i, next_setting b i) of
        (Some n, Some j) \<Rightarrow>
          if n = 0 then []
          else
            let p = i + 1 + unat n in (take (unat n) (drop (i + 1) b), b ! p, payload b p j) # decode_blob b j
      | _ \<Rightarrow> [])"
  by pat_completeness auto
termination
  by (relation "measure (\<lambda>(b, i). length b - i)") (auto dest: next_setting_bounds [OF sym])

declare decode_blob.simps [simp del]

definition settings_in :: "bytes \<Rightarrow> setting list" where
  "settings_in b = decode_blob b 0"

lemma payload_here:
  "payload (as @ t # value_bytes t d @ bs) (length as) (length as + 1 + length (value_bytes t d)) = d"
  by (simp add: payload_def value_bytes_def)

lemma decode_blob_here:
  assumes "\<forall>x \<in> set xs. setting_ok x"
  shows "decode_blob (as @ settings_bytes xs @ 0 # rest) (length as) = xs"
  using assms
proof (induction xs arbitrary: as)
  case Nil
  show ?case by (simp add: decode_blob.simps [of _ "length as"] split: option.split)
next
  case (Cons x xs)
  obtain n t d where x: "x = (n, t, d)" by (cases x)
  let ?b = "as @ setting_bytes x @ settings_bytes xs @ 0 # rest"
  have ok: "setting_ok x" using Cons.prems by simp
  then have n: "unat (of_nat (length n) :: u8) = length n" "(of_nat (length n) :: u8) \<noteq> 0"
    using x by (auto simp: setting_ok_def unat_of_nat word_unat_eq_iff)
  have at: "blob_at ?b (length as) = Some (of_nat (length n))" by (simp add: x setting_bytes_def)
  have nx: "next_setting ?b (length as) = Some (length as + length (setting_bytes x))"
    by (rule next_setting_here [OF ok])
  have b: "?b = (as @ of_nat (length n) # n) @ t # value_bytes t d @ settings_bytes xs @ 0 # rest"
    by (simp add: x setting_bytes_def)
  have p: "length (as @ of_nat (length n) # n) = length as + 1 + length n"
    "length as + length (setting_bytes x) = length as + 1 + length n + 1 + length (value_bytes t d)"
    by (simp_all add: x setting_bytes_def)
  have t: "?b ! (length as + 1 + length n) = t"
    using nth_append_length [of "as @ of_nat (length n) # n" t "value_bytes t d @ settings_bytes xs @ 0 # rest"]
    unfolding b p(1) .
  have d: "payload ?b (length as + 1 + length n) (length as + length (setting_bytes x)) = d"
    using payload_here [of "as @ of_nat (length n) # n" t d "settings_bytes xs @ 0 # rest"] unfolding b p .
  have "take (length n) (drop (length as + 1) ?b) = n" by (simp add: x setting_bytes_def)
  moreover have "decode_blob ?b (length as + length (setting_bytes x)) = xs"
    using Cons.IH [of "as @ setting_bytes x"] Cons.prems by simp
  ultimately have "decode_blob ?b (length as) = x # xs"
    using n t d by (simp only: decode_blob.simps [of ?b "length as"] at nx) (simp add: Let_def x)
  then show ?case by simp
qed

lemma settings_in_rep: "blob_rep b xs \<Longrightarrow> settings_in b = xs"
  using decode_blob_here [of xs "[]"] by (auto simp: blob_rep_def settings_in_def)

section \<open>Changing a blob\<close>

lemma blob_append:
  assumes "blob_rep b xs" and "setting_ok x" and "fst x \<notin> fst ` set xs"
    and "length (settings_bytes xs) + length (setting_bytes x) + 1 \<le> length b"
  shows "blob_rep (take (length (settings_bytes xs)) b @ (setting_bytes x @ [0]) @
    drop (length (settings_bytes xs) + length (setting_bytes x @ [0])) b) (xs @ [x])"
proof -
  obtain rest where "b = settings_bytes xs @ 0 # rest" using assms(1) by (auto simp: blob_rep_def)
  then show ?thesis using assms(1-3) by (auto simp: blob_rep_def)
qed

lemma blob_more: "blob_rep b xs \<Longrightarrow> blob_rep (b @ bs) xs"
  by (auto simp: blob_rep_def)

lemma blob_empty: "0 < n \<Longrightarrow> blob_rep (replicate n 0) []"
  by (cases n) (simp_all add: blob_rep_def)

lemma blob_cut:
  assumes "b = settings_bytes as @ setting_bytes x @ settings_bytes bs @ 0 # rest"
    and "\<forall>y \<in> set (as @ bs). setting_ok y" and "distinct (map fst (as @ bs))"
  shows "blob_rep (cut_blob raw ofs b (length (settings_bytes as)) (length (setting_bytes x))
    (length (settings_bytes as) + length (setting_bytes x) + length (settings_bytes bs))) (as @ bs)"
proof -
  obtain rest' where "cut_blob raw ofs b (length (settings_bytes as)) (length (setting_bytes x))
      (length (settings_bytes as) + length (setting_bytes x) + length (settings_bytes bs)) =
      settings_bytes as @ settings_bytes bs @ 0 # rest'"
    using cut_blob_here [OF assms(1), of raw ofs] .
  then show ?thesis using assms(2,3) by (auto simp: blob_rep_def)
qed

section \<open>Writing into a group\<close>

lemma space_bounds: "space_ok h e \<Longrightarrow> h x = Some v \<Longrightarrow> size_header \<le> x \<and> x + obj_size v \<le> e"
  by (simp add: space_ok_def)

lemma ReMap_inside:
  assumes "0 < m_ChunkSize s" and "m_dwFileSize s < x" and "x \<le> file_end s"
  obtains k where "ReMap s (x - m_dwFileSize s) = Some (s\<lparr>m_dwFileSize := k\<rparr>)"
proof (cases "m_ChunkSize s < x - m_dwFileSize s")
  case True
  then show ?thesis using assms that by (simp add: ReMap_def Let_def)
next
  case False
  then show ?thesis using assms that by (simp add: ReMap_def Let_def)
qed

lemma write_parts_total:
  assumes "space s" and "0 < m_ChunkSize s" and "m_objs s x = Some (ObjSettings g)"
    and "i + length (concat parts) \<le> length (st_blob g)"
  obtains k where "write_parts s x i parts = Some (s\<lparr>m_dwFileSize := k, m_objs := (m_objs s)(x \<mapsto>
    ObjSettings (g\<lparr>st_blob := take i (st_blob g) @ concat parts @ drop (i + length (concat parts)) (st_blob g)\<rparr>))\<rparr>)"
proof -
  have "\<exists>k. write_parts s x i parts = Some (s\<lparr>m_dwFileSize := k, m_objs := (m_objs s)(x \<mapsto>
    ObjSettings (g\<lparr>st_blob := take i (st_blob g) @ concat parts @ drop (i + length (concat parts)) (st_blob g)\<rparr>))\<rparr>)"
    using assms
  proof (induction parts arbitrary: s g i)
    case Nil
    have "s\<lparr>m_dwFileSize := m_dwFileSize s, m_objs := m_objs s\<rparr> = s" by simp
    moreover have "(m_objs s)(x \<mapsto> ObjSettings g) = m_objs s" using Nil.prems(3) by auto
    ultimately show ?case by (intro exI [of _ "m_dwFileSize s"]) simp
  next
    case (Cons p parts)
    have x: "0 < x" "x + size_settings + int (length (st_blob g)) \<le> file_end s"
      using space_inside [OF Cons.prems(1,3)] space_bounds [OF Cons.prems(1,3)] by simp_all
    let ?fin = "x + size_settings + int (i + length p)"
    let ?g = "g\<lparr>st_blob := take i (st_blob g) @ p @ drop (i + length p) (st_blob g)\<rparr>"
    have len: "i + length p \<le> length (st_blob g)" using Cons.prems(4) by simp
    then have e: "?fin \<le> file_end s" using x(2) by linarith
    obtain k where k: "(if ?fin > m_dwFileSize s then ReMap s (?fin - m_dwFileSize s) else Some s) = Some (s\<lparr>m_dwFileSize := k\<rparr>)"
    proof (cases "?fin > m_dwFileSize s")
      case True
      obtain k where "ReMap s (?fin - m_dwFileSize s) = Some (s\<lparr>m_dwFileSize := k\<rparr>)"
        using ReMap_inside [OF Cons.prems(2) True e] .
      then show ?thesis using that True by simp
    qed (use that [of "m_dwFileSize s"] in simp)
    let ?s = "s\<lparr>m_dwFileSize := k, m_objs := (m_objs s)(x \<mapsto> ObjSettings ?g)\<rparr>"
    have w: "DBWrite_blob s x i p = Some ?s"
    proof -
      have "DBRead_settings s x = Some g" using Cons.prems(3) x(1) by (simp add: DBRead_settings_def)
      then show ?thesis unfolding DBWrite_blob_def Let_def using len k by (simp add: DBWrite_def del: of_nat_add)
    qed
    have "space ?s"
      using space_cong [of "(m_objs s)(x \<mapsto> ObjSettings ?g)" "m_objs s" "file_end s"] Cons.prems(1,3) len by simp
    moreover have "m_objs ?s x = Some (ObjSettings ?g)" "0 < m_ChunkSize ?s" using Cons.prems(2) by simp_all
    moreover have "i + length p + length (concat parts) \<le> length (st_blob ?g)" using Cons.prems(4) len by simp
    ultimately obtain k' where k': "write_parts ?s x (i + length p) parts = Some (?s\<lparr>m_dwFileSize := k', m_objs := (m_objs ?s)(x \<mapsto>
        ObjSettings (?g\<lparr>st_blob := take (i + length p) (st_blob ?g) @ concat parts @
          drop (i + length p + length (concat parts)) (st_blob ?g)\<rparr>))\<rparr>)"
      using Cons.IH [of ?s ?g "i + length p"] by blast
    have "take (i + length p) (st_blob ?g) @ concat parts @ drop (i + length p + length (concat parts)) (st_blob ?g) =
        take i (st_blob g) @ concat (p # parts) @ drop (i + length (concat (p # parts))) (st_blob g)"
      using len by (simp add: ac_simps)
    then show ?case using w k' by (intro exI [of _ k']) (simp del: fun_upd_apply)
  qed
  then show ?thesis using that by blast
qed

text \<open>The state with another blob of the same size in a group.\<close>

lemma set_blob_base:
  assumes "base_ok s" and "m_objs s x = Some (ObjSettings g)" and "length b = length (st_blob g)"
  shows "base_ok (s\<lparr>m_dwFileSize := k, m_objs := (m_objs s)(x \<mapsto> ObjSettings (g\<lparr>st_blob := b\<rparr>))\<rparr>)"
    and "same_but_space s (s\<lparr>m_dwFileSize := k, m_objs := (m_objs s)(x \<mapsto> ObjSettings (g\<lparr>st_blob := b\<rparr>))\<rparr>)"
proof -
  let ?h = "(m_objs s)(x \<mapsto> ObjSettings (g\<lparr>st_blob := b\<rparr>))"
  have "space_ok ?h (file_end s)"
    using space_cong [of ?h "m_objs s" "file_end s"] assms by (simp add: base_ok_def)
  moreover have "names ?h = names (m_objs s)" using assms(2) by (intro names_cong) auto
  ultimately show "base_ok (s\<lparr>m_dwFileSize := k, m_objs := ?h\<rparr>)" using assms(1) by (simp add: base_ok_def mods_ok_def)
  show "same_but_space s (s\<lparr>m_dwFileSize := k, m_objs := ?h\<rparr>)" by (simp add: same_but_space_def)
qed

section \<open>The groups of a contact\<close>

lemma find_group_chain:
  assumes "settings_chain (m_objs s) f gs" and "space s"
  shows "GetSettingsGroupOfsByModuleNameOfs s mo f =
    Some (case find (\<lambda>g. module_of g = mo) gs of None \<Rightarrow> 0 | Some g \<Rightarrow> fst g)"
  using assms(1)
proof (induction gs arbitrary: f)
  case Nil
  then show ?case by (simp add: GetSettingsGroupOfsByModuleNameOfs.simps)
next
  case (Cons g gs)
  then have g: "f = fst g" "m_objs s f = Some (ObjSettings (snd g))" "settings_chain (m_objs s) (st_ofsNext (snd g)) gs"
    by auto
  have "0 < f" using space_inside [OF assms(2) g(2)] by simp
  then show ?case
    using g Cons.IH [OF g(3)] by (subst GetSettingsGroupOfsByModuleNameOfs.simps) (simp add: DBRead_settings_def)
qed

lemma group_before_chain:
  assumes "settings_chain (m_objs s) f (as @ p # x # bs)" and "distinct (map fst (as @ p # x # bs))" and "space s"
  shows "group_before s (fst x) f = Some (fst p)"
  using assms(1,2)
proof (induction as arbitrary: f)
  case Nil
  have p: "m_objs s (fst p) = Some (ObjSettings (snd p))" using Nil.prems(1) by auto
  then have "0 < fst p" using space_inside [OF assms(3) p] by simp
  then show ?case using Nil.prems(1) p by (subst group_before.simps) (simp add: DBRead_settings_def)
next
  case (Cons a as)
  have a: "f = fst a" "m_objs s f = Some (ObjSettings (snd a))" "settings_chain (m_objs s) (st_ofsNext (snd a)) (as @ p # x # bs)"
    using Cons.prems(1) by auto
  have "0 < f" using space_inside [OF assms(3) a(2)] by simp
  moreover have nx: "st_ofsNext (snd a) \<in> fst ` set (as @ p # bs) \<and> st_ofsNext (snd a) \<noteq> 0 \<and> st_ofsNext (snd a) \<noteq> fst x"
  proof -
    obtain y where y: "y \<in> set (as @ [p])" "st_ofsNext (snd a) = fst y" using a(3) by (cases as) auto
    then have "m_objs s (fst y) = Some (ObjSettings (snd y))" using settings_chain_object [OF a(3), of y] by auto
    then have "0 < fst y" using space_inside [OF assms(3)] by blast
    moreover have "fst x \<notin> fst ` set (as @ [p])" using Cons.prems(2) by simp
    then have "fst y \<noteq> fst x" using y(1) by (metis imageI)
    ultimately show ?thesis using y by auto
  qed
  ultimately show ?case
    using a(2) Cons.IH [OF a(3)] Cons.prems(2) by (subst group_before.simps) (simp add: DBRead_settings_def)
qed

text \<open>A group object at another place or with another blob, and the link to it from the group before.\<close>

definition relink :: "group list \<Rightarrow> int \<Rightarrow> group list" where
  "relink as x = (if as = [] then [] else butlast as @ [(fst (last as), (snd (last as))\<lparr>st_ofsNext := x\<rparr>)])"

lemma relink_fst [simp]: "map fst (relink as x) = map fst as"
  by (cases as rule: rev_cases) (simp_all add: relink_def)

lemma relink_set [simp]: "fst ` set (relink as x) = fst ` set as"
  by (metis relink_fst set_map)

lemma settings_chain_relink:
  assumes "settings_chain h f (as @ (x, g) # bs)"
    and "\<And>y. y \<in> fst ` set (butlast as) \<union> fst ` set bs \<Longrightarrow> h' y = h y"
    and "h' x' = Some (ObjSettings (g\<lparr>st_blob := b\<rparr>))"
    and "as \<noteq> [] \<Longrightarrow> h' (fst (last as)) = Some (ObjSettings ((snd (last as))\<lparr>st_ofsNext := x'\<rparr>))"
  shows "settings_chain h' (if as = [] then x' else f) (relink as x' @ (x', g\<lparr>st_blob := b\<rparr>) # bs)"
proof -
  have tail: "settings_chain h' n bs" if "settings_chain h n bs" for n
    using that assms(2) by (subst settings_chain_cong [of bs h' h]) auto
  have "settings_chain h' f (ps @ (fst p, (snd p)\<lparr>st_ofsNext := x'\<rparr>) # (x', g\<lparr>st_blob := b\<rparr>) # bs)"
    if "settings_chain h f (ps @ p # (x, g) # bs)" "\<And>y. y \<in> fst ` set ps \<Longrightarrow> h' y = h y"
      "h' (fst p) = Some (ObjSettings ((snd p)\<lparr>st_ofsNext := x'\<rparr>))" for ps p f
    using that
  proof (induction ps arbitrary: f)
    case Nil
    then show ?case using assms(3) tail by auto
  qed auto
  then show ?thesis
    using assms tail by (cases as rule: rev_cases) (auto simp: relink_def)
qed

definition view :: "group list \<Rightarrow> (int \<times> setting list) list" where
  "view gs = map (\<lambda>g. (module_of g, settings_in (st_blob (snd g)))) gs"

lemma view_simps [simp]:
  "view [] = []" "view (g # gs) = (module_of g, settings_in (st_blob (snd g))) # view gs" "view (as @ bs) = view as @ view bs"
  "map fst (view gs) = map module_of gs"
  by (simp_all add: view_def)

lemma view_relink [simp]: "view (relink as x) = view as"
  by (cases as rule: rev_cases) (simp_all add: relink_def)

definition blobs_ok :: "group list \<Rightarrow> bool" where
  "blobs_ok gs \<longleftrightarrow> (\<forall>g \<in> set gs. \<exists>xs. blob_rep (st_blob (snd g)) xs)"

lemma blobs_ok_simps [simp]:
  "blobs_ok []" "blobs_ok (g # gs) \<longleftrightarrow> (\<exists>xs. blob_rep (st_blob (snd g)) xs) \<and> blobs_ok gs"
  "blobs_ok (as @ bs) \<longleftrightarrow> blobs_ok as \<and> blobs_ok bs"
  by (auto simp: blobs_ok_def)

lemma blobs_ok_relink [simp]: "blobs_ok (relink as x) = blobs_ok as"
  by (cases as rule: rev_cases) (auto simp: relink_def)

end
