(* ===== verification/DbGroupOps.thy ===== *)
theory DbGroupOps imports DbWrite begin

text \<open>The steps of the operations on settings, each with what it leaves of the groups and of everything else.\<close>

definition groups_at :: "CDb3Mmap \<Rightarrow> int \<Rightarrow> DBContact \<Rightarrow> group list \<Rightarrow> bool" where
  "groups_at s ofs c gs \<longleftrightarrow>
     base_ok s \<and> m_objs s ofs = Some (ObjContact c) \<and> settings_chain (m_objs s) (dc_ofsFirstSettings c) gs \<and>
     distinct (map fst gs) \<and> blobs_ok gs"

text \<open>Objects other than the contact and its groups stay; new groups are put where there was nothing.\<close>

definition only_groups :: "(int \<Rightarrow> dbobj option) \<Rightarrow> (int \<Rightarrow> dbobj option) \<Rightarrow> int \<Rightarrow> int set \<Rightarrow> int set \<Rightarrow> bool" where
  "only_groups h h' ofs X X' \<longleftrightarrow>
     ofs \<notin> X \<and> ofs \<notin> X' \<and>
     (\<forall>y. y \<noteq> ofs \<longrightarrow> y \<notin> X \<longrightarrow> y \<notin> X' \<longrightarrow> h' y = h y) \<and>
     (\<forall>y \<in> X' - X. h y = None) \<and> (\<forall>y \<in> X - X'. h' y = None)"

definition groups_step ::
    "CDb3Mmap \<Rightarrow> CDb3Mmap \<Rightarrow> int \<Rightarrow> DBContact \<Rightarrow> DBContact \<Rightarrow> group list \<Rightarrow> group list \<Rightarrow> bool" where
  "groups_step s t ofs c c' gs gs' \<longleftrightarrow>
     groups_at t ofs c' gs' \<and> same_but_space s t \<and> (\<exists>f. c' = c\<lparr>dc_ofsFirstSettings := f\<rparr>) \<and>
     only_groups (m_objs s) (m_objs t) ofs (fst ` set gs) (fst ` set gs')"

lemma groups_atD:
  assumes "groups_at s ofs c gs"
  shows "base_ok s" "space s" "0 < m_ChunkSize s" "m_objs s ofs = Some (ObjContact c)"
    "settings_chain (m_objs s) (dc_ofsFirstSettings c) gs" "distinct (map fst gs)" "blobs_ok gs"
  using assms by (simp_all add: groups_at_def base_ok_def)

lemma groups_at_object: "groups_at s ofs c gs \<Longrightarrow> (x, g) \<in> set gs \<Longrightarrow> m_objs s x = Some (ObjSettings g) \<and> 0 < x"
  using settings_chain_object [OF groups_atD(5), of s ofs c gs "(x, g)"] space_inside [OF groups_atD(2)] by fastforce

lemma groups_at_contact: "groups_at s ofs c gs \<Longrightarrow> ofs \<notin> fst ` set gs"
  using groups_at_object [of s ofs c gs] groups_atD(4) [of s ofs c gs] by force

lemma groups_step_refl: "groups_at s ofs c gs \<Longrightarrow> groups_step s s ofs c c gs gs"
  using space.R_refl groups_at_contact [of s ofs c gs]
  by (auto simp: groups_step_def only_groups_def intro: exI [of _ "dc_ofsFirstSettings c"])

lemma only_groups_trans:
  assumes "only_groups h k ofs X Y" and "only_groups k l ofs Y Z"
  shows "only_groups h l ofs X Z"
proof -
  have 1: "y \<noteq> ofs \<Longrightarrow> y \<notin> X \<Longrightarrow> y \<notin> Y \<Longrightarrow> k y = h y" "y \<in> Y \<Longrightarrow> y \<notin> X \<Longrightarrow> h y = None"
    "y \<in> X \<Longrightarrow> y \<notin> Y \<Longrightarrow> k y = None" for y using assms(1) by (auto simp: only_groups_def)
  have 2: "y \<noteq> ofs \<Longrightarrow> y \<notin> Y \<Longrightarrow> y \<notin> Z \<Longrightarrow> l y = k y" "y \<in> Z \<Longrightarrow> y \<notin> Y \<Longrightarrow> k y = None"
    "y \<in> Y \<Longrightarrow> y \<notin> Z \<Longrightarrow> l y = None" for y using assms(2) by (auto simp: only_groups_def)
  show ?thesis
    unfolding only_groups_def
  proof (intro conjI allI impI ballI)
    show ofs: "ofs \<notin> X" "ofs \<notin> Z" using assms by (auto simp: only_groups_def)
  next
    fix y
    assume "y \<noteq> ofs" "y \<notin> X" "y \<notin> Z"
    then show "l y = h y" using 1(1,2) [of y] 2(1,3) [of y] by (cases "y \<in> Y") simp_all
  next
    fix y
    assume y: "y \<in> Z - X"
    then have "y \<noteq> ofs" using assms(2) by (auto simp: only_groups_def)
    then show "h y = None" using y 1(1,2) [of y] 2(2) [of y] by (cases "y \<in> Y") auto
  next
    fix y
    assume y: "y \<in> X - Z"
    then have "y \<noteq> ofs" using assms(1) by (auto simp: only_groups_def)
    then show "l y = None" using y 1(3) [of y] 2(1,3) [of y] by (cases "y \<in> Y") auto
  qed
qed

lemma groups_step_trans:
  "groups_step s t ofs c c1 gs gs1 \<Longrightarrow> groups_step t u ofs c1 c2 gs1 gs2 \<Longrightarrow> groups_step s u ofs c c2 gs gs2"
  using space.R_trans only_groups_trans unfolding groups_step_def by (force intro: only_groups_trans)

section \<open>The steps\<close>

lemma set_blob_step:
  assumes at: "groups_at s ofs c (as @ (x, g) # bs)" and b: "blob_rep b xs" "length b = length (st_blob g)"
  shows "groups_step s (s\<lparr>m_dwFileSize := k, m_objs := (m_objs s)(x \<mapsto> ObjSettings (g\<lparr>st_blob := b\<rparr>))\<rparr>)
    ofs c c (as @ (x, g) # bs) (as @ (x, g\<lparr>st_blob := b\<rparr>) # bs)"
proof -
  let ?t = "s\<lparr>m_dwFileSize := k, m_objs := (m_objs s)(x \<mapsto> ObjSettings (g\<lparr>st_blob := b\<rparr>))\<rparr>"
  note d = groups_atD [OF at]
  have x: "m_objs s x = Some (ObjSettings g)" using groups_at_object [OF at, of x g] by simp
  note base = set_blob_base [OF d(1) x b(2), of k]
  have nx: "x \<notin> fst ` set as" "x \<notin> fst ` set bs" "ofs \<noteq> x" using d(6) x d(4) by auto
  have "settings_chain (m_objs ?t) (dc_ofsFirstSettings c) (as @ (x, g\<lparr>st_blob := b\<rparr>) # bs)"
  proof -
    have "settings_chain h' f (as @ (x, g\<lparr>st_blob := b\<rparr>) # bs)"
      if "settings_chain h f (as @ (x, g) # bs)" "x \<notin> fst ` set as" "x \<notin> fst ` set bs"
        "h' = h(x \<mapsto> ObjSettings (g\<lparr>st_blob := b\<rparr>))" for h h' f
      using that
    proof (induction as arbitrary: f)
      case Nil
      then show ?case using settings_chain_cong [of bs h' h] by force
    qed auto
    then show ?thesis using d(5) nx by simp
  qed
  then have "groups_at ?t ofs c (as @ (x, g\<lparr>st_blob := b\<rparr>) # bs)"
    using d(4,6,7) base(1) nx(3) b(1) unfolding groups_at_def by auto
  moreover have "only_groups (m_objs s) (m_objs ?t) ofs (fst ` set (as @ (x, g) # bs)) (fst ` set (as @ (x, g\<lparr>st_blob := b\<rparr>) # bs))"
    using groups_at_contact [OF at] unfolding only_groups_def by auto
  moreover have "\<exists>f. c = c\<lparr>dc_ofsFirstSettings := f\<rparr>" by (rule exI [of _ "dc_ofsFirstSettings c"]) simp
  ultimately show ?thesis using base(2) by (simp add: groups_step_def)
qed

lemma names_other:
  assumes "h x = None \<or> (\<exists>v. h x = Some v \<and> (\<forall>m. v \<noteq> ObjModule m))" and "\<forall>m. w \<noteq> Some (ObjModule m)"
  shows "names (h(x := w)) = names h"
  using assms by (intro names_cong) auto

lemma base_ok_put:
  assumes "base_ok s" and "free_at (m_objs s) x (obj_size v)" and "size_header \<le> x" and "x + obj_size v \<le> file_end s"
    and "\<forall>m. v \<noteq> ObjModule m" and "m_objs s x = None"
  shows "base_ok (s\<lparr>m_objs := (m_objs s)(x \<mapsto> v)\<rparr>)"
  using assms space_put [of "m_objs s" "file_end s" x v] names_other [of "m_objs s" x "Some v"]
  by (simp add: base_ok_def mods_ok_def)

text \<open>Another object of the same size.\<close>

lemma free_at_same:
  assumes "free_at h x n" and "h y = Some v" and "obj_size v' = obj_size v"
  shows "free_at (h(y \<mapsto> v')) x n"
  unfolding free_at_def
proof (intro allI impI)
  fix z w
  assume "(h(y \<mapsto> v')) z = Some w"
  then obtain w' where "h z = Some w'" "obj_size w' = obj_size w" using assms(2,3) by (cases "z = y") auto
  then show "z + obj_size w \<le> x \<or> x + n \<le> z" using assms(1) unfolding free_at_def by metis
qed

lemma base_ok_same:
  assumes "base_ok s" and "m_objs s x = Some v" and "obj_size v' = obj_size v"
    and "\<forall>m. v \<noteq> ObjModule m" and "\<forall>m. v' \<noteq> ObjModule m"
  shows "base_ok (s\<lparr>m_objs := (m_objs s)(x \<mapsto> v')\<rparr>)"
  using assms space_cong [of "(m_objs s)(x \<mapsto> v')" "m_objs s" "file_end s"] names_other [of "m_objs s" x "Some v'"]
  by (simp add: base_ok_def mods_ok_def)

lemma new_group_step:
  assumes at: "groups_at s ofs c gs" and room: "file_end s + int (round_up n) + size_settings < 4294967296" and n: "0 < n"
  obtains t c' where "new_group s ofs c mo n = Some (file_end s, c', t)"
    and "groups_step s t ofs c c' gs ((file_end s,
      \<lparr>st_ofsNext = dc_ofsFirstSettings c, st_ofsModuleName = mo, st_blob = replicate (round_up n) 0\<rparr>) # gs)"
    and "file_end t = file_end s + int (round_up n) + size_settings"
proof -
  let ?x = "file_end s" and ?n = "int (round_up n) + size_settings"
  let ?g = "\<lparr>st_ofsNext = dc_ofsFirstSettings c, st_ofsModuleName = mo, st_blob = replicate (round_up n) 0\<rparr>"
  let ?c = "c\<lparr>dc_ofsFirstSettings := ?x\<rparr>"
  note d = groups_atD [OF at]
  have r: "0 \<le> ?n" "file_end s + ?n < 4294967296" using room by (simp_all add: size_defs)
  obtain s1 where s1: "CreateNewSpace s ?n = Some (?x, s1)" "base_ok s1" "same_but_space s s1" "m_objs s1 = m_objs s"
    "file_end s1 = ?x + ?n"
    using table_room [OF d(1) r] .
  let ?s2 = "s1\<lparr>m_objs := (m_objs s1)(ofs \<mapsto> ObjContact ?c)\<rparr>"
  let ?t = "?s2\<lparr>m_objs := (m_objs ?s2)(?x \<mapsto> ObjSettings ?g)\<rparr>"
  have x: "m_objs s ?x = None" "?x \<noteq> ofs" "0 < ?x" "size_header \<le> ?x"
    using space_end_free(1) [OF d(2)] d(2,4) by (auto simp: space_ok_def size_defs)
  have xg: "?x \<notin> fst ` set gs" using groups_at_object [OF at] x(1) by force
  have "base_ok ?s2" using base_ok_same [OF s1(2)] d(4) s1(4) by simp
  moreover have "free_at (m_objs s) ?x ?n" by (rule space_end_free(2) [OF d(2)]) simp
  then have "free_at (m_objs ?s2) ?x ?n" using free_at_same [of "m_objs s" ?x ?n ofs "ObjContact c" "ObjContact ?c"] d(4) s1(4) by simp
  ultimately have base: "base_ok ?t"
    using x s1(4,5) base_ok_put [of ?s2 ?x "ObjSettings ?g"] by (simp add: add.commute)
  have "settings_chain (m_objs ?t) (dc_ofsFirstSettings c) gs"
  proof -
    have "m_objs ?t y = m_objs s y" if "y \<in> fst ` set gs" for y
      using that xg groups_at_contact [OF at] s1(4) by (cases "y = ?x") auto
    then show ?thesis using d(5) settings_chain_cong [of gs "m_objs ?t" "m_objs s"] by simp
  qed
  then have "groups_at ?t ofs ?c ((?x, ?g) # gs)"
    using base x xg d(6,7) blob_empty [of "round_up n"] n by (auto simp: groups_at_def round_up_def)
  moreover have "only_groups (m_objs s) (m_objs ?t) ofs (fst ` set gs) (fst ` set ((?x, ?g) # gs))"
    using groups_at_contact [OF at] x s1(4) by (auto simp: only_groups_def)
  moreover have "same_but_space s ?t" using s1(3) by (simp add: same_but_space_def)
  ultimately have "groups_step s ?t ofs c ?c gs ((?x, ?g) # gs)" by (auto simp: groups_step_def)
  moreover have "new_group s ofs c mo n = Some (?x, ?c, ?t)"
    using s1(1) by (simp add: new_group_def Let_def DBWrite_def)
  ultimately show ?thesis using that s1(5) by simp
qed

text \<open>More room for a group, where it is or at the end of the file.\<close>

lemma ReallocSpace_spec:
  assumes base: "base_ok s" and x: "m_objs s x = Some (ObjSettings g)" and len: "length (st_blob g) < n"
    and room: "file_end s + int n + size_settings < 4294967296"
  obtains x' t where
    "ReallocSpace s x (int (length (st_blob g)) + size_settings) (int n + size_settings) = Some (x', t)"
    and "\<And>w. length (st_blob w) = n \<Longrightarrow> base_ok (t\<lparr>m_objs := (m_objs s)(x := None, x' \<mapsto> ObjSettings w)\<rparr>)"
    and "\<And>v. (m_objs t)(x' \<mapsto> v) = (m_objs s)(x := None, x' \<mapsto> v)"
    and "same_but_space s t" and "x' = x \<or> x' = file_end s" and "file_end t \<le> file_end s + int n + size_settings"
proof (cases "x + (int (length (st_blob g)) + size_settings) = file_end s")
  case True
  have sp: "space s" "mods_ok s" "0 < m_ChunkSize s" "\<not> m_bReadOnly s" using base by (auto simp: base_ok_def)
  let ?d = "int n - int (length (st_blob g))"
  let ?t = "put_header s (dh_ofsFileEnd_update (\<lambda>e. e + ?d))"
  have t: "file_end ?t = file_end s + ?d" "m_objs ?t = m_objs s" "same_but_space s ?t" "m_lMods ?t = m_lMods s"
    "m_lOfs ?t = m_lOfs s" "m_lastmn ?t = m_lastmn s" "m_ChunkSize ?t = m_ChunkSize s" "m_bReadOnly ?t = m_bReadOnly s"
    by (simp_all add: put_header_def same_but_space_def)
  have "ReallocSpace s x (int (length (st_blob g)) + size_settings) (int n + size_settings) = Some (x, ?t)"
    using True len room by (simp add: ReallocSpace_def size_defs)
  moreover have "base_ok (?t\<lparr>m_objs := (m_objs s)(x := None, x \<mapsto> ObjSettings w)\<rparr>)" if w: "length (st_blob w) = n" for w
  proof -
    let ?h = "(m_objs s)(x := None)"
    have bnd: "size_header \<le> x" "x + obj_size (ObjSettings w) = file_end ?t" using space_bounds [OF sp(1) x] True w by (simp_all add: t(1))
    have "space_ok ?h (file_end ?t)"
      using space_more [OF space_del [OF sp(1)], of "file_end ?t" x] len room t(1) by (simp add: size_defs)
    moreover have "free_at ?h x (obj_size (ObjSettings w))"
      unfolding free_at_def
    proof (intro allI impI)
      fix y v
      assume "?h y = Some v"
      then have y: "y \<noteq> x" "m_objs s y = Some v" by (auto split: if_splits)
      then have "y + obj_size v \<le> x \<or> x + obj_size (ObjSettings g) \<le> y"
        using sp(1) x unfolding space_ok_def by (cases "y < x") force+
      moreover have "y < file_end s" using space_inside [OF sp(1) y(2)] by simp
      ultimately show "y + obj_size v \<le> x \<or> x + obj_size (ObjSettings w) \<le> y" using True by simp
    qed
    ultimately have "space_ok (?h(x \<mapsto> ObjSettings w)) (file_end ?t)" using bnd by (intro space_put) simp_all
    moreover have "names ((m_objs s)(x \<mapsto> ObjSettings w)) = names (m_objs s)" using x by (intro names_other) auto
    ultimately show ?thesis using sp t by (simp add: base_ok_def mods_ok_def)
  qed
  ultimately show ?thesis using that t len by (simp add: size_defs)
next
  case False
  have sp: "space s" using base by (simp add: base_ok_def)
  let ?x = "file_end s" and ?n = "int n + size_settings" and ?o = "int (length (st_blob g)) + size_settings"
  have r: "0 \<le> ?n" "?x + ?n < 4294967296" using room by (simp_all add: size_defs)
  obtain t where t: "CreateNewSpace s ?n = Some (?x, t)" "base_ok t" "same_but_space s t" "m_objs t = m_objs s" "file_end t = ?x + ?n"
    using table_room [OF base r] .
  have xx: "x \<noteq> ?x" "x + ?o < file_end t" using space_bounds [OF sp x] len t(5) by (simp_all add: size_defs)
  let ?u = "DeleteSpace (t\<lparr>m_objs := (m_objs t)(?x := m_objs t x)\<rparr>) x ?o"
  have u: "file_end ?u = file_end t" "m_objs ?u = (m_objs s)(?x := m_objs s x, x := None)" "same_but_space t ?u" "m_lMods ?u = m_lMods t"
    "m_lOfs ?u = m_lOfs t" "m_lastmn ?u = m_lastmn t" "m_ChunkSize ?u = m_ChunkSize t" "m_bReadOnly ?u = m_bReadOnly t"
    using xx t(4) by (simp_all add: DeleteSpace_def Let_def put_header_def same_but_space_def)
  have "ReallocSpace s x ?o ?n = Some (?x, ?u)" using False len t(1) by (simp add: ReallocSpace_def)
  moreover have "(m_objs ?u)(?x \<mapsto> v) = (m_objs s)(x := None, ?x \<mapsto> v)" for v unfolding u(2) using xx by (auto simp: fun_eq_iff)
  moreover have "base_ok (?u\<lparr>m_objs := (m_objs s)(x := None, ?x \<mapsto> ObjSettings w)\<rparr>)" if w: "length (st_blob w) = n" for w
  proof -
    let ?h = "(m_objs s)(x := None)"
    have h: "space_ok ?h ?x" by (rule space_del [OF sp])
    have "space_ok ?h (file_end t)" using space_more [OF h, of "file_end t"] r t(5) by simp
    moreover have "free_at ?h ?x (obj_size (ObjSettings w))" by (rule space_end_free(2) [OF h]) simp
    ultimately have "space_ok (?h(?x \<mapsto> ObjSettings w)) (file_end ?u)"
      using sp w u(1) t(5) by (intro space_put) (simp_all add: space_ok_def)
    moreover have "names (?h(?x \<mapsto> ObjSettings w)) = names (m_objs s)"
      using x space_end_free(1) [OF sp] names_other [of "m_objs s" x None] names_other [of ?h ?x "Some (ObjSettings w)"] xx by simp
    ultimately show ?thesis using t(2,4) u by (simp add: base_ok_def mods_ok_def)
  qed
  moreover have "same_but_space s ?u" using t(3) u(3) by (rule space.R_trans)
  moreover have "file_end ?u \<le> file_end s + int n + size_settings" using u(1) t(5) by simp
  ultimately show ?thesis using that by blast
qed

lemma move_group_step:
  assumes at: "groups_at s ofs c (as @ (x, g) # bs)" and len: "length (st_blob g) < n"
    and room: "file_end s + int n + size_settings < 4294967296"
  defines "b \<equiv> st_blob g @ replicate (n - length (st_blob g)) 0"
  obtains x' c' t where "move_group s ofs c x g n = Some (x', t)"
    and "groups_step s t ofs c c' (as @ (x, g) # bs) (relink as x' @ (x', g\<lparr>st_blob := b\<rparr>) # bs)"
    and "file_end t \<le> file_end s + int n + size_settings"
proof -
  let ?w = "g\<lparr>st_blob := b\<rparr>"
  note d = groups_atD [OF at]
  have x: "m_objs s x = Some (ObjSettings g)" "0 < x" using groups_at_object [OF at, of x g] by simp_all
  have w: "length (st_blob ?w) = n" using len by (simp add: b_def)
  obtain x' u where u: "ReallocSpace s x (int (length (st_blob g)) + size_settings) (int n + size_settings) = Some (x', u)"
    "base_ok (u\<lparr>m_objs := (m_objs s)(x := None, x' \<mapsto> ObjSettings ?w)\<rparr>)"
    "(m_objs u)(x' \<mapsto> ObjSettings ?w) = (m_objs s)(x := None, x' \<mapsto> ObjSettings ?w)"
    "same_but_space s u" "x' = x \<or> x' = file_end s" "file_end u \<le> file_end s + int n + size_settings"
    using ReallocSpace_spec [OF d(1) x(1) len room] w by metis
  define h where "h = (m_objs s)(x := None, x' \<mapsto> ObjSettings ?w)"
  let ?u = "u\<lparr>m_objs := h\<rparr>"
  have new: "x' \<notin> fst ` set (as @ bs)" "x' \<noteq> ofs" "x \<noteq> ofs"
  proof -
    have "m_objs s (file_end s) = None" by (rule space_end_free(1) [OF d(2)])
    then have "file_end s \<notin> fst ` set (as @ bs)" "file_end s \<noteq> ofs" using groups_at_object [OF at] d(4) by force+
    moreover have "x \<notin> fst ` set (as @ bs)" "x \<noteq> ofs" using d(6) groups_at_contact [OF at] by auto
    ultimately show "x' \<notin> fst ` set (as @ bs)" "x' \<noteq> ofs" "x \<noteq> ofs" using u(5) by metis+
  qed
  have hy: "h y = m_objs s y" if "y \<noteq> x" "y \<noteq> x'" for y using that by (simp add: h_def)
  have hofs: "h ofs = Some (ObjContact c)" using new d(4) hy [of ofs] by simp
  have ubase: "base_ok ?u" using u(2) by (simp add: h_def)
  have ux: "DBWrite u x' (ObjSettings ?w) = ?u" using u(3) by (simp add: DBWrite_def h_def)
  have dist: "distinct (map fst (relink as x' @ (x', ?w) # bs))" using d(6) new by auto
  have blobs: "blobs_ok (relink as x' @ (x', ?w) # bs)" using d(7) blob_more unfolding b_def by fastforce
  have tail: "h y = m_objs s y" if "y \<in> fst ` set as \<union> fst ` set bs" for y using hy [of y] that new d(6) by auto
  have only: "only_groups (m_objs s) h' ofs (fst ` set (as @ (x, g) # bs)) (fst ` set (relink as x' @ (x', ?w) # bs))"
    if "\<And>y. y \<notin> fst ` set as \<Longrightarrow> y \<noteq> ofs \<Longrightarrow> h' y = h y" for h'
  proof -
    have "x' \<noteq> x \<Longrightarrow> h' x = None" using that [of x] new d(6) by (simp add: h_def)
    moreover have "x' \<noteq> x \<Longrightarrow> m_objs s x' = None" using u(5) space_end_free(1) [OF d(2)] by auto
    ultimately show ?thesis
      using that hy new groups_at_contact [OF at] unfolding only_groups_def by (auto simp: image_Un)
  qed
  show ?thesis
  proof (cases as rule: rev_cases)
    case Nil
    let ?c = "c\<lparr>dc_ofsFirstSettings := x'\<rparr>"
    let ?t = "?u\<lparr>m_objs := h(ofs \<mapsto> ObjContact ?c)\<rparr>"
    have f: "dc_ofsFirstSettings c = x" using d(5) Nil by simp
    have "move_group s ofs c x g n = Some (x', ?t)"
      using f u(1) ux by (simp add: move_group_def b_def) (simp add: DBWrite_def)
    moreover have "base_ok ?t"
      using base_ok_same [OF ubase, of ofs "ObjContact c" "ObjContact ?c"] hofs by simp
    moreover have "settings_chain (m_objs ?t) x' (relink as x' @ (x', ?w) # bs)"
    proof -
      have "m_objs ?t z = m_objs s z" if "z \<in> fst ` set (butlast as) \<union> fst ` set bs" for z
        using that Nil tail [of z] groups_at_contact [OF at] by auto
      moreover have "m_objs ?t x' = Some (ObjSettings (g\<lparr>st_blob := b\<rparr>))" using new by (simp add: h_def)
      ultimately show ?thesis
        using settings_chain_relink [OF d(5), of "m_objs ?t" x' b] Nil by simp
    qed
    moreover have "only_groups (m_objs s) (m_objs ?t) ofs (fst ` set (as @ (x, g) # bs)) (fst ` set (relink as x' @ (x', ?w) # bs))"
      by (rule only) simp
    moreover have "same_but_space s ?t" using u(4) by (simp add: same_but_space_def)
    ultimately have "groups_step s ?t ofs c ?c (as @ (x, g) # bs) (relink as x' @ (x', ?w) # bs)"
      using dist blobs by (auto simp: groups_step_def groups_at_def)
    then show ?thesis using that u(6) \<open>move_group s ofs c x g n = Some (x', ?t)\<close> by simp
  next
    case (snoc ps p)
    obtain y q where p: "p = (y, q)" by (cases p)
    let ?q = "q\<lparr>st_ofsNext := x'\<rparr>"
    let ?t = "?u\<lparr>m_objs := h(y \<mapsto> ObjSettings ?q)\<rparr>"
    have at': "groups_at s ofs c (ps @ (y, q) # (x, g) # bs)" using at snoc p by simp
    note d' = groups_atD [OF at']
    have y: "m_objs s y = Some (ObjSettings q)" "0 < y" using groups_at_object [OF at', of y q] by simp_all
    have hyq: "h y = Some (ObjSettings q)" using tail [of y] y(1) snoc p by simp
    have ny: "y \<noteq> ofs" using d(4) y(1) by auto
    have f: "dc_ofsFirstSettings c \<noteq> x" using d'(5,6) by (cases ps) auto
    have "group_before s x (dc_ofsFirstSettings c) = Some y"
      using group_before_chain [of s _ ps "(y, q)" "(x, g)" bs, OF d'(5,6,2)] by simp
    then have mv: "move_group s ofs c x g n = Some (x', ?t)"
      using f u(1) ux y(2) hyq by (simp add: move_group_def b_def DBRead_settings_def) (simp add: DBWrite_def)
    moreover have "base_ok ?t"
      using base_ok_same [OF ubase, of y "ObjSettings q" "ObjSettings ?q"] hyq by simp
    moreover have "settings_chain (m_objs ?t) (dc_ofsFirstSettings c) (relink as x' @ (x', ?w) # bs)"
    proof -
      have "m_objs ?t z = m_objs s z" if "z \<in> fst ` set (butlast as) \<union> fst ` set bs" for z
        using that tail [of z] d'(6) snoc p by auto
      moreover have "m_objs ?t x' = Some (ObjSettings (g\<lparr>st_blob := b\<rparr>))" using new snoc p by (simp add: h_def)
      moreover have "m_objs ?t (fst (last as)) = Some (ObjSettings ((snd (last as))\<lparr>st_ofsNext := x'\<rparr>))" using snoc p by simp
      ultimately show ?thesis
        using settings_chain_relink [OF d(5), of "m_objs ?t" x' b] snoc by simp
    qed
    moreover have "only_groups (m_objs s) (m_objs ?t) ofs (fst ` set (as @ (x, g) # bs)) (fst ` set (relink as x' @ (x', ?w) # bs))"
      by (rule only) (use snoc p in auto)
    moreover have "same_but_space s ?t" using u(4) by (simp add: same_but_space_def)
    moreover have "m_objs ?t ofs = Some (ObjContact c)" using hofs ny by simp
    moreover have "\<exists>f. c = c\<lparr>dc_ofsFirstSettings := f\<rparr>" by (rule exI [of _ "dc_ofsFirstSettings c"]) simp
    ultimately have "groups_step s ?t ofs c c (as @ (x, g) # bs) (relink as x' @ (x', ?w) # bs)"
      using dist blobs unfolding groups_step_def groups_at_def by blast
    then show ?thesis using that u(6) mv by simp
  qed
qed

section \<open>A setting at the end of a group\<close>

lemma round_up_bounds: "n \<le> round_up n" "round_up n < n + 128"
  by (simp_all add: round_up_def DB_SETTINGS_RESIZE_GRANULARITY_def)

text \<open>The bytes that a setting of the name and the value takes, with the zero after it.\<close>

abbreviation need :: "bytes \<Rightarrow> DBVARIANT \<Rightarrow> nat" where
  "need name v \<equiv> value_size v + (2 + length name) + 1"

lemma append_setting_step:
  assumes at: "groups_at s ofs c (as @ (x, g) # bs)" and b: "blob_rep (st_blob g) xs"
    and new: "setting_ok (name, dv_type v, d)" "name \<notin> fst ` set xs"
    and v: "value_type (dv_type v)" "value_data v = Some d"
    and room: "file_end s + int (length (settings_bytes xs) + need name v + 128) + size_settings < 4294967296"
  obtains t c' gs where "append_setting s ofs c x (length (settings_bytes xs)) name v = Some t"
    and "groups_step s t ofs c c' (as @ (x, g) # bs) gs"
    and "view gs = view as @ (st_ofsModuleName g, xs @ [(name, dv_type v, d)]) # view bs"
    and "file_end t \<le> file_end s + int (length (settings_bytes xs) + need name v + 128) + size_settings"
proof -
  let ?i = "length (settings_bytes xs)"
  let ?y = "(name, dv_type v, d)"
  define r where "r = value_size v + (2 + length name) + (?i + 1)"
  have x: "m_objs s x = Some (ObjSettings g)" "0 < x" using groups_at_object [OF at, of x g] by simp_all
  obtain s1 c1 as1 x1 g1 where s1: "(if r > length (st_blob g) then move_group s ofs c x g (round_up r) else Some (x, s)) = Some (x1, s1)"
    and st: "groups_step s s1 ofs c c1 (as @ (x, g) # bs) (as1 @ (x1, g1) # bs)"
    and g1: "blob_rep (st_blob g1) xs" "r \<le> length (st_blob g1)" "view as1 = view as" "st_ofsModuleName g1 = st_ofsModuleName g"
    and e1: "file_end s1 \<le> file_end s + int (?i + need name v + 128) + size_settings"
  proof (cases "r > length (st_blob g)")
    case True
    then have len: "length (st_blob g) < round_up r" using round_up_bounds(1) [of r] by simp
    have e: "file_end s + int (round_up r) + size_settings < file_end s + int (?i + need name v + 128) + size_settings"
      using round_up_bounds(2) [of r] by (simp add: r_def)
    then have "file_end s + int (round_up r) + size_settings < 4294967296" using room by linarith
    then obtain x' c' t where t: "move_group s ofs c x g (round_up r) = Some (x', t)"
      "groups_step s t ofs c c' (as @ (x, g) # bs) (relink as x' @
        (x', g\<lparr>st_blob := st_blob g @ replicate (round_up r - length (st_blob g)) 0\<rparr>) # bs)"
      "file_end t \<le> file_end s + int (round_up r) + size_settings"
      using move_group_step [OF at len] by blast
    have "file_end t \<le> file_end s + int (?i + need name v + 128) + size_settings" using t(3) e by linarith
    then show ?thesis using that [OF _ t(2)] t(1) True blob_more [OF b] len round_up_bounds(1) [of r] by simp
  next
    case False
    then show ?thesis using that [OF _ groups_step_refl [OF at]] b by (simp add: size_defs)
  qed
  have at1: "groups_at s1 ofs c1 (as1 @ (x1, g1) # bs)" using st by (simp add: groups_step_def)
  note d1 = groups_atD [OF at1]
  have x1: "m_objs s1 x1 = Some (ObjSettings g1)" using groups_at_object [OF at1, of x1 g1] by simp
  obtain parts where parts: "value_parts v = Some parts" "concat parts = value_bytes (dv_type v) d"
    using value_data_ok(3) [OF v] by blast
  let ?ps = "[[of_nat (length name)], name, [dv_type v]] @ parts @ [[0]]"
  have ps: "concat ?ps = setting_bytes ?y @ [0]" using parts(2) by (simp add: setting_bytes_def)
  have len: "?i + length (setting_bytes ?y) + 1 \<le> length (st_blob g1)"
    using g1(2) value_data_ok(2) [OF v] by (simp add: r_def length_setting_bytes)
  define b' where "b' = take ?i (st_blob g1) @ (setting_bytes ?y @ [0]) @ drop (?i + length (setting_bytes ?y @ [0])) (st_blob g1)"
  have rep: "blob_rep b' (xs @ [?y])" using blob_append [OF g1(1) new(1)] new(2) len by (simp add: b'_def)
  have len': "length b' = length (st_blob g1)" using len by (simp add: b'_def)
  have "?i + length (concat ?ps) \<le> length (st_blob g1)" unfolding ps using len by simp
  then obtain k where "write_parts s1 x1 ?i ?ps = Some (s1\<lparr>m_dwFileSize := k, m_objs := (m_objs s1)(x1 \<mapsto>
      ObjSettings (g1\<lparr>st_blob := take ?i (st_blob g1) @ concat ?ps @ drop (?i + length (concat ?ps)) (st_blob g1)\<rparr>))\<rparr>)"
    using write_parts_total [OF d1(2,3) x1] by blast
  then have k: "write_parts s1 x1 ?i ?ps = Some (s1\<lparr>m_dwFileSize := k, m_objs := (m_objs s1)(x1 \<mapsto> ObjSettings (g1\<lparr>st_blob := b'\<rparr>))\<rparr>)"
    unfolding ps b'_def .
  let ?t = "s1\<lparr>m_dwFileSize := k, m_objs := (m_objs s1)(x1 \<mapsto> ObjSettings (g1\<lparr>st_blob := b'\<rparr>))\<rparr>"
  let ?gs = "as1 @ (x1, g1\<lparr>st_blob := b'\<rparr>) # bs"
  have "append_setting s ofs c x ?i name v = Some ?t"
    unfolding append_setting_def Let_def DBRead_settings_def r_def [symmetric]
    using x s1 parts(1) k by (simp del: append.simps split: if_splits)
  moreover have "groups_step s ?t ofs c c1 (as @ (x, g) # bs) ?gs"
    using groups_step_trans [OF st set_blob_step [OF at1 rep len']] .
  moreover have "view ?gs = view as @ (st_ofsModuleName g, xs @ [?y]) # view bs"
    using g1(3,4) settings_in_rep [OF rep] by simp
  ultimately show ?thesis using that e1 by simp
qed

section \<open>A setting taken out, or with another value\<close>

lemma cut_setting_step:
  assumes at: "groups_at s ofs c (as @ (x, g) # bs)"
    and b: "st_blob g = settings_bytes ps @ setting_bytes (name, ty, d) @ settings_bytes qs @ 0 # rest"
    and ok: "setting_ok (name, ty, d)" "\<forall>y \<in> set (ps @ qs). setting_ok y" "distinct (map fst (ps @ qs))"
  obtains g' where "cut_setting E s x (length (settings_bytes ps)) (length name) =
      Some (length (settings_bytes (ps @ qs)), s\<lparr>m_objs := (m_objs s)(x \<mapsto> ObjSettings g')\<rparr>)"
    and "groups_step s (s\<lparr>m_objs := (m_objs s)(x \<mapsto> ObjSettings g')\<rparr>) ofs c c (as @ (x, g) # bs) (as @ (x, g') # bs)"
    and "blob_rep (st_blob g') (ps @ qs)" and "st_ofsModuleName g' = st_ofsModuleName g"
proof -
  let ?i = "length (settings_bytes ps)" and ?n = "length (setting_bytes (name, ty, d))"
  let ?e = "?i + ?n + length (settings_bytes qs)"
  let ?b = "cut_blob (de_raw E s) x (st_blob g) ?i ?n ?e"
  let ?t = "s\<lparr>m_objs := (m_objs s)(x \<mapsto> ObjSettings (g\<lparr>st_blob := ?b\<rparr>))\<rparr>"
  have x: "m_objs s x = Some (ObjSettings g)" "0 < x" using groups_at_object [OF at, of x g] by simp_all
  have val: "GetSettingValueLength (st_blob g) (?i + (1 + length name)) = Some (length (value_bytes ty d))"
    using GetSettingValueLength_here [OF ok(1), of "settings_bytes ps @ of_nat (length name) # name" "settings_bytes qs @ 0 # rest"] b
    by (simp add: setting_bytes_def)
  have n: "1 + length name + (1 + length (value_bytes ty d)) = ?n" by (simp add: length_setting_bytes)
  have "settings_end (st_blob g) (?i + ?n) = Some ?e"
    using settings_end_here [of qs "settings_bytes ps @ setting_bytes (name, ty, d)" rest] ok(2) b by simp
  then have eos: "settings_end (st_blob g) (?i + (1 + length name) + (1 + length (value_bytes ty d))) = Some ?e"
    using n by (simp only: add.assoc)
  have "cut_setting E s x ?i (length name) = Some (?e - ?n, ?t)"
    using x val eos n by (simp add: cut_setting_def DBRead_settings_def Let_def DBWrite_def)
  moreover have "?e - ?n = length (settings_bytes (ps @ qs))" by simp
  moreover have rep: "blob_rep ?b (ps @ qs)" by (rule blob_cut [OF b ok(2,3)])
  moreover have "length ?b = length (st_blob g)" using b by (intro cut_blob_length) simp_all
  ultimately show ?thesis
    using that [of "g\<lparr>st_blob := ?b\<rparr>"] set_blob_step [OF at rep, of "m_dwFileSize s"] by simp
qed

text \<open>Another value of the same type and length.\<close>

lemma value_place:
  assumes "setting_ok (name, ty, d)" and "b = as @ setting_bytes (name, ty, d) @ bs"
  shows "blob_at b (length as + 1 + length name) = Some ty"
    and "variable ty \<Longrightarrow> word_at b (length as + 1 + length name + 1) = Some (of_nat (length d))"
proof -
  let ?as = "as @ of_nat (length name) # name"
  have b: "b = ?as @ ty # value_bytes ty d @ bs" using assms(2) by (simp add: setting_bytes_def)
  have l: "length ?as = length as + 1 + length name" by simp
  show "blob_at b (length as + 1 + length name) = Some ty"
    using blob_at_here [of ?as ty "value_bytes ty d @ bs"] unfolding b [symmetric] l .
  assume "variable ty"
  then have "b = (?as @ [ty]) @ word_bytes (of_nat (length d)) @ d @ bs" using b by (simp add: value_bytes_def)
  then show "word_at b (length as + 1 + length name + 1) = Some (of_nat (length d))"
    using word_at_shift [of "?as @ [ty]" "word_bytes (of_nat (length d)) @ d @ bs" 0] word_at_bytes by simp
qed

lemma fits_in_place_here:
  assumes "setting_ok (name, ty, d)" and "b = as @ setting_bytes (name, ty, d) @ bs" and "value_type (dv_type v)"
    and "value_data v = Some d'"
  shows "fits_in_place b (length as + 1 + length name) v = Some (ty = dv_type v \<and> length d = length d')"
proof (cases "ty = dv_type v")
  case True
  note place = value_place [OF assms(1,2)]
  show ?thesis
  proof (cases "variable ty")
    case var: True
    have "length d < 65536" using assms(1) var by (simp add: setting_ok_def)
    moreover have "length d' < 65536" "length d' = unat (dv_len v)"
      using value_data_ok(1,4) [OF assms(3,4)] var True by auto
    ultimately have "(of_nat (length d) :: u16) = dv_len v \<longleftrightarrow> length d = length d'"
      by (auto simp: word_unat_eq_iff unat_of_nat)
    then show ?thesis
      using place True var variable_types [OF assms(3)] by (simp add: fits_in_place_def)
  next
    case False
    then show ?thesis
      using place(1) True variable_types [OF assms(3)] assms(1) value_data_ok(1) [OF assms(3,4)]
      by (simp add: fits_in_place_def setting_ok_def)
  qed
qed (use value_place(1) [OF assms(1,2)] in \<open>simp add: fits_in_place_def\<close>)

lemma replace_value_step:
  assumes at: "groups_at s ofs c (as @ (x, g) # bs)"
    and b: "st_blob g = settings_bytes ps @ setting_bytes (name, dv_type v, d) @ settings_bytes qs @ 0 # rest"
    and ok: "setting_ok (name, dv_type v, d)" "\<forall>y \<in> set (ps @ qs). setting_ok y" "distinct (map fst (ps @ qs))"
      "name \<notin> fst ` set (ps @ qs)"
    and v: "value_type (dv_type v)" "value_data v = Some d'" "length d = length d'"
  obtains k g' where "replace_value s x (length (settings_bytes ps) + 1 + length name) v =
      Some (s\<lparr>m_dwFileSize := k, m_objs := (m_objs s)(x \<mapsto> ObjSettings g')\<rparr>)"
    and "groups_step s (s\<lparr>m_dwFileSize := k, m_objs := (m_objs s)(x \<mapsto> ObjSettings g')\<rparr>) ofs c c
      (as @ (x, g) # bs) (as @ (x, g') # bs)"
    and "blob_rep (st_blob g') (ps @ (name, dv_type v, d') # qs)" and "st_ofsModuleName g' = st_ofsModuleName g"
proof -
  let ?ty = "dv_type v" and ?p = "length (settings_bytes ps) + 1 + length name"
  note d = groups_atD [OF at]
  have x: "m_objs s x = Some (ObjSettings g)" using groups_at_object [OF at, of x g] by simp
  define hd where "hd = settings_bytes ps @ of_nat (length name) # name @ ?ty # (if variable ?ty then word_bytes (of_nat (length d)) else [])"
  define b' where "b' = hd @ d' @ settings_bytes qs @ 0 # rest"
  have blob: "st_blob g = hd @ d @ settings_bytes qs @ 0 # rest" using b by (simp add: hd_def setting_bytes_def value_bytes_def)
  have b'_eq: "b' = settings_bytes ps @ setting_bytes (name, ?ty, d') @ settings_bytes qs @ 0 # rest"
    using v(3) by (simp add: b'_def hd_def setting_bytes_def value_bytes_def)
  have "setting_ok (name, ?ty, d')" using ok(1) v(3) by (auto simp: setting_ok_def)
  then have rep: "blob_rep b' (ps @ (name, ?ty, d') # qs)" using b'_eq ok by (auto simp: blob_rep_def)
  have pos: "length hd = (if variable ?ty then ?p + 3 else ?p + 1)" by (simp add: hd_def)
  have parts: "replace_value s x ?p v = write_parts s x (length hd) [d']"
    using value_data_ok(4,5) [OF v(1,2)] variable_types [OF v(1)] pos
    by (cases "variable ?ty") (simp_all add: replace_value_def)
  have "length hd + length (concat [d']) \<le> length (st_blob g)" using blob v(3) by simp
  then obtain k where k: "write_parts s x (length hd) [d'] = Some (s\<lparr>m_dwFileSize := k, m_objs := (m_objs s)(x \<mapsto>
      ObjSettings (g\<lparr>st_blob := take (length hd) (st_blob g) @ concat [d'] @ drop (length hd + length (concat [d'])) (st_blob g)\<rparr>))\<rparr>)"
    using write_parts_total [OF d(2,3) x] by blast
  have "take (length hd) (st_blob g) @ concat [d'] @ drop (length hd + length (concat [d'])) (st_blob g) = b'"
    using blob v(3) by (simp add: b'_def)
  then have "replace_value s x ?p v = Some (s\<lparr>m_dwFileSize := k, m_objs := (m_objs s)(x \<mapsto> ObjSettings (g\<lparr>st_blob := b'\<rparr>))\<rparr>)"
    using k parts by simp
  moreover have "length b' = length (st_blob g)" using blob v(3) by (simp add: b'_def)
  ultimately show ?thesis using that [of "g\<lparr>st_blob := b'\<rparr>" k] set_blob_step [OF at rep, of k] rep by simp
qed

end
