(* ===== verification/DbPut.thy ===== *)
theory DbPut imports DbGroupOps begin

text \<open>
  Writing a setting in the file, on the groups of a contact as lists of settings.
\<close>

section \<open>What a write does to the lists\<close>

definition set_setting :: "setting list \<Rightarrow> setting \<Rightarrow> setting list" where
  "set_setting xs y =
     (if \<exists>x \<in> set xs. fst x = fst y \<and> fst (snd x) = fst (snd y) \<and> length (snd (snd x)) = length (snd (snd y))
      then map (\<lambda>x. if fst x = fst y then y else x) xs
      else filter (\<lambda>x. fst x \<noteq> fst y) xs @ [y])"

lemma set_setting_map: "map_of (set_setting xs y) = (map_of xs)(fst y \<mapsto> snd y)"
proof (cases "\<exists>x \<in> set xs. fst x = fst y \<and> fst (snd x) = fst (snd y) \<and> length (snd (snd x)) = length (snd (snd y))")
  case True
  then have "fst y \<in> fst ` set xs" by (metis imageI)
  then have "map_of (map (\<lambda>x. if fst x = fst y then y else x) xs) k = ((map_of xs)(fst y \<mapsto> snd y)) k" for k
  proof (induction xs)
    case (Cons x xs)
    show ?case
    proof (cases "fst y \<in> fst ` set xs")
      case False
      then have "map (\<lambda>x. if fst x = fst y then y else x) xs = xs" by (intro map_idI) (metis imageI)
      then show ?thesis using Cons.prems False by (cases x; cases y) (auto split: if_splits)
    qed (use Cons in \<open>cases x; cases y; auto\<close>)
  qed simp
  then show ?thesis using True by (auto simp: set_setting_def fun_eq_iff)
next
  case False
  have "map_of (filter (\<lambda>x. fst x \<noteq> fst y) xs @ [y]) k = ((map_of xs)(fst y \<mapsto> snd y)) k" for k
    by (induction xs) (auto simp: map_add_def split: option.splits)
  then show ?thesis using False by (auto simp: set_setting_def fun_eq_iff)
qed

lemma filter_other: "n \<notin> fst ` set xs \<Longrightarrow> filter (\<lambda>x. fst x \<noteq> n) xs = xs"
  by (auto simp: filter_id_conv)

lemma set_setting_absent: "n \<notin> fst ` set xs \<Longrightarrow> set_setting xs (n, t, d) = xs @ [(n, t, d)]"
  by (force simp: set_setting_def filter_other)

lemma set_setting_present:
  assumes "n \<notin> fst ` set (as @ bs)"
  shows "set_setting (as @ (n, t0, d0) # bs) (n, t, d) =
    (if t0 = t \<and> length d0 = length d then as @ (n, t, d) # bs else (as @ bs) @ [(n, t, d)])"
proof -
  have "map (\<lambda>x. if fst x = n then (n, t, d) else x) as = as" "map (\<lambda>x. if fst x = n then (n, t, d) else x) bs = bs"
    using assms by (intro map_idI; force)+
  then show ?thesis using assms filter_other [of n as] filter_other [of n bs] by (force simp: set_setting_def)
qed

section \<open>Writing into the group of a module\<close>

text \<open>The end of the worker, once it has the group of the module.\<close>

definition write_in_group ::
    "dbenv \<Rightarrow> CDb3Mmap \<Rightarrow> int \<Rightarrow> DBContact \<Rightarrow> int \<Rightarrow> bytes \<Rightarrow> DBVARIANT \<Rightarrow> CDb3Mmap option" where
  "write_in_group E s ofs dbc x name v =
     do {
       g \<leftarrow> DBRead_settings s x;
       i \<leftarrow> find_setting (st_blob g) name 0;
       c \<leftarrow> blob_at (st_blob g) i;
       if c = 0 then append_setting s ofs dbc x i name v
       else
         do {
           same \<leftarrow> fits_in_place (st_blob g) (i + 1 + length name) v;
           if same then replace_value s x (i + 1 + length name) v
           else do { (i, s) \<leftarrow> cut_setting E s x i (length name); append_setting s ofs dbc x i name v }
         }
     }"

lemma worker_tail:
  "do {
     g \<leftarrow> DBRead_settings s x;
     i \<leftarrow> find_setting (st_blob g) name 0;
     c \<leftarrow> blob_at (st_blob g) i;
     if c = 0 then do { s \<leftarrow> append_setting s ofs dbc x i name v; Some (0, s) }
     else
       do {
         same \<leftarrow> fits_in_place (st_blob g) (i + 1 + length name) v;
         if same then do { s \<leftarrow> replace_value s x (i + 1 + length name) v; Some (0, s) }
         else do { (i, s) \<leftarrow> cut_setting E s x i (length name); s \<leftarrow> append_setting s ofs dbc x i name v; Some (0, s) }
       }
   } = map_option (Pair 0) (write_in_group E s ofs dbc x name v)"
  by (auto simp: write_in_group_def map_conv_bind_option split: Option.bind_split)

lemma write_in_group_step:
  assumes at: "groups_at s ofs c (as @ (x, g) # bs)" and rep: "blob_rep (st_blob g) xs"
    and new: "setting_ok (name, dv_type v, d)" and v: "value_type (dv_type v)" "value_data v = Some d"
    and room: "file_end s + int (length (settings_bytes xs) + need name v + 128) + size_settings < 4294967296"
  obtains t c' gs where "write_in_group E s ofs c x name v = Some t"
    and "groups_step s t ofs c c' (as @ (x, g) # bs) gs"
    and "view gs = view as @ (st_ofsModuleName g, set_setting xs (name, dv_type v, d)) # view bs"
    and "file_end t \<le> file_end s + int (length (settings_bytes xs) + need name v + 128) + size_settings"
proof -
  have x: "DBRead_settings s x = Some g" using groups_at_object [OF at, of x g] by (simp add: DBRead_settings_def)
  show ?thesis
  proof (cases rule: find_setting_cases [OF rep, of name])
    case (1 rest)
    obtain t c' gs where "append_setting s ofs c x (length (settings_bytes xs)) name v = Some t"
      "groups_step s t ofs c c' (as @ (x, g) # bs) gs"
      "view gs = view as @ (st_ofsModuleName g, xs @ [(name, dv_type v, d)]) # view bs"
      "file_end t \<le> file_end s + int (length (settings_bytes xs) + need name v + 128) + size_settings"
      using append_setting_step [OF at rep new 1(1) v room] .
    then show ?thesis using that x 1 by (simp add: write_in_group_def set_setting_absent)
  next
    case (2 ps ty d0 qs rest)
    have ok: "\<forall>y \<in> set (ps @ qs). setting_ok y" "distinct (map fst (ps @ qs))"
      using rep 2(1) by (auto simp: blob_rep_def)
    have fit: "fits_in_place (st_blob g) (length (settings_bytes ps) + 1 + length name) v = Some (ty = dv_type v \<and> length d0 = length d)"
      by (rule fits_in_place_here [OF 2(7,3) v])
    show ?thesis
    proof (cases "ty = dv_type v \<and> length d0 = length d")
      case True
      obtain k g' where r: "replace_value s x (length (settings_bytes ps) + 1 + length name) v =
          Some (s\<lparr>m_dwFileSize := k, m_objs := (m_objs s)(x \<mapsto> ObjSettings g')\<rparr>)"
        "groups_step s (s\<lparr>m_dwFileSize := k, m_objs := (m_objs s)(x \<mapsto> ObjSettings g')\<rparr>) ofs c c
          (as @ (x, g) # bs) (as @ (x, g') # bs)"
        "blob_rep (st_blob g') (ps @ (name, dv_type v, d) # qs)" "st_ofsModuleName g' = st_ofsModuleName g"
        using replace_value_step [OF at _ _ ok 2(2) v, of d0 rest] 2(3,7) True by blast
      have "write_in_group E s ofs c x name v = Some (s\<lparr>m_dwFileSize := k, m_objs := (m_objs s)(x \<mapsto> ObjSettings g')\<rparr>)"
        using x 2(4-6) fit True r(1) by (simp add: write_in_group_def)
      moreover have "set_setting xs (name, dv_type v, d) = ps @ (name, dv_type v, d) # qs"
        using set_setting_present [OF 2(2)] 2(1) True by simp
      ultimately show ?thesis using that r settings_in_rep [OF r(3)] by (simp add: size_defs)
    next
      case False
      obtain g' where r: "cut_setting E s x (length (settings_bytes ps)) (length name) =
          Some (length (settings_bytes (ps @ qs)), s\<lparr>m_objs := (m_objs s)(x \<mapsto> ObjSettings g')\<rparr>)"
        "groups_step s (s\<lparr>m_objs := (m_objs s)(x \<mapsto> ObjSettings g')\<rparr>) ofs c c (as @ (x, g) # bs) (as @ (x, g') # bs)"
        "blob_rep (st_blob g') (ps @ qs)" "st_ofsModuleName g' = st_ofsModuleName g"
        using cut_setting_step [OF at 2(3,7) ok] .
      let ?s = "s\<lparr>m_objs := (m_objs s)(x \<mapsto> ObjSettings g')\<rparr>"
      have at': "groups_at ?s ofs c (as @ (x, g') # bs)" using r(2) by (simp add: groups_step_def)
      have le: "length (settings_bytes (ps @ qs)) \<le> length (settings_bytes xs)" using 2(1) by simp
      have room': "file_end ?s + int (length (settings_bytes (ps @ qs)) + need name v + 128) + size_settings < 4294967296"
        using room le by simp
      obtain t c' gs where t: "append_setting ?s ofs c x (length (settings_bytes (ps @ qs))) name v = Some t"
        "groups_step ?s t ofs c c' (as @ (x, g') # bs) gs"
        "view gs = view as @ (st_ofsModuleName g', (ps @ qs) @ [(name, dv_type v, d)]) # view bs"
        "file_end t \<le> file_end ?s + int (length (settings_bytes (ps @ qs)) + need name v + 128) + size_settings"
        using append_setting_step [OF at' r(3) new 2(2) v room'] .
      have "write_in_group E s ofs c x name v = Some t"
        using x 2(4-6) fit False r(1) t(1) by (auto simp: write_in_group_def)
      moreover have "set_setting xs (name, dv_type v, d) = (ps @ qs) @ [(name, dv_type v, d)]"
        using set_setting_present [OF 2(2)] 2(1) False by auto
      moreover have "file_end t \<le> file_end s + int (length (settings_bytes xs) + need name v + 128) + size_settings"
        using t(4) le by simp
      ultimately show ?thesis using that groups_step_trans [OF r(2) t(2)] t(3) r(4) by simp
    qed
  qed
qed

section \<open>The groups of a contact and the rest of the database\<close>

lemma groups_at_rep:
  assumes rep: "db_rep s ccs H" and S: "settings_rep (m_objs s) (set (roots s ccs)) S" and i: "(i, ofs) \<in> set (roots s ccs)"
  obtains c where "groups_at s ofs c (S i)" and "groups_ok (m_objs s) (S i)"
proof -
  have "contact_settings (m_objs s) ofs (S i)" using S i by (auto simp: settings_rep_def)
  then show ?thesis using that db_repD(1) [OF rep] by (auto simp: contact_settings_def groups_at_def groups_ok_def blobs_ok_def)
qed

text \<open>A step on the groups of one contact keeps everything else.\<close>

lemma only_groupsD:
  assumes "only_groups h h' ofs X X'"
  shows "y \<noteq> ofs \<Longrightarrow> y \<notin> X \<Longrightarrow> y \<notin> X' \<Longrightarrow> h' y = h y" and "y \<in> X' \<Longrightarrow> y \<notin> X \<Longrightarrow> h y = None"
    and "y \<in> X \<Longrightarrow> y \<notin> X' \<Longrightarrow> h' y = None"
  using assms by (auto simp: only_groups_def)

lemma groups_stepD:
  assumes "groups_step s t ofs c c' gs gs'"
  shows "groups_at t ofs c' gs'" and "same_but_space s t" and "\<exists>f. c' = c\<lparr>dc_ofsFirstSettings := f\<rparr>"
    and "only_groups (m_objs s) (m_objs t) ofs (fst ` set gs) (fst ` set gs')"
  using assms by (simp_all add: groups_step_def)

lemma step_record:
  assumes "groups_step s t ofs c c' gs gs'"
  shows "record_ok c' xs n = record_ok c xs n" and "dc_ofsNext c' = dc_ofsNext c"
proof -
  obtain f where "c' = c\<lparr>dc_ofsFirstSettings := f\<rparr>" using groups_stepD(3) [OF assms] by blast
  then show "record_ok c' xs n = record_ok c xs n" "dc_ofsNext c' = dc_ofsNext c"
    by (simp_all add: record_ok_def ends_ok_def)
qed

lemma step_kept:
  assumes st: "groups_step s t ofs c c' gs gs'" and y: "m_objs s y = Some v" "y \<noteq> ofs" "y \<notin> fst ` set gs"
  shows "m_objs t y = Some v" and "y \<notin> fst ` set gs'"
proof -
  note o = groups_stepD(4) [OF st]
  show "y \<notin> fst ` set gs'"
  proof
    assume "y \<in> fst ` set gs'"
    from only_groupsD(2) [OF o this y(3)] show False using y(1) by simp
  qed
  from only_groupsD(1) [OF o y(2,3) this] show "m_objs t y = Some v" using y(1) by simp
qed

lemma groups_at_other: "groups_at s ofs c gs \<Longrightarrow> m_objs s y = Some v \<Longrightarrow> \<forall>g. v \<noteq> ObjSettings g \<Longrightarrow> y \<notin> fst ` set gs"
  using groups_at_object [of s ofs c gs y] by force

lemma step_forward:
  assumes at: "groups_at s ofs c gs" and st: "groups_step s t ofs c c' gs gs'"
    and y: "m_objs s y = Some v" "\<forall>g. v \<noteq> ObjSettings g" "y \<noteq> ofs"
  shows "m_objs t y = Some v"
  by (rule step_kept(1) [OF st y(1,3) groups_at_other [OF at y(1,2)]])

lemma step_backward:
  assumes st: "groups_step s t ofs c c' gs gs'" and y: "m_objs t y = Some v" "\<forall>g. v \<noteq> ObjSettings g" "y \<noteq> ofs"
  shows "m_objs s y = Some v"
proof -
  note o = groups_stepD(4) [OF st]
  have n: "y \<notin> fst ` set gs'" by (rule groups_at_other [OF groups_stepD(1) [OF st] y(1,2)])
  have "y \<notin> fst ` set gs"
  proof
    assume "y \<in> fst ` set gs"
    from only_groupsD(3) [OF o this n] show False using y(1) by simp
  qed
  from only_groupsD(1) [OF o y(3) this n] show ?thesis using y(1) by simp
qed

lemma step_contact:
  assumes "groups_at s ofs c gs" and "groups_step s t ofs c c' gs gs'"
  shows "m_objs s ofs = Some (ObjContact c)" and "m_objs t ofs = Some (ObjContact c')"
  using groups_atD(4) [OF assms(1)] groups_atD(4) [OF groups_stepD(1) [OF assms(2)]] .

lemma step_module:
  assumes "groups_at s ofs c gs" and "groups_step s t ofs c c' gs gs'"
  shows "m_objs t x = Some (ObjModule m) \<longleftrightarrow> m_objs s x = Some (ObjModule m)"
  using step_forward [OF assms, of x "ObjModule m"] step_backward [OF assms(2), of x "ObjModule m"] step_contact [OF assms]
  by (cases "x = ofs") auto

lemma groups_step_settings:
  assumes S: "settings_rep (m_objs s) rts S" and i: "(i, ofs) \<in> rts" and inj: "inj_on fst rts" "inj_on snd rts"
    and at: "groups_at s ofs c (S i)" and st: "groups_step s t ofs c c' (S i) gs"
    and mods: "distinct (map module_of gs)" "\<And>g. g \<in> set gs \<Longrightarrow> \<exists>m. m_objs s (module_of g) = Some (ObjModule m)"
  shows "settings_rep (m_objs t) rts (S(i := gs))"
proof -
  note at' = groups_stepD(1) [OF st]
  have modules: "m_objs s x = Some (ObjModule m) \<Longrightarrow> m_objs t x = Some (ObjModule m)" for x m
    using step_module [OF at st] by simp
  have own: "contact_settings (m_objs t) ofs gs"
    using at' mods modules unfolding contact_settings_def groups_at_def groups_ok_def blobs_ok_def by blast
  have kept: "m_objs t y = m_objs s y \<and> y \<notin> fst ` set gs" if j: "(j, x) \<in> rts" "j \<noteq> i" "y \<in> fst ` set (S j)" for j x y
  proof -
    obtain g where g: "m_objs s y = Some (ObjSettings g)" using settings_rep_object [OF S j(1)] j(3) by auto
    have "fst ` set (S j) \<inter> fst ` set (S i) = {}" using settings_disjoint [OF S, of j i] j i by force
    then have "y \<notin> fst ` set (S i)" using j(3) by blast
    moreover have "y \<noteq> ofs" using g step_contact(1) [OF at st] by auto
    ultimately show ?thesis using step_kept [OF st g] g by simp
  qed
  have other: "contact_settings (m_objs t) x (S j)" if j: "(j, x) \<in> rts" "j \<noteq> i" for j x
  proof (rule contact_settings_cong [where h = "m_objs s"])
    show "contact_settings (m_objs s) x (S j)" using S j by (auto simp: settings_rep_def)
    have "x \<noteq> ofs" using inj_onD [OF inj(2), of "(j, x)" "(i, ofs)"] j i by auto
    then show "\<exists>d. m_objs t x = Some (ObjContact d) \<and> dc_ofsFirstSettings d = dc_ofsFirstSettings b"
      if "m_objs s x = Some (ObjContact b)" for b using step_forward [OF at st that] by simp
    show "m_objs t y = m_objs s y" if "y \<in> fst ` set (S j)" for y using kept [OF j that] by simp
    show "m_objs t y = m_objs s y" if "m_objs s y = Some (ObjModule m)" for y m using modules [OF that] that by simp
  qed
  show ?thesis
    unfolding settings_rep_def
  proof (intro conjI ballI impI)
    fix p
    assume p: "p \<in> rts"
    then have "fst p = i \<Longrightarrow> snd p = ofs" using inj(1) i by (metis inj_onD fst_conv snd_conv prod.collapse)
    then show "case p of (j, x) \<Rightarrow> contact_settings (m_objs t) x ((S(i := gs)) j)" using p own other by (cases p) auto
  next
    fix a b
    assume ab: "a \<in> fst ` rts" "b \<in> fst ` rts" "a \<noteq> b"
    have "fst ` set (S a) \<inter> fst ` set (S b) = {}" using settings_disjoint [OF S] ab by blast
    moreover have disj: "fst ` set gs \<inter> fst ` set (S j) = {}" if "j \<in> fst ` rts" "j \<noteq> i" for j
      using that kept by force
    moreover have "fst ` set (S a) \<inter> fst ` set gs = {}" if "a \<noteq> i" using disj [OF ab(1) that] by blast
    ultimately show "fst ` set ((S(i := gs)) a) \<inter> fst ` set ((S(i := gs)) b) = {}"
      using ab by (cases "a = i"; cases "b = i") simp_all
  qed
qed

lemma roots_inj:
  assumes "table_ok s ccs"
  shows "inj_on fst (set (roots s ccs))" and "inj_on snd (set (roots s ccs))"
  using assms by (simp_all add: table_ok_def distinct_map)

lemma groups_step_rep:
  assumes rep: "db_rep s ccs H" and ls: "listed s ccs H" and S: "settings_rep (m_objs s) (set (roots s ccs)) S"
    and i: "(i, ofs) \<in> set (roots s ccs)"
    and at: "groups_at s ofs c (S i)" and st: "groups_step s t ofs c c' (S i) gs"
    and mods: "distinct (map module_of gs)" "\<And>g. g \<in> set gs \<Longrightarrow> \<exists>m. m_objs s (module_of g) = Some (ObjModule m)"
  shows "db_rep t ccs H" and "listed t ccs H" and "settings_rep (m_objs t) (set (roots t ccs)) (S(i := gs))"
    and "cached t = ccs"
proof -
  let ?P = "parents ccs"
  note tab = db_repD(6) [OF rep] and at' = groups_stepD(1) [OF st] and c = step_contact [OF at st]
  have hd: "header_same s t" by (rule same_header [OF groups_stepD(2) [OF st]])
  note rt = header_same_roots [OF hd, of ccs]
  show sets: "settings_rep (m_objs t) (set (roots t ccs)) (S(i := gs))"
    unfolding rt by (rule groups_step_settings [OF S i roots_inj [OF tab] at st mods])
  have event: "m_objs t y = Some (ObjEvent e)" if "m_objs s y = Some (ObjEvent e)" for y e
    using step_forward [OF at st that] that c(1) by (cases "y = ofs") auto
  have contact: "\<exists>d. m_objs t y = Some (ObjContact d) \<and> dc_ofsNext d = dc_ofsNext b \<and> (\<forall>xs n. record_ok d xs n = record_ok b xs n)"
    if "m_objs s y = Some (ObjContact b)" for y b
    using step_forward [OF at st that] that c step_record [OF st] by (cases "y = ofs") auto
  have root: "root_ok ?P H (m_objs t) j y \<and> (?P j = 0 \<longrightarrow> hist_ok ?P (m_objs t) j (H j) \<and> hist_mods (m_objs t) (H j))"
    if j: "(j, y) \<in> set (roots s ccs)" for j y
  proof -
    obtain b where b: "m_objs s y = Some (ObjContact b)" "record_ok b (own_events ?P H j) (length (events_of ?P H j))"
      using db_rep_root [OF rep j] .
    have "root_ok ?P H (m_objs t) j y" using contact [OF b(1)] b(2) by (auto simp: root_ok_def)
    moreover have "hist_ok ?P (m_objs t) j (H j) \<and> hist_mods (m_objs t) (H j)" if p: "?P j = 0"
    proof
      show "hist_ok ?P (m_objs t) j (H j)"
      proof (rule hist_kept [OF db_rep_hist(1) [OF rep j p]])
        fix x
        assume "x \<in> fst ` set (H j)"
        then obtain e where "m_objs s x = Some (ObjEvent e)" using hist_event [OF rep j p] by blast
        then show "m_objs t x = m_objs s x" using event by simp
      qed
      show "hist_mods (m_objs t) (H j)"
        using db_rep_hist(2) [OF rep j p] unfolding hist_mods_def step_module [OF at st] .
    qed
    ultimately show ?thesis by blast
  qed
  obtain cs where cs: "contact_chain (m_objs s) (dh_ofsFirstContact (m_dbHeader s)) cs" "distinct cs"
    "set cs = cc_dwOfsContact ` set ccs" "dh_contactCount (m_dbHeader s) = of_nat (length ccs)"
    using db_repD(7) [OF rep] by (auto simp: links_ok_def)
  have "contact_chain (m_objs t) (dh_ofsFirstContact (m_dbHeader s)) cs"
    by (rule contact_chain_kept [OF cs(1)]) (use contact in blast)
  then have "links_ok t ccs" using cs hd by (auto simp: links_ok_def header_same_def)
  then show rep': "db_rep t ccs H"
    using groups_atD(1) [OF at'] tab root sets unfolding db_rep_def header_same_table [OF hd] rt by blast
  show "cached t = ccs" by (rule cached_table [OF db_repD(6) [OF rep']])
  show "listed t ccs H"
    unfolding listed_def rt
  proof (intro allI impI)
    fix x e
    assume x: "m_objs t x = Some (ObjEvent e)"
    then have "m_objs s x = Some (ObjEvent e)" using step_backward [OF st x] c(2) by (cases "x = ofs") auto
    then show "\<exists>j \<in> fst ` set (roots s ccs). ?P j = 0 \<and> x \<in> fst ` set (H j)" using ls by (auto simp: listed_def)
  qed
qed

text \<open>So does looking up the offset of a module name.\<close>

lemma module_offset_rep:
  assumes rep: "db_rep s ccs H" and ls: "listed s ccs H" and S: "settings_rep (m_objs s) (set (roots s ccs)) S"
    and room: "file_end s + int (length nm) + size_module < 2147483648"
  obtains x t m where "GetModuleNameOfs s nm = Some (x, t)" and "db_rep t ccs H" and "listed t ccs H"
    and "settings_rep (m_objs t) (set (roots t ccs)) S" and "same_but_space s t"
    and "m_objs t x = Some (ObjModule m)" and "mn_name m = c_str nm"
    and "file_end t \<le> file_end s + int (length nm) + size_module"
    and "\<forall>y v. m_objs s y = Some v \<longrightarrow> m_objs t y = Some v"
    and "\<forall>y v. m_objs t y = Some v \<longrightarrow> (\<forall>k. v \<noteq> ObjModule k) \<longrightarrow> m_objs s y = Some v"
proof -
  obtain x t m where t: "GetModuleNameOfs s nm = Some (x, t)" "base_ok t" "same_but_space s t"
    "m_objs t x = Some (ObjModule m)" "mn_name m = c_str nm"
    "file_end t \<le> file_end s + int (length nm) + size_module"
    "m_objs t = m_objs s \<or> (\<exists>m. m_objs t = (m_objs s)(file_end s \<mapsto> ObjModule m))"
    using module_room [OF db_repD(1) [OF rep] room] by metis
  have kept: "m_objs t y = Some v" if "m_objs s y = Some v" for y v
    using t(7) that space_end_free(1) [OF db_repD(2) [OF rep]] by (cases "y = file_end s") auto
  have bwd: "m_objs s y = Some v" if "m_objs t y = Some v" "\<forall>k. v \<noteq> ObjModule k" for y v
    using t(7) that by (cases "y = file_end s") auto
  have hd: "header_same s t" by (rule same_header [OF t(3)])
  note rt = header_same_roots [OF hd, of ccs]
  have "settings_kept (m_objs s) (m_objs t) (snd ` set (roots s ccs))"
    by (rule settings_keptI) (use kept in fastforce)+
  then have sets: "settings_rep (m_objs t) (set (roots t ccs)) S" unfolding rt by (rule settings_rep_kept [OF S])
  have "root_ok (parents ccs) H (m_objs t) j y \<and>
      (parents ccs j = 0 \<longrightarrow> hist_ok (parents ccs) (m_objs t) j (H j) \<and> hist_mods (m_objs t) (H j))"
    if j: "(j, y) \<in> set (roots s ccs)" for j y
  proof -
    have "root_ok (parents ccs) H (m_objs t) j y" using db_rep_root [OF rep j] kept unfolding root_ok_def by metis
    moreover have "hist_ok (parents ccs) (m_objs t) j (H j)" if p: "parents ccs j = 0"
    proof (rule hist_kept [OF db_rep_hist(1) [OF rep j p]])
      fix x
      assume "x \<in> fst ` set (H j)"
      then obtain e where "m_objs s x = Some (ObjEvent e)" using hist_event [OF rep j p] by blast
      then show "m_objs t x = m_objs s x" using kept by simp
    qed
    moreover have "hist_mods (m_objs t) (H j)" if p: "parents ccs j = 0"
      using db_rep_hist(2) [OF rep j p] kept unfolding hist_mods_def by metis
    ultimately show ?thesis by blast
  qed
  moreover have "links_ok t ccs"
  proof -
    obtain cs where cs: "contact_chain (m_objs s) (dh_ofsFirstContact (m_dbHeader s)) cs" "distinct cs"
      "set cs = cc_dwOfsContact ` set ccs" "dh_contactCount (m_dbHeader s) = of_nat (length ccs)"
      using db_repD(7) [OF rep] by (auto simp: links_ok_def)
    have "contact_chain (m_objs t) (dh_ofsFirstContact (m_dbHeader s)) cs"
      by (rule contact_chain_kept [OF cs(1)]) (use kept in blast)
    then show ?thesis using cs hd by (auto simp: links_ok_def header_same_def)
  qed
  ultimately have "db_rep t ccs H"
    using t(2) db_repD(6) [OF rep] sets unfolding db_rep_def header_same_table [OF hd] rt by blast
  moreover have "listed t ccs H" using ls bwd unfolding listed_def rt by blast
  ultimately show ?thesis using that t sets kept bwd by blast
qed

section \<open>The whole worker\<close>

text \<open>The groups of a contact as a table of modules, and what a write does to it.\<close>

definition set_group :: "(int \<times> setting list) list \<Rightarrow> int \<Rightarrow> setting \<Rightarrow> (int \<times> setting list) list" where
  "set_group V mo y =
     (if mo \<in> fst ` set V then map (\<lambda>w. if fst w = mo then (mo, set_setting (snd w) y) else w) V else (mo, [y]) # V)"

lemma set_group_present:
  assumes "mo \<notin> fst ` set (as @ bs)"
  shows "set_group (as @ (mo, xs) # bs) mo y = as @ (mo, set_setting xs y) # bs"
proof -
  have "map (\<lambda>w. if fst w = mo then (mo, set_setting (snd w) y) else w) as = as"
    "map (\<lambda>w. if fst w = mo then (mo, set_setting (snd w) y) else w) bs = bs"
    using assms by (intro map_idI; force)+
  then show ?thesis by (simp add: set_group_def)
qed

lemma set_group_modules:
  "map fst (set_group V mo y) = (if mo \<in> fst ` set V then map fst V else mo # map fst V)"
proof -
  have "map fst (map (\<lambda>w. if fst w = mo then (mo, set_setting (snd w) y) else w) V) = map fst V" by (induction V) auto
  then show ?thesis by (simp add: set_group_def del: map_map)
qed

lemma view_modules: "fst ` set (view gs) = module_of ` set gs"
  by (simp add: view_def image_image)

lemma find_module:
  obtains (none) "find (\<lambda>g. module_of g = mo) gs = None" and "mo \<notin> fst ` set (view gs)"
  | (some) as x g bs where "gs = as @ (x, g) # bs" and "st_ofsModuleName g = mo"
      and "find (\<lambda>g. module_of g = mo) gs = Some (x, g)"
proof (cases "find (\<lambda>g. module_of g = mo) gs")
  case None
  then have "\<forall>g \<in> set gs. module_of g \<noteq> mo" by (fastforce simp: find_None_iff)
  then have "mo \<notin> fst ` set (view gs)" unfolding view_modules by blast
  then show ?thesis using none None by blast
next
  case (Some p)
  then obtain k where k: "k < length gs" "module_of (gs ! k) = mo" "p = gs ! k" by (auto simp: find_Some_iff)
  then have p: "p \<in> set gs" "module_of p = mo" by simp_all
  from split_list [OF p(1)] obtain as bs where "gs = as @ p # bs" by blast
  then show ?thesis using some [of as "fst p" "snd p" bs] Some p(2) by simp
qed

lemma write_group_cases:
  assumes at: "groups_at s ofs c gs" and dist: "distinct (map module_of gs)"
    and new: "setting_ok (name, dv_type v, d)" and v: "value_type (dv_type v)" "value_data v = Some d"
    and room: "2 * file_end s + int (2 * need name v) + 512 < 4294967296"
  obtains t c' gs' where
    "(if (case find (\<lambda>g. module_of g = mo) gs of None \<Rightarrow> 0 | Some g \<Rightarrow> fst g) = 0
      then do { (x, c, s) \<leftarrow> new_group s ofs c mo (value_size v + (2 + length name)); append_setting s ofs c x 0 name v }
      else write_in_group E s ofs c (case find (\<lambda>g. module_of g = mo) gs of None \<Rightarrow> 0 | Some g \<Rightarrow> fst g) name v) = Some t"
    and "groups_step s t ofs c c' gs gs'"
    and "view gs' = set_group (view gs) mo (name, dv_type v, d)"
    and "file_end t \<le> 2 * file_end s + int (2 * need name v) + 512"
proof (cases rule: find_module [of mo gs])
  case none
  note d = groups_atD [OF at]
  have pos: "0 < file_end s" using d(2) by (simp add: space_ok_def size_defs)
  let ?n = "value_size v + (2 + length name)"
  have r: "int (round_up ?n) < int (need name v) + 128" using round_up_bounds(2) [of ?n] by simp
  then have r1: "file_end s + int (round_up ?n) + size_settings < 4294967296" using room pos by (simp add: size_defs)
  obtain s1 c1 where s1: "new_group s ofs c mo ?n = Some (file_end s, c1, s1)"
    "groups_step s s1 ofs c c1 gs ((file_end s,
      \<lparr>st_ofsNext = dc_ofsFirstSettings c, st_ofsModuleName = mo, st_blob = replicate (round_up ?n) 0\<rparr>) # gs)"
    "file_end s1 = file_end s + int (round_up ?n) + size_settings"
    using new_group_step [OF at r1, of mo] by (metis zero_less_Suc add_2_eq_Suc add_Suc_right)
  define g where "g = \<lparr>st_ofsNext = dc_ofsFirstSettings c, st_ofsModuleName = mo, st_blob = replicate (round_up ?n) 0\<rparr>"
  have at1: "groups_at s1 ofs c1 ([] @ (file_end s, g) # gs)" using s1(2) by (simp add: groups_step_def g_def)
  have rep: "blob_rep (st_blob g) []" using blob_empty [of "round_up ?n"] by (simp add: g_def round_up_def)
  have room1: "file_end s1 + int (length (settings_bytes []) + need name v + 128) + size_settings < 4294967296"
    using room r s1(3) pos by (simp add: size_defs)
  have absent: "name \<notin> fst ` set []" by simp
  obtain t c' gs' where t: "append_setting s1 ofs c1 (file_end s) (length (settings_bytes [])) name v = Some t"
    "groups_step s1 t ofs c1 c' ([] @ (file_end s, g) # gs) gs'"
    "view gs' = view [] @ (st_ofsModuleName g, [] @ [(name, dv_type v, d)]) # view gs"
    "file_end t \<le> file_end s1 + int (length (settings_bytes []) + need name v + 128) + size_settings"
    using append_setting_step [OF at1 rep new absent v room1] .
  have "groups_step s t ofs c c' gs gs'"
    using groups_step_trans [OF s1(2)] t(2) by (simp add: g_def)
  moreover have "view gs' = set_group (view gs) mo (name, dv_type v, d)"
    using t(3) none(2) by (simp add: set_group_def g_def)
  moreover have "file_end t \<le> 2 * file_end s + int (2 * need name v) + 512"
    using t(4) s1(3) r pos by (simp add: size_defs)
  ultimately show ?thesis using that none(1) s1(1) t(1) by simp
next
  case (some as x g bs)
  have at': "groups_at s ofs c (as @ (x, g) # bs)" using at some(1) by simp
  note d = groups_atD [OF at']
  obtain xs where rep: "blob_rep (st_blob g) xs" using d(7) by auto
  have x: "m_objs s x = Some (ObjSettings g)" "0 < x" using groups_at_object [OF at', of x g] by simp_all
  have "length (settings_bytes xs) < length (st_blob g)" using rep by (auto simp: blob_rep_def)
  then have le: "int (length (settings_bytes xs)) + size_settings < file_end s"
    using space_bounds [OF d(2) x(1)] x(2) by simp
  have room1: "file_end s + int (length (settings_bytes xs) + need name v + 128) + size_settings < 4294967296"
    using room le by (simp add: size_defs)
  obtain t c' gs' where t: "write_in_group E s ofs c x name v = Some t"
    "groups_step s t ofs c c' (as @ (x, g) # bs) gs'"
    "view gs' = view as @ (st_ofsModuleName g, set_setting xs (name, dv_type v, d)) # view bs"
    "file_end t \<le> file_end s + int (length (settings_bytes xs) + need name v + 128) + size_settings"
    using write_in_group_step [OF at' rep new v room1] .
  have "mo \<notin> module_of ` set (as @ bs)" using dist some(1,2) by auto
  then have "mo \<notin> fst ` set (view as @ view bs)" by (simp only: view_simps(3) [symmetric] view_modules) simp
  then have "view gs' = set_group (view gs) mo (name, dv_type v, d)"
    using t(3) some(1,2) set_group_present [of mo "view as" "view bs"] settings_in_rep [OF rep] by simp
  moreover have "file_end t \<le> 2 * file_end s + int (2 * need name v) + 512" using t(4) le by simp
  ultimately show ?thesis using that t(1,2) some(1,3) x(2) by simp
qed

text \<open>What every operation on settings does first: the contact, the module name, the group.\<close>

lemma settings_lookup:
  assumes rep: "db_rep s ccs H" and ls: "listed s ccs H" and S: "settings_rep (m_objs s) (set (roots s ccs)) S"
    and i: "(i, ofs) \<in> set (roots s ccs)" and room: "file_end s + int (length nm) + size_module < 2147483648"
  obtains mo t m c where "GetModuleNameOfs s nm = Some (mo, t)" and "db_rep t ccs H" and "listed t ccs H"
    and "settings_rep (m_objs t) (set (roots t ccs)) S" and "same_but_space s t"
    and "m_objs t mo = Some (ObjModule m)" and "mn_name m = c_str nm"
    and "file_end t \<le> file_end s + int (length nm) + size_module"
    and "\<forall>y v. m_objs s y = Some v \<longrightarrow> m_objs t y = Some v"
    and "GetContactOffset s i = Some (ofs, if i = 0 then None else lookup ccs i)"
    and "GetContactOffset t i = Some (ofs, if i = 0 then None else lookup ccs i)"
    and "ofs \<noteq> 0" and "(i, ofs) \<in> set (roots t ccs)"
    and "signature_at t ofs = DBCONTACT_SIGNATURE" and "DBRead_contact t ofs = Some c"
    and "groups_at t ofs c (S i)" and "groups_ok (m_objs t) (S i)"
    and "GetSettingsGroupOfsByModuleNameOfs t mo (dc_ofsFirstSettings c) =
      Some (case find (\<lambda>g. module_of g = mo) (S i) of None \<Rightarrow> 0 | Some g \<Rightarrow> fst g)"
proof -
  obtain mo t m where t: "GetModuleNameOfs s nm = Some (mo, t)" "db_rep t ccs H" "listed t ccs H"
    "settings_rep (m_objs t) (set (roots t ccs)) S" "same_but_space s t"
    "m_objs t mo = Some (ObjModule m)" "mn_name m = c_str nm" "file_end t \<le> file_end s + int (length nm) + size_module"
    "\<forall>y v. m_objs s y = Some v \<longrightarrow> m_objs t y = Some v"
    "\<forall>y v. m_objs t y = Some v \<longrightarrow> (\<forall>k. v \<noteq> ObjModule k) \<longrightarrow> m_objs s y = Some v"
    using module_offset_rep [OF rep ls S room] .
  have it: "(i, ofs) \<in> set (roots t ccs)" using i header_same_roots [OF same_header [OF t(5)]] by simp
  obtain c where c: "groups_at t ofs c (S i)" "groups_ok (m_objs t) (S i)" using groups_at_rep [OF t(2,4) it] .
  have obj: "m_objs t ofs = Some (ObjContact c)" by (rule groups_atD(4) [OF c(1)])
  have ofs: "ofs \<noteq> 0" using space_inside [OF db_repD(2) [OF t(2)] obj] by simp
  obtain d where "m_objs t ofs = Some (ObjContact d)" "record_ok d (own_events (parents ccs) H i) (length (events_of (parents ccs) H i))"
    using db_rep_root [OF t(2) it] .
  then have sig: "signature_at t ofs = DBCONTACT_SIGNATURE" using obj ofs by (simp add: signature_at_def record_ok_def)
  have rd: "DBRead_contact t ofs = Some c" using obj ofs by (simp add: DBRead_contact_def)
  note off = GetContactOffset_rep [OF db_repD(6) [OF rep] i] GetContactOffset_rep [OF db_repD(6) [OF t(2)] it]
  show ?thesis
    by (rule that [OF t(1-9) off ofs it sig rd c find_group_chain [OF groups_atD(5) [OF c(1)] groups_atD(2) [OF c(1)], of mo]])
qed

lemma set_group_ok:
  assumes "groups_ok h gs" and "view gs' = set_group (view gs) mo y" and "h mo = Some (ObjModule m)"
  shows "distinct (map module_of gs')" and "\<And>g. g \<in> set gs' \<Longrightarrow> \<exists>m. h (module_of g) = Some (ObjModule m)"
proof -
  have "map fst (view gs') = map fst (set_group (view gs) mo y)" using assms(2) by simp
  then have m: "map module_of gs' = (if mo \<in> module_of ` set gs then map module_of gs else mo # map module_of gs)"
    unfolding set_group_modules view_modules view_simps .
  have "distinct (map module_of gs)" using assms(1) by (simp add: groups_ok_def)
  then show "distinct (map module_of gs')" using m by (cases "mo \<in> module_of ` set gs") simp_all
  show "\<exists>m. h (module_of g) = Some (ObjModule m)" if "g \<in> set gs'" for g
  proof -
    have "module_of g \<in> set (map module_of gs')" using that by force
    then have "module_of g = mo \<or> module_of g \<in> module_of ` set gs"
      unfolding m by (cases "mo \<in> module_of ` set gs") simp_all
    then show ?thesis
    proof
      assume "module_of g \<in> module_of ` set gs"
      then show ?thesis using assms(1) unfolding groups_ok_def by (elim imageE) simp
    qed (use assms(3) in simp)
  qed
qed

lemma WriteContactSettingWorker_rep:
  assumes rep: "db_rep s ccs H" and ls: "listed s ccs H" and S: "settings_rep (m_objs s) (set (roots s ccs)) S"
    and i: "(i, ofs) \<in> set (roots s ccs)"
    and new: "setting_ok (c_str n, dv_type v, d)" and v: "value_type (dv_type v)" "value_data v = Some d"
    and room: "2 * file_end s + int (2 * length nm + 2 * need (c_str n) v) + 1024 < 2147483648"
  obtains t mo m gs where "WriteContactSettingWorker E s i nm n v = Some (0, t)" and "db_rep t ccs H" and "listed t ccs H"
    and "settings_rep (m_objs t) (set (roots t ccs)) (S(i := gs))" and "view gs = set_group (view (S i)) mo (c_str n, dv_type v, d)"
    and "same_but_space s t" and "m_objs t mo = Some (ObjModule m)" and "mn_name m = c_str nm"
    and "\<And>y k. m_objs s y = Some (ObjModule k) \<Longrightarrow> m_objs t y = Some (ObjModule k)"
    and "file_end t \<le> 2 * file_end s + int (2 * length nm + 2 * need (c_str n) v) + 1024"
proof -
  have pos: "0 < file_end s" using db_repD(2) [OF rep] by (simp add: space_ok_def size_defs)
  have room1: "file_end s + int (length nm) + size_module < 2147483648" using room pos by (simp add: size_defs)
  obtain mo s1 m c where s1: "GetModuleNameOfs s nm = Some (mo, s1)" "db_rep s1 ccs H" "listed s1 ccs H"
    "settings_rep (m_objs s1) (set (roots s1 ccs)) S" "same_but_space s s1" "m_objs s1 mo = Some (ObjModule m)" "mn_name m = c_str nm"
    "file_end s1 \<le> file_end s + int (length nm) + size_module" "\<forall>y v. m_objs s y = Some v \<longrightarrow> m_objs s1 y = Some v"
    "GetContactOffset s i = Some (ofs, if i = 0 then None else lookup ccs i)"
    "GetContactOffset s1 i = Some (ofs, if i = 0 then None else lookup ccs i)"
    "ofs \<noteq> 0" "(i, ofs) \<in> set (roots s1 ccs)" "signature_at s1 ofs = DBCONTACT_SIGNATURE" "DBRead_contact s1 ofs = Some c"
    "groups_at s1 ofs c (S i)" "groups_ok (m_objs s1) (S i)"
    "GetSettingsGroupOfsByModuleNameOfs s1 mo (dc_ofsFirstSettings c) =
      Some (case find (\<lambda>g. module_of g = mo) (S i) of None \<Rightarrow> 0 | Some g \<Rightarrow> fst g)"
    using settings_lookup [OF rep ls S i room1] .
  have dist: "distinct (map module_of (S i))" using s1(17) by (simp add: groups_ok_def)
  have room2: "2 * file_end s1 + int (2 * need (c_str n) v) + 512 < 4294967296" using room s1(8) by (simp add: size_defs)
  obtain t c' gs where t: "(if (case find (\<lambda>g. module_of g = mo) (S i) of None \<Rightarrow> 0 | Some g \<Rightarrow> fst g) = 0
      then do { (x, c, s) \<leftarrow> new_group s1 ofs c mo (value_size v + (2 + length (c_str n))); append_setting s ofs c x 0 (c_str n) v }
      else write_in_group E s1 ofs c (case find (\<lambda>g. module_of g = mo) (S i) of None \<Rightarrow> 0 | Some g \<Rightarrow> fst g) (c_str n) v) = Some t"
    "groups_step s1 t ofs c c' (S i) gs" "view gs = set_group (view (S i)) mo (c_str n, dv_type v, d)"
    "file_end t \<le> 2 * file_end s1 + int (2 * need (c_str n) v) + 512"
    using write_group_cases [OF s1(16) dist new v room2, of mo E] .
  note gs = set_group_ok [OF s1(17) t(3) s1(6)]
  note r = groups_step_rep [OF s1(2,3,4,13,16) t(2) gs]
  have "WriteContactSettingWorker E s i nm n v = Some (0, t)"
  proof (cases "(case find (\<lambda>g. module_of g = mo) (S i) of None \<Rightarrow> 0 | Some g \<Rightarrow> fst g) = 0")
    case True
    then obtain x c2 s2 where "new_group s1 ofs c mo (value_size v + (2 + length (c_str n))) = Some (x, c2, s2)"
      "append_setting s2 ofs c2 x 0 (c_str n) v = Some t"
      using t(1) by (auto split: bind_splits)
    then show ?thesis
      using s1(1,10,12,14,15,18) True by (simp add: WriteContactSettingWorker_def)
  next
    case False
    then show ?thesis
      using s1(1,10,12,14,15,18) t(1) by (simp add: WriteContactSettingWorker_def worker_tail del: option.case)
  qed
  moreover have "m_objs t y = Some (ObjModule k)" if "m_objs s y = Some (ObjModule k)" for y k
    using step_module [OF s1(16) t(2)] s1(9) that by simp
  moreover have "m_objs t mo = Some (ObjModule m)" using step_module [OF s1(16) t(2)] s1(6) by simp
  moreover have "same_but_space s t" using space.R_trans [OF s1(5) groups_stepD(2) [OF t(2)]] .
  moreover have "file_end t \<le> 2 * file_end s + int (2 * length nm + 2 * need (c_str n) v) + 1024"
    using t(4) s1(8) by (simp add: size_defs)
  ultimately show ?thesis using that r(1,2,3) t(3) s1(7) by blast
qed

end
