(* ===== verification/DbValues.thy ===== *)
theory DbValues imports DbLaws DbPut begin

text \<open>
  The settings of a contact as they are in the file, read on their own: the chain of groups, the
  module names they point to, and the bytes of their blobs.  Writing and deleting in the file do
  to them what they should.
\<close>

section \<open>What the file has\<close>

definition mod_name :: "(int \<Rightarrow> dbobj option) \<Rightarrow> int \<Rightarrow> bytes option" where
  "mod_name h x = (case h x of Some (ObjModule k) \<Rightarrow> Some (mn_name k) | _ \<Rightarrow> None)"

partial_function (option) settings_from :: "CDb3Mmap \<Rightarrow> bytes \<Rightarrow> int \<Rightarrow> setting list option" where
  "settings_from s m ofs =
     (if ofs = 0 then Some []
      else
        do {
          g \<leftarrow> DBRead_settings s ofs;
          if mod_name (m_objs s) (st_ofsModuleName g) = Some m then Some (settings_in (st_blob g))
          else settings_from s m (st_ofsNext g)
        })"

declare settings_from.simps [code]

definition settings_of :: "CDb3Mmap \<Rightarrow> u32 \<Rightarrow> bytes \<Rightarrow> setting list option" where
  "settings_of s i m =
     do {
       (ofs, cc) \<leftarrow> GetContactOffset s i;
       c \<leftarrow> DBRead_contact s ofs;
       settings_from s (c_str m) (dc_ofsFirstSettings c)
     }"

definition group_settings :: "(int \<Rightarrow> dbobj option) \<Rightarrow> (int \<times> setting list) list \<Rightarrow> bytes \<Rightarrow> setting list" where
  "group_settings h V m = (case find (\<lambda>w. mod_name h (fst w) = Some m) V of None \<Rightarrow> [] | Some w \<Rightarrow> snd w)"

lemma settings_from_chain:
  assumes "settings_chain (m_objs s) f gs" and "space s"
  shows "settings_from s m f = Some (group_settings (m_objs s) (view gs) m)"
  using assms(1)
proof (induction gs arbitrary: f)
  case Nil
  then show ?case by (simp add: settings_from.simps group_settings_def)
next
  case (Cons g gs)
  then have g: "f = fst g" "m_objs s f = Some (ObjSettings (snd g))" "settings_chain (m_objs s) (st_ofsNext (snd g)) gs"
    by auto
  have "f \<noteq> 0" using space_inside [OF assms(2) g(2)] by simp
  then show ?case
    using g Cons.IH [OF g(3)] by (subst settings_from.simps) (simp add: DBRead_settings_def group_settings_def)
qed

lemma settings_of_rep:
  assumes rep: "db_rep s ccs H" and S: "settings_rep (m_objs s) (set (roots s ccs)) S" and i: "(i, ofs) \<in> set (roots s ccs)"
  shows "settings_of s i m = Some (group_settings (m_objs s) (view (S i)) (c_str m))"
proof -
  obtain c where c: "groups_at s ofs c (S i)" using groups_at_rep [OF rep S i] .
  have obj: "m_objs s ofs = Some (ObjContact c)" "0 < ofs"
    using groups_atD(4) [OF c] space_inside [OF db_repD(2) [OF rep]] by blast+
  then have "DBRead_contact s ofs = Some c" by (simp add: DBRead_contact_def)
  then show ?thesis
    using settings_from_chain [OF groups_atD(5) [OF c] groups_atD(2) [OF c]] GetContactOffset_rep [OF db_repD(6) [OF rep] i]
    by (simp add: settings_of_def)
qed

text \<open>Module names are unique, so the group of a module is the one with its offset.\<close>

lemma mod_name_unique:
  assumes "mods_ok s" and "m_objs s mo = Some (ObjModule m)"
  shows "mod_name (m_objs s) x = Some (mn_name m) \<longleftrightarrow> x = mo"
proof
  assume "mod_name (m_objs s) x = Some (mn_name m)"
  then obtain k where k: "m_objs s x = Some (ObjModule k)" "mn_name k = mn_name m"
    by (auto simp: mod_name_def split: option.splits dbobj.splits)
  let ?a = "\<lparr>md_name = mn_name m, md_ofs = x\<rparr>" and ?b = "\<lparr>md_name = mn_name m, md_ofs = mo\<rparr>"
  have "?a \<in> names (m_objs s)" "?b \<in> names (m_objs s)" using k assms(2) by (auto simp: names_def)
  moreover have "inj_on md_name (names (m_objs s))" using assms(1) by (simp add: mods_ok_def)
  ultimately have "?a = ?b" using inj_onD [of md_name "names (m_objs s)" ?a ?b] by simp
  then show "x = mo" by simp
qed (use assms(2) in \<open>simp add: mod_name_def\<close>)

lemma find_map_of: "(case find (\<lambda>w. fst w = k) V of None \<Rightarrow> d | Some w \<Rightarrow> snd w) = (case map_of V k of None \<Rightarrow> d | Some x \<Rightarrow> x)"
  by (induction V) auto

lemma group_settings_at:
  assumes "mods_ok s" and "m_objs s mo = Some (ObjModule m)"
  shows "group_settings (m_objs s) V (mn_name m) = (case map_of V mo of None \<Rightarrow> [] | Some xs \<Rightarrow> xs)"
  unfolding group_settings_def mod_name_unique [OF assms] by (rule find_map_of)

lemma map_of_map_at:
  "map_of (map (\<lambda>w. if fst w = k then (k, f (snd w)) else w) V) j = (if j = k then map_option f (map_of V k) else map_of V j)"
  by (induction V) auto

lemma set_group_map_of:
  "map_of (set_group V mo y) = (map_of V)(mo \<mapsto> set_setting (case map_of V mo of None \<Rightarrow> [] | Some xs \<Rightarrow> xs) y)"
proof (cases "map_of V mo")
  case None
  then have "mo \<notin> fst ` set V" by (simp add: map_of_eq_None_iff)
  then show ?thesis using None by (simp add: set_group_def set_setting_def)
next
  case (Some xs)
  then have "mo \<in> fst ` set V" by (metis domI dom_map_of_conv_image_fst)
  then show ?thesis using Some by (simp add: set_group_def fun_eq_iff map_of_map_at [where f = "\<lambda>xs. set_setting xs y"])
qed

text \<open>The settings of a module after a change of the group of module \<open>mo\<close>.\<close>

lemma group_settings_update:
  assumes s: "mods_ok s" and t: "mods_ok t" "m_objs t mo = Some (ObjModule k)" "mn_name k = m"
    and kept: "\<And>x k. m_objs s x = Some (ObjModule k) \<Longrightarrow> m_objs t x = Some (ObjModule k)"
    and V: "\<And>x. x \<in> fst ` set V \<Longrightarrow> \<exists>k. m_objs s x = Some (ObjModule k)"
    and W: "\<And>x. x \<noteq> mo \<Longrightarrow> map_of W x = map_of V x"
  shows "group_settings (m_objs t) W m = (case map_of W mo of None \<Rightarrow> [] | Some xs \<Rightarrow> xs)"
    and "group_settings (m_objs s) V m = (case map_of V mo of None \<Rightarrow> [] | Some xs \<Rightarrow> xs)"
    and "m' \<noteq> m \<Longrightarrow> group_settings (m_objs t) W m' = group_settings (m_objs s) V m'"
proof -
  have tm: "mod_name (m_objs t) x = Some m \<longleftrightarrow> x = mo" for x using mod_name_unique [OF t(1,2)] t(3) by simp
  show "group_settings (m_objs t) W m = (case map_of W mo of None \<Rightarrow> [] | Some xs \<Rightarrow> xs)"
    using group_settings_at [OF t(1,2)] t(3) by simp
  have same: "mod_name (m_objs t) x = mod_name (m_objs s) x" if "x \<in> fst ` set V" for x
    using V [OF that] kept by (auto simp: mod_name_def)
  have cong: "group_settings (m_objs t) V k = group_settings (m_objs s) V k" for k
  proof -
    have "find (\<lambda>w. mod_name (m_objs t) (fst w) = Some k) V = find (\<lambda>w. mod_name (m_objs s) (fst w) = Some k) V"
      using same by (intro find_cong) simp_all
    then show ?thesis by (simp add: group_settings_def)
  qed
  show "group_settings (m_objs s) V m = (case map_of V mo of None \<Rightarrow> [] | Some xs \<Rightarrow> xs)"
    using group_settings_at [OF t(1,2), of V] t(3) cong [of m] by simp
  assume m': "m' \<noteq> m"
  show "group_settings (m_objs t) W m' = group_settings (m_objs s) V m'"
  proof (cases "\<exists>x k. m_objs t x = Some (ObjModule k) \<and> mn_name k = m'")
    case True
    then obtain x k where x: "m_objs t x = Some (ObjModule k)" "mn_name k = m'" by blast
    then have "x \<noteq> mo" using t m' by auto
    then have "group_settings (m_objs t) W m' = group_settings (m_objs t) V m'"
      using group_settings_at [OF t(1) x(1), of W] group_settings_at [OF t(1) x(1), of V] W x(2) by simp
    then show ?thesis using cong by simp
  next
    case False
    then have "mod_name (m_objs t) x \<noteq> Some m'" for x by (auto simp: mod_name_def split: option.splits dbobj.splits)
    then have "group_settings (m_objs t) U m' = []" for U by (induction U) (simp_all add: group_settings_def)
    then show ?thesis using cong [of m'] by metis
  qed
qed

section \<open>Writing in the file\<close>

text \<open>Whether the file can take the setting.\<close>

definition write_room :: "CDb3Mmap \<Rightarrow> bytes \<Rightarrow> bytes \<Rightarrow> DBVARIANT \<Rightarrow> bool" where
  "write_room s m n v \<longleftrightarrow> 2 * file_end s + int (2 * length m + 2 * need (c_str n) v) + 1024 < 2147483648"

definition valid_name :: "bytes \<Rightarrow> bool" where
  "valid_name n \<longleftrightarrow> c_str n \<noteq> [] \<and> length (c_str n) < 256"

lemma setting_okI:
  assumes "valid_name n" and "value_type (dv_type v)" and "value_data v = Some d"
  shows "setting_ok (c_str n, dv_type v, d)"
  using assms(1) value_data_ok(1) [OF assms(2,3)] by (auto simp: setting_ok_def valid_name_def c_str_def dest: set_takeWhileD)

lemma groups_modules:
  assumes "settings_rep (m_objs s) (set (roots s ccs)) S" and "(i, ofs) \<in> set (roots s ccs)" and "x \<in> fst ` set (view (S i))"
  shows "\<exists>k. m_objs s x = Some (ObjModule k)"
  using assms unfolding view_modules settings_rep_def contact_settings_def groups_ok_def by blast

text \<open>What a file operation that changes one group of one contact leaves alone.\<close>

definition file_kept :: "CDb3Mmap \<Rightarrow> CDb3Mmap \<Rightarrow> u32 \<Rightarrow> bytes \<Rightarrow> bool" where
  "file_kept s t i m \<longleftrightarrow>
     db_ok t \<and> same_but_space s t \<and>
     (\<forall>j k. known s j \<longrightarrow> (j, c_str k) \<noteq> (i, c_str m) \<longrightarrow> settings_of t j k = settings_of s j k) \<and>
     (\<forall>j. known s j \<longrightarrow> events_forward t j = events_forward s j)"

lemma file_step:
  assumes rep: "db_rep s (cached s) H" and S: "settings_rep (m_objs s) (set (roots s (cached s))) S" and i: "known s i"
    and t: "db_rep t (cached s) H" "listed t (cached s) H" "settings_rep (m_objs t) (set (roots t (cached s))) (S(i := gs))"
    and sb: "same_but_space s t" and mo: "m_objs t mo = Some (ObjModule k)" "mn_name k = c_str m"
    and kept: "\<And>y k. m_objs s y = Some (ObjModule k) \<Longrightarrow> m_objs t y = Some (ObjModule k)"
    and W: "\<And>x. x \<noteq> mo \<Longrightarrow> map_of (view gs) x = map_of (view (S i)) x"
  shows "file_kept s t i m"
    and "settings_of s i m = Some (case map_of (view (S i)) mo of None \<Rightarrow> [] | Some xs \<Rightarrow> xs)"
    and "settings_of t i m = Some (case map_of (view gs) mo of None \<Rightarrow> [] | Some xs \<Rightarrow> xs)"
proof -
  have rt: "roots t (cached s) = roots s (cached s)" by (rule header_same_roots [OF same_header [OF sb]])
  have ct: "cached t = cached s" by (rule cached_table [OF db_repD(6) [OF t(1)]])
  have of_s: "settings_of s j k = Some (group_settings (m_objs s) (view (S j)) (c_str k))"
    and of_t: "settings_of t j k = Some (group_settings (m_objs t) (view ((S(i := gs)) j)) (c_str k))" if "known s j" for j k
    using settings_of_rep [OF rep S] settings_of_rep [OF t(1,3)] that unfolding known_def rt by fastforce+
  have V: "\<exists>k. m_objs s x = Some (ObjModule k)" if "known s j" "x \<in> fst ` set (view (S j))" for j x
    using groups_modules [OF S] that unfolding known_def by fastforce
  note upd = group_settings_update [OF db_repD(3) [OF rep] db_repD(3) [OF t(1)] mo]
  note own = upd [OF kept V [OF i] W]
  show "settings_of s i m = Some (case map_of (view (S i)) mo of None \<Rightarrow> [] | Some xs \<Rightarrow> xs)"
    "settings_of t i m = Some (case map_of (view gs) mo of None \<Rightarrow> [] | Some xs \<Rightarrow> xs)"
    using of_s [OF i] of_t [OF i] own(1,2) by simp_all
  have "settings_of t j k = settings_of s j k" if j: "known s j" "(j, c_str k) \<noteq> (i, c_str m)" for j k
  proof (cases "j = i")
    case True
    then show ?thesis using of_s [OF i] of_t [OF i] own(3) [of "c_str k"] j(2) by simp
  next
    case False
    have "group_settings (m_objs t) (view (S j)) (c_str k) = group_settings (m_objs s) (view (S j)) (c_str k)"
    proof (cases "c_str k = c_str m")
      case True
      then show ?thesis using upd(1,2) [OF kept V [OF j(1)] refl] by simp
    next
      case False
      then show ?thesis using upd(3) [OF kept V [OF j(1)] refl] by simp
    qed
    then show ?thesis using of_s [OF j(1)] of_t [OF j(1)] False by simp
  qed
  moreover have "events_forward t j = events_forward s j" if "known s j" for j
    using events_forward_rep [OF rep] events_forward_rep [OF t(1)] that unfolding known_def rt by simp
  ultimately show "file_kept s t i m" using db_stateI [OF t(1,2)] sb by (simp add: file_kept_def)
qed

text \<open>The worker puts the setting into the file.\<close>

lemma worker_writes:
  assumes ok: "db_ok s" and i: "known s i" and n: "valid_name n" and v: "value_type (dv_type v)" "value_data v = Some d"
    and room: "write_room s m n v"
  obtains t xs where "WriteContactSettingWorker E s i m n v = Some (0, t)" and "file_kept s t i m"
    and "settings_of s i m = Some xs" and "settings_of t i m = Some (set_setting xs (c_str n, dv_type v, d))"
    and "file_end t \<le> 2 * file_end s + int (2 * length m + 2 * need (c_str n) v) + 1024"
proof -
  obtain H where rep: "db_rep s (cached s) H" and ls: "listed s (cached s) H" using db_okE [OF ok] .
  obtain S where S: "settings_rep (m_objs s) (set (roots s (cached s))) S" using db_rep_settings [OF rep] .
  obtain ofs where ofs: "(i, ofs) \<in> set (roots s (cached s))" using i unfolding known_def by force
  obtain t mo k gs where t: "WriteContactSettingWorker E s i m n v = Some (0, t)" "db_rep t (cached s) H" "listed t (cached s) H"
    "settings_rep (m_objs t) (set (roots t (cached s))) (S(i := gs))" "view gs = set_group (view (S i)) mo (c_str n, dv_type v, d)"
    "same_but_space s t" "m_objs t mo = Some (ObjModule k)" "mn_name k = c_str m"
    "\<And>y k. m_objs s y = Some (ObjModule k) \<Longrightarrow> m_objs t y = Some (ObjModule k)"
    "file_end t \<le> 2 * file_end s + int (2 * length m + 2 * need (c_str n) v) + 1024"
    by (rule WriteContactSettingWorker_rep [OF rep ls S ofs setting_okI [OF n v] v room [unfolded write_room_def]]) (rule that)
  have W: "map_of (view gs) x = map_of (view (S i)) x" if "x \<noteq> mo" for x using that by (simp add: t(5) set_group_map_of)
  note f = file_step [OF rep S i t(2,3,4,6,7,8,9) W]
  show ?thesis using that [OF t(1) f(1,2)] f(3) t(5,10) by (simp add: set_group_map_of)
qed

section \<open>Looking in the file\<close>

text \<open>
  The group of a module and a setting in it: there is none, or it is at a place in the blob of
  the group.
\<close>

lemma look_up:
  assumes at: "groups_at s ofs c gs" and dist: "distinct (map module_of gs)"
  obtains (no_group) "find (\<lambda>g. module_of g = mo) gs = None" and "map_of (view gs) mo = None"
  | (absent) as x g bs xs where "gs = as @ (x, g) # bs" and "find (\<lambda>g. module_of g = mo) gs = Some (x, g)" and "x \<noteq> 0"
      and "DBRead_settings s x = Some g" and "st_ofsModuleName g = mo" and "map_of (view gs) mo = Some xs"
      and "name \<notin> fst ` set xs" and "find_setting (st_blob g) name 0 = Some (length (settings_bytes xs))"
      and "blob_at (st_blob g) (length (settings_bytes xs)) = Some 0"
  | (present) as x g bs ps t d qs rest where "gs = as @ (x, g) # bs" and "find (\<lambda>g. module_of g = mo) gs = Some (x, g)" and "x \<noteq> 0"
      and "DBRead_settings s x = Some g" and "st_ofsModuleName g = mo" and "map_of (view gs) mo = Some (ps @ (name, t, d) # qs)"
      and "name \<notin> fst ` set (ps @ qs)" and "setting_ok (name, t, d)" and "\<forall>y \<in> set (ps @ qs). setting_ok y"
      and "distinct (map fst (ps @ qs))"
      and "st_blob g = settings_bytes ps @ setting_bytes (name, t, d) @ settings_bytes qs @ 0 # rest"
      and "find_setting (st_blob g) name 0 = Some (length (settings_bytes ps))"
      and "blob_at (st_blob g) (length (settings_bytes ps)) = Some (of_nat (length name))" and "(of_nat (length name) :: u8) \<noteq> 0"
proof (cases rule: find_module [of mo gs])
  case none
  then show ?thesis using no_group by (simp add: map_of_eq_None_iff)
next
  case (some as x g bs)
  have x: "m_objs s x = Some (ObjSettings g)" "0 < x" using groups_at_object [OF at, of x g] some(1) by simp_all
  then have rd: "DBRead_settings s x = Some g" "x \<noteq> 0" by (simp_all add: DBRead_settings_def)
  obtain xs where rep: "blob_rep (st_blob g) xs" using groups_atD(7) [OF at] some(1) by auto
  have "mo \<notin> fst ` set (view as)" using dist some(1,2) unfolding view_modules by auto
  then have V: "map_of (view gs) mo = Some xs"
    using some(1,2) settings_in_rep [OF rep] by (simp add: map_add_def map_of_eq_None_iff [THEN iffD2] split: option.split)
  show ?thesis
  proof (cases rule: find_setting_cases [OF rep, of name])
    case 1
    then show ?thesis using absent [OF some(1,3) rd(2,1) some(2) V] by simp
  next
    case (2 ps ty d qs rest)
    have "\<forall>y \<in> set (ps @ qs). setting_ok y" "distinct (map fst (ps @ qs))" using rep 2(1) by (auto simp: blob_rep_def)
    then show ?thesis using present [OF some(1,3) rd(2,1) some(2) V [unfolded 2(1)]] 2 by simp
  qed
qed

section \<open>Deleting in the file\<close>

definition erase_in_file :: "dbenv \<Rightarrow> CDb3Mmap \<Rightarrow> u32 \<Rightarrow> bytes \<Rightarrow> bytes \<Rightarrow> (bool \<times> CDb3Mmap) option" where
  "erase_in_file E s contactID szModule name =
     do {
       (ofsModuleName, s) \<leftarrow> GetModuleNameOfs s szModule;
       (ofsContact, cc) \<leftarrow> GetContactOffset s contactID;
       if signature_at s ofsContact \<noteq> DBCONTACT_SIGNATURE then Some (False, s)
       else
         do {
           dbc \<leftarrow> DBRead_contact s ofsContact;
           ofsGroup \<leftarrow> GetSettingsGroupOfsByModuleNameOfs s ofsModuleName (dc_ofsFirstSettings dbc);
           if ofsGroup = 0 then Some (False, s)
           else
             do {
               g \<leftarrow> DBRead_settings s ofsGroup;
               i \<leftarrow> find_setting (st_blob g) name 0;
               c \<leftarrow> blob_at (st_blob g) i;
               if c = 0 then Some (False, s)
               else do { (eos, s) \<leftarrow> cut_setting E s ofsGroup i (length name); Some (True, s) }
             }
         }
     }"

lemma bind_if: "Option.bind (if b then x else y) f = (if b then Option.bind x f else Option.bind y f)"
  by simp

lemma bind_pair: "Option.bind (case p of (a, b) \<Rightarrow> g a b) f = (case p of (a, b) \<Rightarrow> Option.bind (g a b) f)"
  by (cases p) simp

lemma erase_setting_eq:
  "erase_setting E s contactID szModule szSetting =
     do {
       (szCached, s) \<leftarrow> GetCachedSetting s (Some szModule) szSetting;
       resident \<leftarrow> resident_flag s szCached;
       if resident = 0 then
         do {
           (found, s) \<leftarrow> erase_in_file E s contactID szModule (c_str szSetting);
           if found then do { (p, s) \<leftarrow> GetCachedValuePtr s contactID szCached (-1); Some (None, s) }
           else Some (Some 1, s)
         }
       else
         do {
           (p, s) \<leftarrow> GetCachedValuePtr s contactID szCached (-1);
           Some (if p = None then Some 1 else None, s)
         }
     }"
  by (simp add: erase_setting_def erase_in_file_def Let_def Option.bind_assoc bind_if bind_pair cong: if_cong)

lemma blob_view:
  assumes "mo \<notin> fst ` set (view (as @ bs))" and "st_ofsModuleName g = mo"
  shows "blob_rep (st_blob g) ys \<Longrightarrow> map_of (view (as @ (x, g) # bs)) mo = Some ys"
    and "y \<noteq> mo \<Longrightarrow> map_of (view (as @ (x, g) # bs)) y = map_of (view (as @ bs)) y"
proof -
  have "map_of (view as) mo = None" "map_of (view bs) mo = None" using assms(1) by (simp_all add: map_of_eq_None_iff image_Un)
  then show "blob_rep (st_blob g) ys \<Longrightarrow> map_of (view (as @ (x, g) # bs)) mo = Some ys"
    "y \<noteq> mo \<Longrightarrow> map_of (view (as @ (x, g) # bs)) y = map_of (view (as @ bs)) y"
    using settings_in_rep [of "st_blob g" ys] assms(2) by (simp_all add: map_add_def split: option.split)
qed

lemma erase_in_file_rep:
  assumes ok: "db_ok s" and i: "known s i" and room: "file_end s + int (length m) + size_module < 2147483648"
  obtains t xs where "erase_in_file E s i m n = Some (n \<in> fst ` set xs, t)" and "file_kept s t i m"
    and "settings_of s i m = Some xs" and "settings_of t i m = Some (filter (\<lambda>x. fst x \<noteq> n) xs)"
    and "file_end t \<le> file_end s + int (length m) + size_module"
proof -
  obtain H where rep: "db_rep s (cached s) H" and ls: "listed s (cached s) H" using db_okE [OF ok] .
  obtain S where S: "settings_rep (m_objs s) (set (roots s (cached s))) S" using db_rep_settings [OF rep] .
  obtain ofs where ofs: "(i, ofs) \<in> set (roots s (cached s))" using i unfolding known_def by force
  obtain mo s1 k c where s1: "GetModuleNameOfs s m = Some (mo, s1)" "db_rep s1 (cached s) H" "listed s1 (cached s) H"
    "settings_rep (m_objs s1) (set (roots s1 (cached s))) S" "same_but_space s s1" "m_objs s1 mo = Some (ObjModule k)"
    "mn_name k = c_str m" "file_end s1 \<le> file_end s + int (length m) + size_module" "\<forall>y v. m_objs s y = Some v \<longrightarrow> m_objs s1 y = Some v"
    "GetContactOffset s i = Some (ofs, if i = 0 then None else lookup (cached s) i)"
    "GetContactOffset s1 i = Some (ofs, if i = 0 then None else lookup (cached s) i)"
    "ofs \<noteq> 0" "(i, ofs) \<in> set (roots s1 (cached s))" "signature_at s1 ofs = DBCONTACT_SIGNATURE" "DBRead_contact s1 ofs = Some c"
    "groups_at s1 ofs c (S i)" "groups_ok (m_objs s1) (S i)"
    "GetSettingsGroupOfsByModuleNameOfs s1 mo (dc_ofsFirstSettings c) =
      Some (case find (\<lambda>g. module_of g = mo) (S i) of None \<Rightarrow> 0 | Some g \<Rightarrow> fst g)"
    using settings_lookup [OF rep ls S ofs room] .
  have dist: "distinct (map module_of (S i))" using s1(17) by (simp add: groups_ok_def)
  have kept: "m_objs s1 y = Some (ObjModule k)" if "m_objs s y = Some (ObjModule k)" for y k using s1(9) that by simp
  have "settings_rep (m_objs s1) (set (roots s1 (cached s))) (S(i := S i))" using s1(4) by simp
  note stay = file_step [OF rep S i s1(2,3) this s1(5,6,7) kept refl]
  show ?thesis
  proof (cases rule: look_up [OF s1(16) dist, where mo = mo and name = n])
    case 1
    then have "erase_in_file E s i m n = Some (False, s1)" using s1(1,11,14,15,18) by (simp add: erase_in_file_def)
    then show ?thesis using that [of "[]" s1] stay 1 s1(8) by simp
  next
    case (2 as x g bs xs)
    then have "erase_in_file E s i m n = Some (False, s1)" using s1(1,11,14,15,18) by (simp add: erase_in_file_def)
    then show ?thesis using that [of xs s1] stay 2(6,7) s1(8) by (simp add: filter_other)
  next
    case (3 as x g bs ps ty d qs rest)
    have at: "groups_at s1 ofs c (as @ (x, g) # bs)" using s1(16) 3(1) by simp
    obtain g' where r: "cut_setting E s1 x (length (settings_bytes ps)) (length n) =
        Some (length (settings_bytes (ps @ qs)), s1\<lparr>m_objs := (m_objs s1)(x \<mapsto> ObjSettings g')\<rparr>)"
      "groups_step s1 (s1\<lparr>m_objs := (m_objs s1)(x \<mapsto> ObjSettings g')\<rparr>) ofs c c (as @ (x, g) # bs) (as @ (x, g') # bs)"
      "blob_rep (st_blob g') (ps @ qs)" "st_ofsModuleName g' = st_ofsModuleName g"
      using cut_setting_step [OF at 3(11,8,9,10)] .
    let ?t = "s1\<lparr>m_objs := (m_objs s1)(x \<mapsto> ObjSettings g')\<rparr>" and ?gs = "as @ (x, g') # bs"
    have st: "groups_step s1 ?t ofs c c (S i) ?gs" using r(2) 3(1) by simp
    have mods: "map module_of ?gs = map module_of (S i)" using r(4) 3(1) by simp
    then have dist': "distinct (map module_of ?gs)" using dist by simp
    have "\<exists>k. m_objs s1 (module_of p) = Some (ObjModule k)" if "p \<in> set ?gs" for p
    proof -
      have "module_of p \<in> set (map module_of ?gs)" using that by (metis image_eqI set_map)
      then obtain q where "q \<in> set (S i)" "module_of q = module_of p" unfolding mods by auto
      then show ?thesis using s1(17) unfolding groups_ok_def by metis
    qed
    note t = groups_step_rep [OF s1(2,3,4,13,16) st dist' this]
    have "mo \<notin> fst ` set (view (as @ bs))" using dist 3(1,5) unfolding view_modules by auto
    note V = blob_view [OF this]
    have eq: "map_of (view ?gs) mo = Some (ps @ qs)" using V(1) [OF _ r(3)] r(4) 3(5) by simp
    have same: "map_of (view ?gs) y = map_of (view (S i)) y" if "y \<noteq> mo" for y
      using V(2) [OF _ that, of g x] V(2) [OF _ that, of g' x] r(4) 3(1,5) by simp
    have sb: "same_but_space s ?t" using space.R_trans [OF s1(5) groups_stepD(2) [OF st]] .
    have mo: "m_objs ?t mo = Some (ObjModule k)" using step_module [OF s1(16) st] s1(6) by simp
    have "m_objs ?t y = Some (ObjModule k)" if "m_objs s y = Some (ObjModule k)" for y k
      using step_module [OF s1(16) st] kept [OF that] by simp
    note f = file_step [OF rep S i t(1,2,3) sb mo s1(7) this same]
    have "erase_in_file E s i m n = Some (True, ?t)"
      using 3(2-4,12-14) r(1) s1(1,11,14,15,18) by (simp add: erase_in_file_def)
    then show ?thesis
      using that [of "ps @ (n, ty, d) # qs" ?t] f eq 3(6,7) s1(8) by (simp add: filter_other image_Un)
  qed
qed

end
