(* ===== verification/DbKeys.thy ===== *)
theory DbKeys imports DbValues begin

text \<open>
  Tables of named things, sorted by \<open>strcmp\<close>: the names of settings and the cached values of the
  user.  The cache of settings of a database and what it holds of a contact.
\<close>

section \<open>Tables of names\<close>

abbreviation by_name :: "('a \<Rightarrow> bytes) \<Rightarrow> 'a sort_func" where
  "by_name key \<equiv> SortFn (\<lambda>a b. strcmp (key a) (key b))"

interpretation name_order: sorted_table "by_name key" for key
proof
  fix a b c
  show "sort_cmp (by_name key) a a = 0" by (simp add: strcmp_eq)
  show "sort_cmp (by_name key) a b < 0 \<longleftrightarrow> sort_cmp (by_name key) b a > 0"
    using strcmp_flip [of "key a" "key b"] by simp
  show "sort_cmp (by_name key) a b \<le> 0 \<Longrightarrow> sort_cmp (by_name key) b c \<le> 0 \<Longrightarrow> sort_cmp (by_name key) a c \<le> 0"
    using strcmp_trans by simp
qed simp

lemma name_order_defs: "SortFn stringCompare = by_name cs_name" "SortFn compareGlobals = by_name gv_name"
  by (simp_all add: stringCompare_def compareGlobals_def fun_eq_iff)

definition name_table :: "('a \<Rightarrow> bytes) \<Rightarrow> 'a slist \<Rightarrow> 'a list \<Rightarrow> bool" where
  "name_table key l xs \<longleftrightarrow> table_rep (by_name key) l xs \<and> distinct (map key xs) \<and> (\<forall>x \<in> set xs. c_str (key x) = key x)"

lemma name_find:
  assumes "name_table key l xs"
  obtains (absent) "LIST_getIndex l (Some v) = Some (-1)" and "c_str (key v) \<notin> key ` set xs"
  | (present) i where "LIST_getIndex l (Some v) = Some (int i)" and "i < length xs" and "key (xs ! i) = c_str (key v)"
      and "LIST_at l (int i) = Some (xs ! i)"
proof -
  have rep: "table_rep (by_name key) l xs" and n: "\<And>x. x \<in> set xs \<Longrightarrow> c_str (key x) = key x"
    using assms by (simp_all add: name_table_def)
  obtain i where i: "LIST_getIndex l (Some v) = Some i" using name_order.getIndex_total [OF rep] .
  show ?thesis
  proof (cases "i = -1")
    case True
    then have "\<forall>x \<in> set xs. strcmp (key x) (key v) \<noteq> 0" using name_order.getIndex_absent [OF rep, of v] i by simp
    then have "c_str (key v) \<notin> key ` set xs" using n by (force simp: strcmp_eq)
    then show ?thesis using absent i True by simp
  next
    case False
    have b: "0 \<le> i" "i < int (length xs)" "strcmp (key (xs ! nat i)) (key v) = 0"
      using name_order.getIndex_present [OF rep i False] by simp_all
    then have "key (xs ! nat i) = c_str (key v)" using n [of "xs ! nat i"] by (simp add: strcmp_eq)
    then show ?thesis using present [of "nat i"] i b table_rep_at [OF rep, of i] by simp
  qed
qed

lemma name_insert:
  assumes "name_table key l xs" and "key v \<notin> key ` set xs" and "c_str (key v) = key v"
  obtains l' ys where "List_InsertPtr l (Some v) = Some (1, l')" and "name_table key l' ys" and "set ys = insert v (set xs)"
proof -
  have rep: "table_rep (by_name key) l xs" using assms(1) by (simp add: name_table_def)
  obtain l' i where i: "List_InsertPtr l (Some v) = Some (1, l')" "i \<le> length xs" "table_rep (by_name key) l' (take i xs @ v # drop i xs)"
    using name_order.InsertPtr_spec [OF rep] .
  have set: "set (take i xs @ v # drop i xs) = insert v (set xs)"
    by (metis append_take_drop_id set_append Un_insert_right list.simps(15))
  have "distinct (map key (take i xs) @ map key (drop i xs))" using assms(1) by (simp add: name_table_def flip: map_append)
  moreover have "key v \<notin> key ` set (take i xs)" "key v \<notin> key ` set (drop i xs)"
    using assms(2) set_take_subset [of i xs] set_drop_subset [of i xs] by blast+
  ultimately have "distinct (map key (take i xs @ v # drop i xs))" by auto
  moreover have "\<forall>x \<in> set (take i xs @ v # drop i xs). c_str (key x) = key x"
    unfolding set using assms(1,3) by (auto simp: name_table_def)
  ultimately have "name_table key l' (take i xs @ v # drop i xs)" using i(3) unfolding name_table_def by blast
  then show ?thesis using that i(1) set by blast
qed

lemma name_put:
  assumes "name_table key l xs" and "i < length xs" and "key y = key (xs ! i)"
  obtains its where "arr_write (items l) (int i) (Some y) = Some its" and "name_table key (l\<lparr>items := its\<rparr>) (xs[i := y])"
proof -
  have rep: "table_rep (by_name key) l xs" using assms(1) by (simp add: name_table_def)
  then have sl: "slist_rep l xs" by (simp add: table_rep_def)
  then have room: "i < length (items l)" using assms(2) by (simp add: slist_rep_def)
  let ?its = "(items l)[i := Some y]"
  have "take (length xs) ?its = map Some (xs[i := y])" using sl by (simp add: slist_rep_def take_update_swap map_update)
  then have "slist_rep (l\<lparr>items := ?its\<rparr>) (xs[i := y])" using sl by (simp add: slist_rep_def)
  moreover have keys: "map key (xs[i := y]) = map key xs"
    using assms(2,3) by (simp add: map_update) (metis list_update_id nth_map)
  have "sorted_by (sort_cmp (by_name key)) zs \<longleftrightarrow> sorted_wrt (\<lambda>a b. strcmp a b \<le> 0) (map key zs)" for zs
    by (simp add: sorted_by_def sorted_wrt_map)
  then have "sorted_by (sort_cmp (by_name key)) (xs[i := y])" using rep keys unfolding table_rep_def by metis
  ultimately have "table_rep (by_name key) (l\<lparr>items := ?its\<rparr>) (xs[i := y])" using rep by (simp add: table_rep_def)
  moreover have "c_str (key x) = key x" if "x \<in> set (xs[i := y])" for x
  proof -
    have "key x \<in> set (map key xs)" using that unfolding keys [symmetric] by (metis image_eqI set_map)
    then show ?thesis using assms(1) by (auto simp: name_table_def)
  qed
  ultimately have "name_table key (l\<lparr>items := ?its\<rparr>) (xs[i := y])"
    using assms(1) keys unfolding name_table_def by simp
  then show ?thesis using that arr_write_nat [OF room] by blast
qed

lemma name_remove:
  assumes "name_table key l xs" and "i < length xs"
  obtains l' where "List_Remove l (int i) = Some (1, l')" and "name_table key l' (take i xs @ drop (Suc i) xs)"
proof -
  have rep: "table_rep (by_name key) l xs" using assms(1) by (simp add: name_table_def)
  obtain l' where l': "List_Remove l (int i) = Some (1, l')" "table_rep (by_name key) l' (take i xs @ drop (Suc i) xs)"
    using name_order.Remove_spec [OF rep, of "int i"] assms(2) by auto
  have "distinct (map key (take i xs @ xs ! i # drop (Suc i) xs))"
    using assms by (simp add: name_table_def id_take_nth_drop [symmetric] del: map_append)
  then have "distinct (map key (take i xs @ drop (Suc i) xs))" by auto
  moreover have "set (take i xs @ drop (Suc i) xs) \<subseteq> set xs" using set_take_subset set_drop_subset by fastforce
  ultimately have "name_table key l' (take i xs @ drop (Suc i) xs)" using assms(1) l'(2) unfolding name_table_def by blast
  then show ?thesis using that l'(1) by blast
qed

section \<open>The names of settings\<close>

definition names_ok :: "CDb3Mmap \<Rightarrow> bool" where
  "names_ok s \<longleftrightarrow>
     (\<exists>cs. name_table cs_name (m_lSettings s) cs \<and> (\<forall>c \<in> set cs. cs_resident c = 0) \<and>
        (\<forall>l. m_lastSetting s = Some l \<longrightarrow> l \<in> cs_name ` set cs))"

definition key_of :: "bytes \<Rightarrow> bytes \<Rightarrow> bytes" where
  "key_of m n = c_str m @ 47 # c_str n"

lemma c_str_zero [simp]: "0 \<notin> set (c_str a)"
  by (auto simp: c_str_def dest: set_takeWhileD)

lemma c_str_id: "0 \<notin> set a \<Longrightarrow> c_str a = a"
  unfolding c_str_def takeWhile_eq_all_conv by metis

lemma c_str_key [simp]: "c_str (key_of m n) = key_of m n"
  by (rule c_str_id) (simp add: key_of_def)

lemma key_of_inject:
  assumes "47 \<notin> set (c_str m)" and "47 \<notin> set (c_str m')"
  shows "key_of m n = key_of m' n' \<longleftrightarrow> c_str m = c_str m' \<and> c_str n = c_str n'"
proof
  assume eq: "key_of m n = key_of m' n'"
  have t: "takeWhile (\<lambda>x. x \<noteq> 47) (key_of m n) = c_str m" if "47 \<notin> set (c_str m)" for m n
    unfolding key_of_def by (subst takeWhile_append2) (use that in auto)
  have "c_str m = c_str m'" using t [OF assms(1), of n] t [OF assms(2), of n'] eq by simp
  then show "c_str m = c_str m' \<and> c_str n = c_str n'" using eq by (simp add: key_of_def)
qed (simp add: key_of_def)

lemma GetCachedSetting_rep:
  assumes ok: "names_ok s" and len: "length (key_of m n) < 512"
  obtains l where "GetCachedSetting s (Some m) n = Some (key_of m n, s\<lparr>m_lSettings := l, m_lastSetting := Some (key_of m n)\<rparr>)"
    and "names_ok (s\<lparr>m_lSettings := l, m_lastSetting := Some (key_of m n)\<rparr>)"
    and "\<And>t :: CDb3Mmap. m_lSettings t = l \<Longrightarrow> resident_flag t (key_of m n) = Some 0"
proof -
  let ?k = "key_of m n" and ?c = "\<lparr>cs_name = key_of m n, cs_resident = 0\<rparr>"
  obtain cs where cs: "name_table cs_name (m_lSettings s) cs" "\<forall>c \<in> set cs. cs_resident c = 0"
    "\<And>l. m_lastSetting s = Some l \<Longrightarrow> l \<in> cs_name ` set cs"
    using ok by (auto simp: names_ok_def)
  have key: "c_str m @ 47 # c_str n = ?k" by (simp add: key_of_def)
  have flag: "resident_flag t ?k = Some 0" if "name_table cs_name (m_lSettings t) ds" "\<forall>c \<in> set ds. cs_resident c = 0" "?k \<in> cs_name ` set ds"
    for t :: CDb3Mmap and ds
  proof (cases rule: name_find [OF that(1), of ?c])
    case 1
    then show ?thesis using that(3) by simp
  next
    case (2 i)
    then show ?thesis using that(2) by (simp add: resident_flag_def)
  qed
  show ?thesis
  proof (cases "m_lastSetting s = Some ?k")
    case True
    then have "s\<lparr>m_lSettings := m_lSettings s, m_lastSetting := Some ?k\<rparr> = s" by simp
    moreover have "GetCachedSetting s (Some m) n = Some (?k, s)"
      using True len by (simp add: GetCachedSetting_def key strcmp_eq Let_def del: c_str_key)
    ultimately show ?thesis using that [of "m_lSettings s"] ok flag [OF _ cs(2) cs(3) [OF True]] cs(1) by simp
  next
    case False
    have last: "strcmp ?k l \<noteq> 0" if "m_lastSetting s = Some l" for l
      using cs(3) [OF that] cs(1) False that by (auto simp: strcmp_eq name_table_def)
    have not_last: "\<not> (case m_lastSetting s of None \<Rightarrow> False | Some l \<Rightarrow> strcmp ?k l = 0)"
      using last by (auto split: option.split)
    show ?thesis
    proof (cases rule: name_find [OF cs(1), of ?c])
      case 1
      then have "?k \<notin> cs_name ` set cs" by simp
      then obtain l' ds where l': "List_InsertPtr (m_lSettings s) (Some ?c) = Some (1, l')" "name_table cs_name l' ds"
        "set ds = insert ?c (set cs)"
        using name_insert [OF cs(1), of ?c] by auto
      have "GetCachedSetting s (Some m) n = Some (?k, s\<lparr>m_lSettings := l', m_lastSetting := Some ?k\<rparr>)"
        using not_last len 1(1) l'(1) unfolding GetCachedSetting_def option.case key Let_def by simp
      moreover have "\<forall>c \<in> set ds. cs_resident c = 0" "?k \<in> cs_name ` set ds" using l'(3) cs(2) by auto
      moreover have "names_ok (s\<lparr>m_lSettings := l', m_lastSetting := Some ?k\<rparr>)"
        using l'(2) calculation(2,3) by (auto simp: names_ok_def)
      ultimately show ?thesis using that [of l'] flag l'(2) by simp
    next
      case (2 i)
      have "s\<lparr>m_lSettings := m_lSettings s, m_lastSetting := Some ?k\<rparr> = s\<lparr>m_lastSetting := Some ?k\<rparr>" by simp
      moreover have "GetCachedSetting s (Some m) n = Some (?k, s\<lparr>m_lastSetting := Some ?k\<rparr>)"
        using not_last len 2 unfolding GetCachedSetting_def option.case key Let_def by simp
      moreover have mem: "?k \<in> cs_name ` set cs" using 2(2,3) by (metis c_str_key CachedSetting.select_convs(1) image_eqI nth_mem)
      moreover have "names_ok (s\<lparr>m_lastSetting := Some ?k\<rparr>)" using cs(1,2) mem by (auto simp: names_ok_def)
      ultimately show ?thesis using that [of "m_lSettings s"] flag [OF _ cs(2) mem] cs(1) by simp
    qed
  qed
qed

end
