(* ===== verification/DbCached.thy ===== *)
theory DbCached imports DbKeys begin

text \<open>
  The cached values of a contact, as a map from the keys of settings.  The operations of the cache
  change that map as they should and nothing else of the database.
\<close>

section \<open>The values\<close>

definition cached_values :: "CDb3Mmap \<Rightarrow> u32 \<Rightarrow> (bytes \<times> DBVARIANT) list" where
  "cached_values s i =
     (if i = 0 then map (\<lambda>g. (gv_name g, gv_value g)) (contents (m_lGlobalSettings s))
      else case lookup (cached s) i of None \<Rightarrow> [] | Some cc \<Rightarrow> cc_values cc)"

definition cval :: "CDb3Mmap \<Rightarrow> u32 \<Rightarrow> bytes \<Rightarrow> DBVARIANT option" where
  "cval s i = map_of (cached_values s i)"

definition values_ok :: "CDb3Mmap \<Rightarrow> bool" where
  "values_ok s \<longleftrightarrow>
     (\<exists>gs. name_table gv_name (m_lGlobalSettings s) gs) \<and> (\<forall>cc \<in> set (cached s). distinct (map fst (cc_values cc)))"

lemma name_table_contents: "name_table key l xs \<Longrightarrow> contents l = xs"
  by (simp add: name_table_def table_rep_def contents_rep)

section \<open>What changes only the cache\<close>

abbreviation strip :: "DBCachedContact \<Rightarrow> DBCachedContact" where "strip \<equiv> cc_values_update (\<lambda>_. [])"

definition but_caches :: "CDb3Mmap \<Rightarrow> CDb3Mmap" where
  "but_caches s = s\<lparr>m_lContacts := LIST_new 0 NoSort, m_lGlobalSettings := LIST_new 0 NoSort,
     m_lSettings := LIST_new 0 NoSort, m_lastSetting := None\<rparr>"

lemma but_caches_simps [simp]:
  "but_caches (s\<lparr>m_lContacts := l\<rparr>) = but_caches s" "but_caches (s\<lparr>m_lGlobalSettings := g\<rparr>) = but_caches s"
  "but_caches (s\<lparr>m_lSettings := x\<rparr>) = but_caches s" "but_caches (s\<lparr>m_lastSetting := y\<rparr>) = but_caches s"
  by (simp_all add: but_caches_def)

definition same_store :: "CDb3Mmap \<Rightarrow> CDb3Mmap \<Rightarrow> bool" where
  "same_store s t \<longleftrightarrow>
     but_caches t = but_caches s \<and>
     map strip (cached t) = map strip (cached s) \<and>
     (\<forall>H. db_state s (cached s) H \<longrightarrow> db_state t (cached t) H)"

interpretation store: step_relation same_store
  by unfold_locales (simp_all add: same_store_def)

lemma same_store_fields:
  assumes "same_store s t"
  shows "m_objs t = m_objs s" "m_dbHeader t = m_dbHeader s" "m_bEncrypted t = m_bEncrypted s" "m_dwFileSize t = m_dwFileSize s"
proof -
  have e: "but_caches t = but_caches s" using assms by (simp add: same_store_def)
  show "m_objs t = m_objs s" using arg_cong [OF e, of m_objs] by (simp add: but_caches_def)
  show "m_dbHeader t = m_dbHeader s" using arg_cong [OF e, of m_dbHeader] by (simp add: but_caches_def)
  show "m_bEncrypted t = m_bEncrypted s" using arg_cong [OF e, of m_bEncrypted] by (simp add: but_caches_def)
  show "m_dwFileSize t = m_dwFileSize s" using arg_cong [OF e, of m_dwFileSize] by (simp add: but_caches_def)
qed

lemma same_store_strip:
  assumes "map strip (cached t) = map strip (cached s)" and "m_dbHeader t = m_dbHeader s"
  shows "parents (cached t) = parents (cached s)" and "roots t (cached t) = roots s (cached s)"
    and "map_option strip (lookup (cached t) i) = map_option strip (lookup (cached s) i)"
proof -
  have look: "map_option strip (lookup xs j) = lookup (map strip xs) j" for xs j
    by (induction xs) (auto simp: lookup_def)
  show lk: "map_option strip (lookup (cached t) j) = map_option strip (lookup (cached s) j)" for j
    unfolding look assms(1) ..
  have par: "parents xs j = (case map_option strip (lookup xs j) of None \<Rightarrow> 0 | Some cc \<Rightarrow> cc_parentID cc)" for xs j
    by (auto simp: parents_def split: option.split)
  show "parents (cached t) = parents (cached s)" unfolding fun_eq_iff par lk by simp
  have m: "map (\<lambda>cc. (cc_contactID cc, cc_dwOfsContact cc)) xs = map (\<lambda>cc. (cc_contactID cc, cc_dwOfsContact cc)) (map strip xs)" for xs
    by simp
  show "roots t (cached t) = roots s (cached s)"
    by (simp only: roots_def assms(2) m [of "cached t"] m [of "cached s"] assms(1))
qed

lemma same_store_views:
  assumes st: "same_store s t" and ok: "db_ok s"
  shows "db_ok t" and "known t j \<longleftrightarrow> known s j" and "known s j \<Longrightarrow> settings_of t j k = settings_of s j k"
    and "known s j \<Longrightarrow> events_forward t j = events_forward s j"
proof -
  obtain H where H: "db_rep s (cached s) H" "listed s (cached s) H" using db_okE [OF ok] .
  then have H': "db_rep t (cached t) H" "listed t (cached t) H" using st by (auto simp: same_store_def db_state_def)
  note f = same_store_fields [OF st]
  have sp: "map strip (cached t) = map strip (cached s)" using st by (simp add: same_store_def)
  note g = same_store_strip [OF sp f(2)]
  show "db_ok t" using db_stateI [OF H'] .
  show "known t j \<longleftrightarrow> known s j" by (simp add: known_def g)
  assume j: "known s j"
  obtain S where S: "settings_rep (m_objs s) (set (roots s (cached s))) S" using db_rep_settings [OF H(1)] .
  have S': "settings_rep (m_objs t) (set (roots t (cached t))) S" using S by (simp add: f g)
  obtain ofs where "(j, ofs) \<in> set (roots s (cached s))" using j unfolding known_def by force
  then show "settings_of t j k = settings_of s j k"
    using settings_of_rep [OF H(1) S] settings_of_rep [OF H'(1) S'] f(1) g(2) by simp
  show "events_forward t j = events_forward s j"
    using events_forward_rep [OF H(1)] events_forward_rep [OF H'(1)] j unfolding known_def g by simp
qed

lemma same_store_caches:
  assumes "\<exists>g x y. t = s\<lparr>m_lGlobalSettings := g, m_lSettings := x, m_lastSetting := y\<rparr>"
  shows "same_store s t"
proof -
  obtain g x y where t: "t = s\<lparr>m_lGlobalSettings := g, m_lSettings := x, m_lastSetting := y\<rparr>" using assms by blast
  have c: "cached t = cached s" by (simp add: t cached_def)
  have r: "roots t ccs = roots s ccs" for ccs by (simp add: t roots_def)
  have "db_state t (cached t) H" if "db_state s (cached s) H" for H
    using that unfolding c db_state_def db_rep_def listed_def table_ok_def links_ok_def base_ok_def mods_ok_def r by (simp add: t)
  then show ?thesis using c unfolding same_store_def by (simp add: t)
qed

lemma put_values:
  assumes ok: "db_ok s" and i: "known s i" "i \<noteq> 0"
  obtains t cc where "put_cached s i (cc_values_update f) = Some t" and "same_store s t"
    and "cached t = change_contact i (cc_values_update f) (cached s)"
    and "m_lGlobalSettings t = m_lGlobalSettings s" "m_lSettings t = m_lSettings s" "m_lastSetting t = m_lastSetting s"
    and "lookup (cached s) i = Some cc"
    and "\<And>j. lookup (cached t) j = (if j = i then Some (cc_values_update f cc) else lookup (cached s) j)"
proof -
  obtain H where H: "db_rep s (cached s) H" "listed s (cached s) H" using db_okE [OF ok] .
  note tab = db_repD(6) [OF H(1)]
  have ids: "i \<in> cc_contactID ` set (cached s)" using i by (auto simp: known_def roots_def)
  obtain l where l: "put_cached s i (cc_values_update f) = Some (s\<lparr>m_lContacts := l\<rparr>)"
    "table_rep (NumericKeySortT cc_contactID) l (change_contact i (cc_values_update f) (cached s))"
    by (rule put_cached_rep [of s "cached s" i "cc_values_update f"])
      (use tab table_distinct(1) [OF tab] ids in \<open>auto simp: table_ok_def\<close>)
  let ?t = "s\<lparr>m_lContacts := l\<rparr>"
  have c: "cached ?t = change_contact i (cc_values_update f) (cached s)"
    using l(2) by (simp add: cached_def table_rep_def contents_rep)
  have "db_state ?t (cached ?t) K" if "db_state s (cached s) K" for K
    using that change_contact_rep [of "cc_values_update f" s "cached s" K l i] l(2) unfolding c db_state_def by simp
  moreover have "map strip (change_contact i (cc_values_update f) xs) = map strip xs" for xs
    by (simp add: change_contact_def)
  ultimately have "same_store s ?t" unfolding same_store_def c by simp
  moreover obtain cc where cc: "lookup (cached s) i = Some cc" using ids lookup_None [of "cached s" i] by auto
  moreover have "lookup (cached ?t) j = (if j = i then Some (cc_values_update f cc) else lookup (cached s) j)" for j
  proof -
    have "lookup (cached ?t) j = map_option (\<lambda>cc. if cc_contactID cc = i then cc_values_update f cc else cc) (lookup (cached s) j)"
      unfolding c by (rule change_contact_roots(4)) simp_all
    then show ?thesis using cc lookup_Some [of "cached s" j] by (cases "lookup (cached s) j") auto
  qed
  ultimately show ?thesis using that [OF l(1)] c by simp
qed

section \<open>Association lists\<close>

lemma map_of_insert:
  assumes "set b = insert (k, v) (set a)" and "distinct (map fst a)" "distinct (map fst b)" and "k \<notin> fst ` set a"
  shows "map_of b = (map_of a)(k \<mapsto> v)"
proof
  fix j
  show "map_of b j = ((map_of a)(k \<mapsto> v)) j"
  proof (cases "map_of b j")
    case None
    then have "j \<notin> fst ` set b" by (simp add: map_of_eq_None_iff)
    then have "j \<noteq> k" "j \<notin> fst ` set a" using assms(1) by auto
    then show ?thesis using None by (simp add: map_of_eq_None_iff [symmetric])
  next
    case (Some w)
    then have "(j, w) \<in> set b" using assms(3) by simp
    then show ?thesis using Some assms by (cases "j = k") force+
  qed
qed

lemma map_of_at:
  assumes "distinct (map fst a)" and "i < length a" and "fst (a ! i) = k"
  shows "map_of (a[i := (k, v)]) = (map_of a)(k \<mapsto> v)" and "map_of (take i a @ drop (Suc i) a) = (map_of a)(k := None)"
proof -
  have sp: "a = take i a @ (k, snd (a ! i)) # drop (Suc i) a" using assms(2,3) id_take_nth_drop [of i a] by (cases "a ! i") simp
  have "distinct (map fst (take i a) @ k # map fst (drop (Suc i) a))"
    using assms(1) by (subst (asm) sp) (simp only: map_append list.map fst_conv)
  then have n: "map_of (take i a) k = None" "map_of (drop (Suc i) a) k = None" by (simp_all add: map_of_eq_None_iff)
  have "map_of a = map_of (take i a @ (k, snd (a ! i)) # drop (Suc i) a)" using sp by simp
  then have e: "map_of a = (map_of (drop (Suc i) a))(k \<mapsto> snd (a ! i)) ++ map_of (take i a)" by simp
  have "a[i := (k, v)] = take i a @ (k, v) # drop (Suc i) a" using assms(2) by (simp add: upd_conv_take_nth_drop)
  then show "map_of (a[i := (k, v)]) = (map_of a)(k \<mapsto> v)"
    unfolding e using n by (auto simp: map_add_def fun_eq_iff split: option.split)
  show "map_of (take i a @ drop (Suc i) a) = (map_of a)(k := None)"
    unfolding e using n by (auto simp: map_add_def fun_eq_iff split: option.split)
qed

lemma map_of_put: "map_of vs k = Some w \<Longrightarrow> map_of (map (\<lambda>w. if fst w = k then (k, v) else w) vs) = (map_of vs)(k \<mapsto> v)"
  using map_of_map_at [of k "\<lambda>_. v" vs] by (auto simp: fun_eq_iff)

lemma map_fst_put: "map fst (map (\<lambda>w. if fst w = k then (k, v) else w) vs) = map fst vs"
  by (induction vs) auto

lemma remove_value_map:
  assumes "distinct (map fst vs)"
  shows "map_of (remove_value k vs) = (map_of vs)(k := None)" and "distinct (map fst (remove_value k vs))"
proof -
  have "map_of (remove_value k vs) = (map_of vs)(k := None) \<and> distinct (map fst (remove_value k vs)) \<and>
      set (remove_value k vs) \<subseteq> set vs"
    using assms
  proof (induction vs)
    case (Cons v vs)
    show ?case
    proof (cases "fst v = k")
      case True
      then have "map_of vs k = None" using Cons.prems by (simp add: map_of_eq_None_iff)
      then show ?thesis using True Cons.prems by (auto simp: remove_value_def)
    next
      case False
      have "remove_value k (v # vs) = v # remove_value k vs" using False by (simp add: remove_value_def)
      then show ?thesis using Cons False by (cases v) auto
    qed
  qed (simp add: remove_value_def)
  then show "map_of (remove_value k vs) = (map_of vs)(k := None)" "distinct (map fst (remove_value k vs))" by simp_all
qed

section \<open>Looking, putting, removing\<close>

lemma cval_user: "name_table gv_name (m_lGlobalSettings s) gs \<Longrightarrow> cval s 0 = map_of (map (\<lambda>g. (gv_name g, gv_value g)) gs)"
  by (simp add: cval_def cached_values_def name_table_contents)

lemma cval_contact: "i \<noteq> 0 \<Longrightarrow> cval s i = (case lookup (cached s) i of None \<Rightarrow> Map.empty | Some cc \<Rightarrow> map_of (cc_values cc))"
  by (simp add: cval_def cached_values_def split: option.split)

lemma kv_distinct: "name_table gv_name l gs \<Longrightarrow> distinct (map fst (map (\<lambda>g. (gv_name g, gv_value g)) gs))"
  by (simp add: name_table_def comp_def)

lemma find_user:
  assumes "name_table gv_name (m_lGlobalSettings s) gs" and "c_str k = k"
  obtains (absent) "find_global s k = Some (-1)" and "k \<notin> gv_name ` set gs" and "cval s 0 k = None"
  | (present) n where "find_global s k = Some (int n)" and "n < length gs" and "gv_name (gs ! n) = k"
      and "LIST_at (m_lGlobalSettings s) (int n) = Some (gs ! n)" and "cval s 0 k = Some (gv_value (gs ! n))"
proof (cases rule: name_find [OF assms(1), of "\<lparr>gv_name = k, gv_value = zero_variant\<rparr>"])
  case 1
  then have "k \<notin> gv_name ` set gs" using assms(2) by simp
  moreover from this have "cval s 0 k = None" unfolding cval_user [OF assms(1)] by (auto simp: map_of_eq_None_iff)
  ultimately show ?thesis using absent 1(1) by (simp add: find_global_def)
next
  case (2 n)
  have "(k, gv_value (gs ! n)) \<in> set (map (\<lambda>g. (gv_name g, gv_value g)) gs)"
    using 2(2,3) assms(2) by (auto intro!: image_eqI [of _ _ "gs ! n"])
  then have "cval s 0 k = Some (gv_value (gs ! n))"
    unfolding cval_user [OF assms(1)] using kv_distinct [OF assms(1)] by (intro map_of_is_SomeI) simp_all
  then show ?thesis using present 2 assms(2) by (simp add: find_global_def)
qed

lemma known_contact:
  assumes "known s i" and "i \<noteq> 0"
  obtains cc where "lookup (cached s) i = Some cc" and "cc \<in> set (cached s)"
proof -
  have "i \<in> cc_contactID ` set (cached s)" using assms by (auto simp: known_def roots_def)
  then obtain cc where "lookup (cached s) i = Some cc" using lookup_None [of "cached s" i] by auto
  then show ?thesis using that lookup_Some by blast
qed

lemma GetCachedContact_known: "db_ok s \<Longrightarrow> GetCachedContact s i = Some (lookup (cached s) i)"
  using GetCachedContact_rep db_repD(6) db_okE by metis

lemma cached_value_look:
  assumes ok: "db_ok s" and vals: "values_ok s" and k: "c_str k = k" and i: "known s i"
  shows "GetCachedValuePtr s i k 0 = Some (cval s i k, s)"
proof (cases "i = 0")
  case True
  obtain gs where gs: "name_table gv_name (m_lGlobalSettings s) gs" using vals by (auto simp: values_ok_def)
  show ?thesis
    by (cases rule: find_user [OF gs k]) (simp_all add: GetCachedValuePtr_def True)
next
  case False
  obtain cc where "lookup (cached s) i = Some cc" using known_contact [OF i False] .
  then show ?thesis
    using False by (simp add: GetCachedValuePtr_def GetCachedContact_known [OF ok] cval_contact split: option.split)
qed

text \<open>What an operation on the cached values does: the map changes, the names stay.\<close>

definition value_step :: "CDb3Mmap \<Rightarrow> CDb3Mmap \<Rightarrow> u32 \<Rightarrow> (bytes \<Rightarrow> DBVARIANT option) \<Rightarrow> bool" where
  "value_step s t i f \<longleftrightarrow>
     same_store s t \<and> values_ok t \<and> cval t = (cval s)(i := f) \<and> m_lSettings t = m_lSettings s \<and> m_lastSetting t = m_lastSetting s"

lemma user_step:
  assumes vals: "values_ok s" and g: "name_table gv_name g ys"
    and f: "map_of (map (\<lambda>g. (gv_name g, gv_value g)) ys) = f"
  shows "value_step s (s\<lparr>m_lGlobalSettings := g\<rparr>) 0 f"
proof -
  let ?t = "s\<lparr>m_lGlobalSettings := g\<rparr>"
  have c: "cached ?t = cached s" by (simp add: cached_def)
  have "?t = s\<lparr>m_lGlobalSettings := g, m_lSettings := m_lSettings s, m_lastSetting := m_lastSetting s\<rparr>" by simp
  then have "same_store s ?t" by (intro same_store_caches) blast
  moreover have "values_ok ?t" using vals g c by (auto simp: values_ok_def)
  moreover have "cval ?t = (cval s)(0 := f)"
    using cval_user [of ?t ys] g f c by (auto simp: fun_eq_iff cval_contact)
  ultimately show ?thesis by (simp add: value_step_def)
qed

lemma contact_step:
  assumes ok: "db_ok s" and vals: "values_ok s" and i: "known s i" "i \<noteq> 0"
    and cc: "lookup (cached s) i = Some cc" and f: "distinct (map fst (f (cc_values cc)))"
  obtains t where "put_cached s i (cc_values_update f) = Some t" and "value_step s t i (map_of (f (cc_values cc)))"
proof -
  obtain t dd where t: "put_cached s i (cc_values_update f) = Some t" "same_store s t"
    "cached t = change_contact i (cc_values_update f) (cached s)"
    "m_lGlobalSettings t = m_lGlobalSettings s" "m_lSettings t = m_lSettings s" "m_lastSetting t = m_lastSetting s"
    "lookup (cached s) i = Some dd" "\<And>j. lookup (cached t) j = (if j = i then Some (cc_values_update f dd) else lookup (cached s) j)"
    using put_values [OF ok i, of f] by blast
  have dd: "dd = cc" using t(7) cc by simp
  have "distinct (map fst (cc_values x))" if "x \<in> set (cached t)" for x
  proof -
    obtain y where y: "y \<in> set (cached s)" "x = (if cc_contactID y = i then cc_values_update f y else y)"
      using \<open>x \<in> set (cached t)\<close> unfolding t(3) change_contact_def set_map by blast
    moreover have "y = cc" if "cc_contactID y = i"
      using y(1) lookup_unique [of "cached s" y] that cc table_distinct(1) db_repD(6) db_okE [OF ok] by (metis option.inject)
    ultimately show ?thesis using vals f by (auto simp: values_ok_def split: if_splits)
  qed
  then have "values_ok t" using vals t(4) by (simp add: values_ok_def)
  moreover have "cval t = (cval s)(i := map_of (f (cc_values cc)))"
  proof
    fix j
    show "cval t j = ((cval s)(i := map_of (f (cc_values cc)))) j"
    proof (cases "j = 0")
      case True
      then show ?thesis using i(2) t(4) by (simp add: cval_def cached_values_def)
    qed (use t(8) [of j] i(2) dd in \<open>simp add: cval_contact\<close>)
  qed
  ultimately show ?thesis using that t by (simp add: value_step_def)
qed

lemma value_step_same:
  assumes "values_ok s" and "f = cval s i"
  shows "value_step s s i f"
  using assms store.R_refl by (simp add: value_step_def)

lemma kv_insert:
  assumes "name_table gv_name l gs" "name_table gv_name l' ys" "set ys = insert \<lparr>gv_name = k, gv_value = v\<rparr> (set gs)" "k \<notin> gv_name ` set gs"
  shows "map_of (map (\<lambda>g. (gv_name g, gv_value g)) ys) = (map_of (map (\<lambda>g. (gv_name g, gv_value g)) gs))(k \<mapsto> v)"
  by (rule map_of_insert) (use assms kv_distinct in \<open>auto simp: image_image\<close>)

lemma cached_value_make:
  assumes ok: "db_ok s" and vals: "values_ok s" and k: "c_str k = k" and i: "known s i"
  obtains t V where "GetCachedValuePtr s i k 1 = Some (Some V, t)" and "value_step s t i ((cval s i)(k \<mapsto> V))"
    and "V = (case cval s i k of None \<Rightarrow> zero_variant | Some V \<Rightarrow> V)" and "cval s i k \<noteq> None \<longrightarrow> t = s"
proof (cases "i = 0")
  case True
  obtain gs where gs: "name_table gv_name (m_lGlobalSettings s) gs" using vals by (auto simp: values_ok_def)
  show ?thesis
  proof (cases rule: find_user [OF gs k])
    case 1
    let ?v = "\<lparr>gv_name = k, gv_value = zero_variant\<rparr>"
    have "gv_name ?v \<notin> gv_name ` set gs" "c_str (gv_name ?v) = gv_name ?v" using 1(2) k by simp_all
    then obtain l ys where l: "List_InsertPtr (m_lGlobalSettings s) (Some ?v) = Some (1, l)" "name_table gv_name l ys" "set ys = insert ?v (set gs)"
      by (rule name_insert [OF gs])
    have st: "value_step s (s\<lparr>m_lGlobalSettings := l\<rparr>) i ((cval s i)(k \<mapsto> zero_variant))"
      using user_step [OF vals l(2) kv_insert [OF gs l(2,3) 1(2)]] unfolding True cval_user [OF gs] .
    have "GetCachedValuePtr s i k 1 = Some (Some zero_variant, s\<lparr>m_lGlobalSettings := l\<rparr>)"
      unfolding GetCachedValuePtr_def using True 1(1) l(1) by simp
    then show ?thesis by (rule that [OF _ st]) (use 1(3) True in simp_all)
  next
    case (2 n)
    have st: "value_step s s i ((cval s i)(k \<mapsto> gv_value (gs ! n)))"
      by (rule value_step_same [OF vals fun_upd_idem]) (simp add: True 2(5))
    have "GetCachedValuePtr s i k 1 = Some (Some (gv_value (gs ! n)), s)"
      unfolding GetCachedValuePtr_def using True 2(1,4) by simp
    then show ?thesis by (rule that [OF _ st]) (simp_all add: True 2(5))
  qed
next
  case False
  obtain cc where cc: "lookup (cached s) i = Some cc" "cc \<in> set (cached s)" using known_contact [OF i False] .
  have cv: "cval s i = map_of (cc_values cc)" using cc(1) False by (simp add: cval_contact)
  show ?thesis
  proof (cases "map_of (cc_values cc) k")
    case None
    have "distinct (map fst (cc_values cc @ [(k, zero_variant)]))"
      using vals cc(2) None by (auto simp: values_ok_def map_of_eq_None_iff)
    then obtain t where t: "put_cached s i (cc_values_update (\<lambda>vs. vs @ [(k, zero_variant)])) = Some t"
      "value_step s t i (map_of (cc_values cc @ [(k, zero_variant)]))"
      using contact_step [OF ok vals i False cc(1), of "\<lambda>vs. vs @ [(k, zero_variant)]"] by blast
    have "map_of (cc_values cc @ [(k, zero_variant)]) = (cval s i)(k \<mapsto> zero_variant)"
      unfolding cv using None by (auto simp: map_add_def fun_eq_iff split: option.split)
    note st = t(2) [unfolded this]
    have "GetCachedValuePtr s i k 1 = Some (Some zero_variant, t)"
      unfolding GetCachedValuePtr_def GetCachedContact_known [OF ok] cc(1) using False None t(1) by simp
    then show ?thesis by (rule that [OF _ st]) (simp_all add: cv None)
  next
    case (Some V)
    have st: "value_step s s i ((cval s i)(k \<mapsto> V))"
      by (rule value_step_same [OF vals fun_upd_idem]) (simp add: cv Some)
    have "GetCachedValuePtr s i k 1 = Some (Some V, s)"
      unfolding GetCachedValuePtr_def GetCachedContact_known [OF ok] cc(1) using False Some by simp
    then show ?thesis by (rule that [OF _ st]) (simp_all add: cv Some)
  qed
qed

lemma put_value_rep:
  assumes ok: "db_ok s" and vals: "values_ok s" and k: "c_str k = k" and i: "known s i" and V: "cval s i k = Some V"
  obtains t where "put_value s i k w = Some t" and "value_step s t i ((cval s i)(k \<mapsto> w))"
proof (cases "i = 0")
  case True
  obtain gs where gs: "name_table gv_name (m_lGlobalSettings s) gs" using vals by (auto simp: values_ok_def)
  show ?thesis
  proof (cases rule: find_user [OF gs k])
    case 1
    then show ?thesis using V True by simp
  next
    case (2 n)
    let ?y = "(gs ! n)\<lparr>gv_value := w\<rparr>"
    obtain its where its: "arr_write (items (m_lGlobalSettings s)) (int n) (Some ?y) = Some its"
      "name_table gv_name ((m_lGlobalSettings s)\<lparr>items := its\<rparr>) (gs[n := ?y])"
      using name_put [OF gs 2(2), of ?y] by auto
    have "map_of (map (\<lambda>g. (gv_name g, gv_value g)) (gs[n := ?y])) = (cval s 0)(k \<mapsto> w)"
      using map_of_at(1) [OF kv_distinct [OF gs], of n k w] 2(2,3) by (simp add: map_update cval_user [OF gs])
    then have "value_step s (s\<lparr>m_lGlobalSettings := (m_lGlobalSettings s)\<lparr>items := its\<rparr>\<rparr>) 0 ((cval s 0)(k \<mapsto> w))"
      by (rule user_step [OF vals its(2)])
    then show ?thesis using that its(1) 2 True by (simp add: put_value_def)
  qed
next
  case False
  obtain cc where cc: "lookup (cached s) i = Some cc" "cc \<in> set (cached s)" using known_contact [OF i False] .
  have cv: "cval s i = map_of (cc_values cc)" using cc(1) False by (simp add: cval_contact)
  let ?f = "map (\<lambda>w'. if fst w' = k then (k, w) else w')"
  have "distinct (map fst (?f (cc_values cc)))" unfolding map_fst_put using vals cc(2) by (simp add: values_ok_def)
  then obtain t where t: "put_cached s i (cc_values_update ?f) = Some t" "value_step s t i (map_of (?f (cc_values cc)))"
    using contact_step [OF ok vals i False cc(1), of ?f] by blast
  moreover have "map_of (?f (cc_values cc)) = (cval s i)(k \<mapsto> w)" using map_of_put [of "cc_values cc" k V w] V cv by simp
  ultimately show ?thesis using that False by (simp add: put_value_def)
qed

lemma cached_value_drop:
  assumes ok: "db_ok s" and vals: "values_ok s" and k: "c_str k = k" and i: "known s i"
  obtains p t where "GetCachedValuePtr s i k (-1) = Some (p, t)" and "value_step s t i ((cval s i)(k := None))"
proof (cases "i = 0")
  case True
  obtain gs where gs: "name_table gv_name (m_lGlobalSettings s) gs" using vals by (auto simp: values_ok_def)
  show ?thesis
  proof (cases rule: find_user [OF gs k])
    case 1
    have "value_step s s 0 ((cval s 0)(k := None))" 
      by (rule value_step_same [OF vals fun_upd_idem]) (rule 1(3))
    then show ?thesis using that [of None s] 1 True by (simp add: GetCachedValuePtr_def)
  next
    case (2 n)
    obtain l where l: "List_Remove (m_lGlobalSettings s) (int n) = Some (1, l)" "name_table gv_name l (take n gs @ drop (Suc n) gs)"
      using name_remove [OF gs 2(2)] .
    have "map_of (map (\<lambda>g. (gv_name g, gv_value g)) (take n gs @ drop (Suc n) gs)) = (cval s 0)(k := None)"
      using map_of_at(2) [OF kv_distinct [OF gs], of n k] 2(2,3) by (simp add: take_map drop_map cval_user [OF gs])
    then have "value_step s (s\<lparr>m_lGlobalSettings := l\<rparr>) 0 ((cval s 0)(k := None))" by (rule user_step [OF vals l(2)])
    then show ?thesis using that 2 l(1) True by (simp add: GetCachedValuePtr_def)
  qed
next
  case False
  obtain cc where cc: "lookup (cached s) i = Some cc" "cc \<in> set (cached s)" using known_contact [OF i False] .
  have cv: "cval s i = map_of (cc_values cc)" using cc(1) False by (simp add: cval_contact)
  show ?thesis
  proof (cases "map_of (cc_values cc) k")
    case None
    have "value_step s s i ((cval s i)(k := None))" 
      by (rule value_step_same [OF vals fun_upd_idem]) (simp add: cv None)
    then show ?thesis using that [of None s] None False cc(1) by (simp add: GetCachedValuePtr_def GetCachedContact_known [OF ok])
  next
    case (Some V)
    have d: "distinct (map fst (cc_values cc))" using vals cc(2) by (simp add: values_ok_def)
    obtain t where t: "put_cached s i (cc_values_update (remove_value k)) = Some t"
      "value_step s t i (map_of (remove_value k (cc_values cc)))"
      using contact_step [OF ok vals i False cc(1), of "remove_value k"] remove_value_map(2) [OF d] by blast
    then show ?thesis
      using that Some False cc(1) remove_value_map(1) [OF d] cv by (simp add: GetCachedValuePtr_def GetCachedContact_known [OF ok])
  qed
qed

end
