(* ===== verification/DbStored.thy ===== *)
theory DbStored imports DbCached begin

text \<open>
  The settings of a database as a map from contacts, modules and names to types and values: the
  file holds the map, the cache holds parts of it, and reading, writing and deleting a setting
  through the cache are the operations of the map.
\<close>

section \<open>The map\<close>

definition stored :: "CDb3Mmap \<Rightarrow> u32 \<Rightarrow> bytes \<Rightarrow> bytes \<Rightarrow> (u8 \<times> bytes) option" where
  "stored s i m n = do { xs \<leftarrow> settings_of s i m; map_of xs (c_str n) }"

text \<open>A variant that stands for the type and the bytes of a value in the file.\<close>

definition holds :: "DBVARIANT \<Rightarrow> u8 \<Rightarrow> bytes \<Rightarrow> bool" where
  "holds v t d \<longleftrightarrow>
     dv_type v = t \<and> (if is_string t then (\<exists>m. dv_mem v = Some m \<and> c_str m = d) else value_data v = Some d)"

definition clean_value :: "u8 \<Rightarrow> bytes \<Rightarrow> bool" where
  "clean_value t d \<longleftrightarrow> value_type t \<and> t \<noteq> DBVT_ENCRYPTED \<and> (is_string t \<longrightarrow> 0 \<notin> set d)"

definition clean :: "CDb3Mmap \<Rightarrow> bool" where
  "clean s \<longleftrightarrow> (\<forall>i m n t d. known s i \<longrightarrow> stored s i m n = Some (t, d) \<longrightarrow> clean_value t d)"

text \<open>What is cached is what the file has.  A module name with a slash in it has no say in this.\<close>

definition coherent :: "CDb3Mmap \<Rightarrow> bool" where
  "coherent s \<longleftrightarrow>
     (\<forall>i m n v. known s i \<longrightarrow> 47 \<notin> set (c_str m) \<longrightarrow> cval s i (key_of m n) = Some v \<longrightarrow>
        (\<exists>t d. stored s i m n = Some (t, d) \<and> holds v t d \<and> t \<noteq> DBVT_BLOB))"

definition store_ok :: "CDb3Mmap \<Rightarrow> bool" where
  "store_ok s \<longleftrightarrow> db_ok s \<and> names_ok s \<and> values_ok s \<and> clean s \<and> coherent s"

text \<open>A contact whose settings are its own.\<close>

definition not_meta :: "CDb3Mmap \<Rightarrow> u32 \<Rightarrow> bool" where
  "not_meta s i \<longleftrightarrow> (case lookup (cached s) i of None \<Rightarrow> True | Some cc \<Rightarrow> \<not> IsMeta cc)"

lemma not_meta_store:
  assumes "same_store s t"
  shows "not_meta t i = not_meta s i"
proof -
  have e: "map_option strip (lookup (cached t) i) = map_option strip (lookup (cached s) i)"
    by (rule same_store_strip(3) [OF _ same_store_fields(2) [OF assms]]) (use assms in \<open>simp add: same_store_def\<close>)
  have m: "not_meta s i = (case map_option strip (lookup (cached s) i) of None \<Rightarrow> True | Some cc \<Rightarrow> \<not> IsMeta cc)" for s
    by (cases "lookup (cached s) i") (simp_all add: not_meta_def IsMeta_def)
  show ?thesis unfolding m e ..
qed

text \<open>A change of the map at one place: contacts and histories stay.\<close>

definition store_update :: "CDb3Mmap \<Rightarrow> CDb3Mmap \<Rightarrow> u32 \<Rightarrow> bytes \<Rightarrow> bytes \<Rightarrow> (u8 \<times> bytes) option \<Rightarrow> bool" where
  "store_update s t i m n w \<longleftrightarrow>
     store_ok t \<and>
     (\<forall>j. known t j \<longleftrightarrow> known s j) \<and>
     (\<forall>j k l. known s j \<longrightarrow>
        stored t j k l = (if j = i \<and> c_str k = c_str m \<and> c_str l = c_str n then w else stored s j k l)) \<and>
     (\<forall>j. known s j \<longrightarrow> events_forward t j = events_forward s j) \<and>
     (\<forall>j. not_meta t j \<longleftrightarrow> not_meta s j)"

section \<open>What the steps keep\<close>

lemma same_but_space_cache:
  assumes "same_but_space s t"
  shows "cval t = cval s" "names_ok t = names_ok s" "values_ok t = values_ok s" "known t j = known s j" "cached t = cached s"
proof -
  have f: "m_lContacts t = m_lContacts s" "m_lGlobalSettings t = m_lGlobalSettings s" "m_lSettings t = m_lSettings s"
    "m_lastSetting t = m_lastSetting s" using assms by (simp_all add: same_but_space_def)
  show c: "cached t = cached s" using f(1) by (simp add: cached_def)
  show "cval t = cval s" using f(2) c by (simp add: cval_def cached_values_def fun_eq_iff)
  show "names_ok t = names_ok s" using f(3,4) by (simp add: names_ok_def)
  show "values_ok t = values_ok s" using f(2) c by (simp add: values_ok_def)
  show "known t j = known s j" using header_same_roots [OF same_header [OF assms]] c by (simp add: known_def)
qed

text \<open>The steps of an operation: through the cache to \<open>u\<close>, then in the file to \<open>v\<close>, then through the cache to \<open>t\<close>.\<close>

lemma store_updateI:
  assumes s: "store_ok s" and i: "known s i" and m: "47 \<notin> set (c_str m)"
    and su: "same_store s u" and uv: "file_kept u v i m" and vt: "same_store v t"
    and names: "names_ok t" and vals: "values_ok t"
    and fil: "\<And>l. stored v i m l = (if c_str l = c_str n then w else stored s i m l)"
    and w: "\<And>ty d. w = Some (ty, d) \<Longrightarrow> clean_value ty d"
    and cache: "\<And>j k. j \<noteq> i \<or> k \<noteq> key_of m n \<Longrightarrow> cval t j k = cval s j k"
    and own: "\<And>x. cval t i (key_of m n) = Some x \<Longrightarrow> \<exists>ty d. w = Some (ty, d) \<and> holds x ty d \<and> ty \<noteq> DBVT_BLOB"
  shows "store_update s t i m n w"
proof -
  have ok: "db_ok s" "clean s" "coherent s" using s by (simp_all add: store_ok_def)
  note vu = same_store_views [OF su ok(1)]
  have v: "db_ok v" "same_but_space u v" using uv by (simp_all add: file_kept_def)
  note vw = same_store_views [OF vt v(1)]
  have known: "known t j = known s j" for j using vw(2) same_but_space_cache(4) [OF v(2)] vu(2) by simp
  have st: "stored t j k l = (if j = i \<and> c_str k = c_str m \<and> c_str l = c_str n then w else stored s j k l)"
    if j: "known s j" for j k l
  proof -
    have j': "known u j" "known v j" using j vu(2) same_but_space_cache(4) [OF v(2)] by simp_all
    have tv: "stored t j k l = stored v j k l" using vw(3) [OF j'(2)] by (simp add: stored_def)
    show ?thesis
    proof (cases "j = i \<and> c_str k = c_str m")
      case True
      then have "settings_of v j k = settings_of v i m" "settings_of s j k = settings_of s i m"
        by (simp_all add: settings_of_def)
      then have "stored v j k l = stored v i m l" "stored s j k l = stored s i m l" by (simp_all add: stored_def)
      then show ?thesis using tv fil [of l] True by simp
    next
      case False
      then have "settings_of v j k = settings_of u j k" using uv j'(1) by (auto simp: file_kept_def)
      then show ?thesis using tv vu(3) [OF j] False by (auto simp: stored_def)
    qed
  qed
  have ev: "events_forward t j = events_forward s j" if "known s j" for j
    using that vu(2,4) vw(4) uv same_but_space_cache(4) [OF v(2)] by (simp add: file_kept_def)
  have "cached v = cached u" using same_but_space_cache(5) [OF v(2)] .
  then have meta: "not_meta t j = not_meta s j" for j
    using not_meta_store [OF su, of j] not_meta_store [OF vt, of j] by (simp add: not_meta_def)
  have "clean t"
    unfolding clean_def
  proof (intro allI impI)
    fix j k l ty d
    assume a: "known t j" "stored t j k l = Some (ty, d)"
    then show "clean_value ty d" using st [of j k l] known w ok(2) unfolding clean_def by (auto split: if_splits)
  qed
  moreover have "coherent t"
    unfolding coherent_def
  proof (intro allI impI)
    fix j k l x
    assume a: "known t j" "47 \<notin> set (c_str k)" "cval t j (key_of k l) = Some x"
    then have j: "known s j" using known by simp
    show "\<exists>ty d. stored t j k l = Some (ty, d) \<and> holds x ty d \<and> ty \<noteq> DBVT_BLOB"
    proof (cases "j = i \<and> key_of k l = key_of m n")
      case True
      then have "c_str k = c_str m \<and> c_str l = c_str n" using key_of_inject [OF a(2) m] by simp
      then show ?thesis using own [of x] a(3) True st [OF j, of k l] by simp
    next
      case False
      then have "\<not> (j = i \<and> c_str k = c_str m \<and> c_str l = c_str n)" by (auto simp: key_of_def)
      moreover have "cval s j (key_of k l) = Some x" using cache [of j "key_of k l"] False a(3) by auto
      ultimately show ?thesis using ok(3) j a(2) st [OF j, of k l] unfolding coherent_def by auto
    qed
  qed
  ultimately have "store_ok t" using vw(1) names vals by (simp add: store_ok_def)
  then show ?thesis using known st ev meta by (simp add: store_update_def)
qed

section \<open>Values\<close>

lemma word_bytes_inject: "word_bytes a = word_bytes b \<longleftrightarrow> a = b"
proof
  assume "word_bytes a = word_bytes b"
  then have e: "(ucast a :: u8) = ucast b" "(ucast (drop_bit 8 a) :: u8) = ucast (drop_bit 8 b)" by (simp_all add: word_bytes_def)
  have "a = ucast (ucast a :: u8) OR push_bit 8 (ucast (ucast (drop_bit 8 a) :: u8))" by (rule word_of_bytes [symmetric])
  also have "\<dots> = ucast (ucast b :: u8) OR push_bit 8 (ucast (ucast (drop_bit 8 b) :: u8))" by (simp only: e)
  also have "\<dots> = b" by (rule word_of_bytes)
  finally show "a = b" .
qed simp

lemma dword_bytes_inject: "dword_bytes a = dword_bytes b \<longleftrightarrow> a = b"
proof
  assume "dword_bytes a = dword_bytes b"
  then have e: "(ucast a :: u8) = ucast b" "(ucast (drop_bit 8 a) :: u8) = ucast (drop_bit 8 b)"
    "(ucast (drop_bit 16 a) :: u8) = ucast (drop_bit 16 b)" "(ucast (drop_bit 24 a) :: u8) = ucast (drop_bit 24 b)"
    by (simp_all only: dword_bytes_def list.inject)
  have "a = load32 (ucast a) (ucast (drop_bit 8 a)) (ucast (drop_bit 16 a)) (ucast (drop_bit 24 a))" by (rule dword_of_bytes [symmetric])
  also have "\<dots> = load32 (ucast b) (ucast (drop_bit 8 b)) (ucast (drop_bit 16 b)) (ucast (drop_bit 24 b))" by (simp only: e)
  also have "\<dots> = b" by (rule dword_of_bytes)
  finally show "a = b" .
qed simp

lemma type_neq:
  "DBVT_BYTE \<noteq> DBVT_WORD" "DBVT_BYTE \<noteq> DBVT_DWORD" "DBVT_WORD \<noteq> DBVT_DWORD" "DBVT_BYTE \<noteq> DBVT_BLOB" "DBVT_WORD \<noteq> DBVT_BLOB"
  "DBVT_DWORD \<noteq> DBVT_BLOB" "DBVT_BYTE \<noteq> DBVT_ENCRYPTED" "DBVT_WORD \<noteq> DBVT_ENCRYPTED" "DBVT_DWORD \<noteq> DBVT_ENCRYPTED"
  "DBVT_BLOB \<noteq> DBVT_ENCRYPTED" "DBVT_BYTE \<noteq> DBVT_DELETED" "DBVT_WORD \<noteq> DBVT_DELETED" "DBVT_DWORD \<noteq> DBVT_DELETED"
  "DBVT_BLOB \<noteq> DBVT_DELETED" "DBVT_BYTE_HIDDEN \<noteq> DBVT_BYTE" "DBVT_BYTE_HIDDEN \<noteq> DBVT_WORD" "DBVT_BYTE_HIDDEN \<noteq> DBVT_DWORD"
  "DBVT_WCHAR \<noteq> DBVT_BYTE" "DBVT_WCHAR \<noteq> DBVT_WORD" "DBVT_WCHAR \<noteq> DBVT_DWORD" "DBVT_WCHAR \<noteq> DBVT_BYTE_HIDDEN"
  by (simp_all add: type_defs)

lemmas type_simps = type_neq type_neq [symmetric]

lemma clean_types:
  assumes "clean_value t d"
  obtains "t = DBVT_BYTE" | "t = DBVT_WORD" | "t = DBVT_DWORD" | "is_string t" | "t = DBVT_BLOB"
  using assms by (auto simp: clean_value_def value_type_def is_binary_def)

lemma type_facts:
  "\<not> is_string DBVT_BYTE" "\<not> is_string DBVT_WORD" "\<not> is_string DBVT_DWORD" "\<not> is_string DBVT_BLOB"
  "DBVT_BYTE AND DBVTF_VARIABLELENGTH = 0" "DBVT_WORD AND DBVTF_VARIABLELENGTH = 0" "DBVT_DWORD AND DBVTF_VARIABLELENGTH = 0" "is_string DBVT_UTF8" "\<not> is_string DBVT_WCHAR"
  "\<not> is_string DBVT_BYTE_HIDDEN"
  "is_string t \<Longrightarrow> t \<noteq> DBVT_BYTE \<and> t \<noteq> DBVT_WORD \<and> t \<noteq> DBVT_DWORD \<and> t \<noteq> DBVT_BLOB \<and> t \<noteq> DBVT_DELETED \<and>
    t \<noteq> DBVT_ENCRYPTED \<and> t \<noteq> DBVT_BYTE_HIDDEN \<and> t \<noteq> DBVT_WCHAR \<and> variable t \<and> \<not> is_binary t"
  by (auto simp: is_string_def is_binary_def type_defs)

lemma is_identical_holds:
  assumes "holds V t' d'" "clean_value t' d'" "holds w t d" "clean_value t d" "t \<noteq> DBVT_BLOB"
  shows "is_identical V w = Some (t' = t \<and> d' = d)"
proof (cases "t' = t")
  case True
  from assms(4) show ?thesis
  proof (cases rule: clean_types)
    case 4
    then show ?thesis using True assms(1,3) by (auto simp: is_identical_def holds_def type_facts strcmp_eq)
  qed (use True assms in \<open>auto simp: is_identical_def holds_def value_data_def type_facts type_simps word_bytes_inject dword_bytes_inject\<close>)
qed (use assms(1,3) in \<open>simp add: is_identical_def holds_def\<close>)

text \<open>The value that a caller asks to be written, when it is not a blob.\<close>

definition plain :: "DBVARIANT \<Rightarrow> (u8 \<times> bytes) option" where
  "plain v =
     (if dv_type v = DBVT_BYTE \<or> dv_type v = DBVT_BYTE_HIDDEN then Some (DBVT_BYTE, [ucast (dv_val v)])
      else if dv_type v = DBVT_WORD then Some (DBVT_WORD, word_bytes (ucast (dv_val v)))
      else if dv_type v = DBVT_DWORD then Some (DBVT_DWORD, dword_bytes (dv_val v))
      else if is_string (dv_type v) \<or> dv_type v = DBVT_WCHAR then
        do {
          m \<leftarrow> dv_mem v;
          if length (c_str m) < 65536 then Some (if dv_type v = DBVT_WCHAR then DBVT_UTF8 else dv_type v, c_str m) else None
        }
      else None)"

lemma take_c_str: "take (length (c_str m)) m = c_str m" "length (c_str m) \<le> length m"
  by (simp_all only: c_str_def takeWhile_eq_take [symmetric] length_takeWhile_le)

lemma c_str_append0: "c_str (a @ 0 # b) = c_str a"
  by (induction a) (simp_all add: c_str_def)

lemma string_value:
  assumes "is_string (dv_type v)" and "dv_mem v = Some m" and "length (c_str m) < 65536"
  shows "value_data (v\<lparr>dv_len := of_nat (length (c_str m))\<rparr>) = Some (c_str m)"
  using assms take_c_str [of m] by (simp add: value_data_def type_facts bytes_at_def unat_of_nat)

lemma plain_work:
  assumes "plain v = Some (t, d)"
  obtains nv wv w where "notif_value (quiet enc dec) v = Some nv" and "work_value (quiet enc dec) s m n nv = Some wv"
    and "dv_type wv = t" and "value_data wv = Some d" and "clean_value t d" and "t \<noteq> DBVT_BLOB" and "holds wv t d"
    and "SetCachedVariant wv = Some w" and "holds w t d"
proof -
  let ?E = "quiet enc dec"
  have q: "de_crypto ?E = False" "de_utf8 ?E = Some" by (simp_all add: quiet_def)
  consider (num) "dv_type v \<in> {DBVT_BYTE, DBVT_WORD, DBVT_DWORD}" | (hidden) "dv_type v = DBVT_BYTE_HIDDEN"
    | (str) "is_string (dv_type v) \<or> dv_type v = DBVT_WCHAR"
    using assms by (auto simp: plain_def split: if_splits)
  then show ?thesis
  proof cases
    case num
    have "value_data v = Some d" "dv_type v = t"
      using num assms by (auto simp: plain_def value_data_def type_facts type_simps)
    moreover have "clean_value t d" "t \<noteq> DBVT_BLOB" "\<not> is_string t" "\<not> variable t"
      using num calculation(2) by (auto simp: clean_value_def value_type_def type_facts type_simps)
    moreover have "notif_value ?E v = Some v" "work_value ?E s m n v = Some v"
      using num by (auto simp: notif_value_def work_value_def type_facts type_simps)
    ultimately show ?thesis
      by (intro that [of v v v]) (simp_all add: holds_def SetCachedVariant_def)
  next
    case hidden
    let ?v = "v\<lparr>dv_type := DBVT_BYTE\<rparr>"
    have "t = DBVT_BYTE" "d = [ucast (dv_val v)]" using hidden assms by (simp_all add: plain_def)
    moreover have "notif_value ?E v = Some ?v" "work_value ?E s m n ?v = Some ?v"
      using hidden by (simp_all add: notif_value_def work_value_def type_facts type_simps)
    ultimately show ?thesis
      by (intro that [of ?v ?v ?v])
        (simp_all add: holds_def SetCachedVariant_def value_data_def clean_value_def value_type_def type_facts type_simps)
  next
    case str
    define v' where "v' = (if dv_type v = DBVT_WCHAR then v\<lparr>dv_type := DBVT_UTF8\<rparr> else v)"
    have nq: "dv_type v \<noteq> DBVT_BYTE_HIDDEN" "dv_type v \<notin> {DBVT_BYTE, DBVT_WORD, DBVT_DWORD}"
      using str type_facts(11) [of "dv_type v"] by (auto simp: type_simps)
    obtain mem where mem: "dv_mem v = Some mem" "length (c_str mem) < 65536" "d = c_str mem" "t = dv_type v'"
      using str assms nq by (auto simp: plain_def v'_def split: bind_splits if_splits)
    have st: "is_string t" "dv_type v' = t" "dv_mem v' = Some mem" using str mem(1,4) by (auto simp: v'_def type_facts)
    have upd: "v\<lparr>dv_mem := Some mem, dv_type := DBVT_UTF8\<rparr> = v\<lparr>dv_type := DBVT_UTF8\<rparr>" using mem(1) by (cases v) simp
    let ?w = "v'\<lparr>dv_len := of_nat (length d)\<rparr>"
    have "notif_value ?E v = Some v'" using mem(1) nq(1) upd by (simp add: notif_value_def v'_def q)
    moreover have "work_value ?E s m n v' = Some ?w"
      using st type_facts(11) [OF st(1)] mem(3) by (simp add: work_value_def q Let_def)
    moreover have "value_data ?w = Some d" using string_value [of v' mem] st mem(2,3) by simp
    moreover have "SetCachedVariant ?w = Some (?w\<lparr>dv_mem := Some (d @ [0])\<rparr>)"
      using st type_facts(11) [OF st(1)] mem(3) by (simp add: SetCachedVariant_def)
    moreover have "clean_value t d" using mem(3) st(1) type_facts(11) [OF st(1)] by (simp add: clean_value_def value_type_def)
    moreover have "holds ?w t d" "holds (?w\<lparr>dv_mem := Some (d @ [0])\<rparr>) t d"
      using st mem(3) by (simp_all add: holds_def c_str_append0)
    ultimately show ?thesis
      using st(2) type_facts(11) [OF st(1)]
      by (intro that [of v' ?w "?w\<lparr>dv_mem := Some (d @ [0])\<rparr>"]) simp_all
  qed
qed

section \<open>Writing\<close>

lemma value_step_names: "value_step s t i f \<Longrightarrow> names_ok t = names_ok s"
  by (simp add: value_step_def names_ok_def)

lemma file_kept_refl:
  assumes "db_ok s"
  shows "file_kept s s i m"
  using assms space.R_refl by (simp add: file_kept_def)

text \<open>The start of every operation: the name of the setting in the cache.\<close>

lemma store_name:
  assumes s: "store_ok s" and len: "length (key_of m n) < 512"
  obtains t where "GetCachedSetting s (Some m) n = Some (key_of m n, t)" and "store_ok t" and "same_store s t"
    and "cval t = cval s" and "\<forall>u :: CDb3Mmap. m_lSettings u = m_lSettings t \<longrightarrow> resident_flag u (key_of m n) = Some 0"
proof -
  have ok: "db_ok s" "names_ok s" "values_ok s" using s by (simp_all add: store_ok_def)
  obtain l where l: "GetCachedSetting s (Some m) n = Some (key_of m n, s\<lparr>m_lSettings := l, m_lastSetting := Some (key_of m n)\<rparr>)"
    "names_ok (s\<lparr>m_lSettings := l, m_lastSetting := Some (key_of m n)\<rparr>)"
    "\<And>t :: CDb3Mmap. m_lSettings t = l \<Longrightarrow> resident_flag t (key_of m n) = Some 0"
    using GetCachedSetting_rep [OF ok(2) len] by blast
  let ?t = "s\<lparr>m_lSettings := l, m_lastSetting := Some (key_of m n)\<rparr>"
  have "?t = s\<lparr>m_lGlobalSettings := m_lGlobalSettings s, m_lSettings := l, m_lastSetting := Some (key_of m n)\<rparr>" by simp
  then have st: "same_store s ?t" by (intro same_store_caches) blast
  have c: "cached ?t = cached s" by (simp add: cached_def)
  have cv: "cval ?t = cval s" using c by (simp add: cval_def cached_values_def fun_eq_iff)
  have vals: "values_ok ?t" using ok(3) c by (simp add: values_ok_def)
  note vw = same_store_views [OF st ok(1)]
  have "stored ?t j k x = stored s j k x" if "known s j" for j k x using vw(3) [OF that] by (simp add: stored_def)
  then have "clean ?t" "coherent ?t" using s vw(2) cv unfolding store_ok_def clean_def coherent_def by auto
  then have "store_ok ?t" using vw(1) l(2) vals by (simp add: store_ok_def)
  then show ?thesis using that l(1,3) st cv by simp
qed

definition room_for :: "CDb3Mmap \<Rightarrow> bytes \<Rightarrow> bytes \<Rightarrow> bytes \<Rightarrow> bool" where
  "room_for s m n d \<longleftrightarrow> 2 * file_end s + int (2 * length m + 2 * length n + 2 * length d) + 2048 < 2147483648"

lemma c_str_le: "length (c_str n) \<le> length n"
  by (simp add: c_str_def length_takeWhile_le)

lemma room_for_write:
  assumes "room_for s m n d" and "value_type (dv_type v)" and "value_data v = Some d" and "file_end u = file_end s"
  shows "write_room u m n v"
proof -
  have "value_size v \<le> length d + 2"
    using value_data_ok(2) [OF assms(2,3)] by (simp add: value_bytes_def split: if_splits)
  then show ?thesis using assms(1,4) c_str_le [of n] by (simp add: room_for_def write_room_def)
qed

lemma same_store_end: "same_store s t \<Longrightarrow> file_end t = file_end s"
  using same_store_fields(2) [of s t] by simp

lemma stored_of: "settings_of s i m = Some xs \<Longrightarrow> stored s i m n = map_of xs (c_str n)"
  by (simp add: stored_def)

lemma write_stored:
  assumes s: "store_ok s" and i: "known s i" "i \<noteq> INVALID_CONTACT_ID" and m: "47 \<notin> set (c_str m)"
    and n: "valid_name n" "length (key_of m n) < 512" and v: "plain v = Some (ty, d)" and room: "room_for s m n d"
  obtains t where "WriteContactSetting (quiet enc dec) s i (Some m) (Some n) (Some v) = Some (0, t)"
    and "store_update s t i m n (Some (ty, d))"
proof -
  let ?k = "key_of m n" and ?E = "quiet enc dec"
  obtain nv wv w where w: "notif_value ?E v = Some nv" "work_value ?E s m n nv = Some wv" "dv_type wv = ty" "value_data wv = Some d"
    "clean_value ty d" "ty \<noteq> DBVT_BLOB" "holds wv ty d" "SetCachedVariant wv = Some w" "holds w ty d"
    using plain_work [OF v] .
  obtain s1 where s1: "GetCachedSetting s (Some m) n = Some (?k, s1)" "store_ok s1" "same_store s s1" "cval s1 = cval s"
    "\<forall>u :: CDb3Mmap. m_lSettings u = m_lSettings s1 \<longrightarrow> resident_flag u ?k = Some 0"
    using store_name [OF s n(2)] .
  have ok: "db_ok s" using s by (simp add: store_ok_def)
  have ok1: "db_ok s1" "names_ok s1" "values_ok s1" "coherent s1" "clean s1" using s1(2) by (simp_all add: store_ok_def)
  have i1: "known s1 i" using same_store_views(2) [OF s1(3) ok] i(1) by simp
  obtain t1 V where V: "GetCachedValuePtr s1 i ?k 1 = Some (Some V, t1)" "value_step s1 t1 i ((cval s1 i)(?k \<mapsto> V))"
    "V = (case cval s1 i ?k of None \<Rightarrow> zero_variant | Some V \<Rightarrow> V)" "cval s1 i ?k \<noteq> None \<longrightarrow> t1 = s1"
    using cached_value_make [OF ok1(1,3) c_str_key [of m n] i1] .
  have stored1: "stored s1 i m l = stored s i m l" for l
    using same_store_views(3) [OF s1(3) ok i(1)] by (simp add: stored_def)
  have same: "is_identical V wv = Some (cval s1 i ?k \<noteq> None \<and> stored s i m n = Some (ty, d))"
  proof (cases "cval s1 i ?k")
    case None
    have "ty \<noteq> 0" using w(5) by (auto simp: clean_value_def value_type_def is_string_def is_binary_def type_defs)
    then show ?thesis using None V(3) w(3) by (simp add: is_identical_def zero_variant_def)
  next
    case (Some V0)
    then obtain t' d' where h: "stored s1 i m n = Some (t', d')" "holds V0 t' d'" using ok1(4) i1 m unfolding coherent_def by blast
    have "clean_value t' d'" using ok1(5) i1 h(1) unfolding clean_def by blast
    then have "is_identical V0 wv = Some (t' = ty \<and> d' = d)" using is_identical_holds [OF h(2) _ w(7,5,6)] by simp
    then show ?thesis using Some V(3) h(1) stored1 by simp
  qed
  show ?thesis
  proof (cases "cval s1 i ?k \<noteq> None \<and> stored s i m n = Some (ty, d)")
    case True
    then have "WriteContactSetting ?E s i (Some m) (Some n) (Some v) = Some (0, s1)"
      using i(2) w(1,2) s1(1) V(1,4) same by (simp add: WriteContactSetting_def store_setting_def)
    moreover have "store_update s s1 i m n (Some (ty, d))"
    proof (rule store_updateI [OF s i(1) m s1(3) file_kept_refl [OF ok1(1)] store.R_refl ok1(2,3)])
      show "stored s1 i m l = (if c_str l = c_str n then Some (ty, d) else stored s i m l)" for l
        using stored1 [of l] True by (simp add: stored_def)
      show "\<exists>ty' d'. Some (ty, d) = Some (ty', d') \<and> holds x ty' d' \<and> ty' \<noteq> DBVT_BLOB" if "cval s1 i ?k = Some x" for x
        using ok1(4) i1 m that True stored1 [of n] unfolding coherent_def by fastforce
    qed (use w(5) s1(4) in auto)
    ultimately show ?thesis by (rule that)
  next
    case False
    have st1: "same_store s1 t1" "values_ok t1" "cval t1 = (cval s1)(i := (cval s1 i)(?k \<mapsto> V))" "m_lSettings t1 = m_lSettings s1"
      using V(2) by (simp_all add: value_step_def)
    have t1: "db_ok t1" "known t1 i" using same_store_views(1,2) [OF st1(1) ok1(1)] i1 by simp_all
    have "cval t1 i ?k = Some V" using st1(3) by simp
    then obtain u where u: "put_value t1 i ?k w = Some u" "value_step t1 u i ((cval t1 i)(?k \<mapsto> w))"
      using put_value_rep [OF t1(1) st1(2) c_str_key [of m n] t1(2)] by blast
    have st2: "same_store t1 u" "values_ok u" "cval u = (cval t1)(i := (cval t1 i)(?k \<mapsto> w))" "m_lSettings u = m_lSettings s1"
      using u(2) st1(4) by (simp_all add: value_step_def)
    have su: "same_store s u" using store.R_trans [OF s1(3) store.R_trans [OF st1(1) st2(1)]] .
    have uv: "db_ok u" "known u i" using same_store_views(1,2) [OF su ok] i(1) by simp_all
    have names: "names_ok u" using value_step_names [OF u(2)] value_step_names [OF V(2)] ok1(2) by simp
    have ty: "value_type (dv_type wv)" using w(3,5) by (simp add: clean_value_def)
    obtain t xs where t: "WriteContactSettingWorker ?E u i m n wv = Some (0, t)" "file_kept u t i m"
      "settings_of u i m = Some xs" "settings_of t i m = Some (set_setting xs (c_str n, dv_type wv, d))"
      using worker_writes [OF uv n(1) ty w(4) room_for_write [OF room ty w(4) same_store_end [OF su]]] by blast
    have "store_setting ?E s i m n wv = Some (Some 0, t)"
      using s1(1) V(1) same False w(8) u(1) s1(5) [rule_format, OF st2(4)] t(1) by (simp add: store_setting_def)
    then have run: "WriteContactSetting ?E s i (Some m) (Some n) (Some v) = Some (0, t)"
      using i(2) w(1,2) by (simp add: WriteContactSetting_def)
    have sb: "same_but_space u t" using t(2) by (simp add: file_kept_def)
    note c = same_but_space_cache [OF sb]
    have "store_update s t i m n (Some (ty, d))"
    proof (rule store_updateI [OF s i(1) m su t(2) store.R_refl])
      show "names_ok t" "values_ok t" using c names st2(2) by simp_all
      have "settings_of s i m = Some xs" using same_store_views(3) [OF su ok i(1)] t(3) by simp
      then show "stored t i m l = (if c_str l = c_str n then Some (ty, d) else stored s i m l)" for l
        using t(4) w(3) by (simp add: stored_of set_setting_map)
      show "clean_value ty' d'" if "Some (ty, d) = Some (ty', d')" for ty' d' using that w(5) by simp
      show "cval t j k = cval s j k" if "j \<noteq> i \<or> k \<noteq> ?k" for j k
        using that by (auto simp: c(1) st2(3) st1(3) s1(4))
      show "\<exists>ty' d'. Some (ty, d) = Some (ty', d') \<and> holds x ty' d' \<and> ty' \<noteq> DBVT_BLOB" if "cval t i ?k = Some x" for x
        using that w(6,9) by (simp add: c(1) st2(3))
    qed
    then show ?thesis using run that by blast
  qed
qed

end
