(* ===== verification/DbSetOps.thy ===== *)
theory DbSetOps imports DbStored begin

text \<open>Deleting, reading and listing settings: the operations of the map that the database stores.\<close>

section \<open>Deleting\<close>

lemma erase_stored:
  assumes s: "store_ok s" and i: "known s i" and m: "47 \<notin> set (c_str m)"
    and len: "length (c_str m) \<le> 0xFE" "length (c_str n) \<le> 0xFE"
    and room: "file_end s + int (length m) + size_module < 2147483648"
  obtains t where "DeleteContactSetting (quiet enc dec) s i (Some m) (Some n) = Some (if stored s i m n = None then 1 else 0, t)"
    and "store_update s t i m n None" and "file_end t \<le> file_end s + int (length m) + size_module"
proof -
  let ?k = "key_of m n" and ?E = "quiet enc dec"
  have k: "length ?k < 512" using len by (simp add: key_of_def)
  obtain s1 where s1: "GetCachedSetting s (Some m) n = Some (?k, s1)" "store_ok s1" "same_store s s1" "cval s1 = cval s"
    "\<forall>u :: CDb3Mmap. m_lSettings u = m_lSettings s1 \<longrightarrow> resident_flag u ?k = Some 0"
    using store_name [OF s k] .
  have ok: "db_ok s" using s by (simp add: store_ok_def)
  have ok1: "db_ok s1" "names_ok s1" "values_ok s1" "coherent s1" using s1(2) by (simp_all add: store_ok_def)
  have i1: "known s1 i" using same_store_views(2) [OF s1(3) ok] i by simp
  have room1: "file_end s1 + int (length m) + size_module < 2147483648" using room same_store_end [OF s1(3)] by simp
  obtain t xs where t: "erase_in_file ?E s1 i m (c_str n) = Some (c_str n \<in> fst ` set xs, t)" "file_kept s1 t i m"
    "settings_of s1 i m = Some xs" "settings_of t i m = Some (filter (\<lambda>x. fst x \<noteq> c_str n) xs)"
    "file_end t \<le> file_end s1 + int (length m) + size_module"
    using erase_in_file_rep [OF ok1(1) i1 room1] by blast
  have xs: "settings_of s i m = Some xs" using same_store_views(3) [OF s1(3) ok i] t(3) by simp
  have sb: "same_but_space s1 t" "db_ok t" using t(2) by (simp_all add: file_kept_def)
  note c = same_but_space_cache [OF sb(1)]
  have it: "known t i" using c(4) i1 by simp
  have some: "stored s i m n = None \<longleftrightarrow> c_str n \<notin> fst ` set xs" by (simp add: stored_of [OF xs] map_of_eq_None_iff)
  have stored_t: "stored t i m l = (if c_str l = c_str n then None else stored s i m l)" for l
  proof -
    have "map_of (filter (\<lambda>x. fst x \<noteq> a) ys) b = (if b = a then None else map_of ys b)" for a b and ys :: "setting list"
      by (induction ys) auto
    then show ?thesis by (simp add: stored_of [OF xs] stored_of [OF t(4)])
  qed
  obtain u p where u: "(if c_str n \<in> fst ` set xs then do { (p, s) \<leftarrow> GetCachedValuePtr t i ?k (-1); Some (None, s) } else Some (Some (1 :: u32), t)) =
      Some (if c_str n \<in> fst ` set xs then None else Some 1, u)" "value_step t u i ((cval t i)(?k := None))"
  proof (cases "c_str n \<in> fst ` set xs")
    case True
    obtain p u where "GetCachedValuePtr t i ?k (-1) = Some (p, u)" "value_step t u i ((cval t i)(?k := None))"
      using cached_value_drop [OF sb(2) _ c_str_key [of m n] it] ok1(3) c(3) by blast
    then show ?thesis using that True by simp
  next
    case False
    have "cval s1 i ?k = None"
    proof (rule ccontr)
      assume "cval s1 i ?k \<noteq> None"
      then obtain v where "cval s1 i ?k = Some v" by blast
      then obtain ty d where "stored s1 i m n = Some (ty, d)" using ok1(4) i1 m unfolding coherent_def by blast
      then show False using False by (simp add: stored_of [OF t(3)]) (metis map_of_eq_None_iff option.distinct(1))
    qed
    then have "cval t i ?k = None" by (simp add: c(1))
    moreover have "values_ok t" using ok1(3) c(3) by simp
    ultimately have "value_step t t i ((cval t i)(?k := None))" by (intro value_step_same fun_upd_idem)
    then show ?thesis using that False by simp
  qed
  have st: "same_store t u" "values_ok u" "cval u = (cval t)(i := (cval t i)(?k := None))" "names_ok u"
    using u(2) value_step_names [OF u(2)] ok1(2) c(2) by (simp_all add: value_step_def)
  have "erase_setting ?E s i m n = Some (if c_str n \<in> fst ` set xs then None else Some 1, u)"
    using s1(1,5) t(1) u(1) by (simp add: erase_setting_eq split: if_splits)
  then have "DeleteContactSetting ?E s i (Some m) (Some n) = Some (if stored s i m n = None then 1 else 0, u)"
    using len some by (simp add: DeleteContactSetting_def)
  moreover have "store_update s u i m n None"
    by (rule store_updateI [OF s i m s1(3) t(2) st(1,4,2) stored_t]) (auto simp: st(3) c(1) s1(4))
  moreover have "file_end u \<le> file_end s + int (length m) + size_module"
    using t(5) same_store_end [OF s1(3)] same_store_end [OF st(1)] by simp
  ultimately show ?thesis by (rule that)
qed

section \<open>Reading\<close>

lemma value_bytes_at:
  assumes "setting_ok (n, t, d)" and "b = as @ setting_bytes (n, t, d) @ rest" and "p = length as + 1 + length n"
  shows "blob_at b p = Some t" and "variable t \<Longrightarrow> word_at b (p + 1) = Some (of_nat (length d)) \<and> bytes_at b (p + 3) (length d) = Some d"
    and "\<not> variable t \<Longrightarrow> bytes_at b (p + 1) (length d) = Some d"
proof -
  note place = value_place [OF assms(1,2)]
  show "blob_at b p = Some t" using place(1) assms(3) by simp
  let ?as = "as @ of_nat (length n) # n @ [t]"
  have l: "length ?as = p + 1" using assms(3) by simp
  {
    assume v: "variable t"
    have b: "b = (?as @ word_bytes (of_nat (length d))) @ d @ rest" using assms(2) v by (simp add: setting_bytes_def value_bytes_def)
    have "bytes_at b (length (?as @ word_bytes (of_nat (length d))) + 0) (length d) = Some d"
      unfolding b bytes_at_shift by (rule bytes_at_here) simp
    then show "word_at b (p + 1) = Some (of_nat (length d)) \<and> bytes_at b (p + 3) (length d) = Some d"
      using place(2) [OF v] assms(3) by (simp add: numeral_eq_Suc)
  }
  assume v: "\<not> variable t"
  have b: "b = ?as @ d @ rest" using assms(2) v by (simp add: setting_bytes_def value_bytes_def)
  have "bytes_at b (length ?as + 0) (length d) = Some d" unfolding b bytes_at_shift by (rule bytes_at_here) simp
  then show "bytes_at b (p + 1) (length d) = Some d" using l by simp
qed

lemma bytes_at_nth:
  assumes "bytes_at b p k = Some d" and "j < k"
  shows "blob_at b (p + j) = Some (d ! j)"
  using assms by (auto simp: bytes_at_def blob_at_def split: if_splits)

lemma bytes_of_word:
  "ucast (ucast x OR push_bit 8 (ucast y) :: u16) = x" "ucast (drop_bit 8 (ucast x OR push_bit 8 (ucast y) :: u16)) = y"
  for x y :: u8
  by (rule bit_word_eqI; auto simp: bit_simps dest: bit_imp_le_length)+

lemma byte_of_dword: "ucast (ucast x :: u32) = x" for x :: u8
  by (rule bit_word_eqI) (auto simp: bit_simps dest: bit_imp_le_length)

lemma word_of_dword: "ucast (ucast x :: u32) = x" for x :: u16
  by (rule bit_word_eqI) (auto simp: bit_simps dest: bit_imp_le_length)

lemma bytes_of_dword:
  "ucast (load32 x y z w) = x" "ucast (drop_bit 8 (load32 x y z w)) = y" "ucast (drop_bit 16 (load32 x y z w)) = z"
  "ucast (drop_bit 24 (load32 x y z w)) = w"
  for x y z w :: u8
  by (rule bit_word_eqI; auto simp: load32_def bit_simps dest: bit_imp_le_length)+

lemma word_of_data:
  assumes "bytes_at b p (length d) = Some d" and "length d = 2"
  obtains w where "word_at b p = Some w" and "word_bytes w = d"
proof -
  obtain x y where d: "d = [x, y]" using assms(2) by (auto simp: numeral_eq_Suc length_Suc_conv)
  have "blob_at b p = Some x" "blob_at b (p + 1) = Some y"
    using bytes_at_nth [OF assms(1), of 0] bytes_at_nth [OF assms(1), of 1] by (simp_all add: d)
  then have "word_at b p = Some (ucast x OR push_bit 8 (ucast y))" by (simp add: word_at_def)
  moreover have "word_bytes (ucast x OR push_bit 8 (ucast y)) = d" by (simp only: word_bytes_def bytes_of_word d)
  ultimately show ?thesis by (rule that)
qed

lemma dword_of_data:
  assumes "bytes_at b p (length d) = Some d" and "length d = 4"
  obtains w where "dword_at b p = Some w" and "dword_bytes w = d"
proof -
  obtain x y z w where d: "d = [x, y, z, w]" using assms(2) by (auto simp: numeral_eq_Suc length_Suc_conv)
  have "blob_at b p = Some x" "blob_at b (p + 1) = Some y" "blob_at b (p + 2) = Some z" "blob_at b (p + 3) = Some w"
    using bytes_at_nth [OF assms(1), of 0] bytes_at_nth [OF assms(1), of 1] bytes_at_nth [OF assms(1), of 2]
      bytes_at_nth [OF assms(1), of 3] by (simp_all add: d)
  then show ?thesis using that [of "load32 x y z w"] by (simp add: dword_at_def dword_bytes_def bytes_of_dword d)
qed

lemma read_value_here:
  assumes ok: "setting_ok (n, t, d)" and b: "b = as @ setting_bytes (n, t, d) @ rest" and cl: "clean_value t d"
  obtains w where "read_value (quiet enc dec) False v b (length as + 1 + length n) = Some (0, w)" and "holds w t d"
proof -
  let ?p = "length as + 1 + length n"
  note at = value_bytes_at [OF ok b refl]
  have nd: "t \<noteq> DBVT_DELETED" using cl by (auto simp: clean_value_def value_type_def is_string_def is_binary_def type_defs)
  have var: "length d < 65536" if "variable t" using ok that by (simp add: setting_ok_def)
  have num: "length d = unat t" if "\<not> variable t" using ok that by (simp add: setting_ok_def)
  from cl show ?thesis
  proof (cases rule: clean_types)
    case 1
    then have "length d = 1" using num by (simp add: type_facts type_defs)
    then obtain x where d: "d = [x]" by (auto simp: length_Suc_conv)
    have "blob_at b (?p + 1) = Some x" using bytes_at_nth [OF at(3), of 0] 1 by (simp add: type_facts d)
    then show ?thesis
      using 1 nd at(1) that [of "v\<lparr>dv_type := t, dv_val := ucast x\<rparr>"]
      by (simp add: read_value_def type_facts Let_def holds_def value_data_def d byte_of_dword)
  next
    case 2
    then have "length d = 2" using num by (simp add: type_facts type_defs)
    then obtain w where w: "word_at b (?p + 1) = Some w" "word_bytes w = d" using word_of_data [OF at(3)] 2 type_facts by metis
    then show ?thesis
      using 2 nd at(1) that [of "v\<lparr>dv_type := t, dv_val := ucast w\<rparr>"]
      by (simp add: word_of_dword read_value_def type_facts type_simps Let_def holds_def value_data_def)
  next
    case 3
    then have "length d = 4" using num by (simp add: type_facts type_defs)
    then obtain w where w: "dword_at b (?p + 1) = Some w" "dword_bytes w = d" using dword_of_data [OF at(3)] 3 type_facts by metis
    then show ?thesis
      using 3 nd at(1) that [of "v\<lparr>dv_type := t, dv_val := w\<rparr>"]
      by (simp add: read_value_def type_facts type_simps Let_def holds_def value_data_def)
  next
    case 4
    note f = type_facts(11) [OF 4]
    have "unat (of_nat (length d) :: u16) = length d" using var f by (simp add: unat_of_nat)
    moreover have "c_str (d @ [0]) = d" using cl 4 by (simp add: c_str_append0 clean_value_def c_str_id)
    ultimately show ?thesis
      using 4 f nd at(1,2) that [of "v\<lparr>dv_type := t, dv_mem := Some (d @ [0])\<rparr>"]
      by (simp add: read_value_def Let_def holds_def get_string_def)
  next
    case 5
    have vt: "variable t" "\<not> is_string t" using 5 by (simp_all add: is_string_def type_defs)
    have "unat (of_nat (length d) :: u16) = length d" using var vt by (simp add: unat_of_nat)
    moreover from this have "holds (v\<lparr>dv_type := t, dv_mem := Some d, dv_len := of_nat (length d)\<rparr>) t d"
      using 5 by (simp add: holds_def value_data_def type_facts type_simps bytes_at_def)
    ultimately show ?thesis
      using 5 vt nd at(1,2) that [of "v\<lparr>dv_type := t, dv_mem := Some d, dv_len := of_nat (length d)\<rparr>"]
      by (simp add: read_value_def Let_def get_binary_def type_facts type_simps)
  qed
qed

lemma locate_in_file:
  assumes ok: "db_ok s" and i: "known s i" and room: "file_end s + int (length m) + size_module < 2147483648"
  obtains t xs ofs mo c found where
    "GetContactOffset s i = Some (ofs, if i = 0 then None else lookup (cached s) i)"
    and "GetModuleNameOfs s m = Some (mo, t)" and "signature_at t ofs = DBCONTACT_SIGNATURE" and "DBRead_contact t ofs = Some c"
    and "locate_setting t c mo n = Some found" and "file_kept s t i m"
    and "settings_of s i m = Some xs" and "settings_of t i m = Some xs"
    and "case found of None \<Rightarrow> map_of xs n = None
      | Some (b, p) \<Rightarrow> (\<exists>ty d as rest. map_of xs n = Some (ty, d) \<and> setting_ok (n, ty, d) \<and>
          b = as @ setting_bytes (n, ty, d) @ rest \<and> p = length as + 1 + length n)"
proof -
  obtain H where rep: "db_rep s (cached s) H" and ls: "listed s (cached s) H" using db_okE [OF ok] .
  obtain S where S: "settings_rep (m_objs s) (set (roots s (cached s))) S" using db_rep_settings [OF rep] .
  obtain ofs where ofs: "(i, ofs) \<in> set (roots s (cached s))" using i unfolding known_def by force
  obtain mo s1 k c where s1: "GetModuleNameOfs s m = Some (mo, s1)" "db_rep s1 (cached s) H" "listed s1 (cached s) H"
    "settings_rep (m_objs s1) (set (roots s1 (cached s))) S" "same_but_space s s1" "m_objs s1 mo = Some (ObjModule k)"
    "mn_name k = c_str m" "file_end s1 \<le> file_end s + int (length m) + size_module" "\<forall>y v. m_objs s y = Some v \<longrightarrow> m_objs s1 y = Some v"
    "GetContactOffset s i = Some (ofs, if i = 0 then None else lookup (cached s) i)"
    "GetContactOffset s1 i = Some (ofs, if i = 0 then None else lookup (cached s) i)"
    "ofs \<noteq> 0" "(i, ofs) \<in> set (roots s1 (cached s))" "signature_at s1 ofs = DBCONTACT_SIGNATURE" "DBRead_contact s1 ofs = Some c"
    "groups_at s1 ofs c (S i)" "groups_ok (m_objs s1) (S i)"
    "GetSettingsGroupOfsByModuleNameOfs s1 mo (dc_ofsFirstSettings c) =
      Some (case find (\<lambda>g. module_of g = mo) (S i) of None \<Rightarrow> 0 | Some g \<Rightarrow> fst g)"
    using settings_lookup [OF rep ls S ofs room] .
  have dist: "distinct (map module_of (S i))" using s1(17) by (simp add: groups_ok_def)
  have kept: "m_objs s1 y = Some (ObjModule k)" if "m_objs s y = Some (ObjModule k)" for y k using s1(9) that by simp
  have "settings_rep (m_objs s1) (set (roots s1 (cached s))) (S(i := S i))" using s1(4) by simp
  note stay = file_step [OF rep S i s1(2,3) this s1(5,6,7) kept refl]
  show ?thesis
  proof (cases rule: look_up [OF s1(16) dist, where mo = mo and name = n])
    case 1
    then have "locate_setting s1 c mo n = Some None" using s1(18) by (simp add: locate_setting_def)
    then show ?thesis using that [OF s1(10,1,14,15) _ stay] 1 by simp
  next
    case (2 as x g bs xs)
    then have "locate_setting s1 c mo n = Some None" using s1(18) by (simp add: locate_setting_def)
    then show ?thesis using that [OF s1(10,1,14,15) _ stay] 2(6,7) by (simp add: map_of_eq_None_iff)
  next
    case (3 as x g bs ps ty d qs rest)
    have loc: "locate_setting s1 c mo n = Some (Some (st_blob g, length (settings_bytes ps) + 1 + length n))"
      using s1(18) 3 by (simp add: locate_setting_def)
    have "map_of (ps @ (n, ty, d) # qs) n = Some (ty, d)"
    proof -
      have "n \<notin> fst ` set ps" using 3(7) by (simp add: image_Un)
      then have "map_of ps n = None" by (simp add: map_of_eq_None_iff)
      then show ?thesis by (simp add: map_add_def)
    qed
    moreover have xs: "settings_of s i m = Some (ps @ (n, ty, d) # qs)" "settings_of s1 i m = Some (ps @ (n, ty, d) # qs)"
      using stay(2,3) 3(6) by simp_all
    ultimately show ?thesis using that [OF s1(10,1,14,15) loc stay(1) xs] 3(8,11) by auto
  qed
qed

lemma holds_cached:
  assumes "holds v t d" and "clean_value t d" and "t \<noteq> DBVT_BLOB"
  obtains w where "SetCachedVariant v = Some w" and "holds w t d"
  using assms(2)
proof (cases rule: clean_types)
  case 4
  then obtain m where m: "dv_type v = t" "dv_mem v = Some m" "c_str m = d" using assms(1) by (auto simp: holds_def)
  then have "SetCachedVariant v = Some (v\<lparr>dv_mem := Some (c_str m @ [0])\<rparr>)"
    using type_facts(11) [OF 4] 4 by (simp add: SetCachedVariant_def)
  moreover have "c_str d = d" using m(3) by auto
  ultimately show ?thesis using that 4 m by (simp add: holds_def c_str_append0)
qed (use that [of v] assms(1,3) in \<open>auto simp: SetCachedVariant_def holds_def type_facts\<close>)

lemma cache_value_rep:
  assumes ok: "db_ok s" and vals: "values_ok s" and k: "c_str k = k" and i: "known s i" and w: "SetCachedVariant v = Some w"
  obtains t where "cache_value s i k v = Some t" and "same_store s t" and "values_ok t" and "names_ok t = names_ok s"
    and "cval t = (cval s)(i := (cval s i)(k \<mapsto> w))"
proof -
  obtain t V where t: "GetCachedValuePtr s i k 1 = Some (Some V, t)" "value_step s t i ((cval s i)(k \<mapsto> V))"
    "V = (case cval s i k of None \<Rightarrow> zero_variant | Some V \<Rightarrow> V)" "cval s i k \<noteq> None \<longrightarrow> t = s"
    using cached_value_make [OF ok vals k i] .
  have st: "same_store s t" "values_ok t" "cval t = (cval s)(i := (cval s i)(k \<mapsto> V))"
    using t(2) by (simp_all add: value_step_def)
  have "cval t i k = Some V" using st(3) by simp
  then obtain u where u: "put_value t i k w = Some u" "value_step t u i ((cval t i)(k \<mapsto> w))"
    using put_value_rep [OF same_store_views(1) [OF st(1) ok] st(2) k] same_store_views(2) [OF st(1) ok] i by blast
  have "cache_value s i k v = Some u" using t(1) w u(1) by (simp add: cache_value_def)
  moreover have "same_store s u" "values_ok u" using store.R_trans [OF st(1)] u(2) by (simp_all add: value_step_def)
  moreover have "names_ok u = names_ok s" using value_step_names [OF u(2)] value_step_names [OF t(2)] by simp
  moreover have "cval u = (cval s)(i := (cval s i)(k \<mapsto> w))" using u(2) st(3) by (simp add: value_step_def)
  ultimately show ?thesis by (rule that)
qed

text \<open>A value from the cache, not into a buffer of the caller.\<close>

lemma get_cached_holds:
  assumes "holds V t d" and "clean_value t d" and "t \<noteq> DBVT_BLOB"
  obtains w where "get_cached False v V = Some (0, w)" and "holds w t d"
proof (cases "is_string t")
  case True
  then obtain m where m: "dv_type V = t" "dv_mem V = Some m" "c_str m = d" using assms(1) by (auto simp: holds_def)
  have "get_cached False v V = Some (0, V\<lparr>dv_mem := Some (d @ [0])\<rparr>)"
    using True m type_facts(11) [OF True] by (simp add: get_cached_def)
  moreover have "c_str (d @ [0]) = d" using assms(2) True by (simp add: c_str_append0 clean_value_def c_str_id)
  ultimately show ?thesis using that True m(1) by (simp add: holds_def)
next
  case False
  have "t \<noteq> DBVT_DELETED" using assms(2) by (auto simp: clean_value_def value_type_def is_string_def is_binary_def type_defs)
  then have "get_cached False v V = Some (0, V)" using False assms(1) by (simp add: get_cached_def holds_def)
  then show ?thesis using that assms(1) by simp
qed

lemma coherentD:
  assumes "coherent s" and "known s i" and "47 \<notin> set (c_str m)" and "cval s i (key_of m n) = Some x"
  shows "\<exists>ty d. stored s i m n = Some (ty, d) \<and> holds x ty d \<and> ty \<noteq> DBVT_BLOB"
  using assms unfolding coherent_def by blast

lemma read_stored:
  assumes s: "store_ok s" and i: "known s i" and m: "47 \<notin> set (c_str m)"
    and len: "length (c_str m) \<le> 0xFE" "length (c_str n) \<le> 0xFE"
    and room: "file_end s + int (length m) + size_module < 2147483648" and nm: "not_meta s i"
  obtains r w t where "GetContactSettingWorker (quiet enc dec) s i (Some m) (Some n) v False = Some (r, w, t)"
    and "store_update s t i m n (stored s i m n)"
    and "case stored s i m n of None \<Rightarrow> r = 1 | Some (ty, d) \<Rightarrow> r = 0 \<and> holds w ty d"
proof -
  let ?k = "key_of m n" and ?E = "quiet enc dec"
  have k: "length ?k < 512" using len by (simp add: key_of_def)
  have start: "GetContactSettingWorker ?E s i (Some m) (Some n) v False = seek_setting ?E n False v s i m"
    using len by (simp add: GetContactSettingWorker_def)
  obtain s1 where s1: "GetCachedSetting s (Some m) n = Some (?k, s1)" "store_ok s1" "same_store s s1" "cval s1 = cval s"
    "\<forall>u :: CDb3Mmap. m_lSettings u = m_lSettings s1 \<longrightarrow> resident_flag u ?k = Some 0"
    using store_name [OF s k] .
  have ok: "db_ok s" using s by (simp add: store_ok_def)
  have ok1: "db_ok s1" "names_ok s1" "values_ok s1" "clean s1" "coherent s1" using s1(2) by (simp_all add: store_ok_def)
  have i1: "known s1 i" using same_store_views(2) [OF s1(3) ok] i by simp
  have room1: "file_end s1 + int (length m) + size_module < 2147483648" using room same_store_end [OF s1(3)] by simp
  have stored1: "stored s1 i m l = stored s i m l" for l using same_store_views(3) [OF s1(3) ok i] by (simp add: stored_def)
  note look = cached_value_look [OF ok1(1,3) c_str_key [of m n] i1]
  have own1: "\<exists>ty d. stored s i m n = Some (ty, d) \<and> holds x ty d \<and> ty \<noteq> DBVT_BLOB" if "cval s1 i ?k = Some x" for x
    using coherentD [OF ok1(5) i1 m that] unfolding stored1 .
  have clean1: "clean_value ty d" if "stored s i m n = Some (ty, d)" for ty d
    using ok1(4) i1 that stored1 [of n] unfolding clean_def by metis
  show ?thesis
  proof (cases "cval s1 i ?k")
    case (Some V)
    then obtain ty d where d: "stored s i m n = Some (ty, d)" "holds V ty d" "ty \<noteq> DBVT_BLOB" using own1 by blast
    obtain w where w: "get_cached False v V = Some (0, w)" "holds w ty d"
      using get_cached_holds [OF d(2) clean1 [OF d(1)] d(3)] .
    have "seek_setting ?E n False v s i m = Some (0, w, s1)"
      using s1(1) look Some w(1) by (subst seek_setting.simps) simp
    moreover have "store_update s s1 i m n (stored s i m n)"
    proof (rule store_updateI [OF s i m s1(3) file_kept_refl [OF ok1(1)] store.R_refl ok1(2,3)])
      show "stored s1 i m l = (if c_str l = c_str n then stored s i m n else stored s i m l)" for l
        using stored1 by (simp add: stored_def)
      show "cval s1 j k = cval s j k" for j k by (simp add: s1(4))
    qed (use clean1 own1 in auto)
    ultimately show ?thesis using that start d(1) w(2) by simp
  next
    case None
    obtain t xs ofs mo c found where t: "GetContactOffset s1 i = Some (ofs, if i = 0 then None else lookup (cached s1) i)"
      "GetModuleNameOfs s1 m = Some (mo, t)" "signature_at t ofs = DBCONTACT_SIGNATURE" "DBRead_contact t ofs = Some c"
      "locate_setting t c mo (c_str n) = Some found" "file_kept s1 t i m" "settings_of s1 i m = Some xs" "settings_of t i m = Some xs"
      "case found of None \<Rightarrow> map_of xs (c_str n) = None
        | Some (b, p) \<Rightarrow> (\<exists>ty d as rest. map_of xs (c_str n) = Some (ty, d) \<and> setting_ok (c_str n, ty, d) \<and>
            b = as @ setting_bytes (c_str n, ty, d) @ rest \<and> p = length as + 1 + length (c_str n))"
      using locate_in_file [OF ok1(1) i1 room1] .
    have sb: "same_but_space s1 t" "db_ok t" using t(6) by (simp_all add: file_kept_def)
    note c = same_but_space_cache [OF sb(1)]
    have it: "known t i" using c(4) i1 by simp
    have st: "stored s i m l = map_of xs (c_str l)" "stored t i m l = map_of xs (c_str l)" for l
      using stored_of [OF t(7)] stored_of [OF t(8)] stored1 by simp_all
    have meta: "\<not> (case (if i = 0 then None else lookup (cached s1) i) of None \<Rightarrow> False | Some cc \<Rightarrow> IsMeta cc)"
      using nm not_meta_store [OF s1(3), of i] unfolding not_meta_def by (auto split: option.splits)
    have flag: "resident_flag s1 ?k = Some 0" using s1(5) by simp
    have upd: "store_update s u i m n (stored s i m n)"
      if "same_store t u" "names_ok u" "values_ok u" "\<And>j k. j \<noteq> i \<or> k \<noteq> ?k \<Longrightarrow> cval u j k = cval t j k"
        "\<And>x. cval u i ?k = Some x \<Longrightarrow> \<exists>ty d. stored s i m n = Some (ty, d) \<and> holds x ty d \<and> ty \<noteq> DBVT_BLOB" for u
    proof (rule store_updateI [OF s i m s1(3) t(6) that(1-3)])
      show "stored t i m l = (if c_str l = c_str n then stored s i m n else stored s i m l)" for l by (simp add: st)
      show "cval u j k = cval s j k" if "j \<noteq> i \<or> k \<noteq> ?k" for j k
        using \<open>\<And>j k. j \<noteq> i \<or> k \<noteq> ?k \<Longrightarrow> cval u j k = cval t j k\<close> [OF that] by (simp add: c(1) s1(4))
    qed (use clean1 that(5) in auto)
    have t_ok: "names_ok t" "values_ok t" "cval t i ?k = None" using c ok1 None by simp_all
    have unchanged: "store_update s t i m n (stored s i m n)"
      by (rule upd [OF store.R_refl t_ok(1,2)]) (simp_all add: t_ok(3))
    show ?thesis
    proof (cases found)
      case none: None
      have "seek_setting ?E n False v s i m = Some (1, v, t)"
        using s1(1) look None flag t(1-5) none meta by (subst seek_setting.simps) (simp split: option.split)
      moreover have "stored s i m n = None" using t(9) none st(1) by simp
      ultimately show ?thesis using that start unchanged by simp
    next
      case (Some bp)
      obtain b p where bp: "bp = (b, p)" by force
      obtain ty d as rest where f: "map_of xs (c_str n) = Some (ty, d)" "setting_ok (c_str n, ty, d)"
        "b = as @ setting_bytes (c_str n, ty, d) @ rest" "p = length as + 1 + length (c_str n)"
        using t(9) Some bp by auto
      have sd: "stored s i m n = Some (ty, d)" using st(1) f(1) by simp
      obtain w where w: "read_value ?E False v b p = Some (0, w)" "holds w ty d"
        using read_value_here [OF f(2,3) clean1 [OF sd]] f(4) by blast
      have at: "blob_at b p = Some ty" using value_bytes_at(1) [OF f(2-4)] .
      have enc: "ty \<noteq> DBVT_ENCRYPTED" using clean1 [OF sd] by (simp add: clean_value_def)
      have run: "seek_setting ?E n False v s i m =
          do { u \<leftarrow> (if ty \<noteq> DBVT_BLOB then cache_value t i ?k w else Some t); Some (0, w, u) }"
        using s1(1) look None flag t(1-5) Some bp w(1) at enc by (subst seek_setting.simps) simp
      show ?thesis
      proof (cases "ty = DBVT_BLOB")
        case True
        then show ?thesis using that start run unchanged sd w(2) by simp
      next
        case False
        obtain w' where w': "SetCachedVariant w = Some w'" "holds w' ty d" using holds_cached [OF w(2) clean1 [OF sd] False] .
        obtain u where u: "cache_value t i ?k w = Some u" "same_store t u" "values_ok u" "names_ok u = names_ok t"
          "cval u = (cval t)(i := (cval t i)(?k \<mapsto> w'))"
          using cache_value_rep [OF sb(2) t_ok(2) c_str_key [of m n] it w'(1)] .
        have "store_update s u i m n (stored s i m n)"
          by (rule upd [OF u(2) _ u(3)]) (use u(4,5) t_ok(1) w'(2) sd False in auto)
        then show ?thesis using that start run u(1) sd w(2) False by simp
      qed
    qed
  qed
qed

section \<open>Listing\<close>

lemma enum_settings_here:
  assumes "\<forall>x \<in> set xs. setting_ok x"
  shows "enum_settings (as @ settings_bytes xs @ 0 # rest) f (length as) r p =
    Some (fold (\<lambda>x (r, p). f (fst x @ [0]) p) xs (r, p))"
  using assms
proof (induction xs arbitrary: as r p)
  case Nil
  show ?case by (subst enum_settings.simps) simp
next
  case (Cons x xs)
  obtain n t d where x: "x = (n, t, d)" by (cases x)
  let ?b = "as @ setting_bytes x @ settings_bytes xs @ 0 # rest"
  have ok: "setting_ok x" using Cons.prems by simp
  then have n: "unat (of_nat (length n) :: u8) = length n" "(of_nat (length n) :: u8) \<noteq> 0"
    using x by (auto simp: setting_ok_def unat_of_nat word_unat_eq_iff)
  have at: "blob_at ?b (length as) = Some (of_nat (length n))" by (simp add: x setting_bytes_def)
  have nm: "bytes_at ?b (length as + 1) (length n) = Some n"
    using bytes_at_shift [of "as @ [of_nat (length n)]" "n @ t # value_bytes t d @ settings_bytes xs @ 0 # rest" 0]
    by (simp add: x setting_bytes_def bytes_at_here)
  have nx: "next_setting ?b (length as) = Some (length as + length (setting_bytes x))" by (rule next_setting_here [OF ok])
  obtain r' p' where f: "f (n @ [0]) p = (r', p')" by force
  have "enum_settings ?b f (length as) r p = enum_settings ?b f (length as + length (setting_bytes x)) r' p'"
    using at nm nx n f by (subst enum_settings.simps) simp
  also have "\<dots> = Some (fold (\<lambda>x (r, p). f (fst x @ [0]) p) xs (r', p'))"
    using Cons.IH [of "as @ setting_bytes x"] Cons.prems by simp
  finally show ?case using f by (simp add: x)
qed

lemma known_module:
  assumes "mods_ok s" and "m_objs s x = Some (ObjModule k)" and "mn_name k = c_str m" and "GetModuleNameOfs s m = Some (mo, t)"
  shows "m_dwFileSize t = m_dwFileSize s"
proof -
  obtain y l where y: "FindExistingModuleNameOfs s m = Some (y, s\<lparr>m_lastmn := l\<rparr>)" "mods_ok (s\<lparr>m_lastmn := l\<rparr>)"
    "y = 0 \<and> (\<forall>k \<in> names (m_objs s). md_name k \<noteq> c_str m) \<or> y \<noteq> 0 \<and> (\<exists>k. m_objs s y = Some (ObjModule k) \<and> mn_name k = c_str m)"
    using FindExisting_spec [OF assms(1)] .
  have "\<lparr>md_name = mn_name k, md_ofs = x\<rparr> \<in> names (m_objs s)" using assms(2) by (auto simp: names_def)
  then have "y \<noteq> 0" using y(3) assms(3) by (metis ModuleName.select_convs(1))
  then show ?thesis using y(1) assms(4) by (auto simp: GetModuleNameOfs_def)
qed

lemma enum_in_file:
  assumes ok: "db_ok s" and i: "known s i" and room: "file_end s + int (length m) + size_module < 2147483648"
    and xs: "settings_of s i m = Some xs" "xs \<noteq> []"
  obtains t where "EnumContactSettings s i f (Some m) p =
      Some (case fold (\<lambda>x (r, p). f (fst x @ [0]) p) xs (0, p) of (r, p) \<Rightarrow> (r, p, t))"
    and "file_kept s t i m" and "settings_of t i m = Some xs" and "distinct (map fst xs)" and "\<forall>x \<in> set xs. setting_ok x"
    and "file_end t \<le> file_end s + int (length m) + size_module"
proof -
  obtain H where rep: "db_rep s (cached s) H" and ls: "listed s (cached s) H" using db_okE [OF ok] .
  obtain S where S: "settings_rep (m_objs s) (set (roots s (cached s))) S" using db_rep_settings [OF rep] .
  obtain ofs where ofs: "(i, ofs) \<in> set (roots s (cached s))" using i unfolding known_def by force
  obtain mo s1 k c where s1: "GetModuleNameOfs s m = Some (mo, s1)" "db_rep s1 (cached s) H" "listed s1 (cached s) H"
    "settings_rep (m_objs s1) (set (roots s1 (cached s))) S" "same_but_space s s1" "m_objs s1 mo = Some (ObjModule k)"
    "mn_name k = c_str m" "file_end s1 \<le> file_end s + int (length m) + size_module" "\<forall>y v. m_objs s y = Some v \<longrightarrow> m_objs s1 y = Some v"
    "GetContactOffset s i = Some (ofs, if i = 0 then None else lookup (cached s) i)"
    "GetContactOffset s1 i = Some (ofs, if i = 0 then None else lookup (cached s) i)"
    "ofs \<noteq> 0" "(i, ofs) \<in> set (roots s1 (cached s))" "signature_at s1 ofs = DBCONTACT_SIGNATURE" "DBRead_contact s1 ofs = Some c"
    "groups_at s1 ofs c (S i)" "groups_ok (m_objs s1) (S i)"
    "GetSettingsGroupOfsByModuleNameOfs s1 mo (dc_ofsFirstSettings c) =
      Some (case find (\<lambda>g. module_of g = mo) (S i) of None \<Rightarrow> 0 | Some g \<Rightarrow> fst g)"
    using settings_lookup [OF rep ls S ofs room] .
  have dist: "distinct (map module_of (S i))" using s1(17) by (simp add: groups_ok_def)
  have kept: "m_objs s1 y = Some (ObjModule k)" if "m_objs s y = Some (ObjModule k)" for y k using s1(9) that by simp
  have "settings_rep (m_objs s1) (set (roots s1 (cached s))) (S(i := S i))" using s1(4) by simp
  note stay = file_step [OF rep S i s1(2,3) this s1(5,6,7) kept refl]
  have V: "map_of (view (S i)) mo = Some xs" using stay(2) xs by (simp split: option.splits)
  obtain as x g bs where g: "S i = as @ (x, g) # bs" "st_ofsModuleName g = mo"
    "find (\<lambda>g. module_of g = mo) (S i) = Some (x, g)"
  proof (cases rule: find_module [of mo "S i"])
    case none
    then show ?thesis using V by (metis map_of_eq_None_iff option.distinct(1))
  qed (use that in blast)
  have gx: "m_objs s1 x = Some (ObjSettings g)" "0 < x" using groups_at_object [OF s1(16), of x g] g(1) by simp_all
  obtain ys where ys: "blob_rep (st_blob g) ys" using groups_atD(7) [OF s1(16)] g(1) by auto
  have "mo \<notin> fst ` set (view (as @ bs))" using dist g(1,2) unfolding view_modules by auto
  then have "ys = xs" using blob_view(1) [OF _ g(2) ys] V g(1) by simp
  then obtain rest where b: "st_blob g = settings_bytes xs @ 0 # rest" "\<forall>x \<in> set xs. setting_ok x" "distinct (map fst xs)"
    using ys by (auto simp: blob_rep_def)
  have first: "\<exists>c. blob_at (st_blob g) 0 = Some c \<and> c \<noteq> 0"
  proof -
    obtain n t d zs where z: "xs = (n, t, d) # zs" using xs(2) by (cases xs) auto
    then have "(of_nat (length n) :: u8) \<noteq> 0" using b(2) by (auto simp: setting_ok_def unat_of_nat word_unat_eq_iff)
    then show ?thesis using b(1) z by (simp add: blob_at_def setting_bytes_def)
  qed
  obtain dbc where "m_objs s ofs = Some (ObjContact dbc)"
    "record_ok dbc (own_events (parents (cached s)) H i) (length (events_of (parents (cached s)) H i))"
    using db_rep_root [OF rep ofs] .
  then have sig: "signature_at s ofs = DBCONTACT_SIGNATURE" using s1(12) by (simp add: signature_at_def record_ok_def)
  obtain kk where kk: "m_objs s mo = Some (ObjModule kk)"
    using groups_modules [OF S ofs, of mo] V by (metis domI dom_map_of_conv_image_fst)
  have size: "m_dwFileSize s1 = m_dwFileSize s"
  proof (rule known_module [OF db_repD(3) [OF rep] kk _ s1(1)])
    show "mn_name kk = c_str m" using kept [OF kk] s1(6,7) by simp
  qed
  have "enum_settings (st_blob g) f 0 0 p = Some (fold (\<lambda>x (r, p). f (fst x @ [0]) p) xs (0, p))"
    using enum_settings_here [OF b(2), of "[]" rest f 0 p] b(1) by simp
  then have "EnumContactSettings s i f (Some m) p =
      Some (case fold (\<lambda>x (r, p). f (fst x @ [0]) p) xs (0, p) of (r, p) \<Rightarrow> (r, p, s1))"
    using s1(1,10,12,14,15,18) sig size g(3) gx first
    by (auto simp: EnumContactSettings_def Let_def DBRead_settings_def split: prod.split)
  moreover have "settings_of s1 i m = Some xs" using stay(3) V by simp
  ultimately show ?thesis using that stay(1) b(2,3) s1(8) by blast
qed

text \<open>The names of a module in their order, as \<open>DeleteModule\<close> collects them.\<close>

lemma fold_names:
  "(\<And>x. x \<in> set xs \<Longrightarrow> 0 \<notin> set (fst x)) \<Longrightarrow>
   fold (\<lambda>x (r, p). sttEnumVars (fst x @ [0]) p) xs (0, vars) = (0, vars @ map fst xs)"
  by (induction xs arbitrary: vars) (simp_all add: sttEnumVars_def c_str_append0 c_str_id)

end
