(* ===== verification/DbSetNew.thy ===== *)
theory DbSetNew imports DbSetOps begin

text \<open>A new contact has no settings, and the settings of the others stay.\<close>

lemma put_cached_fields:
  "put_cached s i f = Some t \<Longrightarrow> \<exists>l. t = s\<lparr>m_lContacts := l\<rparr>"
  by (auto simp: put_cached_def bind_eq_Some_conv)

lemma AddContact_fields:
  assumes "AddContact s = Some (i, t)"
  obtains c where "m_objs t = (m_objs s)(file_end s \<mapsto> ObjContact c)" and "dc_ofsFirstSettings c = 0"
    and "m_lGlobalSettings t = m_lGlobalSettings s" "m_lSettings t = m_lSettings s" "m_lastSetting t = m_lastSetting s"
    and "dh_ofsUser (m_dbHeader t) = dh_ofsUser (m_dbHeader s)"
proof -
  obtain x s1 s2 cc l u where u: "CreateNewSpace s size_contact = Some (x, s1)" "AddContactToCache s2 i = Some (cc, u)"
    "put_cached u i (cc_dwOfsContact_update (\<lambda>_. x)) = Some t"
    "s2 = DBWrite (put_header (s1\<lparr>m_dwMaxContactId := i + 1\<rparr>)
      (\<lambda>h. h\<lparr>dh_ofsFirstContact := x, dh_contactCount := dh_contactCount h + 1\<rparr>)) x
      (ObjContact (zero_contact\<lparr>dc_signature := DBCONTACT_SIGNATURE, dc_ofsNext := dh_ofsFirstContact (m_dbHeader s1),
        dc_dwContactID := i\<rparr>))"
    using assms by (auto simp: AddContact_def Let_def bind_eq_Some_conv)
  note sp = CreateNewSpace_spec [OF u(1)]
  have same: "m_lGlobalSettings s1 = m_lGlobalSettings s" "m_lSettings s1 = m_lSettings s" "m_lastSetting s1 = m_lastSetting s"
    using sp(5) by (simp_all add: same_but_space_def)
  obtain l where l: "t = u\<lparr>m_lContacts := l\<rparr>" using put_cached_fields [OF u(3)] by blast
  obtain k where k: "u = s2\<lparr>m_lContacts := k\<rparr>"
    using u(2) by (auto simp: AddContactToCache_def Let_def bind_eq_Some_conv split: if_splits) (metis CDb3Mmap.surjective CDb3Mmap.update_convs(10))+
  let ?c = "zero_contact\<lparr>dc_signature := DBCONTACT_SIGNATURE, dc_ofsNext := dh_ofsFirstContact (m_dbHeader s1), dc_dwContactID := i\<rparr>"
  have "m_objs t = (m_objs s)(file_end s \<mapsto> ObjContact ?c)" by (simp add: l k u(4) sp(1,4) put_header_def DBWrite_def)
  moreover have "dc_ofsFirstSettings ?c = 0" by (simp add: zero_contact_def)
  ultimately show ?thesis
    using that same header_fields [OF sp(5)] by (simp add: l k u(4) put_header_def DBWrite_def)
qed

text \<open>One more contact in the map, without settings.\<close>

definition contact_added :: "CDb3Mmap \<Rightarrow> CDb3Mmap \<Rightarrow> u32 \<Rightarrow> bool" where
  "contact_added s t i \<longleftrightarrow>
     store_ok t \<and> \<not> known s i \<and>
     (\<forall>j. known t j \<longleftrightarrow> j = i \<or> known s j) \<and>
     (\<forall>j k l. known t j \<longrightarrow> stored t j k l = (if j = i then None else stored s j k l)) \<and>
     (\<forall>j. known t j \<longrightarrow> events_forward t j = (if j = i then Some [] else events_forward s j)) \<and>
     (\<forall>j. not_meta t j \<longleftrightarrow> j = i \<or> not_meta s j)"

lemma AddContact_stored:
  assumes s: "store_ok s" and room: "file_end s + size_contact < 4294967296"
    and id: "m_dwMaxContactId s \<noteq> 0" "m_dwMaxContactId s \<noteq> -1"
  obtains t where "AddContact s = Some (m_dwMaxContactId s, t)" and "contact_added s t (m_dwMaxContactId s)"
proof -
  let ?i = "m_dwMaxContactId s" and ?x = "file_end s"
  have ok: "db_ok s" "names_ok s" "values_ok s" "clean s" "coherent s" using s by (simp_all add: store_ok_def)
  obtain H where H: "db_rep s (cached s) H" "listed s (cached s) H" using db_okE [OF ok(1)] .
  obtain t ccs where t: "AddContact s = Some (?i, t)" "db_rep t ccs (H(?i := []))"
    "set ccs = insert (plain_contact ?i ?x) (set (cached s))" "?i \<notin> cc_contactID ` set (cached s)"
    using AddContact_rep [OF H(1) room id] by metis
  have c: "cached t = ccs" using cached_table [OF db_repD(6) [OF t(2)]] .
  have ok': "db_ok t" using AddContact_ok [OF ok(1) room id] t(1) by auto
  note tab = table_distinct [OF db_repD(6) [OF H(1)]] and tab' = table_distinct [OF db_repD(6) [OF t(2)]]
  obtain cn where f: "m_objs t = (m_objs s)(?x \<mapsto> ObjContact cn)" "dc_ofsFirstSettings cn = 0"
    "m_lGlobalSettings t = m_lGlobalSettings s" "m_lSettings t = m_lSettings s" "m_lastSetting t = m_lastSetting s"
    "dh_ofsUser (m_dbHeader t) = dh_ofsUser (m_dbHeader s)"
    using AddContact_fields [OF t(1)] .
  have free: "m_objs s ?x = None" using space_end_free(1) [OF db_repD(2) [OF H(1)]] .
  have look: "lookup (cached t) j = (if j = ?i then Some (plain_contact ?i ?x) else lookup (cached s) j)" for j
    using lookup_cong [OF tab(1) t(3) tab'(1), of j] lookup_unique [OF tab'(1), of "plain_contact ?i ?x"] t(3)
    by (auto simp: c)
  have new: "\<not> known s ?i" using t(4) id(1) unfolding known_def root_known by simp
  have known: "known t j \<longleftrightarrow> j = ?i \<or> known s j" for j
    unfolding known_def root_known c t(3) by auto
  have none: "lookup (cached s) ?i = None" using t(4) by (simp add: lookup_None)
  have meta: "not_meta t j \<longleftrightarrow> j = ?i \<or> not_meta s j" for j
    using none by (simp add: not_meta_def look plain_contact_def contact_key_def IsMeta_def)
  have cv: "cval t j = (if j = ?i then Map.empty else cval s j)" for j
    using none id(1) by (simp add: cval_def cached_values_def look f(3) plain_contact_def contact_key_def)
  have names: "names_ok t" using ok(2) f(4,5) by (simp add: names_ok_def)
  have vals: "values_ok t" using ok(3) f(3) unfolding values_ok_def c t(3) by (simp add: plain_contact_def contact_key_def)
  have par: "parents ccs j = parents (cached s) j" for j
    using look [of j] none by (simp add: parents_def c plain_contact_def contact_key_def)
  have roots: "set (roots t ccs) = insert (?i, ?x) (set (roots s (cached s)))"
    unfolding roots_set f(6) t(3) by (auto simp: plain_contact_def contact_key_def)
  obtain S where S: "settings_rep (m_objs s) (set (roots s (cached s))) S" using db_rep_settings [OF H(1)] .
  have kept: "settings_kept (m_objs s) (m_objs t) (snd ` set (roots s (cached s)))"
    by (rule settings_keptI) (use free in \<open>auto simp: f(1)\<close>)
  have S': "settings_rep (m_objs t) (set (roots t (cached t))) (S(?i := []))"
    unfolding c roots
  proof (rule settings_rep_new [OF settings_rep_kept [OF S kept]])
    show "?i \<notin> fst ` set (roots s (cached s))" using new by (simp add: known_def)
    show "contact_settings (m_objs t) ?x []" by (simp add: contact_settings_def f groups_ok_def)
  qed
  have mods: "mod_name (m_objs t) y = mod_name (m_objs s) y" for y using free by (simp add: mod_name_def f(1))
  have set: "settings_of t j k = (if j = ?i then Some [] else settings_of s j k)" if "known t j" for j k
  proof -
    obtain ofs where "(j, ofs) \<in> set (roots t (cached t))" using \<open>known t j\<close> unfolding known_def by force
    then have "settings_of t j k = Some (group_settings (m_objs s) (view ((S(?i := [])) j)) (c_str k))"
      using settings_of_rep [OF _ S'] t(2) by (simp add: c group_settings_def mods)
    moreover have "settings_of s j k = Some (group_settings (m_objs s) (view (S j)) (c_str k))" if "j \<noteq> ?i"
    proof -
      have "known s j" using \<open>known t j\<close> known that by simp
      then obtain ofs where "(j, ofs) \<in> set (roots s (cached s))" unfolding known_def by force
      then show ?thesis using settings_of_rep [OF H(1) S] by simp
    qed
    ultimately show ?thesis by (simp add: group_settings_def)
  qed
  have st: "stored t j k l = (if j = ?i then None else stored s j k l)" if "known t j" for j k l
    using set [OF that, of k] by (simp add: stored_def)
  have ev: "events_forward t j = (if j = ?i then Some [] else events_forward s j)" if j: "known t j" for j
  proof -
    have "j \<in> fst ` set (roots t ccs)" using j by (simp add: known_def c)
    then have "events_forward t j = Some (map fst (events_of (parents (cached s)) (H(?i := [])) j))"
      using events_forward_rep [OF t(2)] par by (metis ext)
    moreover have "parents (cached s) j \<noteq> ?i"
      using parent_known(2) [OF db_repD(6) [OF H(1)], of j] t(4) id(1) by metis
    moreover have "parents (cached s) ?i = 0" using none by (simp add: parents_def)
    moreover have "events_forward s j = Some (map fst (events_of (parents (cached s)) H j))" if "j \<noteq> ?i"
      using events_forward_rep [OF H(1)] j known that by (simp add: known_def)
    ultimately show ?thesis by (simp add: events_of_def)
  qed
  have "clean t" using ok(4) known st unfolding clean_def by (metis option.distinct(1))
  moreover have "coherent t" using ok(5) known st cv unfolding coherent_def by auto
  ultimately have "store_ok t" using ok' names vals by (simp add: store_ok_def)
  then show ?thesis using that t(1) new known st ev meta by (simp add: contact_added_def)
qed

end
