(* ===== verification/DbSetLaws.thy ===== *)
theory DbSetLaws imports DbSetOps begin

text \<open>What the operations on settings promise one by one: the file of the driver, listing, and deleting a module.\<close>

text \<open>
  C11: \<open>WriteContactSettingWorker\<close> stores a setting of any type in the file: of the contact and
  the module the list of settings has the new value in place of one of the same type and length
  under that name, or else at its end and no other of that name; all other lists and all histories
  stay, wherever the group of the module and the module name had to be made or moved.
\<close>

theorem WriteContactSettingWorker_stores:
  assumes "db_ok s" and "known s i" and "valid_name n" and "value_type (dv_type v)" and "value_data v = Some d"
    and "write_room s m n v"
  shows "\<exists>t xs. WriteContactSettingWorker E s i m n v = Some (0, t) \<and> db_ok t \<and>
    settings_of s i m = Some xs \<and> settings_of t i m = Some (set_setting xs (c_str n, dv_type v, d)) \<and>
    (\<forall>j k. known s j \<longrightarrow> (j, c_str k) \<noteq> (i, c_str m) \<longrightarrow> settings_of t j k = settings_of s j k) \<and>
    (\<forall>j. known s j \<longrightarrow> events_forward t j = events_forward s j)"
proof -
  obtain t xs where "WriteContactSettingWorker E s i m n v = Some (0, t)" "file_kept s t i m" "settings_of s i m = Some xs"
    "settings_of t i m = Some (set_setting xs (c_str n, dv_type v, d))"
    using worker_writes [OF assms] by blast
  then show ?thesis unfolding file_kept_def by blast
qed

text \<open>
  C25: \<open>EnumContactSettings\<close> calls back once for every setting of a module that has any, in the order
  of the file, with its name, and returns the result of the last call; the names are different.
\<close>

theorem EnumContactSettings_lists:
  assumes "db_ok s" and "known s i" and "file_end s + int (length m) + size_module < 2147483648"
    and "settings_of s i m = Some xs" and "xs \<noteq> []"
  shows "\<exists>t. EnumContactSettings s i f (Some m) p =
      Some (case fold (\<lambda>x (r, p). f (fst x @ [0]) p) xs (0, p) of (r, p) \<Rightarrow> (r, p, t)) \<and>
    db_ok t \<and> distinct (map fst xs) \<and> settings_of t i m = Some xs"
proof -
  obtain t where "EnumContactSettings s i f (Some m) p =
      Some (case fold (\<lambda>x (r, p). f (fst x @ [0]) p) xs (0, p) of (r, p) \<Rightarrow> (r, p, t))"
    "file_kept s t i m" "settings_of t i m = Some xs" "distinct (map fst xs)"
    using enum_in_file [OF assms, of f p] by blast
  then show ?thesis by (auto simp: file_kept_def)
qed

section \<open>Deleting a module\<close>

lemma delete_all_stored:
  assumes "store_ok s" and "known s i" and "47 \<notin> set (c_str m)" and "length (c_str m) \<le> 0xFE"
    and "\<forall>n \<in> set ns. length (c_str n) \<le> 0xFE"
    and "file_end s + (int (length m) + size_module) * int (length ns) < 2147483648"
  shows "\<exists>t. delete_all (quiet enc dec) s i m ns = Some t \<and> store_ok t \<and>
    (\<forall>j k l. known s j \<longrightarrow> stored t j k l =
       (if j = i \<and> c_str k = c_str m \<and> c_str l \<in> c_str ` set ns then None else stored s j k l)) \<and>
    (\<forall>j. known s j \<longrightarrow> known t j \<and> events_forward t j = events_forward s j)"
  using assms
proof (induction ns arbitrary: s)
  case (Cons n ns)
  let ?c = "int (length m) + size_module"
  have pos: "0 \<le> ?c * int (length ns)" by (simp add: size_defs)
  have e: "?c * int (length (n # ns)) = ?c * int (length ns) + ?c" by (simp add: algebra_simps)
  have len: "length (c_str n) \<le> 0xFE" "\<forall>n \<in> set ns. length (c_str n) \<le> 0xFE" using Cons.prems(5) by simp_all
  have room: "file_end s + int (length m) + size_module < 2147483648" using Cons.prems(6) pos unfolding e by linarith
  obtain t where t: "DeleteContactSetting (quiet enc dec) s i (Some m) (Some n) = Some (if stored s i m n = None then 1 else 0, t)"
    "store_update s t i m n None" "file_end t \<le> file_end s + int (length m) + size_module"
    using erase_stored [OF Cons.prems(1-4) len(1) room] .
  have up: "store_ok t" "known t j = known s j"
    "known s j \<Longrightarrow> stored t j k l = (if j = i \<and> c_str k = c_str m \<and> c_str l = c_str n then None else stored s j k l)"
    "known s j \<Longrightarrow> events_forward t j = events_forward s j" for j k l
    using t(2) by (simp_all add: store_update_def)
  have "file_end t + ?c * int (length ns) < 2147483648" using Cons.prems(6) t(3) unfolding e by linarith
  then obtain u where u: "delete_all (quiet enc dec) t i m ns = Some u" "store_ok u"
    "\<forall>j k l. known t j \<longrightarrow> stored u j k l =
      (if j = i \<and> c_str k = c_str m \<and> c_str l \<in> c_str ` set ns then None else stored t j k l)"
    "\<forall>j. known t j \<longrightarrow> known u j \<and> events_forward u j = events_forward t j"
    using Cons.IH [OF up(1) _ Cons.prems(3,4) len(2)] Cons.prems(2) up(2) by blast
  have "stored u j k l = (if j = i \<and> c_str k = c_str m \<and> c_str l \<in> c_str ` set (n # ns) then None else stored s j k l)"
    if "known s j" for j k l
    using u(3) up(2,3) that by auto
  then show ?case using t(1) u up by simp
qed simp

text \<open>Collecting the names of a module leaves the map as it is.\<close>

lemma names_collected:
  assumes s: "store_ok s" and i: "known s i" and m: "47 \<notin> set (c_str m)"
    and room: "file_end s + int (length m) + size_module < 2147483648"
    and xs: "settings_of s i m = Some xs" "xs \<noteq> []"
  obtains t where "EnumContactSettings s i sttEnumVars (Some m) [] = Some (0, map fst xs, t)" and "store_ok t"
    and "\<forall>j. known t j \<longleftrightarrow> known s j" and "\<forall>j k l. known s j \<longrightarrow> stored t j k l = stored s j k l"
    and "\<forall>j. known s j \<longrightarrow> events_forward t j = events_forward s j"
    and "c_str ` fst ` set xs = fst ` set xs" and "file_end t \<le> file_end s + int (length m) + size_module"
proof -
  have ok: "db_ok s" "names_ok s" "values_ok s" "clean s" "coherent s" using s by (simp_all add: store_ok_def)
  obtain t where t: "EnumContactSettings s i sttEnumVars (Some m) [] =
      Some (case fold (\<lambda>x (r, p). sttEnumVars (fst x @ [0]) p) xs (0, []) of (r, p) \<Rightarrow> (r, p, t))"
    "file_kept s t i m" "settings_of t i m = Some xs" "\<forall>x \<in> set xs. setting_ok x"
    "file_end t \<le> file_end s + int (length m) + size_module"
    using enum_in_file [OF ok(1) i room xs] by metis
  have zero: "0 \<notin> set (fst x)" if "x \<in> set xs" for x using t(4) that by (cases x) (auto simp: setting_ok_def)
  have enum: "EnumContactSettings s i sttEnumVars (Some m) [] = Some (0, map fst xs, t)"
    using t(1) fold_names [OF zero, of xs "[]"] by simp
  have "c_str (fst x) = fst x" if "x \<in> set xs" for x using c_str_id [OF zero [OF that]] .
  then have img: "c_str ` fst ` set xs = fst ` set xs" by (simp add: image_image)
  have sb: "same_but_space s t" using t(2) by (simp add: file_kept_def)
  note cache = same_but_space_cache [OF sb]
  have upd: "store_update s t i m [] (stored s i m [])"
  proof (rule store_updateI [OF s i m store.R_refl t(2) store.R_refl])
    show "names_ok t" "values_ok t" using cache ok(2,3) by simp_all
    show "stored t i m l = (if c_str l = c_str [] then stored s i m [] else stored s i m l)" for l
      using stored_of [OF t(3)] stored_of [OF xs(1)] by simp
    show "clean_value ty d" if "stored s i m [] = Some (ty, d)" for ty d using ok(4) i that unfolding clean_def by blast
    show "cval t j k = cval s j k" for j k by (simp add: cache(1))
    show "\<exists>ty d. stored s i m [] = Some (ty, d) \<and> holds x ty d \<and> ty \<noteq> DBVT_BLOB" if "cval t i (key_of m []) = Some x" for x
      using coherentD [OF ok(5) i m] that by (simp add: cache(1))
  qed
  have same: "settings_of t j k = settings_of s j k" if "known s j" for j k
  proof (cases "(j, c_str k) = (i, c_str m)")
    case True
    then show ?thesis using t(3) xs(1) by (simp add: settings_of_def)
  qed (use t(2) that in \<open>simp add: file_kept_def\<close>)
  then have "stored t j k l = stored s j k l" if "known s j" for j k l using that by (simp add: stored_def)
  then show ?thesis using that enum upd img t(5) unfolding store_update_def by blast
qed

text \<open>
  C15: \<open>DeleteModule\<close> deletes every setting of a contact in a module that has any: it always ends,
  nothing of the module is stored or cached any more, every other setting and every history is as
  before.  (A name of 255 bytes would stay: it is written, but deleting refuses it.)
\<close>

theorem DeleteModule_empties:
  assumes "store_ok s" and "known s i" and "47 \<notin> set (c_str m)" and "length (c_str m) \<le> 0xFE"
    and "settings_of s i m = Some xs" and "xs \<noteq> []" and "\<forall>x \<in> set xs. length (fst x) \<le> 0xFE"
    and "file_end s + (int (length m) + size_module) * int (length xs + 1) < 2147483648"
  shows "\<exists>t. DeleteModule (quiet enc dec) s i m = Some (0, t) \<and> store_ok t \<and>
    (\<forall>j k l. known s j \<longrightarrow> stored t j k l = (if j = i \<and> c_str k = c_str m then None else stored s j k l)) \<and>
    (\<forall>j. known s j \<longrightarrow> known t j \<and> events_forward t j = events_forward s j)"
proof -
  let ?c = "int (length m) + size_module" and ?ns = "rev (map fst xs)"
  have e: "?c * int (length xs + 1) = ?c * int (length xs) + ?c" by (simp add: algebra_simps)
  have pos: "0 \<le> ?c * int (length xs)" by (simp add: size_defs)
  have room: "file_end s + int (length m) + size_module < 2147483648" using assms(8) pos unfolding e by linarith
  obtain t where t: "EnumContactSettings s i sttEnumVars (Some m) [] = Some (0, map fst xs, t)" "store_ok t"
    "\<forall>j. known t j \<longleftrightarrow> known s j" "\<forall>j k l. known s j \<longrightarrow> stored t j k l = stored s j k l"
    "\<forall>j. known s j \<longrightarrow> events_forward t j = events_forward s j" "c_str ` fst ` set xs = fst ` set xs"
    "file_end t \<le> file_end s + int (length m) + size_module"
    using names_collected [OF assms(1-3) room assms(5,6)] .
  have img: "c_str ` set ?ns = fst ` set xs" using t(6) by (simp add: image_comp)
  have "length (c_str (fst x)) \<le> 0xFE" if "x \<in> set xs" for x
    using assms(7) that le_trans [OF c_str_le] by blast
  then have names: "\<forall>n \<in> set ?ns. length (c_str n) \<le> 0xFE" by simp
  have "file_end t + ?c * int (length ?ns) < 2147483648" using assms(8) t(7) unfolding e by simp
  then obtain u where u: "delete_all (quiet enc dec) t i m ?ns = Some u" "store_ok u"
    "\<forall>j k l. known t j \<longrightarrow> stored u j k l =
      (if j = i \<and> c_str k = c_str m \<and> c_str l \<in> c_str ` set ?ns then None else stored t j k l)"
    "\<forall>j. known t j \<longrightarrow> known u j \<and> events_forward u j = events_forward t j"
    using delete_all_stored [OF t(2) _ assms(3,4) names] t(3) assms(2) by blast
  have "stored u j k l = (if j = i \<and> c_str k = c_str m then None else stored s j k l)" if "known s j" for j k l
  proof (cases "j = i \<and> c_str k = c_str m")
    case True
    then have "stored s j k l = map_of xs (c_str l)" using assms(5) by (simp add: stored_def settings_of_def)
    moreover have "map_of xs (c_str l) = None" if "c_str l \<notin> fst ` set xs" using that by (simp add: map_of_eq_None_iff)
    ultimately show ?thesis using u(3) t(3,4) that True img by simp
  qed (use u(3) t(3,4) that in auto)
  moreover have "DeleteModule (quiet enc dec) s i m = Some (0, u)" using t(1) u(1) by (simp add: DeleteModule_def)
  ultimately show ?thesis using u(2,4) t(3,5) by auto
qed

end
