(* ===== verification/DbSetRuns.thy ===== *)
theory DbSetRuns imports DbExamples DbSetNew DbSetLaws begin

text \<open>
  Runs of operations on settings, and what the operations of the driver promise their callers:
  through its cache and its file the database is a map from contacts, modules and names to values.
\<close>

section \<open>Refinement of operations\<close>

text \<open>A sequence of operations on a state, and on what the state stands for.\<close>

fun run_all :: "('s \<Rightarrow> 'o \<Rightarrow> ('r \<times> 's) option) \<Rightarrow> 's \<Rightarrow> 'o list \<Rightarrow> ('r list \<times> 's) option" where
  "run_all perform s [] = Some ([], s)"
| "run_all perform s (x # xs) =
     do { (r, s) \<leftarrow> perform s x; (rs, s) \<leftarrow> run_all perform s xs; Some (r # rs, s) }"

fun run_spec :: "('m \<Rightarrow> 'o \<Rightarrow> 'r \<times> 'm) \<Rightarrow> 'm \<Rightarrow> 'o list \<Rightarrow> 'r list \<times> 'm" where
  "run_spec spec m [] = ([], m)"
| "run_spec spec m (x # xs) =
     (case spec m x of (r, m) \<Rightarrow> case run_spec spec m xs of (rs, m) \<Rightarrow> (r # rs, m))"

text \<open>What an operation needs is needed in the state in which it is run.\<close>

fun all_fit :: "('s \<Rightarrow> 'o \<Rightarrow> ('r \<times> 's) option) \<Rightarrow> ('s \<Rightarrow> 'o \<Rightarrow> bool) \<Rightarrow> 's \<Rightarrow> 'o list \<Rightarrow> bool" where
  "all_fit perform fit s [] \<longleftrightarrow> True"
| "all_fit perform fit s (x # xs) \<longleftrightarrow>
     fit s x \<and> (case perform s x of None \<Rightarrow> True | Some (r, t) \<Rightarrow> all_fit perform fit t xs)"

locale refined_ops =
  fixes inv :: "'s \<Rightarrow> bool" and means :: "'s \<Rightarrow> 'm" and perform :: "'s \<Rightarrow> 'o \<Rightarrow> ('r \<times> 's) option"
    and spec :: "'m \<Rightarrow> 'o \<Rightarrow> 'r \<times> 'm" and fit :: "'s \<Rightarrow> 'o \<Rightarrow> bool" and kept :: "'s \<Rightarrow> 's \<Rightarrow> bool"
  assumes perform_spec: "inv s \<Longrightarrow> fit s x \<Longrightarrow> \<exists>r t. perform s x = Some (r, t) \<and> inv t \<and> spec (means s) x = (r, means t) \<and> kept s t"
    and kept_refl: "kept s s"
    and kept_trans: "kept s t \<Longrightarrow> kept t u \<Longrightarrow> kept s u"
begin

lemma runs_spec:
  assumes "inv s" and "all_fit perform fit s xs"
  shows "\<exists>rs t. run_all perform s xs = Some (rs, t) \<and> inv t \<and> run_spec spec (means s) xs = (rs, means t) \<and> kept s t"
  using assms
proof (induction xs arbitrary: s)
  case Nil
  then show ?case by (simp add: kept_refl)
next
  case (Cons x xs)
  obtain r t where t: "perform s x = Some (r, t)" "inv t" "spec (means s) x = (r, means t)" "kept s t"
    using perform_spec [OF Cons.prems(1), of x] Cons.prems(2) by fastforce
  then have "all_fit perform fit t xs" using Cons.prems(2) by simp
  then obtain rs u where "run_all perform t xs = Some (rs, u)" "inv u" "run_spec spec (means t) xs = (rs, means u)" "kept t u"
    using Cons.IH [OF t(2)] by blast
  then show ?case using t kept_trans [OF t(4)] by simp
qed

end

section \<open>Operations on settings\<close>

datatype set_op =
    WriteSetting u32 bytes bytes DBVARIANT
  | ReadSetting u32 bytes bytes
  | DeleteSetting u32 bytes bytes
  | NewContact

text \<open>The type and the bytes of a value that was read.\<close>

definition read_out :: "DBVARIANT \<Rightarrow> (u8 \<times> bytes) option" where
  "read_out v =
     (if is_string (dv_type v) then do { m \<leftarrow> dv_mem v; Some (dv_type v, c_str m) }
      else do { d \<leftarrow> value_data v; Some (dv_type v, d) })"

fun set_exec :: "dbenv \<Rightarrow> CDb3Mmap \<Rightarrow> set_op \<Rightarrow> ((u32 \<times> (u8 \<times> bytes) option) \<times> CDb3Mmap) option" where
  "set_exec E s (WriteSetting i m n v) =
     do { (r, s) \<leftarrow> WriteContactSetting E s i (Some m) (Some n) (Some v); Some ((r, None), s) }"
| "set_exec E s (ReadSetting i m n) =
     do {
       (r, v, s) \<leftarrow> GetContactSettingWorker E s i (Some m) (Some n) zero_variant False;
       Some ((r, if r = 0 then read_out v else None), s)
     }"
| "set_exec E s (DeleteSetting i m n) =
     do { (r, s) \<leftarrow> DeleteContactSetting E s i (Some m) (Some n); Some ((r, None), s) }"
| "set_exec E s NewContact = do { (i, s) \<leftarrow> AddContact s; Some ((0, None), s) }"

text \<open>
  The map.  Names are C strings: what follows a zero does not count.  Only values of the contacts
  that the database knows are in it.
\<close>

type_synonym setting_map = "u32 \<Rightarrow> bytes \<Rightarrow> bytes \<Rightarrow> (u8 \<times> bytes) option"

definition map_put :: "setting_map \<Rightarrow> u32 \<Rightarrow> bytes \<Rightarrow> bytes \<Rightarrow> (u8 \<times> bytes) option \<Rightarrow> setting_map" where
  "map_put M i m n w = (\<lambda>j k l. if j = i \<and> c_str k = c_str m \<and> c_str l = c_str n then w else M j k l)"

definition stored_map :: "CDb3Mmap \<Rightarrow> setting_map" where
  "stored_map s = (\<lambda>i m n. if known s i then stored s i m n else None)"

fun set_spec :: "setting_map \<Rightarrow> set_op \<Rightarrow> (u32 \<times> (u8 \<times> bytes) option) \<times> setting_map" where
  "set_spec M (WriteSetting i m n v) = ((0, None), map_put M i m n (plain v))"
| "set_spec M (ReadSetting i m n) = ((if M i m n = None then 1 else 0, M i m n), M)"
| "set_spec M (DeleteSetting i m n) = ((if M i m n = None then 1 else 0, None), map_put M i m n None)"
| "set_spec M NewContact = ((0, None), M)"

text \<open>
  What a caller owes: a contact the database knows, a module without a slash in its name, names
  that are not too long, values that are neither blobs nor encrypted, and room in the file.
\<close>

fun set_fits :: "CDb3Mmap \<Rightarrow> set_op \<Rightarrow> bool" where
  "set_fits s (WriteSetting i m n v) \<longleftrightarrow>
     known s i \<and> i \<noteq> INVALID_CONTACT_ID \<and> 47 \<notin> set (c_str m) \<and> valid_name n \<and> length (key_of m n) < 512 \<and>
     (case plain v of None \<Rightarrow> False | Some (t, d) \<Rightarrow> room_for s m n d)"
| "set_fits s (ReadSetting i m n) \<longleftrightarrow>
     known s i \<and> 47 \<notin> set (c_str m) \<and> length (c_str m) \<le> 0xFE \<and> length (c_str n) \<le> 0xFE \<and> not_meta s i \<and>
     file_end s + int (length m) + size_module < 2147483648"
| "set_fits s (DeleteSetting i m n) \<longleftrightarrow>
     known s i \<and> 47 \<notin> set (c_str m) \<and> length (c_str m) \<le> 0xFE \<and> length (c_str n) \<le> 0xFE \<and>
     file_end s + int (length m) + size_module < 2147483648"
| "set_fits s NewContact \<longleftrightarrow>
     file_end s + size_contact < 4294967296 \<and> m_dwMaxContactId s \<noteq> 0 \<and> m_dwMaxContactId s \<noteq> -1"

text \<open>What operations on settings leave alone: contacts and histories.\<close>

definition rest_kept :: "CDb3Mmap \<Rightarrow> CDb3Mmap \<Rightarrow> bool" where
  "rest_kept s t \<longleftrightarrow> (\<forall>j. not_meta s j \<longrightarrow> not_meta t j) \<and>
     (\<forall>j. known s j \<longrightarrow> known t j \<and> events_forward t j = events_forward s j)"

lemma update_means:
  assumes "store_update s t i m n w" and "known s i"
  shows "stored_map t = map_put (stored_map s) i m n w" and "rest_kept s t" and "store_ok t"
proof -
  show "rest_kept s t" "store_ok t" using assms(1) by (simp_all add: store_update_def rest_kept_def)
  have "stored t j k l = (if j = i \<and> c_str k = c_str m \<and> c_str l = c_str n then w else stored s j k l)"
    if "known s j" for j k l using assms(1) that by (simp add: store_update_def)
  moreover have "known t j = known s j" for j using assms(1) by (simp add: store_update_def)
  ultimately have "stored_map t j k l = map_put (stored_map s) i m n w j k l" for j k l
    using assms(2) by (cases "known s j") (auto simp: stored_map_def map_put_def)
  then show "stored_map t = map_put (stored_map s) i m n w" by (intro ext)
qed

lemma read_holds: "holds w t d \<Longrightarrow> read_out w = Some (t, d)"
  by (auto simp: holds_def read_out_def split: if_splits)

lemma map_put_same: "map_put (stored_map s) i m n (stored_map s i m n) = stored_map s"
proof -
  have st: "stored s i k l = stored s i m n" if "c_str k = c_str m" "c_str l = c_str n" for k l
    unfolding stored_def settings_of_def that ..
  have "map_put (stored_map s) i m n (stored_map s i m n) j k l = stored_map s j k l" for j k l
  proof (cases "j = i \<and> c_str k = c_str m \<and> c_str l = c_str n")
    case True
    then have "stored s j k l = stored s i m n" "j = i" using st [of k l] by blast+
    then show ?thesis by (simp add: map_put_def stored_map_def)
  next
    case False
    then show ?thesis unfolding map_put_def by (rule if_not_P)
  qed
  then show ?thesis by (intro ext)
qed

lemma set_exec_spec:
  assumes s: "store_ok s" and x: "set_fits s x"
  shows "\<exists>r t. set_exec (quiet enc dec) s x = Some (r, t) \<and> store_ok t \<and> set_spec (stored_map s) x = (r, stored_map t) \<and>
    rest_kept s t"
proof (cases x)
  case (WriteSetting i m n v)
  have f: "known s i" "i \<noteq> INVALID_CONTACT_ID" "47 \<notin> set (c_str m)" "valid_name n" "length (key_of m n) < 512"
    using x WriteSetting by simp_all
  obtain t d where v: "plain v = Some (t, d)" "room_for s m n d"
    using x WriteSetting by (auto split: option.splits)
  obtain u where u: "WriteContactSetting (quiet enc dec) s i (Some m) (Some n) (Some v) = Some (0, u)"
    "store_update s u i m n (Some (t, d))"
    using write_stored [OF s f v] .
  show ?thesis using u(1) update_means [OF u(2) f(1)] v(1) by (simp add: WriteSetting)
next
  case (ReadSetting i m n)
  have f: "known s i" "47 \<notin> set (c_str m)" "length (c_str m) \<le> 0xFE" "length (c_str n) \<le> 0xFE"
    "file_end s + int (length m) + size_module < 2147483648" "not_meta s i"
    using x ReadSetting by simp_all
  obtain r w t where t: "GetContactSettingWorker (quiet enc dec) s i (Some m) (Some n) zero_variant False = Some (r, w, t)"
    "store_update s t i m n (stored s i m n)"
    "case stored s i m n of None \<Rightarrow> r = 1 | Some (ty, d) \<Rightarrow> r = 0 \<and> holds w ty d"
    using read_stored [OF s f] .
  have M: "stored s i m n = stored_map s i m n" using f(1) by (simp add: stored_map_def)
  have "(r, if r = 0 then read_out w else None) = (if stored_map s i m n = None then 1 else 0, stored_map s i m n)"
    using t(3) read_holds unfolding M by (auto split: option.splits)
  then have "set_exec (quiet enc dec) s x = Some ((if stored_map s i m n = None then 1 else 0, stored_map s i m n), t)"
    using t(1) by (cases "stored_map s i m n") (simp_all add: ReadSetting split: if_splits)
  then show ?thesis using update_means [OF t(2) f(1)] by (simp add: ReadSetting M map_put_same)
next
  case (DeleteSetting i m n)
  have f: "known s i" "47 \<notin> set (c_str m)" "length (c_str m) \<le> 0xFE" "length (c_str n) \<le> 0xFE"
    "file_end s + int (length m) + size_module < 2147483648"
    using x DeleteSetting by simp_all
  obtain t where t: "DeleteContactSetting (quiet enc dec) s i (Some m) (Some n) = Some (if stored s i m n = None then 1 else 0, t)"
    "store_update s t i m n None"
    using erase_stored [OF s f] .
  show ?thesis using t(1) update_means [OF t(2) f(1)] f(1) by (simp add: DeleteSetting stored_map_def)
next
  case NewContact
  have f: "file_end s + size_contact < 4294967296" "m_dwMaxContactId s \<noteq> 0" "m_dwMaxContactId s \<noteq> -1"
    using x NewContact by simp_all
  obtain t where t: "AddContact s = Some (m_dwMaxContactId s, t)" "contact_added s t (m_dwMaxContactId s)"
    using AddContact_stored [OF s f] .
  have "rest_kept s t" "store_ok t" using t(2) by (auto simp: contact_added_def rest_kept_def)
  moreover have "stored_map t = stored_map s" using t(2) by (auto simp: contact_added_def stored_map_def fun_eq_iff)
  ultimately show ?thesis using t(1) by (simp add: NewContact)
qed

interpretation settings: refined_ops store_ok stored_map "set_exec (quiet enc dec)" set_spec set_fits rest_kept for enc dec
proof
  fix s :: CDb3Mmap and x
  assume "store_ok s" and "set_fits s x"
  then show "\<exists>r t. set_exec (quiet enc dec) s x = Some (r, t) \<and> store_ok t \<and> set_spec (stored_map s) x = (r, stored_map t) \<and>
    rest_kept s t"
    by (rule set_exec_spec)
qed (auto simp: rest_kept_def)

text \<open>
  C4: The database implements a map of settings.  Every sequence of writing, reading and deleting
  settings and adding contacts returns, through the cache of names and values and the groups of the file: the codes and
  the values that were read are those of the map, the map that is stored in the end is the one the
  sequence makes of the map at the start, the cache and the file are in order again, and no contact
  is lost and no history has changed.
\<close>

theorem settings_implement_map:
  assumes "store_ok s" and "all_fit (set_exec (quiet enc dec)) set_fits s ops"
  shows "\<exists>rs t. run_all (set_exec (quiet enc dec)) s ops = Some (rs, t) \<and>
    run_spec set_spec (stored_map s) ops = (rs, stored_map t) \<and> store_ok t \<and>
    (\<forall>j. known s j \<longrightarrow> known t j \<and> events_forward t j = events_forward s j)"
  using settings.runs_spec [OF assms] unfolding rest_kept_def by blast

section \<open>A run, applied\<close>

lemma store_ok_created:
  assumes "0 < chunk"
  shows "store_ok (CreateDbHeaders chunk)"
proof -
  let ?s = "CreateDbHeaders chunk"
  have l: "m_lSettings ?s = LIST_new 100 (SortFn stringCompare)" "m_lGlobalSettings ?s = LIST_new 50 (SortFn compareGlobals)"
    "m_lastSetting ?s = None" "m_lContacts ?s = LIST_new 50 (NumericKeySortT cc_contactID)"
    by (simp_all add: CreateDbHeaders_def)
  have c: "cached ?s = []" by (simp add: cached_def l(4) contents_rep [OF slist_rep_new])
  have t: "name_table cs_name (m_lSettings ?s) []" "name_table gv_name (m_lGlobalSettings ?s) []"
    by (simp_all add: l name_table_def name_order_defs table_rep_new)
  have names: "names_ok ?s" using t(1) l(3) by (auto simp: names_ok_def)
  have vals: "values_ok ?s" using t(2) c by (auto simp: values_ok_def)
  have r: "roots ?s [] = [(0, size_header)]" by (simp add: roots_def CreateDbHeaders_def)
  have "settings_rep (m_objs ?s) {(0, size_header)} (\<lambda>_. [])"
    by (simp add: settings_rep_def contact_settings_def groups_ok_def CreateDbHeaders_def zero_contact_def)
  then have S: "settings_rep (m_objs ?s) (set (roots ?s [])) (\<lambda>_. [])" by (simp only: r set_simps)
  have none: "stored ?s i m n = None" if i: "known ?s i" for i m n
  proof -
    have "(i, size_header) \<in> set (roots ?s [])" using i unfolding known_def c r by simp
    then have "settings_of ?s i m = Some []"
      using settings_of_rep [OF created_rep [OF assms] S] by (simp add: group_settings_def)
    then show ?thesis by (simp add: stored_of)
  qed
  have "cval ?s i k = None" for i k
    using c t(2) by (simp add: cval_def cached_values_def name_table_contents lookup_def)
  then have "coherent ?s" by (simp add: coherent_def)
  moreover have "clean ?s" using none by (simp add: clean_def)
  ultimately show ?thesis using db_ok_created [OF assms] names vals by (simp add: store_ok_def)
qed

text \<open>
  A new contact; settings of different types under the same name, for it and for the user; one of
  them is deleted.
\<close>

definition number :: "u32 \<Rightarrow> DBVARIANT" where "number x = zero_variant\<lparr>dv_type := DBVT_DWORD, dv_val := x\<rparr>"

definition utf8_text :: "bytes \<Rightarrow> DBVARIANT" where
  "utf8_text d = zero_variant\<lparr>dv_type := DBVT_UTF8, dv_mem := Some (d @ [0])\<rparr>"

definition demo_settings :: "set_op list" where
  "demo_settings =
     [NewContact, WriteSetting 1 [77] [97] (number 5), WriteSetting 1 [77] [97] (utf8_text [111, 107]),
      WriteSetting 1 [77] [98] (number 9), ReadSetting 1 [77] [97], WriteSetting 0 [77] [97] (number 7),
      DeleteSetting 1 [77] [97], ReadSetting 1 [77] [97]]"

text \<open>What \<open>set_fits\<close> looks at, for the user and the first contact, before every operation.\<close>

definition look_at :: "CDb3Mmap \<Rightarrow> int \<times> bool \<times> bool \<times> bool \<times> u32" where
  "look_at s = (file_end s, known s 0, known s 1, not_meta s 1, m_dwMaxContactId s)"

fun seen :: "CDb3Mmap \<Rightarrow> set_op list \<Rightarrow> ((int \<times> bool \<times> bool \<times> bool \<times> u32) list \<times> CDb3Mmap) option" where
  "seen s [] = Some ([], s)"
| "seen s (x # xs) =
     do { (r, t) \<leftarrow> set_exec no_handlers s x; (vs, u) \<leftarrow> seen t xs; Some (look_at s # vs, u) }"

lemma all_fit_seen:
  assumes "seen s xs = Some (vs, t)" and "list_all2 (\<lambda>v x. \<forall>s. look_at s = v \<longrightarrow> set_fits s x) vs xs"
  shows "all_fit (set_exec no_handlers) set_fits s xs" and "\<exists>rs. run_all (set_exec no_handlers) s xs = Some (rs, t)"
proof -
  have "all_fit (set_exec no_handlers) set_fits s xs \<and> (\<exists>rs. run_all (set_exec no_handlers) s xs = Some (rs, t))"
    using assms
  proof (induction xs arbitrary: s vs)
    case (Cons x xs)
    obtain r u ws where u: "set_exec no_handlers s x = Some (r, u)" "seen u xs = Some (ws, t)" "vs = look_at s # ws"
      using Cons.prems(1) by (auto simp: bind_eq_Some_conv)
    then have "set_fits s x" "list_all2 (\<lambda>v x. \<forall>s. look_at s = v \<longrightarrow> set_fits s x) ws xs" using Cons.prems(2) by simp_all
    then show ?case using Cons.IH [OF u(2)] u(1) by auto
  qed simp
  then show "all_fit (set_exec no_handlers) set_fits s xs" "\<exists>rs. run_all (set_exec no_handlers) s xs = Some (rs, t)" by simp_all
qed

text \<open>Before the settings of the contact are deleted the database has two of them.\<close>

definition shop :: CDb3Mmap where
  "shop = snd (the (seen (CreateDbHeaders 65536) (take 4 demo_settings)))"

lemma demo_seen_all:
  "map_option fst (seen (CreateDbHeaders 65536) demo_settings) =
     Some [(80, True, False, True, 1), (116, True, True, True, 2), (270, True, True, True, 2), (270, True, True, True, 2),
       (270, True, True, True, 2), (270, True, True, True, 2), (414, True, True, True, 2), (414, True, True, True, 2)]"
  by code_simp

lemma demo_seen_four:
  "map_option (\<lambda>(vs, t). (vs, look_at t, settings_of t 1 [77])) (seen (CreateDbHeaders 65536) (take 4 demo_settings)) =
     Some ([(80, True, False, True, 1), (116, True, True, True, 2), (270, True, True, True, 2), (270, True, True, True, 2)],
       (270, True, True, True, 2), Some [([97], DBVT_UTF8, [111, 107]), ([98], DBVT_DWORD, [9, 0, 0, 0])])"
  by code_simp

lemmas demo_fits = demo_settings_def look_at_def c_str_def valid_name_def key_of_def plain_def number_def utf8_text_def
  zero_variant_def type_defs is_string_def is_binary_def room_for_def INVALID_CONTACT_ID_def size_defs word_bytes_def dword_bytes_def

lemma demo_all_fit: "all_fit (set_exec no_handlers) set_fits (CreateDbHeaders 65536) demo_settings"
proof -
  obtain t where "seen (CreateDbHeaders 65536) demo_settings =
     Some ([(80, True, False, True, 1), (116, True, True, True, 2), (270, True, True, True, 2), (270, True, True, True, 2),
       (270, True, True, True, 2), (270, True, True, True, 2), (414, True, True, True, 2), (414, True, True, True, 2)], t)"
    using demo_seen_all by auto
  then show ?thesis by (rule all_fit_seen(1)) (simp add: demo_fits)
qed

lemma shop_facts:
  "store_ok shop" "known shop 1" "file_end shop = 270"
  "settings_of shop 1 [77] = Some [([97], DBVT_UTF8, [111, 107]), ([98], DBVT_DWORD, [9, 0, 0, 0])]"
proof -
  obtain t where t: "seen (CreateDbHeaders 65536) (take 4 demo_settings) =
     Some ([(80, True, False, True, 1), (116, True, True, True, 2), (270, True, True, True, 2), (270, True, True, True, 2)], t)"
    "look_at t = (270, True, True, True, 2)"
    "settings_of t 1 [77] = Some [([97], DBVT_UTF8, [111, 107]), ([98], DBVT_DWORD, [9, 0, 0, 0])]"
    using demo_seen_four by auto
  have "shop = t" using t(1) by (simp add: shop_def)
  have "list_all2 (\<lambda>v x. \<forall>s. look_at s = v \<longrightarrow> set_fits s x)
    [(80, True, False, True, 1), (116, True, True, True, 2), (270, True, True, True, 2), (270, True, True, True, 2)]
    (take 4 demo_settings)"
    by (simp add: demo_fits)
  note run = all_fit_seen [OF t(1) this]
  show "store_ok shop"
    using settings.runs_spec [OF store_ok_created, of 65536 "\<lambda>_. None" "\<lambda>_. None" "take 4 demo_settings"] run
    unfolding no_handlers_def \<open>shop = t\<close> by auto
  show "known shop 1" "file_end shop = 270" using t(2) by (simp_all add: \<open>shop = t\<close> look_at_def)
  show "settings_of shop 1 [77] = Some [([97], DBVT_UTF8, [111, 107]), ([98], DBVT_DWORD, [9, 0, 0, 0])]"
    using t(3) by (simp add: \<open>shop = t\<close>)
qed

theorem settings_implement_map_witness:
  "\<exists>rs t. run_all (set_exec (quiet (\<lambda>_. None) (\<lambda>_. None))) (CreateDbHeaders 65536) demo_settings = Some (rs, t) \<and>
    run_spec set_spec (stored_map (CreateDbHeaders 65536)) demo_settings = (rs, stored_map t) \<and> store_ok t"
  using settings_implement_map [OF store_ok_created demo_all_fit [unfolded no_handlers_def]] by auto

theorem WriteContactSettingWorker_stores_witness:
  "\<exists>t. WriteContactSettingWorker no_handlers shop 1 [77] [99]
      (zero_variant\<lparr>dv_type := DBVT_BLOB, dv_mem := Some [1, 2, 3], dv_len := 3\<rparr>) = Some (0, t) \<and>
    settings_of t 1 [77] =
      Some [([97], DBVT_UTF8, [111, 107]), ([98], DBVT_DWORD, [9, 0, 0, 0]), ([99], DBVT_BLOB, [1, 2, 3])]"
proof -
  let ?v = "zero_variant\<lparr>dv_type := DBVT_BLOB, dv_mem := Some [1, 2, 3], dv_len := 3\<rparr>"
  have "valid_name [99]" "value_type (dv_type ?v)" "value_data ?v = Some [1, 2, 3]" "write_room shop [77] [99] ?v"
    by (simp_all add: valid_name_def c_str_def value_type_def value_data_def zero_variant_def type_defs is_string_def is_binary_def bytes_at_def
        write_room_def shop_facts(3) value_size_def)
  then show ?thesis
    using WriteContactSettingWorker_stores [of shop 1 "[99]" ?v "[1, 2, 3]" "[77]" no_handlers] shop_facts
    by (auto simp: store_ok_def set_setting_def c_str_def zero_variant_def)
qed

theorem EnumContactSettings_lists_witness:
  "\<exists>t. EnumContactSettings shop 1 sttEnumVars (Some [77]) [] = Some (0, [[97], [98]], t) \<and> db_ok t"
proof -
  have "db_ok shop" using shop_facts(1) by (simp add: store_ok_def)
  then show ?thesis
    using EnumContactSettings_lists [of shop 1 "[77]" _ sttEnumVars "[]", OF _ shop_facts(2) _ shop_facts(4)] shop_facts(3)
    by (auto simp: sttEnumVars_def c_str_def size_defs)
qed

theorem DeleteModule_empties_witness:
  "\<exists>t. DeleteModule no_handlers shop 1 [77] = Some (0, t) \<and> stored t 1 [77] [97] = None \<and> stored shop 1 [77] [97] \<noteq> None"
proof -
  have "stored shop 1 [77] [97] \<noteq> None" using shop_facts(4) by (simp add: stored_def c_str_def)
  then show ?thesis
    using DeleteModule_empties [OF shop_facts(1,2) _ _ shop_facts(4), of "\<lambda>_. None" "\<lambda>_. None"] shop_facts(2,3)
    by (fastforce simp: no_handlers_def c_str_def size_defs)
qed

end
