(* ===== verification/DbSetFlaws.thy ===== *)
theory DbSetFlaws imports DbSetRuns begin

text \<open>
  Runs of the settings in which the database is not the map its callers expect, and module names
  that are cut when the file is opened again.
\<close>

text \<open>A blob in memory: the low half of its address decides what \<open>cchVal\<close> is.\<close>

definition blob_value :: "bytes \<Rightarrow> u16 \<Rightarrow> DBVARIANT" where
  "blob_value d addr = zero_variant\<lparr>dv_type := DBVT_BLOB, dv_mem := Some d, dv_len := of_nat (length d), dv_addr := addr\<rparr>"

text \<open>
  \<open>WriteContactSetting\<close> drops a new blob when the low half of its address is the length of the
  blob in the cache: it reports success but the file keeps the old bytes, because the comparison
  takes \<open>cchVal\<close> for the length and a difference for equality.
\<close>

theorem changed_blob_dropped:
  "(case run_all (set_exec no_handlers) (CreateDbHeaders 65536)
       [WriteSetting 0 [77] [97] (blob_value [1, 2, 3] 80), WriteSetting 0 [77] [97] (blob_value [1, 2, 4] 3)] of
      None \<Rightarrow> False
    | Some (rs, t) \<Rightarrow> rs = [(0, None), (0, None)] \<and> settings_of t 0 [77] = Some [([97], DBVT_BLOB, [1, 2, 3])])"
  by code_simp

text \<open>
  The names of the cache are the module, a slash and the setting, so a module with a slash in its
  name shares them with another: after \<open>c\<close> of the module \<open>a/b\<close> was written, reading \<open>b/c\<close> of the
  module \<open>a\<close>, which has no settings, finds its value.
\<close>

theorem slash_in_module:
  "(case run_all (set_exec no_handlers) (CreateDbHeaders 65536)
       [WriteSetting 0 [97, 47, 98] [99] (number 5), ReadSetting 0 [97] [98, 47, 99]] of
      None \<Rightarrow> False
    | Some (rs, t) \<Rightarrow> rs = [(0, None), (0, Some (DBVT_DWORD, [5, 0, 0, 0]))] \<and> settings_of t 0 [97] = Some [])"
  by code_simp

text \<open>
  C38: A setting whose name has 255 bytes is written, but reading and deleting refuse its name, so it
  stays in the file.
\<close>

theorem long_name_stays:
  assumes "store_ok s" and "known s i" and "i \<noteq> INVALID_CONTACT_ID" and "47 \<notin> set (c_str m)" and "length (c_str n) = 255"
    and "length (c_str m) < 256" and "plain v = Some (ty, d)" and "room_for s m n d"
  shows "\<exists>t. WriteContactSetting (quiet enc dec) s i (Some m) (Some n) (Some v) = Some (0, t) \<and> stored t i m n = Some (ty, d) \<and>
    GetContactSettingWorker (quiet enc dec) t i (Some m) (Some n) w st = Some (1, w, t) \<and>
    DeleteContactSetting (quiet enc dec) t i (Some m) (Some n) = Some (1, t)"
proof -
  have "valid_name n" "length (key_of m n) < 512" using assms(5,6) by (auto simp: valid_name_def key_of_def)
  then obtain t where "WriteContactSetting (quiet enc dec) s i (Some m) (Some n) (Some v) = Some (0, t)"
    "store_update s t i m n (Some (ty, d))"
    using write_stored [OF assms(1-4) _ _ assms(7,8)] by blast
  then show ?thesis
    using assms(2,5) by (simp add: store_update_def GetContactSettingWorker_def DeleteContactSetting_def)
qed

theorem long_name_stays_witness:
  "\<exists>t. WriteContactSetting no_handlers shop 1 (Some [77]) (Some (replicate 255 97)) (Some (number 1)) = Some (0, t) \<and>
    DeleteContactSetting no_handlers t 1 (Some [77]) (Some (replicate 255 97)) = Some (1, t)"
proof -
  have c: "c_str (replicate 255 97) = (replicate 255 97 :: bytes)" by (rule c_str_id) simp
  have p: "plain (number 1) = Some (DBVT_DWORD, [1, 0, 0, 0])" by code_simp
  have "room_for shop [77] (replicate 255 97) [1, 0, 0, 0]" using shop_facts(3) by (simp add: room_for_def)
  then show ?thesis
    using long_name_stays [OF shop_facts(1,2) _ _ _ _ p, of "[77]" "replicate 255 97" "\<lambda>_. None" "\<lambda>_. None"]
    by (auto simp: c c_str_def INVALID_CONTACT_ID_def no_handlers_def)
qed

section \<open>Long module names\<close>

text \<open>Opening a file: the lists of the names are new, and filled with the names of the chain.\<close>

definition reopen_names :: "CDb3Mmap \<Rightarrow> CDb3Mmap option" where
  "reopen_names s =
     InitModuleNames (s\<lparr>m_lMods := LIST_new 50 (SortFn ModCompare), m_lOfs := LIST_new 50 (SortFn OfsCompare), m_lastmn := None\<rparr>)
       (dh_ofsModuleNames (m_dbHeader s))"

lemma created_names:
  "mods_ok (CreateDbHeaders chunk)" if "0 < chunk"
  using db_repD(1) [of "CreateDbHeaders chunk"] db_okE [OF db_ok_created [OF that]] unfolding base_ok_def by metis

lemma find_of_lists:
  assumes "m_lMods t = m_lMods s" and "m_lastmn t = m_lastmn s" and "FindExistingModuleNameOfs s nm = Some (x, s\<lparr>m_lastmn := l\<rparr>)"
  shows "\<exists>v. FindExistingModuleNameOfs t nm = Some (x, v)"
proof (cases "case m_lastmn s of None \<Rightarrow> False | Some mn \<Rightarrow> strcmp nm (md_name mn) = 0")
  case True
  then show ?thesis using assms(3) by (simp add: FindExistingModuleNameOfs_def assms(1,2))
next
  case False
  then show ?thesis
    using assms(3) by (cases "LIST_getIndex (m_lMods s) (Some \<lparr>md_name = nm, md_ofs = 0\<rparr>)")
      (auto simp: FindExistingModuleNameOfs_def assms(1,2) bind_eq_Some_conv split: if_splits)
qed

lemma take_length_cut: "take k xs = xs \<longleftrightarrow> length xs \<le> k"
  by (metis length_take min.absorb_iff1 nle_le take_all)

lemma created_free:
  "names (m_objs (CreateDbHeaders chunk)) = {}" "m_objs (CreateDbHeaders chunk) 80 = None"
  "m_objs (CreateDbHeaders chunk) y \<noteq> Some (ObjModule k)"
  by (auto simp: names_def CreateDbHeaders_def size_defs split: if_splits)

lemma first_name_written:
  assumes chunk: "0 < chunk" and len: "length nm < 2147483000"
  obtains t where "GetModuleNameOfs (CreateDbHeaders chunk) nm = Some (80, t)"
    and "m_objs t = (m_objs (CreateDbHeaders chunk))(80 \<mapsto>
      ObjModule \<lparr>mn_ofsNext = 0, mn_cbName = of_nat (length (c_str nm)), mn_name = c_str nm\<rparr>)"
    and "dh_ofsModuleNames (m_dbHeader t) = 80"
proof -
  let ?s = "CreateDbHeaders chunk" and ?n = "c_str nm"
  have n: "length ?n \<le> length nm" by (simp add: c_str_def length_takeWhile_le)
  obtain y l where y: "FindExistingModuleNameOfs ?s nm = Some (y, ?s\<lparr>m_lastmn := l\<rparr>)"
    "y = 0 \<and> (\<forall>m \<in> names (m_objs ?s). md_name m \<noteq> ?n) \<or> y \<noteq> 0 \<and> (\<exists>m. m_objs ?s y = Some (ObjModule m) \<and> mn_name m = ?n)"
    using FindExisting_spec [OF created_names [OF chunk]] .
  then have f: "FindExistingModuleNameOfs ?s nm = Some (0, ?s\<lparr>m_lastmn := l\<rparr>)" using created_free(3) by auto
  let ?z = "?s\<lparr>m_lastmn := l\<rparr>"
  have "0 < m_ChunkSize ?z" "file_end ?z + (int (length ?n) + size_module) < 4294967296"
    using chunk len n by (simp_all add: CreateDbHeaders_def size_defs)
  then obtain s1 where s1: "CreateNewSpace ?z (int (length ?n) + size_module) = Some (file_end ?z, s1)"
    "m_lMods s1 = m_lMods ?z" "m_lOfs s1 = m_lOfs ?z" "m_lastmn s1 = m_lastmn ?z"
    by (rule CreateNewSpace_total)
  have "file_end ?z = 80" by (simp add: CreateDbHeaders_def size_defs)
  with s1(1) have c: "CreateNewSpace ?z (int (length ?n) + size_module) = Some (80, s1)" by simp
  have "dh_ofsModuleNames (m_dbHeader s1) = dh_ofsModuleNames (m_dbHeader ?z)"
    using c by (auto simp: CreateNewSpace_def Let_def put_header_def split: if_splits dest!: ReMap_same)
  then have first: "dh_ofsModuleNames (m_dbHeader s1) = 0" by (simp add: CreateDbHeaders_def)
  have "\<forall>m \<in> names (m_objs ?s). md_name m \<noteq> ?n" by (simp add: created_free)
  then obtain l1 l2 where a: "\<And>s' :: CDb3Mmap. m_lMods s' = m_lMods ?s \<Longrightarrow> m_lOfs s' = m_lOfs ?s \<Longrightarrow>
      AddToList s' ?n 80 = Some (s'\<lparr>m_lMods := l1, m_lOfs := l2\<rparr>)"
    using AddToList_spec [OF created_names [OF chunk] _ c_str_c_str created_free(2)] by fastforce
  show thesis
    by (rule that)
      (use f c chunk s1 CreateNewSpace_spec(4) [OF c] first in
        \<open>auto simp: GetModuleNameOfs_def Let_def a put_header_def DBWrite_def CreateDbHeaders_def\<close>)
qed

lemma first_name_read:
  assumes chunk: "0 < chunk" and t: "m_objs t = (m_objs (CreateDbHeaders chunk))(80 \<mapsto>
      ObjModule \<lparr>mn_ofsNext = 0, mn_cbName = b, mn_name = n\<rparr>)" "dh_ofsModuleNames (m_dbHeader t) = 80"
    and n: "c_str n = n"
  obtains u v where "reopen_names t = Some u"
    and "FindExistingModuleNameOfs u nm = Some (if c_str nm = take (unat b) n then 80 else 0, v)"
proof -
  let ?s = "CreateDbHeaders chunk" and ?cut = "take (unat b) n"
  have "0 \<notin> set n" using n using c_str_zero [of n] by simp
  then have cut: "c_str ?cut = ?cut" by (intro c_str_id) (meson in_set_takeD)
  have "\<forall>m \<in> names (m_objs ?s). md_name m \<noteq> ?cut" by (simp add: created_free)
  then obtain l3 l4 where b: "\<And>s' :: CDb3Mmap. m_lMods s' = m_lMods ?s \<Longrightarrow> m_lOfs s' = m_lOfs ?s \<Longrightarrow>
      AddToList s' ?cut 80 = Some (s'\<lparr>m_lMods := l3, m_lOfs := l4\<rparr>)"
    "\<And>(s' :: CDb3Mmap) k b. m_objs s' = (m_objs ?s)(80 \<mapsto> ObjModule \<lparr>mn_ofsNext = k, mn_cbName = b, mn_name = ?cut\<rparr>) \<Longrightarrow>
      m_lMods s' = l3 \<Longrightarrow> m_lOfs s' = l4 \<Longrightarrow> m_lastmn s' = m_lastmn ?s \<Longrightarrow> mods_ok s'"
    using AddToList_spec [OF created_names [OF chunk] _ cut created_free(2)] by fastforce
  have fresh: "m_lMods ?s = LIST_new 50 (SortFn ModCompare)" "m_lOfs ?s = LIST_new 50 (SortFn OfsCompare)" "m_lastmn ?s = None"
    by (simp_all add: CreateDbHeaders_def)
  let ?u = "t\<lparr>m_lastmn := None, m_lMods := l3, m_lOfs := l4\<rparr>"
  have r: "reopen_names t = Some ?u" by (simp add: reopen_names_def InitModuleNames.simps t b(1) fresh)
  let ?w = "?u\<lparr>m_objs := (m_objs ?s)(80 \<mapsto> ObjModule \<lparr>mn_ofsNext = 0, mn_cbName = b, mn_name = ?cut\<rparr>)\<rparr>"
  have w: "mods_ok ?w" by (rule b(2)) (simp_all add: fresh)
  obtain y k where y: "FindExistingModuleNameOfs ?w nm = Some (y, ?w\<lparr>m_lastmn := k\<rparr>)"
    "y = 0 \<and> (\<forall>m \<in> names (m_objs ?w). md_name m \<noteq> c_str nm) \<or>
     y \<noteq> 0 \<and> (\<exists>m. m_objs ?w y = Some (ObjModule m) \<and> mn_name m = c_str nm)"
    using FindExisting_spec [OF w] .
  have "y = (if c_str nm = ?cut then 80 else 0)"
    using y(2) created_free names_put [of "m_objs ?s" 80] by (auto split: if_splits)
  moreover have u: "m_lMods ?u = m_lMods ?w" "m_lastmn ?u = m_lastmn ?w" by simp_all
  obtain v where "FindExistingModuleNameOfs ?u nm = Some (y, v)" using find_of_lists [OF u y(1)] by blast
  ultimately show thesis using that [OF r] by simp
qed

text \<open>
  C31: The name of the first module of a file is found again when the file is opened exactly if it
  has less than 256 characters: the code writes the length of the name into a byte and reads as
  many characters as the byte says.
\<close>

theorem module_name_reread:
  assumes chunk: "0 < chunk" and len: "length nm < 2147483000"
  shows "\<exists>x t u v. GetModuleNameOfs (CreateDbHeaders chunk) nm = Some (x, t) \<and> x \<noteq> 0 \<and> reopen_names t = Some u \<and>
    FindExistingModuleNameOfs u nm = Some (if length (c_str nm) < 256 then x else 0, v)"
proof -
  obtain t where t: "GetModuleNameOfs (CreateDbHeaders chunk) nm = Some (80, t)"
    "m_objs t = (m_objs (CreateDbHeaders chunk))(80 \<mapsto>
      ObjModule \<lparr>mn_ofsNext = 0, mn_cbName = of_nat (length (c_str nm)), mn_name = c_str nm\<rparr>)"
    "dh_ofsModuleNames (m_dbHeader t) = 80"
    using first_name_written [OF assms] .
  obtain u v where u: "reopen_names t = Some u"
    "FindExistingModuleNameOfs u nm =
       Some (if c_str nm = take (unat (of_nat (length (c_str nm)) :: u8)) (c_str nm) then 80 else 0, v)"
    using first_name_read [OF chunk t(2,3) c_str_c_str] .
  have "c_str nm = take (unat (of_nat (length (c_str nm)) :: u8)) (c_str nm) \<longleftrightarrow> length (c_str nm) < 256"
    using take_length_cut [of "length (c_str nm) mod 256" "c_str nm"] mod_less_divisor [of 256 "length (c_str nm)"]
    by (auto simp: unat_of_nat eq_commute [of "c_str nm"])
  then show ?thesis using t(1) u by auto
qed

theorem module_name_reread_witness:
  "\<exists>x t u v. GetModuleNameOfs (CreateDbHeaders 65536) (replicate 256 97) = Some (x, t) \<and> x \<noteq> 0 \<and>
    reopen_names t = Some u \<and> FindExistingModuleNameOfs u (replicate 256 97) = Some (0, v)"
proof -
  have "c_str (replicate 256 97) = (replicate 256 97 :: bytes)" by (rule c_str_id) simp
  then show ?thesis using module_name_reread [of 65536 "replicate 256 97"] by simp
qed

end
