(* ===== verification/Spec2Isabelle.thy ===== *)
theory Spec2Isabelle imports Prelude SortedList SortedListInt MwGuarantees MirEngine DbExamples DbSetFlaws begin

text \<open>
  Miranda NG is an instant messenger for Windows: a small core (\<open>src/mir_core\<close>), an
  application on top of it (\<open>src/mir_app\<close>), and plugins (\<open>plugins\<close>, \<open>protocols\<close>) that talk to
  each other and to the core through hookable events and services, and keep their data in a
  database plugin.  This development models parts of it that have logic of their own and are
  written without the Windows interface:

  \<^item> the sorted pointer list of the core, on which its tables are built (\<open>SortedList\<close>);
  \<^item> the modular engine, the events and services through which everything is connected
    (\<open>MirModules\<close>, \<open>MirModulesProps\<close>, \<open>MirEngine\<close>);
  \<^item> the database driver \<open>plugins/Db3x_mmap\<close>, which keeps contacts, their events and
    their settings in a file, and the cache in front of it (the theories \<open>Db...\<close>);
  \<^item> the engine of the Sametime protocol (\<open>protocols/Sametime/src/meanwhile\<close>), a library in C
    that connects to a server: its buffers and codecs, messages, ciphers, channels and
    sessions (the theories \<open>Mw...\<close>).

  Names of files below are relative to the root of the repository.

  \<^bold>\<open>Sorted lists.\<close>  \<open>SortedList\<close> models \<open>src/mir_core/src/lists.cpp\<close> and the accessors of the
  template \<open>LIST\<close> of \<open>include/m_system.h\<close> on an explicit block of slots; an access outside the
  block is \<open>None\<close>.  The lemmas relate the block to the list of its values (\<open>slist_rep\<close>,
  \<open>table_rep\<close>): binary search is exact for each of the four kinds of sort functions and stays
  inside, insertion and removal do to the block what they should do to the list.  The locales
  \<open>sort_order\<close> and \<open>sorted_table\<close> are what a client needs of its sort function; they are
  interpreted on each of the sort functions of the code and on \<open>compareHooks\<close> of the engine.
  The counters of \<open>SortedList\<close> are unbounded numbers, which is what the other theories build on;
  \<open>SortedListInt\<close> has searching, insertion and removal once more with every sum the code computes
  in an \<open>int\<close> checked to fit one (\<open>c_int\<close>), shows both to be equal up to \<open>2 ^ 30\<close> elements, states
  the properties there, and shows that the search overflows with one element more.

  \<^bold>\<open>The modular engine.\<close>  \<open>MirModules\<close> models \<open>src/mir_core/src/modules.cpp\<close>, function by
  function, with \<open>mir_hash\<close> of \<open>src/mir_core/src/Windows/langpack.cpp\<close>.  The state \<open>mengine\<close>
  has the table of events (a sorted list of names and addresses), a heap of event objects, the
  table of services, and the queue of the main thread.  The procedures that plugins register
  are a parameter, \<open>me_call\<close>, a function of the call and of the state of the engine that
  returns a new state, so that a procedure may use the engine while it is called; what fields
  hold that the code does not write are parameters as well.  \<open>MirModulesProps\<close> shows that the
  tables stay in order under every plugin (\<open>engine_ok\<close>, the locale \<open>engine_client\<close>); plugins
  are sequences of calls of all functions of the engine, nested to any depth (\<open>plugin_env\<close>).
  \<open>MirEngine\<close> has the properties: an event calls its subscribers in the order in which they
  hooked it (\<open>hook_all\<close> hooks them by the functions of the engine), hooking and unhooking, the life of a service, and what goes wrong (handles given out again, numbers that
  do not fit, hashes that collide, results cut to 32 bits, events destroyed while queued).

  \<^bold>\<open>The database.\<close>  \<open>DbBase\<close> has the file as a map from offsets to the objects the driver puts
  there, the allocation of space, the chain of module names and the cache of contacts
  (\<open>src/mir_app/src/mdatabasecache.cpp\<close>).  \<open>DbEvents\<close> is \<open>dbevents.cpp\<close>: adding, deleting,
  marking, reading and finding events; \<open>DbContacts\<close> is \<open>dbcontacts.cpp\<close>: contacts, and the
  histories of metacontacts.  Handlers of the driver's notifications get the state of the
  driver and may change it; the cipher is a parameter.

  The record of a contact and the chain of its events in the file are described by a list of
  entries, sorted by time (\<open>DbChain\<close>, \<open>DbHist\<close>); a database is in order (\<open>db_rep\<close> of \<open>DbRep\<close>, \<open>db_ok\<close>
  of \<open>DbOps\<close>) when its objects do not overlap, the tables of module names (\<open>DbNames\<close>) and of
  contacts hold what is in the file, and every record describes its own history or, for a
  subcontact, its part of the history of its metacontact.  \<open>DbStore\<close>, \<open>DbRemove\<close>, \<open>DbTable\<close> and
  \<open>DbDelete\<close> show for adding, deleting and marking an event and for adding and deleting a contact
  what they do to the histories; \<open>DbOps\<close> puts the handlers back in (locale \<open>db_client\<close>: they return,
  keep the database in order and its contacts where they are), \<open>DbClient\<close> is about runs of
  operations and interprets the locale for no handlers and for one that uses the driver itself.
  What a read finds at an offset where no object begins is zeros: that is true of free space, while
  in the middle of an object the code reads whatever bytes are there.  The laws are about offsets
  of objects, or (\<open>at_boundary\<close>) exclude the middle of one.  Every write is inside the mapped file, since
  \<open>CreateNewSpace\<close> maps what it gives away (\<open>CreateNewSpace_mapped\<close>), so that only that maps it again.
  \<open>DbHistory\<close> shows that the searches of the driver enumerate the histories, \<open>DbLaws\<close> states with
  these enumerations what callers see of each operation, \<open>DbMeta\<close> and \<open>DbMerge\<close> do so for making a
  contact part of a metacontact: of \<open>Meta_Assign\<close> (\<open>src/mir_app/src/meta_utils.cpp\<close>) they have the
  checks, the entry into the cache and the merge, not the settings it writes.  \<open>DbExamples\<close> has a database in which the laws apply and the runs
  in which the driver does not do what it means to.  The laws are for files below two gigabytes,
  since module names are compared by the difference of their offsets as an \<open>int\<close>, and for merging
  for times before 2038, since events are compared by the difference of their times as an \<open>int\<close>.

  \<^bold>\<open>Settings.\<close>  A contact has settings in modules.  In the file they are one group per module, a
  block of bytes with room to grow; \<open>DbSettings\<close> is the worker of \<open>dbsettings.cpp\<close> that writes
  there, with the bytes as they are.  \<open>DbCache\<close> is what lies in front of it: the tables of names and
  values of \<open>src/mir_app/src/mdatabasecache.cpp\<close>, \<open>WriteContactSetting\<close> and \<open>DeleteModule\<close> of
  \<open>MDatabaseCommon.cpp\<close>, and reading, deleting and listing of \<open>dbsettings.cpp\<close> through the cache,
  with the search in the default contact of a metacontact.  Encoding a string, finding the account of
  a contact and the bytes after a block are parameters (\<open>dbenv\<close>).

  \<open>DbBlob\<close> relates the bytes of a block to a list of settings, \<open>DbGroups\<close> the groups in the file to
  such lists; both are part of a database being in order.  \<open>DbWrite\<close> and \<open>DbGroupOps\<close> show for each
  step of the worker (a new group, a group moved, a setting appended, cut out or overwritten) what it
  does to the lists (\<open>groups_step\<close>), \<open>DbPut\<close> composes them to the worker, \<open>DbValues\<close> states it by
  names of modules (\<open>settings_of\<close>).  \<open>DbKeys\<close> and \<open>DbCached\<close> do this for the tables of the cache:
  their operations are those of a map and leave the file alone (\<open>same_store\<close>).  \<open>DbStored\<close> and
  \<open>DbSetOps\<close> put both together: the map that the database stores (\<open>stored\<close>), the cache coherent with
  it (\<open>store_ok\<close>), and writing, reading and deleting as updates of the map (\<open>store_update\<close>);
  \<open>DbSetNew\<close> adds contacts.  \<open>DbSetLaws\<close> and \<open>DbSetRuns\<close> have the properties: the locale
  \<open>refined_ops\<close> takes the refinement of single operations to all sequences of them and is interpreted
  on the operations on settings.  \<open>DbSetFlaws\<close> has runs in which the map is not what callers expect:
  blobs, slashes in module names and names of 255 bytes, which the laws therefore exclude, and
  what becomes of module names of 256 bytes and more when the file is opened again.  The laws
  are for contacts whose settings are their own, without encryption, and with no handlers.

  \<^bold>\<open>The Sametime engine.\<close>  \<open>MwBuffer\<close> and \<open>MwTypes\<close> are \<open>common.c\<close>: buffers and the structures
  shared by messages with their \<open>get\<close>, \<open>put\<close>, \<open>clone\<close> and \<open>clear\<close>.  \<open>MwCodec\<close> has the contract
  of such functions as locales \<open>writer\<close>, \<open>reader\<close> and \<open>codec\<close>, in which the laws (a value put
  is got back, input cut short is an error) are proved once; every pair of functions interprets
  them.  \<open>MwMessage\<close> is \<open>message.c\<close>, the fifteen messages and \<open>mwMessage_get\<close>, \<open>put\<close> and
  \<open>free\<close>.  The format does not carry everything a message can hold: \<open>msg_res\<close> is what is read of
  any message, \<open>exact_msg\<close> says which messages are read as they were written.  \<open>MwCipher\<close> is \<open>cipher.c\<close>: RC2 and its modes, shown equal to RC2 on 16-bit words, and
  the key exchange, for which the arithmetic of \<open>mpi\<close> is a parameter; decryption counts in \<open>int\<close>
  and is undefined for a length that does not fit one.  \<open>MwStream\<close> is the way
  \<open>session.c\<close> cuts its input into messages.  \<open>MwState\<close> is the state of session, channels and
  services with the handlers of the client as a parameter (\<open>mwEnv\<close>); \<open>MwChannel\<close> is \<open>channel.c\<close>
  and \<open>service.c\<close>, \<open>MwSession\<close> is \<open>session.c\<close>, in which a message from the server goes through
  the session to a channel and its service.  Channels live in a heap, an access to a freed one
  is \<open>None\<close>.  \<open>MwSafety\<close> proves once for all relations of a certain kind what an operation does
  to the state (locales \<open>channel_relation\<close>, \<open>session_relation\<close>, \<open>library_client\<close>), \<open>MwSessionProps\<close>
  and \<open>MwGuarantees\<close> have the properties of the whole: no channel is lost, the login, stopping,
  independence of the chunks the network delivers, and the errors found.  Clients whose handlers
  call the library are \<open>client_env\<close>; what a login needs of its handlers to end is \<open>login_handlers\<close>.
  Writing to and closing the connection are the exception: they do not come back into the library
  before they return, as Miranda's do not.

  \<^bold>\<open>How things are modelled.\<close>  A C array is a list of optional slots, an operation that would
  touch memory it must not touch is \<open>None\<close> (\<open>Prelude\<close>).  Integers of the code are words of their
  width where the code's arithmetic can wrap, numbers where it indexes and the bound is shown.
  State is passed explicitly in the option monad; \<open>keeps\<close> and \<open>keeps_with\<close> of \<open>Prelude\<close> relate
  the state after an operation to the one before, and the locale \<open>step_relation\<close> composes this
  along the code.  No fuel is used: loops are recursive functions with a termination proof,
  those that may run on (growing a buffer of 64-bit length, searching a free channel id,
  calling the subscribers of an event that changes meanwhile, and the loops over chains in the
  file of the database, which end because it is in order) are partial functions into options,
  with theorems that say when they end.  The depth to which calls of plugins and of
  clients nest is a number that the theorems quantify over.

  \<^bold>\<open>Assumptions.\<close>  Allocation does not fail.  Critical sections are taken as giving atomic
  operations; a procedure called by an operation runs inside it, as in the code.  \<open>checkHook\<close>
  reads memory that may be free under an exception handler: a freed event counts as invalid.
  Attributes of a Sametime session are numbers or strings, and a number read from a string
  attribute is 0.

  \<^bold>\<open>Not modelled.\<close>  Of the Sametime library the services built on channels (\<open>srvc_*.c\<close>,
  \<open>st_list.c\<close>) and the texts of errors and debugging.  Of the core, everything that wraps the
  operating system (threads, files, windows, language packs).  Of the
  database driver the conversions of strings for callers, filling the cache when a file is opened, the
  encryption of a whole database (\<open>dbcrypt.cpp\<close>) and events in the format of older versions.
  The application (\<open>src/mir_app\<close>) and the other plugins and protocols are user interface or
  glue to libraries and services; libraries carried along in the repository (\<open>libs\<close>, \<open>tdlib\<close>, SQLite,
  libmdbx, hunspell and others) are not Miranda's code.
\<close>

end
